(* ===== verification/Prelude.thy ===== *)
theory Prelude
  imports Main "HOL-Library.Word"
begin

text \<open>
  The vocabulary that every component of the development shares.

  \<^item> Go's fixed-width unsigned integers are words: \<open>u8\<close>, \<open>u32\<close> and \<open>u64\<close> wrap around as the
    program's do. Go's \<open>int64\<close> (Unix milliseconds) is \<open>int\<close>: every addition of the program on such a
    value is guarded by a comparison with \<open>MaxInt64\<close>, which the model keeps.
  \<^item> A Go function that returns \<open>(value, error)\<close> returns a value of \<open>'e fault + 'a\<close>. \<open>Inl (RuleError code
    detail)\<close> is the returned error, \<open>Inl Panic\<close> an index out of range, \<open>Inl Diverge\<close> a loop that does not
    end, \<open>Inr v\<close> a nil error with the value \<open>v\<close>; \<open>no_panic\<close> excludes the two that are no result. A Go function that returns only \<open>error\<close> returns \<open>'e fault + unit\<close>.
  \<^item> \<open>and_then\<close> is the shape \<open>x, err := f(); if err != nil { return err }\<close>.
  \<^item> \<open>outcome\<close> collects the equations that turn "this call returned \<open>Inr\<close>" into the conditions that the
    call has checked; the elimination lemmas of the components are proved from it.
\<close>

named_theorems outcome \<open>equations that read off what a successful call has checked\<close>

section \<open>Machine integers\<close>

type_synonym u8 = "8 word"
type_synonym u32 = "32 word"
type_synonym u64 = "64 word"
type_synonym i64 = int

text \<open>A \<open>uuid.UUID\<close> is its sixteen bytes; a \<open>time.Time\<close> is the number of nanoseconds since Go's zero time.\<close>

type_synonym uuid = "128 word"

abbreviation uuid_Nil :: uuid where "uuid_Nil \<equiv> 0"

type_synonym go_time = int

abbreviation MaxUint32 :: u32 where "MaxUint32 \<equiv> 4294967295"

definition MaxInt64 :: i64 where "MaxInt64 = 9223372036854775807"

lemma unat_MaxUint32 [simp]: "unat MaxUint32 = 4294967295"
  by simp

lemma MaxUint32_top [simp]: "(x :: u32) \<le> MaxUint32"
proof -
  have "(MaxUint32 :: u32) = - 1" by simp
  then show ?thesis by (metis word_n1_ge)
qed

lemma less_not_MaxUint32: "(x :: u32) < y \<Longrightarrow> x \<noteq> MaxUint32"
  using MaxUint32_top [of y] by (metis leD)

lemma unat_plus_1_u32: "(x :: u32) \<noteq> MaxUint32 \<Longrightarrow> unat (x + 1) = Suc (unat x)"
proof -
  assume "x \<noteq> MaxUint32"
  then have "x < MaxUint32" using MaxUint32_top [of x] by (simp add: order_less_le)
  then have "unat x < 4294967295" by (simp add: word_less_nat_alt)
  then show ?thesis by (simp add: unat_word_ariths)
qed

lemma plus_1_neq_0_u32: "(x :: u32) \<noteq> MaxUint32 \<Longrightarrow> x + 1 \<noteq> 0"
  using unat_plus_1_u32 [of x] by (metis nat.distinct(1) unat_0)

lemma plus_1_gr_u32: "(x :: u32) \<noteq> MaxUint32 \<Longrightarrow> x < x + 1"
  by (simp add: word_less_nat_alt unat_plus_1_u32)

lemma ucast_u64_u32: "(ucast (ucast r :: u64) :: u32) = r"
  by (rule bit_word_eqI) (auto simp: bit_simps dest: bit_imp_le_length)

text \<open>Go's remainder, which takes the sign of the dividend.\<close>

definition go_rem :: "int \<Rightarrow> int \<Rightarrow> int" where
  "go_rem a b = sgn a * (\<bar>a\<bar> mod \<bar>b\<bar>)"

section \<open>Errors as values\<close>

datatype 'e fault = RuleError 'e string | Panic | Diverge

type_synonym ('e, 'a) res = "'e fault + 'a"

definition and_then :: "('e + 'a) \<Rightarrow> ('a \<Rightarrow> 'e + 'b) \<Rightarrow> 'e + 'b" where
  "and_then m f = (case m of Inl e \<Rightarrow> Inl e | Inr x \<Rightarrow> f x)"

lemma and_then_Inl [simp]: "and_then (Inl e) f = Inl e"
  by (simp add: and_then_def)

lemma and_then_Inr [simp]: "and_then (Inr x) f = f x"
  by (simp add: and_then_def)

lemma and_then_eq_Inr [outcome]: "and_then m f = Inr y \<longleftrightarrow> (\<exists>x. m = Inr x \<and> f x = Inr y)"
  by (cases m) simp_all

lemma and_then_eq_Inl:
  "and_then m f = Inl e \<longleftrightarrow> m = Inl e \<or> (\<exists>x. m = Inr x \<and> f x = Inl e)"
  by (cases m) simp_all

lemma and_then_unit [simp]: "and_then (if c then Inl e else Inr ()) f = (if c then Inl e else f ())"
  by simp

lemma not_Inr_unit: "m \<noteq> Inr () \<longleftrightarrow> (\<exists>e. m = Inl e)"
  by (cases m) simp_all

definition no_panic :: "('e, 'a) res \<Rightarrow> bool" where
  "no_panic r \<longleftrightarrow> r \<noteq> Inl Panic \<and> r \<noteq> Inl Diverge"

lemma no_panic_simps [simp]:
  "no_panic (Inr x)" "no_panic (Inl (RuleError c d))" "\<not> no_panic (Inl Panic)" "\<not> no_panic (Inl Diverge)"
  by (simp_all add: no_panic_def)

lemma no_panic_and_then:
  assumes "no_panic m" and "\<And>x. m = Inr x \<Longrightarrow> no_panic (f x)"
  shows "no_panic (and_then m f)"
  using assms by (cases m) (simp_all add: no_panic_def)

text \<open>Every engine package builds its rule errors with a constructor of this shape.\<close>

definition ruleError :: "'e \<Rightarrow> string \<Rightarrow> ('e, 'a) res" where
  "ruleError code detail = Inl (RuleError code detail)"

lemma ruleError_neq_Inr [simp]: "ruleError c d \<noteq> Inr x"
  by (simp add: ruleError_def)

lemma no_panic_ruleError [simp]: "no_panic (ruleError c d)"
  by (simp add: ruleError_def)

lemma no_panic_if: "(c \<Longrightarrow> no_panic a) \<Longrightarrow> (\<not> c \<Longrightarrow> no_panic b) \<Longrightarrow> no_panic (if c then a else b)"
  by simp

lemma no_panic_pair: "(\<And>a b. p = (a, b) \<Longrightarrow> no_panic (f a b)) \<Longrightarrow> no_panic (case p of (a, b) \<Rightarrow> f a b)"
  by (cases p) simp

lemmas no_panic_intros = no_panic_and_then no_panic_if no_panic_pair no_panic_ruleError no_panic_simps(1)

text \<open>The call returns a value; proved compositionally like \<open>no_panic\<close>.\<close>

definition succeeds :: "('e, 'a) res \<Rightarrow> bool" where
  "succeeds r \<longleftrightarrow> (\<exists>x. r = Inr x)"

lemma succeeds_Inr [simp]: "succeeds (Inr x)"
  by (simp add: succeeds_def)

lemma succeeds_and_then: "succeeds m \<Longrightarrow> (\<And>x. m = Inr x \<Longrightarrow> succeeds (f x)) \<Longrightarrow> succeeds (and_then m f)"
  by (auto simp: succeeds_def)

lemma succeeds_guard: "\<not> c \<Longrightarrow> succeeds m \<Longrightarrow> succeeds (if c then ruleError code detail else m)"
  by simp

lemma succeeds_if: "(c \<Longrightarrow> succeeds a) \<Longrightarrow> (\<not> c \<Longrightarrow> succeeds b) \<Longrightarrow> succeeds (if c then a else b)"
  by simp

lemma succeeds_pair: "(\<And>a b. p = (a, b) \<Longrightarrow> succeeds (f a b)) \<Longrightarrow> succeeds (case p of (a, b) \<Rightarrow> f a b)"
  by (cases p) simp

lemma guard_eq_Inr [outcome]: "(if c then ruleError code d else m) = Inr x \<longleftrightarrow> \<not> c \<and> m = Inr x"
  by simp

text \<open>The error that a Go function returns, when it returns one.\<close>

fun code_of :: "('e, 'a) res \<Rightarrow> 'e option" where
  "code_of (Inl (RuleError c d)) = Some c"
| "code_of _ = None"

text \<open>The two parts of what a successful transition returns.\<close>

definition state_of :: "'e + 's \<times> 'v list \<Rightarrow> 's" where "state_of r = fst (projr r)"

definition events_of :: "'e + 's \<times> 'v list \<Rightarrow> 'v list" where "events_of r = snd (projr r)"

lemma ok_result: "\<not> isl r \<Longrightarrow> r = Inr (state_of r, events_of r)"
  by (cases r) (simp_all add: state_of_def events_of_def)

section \<open>Lists\<close>

lemma find_SomeD: "find P xs = Some x \<Longrightarrow> x \<in> set xs \<and> P x"
  by (induction xs) (auto split: if_splits)

lemma find_append:
  "find P (xs @ ys) = (case find P xs of None \<Rightarrow> find P ys | Some x \<Rightarrow> Some x)"
  by (induction xs) auto

lemma find_map: "find P (map f xs) = map_option f (find (P \<circ> f) xs)"
  by (induction xs) auto

lemma map_update_eq: "f x = f (xs ! i) \<Longrightarrow> map f (xs[i := x]) = map f xs"
  by (induction xs arbitrary: i) (auto split: nat.splits)

lemma image_update_eq: "f x = f (xs ! i) \<Longrightarrow> f ` set (xs[i := x]) = f ` set xs"
  by (metis map_update_eq set_map)

lemma length_filter_neq:
  "distinct (map f xs) \<Longrightarrow> u \<in> f ` set xs \<Longrightarrow> Suc (length (filter (\<lambda>x. f x \<noteq> u) xs)) = length xs"
proof (induction xs)
  case (Cons a xs)
  show ?case
  proof (cases "f a = u")
    case True
    with Cons.prems(1) have "\<forall>x \<in> set xs. f x \<noteq> u" by (auto simp: image_iff)
    with True show ?thesis by simp
  next
    case False
    with Cons show ?thesis by auto
  qed
qed simp

lemma sort_key_strict:
  assumes "distinct (map f xs)"
  shows "sorted_wrt (<) (map f (sort_key f xs))"
proof -
  have "distinct (map f (sort_key f xs))"
    using assms by (simp add: distinct_map)
  then show ?thesis by (simp add: strict_sorted_iff)
qed

lemma strict_ranks_distinct:
  "sorted_wrt (\<lambda>a b. (f a :: nat) < f b) xs \<Longrightarrow> distinct (map f xs)"
  by (induction xs) auto

lemma concat_length_bound:
  "\<forall>x \<in> set xs. length (f x) = n \<Longrightarrow> length (concat (map f xs)) = length xs * n"
  by (induction xs) auto

text \<open>A list whose one element of that key changes.\<close>

lemma update_as_map:
  assumes "distinct (map f xs)" and "i < length xs"
  shows "xs[i := g (xs ! i)] = map (\<lambda>x. if f x = f (xs ! i) then g x else x) xs"
proof (rule nth_equalityI)
  fix k assume "k < length (xs[i := g (xs ! i)])"
  then have k: "k < length xs" by simp
  with assms have "f (xs ! k) = f (xs ! i) \<longleftrightarrow> k = i" by (metis length_map nth_eq_iff_index_eq nth_map)
  with k show "xs[i := g (xs ! i)] ! k = map (\<lambda>x. if f x = f (xs ! i) then g x else x) xs ! k"
    by (auto simp: nth_list_update)
qed simp

end
