(* ===== verification/Players.thy ===== *)
theory Players
  imports Prelude
begin

text \<open>
  Two interfaces that the game engines share.

  \<^item> \<open>player_table\<close> is the contract of \<open>playerIndex\<close> and \<open>activeCount\<close>, which every engine package has
    over its own \<open>PlayerState\<close>; \<open>turn_order\<close> adds the search for the next active player. The lemmas on
    lookups, on removing a player and on who moves next are proved once here.
  \<^item> \<open>session_engine\<close> is the contract of an engine towards the runtime: a step either rejects and leaves
    the state, or returns the next state with its events. What a whole session keeps is proved once here, for
    the commands that the engine's invariant admits.
\<close>

section \<open>Tables of players\<close>

locale player_table =
  fixes uid :: "'p \<Rightarrow> string"
    and act :: "'p \<Rightarrow> bool"
    and index :: "'p list \<Rightarrow> string \<Rightarrow> nat option"
    and active_count :: "'p list \<Rightarrow> nat"
  assumes index_Nil: "index [] u = None"
    and index_Cons: "index (p # ps) u = (if uid p = u then Some 0 else map_option Suc (index ps u))"
    and count_Nil: "active_count [] = 0"
    and count_Cons: "active_count (p # ps) = (if act p then Suc (active_count ps) else active_count ps)"
begin

lemma index_SomeD:
  "index ps u = Some i \<Longrightarrow> i < length ps \<and> uid (ps ! i) = u"
  by (induction ps arbitrary: i) (auto simp: index_Nil index_Cons split: if_splits)

lemma index_None_iff: "index ps u = None \<longleftrightarrow> u \<notin> uid ` set ps"
  by (induction ps) (auto simp: index_Nil index_Cons)

lemma index_Some_iff: "(\<exists>i. index ps u = Some i) \<longleftrightarrow> u \<in> uid ` set ps"
  using index_None_iff by (metis not_None_eq)

lemma index_cong: "map uid ps = map uid qs \<Longrightarrow> index ps u = index qs u"
proof (induction ps arbitrary: qs)
  case Nil
  then show ?case by (simp add: index_Nil)
next
  case (Cons p ps)
  then obtain q qs' where "qs = q # qs'" "uid p = uid q" "map uid ps = map uid qs'"
    by (cases qs) auto
  with Cons.IH [of qs'] show ?case by (simp add: index_Cons)
qed

lemma index_update [simp]:
  assumes "i < length ps" and "uid p = uid (ps ! i)"
  shows "index (ps[i := p]) u = index ps u"
proof (rule index_cong)
  from assms(2) show "map uid (ps[i := p]) = map uid ps" by (rule map_update_eq)
qed

lemma index_nth:
  assumes "distinct (map uid ps)" and "i < length ps"
  shows "index ps (uid (ps ! i)) = Some i"
proof -
  have "index ps (uid (ps ! i)) \<noteq> None" using assms(2) by (auto simp: index_None_iff)
  then obtain j where j: "index ps (uid (ps ! i)) = Some j" by blast
  from index_SomeD [OF j] have "j < length ps" "uid (ps ! j) = uid (ps ! i)" by auto
  with assms have "j = i" by (simp add: distinct_conv_nth) blast
  with j show ?thesis by simp
qed

lemma count_filter: "active_count ps = length (filter act ps)"
  by (induction ps) (auto simp: count_Nil count_Cons)

lemma count_le: "active_count ps \<le> length ps"
  by (simp add: count_filter)

lemma count_update_same:
  "i < length ps \<Longrightarrow> act p = act (ps ! i) \<Longrightarrow> active_count (ps[i := p]) = active_count ps"
  by (induction ps arbitrary: i) (auto simp: count_Cons split: nat.splits)

lemma count_update_off:
  "i < length ps \<Longrightarrow> act (ps ! i) \<Longrightarrow> \<not> act p \<Longrightarrow> Suc (active_count (ps[i := p])) = active_count ps"
  by (induction ps arbitrary: i) (auto simp: count_Cons split: nat.splits)

lemma count_pos_iff: "0 < active_count ps \<longleftrightarrow> (\<exists>i < length ps. act (ps ! i))"
  by (metis count_filter filter_empty_conv in_set_conv_nth length_greater_0_conv)

text \<open>Two active players: whichever index is left out, another one is active.\<close>

lemma count_other:
  assumes "2 \<le> active_count ps"
  shows "\<exists>j < length ps. j \<noteq> i \<and> act (ps ! j)"
proof (rule ccontr)
  assume "\<not> ?thesis"
  then have "{j. j < length ps \<and> act (ps ! j)} \<subseteq> {i}" by auto
  then have "card {j. j < length ps \<and> act (ps ! j)} \<le> 1"
    using card_mono [of "{i}"] by simp
  with assms show False by (simp add: count_filter length_filter_conv_card)
qed

text \<open>The player of that identity is in the table and active.\<close>

definition active_user :: "'p list \<Rightarrow> string \<Rightarrow> bool" where
  "active_user ps u \<longleftrightarrow> (case index ps u of None \<Rightarrow> False | Some i \<Rightarrow> act (ps ! i))"

lemma active_userI:
  "distinct (map uid ps) \<Longrightarrow> p \<in> set ps \<Longrightarrow> act p \<Longrightarrow> active_user ps (uid p)"
  by (metis active_user_def in_set_conv_nth index_nth option.simps(5))

lemma active_userD: "active_user ps u \<Longrightarrow> \<exists>p \<in> set ps. uid p = u \<and> act p"
  by (auto simp: active_user_def dest!: index_SomeD split: option.splits)

lemma active_user_in: "active_user ps u \<Longrightarrow> u \<in> uid ` {p \<in> set ps. act p}"
  using active_userD by blast

lemma active_user_mem: "active_user ps u \<Longrightarrow> u \<in> uid ` set ps"
  using active_userD by blast

lemma active_user_iff:
  "distinct (map uid ps) \<Longrightarrow> active_user ps u \<longleftrightarrow> (\<exists>p \<in> set ps. uid p = u \<and> act p)"
  by (blast intro: active_userI dest: active_userD)

lemma active_user_update:
  "i < length ps \<Longrightarrow> uid p = uid (ps ! i) \<Longrightarrow> act p = act (ps ! i) \<Longrightarrow>
     active_user (ps[i := p]) u = active_user ps u"
  by (auto simp: active_user_def nth_list_update split: option.splits)

lemma active_user_off:
  assumes "distinct (map uid ps)" and "i < length ps" and "uid p = uid (ps ! i)" and "\<not> act p"
  shows "active_user (ps[i := p]) u \<longleftrightarrow> active_user ps u \<and> u \<noteq> uid (ps ! i)"
proof (cases "u = uid (ps ! i)")
  case True
  with assms index_nth [OF assms(1,2)] show ?thesis by (simp add: active_user_def)
next
  case False
  then have "j \<noteq> i" if "index ps u = Some j" for j using index_SomeD [OF that] by auto
  with False assms show ?thesis by (auto simp: active_user_def split: option.splits)
qed

lemma active_users_card:
  assumes "distinct (map uid ps)"
  shows "card (uid ` {p \<in> set ps. act p}) = active_count ps"
proof -
  have "distinct (map uid (filter act ps))"
    using assms by (simp add: distinct_map inj_on_def)
  then have "card (set (map uid (filter act ps))) = length (filter act ps)"
    by (metis distinct_card length_map)
  then show ?thesis by (simp add: count_filter)
qed

end

section \<open>Turn order\<close>

text \<open>The seats reached by the offsets \<open>1, \<dots>, n - 1\<close> from seat \<open>i\<close>, in either direction.\<close>

lemma ring_forward:
  fixes i n :: nat
  assumes "i < n"
  shows "(\<lambda>k. (i + k) mod n) ` {1..<n} = {..<n} - {i}"
proof (intro set_eqI iffI)
  fix j assume "j \<in> (\<lambda>k. (i + k) mod n) ` {1..<n}"
  then obtain k where k: "1 \<le> k" "k < n" "j = (i + k) mod n" by auto
  have "j \<noteq> i"
  proof (cases "i + k < n")
    case False
    then have "j = i + k - n" using assms k by (simp add: mod_if)
    with False k show ?thesis by simp
  qed (use k in simp)
  with k assms show "j \<in> {..<n} - {i}" by simp
next
  fix j assume j: "j \<in> {..<n} - {i}"
  define k where "k = (if i < j then j - i else j + n - i)"
  have "(i + k) mod n = j" "1 \<le> k" "k < n" using j assms by (auto simp: k_def)
  then show "j \<in> (\<lambda>k. (i + k) mod n) ` {1..<n}" by force
qed

lemma ring_backward:
  fixes i n :: nat
  assumes "i < n"
  shows "(\<lambda>k. (i + n - k) mod n) ` {1..<n} = {..<n} - {i}"
proof (intro set_eqI iffI)
  fix j assume "j \<in> (\<lambda>k. (i + n - k) mod n) ` {1..<n}"
  then obtain k where k: "1 \<le> k" "k < n" "j = (i + n - k) mod n" by auto
  have "j \<noteq> i"
  proof (cases "k \<le> i")
    case True
    then have "i + n - k = (i - k) + n" by simp
    with assms k have "j = i - k" by (simp only: mod_add_self2) simp
    with True k show ?thesis by simp
  next
    case False
    then have "j = i + n - k" using assms k by simp
    with k show ?thesis by simp
  qed
  with k assms show "j \<in> {..<n} - {i}" by simp
next
  fix j assume j: "j \<in> {..<n} - {i}"
  define k where "k = (if j < i then i - j else i + n - j)"
  have "(i + n - k) mod n = j" "1 \<le> k" "k < n" using j assms by (auto simp: k_def)
  then show "j \<in> (\<lambda>k. (i + n - k) mod n) ` {1..<n}" by force
qed

text \<open>
  The search inspects the indices of a list that visits every seat and ends with the seat it starts
  from; it returns the first active player on it.
\<close>

locale turn_order = player_table uid act index active_count
  for uid :: "'p \<Rightarrow> string" and act :: "'p \<Rightarrow> bool" and index active_count +
  fixes next_active :: "'p list \<Rightarrow> string \<Rightarrow> string option"
  assumes next_found: "index ps u = Some i \<Longrightarrow>
    \<exists>js. set js = {..<length ps} - {i} \<and>
      next_active ps u = map_option (\<lambda>j. uid (ps ! j)) (find (\<lambda>j. act (ps ! j)) (js @ [i]))"
begin

lemma next_SomeD:
  assumes "index ps u = Some i" and "next_active ps u = Some v"
  shows "\<exists>js j. set js = {..<length ps} - {i} \<and> find (\<lambda>j. act (ps ! j)) (js @ [i]) = Some j \<and>
    v = uid (ps ! j)"
proof -
  from next_found [OF assms(1)] obtain js where js: "set js = {..<length ps} - {i}"
    and n: "next_active ps u = map_option (\<lambda>j. uid (ps ! j)) (find (\<lambda>j. act (ps ! j)) (js @ [i]))"
    by blast
  with assms(2) show ?thesis by (cases "find (\<lambda>j. act (ps ! j)) (js @ [i])") auto
qed

lemma next_exists:
  assumes "index ps u = Some i" and "0 < active_count ps"
  shows "\<exists>v. next_active ps u = Some v"
proof -
  from next_found [OF assms(1)] obtain js where js: "set js = {..<length ps} - {i}"
    and n: "next_active ps u = map_option (\<lambda>j. uid (ps ! j)) (find (\<lambda>j. act (ps ! j)) (js @ [i]))"
    by blast
  from assms(2) obtain j where j: "j < length ps" "act (ps ! j)" by (auto simp: count_pos_iff)
  then have "j \<in> set (js @ [i])" using js by auto
  with j have "find (\<lambda>j. act (ps ! j)) (js @ [i]) \<noteq> None" by (auto simp: find_None_iff)
  with n show ?thesis by auto
qed

lemma next_active_user:
  assumes "distinct (map uid ps)" and "index ps u = Some i" and "next_active ps u = Some v"
  shows "active_user ps v"
proof -
  from next_SomeD [OF assms(2,3)] obtain js j where "set js = {..<length ps} - {i}"
    and "find (\<lambda>j. act (ps ! j)) (js @ [i]) = Some j" and "v = uid (ps ! j)"
    by blast
  then have "j \<in> set (js @ [i])" "act (ps ! j)" by (auto dest!: find_SomeD simp del: set_append)
  moreover have "i < length ps" using index_SomeD [OF assms(2)] by simp
  ultimately have "j < length ps" using \<open>set js = _\<close> by auto
  with assms(1) \<open>act (ps ! j)\<close> \<open>v = _\<close> show ?thesis by (simp add: active_userI)
qed

lemma next_other:
  assumes "distinct (map uid ps)" and "index ps u = Some i" and "2 \<le> active_count ps"
    and "next_active ps u = Some v"
  shows "v \<noteq> u"
proof -
  from next_SomeD [OF assms(2,4)] obtain js j where js: "set js = {..<length ps} - {i}"
    and f: "find (\<lambda>j. act (ps ! j)) (js @ [i]) = Some j" and v: "v = uid (ps ! j)"
    by blast
  from count_other [OF assms(3)] obtain k where "k < length ps" "k \<noteq> i" "act (ps ! k)" by blast
  with js have "k \<in> set js" by auto
  with \<open>act (ps ! k)\<close> have "find (\<lambda>j. act (ps ! j)) js \<noteq> None" by (auto simp: find_None_iff)
  with f have "find (\<lambda>j. act (ps ! j)) js = Some j" by (auto simp: find_append split: option.splits)
  then have "j \<in> set js" by (auto dest!: find_SomeD)
  then have "j < length ps" "j \<noteq> i" using js by auto
  with assms(1) have "index ps (uid (ps ! j)) = Some j" by (simp add: index_nth)
  with assms(2) v \<open>j \<noteq> i\<close> show ?thesis by auto
qed

end

section \<open>Session engines\<close>

text \<open>A session: the commands in order; a rejected command leaves the state and records nothing.\<close>

fun run_session :: "('st \<Rightarrow> 'cmd \<Rightarrow> 'err + 'st \<times> 'ev list) \<Rightarrow> 'st \<Rightarrow> 'cmd list \<Rightarrow> 'st \<times> 'ev list" where
  "run_session step s [] = (s, [])"
| "run_session step s (c # cs) =
     (case step s c of
        Inl e \<Rightarrow> run_session step s cs
      | Inr (t, es) \<Rightarrow> (let (u, fs) = run_session step t cs in (u, es @ fs)))"

locale session_engine =
  fixes step :: "'st \<Rightarrow> 'cmd \<Rightarrow> 'err + 'st \<times> 'ev list"
    and inv :: "'st \<Rightarrow> bool"
    and finished :: "'st \<Rightarrow> bool"
    and clock :: "'st \<Rightarrow> nat"
    and admissible :: "'cmd \<Rightarrow> bool"
  assumes step_inv: "inv s \<Longrightarrow> admissible c \<Longrightarrow> step s c = Inr (t, es) \<Longrightarrow> inv t"
    and step_finished: "inv s \<Longrightarrow> finished s \<Longrightarrow> \<exists>e. step s c = Inl e"
    and step_clock: "inv s \<Longrightarrow> step s c = Inr (t, es) \<Longrightarrow> clock s \<le> clock t"
begin

lemma session_inv: "inv s \<Longrightarrow> list_all admissible cs \<Longrightarrow> inv (fst (run_session step s cs))"
proof (induction cs arbitrary: s)
  case (Cons c cs)
  then show ?case
    by (cases "step s c") (auto simp: Let_def split_beta dest: step_inv)
qed simp

lemma session_clock: "inv s \<Longrightarrow> list_all admissible cs \<Longrightarrow> clock s \<le> clock (fst (run_session step s cs))"
proof (induction cs arbitrary: s)
  case (Cons c cs)
  show ?case
  proof (cases "step s c")
    case (Inl e)
    with Cons show ?thesis by simp
  next
    case (Inr r)
    obtain t es where r: "r = (t, es)" by (cases r)
    with Inr Cons.prems have "inv t" "clock s \<le> clock t" by (auto intro: step_inv step_clock)
    with Cons.IH [of t] Cons.prems(2) Inr r show ?thesis by (auto simp: split_beta)
  qed
qed simp

lemma session_finished: "inv s \<Longrightarrow> finished s \<Longrightarrow> run_session step s cs = (s, [])"
proof (induction cs)
  case (Cons c cs)
  with step_finished [of s c] show ?case by auto
qed simp

end

end
