(* ===== verification/Contract.thy ===== *)
theory Contract
  imports Prelude
begin

text \<open>
  The canonical identifiers of the game SDK (\<open>sdk/go/game/manifest.go\<close>). Every user identity that an
  engine freezes passes \<open>ParseIdentifier\<close>. The regular expression of the source,
  \<^verbatim>\<open>^[a-z0-9]+(?:[._-][a-z0-9]+)*$\<close>, is compiled here to a two-state scanner, and the scanner is
  proved to accept exactly the language the expression denotes. A Go string is a sequence of bytes, as
  \<open>string\<close> is, so \<open>length\<close> is the program's \<open>len\<close>.
\<close>

datatype sdk_error = ErrInvalidManifest | ErrInvalidContract

definition maximumIdentifierBytes :: nat where "maximumIdentifierBytes = 64"

definition identifier_alnum :: "char \<Rightarrow> bool" where
  "identifier_alnum c \<longleftrightarrow>
     (97 \<le> (of_char c :: nat) \<and> (of_char c :: nat) \<le> 122) \<or> (48 \<le> (of_char c :: nat) \<and> (of_char c :: nat) \<le> 57)"

definition identifier_separator :: "char \<Rightarrow> bool" where
  "identifier_separator c \<longleftrightarrow> c = CHR ''.'' \<or> c = CHR ''_'' \<or> c = CHR ''-''"

text \<open>The scanner: its flag says whether the last byte read was a letter or a digit.\<close>

fun identifier_scan :: "bool \<Rightarrow> string \<Rightarrow> bool" where
  "identifier_scan alnum [] = alnum"
| "identifier_scan alnum (c # cs) =
     (if identifier_alnum c then identifier_scan True cs
      else identifier_separator c \<and> alnum \<and> identifier_scan False cs)"

definition identifierPattern :: "string \<Rightarrow> bool" where
  "identifierPattern value = identifier_scan False value"

definition ParseIdentifier :: "string \<Rightarrow> sdk_error + string" where
  "ParseIdentifier value =
     (if length value = 0 \<or> length value > maximumIdentifierBytes \<or> \<not> identifierPattern value
      then Inl ErrInvalidManifest else Inr value)"

abbreviation identifier_ok :: "string \<Rightarrow> bool" where
  "identifier_ok value \<equiv> ParseIdentifier value = Inr value"

section \<open>The language of the pattern\<close>

definition identifier_word :: "string \<Rightarrow> bool" where
  "identifier_word w \<longleftrightarrow> w \<noteq> [] \<and> list_all identifier_alnum w"

text \<open>The language denoted by the source's regular expression: one word, then separated words.\<close>

inductive identifier_language :: "string \<Rightarrow> bool" where
  word: "identifier_word w \<Longrightarrow> identifier_language w"
| more: "identifier_language v \<Longrightarrow> identifier_separator c \<Longrightarrow> identifier_word w \<Longrightarrow>
     identifier_language (v @ c # w)"

lemma separator_not_alnum [simp]: "identifier_separator c \<Longrightarrow> \<not> identifier_alnum c"
  by (auto simp: identifier_separator_def identifier_alnum_def)

lemma scan_append:
  "identifier_separator c \<Longrightarrow>
     identifier_scan b (v @ c # w) \<longleftrightarrow> identifier_scan b v \<and> identifier_scan False w"
  by (induction v arbitrary: b) auto

lemma scan_word:
  "list_all identifier_alnum w \<Longrightarrow> w \<noteq> [] \<Longrightarrow> identifier_scan b w"
proof (induction w arbitrary: b)
  case (Cons a w)
  then show ?case by (cases "w = []") auto
qed simp

lemma language_scan: "identifier_language v \<Longrightarrow> identifier_scan False v"
proof (induction rule: identifier_language.induct)
  case (word w)
  then show ?case by (simp add: identifier_word_def scan_word)
next
  case (more v c w)
  then show ?case by (simp add: identifier_word_def scan_append scan_word)
qed

text \<open>A word accepted from the middle of a word extends the last word read.\<close>

lemma language_extend:
  assumes "identifier_language v" and "identifier_alnum c"
  shows "identifier_language (v @ [c])"
  using assms
proof (induction rule: identifier_language.induct)
  case (word w)
  then show ?case by (intro identifier_language.word) (simp add: identifier_word_def)
next
  case (more v d w)
  then have "identifier_language (v @ d # (w @ [c]))"
    by (intro identifier_language.more) (simp_all add: identifier_word_def)
  then show ?case by simp
qed

lemma scan_language:
  "identifier_scan True cs \<Longrightarrow> identifier_language v \<Longrightarrow> identifier_language (v @ cs)"
  "identifier_scan False cs \<Longrightarrow> identifier_language v \<Longrightarrow> identifier_separator c \<Longrightarrow>
     identifier_language (v @ c # cs)"
proof (induction cs arbitrary: v c)
  case Nil
  { case 1 then show ?case by simp }
  { case 2 then show ?case by simp }
next
  case (Cons a cs)
  { case 1
    show ?case
    proof (cases "identifier_alnum a")
      case True
      with 1 Cons.IH(1) [of "v @ [a]"] show ?thesis by (simp add: language_extend)
    next
      case False
      with 1 Cons.IH(2) [of v a] show ?thesis by simp
    qed }
  { case 2
    then have a: "identifier_alnum a" and s: "identifier_scan True cs" by (auto split: if_splits)
    from 2 a have "identifier_language (v @ c # [a])"
      by (intro identifier_language.more) (simp_all add: identifier_word_def)
    with s Cons.IH(1) [of "v @ [c, a]"] show ?case by simp }
qed

lemma pattern_language: "identifierPattern v \<longleftrightarrow> identifier_language v"
proof
  assume p: "identifierPattern v"
  show "identifier_language v"
  proof (cases v)
    case Nil
    with p show ?thesis by (simp add: identifierPattern_def)
  next
    case (Cons a cs)
    with p have a: "identifier_alnum a" and s: "identifier_scan True cs"
      by (auto simp: identifierPattern_def split: if_splits)
    from a have "identifier_language [a]"
      by (intro identifier_language.word) (simp add: identifier_word_def)
    with s scan_language(1) [of cs "[a]"] Cons show ?thesis by simp
  qed
next
  assume "identifier_language v"
  then show "identifierPattern v" by (simp add: identifierPattern_def language_scan)
qed

lemma language_not_Nil: "identifier_language v \<Longrightarrow> v \<noteq> []"
  by (auto simp: identifier_word_def elim: identifier_language.cases)

lemma ParseIdentifier_Inr:
  "ParseIdentifier v = Inr w \<longleftrightarrow>
     w = v \<and> v \<noteq> [] \<and> length v \<le> maximumIdentifierBytes \<and> identifierPattern v"
  by (auto simp: ParseIdentifier_def)

lemma identifier_ok_not_Nil: "identifier_ok v \<Longrightarrow> v \<noteq> []"
  by (simp add: ParseIdentifier_Inr)

lemma ParseIdentifier_cases:
  obtains "ParseIdentifier v = Inr v" | "ParseIdentifier v = Inl ErrInvalidManifest"
  by (cases "ParseIdentifier v = Inr v") (auto simp: ParseIdentifier_def split: if_splits)

lemma ParseIdentifier_case [simp]:
  "(case ParseIdentifier u of Inl _ \<Rightarrow> a | Inr _ \<Rightarrow> b) = (if identifier_ok u then b else a)"
  by (cases rule: ParseIdentifier_cases [of u]) simp_all

section \<open>Properties\<close>

text \<open>
  \<open>ParseIdentifier\<close> accepts exactly the words of the documented pattern of at most 64 bytes, and returns them
  unchanged.
\<close>

theorem sdk_identifier_language:
  "ParseIdentifier v = Inr w \<longleftrightarrow> w = v \<and> length v \<le> 64 \<and> identifier_language v"
  using language_not_Nil by (auto simp: ParseIdentifier_Inr pattern_language maximumIdentifierBytes_def)

end
