(* ===== verification/Dice.thy ===== *)
theory Dice
  imports Prelude
begin

text \<open>
  The deterministic primitives of \<open>sdk/go/game/dice\<close>: \<open>dice.go\<close> (rolls derived from a seed), \<open>ticks.go\<close>
  (checked integer amounts) and \<open>seats.go\<close> (traversal of stable seats).

  The hash of the standard library that a roll is derived from is the argument \<open>sha256\<close> of the rolling
  functions: every statement below holds for each function from byte lists to byte lists. A Go array
  \<^verbatim>\<open>[32]byte\<close> is a list of bytes.
\<close>

datatype dice_error =
    ErrZeroSeed | ErrInvalidCount
  | ErrInvalidSeats | ErrCurrentSeatMissing
  | ErrTicksOverflow | ErrTicksUnderflow

section \<open>Rolls\<close>

type_synonym Face = u8
type_synonym digest = "u8 list \<Rightarrow> u8 list"

definition MaxDicePerRoll :: u32 where "MaxDicePerRoll = 128"
definition faceRejectionLimit :: u8 where "faceRejectionLimit = 252"
definition maxSamplingAttempts :: u32 where "maxSamplingAttempts = 1024"

definition Face_Valid :: "Face \<Rightarrow> bool" where
  "Face_Valid face \<longleftrightarrow> face \<ge> 1 \<and> face \<le> 6"

fun isZeroSeed :: "u8 list \<Rightarrow> bool" where
  "isZeroSeed [] = True"
| "isZeroSeed (value # rest) = (if value \<noteq> 0 then False else isZeroSeed rest)"

text \<open>\<open>binary.LittleEndian.PutUint32\<close> and \<open>PutUint64\<close>.\<close>

definition PutUint32 :: "u32 \<Rightarrow> u8 list" where
  "PutUint32 v = map (\<lambda>k. ucast (drop_bit (8 * k) v)) [0..<4]"

definition PutUint64 :: "u64 \<Rightarrow> u8 list" where
  "PutUint64 v = map (\<lambda>k. ucast (drop_bit (8 * k) v)) [0..<8]"

definition sample_input :: "u8 list \<Rightarrow> u64 \<Rightarrow> u32 \<Rightarrow> u32 \<Rightarrow> u8 list" where
  "sample_input seed stream dieIndex attempt =
     seed @ PutUint64 stream @ PutUint32 dieIndex @ PutUint32 attempt"

text \<open>The inner loop of \<open>sampleFace\<close>: the first byte of the digest below the rejection limit.\<close>

fun digest_face :: "u8 list \<Rightarrow> Face option" where
  "digest_face [] = None"
| "digest_face (value # rest) =
     (if value < faceRejectionLimit then Some (value mod 6 + 1) else digest_face rest)"

text \<open>The outer loop of \<open>sampleFace\<close>, from a given attempt on.\<close>

function sample_attempts :: "digest \<Rightarrow> u8 list \<Rightarrow> u64 \<Rightarrow> u32 \<Rightarrow> u32 \<Rightarrow> Face option" where
  "sample_attempts sha256 seed stream dieIndex attempt =
     (if attempt < maxSamplingAttempts then
        (case digest_face (sha256 (sample_input seed stream dieIndex attempt)) of
           Some face \<Rightarrow> Some face
         | None \<Rightarrow> sample_attempts sha256 seed stream dieIndex (attempt + 1))
      else None)"
  by pat_completeness auto
termination
proof (relation "measure (\<lambda>(_, _, _, _, attempt). 1024 - unat attempt)")
  fix sha256 :: digest and seed stream dieIndex attempt
  assume "attempt < maxSamplingAttempts"
  then have "unat attempt < 1024" by (simp add: word_less_nat_alt maxSamplingAttempts_def)
  then show "((sha256, seed, stream, dieIndex, attempt + 1), sha256, seed, stream, dieIndex, attempt)
      \<in> measure (\<lambda>(_, _, _, _, attempt). 1024 - unat attempt)"
    by (simp add: unat_word_ariths)
qed simp

declare sample_attempts.simps [simp del]

definition sampleFace :: "digest \<Rightarrow> u8 list \<Rightarrow> u64 \<Rightarrow> u32 \<Rightarrow> Face option" where
  "sampleFace sha256 seed stream dieIndex = sample_attempts sha256 seed stream dieIndex 0"

text \<open>The loop of \<open>Roll\<close> over the dice, from \<open>dieIndex\<close> to \<open>count\<close>.\<close>

function roll_faces ::
  "digest \<Rightarrow> u8 list \<Rightarrow> u64 \<Rightarrow> u32 \<Rightarrow> u32 \<Rightarrow> dice_error + Face list" where
  "roll_faces sha256 seed stream dieIndex count =
     (if dieIndex < count then
        (case sampleFace sha256 seed stream dieIndex of
           None \<Rightarrow> Inl ErrInvalidCount
         | Some face \<Rightarrow>
             and_then (roll_faces sha256 seed stream (dieIndex + 1) count) (\<lambda>faces. Inr (face # faces)))
      else Inr [])"
  by pat_completeness auto
termination
proof (relation "measure (\<lambda>(_, _, _, dieIndex, count). unat count - unat dieIndex)")
  fix sha256 :: digest and seed stream dieIndex and count :: u32 and face
  assume lt: "dieIndex < count"
  then have "dieIndex \<noteq> MaxUint32" by (rule less_not_MaxUint32)
  with lt show "((sha256, seed, stream, dieIndex + 1, count), sha256, seed, stream, dieIndex, count)
      \<in> measure (\<lambda>(_, _, _, dieIndex, count). unat count - unat dieIndex)"
    by (simp add: unat_plus_1_u32 word_less_nat_alt)
qed simp

declare roll_faces.simps [simp del]

definition Roll :: "digest \<Rightarrow> u8 list \<Rightarrow> u64 \<Rightarrow> u32 \<Rightarrow> dice_error + Face list" where
  "Roll sha256 seed stream count =
     (if isZeroSeed seed then Inl ErrZeroSeed
      else if count = 0 \<or> count > MaxDicePerRoll then Inl ErrInvalidCount
      else roll_faces sha256 seed stream 0 count)"

section \<open>Ticks\<close>

type_synonym Ticks = u32

definition TicksPerUnit :: Ticks where "TicksPerUnit = 4"

definition Ticks_Add :: "Ticks \<Rightarrow> Ticks \<Rightarrow> dice_error + Ticks" where
  "Ticks_Add value other =
     (if MaxUint32 - value < other then Inl ErrTicksOverflow else Inr (value + other))"

definition Ticks_Sub :: "Ticks \<Rightarrow> Ticks \<Rightarrow> dice_error + Ticks" where
  "Ticks_Sub value other = (if other > value then Inl ErrTicksUnderflow else Inr (value - other))"

definition HalfFloor :: "Ticks \<Rightarrow> Ticks" where "HalfFloor value = value div 2"

definition HalfCeil :: "Ticks \<Rightarrow> Ticks" where "HalfCeil value = value div 2 + value mod 2"

definition Remaining :: "Ticks \<Rightarrow> Ticks \<Rightarrow> dice_error + Ticks" where
  "Remaining capacity current =
     (if current > capacity then Inl ErrTicksUnderflow else Inr (capacity - current))"

definition NextAddAmount :: "Ticks \<Rightarrow> Ticks \<Rightarrow> Ticks \<Rightarrow> dice_error + Ticks" where
  "NextAddAmount capacity current step =
     (if step = 0 then Inl ErrTicksUnderflow
      else and_then (Remaining capacity current) (\<lambda>remaining.
        if remaining = 0 then Inr 0
        else if remaining < step then Inr remaining
        else Inr step))"

section \<open>Seats\<close>

text \<open>A Go \<open>Direction\<close> is a byte; \<open>DirectionUnset\<close> stands for its zero value and for every undefined value.\<close>

datatype Direction = DirectionUnset | DirectionClockwise | DirectionCounterClockwise

definition Direction_Valid :: "Direction \<Rightarrow> bool" where
  "Direction_Valid direction \<longleftrightarrow>
     direction = DirectionClockwise \<or> direction = DirectionCounterClockwise"

text \<open>The duplicate check over a sorted list: each seat differs from its predecessor.\<close>

fun adjacent_duplicate :: "u32 list \<Rightarrow> bool" where
  "adjacent_duplicate (a # b # rest) = (b = a \<or> adjacent_duplicate (b # rest))"
| "adjacent_duplicate _ = False"

definition CanonicalSeats :: "u32 list \<Rightarrow> dice_error + u32 list" where
  "CanonicalSeats seats =
     (if seats = [] then Inl ErrInvalidSeats
      else if adjacent_duplicate (sort seats) then Inl ErrInvalidSeats
      else Inr (sort seats))"

text \<open>\<open>sort.Search\<close>: the binary search of the standard library over \<open>[i, j)\<close>.\<close>

function sort_Search :: "nat \<Rightarrow> nat \<Rightarrow> (nat \<Rightarrow> bool) \<Rightarrow> nat" where
  "sort_Search i j f =
     (if i < j then
        (let h = (i + j) div 2 in if \<not> f h then sort_Search (h + 1) j f else sort_Search i h f)
      else i)"
  by pat_completeness auto
termination
  by (relation "measure (\<lambda>(i, j, _). j - i)") auto

declare sort_Search.simps [simp del]

definition Next :: "u32 list \<Rightarrow> u32 \<Rightarrow> Direction \<Rightarrow> dice_error + u32" where
  "Next seats current direction =
     (if \<not> Direction_Valid direction then Inl ErrInvalidSeats
      else and_then (CanonicalSeats seats) (\<lambda>canonical.
        let n = length canonical; index = sort_Search 0 n (\<lambda>i. canonical ! i \<ge> current) in
        if index = n \<or> canonical ! index \<noteq> current then Inl ErrCurrentSeatMissing
        else if direction = DirectionClockwise then Inr (canonical ! ((index + 1) mod n))
        else Inr (canonical ! ((index + n - 1) mod n))))"

section \<open>What a roll guarantees\<close>

lemma digest_face_valid: "digest_face bytes = Some face \<Longrightarrow> Face_Valid face"
proof (induction bytes)
  case (Cons v rest)
  show ?case
  proof (cases "v < faceRejectionLimit")
    case True
    have "unat (v mod 6) < 6" by (simp add: unat_mod)
    then have "unat (v mod 6 + 1) = unat (v mod 6) + 1" by (simp add: unat_word_ariths)
    with Cons.prems True \<open>unat (v mod 6) < 6\<close> show ?thesis
      by (auto simp: Face_Valid_def word_le_nat_alt)
  next
    case False
    with Cons show ?thesis by simp
  qed
qed simp

lemma sample_attempts_valid:
  "sample_attempts sha256 seed stream dieIndex attempt = Some face \<Longrightarrow> Face_Valid face"
proof (induction sha256 seed stream dieIndex attempt rule: sample_attempts.induct)
  case (1 sha256 seed stream dieIndex attempt)
  from "1.prems" have lt: "attempt < maxSamplingAttempts"
    by (subst (asm) sample_attempts.simps) (auto split: if_splits)
  show ?case
  proof (cases "digest_face (sha256 (sample_input seed stream dieIndex attempt))")
    case None
    with "1.prems" lt have "sample_attempts sha256 seed stream dieIndex (attempt + 1) = Some face"
      by (subst (asm) sample_attempts.simps) simp
    with "1.IH" [OF lt None] show ?thesis by simp
  next
    case (Some f)
    with "1.prems" lt have "f = face" by (subst (asm) sample_attempts.simps) simp
    with Some show ?thesis by (simp add: digest_face_valid)
  qed
qed

text \<open>The loop over the dice reads one independent sample per index.\<close>

lemma roll_faces_nth:
  assumes "roll_faces sha256 seed stream i n = Inr faces" and "i \<le> n"
  shows "length faces = unat n - unat i \<and>
    (\<forall>k < length faces. sampleFace sha256 seed stream (i + of_nat k) = Some (faces ! k))"
  using assms
proof (induction sha256 seed stream i n arbitrary: faces rule: roll_faces.induct)
  case (1 sha256 seed stream i n)
  show ?case
  proof (cases "i < n")
    case False
    with "1.prems"(2) have "n = i" by simp
    with "1.prems"(1) False show ?thesis by (subst (asm) roll_faces.simps) simp
  next
    case True
    then have top: "i \<noteq> MaxUint32" by (rule less_not_MaxUint32)
    from "1.prems"(1) True obtain face rest where f: "sampleFace sha256 seed stream i = Some face"
      and r: "roll_faces sha256 seed stream (i + 1) n = Inr rest" and faces: "faces = face # rest"
      by (subst (asm) roll_faces.simps) (auto simp: and_then_eq_Inr split: option.splits)
    from True top have le: "i + 1 \<le> n" by (simp add: word_le_nat_alt word_less_nat_alt unat_plus_1_u32)
    from "1.IH" [OF True f r le] have len: "length rest = unat n - unat (i + 1)"
      and nth: "\<And>k. k < length rest \<Longrightarrow> sampleFace sha256 seed stream (i + 1 + of_nat k) = Some (rest ! k)"
      by auto
    have "sampleFace sha256 seed stream (i + of_nat k) = Some (faces ! k)" if "k < length faces" for k
    proof (cases k)
      case 0
      with f faces show ?thesis by simp
    next
      case (Suc j)
      with that faces nth [of j] show ?thesis by (simp add: add.assoc)
    qed
    moreover from len faces True top have "length faces = unat n - unat i"
      by (simp add: unat_plus_1_u32 word_less_nat_alt)
    ultimately show ?thesis by blast
  qed
qed

lemma Roll_Inr:
  assumes "Roll sha256 seed stream n = Inr faces"
  shows "length faces = unat n" and "n \<noteq> 0" and "n \<le> MaxDicePerRoll"
    and "\<And>k. k < unat n \<Longrightarrow> sampleFace sha256 seed stream (of_nat k) = Some (faces ! k)"
proof -
  from assms have r: "roll_faces sha256 seed stream 0 n = Inr faces" and "n \<noteq> 0" "n \<le> MaxDicePerRoll"
    by (auto simp: Roll_def not_less split: if_splits)
  then show "n \<noteq> 0" and "n \<le> MaxDicePerRoll" by simp_all
  from roll_faces_nth [OF r] show len: "length faces = unat n" by simp
  show "sampleFace sha256 seed stream (of_nat k) = Some (faces ! k)" if "k < unat n" for k
    using roll_faces_nth [OF r] that len by simp
qed

lemma Roll_faces_valid:
  "Roll sha256 seed stream n = Inr faces \<Longrightarrow> list_all Face_Valid faces"
  by (metis Roll_Inr(1,4) list_all_length sampleFace_def sample_attempts_valid)

lemma Roll_length: "Roll sha256 seed stream n = Inr faces \<Longrightarrow> length faces = unat n"
  by (rule Roll_Inr(1))

lemma Roll_prefix_stable:
  assumes "Roll sha256 seed stream n = Inr short" and "Roll sha256 seed stream m = Inr long" and "n \<le> m"
  shows "take (unat n) long = short"
proof (rule nth_equalityI)
  from assms(3) have "unat n \<le> unat m" by (simp add: word_le_nat_alt)
  with Roll_Inr(1) [OF assms(1)] Roll_Inr(1) [OF assms(2)] show "length (take (unat n) long) = length short"
    by simp
  fix k
  assume "k < length (take (unat n) long)"
  then have k: "k < unat n" "k < unat m" using Roll_Inr(1) [OF assms(2)] by auto
  from Roll_Inr(4) [OF assms(1) k(1)] Roll_Inr(4) [OF assms(2) k(2)] k
  show "take (unat n) long ! k = short ! k" by simp
qed

text \<open>Among the accepted bytes every face has the same number of preimages.\<close>

lemma residue_count:
  assumes "r < (6::nat)"
  shows "card {v. v < 252 \<and> v mod 6 = r} = 42"
proof -
  have "{v. v < 252 \<and> v mod 6 = r} = (\<lambda>k. 6 * k + r) ` {..<42}"
  proof (intro set_eqI iffI)
    fix v assume "v \<in> {v. v < 252 \<and> v mod 6 = r}"
    then have "v = 6 * (v div 6) + r" and "v div 6 < 42"
      using mult_div_mod_eq [of 6 v] by auto
    then show "v \<in> (\<lambda>k. 6 * k + r) ` {..<42}" by blast
  next
    fix v assume "v \<in> (\<lambda>k. 6 * k + r) ` {..<42}"
    with assms show "v \<in> {v. v < 252 \<and> v mod 6 = r}" by auto
  qed
  then show ?thesis by (simp add: card_image inj_on_def)
qed

lemma accepted_bytes_nat:
  assumes "Face_Valid face"
  shows "unat ` {v :: u8. v < faceRejectionLimit \<and> v mod 6 + 1 = face} =
    {v. v < 252 \<and> v mod 6 = unat face - 1}"
proof -
  have iff: "v mod 6 + 1 = face \<longleftrightarrow> unat v mod 6 = unat face - 1" for v :: u8
  proof -
    have "unat (v mod 6) < 6" by (simp add: unat_mod)
    then have "unat (v mod 6 + 1) = unat v mod 6 + 1" by (simp add: unat_word_ariths unat_mod)
    moreover from assms have "0 < unat face" by (auto simp: Face_Valid_def word_le_nat_alt)
    ultimately show ?thesis by (auto simp: word_unat_eq_iff)
  qed
  show ?thesis
  proof (intro set_eqI iffI)
    fix v assume "v \<in> {v. v < 252 \<and> v mod 6 = unat face - 1}"
    then have "v = unat (of_nat v :: u8)" and "(of_nat v :: u8) < faceRejectionLimit"
      and "(of_nat v :: u8) mod 6 + 1 = face"
      by (auto simp: iff unat_of_nat faceRejectionLimit_def word_less_nat_alt)
    then show "v \<in> unat ` {v :: u8. v < faceRejectionLimit \<and> v mod 6 + 1 = face}" by blast
  qed (auto simp: iff faceRejectionLimit_def word_less_nat_alt)
qed

lemma accepted_bytes_uniform:
  assumes "Face_Valid face"
  shows "card {v :: u8. v < faceRejectionLimit \<and> v mod 6 + 1 = face} = 42"
proof -
  from assms have "unat face - 1 < 6" by (auto simp: Face_Valid_def word_le_nat_alt)
  then have "card (unat ` {v :: u8. v < faceRejectionLimit \<and> v mod 6 + 1 = face}) = 42"
    by (simp add: accepted_bytes_nat [OF assms] residue_count)
  then show ?thesis by (subst (asm) card_image) (auto simp: inj_on_def word_unat_eq_iff)
qed

section \<open>What checked amounts guarantee\<close>

lemma Ticks_Add_Inr:
  "Ticks_Add a b = Inr c \<longleftrightarrow> unat a + unat b < 2 ^ 32 \<and> unat c = unat a + unat b"
proof -
  have "unat (MaxUint32 - a) = 4294967295 - unat a"
    by (simp add: unat_sub)
  then have le: "\<not> MaxUint32 - a < b \<longleftrightarrow> unat a + unat b < 2 ^ 32"
    using MaxUint32_top [of a] by (simp add: word_less_nat_alt word_le_nat_alt) linarith
  then show ?thesis
    by (auto simp: Ticks_Add_def word_unat_eq_iff unat_word_ariths)
qed

lemma Ticks_Add_total:
  "Ticks_Add a b = Inr (a + b) \<or> Ticks_Add a b = Inl ErrTicksOverflow"
  by (auto simp: Ticks_Add_def)

lemma Ticks_Add_InrD: "Ticks_Add a b = Inr c \<Longrightarrow> c = a + b"
  by (auto simp: Ticks_Add_def split: if_splits)

lemma half_sum: "HalfFloor v + HalfCeil v = v"
proof -
  have "v div 2 * 2 + v mod 2 = v" by (rule div_mult_mod_eq)
  then show ?thesis by (simp add: HalfFloor_def HalfCeil_def mult_2_right algebra_simps)
qed

lemma HalfCeil_le: "HalfCeil v \<le> v"
proof -
  have "unat v mod 2 \<le> unat v - unat v div 2" by presburger
  moreover have "unat v div 2 + unat v mod 2 < 4294967296"
    using unsigned_less [of v, where 'a = nat] by simp
  ultimately show ?thesis
    by (simp add: HalfCeil_def word_le_nat_alt unat_word_ariths unat_div unat_mod)
qed

lemma Remaining_Inr:
  "Remaining capacity current = Inr r \<longleftrightarrow> current \<le> capacity \<and> r = capacity - current"
  by (auto simp: Remaining_def not_less)

lemma NextAddAmount_Inr:
  "NextAddAmount capacity current step = Inr amount \<longleftrightarrow>
     step \<noteq> 0 \<and> current \<le> capacity \<and> amount = min step (capacity - current)"
  by (auto simp: NextAddAmount_def and_then_eq_Inr Remaining_Inr min_def split: if_splits)

text \<open>Adding the next amount again and again.\<close>

fun add_repeatedly :: "nat \<Rightarrow> Ticks \<Rightarrow> Ticks \<Rightarrow> Ticks \<Rightarrow> dice_error + Ticks" where
  "add_repeatedly 0 capacity step current = Inr current"
| "add_repeatedly (Suc n) capacity step current =
     and_then (NextAddAmount capacity current step)
       (\<lambda>amount. and_then (Ticks_Add current amount) (add_repeatedly n capacity step))"

lemma next_add_advances:
  assumes "step \<noteq> 0" and "current < capacity"
  shows "\<exists>next. NextAddAmount capacity current step = Inr (next - current) \<and>
    Ticks_Add current (next - current) = Inr next \<and> current < next \<and> next \<le> capacity"
proof -
  let ?a = "min step (capacity - current)"
  from assms have le: "current \<le> capacity" by simp
  then have sub: "unat (capacity - current) = unat capacity - unat current"
    by (simp add: unat_sub)
  have cap: "unat capacity < 2 ^ 32" using unsigned_less [of capacity, where 'a = nat] by simp
  have a: "unat ?a \<le> unat capacity - unat current" "0 < unat ?a"
    using assms sub by (auto simp: min_def word_le_nat_alt word_less_nat_alt unat_gt_0)
  then have sum: "unat (current + ?a) = unat current + unat ?a"
    using cap by (simp add: unat_word_ariths)
  have "NextAddAmount capacity current step = Inr ?a"
    using assms le by (simp add: NextAddAmount_Inr)
  moreover have "Ticks_Add current ?a = Inr (current + ?a)"
    using a cap sum by (simp add: Ticks_Add_Inr)
  moreover have "current < current + ?a" "current + ?a \<le> capacity"
    using a sum assms by (auto simp: word_less_nat_alt word_le_nat_alt)
  ultimately show ?thesis by (intro exI [of _ "current + ?a"]) simp
qed

lemma add_repeatedly_fills:
  assumes "step \<noteq> 0" and "current \<le> capacity"
  shows "\<exists>n \<le> unat capacity - unat current. add_repeatedly n capacity step current = Inr capacity"
  using assms(2)
proof (induction "unat capacity - unat current" arbitrary: current rule: less_induct)
  case less
  show ?case
  proof (cases "current = capacity")
    case True
    then show ?thesis by (intro exI [of _ 0]) simp
  next
    case False
    with less.prems have "current < capacity" by simp
    from next_add_advances [OF assms(1) this] obtain "next" where n:
      "NextAddAmount capacity current step = Inr (next - current)"
      "Ticks_Add current (next - current) = Inr next" "current < next" "next \<le> capacity" by blast
    then have dec: "unat capacity - unat next < unat capacity - unat current"
      by (auto simp: word_less_nat_alt word_le_nat_alt)
    from less.hyps [OF dec n(4)] obtain k where
      "k \<le> unat capacity - unat next" "add_repeatedly k capacity step next = Inr capacity" by blast
    with n dec show ?thesis by (intro exI [of _ "Suc k"]) simp
  qed
qed

section \<open>Rolls succeed\<close>

text \<open>
  The property of the hash that liveness rests on: each digest has a byte below the rejection limit
  (a digest without one is what \<open>maxSamplingAttempts\<close> allows for).
\<close>

definition digest_hits :: "digest \<Rightarrow> bool" where
  "digest_hits sha256 \<longleftrightarrow> (\<forall>bytes. digest_face (sha256 bytes) \<noteq> None)"

lemma sampleFace_hits: "digest_hits sha256 \<Longrightarrow> \<exists>face. sampleFace sha256 seed stream i = Some face"
proof -
  assume "digest_hits sha256"
  then obtain face where "digest_face (sha256 (sample_input seed stream i 0)) = Some face"
    by (auto simp: digest_hits_def)
  then show ?thesis by (subst sampleFace_def, subst sample_attempts.simps) (simp add: maxSamplingAttempts_def)
qed

lemma roll_faces_hits: "digest_hits sha256 \<Longrightarrow> \<exists>faces. roll_faces sha256 seed stream i n = Inr faces"
proof (induction sha256 seed stream i n rule: roll_faces.induct)
  case (1 sha256 seed stream i n)
  from sampleFace_hits [OF "1.prems"] obtain face where f: "sampleFace sha256 seed stream i = Some face" ..
  show ?case
  proof (cases "i < n")
    case True
    from "1.IH" [OF True f "1.prems"] obtain faces where "roll_faces sha256 seed stream (i + 1) n = Inr faces" ..
    with True f show ?thesis by (subst roll_faces.simps) simp
  qed (subst roll_faces.simps, simp)
qed

lemma Roll_hits:
  "digest_hits sha256 \<Longrightarrow> \<not> isZeroSeed seed \<Longrightarrow> n \<noteq> 0 \<Longrightarrow> n \<le> MaxDicePerRoll \<Longrightarrow>
     \<exists>faces. Roll sha256 seed stream n = Inr faces"
  by (simp add: Roll_def roll_faces_hits not_less)

section \<open>What seat traversal guarantees\<close>

lemma adjacent_duplicate_sorted: "sorted xs \<Longrightarrow> adjacent_duplicate xs \<longleftrightarrow> \<not> distinct xs"
  by (induction xs rule: adjacent_duplicate.induct) (auto simp: order_antisym)

lemma CanonicalSeats_Inr:
  "CanonicalSeats seats = Inr canonical \<longleftrightarrow> seats \<noteq> [] \<and> distinct seats \<and> canonical = sort seats"
  by (auto simp: CanonicalSeats_def adjacent_duplicate_sorted split: if_splits)

text \<open>The binary search finds the first index at which an upward closed predicate holds.\<close>

lemma sort_Search_correct:
  assumes "i \<le> j" and "\<And>a b. i \<le> a \<Longrightarrow> a \<le> b \<Longrightarrow> b < j \<Longrightarrow> f a \<Longrightarrow> f b"
  shows "i \<le> sort_Search i j f \<and> sort_Search i j f \<le> j \<and>
    (\<forall>k. i \<le> k \<longrightarrow> k < sort_Search i j f \<longrightarrow> \<not> f k) \<and> (sort_Search i j f < j \<longrightarrow> f (sort_Search i j f))"
  using assms
proof (induction i j f rule: sort_Search.induct)
  case (1 i j f)
  show ?case
  proof (cases "i < j")
    case False
    then have "sort_Search i j f = i" by (simp add: sort_Search.simps [of i j f])
    with False "1.prems"(1) show ?thesis by simp
  next
    case True
    define h where "h = (i + j) div 2"
    then have h: "i \<le> h" "h < j" using True by auto
    show ?thesis
    proof (cases "f h")
      case True
      have up: "f b" if "i \<le> a" "a \<le> b" "b < h" "f a" for a b
        by (rule "1.prems"(2) [of a b]) (use that h in simp_all)
      from True \<open>i < j\<close> have eq: "sort_Search i j f = sort_Search i h f"
        by (simp add: sort_Search.simps [of i j f] h_def)
      from "1.IH"(2) [OF \<open>i < j\<close> h_def] True h up
      have "i \<le> sort_Search i h f \<and> sort_Search i h f \<le> h \<and>
        (\<forall>k. i \<le> k \<longrightarrow> k < sort_Search i h f \<longrightarrow> \<not> f k) \<and> (sort_Search i h f < h \<longrightarrow> f (sort_Search i h f))"
        by blast
      with eq True h show ?thesis by (cases "sort_Search i h f = h") auto
    next
      case False
      have up: "f b" if "h + 1 \<le> a" "a \<le> b" "b < j" "f a" for a b
        by (rule "1.prems"(2) [of a b]) (use that h in simp_all)
      from False \<open>i < j\<close> have eq: "sort_Search i j f = sort_Search (h + 1) j f"
        by (simp add: sort_Search.simps [of i j f] h_def)
      have below: "\<not> f k" if "i \<le> k" "k \<le> h" for k
        using "1.prems"(2) [of k h] that False h by blast
      have rest: "h + 1 \<le> sort_Search (h + 1) j f \<and> sort_Search (h + 1) j f \<le> j \<and>
        (\<forall>k. h + 1 \<le> k \<longrightarrow> k < sort_Search (h + 1) j f \<longrightarrow> \<not> f k) \<and>
        (sort_Search (h + 1) j f < j \<longrightarrow> f (sort_Search (h + 1) j f))"
        by (rule "1.IH"(1) [OF \<open>i < j\<close> h_def False]) (use h in simp, rule up)
      then have "\<not> f k" if "i \<le> k" "k < sort_Search i j f" for k
        using that eq below [of k] by (cases "k \<le> h") auto
      with rest eq h show ?thesis by auto
    qed
  qed
qed

lemma sort_Search_seat:
  assumes "sorted xs" and "distinct xs" and "i < length xs"
  shows "sort_Search 0 (length xs) (\<lambda>k. xs ! k \<ge> xs ! i) = i"
proof -
  let ?s = "sort_Search 0 (length xs) (\<lambda>k. xs ! k \<ge> xs ! i)"
  have up: "xs ! i \<le> xs ! b" if "a \<le> b" "b < length xs" "xs ! i \<le> xs ! a" for a b
    using assms(1) that sorted_nth_mono order_trans by blast
  have "0 \<le> ?s \<and> ?s \<le> length xs \<and> (\<forall>k. 0 \<le> k \<longrightarrow> k < ?s \<longrightarrow> \<not> xs ! i \<le> xs ! k) \<and>
    (?s < length xs \<longrightarrow> xs ! i \<le> xs ! ?s)"
    by (rule sort_Search_correct) (use up in auto)
  then have s: "?s \<le> length xs" "\<And>k. k < ?s \<Longrightarrow> \<not> xs ! i \<le> xs ! k" "?s < length xs \<Longrightarrow> xs ! i \<le> xs ! ?s"
    by auto
  have "?s \<le> i" using s(2) [of i] by (meson not_le order_refl)
  moreover have "i \<le> ?s"
  proof (rule ccontr)
    assume "\<not> i \<le> ?s"
    then have lt: "?s < i" by simp
    with assms have "xs ! ?s \<le> xs ! i" by (simp add: sorted_nth_mono)
    moreover from lt assms(3) s(3) have "xs ! i \<le> xs ! ?s" by simp
    ultimately have "xs ! ?s = xs ! i" by simp
    with lt assms show False by (simp add: nth_eq_iff_index_eq)
  qed
  ultimately show ?thesis by simp
qed

lemma Next_nth:
  assumes "distinct seats" and "i < length seats"
  shows "Next seats (sort seats ! i) DirectionClockwise = Inr (sort seats ! ((i + 1) mod length seats))"
    and "Next seats (sort seats ! i) DirectionCounterClockwise =
      Inr (sort seats ! ((i + length seats - 1) mod length seats))"
proof -
  from assms have c: "CanonicalSeats seats = Inr (sort seats)" by (auto simp: CanonicalSeats_Inr)
  have s: "sort_Search 0 (length (sort seats)) (\<lambda>k. sort seats ! k \<ge> sort seats ! i) = i"
    by (rule sort_Search_seat) (use assms in simp_all)
  from c s assms(2)
  show "Next seats (sort seats ! i) DirectionClockwise = Inr (sort seats ! ((i + 1) mod length seats))"
    and "Next seats (sort seats ! i) DirectionCounterClockwise =
      Inr (sort seats ! ((i + length seats - 1) mod length seats))"
    by (simp_all add: Next_def Direction_Valid_def Let_def)
qed

lemma Next_inverse:
  assumes "distinct seats" and "current \<in> set seats"
  shows "\<exists>s \<in> set seats. Next seats current DirectionClockwise = Inr s \<and>
    Next seats s DirectionCounterClockwise = Inr current"
proof -
  let ?n = "length seats"
  from assms(2) obtain i where i: "i < ?n" "current = sort seats ! i"
    by (metis in_set_conv_nth length_sort set_sort)
  define j where "j = (i + 1) mod ?n"
  have j: "j < ?n" unfolding j_def by (rule mod_less_divisor) (use i(1) in auto)
  have "(j + ?n - 1) mod ?n = i"
  proof (cases "i + 1 = ?n")
    case True
    then show ?thesis by (simp add: j_def)
  next
    case False
    with i(1) show ?thesis by (simp add: j_def)
  qed
  then have "Next seats (sort seats ! j) DirectionCounterClockwise = Inr current"
    using Next_nth(2) [OF assms(1) j] i(2) by simp
  moreover have "Next seats current DirectionClockwise = Inr (sort seats ! j)"
    using Next_nth(1) [OF assms(1) i(1)] i(2) by (simp add: j_def)
  moreover have "sort seats ! j \<in> set seats"
    using j by (metis length_sort nth_mem set_sort)
  ultimately show ?thesis by blast
qed

text \<open>Following \<open>Next\<close> clockwise.\<close>

fun walk :: "nat \<Rightarrow> u32 list \<Rightarrow> u32 \<Rightarrow> dice_error + u32" where
  "walk 0 seats current = Inr current"
| "walk (Suc n) seats current = and_then (Next seats current DirectionClockwise) (walk n seats)"

lemma walk_nth:
  "distinct seats \<Longrightarrow> i < length seats \<Longrightarrow>
     walk k seats (sort seats ! i) = Inr (sort seats ! ((i + k) mod length seats))"
proof (induction k arbitrary: i)
  case (Suc k)
  let ?n = "length seats"
  have "(i + 1) mod ?n < ?n" by (rule mod_less_divisor) (use Suc.prems(2) in auto)
  from Suc.IH [OF Suc.prems(1) this] show ?case
    by (simp add: Next_nth [OF Suc.prems] mod_simps)
qed simp

lemma walk_visits:
  assumes "distinct seats" and "current \<in> set seats" and "target \<in> set seats"
  shows "\<exists>k < length seats. walk k seats current = Inr target"
proof -
  let ?n = "length seats"
  from assms obtain i j where i: "i < ?n" "current = sort seats ! i" and j: "j < ?n" "target = sort seats ! j"
    by (metis in_set_conv_nth length_sort set_sort)
  define k where "k = (j + ?n - i) mod ?n"
  have "(i + k) mod ?n = (i + (j + ?n - i)) mod ?n" by (simp add: k_def mod_simps)
  also have "\<dots> = j" using i(1) j(1) by simp
  finally have "walk k seats current = Inr target"
    using walk_nth [OF assms(1) i(1), of k] i(2) j(2) by simp
  moreover have "k < ?n" unfolding k_def by (rule mod_less_divisor) (use i(1) in auto)
  ultimately show ?thesis by blast
qed

section \<open>Properties\<close>

text \<open>
  A roll has the requested number of dice, each a face from one to six, and does not depend on how many dice
  are rolled: asking for fewer dice of the same stream gives a prefix.
\<close>

theorem sdk_roll_sound:
  assumes "Roll sha256 seed stream n = Inr short" and "Roll sha256 seed stream m = Inr long" and "n \<le> m"
  shows "length long = unat m \<and> list_all Face_Valid long \<and> take (unat n) long = short"
  using Roll_prefix_stable [OF assms] Roll_length [OF assms(2)] Roll_faces_valid [OF assms(2)] by simp

theorem sdk_roll_sound_witness:
  "Roll (\<lambda>_. [255, 9]) [1] 7 2 = Inr [4, 4] \<and> Roll (\<lambda>_. [255, 9]) [1] 7 3 = Inr [4, 4, 4] \<and>
   take (unat (2 :: u32)) [4, 4, 4 :: Face] = [4, 4]"
proof -
  have a: "Roll (\<lambda>_. [255, 9]) [1] 7 2 = Inr [4, 4]" "Roll (\<lambda>_. [255, 9]) [1] 7 3 = Inr [4, 4, 4]"
    by code_simp+
  from sdk_roll_sound [OF this] a show ?thesis by simp
qed

text \<open>
  Rejection sampling is unbiased: each of the six faces is produced by the same number, 42, of the 252 accepted
  byte values.
\<close>

theorem sdk_faces_unbiased:
  assumes "Face_Valid face"
  shows "card {v :: u8. digest_face [v] = Some face} = 42"
proof -
  have "{v :: u8. digest_face [v] = Some face} = {v. v < faceRejectionLimit \<and> v mod 6 + 1 = face}" by auto
  with accepted_bytes_uniform [OF assms] show ?thesis by simp
qed

theorem sdk_faces_unbiased_witness: "Face_Valid 6 \<and> card {v :: u8. digest_face [v] = Some 6} = 42"
  using sdk_faces_unbiased [of 6] by (simp add: Face_Valid_def)

text \<open>
  With a hash whose every digest has an accepted byte, a non-zero seed and a supported count, a roll succeeds:
  the sampling loop returns.
\<close>

theorem sdk_roll_total:
  assumes "digest_hits sha256" and "\<not> isZeroSeed seed" and "n \<noteq> 0" and "n \<le> MaxDicePerRoll"
  shows "\<exists>faces. Roll sha256 seed stream n = Inr faces"
  using assms by (rule Roll_hits)

theorem sdk_roll_total_witness:
  "digest_hits (\<lambda>bytes. [foldr (+) bytes 0 mod 252]) \<and>
   (\<exists>faces. Roll (\<lambda>bytes. [foldr (+) bytes 0 mod 252]) [1] 7 128 = Inr faces)"
proof -
  have d: "digest_hits (\<lambda>bytes. [foldr (+) bytes 0 mod 252])"
    by (simp add: digest_hits_def faceRejectionLimit_def word_mod_less_divisor)
  from sdk_roll_total [OF d, of "[1]" 128 7] d show ?thesis by (simp add: MaxDicePerRoll_def)
qed

text \<open>
  Checked addition of ticks succeeds exactly when the sum fits 32 bits, and is then the exact sum.
\<close>

theorem sdk_ticks_add_exact:
  "Ticks_Add a b = Inr c \<longleftrightarrow> unat a + unat b < 2 ^ 32 \<and> unat c = unat a + unat b"
  by (rule Ticks_Add_Inr)

text \<open>
  Adding \<open>NextAddAmount\<close> again and again fills the pool exactly to its capacity, never beyond it and in
  boundedly many steps.
\<close>

theorem sdk_add_fills_pool:
  assumes "step \<noteq> 0" and "current \<le> capacity"
  shows "\<exists>n \<le> unat capacity - unat current. add_repeatedly n capacity step current = Inr capacity"
  using assms by (rule add_repeatedly_fills)

theorem sdk_add_fills_pool_witness:
  "(4 :: Ticks) \<noteq> 0 \<and> (\<exists>n \<le> 10. add_repeatedly n 10 4 0 = Inr 10)"
  using sdk_add_fills_pool [of 4 0 10] by simp

text \<open>
  Over distinct seats, following \<open>Next\<close> clockwise reaches every seat from every seat within one turn of the
  table, and counter-clockwise is its inverse.
\<close>

theorem sdk_seats_cycle:
  assumes "distinct seats" and "current \<in> set seats" and "target \<in> set seats"
  shows "(\<exists>k < length seats. walk k seats current = Inr target) \<and>
    (\<exists>s \<in> set seats. Next seats current DirectionClockwise = Inr s \<and>
       Next seats s DirectionCounterClockwise = Inr current)"
  using walk_visits [OF assms] Next_inverse [OF assms(1,2)] by blast

theorem sdk_seats_cycle_witness:
  "distinct [7, 1, 4 :: u32] \<and> (\<exists>k < length [7, 1, 4 :: u32]. walk k [7, 1, 4] 7 = Inr 4)"
proof -
  have "distinct [7, 1, 4 :: u32]" "7 \<in> set [7, 1, 4 :: u32]" "4 \<in> set [7, 1, 4 :: u32]" by simp_all
  from sdk_seats_cycle [OF this] this(1) show ?thesis by blast
qed

end
