(* ===== verification/LiarsDice.thy ===== *)
theory LiarsDice
  imports Players Contract Dice
begin

unbundle bit_operations_syntax

text \<open>
  The rules engine of liar's dice (\<open>games/liars-dice/engine\<close>): \<open>types.go\<close>, \<open>errors.go\<close>, \<open>config.go\<close>,
  \<open>bid.go\<close> and \<open>state.go\<close>. The engine is deterministic: a transition takes the state, the caller's
  request, the clock and a seed, and returns the next state with its events, or an error. The pure
  functions below are those of the source, with its names; the fields of a Go struct carry a prefix
  for the struct. The \<open>Clone\<close> methods copy slices so that a failed transition leaves its argument; HOL
  values need no copy.
\<close>

section \<open>Types\<close>

definition CurrentSchemaVersion :: u32 where "CurrentSchemaVersion = 1"
definition MinimumPlayers :: nat where "MinimumPlayers = 2"
definition MaximumPlayers :: nat where "MaximumPlayers = 8"
definition MinimumDicePerPlayer :: u32 where "MinimumDicePerPlayer = 3"
definition MaximumDicePerPlayer :: u32 where "MaximumDicePerPlayer = 6"

text \<open>The first constructor of an enumeration stands for Go's zero value and for undefined values.\<close>

datatype Phase = PhaseUnset | PhaseRolling | PhaseBidding | PhaseRevealing | PhaseRoundSettled | PhaseFinished

datatype BidMode = BidModeUnset | BidModeFlying | BidModeStrict

abbreviation SettlementOpened :: string where "SettlementOpened \<equiv> ''opened''"
abbreviation SettlementTimeout :: string where "SettlementTimeout \<equiv> ''timeout''"

abbreviation FinishHostRequested :: string where "FinishHostRequested \<equiv> ''host_requested''"
abbreviation FinishInsufficientParticipants :: string where
  "FinishInsufficientParticipants \<equiv> ''insufficient_participants''"

record Config =
  cf_DicePerPlayer :: u32
  cf_OnesWild :: bool
  cf_StrictEnabled :: bool
  cf_FlyingEnabled :: bool
  cf_FirstBidMinimum :: u32
  cf_PenaltyTicks :: Ticks
  cf_ActionTimeoutSeconds :: u32

record Bid =
  bd_Quantity :: u32
  bd_Face :: u32
  bd_Mode :: BidMode

record Participant =
  pt_UserID :: string
  pt_SeatIndex :: u32

record PlayerState =
  pl_UserID :: string
  pl_SeatIndex :: u32
  pl_Active :: bool
  pl_PenaltyTicks :: Ticks

record PrivateRoll =
  rl_UserID :: string
  rl_Faces :: "Face list"

record Settlement =
  se_Round :: u32
  se_LoserUserID :: string
  se_PenaltyTicks :: Ticks
  se_ActualQuantity :: u32
  se_Reason :: string
  se_OpenerUserID :: string
  se_Bid :: "Bid option"
  se_RevealedDice :: "PrivateRoll list"

record State =
  st_SchemaVersion :: u32
  st_Phase :: Phase
  st_Round :: u32
  st_Config :: Config
  st_Players :: "PlayerState list"
  st_FirstActorUserID :: string
  st_CurrentActorUserID :: string
  st_LastBidderUserID :: string
  st_CurrentBid :: "Bid option"
  st_ActionDeadlineUnixMillis :: i64
  st_PrivateDice :: "PrivateRoll list"
  st_LastSettlement :: Settlement
  st_FinishReason :: string

record ActionTimer =
  tm_Round :: u32
  tm_UserID :: string
  tm_DeadlineUnixMillis :: i64

abbreviation EventRoundStarted :: string where "EventRoundStarted \<equiv> ''round.started''"
abbreviation EventBidPlaced :: string where "EventBidPlaced \<equiv> ''bid.placed''"
abbreviation EventDiceRevealed :: string where "EventDiceRevealed \<equiv> ''dice.revealed''"
abbreviation EventRoundSettled :: string where "EventRoundSettled \<equiv> ''round.settled''"
abbreviation EventParticipantRevoked :: string where "EventParticipantRevoked \<equiv> ''participant.revoked''"
abbreviation EventSessionFinished :: string where "EventSessionFinished \<equiv> ''session.finished''"

record Event =
  ev_Kind :: string
  ev_Round :: u32
  ev_UserID :: string
  ev_FirstActor :: string
  ev_Players :: "Participant list"
  ev_Bid :: "Bid option"
  ev_Dice :: "PrivateRoll list"
  ev_LoserUserID :: string
  ev_PenaltyTicks :: Ticks
  ev_NextRound :: u32
  ev_ActualQuantity :: u32
  ev_Reason :: string
  ev_OpenerUserID :: string

text \<open>The zero values that Go gives to the fields a composite literal leaves out.\<close>

definition empty_settlement :: Settlement where
  "empty_settlement = \<lparr>se_Round = 0, se_LoserUserID = [], se_PenaltyTicks = 0, se_ActualQuantity = 0,
     se_Reason = [], se_OpenerUserID = [], se_Bid = None, se_RevealedDice = []\<rparr>"

definition empty_event :: Event where
  "empty_event = \<lparr>ev_Kind = [], ev_Round = 0, ev_UserID = [], ev_FirstActor = [], ev_Players = [],
     ev_Bid = None, ev_Dice = [], ev_LoserUserID = [], ev_PenaltyTicks = 0, ev_NextRound = 0,
     ev_ActualQuantity = 0, ev_Reason = [], ev_OpenerUserID = []\<rparr>"

datatype ErrorCode =
    CodeInvalidConfig | CodeInvalidParticipants | CodeInvalidState | CodeMalformedPayload
  | CodeNotCurrentActor | CodeActionExpired | CodeBidRequired | CodeBidTooLow | CodeBidNotHigher
  | CodeBidQuantityOverflow | CodeInvalidFace | CodeInvalidBidMode | CodeFaceOneMustBeStrict
  | CodeStrictDisabled | CodeFlyingDisabled | CodeParticipantInactive | CodeTimerMismatch
  | CodeTimerNotDue | CodeSessionFinished | CodePenaltyOverflow | CodeRoundOverflow
  | CodeUnsupportedMigration | CodeProjectionUnavailable

type_synonym 'a result = "(ErrorCode, 'a) res"

section \<open>Configuration and participants\<close>

definition DefaultConfig :: "u32 \<Rightarrow> Config" where
  "DefaultConfig playerCount = \<lparr>cf_DicePerPlayer = 5, cf_OnesWild = True, cf_StrictEnabled = True,
     cf_FlyingEnabled = True, cf_FirstBidMinimum = playerCount, cf_PenaltyTicks = TicksPerUnit,
     cf_ActionTimeoutSeconds = 30\<rparr>"

definition Config_Validate :: "Config \<Rightarrow> nat \<Rightarrow> unit result" where
  "Config_Validate config playerCount =
     (if playerCount < MinimumPlayers \<or> playerCount > MaximumPlayers \<or>
         cf_DicePerPlayer config < MinimumDicePerPlayer \<or> cf_DicePerPlayer config > MaximumDicePerPlayer \<or>
         cf_FirstBidMinimum config = 0 \<or> cf_FirstBidMinimum config > of_nat playerCount \<or>
         cf_PenaltyTicks config < TicksPerUnit div 2 \<or> cf_PenaltyTicks config > TicksPerUnit * 2 \<or>
         cf_FlyingEnabled config \<and> \<not> cf_StrictEnabled config \<or>
         cf_ActionTimeoutSeconds config \<noteq> 0 \<and>
           (cf_ActionTimeoutSeconds config < 10 \<or> cf_ActionTimeoutSeconds config > 120)
      then ruleError CodeInvalidConfig ''configuration is outside frozen rules''
      else Inr ())"

text \<open>The loop of \<open>ValidateParticipants\<close>, with the users and the seats met so far.\<close>

fun validate_participants :: "string set \<Rightarrow> u32 set \<Rightarrow> Participant list \<Rightarrow> unit result" where
  "validate_participants users seats [] = Inr ()"
| "validate_participants users seats (participant # rest) =
     (case ParseIdentifier (pt_UserID participant) of
        Inl _ \<Rightarrow> ruleError CodeInvalidParticipants ''participant identity is invalid''
      | Inr _ \<Rightarrow>
          if pt_UserID participant \<in> users
          then ruleError CodeInvalidParticipants ''participant identity is duplicated''
          else if pt_SeatIndex participant \<in> seats
          then ruleError CodeInvalidParticipants ''participant seat is duplicated''
          else validate_participants (insert (pt_UserID participant) users)
                 (insert (pt_SeatIndex participant) seats) rest)"

definition ValidateParticipants :: "Participant list \<Rightarrow> unit result" where
  "ValidateParticipants participants =
     (if length participants < MinimumPlayers \<or> length participants > MaximumPlayers
      then ruleError CodeInvalidParticipants ''participant count is unsupported''
      else validate_participants {} {} participants)"

definition canonicalParticipants :: "Participant list \<Rightarrow> Participant list result" where
  "canonicalParticipants participants =
     and_then (ValidateParticipants participants) (\<lambda>_. Inr (sort_key pt_SeatIndex participants))"

section \<open>Bids\<close>

definition bidAtLeast :: "Bid \<Rightarrow> Bid \<Rightarrow> bool \<Rightarrow> bool" where
  "bidAtLeast next anchor equalityAllowed =
     (if bd_Quantity next > bd_Quantity anchor then True
      else if bd_Quantity next < bd_Quantity anchor then False
      else if equalityAllowed then bd_Face next \<ge> bd_Face anchor
      else bd_Face next > bd_Face anchor)"

text \<open>The four disjuncts that make a persisted bid malformed; the source repeats them in three places.\<close>

definition bid_malformed :: "Config \<Rightarrow> Bid \<Rightarrow> bool" where
  "bid_malformed config bid \<longleftrightarrow>
     bd_Quantity bid = 0 \<or> bd_Face bid < 1 \<or> bd_Face bid > 6 \<or>
     (bd_Mode bid \<noteq> BidModeFlying \<and> bd_Mode bid \<noteq> BidModeStrict) \<or>
     bd_Mode bid = BidModeStrict \<and> \<not> cf_StrictEnabled config \<or>
     bd_Face bid = 1 \<and> bd_Mode bid \<noteq> BidModeStrict"

definition ValidateBid :: "Config \<Rightarrow> Bid option \<Rightarrow> Bid \<Rightarrow> unit result" where
  "ValidateBid config previous next =
     (if bd_Quantity next = 0 then ruleError CodeBidTooLow ''quantity must be positive''
      else if bd_Face next < 1 \<or> bd_Face next > 6
      then ruleError CodeInvalidFace ''face must be between one and six''
      else if bd_Mode next \<noteq> BidModeFlying \<and> bd_Mode next \<noteq> BidModeStrict
      then ruleError CodeInvalidBidMode ''bid mode is unknown''
      else if bd_Mode next = BidModeStrict \<and> \<not> cf_StrictEnabled config
      then ruleError CodeStrictDisabled ''strict bids are disabled''
      else if bd_Face next = 1 \<and> bd_Mode next \<noteq> BidModeStrict
      then ruleError CodeFaceOneMustBeStrict ''face one cannot be flying''
      else case previous of
        None \<Rightarrow>
          if bd_Quantity next < cf_FirstBidMinimum config
          then ruleError CodeBidTooLow ''first bid is below the frozen minimum''
          else Inr ()
      | Some prev \<Rightarrow>
          if bid_malformed config prev then ruleError CodeInvalidState ''previous bid is invalid''
          else if bd_Mode prev = bd_Mode next then
            (if bidAtLeast next prev False then Inr ()
             else ruleError CodeBidNotHigher ''same-mode bid did not increase'')
          else
            and_then
              (if bd_Mode prev = BidModeStrict then
                 (if \<not> cf_FlyingEnabled config
                  then ruleError CodeFlyingDisabled ''strict-to-flying conversion is disabled''
                  else if bd_Face prev = 1
                  then ruleError CodeBidNotHigher ''face one strict cannot switch directly to flying''
                  else if bd_Quantity prev > MaxUint32 div 2
                  then ruleError CodeBidQuantityOverflow ''strict-to-flying anchor overflows uint32''
                  else Inr (bd_Quantity prev * 2))
               else Inr (bd_Quantity prev div 2 + 1))
              (\<lambda>quantity.
                 if bidAtLeast next \<lparr>bd_Quantity = quantity, bd_Face = bd_Face prev, bd_Mode = bd_Mode next\<rparr> True
                 then Inr ()
                 else ruleError CodeBidNotHigher ''mode-switch bid is below its conversion anchor''))"

definition face_counts :: "Config \<Rightarrow> Bid \<Rightarrow> Face \<Rightarrow> bool" where
  "face_counts config bid face \<longleftrightarrow>
     ucast face = bd_Face bid \<or>
     bd_Mode bid = BidModeFlying \<and> cf_OnesWild config \<and> bd_Face bid \<noteq> 1 \<and> face = 1"

fun count_faces :: "Config \<Rightarrow> Bid \<Rightarrow> u32 \<Rightarrow> Face list \<Rightarrow> u32" where
  "count_faces config bid acc [] = acc"
| "count_faces config bid acc (face # rest) =
     count_faces config bid (if face_counts config bid face then acc + 1 else acc) rest"

fun count_rolls :: "Config \<Rightarrow> Bid \<Rightarrow> string set \<Rightarrow> u32 \<Rightarrow> PrivateRoll list \<Rightarrow> u32" where
  "count_rolls config bid active acc [] = acc"
| "count_rolls config bid active acc (roll # rest) =
     count_rolls config bid active
       (if rl_UserID roll \<notin> active then acc else count_faces config bid acc (rl_Faces roll)) rest"

definition CountBid :: "State \<Rightarrow> Bid \<Rightarrow> u32" where
  "CountBid state bid =
     count_rolls (st_Config state) bid (set (map pl_UserID (filter pl_Active (st_Players state)))) 0
       (st_PrivateDice state)"

section \<open>Turn order, timers and rounds\<close>

definition validUnixMillis :: "i64 \<Rightarrow> bool" where
  "validUnixMillis value \<longleftrightarrow> value > 0"

definition deadlineUnixMillis :: "Config \<Rightarrow> i64 \<Rightarrow> i64 result" where
  "deadlineUnixMillis config nowUnixMillis =
     (if cf_ActionTimeoutSeconds config = 0 then Inr 0
      else let offset = uint (cf_ActionTimeoutSeconds config) * 1000 in
        if nowUnixMillis > MaxInt64 - offset
        then ruleError CodeInvalidState ''action deadline overflows unix milliseconds''
        else Inr (nowUnixMillis + offset))"

text \<open>Go returns the index or \<open>-1\<close>; the model returns the index or \<open>None\<close>.\<close>

fun playerIndex :: "PlayerState list \<Rightarrow> string \<Rightarrow> nat option" where
  "playerIndex [] userID = None"
| "playerIndex (player # rest) userID =
     (if pl_UserID player = userID then Some 0 else map_option Suc (playerIndex rest userID))"

fun activeCount :: "PlayerState list \<Rightarrow> nat" where
  "activeCount [] = 0"
| "activeCount (player # rest) =
     (if pl_Active player then Suc (activeCount rest) else activeCount rest)"

text \<open>The loop over the offsets: the first active candidate after the current seat.\<close>

definition ring_candidates :: "PlayerState list \<Rightarrow> nat \<Rightarrow> PlayerState list" where
  "ring_candidates players currentIndex =
     map (\<lambda>offset. players ! ((currentIndex + offset) mod length players)) [1..<length players + 1]"

definition nextActiveUser :: "State \<Rightarrow> string \<Rightarrow> string result" where
  "nextActiveUser state current =
     (case playerIndex (st_Players state) current of
        None \<Rightarrow> ruleError CodeInvalidState ''turn anchor is not frozen''
      | Some currentIndex \<Rightarrow>
          (case find pl_Active (ring_candidates (st_Players state) currentIndex) of
             Some candidate \<Rightarrow> Inr (pl_UserID candidate)
           | None \<Rightarrow> ruleError CodeInvalidState ''no active turn successor exists''))"

definition removeRoll :: "PrivateRoll list \<Rightarrow> string \<Rightarrow> PrivateRoll list" where
  "removeRoll values userID = filter (\<lambda>value. rl_UserID value \<noteq> userID) values"

definition finishState :: "State \<Rightarrow> string \<Rightarrow> State \<times> Event" where
  "finishState state reason =
     (state\<lparr>st_Phase := PhaseFinished, st_FinishReason := reason, st_CurrentActorUserID := [],
        st_ActionDeadlineUnixMillis := 0, st_PrivateDice := []\<rparr>,
      empty_event\<lparr>ev_Kind := EventSessionFinished, ev_Round := st_Round state, ev_Reason := reason\<rparr>)"

definition roll_stream :: "u32 \<Rightarrow> u32 \<Rightarrow> u64" where
  "roll_stream round seat = push_bit 32 (ucast round) OR ucast seat"

text \<open>The loop of \<open>startRound\<close> that rolls for every active player.\<close>

fun roll_players ::
  "digest \<Rightarrow> u8 list \<Rightarrow> u32 \<Rightarrow> u32 \<Rightarrow> PlayerState list \<Rightarrow> PrivateRoll list result" where
  "roll_players sha256 seed round dicePerPlayer [] = Inr []"
| "roll_players sha256 seed round dicePerPlayer (player # rest) =
     (if \<not> pl_Active player then roll_players sha256 seed round dicePerPlayer rest
      else case Roll sha256 seed (roll_stream round (pl_SeatIndex player)) dicePerPlayer of
        Inl _ \<Rightarrow> ruleError CodeInvalidState ''deterministic dice generation failed''
      | Inr faces \<Rightarrow>
          and_then (roll_players sha256 seed round dicePerPlayer rest)
            (\<lambda>rolls. Inr (\<lparr>rl_UserID = pl_UserID player, rl_Faces = faces\<rparr> # rolls)))"

definition startRound ::
  "digest \<Rightarrow> State \<Rightarrow> u32 \<Rightarrow> string \<Rightarrow> i64 \<Rightarrow> u8 list \<Rightarrow> (State \<times> Event) result" where
  "startRound sha256 state round first nowUnixMillis seed =
     (case playerIndex (st_Players state) first of
        None \<Rightarrow> ruleError CodeInvalidState ''round starter is not active''
      | Some index \<Rightarrow>
          if \<not> pl_Active (st_Players state ! index)
          then ruleError CodeInvalidState ''round starter is not active''
          else
            and_then (deadlineUnixMillis (st_Config state) nowUnixMillis) (\<lambda>actionDeadline.
            and_then (roll_players sha256 seed round (cf_DicePerPlayer (st_Config state)) (st_Players state))
              (\<lambda>rolls.
                Inr (state\<lparr>st_SchemaVersion := CurrentSchemaVersion, st_Phase := PhaseBidding,
                       st_Round := round, st_FirstActorUserID := first, st_CurrentActorUserID := first,
                       st_LastBidderUserID := [], st_CurrentBid := None,
                       st_ActionDeadlineUnixMillis := actionDeadline, st_PrivateDice := rolls\<rparr>,
                     empty_event\<lparr>ev_Kind := EventRoundStarted, ev_Round := round, ev_FirstActor := first\<rparr>))))"

definition settleAndRestart ::
  "digest \<Rightarrow> State \<Rightarrow> string \<Rightarrow> string \<Rightarrow> string \<Rightarrow> u32 \<Rightarrow> bool \<Rightarrow> i64 \<Rightarrow> u8 list \<Rightarrow>
     (State \<times> Event list) result" where
  "settleAndRestart sha256 state loser reason opener actual reveal nowUnixMillis seed =
     (case playerIndex (st_Players state) loser of
        None \<Rightarrow> ruleError CodeInvalidState ''settlement loser is not frozen''
      | Some index \<Rightarrow>
          let player = st_Players state ! index; config = st_Config state in
          case Ticks_Add (pl_PenaltyTicks player) (cf_PenaltyTicks config) of
            Inl _ \<Rightarrow> ruleError CodePenaltyOverflow ''penalty ticks overflow''
          | Inr penalty \<Rightarrow>
              let revealed = (if reveal then st_PrivateDice state else []);
                  next = state\<lparr>
                    st_Players := (st_Players state)[index := player\<lparr>pl_PenaltyTicks := penalty\<rparr>],
                    st_LastSettlement := \<lparr>se_Round = st_Round state, se_LoserUserID = loser,
                      se_PenaltyTicks = cf_PenaltyTicks config, se_ActualQuantity = actual,
                      se_Reason = reason, se_OpenerUserID = opener, se_Bid = st_CurrentBid state,
                      se_RevealedDice = revealed\<rparr>\<rparr> in
              if st_Round state = MaxUint32
              then ruleError CodeRoundOverflow ''round counter cannot advance''
              else
                and_then (if \<not> pl_Active (st_Players next ! index) then nextActiveUser next loser else Inr loser)
                  (\<lambda>first.
                let events =
                      (if reveal
                       then [empty_event\<lparr>ev_Kind := EventDiceRevealed, ev_Round := st_Round state, ev_Dice := revealed\<rparr>]
                       else []) @
                      [empty_event\<lparr>ev_Kind := EventRoundSettled, ev_Round := st_Round state,
                         ev_LoserUserID := loser, ev_PenaltyTicks := cf_PenaltyTicks config,
                         ev_NextRound := st_Round state + 1, ev_ActualQuantity := actual,
                         ev_Reason := reason, ev_OpenerUserID := opener, ev_Bid := st_CurrentBid state\<rparr>] in
                and_then (startRound sha256 next (st_Round state + 1) first nowUnixMillis seed)
                  (\<lambda>(started, startEvent). Inr (started, events @ [startEvent]))))"

section \<open>Validation of a snapshot\<close>

text \<open>The ascending-seat check of the loop over the players.\<close>

fun seats_ascending :: "PlayerState list \<Rightarrow> bool" where
  "seats_ascending (a # b # rest) = (\<not> pl_SeatIndex a \<ge> pl_SeatIndex b \<and> seats_ascending (b # rest))"
| "seats_ascending _ = True"

definition player_participant :: "PlayerState \<Rightarrow> Participant" where
  "player_participant player = \<lparr>pt_UserID = pl_UserID player, pt_SeatIndex = pl_SeatIndex player\<rparr>"

text \<open>The loop of \<open>validateSettlement\<close> over the revealed dice, with the owners met so far.\<close>

fun validate_revealed :: "State \<Rightarrow> string set \<Rightarrow> PrivateRoll list \<Rightarrow> unit result" where
  "validate_revealed state seen [] = Inr ()"
| "validate_revealed state seen (roll # rest) =
     (if playerIndex (st_Players state) (rl_UserID roll) = None \<or>
         length (rl_Faces roll) \<noteq> unat (cf_DicePerPlayer (st_Config state))
      then ruleError CodeInvalidState ''revealed roll ownership or size is invalid''
      else if rl_UserID roll \<in> seen then ruleError CodeInvalidState ''revealed roll is duplicated''
      else if \<not> list_all Face_Valid (rl_Faces roll)
      then ruleError CodeInvalidState ''revealed roll contains an invalid face''
      else validate_revealed state (insert (rl_UserID roll) seen) rest)"

definition validateSettlement :: "State \<Rightarrow> unit result" where
  "validateSettlement state =
     (let settlement = st_LastSettlement state in
      if se_Round settlement = 0 then
        (if se_LoserUserID settlement \<noteq> [] \<or> se_PenaltyTicks settlement \<noteq> 0 \<or>
            se_ActualQuantity settlement \<noteq> 0 \<or> se_Reason settlement \<noteq> [] \<or>
            se_OpenerUserID settlement \<noteq> [] \<or> se_Bid settlement \<noteq> None \<or>
            length (se_RevealedDice settlement) \<noteq> 0
         then ruleError CodeInvalidState ''empty settlement retains result data''
         else Inr ())
      else if se_Round settlement + 1 \<noteq> st_Round state \<or> se_LoserUserID settlement = [] \<or>
        se_PenaltyTicks settlement \<noteq> cf_PenaltyTicks (st_Config state) \<or>
        (se_Reason settlement \<noteq> SettlementOpened \<and> se_Reason settlement \<noteq> SettlementTimeout) \<or>
        se_Reason settlement = SettlementOpened \<and>
          (se_Bid settlement = None \<or> se_OpenerUserID settlement = [] \<or>
           length (se_RevealedDice settlement) = 0) \<or>
        se_Reason settlement = SettlementTimeout \<and>
          (se_OpenerUserID settlement \<noteq> [] \<or> se_ActualQuantity settlement \<noteq> 0 \<or>
           length (se_RevealedDice settlement) \<noteq> 0)
      then ruleError CodeInvalidState ''last settlement is malformed''
      else if playerIndex (st_Players state) (se_LoserUserID settlement) = None
      then ruleError CodeInvalidState ''last settlement loser is not frozen''
      else if se_OpenerUserID settlement \<noteq> [] \<and>
        playerIndex (st_Players state) (se_OpenerUserID settlement) = None
      then ruleError CodeInvalidState ''last settlement opener is not frozen''
      else if (case se_Bid settlement of None \<Rightarrow> False | Some bid \<Rightarrow> bid_malformed (st_Config state) bid)
      then ruleError CodeInvalidState ''last settlement bid is malformed''
      else validate_revealed state {} (se_RevealedDice settlement))"

text \<open>The loop of \<open>Validate\<close> over the private dice, with the owners met so far.\<close>

fun validate_private :: "State \<Rightarrow> string set \<Rightarrow> PrivateRoll list \<Rightarrow> unit result" where
  "validate_private state seen [] = Inr ()"
| "validate_private state seen (roll # rest) =
     (if (case playerIndex (st_Players state) (rl_UserID roll) of
            None \<Rightarrow> True | Some player \<Rightarrow> \<not> pl_Active (st_Players state ! player)) \<or>
         length (rl_Faces roll) \<noteq> unat (cf_DicePerPlayer (st_Config state))
      then ruleError CodeInvalidState ''private roll ownership or size is invalid''
      else if rl_UserID roll \<in> seen then ruleError CodeInvalidState ''private roll is duplicated''
      else if \<not> list_all Face_Valid (rl_Faces roll)
      then ruleError CodeInvalidState ''private roll contains an invalid face''
      else validate_private state (insert (rl_UserID roll) seen) rest)"

definition Validate :: "State \<Rightarrow> unit result" where
  "Validate state =
     (if st_SchemaVersion state \<noteq> CurrentSchemaVersion \<or> st_Round state = 0 \<or>
         (st_Phase state \<noteq> PhaseBidding \<and> st_Phase state \<noteq> PhaseFinished) \<or>
         length (st_Players state) < MinimumPlayers \<or> length (st_Players state) > MaximumPlayers
      then ruleError CodeInvalidState ''state header is invalid''
      else if \<not> seats_ascending (st_Players state)
      then ruleError CodeInvalidState ''players are not in canonical seat order''
      else if ValidateParticipants (map player_participant (st_Players state)) \<noteq> Inr () \<or>
        Config_Validate (st_Config state) (length (st_Players state)) \<noteq> Inr ()
      then ruleError CodeInvalidState ''frozen participants or configuration is invalid''
      else and_then (validateSettlement state) (\<lambda>_.
        if playerIndex (st_Players state) (st_FirstActorUserID state) = None
        then ruleError CodeInvalidState ''first actor is not frozen''
        else if st_CurrentBid state = None \<and> st_LastBidderUserID state \<noteq> [] \<or>
          st_CurrentBid state \<noteq> None \<and> st_LastBidderUserID state = []
        then ruleError CodeInvalidState ''current bid and bidder disagree''
        else if st_LastBidderUserID state \<noteq> [] \<and>
          playerIndex (st_Players state) (st_LastBidderUserID state) = None
        then ruleError CodeInvalidState ''last bidder is not frozen''
        else if (case st_CurrentBid state of None \<Rightarrow> False | Some bid \<Rightarrow> bid_malformed (st_Config state) bid)
        then ruleError CodeInvalidState ''current bid is malformed''
        else if st_Phase state = PhaseFinished then
          (if st_FinishReason state = [] \<or> st_CurrentActorUserID state \<noteq> [] \<or>
              st_ActionDeadlineUnixMillis state \<noteq> 0 \<or> length (st_PrivateDice state) \<noteq> 0
           then ruleError CodeInvalidState ''finished state retains live turn data''
           else Inr ())
        else if st_FinishReason state \<noteq> []
        then ruleError CodeInvalidState ''bidding state carries a finish reason''
        else if activeCount (st_Players state) < MinimumPlayers
        then ruleError CodeInvalidState ''bidding state has insufficient active players''
        else if (case playerIndex (st_Players state) (st_CurrentActorUserID state) of
            None \<Rightarrow> True | Some actor \<Rightarrow> \<not> pl_Active (st_Players state ! actor))
        then ruleError CodeInvalidState ''current actor is not active''
        else if cf_ActionTimeoutSeconds (st_Config state) = 0 \<and> st_ActionDeadlineUnixMillis state \<noteq> 0 \<or>
          cf_ActionTimeoutSeconds (st_Config state) \<noteq> 0 \<and> st_ActionDeadlineUnixMillis state \<le> 0
        then ruleError CodeInvalidState ''deadline does not match timer configuration''
        else if length (st_PrivateDice state) \<noteq> activeCount (st_Players state)
        then ruleError CodeInvalidState ''private rolls do not match active players''
        else validate_private state {} (st_PrivateDice state)))"

section \<open>Transitions\<close>

definition NewState ::
  "digest \<Rightarrow> Config \<Rightarrow> Participant list \<Rightarrow> u32 \<Rightarrow> i64 \<Rightarrow> u8 list \<Rightarrow> (State \<times> Event list) result" where
  "NewState sha256 config participants startingSeat nowUnixMillis seed =
     and_then (canonicalParticipants participants) (\<lambda>canonical.
     and_then (Config_Validate config (length canonical)) (\<lambda>_.
       if \<not> validUnixMillis nowUnixMillis then ruleError CodeInvalidState ''deterministic time is required''
       else
         let players = map (\<lambda>p. \<lparr>pl_UserID = pt_UserID p, pl_SeatIndex = pt_SeatIndex p,
               pl_Active = True, pl_PenaltyTicks = 0\<rparr>) canonical;
             first = fold (\<lambda>p first. if pt_SeatIndex p = startingSeat then pt_UserID p else first) canonical [] in
         if first = []
         then ruleError CodeInvalidParticipants ''starting seat is not frozen in the session''
         else
           and_then (startRound sha256 \<lparr>st_SchemaVersion = CurrentSchemaVersion, st_Phase = PhaseRolling,
               st_Round = 1, st_Config = config, st_Players = players, st_FirstActorUserID = [],
               st_CurrentActorUserID = [], st_LastBidderUserID = [], st_CurrentBid = None,
               st_ActionDeadlineUnixMillis = 0, st_PrivateDice = [],
               st_LastSettlement = empty_settlement, st_FinishReason = []\<rparr> 1 first nowUnixMillis seed)
             (\<lambda>(state, event). Inr (state, [event\<lparr>ev_Players := canonical\<rparr>]))))"

definition validateAction :: "State \<Rightarrow> string \<Rightarrow> i64 \<Rightarrow> i64 result" where
  "validateAction state actor nowUnixMillis =
     and_then (Validate state) (\<lambda>_.
       if st_Phase state = PhaseFinished
       then ruleError CodeSessionFinished ''session no longer accepts actions''
       else if st_CurrentActorUserID state \<noteq> actor
       then ruleError CodeNotCurrentActor ''actor does not own the current turn''
       else if \<not> validUnixMillis nowUnixMillis
       then ruleError CodeInvalidState ''deterministic time is required''
       else if st_ActionDeadlineUnixMillis state \<noteq> 0 \<and> nowUnixMillis \<ge> st_ActionDeadlineUnixMillis state
       then ruleError CodeActionExpired ''turn deadline has elapsed''
       else Inr nowUnixMillis)"

definition PlaceBid :: "State \<Rightarrow> string \<Rightarrow> Bid \<Rightarrow> i64 \<Rightarrow> (State \<times> Event list) result" where
  "PlaceBid state actor bid nowUnixMillis =
     and_then (validateAction state actor nowUnixMillis) (\<lambda>now.
     and_then (ValidateBid (st_Config state) (st_CurrentBid state) bid) (\<lambda>_.
     and_then (nextActiveUser state actor) (\<lambda>nextActor.
     and_then (deadlineUnixMillis (st_Config state) now) (\<lambda>actionDeadline.
       Inr (state\<lparr>st_CurrentBid := Some bid, st_LastBidderUserID := actor,
              st_CurrentActorUserID := nextActor, st_ActionDeadlineUnixMillis := actionDeadline\<rparr>,
            [empty_event\<lparr>ev_Kind := EventBidPlaced, ev_Round := st_Round state, ev_UserID := actor,
               ev_Bid := Some bid\<rparr>])))))"

definition OpenDice ::
  "digest \<Rightarrow> State \<Rightarrow> string \<Rightarrow> i64 \<Rightarrow> u8 list \<Rightarrow> (State \<times> Event list) result" where
  "OpenDice sha256 state actor nowUnixMillis seed =
     and_then (validateAction state actor nowUnixMillis) (\<lambda>now.
       case st_CurrentBid state of
         None \<Rightarrow> ruleError CodeBidRequired ''open requires a previous bid''
       | Some bid \<Rightarrow>
           if st_LastBidderUserID state = []
           then ruleError CodeBidRequired ''open requires a previous bid''
           else
             let actual = CountBid state bid;
                 loser = (if actual \<ge> bd_Quantity bid then actor else st_LastBidderUserID state) in
             settleAndRestart sha256 state loser SettlementOpened actor actual True now seed)"

definition HandleTimeout ::
  "digest \<Rightarrow> State \<Rightarrow> ActionTimer \<Rightarrow> i64 \<Rightarrow> u8 list \<Rightarrow> (State \<times> Event list) result" where
  "HandleTimeout sha256 state timer nowUnixMillis seed =
     and_then (Validate state) (\<lambda>_.
       if st_Phase state = PhaseFinished
       then ruleError CodeSessionFinished ''session no longer accepts timers''
       else if \<not> validUnixMillis nowUnixMillis
       then ruleError CodeInvalidState ''deterministic time is required''
       else if tm_Round timer \<noteq> st_Round state \<or> tm_UserID timer \<noteq> st_CurrentActorUserID state \<or>
         tm_DeadlineUnixMillis timer = 0 \<or>
         tm_DeadlineUnixMillis timer \<noteq> st_ActionDeadlineUnixMillis state
       then ruleError CodeTimerMismatch ''timer does not match the current turn''
       else if nowUnixMillis < st_ActionDeadlineUnixMillis state
       then ruleError CodeTimerNotDue ''timer fired before its persisted deadline''
       else settleAndRestart sha256 state (st_CurrentActorUserID state) SettlementTimeout [] 0 False
              nowUnixMillis seed)"

definition RevokeParticipant ::
  "digest \<Rightarrow> State \<Rightarrow> string \<Rightarrow> i64 \<Rightarrow> u8 list \<Rightarrow> (State \<times> Event list) result" where
  "RevokeParticipant sha256 state userID nowUnixMillis seed =
     and_then (Validate state) (\<lambda>_.
       if st_Phase state = PhaseFinished
       then ruleError CodeSessionFinished ''session no longer accepts participant changes''
       else if \<not> validUnixMillis nowUnixMillis
       then ruleError CodeInvalidState ''deterministic time is required''
       else case playerIndex (st_Players state) userID of
         None \<Rightarrow> ruleError CodeParticipantInactive ''participant is absent or already inactive''
       | Some index \<Rightarrow>
           if \<not> pl_Active (st_Players state ! index)
           then ruleError CodeParticipantInactive ''participant is absent or already inactive''
           else
             let wasCurrent = (st_CurrentActorUserID state = userID);
                 next = state\<lparr>
                   st_Players := (st_Players state)[index := (st_Players state ! index)\<lparr>pl_Active := False\<rparr>],
                   st_PrivateDice := removeRoll (st_PrivateDice state) userID\<rparr>;
                 events = [empty_event\<lparr>ev_Kind := EventParticipantRevoked, ev_Round := st_Round state,
                   ev_UserID := userID\<rparr>] in
             if activeCount (st_Players next) < MinimumPlayers then
               (let (finished, finishEvent) = finishState next FinishInsufficientParticipants in
                Inr (finished, events @ [finishEvent]))
             else if \<not> wasCurrent then Inr (next, events)
             else if st_Round next = MaxUint32
             then ruleError CodeRoundOverflow ''round counter cannot advance''
             else
               and_then (nextActiveUser next userID) (\<lambda>first.
               and_then (startRound sha256 (next\<lparr>st_LastSettlement := empty_settlement\<rparr>)
                   (st_Round next + 1) first nowUnixMillis seed)
                 (\<lambda>(started, startEvent). Inr (started, events @ [startEvent]))))"

definition Finish :: "State \<Rightarrow> string \<Rightarrow> (State \<times> Event list) result" where
  "Finish state reason =
     and_then (Validate state) (\<lambda>_.
       if st_Phase state = PhaseFinished
       then ruleError CodeSessionFinished ''session is already finished''
       else
         let (finished, event) = finishState state (if reason = [] then FinishHostRequested else reason) in
         Inr (finished, [event]))"

definition CurrentTimer :: "State \<Rightarrow> ActionTimer option" where
  "CurrentTimer state =
     (if st_Phase state \<noteq> PhaseBidding \<or> st_ActionDeadlineUnixMillis state = 0 then None
      else Some \<lparr>tm_Round = st_Round state, tm_UserID = st_CurrentActorUserID state,
             tm_DeadlineUnixMillis = st_ActionDeadlineUnixMillis state\<rparr>)"

section \<open>Interfaces\<close>

interpretation ld: player_table pl_UserID pl_Active playerIndex activeCount
  by unfold_locales simp_all

text \<open>The turn search on the bare list of players.\<close>

definition next_user :: "PlayerState list \<Rightarrow> string \<Rightarrow> string option" where
  "next_user players current =
     (case playerIndex players current of
        None \<Rightarrow> None
      | Some i \<Rightarrow> map_option pl_UserID (find pl_Active (ring_candidates players i)))"

lemma ring_candidates_map:
  assumes "i < length players"
  shows "ring_candidates players i =
    map ((!) players) (map (\<lambda>offset. (i + offset) mod length players) [1..<length players] @ [i])"
proof -
  have "[1..<length players + 1] = [1..<length players] @ [length players]"
    using assms by (cases "length players") (auto simp: upt_Suc_append)
  then show ?thesis using assms by (simp add: ring_candidates_def)
qed

interpretation ld: turn_order pl_UserID pl_Active playerIndex activeCount next_user
proof unfold_locales
  fix players :: "PlayerState list" and u i
  assume i: "playerIndex players u = Some i"
  then have lt: "i < length players" by (simp add: ld.index_SomeD)
  let ?js = "map (\<lambda>offset. (i + offset) mod length players) [1..<length players]"
  have "set ?js = {..<length players} - {i}"
    using ring_forward [OF lt] by simp
  moreover have "next_user players u =
      map_option (\<lambda>j. pl_UserID (players ! j)) (find (\<lambda>j. pl_Active (players ! j)) (?js @ [i]))"
    using i by (simp add: next_user_def ring_candidates_map [OF lt] find_map option.map_comp comp_def
        del: map_append)
  ultimately show "\<exists>js. set js = {..<length players} - {i} \<and> next_user players u =
      map_option (\<lambda>j. pl_UserID (players ! j)) (find (\<lambda>j. pl_Active (players ! j)) (js @ [i]))"
    by blast
qed

lemma nextActiveUser_next_user:
  "nextActiveUser state current = Inr v \<longleftrightarrow> next_user (st_Players state) current = Some v"
  by (auto simp: nextActiveUser_def next_user_def ruleError_def split: option.splits)

end
