(* ===== verification/LiarsDiceProps.thy ===== *)
theory LiarsDiceProps
  imports LiarsDice
begin

text \<open>
  What the engine of liar's dice guarantees. \<open>Validate\<close> is first read off as a predicate, \<open>valid\<close>; then
  every transition is shown to lead from valid states to valid states, and the properties of bids, of
  settlements, of timers and of whole sessions are derived.
\<close>

section \<open>The checks as predicates\<close>

lemma validate_participants_iff:
  "validate_participants users seats ps = Inr () \<longleftrightarrow>
     (\<forall>p \<in> set ps. identifier_ok (pt_UserID p)) \<and>
     distinct (map pt_UserID ps) \<and> users \<inter> pt_UserID ` set ps = {} \<and>
     distinct (map pt_SeatIndex ps) \<and> seats \<inter> pt_SeatIndex ` set ps = {}"
  by (induction users seats ps rule: validate_participants.induct) (auto split: if_splits)

lemma ValidateParticipants_iff:
  "ValidateParticipants ps = Inr () \<longleftrightarrow>
     MinimumPlayers \<le> length ps \<and> length ps \<le> MaximumPlayers \<and>
     (\<forall>p \<in> set ps. identifier_ok (pt_UserID p)) \<and>
     distinct (map pt_UserID ps) \<and> distinct (map pt_SeatIndex ps)"
  by (auto simp: ValidateParticipants_def validate_participants_iff)

lemma seats_ascending_iff: "seats_ascending ps \<longleftrightarrow> sorted_wrt (<) (map pl_SeatIndex ps)"
proof (induction ps rule: seats_ascending.induct)
  case (1 a b rest)
  then show ?case by (auto simp: not_le intro: less_trans)
qed simp_all

text \<open>A roll of an admissible owner, with the frozen number of faces of a die.\<close>

definition roll_ok :: "Config \<Rightarrow> PrivateRoll \<Rightarrow> bool" where
  "roll_ok config roll \<longleftrightarrow>
     length (rl_Faces roll) = unat (cf_DicePerPlayer config) \<and> list_all Face_Valid (rl_Faces roll)"

lemma validate_private_iff:
  "validate_private s seen rolls = Inr () \<longleftrightarrow>
     (\<forall>roll \<in> set rolls. ld.active_user (st_Players s) (rl_UserID roll) \<and> roll_ok (st_Config s) roll) \<and>
     distinct (map rl_UserID rolls) \<and> seen \<inter> rl_UserID ` set rolls = {}"
  by (induction s seen rolls rule: validate_private.induct)
    (auto simp: ld.active_user_def roll_ok_def split: option.splits if_splits)

lemma validate_revealed_iff:
  "validate_revealed s seen rolls = Inr () \<longleftrightarrow>
     (\<forall>roll \<in> set rolls. rl_UserID roll \<in> pl_UserID ` set (st_Players s) \<and> roll_ok (st_Config s) roll) \<and>
     distinct (map rl_UserID rolls) \<and> seen \<inter> rl_UserID ` set rolls = {}"
  by (induction s seen rolls rule: validate_revealed.induct)
    (auto simp: ld.index_None_iff roll_ok_def split: if_splits)

text \<open>What a session freezes: identities, seats and configuration.\<close>

definition frozen_ok :: "State \<Rightarrow> bool" where
  "frozen_ok s \<longleftrightarrow>
     st_SchemaVersion s = CurrentSchemaVersion \<and>
     MinimumPlayers \<le> length (st_Players s) \<and> length (st_Players s) \<le> MaximumPlayers \<and>
     sorted_wrt (<) (map pl_SeatIndex (st_Players s)) \<and>
     (\<forall>u \<in> pl_UserID ` set (st_Players s). identifier_ok u) \<and>
     distinct (map pl_UserID (st_Players s)) \<and>
     Config_Validate (st_Config s) (length (st_Players s)) = Inr ()"

definition settlement_ok :: "State \<Rightarrow> bool" where
  "settlement_ok s \<longleftrightarrow>
     st_LastSettlement s = empty_settlement \<or>
     (let settlement = st_LastSettlement s in
      se_Round settlement \<noteq> 0 \<and> se_Round settlement + 1 = st_Round s \<and>
      se_PenaltyTicks settlement = cf_PenaltyTicks (st_Config s) \<and>
      se_LoserUserID settlement \<in> pl_UserID ` set (st_Players s) \<and> se_LoserUserID settlement \<noteq> [] \<and>
      (\<forall>bid. se_Bid settlement = Some bid \<longrightarrow> \<not> bid_malformed (st_Config s) bid) \<and>
      (\<forall>roll \<in> set (se_RevealedDice settlement).
         rl_UserID roll \<in> pl_UserID ` set (st_Players s) \<and> roll_ok (st_Config s) roll) \<and>
      distinct (map rl_UserID (se_RevealedDice settlement)) \<and>
      (se_Reason settlement = SettlementOpened \<and> se_Bid settlement \<noteq> None \<and>
         se_OpenerUserID settlement \<noteq> [] \<and>
         se_OpenerUserID settlement \<in> pl_UserID ` set (st_Players s) \<and> se_RevealedDice settlement \<noteq> [] \<or>
       se_Reason settlement = SettlementTimeout \<and> se_OpenerUserID settlement = [] \<and>
         se_ActualQuantity settlement = 0 \<and> se_RevealedDice settlement = []))"

definition bid_ok :: "State \<Rightarrow> bool" where
  "bid_ok s \<longleftrightarrow>
     (case st_CurrentBid s of
        None \<Rightarrow> st_LastBidderUserID s = []
      | Some bid \<Rightarrow> \<not> bid_malformed (st_Config s) bid \<and> st_LastBidderUserID s \<noteq> [] \<and>
          st_LastBidderUserID s \<in> pl_UserID ` set (st_Players s))"

definition bidding_ok :: "State \<Rightarrow> bool" where
  "bidding_ok s \<longleftrightarrow>
     st_FinishReason s = [] \<and> MinimumPlayers \<le> activeCount (st_Players s) \<and>
     ld.active_user (st_Players s) (st_CurrentActorUserID s) \<and>
     (if cf_ActionTimeoutSeconds (st_Config s) = 0 then st_ActionDeadlineUnixMillis s = 0
      else 0 < st_ActionDeadlineUnixMillis s) \<and>
     length (st_PrivateDice s) = activeCount (st_Players s) \<and>
     (\<forall>roll \<in> set (st_PrivateDice s).
        ld.active_user (st_Players s) (rl_UserID roll) \<and> roll_ok (st_Config s) roll) \<and>
     distinct (map rl_UserID (st_PrivateDice s))"

definition finished_ok :: "State \<Rightarrow> bool" where
  "finished_ok s \<longleftrightarrow>
     st_FinishReason s \<noteq> [] \<and> st_CurrentActorUserID s = [] \<and> st_ActionDeadlineUnixMillis s = 0 \<and>
     st_PrivateDice s = []"

definition valid :: "State \<Rightarrow> bool" where
  "valid s \<longleftrightarrow>
     st_Round s \<noteq> 0 \<and> frozen_ok s \<and> settlement_ok s \<and>
     st_FirstActorUserID s \<in> pl_UserID ` set (st_Players s) \<and> bid_ok s \<and>
     (st_Phase s = PhaseBidding \<and> bidding_ok s \<or> st_Phase s = PhaseFinished \<and> finished_ok s)"

lemma empty_settlement_iff:
  "t = empty_settlement \<longleftrightarrow>
     se_Round t = 0 \<and> se_LoserUserID t = [] \<and> se_PenaltyTicks t = 0 \<and> se_ActualQuantity t = 0 \<and>
     se_Reason t = [] \<and> se_OpenerUserID t = [] \<and> se_Bid t = None \<and> se_RevealedDice t = []"
  by (cases t) (auto simp: empty_settlement_def)

lemma validateSettlement_iff: "validateSettlement s = Inr () \<longleftrightarrow> settlement_ok s"
proof (cases "se_Round (st_LastSettlement s) = 0")
  case True
  then show ?thesis
    by (auto simp: validateSettlement_def settlement_ok_def empty_settlement_iff Let_def)
next
  case False
  then have "st_LastSettlement s \<noteq> empty_settlement" by (simp add: empty_settlement_iff)
  with False show ?thesis
    unfolding validateSettlement_def settlement_ok_def Let_def
    by (cases "se_Bid (st_LastSettlement s)")
      (auto simp: validate_revealed_iff ld.index_None_iff)
qed

lemma frozen_participants:
  "frozen_ok s \<longleftrightarrow>
     st_SchemaVersion s = CurrentSchemaVersion \<and>
     seats_ascending (st_Players s) \<and>
     ValidateParticipants (map player_participant (st_Players s)) = Inr () \<and>
     Config_Validate (st_Config s) (length (st_Players s)) = Inr ()"
  by (auto simp: frozen_ok_def ValidateParticipants_iff player_participant_def comp_def
      seats_ascending_iff strict_sorted_iff)

lemma active_user_case:
  "ld.active_user ps u \<longleftrightarrow>
     \<not> (case playerIndex ps u of None \<Rightarrow> True | Some i \<Rightarrow> \<not> pl_Active (ps ! i))"
  by (auto simp: ld.active_user_def split: option.splits)

lemma Validate_iff: "Validate s = Inr () \<longleftrightarrow> valid s"
proof -
  let ?bidder = "(st_CurrentBid s = None \<and> st_LastBidderUserID s \<noteq> [] \<or>
          st_CurrentBid s \<noteq> None \<and> st_LastBidderUserID s = [])"
  let ?known = "st_LastBidderUserID s \<noteq> [] \<and> playerIndex (st_Players s) (st_LastBidderUserID s) = None"
  let ?malformed = "(case st_CurrentBid s of None \<Rightarrow> False | Some bid \<Rightarrow> bid_malformed (st_Config s) bid)"
  have bid: "bid_ok s \<longleftrightarrow> \<not> ?bidder \<and> \<not> ?known \<and> \<not> ?malformed"
    by (cases "st_CurrentBid s") (auto simp: bid_ok_def ld.index_None_iff)
  have frozen: "frozen_ok s \<Longrightarrow> MinimumPlayers \<le> length (st_Players s) \<and> length (st_Players s) \<le> MaximumPlayers"
    by (simp add: frozen_ok_def)
  have phase: "(if st_Phase s = PhaseFinished then
          (if st_FinishReason s = [] \<or> st_CurrentActorUserID s \<noteq> [] \<or>
              st_ActionDeadlineUnixMillis s \<noteq> 0 \<or> length (st_PrivateDice s) \<noteq> 0
           then ruleError CodeInvalidState ''finished state retains live turn data''
           else Inr ())
        else if st_FinishReason s \<noteq> []
        then ruleError CodeInvalidState ''bidding state carries a finish reason''
        else if activeCount (st_Players s) < MinimumPlayers
        then ruleError CodeInvalidState ''bidding state has insufficient active players''
        else if (case playerIndex (st_Players s) (st_CurrentActorUserID s) of
            None \<Rightarrow> True | Some actor \<Rightarrow> \<not> pl_Active (st_Players s ! actor))
        then ruleError CodeInvalidState ''current actor is not active''
        else if cf_ActionTimeoutSeconds (st_Config s) = 0 \<and> st_ActionDeadlineUnixMillis s \<noteq> 0 \<or>
          cf_ActionTimeoutSeconds (st_Config s) \<noteq> 0 \<and> st_ActionDeadlineUnixMillis s \<le> 0
        then ruleError CodeInvalidState ''deadline does not match timer configuration''
        else if length (st_PrivateDice s) \<noteq> activeCount (st_Players s)
        then ruleError CodeInvalidState ''private rolls do not match active players''
        else validate_private s {} (st_PrivateDice s)) = Inr () \<longleftrightarrow>
      (if st_Phase s = PhaseFinished then finished_ok s else bidding_ok s)"
    by (simp add: finished_ok_def bidding_ok_def validate_private_iff active_user_case not_less)
  show ?thesis
    unfolding Validate_def valid_def guard_eq_Inr and_then_eq_Inr validateSettlement_iff phase
    using frozen bid frozen_participants [of s] ld.index_None_iff [of "st_Players s" "st_FirstActorUserID s"]
    by (cases "frozen_ok s"; cases "bid_ok s") (auto simp: not_less validateSettlement_iff)
qed

section \<open>Rounds start in valid states\<close>

lemma deadline_ok:
  assumes "deadlineUnixMillis config now = Inr d" and "0 < now"
  shows "if cf_ActionTimeoutSeconds config = 0 then d = 0 else 0 < d"
proof (cases "cf_ActionTimeoutSeconds config = 0")
  case False
  then have "0 < uint (cf_ActionTimeoutSeconds config)" by (simp add: uint_0_iff order_less_le)
  with False assms show ?thesis by (auto simp: deadlineUnixMillis_def Let_def guard_eq_Inr)
qed (use assms in \<open>simp add: deadlineUnixMillis_def\<close>)

lemma roll_players_Inr:
  assumes "roll_players sha256 seed round n players = Inr rolls"
  shows "map rl_UserID rolls = map pl_UserID (filter pl_Active players)"
    and "cf_DicePerPlayer config = n \<Longrightarrow> \<forall>roll \<in> set rolls. roll_ok config roll"
  using assms
proof (induction players arbitrary: rolls)
  case Nil
  { case 1 then show ?case by simp }
  { case 2 then show ?case by simp }
next
  case (Cons p ps)
  { case 1
    with Cons.IH(1) show ?case
      by (auto simp: and_then_eq_Inr split: if_splits sum.splits) }
  { case 2
    with Cons.IH(2) show ?case
      by (auto simp: and_then_eq_Inr roll_ok_def Roll_length Roll_faces_valid split: if_splits sum.splits) }
qed

lemma startRound_Inr:
  assumes "startRound sha256 s round first now seed = Inr (t, e)"
  obtains d rolls where
    "ld.active_user (st_Players s) first"
    "deadlineUnixMillis (st_Config s) now = Inr d"
    "roll_players sha256 seed round (cf_DicePerPlayer (st_Config s)) (st_Players s) = Inr rolls"
    "t = s\<lparr>st_SchemaVersion := CurrentSchemaVersion, st_Phase := PhaseBidding, st_Round := round,
       st_FirstActorUserID := first, st_CurrentActorUserID := first, st_LastBidderUserID := [],
       st_CurrentBid := None, st_ActionDeadlineUnixMillis := d, st_PrivateDice := rolls\<rparr>"
    "e = empty_event\<lparr>ev_Kind := EventRoundStarted, ev_Round := round, ev_FirstActor := first\<rparr>"
  using assms
  by (auto simp: startRound_def and_then_eq_Inr ld.active_user_def split: option.splits if_splits)

lemma frozen_cong:
  assumes "st_SchemaVersion t = st_SchemaVersion s" "st_Config t = st_Config s"
    "map pl_UserID (st_Players t) = map pl_UserID (st_Players s)"
    "map pl_SeatIndex (st_Players t) = map pl_SeatIndex (st_Players s)"
  shows "frozen_ok t = frozen_ok s"
proof -
  have "length (st_Players t) = length (st_Players s)" using assms(3) by (metis length_map)
  moreover have "pl_UserID ` set (st_Players t) = pl_UserID ` set (st_Players s)"
    using assms(3) by (metis set_map)
  ultimately show ?thesis using assms by (simp add: frozen_ok_def)
qed

lemma frozen_users:
  assumes "frozen_ok s"
  shows "distinct (map pl_UserID (st_Players s))" and "u \<in> pl_UserID ` set (st_Players s) \<Longrightarrow> u \<noteq> []"
  using assms identifier_ok_not_Nil by (auto simp: frozen_ok_def)

lemma startRound_valid:
  assumes "startRound sha256 s round first now seed = Inr (t, e)"
    and "frozen_ok s" and "settlement_ok (s\<lparr>st_Round := round\<rparr>)" and "round \<noteq> 0"
    and "MinimumPlayers \<le> activeCount (st_Players s)" and "st_FinishReason s = []" and "0 < now"
  shows "valid t"
proof -
  from assms(1) obtain d rolls where first: "ld.active_user (st_Players s) first"
    and d: "deadlineUnixMillis (st_Config s) now = Inr d"
    and r: "roll_players sha256 seed round (cf_DicePerPlayer (st_Config s)) (st_Players s) = Inr rolls"
    and t: "t = s\<lparr>st_SchemaVersion := CurrentSchemaVersion, st_Phase := PhaseBidding, st_Round := round,
       st_FirstActorUserID := first, st_CurrentActorUserID := first, st_LastBidderUserID := [],
       st_CurrentBid := None, st_ActionDeadlineUnixMillis := d, st_PrivateDice := rolls\<rparr>"
    by (rule startRound_Inr)
  have dist: "distinct (map pl_UserID (st_Players s))" by (rule frozen_users [OF assms(2)])
  have owners: "map rl_UserID rolls = map pl_UserID (filter pl_Active (st_Players s))"
    and rolls: "\<forall>roll \<in> set rolls. roll_ok (st_Config s) roll"
    using roll_players_Inr [OF r] by auto
  have "frozen_ok t" using assms(2) by (simp add: t frozen_ok_def)
  moreover have "settlement_ok t" using assms(3) by (simp add: t settlement_ok_def)
  moreover have "first \<in> pl_UserID ` set (st_Players s)" using ld.active_userD [OF first] by auto
  moreover have "bidding_ok t"
  proof -
    have "distinct (map rl_UserID rolls)" using dist by (simp add: owners distinct_map inj_on_def)
    moreover have "length rolls = activeCount (st_Players s)"
      using owners by (metis ld.count_filter length_map)
    moreover have "ld.active_user (st_Players s) (rl_UserID roll)" if "roll \<in> set rolls" for roll
    proof -
      from that have "rl_UserID roll \<in> set (map pl_UserID (filter pl_Active (st_Players s)))"
        using owners by (metis list.set_map image_eqI)
      then show ?thesis using dist by (auto intro: ld.active_userI)
    qed
    ultimately show ?thesis
      using assms first rolls deadline_ok [OF d assms(7)] by (simp add: t bidding_ok_def)
  qed
  ultimately show ?thesis using assms(4) by (simp add: valid_def t bid_ok_def)
qed

section \<open>Every transition keeps the snapshot valid\<close>

lemma valid_bidding:
  "valid s \<Longrightarrow> st_Phase s \<noteq> PhaseFinished \<Longrightarrow> st_Phase s = PhaseBidding \<and> bidding_ok s"
  by (auto simp: valid_def)

lemma validateAction_Inr:
  "validateAction s actor now = Inr n \<longleftrightarrow>
     valid s \<and> st_Phase s = PhaseBidding \<and> st_CurrentActorUserID s = actor \<and> 0 < now \<and> n = now \<and>
     (st_ActionDeadlineUnixMillis s \<noteq> 0 \<longrightarrow> now < st_ActionDeadlineUnixMillis s)"
  by (auto simp: validateAction_def and_then_eq_Inr Validate_iff validUnixMillis_def dest: valid_bidding)

lemma ValidateBid_Inr_wf:
  assumes "ValidateBid config previous bid = Inr ()"
  shows "\<not> bid_malformed config bid"
  using assms by (auto simp: ValidateBid_def bid_malformed_def split: if_splits)

lemma PlaceBid_Inr:
  assumes "PlaceBid s actor bid now = Inr (t, es)"
  obtains nextActor d where
    "valid s" "st_Phase s = PhaseBidding" "st_CurrentActorUserID s = actor" "0 < now"
    "st_ActionDeadlineUnixMillis s \<noteq> 0 \<longrightarrow> now < st_ActionDeadlineUnixMillis s"
    "ValidateBid (st_Config s) (st_CurrentBid s) bid = Inr ()"
    "next_user (st_Players s) actor = Some nextActor"
    "deadlineUnixMillis (st_Config s) now = Inr d"
    "t = s\<lparr>st_CurrentBid := Some bid, st_LastBidderUserID := actor, st_CurrentActorUserID := nextActor,
       st_ActionDeadlineUnixMillis := d\<rparr>"
    "es = [empty_event\<lparr>ev_Kind := EventBidPlaced, ev_Round := st_Round s, ev_UserID := actor,
       ev_Bid := Some bid\<rparr>]"
  using assms
  by (auto simp: PlaceBid_def and_then_eq_Inr validateAction_Inr nextActiveUser_next_user)

lemma PlaceBid_valid:
  assumes "PlaceBid s actor bid now = Inr (t, es)"
  shows "valid t"
proof -
  from assms obtain nextActor d where s: "valid s" "st_Phase s = PhaseBidding"
    and actor: "st_CurrentActorUserID s = actor" and now: "0 < now"
    and bid: "ValidateBid (st_Config s) (st_CurrentBid s) bid = Inr ()"
    and n: "next_user (st_Players s) actor = Some nextActor"
    and d: "deadlineUnixMillis (st_Config s) now = Inr d"
    and t: "t = s\<lparr>st_CurrentBid := Some bid, st_LastBidderUserID := actor,
       st_CurrentActorUserID := nextActor, st_ActionDeadlineUnixMillis := d\<rparr>"
    by (rule PlaceBid_Inr)
  from s have frozen: "frozen_ok s" and b: "bidding_ok s" by (auto simp: valid_def)
  have dist: "distinct (map pl_UserID (st_Players s))" by (rule frozen_users [OF frozen])
  from b actor have act: "ld.active_user (st_Players s) actor" by (simp add: bidding_ok_def)
  then obtain i where "playerIndex (st_Players s) actor = Some i"
    by (auto simp: ld.active_user_def split: option.splits)
  from ld.next_active_user [OF dist this n] have "ld.active_user (st_Players s) nextActor" .
  moreover from ld.active_userD [OF act] have "actor \<in> pl_UserID ` set (st_Players s)" by auto
  moreover then have "actor \<noteq> []" by (rule frozen_users(2) [OF frozen])
  moreover have "frozen_ok t" using frozen by (simp add: t frozen_ok_def)
  moreover have "settlement_ok t" using s by (simp add: t valid_def settlement_ok_def)
  ultimately show ?thesis
    using s b deadline_ok [OF d now] ValidateBid_Inr_wf [OF bid]
    by (simp add: valid_def t bid_ok_def bidding_ok_def)
qed


text \<open>The settlement that closes a round, before the next one starts.\<close>

definition settled :: "State \<Rightarrow> nat \<Rightarrow> string \<Rightarrow> string \<Rightarrow> string \<Rightarrow> u32 \<Rightarrow> bool \<Rightarrow> State" where
  "settled s i loser reason opener actual reveal =
     s\<lparr>st_Players := (st_Players s)[i := (st_Players s ! i)\<lparr>pl_PenaltyTicks :=
           pl_PenaltyTicks (st_Players s ! i) + cf_PenaltyTicks (st_Config s)\<rparr>],
        st_LastSettlement := \<lparr>se_Round = st_Round s, se_LoserUserID = loser,
          se_PenaltyTicks = cf_PenaltyTicks (st_Config s), se_ActualQuantity = actual,
          se_Reason = reason, se_OpenerUserID = opener, se_Bid = st_CurrentBid s,
          se_RevealedDice = (if reveal then st_PrivateDice s else [])\<rparr>\<rparr>"

lemma settleAndRestart_Inr:
  assumes "settleAndRestart sha256 s loser reason opener actual reveal now seed = Inr (t, es)"
  obtains i first e where
    "playerIndex (st_Players s) loser = Some i" "st_Round s \<noteq> MaxUint32"
    "Ticks_Add (pl_PenaltyTicks (st_Players s ! i)) (cf_PenaltyTicks (st_Config s)) =
       Inr (pl_PenaltyTicks (st_Players s ! i) + cf_PenaltyTicks (st_Config s))"
    "if pl_Active (st_Players s ! i) then first = loser
     else next_user (st_Players (settled s i loser reason opener actual reveal)) loser = Some first"
    "startRound sha256 (settled s i loser reason opener actual reveal) (st_Round s + 1) first now seed =
       Inr (t, e)"
    "es = (if reveal
           then [empty_event\<lparr>ev_Kind := EventDiceRevealed, ev_Round := st_Round s, ev_Dice := st_PrivateDice s\<rparr>]
           else []) @
      [empty_event\<lparr>ev_Kind := EventRoundSettled, ev_Round := st_Round s, ev_LoserUserID := loser,
         ev_PenaltyTicks := cf_PenaltyTicks (st_Config s), ev_NextRound := st_Round s + 1,
         ev_ActualQuantity := actual, ev_Reason := reason, ev_OpenerUserID := opener,
         ev_Bid := st_CurrentBid s\<rparr>] @ [e]"
proof -
  from assms obtain i where i: "playerIndex (st_Players s) loser = Some i"
    by (auto simp: settleAndRestart_def split: option.splits)
  then have lt: "i < length (st_Players s)" using ld.index_SomeD by blast
  from assms i obtain penalty where add:
    "Ticks_Add (pl_PenaltyTicks (st_Players s ! i)) (cf_PenaltyTicks (st_Config s)) = Inr penalty"
    by (auto simp: settleAndRestart_def Let_def split: sum.splits)
  then have p: "penalty = pl_PenaltyTicks (st_Players s ! i) + cf_PenaltyTicks (st_Config s)"
    by (rule Ticks_Add_InrD)
  let ?n = "settled s i loser reason opener actual reveal"
  let ?es = "(if reveal
      then [empty_event\<lparr>ev_Kind := EventDiceRevealed, ev_Round := st_Round s, ev_Dice := st_PrivateDice s\<rparr>]
      else []) @
    [empty_event\<lparr>ev_Kind := EventRoundSettled, ev_Round := st_Round s, ev_LoserUserID := loser,
       ev_PenaltyTicks := cf_PenaltyTicks (st_Config s), ev_NextRound := st_Round s + 1,
       ev_ActualQuantity := actual, ev_Reason := reason, ev_OpenerUserID := opener,
       ev_Bid := st_CurrentBid s\<rparr>]"
  from assms i add have round: "st_Round s \<noteq> MaxUint32"
    and "and_then (if \<not> pl_Active (st_Players ?n ! i) then nextActiveUser ?n loser else Inr loser)
      (\<lambda>first. and_then (startRound sha256 ?n (st_Round s + 1) first now seed)
        (\<lambda>(started, startEvent). Inr (started, ?es @ [startEvent]))) = Inr (t, es)"
    by (auto simp: settleAndRestart_def Let_def settled_def p guard_eq_Inr)
  then obtain first e where
    first: "(if \<not> pl_Active (st_Players ?n ! i) then nextActiveUser ?n loser else Inr loser) = Inr first"
    and start: "startRound sha256 ?n (st_Round s + 1) first now seed = Inr (t, e)"
    and es: "es = ?es @ [e]"
    by (auto simp only: and_then_eq_Inr split: prod.splits)
  have "pl_Active (st_Players ?n ! i) = pl_Active (st_Players s ! i)" using lt by (simp add: settled_def)
  with first have f: "if pl_Active (st_Players s ! i) then first = loser
     else next_user (st_Players ?n) loser = Some first"
    by (simp add: nextActiveUser_next_user split: if_splits)
  from es have "es = (if reveal
      then [empty_event\<lparr>ev_Kind := EventDiceRevealed, ev_Round := st_Round s, ev_Dice := st_PrivateDice s\<rparr>]
      else []) @
    [empty_event\<lparr>ev_Kind := EventRoundSettled, ev_Round := st_Round s, ev_LoserUserID := loser,
       ev_PenaltyTicks := cf_PenaltyTicks (st_Config s), ev_NextRound := st_Round s + 1,
       ev_ActualQuantity := actual, ev_Reason := reason, ev_OpenerUserID := opener,
       ev_Bid := st_CurrentBid s\<rparr>] @ [e]" by simp
  from that [OF i round add [unfolded p] f start this] show thesis .
qed

lemma settled_frozen:
  assumes "frozen_ok s"
  shows "frozen_ok (settled s i loser reason opener actual reveal)"
  using assms by (subst frozen_cong [where s = s]) (simp_all add: settled_def map_update_eq)


lemma settled_players:
  assumes "i < length (st_Players s)"
  shows "pl_UserID ` set (st_Players (settled s i loser reason opener actual reveal)) = pl_UserID ` set (st_Players s)"
    and "activeCount (st_Players (settled s i loser reason opener actual reveal)) = activeCount (st_Players s)"
  using assms by (simp_all add: settled_def image_update_eq ld.count_update_same)

lemma settled_settlement:
  assumes s: "valid s" "st_Phase s = PhaseBidding" "st_Round s \<noteq> MaxUint32"
    and i: "i < length (st_Players s)" "loser = pl_UserID (st_Players s ! i)"
    and why: "reason = SettlementOpened \<and> st_CurrentBid s \<noteq> None \<and> opener = st_CurrentActorUserID s \<and> reveal \<or>
      reason = SettlementTimeout \<and> opener = [] \<and> actual = 0 \<and> \<not> reveal"
  shows "settlement_ok ((settled s i loser reason opener actual reveal)\<lparr>st_Round := st_Round s + 1\<rparr>)"
proof -
  from s have frozen: "frozen_ok s" and b: "bidding_ok s" and bid: "bid_ok s" and r: "st_Round s \<noteq> 0"
    by (auto simp: valid_def)
  let ?us = "pl_UserID ` set (st_Players s)"
  have loser: "loser \<in> ?us" using i by auto
  then have "loser \<noteq> []" by (rule frozen_users(2) [OF frozen])
  moreover have "st_CurrentActorUserID s \<in> ?us" using b by (simp add: bidding_ok_def ld.active_user_mem)
  moreover then have "st_CurrentActorUserID s \<noteq> []" by (rule frozen_users(2) [OF frozen])
  moreover have "st_PrivateDice s \<noteq> []" using b by (auto simp: bidding_ok_def MinimumPlayers_def)
  moreover have "\<forall>roll \<in> set (st_PrivateDice s). rl_UserID roll \<in> ?us \<and> roll_ok (st_Config s) roll"
    using b by (simp add: bidding_ok_def ld.active_user_mem)
  moreover have "distinct (map rl_UserID (st_PrivateDice s))" using b by (simp add: bidding_ok_def)
  moreover have "\<forall>x. st_CurrentBid s = Some x \<longrightarrow> \<not> bid_malformed (st_Config s) x"
    using bid by (auto simp: bid_ok_def)
  ultimately show ?thesis
    using why r loser i(1)
    by (auto simp: settlement_ok_def settled_def Let_def image_update_eq)
qed

lemma settleAndRestart_valid:
  assumes "settleAndRestart sha256 s loser reason opener actual reveal now seed = Inr (t, es)"
    and s: "valid s" "st_Phase s = PhaseBidding" and now: "0 < now"
    and why: "reason = SettlementOpened \<and> st_CurrentBid s \<noteq> None \<and> opener = st_CurrentActorUserID s \<and> reveal \<or>
      reason = SettlementTimeout \<and> opener = [] \<and> actual = 0 \<and> \<not> reveal"
  shows "valid t"
proof -
  from assms(1) obtain i first e where i: "playerIndex (st_Players s) loser = Some i"
    and round: "st_Round s \<noteq> MaxUint32"
    and start: "startRound sha256 (settled s i loser reason opener actual reveal) (st_Round s + 1) first now seed =
       Inr (t, e)"
    by (rule settleAndRestart_Inr)
  from ld.index_SomeD [OF i] have lt: "i < length (st_Players s)" and u: "loser = pl_UserID (st_Players s ! i)"
    by auto
  from s have "frozen_ok s" and b: "bidding_ok s" by (auto simp: valid_def)
  show ?thesis
  proof (rule startRound_valid [OF start])
    show "settlement_ok ((settled s i loser reason opener actual reveal)\<lparr>st_Round := st_Round s + 1\<rparr>)"
      by (rule settled_settlement [OF s round lt u why])
    show "MinimumPlayers \<le> activeCount (st_Players (settled s i loser reason opener actual reveal))"
      using b by (simp add: settled_players(2) [OF lt] bidding_ok_def)
    show "st_FinishReason (settled s i loser reason opener actual reveal) = []"
      using b by (simp add: settled_def bidding_ok_def)
  qed (use \<open>frozen_ok s\<close> plus_1_neq_0_u32 [OF round] now in \<open>simp_all add: settled_frozen\<close>)
qed

lemma OpenDice_Inr:
  assumes "OpenDice sha256 s actor now seed = Inr (t, es)"
  obtains bid where "valid s" "st_Phase s = PhaseBidding" "st_CurrentActorUserID s = actor" "0 < now"
    "st_CurrentBid s = Some bid" "st_LastBidderUserID s \<noteq> []"
    "settleAndRestart sha256 s
       (if CountBid s bid \<ge> bd_Quantity bid then actor else st_LastBidderUserID s)
       SettlementOpened actor (CountBid s bid) True now seed = Inr (t, es)"
  using assms
  by (auto simp: OpenDice_def and_then_eq_Inr validateAction_Inr Let_def guard_eq_Inr split: option.splits)

lemma OpenDice_valid: "OpenDice sha256 s actor now seed = Inr (t, es) \<Longrightarrow> valid t"
  by (erule OpenDice_Inr) (erule settleAndRestart_valid; simp)

lemma HandleTimeout_Inr:
  assumes "HandleTimeout sha256 s timer now seed = Inr (t, es)"
  shows "valid s" and "st_Phase s = PhaseBidding" and "0 < now"
    and "CurrentTimer s = Some timer" and "st_ActionDeadlineUnixMillis s \<le> now"
    and "settleAndRestart sha256 s (st_CurrentActorUserID s) SettlementTimeout [] 0 False now seed = Inr (t, es)"
  using assms
  by (auto simp: HandleTimeout_def and_then_eq_Inr Validate_iff guard_eq_Inr validUnixMillis_def CurrentTimer_def
      dest: valid_bidding)

lemma HandleTimeout_valid: "HandleTimeout sha256 s timer now seed = Inr (t, es) \<Longrightarrow> valid t"
  by (rule settleAndRestart_valid [OF HandleTimeout_Inr(6) HandleTimeout_Inr(1,2,3)]) simp_all


lemma finishState_valid:
  assumes "frozen_ok s" "settlement_ok s" "bid_ok s" "st_Round s \<noteq> 0"
    "st_FirstActorUserID s \<in> pl_UserID ` set (st_Players s)" "reason \<noteq> []"
  shows "valid (fst (finishState s reason))"
  using assms by (simp add: finishState_def valid_def frozen_ok_def settlement_ok_def bid_ok_def finished_ok_def
      split: option.splits)

lemma Finish_Inr:
  assumes "Finish s reason = Inr (t, es)"
  shows "valid s" and "st_Phase s = PhaseBidding"
    and "(t, es) = (let (f, e) = finishState s (if reason = [] then FinishHostRequested else reason) in (f, [e]))"
  using assms
  by (auto simp: Finish_def and_then_eq_Inr Validate_iff guard_eq_Inr split_beta dest: valid_bidding)

lemma Finish_valid:
  assumes "Finish s reason = Inr (t, es)"
  shows "valid t"
proof -
  have "t = fst (finishState s (if reason = [] then FinishHostRequested else reason))"
    using Finish_Inr(3) [OF assms] by (simp add: split_beta)
  moreover have "frozen_ok s" "settlement_ok s" "bid_ok s" "st_Round s \<noteq> 0"
    "st_FirstActorUserID s \<in> pl_UserID ` set (st_Players s)"
    using Finish_Inr(1) [OF assms] by (simp_all add: valid_def)
  ultimately show ?thesis by (simp add: finishState_valid)
qed

text \<open>The state after a player is switched off, before the session goes on.\<close>

definition revoked :: "State \<Rightarrow> nat \<Rightarrow> State" where
  "revoked s i =
     s\<lparr>st_Players := (st_Players s)[i := (st_Players s ! i)\<lparr>pl_Active := False\<rparr>],
        st_PrivateDice := removeRoll (st_PrivateDice s) (pl_UserID (st_Players s ! i))\<rparr>"

lemma revoked_fields [simp]:
  "st_Round (revoked s i) = st_Round s" "st_Phase (revoked s i) = st_Phase s"
  "st_FirstActorUserID (revoked s i) = st_FirstActorUserID s" "st_Config (revoked s i) = st_Config s"
  "st_CurrentActorUserID (revoked s i) = st_CurrentActorUserID s"
  by (simp_all add: revoked_def)

lemma revoked_players:
  "map pl_UserID (st_Players (revoked s i)) = map pl_UserID (st_Players s)"
  "pl_UserID ` set (st_Players (revoked s i)) = pl_UserID ` set (st_Players s)"
  by (simp_all add: revoked_def map_update_eq image_update_eq)

lemma revoked_frozen: "frozen_ok s \<Longrightarrow> frozen_ok (revoked s i)"
  by (subst frozen_cong [where s = s]) (simp_all add: revoked_def map_update_eq)

lemma revoked_settlement: "settlement_ok s \<Longrightarrow> settlement_ok (revoked s i)"
  by (simp add: settlement_ok_def revoked_def image_update_eq)

lemma revoked_bid: "bid_ok s \<Longrightarrow> bid_ok (revoked s i)"
  by (simp add: bid_ok_def revoked_def image_update_eq split: option.splits)

text \<open>In a valid bidding state the owners of the rolls are exactly the active players.\<close>

lemma roll_owners:
  assumes "frozen_ok s" "bidding_ok s"
  shows "rl_UserID ` set (st_PrivateDice s) = pl_UserID ` {p \<in> set (st_Players s). pl_Active p}"
proof (rule card_subset_eq)
  show "finite (pl_UserID ` {p \<in> set (st_Players s). pl_Active p})" by simp
  show "rl_UserID ` set (st_PrivateDice s) \<subseteq> pl_UserID ` {p \<in> set (st_Players s). pl_Active p}"
    using assms(2) by (auto simp: bidding_ok_def dest!: ld.active_user_in bspec)
  have "card (rl_UserID ` set (st_PrivateDice s)) = length (st_PrivateDice s)"
    using assms(2) by (metis bidding_ok_def distinct_card length_map set_map)
  also have "\<dots> = card (pl_UserID ` {p \<in> set (st_Players s). pl_Active p})"
    using assms(2) ld.active_users_card [OF frozen_users(1) [OF assms(1)]] by (simp add: bidding_ok_def)
  finally show "card (rl_UserID ` set (st_PrivateDice s)) =
    card (pl_UserID ` {p \<in> set (st_Players s). pl_Active p})" .
qed

lemma revoked_bidding:
  assumes s: "frozen_ok s" "bidding_ok s" and i: "i < length (st_Players s)" "pl_Active (st_Players s ! i)"
    and other: "st_CurrentActorUserID s \<noteq> pl_UserID (st_Players s ! i)"
    and enough: "MinimumPlayers \<le> activeCount (st_Players (revoked s i))"
  shows "bidding_ok (revoked s i)"
proof -
  let ?u = "pl_UserID (st_Players s ! i)"
  have dist: "distinct (map pl_UserID (st_Players s))" by (rule frozen_users(1) [OF s(1)])
  have active: "ld.active_user (st_Players (revoked s i)) v \<longleftrightarrow> ld.active_user (st_Players s) v \<and> v \<noteq> ?u" for v
    using ld.active_user_off [OF dist i(1)] by (simp add: revoked_def)
  have "?u \<in> rl_UserID ` set (st_PrivateDice s)" using i by (auto simp: roll_owners [OF s])
  moreover have rd: "distinct (map rl_UserID (st_PrivateDice s))" using s(2) by (simp add: bidding_ok_def)
  ultimately have "Suc (length (removeRoll (st_PrivateDice s) ?u)) = length (st_PrivateDice s)"
    by (simp add: removeRoll_def length_filter_neq)
  moreover have "Suc (activeCount (st_Players (revoked s i))) = activeCount (st_Players s)"
    using ld.count_update_off [OF i] by (simp add: revoked_def)
  ultimately have "length (st_PrivateDice (revoked s i)) = activeCount (st_Players (revoked s i))"
    using s(2) by (simp add: bidding_ok_def revoked_def)
  moreover have "distinct (map rl_UserID (removeRoll (st_PrivateDice s) ?u))"
    using rd by (simp add: removeRoll_def distinct_map_filter)
  ultimately show ?thesis
    using s(2) active other enough
    by (auto simp: bidding_ok_def revoked_def removeRoll_def)
qed


lemma RevokeParticipant_Inr:
  assumes "RevokeParticipant sha256 s userID now seed = Inr (t, es)"
  obtains i where
    "valid s" "st_Phase s = PhaseBidding" "0 < now" "i < length (st_Players s)"
    "userID = pl_UserID (st_Players s ! i)" "pl_Active (st_Players s ! i)"
    "let event = empty_event\<lparr>ev_Kind := EventParticipantRevoked, ev_Round := st_Round s, ev_UserID := userID\<rparr> in
     if activeCount (st_Players (revoked s i)) < MinimumPlayers
     then t = fst (finishState (revoked s i) FinishInsufficientParticipants) \<and>
       es = [event, snd (finishState (revoked s i) FinishInsufficientParticipants)]
     else if st_CurrentActorUserID s \<noteq> userID then t = revoked s i \<and> es = [event]
     else st_Round s \<noteq> MaxUint32 \<and> (\<exists>first e. next_user (st_Players (revoked s i)) userID = Some first \<and>
       startRound sha256 ((revoked s i)\<lparr>st_LastSettlement := empty_settlement\<rparr>) (st_Round s + 1) first now seed =
         Inr (t, e) \<and> es = [event, e])"
proof -
  from assms have s: "valid s" "st_Phase s = PhaseBidding" "0 < now"
    by (auto simp: RevokeParticipant_def and_then_eq_Inr Validate_iff guard_eq_Inr validUnixMillis_def
        dest: valid_bidding)
  from assms obtain i where i: "playerIndex (st_Players s) userID = Some i" and a: "pl_Active (st_Players s ! i)"
    by (auto simp: RevokeParticipant_def and_then_eq_Inr guard_eq_Inr split: option.splits)
  from ld.index_SomeD [OF i] have lt: "i < length (st_Players s)" and u: "userID = pl_UserID (st_Players s ! i)"
    by auto
  show thesis
    by (rule that [OF s lt u a], insert assms s i a lt)
      (auto simp: RevokeParticipant_def Let_def Validate_iff validUnixMillis_def revoked_def u
        and_then_eq_Inr nextActiveUser_next_user guard_eq_Inr split_beta split: if_splits)
qed

lemma RevokeParticipant_valid:
  assumes "RevokeParticipant sha256 s userID now seed = Inr (t, es)"
  shows "valid t"
proof -
  from assms obtain i where s: "valid s" "st_Phase s = PhaseBidding" and now: "0 < now"
    and i: "i < length (st_Players s)" "userID = pl_UserID (st_Players s ! i)" "pl_Active (st_Players s ! i)"
    and step: "let event = empty_event\<lparr>ev_Kind := EventParticipantRevoked, ev_Round := st_Round s, ev_UserID := userID\<rparr> in
     if activeCount (st_Players (revoked s i)) < MinimumPlayers
     then t = fst (finishState (revoked s i) FinishInsufficientParticipants) \<and>
       es = [event, snd (finishState (revoked s i) FinishInsufficientParticipants)]
     else if st_CurrentActorUserID s \<noteq> userID then t = revoked s i \<and> es = [event]
     else st_Round s \<noteq> MaxUint32 \<and> (\<exists>first e. next_user (st_Players (revoked s i)) userID = Some first \<and>
       startRound sha256 ((revoked s i)\<lparr>st_LastSettlement := empty_settlement\<rparr>) (st_Round s + 1) first now seed =
         Inr (t, e) \<and> es = [event, e])"
    by (rule RevokeParticipant_Inr)
  from s have ok: "frozen_ok s" "bidding_ok s" "settlement_ok s" "bid_ok s" "st_Round s \<noteq> 0"
    "st_FirstActorUserID s \<in> pl_UserID ` set (st_Players s)" by (auto simp: valid_def)
  consider (finish) "activeCount (st_Players (revoked s i)) < MinimumPlayers"
    | (other) "MinimumPlayers \<le> activeCount (st_Players (revoked s i))" "st_CurrentActorUserID s \<noteq> userID"
    | (current) "MinimumPlayers \<le> activeCount (st_Players (revoked s i))" "st_CurrentActorUserID s = userID"
    by linarith
  then show ?thesis
  proof cases
    case finish
    with step have "t = fst (finishState (revoked s i) FinishInsufficientParticipants)" by (simp add: Let_def)
    then show ?thesis
      using ok by (simp add: finishState_valid revoked_frozen revoked_settlement revoked_bid revoked_players)
  next
    case other
    then have "t = revoked s i" using step by (simp add: Let_def)
    moreover have "bidding_ok (revoked s i)" using other i by (intro revoked_bidding [OF ok(1,2)]) auto
    ultimately show ?thesis
      using s ok revoked_frozen [of s i] revoked_settlement [of s i] revoked_bid [of s i] revoked_players [of s i]
      by (simp add: valid_def)
  next
    case current
    with step obtain first e where round: "st_Round s \<noteq> MaxUint32"
      and start: "startRound sha256 ((revoked s i)\<lparr>st_LastSettlement := empty_settlement\<rparr>) (st_Round s + 1) first now seed =
         Inr (t, e)"
      by (auto simp: Let_def)
    show ?thesis
    proof (rule startRound_valid [OF start])
      show "frozen_ok ((revoked s i)\<lparr>st_LastSettlement := empty_settlement\<rparr>)"
        using revoked_frozen [OF ok(1)] by (simp add: frozen_ok_def)
    qed (use ok current now plus_1_neq_0_u32 [OF round] in
        \<open>simp_all add: settlement_ok_def revoked_def bidding_ok_def\<close>)
  qed
qed


lemma canonicalParticipants_Inr:
  "canonicalParticipants ps = Inr qs \<longleftrightarrow>
     ValidateParticipants ps = Inr () \<and> qs = sort_key pt_SeatIndex ps"
  by (auto simp: canonicalParticipants_def and_then_eq_Inr)

lemma NewState_Inr:
  assumes "NewState sha256 config ps seat now seed = Inr (t, es)"
  obtains canonical first e where
    "canonicalParticipants ps = Inr canonical" "Config_Validate config (length canonical) = Inr ()" "0 < now"
    "first = fold (\<lambda>p first. if pt_SeatIndex p = seat then pt_UserID p else first) canonical []"
    "startRound sha256 \<lparr>st_SchemaVersion = CurrentSchemaVersion, st_Phase = PhaseRolling, st_Round = 1,
        st_Config = config, st_Players = map (\<lambda>p. \<lparr>pl_UserID = pt_UserID p, pl_SeatIndex = pt_SeatIndex p,
          pl_Active = True, pl_PenaltyTicks = 0\<rparr>) canonical, st_FirstActorUserID = [],
        st_CurrentActorUserID = [], st_LastBidderUserID = [], st_CurrentBid = None,
        st_ActionDeadlineUnixMillis = 0, st_PrivateDice = [], st_LastSettlement = empty_settlement,
        st_FinishReason = []\<rparr> 1 first now seed = Inr (t, e)"
    "es = [e\<lparr>ev_Players := canonical\<rparr>]"
  using assms
  by (auto simp: NewState_def and_then_eq_Inr Let_def guard_eq_Inr validUnixMillis_def split: prod.splits)

lemma NewState_valid:
  assumes "NewState sha256 config ps seat now seed = Inr (t, es)"
  shows "valid t"
proof -
  from assms obtain canonical first e where c: "canonicalParticipants ps = Inr canonical"
    and config: "Config_Validate config (length canonical) = Inr ()" and now: "0 < now"
    and start: "startRound sha256 \<lparr>st_SchemaVersion = CurrentSchemaVersion, st_Phase = PhaseRolling, st_Round = 1,
        st_Config = config, st_Players = map (\<lambda>p. \<lparr>pl_UserID = pt_UserID p, pl_SeatIndex = pt_SeatIndex p,
          pl_Active = True, pl_PenaltyTicks = 0\<rparr>) canonical, st_FirstActorUserID = [],
        st_CurrentActorUserID = [], st_LastBidderUserID = [], st_CurrentBid = None,
        st_ActionDeadlineUnixMillis = 0, st_PrivateDice = [], st_LastSettlement = empty_settlement,
        st_FinishReason = []\<rparr> 1 first now seed = Inr (t, e)"
    by (rule NewState_Inr)
  from c have v: "ValidateParticipants ps = Inr ()" and canonical: "canonical = sort_key pt_SeatIndex ps"
    by (simp_all add: canonicalParticipants_Inr)
  have dist: "distinct (map pt_UserID canonical)"
    using v by (simp add: canonical ValidateParticipants_iff distinct_map)
  show ?thesis
  proof (rule startRound_valid [OF start])
    show "frozen_ok \<lparr>st_SchemaVersion = CurrentSchemaVersion, st_Phase = PhaseRolling, st_Round = 1,
        st_Config = config, st_Players = map (\<lambda>p. \<lparr>pl_UserID = pt_UserID p, pl_SeatIndex = pt_SeatIndex p,
          pl_Active = True, pl_PenaltyTicks = 0\<rparr>) canonical, st_FirstActorUserID = [],
        st_CurrentActorUserID = [], st_LastBidderUserID = [], st_CurrentBid = None,
        st_ActionDeadlineUnixMillis = 0, st_PrivateDice = [], st_LastSettlement = empty_settlement,
        st_FinishReason = []\<rparr>"
      using v config dist sort_key_strict [of pt_SeatIndex ps]
      by (auto simp: frozen_ok_def ValidateParticipants_iff canonical comp_def)
  qed (use v now in \<open>simp_all add: settlement_ok_def ld.count_filter ValidateParticipants_iff canonical\<close>)
qed

section \<open>Sessions\<close>

text \<open>The requests that the runtime delivers to a running session.\<close>

datatype command =
    CmdBid string Bid i64
  | CmdOpen string i64 "u8 list"
  | CmdTimeout ActionTimer i64 "u8 list"
  | CmdRevoke string i64 "u8 list"
  | CmdFinish string

fun engine_step :: "digest \<Rightarrow> State \<Rightarrow> command \<Rightarrow> (State \<times> Event list) result" where
  "engine_step sha256 s (CmdBid actor bid now) = PlaceBid s actor bid now"
| "engine_step sha256 s (CmdOpen actor now seed) = OpenDice sha256 s actor now seed"
| "engine_step sha256 s (CmdTimeout timer now seed) = HandleTimeout sha256 s timer now seed"
| "engine_step sha256 s (CmdRevoke userID now seed) = RevokeParticipant sha256 s userID now seed"
| "engine_step sha256 s (CmdFinish reason) = Finish s reason"

lemma step_valid: "engine_step sha256 s c = Inr (t, es) \<Longrightarrow> valid t"
  by (cases c) (auto intro: PlaceBid_valid OpenDice_valid HandleTimeout_valid RevokeParticipant_valid Finish_valid)

lemma step_from: "engine_step sha256 s c = Inr (t, es) \<Longrightarrow> valid s \<and> st_Phase s = PhaseBidding"
  by (cases c)
    (auto elim: PlaceBid_Inr OpenDice_Inr RevokeParticipant_Inr dest: HandleTimeout_Inr Finish_Inr)

lemma startRound_round: "startRound sha256 s round first now seed = Inr (t, e) \<Longrightarrow> st_Round t = round"
  by (erule startRound_Inr) simp

lemma settle_round:
  assumes "settleAndRestart sha256 s loser reason opener actual reveal now seed = Inr (t, es)"
  shows "unat (st_Round t) = Suc (unat (st_Round s))"
  using assms
  by (rule settleAndRestart_Inr) (metis startRound_round unat_plus_1_u32)

lemma revoke_round:
  assumes "RevokeParticipant sha256 s userID now seed = Inr (t, es)"
  shows "unat (st_Round s) \<le> unat (st_Round t)"
  using assms
  by (rule RevokeParticipant_Inr)
    (auto simp: Let_def finishState_def unat_plus_1_u32 dest!: startRound_round split: if_splits)

lemma step_round: "engine_step sha256 s c = Inr (t, es) \<Longrightarrow> unat (st_Round s) \<le> unat (st_Round t)"
proof (cases c)
  case (CmdBid actor bid now)
  assume "engine_step sha256 s c = Inr (t, es)"
  with CmdBid show ?thesis by (auto elim: PlaceBid_Inr)
next
  case (CmdOpen actor now seed)
  assume "engine_step sha256 s c = Inr (t, es)"
  with CmdOpen show ?thesis by (auto elim!: OpenDice_Inr dest!: settle_round)
next
  case (CmdTimeout timer now seed)
  assume "engine_step sha256 s c = Inr (t, es)"
  with CmdTimeout show ?thesis by (auto dest!: HandleTimeout_Inr(6) settle_round)
next
  case (CmdRevoke userID now seed)
  assume "engine_step sha256 s c = Inr (t, es)"
  with CmdRevoke show ?thesis by (auto dest: revoke_round)
next
  case (CmdFinish reason)
  assume "engine_step sha256 s c = Inr (t, es)"
  with CmdFinish show ?thesis by (auto dest!: Finish_Inr(3) simp: finishState_def)
qed

end
