(* ===== verification/LiarsDiceRules.thy ===== *)
theory LiarsDiceRules
  imports LiarsDiceProps
begin

unbundle bit_operations_syntax

text \<open>
  The rules of liar's dice on top of the invariant: bids advance, counting is exact, a settlement
  charges one player, a due timer moves the session on, and what whole sessions keep.
\<close>

section \<open>Bids advance\<close>

text \<open>
  A bid's rank: twice the quantity for a strict bid, then the face, then the mode. A flying bid above a
  strict one costs at least double, a strict bid above a flying one more than half.
\<close>

definition bid_rank :: "Bid \<Rightarrow> nat" where
  "bid_rank bid =
     14 * ((if bd_Mode bid = BidModeStrict then 2 else 1) * unat (bd_Quantity bid)) +
     2 * unat (bd_Face bid) + (if bd_Mode bid = BidModeStrict then 0 else 1)"

lemma face_bounds: "\<not> bid_malformed config bid \<Longrightarrow> 1 \<le> unat (bd_Face bid) \<and> unat (bd_Face bid) \<le> 6"
  by (auto simp: bid_malformed_def not_less word_le_nat_alt word_less_nat_alt)

lemma bidAtLeast_nat:
  "bidAtLeast next anchor eq \<longleftrightarrow>
     unat (bd_Quantity anchor) < unat (bd_Quantity next) \<or>
     unat (bd_Quantity anchor) = unat (bd_Quantity next) \<and>
       (if eq then unat (bd_Face anchor) \<le> unat (bd_Face next) else unat (bd_Face anchor) < unat (bd_Face next))"
  by (auto simp: bidAtLeast_def word_less_nat_alt word_le_nat_alt)

lemma ValidateBid_Some:
  assumes "ValidateBid config (Some prev) next = Inr ()"
  shows "\<not> bid_malformed config prev" and "\<not> bid_malformed config next"
    and "bd_Mode prev = bd_Mode next \<and> bidAtLeast next prev False \<or>
      bd_Mode prev = BidModeStrict \<and> bd_Mode next = BidModeFlying \<and> bd_Quantity prev \<le> MaxUint32 div 2 \<and>
        bidAtLeast next \<lparr>bd_Quantity = bd_Quantity prev * 2, bd_Face = bd_Face prev, bd_Mode = bd_Mode next\<rparr> True \<or>
      bd_Mode prev = BidModeFlying \<and> bd_Mode next = BidModeStrict \<and>
        bidAtLeast next \<lparr>bd_Quantity = bd_Quantity prev div 2 + 1, bd_Face = bd_Face prev, bd_Mode = bd_Mode next\<rparr> True"
proof -
  from assms show n: "\<not> bid_malformed config next" by (rule ValidateBid_Inr_wf)
  from assms show p: "\<not> bid_malformed config prev"
    by (auto simp: ValidateBid_def guard_eq_Inr)
  from p n have m: "bd_Mode prev \<in> {BidModeFlying, BidModeStrict}" "bd_Mode next \<in> {BidModeFlying, BidModeStrict}"
    by (auto simp: bid_malformed_def)
  show "bd_Mode prev = bd_Mode next \<and> bidAtLeast next prev False \<or>
      bd_Mode prev = BidModeStrict \<and> bd_Mode next = BidModeFlying \<and> bd_Quantity prev \<le> MaxUint32 div 2 \<and>
        bidAtLeast next \<lparr>bd_Quantity = bd_Quantity prev * 2, bd_Face = bd_Face prev, bd_Mode = bd_Mode next\<rparr> True \<or>
      bd_Mode prev = BidModeFlying \<and> bd_Mode next = BidModeStrict \<and>
        bidAtLeast next \<lparr>bd_Quantity = bd_Quantity prev div 2 + 1, bd_Face = bd_Face prev, bd_Mode = bd_Mode next\<rparr> True"
    using assms m by (auto simp: ValidateBid_def guard_eq_Inr and_then_eq_Inr not_less split: if_splits)
qed

lemma bid_rank_less:
  assumes "ValidateBid config (Some prev) next = Inr ()"
  shows "bid_rank prev < bid_rank next"
proof -
  note v = ValidateBid_Some [OF assms]
  have f: "unat (bd_Face prev) \<le> 6" "1 \<le> unat (bd_Face next)"
    using face_bounds [OF v(1)] face_bounds [OF v(2)] by auto
  from v(3) consider
      (same) "bd_Mode prev = bd_Mode next" "bidAtLeast next prev False"
    | (fly) "bd_Mode prev = BidModeStrict" "bd_Mode next = BidModeFlying" "bd_Quantity prev \<le> MaxUint32 div 2"
        "bidAtLeast next \<lparr>bd_Quantity = bd_Quantity prev * 2, bd_Face = bd_Face prev, bd_Mode = bd_Mode next\<rparr> True"
    | (strict) "bd_Mode prev = BidModeFlying" "bd_Mode next = BidModeStrict"
        "bidAtLeast next \<lparr>bd_Quantity = bd_Quantity prev div 2 + 1, bd_Face = bd_Face prev, bd_Mode = bd_Mode next\<rparr> True"
    by blast
  then show ?thesis
  proof cases
    case same
    with f show ?thesis by (auto simp: bid_rank_def bidAtLeast_nat)
  next
    case fly
    then have "unat (bd_Quantity prev * 2) = 2 * unat (bd_Quantity prev)"
      by (simp add: word_le_nat_alt unat_div unat_word_ariths)
    with fly f show ?thesis by (auto simp: bid_rank_def bidAtLeast_nat)
  next
    case strict
    have "unat (bd_Quantity prev) < 4294967296" using unsigned_less [of "bd_Quantity prev", where 'a = nat] by simp
    then have "unat (bd_Quantity prev div 2 + 1) = unat (bd_Quantity prev) div 2 + 1"
      by (simp add: unat_word_ariths unat_div)
    with strict f show ?thesis by (auto simp: bid_rank_def bidAtLeast_nat)
  qed
qed

text \<open>A sequence of bids that the engine accepts one after the other.\<close>

fun bid_chain :: "Config \<Rightarrow> Bid option \<Rightarrow> Bid list \<Rightarrow> bool" where
  "bid_chain config previous [] = True"
| "bid_chain config previous (bid # bids) =
     (ValidateBid config previous bid = Inr () \<and> bid_chain config (Some bid) bids)"

lemma bid_chain_ranks:
  "bid_chain config (Some prev) bids \<Longrightarrow> sorted_wrt (\<lambda>a b. bid_rank a < bid_rank b) (prev # bids)"
proof (induction bids arbitrary: prev)
  case (Cons bid bids)
  then have "bid_rank prev < bid_rank bid" "sorted_wrt (\<lambda>a b. bid_rank a < bid_rank b) (bid # bids)"
    by (auto dest: bid_rank_less)
  then show ?case by (auto intro: less_trans)
qed simp

lemma bid_rank_bound:
  assumes "\<not> bid_malformed config bid"
  shows "bid_rank bid < 28 * 2 ^ 32"
proof -
  have "unat (bd_Quantity bid) \<le> 4294967295"
    using unsigned_less [of "bd_Quantity bid", where 'a = nat] by simp
  then show ?thesis using face_bounds [OF assms] by (auto simp: bid_rank_def)
qed

lemma bid_chain_wf: "bid_chain config previous bids \<Longrightarrow> bid \<in> set bids \<Longrightarrow> \<not> bid_malformed config bid"
  by (induction bids arbitrary: previous) (auto dest: ValidateBid_Inr_wf)

lemma bid_chain_bound:
  assumes "bid_chain config previous bids"
  shows "distinct bids \<and> length bids \<le> 28 * 2 ^ 32"
proof (cases bids)
  case (Cons bid rest)
  with assms have "bid_chain config (Some bid) rest" by simp
  from bid_chain_ranks [OF this] Cons have "sorted_wrt (\<lambda>a b. bid_rank a < bid_rank b) bids" by simp
  then have d: "distinct (map bid_rank bids)" by (rule strict_ranks_distinct)
  have "set (map bid_rank bids) \<subseteq> {..<28 * 2 ^ 32}"
    using assms by (auto dest!: bid_chain_wf bid_rank_bound)
  then have "card (set (map bid_rank bids)) \<le> card {..<28 * 2 ^ 32 :: nat}" by (intro card_mono) simp_all
  with d have "length bids \<le> 28 * 2 ^ 32" by (metis card_lessThan distinct_card length_map)
  with d show ?thesis by (simp add: distinct_map)
qed simp

section \<open>Counting\<close>

lemma count_faces_eq:
  "count_faces config bid acc faces = acc + of_nat (length (filter (face_counts config bid) faces))"
  by (induction faces arbitrary: acc) auto

lemma count_rolls_eq:
  "count_rolls config bid active acc rolls =
     acc + of_nat (length (filter (face_counts config bid)
       (concat (map rl_Faces (filter (\<lambda>roll. rl_UserID roll \<in> active) rolls)))))"
  by (induction rolls arbitrary: acc) (auto simp: count_faces_eq)

lemma dice_bound:
  assumes "valid s" and "st_Phase s = PhaseBidding"
  shows "length (concat (map rl_Faces (st_PrivateDice s))) \<le> 48"
proof -
  from assms have frozen: "frozen_ok s" and b: "bidding_ok s" by (auto simp: valid_def)
  let ?n = "unat (cf_DicePerPlayer (st_Config s))"
  have "length (concat (map rl_Faces (st_PrivateDice s))) = length (st_PrivateDice s) * ?n"
    using b by (intro concat_length_bound) (simp add: bidding_ok_def roll_ok_def)
  moreover have "?n \<le> 6"
    using frozen by (auto simp: frozen_ok_def Config_Validate_def MaximumDicePerPlayer_def guard_eq_Inr not_less word_le_nat_alt)
  moreover have "length (st_PrivateDice s) \<le> 8"
    using frozen b ld.count_le [of "st_Players s"] by (simp add: frozen_ok_def bidding_ok_def MaximumPlayers_def)
  ultimately show ?thesis using mult_le_mono [of "length (st_PrivateDice s)" 8 ?n 6] by simp
qed

lemma CountBid_exact:
  assumes "valid s" and "st_Phase s = PhaseBidding"
  shows "unat (CountBid s bid) =
    length (filter (face_counts (st_Config s) bid) (concat (map rl_Faces (st_PrivateDice s))))"
proof -
  from assms have frozen: "frozen_ok s" and b: "bidding_ok s" by (auto simp: valid_def)
  have "rl_UserID roll \<in> pl_UserID ` {p \<in> set (st_Players s). pl_Active p}" if "roll \<in> set (st_PrivateDice s)" for roll
    using that roll_owners [OF frozen b] by blast
  then have all: "filter (\<lambda>roll. rl_UserID roll \<in> set (map pl_UserID (filter pl_Active (st_Players s)))) (st_PrivateDice s) =
      st_PrivateDice s"
    by (intro filter_True) auto
  have "length (filter (face_counts (st_Config s) bid) (concat (map rl_Faces (st_PrivateDice s)))) \<le> 48"
    using dice_bound [OF assms] length_filter_le [of "face_counts (st_Config s) bid" "concat (map rl_Faces (st_PrivateDice s))"]
    by linarith
  then show ?thesis
    unfolding CountBid_def count_rolls_eq all by (simp add: unat_of_nat)
qed

section \<open>Streams of different players are different\<close>

lemma roll_stream_drop: "drop_bit 32 (roll_stream r s) = ucast r"
  by (rule bit_word_eqI) (auto simp: roll_stream_def bit_simps dest: bit_imp_le_length)

lemma roll_stream_take: "take_bit 32 (roll_stream r s) = ucast s"
  by (rule bit_word_eqI) (auto simp: roll_stream_def bit_simps dest: bit_imp_le_length)

lemma roll_stream_inject: "roll_stream r s = roll_stream r' s' \<longleftrightarrow> r = r' \<and> s = s'"
proof
  assume eq: "roll_stream r s = roll_stream r' s'"
  then have "(ucast r :: u64) = ucast r'" "(ucast s :: u64) = ucast s'"
    by (metis roll_stream_drop, metis roll_stream_take)
  then show "r = r' \<and> s = s'"
    by (metis ucast_u64_u32)
qed simp

section \<open>Rounds start when the clock and the hash allow it\<close>


lemma frozen_config:
  assumes "frozen_ok s"
  shows "3 \<le> unat (cf_DicePerPlayer (st_Config s))" and "unat (cf_DicePerPlayer (st_Config s)) \<le> 6"
    and "unat (cf_ActionTimeoutSeconds (st_Config s)) \<le> 120"
    and "2 \<le> unat (cf_PenaltyTicks (st_Config s))" and "unat (cf_PenaltyTicks (st_Config s)) \<le> 8"
  using assms
  by (auto simp: frozen_ok_def Config_Validate_def guard_eq_Inr MinimumDicePerPlayer_def MaximumDicePerPlayer_def
      TicksPerUnit_def not_less word_le_nat_alt word_less_nat_alt)

lemma deadline_hits:
  assumes "unat (cf_ActionTimeoutSeconds config) \<le> 120" and "now \<le> MaxInt64 - 120000"
  shows "\<exists>d. deadlineUnixMillis config now = Inr d"
proof -
  have "uint (cf_ActionTimeoutSeconds config) \<le> 120"
    using assms(1) by (simp add: nat_le_iff flip: nat_uint_eq)
  with assms(2) show ?thesis by (auto simp: deadlineUnixMillis_def Let_def)
qed





lemma startRound_active: "startRound sha256 s round first now seed = Inr (t, e) \<Longrightarrow> ld.active_user (st_Players s) first"
  by (erule startRound_Inr) simp

lemma startRound_fields:
  assumes "startRound sha256 s round first now seed = Inr (t, e)"
  shows "st_Players t = st_Players s" "st_Config t = st_Config s" "st_CurrentActorUserID t = first"
    "st_CurrentBid t = None" "st_LastSettlement t = st_LastSettlement s" "st_Phase t = PhaseBidding"
    "st_Round t = round"
    "e = empty_event\<lparr>ev_Kind := EventRoundStarted, ev_Round := round, ev_FirstActor := first\<rparr>"
  using assms by (auto elim!: startRound_Inr)

text \<open>A settlement charges the loser and nobody else.\<close>

lemma settle_effect:
  assumes "settleAndRestart sha256 s loser reason opener actual reveal now seed = Inr (t, es)" and "frozen_ok s"
  obtains i first where
    "i < length (st_Players s)" "pl_UserID (st_Players s ! i) = loser"
    "unat (pl_PenaltyTicks (st_Players s ! i)) + unat (cf_PenaltyTicks (st_Config s)) < 2 ^ 32"
    "st_Players t = (st_Players s)[i := (st_Players s ! i)\<lparr>pl_PenaltyTicks :=
       pl_PenaltyTicks (st_Players s ! i) + cf_PenaltyTicks (st_Config s)\<rparr>]"
    "st_Round s \<noteq> MaxUint32" "st_Round t = st_Round s + 1" "st_CurrentBid t = None" "st_CurrentActorUserID t = first"
    "pl_Active (st_Players s ! i) \<longrightarrow> first = loser" "ld.active_user (st_Players t) first"
    "st_LastSettlement t = st_LastSettlement (settled s i loser reason opener actual reveal)"
    "map ev_Kind es = (if reveal then [EventDiceRevealed] else []) @ [EventRoundSettled, EventRoundStarted]"
    "\<forall>e \<in> set es. ev_Dice e = (if ev_Kind e = EventDiceRevealed then st_PrivateDice s else [])"
proof -
  from assms(1) obtain i first e where i: "playerIndex (st_Players s) loser = Some i"
    and round: "st_Round s \<noteq> MaxUint32"
    and add: "Ticks_Add (pl_PenaltyTicks (st_Players s ! i)) (cf_PenaltyTicks (st_Config s)) =
       Inr (pl_PenaltyTicks (st_Players s ! i) + cf_PenaltyTicks (st_Config s))"
    and first: "if pl_Active (st_Players s ! i) then first = loser
     else next_user (st_Players (settled s i loser reason opener actual reveal)) loser = Some first"
    and start: "startRound sha256 (settled s i loser reason opener actual reveal) (st_Round s + 1) first now seed =
       Inr (t, e)"
    and es: "es = (if reveal
           then [empty_event\<lparr>ev_Kind := EventDiceRevealed, ev_Round := st_Round s, ev_Dice := st_PrivateDice s\<rparr>]
           else []) @
      [empty_event\<lparr>ev_Kind := EventRoundSettled, ev_Round := st_Round s, ev_LoserUserID := loser,
         ev_PenaltyTicks := cf_PenaltyTicks (st_Config s), ev_NextRound := st_Round s + 1,
         ev_ActualQuantity := actual, ev_Reason := reason, ev_OpenerUserID := opener,
         ev_Bid := st_CurrentBid s\<rparr>] @ [e]"
    by (rule settleAndRestart_Inr)
  from ld.index_SomeD [OF i] have lt: "i < length (st_Players s)" and u: "pl_UserID (st_Players s ! i) = loser" by auto
  note t = startRound_fields [OF start]
  from startRound_active [OF start] have "ld.active_user (st_Players t) first" by (simp add: t)
  moreover have "pl_Active (st_Players s ! i) \<longrightarrow> first = loser" using first by simp
  moreover have "st_Players t = (st_Players s)[i := (st_Players s ! i)\<lparr>pl_PenaltyTicks :=
       pl_PenaltyTicks (st_Players s ! i) + cf_PenaltyTicks (st_Config s)\<rparr>]" by (simp add: t settled_def)
  moreover have "unat (pl_PenaltyTicks (st_Players s ! i)) + unat (cf_PenaltyTicks (st_Config s)) < 2 ^ 32"
    using add unfolding Ticks_Add_Inr by blast
  moreover have "map ev_Kind es = (if reveal then [EventDiceRevealed] else []) @ [EventRoundSettled, EventRoundStarted]"
    by (simp add: es t(8))
  moreover have "\<forall>e \<in> set es. ev_Dice e = (if ev_Kind e = EventDiceRevealed then st_PrivateDice s else [])"
    by (simp add: es t(8) empty_event_def)
  ultimately show thesis using that [of i first] lt u round t by simp
qed

definition frozen_as :: "Config \<Rightarrow> (string \<times> u32) list \<Rightarrow> State \<Rightarrow> bool" where
  "frozen_as config roster s \<longleftrightarrow>
     valid s \<and> st_Config s = config \<and> map (\<lambda>p. (pl_UserID p, pl_SeatIndex p)) (st_Players s) = roster"

lemma startRound_frozen:
  "startRound sha256 s round first now seed = Inr (t, e) \<Longrightarrow> st_Players t = st_Players s \<and> st_Config t = st_Config s"
  by (simp add: startRound_fields)

lemma settle_frozen:
  assumes "settleAndRestart sha256 s loser reason opener actual reveal now seed = Inr (t, es)"
  shows "st_Config t = st_Config s \<and>
    map (\<lambda>p. (pl_UserID p, pl_SeatIndex p)) (st_Players t) = map (\<lambda>p. (pl_UserID p, pl_SeatIndex p)) (st_Players s)"
  using assms by (rule settleAndRestart_Inr) (auto dest!: startRound_frozen simp: settled_def map_update_eq)

lemma revoke_players:
  assumes "RevokeParticipant sha256 s userID now seed = Inr (t, es)"
  shows "\<exists>i < length (st_Players s). pl_UserID (st_Players s ! i) = userID \<and> st_Players t = st_Players (revoked s i) \<and>
    st_Config t = st_Config s"
  using assms
  by (rule RevokeParticipant_Inr)
    (auto simp: Let_def finishState_def revoked_def dest!: startRound_frozen split: if_splits)

lemma step_frozen:
  assumes "engine_step sha256 s c = Inr (t, es)"
  shows "st_Config t = st_Config s \<and>
    map (\<lambda>p. (pl_UserID p, pl_SeatIndex p)) (st_Players t) = map (\<lambda>p. (pl_UserID p, pl_SeatIndex p)) (st_Players s)"
proof (cases c)
  case (CmdBid actor bid now)
  with assms show ?thesis by (auto elim: PlaceBid_Inr)
next
  case (CmdOpen actor now seed)
  with assms show ?thesis by (auto elim!: OpenDice_Inr dest: settle_frozen)
next
  case (CmdTimeout timer now seed)
  with assms show ?thesis by (auto dest!: HandleTimeout_Inr(6) dest: settle_frozen)
next
  case (CmdRevoke userID now seed)
  with assms show ?thesis by (auto dest!: revoke_players simp: revoked_def map_update_eq)
next
  case (CmdFinish reason)
  with assms show ?thesis by (auto dest!: Finish_Inr(3) simp: finishState_def)
qed

interpretation lds: session_engine "engine_step sha256" "frozen_as config roster" "\<lambda>s. st_Phase s = PhaseFinished"
  "\<lambda>s. unat (st_Round s)" "\<lambda>_. True" for sha256 config roster
proof unfold_locales
  fix s :: State and c
  assume "st_Phase s = PhaseFinished"
  then show "\<exists>e. engine_step sha256 s c = Inl e"
    by (cases "engine_step sha256 s c") (auto dest: step_from)
qed (auto simp: frozen_as_def dest: step_valid step_round step_frozen)

lemma PlaceBid_turn:
  assumes "PlaceBid s actor bid now = Inr (t, es)"
  shows "ld.active_user (st_Players s) (st_CurrentActorUserID t)" and "st_CurrentActorUserID t \<noteq> actor"
proof -
  from assms obtain v where s: "valid s" "st_Phase s = PhaseBidding" and actor: "st_CurrentActorUserID s = actor"
    and n: "next_user (st_Players s) actor = Some v" and t: "st_CurrentActorUserID t = v"
    by (rule PlaceBid_Inr) simp
  from s have "frozen_ok s" and b: "bidding_ok s" by (auto simp: valid_def)
  then have dist: "distinct (map pl_UserID (st_Players s))" by (simp add: frozen_users)
  from b actor obtain i where i: "playerIndex (st_Players s) actor = Some i"
    by (auto simp: bidding_ok_def ld.active_user_def split: option.splits)
  from b have "2 \<le> activeCount (st_Players s)" by (simp add: bidding_ok_def MinimumPlayers_def)
  with ld.next_other [OF dist i _ n] ld.next_active_user [OF dist i n] t
  show "ld.active_user (st_Players s) (st_CurrentActorUserID t)" and "st_CurrentActorUserID t \<noteq> actor" by simp_all
qed

text \<open>The round or the actor moves on, or the session ends, with every step that consumes a turn.\<close>

lemma step_moves_on:
  assumes "engine_step sha256 s c = Inr (t, es)"
    and "\<forall>u at sd. c = CmdRevoke u at sd \<longrightarrow> u = st_CurrentActorUserID s"
  shows "st_Phase t = PhaseFinished \<or> st_Round t \<noteq> st_Round s \<or> st_CurrentActorUserID t \<noteq> st_CurrentActorUserID s"
proof (cases c)
  case (CmdBid actor bid now)
  with assms(1) have "PlaceBid s actor bid now = Inr (t, es)" by simp
  moreover from this have "st_CurrentActorUserID s = actor" by (rule PlaceBid_Inr)
  ultimately show ?thesis using PlaceBid_turn(2) by blast
next
  case (CmdOpen actor now seed)
  with assms show ?thesis by (auto elim!: OpenDice_Inr dest!: settle_round)
next
  case (CmdTimeout timer now seed)
  with assms show ?thesis by (auto dest!: HandleTimeout_Inr(6) settle_round)
next
  case (CmdRevoke userID now seed)
  with assms(1) have "RevokeParticipant sha256 s userID now seed = Inr (t, es)" by simp
  then show ?thesis
    by (rule RevokeParticipant_Inr)
      (use assms(2) CmdRevoke in \<open>auto simp: Let_def finishState_def dest!: startRound_round split: if_splits\<close>)
next
  case (CmdFinish reason)
  with assms show ?thesis by (auto dest!: Finish_Inr(3) simp: finishState_def)
qed

lemma settle_secret:
  assumes "settleAndRestart sha256 s loser reason opener actual reveal now seed = Inr (t, es)"
    and "e \<in> set es" and "ev_Dice e \<noteq> []"
  shows "reveal \<and> ev_Kind e = EventDiceRevealed \<and> ev_Dice e = st_PrivateDice s"
  using assms(1)
  by (rule settleAndRestart_Inr)
    (use assms(2,3) in \<open>auto simp: empty_event_def dest!: startRound_fields(8) split: if_splits\<close>)

lemma revoke_secret:
  assumes "RevokeParticipant sha256 s userID now seed = Inr (t, es)" and "e \<in> set es"
  shows "ev_Dice e = []"
  using assms(1)
  by (rule RevokeParticipant_Inr)
    (use assms(2) in \<open>auto simp: Let_def empty_event_def finishState_def dest!: startRound_fields(8) split: if_splits\<close>)

lemma revoke_dice:
  assumes "RevokeParticipant sha256 s userID now seed = Inr (t, es)"
  shows "userID \<notin> rl_UserID ` set (st_PrivateDice t)"
    and "st_Phase t = PhaseFinished \<longleftrightarrow> activeCount (st_Players t) < MinimumPlayers"
proof -
  from assms have v: "valid t" by (rule RevokeParticipant_valid)
  from revoke_players [OF assms] obtain i where i: "i < length (st_Players s)" "pl_UserID (st_Players s ! i) = userID"
    and p: "st_Players t = st_Players (revoked s i)" by blast
  from assms have "valid s" by (rule RevokeParticipant_Inr)
  then have "frozen_ok s" by (simp add: valid_def)
  then have dist: "distinct (map pl_UserID (st_Players s))" by (simp add: frozen_users)
  have off: "\<not> ld.active_user (st_Players t) userID"
    unfolding p revoked_def using ld.active_user_off [OF dist i(1)] i(2) by simp
  show "userID \<notin> rl_UserID ` set (st_PrivateDice t)"
    using v off by (auto simp: valid_def bidding_ok_def finished_ok_def)
  from assms show "st_Phase t = PhaseFinished \<longleftrightarrow> activeCount (st_Players t) < MinimumPlayers"
    by (rule RevokeParticipant_Inr)
      (auto simp: Let_def finishState_def startRound_fields split: if_splits)
qed

section \<open>A sample session\<close>

text \<open>Three players, one bid, one opening: the inputs at which the properties are applied.\<close>

definition demo_digest :: digest where
  "demo_digest bytes = [foldr (+) bytes 0 mod 252]"

definition demo_seed :: "u8 list" where "demo_seed = 1 # replicate 31 0"

definition demo_participants :: "Participant list" where
  "demo_participants = [\<lparr>pt_UserID = ''bob'', pt_SeatIndex = 4\<rparr>, \<lparr>pt_UserID = ''ann'', pt_SeatIndex = 1\<rparr>,
     \<lparr>pt_UserID = ''cy'', pt_SeatIndex = 2\<rparr>]"

definition demo_bid :: Bid where
  "demo_bid = \<lparr>bd_Quantity = 3, bd_Face = 4, bd_Mode = BidModeFlying\<rparr>"

definition demo_new :: "(State \<times> Event list) result" where
  "demo_new = NewState demo_digest (DefaultConfig 3) demo_participants 1 1000 demo_seed"

definition demo_start :: State where "demo_start = state_of demo_new"

definition demo_placed :: "(State \<times> Event list) result" where
  "demo_placed = PlaceBid demo_start ''ann'' demo_bid 2000"

definition demo_bidding :: State where "demo_bidding = state_of demo_placed"

definition demo_opened :: "(State \<times> Event list) result" where
  "demo_opened = OpenDice demo_digest demo_bidding ''cy'' 3000 demo_seed"

definition demo_revoked :: "(State \<times> Event list) result" where
  "demo_revoked = RevokeParticipant demo_digest demo_bidding ''bob'' 3000 demo_seed"

definition demo_finish :: "(State \<times> Event list) result" where
  "demo_finish = Finish demo_start []"

definition demo_timer :: ActionTimer where
  "demo_timer = \<lparr>tm_Round = 1, tm_UserID = ''ann'', tm_DeadlineUnixMillis = 31000\<rparr>"


lemma demo_new_ok:
  "NewState demo_digest (DefaultConfig 3) demo_participants 1 1000 demo_seed = Inr (demo_start, events_of demo_new)"
  unfolding demo_start_def demo_new_def by (rule ok_result) code_simp

lemma demo_placed_ok: "PlaceBid demo_start ''ann'' demo_bid 2000 = Inr (demo_bidding, events_of demo_placed)"
  unfolding demo_bidding_def demo_placed_def by (rule ok_result) code_simp

lemma demo_opened_ok:
  "OpenDice demo_digest demo_bidding ''cy'' 3000 demo_seed = Inr (state_of demo_opened, events_of demo_opened)"
  unfolding demo_opened_def by (rule ok_result) code_simp

lemma demo_revoked_ok:
  "RevokeParticipant demo_digest demo_bidding ''bob'' 3000 demo_seed = Inr (state_of demo_revoked, events_of demo_revoked)"
  unfolding demo_revoked_def by (rule ok_result) code_simp

lemma demo_finish_ok: "Finish demo_start [] = Inr (state_of demo_finish, events_of demo_finish)"
  unfolding demo_finish_def by (rule ok_result) code_simp

lemma demo_start_valid: "Validate demo_start = Inr ()"
  using NewState_valid [OF demo_new_ok] by (simp add: Validate_iff)

lemma demo_bidding_valid: "Validate demo_bidding = Inr ()"
  using PlaceBid_valid [OF demo_placed_ok] by (simp add: Validate_iff)

lemma demo_finish_valid: "Validate (state_of demo_finish) = Inr ()"
  using Finish_valid [OF demo_finish_ok] by (simp add: Validate_iff)

lemma demo_finish_phase: "st_Phase (state_of demo_finish) = PhaseFinished"
  by code_simp

lemma demo_start_phase: "st_Phase demo_start = PhaseBidding"
  by code_simp

lemma demo_bidding_phase: "st_Phase demo_bidding = PhaseBidding"
  by code_simp

lemma demo_start_actor: "st_CurrentActorUserID demo_start = ''ann''"
  by code_simp





lemma demo_timer_current: "CurrentTimer demo_start = Some demo_timer"
  by code_simp

lemma demo_revealed:
  "events_of demo_opened ! 0 \<in> set (events_of demo_opened)" "ev_Dice (events_of demo_opened ! 0) \<noteq> []"
  by code_simp+

lemma demo_chain:
  "bid_chain (DefaultConfig 3) None [\<lparr>bd_Quantity = 3, bd_Face = 4, bd_Mode = BidModeFlying\<rparr>,
     \<lparr>bd_Quantity = 2, bd_Face = 5, bd_Mode = BidModeStrict\<rparr>, \<lparr>bd_Quantity = 4, bd_Face = 5, bd_Mode = BidModeFlying\<rparr>]"
  by code_simp

section \<open>Properties\<close>



text \<open>
  A finished session rejects every command: it stays as it is and emits nothing.
\<close>

theorem ld_finished_absorbing:
  assumes "Validate s = Inr ()" and "st_Phase s = PhaseFinished"
  shows "run_session (engine_step sha256) s commands = (s, [])"
  using lds.session_finished [of "st_Config s" _ s] assms by (simp add: frozen_as_def Validate_iff)

theorem ld_finished_absorbing_witness:
  "Validate (state_of demo_finish) = Inr () \<and> st_Phase (state_of demo_finish) = PhaseFinished \<and>
   run_session (engine_step demo_digest) (state_of demo_finish) [CmdFinish []] = (state_of demo_finish, [])"
  using ld_finished_absorbing [OF demo_finish_valid demo_finish_phase] demo_finish_valid demo_finish_phase by blast

text \<open>
  An accepted bid is the current actor's, becomes the bid to beat, and passes the turn to another active
  player; penalties, dice and round stay.
\<close>

theorem ld_bid_effect:
  assumes "PlaceBid s actor bid now = Inr (t, es)"
  shows "actor = st_CurrentActorUserID s \<and> st_CurrentBid t = Some bid \<and> st_LastBidderUserID t = actor \<and>
    st_CurrentActorUserID t \<noteq> actor \<and>
    (\<exists>p \<in> set (st_Players t). pl_UserID p = st_CurrentActorUserID t \<and> pl_Active p) \<and>
    st_Players t = st_Players s \<and> st_PrivateDice t = st_PrivateDice s \<and> st_Round t = st_Round s"
  using assms PlaceBid_turn(2) [OF assms] ld.active_userD [OF PlaceBid_turn(1) [OF assms]]
  by (auto elim!: PlaceBid_Inr)

theorem ld_bid_effect_witness:
  "PlaceBid demo_start ''ann'' demo_bid 2000 = Inr (demo_bidding, events_of demo_placed) \<and>
   st_CurrentBid demo_bidding = Some demo_bid \<and> st_CurrentActorUserID demo_bidding \<noteq> ''ann''"
  using ld_bid_effect [OF demo_placed_ok] demo_placed_ok by blast

text \<open>
  In a live round a bid is accepted exactly when the actor owns the turn, the deadline has not passed and
  \<open>ValidateBid\<close> admits the bid over the current one: no internal error path is reachable.
\<close>

theorem ld_bid_accepted:
  assumes "Validate s = Inr ()" and "st_Phase s = PhaseBidding" and "0 < now" and "now \<le> MaxInt64 - 120000"
  shows "(\<exists>t es. PlaceBid s actor bid now = Inr (t, es)) \<longleftrightarrow>
    actor = st_CurrentActorUserID s \<and>
    (st_ActionDeadlineUnixMillis s \<noteq> 0 \<longrightarrow> now < st_ActionDeadlineUnixMillis s) \<and>
    ValidateBid (st_Config s) (st_CurrentBid s) bid = Inr ()" (is "?accepted \<longleftrightarrow> ?ok")
proof
  assume ?accepted
  then show ?ok by (auto elim: PlaceBid_Inr)
next
  assume ok: ?ok
  from assms have v: "valid s" by (simp add: Validate_iff)
  with assms(2) have frozen: "frozen_ok s" and b: "bidding_ok s" by (auto simp: valid_def)
  from b ok obtain i where i: "playerIndex (st_Players s) actor = Some i"
    by (auto simp: bidding_ok_def ld.active_user_def split: option.splits)
  have "0 < activeCount (st_Players s)" using b by (simp add: bidding_ok_def MinimumPlayers_def)
  from ld.next_exists [OF i this] obtain n where "nextActiveUser s actor = Inr n"
    by (auto simp: nextActiveUser_next_user)
  moreover obtain d where "deadlineUnixMillis (st_Config s) now = Inr d"
    using deadline_hits [OF frozen_config(3) [OF frozen] assms(4)] by blast
  moreover have "validateAction s actor now = Inr now" using ok assms v by (simp add: validateAction_Inr)
  ultimately show ?accepted using ok by (simp add: PlaceBid_def)
qed

theorem ld_bid_accepted_witness:
  "Validate demo_start = Inr () \<and> st_Phase demo_start = PhaseBidding \<and>
   \<not> (\<exists>t es. PlaceBid demo_start ''bob'' demo_bid 2000 = Inr (t, es))"
  using ld_bid_accepted [OF demo_start_valid demo_start_phase, of 2000 "''bob''" demo_bid]
    demo_start_valid demo_start_phase demo_start_actor
  by (simp add: MaxInt64_def)

text \<open>
  Bids accepted one after the other in a round never repeat and are boundedly many, also across switches
  between strict and flying bids.
\<close>

theorem ld_bids_advance:
  assumes "bid_chain config previous bids"
  shows "distinct bids \<and> length bids \<le> 28 * 2 ^ 32"
  using assms by (rule bid_chain_bound)

theorem ld_bids_advance_witness:
  "bid_chain (DefaultConfig 3) None [\<lparr>bd_Quantity = 3, bd_Face = 4, bd_Mode = BidModeFlying\<rparr>,
     \<lparr>bd_Quantity = 2, bd_Face = 5, bd_Mode = BidModeStrict\<rparr>, \<lparr>bd_Quantity = 4, bd_Face = 5, bd_Mode = BidModeFlying\<rparr>] \<and>
   distinct [\<lparr>bd_Quantity = 3 :: u32, bd_Face = 4 :: u32, bd_Mode = BidModeFlying\<rparr>,
     \<lparr>bd_Quantity = 2, bd_Face = 5, bd_Mode = BidModeStrict\<rparr>, \<lparr>bd_Quantity = 4, bd_Face = 5, bd_Mode = BidModeFlying\<rparr>]"
  using ld_bids_advance [OF demo_chain] demo_chain by blast

text \<open>
  \<open>CountBid\<close> is the number of dice of the active players that satisfy the bid; the 32-bit counter cannot wrap.
\<close>

theorem ld_count_exact:
  assumes "Validate s = Inr ()" and "st_Phase s = PhaseBidding"
  shows "unat (CountBid s bid) = length (filter (face_counts (st_Config s) bid) (concat (map rl_Faces (st_PrivateDice s))))
    \<and> unat (CountBid s bid) \<le> 48"
proof -
  from assms have v: "valid s" by (simp add: Validate_iff)
  have "length (filter (face_counts (st_Config s) bid) (concat (map rl_Faces (st_PrivateDice s)))) \<le> 48"
    using dice_bound [OF v assms(2)] length_filter_le order_trans by blast
  with CountBid_exact [OF v assms(2)] show ?thesis by simp
qed

theorem ld_count_exact_witness:
  "Validate demo_bidding = Inr () \<and> st_Phase demo_bidding = PhaseBidding \<and> unat (CountBid demo_bidding demo_bid) \<le> 48"
  using ld_count_exact [OF demo_bidding_valid demo_bidding_phase] demo_bidding_valid demo_bidding_phase by blast

text \<open>
  C22: opening charges exactly one player: the opener when the bid holds, the last bidder otherwise, by the frozen
  penalty and without wrap-around; the round advances by one, the bid is cleared and the revealed dice are recorded.
\<close>

theorem ld_open_settles:
  assumes "OpenDice sha256 s actor now seed = Inr (t, es)"
  shows "\<exists>bid loser. st_CurrentBid s = Some bid \<and> actor = st_CurrentActorUserID s \<and>
    loser = (if unat (bd_Quantity bid) \<le>
               length (filter (face_counts (st_Config s) bid) (concat (map rl_Faces (st_PrivateDice s))))
             then actor else st_LastBidderUserID s) \<and>
    st_Players t = map (\<lambda>p. if pl_UserID p = loser
      then p\<lparr>pl_PenaltyTicks := pl_PenaltyTicks p + cf_PenaltyTicks (st_Config s)\<rparr> else p) (st_Players s) \<and>
    (\<forall>p \<in> set (st_Players s). pl_UserID p = loser \<longrightarrow>
       unat (pl_PenaltyTicks p) + unat (cf_PenaltyTicks (st_Config s)) < 2 ^ 32) \<and>
    unat (st_Round t) = unat (st_Round s) + 1 \<and> st_CurrentBid t = None \<and>
    map ev_Kind es = [EventDiceRevealed, EventRoundSettled, EventRoundStarted] \<and>
    se_LoserUserID (st_LastSettlement t) = loser \<and> se_RevealedDice (st_LastSettlement t) = st_PrivateDice s"
proof -
  from assms obtain bid where s: "valid s" "st_Phase s = PhaseBidding" and actor: "st_CurrentActorUserID s = actor"
    and bid: "st_CurrentBid s = Some bid" and settle: "settleAndRestart sha256 s
       (if CountBid s bid \<ge> bd_Quantity bid then actor else st_LastBidderUserID s)
       SettlementOpened actor (CountBid s bid) True now seed = Inr (t, es)"
    by (rule OpenDice_Inr)
  define loser where "loser = (if CountBid s bid \<ge> bd_Quantity bid then actor else st_LastBidderUserID s)"
  note settle = settle [folded loser_def]
  from s have frozen: "frozen_ok s" by (simp add: valid_def)
  have dist: "distinct (map pl_UserID (st_Players s))" by (rule frozen_users(1) [OF frozen])
  from settle frozen obtain i where i: "i < length (st_Players s)" "pl_UserID (st_Players s ! i) = loser"
    and fits: "unat (pl_PenaltyTicks (st_Players s ! i)) + unat (cf_PenaltyTicks (st_Config s)) < 2 ^ 32"
    and p: "st_Players t = (st_Players s)[i := (st_Players s ! i)\<lparr>pl_PenaltyTicks :=
       pl_PenaltyTicks (st_Players s ! i) + cf_PenaltyTicks (st_Config s)\<rparr>]"
    and r: "st_Round s \<noteq> MaxUint32" "st_Round t = st_Round s + 1" "st_CurrentBid t = None"
    and l: "st_LastSettlement t = st_LastSettlement (settled s i loser SettlementOpened actor (CountBid s bid) True)"
    and k: "map ev_Kind es = (if True then [EventDiceRevealed] else []) @ [EventRoundSettled, EventRoundStarted]"
    by (rule settle_effect)
  have "st_Players t = map (\<lambda>p. if pl_UserID p = loser
      then p\<lparr>pl_PenaltyTicks := pl_PenaltyTicks p + cf_PenaltyTicks (st_Config s)\<rparr> else p) (st_Players s)"
    using update_as_map [OF dist i(1), of "\<lambda>p. p\<lparr>pl_PenaltyTicks := pl_PenaltyTicks p + cf_PenaltyTicks (st_Config s)\<rparr>"]
    unfolding p i(2) .
  moreover have "\<forall>p \<in> set (st_Players s). pl_UserID p = loser \<longrightarrow>
      unat (pl_PenaltyTicks p) + unat (cf_PenaltyTicks (st_Config s)) < 2 ^ 32"
    using fits i dist by (metis in_set_conv_nth length_map nth_eq_iff_index_eq nth_map)
  moreover have "loser = (if unat (bd_Quantity bid) \<le>
      length (filter (face_counts (st_Config s) bid) (concat (map rl_Faces (st_PrivateDice s))))
      then actor else st_LastBidderUserID s)"
    using CountBid_exact [OF s, of bid] by (simp add: loser_def word_le_nat_alt)
  moreover have "unat (st_Round t) = unat (st_Round s) + 1" using r by (simp add: unat_plus_1_u32)
  ultimately show ?thesis
    using bid actor r(3) k l by (intro exI [of _ bid] exI [of _ loser] conjI) (simp_all add: settled_def)
qed

theorem ld_open_settles_witness:
  "OpenDice demo_digest demo_bidding ''cy'' 3000 demo_seed = Inr (state_of demo_opened, events_of demo_opened) \<and>
   map ev_Kind (events_of demo_opened) = [EventDiceRevealed, EventRoundSettled, EventRoundStarted]"
  using ld_open_settles [OF demo_opened_ok] demo_opened_ok by blast



text \<open>
  After a step that consumes the turn (any command but the removal of another player) the timer of that turn is
  rejected: a late or repeated delivery changes nothing.
\<close>

theorem ld_timer_fires_once:
  assumes "CurrentTimer s = Some timer" and "engine_step sha256 s c = Inr (t, es)"
    and "\<forall>u at sd. c = CmdRevoke u at sd \<longrightarrow> u = st_CurrentActorUserID s"
  shows "\<exists>e. HandleTimeout sha256 t timer now seed = Inl e"
proof (cases "HandleTimeout sha256 t timer now seed")
  case (Inr r)
  obtain u fs where "r = (u, fs)" by (cases r)
  with Inr have h: "HandleTimeout sha256 t timer now seed = Inr (u, fs)" by simp
  from HandleTimeout_Inr(2,4) [OF h] have "st_Phase t = PhaseBidding" "CurrentTimer t = Some timer" .
  with assms(1) step_moves_on [OF assms(2,3)] show ?thesis
    by (auto simp: CurrentTimer_def split: if_splits)
qed simp

theorem ld_timer_fires_once_witness:
  "CurrentTimer demo_start = Some demo_timer \<and> (\<exists>e. HandleTimeout demo_digest demo_bidding demo_timer 31000 demo_seed = Inl e)"
  using ld_timer_fires_once [OF demo_timer_current, of demo_digest "CmdBid ''ann'' demo_bid 2000"]
    demo_timer_current demo_placed_ok by simp

text \<open>
  C29: the events carry dice only when the current actor opens a standing bid, and then exactly the dice of the round that ends.
\<close>

theorem ld_dice_secret:
  assumes "engine_step sha256 s c = Inr (t, es)" and "e \<in> set es" and "ev_Dice e \<noteq> []"
  shows "\<exists>now seed. c = CmdOpen (st_CurrentActorUserID s) now seed \<and> st_CurrentBid s \<noteq> None \<and>
    ev_Kind e = EventDiceRevealed \<and> ev_Dice e = st_PrivateDice s"
proof (cases c)
  case (CmdBid actor bid now)
  with assms show ?thesis by (auto elim!: PlaceBid_Inr simp: empty_event_def)
next
  case (CmdOpen actor now seed)
  with assms(1) have "OpenDice sha256 s actor now seed = Inr (t, es)" by simp
  then show ?thesis by (rule OpenDice_Inr) (use CmdOpen in \<open>simp add: settle_secret [OF _ assms(2,3)]\<close>)
next
  case (CmdTimeout timer now seed)
  with assms show ?thesis by (auto dest!: HandleTimeout_Inr(6) dest: settle_secret)
next
  case (CmdRevoke userID now seed)
  with assms show ?thesis by (auto dest: revoke_secret)
next
  case (CmdFinish reason)
  with assms show ?thesis by (auto dest!: Finish_Inr(3) simp: finishState_def empty_event_def)
qed

theorem ld_dice_secret_witness:
  "engine_step demo_digest demo_bidding (CmdOpen ''cy'' 3000 demo_seed) = Inr (state_of demo_opened, events_of demo_opened) \<and>
   ev_Dice (events_of demo_opened ! 0) = st_PrivateDice demo_bidding"
  using ld_dice_secret [of demo_digest demo_bidding "CmdOpen ''cy'' 3000 demo_seed", OF _ demo_revealed] demo_opened_ok by auto

text \<open>
  Revoking a participant deactivates that player and nobody else, discards the player's dice, and ends the session
  exactly when fewer than two active players are left.
\<close>

theorem ld_revoke_effect:
  assumes "RevokeParticipant sha256 s userID now seed = Inr (t, es)"
  shows "st_Players t = map (\<lambda>p. if pl_UserID p = userID then p\<lparr>pl_Active := False\<rparr> else p) (st_Players s) \<and>
    userID \<notin> rl_UserID ` set (st_PrivateDice t) \<and>
    (st_Phase t = PhaseFinished \<longleftrightarrow> activeCount (st_Players t) < MinimumPlayers) \<and> Validate t = Inr ()"
proof -
  from revoke_players [OF assms] obtain i where i: "i < length (st_Players s)" "pl_UserID (st_Players s ! i) = userID"
    and p: "st_Players t = (st_Players s)[i := (st_Players s ! i)\<lparr>pl_Active := False\<rparr>]"
    by (auto simp: revoked_def)
  from assms have "valid s" by (rule RevokeParticipant_Inr)
  then have "distinct (map pl_UserID (st_Players s))" by (simp add: valid_def frozen_users)
  from update_as_map [OF this i(1), of "\<lambda>p. p\<lparr>pl_Active := False\<rparr>"]
  have "st_Players t = map (\<lambda>p. if pl_UserID p = userID then p\<lparr>pl_Active := False\<rparr> else p) (st_Players s)"
    unfolding p i(2) .
  with revoke_dice [OF assms] RevokeParticipant_valid [OF assms] show ?thesis by (simp add: Validate_iff)
qed

theorem ld_revoke_effect_witness:
  "RevokeParticipant demo_digest demo_bidding ''bob'' 3000 demo_seed = Inr (state_of demo_revoked, events_of demo_revoked) \<and>
   ''bob'' \<notin> rl_UserID ` set (st_PrivateDice (state_of demo_revoked))"
  using ld_revoke_effect [OF demo_revoked_ok] demo_revoked_ok by simp

end
