(* ===== verification/Dice789.thy ===== *)
theory Dice789
  imports Players Contract Dice
begin

text \<open>
  The rules engine of dice 789 (\<open>games/dice-789/engine\<close>): \<open>types.go\<close>, \<open>config.go\<close>, \<open>errors.go\<close>,
  \<open>state.go\<close> and \<open>actions.go\<close>. Players roll two dice in turn; a result adds to a shared pool of ticks,
  makes somebody drink from it, reverses the direction of play or asks for a target. The functions are
  those of the source, with its names. Where the source indexes a slice with the result of \<open>playerIndex\<close>
  without checking it, the model returns \<open>Inl Panic\<close> for the index \<open>-1\<close>; where it discards an error with
  a blank identifier, the model discards it too.
\<close>

section \<open>Types\<close>

definition CurrentSchemaVersion :: u32 where "CurrentSchemaVersion = 1"
definition MinimumPlayers :: nat where "MinimumPlayers = 2"
definition MaximumPlayers :: nat where "MaximumPlayers = 12"
definition MinimumLayers :: u32 where "MinimumLayers = 1"
definition MaximumLayers :: u32 where "MaximumLayers = 6"
definition MaximumLayerCapacity :: Ticks where "MaximumLayerCapacity = 64"

text \<open>The first constructor of an enumeration stands for Go's zero value and for undefined values.\<close>

datatype ContinueMode = ContinueUnset | ContinueOptional | ContinueForcedReroll | ContinueForcedPass

record Config =
  cf_InitialPoolTicks :: Ticks
  cf_LayerCapacityTicks :: Ticks
  cf_AddStepTicks :: Ticks
  cf_MaxLayers :: u32
  cf_StackedPool :: bool
  cf_OrdinaryPairsReverse :: bool
  cf_DoubleOneEnabled :: bool
  cf_DoubleFourEnabled :: bool
  cf_DoubleSixEnabled :: bool
  cf_ContinueMode :: ContinueMode
  cf_LastDigitMatch :: bool
  cf_ActionTimeoutSeconds :: u32
  cf_DropReportWindowSeconds :: u32

datatype Phase =
    PhaseUnset | PhaseAwaitingRoll | PhaseResultPending | PhaseAwaitingAdd | PhaseAwaitingTarget
  | PhaseAwaitingContinue | PhaseTurnSettled | PhaseFinished

datatype Direction = DirectionUnset | DirectionClockwise | DirectionCounterClockwise

datatype ResultKind =
    ResultUnset | ResultNone | ResultSeven | ResultEight | ResultNine | ResultDoubleOne
  | ResultDoubleFour | ResultDoubleSix | ResultOrdinaryPair | ResultOther | ResultDropped
  | ResultRollTimeout | ResultCancelled

abbreviation FinishHostRequested :: string where "FinishHostRequested \<equiv> ''host_requested''"
abbreviation FinishInsufficientParticipants :: string where
  "FinishInsufficientParticipants \<equiv> ''insufficient_participants''"
abbreviation FinishPlatformCancelled :: string where "FinishPlatformCancelled \<equiv> ''platform_cancelled''"

record Participant =
  pt_UserID :: string
  pt_SeatIndex :: u32

record PlayerState =
  pl_UserID :: string
  pl_SeatIndex :: u32
  pl_Active :: bool
  pl_PenaltyTicks :: Ticks

record PoolLayer =
  ly_Ticks :: Ticks

record TurnSettlement =
  ts_Turn :: u32
  ts_SourceUserID :: string
  ts_DieOne :: u32
  ts_DieTwo :: u32
  ts_Sum :: u32
  ts_Result :: ResultKind
  ts_TargetUserID :: string
  ts_PoolBeforeTicks :: Ticks
  ts_PoolAfterTicks :: Ticks
  ts_PoolBefore :: "PoolLayer list"
  ts_PoolAfter :: "PoolLayer list"
  ts_EffectTicks :: Ticks
  ts_PenaltyUserID :: string
  ts_PenaltyTicks :: Ticks
  ts_DirectionBefore :: Direction
  ts_DirectionAfter :: Direction
  ts_NextUserID :: string
  ts_Reason :: string
  ts_AuditRef :: string
  ts_DropReason :: string

record State =
  st_SchemaVersion :: u32
  st_Phase :: Phase
  st_Turn :: u32
  st_HostUserID :: string
  st_Players :: "PlayerState list"
  st_CurrentUserID :: string
  st_SourceUserID :: string
  st_TargetUserID :: string
  st_Direction :: Direction
  st_Pool :: "PoolLayer list"
  st_TotalPoolTicks :: Ticks
  st_DieOne :: u32
  st_DieTwo :: u32
  st_Sum :: u32
  st_ActionDeadlineUnixMillis :: i64
  st_Config :: Config
  st_PendingResult :: ResultKind
  st_PendingPoolBeforeTicks :: Ticks
  st_PendingDirectionBefore :: Direction
  st_LastSettlement :: TurnSettlement
  st_FinishReason :: string

record ActionTimer =
  tm_Turn :: u32
  tm_Phase :: Phase
  tm_CurrentUserID :: string
  tm_SourceUserID :: string
  tm_TargetUserID :: string
  tm_PendingResult :: ResultKind
  tm_DeadlineUnixMillis :: i64

abbreviation EventTurnStarted :: string where "EventTurnStarted \<equiv> ''turn.started''"
abbreviation EventDiceRolled :: string where "EventDiceRolled \<equiv> ''dice.rolled''"
abbreviation EventEffectSelected :: string where "EventEffectSelected \<equiv> ''effect.selected''"
abbreviation EventTargetSelected :: string where "EventTargetSelected \<equiv> ''target.selected''"
abbreviation EventPoolChanged :: string where "EventPoolChanged \<equiv> ''pot.changed''"
abbreviation EventPenaltyRecorded :: string where "EventPenaltyRecorded \<equiv> ''penalty.recorded''"
abbreviation EventDirectionChanged :: string where "EventDirectionChanged \<equiv> ''direction.changed''"
abbreviation EventTurnSettled :: string where "EventTurnSettled \<equiv> ''turn.settled''"
abbreviation EventTurnDropped :: string where "EventTurnDropped \<equiv> ''turn.dropped_reported''"
abbreviation EventParticipantRevoked :: string where "EventParticipantRevoked \<equiv> ''participant.revoked''"
abbreviation EventSessionFinished :: string where "EventSessionFinished \<equiv> ''session.finished''"

record Event =
  ev_Kind :: string
  ev_Turn :: u32
  ev_InitialConfig :: "Config option"
  ev_InitialParticipants :: "Participant list"
  ev_InitialPool :: "PoolLayer list"
  ev_InitialTotalPoolTicks :: Ticks
  ev_UserID :: string
  ev_SourceUserID :: string
  ev_TargetUserID :: string
  ev_DieOne :: u32
  ev_DieTwo :: u32
  ev_Sum :: u32
  ev_Result :: ResultKind
  ev_PhaseBefore :: Phase
  ev_PhaseAfter :: Phase
  ev_Direction :: Direction
  ev_DirectionBefore :: Direction
  ev_PoolBeforeTicks :: Ticks
  ev_PoolAfterTicks :: Ticks
  ev_PoolBefore :: "PoolLayer list"
  ev_PoolAfter :: "PoolLayer list"
  ev_EffectTicks :: Ticks
  ev_PenaltyTicks :: Ticks
  ev_PenaltyBeforeTicks :: Ticks
  ev_PenaltyAfterTicks :: Ticks
  ev_NextUserID :: string
  ev_Reason :: string
  ev_AuditRef :: string
  ev_OperatorUserID :: string
  ev_PendingEffectCancelled :: bool
  ev_TargetSelectionReopened :: bool

text \<open>The zero values that Go gives to the fields a composite literal leaves out.\<close>

definition empty_settlement :: TurnSettlement where
  "empty_settlement = \<lparr>ts_Turn = 0, ts_SourceUserID = [], ts_DieOne = 0, ts_DieTwo = 0, ts_Sum = 0,
     ts_Result = ResultUnset, ts_TargetUserID = [], ts_PoolBeforeTicks = 0, ts_PoolAfterTicks = 0,
     ts_PoolBefore = [], ts_PoolAfter = [], ts_EffectTicks = 0, ts_PenaltyUserID = [], ts_PenaltyTicks = 0,
     ts_DirectionBefore = DirectionUnset, ts_DirectionAfter = DirectionUnset, ts_NextUserID = [],
     ts_Reason = [], ts_AuditRef = [], ts_DropReason = []\<rparr>"

definition empty_event :: Event where
  "empty_event = \<lparr>ev_Kind = [], ev_Turn = 0, ev_InitialConfig = None, ev_InitialParticipants = [],
     ev_InitialPool = [], ev_InitialTotalPoolTicks = 0, ev_UserID = [], ev_SourceUserID = [],
     ev_TargetUserID = [], ev_DieOne = 0, ev_DieTwo = 0, ev_Sum = 0, ev_Result = ResultUnset,
     ev_PhaseBefore = PhaseUnset, ev_PhaseAfter = PhaseUnset, ev_Direction = DirectionUnset,
     ev_DirectionBefore = DirectionUnset, ev_PoolBeforeTicks = 0, ev_PoolAfterTicks = 0, ev_PoolBefore = [],
     ev_PoolAfter = [], ev_EffectTicks = 0, ev_PenaltyTicks = 0, ev_PenaltyBeforeTicks = 0,
     ev_PenaltyAfterTicks = 0, ev_NextUserID = [], ev_Reason = [], ev_AuditRef = [], ev_OperatorUserID = [],
     ev_PendingEffectCancelled = False, ev_TargetSelectionReopened = False\<rparr>"

datatype ErrorCode =
    CodeInvalidConfig | CodeInvalidParticipants | CodeInvalidState | CodeInvalidAction
  | CodeSessionFinished | CodeNotCurrentActor | CodeNotHost | CodeWrongPhase | CodeTimerMismatch
  | CodeTimerNotDue | CodeParticipantInactive | CodeTargetInvalid | CodePoolAmountInvalid
  | CodePoolOverflow | CodePenaltyOverflow | CodeRoundOverflow | CodeSeedInvalid
  | CodeContinueModeInvalid | CodeDropReportClosed | CodeActionExpired | CodeMalformedPayload
  | CodeUnsupportedMigration | CodeProjectionUnavailable

type_synonym 'a result = "(ErrorCode, 'a) res"

section \<open>Configuration and participants\<close>

definition DefaultConfig :: "bool \<Rightarrow> Config" where
  "DefaultConfig stacked =
     (let config = \<lparr>cf_InitialPoolTicks = 2, cf_LayerCapacityTicks = 8, cf_AddStepTicks = 1, cf_MaxLayers = 1,
        cf_StackedPool = stacked, cf_OrdinaryPairsReverse = True, cf_DoubleOneEnabled = True,
        cf_DoubleFourEnabled = True, cf_DoubleSixEnabled = True, cf_ContinueMode = ContinueOptional,
        cf_LastDigitMatch = False, cf_ActionTimeoutSeconds = 30, cf_DropReportWindowSeconds = 5\<rparr> in
      if stacked then config\<lparr>cf_MaxLayers := 3\<rparr> else config)"

text \<open>The product of two 32-bit numbers in 64 bits.\<close>

definition capacity_product :: "Config \<Rightarrow> u64" where
  "capacity_product config = ucast (cf_LayerCapacityTicks config) * ucast (cf_MaxLayers config)"

definition Config_Validate :: "Config \<Rightarrow> nat \<Rightarrow> unit result" where
  "Config_Validate config playerCount =
     (if playerCount < MinimumPlayers \<or> playerCount > MaximumPlayers \<or>
         cf_InitialPoolTicks config > 64 \<or> cf_LayerCapacityTicks config = 0 \<or>
         cf_LayerCapacityTicks config > MaximumLayerCapacity \<or>
         cf_AddStepTicks config = 0 \<or> cf_AddStepTicks config > 16 \<or>
         cf_LayerCapacityTicks config mod cf_AddStepTicks config \<noteq> 0 \<or>
         cf_MaxLayers config < MinimumLayers \<or> cf_MaxLayers config > MaximumLayers \<or>
         (\<not> cf_StackedPool config \<and> cf_MaxLayers config \<noteq> 1) \<or>
         (cf_StackedPool config \<and> cf_MaxLayers config < 2) \<or>
         cf_ContinueMode config = ContinueUnset \<or>
         (cf_ActionTimeoutSeconds config \<noteq> 0 \<and>
           (cf_ActionTimeoutSeconds config < 10 \<or> cf_ActionTimeoutSeconds config > 120)) \<or>
         cf_DropReportWindowSeconds config < 3 \<or> cf_DropReportWindowSeconds config > 15
      then ruleError CodeInvalidConfig ''configuration is outside frozen rules''
      else if capacity_product config > ucast MaxUint32 \<or>
        ucast (cf_InitialPoolTicks config) > capacity_product config
      then ruleError CodePoolOverflow ''pool capacity is invalid''
      else Inr ())"

text \<open>The loop of \<open>ValidateParticipants\<close>, with the users and the seats met so far.\<close>

fun validate_participants :: "string set \<Rightarrow> u32 set \<Rightarrow> Participant list \<Rightarrow> unit result" where
  "validate_participants seenUsers seenSeats [] = Inr ()"
| "validate_participants seenUsers seenSeats (participant # rest) =
     (case ParseIdentifier (pt_UserID participant) of
        Inl _ \<Rightarrow> ruleError CodeInvalidParticipants ''participant identity is empty''
      | Inr _ \<Rightarrow>
          if pt_UserID participant \<in> seenUsers
          then ruleError CodeInvalidParticipants ''participant identity is duplicated''
          else if pt_SeatIndex participant \<in> seenSeats
          then ruleError CodeInvalidParticipants ''participant seat is duplicated''
          else validate_participants (insert (pt_UserID participant) seenUsers)
                 (insert (pt_SeatIndex participant) seenSeats) rest)"

definition ValidateParticipants :: "Participant list \<Rightarrow> unit result" where
  "ValidateParticipants participants =
     (if length participants < MinimumPlayers \<or> length participants > MaximumPlayers
      then ruleError CodeInvalidParticipants ''participant count is unsupported''
      else validate_participants {} {} participants)"

definition canonicalParticipants :: "Participant list \<Rightarrow> Participant list result" where
  "canonicalParticipants participants =
     and_then (ValidateParticipants participants) (\<lambda>_. Inr (sort_key pt_SeatIndex participants))"

section \<open>The pool\<close>

definition totalCapacity :: "Config \<Rightarrow> Ticks result" where
  "totalCapacity config =
     (if capacity_product config > ucast MaxUint32
      then ruleError CodePoolOverflow ''pool capacity overflows uint32''
      else Inr (cf_LayerCapacityTicks config * cf_MaxLayers config))"

definition mustCapacity :: "Config \<Rightarrow> Ticks" where
  "mustCapacity config = (case totalCapacity config of Inl _ \<Rightarrow> 0 | Inr capacity \<Rightarrow> capacity)"

text \<open>The loop of \<open>poolFromTotal\<close>; \<open>None\<close> would be a loop that does not end.\<close>

partial_function (option) pool_layers :: "Ticks \<Rightarrow> Ticks \<Rightarrow> PoolLayer list option" where
  [code]: "pool_layers layerCapacity remaining =
     (if remaining > 0 then
        (let value = (if remaining < layerCapacity then remaining else layerCapacity) in
         Option.bind (pool_layers layerCapacity (remaining - value))
           (\<lambda>layers. Some (\<lparr>ly_Ticks = value\<rparr> # layers)))
      else Some [])"

definition poolFromTotal :: "Config \<Rightarrow> Ticks \<Rightarrow> PoolLayer list result" where
  "poolFromTotal config amount =
     (if (case totalCapacity config of Inl _ \<Rightarrow> True | Inr capacity \<Rightarrow> amount > capacity)
      then ruleError CodePoolOverflow ''pool total exceeds capacity''
      else if amount = 0 then Inr [\<lparr>ly_Ticks = 0\<rparr>]
      else case pool_layers (cf_LayerCapacityTicks config) amount of
        None \<Rightarrow> Inl Diverge
      | Some layers \<Rightarrow> Inr layers)"

fun poolLayersTotal :: "PoolLayer list \<Rightarrow> Ticks" where
  "poolLayersTotal [] = 0"
| "poolLayersTotal (layer # rest) = ly_Ticks layer + poolLayersTotal rest"

definition setPoolTotal :: "State \<Rightarrow> Ticks \<Rightarrow> State result" where
  "setPoolTotal state amount =
     and_then (poolFromTotal (st_Config state) amount)
       (\<lambda>pool. Inr (state\<lparr>st_Pool := pool, st_TotalPoolTicks := amount\<rparr>))"

definition validateAddAmount :: "State \<Rightarrow> Ticks \<Rightarrow> unit result" where
  "validateAddAmount state amount =
     (let remaining = mustCapacity (st_Config state) - st_TotalPoolTicks state in
      if amount > remaining then ruleError CodePoolAmountInvalid ''pool add exceeds remaining capacity''
      else if remaining = 0 then
        (if amount \<noteq> 0 then ruleError CodePoolAmountInvalid ''full pool accepts only zero add'' else Inr ())
      else if remaining < cf_AddStepTicks (st_Config state) then
        (if amount \<noteq> remaining then ruleError CodePoolAmountInvalid ''final pool remainder must be filled''
         else Inr ())
      else if amount = remaining \<or> amount > 0 \<and> amount mod cf_AddStepTicks (st_Config state) = 0 then Inr ()
      else ruleError CodePoolAmountInvalid ''pool add is not aligned to configured step'')"

definition minimumAddAmount :: "State \<Rightarrow> Ticks result" where
  "minimumAddAmount state =
     (let remaining = mustCapacity (st_Config state) - st_TotalPoolTicks state in
      if remaining = 0 then Inr 0
      else if remaining < cf_AddStepTicks (st_Config state) then Inr remaining
      else Inr (cf_AddStepTicks (st_Config state)))"

section \<open>Players, clock and turns\<close>

definition validUnixMillis :: "i64 \<Rightarrow> bool" where
  "validUnixMillis value \<longleftrightarrow> value > 0"

definition deadlineUnixMillis :: "i64 \<Rightarrow> u32 \<Rightarrow> i64 result" where
  "deadlineUnixMillis now seconds =
     (if \<not> validUnixMillis now then ruleError CodeInvalidState ''deterministic time is required''
      else if seconds = 0 then Inr 0
      else let delta = uint seconds * 1000 in
        if now > MaxInt64 - delta then ruleError CodeInvalidState ''deadline overflows unix milliseconds''
        else Inr (now + delta))"

definition deadlineMatches :: "State \<Rightarrow> u32 \<Rightarrow> bool" where
  "deadlineMatches state seconds \<longleftrightarrow>
     seconds = 0 \<and> st_ActionDeadlineUnixMillis state = 0 \<or>
     seconds \<noteq> 0 \<and> st_ActionDeadlineUnixMillis state > 0"

definition Direction_Valid :: "Direction \<Rightarrow> bool" where
  "Direction_Valid direction \<longleftrightarrow>
     direction = DirectionClockwise \<or> direction = DirectionCounterClockwise"

definition reverseDirection :: "Direction \<Rightarrow> Direction" where
  "reverseDirection value =
     (if value = DirectionClockwise then DirectionCounterClockwise else DirectionClockwise)"

definition validRollResult :: "ResultKind \<Rightarrow> bool" where
  "validRollResult result \<longleftrightarrow>
     result = ResultSeven \<or> result = ResultEight \<or> result = ResultNine \<or> result = ResultDoubleOne \<or>
     result = ResultDoubleFour \<or> result = ResultDoubleSix \<or> result = ResultOrdinaryPair \<or>
     result = ResultOther"

definition validSettledResult :: "ResultKind \<Rightarrow> bool" where
  "validSettledResult result \<longleftrightarrow>
     validRollResult result \<or> result = ResultDropped \<or> result = ResultRollTimeout \<or>
     result = ResultCancelled"

definition settlementDiceValid :: "TurnSettlement \<Rightarrow> bool" where
  "settlementDiceValid settlement =
     (if ts_Result settlement = ResultRollTimeout \<or>
         ts_Result settlement = ResultCancelled \<and> ts_DieOne settlement = 0 \<and> ts_DieTwo settlement = 0
      then ts_DieOne settlement = 0 \<and> ts_DieTwo settlement = 0 \<and> ts_Sum settlement = 0
      else ts_DieOne settlement \<ge> 1 \<and> ts_DieOne settlement \<le> 6 \<and>
        ts_DieTwo settlement \<ge> 1 \<and> ts_DieTwo settlement \<le> 6 \<and>
        ts_Sum settlement = ts_DieOne settlement + ts_DieTwo settlement)"

fun activeCount :: "PlayerState list \<Rightarrow> nat" where
  "activeCount [] = 0"
| "activeCount (player # rest) =
     (if pl_Active player then Suc (activeCount rest) else activeCount rest)"

text \<open>Go returns the index or \<open>-1\<close>; the model returns the index or \<open>None\<close>.\<close>

fun playerIndex :: "PlayerState list \<Rightarrow> string \<Rightarrow> nat option" where
  "playerIndex [] userID = None"
| "playerIndex (player # rest) userID =
     (if pl_UserID player = userID then Some 0 else map_option Suc (playerIndex rest userID))"

text \<open>The expression \<open>players[playerIndex(players, userID)]\<close>, which panics for an unknown user.\<close>

definition player_at :: "PlayerState list \<Rightarrow> string \<Rightarrow> PlayerState result" where
  "player_at players userID =
     (case playerIndex players userID of None \<Rightarrow> Inl Panic | Some index \<Rightarrow> Inr (players ! index))"

definition activePlayer :: "State \<Rightarrow> string \<Rightarrow> bool" where
  "activePlayer state userID \<longleftrightarrow>
     (case playerIndex (st_Players state) userID of
        None \<Rightarrow> False | Some index \<Rightarrow> pl_Active (st_Players state ! index))"

text \<open>The index at an offset from the start, in either direction; Go's remainder may be negative.\<close>

definition ring_index :: "Direction \<Rightarrow> nat \<Rightarrow> nat \<Rightarrow> nat \<Rightarrow> nat" where
  "ring_index direction n start offset =
     (let step = (if direction = DirectionCounterClockwise then -1 else 1) :: int;
          index = go_rem (int start + step * int offset) (int n) in
      nat (if index < 0 then index + int n else index))"

definition ring_candidates :: "Direction \<Rightarrow> PlayerState list \<Rightarrow> nat \<Rightarrow> PlayerState list" where
  "ring_candidates direction players start =
     map (\<lambda>offset. players ! ring_index direction (length players) start offset) [1..<length players + 1]"

definition nextActiveUser :: "State \<Rightarrow> string \<Rightarrow> string result" where
  "nextActiveUser state afterUserID =
     (case playerIndex (st_Players state) afterUserID of
        None \<Rightarrow> ruleError CodeInvalidState ''turn traversal origin is not frozen''
      | Some start \<Rightarrow>
          if \<not> Direction_Valid (st_Direction state)
          then ruleError CodeInvalidState ''turn traversal origin is not frozen''
          else case find pl_Active (ring_candidates (st_Direction state) (st_Players state) start) of
            Some candidate \<Rightarrow> Inr (pl_UserID candidate)
          | None \<Rightarrow> ruleError CodeInvalidState ''no active next player exists'')"

definition startTurn :: "State \<Rightarrow> string \<Rightarrow> i64 \<Rightarrow> (State \<times> Event) result" where
  "startTurn state actor nowUnixMillis =
     (if \<not> activePlayer state actor \<or> \<not> validUnixMillis nowUnixMillis
      then ruleError CodeInvalidState ''next actor or deterministic time is invalid''
      else
        and_then (deadlineUnixMillis nowUnixMillis (cf_ActionTimeoutSeconds (st_Config state))) (\<lambda>deadline.
          Inr (state\<lparr>st_Phase := PhaseAwaitingRoll, st_CurrentUserID := actor, st_SourceUserID := [],
                 st_TargetUserID := [], st_DieOne := 0, st_DieTwo := 0, st_Sum := 0,
                 st_PendingResult := ResultNone, st_PendingPoolBeforeTicks := 0,
                 st_PendingDirectionBefore := DirectionUnset, st_ActionDeadlineUnixMillis := deadline\<rparr>,
               empty_event\<lparr>ev_Kind := EventTurnStarted, ev_Turn := st_Turn state, ev_UserID := actor,
                 ev_NextUserID := actor, ev_Direction := st_Direction state\<rparr>)))"

section \<open>Classification of a roll\<close>

definition selectResult :: "Config \<Rightarrow> u32 \<Rightarrow> u32 \<Rightarrow> u32 \<Rightarrow> ResultKind" where
  "selectResult config dieOne dieTwo dieSum =
     (let plain = (let s = (if cf_LastDigitMatch config then dieSum mod 10 else dieSum) in
        if s = 7 then ResultSeven else if s = 8 then ResultEight else if s = 9 then ResultNine
        else ResultOther) in
      if dieOne = dieTwo then
        (if dieOne = 1 \<and> cf_DoubleOneEnabled config then ResultDoubleOne
         else if dieOne = 4 \<and> cf_DoubleFourEnabled config then ResultDoubleFour
         else if dieOne = 6 \<and> cf_DoubleSixEnabled config then ResultDoubleSix
         else if cf_OrdinaryPairsReverse config then ResultOrdinaryPair
         else plain)
      else plain)"

definition ClassifyRoll :: "Config \<Rightarrow> u32 \<Rightarrow> u32 \<Rightarrow> ResultKind result" where
  "ClassifyRoll config dieOne dieTwo =
     (if dieOne < 1 \<or> dieOne > 6 \<or> dieTwo < 1 \<or> dieTwo > 6
      then ruleError CodeInvalidAction ''dice faces must be in 1..6''
      else Inr (selectResult config dieOne dieTwo (dieOne + dieTwo)))"

section \<open>Validation of a snapshot\<close>

definition validFinishReason :: "string \<Rightarrow> bool" where
  "validFinishReason value \<longleftrightarrow>
     value = FinishHostRequested \<or> value = FinishInsufficientParticipants \<or> value = FinishPlatformCancelled"

definition diceValid :: "State \<Rightarrow> bool" where
  "diceValid state \<longleftrightarrow>
     st_DieOne state \<ge> 1 \<and> st_DieOne state \<le> 6 \<and> st_DieTwo state \<ge> 1 \<and> st_DieTwo state \<le> 6 \<and>
     st_Sum state = st_DieOne state + st_DieTwo state"

definition validatePhase :: "State \<Rightarrow> unit result" where
  "validatePhase state =
     (case st_Phase state of
        PhaseAwaitingRoll \<Rightarrow>
          if st_SourceUserID state \<noteq> [] \<or> st_TargetUserID state \<noteq> [] \<or> st_DieOne state \<noteq> 0 \<or>
             st_DieTwo state \<noteq> 0 \<or> st_Sum state \<noteq> 0 \<or> st_PendingResult state \<noteq> ResultNone \<or>
             st_PendingPoolBeforeTicks state \<noteq> 0 \<or> st_PendingDirectionBefore state \<noteq> DirectionUnset \<or>
             \<not> deadlineMatches state (cf_ActionTimeoutSeconds (st_Config state))
          then ruleError CodeInvalidState ''awaiting-roll state is malformed'' else Inr ()
      | PhaseResultPending \<Rightarrow>
          if st_SourceUserID state \<noteq> st_CurrentUserID state \<or> \<not> activePlayer state (st_SourceUserID state) \<or>
             st_TargetUserID state \<noteq> [] \<or> \<not> diceValid state \<or> \<not> validRollResult (st_PendingResult state) \<or>
             st_PendingPoolBeforeTicks state \<noteq> st_TotalPoolTicks state \<or>
             \<not> Direction_Valid (st_PendingDirectionBefore state) \<or>
             \<not> deadlineMatches state (cf_DropReportWindowSeconds (st_Config state))
          then ruleError CodeInvalidState ''result-pending state is malformed'' else Inr ()
      | PhaseAwaitingAdd \<Rightarrow>
          let validSeven = st_PendingResult state = ResultSeven \<and> st_TargetUserID state = [] \<and>
                st_CurrentUserID state = st_SourceUserID state;
              validDoubleSix = st_PendingResult state = ResultDoubleSix \<and>
                st_TargetUserID state = st_CurrentUserID state \<and>
                st_TargetUserID state \<noteq> st_SourceUserID state in
          if \<not> diceValid state \<or> \<not> activePlayer state (st_SourceUserID state) \<or>
             \<not> activePlayer state (st_CurrentUserID state) \<or>
             \<not> Direction_Valid (st_PendingDirectionBefore state) \<or>
             (\<not> validSeven \<and> \<not> validDoubleSix) \<or>
             \<not> deadlineMatches state (cf_ActionTimeoutSeconds (st_Config state))
          then ruleError CodeInvalidState ''awaiting-add state is malformed'' else Inr ()
      | PhaseAwaitingTarget \<Rightarrow>
          if \<not> diceValid state \<or> st_CurrentUserID state \<noteq> st_SourceUserID state \<or>
             \<not> activePlayer state (st_SourceUserID state) \<or> st_TargetUserID state \<noteq> [] \<or>
             \<not> Direction_Valid (st_PendingDirectionBefore state) \<or>
             (st_PendingResult state \<noteq> ResultDoubleOne \<and> st_PendingResult state \<noteq> ResultDoubleSix) \<or>
             \<not> deadlineMatches state (cf_ActionTimeoutSeconds (st_Config state))
          then ruleError CodeInvalidState ''awaiting-target state is malformed'' else Inr ()
      | PhaseAwaitingContinue \<Rightarrow>
          if \<not> diceValid state \<or> st_CurrentUserID state \<noteq> st_SourceUserID state \<or>
             \<not> activePlayer state (st_SourceUserID state) \<or> st_TargetUserID state \<noteq> [] \<or>
             \<not> Direction_Valid (st_PendingDirectionBefore state) \<or>
             (st_PendingResult state \<noteq> ResultSeven \<and> st_PendingResult state \<noteq> ResultEight \<and>
              st_PendingResult state \<noteq> ResultNine) \<or>
             st_PendingPoolBeforeTicks state > mustCapacity (st_Config state) \<or>
             ts_Turn (st_LastSettlement state) \<noteq> st_Turn state \<or>
             \<not> deadlineMatches state (cf_ActionTimeoutSeconds (st_Config state))
          then ruleError CodeInvalidState ''awaiting-continue state is malformed'' else Inr ()
      | _ \<Rightarrow> ruleError CodeInvalidState ''phase cannot be persisted'')"

definition validateSettlement :: "State \<Rightarrow> unit result" where
  "validateSettlement state =
     (let settlement = st_LastSettlement state in
      if ts_Turn settlement = 0 then
        (if ts_SourceUserID settlement \<noteq> [] \<or> ts_DieOne settlement \<noteq> 0 \<or> ts_DieTwo settlement \<noteq> 0 \<or>
            ts_Sum settlement \<noteq> 0 \<or> ts_Result settlement \<noteq> ResultNone \<or> ts_TargetUserID settlement \<noteq> [] \<or>
            ts_PoolBeforeTicks settlement \<noteq> 0 \<or> ts_PoolAfterTicks settlement \<noteq> 0 \<or>
            length (ts_PoolBefore settlement) \<noteq> 0 \<or> length (ts_PoolAfter settlement) \<noteq> 0 \<or>
            ts_EffectTicks settlement \<noteq> 0 \<or> ts_PenaltyUserID settlement \<noteq> [] \<or>
            ts_PenaltyTicks settlement \<noteq> 0 \<or> ts_DirectionBefore settlement \<noteq> DirectionUnset \<or>
            ts_DirectionAfter settlement \<noteq> DirectionUnset \<or> ts_NextUserID settlement \<noteq> [] \<or>
            ts_Reason settlement \<noteq> [] \<or> ts_AuditRef settlement \<noteq> [] \<or> ts_DropReason settlement \<noteq> []
         then ruleError CodeInvalidState ''empty settlement retains data''
         else Inr ())
      else
        let partialAppliedEffect = ts_Turn settlement = st_Turn state \<and> ts_NextUserID settlement = [] \<and>
              (ts_Result settlement = ResultSeven \<or> ts_Result settlement = ResultEight \<or>
               ts_Result settlement = ResultNine) \<and>
              (st_Phase state = PhaseAwaitingContinue \<or> st_Phase state = PhaseFinished);
            capacity = mustCapacity (st_Config state);
            drinking = ts_Result settlement = ResultEight \<or> ts_Result settlement = ResultNine \<or>
              ts_Result settlement = ResultDoubleOne \<or> ts_Result settlement = ResultDoubleFour \<or>
              ts_Result settlement = ResultDropped;
            adding = ts_Result settlement = ResultSeven \<or> ts_Result settlement = ResultDoubleSix in
        if ts_Turn settlement > st_Turn state \<or>
           ts_Turn settlement = st_Turn state \<and> \<not> partialAppliedEffect \<or>
           playerIndex (st_Players state) (ts_SourceUserID settlement) = None \<or>
           ts_NextUserID settlement = [] \<and> \<not> partialAppliedEffect \<or>
           ts_NextUserID settlement \<noteq> [] \<and> playerIndex (st_Players state) (ts_NextUserID settlement) = None \<or>
           \<not> validSettledResult (ts_Result settlement) \<or> \<not> settlementDiceValid settlement \<or>
           \<not> Direction_Valid (ts_DirectionBefore settlement) \<or>
           \<not> Direction_Valid (ts_DirectionAfter settlement) \<or> ts_Reason settlement = []
        then ruleError CodeInvalidState ''last settlement header is malformed''
        else if ts_PoolBeforeTicks settlement > capacity \<or> ts_PoolAfterTicks settlement > capacity
        then ruleError CodeInvalidState ''last settlement pool is outside capacity''
        else if poolLayersTotal (ts_PoolBefore settlement) \<noteq> ts_PoolBeforeTicks settlement \<or>
          poolLayersTotal (ts_PoolAfter settlement) \<noteq> ts_PoolAfterTicks settlement
        then ruleError CodeInvalidState ''last settlement layer snapshots disagree with totals''
        else and_then
          (if drinking then
             (if ts_PenaltyUserID settlement = [] \<or> ts_PenaltyTicks settlement \<noteq> ts_EffectTicks settlement \<or>
                 ts_PoolBeforeTicks settlement < ts_PoolAfterTicks settlement \<or>
                 ts_PoolBeforeTicks settlement - ts_PoolAfterTicks settlement \<noteq> ts_EffectTicks settlement
              then ruleError CodeInvalidState ''drinking settlement violates tick conservation'' else Inr ())
           else if adding then
             (if ts_PenaltyUserID settlement \<noteq> [] \<or> ts_PenaltyTicks settlement \<noteq> 0 \<or>
                 ts_PoolAfterTicks settlement < ts_PoolBeforeTicks settlement \<or>
                 ts_PoolAfterTicks settlement - ts_PoolBeforeTicks settlement \<noteq> ts_EffectTicks settlement
              then ruleError CodeInvalidState ''add settlement violates tick conservation'' else Inr ())
           else if ts_EffectTicks settlement \<noteq> 0 \<or> ts_PenaltyTicks settlement \<noteq> 0 \<or>
             ts_PenaltyUserID settlement \<noteq> [] \<or>
             ts_PoolBeforeTicks settlement \<noteq> ts_PoolAfterTicks settlement
           then ruleError CodeInvalidState ''no-effect settlement changed ticks'' else Inr ())
          (\<lambda>_.
            if ts_TargetUserID settlement \<noteq> [] \<and>
              playerIndex (st_Players state) (ts_TargetUserID settlement) = None
            then ruleError CodeInvalidState ''last settlement target is not frozen''
            else if ts_Result settlement = ResultDropped then
              (if ts_AuditRef settlement = [] \<or> ts_DropReason settlement = []
               then ruleError CodeInvalidState ''dropped settlement lacks audit detail'' else Inr ())
            else if ts_AuditRef settlement \<noteq> [] \<or> ts_DropReason settlement \<noteq> []
            then ruleError CodeInvalidState ''non-dropped settlement retains drop audit detail''
            else Inr ()))"

text \<open>The loop of \<open>validatePool\<close>: the layers that are left and the sum so far.\<close>

fun validate_layers :: "Config \<Rightarrow> nat \<Rightarrow> Ticks \<Rightarrow> PoolLayer list \<Rightarrow> Ticks result" where
  "validate_layers config n acc [] = Inr acc"
| "validate_layers config n acc (layer # rest) =
     (if ly_Ticks layer > cf_LayerCapacityTicks config \<or>
         (rest \<noteq> [] \<and> ly_Ticks layer \<noteq> cf_LayerCapacityTicks config) \<or>
         (n > 1 \<and> rest = [] \<and> ly_Ticks layer = 0)
      then ruleError CodeInvalidState ''pool layer layout is non-canonical''
      else case Ticks_Add acc (ly_Ticks layer) of
        Inl _ \<Rightarrow> ruleError CodeInvalidState ''pool layer sum overflows''
      | Inr acc' \<Rightarrow> validate_layers config n acc' rest)"

definition validatePool :: "State \<Rightarrow> unit result" where
  "validatePool state =
     (if (case totalCapacity (st_Config state) of
            Inl _ \<Rightarrow> True
          | Inr capacity \<Rightarrow> length (st_Pool state) = 0 \<or>
              length (st_Pool state) > unat (cf_MaxLayers (st_Config state)) \<or>
              st_TotalPoolTicks state > capacity)
      then ruleError CodeInvalidState ''pool header is invalid''
      else if \<not> cf_StackedPool (st_Config state) \<and> length (st_Pool state) \<noteq> 1
      then ruleError CodeInvalidState ''single-layer pool has extra layers''
      else and_then (validate_layers (st_Config state) (length (st_Pool state)) 0 (st_Pool state)) (\<lambda>layerSum.
        if layerSum \<noteq> st_TotalPoolTicks state
        then ruleError CodeInvalidState ''pool layer sum differs from total'' else Inr ()))"

text \<open>The ascending-seat check of the loop over the players.\<close>

fun seats_ascending :: "PlayerState list \<Rightarrow> bool" where
  "seats_ascending (a # b # rest) = (\<not> pl_SeatIndex a \<ge> pl_SeatIndex b \<and> seats_ascending (b # rest))"
| "seats_ascending _ = True"

definition player_participant :: "PlayerState \<Rightarrow> Participant" where
  "player_participant player = \<lparr>pt_UserID = pl_UserID player, pt_SeatIndex = pl_SeatIndex player\<rparr>"

definition Validate :: "State \<Rightarrow> unit result" where
  "Validate state =
     (if st_SchemaVersion state \<noteq> CurrentSchemaVersion \<or> st_Turn state = 0 \<or>
         st_Phase state = PhaseUnset \<or> st_Phase state = PhaseTurnSettled \<or>
         length (st_Players state) < MinimumPlayers \<or> length (st_Players state) > MaximumPlayers \<or>
         \<not> Direction_Valid (st_Direction state)
      then ruleError CodeInvalidState ''state header is invalid''
      else if \<not> seats_ascending (st_Players state)
      then ruleError CodeInvalidState ''players are not in stable seat order''
      else if \<not> list_ex (\<lambda>player. pl_UserID player = st_HostUserID state) (st_Players state) \<or>
        ValidateParticipants (map player_participant (st_Players state)) \<noteq> Inr () \<or>
        Config_Validate (st_Config state) (length (st_Players state)) \<noteq> Inr ()
      then ruleError CodeInvalidState ''frozen participants, host, or configuration is invalid''
      else and_then (validatePool state) (\<lambda>_.
        and_then (validateSettlement state) (\<lambda>_.
        if st_Phase state = PhaseFinished then
          (if \<not> validFinishReason (st_FinishReason state) \<or> st_CurrentUserID state \<noteq> [] \<or>
              st_SourceUserID state \<noteq> [] \<or> st_TargetUserID state \<noteq> [] \<or>
              st_ActionDeadlineUnixMillis state \<noteq> 0 \<or> st_DieOne state \<noteq> 0 \<or> st_DieTwo state \<noteq> 0 \<or>
              st_Sum state \<noteq> 0 \<or> st_PendingResult state \<noteq> ResultNone \<or>
              st_PendingPoolBeforeTicks state \<noteq> 0 \<or> st_PendingDirectionBefore state \<noteq> DirectionUnset
           then ruleError CodeInvalidState ''finished state retains live turn data''
           else Inr ())
        else if st_FinishReason state \<noteq> [] \<or> activeCount (st_Players state) < MinimumPlayers \<or>
          \<not> activePlayer state (st_CurrentUserID state)
        then ruleError CodeInvalidState ''active turn ownership is invalid''
        else validatePhase state)))"

section \<open>Settlements\<close>

text \<open>A settlement snapshot: the error of \<open>poolFromTotal\<close> is discarded, as in the source.\<close>

definition settlementFromState :: "State \<Rightarrow> ResultKind \<Rightarrow> string \<Rightarrow> string \<Rightarrow> TurnSettlement" where
  "settlementFromState state override target reason =
     (let result = (if override \<noteq> ResultNone then override else st_PendingResult state);
          source = (if st_SourceUserID state = [] then st_CurrentUserID state else st_SourceUserID state);
          beforePool = (case poolFromTotal (st_Config state) (st_PendingPoolBeforeTicks state) of
            Inl _ \<Rightarrow> [] | Inr pool \<Rightarrow> pool);
          settlement = empty_settlement\<lparr>ts_Turn := st_Turn state, ts_SourceUserID := source,
            ts_DieOne := st_DieOne state, ts_DieTwo := st_DieTwo state, ts_Sum := st_Sum state,
            ts_Result := result, ts_TargetUserID := target,
            ts_PoolBeforeTicks := st_PendingPoolBeforeTicks state, ts_PoolAfterTicks := st_TotalPoolTicks state,
            ts_PoolBefore := beforePool, ts_PoolAfter := st_Pool state,
            ts_DirectionBefore := (if st_PendingDirectionBefore state = DirectionUnset
              then st_Direction state else st_PendingDirectionBefore state),
            ts_DirectionAfter := st_Direction state, ts_Reason := reason\<rparr>;
          added = ts_PoolAfterTicks settlement - ts_PoolBeforeTicks settlement;
          drunk = ts_PoolBeforeTicks settlement - ts_PoolAfterTicks settlement in
      if result = ResultSeven \<or> result = ResultDoubleSix then settlement\<lparr>ts_EffectTicks := added\<rparr>
      else if result = ResultEight \<or> result = ResultNine \<or> result = ResultDoubleFour then
        settlement\<lparr>ts_EffectTicks := drunk, ts_PenaltyUserID := source, ts_PenaltyTicks := drunk\<rparr>
      else if result = ResultDoubleOne then
        settlement\<lparr>ts_EffectTicks := drunk, ts_PenaltyUserID := target, ts_PenaltyTicks := drunk\<rparr>
      else if result = ResultDropped then
        settlement\<lparr>ts_EffectTicks := drunk, ts_PenaltyUserID := source, ts_PenaltyTicks := drunk\<rparr>
      else settlement)"

definition finishTurn :: "State \<Rightarrow> string \<Rightarrow> string \<Rightarrow> i64 \<Rightarrow> (State \<times> Event list) result" where
  "finishTurn state sourceUserID nextActor now =
     and_then (if nextActor = [] then nextActiveUser state sourceUserID else Inr nextActor) (\<lambda>nextActor.
       if st_Turn state = MaxUint32 then ruleError CodeRoundOverflow ''turn counter cannot advance''
       else
         let settlement = (st_LastSettlement state)\<lparr>ts_NextUserID := nextActor,
               ts_DirectionAfter := st_Direction state\<rparr>;
             next = state\<lparr>st_LastSettlement := settlement, st_Turn := st_Turn state + 1\<rparr> in
         and_then (startTurn next nextActor now) (\<lambda>(next, started).
           Inr (next,
             [empty_event\<lparr>ev_Kind := EventTurnSettled, ev_Turn := ts_Turn settlement,
                ev_UserID := ts_SourceUserID settlement, ev_SourceUserID := ts_SourceUserID settlement,
                ev_TargetUserID := ts_TargetUserID settlement, ev_DieOne := ts_DieOne settlement,
                ev_DieTwo := ts_DieTwo settlement, ev_Sum := ts_Sum settlement,
                ev_Result := ts_Result settlement, ev_DirectionBefore := ts_DirectionBefore settlement,
                ev_Direction := ts_DirectionAfter settlement,
                ev_PoolBeforeTicks := ts_PoolBeforeTicks settlement,
                ev_PoolAfterTicks := ts_PoolAfterTicks settlement, ev_PoolBefore := ts_PoolBefore settlement,
                ev_PoolAfter := ts_PoolAfter settlement, ev_EffectTicks := ts_EffectTicks settlement,
                ev_PenaltyTicks := ts_PenaltyTicks settlement, ev_NextUserID := nextActor,
                ev_Reason := ts_Reason settlement, ev_AuditRef := ts_AuditRef settlement\<rparr>,
              started])))"

definition addPenalty :: "State \<Rightarrow> string \<Rightarrow> Ticks \<Rightarrow> State result" where
  "addPenalty state userID amount =
     (case playerIndex (st_Players state) userID of
        None \<Rightarrow> ruleError CodeParticipantInactive ''penalty target is inactive''
      | Some index \<Rightarrow>
          if \<not> pl_Active (st_Players state ! index)
          then ruleError CodeParticipantInactive ''penalty target is inactive''
          else case Ticks_Add (pl_PenaltyTicks (st_Players state ! index)) amount of
            Inl _ \<Rightarrow> ruleError CodePenaltyOverflow ''player penalty exceeds uint32''
          | Inr value \<Rightarrow> Inr (state\<lparr>st_Players :=
              (st_Players state)[index := (st_Players state ! index)\<lparr>pl_PenaltyTicks := value\<rparr>]\<rparr>))"

definition finishState :: "State \<Rightarrow> string \<Rightarrow> State \<times> Event" where
  "finishState state reason =
     (state\<lparr>st_Phase := PhaseFinished, st_FinishReason := reason, st_CurrentUserID := [],
        st_SourceUserID := [], st_TargetUserID := [], st_DieOne := 0, st_DieTwo := 0, st_Sum := 0,
        st_ActionDeadlineUnixMillis := 0, st_PendingResult := ResultNone, st_PendingPoolBeforeTicks := 0,
        st_PendingDirectionBefore := DirectionUnset\<rparr>,
      empty_event\<lparr>ev_Kind := EventSessionFinished, ev_Turn := st_Turn state, ev_Reason := reason\<rparr>)"

definition poolChangedEvent ::
  "State \<Rightarrow> string \<Rightarrow> PoolLayer list \<Rightarrow> PoolLayer list \<Rightarrow> Ticks \<Rightarrow> Ticks \<Rightarrow> Ticks \<Rightarrow> Event" where
  "poolChangedEvent state actor beforeLayers afterLayers before after effect =
     empty_event\<lparr>ev_Kind := EventPoolChanged, ev_Turn := st_Turn state, ev_UserID := actor,
       ev_SourceUserID := st_SourceUserID state, ev_TargetUserID := st_TargetUserID state,
       ev_Result := st_PendingResult state, ev_PoolBeforeTicks := before, ev_PoolAfterTicks := after,
       ev_PoolBefore := beforeLayers, ev_PoolAfter := afterLayers, ev_EffectTicks := effect\<rparr>"

section \<open>Guards\<close>

definition validateActor :: "State \<Rightarrow> string \<Rightarrow> Phase \<Rightarrow> i64 \<Rightarrow> bool \<Rightarrow> unit result" where
  "validateActor state actor phase now timer =
     and_then (Validate state) (\<lambda>_.
       if st_Phase state = PhaseFinished then ruleError CodeSessionFinished ''session is finished''
       else if st_Phase state \<noteq> phase then ruleError CodeWrongPhase ''action is not valid in this phase''
       else if actor \<noteq> st_CurrentUserID state \<or> \<not> activePlayer state actor
       then ruleError CodeNotCurrentActor ''actor does not own current action''
       else if \<not> validUnixMillis now
       then ruleError CodeInvalidAction ''deterministic action time is invalid''
       else if \<not> timer \<and> st_ActionDeadlineUnixMillis state \<noteq> 0 \<and> now \<ge> st_ActionDeadlineUnixMillis state
       then ruleError CodeActionExpired ''action deadline has passed''
       else Inr ())"

definition validateHost :: "State \<Rightarrow> string \<Rightarrow> i64 \<Rightarrow> unit result" where
  "validateHost state actor now =
     and_then (Validate state) (\<lambda>_.
       if st_Phase state \<noteq> PhaseResultPending
       then ruleError CodeDropReportClosed ''host confirmation window is closed''
       else if actor \<noteq> st_HostUserID state \<or> \<not> activePlayer state actor
       then ruleError CodeNotHost ''only the active frozen host may confirm or report''
       else if \<not> validUnixMillis now \<or> now \<ge> st_ActionDeadlineUnixMillis state
       then ruleError CodeActionExpired ''host confirmation window has expired''
       else Inr ())"

section \<open>Actions\<close>

definition NewState ::
  "digest \<Rightarrow> Config \<Rightarrow> Participant list \<Rightarrow> string \<Rightarrow> u32 \<Rightarrow> i64 \<Rightarrow> u8 list \<Rightarrow> (State \<times> Event list) result" where
  "NewState sha256 config participants hostUserID startingSeat nowUnixMillis seed =
     and_then (canonicalParticipants participants) (\<lambda>canonical.
     and_then (Config_Validate config (length canonical)) (\<lambda>_.
       if \<not> validUnixMillis nowUnixMillis then ruleError CodeInvalidState ''deterministic time is required''
       else
         let players = map (\<lambda>p. \<lparr>pl_UserID = pt_UserID p, pl_SeatIndex = pt_SeatIndex p,
               pl_Active = True, pl_PenaltyTicks = 0\<rparr>) canonical;
             hostFound = list_ex (\<lambda>p. pt_UserID p = hostUserID) canonical;
             first = fold (\<lambda>p first. if pt_SeatIndex p = startingSeat then pt_UserID p else first) canonical [] in
         if \<not> hostFound \<or> first = []
         then ruleError CodeInvalidParticipants ''host and starting seat must be frozen participants''
         else
           and_then (poolFromTotal config (cf_InitialPoolTicks config)) (\<lambda>pool.
           and_then (startTurn \<lparr>st_SchemaVersion = CurrentSchemaVersion, st_Phase = PhaseAwaitingRoll,
               st_Turn = 1, st_HostUserID = hostUserID, st_Players = players, st_CurrentUserID = [],
               st_SourceUserID = [], st_TargetUserID = [], st_Direction = DirectionClockwise, st_Pool = pool,
               st_TotalPoolTicks = cf_InitialPoolTicks config, st_DieOne = 0, st_DieTwo = 0, st_Sum = 0,
               st_ActionDeadlineUnixMillis = 0, st_Config = config, st_PendingResult = ResultUnset,
               st_PendingPoolBeforeTicks = 0, st_PendingDirectionBefore = DirectionUnset,
               st_LastSettlement = empty_settlement\<lparr>ts_Result := ResultNone\<rparr>, st_FinishReason = []\<rparr>
               first nowUnixMillis) (\<lambda>(state, event).
             case Dice.Roll sha256 seed (ucast (st_Turn state)) 2 of
               Inl _ \<Rightarrow> ruleError CodeSeedInvalid ''deterministic seed is invalid''
             | Inr _ \<Rightarrow> Inr (state, [event\<lparr>ev_InitialConfig := Some config,
                 ev_InitialParticipants := canonical, ev_InitialPool := st_Pool state,
                 ev_InitialTotalPoolTicks := st_TotalPoolTicks state\<rparr>])))))"

definition CurrentTimer :: "State \<Rightarrow> ActionTimer option" where
  "CurrentTimer state =
     (if st_Phase state = PhaseFinished \<or> st_Phase state = PhaseTurnSettled \<or>
         st_ActionDeadlineUnixMillis state = 0
      then None
      else Some \<lparr>tm_Turn = st_Turn state, tm_Phase = st_Phase state, tm_CurrentUserID = st_CurrentUserID state,
        tm_SourceUserID = st_SourceUserID state, tm_TargetUserID = st_TargetUserID state,
        tm_PendingResult = st_PendingResult state, tm_DeadlineUnixMillis = st_ActionDeadlineUnixMillis state\<rparr>)"

definition applyRoll :: "State \<Rightarrow> string \<Rightarrow> u32 \<Rightarrow> u32 \<Rightarrow> i64 \<Rightarrow> (State \<times> Event list) result" where
  "applyRoll state actor dieOne dieTwo nowUnixMillis =
     and_then (validateActor state actor PhaseAwaitingRoll nowUnixMillis False) (\<lambda>_.
       if dieOne < 1 \<or> dieOne > 6 \<or> dieTwo < 1 \<or> dieTwo > 6
       then ruleError CodeInvalidAction ''dice faces must be in 1..6''
       else
         and_then (ClassifyRoll (st_Config state) dieOne dieTwo) (\<lambda>result.
         and_then (deadlineUnixMillis nowUnixMillis (cf_DropReportWindowSeconds (st_Config state))) (\<lambda>deadline.
           Inr (state\<lparr>st_Phase := PhaseResultPending, st_SourceUserID := actor, st_CurrentUserID := actor,
                  st_TargetUserID := [], st_DieOne := dieOne, st_DieTwo := dieTwo, st_Sum := dieOne + dieTwo,
                  st_PendingResult := result, st_PendingPoolBeforeTicks := st_TotalPoolTicks state,
                  st_PendingDirectionBefore := st_Direction state, st_ActionDeadlineUnixMillis := deadline\<rparr>,
                [empty_event\<lparr>ev_Kind := EventDiceRolled, ev_Turn := st_Turn state, ev_UserID := actor,
                   ev_SourceUserID := actor, ev_DieOne := dieOne, ev_DieTwo := dieTwo,
                   ev_Sum := dieOne + dieTwo, ev_Result := result\<rparr>]))))"

definition Roll :: "digest \<Rightarrow> State \<Rightarrow> string \<Rightarrow> i64 \<Rightarrow> u8 list \<Rightarrow> (State \<times> Event list) result" where
  "Roll sha256 state actor nowUnixMillis seed =
     and_then (validateActor state actor PhaseAwaitingRoll nowUnixMillis False) (\<lambda>_.
       case Dice.Roll sha256 seed (ucast (st_Turn state)) 2 of
         Inl _ \<Rightarrow> ruleError CodeSeedInvalid ''deterministic seed is invalid''
       | Inr faces \<Rightarrow> applyRoll state actor (ucast (faces ! 0)) (ucast (faces ! 1)) nowUnixMillis)"

text \<open>The assignment \<open>events[0].PhaseAfter = phase\<close> on the event list under construction.\<close>

definition events_phase_after :: "Event list \<Rightarrow> Phase \<Rightarrow> Event list" where
  "events_phase_after events phase = events[0 := (events ! 0)\<lparr>ev_PhaseAfter := phase\<rparr>]"

text \<open>A deadline whose error the source discards.\<close>

definition deadline_or_zero :: "i64 \<Rightarrow> u32 \<Rightarrow> i64" where
  "deadline_or_zero now seconds = (case deadlineUnixMillis now seconds of Inl _ \<Rightarrow> 0 | Inr deadline \<Rightarrow> deadline)"

definition applyDrink ::
  "State \<Rightarrow> string \<Rightarrow> Ticks \<Rightarrow> string \<Rightarrow> Event list \<Rightarrow> (State \<times> Event list) result" where
  "applyDrink state target requested reason events =
     and_then (player_at (st_Players state) target) (\<lambda>playerBefore.
       let before = st_TotalPoolTicks state;
           amount = (if requested > before then before else requested) in
       and_then (addPenalty state target amount) (\<lambda>next.
       and_then (setPoolTotal next (before - amount)) (\<lambda>next.
       and_then (player_at (st_Players next) target) (\<lambda>playerAfter.
         Inr (next, events @
           [poolChangedEvent state target (st_Pool state) (st_Pool next) before (st_TotalPoolTicks next) amount,
            empty_event\<lparr>ev_Kind := EventPenaltyRecorded, ev_Turn := st_Turn state, ev_UserID := target,
              ev_SourceUserID := st_SourceUserID state, ev_TargetUserID := target,
              ev_Result := st_PendingResult state, ev_PenaltyTicks := amount,
              ev_PenaltyBeforeTicks := pl_PenaltyTicks playerBefore,
              ev_PenaltyAfterTicks := pl_PenaltyTicks playerAfter, ev_Reason := reason\<rparr>])))))"

definition applyDrinkAndContinue ::
  "State \<Rightarrow> string \<Rightarrow> Ticks \<Rightarrow> string \<Rightarrow> Event list \<Rightarrow> i64 \<Rightarrow> (State \<times> Event list) result" where
  "applyDrinkAndContinue state target amount reason events now =
     and_then (applyDrink state target amount reason events) (\<lambda>(next, events).
       let next = next\<lparr>st_LastSettlement := settlementFromState next ResultNone [] reason,
             st_Phase := PhaseAwaitingContinue, st_CurrentUserID := st_SourceUserID next,
             st_TargetUserID := []\<rparr> in
       and_then (deadlineUnixMillis now (cf_ActionTimeoutSeconds (st_Config next))) (\<lambda>deadline.
         Inr (next\<lparr>st_ActionDeadlineUnixMillis := deadline\<rparr>,
           events_phase_after events PhaseAwaitingContinue)))"

text \<open>The three results that settle the turn at once share this end.\<close>

definition settle_landed ::
  "State \<Rightarrow> string \<Rightarrow> string \<Rightarrow> Event list \<Rightarrow> i64 \<Rightarrow> (State \<times> Event list) result" where
  "settle_landed next source nextActor events now =
     and_then (finishTurn next source nextActor now) (\<lambda>(settled, settledEvents).
       Inr (settled, events_phase_after events (st_Phase settled) @ settledEvents))"

definition applyLanded :: "State \<Rightarrow> i64 \<Rightarrow> string \<Rightarrow> (State \<times> Event list) result" where
  "applyLanded state nowUnixMillis cause =
     (if st_Phase state \<noteq> PhaseResultPending \<or> \<not> validRollResult (st_PendingResult state)
      then ruleError CodeWrongPhase ''landed confirmation requires result_pending''
      else
        let source = st_SourceUserID state;
            events = [empty_event\<lparr>ev_Kind := EventEffectSelected, ev_Turn := st_Turn state, ev_UserID := source,
              ev_SourceUserID := source, ev_Result := st_PendingResult state, ev_Reason := cause\<rparr>];
            deadline = deadline_or_zero nowUnixMillis (cf_ActionTimeoutSeconds (st_Config state)) in
        case st_PendingResult state of
          ResultSeven \<Rightarrow>
            let next = state\<lparr>st_CurrentUserID := source\<rparr>;
                full = st_TotalPoolTicks next = mustCapacity (st_Config next);
                next' = (if full
                  then next\<lparr>st_LastSettlement := settlementFromState next ResultNone [] ''seven_add'',
                    st_Phase := PhaseAwaitingContinue\<rparr>
                  else next\<lparr>st_Phase := PhaseAwaitingAdd\<rparr>);
                events' = (if full
                  then events @ [poolChangedEvent state source (st_Pool state) (st_Pool state)
                    (st_TotalPoolTicks state) (st_TotalPoolTicks state) 0]
                  else events) in
            Inr (next'\<lparr>st_ActionDeadlineUnixMillis := deadline\<rparr>, events_phase_after events' (st_Phase next'))
        | ResultEight \<Rightarrow>
            applyDrinkAndContinue state source (HalfCeil (st_TotalPoolTicks state)) ''eight'' events nowUnixMillis
        | ResultNine \<Rightarrow>
            applyDrinkAndContinue state source (st_TotalPoolTicks state) ''nine'' events nowUnixMillis
        | ResultDoubleOne \<Rightarrow>
            Inr (state\<lparr>st_Phase := PhaseAwaitingTarget, st_CurrentUserID := source,
                   st_ActionDeadlineUnixMillis := deadline\<rparr>, events_phase_after events PhaseAwaitingTarget)
        | ResultDoubleSix \<Rightarrow>
            Inr (state\<lparr>st_Phase := PhaseAwaitingTarget, st_CurrentUserID := source,
                   st_ActionDeadlineUnixMillis := deadline\<rparr>, events_phase_after events PhaseAwaitingTarget)
        | ResultDoubleFour \<Rightarrow>
            and_then (applyDrink state source (HalfCeil (st_TotalPoolTicks state)) ''double_four'' events)
              (\<lambda>(next, events).
                settle_landed (next\<lparr>st_LastSettlement := settlementFromState next ResultNone [] ''double_four''\<rparr>)
                  source source events nowUnixMillis)
        | ResultOrdinaryPair \<Rightarrow>
            let reverse = activeCount (st_Players state) \<ge> 3;
                next = (if reverse then state\<lparr>st_Direction := reverseDirection (st_Direction state)\<rparr> else state);
                events' = (if reverse
                  then events @ [empty_event\<lparr>ev_Kind := EventDirectionChanged, ev_Turn := st_Turn state,
                    ev_UserID := source, ev_DirectionBefore := st_Direction state,
                    ev_Direction := st_Direction next, ev_Result := ResultOrdinaryPair\<rparr>]
                  else events);
                nextActor = (if activeCount (st_Players next) = 2 then source else []) in
            settle_landed (next\<lparr>st_LastSettlement := settlementFromState next ResultNone [] ''ordinary_pair''\<rparr>)
              source nextActor events' nowUnixMillis
        | _ \<Rightarrow>
            settle_landed (state\<lparr>st_LastSettlement := settlementFromState state ResultNone [] ''pass''\<rparr>)
              source [] events nowUnixMillis)"

definition ConfirmLanded :: "State \<Rightarrow> string \<Rightarrow> i64 \<Rightarrow> (State \<times> Event list) result" where
  "ConfirmLanded state actor nowUnixMillis =
     and_then (validateHost state actor nowUnixMillis) (\<lambda>_. applyLanded state nowUnixMillis ''confirmed'')"

definition ReportDropped ::
  "State \<Rightarrow> string \<Rightarrow> string \<Rightarrow> string \<Rightarrow> i64 \<Rightarrow> (State \<times> Event list) result" where
  "ReportDropped state actor auditRef reason nowUnixMillis =
     and_then (validateHost state actor nowUnixMillis) (\<lambda>_.
       if auditRef = [] \<or> reason = []
       then ruleError CodeInvalidAction ''drop report requires an audit reference and reason''
       else
         let source = st_SourceUserID state; before = st_TotalPoolTicks state in
         and_then (player_at (st_Players state) source) (\<lambda>playerBefore.
         and_then (addPenalty state source before) (\<lambda>next.
         and_then (setPoolTotal next 0) (\<lambda>next.
         and_then (finishTurn (next\<lparr>st_LastSettlement :=
               (settlementFromState next ResultDropped source ''dropped'')
                 \<lparr>ts_AuditRef := auditRef, ts_DropReason := reason\<rparr>\<rparr>) source [] nowUnixMillis)
           (\<lambda>(settled, settledEvents).
         and_then (player_at (st_Players settled) source) (\<lambda>playerAfter.
           Inr (settled,
             [empty_event\<lparr>ev_Kind := EventTurnDropped, ev_Turn := st_Turn state, ev_UserID := actor,
                ev_SourceUserID := source, ev_Reason := reason, ev_AuditRef := auditRef\<rparr>,
              poolChangedEvent state source (st_Pool state) (ts_PoolAfter (st_LastSettlement settled))
                before 0 before,
              empty_event\<lparr>ev_Kind := EventPenaltyRecorded, ev_Turn := st_Turn state, ev_UserID := source,
                ev_SourceUserID := source, ev_Result := ResultDropped, ev_PenaltyTicks := before,
                ev_PenaltyBeforeTicks := pl_PenaltyTicks playerBefore,
                ev_PenaltyAfterTicks := pl_PenaltyTicks playerAfter, ev_Reason := ''dropped''\<rparr>] @
             settledEvents)))))))"

definition addToPool :: "State \<Rightarrow> string \<Rightarrow> Ticks \<Rightarrow> i64 \<Rightarrow> bool \<Rightarrow> (State \<times> Event list) result" where
  "addToPool state actor amount nowUnixMillis timer =
     and_then (validateActor state actor PhaseAwaitingAdd nowUnixMillis timer) (\<lambda>_.
     and_then (validateAddAmount state amount) (\<lambda>_.
       let before = st_TotalPoolTicks state in
       and_then (setPoolTotal state (before + amount)) (\<lambda>next.
         let event = poolChangedEvent state actor (st_Pool state) (st_Pool next) before (st_TotalPoolTicks next) amount;
             events = [if timer then event\<lparr>ev_Reason := ''timeout_add''\<rparr> else event] in
         if st_PendingResult state = ResultDoubleSix then
           and_then (finishTurn (next\<lparr>st_LastSettlement := settlementFromState next ResultNone
               (st_TargetUserID state) (if timer then ''timeout_add'' else ''double_six_add'')\<rparr>)
               (st_SourceUserID state) [] nowUnixMillis)
             (\<lambda>(settled, settledEvents). Inr (settled, events @ settledEvents))
         else
           and_then (deadlineUnixMillis nowUnixMillis (cf_ActionTimeoutSeconds (st_Config next))) (\<lambda>deadline.
             Inr (next\<lparr>st_LastSettlement := settlementFromState next ResultNone [] ''seven_add'',
                    st_Phase := PhaseAwaitingContinue, st_CurrentUserID := st_SourceUserID next,
                    st_TargetUserID := [], st_ActionDeadlineUnixMillis := deadline\<rparr>, events)))))"

definition AddToPool :: "State \<Rightarrow> string \<Rightarrow> Ticks \<Rightarrow> i64 \<Rightarrow> (State \<times> Event list) result" where
  "AddToPool state actor amount nowUnixMillis = addToPool state actor amount nowUnixMillis False"

definition chooseTarget :: "State \<Rightarrow> string \<Rightarrow> string \<Rightarrow> i64 \<Rightarrow> bool \<Rightarrow> (State \<times> Event list) result" where
  "chooseTarget state actor target nowUnixMillis timer =
     and_then (validateActor state actor PhaseAwaitingTarget nowUnixMillis timer) (\<lambda>_.
       if target = [] \<or> target = actor \<or> \<not> activePlayer state target
       then ruleError CodeTargetInvalid ''target must be a different active participant''
       else
         let next = state\<lparr>st_TargetUserID := target\<rparr>;
             event = empty_event\<lparr>ev_Kind := EventTargetSelected, ev_Turn := st_Turn state, ev_UserID := actor,
               ev_SourceUserID := actor, ev_TargetUserID := target, ev_Result := st_PendingResult state\<rparr>;
             events = [if timer then event\<lparr>ev_Reason := ''timeout_target''\<rparr> else event] in
         if st_PendingResult state = ResultDoubleOne then
           let before = st_TotalPoolTicks next in
           and_then (player_at (st_Players next) target) (\<lambda>playerBefore.
           and_then (addPenalty next target before) (\<lambda>next.
           and_then (setPoolTotal next 0) (\<lambda>next.
           and_then (finishTurn (next\<lparr>st_LastSettlement := settlementFromState next ResultNone target
               (if timer then ''timeout_target'' else ''double_one'')\<rparr>) actor target nowUnixMillis)
             (\<lambda>(settled, settledEvents).
           and_then (player_at (st_Players settled) target) (\<lambda>playerAfter.
             Inr (settled, events @
               [(poolChangedEvent state target (st_Pool state) (ts_PoolAfter (st_LastSettlement settled))
                   before 0 before)\<lparr>ev_TargetUserID := target\<rparr>,
                empty_event\<lparr>ev_Kind := EventPenaltyRecorded, ev_Turn := st_Turn state, ev_UserID := target,
                  ev_SourceUserID := actor, ev_TargetUserID := target, ev_Result := ResultDoubleOne,
                  ev_PenaltyTicks := before, ev_PenaltyBeforeTicks := pl_PenaltyTicks playerBefore,
                  ev_PenaltyAfterTicks := pl_PenaltyTicks playerAfter, ev_Reason := ''double_one''\<rparr>] @
               settledEvents))))))
         else
           and_then (deadlineUnixMillis nowUnixMillis (cf_ActionTimeoutSeconds (st_Config next))) (\<lambda>deadline.
             Inr (next\<lparr>st_CurrentUserID := target, st_Phase := PhaseAwaitingAdd,
                    st_ActionDeadlineUnixMillis := deadline\<rparr>, events)))"

definition ChooseTarget :: "State \<Rightarrow> string \<Rightarrow> string \<Rightarrow> i64 \<Rightarrow> (State \<times> Event list) result" where
  "ChooseTarget state actor target nowUnixMillis = chooseTarget state actor target nowUnixMillis False"

definition continueTurn :: "State \<Rightarrow> string \<Rightarrow> bool \<Rightarrow> i64 \<Rightarrow> bool \<Rightarrow> (State \<times> Event list) result" where
  "continueTurn state actor reroll nowUnixMillis timer =
     and_then (validateActor state actor PhaseAwaitingContinue nowUnixMillis timer) (\<lambda>_.
       if reroll \<and> cf_ContinueMode (st_Config state) = ContinueForcedPass \<or>
          \<not> reroll \<and> cf_ContinueMode (st_Config state) = ContinueForcedReroll
       then ruleError CodeContinueModeInvalid ''continue action is disabled by frozen mode''
       else
         let reason = (if timer then (if reroll then ''timeout_reroll'' else ''timeout_pass'')
               else if reroll then ''reroll'' else ''pass'');
             nextActor = (if reroll then actor else []) in
         finishTurn (state\<lparr>st_LastSettlement := settlementFromState state ResultNone [] reason\<rparr>)
           actor nextActor nowUnixMillis)"

definition Reroll :: "State \<Rightarrow> string \<Rightarrow> i64 \<Rightarrow> (State \<times> Event list) result" where
  "Reroll state actor nowUnixMillis = continueTurn state actor True nowUnixMillis False"

definition Pass :: "State \<Rightarrow> string \<Rightarrow> i64 \<Rightarrow> (State \<times> Event list) result" where
  "Pass state actor nowUnixMillis = continueTurn state actor False nowUnixMillis False"

definition HandleTimeout :: "State \<Rightarrow> ActionTimer \<Rightarrow> i64 \<Rightarrow> (State \<times> Event list) result" where
  "HandleTimeout state timer nowUnixMillis =
     and_then (Validate state) (\<lambda>_.
       if st_Phase state = PhaseFinished
       then ruleError CodeSessionFinished ''session no longer accepts timers''
       else if tm_Turn timer \<noteq> st_Turn state \<or> tm_Phase timer \<noteq> st_Phase state \<or>
         tm_CurrentUserID timer \<noteq> st_CurrentUserID state \<or> tm_SourceUserID timer \<noteq> st_SourceUserID state \<or>
         tm_TargetUserID timer \<noteq> st_TargetUserID state \<or> tm_PendingResult timer \<noteq> st_PendingResult state \<or>
         tm_DeadlineUnixMillis timer = 0 \<or>
         tm_DeadlineUnixMillis timer \<noteq> st_ActionDeadlineUnixMillis state
       then ruleError CodeTimerMismatch ''timer does not match current pending effect''
       else if \<not> validUnixMillis nowUnixMillis \<or> nowUnixMillis < st_ActionDeadlineUnixMillis state
       then ruleError CodeTimerNotDue ''timer fired before its deadline''
       else case st_Phase state of
         PhaseAwaitingRoll \<Rightarrow>
           let next = state\<lparr>st_SourceUserID := st_CurrentUserID state, st_PendingResult := ResultRollTimeout,
                 st_PendingPoolBeforeTicks := st_TotalPoolTicks state,
                 st_PendingDirectionBefore := st_Direction state\<rparr> in
           finishTurn (next\<lparr>st_LastSettlement := settlementFromState next ResultRollTimeout [] ''roll_timeout''\<rparr>)
             (st_CurrentUserID state) [] nowUnixMillis
       | PhaseResultPending \<Rightarrow> applyLanded state nowUnixMillis ''result_timeout''
       | PhaseAwaitingAdd \<Rightarrow>
           and_then (minimumAddAmount state) (\<lambda>amount.
             addToPool state (st_CurrentUserID state) amount nowUnixMillis True)
       | PhaseAwaitingTarget \<Rightarrow>
           and_then (nextActiveUser state (st_SourceUserID state)) (\<lambda>target.
             chooseTarget state (st_SourceUserID state) target nowUnixMillis True)
       | PhaseAwaitingContinue \<Rightarrow>
           continueTurn state (st_SourceUserID state)
             (cf_ContinueMode (st_Config state) = ContinueForcedReroll) nowUnixMillis True
       | _ \<Rightarrow> ruleError CodeWrongPhase ''phase has no timeout fallback'')"

definition RevokeParticipant :: "State \<Rightarrow> string \<Rightarrow> i64 \<Rightarrow> (State \<times> Event list) result" where
  "RevokeParticipant state userID nowUnixMillis =
     and_then (Validate state) (\<lambda>_.
       if st_Phase state = PhaseFinished
       then ruleError CodeSessionFinished ''session no longer accepts participant changes''
       else if \<not> validUnixMillis nowUnixMillis
       then ruleError CodeInvalidState ''deterministic time is required''
       else case playerIndex (st_Players state) userID of
         None \<Rightarrow> ruleError CodeParticipantInactive ''participant is absent or already inactive''
       | Some index \<Rightarrow>
           if \<not> pl_Active (st_Players state ! index)
           then ruleError CodeParticipantInactive ''participant is absent or already inactive''
           else
             let next = state\<lparr>st_Players :=
                   (st_Players state)[index := (st_Players state ! index)\<lparr>pl_Active := False\<rparr>]\<rparr>;
                 revoked = empty_event\<lparr>ev_Kind := EventParticipantRevoked, ev_Turn := st_Turn state,
                   ev_UserID := userID, ev_PhaseBefore := st_Phase state,
                   ev_SourceUserID := (if st_Phase state = PhaseAwaitingRoll then st_CurrentUserID state
                     else st_SourceUserID state),
                   ev_TargetUserID := st_TargetUserID state, ev_Result := st_PendingResult state\<rparr> in
             if activeCount (st_Players next) < MinimumPlayers then
               (let (finished, finishEvent) = finishState next FinishInsufficientParticipants in
                Inr (finished, [revoked\<lparr>ev_PendingEffectCancelled := st_Phase state = PhaseResultPending \<or>
                  st_Phase state = PhaseAwaitingAdd \<or> st_Phase state = PhaseAwaitingTarget\<rparr>, finishEvent]))
             else if st_Phase state = PhaseAwaitingAdd \<and> st_PendingResult state = ResultDoubleSix \<and>
               userID = st_TargetUserID state then
               and_then (deadlineUnixMillis nowUnixMillis (cf_ActionTimeoutSeconds (st_Config next))) (\<lambda>deadline.
                 Inr (next\<lparr>st_TargetUserID := [], st_CurrentUserID := st_SourceUserID next,
                        st_Phase := PhaseAwaitingTarget, st_ActionDeadlineUnixMillis := deadline\<rparr>,
                      [revoked\<lparr>ev_TargetSelectionReopened := True\<rparr>]))
             else if userID = st_SourceUserID state \<or>
               st_Phase state = PhaseAwaitingRoll \<and> userID = st_CurrentUserID state then
               let next = (if st_Phase state = PhaseAwaitingContinue
                     then next\<lparr>st_LastSettlement :=
                       settlementFromState next ResultNone [] ''source_revoked_after_effect''\<rparr>
                     else
                       let next = (if st_Phase state = PhaseAwaitingRoll
                             then next\<lparr>st_SourceUserID := userID, st_PendingPoolBeforeTicks := st_TotalPoolTicks next,
                               st_PendingDirectionBefore := st_Direction next\<rparr>
                             else next) in
                       next\<lparr>st_LastSettlement := settlementFromState next ResultCancelled [] ''cancelled''\<rparr>) in
               and_then (finishTurn next userID [] nowUnixMillis) (\<lambda>(settled, settledEvents).
                 Inr (settled, revoked\<lparr>
                     ev_PendingEffectCancelled := st_Phase state \<noteq> PhaseAwaitingRoll \<and>
                       ts_Result (st_LastSettlement next) = ResultCancelled,
                     ev_NextUserID := ev_NextUserID (settledEvents ! 0)\<rparr> # settledEvents))
             else Inr (next, [revoked]))"

definition Finish :: "State \<Rightarrow> string \<Rightarrow> (State \<times> Event list) result" where
  "Finish state reason =
     and_then (Validate state) (\<lambda>_.
       if st_Phase state = PhaseFinished
       then ruleError CodeSessionFinished ''session is already finished''
       else
         let reason' = (if reason = [] then FinishHostRequested else reason) in
         if reason' \<noteq> FinishHostRequested \<and> reason' \<noteq> FinishPlatformCancelled
         then ruleError CodeInvalidAction ''finish reason is unsupported''
         else let (finished, event) = finishState state reason' in Inr (finished, [event]))"

section \<open>Interfaces\<close>

interpretation d7: player_table pl_UserID pl_Active playerIndex activeCount
  by unfold_locales simp_all

text \<open>The turn search on the bare list of players.\<close>

definition next_user :: "Direction \<Rightarrow> PlayerState list \<Rightarrow> string \<Rightarrow> string option" where
  "next_user direction players current =
     (case playerIndex players current of
        None \<Rightarrow> None
      | Some i \<Rightarrow> map_option pl_UserID (find pl_Active (ring_candidates direction players i)))"

lemma d7_go_rem_pos: "0 \<le> a \<Longrightarrow> 0 < b \<Longrightarrow> go_rem a b = a mod b"
  by (cases "a = 0") (simp_all add: go_rem_def)

lemma d7_go_rem_neg: "a < 0 \<Longrightarrow> 0 < b \<Longrightarrow> go_rem a b = - ((- a) mod b)"
  by (simp add: go_rem_def)

lemma d7_ring_forward:
  "direction \<noteq> DirectionCounterClockwise \<Longrightarrow> i < n \<Longrightarrow> ring_index direction n i k = (i + k) mod n"
proof -
  assume d: "direction \<noteq> DirectionCounterClockwise" and i: "i < n"
  have "go_rem (int i + int k) (int n) = int ((i + k) mod n)"
    using i by (simp add: d7_go_rem_pos zmod_int)
  with d show ?thesis by (simp add: ring_index_def Let_def)
qed

lemma d7_ring_backward:
  assumes "i < n" and "k \<le> n"
  shows "ring_index DirectionCounterClockwise n i k = (i + n - k) mod n"
proof (cases "k \<le> i")
  case True
  then have "go_rem (int i - int k) (int n) = int (i - k)"
    using assms by (simp add: d7_go_rem_pos of_nat_diff)
  moreover have "(i + n - k) mod n = i - k"
  proof -
    have "i + n - k = (i - k) + n" using True by simp
    with assms True show ?thesis by (metis less_imp_diff_less mod_add_self2 mod_less)
  qed
  ultimately show ?thesis using True by (simp add: ring_index_def Let_def)
next
  case False
  show ?thesis
  proof (cases "k = n \<and> i = 0")
    case True
    then show ?thesis using assms by (simp add: ring_index_def go_rem_def)
  next
    case no: False
    have "int i - int k = - int (k - i)" "k - i < n" using False assms no by auto
    then have "go_rem (int i - int k) (int n) = - int (k - i)"
      using False assms by (simp add: d7_go_rem_neg)
    moreover have "(i + n - k) mod n = n - (k - i)" using False assms no by auto
    ultimately show ?thesis
      using False assms \<open>k - i < n\<close> by (simp add: ring_index_def Let_def of_nat_diff)
  qed
qed

lemma d7_ring_candidates:
  assumes "i < length players"
  shows "\<exists>js. set js = {..<length players} - {i} \<and> ring_candidates direction players i = map ((!) players) (js @ [i])"
proof -
  let ?n = "length players"
  let ?f = "ring_index direction ?n i"
  have split: "[1..<?n + 1] = [1..<?n] @ [?n]" using assms by (cases ?n) (auto simp: upt_Suc_append)
  have "?f ` {1..<?n} = {..<?n} - {i} \<and> ?f ?n = i"
  proof (cases "direction = DirectionCounterClockwise")
    case True
    have "?f ` {1..<?n} = (\<lambda>k. (i + ?n - k) mod ?n) ` {1..<?n}"
      by (rule image_cong) (use True assms in \<open>simp_all add: d7_ring_backward\<close>)
    with True assms ring_backward [OF assms] show ?thesis by (simp add: d7_ring_backward)
  next
    case False
    with assms ring_forward [OF assms] show ?thesis by (simp add: d7_ring_forward)
  qed
  then have "set (map ?f [1..<?n]) = {..<?n} - {i}"
    and "ring_candidates direction players i = map ((!) players) (map ?f [1..<?n] @ [i])"
    unfolding ring_candidates_def split by simp_all
  then show ?thesis by blast
qed

interpretation d7: turn_order pl_UserID pl_Active playerIndex activeCount "next_user direction" for direction
proof unfold_locales
  fix players :: "PlayerState list" and u i
  assume i: "playerIndex players u = Some i"
  then have "i < length players" by (simp add: d7.index_SomeD)
  from d7_ring_candidates [OF this] obtain js where js: "set js = {..<length players} - {i}"
    and c: "ring_candidates direction players i = map ((!) players) (js @ [i])" by blast
  have "next_user direction players u =
      map_option (\<lambda>j. pl_UserID (players ! j)) (find (\<lambda>j. pl_Active (players ! j)) (js @ [i]))"
    using i by (simp add: next_user_def c find_map option.map_comp comp_def del: map_append)
  with js show "\<exists>js. set js = {..<length players} - {i} \<and> next_user direction players u =
      map_option (\<lambda>j. pl_UserID (players ! j)) (find (\<lambda>j. pl_Active (players ! j)) (js @ [i]))"
    by blast
qed

lemma d7_nextActiveUser:
  "nextActiveUser state current = Inr v \<longleftrightarrow>
     Direction_Valid (st_Direction state) \<and> next_user (st_Direction state) (st_Players state) current = Some v"
  by (auto simp: nextActiveUser_def next_user_def split: option.splits)

lemma d7_activePlayer: "activePlayer s u \<longleftrightarrow> d7.active_user (st_Players s) u"
  by (simp add: activePlayer_def d7.active_user_def)

end
