(* ===== verification/Dice789Props.thy ===== *)
theory Dice789Props
  imports Dice789
begin

text \<open>
  What the engine of dice 789 guarantees. The pool check and \<open>Validate\<close> are read off as predicates; then
  every action is shown to lead from consistent states to consistent states.
\<close>

section \<open>The pool\<close>

text \<open>A canonical stack: every layer but the last is full, the last is neither empty nor overfull.\<close>

fun canonical_layers :: "Ticks \<Rightarrow> PoolLayer list \<Rightarrow> bool" where
  "canonical_layers cap [] = False"
| "canonical_layers cap [layer] = (0 < ly_Ticks layer \<and> ly_Ticks layer \<le> cap)"
| "canonical_layers cap (layer # rest) = (ly_Ticks layer = cap \<and> canonical_layers cap rest)"

definition layers_sum :: "PoolLayer list \<Rightarrow> nat" where
  "layers_sum layers = sum_list (map (unat \<circ> ly_Ticks) layers)"

lemma d7_layers_sum [simp]:
  "layers_sum [] = 0" "layers_sum (x # xs) = unat (ly_Ticks x) + layers_sum xs"
  by (simp_all add: layers_sum_def)

lemma d7_poolLayersTotal: "layers_sum layers < 2 ^ 32 \<Longrightarrow> unat (poolLayersTotal layers) = layers_sum layers"
  by (induction layers) (simp_all add: unat_word_ariths)

lemma d7_canonical_pos: "canonical_layers cap layers \<Longrightarrow> 0 < layers_sum layers"
  by (induction cap layers rule: canonical_layers.induct) (auto simp: word_less_nat_alt)

lemma d7_pool_layers_0: "pool_layers cap 0 = Some []"
  by (subst pool_layers.simps) simp

lemma d7_layers_complete:
  "0 < cap \<Longrightarrow> canonical_layers cap layers \<Longrightarrow> layers_sum layers = unat r \<Longrightarrow> pool_layers cap r = Some layers"
proof (induction cap layers arbitrary: r rule: canonical_layers.induct)
  case (2 cap layer)
  then have "r = ly_Ticks layer" by (simp add: word_unat_eq_iff)
  with 2 have r: "r = ly_Ticks layer" "0 < r" "r \<le> cap" by simp_all
  then have "(if r < cap then r else cap) = r" by auto
  with r show ?case by (subst pool_layers.simps) (cases layer, simp add: d7_pool_layers_0 Let_def)
next
  case (3 cap layer a rest)
  from 3 have "canonical_layers cap (a # rest)" by simp
  then have pos: "0 < layers_sum (a # rest)" by (rule d7_canonical_pos)
  with 3 have lt: "cap < r" by (auto simp: word_less_nat_alt)
  then have "unat (r - cap) = unat r - unat cap" by (simp add: unat_sub order.strict_implies_order)
  with 3 have "layers_sum (a # rest) = unat (r - cap)" by simp
  from "3.IH" [OF "3.prems"(1) _ this] "3.prems" have "pool_layers cap (r - cap) = Some (a # rest)" by simp
  moreover from lt "3.prems"(1) have "0 < r" "\<not> r < cap" by auto
  ultimately show ?case using 3 by (subst pool_layers.simps) (cases layer, simp add: Let_def)
qed simp

lemma d7_layers_sound:
  assumes "0 < cap" and "0 < r"
  shows "\<exists>layers. pool_layers cap r = Some layers \<and> canonical_layers cap layers \<and> layers_sum layers = unat r"
  using assms(2)
proof (induction "unat r" arbitrary: r rule: less_induct)
  case less
  show ?case
  proof (cases "r \<le> cap")
    case True
    with less.prems d7_layers_complete [OF assms(1), of "[\<lparr>ly_Ticks = r\<rparr>]" r] show ?thesis
      by (intro exI [of _ "[\<lparr>ly_Ticks = r\<rparr>]"]) simp
  next
    case False
    then have lt: "cap < r" by simp
    then have u: "unat (r - cap) = unat r - unat cap" by (simp add: unat_sub order.strict_implies_order)
    with lt assms(1) have "unat (r - cap) < unat r" "0 < r - cap"
      by (auto simp: word_less_nat_alt)
    from less.hyps [OF this] obtain layers where
      l: "canonical_layers cap layers" "layers_sum layers = unat (r - cap)" by blast
    let ?ls = "\<lparr>ly_Ticks = cap\<rparr> # layers"
    from l(1) have "canonical_layers cap ?ls" by (cases layers) simp_all
    moreover have "layers_sum ?ls = unat r" using l(2) u lt by (simp add: word_less_nat_alt)
    ultimately show ?thesis using d7_layers_complete [OF assms(1)] by blast
  qed
qed

lemma d7_layers_iff:
  assumes "0 < cap" and "0 < r"
  shows "pool_layers cap r = Some layers \<longleftrightarrow> canonical_layers cap layers \<and> layers_sum layers = unat r"
  using d7_layers_sound [OF assms] d7_layers_complete [OF assms(1), of layers r] by fastforce

text \<open>What a valid configuration gives.\<close>

lemma d7_config:
  assumes "Config_Validate config n = Inr ()"
  shows "0 < cf_LayerCapacityTicks config" and "unat (cf_LayerCapacityTicks config) \<le> 64"
    and "1 \<le> unat (cf_MaxLayers config)" and "unat (cf_MaxLayers config) \<le> 6"
    and "0 < cf_AddStepTicks config"
    and "cf_StackedPool config \<longleftrightarrow> cf_MaxLayers config \<noteq> 1"
    and "unat (cf_ActionTimeoutSeconds config) \<le> 120"
    and "3 \<le> unat (cf_DropReportWindowSeconds config)" and "unat (cf_DropReportWindowSeconds config) \<le> 15"
    and "unat (cf_InitialPoolTicks config) \<le> 64"
    and "ucast (cf_InitialPoolTicks config) \<le> capacity_product config"
    and "MinimumPlayers \<le> n" and "n \<le> MaximumPlayers"
  using assms
  by (auto simp: Config_Validate_def guard_eq_Inr MinimumLayers_def MaximumLayers_def MaximumLayerCapacity_def
      not_less word_le_nat_alt word_less_nat_alt word_unat_eq_iff)

lemma d7_unat_ucast_u64: "unat (ucast (a :: u32) :: u64) = unat a"
  using unsigned_less [of a, where 'a = nat] by (simp add: unsigned_ucast_eq take_bit_nat_eq_self)

lemma d7_capacity:
  assumes "Config_Validate config n = Inr ()"
  shows "totalCapacity config = Inr (mustCapacity config)"
    and "unat (mustCapacity config) = unat (cf_LayerCapacityTicks config) * unat (cf_MaxLayers config)"
    and "unat (mustCapacity config) \<le> 384"
    and "cf_InitialPoolTicks config \<le> mustCapacity config"
proof -
  note c = d7_config [OF assms]
  have le: "unat (cf_LayerCapacityTicks config) * unat (cf_MaxLayers config) \<le> 384"
    using mult_le_mono [OF c(2) c(4)] by simp
  then have p: "unat (capacity_product config) = unat (cf_LayerCapacityTicks config) * unat (cf_MaxLayers config)"
    by (simp add: capacity_product_def unat_word_ariths d7_unat_ucast_u64)
  have "\<not> capacity_product config > ucast MaxUint32"
    using le p by (simp add: word_less_nat_alt)
  then show t: "totalCapacity config = Inr (mustCapacity config)"
    by (simp add: totalCapacity_def mustCapacity_def)
  have m: "mustCapacity config = cf_LayerCapacityTicks config * cf_MaxLayers config"
    using t by (simp add: totalCapacity_def split: if_splits)
  show u: "unat (mustCapacity config) = unat (cf_LayerCapacityTicks config) * unat (cf_MaxLayers config)"
    using le by (simp add: m unat_word_ariths)
  then show "unat (mustCapacity config) \<le> 384" using le by simp
  show "cf_InitialPoolTicks config \<le> mustCapacity config"
    using c(11) u p by (simp add: word_le_nat_alt d7_unat_ucast_u64)
qed

lemma d7_poolFromTotal:
  assumes "Config_Validate config n = Inr ()" and "r \<le> mustCapacity config"
  shows "\<exists>pool. poolFromTotal config r = Inr pool \<and> layers_sum pool = unat r \<and> poolLayersTotal pool = r"
proof (cases "r = 0")
  case True
  then show ?thesis using d7_capacity(1) [OF assms(1)] by (simp add: poolFromTotal_def)
next
  case False
  then have "0 < r" by (simp add: word_neq_0_conv)
  from d7_layers_sound [OF d7_config(1) [OF assms(1)] this] obtain layers where
    l: "pool_layers (cf_LayerCapacityTicks config) r = Some layers" "layers_sum layers = unat r" by blast
  have "layers_sum layers < 2 ^ 32" using l(2) unsigned_less [of r, where 'a = nat] by simp
  with l(2) have "poolLayersTotal layers = r" by (simp add: d7_poolLayersTotal word_unat_eq_iff)
  with l False assms(2) d7_capacity(1) [OF assms(1)] show ?thesis by (simp add: poolFromTotal_def)
qed

fun stacked_layers :: "Ticks \<Rightarrow> bool \<Rightarrow> PoolLayer list \<Rightarrow> bool" where
  "stacked_layers cap several [] = False"
| "stacked_layers cap several [layer] = (ly_Ticks layer \<le> cap \<and> (several \<longrightarrow> ly_Ticks layer \<noteq> 0))"
| "stacked_layers cap several (layer # rest) = (ly_Ticks layer = cap \<and> stacked_layers cap several rest)"

lemma d7_stacked_canonical: "stacked_layers cap True layers = canonical_layers cap layers"
  by (induction cap layers rule: canonical_layers.induct) (auto simp: word_neq_0_conv)

lemma d7_validate_layers:
  "layers \<noteq> [] \<Longrightarrow> validate_layers config n acc layers = Inr t \<longleftrightarrow>
     stacked_layers (cf_LayerCapacityTicks config) (1 < n) layers \<and>
     unat acc + layers_sum layers < 2 ^ 32 \<and> unat t = unat acc + layers_sum layers"
proof (induction layers arbitrary: acc)
  case (Cons x xs)
  have add: "Ticks_Add acc (ly_Ticks x) = (if unat acc + unat (ly_Ticks x) < 2 ^ 32 then Inr (acc + ly_Ticks x)
      else Inl ErrTicksOverflow)"
    using Ticks_Add_Inr [of acc "ly_Ticks x" "acc + ly_Ticks x"] Ticks_Add_total [of acc "ly_Ticks x"]
    by (auto simp: unat_word_ariths)
  show ?case
  proof (cases "unat acc + unat (ly_Ticks x) < 2 ^ 32")
    case True
    then have u: "unat (acc + ly_Ticks x) = unat acc + unat (ly_Ticks x)" by (simp add: unat_word_ariths)
    show ?thesis
    proof (cases xs)
      case Nil
      with True add show ?thesis by (auto simp: guard_eq_Inr u not_less word_unat_eq_iff)
    next
      case (Cons y ys)
      with True add Cons.IH [of "acc + ly_Ticks x"] show ?thesis
        by (auto simp: guard_eq_Inr u not_less)
    qed
  next
    case False
    with add show ?thesis by (auto simp: guard_eq_Inr)
  qed
qed simp

lemma d7_canonical_length:
  "canonical_layers cap layers \<Longrightarrow> (length layers - 1) * unat cap < layers_sum layers"
proof (induction cap layers rule: canonical_layers.induct)
  case (3 cap layer a rest)
  then show ?case by (simp add: algebra_simps)
qed (auto simp: word_less_nat_alt)

lemma d7_canonical_short:
  assumes "canonical_layers cap layers" and "layers_sum layers \<le> unat cap * m"
  shows "length layers \<le> m"
proof -
  have "(length layers - 1) * unat cap < m * unat cap"
    using d7_canonical_length [OF assms(1)] assms(2) by (metis le_less_trans less_le_trans mult.commute)
  then have "length layers - 1 < m" using mult_less_cancel2 by blast
  then show ?thesis by simp
qed

lemma d7_single_layer:
  "stacked_layers cap False [x] \<Longrightarrow> 0 < ly_Ticks x \<Longrightarrow> canonical_layers cap [x]"
  by simp

lemma d7_canonical_single: "length layers = Suc 0 \<Longrightarrow> canonical_layers cap layers \<Longrightarrow> stacked_layers cap False layers"
  by (cases layers) (auto simp: length_Suc_conv)

text \<open>A pool passes validation exactly when it is the canonical stack of its total.\<close>

lemma d7_validatePool:
  assumes "Config_Validate (st_Config s) n = Inr ()"
  shows "validatePool s = Inr () \<longleftrightarrow> poolFromTotal (st_Config s) (st_TotalPoolTicks s) = Inr (st_Pool s)"
proof -
  let ?c = "st_Config s" and ?p = "st_Pool s" and ?t = "st_TotalPoolTicks s"
  let ?cap = "cf_LayerCapacityTicks ?c"
  note c = d7_config [OF assms] and cap = d7_capacity [OF assms]
  have tl: "unat ?t < 2 ^ 32" using unsigned_less [of ?t, where 'a = nat] by simp
  have v: "validatePool s = Inr () \<longleftrightarrow>
      ?p \<noteq> [] \<and> length ?p \<le> unat (cf_MaxLayers ?c) \<and> ?t \<le> mustCapacity ?c \<and>
      (cf_StackedPool ?c \<or> length ?p = 1) \<and> stacked_layers ?cap (1 < length ?p) ?p \<and> layers_sum ?p = unat ?t"
    using tl d7_validate_layers [of ?p ?c "length ?p" 0]
    by (cases "?p = []") (auto simp: validatePool_def cap(1) guard_eq_Inr and_then_eq_Inr not_less)
  have single: "\<not> cf_StackedPool ?c \<Longrightarrow> unat (cf_MaxLayers ?c) = 1" using c(6) by simp
  show ?thesis
  proof (cases "?t = 0")
    case True
    have f: "poolFromTotal ?c ?t = Inr ?p \<longleftrightarrow> ?p = [\<lparr>ly_Ticks = 0\<rparr>]"
      using True by (auto simp: poolFromTotal_def cap(1))
    show ?thesis
    proof
      assume "validatePool s = Inr ()"
      then have ok: "?p \<noteq> []" "stacked_layers ?cap (1 < length ?p) ?p" "layers_sum ?p = 0" using v True by auto
      have "\<not> 1 < length ?p"
      proof
        assume l: "1 < length ?p"
        with ok(2) have "canonical_layers ?cap ?p" by (simp add: d7_stacked_canonical)
        from d7_canonical_pos [OF this] ok(3) show False by simp
      qed
      with ok obtain x where "?p = [x]" by (cases ?p) (auto simp: Suc_lessI)
      with ok(3) show "poolFromTotal ?c ?t = Inr ?p" unfolding f by (cases x) (simp add: unat_eq_0)
    next
      assume "poolFromTotal ?c ?t = Inr ?p"
      then have "?p = [\<lparr>ly_Ticks = 0\<rparr>]" by (simp add: f)
      then show "validatePool s = Inr ()" unfolding v using True c(3) by simp
    qed
  next
    case False
    then have pos: "0 < ?t" by (simp add: word_neq_0_conv)
    have f: "poolFromTotal ?c ?t = Inr ?p \<longleftrightarrow>
        ?t \<le> mustCapacity ?c \<and> canonical_layers ?cap ?p \<and> layers_sum ?p = unat ?t"
      using False d7_layers_iff [OF c(1) pos, of ?p]
      by (auto simp: poolFromTotal_def cap(1) not_less split: option.splits)
    show ?thesis
    proof
      assume "validatePool s = Inr ()"
      then have ok: "?p \<noteq> []" "?t \<le> mustCapacity ?c" "stacked_layers ?cap (1 < length ?p) ?p" "layers_sum ?p = unat ?t"
        using v by auto
      have "canonical_layers ?cap ?p"
      proof (cases "1 < length ?p")
        case True
        with ok(3) show ?thesis by (simp add: d7_stacked_canonical)
      next
        case short: False
        with ok(1) obtain x where x: "?p = [x]" by (cases ?p) (auto simp: Suc_lessI)
        with ok(3,4) pos show ?thesis by (simp add: word_less_nat_alt word_le_nat_alt)
      qed
      with ok show "poolFromTotal ?c ?t = Inr ?p" by (simp add: f)
    next
      assume "poolFromTotal ?c ?t = Inr ?p"
      then have ok: "?t \<le> mustCapacity ?c" "canonical_layers ?cap ?p" "layers_sum ?p = unat ?t" by (simp_all add: f)
      have "layers_sum ?p \<le> unat ?cap * unat (cf_MaxLayers ?c)" using ok cap(2) by (simp add: word_le_nat_alt)
      then have len: "length ?p \<le> unat (cf_MaxLayers ?c)" by (rule d7_canonical_short [OF ok(2)])
      have ne: "?p \<noteq> []" using ok(2) by auto
      then have "0 < length ?p" by simp
      have st: "stacked_layers ?cap (1 < length ?p) ?p"
      proof (cases "1 < length ?p")
        case False
        with \<open>0 < length ?p\<close> have "length ?p = Suc 0" by linarith
        with ok(2) False show ?thesis by (simp add: d7_canonical_single)
      qed (use ok(2) in \<open>simp add: d7_stacked_canonical\<close>)
      have "cf_StackedPool ?c \<or> length ?p = 1"
        using single len \<open>0 < length ?p\<close> by (cases "cf_StackedPool ?c"; linarith)
      with ok ne len st show "validatePool s = Inr ()" unfolding v by blast
    qed
  qed
qed

section \<open>The checks as predicates\<close>

lemma d7_participants_loop:
  "validate_participants users seats ps = Inr () \<longleftrightarrow>
     (\<forall>p \<in> set ps. identifier_ok (pt_UserID p)) \<and>
     distinct (map pt_UserID ps) \<and> users \<inter> pt_UserID ` set ps = {} \<and>
     distinct (map pt_SeatIndex ps) \<and> seats \<inter> pt_SeatIndex ` set ps = {}"
  by (induction users seats ps rule: validate_participants.induct) (auto split: if_splits)

lemma d7_ValidateParticipants:
  "ValidateParticipants ps = Inr () \<longleftrightarrow>
     MinimumPlayers \<le> length ps \<and> length ps \<le> MaximumPlayers \<and>
     (\<forall>p \<in> set ps. identifier_ok (pt_UserID p)) \<and>
     distinct (map pt_UserID ps) \<and> distinct (map pt_SeatIndex ps)"
  by (auto simp: ValidateParticipants_def d7_participants_loop)

lemma d7_seats_ascending: "seats_ascending ps \<longleftrightarrow> sorted_wrt (<) (map pl_SeatIndex ps)"
proof (induction ps rule: seats_ascending.induct)
  case (1 a b rest)
  then show ?case by (auto simp: not_le intro: less_trans)
qed simp_all

abbreviation users :: "State \<Rightarrow> string set" where
  "users s \<equiv> pl_UserID ` set (st_Players s)"

definition frozen_ok :: "State \<Rightarrow> bool" where
  "frozen_ok s \<longleftrightarrow>
     st_SchemaVersion s = CurrentSchemaVersion \<and>
     sorted_wrt (<) (map pl_SeatIndex (st_Players s)) \<and>
     (\<forall>u \<in> users s. identifier_ok u) \<and> distinct (map pl_UserID (st_Players s)) \<and>
     st_HostUserID s \<in> users s \<and> Config_Validate (st_Config s) (length (st_Players s)) = Inr () \<and>
     Direction_Valid (st_Direction s)"

definition pool_ok :: "State \<Rightarrow> bool" where
  "pool_ok s \<longleftrightarrow> poolFromTotal (st_Config s) (st_TotalPoolTicks s) = Inr (st_Pool s)"

text \<open>Tick conservation of a settlement: what leaves the pool is the penalty, what enters it is the effect.\<close>

definition drinking :: "ResultKind \<Rightarrow> bool" where
  "drinking result \<longleftrightarrow> result \<in> {ResultEight, ResultNine, ResultDoubleOne, ResultDoubleFour, ResultDropped}"

definition adding :: "ResultKind \<Rightarrow> bool" where
  "adding result \<longleftrightarrow> result \<in> {ResultSeven, ResultDoubleSix}"

definition conserves :: "TurnSettlement \<Rightarrow> bool" where
  "conserves t \<longleftrightarrow>
     (if drinking (ts_Result t) then
        ts_PenaltyUserID t \<noteq> [] \<and> ts_PenaltyTicks t = ts_EffectTicks t \<and>
        ts_PoolAfterTicks t \<le> ts_PoolBeforeTicks t \<and>
        ts_EffectTicks t = ts_PoolBeforeTicks t - ts_PoolAfterTicks t
      else if adding (ts_Result t) then
        ts_PenaltyUserID t = [] \<and> ts_PenaltyTicks t = 0 \<and> ts_PoolBeforeTicks t \<le> ts_PoolAfterTicks t \<and>
        ts_EffectTicks t = ts_PoolAfterTicks t - ts_PoolBeforeTicks t
      else ts_PenaltyUserID t = [] \<and> ts_PenaltyTicks t = 0 \<and> ts_EffectTicks t = 0 \<and>
        ts_PoolBeforeTicks t = ts_PoolAfterTicks t)"

definition entry_ok :: "Config \<Rightarrow> string set \<Rightarrow> TurnSettlement \<Rightarrow> bool" where
  "entry_ok config us t \<longleftrightarrow>
     ts_SourceUserID t \<in> us \<and> validSettledResult (ts_Result t) \<and> settlementDiceValid t \<and>
     Direction_Valid (ts_DirectionBefore t) \<and> Direction_Valid (ts_DirectionAfter t) \<and> ts_Reason t \<noteq> [] \<and>
     ts_PoolBeforeTicks t \<le> mustCapacity config \<and> ts_PoolAfterTicks t \<le> mustCapacity config \<and>
     poolLayersTotal (ts_PoolBefore t) = ts_PoolBeforeTicks t \<and>
     poolLayersTotal (ts_PoolAfter t) = ts_PoolAfterTicks t \<and> conserves t \<and>
     (ts_TargetUserID t = [] \<or> ts_TargetUserID t \<in> us) \<and>
     (if ts_Result t = ResultDropped then ts_AuditRef t \<noteq> [] \<and> ts_DropReason t \<noteq> []
      else ts_AuditRef t = [] \<and> ts_DropReason t = [])"

definition settlement_ok :: "State \<Rightarrow> bool" where
  "settlement_ok s \<longleftrightarrow>
     (let t = st_LastSettlement s in
      t = empty_settlement\<lparr>ts_Result := ResultNone\<rparr> \<or>
      ts_Turn t \<noteq> 0 \<and> entry_ok (st_Config s) (users s) t \<and>
      (ts_Turn t < st_Turn s \<and> ts_NextUserID t \<noteq> [] \<and> ts_NextUserID t \<in> users s \<or>
       ts_Turn t = st_Turn s \<and> ts_NextUserID t = [] \<and>
         ts_Result t \<in> {ResultSeven, ResultEight, ResultNine} \<and>
         st_Phase s \<in> {PhaseAwaitingContinue, PhaseFinished}))"

definition live_ok :: "State \<Rightarrow> bool" where
  "live_ok s \<longleftrightarrow>
     st_FinishReason s = [] \<and> MinimumPlayers \<le> activeCount (st_Players s) \<and>
     d7.active_user (st_Players s) (st_CurrentUserID s) \<and> validatePhase s = Inr ()"

definition finished_ok :: "State \<Rightarrow> bool" where
  "finished_ok s \<longleftrightarrow>
     validFinishReason (st_FinishReason s) \<and> st_CurrentUserID s = [] \<and> st_SourceUserID s = [] \<and>
     st_TargetUserID s = [] \<and> st_ActionDeadlineUnixMillis s = 0 \<and> st_DieOne s = 0 \<and> st_DieTwo s = 0 \<and>
     st_Sum s = 0 \<and> st_PendingResult s = ResultNone \<and> st_PendingPoolBeforeTicks s = 0 \<and>
     st_PendingDirectionBefore s = DirectionUnset"

definition valid :: "State \<Rightarrow> bool" where
  "valid s \<longleftrightarrow>
     st_Turn s \<noteq> 0 \<and> frozen_ok s \<and> pool_ok s \<and> settlement_ok s \<and>
     (if st_Phase s = PhaseFinished then finished_ok s else live_ok s)"

lemma d7_empty_settlement_iff:
  "t = empty_settlement\<lparr>ts_Result := ResultNone\<rparr> \<longleftrightarrow>
     ts_Turn t = 0 \<and> ts_SourceUserID t = [] \<and> ts_DieOne t = 0 \<and> ts_DieTwo t = 0 \<and> ts_Sum t = 0 \<and>
     ts_Result t = ResultNone \<and> ts_TargetUserID t = [] \<and> ts_PoolBeforeTicks t = 0 \<and>
     ts_PoolAfterTicks t = 0 \<and> ts_PoolBefore t = [] \<and> ts_PoolAfter t = [] \<and> ts_EffectTicks t = 0 \<and>
     ts_PenaltyUserID t = [] \<and> ts_PenaltyTicks t = 0 \<and> ts_DirectionBefore t = DirectionUnset \<and>
     ts_DirectionAfter t = DirectionUnset \<and> ts_NextUserID t = [] \<and> ts_Reason t = [] \<and>
     ts_AuditRef t = [] \<and> ts_DropReason t = []"
  by (cases t) (auto simp: empty_settlement_def)

lemma d7_validateSettlement: "validateSettlement s = Inr () \<longleftrightarrow> settlement_ok s"
proof (cases "ts_Turn (st_LastSettlement s) = 0")
  case True
  then show ?thesis
    by (auto simp: validateSettlement_def settlement_ok_def d7_empty_settlement_iff Let_def)
next
  case False
  then have ne: "st_LastSettlement s \<noteq> empty_settlement\<lparr>ts_Result := ResultNone\<rparr>"
    by (simp add: d7_empty_settlement_iff)
  let ?t = "st_LastSettlement s"
  have flow: "(if ts_Result ?t = ResultEight \<or> ts_Result ?t = ResultNine \<or> ts_Result ?t = ResultDoubleOne \<or>
        ts_Result ?t = ResultDoubleFour \<or> ts_Result ?t = ResultDropped then
        (if ts_PenaltyUserID ?t = [] \<or> ts_PenaltyTicks ?t \<noteq> ts_EffectTicks ?t \<or>
            ts_PoolBeforeTicks ?t < ts_PoolAfterTicks ?t \<or>
            ts_PoolBeforeTicks ?t - ts_PoolAfterTicks ?t \<noteq> ts_EffectTicks ?t
         then ruleError CodeInvalidState ''drinking settlement violates tick conservation'' else Inr ())
      else if ts_Result ?t = ResultSeven \<or> ts_Result ?t = ResultDoubleSix then
        (if ts_PenaltyUserID ?t \<noteq> [] \<or> ts_PenaltyTicks ?t \<noteq> 0 \<or>
            ts_PoolAfterTicks ?t < ts_PoolBeforeTicks ?t \<or>
            ts_PoolAfterTicks ?t - ts_PoolBeforeTicks ?t \<noteq> ts_EffectTicks ?t
         then ruleError CodeInvalidState ''add settlement violates tick conservation'' else Inr ())
      else if ts_EffectTicks ?t \<noteq> 0 \<or> ts_PenaltyTicks ?t \<noteq> 0 \<or> ts_PenaltyUserID ?t \<noteq> [] \<or>
        ts_PoolBeforeTicks ?t \<noteq> ts_PoolAfterTicks ?t
      then ruleError CodeInvalidState ''no-effect settlement changed ticks'' else Inr ()) = Inr u \<longleftrightarrow> conserves ?t" for u :: unit
    by (auto simp: conserves_def drinking_def adding_def not_less)
  have audit: "(if ts_TargetUserID ?t \<noteq> [] \<and> playerIndex (st_Players s) (ts_TargetUserID ?t) = None
      then ruleError CodeInvalidState ''last settlement target is not frozen''
      else if ts_Result ?t = ResultDropped then
        (if ts_AuditRef ?t = [] \<or> ts_DropReason ?t = []
         then ruleError CodeInvalidState ''dropped settlement lacks audit detail'' else Inr ())
      else if ts_AuditRef ?t \<noteq> [] \<or> ts_DropReason ?t \<noteq> []
      then ruleError CodeInvalidState ''non-dropped settlement retains drop audit detail''
      else Inr ()) = Inr () \<longleftrightarrow>
      (ts_TargetUserID ?t = [] \<or> ts_TargetUserID ?t \<in> users s) \<and>
      (if ts_Result ?t = ResultDropped then ts_AuditRef ?t \<noteq> [] \<and> ts_DropReason ?t \<noteq> []
       else ts_AuditRef ?t = [] \<and> ts_DropReason ?t = [])"
    by (auto simp: d7.index_None_iff)
  show ?thesis
    unfolding validateSettlement_def settlement_ok_def Let_def
    using False ne
    by (simp only: if_False guard_eq_Inr and_then_eq_Inr flow audit) (auto simp: entry_ok_def d7.index_None_iff not_less)
qed

lemma d7_frozen_checks:
  "frozen_ok s \<longleftrightarrow>
     st_SchemaVersion s = CurrentSchemaVersion \<and> seats_ascending (st_Players s) \<and>
     list_ex (\<lambda>player. pl_UserID player = st_HostUserID s) (st_Players s) \<and>
     ValidateParticipants (map player_participant (st_Players s)) = Inr () \<and>
     Config_Validate (st_Config s) (length (st_Players s)) = Inr () \<and> Direction_Valid (st_Direction s)"
  using d7_config(12,13) [of "st_Config s" "length (st_Players s)"]
  by (auto simp: frozen_ok_def d7_ValidateParticipants player_participant_def comp_def d7_seats_ascending
      strict_sorted_iff list_ex_iff intro: rev_image_eqI)

lemma d7_Validate: "Validate s = Inr () \<longleftrightarrow> valid s"
proof (cases "frozen_ok s")
  case True
  then have c: "Config_Validate (st_Config s) (length (st_Players s)) = Inr ()" by (simp add: frozen_ok_def)
  have "live_ok s \<Longrightarrow> st_Phase s \<noteq> PhaseUnset \<and> st_Phase s \<noteq> PhaseTurnSettled"
    by (auto simp: live_ok_def validatePhase_def)
  then show ?thesis
    using True [unfolded d7_frozen_checks] True d7_config(12,13) [OF c]
    by (auto simp: Validate_def valid_def guard_eq_Inr and_then_eq_Inr d7_validatePool [OF c] pool_ok_def
        d7_validateSettlement finished_ok_def live_ok_def d7_activePlayer not_less)
next
  case False
  then show ?thesis
    by (auto simp: Validate_def valid_def guard_eq_Inr d7_frozen_checks)
qed

end
