(* ===== verification/Dice789Inv.thy ===== *)
theory Dice789Inv
  imports Dice789Props
begin

text \<open>
  The invariant of the dice 789 engine: \<open>Validate\<close> together with the relation between the pool and the pending
  effect that the actions rely on. Every action is shown to keep it; the proofs share the lemmas on settlements,
  on ending a turn, on charging a player and on removing one.
\<close>

section \<open>Settlements conserve ticks\<close>

definition settled_result :: "State \<Rightarrow> ResultKind \<Rightarrow> ResultKind" where
  "settled_result s override = (if override \<noteq> ResultNone then override else st_PendingResult s)"

definition settled_source :: "State \<Rightarrow> string" where
  "settled_source s = (if st_SourceUserID s = [] then st_CurrentUserID s else st_SourceUserID s)"

lemma d7_settlement_fields [simp]:
  "ts_Turn (settlementFromState s override target reason) = st_Turn s"
  "ts_SourceUserID (settlementFromState s override target reason) = settled_source s"
  "ts_DieOne (settlementFromState s override target reason) = st_DieOne s"
  "ts_DieTwo (settlementFromState s override target reason) = st_DieTwo s"
  "ts_Sum (settlementFromState s override target reason) = st_Sum s"
  "ts_Result (settlementFromState s override target reason) = settled_result s override"
  "ts_TargetUserID (settlementFromState s override target reason) = target"
  "ts_PoolBeforeTicks (settlementFromState s override target reason) = st_PendingPoolBeforeTicks s"
  "ts_PoolAfterTicks (settlementFromState s override target reason) = st_TotalPoolTicks s"
  "ts_PoolBefore (settlementFromState s override target reason) =
     (case poolFromTotal (st_Config s) (st_PendingPoolBeforeTicks s) of Inl _ \<Rightarrow> [] | Inr pool \<Rightarrow> pool)"
  "ts_PoolAfter (settlementFromState s override target reason) = st_Pool s"
  "ts_DirectionBefore (settlementFromState s override target reason) =
     (if st_PendingDirectionBefore s = DirectionUnset then st_Direction s else st_PendingDirectionBefore s)"
  "ts_DirectionAfter (settlementFromState s override target reason) = st_Direction s"
  "ts_NextUserID (settlementFromState s override target reason) = []"
  "ts_Reason (settlementFromState s override target reason) = reason"
  "ts_AuditRef (settlementFromState s override target reason) = []"
  "ts_DropReason (settlementFromState s override target reason) = []"
  by (simp_all add: settlementFromState_def settled_result_def settled_source_def Let_def empty_settlement_def)

text \<open>The pool moved the way the result says.\<close>

definition flow_ok :: "ResultKind \<Rightarrow> Ticks \<Rightarrow> Ticks \<Rightarrow> bool" where
  "flow_ok result before after \<longleftrightarrow>
     (if drinking result then after \<le> before else if adding result then before \<le> after else before = after)"

lemma d7_settlement_conserves:
  assumes "flow_ok (settled_result s override) (st_PendingPoolBeforeTicks s) (st_TotalPoolTicks s)"
    and "settled_source s \<noteq> []" and "settled_result s override = ResultDoubleOne \<Longrightarrow> target \<noteq> []"
  shows "conserves (settlementFromState s override target reason)"
  using assms
  by (cases "settled_result s override")
    (simp_all add: conserves_def flow_ok_def drinking_def adding_def settled_result_def [symmetric]
      settled_source_def [symmetric] settlementFromState_def Let_def empty_settlement_def)

lemma d7_conserves_audit: "conserves (t\<lparr>ts_AuditRef := a, ts_DropReason := d\<rparr>) = conserves t"
  by (simp add: conserves_def)

lemma d7_frozen_config: "frozen_ok s \<Longrightarrow> Config_Validate (st_Config s) (length (st_Players s)) = Inr ()"
  by (simp add: frozen_ok_def)

lemma d7_frozen_users:
  "frozen_ok s \<Longrightarrow> distinct (map pl_UserID (st_Players s))"
  "frozen_ok s \<Longrightarrow> u \<in> users s \<Longrightarrow> u \<noteq> []"
  using identifier_ok_not_Nil by (auto simp: frozen_ok_def)

lemma d7_pool_bounds:
  assumes "frozen_ok s" and "pool_ok s"
  shows "st_TotalPoolTicks s \<le> mustCapacity (st_Config s)" and "poolLayersTotal (st_Pool s) = st_TotalPoolTicks s"
proof -
  note c = d7_frozen_config [OF assms(1)]
  show le: "st_TotalPoolTicks s \<le> mustCapacity (st_Config s)"
    using assms(2) by (auto simp: pool_ok_def poolFromTotal_def d7_capacity(1) [OF c] not_less guard_eq_Inr)
  from d7_poolFromTotal [OF c le] assms(2) show "poolLayersTotal (st_Pool s) = st_TotalPoolTicks s"
    by (auto simp: pool_ok_def)
qed

lemma d7_Direction_cases: "Direction_Valid d \<longleftrightarrow> d \<noteq> DirectionUnset"
  by (cases d) (simp_all add: Direction_Valid_def)

text \<open>The dice that a settlement may carry.\<close>

definition dice_ok :: "ResultKind \<Rightarrow> State \<Rightarrow> bool" where
  "dice_ok result s \<longleftrightarrow>
     (if result = ResultRollTimeout then st_DieOne s = 0 \<and> st_DieTwo s = 0 \<and> st_Sum s = 0
      else diceValid s \<or> result = ResultCancelled \<and> st_DieOne s = 0 \<and> st_DieTwo s = 0 \<and> st_Sum s = 0)"

lemma d7_settlement_entry:
  assumes s: "frozen_ok s" "pool_ok s"
    and source: "settled_source s \<in> users s"
    and result: "validSettledResult (settled_result s override)" "dice_ok (settled_result s override) s"
    and before: "st_PendingPoolBeforeTicks s \<le> mustCapacity (st_Config s)"
    and flow: "flow_ok (settled_result s override) (st_PendingPoolBeforeTicks s) (st_TotalPoolTicks s)"
    and target: "target = [] \<or> target \<in> users s" "settled_result s override = ResultDoubleOne \<Longrightarrow> target \<noteq> []"
    and reason: "reason \<noteq> []"
    and audit: "if settled_result s override = ResultDropped then a \<noteq> [] \<and> d \<noteq> [] else a = [] \<and> d = []"
  shows "entry_ok (st_Config s) (users s)
    ((settlementFromState s override target reason)\<lparr>ts_AuditRef := a, ts_DropReason := d\<rparr>)"
proof -
  from d7_poolFromTotal [OF d7_frozen_config [OF s(1)] before] obtain pool where
    pool: "poolFromTotal (st_Config s) (st_PendingPoolBeforeTicks s) = Inr pool"
      "poolLayersTotal pool = st_PendingPoolBeforeTicks s" by blast
  have "settled_source s \<noteq> []" using d7_frozen_users(2) [OF s(1) source] .
  from d7_settlement_conserves [OF flow this target(2)]
  have "conserves (settlementFromState s override target reason)" by simp
  then have "conserves ((settlementFromState s override target reason)\<lparr>ts_AuditRef := a, ts_DropReason := d\<rparr>)"
    by (simp only: d7_conserves_audit)
  moreover have "settlementDiceValid ((settlementFromState s override target reason)\<lparr>ts_AuditRef := a, ts_DropReason := d\<rparr>)"
    using result(2) by (auto simp: settlementDiceValid_def dice_ok_def diceValid_def split: if_splits)
  moreover have "Direction_Valid (st_Direction s)" using s(1) by (simp add: frozen_ok_def)
  ultimately show ?thesis
    using source result(1) before target(1) reason audit pool d7_pool_bounds [OF s]
    by (simp add: entry_ok_def d7_Direction_cases)
qed

section \<open>Turns start and finish in consistent states\<close>

text \<open>
  \<open>Validate\<close> does not tie the pending pool total to the pool, so it is not inductive on its own. The
  engine keeps this relation as well.
\<close>

definition consistent :: "State \<Rightarrow> bool" where
  "consistent s \<longleftrightarrow>
     (st_Phase s \<in> {PhaseAwaitingAdd, PhaseAwaitingTarget} \<longrightarrow> st_PendingPoolBeforeTicks s = st_TotalPoolTicks s) \<and>
     (st_Phase s = PhaseAwaitingContinue \<longrightarrow>
        flow_ok (st_PendingResult s) (st_PendingPoolBeforeTicks s) (st_TotalPoolTicks s))"

definition inv789 :: "State \<Rightarrow> bool" where
  "inv789 s \<longleftrightarrow> valid s \<and> consistent s"

lemma d7_deadline_ok:
  assumes "deadlineUnixMillis now seconds = Inr d"
  shows "0 < now" and "seconds = 0 \<and> d = 0 \<or> seconds \<noteq> 0 \<and> 0 < d"
proof -
  from assms show now: "0 < now" by (simp add: deadlineUnixMillis_def validUnixMillis_def guard_eq_Inr)
  show "seconds = 0 \<and> d = 0 \<or> seconds \<noteq> 0 \<and> 0 < d"
  proof (cases "seconds = 0")
    case False
    then have "0 < uint seconds" by (simp add: uint_0_iff order_less_le)
    with False assms now show ?thesis by (auto simp: deadlineUnixMillis_def Let_def guard_eq_Inr)
  qed (use assms in \<open>simp add: deadlineUnixMillis_def guard_eq_Inr\<close>)
qed

lemma d7_finishTurn_Inr:
  assumes "finishTurn s source nextActor now = Inr (t, es)"
  obtains v d where
    "if nextActor = [] then next_user (st_Direction s) (st_Players s) source = Some v else v = nextActor"
    "d7.active_user (st_Players s) v" "0 < now" "st_Turn s \<noteq> MaxUint32"
    "deadlineUnixMillis now (cf_ActionTimeoutSeconds (st_Config s)) = Inr d"
    "t = s\<lparr>st_LastSettlement := (st_LastSettlement s)\<lparr>ts_NextUserID := v, ts_DirectionAfter := st_Direction s\<rparr>,
       st_Turn := st_Turn s + 1, st_Phase := PhaseAwaitingRoll, st_CurrentUserID := v, st_SourceUserID := [],
       st_TargetUserID := [], st_DieOne := 0, st_DieTwo := 0, st_Sum := 0, st_PendingResult := ResultNone,
       st_PendingPoolBeforeTicks := 0, st_PendingDirectionBefore := DirectionUnset,
       st_ActionDeadlineUnixMillis := d\<rparr>"
    "map ev_Kind es = [EventTurnSettled, EventTurnStarted]"
proof -
  from assms obtain v where v: "(if nextActor = [] then nextActiveUser s source else Inr nextActor) = Inr v"
    and turn: "st_Turn s \<noteq> MaxUint32"
    and start: "\<exists>e. startTurn (s\<lparr>st_LastSettlement := (st_LastSettlement s)\<lparr>ts_NextUserID := v,
         ts_DirectionAfter := st_Direction s\<rparr>, st_Turn := st_Turn s + 1\<rparr>) v now = Inr (t, e) \<and>
       map ev_Kind es = [EventTurnSettled, ev_Kind e]"
    by (auto simp: finishTurn_def Let_def outcome)
  from v have nx: "if nextActor = [] then next_user (st_Direction s) (st_Players s) source = Some v else v = nextActor"
    by (auto simp: d7_nextActiveUser split: if_splits)
  from start show thesis
    using that [OF nx _ _ turn]
    by (auto simp: startTurn_def outcome validUnixMillis_def d7_activePlayer)
qed

lemma d7_conserves_next: "conserves (t\<lparr>ts_NextUserID := v, ts_DirectionAfter := dir\<rparr>) = conserves t"
  by (simp add: conserves_def)

lemma d7_dice_next:
  "settlementDiceValid (t\<lparr>ts_NextUserID := v, ts_DirectionAfter := dir\<rparr>) = settlementDiceValid t"
  by (simp add: settlementDiceValid_def)

lemma d7_entry_next:
  "entry_ok config us t \<Longrightarrow> Direction_Valid dir \<Longrightarrow> entry_ok config us (t\<lparr>ts_NextUserID := v, ts_DirectionAfter := dir\<rparr>)"
  unfolding entry_ok_def d7_conserves_next d7_dice_next by simp

lemma d7_finishTurn_inv:
  assumes "finishTurn s source nextActor now = Inr (t, es)"
    and s: "frozen_ok s" "pool_ok s" "st_Turn s \<noteq> 0" "st_FinishReason s = []"
      "MinimumPlayers \<le> activeCount (st_Players s)"
    and entry: "entry_ok (st_Config s) (users s) (st_LastSettlement s)" "ts_Turn (st_LastSettlement s) = st_Turn s"
  shows "inv789 t"
proof -
  from assms(1) obtain v d where v: "d7.active_user (st_Players s) v" and now: "0 < now" and turn: "st_Turn s \<noteq> MaxUint32"
    and d: "deadlineUnixMillis now (cf_ActionTimeoutSeconds (st_Config s)) = Inr d"
    and t: "t = s\<lparr>st_LastSettlement := (st_LastSettlement s)\<lparr>ts_NextUserID := v, ts_DirectionAfter := st_Direction s\<rparr>,
       st_Turn := st_Turn s + 1, st_Phase := PhaseAwaitingRoll, st_CurrentUserID := v, st_SourceUserID := [],
       st_TargetUserID := [], st_DieOne := 0, st_DieTwo := 0, st_Sum := 0, st_PendingResult := ResultNone,
       st_PendingPoolBeforeTicks := 0, st_PendingDirectionBefore := DirectionUnset,
       st_ActionDeadlineUnixMillis := d\<rparr>"
    by (rule d7_finishTurn_Inr)
  have dir: "Direction_Valid (st_Direction s)" using s(1) by (simp add: frozen_ok_def)
  have vu: "v \<in> users s" using v by (rule d7.active_user_mem)
  then have vn: "v \<noteq> []" by (rule d7_frozen_users(2) [OF s(1)])
  have "settlement_ok t"
    using d7_entry_next [OF entry(1) dir, of v] entry(2) vu vn s(3) plus_1_gr_u32 [OF turn]
    by (simp add: settlement_ok_def t Let_def)
  moreover have "frozen_ok t" using s(1) by (simp add: frozen_ok_def t)
  moreover have "pool_ok t" using s(2) by (simp add: pool_ok_def t)
  moreover have "validatePhase t = Inr ()"
    using d7_deadline_ok(2) [OF d] by (simp add: validatePhase_def t deadlineMatches_def)
  ultimately have "valid t"
    using s v plus_1_neq_0_u32 [OF turn] by (simp add: valid_def live_ok_def t)
  then show ?thesis by (simp add: inv789_def consistent_def t)
qed

section \<open>Every action keeps the state consistent\<close>

lemma d7_validateActor:
  "validateActor s actor phase now timer = Inr () \<longleftrightarrow>
     valid s \<and> st_Phase s \<noteq> PhaseFinished \<and> st_Phase s = phase \<and> actor = st_CurrentUserID s \<and>
     d7.active_user (st_Players s) actor \<and> 0 < now \<and>
     (timer \<or> st_ActionDeadlineUnixMillis s = 0 \<or> now < st_ActionDeadlineUnixMillis s)"
  by (auto simp: validateActor_def outcome d7_Validate validUnixMillis_def d7_activePlayer not_le)

lemma d7_validateHost:
  "validateHost s actor now = Inr () \<longleftrightarrow>
     valid s \<and> st_Phase s = PhaseResultPending \<and> actor = st_HostUserID s \<and>
     d7.active_user (st_Players s) actor \<and> 0 < now \<and> now < st_ActionDeadlineUnixMillis s"
  by (auto simp: validateHost_def outcome d7_Validate validUnixMillis_def d7_activePlayer not_le)

lemma d7_valid_live:
  assumes "valid s" and "st_Phase s \<noteq> PhaseFinished"
  shows "frozen_ok s" "pool_ok s" "st_Turn s \<noteq> 0" "settlement_ok s" "st_FinishReason s = []"
    "MinimumPlayers \<le> activeCount (st_Players s)" "validatePhase s = Inr ()"
    "d7.active_user (st_Players s) (st_CurrentUserID s)"
  using assms by (auto simp: valid_def live_ok_def)

text \<open>The two fields of a pending effect that a new settlement reads.\<close>

lemma d7_pending:
  assumes "valid s" and "st_Phase s \<in> {PhaseResultPending, PhaseAwaitingAdd, PhaseAwaitingTarget, PhaseAwaitingContinue}"
  shows "diceValid s" and "d7.active_user (st_Players s) (st_SourceUserID s)" and "settled_source s = st_SourceUserID s"
    and "st_SourceUserID s \<in> users s" and "Direction_Valid (st_PendingDirectionBefore s)"
proof -
  have live: "st_Phase s \<noteq> PhaseFinished" using assms(2) by auto
  note l = d7_valid_live [OF assms(1) live]
  show "diceValid s" and a: "d7.active_user (st_Players s) (st_SourceUserID s)"
    and "Direction_Valid (st_PendingDirectionBefore s)"
    using l(7) assms(2) by (auto simp: validatePhase_def guard_eq_Inr Let_def d7_activePlayer)
  show u: "st_SourceUserID s \<in> users s" using a by (rule d7.active_user_mem)
  show "settled_source s = st_SourceUserID s" using d7_frozen_users(2) [OF l(1) u] by (simp add: settled_source_def)
qed

lemma d7_settle_inv:
  assumes "finishTurn (n\<lparr>st_LastSettlement := entry\<rparr>) source nextActor now = Inr (t, es)"
    and "frozen_ok n" "pool_ok n" "st_Turn n \<noteq> 0" "st_FinishReason n = []"
      "MinimumPlayers \<le> activeCount (st_Players n)"
    and "entry_ok (st_Config n) (users n) entry" "ts_Turn entry = st_Turn n"
  shows "inv789 t"
  by (rule d7_finishTurn_inv [OF assms(1)]) (use assms in \<open>simp_all add: frozen_ok_def pool_ok_def\<close>)

lemma d7_no_audit:
  "(settlementFromState n override target reason)\<lparr>ts_AuditRef := [], ts_DropReason := []\<rparr> =
     settlementFromState n override target reason"
  by (rule TurnSettlement.equality) simp_all

text \<open>The settlement of a pending effect, other than a reported drop.\<close>

lemma d7_pending_entry:
  assumes "frozen_ok n" "pool_ok n" "settled_source n \<in> users n"
    and "validSettledResult (settled_result n override)" "dice_ok (settled_result n override) n"
    and "st_PendingPoolBeforeTicks n \<le> mustCapacity (st_Config n)"
    and "flow_ok (settled_result n override) (st_PendingPoolBeforeTicks n) (st_TotalPoolTicks n)"
    and "target = [] \<or> target \<in> users n" "settled_result n override = ResultDoubleOne \<Longrightarrow> target \<noteq> []"
    and "reason \<noteq> []" "settled_result n override \<noteq> ResultDropped"
  shows "entry_ok (st_Config n) (users n) (settlementFromState n override target reason)"
  using d7_settlement_entry [OF assms(1-10), of "[]" "[]"] assms(11) by (simp add: d7_no_audit)

lemma d7_continue_inv:
  assumes n: "frozen_ok n" "pool_ok n" "st_Turn n \<noteq> 0" "st_FinishReason n = []"
      "MinimumPlayers \<le> activeCount (st_Players n)"
    and pending: "diceValid n" "d7.active_user (st_Players n) (st_SourceUserID n)"
      "Direction_Valid (st_PendingDirectionBefore n)"
      "st_PendingResult n \<in> {ResultSeven, ResultEight, ResultNine}"
      "st_PendingPoolBeforeTicks n \<le> mustCapacity (st_Config n)"
      "flow_ok (st_PendingResult n) (st_PendingPoolBeforeTicks n) (st_TotalPoolTicks n)"
    and reason: "reason \<noteq> []"
    and d: "cf_ActionTimeoutSeconds (st_Config n) = 0 \<and> d = 0 \<or> cf_ActionTimeoutSeconds (st_Config n) \<noteq> 0 \<and> 0 < d"
    and t: "t = n\<lparr>st_LastSettlement := settlementFromState n ResultNone [] reason, st_Phase := PhaseAwaitingContinue,
      st_CurrentUserID := st_SourceUserID n, st_TargetUserID := [], st_ActionDeadlineUnixMillis := d\<rparr>"
  shows "inv789 t"
proof -
  have u: "st_SourceUserID n \<in> users n" using pending(2) by (rule d7.active_user_mem)
  then have src: "settled_source n = st_SourceUserID n"
    using d7_frozen_users(2) [OF n(1)] by (simp add: settled_source_def)
  have res: "settled_result n ResultNone = st_PendingResult n" by (simp add: settled_result_def)
  have "entry_ok (st_Config n) (users n) (settlementFromState n ResultNone [] reason)"
    by (rule d7_pending_entry)
      (use n u src res pending reason in \<open>auto simp: validSettledResult_def validRollResult_def dice_ok_def\<close>)
  then have "settlement_ok t" using pending(4) n(3) by (simp add: settlement_ok_def t res Let_def)
  moreover have "validatePhase t = Inr ()"
    using pending d by (auto simp: validatePhase_def t deadlineMatches_def d7_activePlayer diceValid_def not_less)
  moreover have "frozen_ok t" "pool_ok t" using n(1,2) by (simp_all add: frozen_ok_def pool_ok_def t)
  ultimately have "valid t" using n pending(2) by (simp add: valid_def live_ok_def t)
  then show ?thesis using pending(6) by (simp add: inv789_def consistent_def t)
qed

section \<open>Charging a player\<close>

definition charged :: "State \<Rightarrow> nat \<Rightarrow> Ticks \<Rightarrow> PoolLayer list \<Rightarrow> Ticks \<Rightarrow> State" where
  "charged s i amount pool r =
     s\<lparr>st_Players := (st_Players s)[i := (st_Players s ! i)\<lparr>pl_PenaltyTicks :=
         pl_PenaltyTicks (st_Players s ! i) + amount\<rparr>],
       st_Pool := pool, st_TotalPoolTicks := r\<rparr>"

lemma d7_charge:
  assumes "addPenalty s u amount = Inr n" and "setPoolTotal n r = Inr m"
  obtains i pool where "i < length (st_Players s)" "pl_UserID (st_Players s ! i) = u" "pl_Active (st_Players s ! i)"
    "unat (pl_PenaltyTicks (st_Players s ! i)) + unat amount < 2 ^ 32"
    "poolFromTotal (st_Config s) r = Inr pool" "m = charged s i amount pool r"
proof -
  from assms(1) obtain i val where i: "playerIndex (st_Players s) u = Some i" "pl_Active (st_Players s ! i)"
    and v: "Ticks_Add (pl_PenaltyTicks (st_Players s ! i)) amount = Inr val"
    and n: "n = s\<lparr>st_Players := (st_Players s)[i := (st_Players s ! i)\<lparr>pl_PenaltyTicks := val\<rparr>]\<rparr>"
    by (auto simp: addPenalty_def guard_eq_Inr split: option.splits sum.splits)
  from assms(2) n obtain pool where "poolFromTotal (st_Config s) r = Inr pool" "m = n\<lparr>st_Pool := pool, st_TotalPoolTicks := r\<rparr>"
    by (auto simp: setPoolTotal_def outcome)
  with that [of i pool] d7.index_SomeD [OF i(1)] i(2) v Ticks_Add_InrD [OF v] n
  show thesis unfolding Ticks_Add_Inr by (simp add: charged_def)
qed

lemma d7_charged_fields [simp]:
  "st_Config (charged s i amount pool r) = st_Config s" "st_Turn (charged s i amount pool r) = st_Turn s"
  "st_FinishReason (charged s i amount pool r) = st_FinishReason s"
  "st_Phase (charged s i amount pool r) = st_Phase s" "st_SourceUserID (charged s i amount pool r) = st_SourceUserID s"
  "st_CurrentUserID (charged s i amount pool r) = st_CurrentUserID s"
  "st_TargetUserID (charged s i amount pool r) = st_TargetUserID s"
  "st_PendingResult (charged s i amount pool r) = st_PendingResult s"
  "st_PendingPoolBeforeTicks (charged s i amount pool r) = st_PendingPoolBeforeTicks s"
  "st_PendingDirectionBefore (charged s i amount pool r) = st_PendingDirectionBefore s"
  "st_Direction (charged s i amount pool r) = st_Direction s"
  "st_TotalPoolTicks (charged s i amount pool r) = r" "st_Pool (charged s i amount pool r) = pool"
  "diceValid (charged s i amount pool r) = diceValid s"
  "settled_source (charged s i amount pool r) = settled_source s"
  "settled_result (charged s i amount pool r) override = settled_result s override"
  by (simp_all add: charged_def diceValid_def settled_source_def settled_result_def)

lemma d7_charged_players:
  assumes "i < length (st_Players s)"
  shows "users (charged s i amount pool r) = users s"
    and "activeCount (st_Players (charged s i amount pool r)) = activeCount (st_Players s)"
    and "d7.active_user (st_Players (charged s i amount pool r)) u = d7.active_user (st_Players s) u"
    and "frozen_ok s \<Longrightarrow> frozen_ok (charged s i amount pool r)"
  using assms
  by (simp_all add: charged_def image_update_eq d7.count_update_same d7.active_user_update frozen_ok_def map_update_eq)

lemma d7_charged_pool: "poolFromTotal (st_Config s) r = Inr pool \<Longrightarrow> pool_ok (charged s i amount pool r)"
  by (simp add: pool_ok_def)

lemma d7_dice_ok: "diceValid s \<Longrightarrow> result \<noteq> ResultRollTimeout \<Longrightarrow> dice_ok result s"
  by (simp add: dice_ok_def)

text \<open>A turn that ends with a drink: the source of the charge settles a pending effect.\<close>

lemma d7_charge_settle:
  assumes s: "valid s" "st_Phase s \<in> {PhaseResultPending, PhaseAwaitingTarget}" "st_PendingPoolBeforeTicks s = st_TotalPoolTicks s"
    and m: "addPenalty s u amount = Inr n" "setPoolTotal n r = Inr m" "r \<le> st_TotalPoolTicks s"
    and result: "drinking (settled_result s override)"
    and target: "target = [] \<or> target \<in> users s" "settled_result s override = ResultDoubleOne \<Longrightarrow> target \<noteq> []"
    and reason: "reason \<noteq> []"
    and audit: "if settled_result s override = ResultDropped then a \<noteq> [] \<and> d \<noteq> [] else a = [] \<and> d = []"
    and fin: "finishTurn (m\<lparr>st_LastSettlement := (settlementFromState m override target reason)
      \<lparr>ts_AuditRef := a, ts_DropReason := d\<rparr>\<rparr>) source nextActor now = Inr (t, es)"
  shows "inv789 t"
proof -
  have live: "st_Phase s \<noteq> PhaseFinished" using s(2) by auto
  have ph: "st_Phase s \<in> {PhaseResultPending, PhaseAwaitingAdd, PhaseAwaitingTarget, PhaseAwaitingContinue}"
    using s(2) by auto
  note l = d7_valid_live [OF s(1) live] and p = d7_pending [OF s(1) ph]
  from m(1,2) obtain i pool where i: "i < length (st_Players s)" and pool: "poolFromTotal (st_Config s) r = Inr pool"
    and eq: "m = charged s i amount pool r" by (rule d7_charge)
  have fm: "frozen_ok m" "pool_ok m"
    using l(1) i pool by (simp_all add: eq d7_charged_players d7_charged_pool)
  have vs: "validSettledResult (settled_result s override)"
    using result by (auto simp: drinking_def validSettledResult_def validRollResult_def)
  have "settled_result s override \<noteq> ResultRollTimeout" using result by (auto simp: drinking_def)
  then have dc: "dice_ok (settled_result m override) m" using p(1) by (simp add: eq dice_ok_def)
  have "entry_ok (st_Config m) (users m)
      ((settlementFromState m override target reason)\<lparr>ts_AuditRef := a, ts_DropReason := d\<rparr>)"
    by (rule d7_settlement_entry [OF fm])
      (use p vs dc target reason audit result s(3) m(3) d7_pool_bounds(1) [OF l(1,2)] in
        \<open>simp_all add: eq d7_charged_players [OF i] flow_ok_def\<close>)
  with fin show ?thesis
    by (rule_tac d7_settle_inv [OF fin]) (use l fm i in \<open>simp_all add: eq d7_charged_players\<close>)
qed

lemma d7_one_le: "(1 :: u32) \<le> a \<longleftrightarrow> a \<noteq> 0"
  by (metis Word.word_less_1 not_less)

lemma d7_selectResult: "validRollResult (selectResult config a b c)"
  by (simp add: selectResult_def validRollResult_def Let_def)

lemma d7_applyRoll_inv:
  assumes "applyRoll s actor a b now = Inr (t, es)"
  shows "inv789 t"
proof -
  from assms have v: "valid s" and ph: "st_Phase s = PhaseAwaitingRoll" and actor: "actor = st_CurrentUserID s"
    and act: "d7.active_user (st_Players s) actor"
    and dice: "1 \<le> a" "a \<le> 6" "1 \<le> b" "b \<le> 6"
    by (auto simp: applyRoll_def outcome d7_validateActor not_less d7_one_le)
  from assms dice obtain d where d: "deadlineUnixMillis now (cf_DropReportWindowSeconds (st_Config s)) = Inr d"
    and t: "t = s\<lparr>st_Phase := PhaseResultPending, st_SourceUserID := actor, st_CurrentUserID := actor,
      st_TargetUserID := [], st_DieOne := a, st_DieTwo := b, st_Sum := a + b,
      st_PendingResult := selectResult (st_Config s) a b (a + b), st_PendingPoolBeforeTicks := st_TotalPoolTicks s,
      st_PendingDirectionBefore := st_Direction s, st_ActionDeadlineUnixMillis := d\<rparr>"
    by (auto simp: applyRoll_def outcome ClassifyRoll_def d7_one_le)
  have live: "st_Phase s \<noteq> PhaseFinished" using ph by simp
  note l = d7_valid_live [OF v live]
  have drop: "cf_DropReportWindowSeconds (st_Config s) \<noteq> 0"
    using d7_config(8) [OF d7_frozen_config [OF l(1)]] by auto
  have "settlement_ok t" using l(4) ph by (simp add: settlement_ok_def t Let_def)
  moreover have "Direction_Valid (st_Direction s)" using l(1) by (simp add: frozen_ok_def)
  then have "validatePhase t = Inr ()"
    using act dice drop d7_deadline_ok(2) [OF d]
    by (simp add: validatePhase_def t d7_activePlayer diceValid_def deadlineMatches_def d7_selectResult)
  moreover have "frozen_ok t" "pool_ok t" using l(1,2) by (simp_all add: frozen_ok_def pool_ok_def t)
  ultimately have "valid t" using l act by (simp add: valid_def live_ok_def t)
  then show ?thesis by (simp add: inv789_def consistent_def t)
qed

lemma d7_Roll_inv: "Dice789.Roll sha256 s actor now seed = Inr (t, es) \<Longrightarrow> inv789 t"
  by (auto simp: Dice789.Roll_def outcome intro: d7_applyRoll_inv split: sum.splits)

lemma d7_result_pending:
  assumes "valid s" and "st_Phase s = PhaseResultPending"
  shows "st_SourceUserID s = st_CurrentUserID s" "st_TargetUserID s = []" "validRollResult (st_PendingResult s)"
    "st_PendingPoolBeforeTicks s = st_TotalPoolTicks s"
  using d7_valid_live(7) [OF assms(1)] assms(2) by (auto simp: validatePhase_def guard_eq_Inr)

lemma d7_applyDrink:
  assumes "applyDrink s target amount reason events = Inr (m, es)"
  obtains n where "addPenalty s target (min amount (st_TotalPoolTicks s)) = Inr n"
    "setPoolTotal n (st_TotalPoolTicks s - min amount (st_TotalPoolTicks s)) = Inr m"
proof -
  have "(if amount > st_TotalPoolTicks s then st_TotalPoolTicks s else amount) = min amount (st_TotalPoolTicks s)"
    by (auto simp: min_def)
  with assms that show thesis by (auto simp: applyDrink_def outcome Let_def)
qed

lemma d7_drink_le: "st_TotalPoolTicks s - min amount (st_TotalPoolTicks s) \<le> (st_TotalPoolTicks s :: Ticks)"
  by (simp add: min_def word_le_nat_alt unat_sub)

lemma d7_drinkContinue_inv:
  assumes "applyDrinkAndContinue s (st_SourceUserID s) amount reason events now = Inr (t, es)"
    and v: "valid s" "st_Phase s = PhaseResultPending" and res: "st_PendingResult s \<in> {ResultEight, ResultNine}"
    and reason: "reason \<noteq> []"
  shows "inv789 t"
proof -
  have live: "st_Phase s \<noteq> PhaseFinished"
    and ph: "st_Phase s \<in> {PhaseResultPending, PhaseAwaitingAdd, PhaseAwaitingTarget, PhaseAwaitingContinue}"
    using v(2) by auto
  note l = d7_valid_live [OF v(1) live] and p = d7_pending [OF v(1) ph] and r = d7_result_pending [OF v]
  from assms(1) obtain m es' d where drink: "applyDrink s (st_SourceUserID s) amount reason events = Inr (m, es')"
    and d: "deadlineUnixMillis now (cf_ActionTimeoutSeconds (st_Config m)) = Inr d"
    and t: "t = m\<lparr>st_LastSettlement := settlementFromState m ResultNone [] reason, st_Phase := PhaseAwaitingContinue,
      st_CurrentUserID := st_SourceUserID m, st_TargetUserID := [], st_ActionDeadlineUnixMillis := d\<rparr>"
    by (auto simp: applyDrinkAndContinue_def outcome Let_def)
  let ?r = "st_TotalPoolTicks s - min amount (st_TotalPoolTicks s)"
  from drink obtain n where n: "addPenalty s (st_SourceUserID s) (min amount (st_TotalPoolTicks s)) = Inr n"
    and m: "setPoolTotal n ?r = Inr m" by (rule d7_applyDrink)
  from n m obtain i pool where i: "i < length (st_Players s)"
    and pool: "poolFromTotal (st_Config s) ?r = Inr pool" and eq: "m = charged s i (min amount (st_TotalPoolTicks s)) pool ?r"
    by (rule d7_charge)
  show ?thesis
    by (rule d7_continue_inv [OF _ _ _ _ _ _ _ _ _ _ _ reason _ t])
      (use l p r res i pool d7_pool_bounds(1) [OF l(1,2)] d7_drink_le [of s amount] d7_deadline_ok(2) [OF d] in
        \<open>auto simp: eq d7_charged_players d7_charged_pool flow_ok_def drinking_def\<close>)
qed

lemma d7_deadline_or_zero:
  assumes "0 < now" and "now \<le> MaxInt64 - 120000" and "unat seconds \<le> 120"
  shows "seconds = 0 \<and> deadline_or_zero now seconds = 0 \<or> seconds \<noteq> 0 \<and> 0 < deadline_or_zero now seconds"
    and "deadlineUnixMillis now seconds = Inr (deadline_or_zero now seconds)"
proof -
  have "uint seconds \<le> 120" using assms(3) by (simp add: nat_le_iff flip: nat_uint_eq)
  with assms(1,2) have "\<exists>d. deadlineUnixMillis now seconds = Inr d"
    by (auto simp: deadlineUnixMillis_def validUnixMillis_def Let_def)
  then obtain d where d: "deadlineUnixMillis now seconds = Inr d" ..
  then show "deadlineUnixMillis now seconds = Inr (deadline_or_zero now seconds)" by (simp add: deadline_or_zero_def)
  show "seconds = 0 \<and> deadline_or_zero now seconds = 0 \<or> seconds \<noteq> 0 \<and> 0 < deadline_or_zero now seconds"
    using d7_deadline_ok(2) [OF d] d by (simp add: deadline_or_zero_def)
qed

text \<open>The landed results that wait for a choice of the source.\<close>

lemma d7_waiting_inv:
  assumes v: "valid s" "st_Phase s = PhaseResultPending"
    and d: "cf_ActionTimeoutSeconds (st_Config s) = 0 \<and> d = 0 \<or> cf_ActionTimeoutSeconds (st_Config s) \<noteq> 0 \<and> 0 < d"
    and w: "phase = PhaseAwaitingAdd \<and> st_PendingResult s = ResultSeven \<or>
      phase = PhaseAwaitingTarget \<and> st_PendingResult s \<in> {ResultDoubleOne, ResultDoubleSix}"
    and t: "t = s\<lparr>st_Phase := phase, st_CurrentUserID := st_SourceUserID s, st_ActionDeadlineUnixMillis := d\<rparr>"
  shows "inv789 t"
proof -
  have live: "st_Phase s \<noteq> PhaseFinished"
    and ph: "st_Phase s \<in> {PhaseResultPending, PhaseAwaitingAdd, PhaseAwaitingTarget, PhaseAwaitingContinue}"
    using v(2) by auto
  note l = d7_valid_live [OF v(1) live] and p = d7_pending [OF v(1) ph] and r = d7_result_pending [OF v]
  have "settlement_ok t" using l(4) v(2) by (auto simp: settlement_ok_def t Let_def)
  moreover have "validatePhase t = Inr ()"
  proof (cases "phase = PhaseAwaitingAdd")
    case True
    with w p(1,2,5) r(2) d show ?thesis
      by (simp add: validatePhase_def t d7_activePlayer diceValid_def deadlineMatches_def)
  next
    case False
    with w p(1,2,5) r(2) d show ?thesis
      by (simp add: validatePhase_def t d7_activePlayer diceValid_def deadlineMatches_def)
  qed
  moreover have "frozen_ok t" "pool_ok t" using l(1,2) by (simp_all add: frozen_ok_def pool_ok_def t)
  ultimately have "valid t" using l p w by (auto simp: valid_def live_ok_def t)
  then show ?thesis using r w by (auto simp: inv789_def consistent_def t)
qed

lemma d7_pending_settle:
  assumes "finishTurn (n\<lparr>st_LastSettlement := settlementFromState n override target reason\<rparr>) source nextActor now = Inr (t, es)"
    and "frozen_ok n" "pool_ok n" "st_Turn n \<noteq> 0" "st_FinishReason n = []" "MinimumPlayers \<le> activeCount (st_Players n)"
    and "settled_source n \<in> users n"
    and "validSettledResult (settled_result n override)" "dice_ok (settled_result n override) n"
    and "st_PendingPoolBeforeTicks n \<le> mustCapacity (st_Config n)"
    and "flow_ok (settled_result n override) (st_PendingPoolBeforeTicks n) (st_TotalPoolTicks n)"
    and "target = [] \<or> target \<in> users n" "settled_result n override = ResultDoubleOne \<Longrightarrow> target \<noteq> []"
    and "reason \<noteq> []" "settled_result n override \<noteq> ResultDropped"
  shows "inv789 t"
  by (rule d7_settle_inv [OF assms(1-6)], rule d7_pending_entry) (use assms in simp_all)

lemma d7_settle_landed:
  assumes "settle_landed n source nextActor events now = Inr (t, es)"
  obtains es' where "finishTurn n source nextActor now = Inr (t, es')"
  using assms by (auto simp: settle_landed_def outcome)

lemma d7_no_effect:
  assumes "result \<in> {ResultOrdinaryPair, ResultOther}"
  shows "validSettledResult result" and "flow_ok result a a" and "diceValid n \<Longrightarrow> dice_ok result n"
    and "result \<noteq> ResultDropped" and "result \<noteq> ResultDoubleOne"
  using assms by (auto simp: validSettledResult_def validRollResult_def flow_ok_def dice_ok_def)

lemma d7_plain_landed_inv:
  assumes "settle_landed (n\<lparr>st_LastSettlement := settlementFromState n ResultNone [] reason\<rparr>) source nextActor events now = Inr (t, es)"
    and v: "valid s" "st_Phase s = PhaseResultPending" and res: "st_PendingResult s \<in> {ResultOrdinaryPair, ResultOther}"
    and reason: "reason \<noteq> []" and n: "n = s\<lparr>st_Direction := d\<rparr>" "Direction_Valid d"
  shows "inv789 t"
proof -
  have live: "st_Phase s \<noteq> PhaseFinished"
    and ph: "st_Phase s \<in> {PhaseResultPending, PhaseAwaitingAdd, PhaseAwaitingTarget, PhaseAwaitingContinue}"
    using v(2) by auto
  note l = d7_valid_live [OF v(1) live] and p = d7_pending [OF v(1) ph] and r = d7_result_pending [OF v]
  from assms(1) obtain es' where f: "finishTurn (n\<lparr>st_LastSettlement := settlementFromState n ResultNone [] reason\<rparr>)
      source nextActor now = Inr (t, es')" by (rule d7_settle_landed)
  have src: "settled_source n = settled_source s" and rs: "settled_result n ResultNone = st_PendingResult s"
    and dv: "diceValid n" using p(1) by (simp_all add: n settled_source_def settled_result_def diceValid_def)
  show ?thesis
    by (rule d7_pending_settle [OF f])
      (use l p r src rs reason n d7_no_effect [OF res] d7_pool_bounds(1) [OF l(1,2)] dv in
        \<open>simp_all add: frozen_ok_def pool_ok_def\<close>)
qed

lemma d7_applyLanded_inv:
  assumes "applyLanded s now cause = Inr (t, es)" and v: "valid s" "st_Phase s = PhaseResultPending"
    and now: "0 < now" "now \<le> MaxInt64 - 120000"
  shows "inv789 t"
proof -
  have live: "st_Phase s \<noteq> PhaseFinished"
    and ph: "st_Phase s \<in> {PhaseResultPending, PhaseAwaitingAdd, PhaseAwaitingTarget, PhaseAwaitingContinue}"
    using v(2) by auto
  note l = d7_valid_live [OF v(1) live] and p = d7_pending [OF v(1) ph] and r = d7_result_pending [OF v]
  have c: "Config_Validate (st_Config s) (length (st_Players s)) = Inr ()" by (rule d7_frozen_config [OF l(1)])
  note d = d7_deadline_or_zero(1) [OF now d7_config(7) [OF c]]
  have dir: "Direction_Valid (st_Direction s)" using l(1) by (simp add: frozen_ok_def)
  from r(3) consider (seven) "st_PendingResult s = ResultSeven" | (eight) "st_PendingResult s = ResultEight"
    | (nine) "st_PendingResult s = ResultNine" | (target) "st_PendingResult s \<in> {ResultDoubleOne, ResultDoubleSix}"
    | (four) "st_PendingResult s = ResultDoubleFour" | (pair) "st_PendingResult s = ResultOrdinaryPair"
    | (other) "st_PendingResult s = ResultOther"
    by (auto simp: validRollResult_def)
  then show ?thesis
  proof cases
    case seven
    show ?thesis
    proof (cases "st_TotalPoolTicks s = mustCapacity (st_Config s)")
      case False
      with seven assms(1) v r have "t = s\<lparr>st_Phase := PhaseAwaitingAdd, st_CurrentUserID := st_SourceUserID s,
          st_ActionDeadlineUnixMillis := deadline_or_zero now (cf_ActionTimeoutSeconds (st_Config s))\<rparr>"
        by (simp add: applyLanded_def Let_def)
      from d7_waiting_inv [OF v d _ this] seven show ?thesis by simp
    next
      case True
      let ?n = "s\<lparr>st_CurrentUserID := st_SourceUserID s\<rparr>"
      from True seven assms(1) v r have t: "t = s\<lparr>st_LastSettlement := settlementFromState s ResultNone [] ''seven_add'',
          st_Phase := PhaseAwaitingContinue,
          st_ActionDeadlineUnixMillis := deadline_or_zero now (cf_ActionTimeoutSeconds (st_Config s))\<rparr>"
        by (simp add: applyLanded_def Let_def)
      have "t = ?n\<lparr>st_LastSettlement := settlementFromState ?n ResultNone [] ''seven_add'',
          st_Phase := PhaseAwaitingContinue, st_CurrentUserID := st_SourceUserID ?n, st_TargetUserID := [],
          st_ActionDeadlineUnixMillis := deadline_or_zero now (cf_ActionTimeoutSeconds (st_Config s))\<rparr>"
        by (rule State.equality) (simp_all add: t r(1,2))
      from d7_continue_inv [OF _ _ _ _ _ _ _ _ _ _ _ _ _ this] seven l p r d d7_pool_bounds(1) [OF l(1,2)] show ?thesis
        by (simp add: frozen_ok_def pool_ok_def diceValid_def flow_ok_def drinking_def adding_def)
    qed
  next
    case eight
    with assms(1) v r(3) show ?thesis
      by (intro d7_drinkContinue_inv [OF _ v, where reason = "''eight''"]) (simp_all add: applyLanded_def Let_def)
  next
    case nine
    with assms(1) v r(3) show ?thesis
      by (intro d7_drinkContinue_inv [OF _ v, where reason = "''nine''"]) (simp_all add: applyLanded_def Let_def)
  next
    case target
    with assms(1) v r have "t = s\<lparr>st_Phase := PhaseAwaitingTarget, st_CurrentUserID := st_SourceUserID s,
        st_ActionDeadlineUnixMillis := deadline_or_zero now (cf_ActionTimeoutSeconds (st_Config s))\<rparr>"
      by (auto simp: applyLanded_def Let_def)
    from d7_waiting_inv [OF v d _ this] target show ?thesis by simp
  next
    case four
    with assms(1) v r obtain m es1 where
      drink: "\<exists>events. applyDrink s (st_SourceUserID s) (HalfCeil (st_TotalPoolTicks s)) ''double_four'' events = Inr (m, es1)"
      and landed: "settle_landed (m\<lparr>st_LastSettlement := settlementFromState m ResultNone [] ''double_four''\<rparr>)
        (st_SourceUserID s) (st_SourceUserID s) es1 now = Inr (t, es)"
      by (auto simp: applyLanded_def Let_def outcome)
    from drink obtain n where n: "addPenalty s (st_SourceUserID s) (min (HalfCeil (st_TotalPoolTicks s)) (st_TotalPoolTicks s)) = Inr n"
      "setPoolTotal n (st_TotalPoolTicks s - min (HalfCeil (st_TotalPoolTicks s)) (st_TotalPoolTicks s)) = Inr m"
      by (auto elim: d7_applyDrink)
    from landed obtain es' where f: "finishTurn (m\<lparr>st_LastSettlement := settlementFromState m ResultNone [] ''double_four''\<rparr>)
        (st_SourceUserID s) (st_SourceUserID s) now = Inr (t, es')" by (rule d7_settle_landed)
    show ?thesis
      by (rule d7_charge_settle [OF v(1) _ r(4) n d7_drink_le, of ResultNone "[]" "''double_four''" "[]" "[]"])
        (use four v(2) f in \<open>simp_all add: settled_result_def drinking_def d7_no_audit\<close>)
  next
    case pair
    define d where "d = (if 3 \<le> activeCount (st_Players s) then reverseDirection (st_Direction s) else st_Direction s)"
    have n: "(if 3 \<le> activeCount (st_Players s) then s\<lparr>st_Direction := reverseDirection (st_Direction s)\<rparr> else s) =
        s\<lparr>st_Direction := d\<rparr>" by (simp add: d_def)
    have dv: "Direction_Valid d" using dir by (simp add: d_def reverseDirection_def Direction_Valid_def)
    from assms(1) pair v r(3) obtain nextActor events where
      "settle_landed ((s\<lparr>st_Direction := d\<rparr>)\<lparr>st_LastSettlement :=
         settlementFromState (s\<lparr>st_Direction := d\<rparr>) ResultNone [] ''ordinary_pair''\<rparr>)
         (st_SourceUserID s) nextActor events now = Inr (t, es)"
      by (auto simp only: applyLanded_def Let_def n ResultKind.simps guard_eq_Inr)
    from d7_plain_landed_inv [OF this v _ _ refl dv] pair show ?thesis by simp
  next
    case other
    with assms(1) v r show ?thesis
      by (intro d7_plain_landed_inv [OF _ v, where n = s and d = "st_Direction s" and reason = "''pass''"])
        (simp_all add: applyLanded_def Let_def dir)
  qed
qed

lemma d7_ReportDropped_Inr:
  assumes "ReportDropped s actor auditRef reason now = Inr (t, es)"
  obtains n m es' where "valid s" "st_Phase s = PhaseResultPending" "actor = st_HostUserID s"
    "auditRef \<noteq> []" "reason \<noteq> []" "addPenalty s (st_SourceUserID s) (st_TotalPoolTicks s) = Inr n"
    "setPoolTotal n 0 = Inr m"
    "finishTurn (m\<lparr>st_LastSettlement := (settlementFromState m ResultDropped (st_SourceUserID s) ''dropped'')
       \<lparr>ts_AuditRef := auditRef, ts_DropReason := reason\<rparr>\<rparr>) (st_SourceUserID s) [] now = Inr (t, es')"
  using assms by (auto simp: ReportDropped_def outcome d7_validateHost Let_def)

lemma d7_ReportDropped_inv:
  assumes "ReportDropped s actor auditRef reason now = Inr (t, es)"
  shows "inv789 t"
proof -
  from assms obtain n m es' where v: "valid s" "st_Phase s = PhaseResultPending"
    and audit: "auditRef \<noteq> []" "reason \<noteq> []" and n: "addPenalty s (st_SourceUserID s) (st_TotalPoolTicks s) = Inr n"
    "setPoolTotal n 0 = Inr m"
    and f: "finishTurn (m\<lparr>st_LastSettlement := (settlementFromState m ResultDropped (st_SourceUserID s) ''dropped'')
       \<lparr>ts_AuditRef := auditRef, ts_DropReason := reason\<rparr>\<rparr>) (st_SourceUserID s) [] now = Inr (t, es')"
    by (rule d7_ReportDropped_Inr)
  have "st_SourceUserID s \<in> users s" using d7_pending(4) [OF v(1)] v(2) by simp
  then show ?thesis
    by (intro d7_charge_settle [OF v(1) _ d7_result_pending(4) [OF v] n _ _ _ _ _ _ f])
      (use v(2) audit in \<open>simp_all add: settled_result_def drinking_def\<close>)
qed

lemma d7_add_amount:
  assumes "validateAddAmount s amount = Inr ()" and "st_TotalPoolTicks s \<le> mustCapacity (st_Config s)"
  shows "unat (st_TotalPoolTicks s + amount) = unat (st_TotalPoolTicks s) + unat amount"
    and "st_TotalPoolTicks s \<le> st_TotalPoolTicks s + amount"
    and "st_TotalPoolTicks s + amount \<le> mustCapacity (st_Config s)"
proof -
  have "amount \<le> mustCapacity (st_Config s) - st_TotalPoolTicks s"
    using assms(1) by (auto simp: validateAddAmount_def Let_def guard_eq_Inr not_less)
  then have le: "unat (st_TotalPoolTicks s) + unat amount \<le> unat (mustCapacity (st_Config s))"
    using assms(2) by (simp add: word_le_nat_alt unat_sub)
  moreover have "unat (mustCapacity (st_Config s)) < 2 ^ 32"
    using unsigned_less [of "mustCapacity (st_Config s)", where 'a = nat] by simp
  ultimately show u: "unat (st_TotalPoolTicks s + amount) = unat (st_TotalPoolTicks s) + unat amount"
    by (simp add: unat_word_ariths)
  with le show "st_TotalPoolTicks s \<le> st_TotalPoolTicks s + amount"
    and "st_TotalPoolTicks s + amount \<le> mustCapacity (st_Config s)"
    by (simp_all add: word_le_nat_alt)
qed

lemma d7_awaiting_add:
  assumes "valid s" and "st_Phase s = PhaseAwaitingAdd"
  shows "st_PendingResult s = ResultSeven \<and> st_TargetUserID s = [] \<and> st_CurrentUserID s = st_SourceUserID s \<or>
    st_PendingResult s = ResultDoubleSix \<and> st_TargetUserID s = st_CurrentUserID s \<and>
      st_TargetUserID s \<noteq> st_SourceUserID s"
  using d7_valid_live(7) [OF assms(1)] assms(2) by (auto simp: validatePhase_def Let_def guard_eq_Inr)

lemma d7_addToPool_Inr:
  assumes "addToPool s actor amount now timer = Inr (t, es)"
  obtains pool es' where "valid s" "st_Phase s = PhaseAwaitingAdd" "actor = st_CurrentUserID s"
    "validateAddAmount s amount = Inr ()" "poolFromTotal (st_Config s) (st_TotalPoolTicks s + amount) = Inr pool"
    "let n = s\<lparr>st_Pool := pool, st_TotalPoolTicks := st_TotalPoolTicks s + amount\<rparr> in
     if st_PendingResult s = ResultDoubleSix
     then finishTurn (n\<lparr>st_LastSettlement := settlementFromState n ResultNone (st_TargetUserID s)
         (if timer then ''timeout_add'' else ''double_six_add'')\<rparr>) (st_SourceUserID s) [] now = Inr (t, es')
     else \<exists>d. deadlineUnixMillis now (cf_ActionTimeoutSeconds (st_Config s)) = Inr d \<and>
       t = n\<lparr>st_LastSettlement := settlementFromState n ResultNone [] ''seven_add'',
         st_Phase := PhaseAwaitingContinue, st_CurrentUserID := st_SourceUserID n, st_TargetUserID := [],
         st_ActionDeadlineUnixMillis := d\<rparr>"
proof -
  from assms obtain u u' where guards: "validateActor s actor PhaseAwaitingAdd now timer = Inr u"
    "validateAddAmount s amount = Inr u'" by (auto simp: addToPool_def outcome)
  then have v: "valid s" "st_Phase s = PhaseAwaitingAdd" "actor = st_CurrentUserID s" "validateAddAmount s amount = Inr ()"
    by (auto simp: d7_validateActor)
  from assms guards obtain pool where pool: "poolFromTotal (st_Config s) (st_TotalPoolTicks s + amount) = Inr pool"
    by (auto simp: addToPool_def Let_def setPoolTotal_def outcome)
  let ?n = "s\<lparr>st_Pool := pool, st_TotalPoolTicks := st_TotalPoolTicks s + amount\<rparr>"
  have set: "setPoolTotal s (st_TotalPoolTicks s + amount) = Inr ?n" by (simp add: setPoolTotal_def pool)
  show thesis
  proof (cases "st_PendingResult s = ResultDoubleSix")
    case True
    from assms obtain es' where "finishTurn (?n\<lparr>st_LastSettlement := settlementFromState ?n ResultNone (st_TargetUserID s)
         (if timer then ''timeout_add'' else ''double_six_add'')\<rparr>) (st_SourceUserID s) [] now = Inr (t, es')"
      by (auto simp only: addToPool_def Let_def and_then_Inr guards set True if_True simp_thms outcome split: prod.splits)
    with True show thesis by (intro that [OF v pool, of es']) (simp add: Let_def)
  next
    case False
    with assms guards set have "\<exists>d. deadlineUnixMillis now (cf_ActionTimeoutSeconds (st_Config s)) = Inr d \<and>
       t = ?n\<lparr>st_LastSettlement := settlementFromState ?n ResultNone [] ''seven_add'',
         st_Phase := PhaseAwaitingContinue, st_CurrentUserID := st_SourceUserID ?n, st_TargetUserID := [],
         st_ActionDeadlineUnixMillis := d\<rparr>"
      by (auto simp: addToPool_def Let_def outcome)
    with False show thesis by (intro that [OF v pool]) (simp add: Let_def)
  qed
qed

lemma d7_addToPool_inv:
  assumes "addToPool s actor amount now timer = Inr (t, es)" and "consistent s"
  shows "inv789 t"
proof -
  from assms(1) obtain pool es' where v: "valid s" "st_Phase s = PhaseAwaitingAdd"
    and amount: "validateAddAmount s amount = Inr ()"
    and pool: "poolFromTotal (st_Config s) (st_TotalPoolTicks s + amount) = Inr pool"
    and step: "let n = s\<lparr>st_Pool := pool, st_TotalPoolTicks := st_TotalPoolTicks s + amount\<rparr> in
     if st_PendingResult s = ResultDoubleSix
     then finishTurn (n\<lparr>st_LastSettlement := settlementFromState n ResultNone (st_TargetUserID s)
         (if timer then ''timeout_add'' else ''double_six_add'')\<rparr>) (st_SourceUserID s) [] now = Inr (t, es')
     else \<exists>d. deadlineUnixMillis now (cf_ActionTimeoutSeconds (st_Config s)) = Inr d \<and>
       t = n\<lparr>st_LastSettlement := settlementFromState n ResultNone [] ''seven_add'',
         st_Phase := PhaseAwaitingContinue, st_CurrentUserID := st_SourceUserID n, st_TargetUserID := [],
         st_ActionDeadlineUnixMillis := d\<rparr>"
    by (rule d7_addToPool_Inr)
  have live: "st_Phase s \<noteq> PhaseFinished"
    and ph: "st_Phase s \<in> {PhaseResultPending, PhaseAwaitingAdd, PhaseAwaitingTarget, PhaseAwaitingContinue}"
    using v(2) by auto
  note l = d7_valid_live [OF v(1) live] and p = d7_pending [OF v(1) ph] and w = d7_awaiting_add [OF v]
  note b = d7_pool_bounds(1) [OF l(1,2)] and a = d7_add_amount [OF amount d7_pool_bounds(1) [OF l(1,2)]]
  have before: "st_PendingPoolBeforeTicks s = st_TotalPoolTicks s" using assms(2) v(2) by (simp add: consistent_def)
  let ?n = "s\<lparr>st_Pool := pool, st_TotalPoolTicks := st_TotalPoolTicks s + amount\<rparr>"
  have n: "frozen_ok ?n" "pool_ok ?n" "diceValid ?n" "settled_source ?n = settled_source s"
    "settled_result ?n ResultNone = st_PendingResult s"
    using l(1) p(1) pool by (simp_all add: frozen_ok_def pool_ok_def diceValid_def settled_source_def settled_result_def)
  show ?thesis
  proof (cases "st_PendingResult s = ResultDoubleSix")
    case True
    then have f: "finishTurn (?n\<lparr>st_LastSettlement := settlementFromState ?n ResultNone (st_TargetUserID s)
        (if timer then ''timeout_add'' else ''double_six_add'')\<rparr>) (st_SourceUserID s) [] now = Inr (t, es')"
      using step by (simp add: Let_def)
    have "st_TargetUserID s \<in> users s" using w True d7.active_user_mem [OF l(8)] by auto
    with n True before show ?thesis
      by (intro d7_pending_settle [OF f])
        (use l p a b in \<open>simp_all add: validSettledResult_def validRollResult_def dice_ok_def flow_ok_def
          drinking_def adding_def\<close>)
  next
    case False
    with step obtain d where d: "deadlineUnixMillis now (cf_ActionTimeoutSeconds (st_Config s)) = Inr d"
      and t: "t = ?n\<lparr>st_LastSettlement := settlementFromState ?n ResultNone [] ''seven_add'',
         st_Phase := PhaseAwaitingContinue, st_CurrentUserID := st_SourceUserID ?n, st_TargetUserID := [],
         st_ActionDeadlineUnixMillis := d\<rparr>"
      by (auto simp: Let_def)
    from False w have "st_PendingResult s = ResultSeven" by simp
    with n before show ?thesis
      by (intro d7_continue_inv [OF _ _ _ _ _ _ _ _ _ _ _ _ _ t])
        (use l p a b d7_deadline_ok(2) [OF d] in \<open>simp_all add: flow_ok_def drinking_def adding_def\<close>)
  qed
qed

lemma d7_awaiting_target:
  assumes "valid s" and "st_Phase s = PhaseAwaitingTarget"
  shows "st_CurrentUserID s = st_SourceUserID s" and "st_PendingResult s \<in> {ResultDoubleOne, ResultDoubleSix}"
    and "st_TargetUserID s = []"
  using d7_valid_live(7) [OF assms(1)] assms(2) by (auto simp: validatePhase_def guard_eq_Inr)

lemma d7_chooseTarget_Inr:
  assumes "chooseTarget s actor target now timer = Inr (t, es)"
  obtains "valid s" "st_Phase s = PhaseAwaitingTarget" "actor = st_CurrentUserID s" "target \<noteq> actor"
    "d7.active_user (st_Players s) target"
    "if st_PendingResult s = ResultDoubleOne
     then \<exists>n m es'. addPenalty (s\<lparr>st_TargetUserID := target\<rparr>) target (st_TotalPoolTicks s) = Inr n \<and>
       setPoolTotal n 0 = Inr m \<and>
       finishTurn (m\<lparr>st_LastSettlement := settlementFromState m ResultNone target
         (if timer then ''timeout_target'' else ''double_one'')\<rparr>) actor target now = Inr (t, es')
     else \<exists>d. deadlineUnixMillis now (cf_ActionTimeoutSeconds (st_Config s)) = Inr d \<and>
       t = s\<lparr>st_TargetUserID := target, st_CurrentUserID := target, st_Phase := PhaseAwaitingAdd,
         st_ActionDeadlineUnixMillis := d\<rparr>"
proof -
  from assms have v: "validateActor s actor PhaseAwaitingTarget now timer = Inr ()"
    and t: "\<not> (target = [] \<or> target = actor \<or> \<not> activePlayer s target)"
    by (simp_all add: chooseTarget_def outcome del: de_Morgan_disj)
  have "if st_PendingResult s = ResultDoubleOne
     then \<exists>n m es'. addPenalty (s\<lparr>st_TargetUserID := target\<rparr>) target (st_TotalPoolTicks s) = Inr n \<and>
       setPoolTotal n 0 = Inr m \<and>
       finishTurn (m\<lparr>st_LastSettlement := settlementFromState m ResultNone target
         (if timer then ''timeout_target'' else ''double_one'')\<rparr>) actor target now = Inr (t, es')
     else \<exists>d. deadlineUnixMillis now (cf_ActionTimeoutSeconds (st_Config s)) = Inr d \<and>
       t = s\<lparr>st_TargetUserID := target, st_CurrentUserID := target, st_Phase := PhaseAwaitingAdd,
         st_ActionDeadlineUnixMillis := d\<rparr>"
  proof (cases "st_PendingResult s = ResultDoubleOne")
    case True
    from assms obtain n m es' where
      "addPenalty (s\<lparr>st_TargetUserID := target\<rparr>) target (st_TotalPoolTicks (s\<lparr>st_TargetUserID := target\<rparr>)) = Inr n"
      "setPoolTotal n 0 = Inr m"
      "finishTurn (m\<lparr>st_LastSettlement := settlementFromState m ResultNone target
         (if timer then ''timeout_target'' else ''double_one'')\<rparr>) actor target now = Inr (t, es')"
      by (auto simp only: chooseTarget_def v t True and_then_Inr if_True if_False Let_def outcome simp_thms
          sum.inject prod.inject split_paired_Ex prod.case)
    with True show ?thesis by auto
  next
    case False
    with assms show ?thesis
      by (simp only: chooseTarget_def v t and_then_Inr if_False Let_def) (auto simp: outcome)
  qed
  then show thesis using that v t by (auto simp: d7_validateActor d7_activePlayer)
qed

lemma d7_chooseTarget_inv:
  assumes "chooseTarget s actor target now timer = Inr (t, es)" and "consistent s"
  shows "inv789 t"
proof -
  from assms(1) have v: "valid s" "st_Phase s = PhaseAwaitingTarget" and actor: "actor = st_CurrentUserID s"
    and target: "target \<noteq> actor" "d7.active_user (st_Players s) target"
    and step: "if st_PendingResult s = ResultDoubleOne
     then \<exists>n m es'. addPenalty (s\<lparr>st_TargetUserID := target\<rparr>) target (st_TotalPoolTicks s) = Inr n \<and>
       setPoolTotal n 0 = Inr m \<and>
       finishTurn (m\<lparr>st_LastSettlement := settlementFromState m ResultNone target
         (if timer then ''timeout_target'' else ''double_one'')\<rparr>) actor target now = Inr (t, es')
     else \<exists>d. deadlineUnixMillis now (cf_ActionTimeoutSeconds (st_Config s)) = Inr d \<and>
       t = s\<lparr>st_TargetUserID := target, st_CurrentUserID := target, st_Phase := PhaseAwaitingAdd,
         st_ActionDeadlineUnixMillis := d\<rparr>"
    by (auto elim: d7_chooseTarget_Inr simp del: split_paired_Ex)
  have live: "st_Phase s \<noteq> PhaseFinished"
    and ph: "st_Phase s \<in> {PhaseResultPending, PhaseAwaitingAdd, PhaseAwaitingTarget, PhaseAwaitingContinue}"
    using v(2) by auto
  note l = d7_valid_live [OF v(1) live] and p = d7_pending [OF v(1) ph] and w = d7_awaiting_target [OF v]
  have before: "st_PendingPoolBeforeTicks s = st_TotalPoolTicks s" using assms(2) v(2) by (simp add: consistent_def)
  have tu: "target \<in> users s" using target(2) by (rule d7.active_user_mem)
  then have tn: "target \<noteq> []" by (rule d7_frozen_users(2) [OF l(1)])
  show ?thesis
  proof (cases "st_PendingResult s = ResultDoubleOne")
    case True
    let ?s = "s\<lparr>st_TargetUserID := target\<rparr>"
    from True step obtain n m es' where n: "addPenalty ?s target (st_TotalPoolTicks s) = Inr n" "setPoolTotal n 0 = Inr m"
      and f: "finishTurn (m\<lparr>st_LastSettlement := settlementFromState m ResultNone target
         (if timer then ''timeout_target'' else ''double_one'')\<rparr>) actor target now = Inr (t, es')" by auto
    from n obtain i pool where i: "i < length (st_Players ?s)" and pool: "poolFromTotal (st_Config ?s) 0 = Inr pool"
      and m: "m = charged ?s i (st_TotalPoolTicks s) pool 0" by (rule d7_charge)
    have ff: "frozen_ok ?s" using l(1) by (simp add: frozen_ok_def)
    have fm: "frozen_ok m" "pool_ok m" "settled_source m = st_SourceUserID s" "settled_result m ResultNone = ResultDoubleOne"
      using d7_charged_players(4) [OF i ff] d7_charged_pool [OF pool] d7_frozen_users(2) [OF l(1) p(4)] True
      by (simp_all add: m settled_source_def settled_result_def)
    have um: "users m = users s" "activeCount (st_Players m) = activeCount (st_Players s)"
      using d7_charged_players(1,2) [OF i] by (simp_all add: m)
    have dv: "diceValid m" using p(1) by (simp add: m charged_def diceValid_def)
    show ?thesis
      by (rule d7_pending_settle [OF f])
        (use fm um l p before tu tn dv d7_pool_bounds(1) [OF l(1,2)] in
          \<open>simp_all add: m validSettledResult_def validRollResult_def dice_ok_def flow_ok_def drinking_def\<close>)
  next
    case False
    with step obtain d where d: "deadlineUnixMillis now (cf_ActionTimeoutSeconds (st_Config s)) = Inr d"
      and t: "t = s\<lparr>st_TargetUserID := target, st_CurrentUserID := target, st_Phase := PhaseAwaitingAdd,
         st_ActionDeadlineUnixMillis := d\<rparr>" by auto
    from False w have res: "st_PendingResult s = ResultDoubleSix" by simp
    have "settlement_ok t" using l(4) v(2) by (auto simp: settlement_ok_def t Let_def)
    moreover have "validatePhase t = Inr ()"
      using res target p(1,2,5) d7_deadline_ok(2) [OF d] actor w(1)
      by (simp add: validatePhase_def t d7_activePlayer diceValid_def deadlineMatches_def)
    moreover have "frozen_ok t" "pool_ok t" using l(1,2) by (simp_all add: frozen_ok_def pool_ok_def t)
    ultimately have "valid t" using l target(2) by (simp add: valid_def live_ok_def t)
    then show ?thesis using before by (simp add: inv789_def consistent_def t)
  qed
qed

lemma d7_awaiting_continue:
  assumes "valid s" and "st_Phase s = PhaseAwaitingContinue"
  shows "st_CurrentUserID s = st_SourceUserID s" and "st_PendingResult s \<in> {ResultSeven, ResultEight, ResultNine}"
    and "st_PendingPoolBeforeTicks s \<le> mustCapacity (st_Config s)"
  using d7_valid_live(7) [OF assms(1)] assms(2) by (auto simp: validatePhase_def guard_eq_Inr not_less)

lemma d7_continueTurn_Inr:
  assumes "continueTurn s actor reroll now timer = Inr (t, es)"
  obtains reason where "valid s" "st_Phase s = PhaseAwaitingContinue" "actor = st_CurrentUserID s" "reason \<noteq> []"
    "finishTurn (s\<lparr>st_LastSettlement := settlementFromState s ResultNone [] reason\<rparr>) actor
       (if reroll then actor else []) now = Inr (t, es)"
proof -
  define reason where "reason = (if timer then (if reroll then ''timeout_reroll'' else ''timeout_pass'')
      else if reroll then ''reroll'' else ''pass'')"
  have "reason \<noteq> []" by (simp add: reason_def)
  moreover from assms have "validateActor s actor PhaseAwaitingContinue now timer = Inr ()"
    and "finishTurn (s\<lparr>st_LastSettlement := settlementFromState s ResultNone [] reason\<rparr>) actor
       (if reroll then actor else []) now = Inr (t, es)"
    by (simp_all only: continueTurn_def Let_def outcome reason_def [symmetric]) auto
  ultimately show thesis using that by (simp add: d7_validateActor)
qed

lemma d7_continueTurn_inv:
  assumes "continueTurn s actor reroll now timer = Inr (t, es)" and "consistent s"
  shows "inv789 t"
proof -
  from assms(1) obtain reason where v: "valid s" "st_Phase s = PhaseAwaitingContinue" and reason: "reason \<noteq> []"
    and f: "finishTurn (s\<lparr>st_LastSettlement := settlementFromState s ResultNone [] reason\<rparr>) actor
       (if reroll then actor else []) now = Inr (t, es)" by (rule d7_continueTurn_Inr)
  have live: "st_Phase s \<noteq> PhaseFinished"
    and ph: "st_Phase s \<in> {PhaseResultPending, PhaseAwaitingAdd, PhaseAwaitingTarget, PhaseAwaitingContinue}"
    using v(2) by auto
  note l = d7_valid_live [OF v(1) live] and p = d7_pending [OF v(1) ph] and w = d7_awaiting_continue [OF v]
  have "flow_ok (st_PendingResult s) (st_PendingPoolBeforeTicks s) (st_TotalPoolTicks s)"
    using assms(2) v(2) by (simp add: consistent_def)
  then show ?thesis
    by (intro d7_pending_settle [OF f])
      (use l p w reason in \<open>auto simp: settled_result_def validSettledResult_def validRollResult_def dice_ok_def\<close>)
qed

lemma d7_HandleTimeout_Inr:
  assumes "HandleTimeout s timer now = Inr (t, es)"
  shows "valid s" and "st_Phase s \<noteq> PhaseFinished" and "0 < now" and "CurrentTimer s = Some timer"
    and "st_ActionDeadlineUnixMillis s \<le> now"
proof -
  from assms have g: "\<exists>u. Validate s = Inr u" "st_Phase s \<noteq> PhaseFinished"
    "\<not> (tm_Turn timer \<noteq> st_Turn s \<or> tm_Phase timer \<noteq> st_Phase s \<or>
         tm_CurrentUserID timer \<noteq> st_CurrentUserID s \<or> tm_SourceUserID timer \<noteq> st_SourceUserID s \<or>
         tm_TargetUserID timer \<noteq> st_TargetUserID s \<or> tm_PendingResult timer \<noteq> st_PendingResult s \<or>
         tm_DeadlineUnixMillis timer = 0 \<or> tm_DeadlineUnixMillis timer \<noteq> st_ActionDeadlineUnixMillis s)"
    "\<not> (\<not> validUnixMillis now \<or> now < st_ActionDeadlineUnixMillis s)"
    unfolding HandleTimeout_def outcome by blast+
  then show v: "valid s" and live: "st_Phase s \<noteq> PhaseFinished" and "0 < now" and "st_ActionDeadlineUnixMillis s \<le> now"
    by (auto simp: d7_Validate validUnixMillis_def)
  have "st_Phase s \<noteq> PhaseTurnSettled" using d7_valid_live(7) [OF v live] by (auto simp: validatePhase_def)
  with g live show "CurrentTimer s = Some timer" by (cases timer) (auto simp: CurrentTimer_def)
qed

lemma d7_awaiting_roll:
  assumes "valid s" and "st_Phase s = PhaseAwaitingRoll"
  shows "st_SourceUserID s = []" "st_TargetUserID s = []" "st_DieOne s = 0" "st_DieTwo s = 0" "st_Sum s = 0"
    "st_PendingResult s = ResultNone"
  using d7_valid_live(7) [OF assms(1)] assms(2) by (auto simp: validatePhase_def guard_eq_Inr)

text \<open>A turn that ends before any dice fell: the clock ran out, or the player left.\<close>

lemma d7_no_roll_inv:
  assumes f: "finishTurn (n\<lparr>st_LastSettlement := settlementFromState n override [] reason\<rparr>) source [] now = Inr (t, es)"
    and n: "frozen_ok n" "pool_ok n" "st_Turn n \<noteq> 0" "st_FinishReason n = []" "MinimumPlayers \<le> activeCount (st_Players n)"
    and before: "st_SourceUserID n \<in> users n" "st_PendingPoolBeforeTicks n = st_TotalPoolTicks n"
    and dice: "st_DieOne n = 0" "st_DieTwo n = 0" "st_Sum n = 0"
    and result: "override \<in> {ResultRollTimeout, ResultCancelled}" and reason: "reason \<noteq> []"
  shows "inv789 t"
proof -
  have "settled_source n = st_SourceUserID n"
    using d7_frozen_users(2) [OF n(1) before(1)] by (simp add: settled_source_def)
  moreover have "settled_result n override = override" using result by (auto simp: settled_result_def)
  ultimately show ?thesis
    by (intro d7_pending_settle [OF f])
      (use n before dice result reason d7_pool_bounds(1) [OF n(1,2)] in
        \<open>auto simp: validSettledResult_def dice_ok_def flow_ok_def drinking_def adding_def\<close>)
qed

lemma d7_HandleTimeout_inv:
  assumes "HandleTimeout s timer now = Inr (t, es)" and c: "consistent s" and now: "now \<le> MaxInt64 - 120000"
  shows "inv789 t"
proof -
  note h = d7_HandleTimeout_Inr [OF assms(1)]
  note l = d7_valid_live [OF h(1,2)]
  have eq: "HandleTimeout s timer now = (case st_Phase s of
         PhaseAwaitingRoll \<Rightarrow>
           let next = s\<lparr>st_SourceUserID := st_CurrentUserID s, st_PendingResult := ResultRollTimeout,
                 st_PendingPoolBeforeTicks := st_TotalPoolTicks s,
                 st_PendingDirectionBefore := st_Direction s\<rparr> in
           finishTurn (next\<lparr>st_LastSettlement := settlementFromState next ResultRollTimeout [] ''roll_timeout''\<rparr>)
             (st_CurrentUserID s) [] now
       | PhaseResultPending \<Rightarrow> applyLanded s now ''result_timeout''
       | PhaseAwaitingAdd \<Rightarrow>
           and_then (minimumAddAmount s) (\<lambda>amount. addToPool s (st_CurrentUserID s) amount now True)
       | PhaseAwaitingTarget \<Rightarrow>
           and_then (nextActiveUser s (st_SourceUserID s)) (\<lambda>target. chooseTarget s (st_SourceUserID s) target now True)
       | PhaseAwaitingContinue \<Rightarrow>
           continueTurn s (st_SourceUserID s) (cf_ContinueMode (st_Config s) = ContinueForcedReroll) now True
       | _ \<Rightarrow> ruleError CodeWrongPhase ''phase has no timeout fallback'')"
    using assms(1) by (auto simp: HandleTimeout_def outcome d7_Validate split: if_splits)
  have cu: "st_CurrentUserID s \<in> users s" using l(8) by (rule d7.active_user_mem)
  from l(7) consider (roll) "st_Phase s = PhaseAwaitingRoll" | (pending) "st_Phase s = PhaseResultPending"
    | (add) "st_Phase s = PhaseAwaitingAdd" | (target) "st_Phase s = PhaseAwaitingTarget"
    | (continue) "st_Phase s = PhaseAwaitingContinue"
    by (cases "st_Phase s") (simp_all add: validatePhase_def)
  then show ?thesis
  proof cases
    case roll
    let ?n = "s\<lparr>st_SourceUserID := st_CurrentUserID s, st_PendingResult := ResultRollTimeout,
                 st_PendingPoolBeforeTicks := st_TotalPoolTicks s, st_PendingDirectionBefore := st_Direction s\<rparr>"
    from roll assms(1) eq have f: "finishTurn (?n\<lparr>st_LastSettlement := settlementFromState ?n ResultRollTimeout [] ''roll_timeout''\<rparr>)
        (st_CurrentUserID s) [] now = Inr (t, es)" by (simp add: Let_def)
    show ?thesis
      by (rule d7_no_roll_inv [OF f])
        (use l cu d7_awaiting_roll [OF h(1) roll] in \<open>simp_all add: frozen_ok_def pool_ok_def\<close>)
  next
    case pending
    with assms(1) eq have "applyLanded s now ''result_timeout'' = Inr (t, es)" by simp
    then show ?thesis by (rule d7_applyLanded_inv [OF _ h(1) pending h(3) now])
  next
    case add
    with assms(1) eq show ?thesis by (auto simp: outcome intro: d7_addToPool_inv [OF _ c])
  next
    case target
    with assms(1) eq show ?thesis by (auto simp: outcome intro: d7_chooseTarget_inv [OF _ c])
  next
    case continue
    with assms(1) eq show ?thesis by (auto intro: d7_continueTurn_inv [OF _ c])
  qed
qed

lemma d7_finishState_inv:
  assumes "valid s" and "st_Phase s \<noteq> PhaseFinished" and "validFinishReason reason"
    and n: "n = s\<lparr>st_Players := players\<rparr>" "map pl_UserID players = map pl_UserID (st_Players s)"
      "map pl_SeatIndex players = map pl_SeatIndex (st_Players s)"
  shows "inv789 (fst (finishState n reason))"
proof -
  note l = d7_valid_live [OF assms(1,2)]
  let ?t = "fst (finishState n reason)"
  have len: "length players = length (st_Players s)" using n(2) by (metis length_map)
  have us: "users ?t = users s" using n(1,2) by (simp add: finishState_def) (metis set_map)
  have "frozen_ok ?t"
    using l(1) us n(2,3) len by (simp add: frozen_ok_def finishState_def n(1))
  moreover have "settlement_ok ?t"
    using l(4) us assms(2) by (auto simp: settlement_ok_def finishState_def n(1) Let_def)
  moreover have "pool_ok ?t" using l(2) by (simp add: pool_ok_def finishState_def n(1))
  ultimately have "valid ?t"
    using l(3) assms(3) by (simp add: valid_def finished_ok_def finishState_def n(1))
  then show ?thesis by (simp add: inv789_def consistent_def finishState_def)
qed

lemma d7_Finish_Inr:
  assumes "Finish s reason = Inr (t, es)"
  shows "valid s" and "st_Phase s \<noteq> PhaseFinished"
    and "\<exists>r. validFinishReason r \<and> t = fst (finishState s r) \<and> es = [snd (finishState s r)]"
  using assms
  by (auto simp: Finish_def outcome d7_Validate Let_def split_beta validFinishReason_def split: if_splits)

lemma d7_Finish_inv: "Finish s reason = Inr (t, es) \<Longrightarrow> inv789 t"
  using d7_Finish_Inr [of s reason t es] d7_finishState_inv [of s _ s "st_Players s"] by fastforce

section \<open>Removing a player\<close>

definition revoked :: "State \<Rightarrow> nat \<Rightarrow> State" where
  "revoked s i = s\<lparr>st_Players := (st_Players s)[i := (st_Players s ! i)\<lparr>pl_Active := False\<rparr>]\<rparr>"

text \<open>The state whose turn is settled when its source is removed.\<close>

definition abandoned :: "State \<Rightarrow> nat \<Rightarrow> string \<Rightarrow> State" where
  "abandoned s i userID =
     (if st_Phase s = PhaseAwaitingRoll
      then (revoked s i)\<lparr>st_SourceUserID := userID, st_PendingPoolBeforeTicks := st_TotalPoolTicks s,
        st_PendingDirectionBefore := st_Direction s\<rparr>
      else revoked s i)"

lemma d7_revoked_fields [simp]:
  "st_Config (revoked s i) = st_Config s" "st_Turn (revoked s i) = st_Turn s" "st_Phase (revoked s i) = st_Phase s"
  "st_FinishReason (revoked s i) = st_FinishReason s" "st_SourceUserID (revoked s i) = st_SourceUserID s"
  "st_CurrentUserID (revoked s i) = st_CurrentUserID s" "st_TargetUserID (revoked s i) = st_TargetUserID s"
  "st_PendingResult (revoked s i) = st_PendingResult s"
  "st_PendingPoolBeforeTicks (revoked s i) = st_PendingPoolBeforeTicks s"
  "st_PendingDirectionBefore (revoked s i) = st_PendingDirectionBefore s"
  "st_TotalPoolTicks (revoked s i) = st_TotalPoolTicks s" "st_Direction (revoked s i) = st_Direction s"
  "st_DieOne (revoked s i) = st_DieOne s" "st_DieTwo (revoked s i) = st_DieTwo s" "st_Sum (revoked s i) = st_Sum s"
  "st_LastSettlement (revoked s i) = st_LastSettlement s"
  "st_ActionDeadlineUnixMillis (revoked s i) = st_ActionDeadlineUnixMillis s"
  by (simp_all add: revoked_def)

lemma d7_revoked_players:
  "map pl_UserID (st_Players (revoked s i)) = map pl_UserID (st_Players s)"
  "map pl_SeatIndex (st_Players (revoked s i)) = map pl_SeatIndex (st_Players s)"
  "users (revoked s i) = users s" "length (st_Players (revoked s i)) = length (st_Players s)"
  "frozen_ok s \<Longrightarrow> frozen_ok (revoked s i)" "pool_ok s \<Longrightarrow> pool_ok (revoked s i)"
  by (simp_all add: revoked_def map_update_eq image_update_eq frozen_ok_def pool_ok_def)

lemma d7_revoked_active:
  assumes "frozen_ok s" and "i < length (st_Players s)"
  shows "d7.active_user (st_Players (revoked s i)) v \<longleftrightarrow>
    d7.active_user (st_Players s) v \<and> v \<noteq> pl_UserID (st_Players s ! i)"
  unfolding revoked_def using d7.active_user_off [OF d7_frozen_users(1) [OF assms(1)] assms(2)] by simp

lemma d7_Revoke_Inr:
  assumes "RevokeParticipant s userID now = Inr (t, es)"
  obtains i where "valid s" "st_Phase s \<noteq> PhaseFinished" "0 < now" "i < length (st_Players s)"
    "userID = pl_UserID (st_Players s ! i)" "pl_Active (st_Players s ! i)"
    "if activeCount (st_Players (revoked s i)) < MinimumPlayers
     then t = fst (finishState (revoked s i) FinishInsufficientParticipants)
     else if st_Phase s = PhaseAwaitingAdd \<and> st_PendingResult s = ResultDoubleSix \<and> userID = st_TargetUserID s
     then \<exists>d. deadlineUnixMillis now (cf_ActionTimeoutSeconds (st_Config s)) = Inr d \<and>
       t = (revoked s i)\<lparr>st_TargetUserID := [], st_CurrentUserID := st_SourceUserID s,
         st_Phase := PhaseAwaitingTarget, st_ActionDeadlineUnixMillis := d\<rparr>
     else if userID = st_SourceUserID s \<or> st_Phase s = PhaseAwaitingRoll \<and> userID = st_CurrentUserID s
     then \<exists>override reason es'. (if st_Phase s = PhaseAwaitingContinue then override = ResultNone else override = ResultCancelled) \<and>
       reason \<noteq> [] \<and> finishTurn ((abandoned s i userID)\<lparr>st_LastSettlement :=
         settlementFromState (abandoned s i userID) override [] reason\<rparr>) userID [] now = Inr (t, es')
     else t = revoked s i"
proof -
  from assms have g: "\<exists>u. Validate s = Inr u" "st_Phase s \<noteq> PhaseFinished" "validUnixMillis now"
    by (auto simp only: RevokeParticipant_def outcome simp_thms)
  from assms g obtain i where i: "playerIndex (st_Players s) userID = Some i" and a: "pl_Active (st_Players s ! i)"
    by (auto simp: RevokeParticipant_def outcome split: option.splits)
  from d7.index_SomeD [OF i] have lt: "i < length (st_Players s)" and u: "userID = pl_UserID (st_Players s ! i)" by auto
  define next2 where "next2 = (if st_Phase s = PhaseAwaitingContinue
      then (revoked s i)\<lparr>st_LastSettlement := settlementFromState (revoked s i) ResultNone [] ''source_revoked_after_effect''\<rparr>
      else (abandoned s i userID)\<lparr>st_LastSettlement := settlementFromState (abandoned s i userID) ResultCancelled [] ''cancelled''\<rparr>)"
  have n2: "(if st_Phase s = PhaseAwaitingContinue
      then (revoked s i)\<lparr>st_LastSettlement := settlementFromState (revoked s i) ResultNone [] ''source_revoked_after_effect''\<rparr>
      else let next = (if st_Phase s = PhaseAwaitingRoll
             then (revoked s i)\<lparr>st_SourceUserID := userID, st_PendingPoolBeforeTicks := st_TotalPoolTicks (revoked s i),
               st_PendingDirectionBefore := st_Direction (revoked s i)\<rparr>
             else revoked s i) in
           next\<lparr>st_LastSettlement := settlementFromState next ResultCancelled [] ''cancelled''\<rparr>) = next2"
    by (simp add: next2_def abandoned_def Let_def)
  have act: "(\<not> pl_Active (st_Players s ! i)) = False" using a by simp
  have step: "if activeCount (st_Players (revoked s i)) < MinimumPlayers
     then t = fst (finishState (revoked s i) FinishInsufficientParticipants)
     else if st_Phase s = PhaseAwaitingAdd \<and> st_PendingResult s = ResultDoubleSix \<and> userID = st_TargetUserID s
     then \<exists>d. deadlineUnixMillis now (cf_ActionTimeoutSeconds (st_Config (revoked s i))) = Inr d \<and>
       t = (revoked s i)\<lparr>st_TargetUserID := [], st_CurrentUserID := st_SourceUserID (revoked s i),
         st_Phase := PhaseAwaitingTarget, st_ActionDeadlineUnixMillis := d\<rparr>
     else if userID = st_SourceUserID s \<or> st_Phase s = PhaseAwaitingRoll \<and> userID = st_CurrentUserID s
     then \<exists>es'. finishTurn next2 userID [] now = Inr (t, es')
     else t = revoked s i"
    using assms g
    unfolding RevokeParticipant_def i option.case act if_False Let_def revoked_def [symmetric] n2 [unfolded Let_def]
    by (auto simp: outcome split_beta split: if_splits)
  have "st_Phase s = PhaseAwaitingContinue \<Longrightarrow> abandoned s i userID = revoked s i" by (simp add: abandoned_def)
  with step have "if activeCount (st_Players (revoked s i)) < MinimumPlayers
     then t = fst (finishState (revoked s i) FinishInsufficientParticipants)
     else if st_Phase s = PhaseAwaitingAdd \<and> st_PendingResult s = ResultDoubleSix \<and> userID = st_TargetUserID s
     then \<exists>d. deadlineUnixMillis now (cf_ActionTimeoutSeconds (st_Config s)) = Inr d \<and>
       t = (revoked s i)\<lparr>st_TargetUserID := [], st_CurrentUserID := st_SourceUserID s,
         st_Phase := PhaseAwaitingTarget, st_ActionDeadlineUnixMillis := d\<rparr>
     else if userID = st_SourceUserID s \<or> st_Phase s = PhaseAwaitingRoll \<and> userID = st_CurrentUserID s
     then \<exists>override reason es'. (if st_Phase s = PhaseAwaitingContinue then override = ResultNone else override = ResultCancelled) \<and>
       reason \<noteq> [] \<and> finishTurn ((abandoned s i userID)\<lparr>st_LastSettlement :=
         settlementFromState (abandoned s i userID) override [] reason\<rparr>) userID [] now = Inr (t, es')
     else t = revoked s i"
    unfolding next2_def by (cases "st_Phase s = PhaseAwaitingContinue") (simp_all, force+)
  with that [of i] g lt u a show thesis by (auto simp: d7_Validate validUnixMillis_def)
qed

lemma d7_abandoned:
  assumes "valid s" "consistent s" "st_Phase s \<noteq> PhaseFinished" and i: "i < length (st_Players s)"
    and u: "userID \<in> users s"
    and leaves: "userID = st_SourceUserID s \<or> st_Phase s = PhaseAwaitingRoll \<and> userID = st_CurrentUserID s"
  shows "frozen_ok (abandoned s i userID)" "pool_ok (abandoned s i userID)" "users (abandoned s i userID) = users s"
    "st_SourceUserID (abandoned s i userID) = userID"
    "st_Phase s \<noteq> PhaseAwaitingContinue \<Longrightarrow>
       st_PendingPoolBeforeTicks (abandoned s i userID) = st_TotalPoolTicks (abandoned s i userID)"
    "dice_ok ResultCancelled (abandoned s i userID)"
proof -
  note l = d7_valid_live [OF assms(1,3)]
  have un: "userID \<noteq> []" by (rule d7_frozen_users(2) [OF l(1) u])
  show "frozen_ok (abandoned s i userID)"
    using d7_revoked_players(5) [OF l(1), of i] by (auto simp: abandoned_def frozen_ok_def)
  show "pool_ok (abandoned s i userID)"
    using d7_revoked_players(6) [OF l(2), of i] by (auto simp: abandoned_def pool_ok_def)
  show "users (abandoned s i userID) = users s" using d7_revoked_players(3) [of s i] by (auto simp: abandoned_def)
  show "st_SourceUserID (abandoned s i userID) = userID"
    using leaves un d7_awaiting_roll(1) [OF assms(1)] by (auto simp: abandoned_def)
  have phases: "st_Phase s \<in> {PhaseAwaitingRoll, PhaseResultPending, PhaseAwaitingAdd, PhaseAwaitingTarget, PhaseAwaitingContinue}"
    using l(7) by (cases "st_Phase s") (simp_all add: validatePhase_def)
  show "st_Phase s \<noteq> PhaseAwaitingContinue \<Longrightarrow>
       st_PendingPoolBeforeTicks (abandoned s i userID) = st_TotalPoolTicks (abandoned s i userID)"
    using assms(2) phases d7_result_pending(4) [OF assms(1)] by (auto simp: abandoned_def consistent_def)
  show "dice_ok ResultCancelled (abandoned s i userID)"
  proof (cases "st_Phase s = PhaseAwaitingRoll")
    case True
    with d7_awaiting_roll [OF assms(1) True] show ?thesis by (simp add: abandoned_def dice_ok_def)
  next
    case False
    with phases have "diceValid s" using d7_pending(1) [OF assms(1)] by auto
    with False show ?thesis by (simp add: abandoned_def dice_ok_def diceValid_def)
  qed
qed

lemma d7_abandoned_inv:
  assumes v: "valid s" "consistent s" "st_Phase s \<noteq> PhaseFinished" and i: "i < length (st_Players s)"
    and u: "userID \<in> users s"
    and leaves: "userID = st_SourceUserID s \<or> st_Phase s = PhaseAwaitingRoll \<and> userID = st_CurrentUserID s"
    and enough: "MinimumPlayers \<le> activeCount (st_Players (revoked s i))"
    and override: "if st_Phase s = PhaseAwaitingContinue then override = ResultNone else override = ResultCancelled"
    and reason: "reason \<noteq> []"
    and f: "finishTurn ((abandoned s i userID)\<lparr>st_LastSettlement :=
         settlementFromState (abandoned s i userID) override [] reason\<rparr>) userID [] now = Inr (t, es)"
  shows "inv789 t"
proof -
  note l = d7_valid_live [OF v(1,3)] and n = d7_abandoned [OF v i u leaves]
  let ?n = "abandoned s i userID"
  have basics: "st_Turn ?n \<noteq> 0" "st_FinishReason ?n = []" "MinimumPlayers \<le> activeCount (st_Players ?n)"
    using l enough by (auto simp: abandoned_def)
  have "userID \<noteq> []" by (rule d7_frozen_users(2) [OF l(1) u])
  then have src: "settled_source ?n = userID" using n(4) by (simp add: settled_source_def)
  show ?thesis
  proof (cases "st_Phase s = PhaseAwaitingContinue")
    case True
    then have "diceValid s" using d7_pending(1) [OF v(1)] by simp
    then have dv: "diceValid ?n" using True by (simp add: abandoned_def diceValid_def)
    note w = d7_awaiting_continue [OF v(1) True]
    have flow: "flow_ok (st_PendingResult ?n) (st_PendingPoolBeforeTicks ?n) (st_TotalPoolTicks ?n)"
      using v(2) True by (simp add: consistent_def abandoned_def)
    have cap: "st_PendingPoolBeforeTicks ?n \<le> mustCapacity (st_Config ?n)" using w(3) True by (simp add: abandoned_def)
    have res: "settled_result ?n override = st_PendingResult ?n" "st_PendingResult ?n \<in> {ResultSeven, ResultEight, ResultNine}"
      using override True w(2) by (simp_all add: settled_result_def abandoned_def)
    show ?thesis
      by (rule d7_pending_settle [OF f n(1,2) basics])
        (use src u n dv flow cap res reason in \<open>auto simp: validSettledResult_def validRollResult_def dice_ok_def\<close>)
  next
    case False
    with override have o: "override = ResultCancelled" by simp
    then have res: "settled_result ?n override = ResultCancelled" by (simp add: settled_result_def)
    show ?thesis
      by (rule d7_pending_settle [OF f n(1,2) basics])
        (use src u n False reason res d7_pool_bounds(1) [OF n(1,2)] in
          \<open>auto simp: validSettledResult_def flow_ok_def drinking_def adding_def\<close>)
  qed
qed

text \<open>The turn goes on when somebody else leaves.\<close>

lemma d7_bystander_inv:
  assumes v: "valid s" "consistent s" "st_Phase s \<noteq> PhaseFinished" and i: "i < length (st_Players s)"
    and stays: "st_SourceUserID s \<noteq> pl_UserID (st_Players s ! i)" "st_CurrentUserID s \<noteq> pl_UserID (st_Players s ! i)"
    and enough: "MinimumPlayers \<le> activeCount (st_Players (revoked s i))"
  shows "inv789 (revoked s i)"
proof -
  note l = d7_valid_live [OF v(1,3)]
  note a = d7_revoked_active [OF l(1) i]
  have "activePlayer (revoked s i) (st_SourceUserID s) = activePlayer s (st_SourceUserID s)"
    "activePlayer (revoked s i) (st_CurrentUserID s) = activePlayer s (st_CurrentUserID s)"
    "diceValid (revoked s i) = diceValid s" "deadlineMatches (revoked s i) = deadlineMatches s"
    using stays by (simp_all add: d7_activePlayer a diceValid_def deadlineMatches_def fun_eq_iff)
  then have "validatePhase (revoked s i) = validatePhase s"
    by (simp only: validatePhase_def d7_revoked_fields)
  moreover have "settlement_ok (revoked s i)"
    using l(4) by (simp add: settlement_ok_def d7_revoked_players(3))
  ultimately have "valid (revoked s i)"
    using l stays enough v(3) a d7_revoked_players(5,6) by (simp add: valid_def live_ok_def)
  then show ?thesis using v(2) by (simp add: inv789_def consistent_def)
qed

lemma d7_reopened_inv:
  assumes v: "valid s" "consistent s" "st_Phase s = PhaseAwaitingAdd" "st_PendingResult s = ResultDoubleSix"
    and i: "i < length (st_Players s)" "pl_UserID (st_Players s ! i) = st_TargetUserID s"
    and enough: "MinimumPlayers \<le> activeCount (st_Players (revoked s i))"
    and d: "deadlineUnixMillis now (cf_ActionTimeoutSeconds (st_Config s)) = Inr d"
    and t: "t = (revoked s i)\<lparr>st_TargetUserID := [], st_CurrentUserID := st_SourceUserID s,
         st_Phase := PhaseAwaitingTarget, st_ActionDeadlineUnixMillis := d\<rparr>"
  shows "inv789 t"
proof -
  have live: "st_Phase s \<noteq> PhaseFinished"
    and ph: "st_Phase s \<in> {PhaseResultPending, PhaseAwaitingAdd, PhaseAwaitingTarget, PhaseAwaitingContinue}"
    using v(3) by auto
  note l = d7_valid_live [OF v(1) live] and p = d7_pending [OF v(1) ph] and w = d7_awaiting_add [OF v(1,3)]
  note a = d7_revoked_active [OF l(1) i(1)]
  have src: "d7.active_user (st_Players (revoked s i)) (st_SourceUserID s)" using p(2) w v(4) i(2) by (auto simp: a)
  have "validatePhase t = Inr ()"
    using src p(1,5) v(4) d7_deadline_ok(2) [OF d]
    by (simp add: validatePhase_def t d7_activePlayer diceValid_def deadlineMatches_def)
  moreover have "settlement_ok t"
    using l(4) v(3) by (auto simp: settlement_ok_def d7_revoked_players(3) t Let_def)
  moreover have "frozen_ok t" "pool_ok t"
    using d7_revoked_players(5) [OF l(1), of i] d7_revoked_players(6) [OF l(2), of i] by (simp_all add: frozen_ok_def pool_ok_def t)
  ultimately have "valid t" using l src enough by (simp add: valid_def live_ok_def t)
  then show ?thesis using v(2,3) by (simp add: inv789_def consistent_def t)
qed

lemma d7_Revoke_inv:
  assumes "RevokeParticipant s userID now = Inr (t, es)" and c: "consistent s"
  shows "inv789 t"
proof -
  from assms(1) obtain i where v: "valid s" "st_Phase s \<noteq> PhaseFinished"
    and i: "i < length (st_Players s)" "userID = pl_UserID (st_Players s ! i)" "pl_Active (st_Players s ! i)"
    and step: "if activeCount (st_Players (revoked s i)) < MinimumPlayers
     then t = fst (finishState (revoked s i) FinishInsufficientParticipants)
     else if st_Phase s = PhaseAwaitingAdd \<and> st_PendingResult s = ResultDoubleSix \<and> userID = st_TargetUserID s
     then \<exists>d. deadlineUnixMillis now (cf_ActionTimeoutSeconds (st_Config s)) = Inr d \<and>
       t = (revoked s i)\<lparr>st_TargetUserID := [], st_CurrentUserID := st_SourceUserID s,
         st_Phase := PhaseAwaitingTarget, st_ActionDeadlineUnixMillis := d\<rparr>
     else if userID = st_SourceUserID s \<or> st_Phase s = PhaseAwaitingRoll \<and> userID = st_CurrentUserID s
     then \<exists>override reason es'. (if st_Phase s = PhaseAwaitingContinue then override = ResultNone else override = ResultCancelled) \<and>
       reason \<noteq> [] \<and> finishTurn ((abandoned s i userID)\<lparr>st_LastSettlement :=
         settlementFromState (abandoned s i userID) override [] reason\<rparr>) userID [] now = Inr (t, es')
     else t = revoked s i" by (rule d7_Revoke_Inr)
  have u: "userID \<in> users s" using i by auto
  consider (few) "activeCount (st_Players (revoked s i)) < MinimumPlayers"
    | (reopen) "MinimumPlayers \<le> activeCount (st_Players (revoked s i))" "st_Phase s = PhaseAwaitingAdd"
        "st_PendingResult s = ResultDoubleSix" "userID = st_TargetUserID s"
    | (leaves) "MinimumPlayers \<le> activeCount (st_Players (revoked s i))"
        "\<not> (st_Phase s = PhaseAwaitingAdd \<and> st_PendingResult s = ResultDoubleSix \<and> userID = st_TargetUserID s)"
        "userID = st_SourceUserID s \<or> st_Phase s = PhaseAwaitingRoll \<and> userID = st_CurrentUserID s"
    | (other) "MinimumPlayers \<le> activeCount (st_Players (revoked s i))"
        "\<not> (st_Phase s = PhaseAwaitingAdd \<and> st_PendingResult s = ResultDoubleSix \<and> userID = st_TargetUserID s)"
        "\<not> (userID = st_SourceUserID s \<or> st_Phase s = PhaseAwaitingRoll \<and> userID = st_CurrentUserID s)"
    by linarith
  then show ?thesis
  proof cases
    case few
    with step have "t = fst (finishState (revoked s i) FinishInsufficientParticipants)" by simp
    then show ?thesis
      using d7_finishState_inv [OF v, of FinishInsufficientParticipants "revoked s i"
          "st_Players (revoked s i)"] d7_revoked_players(1,2) [of s i]
      by (simp add: validFinishReason_def) (simp add: revoked_def)
  next
    case reopen
    with step obtain d where "deadlineUnixMillis now (cf_ActionTimeoutSeconds (st_Config s)) = Inr d"
      "t = (revoked s i)\<lparr>st_TargetUserID := [], st_CurrentUserID := st_SourceUserID s,
         st_Phase := PhaseAwaitingTarget, st_ActionDeadlineUnixMillis := d\<rparr>" by auto
    with reopen i show ?thesis by (intro d7_reopened_inv [OF v(1) c]) auto
  next
    case leaves
    have nf: "\<not> activeCount (st_Players (revoked s i)) < MinimumPlayers" using leaves(1) by simp
    from step [unfolded if_not_P [OF nf] if_not_P [OF leaves(2)] if_P [OF leaves(3)]]
    obtain override reason es' where
      "if st_Phase s = PhaseAwaitingContinue then override = ResultNone else override = ResultCancelled"
      "reason \<noteq> []" "finishTurn ((abandoned s i userID)\<lparr>st_LastSettlement :=
         settlementFromState (abandoned s i userID) override [] reason\<rparr>) userID [] now = Inr (t, es')"
      by blast
    with leaves show ?thesis by (intro d7_abandoned_inv [OF v(1) c v(2) i(1) u])
  next
    case other
    with step have t: "t = revoked s i" by auto
    note l = d7_valid_live [OF v]
    have "st_CurrentUserID s \<noteq> userID"
    proof
      assume cu: "st_CurrentUserID s = userID"
      have "st_Phase s \<in> {PhaseResultPending, PhaseAwaitingAdd, PhaseAwaitingTarget, PhaseAwaitingContinue}"
        using l(7) other(3) cu by (cases "st_Phase s") (simp_all add: validatePhase_def)
      then show False
        using cu other d7_result_pending(1) [OF v(1)] d7_awaiting_add [OF v(1)] d7_awaiting_target(1) [OF v(1)]
          d7_awaiting_continue(1) [OF v(1)] by auto
    qed
    with other i show ?thesis unfolding t by (intro d7_bystander_inv [OF v(1) c v(2)]) auto
  qed
qed

end
