(* ===== verification/Dice789Session.thy ===== *)
theory Dice789Session
  imports Dice789Inv
begin

text \<open>
  Sessions of dice 789: a new session satisfies the invariant, every command keeps it, and every command
  keeps the frozen configuration, the roster and the total number of ticks, to which only an add adds.
\<close>

section \<open>Sessions\<close>

lemma d7_NewState_Inr:
  assumes "NewState sha256 config ps host seat now seed = Inr (t, es)"
  obtains canonical first pool e where
    "ValidateParticipants ps = Inr ()" "canonical = sort_key pt_SeatIndex ps"
    "Config_Validate config (length canonical) = Inr ()" "0 < now" "host \<in> pt_UserID ` set canonical"
    "poolFromTotal config (cf_InitialPoolTicks config) = Inr pool"
    "startTurn \<lparr>st_SchemaVersion = CurrentSchemaVersion, st_Phase = PhaseAwaitingRoll,
       st_Turn = 1, st_HostUserID = host, st_Players = map (\<lambda>p. \<lparr>pl_UserID = pt_UserID p, pl_SeatIndex = pt_SeatIndex p,
         pl_Active = True, pl_PenaltyTicks = 0\<rparr>) canonical, st_CurrentUserID = [],
       st_SourceUserID = [], st_TargetUserID = [], st_Direction = DirectionClockwise, st_Pool = pool,
       st_TotalPoolTicks = cf_InitialPoolTicks config, st_DieOne = 0, st_DieTwo = 0, st_Sum = 0,
       st_ActionDeadlineUnixMillis = 0, st_Config = config, st_PendingResult = ResultUnset,
       st_PendingPoolBeforeTicks = 0, st_PendingDirectionBefore = DirectionUnset,
       st_LastSettlement = empty_settlement\<lparr>ts_Result := ResultNone\<rparr>, st_FinishReason = []\<rparr> first now = Inr (t, e)"
proof -
  from assms obtain canonical where v: "ValidateParticipants ps = Inr ()" and c: "canonical = sort_key pt_SeatIndex ps"
    and config: "Config_Validate config (length canonical) = Inr ()"
    by (auto simp only: NewState_def outcome canonicalParticipants_def sum.inject old.unit.exhaust) auto
  have can: "canonicalParticipants ps = Inr canonical" by (simp add: canonicalParticipants_def v c)
  define first where "first = fold (\<lambda>p first. if pt_SeatIndex p = seat then pt_UserID p else first) canonical []"
  from assms have now: "0 < now" and host: "list_ex (\<lambda>p. pt_UserID p = host) canonical"
    unfolding NewState_def can config and_then_Inr outcome Let_def validUnixMillis_def by auto
  from assms obtain pool where pool: "poolFromTotal config (cf_InitialPoolTicks config) = Inr pool"
    unfolding NewState_def can config and_then_Inr outcome Let_def by blast
  from assms have "\<exists>e. startTurn \<lparr>st_SchemaVersion = CurrentSchemaVersion, st_Phase = PhaseAwaitingRoll,
       st_Turn = 1, st_HostUserID = host, st_Players = map (\<lambda>p. \<lparr>pl_UserID = pt_UserID p, pl_SeatIndex = pt_SeatIndex p,
         pl_Active = True, pl_PenaltyTicks = 0\<rparr>) canonical, st_CurrentUserID = [],
       st_SourceUserID = [], st_TargetUserID = [], st_Direction = DirectionClockwise, st_Pool = pool,
       st_TotalPoolTicks = cf_InitialPoolTicks config, st_DieOne = 0, st_DieTwo = 0, st_Sum = 0,
       st_ActionDeadlineUnixMillis = 0, st_Config = config, st_PendingResult = ResultUnset,
       st_PendingPoolBeforeTicks = 0, st_PendingDirectionBefore = DirectionUnset,
       st_LastSettlement = empty_settlement\<lparr>ts_Result := ResultNone\<rparr>, st_FinishReason = []\<rparr> first now = Inr (t, e)"
    unfolding NewState_def can config and_then_Inr Let_def pool first_def [symmetric]
    by (auto simp: outcome split: sum.split_asm) (metis sum.exhaust)
  with that [OF v c config now _ pool] host show thesis by (auto simp: list_ex_iff)
qed

lemma d7_NewState_inv:
  assumes "NewState sha256 config ps host seat now seed = Inr (t, es)"
  shows "inv789 t" and "st_Config t = config"
    and "map (\<lambda>p. (pl_UserID p, pl_SeatIndex p)) (st_Players t) =
      map (\<lambda>p. (pt_UserID p, pt_SeatIndex p)) (sort_key pt_SeatIndex ps)"
proof -
  from assms obtain canonical first pool e where v: "ValidateParticipants ps = Inr ()"
    and c: "canonical = sort_key pt_SeatIndex ps" and config: "Config_Validate config (length canonical) = Inr ()"
    and host: "host \<in> pt_UserID ` set canonical" and pool: "poolFromTotal config (cf_InitialPoolTicks config) = Inr pool"
    and start: "startTurn \<lparr>st_SchemaVersion = CurrentSchemaVersion, st_Phase = PhaseAwaitingRoll,
       st_Turn = 1, st_HostUserID = host, st_Players = map (\<lambda>p. \<lparr>pl_UserID = pt_UserID p, pl_SeatIndex = pt_SeatIndex p,
         pl_Active = True, pl_PenaltyTicks = 0\<rparr>) canonical, st_CurrentUserID = [],
       st_SourceUserID = [], st_TargetUserID = [], st_Direction = DirectionClockwise, st_Pool = pool,
       st_TotalPoolTicks = cf_InitialPoolTicks config, st_DieOne = 0, st_DieTwo = 0, st_Sum = 0,
       st_ActionDeadlineUnixMillis = 0, st_Config = config, st_PendingResult = ResultUnset,
       st_PendingPoolBeforeTicks = 0, st_PendingDirectionBefore = DirectionUnset,
       st_LastSettlement = empty_settlement\<lparr>ts_Result := ResultNone\<rparr>, st_FinishReason = []\<rparr> first now = Inr (t, e)"
    by (rule d7_NewState_Inr)
  define players where "players = map (\<lambda>p. \<lparr>pl_UserID = pt_UserID p, pl_SeatIndex = pt_SeatIndex p,
         pl_Active = True, pl_PenaltyTicks = 0\<rparr>) canonical"
  from start obtain d where d: "deadlineUnixMillis now (cf_ActionTimeoutSeconds config) = Inr d"
    and act: "d7.active_user players first"
    and t: "t = \<lparr>st_SchemaVersion = CurrentSchemaVersion, st_Phase = PhaseAwaitingRoll,
       st_Turn = 1, st_HostUserID = host, st_Players = players, st_CurrentUserID = first,
       st_SourceUserID = [], st_TargetUserID = [], st_Direction = DirectionClockwise, st_Pool = pool,
       st_TotalPoolTicks = cf_InitialPoolTicks config, st_DieOne = 0, st_DieTwo = 0, st_Sum = 0,
       st_ActionDeadlineUnixMillis = d, st_Config = config, st_PendingResult = ResultNone,
       st_PendingPoolBeforeTicks = 0, st_PendingDirectionBefore = DirectionUnset,
       st_LastSettlement = empty_settlement\<lparr>ts_Result := ResultNone\<rparr>, st_FinishReason = []\<rparr>"
    by (auto simp: startTurn_def outcome d7_activePlayer players_def)
  have dist: "distinct (map pt_UserID canonical)" using v by (simp add: c d7_ValidateParticipants distinct_map)
  have "sorted_wrt (<) (map pt_SeatIndex canonical)"
    unfolding c by (rule sort_key_strict) (use v in \<open>simp add: d7_ValidateParticipants\<close>)
  then have "frozen_ok t"
    using v config dist host
    by (auto simp: frozen_ok_def t players_def c d7_ValidateParticipants comp_def Direction_Valid_def image_image)
  moreover have "pool_ok t" using pool by (simp add: pool_ok_def t)
  moreover have "settlement_ok t" by (simp add: settlement_ok_def t)
  moreover have "validatePhase t = Inr ()"
    using d7_deadline_ok(2) [OF d] by (simp add: validatePhase_def t deadlineMatches_def)
  moreover have "MinimumPlayers \<le> activeCount players"
    using v by (simp add: d7.count_filter players_def c d7_ValidateParticipants)
  ultimately have "valid t" using act by (simp add: valid_def live_ok_def t)
  then show "inv789 t" by (simp add: inv789_def consistent_def t)
  show "st_Config t = config" by (simp add: t)
  show "map (\<lambda>p. (pl_UserID p, pl_SeatIndex p)) (st_Players t) =
      map (\<lambda>p. (pt_UserID p, pt_SeatIndex p)) (sort_key pt_SeatIndex ps)"
    by (simp add: t players_def c)
qed

text \<open>The requests that the runtime delivers to a running session.\<close>

datatype command =
    CmdRoll string i64 "u8 list"
  | CmdConfirm string i64
  | CmdDropped string string string i64
  | CmdAdd string Ticks i64
  | CmdTarget string string i64
  | CmdReroll string i64
  | CmdPass string i64
  | CmdTimeout ActionTimer i64
  | CmdRevoke string i64
  | CmdFinish string

fun engine_step :: "digest \<Rightarrow> State \<Rightarrow> command \<Rightarrow> (State \<times> Event list) result" where
  "engine_step sha256 s (CmdRoll actor now seed) = Dice789.Roll sha256 s actor now seed"
| "engine_step sha256 s (CmdConfirm actor now) = ConfirmLanded s actor now"
| "engine_step sha256 s (CmdDropped actor auditRef reason now) = ReportDropped s actor auditRef reason now"
| "engine_step sha256 s (CmdAdd actor amount now) = AddToPool s actor amount now"
| "engine_step sha256 s (CmdTarget actor target now) = ChooseTarget s actor target now"
| "engine_step sha256 s (CmdReroll actor now) = Reroll s actor now"
| "engine_step sha256 s (CmdPass actor now) = Pass s actor now"
| "engine_step sha256 s (CmdTimeout timer now) = HandleTimeout s timer now"
| "engine_step sha256 s (CmdRevoke userID now) = RevokeParticipant s userID now"
| "engine_step sha256 s (CmdFinish reason) = Finish s reason"

text \<open>
  The clock of a command. Two deadline errors are discarded by the source, so a clock within two minutes
  of the largest representable time is excluded.
\<close>

fun clock_ok :: "command \<Rightarrow> bool" where
  "clock_ok (CmdConfirm actor now) = (now \<le> MaxInt64 - 120000)"
| "clock_ok (CmdTimeout timer now) = (now \<le> MaxInt64 - 120000)"
| "clock_ok _ = True"

lemma d7_ConfirmLanded:
  "ConfirmLanded s actor now = Inr r \<longleftrightarrow>
     validateHost s actor now = Inr () \<and> applyLanded s now ''confirmed'' = Inr r"
  by (auto simp: ConfirmLanded_def outcome)

lemma d7_step_inv:
  assumes "inv789 s" and "clock_ok c" and "engine_step sha256 s c = Inr (t, es)"
  shows "inv789 t"
proof -
  have c: "consistent s" using assms(1) by (simp add: inv789_def)
  show ?thesis
  proof (cases c)
    case (CmdConfirm actor now)
    with assms show ?thesis by (auto simp: d7_ConfirmLanded d7_validateHost intro: d7_applyLanded_inv)
  next
    case (CmdTimeout timer now)
    with assms c show ?thesis by (auto intro: d7_HandleTimeout_inv)
  qed (use assms c in \<open>auto intro: d7_Roll_inv d7_ReportDropped_inv d7_addToPool_inv d7_chooseTarget_inv
      d7_continueTurn_inv d7_Revoke_inv d7_Finish_inv simp: AddToPool_def ChooseTarget_def Reroll_def Pass_def\<close>)
qed

section \<open>What a step keeps\<close>

definition roster :: "State \<Rightarrow> (string \<times> u32) list" where
  "roster s = map (\<lambda>p. (pl_UserID p, pl_SeatIndex p)) (st_Players s)"

definition penalties :: "State \<Rightarrow> nat" where
  "penalties s = sum_list (map (unat \<circ> pl_PenaltyTicks) (st_Players s))"

text \<open>All ticks of a session: those in the pool and those already drunk.\<close>

definition session_ticks :: "State \<Rightarrow> nat" where
  "session_ticks s = unat (st_TotalPoolTicks s) + penalties s"

definition follows :: "State \<Rightarrow> State \<Rightarrow> bool" where
  "follows s t \<longleftrightarrow> st_Config t = st_Config s \<and> roster t = roster s \<and> unat (st_Turn s) \<le> unat (st_Turn t)"

lemma d7_finishTurn_keeps:
  assumes "finishTurn n source nextActor now = Inr (t, es)"
  shows "follows n t" and "session_ticks t = session_ticks n" and "st_TotalPoolTicks t = st_TotalPoolTicks n"
    and "st_Players t = st_Players n" and "st_Turn t = st_Turn n + 1" and "st_Turn n \<noteq> MaxUint32"
    and "st_Phase t = PhaseAwaitingRoll"
  using assms
  by (auto elim!: d7_finishTurn_Inr simp: follows_def roster_def session_ticks_def penalties_def unat_plus_1_u32)

lemma d7_penalty_update:
  "i < length ps \<Longrightarrow> unat (pl_PenaltyTicks (ps ! i)) + unat a < 2 ^ 32 \<Longrightarrow>
     sum_list (map (unat \<circ> pl_PenaltyTicks) (ps[i := (ps ! i)\<lparr>pl_PenaltyTicks := pl_PenaltyTicks (ps ! i) + a\<rparr>])) =
       sum_list (map (unat \<circ> pl_PenaltyTicks) ps) + unat a"
proof (induction ps arbitrary: i)
  case (Cons p ps)
  then show ?case by (cases i) (auto simp: unat_word_ariths)
qed simp

lemma d7_charged_ticks:
  assumes "i < length (st_Players s)" and "unat (pl_PenaltyTicks (st_Players s ! i)) + unat a < 2 ^ 32"
    and "unat r + unat a = unat (st_TotalPoolTicks s)"
  shows "session_ticks (charged s i a pool r) = session_ticks s"
  using d7_penalty_update [OF assms(1,2)] assms(3) by (simp add: session_ticks_def penalties_def charged_def)

lemma d7_charged_follows:
  "i < length (st_Players s) \<Longrightarrow> follows s (charged s i a pool r)"
  by (simp add: follows_def roster_def charged_def map_update_eq)

lemma d7_follows_trans: "follows s n \<Longrightarrow> follows n t \<Longrightarrow> follows s t"
  by (simp add: follows_def)

text \<open>Charging and then ending the turn keeps the ticks.\<close>

lemma d7_charge_keeps:
  assumes "addPenalty s u a = Inr n" and "setPoolTotal n r = Inr m" and "unat r + unat a = unat (st_TotalPoolTicks s)"
  shows "follows s m" and "session_ticks m = session_ticks s"
proof -
  from assms(1,2) obtain i pool where "i < length (st_Players s)"
    "unat (pl_PenaltyTicks (st_Players s ! i)) + unat a < 2 ^ 32" "m = charged s i a pool r"
    by (rule d7_charge)
  then show "follows s m" and "session_ticks m = session_ticks s"
    using assms(3) by (simp_all add: d7_charged_follows d7_charged_ticks)
qed

lemma d7_settle_keeps:
  assumes "finishTurn (m\<lparr>st_LastSettlement := e\<rparr>) source nextActor now = Inr (t, es)"
    and "follows s m" and "session_ticks m = session_ticks s"
  shows "follows s t \<and> session_ticks t = session_ticks s"
  using d7_finishTurn_keeps(1,2) [OF assms(1)] assms(2,3)
  by (auto simp: follows_def session_ticks_def penalties_def roster_def)

lemma d7_drink_sum:
  "unat (st_TotalPoolTicks s - min amount (st_TotalPoolTicks s)) + unat (min amount (st_TotalPoolTicks s)) =
     unat (st_TotalPoolTicks s :: Ticks)"
  by (simp add: min_def unat_sub word_le_nat_alt)

lemma d7_applyDrink_keeps:
  assumes "applyDrink s target amount reason events = Inr (m, es)"
  shows "follows s m" and "session_ticks m = session_ticks s"
  using assms d7_drink_sum [of s amount]
  by (auto elim!: d7_applyDrink dest: d7_charge_keeps)

lemma d7_drinkContinue_keeps:
  assumes "applyDrinkAndContinue s target amount reason events now = Inr (t, es)"
  shows "follows s t \<and> session_ticks t = session_ticks s"
proof -
  from assms obtain m es1 e d where m: "applyDrink s target amount reason events = Inr (m, es1)"
    and t: "t = m\<lparr>st_LastSettlement := e, st_Phase := PhaseAwaitingContinue, st_CurrentUserID := st_SourceUserID m,
      st_TargetUserID := [], st_ActionDeadlineUnixMillis := d\<rparr>"
    by (auto simp: applyDrinkAndContinue_def outcome Let_def)
  show ?thesis
    using d7_applyDrink_keeps [OF m]
    by (simp add: t follows_def roster_def session_ticks_def penalties_def)
qed

lemma d7_applyLanded_keeps:
  assumes "applyLanded s now cause = Inr (t, es)"
  shows "follows s t \<and> session_ticks t = session_ticks s"
proof -
  have ph: "\<not> (st_Phase s \<noteq> PhaseResultPending \<or> \<not> validRollResult (st_PendingResult s))"
    using assms unfolding applyLanded_def guard_eq_Inr by blast
  have self: "follows s (s\<lparr>st_Direction := d\<rparr>)" "session_ticks (s\<lparr>st_Direction := d\<rparr>) = session_ticks s" for d
    by (simp_all add: follows_def roster_def session_ticks_def penalties_def)
  from ph consider (seven) "st_PendingResult s = ResultSeven" | (eight) "st_PendingResult s = ResultEight"
    | (nine) "st_PendingResult s = ResultNine" | (target) "st_PendingResult s \<in> {ResultDoubleOne, ResultDoubleSix}"
    | (four) "st_PendingResult s = ResultDoubleFour" | (pair) "st_PendingResult s = ResultOrdinaryPair"
    | (other) "st_PendingResult s = ResultOther"
    by (auto simp: validRollResult_def)
  then show ?thesis
  proof cases
    case seven
    with assms ph show ?thesis
      by (auto simp: applyLanded_def Let_def follows_def roster_def session_ticks_def penalties_def)
  next
    case eight
    with assms ph show ?thesis by (auto simp: applyLanded_def Let_def dest: d7_drinkContinue_keeps)
  next
    case nine
    with assms ph show ?thesis by (auto simp: applyLanded_def Let_def dest: d7_drinkContinue_keeps)
  next
    case target
    with assms ph show ?thesis
      by (auto simp: applyLanded_def Let_def follows_def roster_def session_ticks_def penalties_def)
  next
    case four
    with assms ph obtain m es1 events es' where m:
      "applyDrink s (st_SourceUserID s) (HalfCeil (st_TotalPoolTicks s)) ''double_four'' events = Inr (m, es1)"
      and f: "finishTurn (m\<lparr>st_LastSettlement := settlementFromState m ResultNone [] ''double_four''\<rparr>)
        (st_SourceUserID s) (st_SourceUserID s) now = Inr (t, es')"
      by (auto simp: applyLanded_def Let_def outcome elim!: d7_settle_landed)
    show ?thesis by (rule d7_settle_keeps [OF f d7_applyDrink_keeps [OF m]])
  next
    case pair
    have n: "(if 3 \<le> activeCount (st_Players s) then s\<lparr>st_Direction := reverseDirection (st_Direction s)\<rparr> else s) =
        s\<lparr>st_Direction := (if 3 \<le> activeCount (st_Players s) then reverseDirection (st_Direction s) else st_Direction s)\<rparr>"
      by simp
    from assms pair ph obtain d e nextActor es' where
      "finishTurn ((s\<lparr>st_Direction := d\<rparr>)\<lparr>st_LastSettlement := e\<rparr>) (st_SourceUserID s) nextActor now = Inr (t, es')"
      by (auto simp only: applyLanded_def Let_def n ResultKind.simps guard_eq_Inr elim!: d7_settle_landed)
    from d7_settle_keeps [OF this self] show ?thesis .
  next
    case other
    with assms ph obtain e es' where "finishTurn (s\<lparr>st_LastSettlement := e\<rparr>) (st_SourceUserID s) [] now = Inr (t, es')"
      by (auto simp: applyLanded_def Let_def elim!: d7_settle_landed)
    then show ?thesis by (rule d7_settle_keeps) (simp_all add: follows_def)
  qed
qed

definition step_keeps :: "State \<Rightarrow> State \<Rightarrow> bool" where
  "step_keeps s t \<longleftrightarrow> follows s t \<and>
     (session_ticks t = session_ticks s \<or>
      st_Phase s = PhaseAwaitingAdd \<and> penalties t = penalties s \<and> st_TotalPoolTicks s \<le> st_TotalPoolTicks t)"

lemma d7_addToPool_keeps:
  assumes "addToPool s actor amount now timer = Inr (t, es)"
  shows "step_keeps s t"
proof -
  from assms obtain pool es' where v: "valid s" "st_Phase s = PhaseAwaitingAdd"
    and amount: "validateAddAmount s amount = Inr ()"
    and step: "let n = s\<lparr>st_Pool := pool, st_TotalPoolTicks := st_TotalPoolTicks s + amount\<rparr> in
     if st_PendingResult s = ResultDoubleSix
     then finishTurn (n\<lparr>st_LastSettlement := settlementFromState n ResultNone (st_TargetUserID s)
         (if timer then ''timeout_add'' else ''double_six_add'')\<rparr>) (st_SourceUserID s) [] now = Inr (t, es')
     else \<exists>d. deadlineUnixMillis now (cf_ActionTimeoutSeconds (st_Config s)) = Inr d \<and>
       t = n\<lparr>st_LastSettlement := settlementFromState n ResultNone [] ''seven_add'',
         st_Phase := PhaseAwaitingContinue, st_CurrentUserID := st_SourceUserID n, st_TargetUserID := [],
         st_ActionDeadlineUnixMillis := d\<rparr>"
    by (rule d7_addToPool_Inr)
  have live: "st_Phase s \<noteq> PhaseFinished" using v(2) by simp
  note l = d7_valid_live [OF v(1) live]
  have le: "st_TotalPoolTicks s \<le> st_TotalPoolTicks s + amount"
    by (rule d7_add_amount(2) [OF amount d7_pool_bounds(1) [OF l(1,2)]])
  show ?thesis
  proof (cases "st_PendingResult s = ResultDoubleSix")
    case True
    with step have f: "finishTurn ((s\<lparr>st_Pool := pool, st_TotalPoolTicks := st_TotalPoolTicks s + amount\<rparr>)
        \<lparr>st_LastSettlement := settlementFromState (s\<lparr>st_Pool := pool, st_TotalPoolTicks := st_TotalPoolTicks s + amount\<rparr>)
          ResultNone (st_TargetUserID s) (if timer then ''timeout_add'' else ''double_six_add'')\<rparr>)
        (st_SourceUserID s) [] now = Inr (t, es')" by (simp add: Let_def)
    from d7_finishTurn_keeps [OF f] v(2) le show ?thesis
      by (simp add: step_keeps_def follows_def roster_def penalties_def)
  next
    case False
    with step v(2) le show ?thesis
      by (auto simp: Let_def step_keeps_def follows_def roster_def penalties_def)
  qed
qed

lemma d7_chooseTarget_keeps:
  assumes "chooseTarget s actor target now timer = Inr (t, es)"
  shows "follows s t \<and> session_ticks t = session_ticks s"
proof -
  from assms have step: "if st_PendingResult s = ResultDoubleOne
     then \<exists>n m es'. addPenalty (s\<lparr>st_TargetUserID := target\<rparr>) target (st_TotalPoolTicks s) = Inr n \<and>
       setPoolTotal n 0 = Inr m \<and>
       finishTurn (m\<lparr>st_LastSettlement := settlementFromState m ResultNone target
         (if timer then ''timeout_target'' else ''double_one'')\<rparr>) actor target now = Inr (t, es')
     else \<exists>d. deadlineUnixMillis now (cf_ActionTimeoutSeconds (st_Config s)) = Inr d \<and>
       t = s\<lparr>st_TargetUserID := target, st_CurrentUserID := target, st_Phase := PhaseAwaitingAdd,
         st_ActionDeadlineUnixMillis := d\<rparr>"
    by (rule d7_chooseTarget_Inr)
  show ?thesis
  proof (cases "st_PendingResult s = ResultDoubleOne")
    case True
    with step obtain n m es' where n: "addPenalty (s\<lparr>st_TargetUserID := target\<rparr>) target (st_TotalPoolTicks s) = Inr n"
      "setPoolTotal n 0 = Inr m"
      and f: "finishTurn (m\<lparr>st_LastSettlement := settlementFromState m ResultNone target
         (if timer then ''timeout_target'' else ''double_one'')\<rparr>) actor target now = Inr (t, es')" by auto
    from d7_charge_keeps [OF n] have "follows s m" "session_ticks m = session_ticks s"
      by (simp_all add: follows_def roster_def session_ticks_def penalties_def)
    from d7_settle_keeps [OF f this] show ?thesis .
  next
    case False
    with step show ?thesis by (auto simp: follows_def roster_def session_ticks_def penalties_def)
  qed
qed

lemma d7_plain_settle_keeps:
  assumes "finishTurn (n\<lparr>st_LastSettlement := e\<rparr>) source nextActor now = Inr (t, es)"
    and "st_Config n = st_Config s" "st_Turn n = st_Turn s" "st_TotalPoolTicks n = st_TotalPoolTicks s"
    and "roster n = roster s" "penalties n = penalties s"
  shows "follows s t \<and> session_ticks t = session_ticks s"
  by (rule d7_settle_keeps [OF assms(1)]) (use assms in \<open>simp_all add: follows_def session_ticks_def\<close>)

lemma d7_HandleTimeout_cases:
  assumes "HandleTimeout s timer now = Inr (t, es)"
  shows "(case st_Phase s of
         PhaseAwaitingRoll \<Rightarrow>
           let next = s\<lparr>st_SourceUserID := st_CurrentUserID s, st_PendingResult := ResultRollTimeout,
                 st_PendingPoolBeforeTicks := st_TotalPoolTicks s,
                 st_PendingDirectionBefore := st_Direction s\<rparr> in
           finishTurn (next\<lparr>st_LastSettlement := settlementFromState next ResultRollTimeout [] ''roll_timeout''\<rparr>)
             (st_CurrentUserID s) [] now
       | PhaseResultPending \<Rightarrow> applyLanded s now ''result_timeout''
       | PhaseAwaitingAdd \<Rightarrow>
           and_then (minimumAddAmount s) (\<lambda>amount. addToPool s (st_CurrentUserID s) amount now True)
       | PhaseAwaitingTarget \<Rightarrow>
           and_then (nextActiveUser s (st_SourceUserID s)) (\<lambda>target. chooseTarget s (st_SourceUserID s) target now True)
       | PhaseAwaitingContinue \<Rightarrow>
           continueTurn s (st_SourceUserID s) (cf_ContinueMode (st_Config s) = ContinueForcedReroll) now True
       | _ \<Rightarrow> ruleError CodeWrongPhase ''phase has no timeout fallback'') = Inr (t, es)"
  using assms unfolding HandleTimeout_def outcome by blast

lemma d7_keepsI: "follows s t \<and> session_ticks t = session_ticks s \<Longrightarrow> step_keeps s t"
  by (simp add: step_keeps_def)

lemma d7_continueTurn_keeps:
  "continueTurn s actor reroll now timer = Inr (t, es) \<Longrightarrow> follows s t \<and> session_ticks t = session_ticks s"
  by (erule d7_continueTurn_Inr) (erule d7_plain_settle_keeps; simp)

lemma d7_HandleTimeout_keeps:
  assumes "HandleTimeout s timer now = Inr (t, es)"
  shows "step_keeps s t"
  using d7_HandleTimeout_cases [OF assms]
  by (cases "st_Phase s")
    (auto simp: Let_def outcome roster_def penalties_def
      intro: d7_keepsI [OF d7_applyLanded_keeps] d7_addToPool_keeps d7_keepsI [OF d7_chooseTarget_keeps]
        d7_keepsI [OF d7_continueTurn_keeps] d7_keepsI [OF d7_plain_settle_keeps])

lemma d7_revoked_keeps: "roster (revoked s i) = roster s" "penalties (revoked s i) = penalties s"
  by (simp_all add: roster_def penalties_def revoked_def map_update_eq)

lemma d7_Revoke_keeps:
  assumes "RevokeParticipant s userID now = Inr (t, es)"
  shows "follows s t \<and> session_ticks t = session_ticks s"
proof -
  have ab: "st_Config (abandoned s i u) = st_Config s" "st_Turn (abandoned s i u) = st_Turn s"
    "st_TotalPoolTicks (abandoned s i u) = st_TotalPoolTicks s"
    "roster (abandoned s i u) = roster s" "penalties (abandoned s i u) = penalties s" for i u
    using d7_revoked_keeps [of s i] by (simp_all add: abandoned_def roster_def penalties_def)
  from assms show ?thesis
    by (rule d7_Revoke_Inr)
      (auto simp: finishState_def follows_def session_ticks_def roster_def penalties_def
        d7_revoked_keeps [unfolded roster_def penalties_def] dest!: d7_plain_settle_keeps [OF _ ab] split: if_splits)
qed

lemma d7_step_keeps:
  assumes "engine_step sha256 s c = Inr (t, es)"
  shows "step_keeps s t"
proof (cases c)
  case (CmdRoll actor now seed)
  with assms show ?thesis
    by (auto simp: Dice789.Roll_def applyRoll_def outcome step_keeps_def follows_def roster_def session_ticks_def
        penalties_def split: sum.split_asm)
next
  case (CmdConfirm actor now)
  with assms show ?thesis by (auto simp: d7_ConfirmLanded intro: d7_keepsI [OF d7_applyLanded_keeps])
next
  case (CmdDropped actor auditRef reason now)
  with assms have "ReportDropped s actor auditRef reason now = Inr (t, es)" by simp
  then have "follows s t \<and> session_ticks t = session_ticks s"
    by (rule d7_ReportDropped_Inr) (erule d7_settle_keeps; auto dest: d7_charge_keeps)
  then show ?thesis by (rule d7_keepsI)
next
  case (CmdFinish reason)
  with assms show ?thesis
    by (auto dest!: d7_Finish_Inr(3) simp: finishState_def step_keeps_def follows_def roster_def session_ticks_def penalties_def)
qed (use assms in \<open>auto intro: d7_addToPool_keeps d7_keepsI [OF d7_chooseTarget_keeps] d7_HandleTimeout_keeps
    d7_keepsI [OF d7_continueTurn_keeps] d7_keepsI [OF d7_Revoke_keeps]
    simp: AddToPool_def ChooseTarget_def Reroll_def Pass_def\<close>)

end
