(* ===== verification/Dice789Live.thy ===== *)
theory Dice789Live
  imports Dice789Session
begin

text \<open>
  Liveness of dice 789: no command panics or loops, an accepted command moves the turn forward, and a due
  timer is always accepted.
\<close>

section \<open>No action panics or loops\<close>

lemma d7_np_guard [simp]: "no_panic (if c then ruleError a b else m) \<longleftrightarrow> c \<or> no_panic m"
  by simp

lemma d7_np_if [simp]: "no_panic (if c then Inr x else m) \<longleftrightarrow> c \<or> no_panic m"
  by simp

lemma d7_np_poolFromTotal [simp]: "no_panic (poolFromTotal config amount)"
proof (cases "cf_LayerCapacityTicks config = 0")
  case True
  then have "totalCapacity config = Inr 0" by (simp add: totalCapacity_def capacity_product_def)
  then show ?thesis by (auto simp: poolFromTotal_def word_gt_0)
next
  case False
  then have cap: "0 < cf_LayerCapacityTicks config" by (simp add: word_neq_0_conv)
  show ?thesis
  proof (cases "amount = 0")
    case False
    then have "0 < amount" by (simp add: word_neq_0_conv)
    from d7_layers_sound [OF cap this] show ?thesis by (auto simp: poolFromTotal_def)
  qed (simp add: poolFromTotal_def)
qed

lemma d7_np_setPoolTotal [simp]: "no_panic (setPoolTotal s amount)"
  unfolding setPoolTotal_def by (rule no_panic_and_then) simp_all

lemma d7_np_deadline [simp]: "no_panic (deadlineUnixMillis now seconds)"
  by (simp add: deadlineUnixMillis_def Let_def)

lemma d7_np_next [simp]: "no_panic (nextActiveUser s u)"
  by (simp add: nextActiveUser_def split: option.splits)

lemma d7_np_startTurn [simp]: "no_panic (startTurn s u now)"
  unfolding startTurn_def d7_np_guard by (rule disjI2, rule no_panic_and_then) simp_all

lemma d7_np_finishTurn [simp]: "no_panic (finishTurn s u v now)"
proof -
  have "no_panic (and_then (startTurn n a now) (\<lambda>(next, started). Inr (next, f next started)))" for n a and f :: "State \<Rightarrow> Event \<Rightarrow> Event list"
    by (rule no_panic_and_then) (auto split: prod.splits)
  then show ?thesis unfolding finishTurn_def by (intro no_panic_and_then) (simp_all add: Let_def)
qed

lemma d7_np_addPenalty [simp]: "no_panic (addPenalty s u a)"
  by (simp add: addPenalty_def split: option.splits sum.splits)

lemma d7_np_player_at: "no_panic (player_at players u) \<longleftrightarrow> u \<in> pl_UserID ` set players"
  using d7.index_None_iff [of players u] by (cases "playerIndex players u") (auto simp: player_at_def)

lemma d7_np_layers [simp]: "no_panic (validate_layers config n acc layers)"
  by (induction config n acc layers rule: validate_layers.induct) (auto split: sum.splits)

lemma d7_np_Validate [simp]: "no_panic (Validate s)"
proof -
  have "no_panic (validatePool s)"
    unfolding validatePool_def d7_np_guard by (intro disjI2 no_panic_and_then) simp_all
  moreover have "no_panic (validateSettlement s)"
    unfolding validateSettlement_def Let_def by (intro no_panic_intros)
  moreover have "no_panic (validatePhase s)"
    unfolding validatePhase_def by (cases "st_Phase s") (simp_all add: Let_def)
  ultimately show ?thesis
    unfolding Validate_def d7_np_guard by (intro disjI2 no_panic_and_then) simp_all
qed

lemma d7_np_validateActor [simp]: "no_panic (validateActor s actor phase now timer)"
  unfolding validateActor_def by (rule no_panic_and_then) simp_all

lemma d7_np_validateHost [simp]: "no_panic (validateHost s actor now)"
  unfolding validateHost_def by (rule no_panic_and_then) simp_all

lemma d7_users_charged:
  assumes "addPenalty s u a = Inr n" and "setPoolTotal n r = Inr m"
  shows "users m = users s"
  using assms by (rule d7_charge) (simp add: d7_charged_players)

lemma d7_np_applyDrink: "target \<in> users s \<Longrightarrow> no_panic (applyDrink s target amount reason events)"
  unfolding applyDrink_def Let_def
  by (intro no_panic_and_then) (auto simp: d7_np_player_at dest: d7_users_charged)

lemma d7_np_settle_landed [simp]: "no_panic (settle_landed n source nextActor events now)"
  unfolding settle_landed_def by (rule no_panic_and_then) (auto split: prod.splits)

lemma d7_np_drinkContinue:
  "target \<in> users s \<Longrightarrow> no_panic (applyDrinkAndContinue s target amount reason events now)"
  unfolding applyDrinkAndContinue_def Let_def
  by (intro no_panic_and_then d7_np_applyDrink) (auto intro!: no_panic_and_then split: prod.splits)

lemma d7_np_applyLanded:
  assumes "valid s" and "st_Phase s = PhaseResultPending"
  shows "no_panic (applyLanded s now cause)"
proof -
  have "st_SourceUserID s \<in> users s" using d7_pending(4) [OF assms(1)] assms(2) by simp
  then have d: "no_panic (applyDrink s (st_SourceUserID s) amount reason events)"
    "no_panic (applyDrinkAndContinue s (st_SourceUserID s) amount reason events now)" for amount reason events
    by (simp_all add: d7_np_applyDrink d7_np_drinkContinue)
  have "no_panic (and_then (applyDrink s (st_SourceUserID s) amount reason events)
      (\<lambda>(next, events). settle_landed (f next) a b events now))" for amount reason events f a b
    by (rule no_panic_and_then [OF d(1)]) (auto split: prod.splits)
  with d(2) show ?thesis
    unfolding applyLanded_def Let_def d7_np_guard by (cases "st_PendingResult s") simp_all
qed

lemma d7_np_continueTurn [simp]: "no_panic (continueTurn s actor reroll now timer)"
  unfolding continueTurn_def Let_def by (intro no_panic_intros) simp_all

lemma d7_np_addToPool [simp]: "no_panic (addToPool s actor amount now timer)"
proof -
  have v: "no_panic (validateAddAmount s amount)" by (simp add: validateAddAmount_def Let_def)
  show ?thesis
    unfolding addToPool_def Let_def by (intro no_panic_intros v) simp_all
qed

lemma d7_np_chooseTarget [simp]: "no_panic (chooseTarget s actor target now timer)"
proof -
  have "activePlayer s target \<Longrightarrow> target \<in> users s" by (simp add: d7_activePlayer d7.active_user_mem)
  then show ?thesis
    unfolding chooseTarget_def Let_def
    by (intro no_panic_intros)
      (simp_all add: d7_np_player_at, auto dest!: d7_users_charged d7_finishTurn_keeps(4))
qed

lemma d7_np_ReportDropped [simp]: "no_panic (ReportDropped s actor auditRef reason now)"
proof -
  have "st_SourceUserID s \<in> users s" if "validateHost s actor now = Inr u" for u
  proof -
    from that have "valid s" "st_Phase s = PhaseResultPending" by (simp_all add: d7_validateHost)
    then show ?thesis using d7_pending(4) [of s] by simp
  qed
  then show ?thesis
    unfolding ReportDropped_def Let_def
    by (intro no_panic_intros)
      (simp_all add: d7_np_player_at, auto dest!: d7_users_charged d7_finishTurn_keeps(4))
qed

lemma d7_np_HandleTimeout [simp]: "no_panic (HandleTimeout s timer now)"
proof -
  have a: "no_panic (and_then (minimumAddAmount s) (\<lambda>amount. addToPool s (st_CurrentUserID s) amount now True))"
    by (rule no_panic_and_then) (simp_all add: minimumAddAmount_def Let_def)
  have b: "no_panic (and_then (nextActiveUser s (st_SourceUserID s)) (\<lambda>target. chooseTarget s (st_SourceUserID s) target now True))"
    by (rule no_panic_and_then) simp_all
  show ?thesis
    unfolding HandleTimeout_def
    by (intro no_panic_intros; cases "st_Phase s") (simp_all add: Let_def d7_Validate d7_np_applyLanded a b)
qed

lemma d7_np_Revoke [simp]: "no_panic (RevokeParticipant s userID now)"
proof -
  have o: "no_panic (case x of None \<Rightarrow> ruleError c d | Some i \<Rightarrow> f i)" if "\<And>i. x = Some i \<Longrightarrow> no_panic (f i)"
    for x :: "nat option" and c d and f :: "nat \<Rightarrow> (State \<times> Event list) result"
    using that by (cases x) simp_all
  show ?thesis
    unfolding RevokeParticipant_def Let_def by (intro no_panic_intros o) simp_all
qed

lemma d7_np_Finish [simp]: "no_panic (Finish s reason)"
  unfolding Finish_def Let_def by (intro no_panic_intros) simp_all

lemma d7_np_applyRoll [simp]: "no_panic (applyRoll s actor a b now)"
  unfolding applyRoll_def by (intro no_panic_intros) (simp_all add: ClassifyRoll_def)

lemma d7_np_Roll [simp]: "no_panic (Dice789.Roll sha256 s actor now seed)"
  unfolding Dice789.Roll_def by (intro no_panic_intros) (simp_all split: sum.split)

lemma d7_np_ConfirmLanded [simp]: "no_panic (ConfirmLanded s actor now)"
  unfolding ConfirmLanded_def
  by (intro no_panic_intros) (simp_all add: d7_validateHost d7_np_applyLanded)

lemma d7_np_step: "no_panic (engine_step sha256 s c)"
  by (cases c) (simp_all add: AddToPool_def ChooseTarget_def Reroll_def Pass_def)

section \<open>Progress\<close>

text \<open>The place of a phase within a turn.\<close>

fun phase_rank :: "Phase \<Rightarrow> nat" where
  "phase_rank PhaseAwaitingRoll = 0"
| "phase_rank PhaseResultPending = 1"
| "phase_rank PhaseAwaitingTarget = 2"
| "phase_rank PhaseAwaitingAdd = 3"
| "phase_rank PhaseAwaitingContinue = 4"
| "phase_rank _ = 5"

definition advances :: "State \<Rightarrow> State \<Rightarrow> bool" where
  "advances s t \<longleftrightarrow> unat (st_Turn t) = Suc (unat (st_Turn s)) \<and> st_Phase t = PhaseAwaitingRoll \<or>
     st_Turn t = st_Turn s \<and> phase_rank (st_Phase s) < phase_rank (st_Phase t)"

lemma d7_finishTurn_advances:
  assumes "finishTurn n source nextActor now = Inr (t, es)" and "st_Turn n = st_Turn s"
  shows "advances s t"
  using d7_finishTurn_keeps(5-7) [OF assms(1)] assms(2) by (simp add: advances_def unat_plus_1_u32)

lemma d7_finishTurn_turn:
  "finishTurn n source nextActor now = Inr (t, es) \<Longrightarrow>
     unat (st_Turn t) = Suc (unat (st_Turn n)) \<and> st_Phase t = PhaseAwaitingRoll"
  using d7_finishTurn_keeps(5-7) by (auto simp: unat_plus_1_u32)

lemma d7_applyDrink_turn:
  assumes "applyDrink s target amount reason events = Inr (m, es)"
  shows "st_Turn m = st_Turn s"
  using assms by (auto elim!: d7_applyDrink d7_charge)

lemma d7_applyLanded_advances:
  assumes "applyLanded s now cause = Inr (t, es)"
  shows "advances s t"
proof -
  have ph: "st_Phase s = PhaseResultPending" "validRollResult (st_PendingResult s)"
    using assms unfolding applyLanded_def guard_eq_Inr by blast+
  have drink: "advances s t" if "applyDrinkAndContinue s u a r ev now = Inr (t, es)" for u a r ev
    using that ph(1)
    by (auto simp: applyDrinkAndContinue_def outcome Let_def advances_def dest!: d7_applyDrink_turn)
  have pair: "(if c then s\<lparr>st_Direction := d\<rparr> else s) = s\<lparr>st_Direction := (if c then d else st_Direction s)\<rparr>" for c d
    by simp
  have within: "advances s t" if "st_Turn t = st_Turn s" "st_Phase t \<in> {PhaseAwaitingAdd, PhaseAwaitingTarget, PhaseAwaitingContinue}" for t
    using that ph(1) by (auto simp: advances_def)
  show ?thesis
  proof (cases "st_PendingResult s")
    case ResultOrdinaryPair
    with assms ph show ?thesis
      unfolding applyLanded_def Let_def pair
      by (auto simp only: ResultKind.simps guard_eq_Inr elim!: d7_settle_landed d7_finishTurn_advances) simp_all
  next
    case ResultDoubleFour
    with assms ph show ?thesis
      by (auto simp: applyLanded_def Let_def outcome elim!: d7_settle_landed dest!: d7_applyDrink_turn
          dest: d7_finishTurn_advances)
  next
    case ResultOther
    with assms ph show ?thesis
      by (auto simp: applyLanded_def Let_def elim!: d7_settle_landed intro: d7_finishTurn_advances)
  next
    case ResultEight
    with assms ph show ?thesis by (auto simp: applyLanded_def Let_def intro: drink)
  next
    case ResultSeven
    with assms ph show ?thesis
      by (intro within; cases "st_TotalPoolTicks s = mustCapacity (st_Config s)")
        (auto simp: applyLanded_def Let_def)
  next
    case ResultNine
    with assms ph show ?thesis by (auto simp: applyLanded_def Let_def intro: drink)
  qed (use assms ph in \<open>auto simp: applyLanded_def Let_def validRollResult_def intro!: within\<close>)
qed

lemma d7_within:
  "st_Turn t = st_Turn s \<Longrightarrow> phase_rank (st_Phase s) < phase_rank (st_Phase t) \<Longrightarrow> advances s t"
  by (simp add: advances_def)

lemma d7_addToPool_advances:
  assumes "addToPool s actor amount now timer = Inr (t, es)"
  shows "advances s t"
  using assms
  by (rule d7_addToPool_Inr)
    (cases "st_PendingResult s = ResultDoubleSix";
      auto simp: Let_def advances_def dest!: d7_finishTurn_turn)

lemma d7_chooseTarget_advances:
  assumes "chooseTarget s actor target now timer = Inr (t, es)"
  shows "advances s t"
proof -
  have charge: "st_Turn m = st_Turn s" if "addPenalty (s\<lparr>st_TargetUserID := target\<rparr>) target a = Inr n" "setPoolTotal n 0 = Inr m" for a n m
    using that by (rule d7_charge) simp
  from assms show ?thesis
    by (rule d7_chooseTarget_Inr)
      (cases "st_PendingResult s = ResultDoubleOne";
        auto simp: advances_def dest: charge dest!: d7_finishTurn_turn)
qed

lemma d7_continueTurn_advances:
  "continueTurn s actor reroll now timer = Inr (t, es) \<Longrightarrow> advances s t"
  by (erule d7_continueTurn_Inr) (auto intro: d7_finishTurn_advances)

lemma d7_HandleTimeout_advances:
  assumes "HandleTimeout s timer now = Inr (t, es)"
  shows "advances s t"
  using d7_HandleTimeout_cases [OF assms]
  by (cases "st_Phase s")
    (auto simp: Let_def outcome intro: d7_applyLanded_advances d7_addToPool_advances d7_chooseTarget_advances
        d7_continueTurn_advances d7_finishTurn_advances)

fun removes_player :: "command \<Rightarrow> bool" where
  "removes_player (CmdRevoke userID now) = True"
| "removes_player _ = False"

lemma d7_step_advances:
  assumes "engine_step sha256 s c = Inr (t, es)" and "\<not> removes_player c"
  shows "advances s t"
proof (cases c)
  case (CmdRoll actor now seed)
  with assms show ?thesis
    by (auto simp: Dice789.Roll_def applyRoll_def outcome d7_validateActor intro!: d7_within split: sum.split_asm)
next
  case (CmdDropped actor auditRef reason now)
  with assms(1) have "ReportDropped s actor auditRef reason now = Inr (t, es)" by simp
  moreover have "st_Turn m = st_Turn s" if "addPenalty s u a = Inr n" "setPoolTotal n 0 = Inr m" for a u n m
    using that by (rule d7_charge) simp
  ultimately show ?thesis by (elim d7_ReportDropped_Inr) (auto intro: d7_finishTurn_advances)
next
  case (CmdFinish reason)
  with assms(1) have f: "Finish s reason = Inr (t, es)" by simp
  from d7_Finish_Inr [OF this] have "valid s" "st_Phase s \<noteq> PhaseFinished"
    "st_Turn t = st_Turn s" "st_Phase t = PhaseFinished" by (auto simp: finishState_def)
  moreover from this have "phase_rank (st_Phase s) < 5"
    using d7_valid_live(7) [of s] by (cases "st_Phase s") (auto simp: validatePhase_def)
  ultimately show ?thesis by (intro d7_within) simp_all
qed (use assms in \<open>auto simp: d7_ConfirmLanded AddToPool_def ChooseTarget_def Reroll_def Pass_def
    intro: d7_applyLanded_advances d7_addToPool_advances d7_chooseTarget_advances
      d7_continueTurn_advances d7_HandleTimeout_advances\<close>)

section \<open>Due timers\<close>

text \<open>Room left in the counters: the turn number, every penalty and the clock.\<close>

definition headroom :: "State \<Rightarrow> i64 \<Rightarrow> bool" where
  "headroom s now \<longleftrightarrow>
     st_Turn s \<noteq> MaxUint32 \<and> (\<forall>p \<in> set (st_Players s). unat (pl_PenaltyTicks p) + 384 < 2 ^ 32) \<and>
     0 < now \<and> now \<le> MaxInt64 - 120000"

lemma d7_deadline_total:
  assumes "0 < now" "now \<le> MaxInt64 - 120000" "unat seconds \<le> 120"
  shows "succeeds (deadlineUnixMillis now seconds)"
proof -
  have "uint seconds = int (unat seconds)" by simp
  then have "uint seconds \<le> 120" using assms(3) by linarith
  then have "\<not> now > MaxInt64 - uint seconds * 1000" using assms(2) by linarith
  with assms(1) show ?thesis by (simp add: deadlineUnixMillis_def validUnixMillis_def Let_def)
qed

lemma d7_finishTurn_total:
  assumes "frozen_ok n" "MinimumPlayers \<le> activeCount (st_Players n)" "source \<in> users n"
    and "nextActor = [] \<or> d7.active_user (st_Players n) nextActor"
    and "st_Turn n \<noteq> MaxUint32" "0 < now" "now \<le> MaxInt64 - 120000"
  shows "succeeds (finishTurn n source nextActor now)"
proof -
  note config = d7_config [OF d7_frozen_config [OF assms(1)]]
  from assms(3) obtain i where i: "playerIndex (st_Players n) source = Some i"
    using d7.index_Some_iff [of "st_Players n" source] by blast
  have "0 < activeCount (st_Players n)" using assms(2) by (simp add: MinimumPlayers_def)
  from d7.next_exists [OF i this] obtain v where v: "next_user (st_Direction n) (st_Players n) source = Some v" by blast
  have dir: "Direction_Valid (st_Direction n)" using assms(1) by (simp add: frozen_ok_def)
  have "\<exists>w. (if nextActor = [] then nextActiveUser n source else Inr nextActor) = Inr w \<and> d7.active_user (st_Players n) w"
    using assms(4) v dir d7.next_active_user [OF d7_frozen_users(1) [OF assms(1)] i v]
    by (auto simp: d7_nextActiveUser)
  then obtain w where w: "(if nextActor = [] then nextActiveUser n source else Inr nextActor) = Inr w"
    "d7.active_user (st_Players n) w" by blast
  have "succeeds (startTurn m w now)" if "st_Players m = st_Players n" "st_Config m = st_Config n" for m
    unfolding startTurn_def
    using that w(2) assms(6) d7_deadline_total [OF assms(6,7) config(7)]
    by (intro succeeds_guard succeeds_and_then) (simp_all add: d7_activePlayer validUnixMillis_def)
  then show ?thesis
    unfolding finishTurn_def w(1) and_then_Inr Let_def using assms(5)
    by (intro succeeds_guard succeeds_and_then succeeds_pair) simp_all
qed

lemma d7_addPenalty_total:
  assumes "d7.active_user (st_Players s) u"
    and "\<And>p. p \<in> set (st_Players s) \<Longrightarrow> unat (pl_PenaltyTicks p) + unat a < 2 ^ 32"
  shows "succeeds (addPenalty s u a)"
proof -
  from assms(1) obtain i where i: "playerIndex (st_Players s) u = Some i" "pl_Active (st_Players s ! i)"
    by (auto simp: d7.active_user_def split: option.splits)
  then have "st_Players s ! i \<in> set (st_Players s)" using d7.index_SomeD [OF i(1)] by simp
  from assms(2) [OF this] have "Ticks_Add (pl_PenaltyTicks (st_Players s ! i)) a = Inr (pl_PenaltyTicks (st_Players s ! i) + a)"
    by (simp add: Ticks_Add_Inr unat_word_ariths)
  with i show ?thesis by (simp add: addPenalty_def)
qed

lemma d7_addPenalty_config: "addPenalty s u a = Inr n \<Longrightarrow> st_Config n = st_Config s"
  by (auto simp: addPenalty_def split: option.splits sum.splits if_splits)

lemma d7_setPool_total:
  "frozen_ok s \<Longrightarrow> r \<le> mustCapacity (st_Config s) \<Longrightarrow> st_Config n = st_Config s \<Longrightarrow> succeeds (setPoolTotal n r)"
  using d7_poolFromTotal [OF d7_frozen_config, of s r] by (auto simp: setPoolTotal_def)

lemma d7_charged_ready:
  assumes "addPenalty s u a = Inr n" "setPoolTotal n r = Inr m"
  shows "frozen_ok s \<Longrightarrow> frozen_ok m" "users m = users s" "activeCount (st_Players m) = activeCount (st_Players s)"
    "d7.active_user (st_Players m) v = d7.active_user (st_Players s) v" "st_Turn m = st_Turn s" "st_Config m = st_Config s"
proof -
  from assms obtain i pool where "i < length (st_Players s)" "m = charged s i a pool r" by (rule d7_charge)
  then show "frozen_ok s \<Longrightarrow> frozen_ok m" "users m = users s" "activeCount (st_Players m) = activeCount (st_Players s)"
    "d7.active_user (st_Players m) v = d7.active_user (st_Players s) v" "st_Turn m = st_Turn s" "st_Config m = st_Config s"
    by (simp_all add: d7_charged_players)
qed

text \<open>What the phases of a live turn have in common.\<close>

lemma d7_live_ready:
  assumes "valid s" "st_Phase s \<noteq> PhaseFinished" "headroom s now"
  shows "frozen_ok s" "MinimumPlayers \<le> activeCount (st_Players s)" "st_Turn s \<noteq> MaxUint32" "0 < now" "now \<le> MaxInt64 - 120000"
    "st_TotalPoolTicks s \<le> mustCapacity (st_Config s)"
    "p \<in> set (st_Players s) \<Longrightarrow> a \<le> st_TotalPoolTicks s \<Longrightarrow> unat (pl_PenaltyTicks p) + unat a < 2 ^ 32"
    "succeeds (deadlineUnixMillis now (cf_ActionTimeoutSeconds (st_Config s)))"
proof -
  note l = d7_valid_live [OF assms(1,2)]
  note c = d7_frozen_config [OF l(1)]
  show "frozen_ok s" "MinimumPlayers \<le> activeCount (st_Players s)" by (rule l)+
  show h: "st_Turn s \<noteq> MaxUint32" "0 < now" "now \<le> MaxInt64 - 120000" using assms(3) by (simp_all add: headroom_def)
  show cap: "st_TotalPoolTicks s \<le> mustCapacity (st_Config s)" by (rule d7_pool_bounds(1) [OF l(1,2)])
  show "succeeds (deadlineUnixMillis now (cf_ActionTimeoutSeconds (st_Config s)))"
    by (rule d7_deadline_total [OF h(2,3) d7_config(7) [OF c]])
  assume "p \<in> set (st_Players s)" "a \<le> st_TotalPoolTicks s"
  moreover have "unat a \<le> 384"
    using \<open>a \<le> _\<close> cap d7_capacity(3) [OF c] by (simp add: word_le_nat_alt)
  ultimately show "unat (pl_PenaltyTicks p) + unat a < 2 ^ 32"
    using assms(3) by (fastforce simp: headroom_def)
qed

lemma d7_player_at_total: "u \<in> users s \<Longrightarrow> succeeds (player_at (st_Players s) u)"
  using d7.index_None_iff [of "st_Players s" u] by (auto simp: player_at_def split: option.splits)

lemma d7_frozen_entry [simp]:
  "frozen_ok (n\<lparr>st_LastSettlement := e\<rparr>) = frozen_ok n" "frozen_ok (n\<lparr>st_TargetUserID := v\<rparr>) = frozen_ok n"
  by (simp_all add: frozen_ok_def)

lemma d7_applyDrink_total:
  assumes "valid s" "st_Phase s \<noteq> PhaseFinished" "headroom s now" "d7.active_user (st_Players s) target"
  shows "succeeds (applyDrink s target amount reason events)"
proof -
  note r = d7_live_ready [OF assms(1-3)]
  define a where "a = (if amount > st_TotalPoolTicks s then st_TotalPoolTicks s else amount)"
  have a: "a \<le> st_TotalPoolTicks s" by (auto simp: a_def)
  have rest: "st_TotalPoolTicks s - a \<le> mustCapacity (st_Config s)"
    using a r(6) by (metis order_trans word_sub_le)
  show ?thesis
    unfolding applyDrink_def Let_def a_def [symmetric]
  proof (intro succeeds_and_then succeeds_Inr)
    show "succeeds (player_at (st_Players s) target)"
      by (rule d7_player_at_total [OF d7.active_user_mem [OF assms(4)]])
    show "succeeds (addPenalty s target a)" by (rule d7_addPenalty_total [OF assms(4)]) (rule r(7) [OF _ a])
  next
    fix n assume "addPenalty s target a = Inr n"
    then show "succeeds (setPoolTotal n (st_TotalPoolTicks s - a))"
      by (intro d7_setPool_total [OF r(1) rest] d7_addPenalty_config)
  next
    fix n m assume "addPenalty s target a = Inr n" "setPoolTotal n (st_TotalPoolTicks s - a) = Inr m"
    from d7_charged_ready(2) [OF this] show "succeeds (player_at (st_Players m) target)"
      by (intro d7_player_at_total) (use d7.active_user_mem [OF assms(4)] in simp)
  qed
qed

lemma d7_applyLanded_total:
  assumes v: "valid s" "st_Phase s = PhaseResultPending" and h: "headroom s now"
  shows "succeeds (applyLanded s now cause)"
proof -
  have live: "st_Phase s \<noteq> PhaseFinished" using v(2) by simp
  note r = d7_live_ready [OF v(1) live h]
  have act: "d7.active_user (st_Players s) (st_SourceUserID s)" using d7_pending(2) [OF v(1)] v(2) by simp
  have mem: "st_SourceUserID s \<in> users s" by (rule d7.active_user_mem [OF act])
  note drink = d7_applyDrink_total [OF v(1) live h act]
  have fin: "succeeds (settle_landed (n\<lparr>st_LastSettlement := e\<rparr>) (st_SourceUserID s) nextActor ev now)"
    if "frozen_ok n" "users n = users s" "activeCount (st_Players n) = activeCount (st_Players s)"
      "st_Turn n = st_Turn s" "nextActor = [] \<or> d7.active_user (st_Players n) nextActor" for n e nextActor ev
    unfolding settle_landed_def
    by (intro succeeds_and_then succeeds_pair d7_finishTurn_total succeeds_Inr) (use that r mem in simp_all)
  have cont: "succeeds (applyDrinkAndContinue s (st_SourceUserID s) a reason ev now)" for a reason ev
    unfolding applyDrinkAndContinue_def Let_def
  proof (intro succeeds_and_then succeeds_pair succeeds_Inr)
    show "succeeds (applyDrink s (st_SourceUserID s) a reason ev)" by (rule drink)
    fix p m es assume "applyDrink s (st_SourceUserID s) a reason ev = Inr p" "p = (m, es)"
    then have "st_Config m = st_Config s" by (auto elim!: d7_applyDrink dest: d7_charged_ready(6))
    then show "succeeds (deadlineUnixMillis now (cf_ActionTimeoutSeconds (st_Config (m\<lparr>st_LastSettlement :=
        settlementFromState m ResultNone [] reason, st_Phase := PhaseAwaitingContinue,
        st_CurrentUserID := st_SourceUserID m, st_TargetUserID := []\<rparr>))))" using r(8) by simp
  qed
  have four: "succeeds (and_then (applyDrink s (st_SourceUserID s) a reason ev) (\<lambda>(next, events).
      settle_landed (next\<lparr>st_LastSettlement := e next\<rparr>) (st_SourceUserID s) (st_SourceUserID s) events now))"
    for a reason ev e
  proof (intro succeeds_and_then succeeds_pair)
    show "succeeds (applyDrink s (st_SourceUserID s) a reason ev)" by (rule drink)
    fix p m es assume "applyDrink s (st_SourceUserID s) a reason ev = Inr p" "p = (m, es)"
    then obtain n b r' where "addPenalty s (st_SourceUserID s) b = Inr n" "setPoolTotal n r' = Inr m"
      by (auto elim!: d7_applyDrink)
    note k = d7_charged_ready [OF this]
    show "succeeds (settle_landed (m\<lparr>st_LastSettlement := e m\<rparr>) (st_SourceUserID s) (st_SourceUserID s) es now)"
      by (rule fin) (use k r(1) act in simp_all)
  qed
  have pair: "(if c then s\<lparr>st_Direction := d\<rparr> else s) = s\<lparr>st_Direction := (if c then d else st_Direction s)\<rparr>" for c d
    by simp
  have rev: "frozen_ok (s\<lparr>st_Direction := (if c then reverseDirection (st_Direction s) else st_Direction s)\<rparr>)" for c
    using r(1) by (auto simp: frozen_ok_def reverseDirection_def Direction_Valid_def)
  have ok: "\<not> (st_Phase s \<noteq> PhaseResultPending \<or> \<not> validRollResult (st_PendingResult s))"
    using v d7_result_pending(3) [OF v] by simp
  show ?thesis
    unfolding applyLanded_def Let_def pair
    by (rule succeeds_guard [OF ok], cases "st_PendingResult s")
      (simp_all only: ResultKind.case cont four succeeds_Inr fin r(1) rev act, auto intro!: fin simp: r(1) rev [of True, simplified] act)
qed

lemma d7_minimum_add:
  assumes "st_TotalPoolTicks s \<le> mustCapacity (st_Config s)" "0 < cf_AddStepTicks (st_Config s)"
  shows "\<exists>a. minimumAddAmount s = Inr a \<and> validateAddAmount s a = Inr ()"
  using assms by (auto simp: minimumAddAmount_def validateAddAmount_def Let_def not_less)

lemma d7_addToPool_total:
  assumes v: "valid s" "st_Phase s = PhaseAwaitingAdd" and h: "headroom s now" and a: "validateAddAmount s a = Inr ()"
  shows "succeeds (addToPool s (st_CurrentUserID s) a now True)"
proof -
  have live: "st_Phase s \<noteq> PhaseFinished" using v(2) by simp
  note r = d7_live_ready [OF v(1) live h]
  have mem: "st_SourceUserID s \<in> users s" using d7_pending(4) [OF v(1)] v(2) by simp
  have actor: "validateActor s (st_CurrentUserID s) PhaseAwaitingAdd now True = Inr ()"
    unfolding d7_validateActor using v live d7_valid_live(8) [OF v(1) live] r(4) by simp
  from d7_poolFromTotal [OF d7_frozen_config [OF r(1)] d7_add_amount(3) [OF a r(6)]] obtain pool where
    pool: "setPoolTotal s (st_TotalPoolTicks s + a) = Inr (s\<lparr>st_Pool := pool, st_TotalPoolTicks := st_TotalPoolTicks s + a\<rparr>)"
    by (auto simp: setPoolTotal_def)
  have f: "frozen_ok (s\<lparr>st_Pool := pool, st_TotalPoolTicks := t\<rparr>)" for t using r(1) by (simp add: frozen_ok_def)
  show ?thesis
    unfolding addToPool_def actor a pool and_then_Inr Let_def
    by (intro succeeds_if succeeds_and_then succeeds_pair succeeds_Inr d7_finishTurn_total)
      (use r mem f in simp_all)
qed

lemma d7_chooseTarget_total:
  assumes v: "valid s" "st_Phase s = PhaseAwaitingTarget" and h: "headroom s now"
    and target: "d7.active_user (st_Players s) target" "target \<noteq> st_SourceUserID s"
  shows "succeeds (chooseTarget s (st_SourceUserID s) target now True)"
proof -
  have live: "st_Phase s \<noteq> PhaseFinished" using v(2) by simp
  note r = d7_live_ready [OF v(1) live h] and cur = d7_awaiting_target(1) [OF v]
  have mem: "st_SourceUserID s \<in> users s" "target \<in> users s" "target \<noteq> []"
    using d7_pending(4) [OF v(1)] v(2) d7.active_user_mem [OF target(1)] d7_frozen_users(2) [OF r(1)] by auto
  have actor: "validateActor s (st_SourceUserID s) PhaseAwaitingTarget now True = Inr ()"
    unfolding d7_validateActor using v live d7_valid_live(8) [OF v(1) live] r(4) cur by simp
  let ?s = "s\<lparr>st_TargetUserID := target\<rparr>" and ?a = "st_TotalPoolTicks s"
  have pay: "succeeds (addPenalty ?s target ?a)"
    by (rule d7_addPenalty_total) (use target r(7) in simp_all)
  have zero: "succeeds (setPoolTotal n 0)" if "addPenalty ?s target ?a = Inr n" for n
    by (rule d7_setPool_total [OF r(1)]) (use d7_addPenalty_config [OF that] in simp_all)
  have fin: "succeeds (finishTurn (m\<lparr>st_LastSettlement := e\<rparr>) (st_SourceUserID s) target now)"
    if "addPenalty ?s target ?a = Inr n" "setPoolTotal n 0 = Inr m" for n m e
    by (rule d7_finishTurn_total) (use d7_charged_ready [OF that] r mem target in simp_all)
  have after: "succeeds (player_at (st_Players t) target)"
    if "addPenalty ?s target ?a = Inr n" "setPoolTotal n 0 = Inr m"
      "finishTurn (m\<lparr>st_LastSettlement := e\<rparr>) (st_SourceUserID s) target now = Inr (t, es)" for n m e t es
    using d7_player_at_total [of target t] d7_finishTurn_keeps(4) [OF that(3)] d7_charged_ready(2) [OF that(1,2)] mem by simp
  have at: "succeeds (player_at (st_Players ?s) target)" by (rule d7_player_at_total) (simp add: mem)
  show ?thesis
    unfolding chooseTarget_def actor and_then_Inr Let_def
    by (intro succeeds_guard succeeds_if succeeds_and_then succeeds_pair succeeds_Inr)
      (use mem target pay zero fin after at r(8) in \<open>simp_all add: d7_activePlayer\<close>)
qed

lemma d7_continueTurn_total:
  assumes v: "valid s" "st_Phase s = PhaseAwaitingContinue" and h: "headroom s now"
  shows "succeeds (continueTurn s (st_SourceUserID s) (cf_ContinueMode (st_Config s) = ContinueForcedReroll) now True)"
proof -
  have live: "st_Phase s \<noteq> PhaseFinished" using v(2) by simp
  note r = d7_live_ready [OF v(1) live h]
  have act: "d7.active_user (st_Players s) (st_SourceUserID s)" using d7_pending(2) [OF v(1)] v(2) by simp
  have actor: "validateActor s (st_SourceUserID s) PhaseAwaitingContinue now True = Inr ()"
    unfolding d7_validateActor using v live act r(4) d7_awaiting_continue(1) [OF v] by simp
  show ?thesis
    unfolding continueTurn_def actor and_then_Inr Let_def
    by (intro succeeds_guard d7_finishTurn_total) (use r act d7.active_user_mem [OF act] in auto)
qed

lemma d7_HandleTimeout_total:
  assumes v: "valid s" and timer: "CurrentTimer s = Some timer" "tm_DeadlineUnixMillis timer \<le> now" and h: "headroom s now"
  shows "succeeds (HandleTimeout s timer now)"
proof -
  from timer(1) have live: "st_Phase s \<noteq> PhaseFinished" and d: "st_ActionDeadlineUnixMillis s \<noteq> 0"
    and tm: "timer = \<lparr>tm_Turn = st_Turn s, tm_Phase = st_Phase s, tm_CurrentUserID = st_CurrentUserID s,
        tm_SourceUserID = st_SourceUserID s, tm_TargetUserID = st_TargetUserID s,
        tm_PendingResult = st_PendingResult s, tm_DeadlineUnixMillis = st_ActionDeadlineUnixMillis s\<rparr>"
    by (auto simp: CurrentTimer_def split: if_splits)
  note r = d7_live_ready [OF v live h] and l = d7_valid_live [OF v live]
  have cur: "st_CurrentUserID s \<in> users s" by (rule d7.active_user_mem [OF l(8)])
  have roll: "succeeds (finishTurn (s\<lparr>st_SourceUserID := a, st_PendingResult := b, st_PendingPoolBeforeTicks := c,
      st_PendingDirectionBefore := d, st_LastSettlement := e\<rparr>) (st_CurrentUserID s) [] now)" for a b c d e
    by (rule d7_finishTurn_total) (use r cur in \<open>simp_all add: frozen_ok_def\<close>)
  have add: "succeeds (and_then (minimumAddAmount s) (\<lambda>amount. addToPool s (st_CurrentUserID s) amount now True))"
    if "st_Phase s = PhaseAwaitingAdd"
    using d7_minimum_add [OF r(6) d7_config(5) [OF d7_frozen_config [OF r(1)]]] d7_addToPool_total [OF v that h] by auto
  have target: "succeeds (and_then (nextActiveUser s (st_SourceUserID s)) (\<lambda>target. chooseTarget s (st_SourceUserID s) target now True))"
    if p: "st_Phase s = PhaseAwaitingTarget"
  proof -
    have "st_SourceUserID s \<in> users s" using d7_pending(4) [OF v] p by simp
    then obtain i where i: "playerIndex (st_Players s) (st_SourceUserID s) = Some i"
      using d7.index_Some_iff [of "st_Players s" "st_SourceUserID s"] by blast
    have two: "2 \<le> activeCount (st_Players s)" using r(2) by (simp add: MinimumPlayers_def)
    then have "0 < activeCount (st_Players s)" by linarith
    from d7.next_exists [OF i this] obtain w where w: "next_user (st_Direction s) (st_Players s) (st_SourceUserID s) = Some w" by blast
    have "nextActiveUser s (st_SourceUserID s) = Inr w" using r(1) w by (simp add: d7_nextActiveUser frozen_ok_def)
    then show ?thesis
      using d7_chooseTarget_total [OF v p h d7.next_active_user [OF d7_frozen_users(1) [OF r(1)] i w]
          d7.next_other [OF d7_frozen_users(1) [OF r(1)] i two w]] by simp
  qed
  have due: "st_ActionDeadlineUnixMillis s \<le> now" using timer(2) tm by simp
  have "Validate s = Inr ()" using v by (simp add: d7_Validate)
  then show ?thesis
    unfolding HandleTimeout_def using tm live d due r(4) l(7)
    by (cases "st_Phase s")
      (simp_all add: validUnixMillis_def Let_def roll add target d7_applyLanded_total [OF v _ h]
        d7_continueTurn_total [OF v _ h] validatePhase_def)
qed

end
