(* ===== verification/Dice789Rules.thy ===== *)
theory Dice789Rules
  imports Dice789Live
begin

text \<open>
  The properties of the dice 789 engine. The engine is interpreted as a session engine, the effects of the
  landed results are read off, and the properties are stated over the functions of the source; a sample
  session gives the inputs at which they are applied.
\<close>

section \<open>The engine as a session engine\<close>


lemma d7_step_valid:
  assumes "engine_step sha256 s c = Inr (t, es)"
  shows "valid s" and "st_Phase s \<noteq> PhaseFinished"
proof -
  have "valid s \<and> st_Phase s \<noteq> PhaseFinished"
  proof (cases c)
    case (CmdRoll actor now seed)
    with assms show ?thesis by (auto simp: Dice789.Roll_def outcome d7_validateActor)
  next
    case (CmdConfirm actor now)
    with assms show ?thesis by (auto simp: d7_ConfirmLanded d7_validateHost)
  qed (use assms in \<open>auto elim: d7_ReportDropped_Inr d7_addToPool_Inr d7_chooseTarget_Inr d7_continueTurn_Inr d7_Revoke_Inr
      dest: d7_HandleTimeout_Inr(1,2) d7_Finish_Inr(1,2) simp: AddToPool_def ChooseTarget_def Reroll_def Pass_def\<close>)
  then show "valid s" and "st_Phase s \<noteq> PhaseFinished" by simp_all
qed


section \<open>Effects\<close>

text \<open>The players after one of them drank.\<close>

definition drinks :: "string \<Rightarrow> Ticks \<Rightarrow> PlayerState list \<Rightarrow> PlayerState list" where
  "drinks u amount players =
     map (\<lambda>p. if pl_UserID p = u then p\<lparr>pl_PenaltyTicks := pl_PenaltyTicks p + amount\<rparr> else p) players"

lemma d7_charge_effect:
  assumes "addPenalty s u a = Inr n" "setPoolTotal n r = Inr m" "frozen_ok s"
  shows "st_Players m = drinks u a (st_Players s)" "st_TotalPoolTicks m = r" "st_Turn m = st_Turn s"
    "st_SourceUserID m = st_SourceUserID s" "st_Direction m = st_Direction s"
proof -
  from assms(1,2) obtain i pool where i: "i < length (st_Players s)" "pl_UserID (st_Players s ! i) = u"
    and m: "m = charged s i a pool r" by (rule d7_charge)
  from m show "st_TotalPoolTicks m = r" "st_Turn m = st_Turn s" "st_SourceUserID m = st_SourceUserID s"
    "st_Direction m = st_Direction s" by simp_all
  show "st_Players m = drinks u a (st_Players s)"
    using update_as_map [OF d7_frozen_users(1) [OF assms(3)] i(1), of "\<lambda>p. p\<lparr>pl_PenaltyTicks := pl_PenaltyTicks p + a\<rparr>"]
    by (simp add: m charged_def drinks_def i(2))
qed

lemma d7_half: "unat (HalfCeil v) = (unat v + 1) div 2"
proof -
  have "unat v div 2 + unat v mod 2 < 4294967296" using unsigned_less [of v, where 'a = nat] by simp
  then show ?thesis by (simp add: HalfCeil_def unat_word_ariths unat_div unat_mod) presburger
qed

text \<open>What an add may be: the whole remaining capacity, or less in steps.\<close>

definition legal_add :: "nat \<Rightarrow> nat \<Rightarrow> nat \<Rightarrow> bool" where
  "legal_add remaining step amount \<longleftrightarrow>
     amount = remaining \<or> 0 < amount \<and> amount < remaining \<and> step dvd amount"

lemma d7_validateAddAmount:
  assumes "st_TotalPoolTicks s \<le> mustCapacity (st_Config s)" "0 < cf_AddStepTicks (st_Config s)"
  shows "validateAddAmount s amount = Inr () \<longleftrightarrow>
    legal_add (unat (mustCapacity (st_Config s)) - unat (st_TotalPoolTicks s)) (unat (cf_AddStepTicks (st_Config s))) (unat amount)"
proof -
  define rest where "rest = mustCapacity (st_Config s) - st_TotalPoolTicks s"
  have r: "unat (mustCapacity (st_Config s)) - unat (st_TotalPoolTicks s) = unat rest"
    using assms(1) by (simp add: rest_def unat_sub word_le_nat_alt)
  have d: "unat (cf_AddStepTicks (st_Config s)) dvd unat amount \<longleftrightarrow> amount mod cf_AddStepTicks (st_Config s) = 0"
    by (simp add: word_unat_eq_iff unat_mod dvd_eq_mod_eq_0)
  have "amount mod cf_AddStepTicks (st_Config s) = 0 \<Longrightarrow> 0 < amount \<Longrightarrow> cf_AddStepTicks (st_Config s) \<le> amount"
    by (metis d dvd_imp_le word_le_nat_alt word_less_nat_alt unat_0)
  then show ?thesis
    unfolding r legal_add_def d using assms(2)
    by (auto simp: validateAddAmount_def Let_def rest_def [symmetric] word_le_nat_alt word_less_nat_alt word_unat_eq_iff)
qed

text \<open>The result of a roll as the rules state it: special doubles first, then other doubles, then the sum.\<close>

definition roll_result :: "Config \<Rightarrow> nat \<Rightarrow> nat \<Rightarrow> ResultKind" where
  "roll_result config a b =
     (if a = b \<and> a = 1 \<and> cf_DoubleOneEnabled config then ResultDoubleOne
      else if a = b \<and> a = 4 \<and> cf_DoubleFourEnabled config then ResultDoubleFour
      else if a = b \<and> a = 6 \<and> cf_DoubleSixEnabled config then ResultDoubleSix
      else if a = b \<and> cf_OrdinaryPairsReverse config then ResultOrdinaryPair
      else if a + b = 7 then ResultSeven else if a + b = 8 then ResultEight else if a + b = 9 then ResultNine
      else ResultOther)"

lemma d7_faces: "unat (a :: u32) \<in> {1..6} \<Longrightarrow> a \<in> {1, 2, 3, 4, 5, 6}"
proof -
  assume "unat a \<in> {1..6}"
  then have "unat a \<in> {1, 2, 3, 4, 5, 6}" by auto
  then show ?thesis by (auto simp: word_unat_eq_iff)
qed

lemma d7_ClassifyRoll:
  "ClassifyRoll config a b = Inr r \<longleftrightarrow>
     unat a \<in> {1..6} \<and> unat b \<in> {1..6} \<and> r = roll_result config (unat a) (unat b)"
proof (cases "unat a \<in> {1..6} \<and> unat b \<in> {1..6}")
  case True
  then have "a \<in> {1, 2, 3, 4, 5, 6}" "b \<in> {1, 2, 3, 4, 5, 6}" using d7_faces by blast+
  then show ?thesis
    by (elim insertE emptyE) (auto simp: ClassifyRoll_def selectResult_def roll_result_def Let_def)
next
  case False
  then show ?thesis by (auto simp: ClassifyRoll_def word_le_nat_alt word_less_nat_alt not_le)
qed

lemma d7_landed_drink_effect:
  assumes v: "valid s" and l: "applyLanded s now cause = Inr (t, es)"
    and r: "st_PendingResult s \<in> {ResultEight, ResultNine, ResultDoubleFour}"
  shows "\<exists>drunk. unat drunk = (if st_PendingResult s = ResultNine then unat (st_TotalPoolTicks s)
      else (unat (st_TotalPoolTicks s) + 1) div 2) \<and>
    st_Players t = drinks (st_SourceUserID s) drunk (st_Players s) \<and>
    unat (st_TotalPoolTicks t) + unat drunk = unat (st_TotalPoolTicks s) \<and>
    st_CurrentUserID t = st_SourceUserID s \<and>
    (if st_PendingResult s = ResultDoubleFour then st_Phase t = PhaseAwaitingRoll else st_Phase t = PhaseAwaitingContinue)"
proof -
  have ph: "st_Phase s = PhaseResultPending" "validRollResult (st_PendingResult s)"
    using l unfolding applyLanded_def guard_eq_Inr by blast+
  have live: "st_Phase s \<noteq> PhaseFinished" using ph(1) by simp
  have f: "frozen_ok s" using d7_valid_live(1) [OF v live] .
  define a where "a = (if st_PendingResult s = ResultNine then st_TotalPoolTicks s else HalfCeil (st_TotalPoolTicks s))"
  have a: "a \<le> st_TotalPoolTicks s" by (simp add: a_def HalfCeil_le)
  then have min: "min a (st_TotalPoolTicks s) = a" by (simp add: min_def)
  have sum: "unat (st_TotalPoolTicks s - a) + unat a = unat (st_TotalPoolTicks s)"
    using a by (simp add: unat_sub word_le_nat_alt)
  have drink: "st_Players m = drinks (st_SourceUserID s) a (st_Players s)" "st_TotalPoolTicks m = st_TotalPoolTicks s - a"
    "st_SourceUserID m = st_SourceUserID s"
    if d: "applyDrink s (st_SourceUserID s) a reason ev = Inr (m, ev')" for reason ev m ev'
  proof -
    from d obtain n where "addPenalty s (st_SourceUserID s) (min a (st_TotalPoolTicks s)) = Inr n"
      "setPoolTotal n (st_TotalPoolTicks s - min a (st_TotalPoolTicks s)) = Inr m" by (rule d7_applyDrink)
    then have n: "addPenalty s (st_SourceUserID s) a = Inr n" "setPoolTotal n (st_TotalPoolTicks s - a) = Inr m"
      by (simp_all only: min)
    from d7_charge_effect [OF n f] show "st_Players m = drinks (st_SourceUserID s) a (st_Players s)"
      "st_TotalPoolTicks m = st_TotalPoolTicks s - a" "st_SourceUserID m = st_SourceUserID s" by simp_all
  qed
  have "st_Players t = drinks (st_SourceUserID s) a (st_Players s) \<and> st_TotalPoolTicks t = st_TotalPoolTicks s - a \<and>
    st_CurrentUserID t = st_SourceUserID s \<and>
    (if st_PendingResult s = ResultDoubleFour then st_Phase t = PhaseAwaitingRoll else st_Phase t = PhaseAwaitingContinue)"
  proof (cases "st_PendingResult s = ResultDoubleFour")
    case True
    with l ph obtain m ev ev' fs where m: "applyDrink s (st_SourceUserID s) a ''double_four'' ev = Inr (m, ev')"
      and fin: "finishTurn (m\<lparr>st_LastSettlement := settlementFromState m ResultNone [] ''double_four''\<rparr>)
        (st_SourceUserID s) (st_SourceUserID s) now = Inr (t, fs)"
      by (auto simp: applyLanded_def Let_def outcome a_def elim!: d7_settle_landed)
    have "st_SourceUserID s \<noteq> []"
      using d7_pending(4) [OF v] ph(1) d7_frozen_users(2) [OF f] by simp
    with fin drink [OF m] True show ?thesis by (auto elim!: d7_finishTurn_Inr)
  next
    case False
    with l ph r obtain reason ev where "applyDrinkAndContinue s (st_SourceUserID s) a reason ev now = Inr (t, es)"
      by (auto simp: applyLanded_def Let_def a_def)
    then obtain m ev' d where m: "applyDrink s (st_SourceUserID s) a reason ev = Inr (m, ev')"
      and t: "t = m\<lparr>st_LastSettlement := settlementFromState m ResultNone [] reason, st_Phase := PhaseAwaitingContinue,
        st_CurrentUserID := st_SourceUserID m, st_TargetUserID := [], st_ActionDeadlineUnixMillis := d\<rparr>"
      by (auto simp: applyDrinkAndContinue_def outcome Let_def)
    from drink [OF m] False show ?thesis by (simp add: t)
  qed
  with sum show ?thesis by (intro exI [of _ a]) (simp add: a_def d7_half)
qed

lemma d7_landed_pair_effect:
  assumes v: "valid s" and l: "applyLanded s now cause = Inr (t, es)" and r: "st_PendingResult s = ResultOrdinaryPair"
  shows "st_Players t = st_Players s \<and> st_TotalPoolTicks t = st_TotalPoolTicks s \<and> st_Phase t = PhaseAwaitingRoll \<and>
    (if activeCount (st_Players s) = 2 then st_Direction t = st_Direction s \<and> st_CurrentUserID t = st_SourceUserID s
     else st_Direction t = reverseDirection (st_Direction s) \<and>
       nextActiveUser (s\<lparr>st_Direction := reverseDirection (st_Direction s)\<rparr>) (st_SourceUserID s) = Inr (st_CurrentUserID t))"
proof -
  have ph: "st_Phase s = PhaseResultPending" "validRollResult (st_PendingResult s)"
    using l unfolding applyLanded_def guard_eq_Inr by blast+
  have live: "st_Phase s \<noteq> PhaseFinished" using ph(1) by simp
  note ok = d7_valid_live [OF v live]
  have src: "st_SourceUserID s \<noteq> []"
    using d7_pending(4) [OF v] ph(1) d7_frozen_users(2) [OF ok(1)] by simp
  have count: "2 \<le> activeCount (st_Players s)" using ok(6) by (simp add: MinimumPlayers_def)
  show ?thesis
  proof (cases "activeCount (st_Players s) = 2")
    case True
    with l ph r obtain e fs where "finishTurn (s\<lparr>st_LastSettlement := e\<rparr>) (st_SourceUserID s) (st_SourceUserID s) now = Inr (t, fs)"
      by (auto simp: applyLanded_def Let_def elim!: d7_settle_landed)
    with True src show ?thesis by (auto elim!: d7_finishTurn_Inr)
  next
    case False
    with count have three: "3 \<le> activeCount (st_Players s)" by linarith
    with False l ph r obtain e fs where "finishTurn (s\<lparr>st_Direction := reverseDirection (st_Direction s), st_LastSettlement := e\<rparr>)
        (st_SourceUserID s) [] now = Inr (t, fs)"
      by (auto simp: applyLanded_def Let_def elim!: d7_settle_landed)
    with False show ?thesis
      by (auto elim!: d7_finishTurn_Inr simp: d7_nextActiveUser Direction_Valid_def reverseDirection_def)
  qed
qed

lemma d7_target_effect:
  assumes "ChooseTarget s actor target now = Inr (t, es)"
  shows "target \<noteq> actor \<and> actor = st_SourceUserID s \<and> activePlayer s target \<and> st_CurrentUserID t = target \<and>
    (if st_PendingResult s = ResultDoubleOne
     then st_Players t = drinks target (st_TotalPoolTicks s) (st_Players s) \<and> st_TotalPoolTicks t = 0 \<and>
       st_Phase t = PhaseAwaitingRoll
     else st_PendingResult s = ResultDoubleSix \<and> st_Players t = st_Players s \<and>
       st_TotalPoolTicks t = st_TotalPoolTicks s \<and> st_Phase t = PhaseAwaitingAdd)"
proof -
  from assms have "chooseTarget s actor target now False = Inr (t, es)" by (simp add: ChooseTarget_def)
  then obtain v: "valid s" "st_Phase s = PhaseAwaitingTarget" and actor: "actor = st_CurrentUserID s" "target \<noteq> actor"
    and act: "d7.active_user (st_Players s) target"
    and step: "if st_PendingResult s = ResultDoubleOne
     then \<exists>n m es'. addPenalty (s\<lparr>st_TargetUserID := target\<rparr>) target (st_TotalPoolTicks s) = Inr n \<and>
       setPoolTotal n 0 = Inr m \<and>
       finishTurn (m\<lparr>st_LastSettlement := settlementFromState m ResultNone target
         (if False then ''timeout_target'' else ''double_one'')\<rparr>) actor target now = Inr (t, es')
     else \<exists>d. deadlineUnixMillis now (cf_ActionTimeoutSeconds (st_Config s)) = Inr d \<and>
       t = s\<lparr>st_TargetUserID := target, st_CurrentUserID := target, st_Phase := PhaseAwaitingAdd,
         st_ActionDeadlineUnixMillis := d\<rparr>"
    by (rule d7_chooseTarget_Inr)
  have live: "st_Phase s \<noteq> PhaseFinished" using v(2) by simp
  have f: "frozen_ok (s\<lparr>st_TargetUserID := target\<rparr>)" using d7_valid_live(1) [OF v(1) live] by simp
  have ne: "target \<noteq> []" using d7_frozen_users(2) [OF d7_valid_live(1) [OF v(1) live]] d7.active_user_mem [OF act] by blast
  note tg = d7_awaiting_target [OF v]
  show ?thesis
  proof (cases "st_PendingResult s = ResultDoubleOne")
    case True
    with step obtain n m es' where n: "addPenalty (s\<lparr>st_TargetUserID := target\<rparr>) target (st_TotalPoolTicks s) = Inr n"
      "setPoolTotal n 0 = Inr m"
      and fin: "finishTurn (m\<lparr>st_LastSettlement := settlementFromState m ResultNone target ''double_one''\<rparr>) actor target now = Inr (t, es')"
      by auto
    from fin ne d7_charge_effect [OF n f] True actor tg act show ?thesis
      by (auto elim!: d7_finishTurn_Inr simp: d7_activePlayer)
  qed (use step actor tg act in \<open>auto simp: d7_activePlayer\<close>)
qed

lemma d7_add_effect:
  assumes "AddToPool s actor amount now = Inr (t, es)"
  shows "actor = st_CurrentUserID s \<and> st_Players t = st_Players s \<and>
    unat (st_TotalPoolTicks t) = unat (st_TotalPoolTicks s) + unat amount \<and>
    st_TotalPoolTicks t \<le> mustCapacity (st_Config s) \<and>
    (if st_PendingResult s = ResultDoubleSix
     then st_Phase t = PhaseAwaitingRoll \<and> nextActiveUser s (st_SourceUserID s) = Inr (st_CurrentUserID t)
     else st_Phase t = PhaseAwaitingContinue \<and> st_CurrentUserID t = st_SourceUserID s)"
proof -
  from assms have "addToPool s actor amount now False = Inr (t, es)" by (simp add: AddToPool_def)
  then obtain pool es' where v: "valid s" "st_Phase s = PhaseAwaitingAdd" and actor: "actor = st_CurrentUserID s"
    and amount: "validateAddAmount s amount = Inr ()"
    and step: "let n = s\<lparr>st_Pool := pool, st_TotalPoolTicks := st_TotalPoolTicks s + amount\<rparr> in
     if st_PendingResult s = ResultDoubleSix
     then finishTurn (n\<lparr>st_LastSettlement := settlementFromState n ResultNone (st_TargetUserID s)
         (if False then ''timeout_add'' else ''double_six_add'')\<rparr>) (st_SourceUserID s) [] now = Inr (t, es')
     else \<exists>d. deadlineUnixMillis now (cf_ActionTimeoutSeconds (st_Config s)) = Inr d \<and>
       t = n\<lparr>st_LastSettlement := settlementFromState n ResultNone [] ''seven_add'',
         st_Phase := PhaseAwaitingContinue, st_CurrentUserID := st_SourceUserID n, st_TargetUserID := [],
         st_ActionDeadlineUnixMillis := d\<rparr>"
    by (rule d7_addToPool_Inr)
  have live: "st_Phase s \<noteq> PhaseFinished" using v(2) by simp
  note ok = d7_valid_live [OF v(1) live]
  note add = d7_add_amount [OF amount d7_pool_bounds(1) [OF ok(1,2)]]
  have dir: "Direction_Valid (st_Direction s)" using ok(1) by (simp add: frozen_ok_def)
  show ?thesis
  proof (cases "st_PendingResult s = ResultDoubleSix")
    case True
    with step have "finishTurn ((s\<lparr>st_Pool := pool, st_TotalPoolTicks := st_TotalPoolTicks s + amount\<rparr>)
        \<lparr>st_LastSettlement := settlementFromState (s\<lparr>st_Pool := pool, st_TotalPoolTicks := st_TotalPoolTicks s + amount\<rparr>)
          ResultNone (st_TargetUserID s) ''double_six_add''\<rparr>) (st_SourceUserID s) [] now = Inr (t, es')"
      by (simp add: Let_def)
    then show ?thesis using True actor add dir by (elim d7_finishTurn_Inr) (simp add: d7_nextActiveUser)
  next
    case False
    with step actor add show ?thesis by (auto simp: Let_def)
  qed
qed

section \<open>A sample session\<close>

text \<open>Three players; the rolls that the properties are applied to.\<close>

definition demo_digest :: digest where
  "demo_digest bytes = [foldr (+) bytes 0 mod 252]"

definition demo_seed :: "u8 list" where "demo_seed = 1 # replicate 31 0"

definition demo_config :: Config where "demo_config = (DefaultConfig True)\<lparr>cf_InitialPoolTicks := 19\<rparr>"

definition demo_participants :: "Participant list" where
  "demo_participants = [\<lparr>pt_UserID = ''bob'', pt_SeatIndex = 4\<rparr>, \<lparr>pt_UserID = ''ann'', pt_SeatIndex = 1\<rparr>,
     \<lparr>pt_UserID = ''cy'', pt_SeatIndex = 2\<rparr>]"

definition demo_new :: "i64 \<Rightarrow> (State \<times> Event list) result" where
  "demo_new now = NewState demo_digest demo_config demo_participants ''ann'' 1 now demo_seed"

definition demo_start :: State where "demo_start = state_of (demo_new 1000)"

definition demo_roll :: "u32 \<Rightarrow> u32 \<Rightarrow> (State \<times> Event list) result" where
  "demo_roll a b = applyRoll demo_start ''ann'' a b 2000"

definition demo_rolled :: "u32 \<Rightarrow> u32 \<Rightarrow> State" where "demo_rolled a b = state_of (demo_roll a b)"

definition demo_landed :: "u32 \<Rightarrow> u32 \<Rightarrow> (State \<times> Event list) result" where
  "demo_landed a b = applyLanded (demo_rolled a b) 3000 ''confirmed''"

definition demo_after :: "u32 \<Rightarrow> u32 \<Rightarrow> State" where "demo_after a b = state_of (demo_landed a b)"

definition demo_timer :: ActionTimer where
  "demo_timer = \<lparr>tm_Turn = 1, tm_Phase = PhaseAwaitingRoll, tm_CurrentUserID = ''ann'', tm_SourceUserID = [],
     tm_TargetUserID = [], tm_PendingResult = ResultNone, tm_DeadlineUnixMillis = 31000\<rparr>"

lemma d7_demo_new:
  "NewState demo_digest demo_config demo_participants ''ann'' 1 1000 demo_seed = Inr (demo_start, events_of (demo_new 1000))"
  unfolding demo_start_def demo_new_def by (rule ok_result) code_simp

lemma d7_demo_start: "valid demo_start"
  using d7_NewState_inv(1) [OF d7_demo_new] by (simp add: inv789_def)

lemma d7_demo_roll:
  "\<not> isl (demo_roll a b) \<Longrightarrow> applyRoll demo_start ''ann'' a b 2000 = Inr (demo_rolled a b, events_of (demo_roll a b))"
  unfolding demo_rolled_def demo_roll_def by (rule ok_result)

lemma d7_demo_rolled: "\<not> isl (demo_roll a b) \<Longrightarrow> valid (demo_rolled a b)"
  using d7_applyRoll_inv [OF d7_demo_roll] by (simp add: inv789_def)

lemma d7_demo_landed:
  "\<not> isl (demo_landed a b) \<Longrightarrow>
     applyLanded (demo_rolled a b) 3000 ''confirmed'' = Inr (demo_after a b, events_of (demo_landed a b))"
  unfolding demo_after_def demo_landed_def by (rule ok_result)

lemma d7_demo_rolls:
  "\<not> isl (demo_roll 3 5)" "\<not> isl (demo_roll 3 3)" "\<not> isl (demo_roll 1 1)" "\<not> isl (demo_roll 3 4)" "\<not> isl (demo_roll 6 6)"
  by code_simp+

lemma d7_demo_landings:
  "\<not> isl (demo_landed 3 5)" "\<not> isl (demo_landed 3 3)" "\<not> isl (demo_landed 1 1)" "\<not> isl (demo_landed 3 4)"
  by code_simp+

lemma d7_demo_results:
  "st_PendingResult (demo_rolled 3 5) = ResultEight" "st_PendingResult (demo_rolled 3 3) = ResultOrdinaryPair"
  by code_simp+

lemma d7_demo_timer: "CurrentTimer demo_start = Some demo_timer"
  by code_simp

lemma d7_demo_no_penalties: "list_all (\<lambda>p. pl_PenaltyTicks p = 0) (st_Players demo_start)"
  by code_simp

lemma d7_demo_turn: "st_Turn demo_start \<noteq> MaxUint32"
  by code_simp

lemma d7_demo_headroom: "headroom demo_start 31000"
  using d7_demo_no_penalties d7_demo_turn by (simp add: headroom_def list_all_iff MaxInt64_def)

definition demo_target :: "(State \<times> Event list) result" where
  "demo_target = ChooseTarget (demo_after 1 1) ''ann'' ''cy'' 4000"

lemma d7_demo_target: "ChooseTarget (demo_after 1 1) ''ann'' ''cy'' 4000 = Inr (state_of demo_target, events_of demo_target)"
  unfolding demo_target_def by (rule ok_result) code_simp


definition demo_finish :: "(State \<times> Event list) result" where
  "demo_finish = Finish demo_start []"

lemma d7_demo_finish: "Finish demo_start [] = Inr (state_of demo_finish, events_of demo_finish)"
  unfolding demo_finish_def by (rule ok_result) code_simp

lemma d7_demo_config_ok: "Config_Validate (st_Config demo_start) 3 = Inr ()"
  by code_simp

definition demo_added :: "(State \<times> Event list) result" where
  "demo_added = AddToPool (demo_after 3 4) ''ann'' 5 4000"

lemma d7_demo_added: "AddToPool (demo_after 3 4) ''ann'' 5 4000 = Inr (state_of demo_added, events_of demo_added)"
  unfolding demo_added_def by (rule ok_result) code_simp

text \<open>A session close to the largest representable time, and a snapshot with a stale pending total.\<close>

definition late_roll :: State where
  "late_roll = state_of (applyRoll (state_of (demo_new (MaxInt64 - 30000))) ''ann'' 3 4 (MaxInt64 - 10000))"

definition late_landed :: "(State \<times> Event list) result" where
  "late_landed = ConfirmLanded late_roll ''ann'' (MaxInt64 - 9000)"

definition stale_snapshot :: State where
  "stale_snapshot = (demo_after 3 4)\<lparr>st_PendingPoolBeforeTicks := 24\<rparr>"

definition stale_added :: "(State \<times> Event list) result" where
  "stale_added = AddToPool stale_snapshot ''ann'' 1 4000"

lemma d7_late: "Validate late_roll = Inr ()" "isl late_landed = False" "Validate (state_of late_landed) \<noteq> Inr ()"
  by code_simp+

lemma d7_stale: "Validate stale_snapshot = Inr ()" "isl stale_added = False" "Validate (state_of stale_added) \<noteq> Inr ()"
  by code_simp+

section \<open>Properties\<close>



text \<open>
  No command makes the engine index a player that does not exist or loop, not even on a state that a faulty
  snapshot restored.
\<close>

theorem d7_never_panics:
  "engine_step sha256 s c \<noteq> Inl Panic \<and> engine_step sha256 s c \<noteq> Inl Diverge"
  using d7_np_step [of sha256 s c] by (simp add: no_panic_def)



text \<open>
  A due timer is always handled, in every phase: the engine takes the fallback of the phase and the turn moves on. The
  bounds exclude only overflow of the turn counter, of the penalties and of the clock.
\<close>

theorem d7_timer_due:
  assumes "Validate s = Inr ()" and "CurrentTimer s = Some timer" and "tm_DeadlineUnixMillis timer \<le> now"
    and "headroom s now"
  shows "\<exists>t es. HandleTimeout s timer now = Inr (t, es) \<and> advances s t"
  using d7_HandleTimeout_total [of s timer now] d7_HandleTimeout_advances [of s timer now] assms
  by (force simp: d7_Validate succeeds_def)

theorem d7_timer_due_witness:
  "Validate demo_start = Inr () \<and> (\<exists>t es. HandleTimeout demo_start demo_timer 31000 = Inr (t, es) \<and> advances demo_start t)"
  using d7_timer_due [OF _ d7_demo_timer _ d7_demo_headroom] d7_demo_start by (simp add: d7_Validate demo_timer_def)

text \<open>
  An accepted command other than a removal either ends the turn or moves it to a later phase, so a turn takes at most
  four of them; the timer that was running before it is rejected from then on.
\<close>

theorem d7_turn_progress:
  assumes "engine_step sha256 s c = Inr (t, es)" and "\<not> removes_player c" and "CurrentTimer s = Some timer"
  shows "(unat (st_Turn t) = Suc (unat (st_Turn s)) \<and> st_Phase t = PhaseAwaitingRoll \<or>
      st_Turn t = st_Turn s \<and> phase_rank (st_Phase s) < phase_rank (st_Phase t)) \<and>
    (\<exists>e. HandleTimeout t timer now = Inl e)"
proof -
  have adv: "advances s t" by (rule d7_step_advances [OF assms(1,2)])
  have "\<exists>e. HandleTimeout t timer now = Inl e"
  proof (cases "HandleTimeout t timer now")
    case (Inr r)
    obtain u fs where "r = (u, fs)" by (cases r)
    with Inr have "CurrentTimer t = Some timer" using d7_HandleTimeout_Inr(4) by blast
    with assms(3) adv show ?thesis by (auto simp: CurrentTimer_def advances_def split: if_splits)
  qed simp
  with adv show ?thesis by (simp add: advances_def)
qed

theorem d7_turn_progress_witness:
  "CurrentTimer demo_start = Some demo_timer \<and> (\<exists>e. HandleTimeout (state_of demo_finish) demo_timer 31000 = Inl e)"
  using d7_turn_progress [of demo_digest demo_start "CmdFinish []" _ _ demo_timer 31000] d7_demo_timer d7_demo_finish
  by simp

text \<open>
  A landed eight or double four makes the roller drink half of the pool rounded up, a nine all of it; nobody else is
  charged, what was drunk leaves the pool, and a double four gives the roller the next roll.
\<close>

theorem d7_drink_exact:
  assumes "Validate s = Inr ()" and "applyLanded s now cause = Inr (t, es)"
    and "st_PendingResult s \<in> {ResultEight, ResultNine, ResultDoubleFour}"
  shows "\<exists>drunk. unat drunk = (if st_PendingResult s = ResultNine then unat (st_TotalPoolTicks s)
      else (unat (st_TotalPoolTicks s) + 1) div 2) \<and>
    st_Players t = drinks (st_SourceUserID s) drunk (st_Players s) \<and>
    unat (st_TotalPoolTicks t) + unat drunk = unat (st_TotalPoolTicks s) \<and>
    st_CurrentUserID t = st_SourceUserID s \<and>
    (if st_PendingResult s = ResultDoubleFour then st_Phase t = PhaseAwaitingRoll else st_Phase t = PhaseAwaitingContinue)"
  using d7_landed_drink_effect [OF _ assms(2,3)] assms(1) by (simp add: d7_Validate)

theorem d7_drink_exact_witness:
  "Validate (demo_rolled 3 5) = Inr () \<and> st_PendingResult (demo_rolled 3 5) = ResultEight \<and>
   st_CurrentUserID (demo_after 3 5) = st_SourceUserID (demo_rolled 3 5)"
  using d7_drink_exact [OF _ d7_demo_landed [OF d7_demo_landings(1)]] d7_demo_rolled [OF d7_demo_rolls(1)] d7_demo_results(1)
  by (auto simp: d7_Validate)

text \<open>
  A landed ordinary pair changes no ticks. With two active players the roller rolls again and the direction stays; with
  more the direction is reversed and the turn goes to the next active player in the new direction.
\<close>

theorem d7_pair_direction:
  assumes "Validate s = Inr ()" and "applyLanded s now cause = Inr (t, es)" and "st_PendingResult s = ResultOrdinaryPair"
  shows "st_Players t = st_Players s \<and> st_TotalPoolTicks t = st_TotalPoolTicks s \<and> st_Phase t = PhaseAwaitingRoll \<and>
    (if activeCount (st_Players s) = 2 then st_Direction t = st_Direction s \<and> st_CurrentUserID t = st_SourceUserID s
     else st_Direction t = reverseDirection (st_Direction s) \<and>
       nextActiveUser (s\<lparr>st_Direction := reverseDirection (st_Direction s)\<rparr>) (st_SourceUserID s) = Inr (st_CurrentUserID t))"
  using d7_landed_pair_effect [OF _ assms(2,3)] assms(1) by (simp add: d7_Validate)

theorem d7_pair_direction_witness:
  "Validate (demo_rolled 3 3) = Inr () \<and> st_PendingResult (demo_rolled 3 3) = ResultOrdinaryPair \<and>
   st_Players (demo_after 3 3) = st_Players (demo_rolled 3 3)"
  using d7_pair_direction [OF _ d7_demo_landed [OF d7_demo_landings(2)] d7_demo_results(2)] d7_demo_rolled [OF d7_demo_rolls(2)]
    d7_demo_results(2) by (simp add: d7_Validate)

text \<open>
  A roll has exactly one result, by the priority of the rules: enabled special doubles, enabled ordinary pairs, then the
  sum. Matching the last digit of the sum never changes the result of two dice.
\<close>

theorem d7_roll_priority:
  "(ClassifyRoll config a b = Inr r \<longleftrightarrow>
     unat a \<in> {1..6} \<and> unat b \<in> {1..6} \<and> r = roll_result config (unat a) (unat b)) \<and>
   ClassifyRoll (config\<lparr>cf_LastDigitMatch := lastDigit\<rparr>) a b = ClassifyRoll config a b"
proof -
  have "ClassifyRoll (config\<lparr>cf_LastDigitMatch := lastDigit\<rparr>) a b = ClassifyRoll config a b"
  proof (cases "ClassifyRoll config a b")
    case (Inr r)
    have "roll_result (config\<lparr>cf_LastDigitMatch := lastDigit\<rparr>) (unat a) (unat b) = roll_result config (unat a) (unat b)"
      by (simp add: roll_result_def)
    with Inr have "ClassifyRoll (config\<lparr>cf_LastDigitMatch := lastDigit\<rparr>) a b = Inr r" by (simp add: d7_ClassifyRoll)
    with Inr show ?thesis by simp
  qed (auto simp: ClassifyRoll_def split: if_splits)
  then show ?thesis by (simp add: d7_ClassifyRoll)
qed

text \<open>
  The target of a double one drinks the whole pool and rolls next; the target of a double six has to add to the pool,
  which charges nobody. The target is never the roller.
\<close>

theorem d7_target_takes_turn:
  assumes "ChooseTarget s actor target now = Inr (t, es)"
  shows "target \<noteq> actor \<and> actor = st_SourceUserID s \<and> activePlayer s target \<and> st_CurrentUserID t = target \<and>
    (if st_PendingResult s = ResultDoubleOne
     then st_Players t = drinks target (st_TotalPoolTicks s) (st_Players s) \<and> st_TotalPoolTicks t = 0 \<and>
       st_Phase t = PhaseAwaitingRoll
     else st_PendingResult s = ResultDoubleSix \<and> st_Players t = st_Players s \<and>
       st_TotalPoolTicks t = st_TotalPoolTicks s \<and> st_Phase t = PhaseAwaitingAdd)"
  by (rule d7_target_effect [OF assms])

theorem d7_target_takes_turn_witness:
  "ChooseTarget (demo_after 1 1) ''ann'' ''cy'' 4000 = Inr (state_of demo_target, events_of demo_target) \<and>
   st_CurrentUserID (state_of demo_target) = ''cy''"
  using d7_target_takes_turn [OF d7_demo_target] d7_demo_target by blast

text \<open>
  An accepted add fills the pool by the amount, without wrap-around and within capacity, and charges nobody. After a
  double six the turn goes on from the roller, after a seven the roller chooses how to continue.
\<close>

theorem d7_add_bounded:
  assumes "AddToPool s actor amount now = Inr (t, es)"
  shows "actor = st_CurrentUserID s \<and> st_Players t = st_Players s \<and>
    unat (st_TotalPoolTicks t) = unat (st_TotalPoolTicks s) + unat amount \<and>
    st_TotalPoolTicks t \<le> mustCapacity (st_Config s) \<and>
    (if st_PendingResult s = ResultDoubleSix
     then st_Phase t = PhaseAwaitingRoll \<and> nextActiveUser s (st_SourceUserID s) = Inr (st_CurrentUserID t)
     else st_Phase t = PhaseAwaitingContinue \<and> st_CurrentUserID t = st_SourceUserID s)"
  by (rule d7_add_effect [OF assms])

theorem d7_add_bounded_witness:
  "AddToPool (demo_after 3 4) ''ann'' 5 4000 = Inr (state_of demo_added, events_of demo_added) \<and>
   unat (st_TotalPoolTicks (state_of demo_added)) = unat (st_TotalPoolTicks (demo_after 3 4)) + unat (5 :: u32)"
  using d7_add_bounded [OF d7_demo_added] d7_demo_added by blast

text \<open>
  An add is legal exactly when it fills the pool or is a positive multiple of the step that leaves room, and the amount
  that a timeout adds is the least legal one.
\<close>

theorem d7_add_legality:
  assumes "Validate s = Inr ()"
  shows "\<exists>rest step. rest = unat (cf_LayerCapacityTicks (st_Config s)) * unat (cf_MaxLayers (st_Config s)) - unat (st_TotalPoolTicks s) \<and>
    step = unat (cf_AddStepTicks (st_Config s)) \<and>
    (\<forall>amount. validateAddAmount s amount = Inr () \<longleftrightarrow> legal_add rest step (unat amount)) \<and>
    (\<exists>least. minimumAddAmount s = Inr least \<and> legal_add rest step (unat least) \<and>
      (\<forall>amount. legal_add rest step amount \<longrightarrow> unat least \<le> amount))"
proof -
  from assms have f: "frozen_ok s" "pool_ok s" by (auto simp: d7_Validate valid_def)
  note c = d7_frozen_config [OF f(1)] and le = d7_pool_bounds(1) [OF f]
  note step = d7_config(5) [OF c]
  obtain least where least: "minimumAddAmount s = Inr least" "validateAddAmount s least = Inr ()"
    using d7_minimum_add [OF le step] by blast
  define rest where "rest = mustCapacity (st_Config s) - st_TotalPoolTicks s"
  have "unat (mustCapacity (st_Config s)) - unat (st_TotalPoolTicks s) = unat rest"
    using le by (simp add: rest_def unat_sub word_le_nat_alt)
  moreover have "unat least \<le> amount" if "legal_add (unat rest) (unat (cf_AddStepTicks (st_Config s))) amount" for amount
    using that least(1)
    by (auto simp: legal_add_def minimumAddAmount_def Let_def rest_def [symmetric] word_less_nat_alt not_less
        dest: dvd_imp_le split: if_splits)
  ultimately show ?thesis
    using d7_validateAddAmount [OF le step] least d7_capacity(2) [OF c] by simp
qed

theorem d7_add_legality_witness:
  "Validate demo_start = Inr () \<and> (\<exists>least. minimumAddAmount demo_start = Inr least)"
  using d7_add_legality [of demo_start] d7_demo_start by (auto simp: d7_Validate)

text \<open>
  On a valid configuration, \<open>validatePool\<close> accepts exactly the stack of layers that \<open>poolFromTotal\<close> builds for the
  stored total: all layers but the last full, none empty unless the pool is, and as many ticks as the total says.
\<close>

theorem d7_pool_canonical:
  assumes "Config_Validate (st_Config s) players = Inr ()"
  shows "(validatePool s = Inr () \<longleftrightarrow> poolFromTotal (st_Config s) (st_TotalPoolTicks s) = Inr (st_Pool s)) \<and>
    (\<forall>amount \<le> mustCapacity (st_Config s). \<exists>pool. poolFromTotal (st_Config s) amount = Inr pool \<and>
       sum_list (map (\<lambda>layer. unat (ly_Ticks layer)) pool) = unat amount)"
proof -
  have "layers_sum pool = sum_list (map (\<lambda>layer. unat (ly_Ticks layer)) pool)" for pool
    by (simp add: layers_sum_def comp_def)
  with d7_validatePool [OF assms] d7_poolFromTotal [OF assms] show ?thesis by metis
qed

theorem d7_pool_canonical_witness:
  "Config_Validate (st_Config demo_start) 3 = Inr () \<and>
   (validatePool demo_start = Inr () \<longleftrightarrow> poolFromTotal (st_Config demo_start) (st_TotalPoolTicks demo_start) = Inr (st_Pool demo_start))"
  using d7_pool_canonical [OF d7_demo_config_ok] d7_demo_config_ok by blast

text \<open>
  Near the largest representable time the landing of a seven succeeds with a state that \<open>Validate\<close> rejects: the
  error of the deadline computation is discarded, and from then on the session accepts no command at all.
\<close>

theorem d7_deadline_lost:
  "Validate late_roll = Inr () \<and>
   ConfirmLanded late_roll ''ann'' (MaxInt64 - 9000) = Inr (state_of late_landed, events_of late_landed) \<and>
   Validate (state_of late_landed) \<noteq> Inr () \<and>
   (\<forall>sha256 c. \<exists>e. engine_step sha256 (state_of late_landed) c = Inl e)"
proof -
  have ok: "ConfirmLanded late_roll ''ann'' (MaxInt64 - 9000) = Inr (state_of late_landed, events_of late_landed)"
    using ok_result [of late_landed] d7_late(2) by (simp add: late_landed_def)
  have "\<exists>e. engine_step sha256 (state_of late_landed) c = Inl e" for sha256 c
    using d7_step_valid(1) [of sha256 "state_of late_landed" c] d7_late(3)
    by (cases "engine_step sha256 (state_of late_landed) c") (auto simp: d7_Validate)
  with ok d7_late show ?thesis by blast
qed

text \<open>
  \<open>Validate\<close> accepts a restored snapshot whose pending total disagrees with the pool, and the next accepted add then
  produces a state that \<open>Validate\<close> rejects.
\<close>

theorem d7_snapshot_gap:
  "Validate stale_snapshot = Inr () \<and>
   AddToPool stale_snapshot ''ann'' 1 4000 = Inr (state_of stale_added, events_of stale_added) \<and>
   Validate (state_of stale_added) \<noteq> Inr ()"
  using ok_result [of stale_added] d7_stale by (simp add: stale_added_def)

end
