(* ===== verification/MeetHands.thy ===== *)
theory MeetHands
  imports Contract Dice
begin

text \<open>
  The configuration and the hands of meet by chance (\<open>config.go\<close>, \<open>errors.go\<close> and \<open>hand.go\<close> of
  \<open>games/meet-by-chance/engine\<close>). A hand is three dice. Ones may be wild; a hand is then the strongest of its
  interpretations. The hand 2-3-5 is the weakest of all, unless every other hand of the table is a leopard: then
  it is the strongest.
\<close>

section \<open>Configuration\<close>

definition CurrentSchemaVersion :: u32 where "CurrentSchemaVersion = 1"
definition MinimumPlayers :: nat where "MinimumPlayers = 3"
definition MaximumPlayers :: nat where "MaximumPlayers = 12"
definition DicePerPlayer :: u32 where "DicePerPlayer = 3"
definition MaximumPenaltyTicks :: Ticks where "MaximumPenaltyTicks = 16"
definition RoundHistoryLimit :: nat where "RoundHistoryLimit = 32"

datatype ErrorCode =
    CodeInvalidConfig | CodeInvalidParticipants | CodeInvalidState | CodeInvalidAction | CodeWrongPhase
  | CodeNotCurrentTarget | CodeRerollLimitReached | CodeTimerMismatch | CodeTimerNotDue | CodeActionExpired
  | CodeParticipantInactive | CodePenaltyOverflow | CodeRoundOverflow | CodeSeedInvalid | CodeSessionFinished
  | CodeMalformedPayload | CodeUnsupportedMigration | CodeProjectionUnavailable

type_synonym 'a result = "(ErrorCode, 'a) res"

record Config =
  cf_Straight123 :: bool
  cf_Straight234 :: bool
  cf_Straight345 :: bool
  cf_Straight456 :: bool
  cf_Special235Enabled :: bool
  cf_OnesWild :: bool
  cf_TargetPenaltyTicks :: Ticks
  cf_RerollPenaltyTicks :: Ticks
  cf_MatchPenaltyTicks :: Ticks
  cf_WeakExtraPenaltyTicks :: Ticks
  cf_TargetRerollLimit :: u32
  cf_MatchResolutionLimit :: u32
  cf_ActionTimeoutSeconds :: u32

definition DefaultConfig :: Config where
  "DefaultConfig = \<lparr>cf_Straight123 = True, cf_Straight234 = True, cf_Straight345 = True, cf_Straight456 = True,
     cf_Special235Enabled = True, cf_OnesWild = False, cf_TargetPenaltyTicks = 2, cf_RerollPenaltyTicks = 2,
     cf_MatchPenaltyTicks = 4, cf_WeakExtraPenaltyTicks = 2, cf_TargetRerollLimit = 2, cf_MatchResolutionLimit = 3,
     cf_ActionTimeoutSeconds = 30\<rparr>"

definition Config_Validate :: "Config \<Rightarrow> nat \<Rightarrow> unit result" where
  "Config_Validate config playerCount =
     (if playerCount < MinimumPlayers \<or> playerCount > MaximumPlayers \<or>
         \<not> cf_Straight123 config \<or> \<not> cf_Straight456 config \<or>
         cf_TargetPenaltyTicks config > MaximumPenaltyTicks \<or> cf_RerollPenaltyTicks config > MaximumPenaltyTicks \<or>
         cf_MatchPenaltyTicks config > MaximumPenaltyTicks \<or> cf_WeakExtraPenaltyTicks config > MaximumPenaltyTicks \<or>
         cf_TargetRerollLimit config > 3 \<or> cf_MatchResolutionLimit config > 8 \<or>
         (cf_ActionTimeoutSeconds config \<noteq> 0 \<and>
           (cf_ActionTimeoutSeconds config < 10 \<or> cf_ActionTimeoutSeconds config > 120))
      then ruleError CodeInvalidConfig ''configuration is outside frozen rules''
      else Inr ())"

record Participant =
  pt_UserID :: string
  pt_SeatIndex :: u32

text \<open>The loop of \<open>ValidateParticipants\<close>, with the users and the seats met so far.\<close>

fun validate_participants :: "string set \<Rightarrow> u32 set \<Rightarrow> Participant list \<Rightarrow> unit result" where
  "validate_participants users seats [] = Inr ()"
| "validate_participants users seats (participant # rest) =
     (case ParseIdentifier (pt_UserID participant) of
        Inl _ \<Rightarrow> ruleError CodeInvalidParticipants ''participant identity is invalid''
      | Inr _ \<Rightarrow>
          if pt_UserID participant \<in> users
          then ruleError CodeInvalidParticipants ''participant identity is duplicated''
          else if pt_SeatIndex participant \<in> seats
          then ruleError CodeInvalidParticipants ''participant seat is duplicated''
          else validate_participants (insert (pt_UserID participant) users) (insert (pt_SeatIndex participant) seats) rest)"

definition ValidateParticipants :: "Participant list \<Rightarrow> unit result" where
  "ValidateParticipants participants =
     (if length participants < MinimumPlayers \<or> length participants > MaximumPlayers
      then ruleError CodeInvalidParticipants ''participant count is unsupported''
      else validate_participants {} {} participants)"

text \<open>The seats are distinct, so the order that \<open>sort.Slice\<close> gives does not depend on its being stable.\<close>

definition canonicalParticipants :: "Participant list \<Rightarrow> Participant list result" where
  "canonicalParticipants participants =
     and_then (ValidateParticipants participants) (\<lambda>_. Inr (sort_key pt_SeatIndex participants))"

section \<open>Hands\<close>

text \<open>The first constructor of an enumeration stands for Go's zero value and for undefined values.\<close>

datatype HandClass = HandUnset | HandSingle | HandPair | HandStraight | HandLeopard | HandSpecial235

datatype Special235Context = Special235None | Special235Minimum | Special235BeatsLeopards

type_synonym i32 = int

text \<open>A Go array is a list of its length.\<close>

record RankKey =
  rk_Values :: "i32 list"
  rk_Length :: nat

record Hand =
  hn_Raw :: "Face list"
  hn_Normalized :: "Face list"
  hn_Class :: HandClass
  hn_FullKey :: RankKey
  hn_TieKey :: "i32 \<times> i32"
  hn_WildUsed :: bool
  hn_Special235 :: bool
  hn_SpecialContext :: Special235Context

definition zero_key :: RankKey where
  "zero_key = \<lparr>rk_Values = [0, 0, 0, 0, 0], rk_Length = 0\<rparr>"

definition zero_hand :: Hand where
  "zero_hand = \<lparr>hn_Raw = [0, 0, 0], hn_Normalized = [0, 0, 0], hn_Class = HandUnset, hn_FullKey = zero_key,
     hn_TieKey = (0, 0), hn_WildUsed = False, hn_Special235 = False, hn_SpecialContext = Special235None\<rparr>"

definition key :: "i32 list \<Rightarrow> RankKey" where
  "key values = \<lparr>rk_Values = take 5 (values @ [0, 0, 0, 0, 0]), rk_Length = length values\<rparr>"

definition sortedFaces :: "Face list \<Rightarrow> Face list" where
  "sortedFaces raw = sort raw"

definition straightEnabled :: "Face list \<Rightarrow> Config \<Rightarrow> bool" where
  "straightEnabled faces config =
     (if faces = [1, 2, 3] then cf_Straight123 config
      else if faces = [2, 3, 4] then cf_Straight234 config
      else if faces = [3, 4, 5] then cf_Straight345 config
      else if faces = [4, 5, 6] then cf_Straight456 config
      else False)"

text \<open>The conversion \<open>int32(face)\<close>.\<close>

definition face_int :: "Face \<Rightarrow> i32" where
  "face_int face = uint face"

definition classifyOrdinary :: "Face list \<Rightarrow> Config \<Rightarrow> Hand" where
  "classifyOrdinary raw config =
     (let normalized = sortedFaces raw; low = normalized ! 0; middle = normalized ! 1; high = normalized ! 2;
          hand = zero_hand\<lparr>hn_Raw := raw, hn_Normalized := normalized, hn_Class := HandSingle\<rparr> in
      if low = high then
        hand\<lparr>hn_Class := HandLeopard, hn_FullKey := key [4, face_int low], hn_TieKey := (4, face_int low)\<rparr>
      else if straightEnabled normalized config then
        hand\<lparr>hn_Class := HandStraight, hn_FullKey := key [3, face_int high], hn_TieKey := (3, face_int high)\<rparr>
      else if low = middle \<or> middle = high then
        (let (pair, single) = (if low = middle then (low, high) else (middle, low)) in
         hand\<lparr>hn_Class := HandPair, hn_FullKey := key [2, face_int pair, face_int single],
           hn_TieKey := (2, face_int pair)\<rparr>)
      else
        hand\<lparr>hn_FullKey := key [1, face_int high, face_int middle, face_int low, face_int (high + middle + low)],
          hn_TieKey := (1, face_int high)\<rparr>)"

text \<open>The comparison of the positions that both keys have.\<close>

fun compare_values :: "i32 list \<Rightarrow> i32 list \<Rightarrow> int" where
  "compare_values (l # ls) (r # rs) = (if l < r then -1 else if l > r then 1 else compare_values ls rs)"
| "compare_values _ _ = 0"

definition compareKey :: "RankKey \<Rightarrow> RankKey \<Rightarrow> int" where
  "compareKey left right =
     (let n = (if rk_Length right < rk_Length left then rk_Length right else rk_Length left);
          c = compare_values (take n (rk_Values left)) (take n (rk_Values right)) in
      if c \<noteq> 0 then c
      else if rk_Length left < rk_Length right then -1
      else if rk_Length left > rk_Length right then 1
      else 0)"

definition CompareHand :: "Hand \<Rightarrow> Hand \<Rightarrow> int" where
  "CompareHand left right = compareKey (hn_FullKey left) (hn_FullKey right)"

definition ExactMatch :: "Hand \<Rightarrow> Hand \<Rightarrow> bool" where
  "ExactMatch left right \<longleftrightarrow>
     hn_Normalized left = hn_Normalized right \<and> hn_Class left = hn_Class right \<and>
     compareKey (hn_FullKey left) (hn_FullKey right) = 0"

text \<open>The loop of \<open>compareCandidate\<close> goes from the highest die down.\<close>

fun compare_faces :: "Face list \<Rightarrow> Face list \<Rightarrow> int" where
  "compare_faces (l # ls) (r # rs) = (if l < r then -1 else if l > r then 1 else compare_faces ls rs)"
| "compare_faces _ _ = 0"

definition compareCandidate :: "Hand \<Rightarrow> Hand \<Rightarrow> int" where
  "compareCandidate left right =
     (let comparison = CompareHand left right in
      if comparison \<noteq> 0 then comparison
      else compare_faces (rev (hn_Normalized left)) (rev (hn_Normalized right)))"

text \<open>
  The recursive enumeration of the replacements for the ones at the given positions. The source writes to one array and
  puts the one back after its loop, so the array it passes on is the one of the model.
\<close>

fun enumerate :: "Config \<Rightarrow> Face list \<Rightarrow> nat list \<Rightarrow> Face list \<Rightarrow> Hand \<Rightarrow> Hand" where
  "enumerate config raw [] candidate best =
     (let classified = (classifyOrdinary candidate config)\<lparr>hn_WildUsed := candidate \<noteq> raw\<rparr> in
      if compareCandidate classified best > 0 then classified else best)"
| "enumerate config raw (position # positions) candidate best =
     fold (\<lambda>replacement best. enumerate config raw positions (candidate[position := replacement]) best)
       [1, 2, 3, 4, 5, 6] best"

definition one_positions :: "Face list \<Rightarrow> nat list" where
  "one_positions raw = filter (\<lambda>index. raw ! index = 1) [0..<length raw]"

definition Classify :: "Face list \<Rightarrow> Config \<Rightarrow> Hand result" where
  "Classify raw config =
     (if \<not> list_all Face_Valid raw then ruleError CodeInvalidState ''hand contains a non-six-sided face''
      else
        let special = cf_Special235Enabled config \<and> sortedFaces raw = [2, 3, 5];
            ordinary = classifyOrdinary raw config;
            best = (if cf_OnesWild config then enumerate config raw (one_positions raw) raw ordinary else ordinary);
            best = best\<lparr>hn_Raw := raw\<rparr> in
        Inr (if special
             then best\<lparr>hn_Class := HandSpecial235, hn_Normalized := [2, 3, 5], hn_Special235 := True,
               hn_SpecialContext := Special235Minimum, hn_FullKey := key [0, -1], hn_TieKey := (1, -1),
               hn_WildUsed := False\<rparr>
             else best))"

text \<open>
  The loop writes only the context and the keys of a hand, and it reads only the classes of the others, so each hand is
  resolved against the hands as they came.
\<close>

definition resolve_235 :: "Hand list \<Rightarrow> nat \<Rightarrow> Hand" where
  "resolve_235 hands index =
     (let hand = hands ! index in
      if \<not> hn_Special235 hand then hand
      else if list_all (\<lambda>other. other = index \<or> hn_Class (hands ! other) = HandLeopard) [0..<length hands]
      then hand\<lparr>hn_SpecialContext := Special235BeatsLeopards, hn_FullKey := key [5, 0], hn_TieKey := (5, 0)\<rparr>
      else hand\<lparr>hn_SpecialContext := Special235Minimum, hn_FullKey := key [0, -1], hn_TieKey := (1, -1)\<rparr>)"

definition Resolve235Context :: "Hand list \<Rightarrow> Hand list" where
  "Resolve235Context hands = map (resolve_235 hands) [0..<length hands]"

end
