(* ===== verification/MeetOrder.thy ===== *)
theory MeetOrder
  imports MeetHands
begin

text \<open>
  The order of hands in meet by chance. Keys are compared lexicographically, so hands are totally ordered; with wild
  ones, a hand is the strongest of its interpretations.
\<close>

section \<open>The order of hands\<close>

text \<open>The lexicographic comparison of lists that the keys implement.\<close>

fun cmp_list :: "i32 list \<Rightarrow> i32 list \<Rightarrow> int" where
  "cmp_list [] [] = 0"
| "cmp_list [] (y # ys) = -1"
| "cmp_list (x # xs) [] = 1"
| "cmp_list (x # xs) (y # ys) = (if x < y then -1 else if y < x then 1 else cmp_list xs ys)"

definition key_list :: "RankKey \<Rightarrow> i32 list" where
  "key_list k = take (rk_Length k) (rk_Values k)"

definition key_ok :: "RankKey \<Rightarrow> bool" where
  "key_ok k \<longleftrightarrow> 0 < rk_Length k \<and> rk_Length k \<le> 5 \<and> length (rk_Values k) = 5"

lemma key_list_key [simp]: "length vs \<le> 5 \<Longrightarrow> key_list (key vs) = vs"
  by (simp add: key_list_def key_def min_def)

lemma key_ok_key: "vs \<noteq> [] \<Longrightarrow> length vs \<le> 5 \<Longrightarrow> key_ok (key vs)"
  by (auto simp: key_ok_def key_def)

lemma cmp_list_values:
  "cmp_list xs ys =
     (if compare_values xs ys \<noteq> 0 then compare_values xs ys
      else if length xs < length ys then -1 else if length ys < length xs then 1 else 0)"
  by (induction xs ys rule: cmp_list.induct) auto

lemma compare_values_take:
  "compare_values (take (min (length xs) (length ys)) xs) (take (min (length xs) (length ys)) ys) = compare_values xs ys"
  by (induction xs ys rule: compare_values.induct) auto

lemma compareKey_list:
  assumes "key_ok l" and "key_ok r"
  shows "compareKey l r = cmp_list (key_list l) (key_list r)"
proof -
  have len: "length (key_list l) = rk_Length l" "length (key_list r) = rk_Length r"
    using assms by (simp_all add: key_ok_def key_list_def)
  have n: "(if rk_Length r < rk_Length l then rk_Length r else rk_Length l) = min (length (key_list l)) (length (key_list r))"
    by (simp add: len min_def)
  have t: "take (min (length (key_list l)) (length (key_list r))) (rk_Values l) = take (min (length (key_list l)) (length (key_list r))) (key_list l)"
    "take (min (length (key_list l)) (length (key_list r))) (rk_Values r) = take (min (length (key_list l)) (length (key_list r))) (key_list r)"
    unfolding len by (simp_all add: key_list_def min_def)
  show ?thesis unfolding compareKey_def Let_def n t compare_values_take by (simp add: cmp_list_values len)
qed

lemma cmp_list_refl [simp]: "cmp_list xs xs = 0"
  by (induction xs) auto

lemma cmp_list_eq: "cmp_list xs ys = 0 \<longleftrightarrow> xs = ys"
  by (induction xs ys rule: cmp_list.induct) auto

lemma cmp_list_swap: "cmp_list ys xs = - cmp_list xs ys"
  by (induction xs ys rule: cmp_list.induct) auto

lemma cmp_list_trans: "cmp_list xs ys \<le> 0 \<Longrightarrow> cmp_list ys zs \<le> 0 \<Longrightarrow> cmp_list xs zs \<le> 0"
proof (induction xs ys arbitrary: zs rule: cmp_list.induct)
  case (2 y ys)
  then show ?case by (cases zs) simp_all
next
  case (4 x xs y ys)
  then obtain z zs' where z: "zs = z # zs'" by (cases zs) simp_all
  from "4.prems" have le: "x \<le> y" "y \<le> z" by (simp_all add: z split: if_splits)
  show ?case
  proof (cases "x < z")
    case False
    with le have "x = y" "y = z" by simp_all
    with "4.prems" have "cmp_list xs ys \<le> 0" "cmp_list ys zs' \<le> 0" by (simp_all add: z)
    with "4.IH" \<open>x = y\<close> \<open>y = z\<close> show ?thesis by (simp add: z)
  qed (simp add: z)
qed simp_all

lemma cmp_list_strict: "cmp_list xs ys < 0 \<Longrightarrow> cmp_list ys zs \<le> 0 \<Longrightarrow> cmp_list xs zs < 0"
  using cmp_list_trans [of xs ys zs] cmp_list_trans [of ys zs xs] cmp_list_eq [of xs zs] cmp_list_swap [of xs ys]
    cmp_list_swap [of xs zs] by (smt (verit))


text \<open>Hands are compared by their keys, so the comparison is a total preorder on the hands of a table.\<close>

definition hand_key :: "Hand \<Rightarrow> i32 list" where
  "hand_key h = key_list (hn_FullKey h)"

definition hand_keyed :: "Hand \<Rightarrow> bool" where
  "hand_keyed h \<longleftrightarrow> key_ok (hn_FullKey h)"

lemma CompareHand_list: "hand_keyed l \<Longrightarrow> hand_keyed r \<Longrightarrow> CompareHand l r = cmp_list (hand_key l) (hand_key r)"
  by (simp add: CompareHand_def hand_keyed_def hand_key_def compareKey_list)

lemma CompareHand_swap: "hand_keyed l \<Longrightarrow> hand_keyed r \<Longrightarrow> CompareHand r l = - CompareHand l r"
  by (simp add: CompareHand_list) (rule cmp_list_swap)

lemma CompareHand_trans:
  "hand_keyed a \<Longrightarrow> hand_keyed b \<Longrightarrow> hand_keyed c \<Longrightarrow> CompareHand a b \<le> 0 \<Longrightarrow> CompareHand b c \<le> 0 \<Longrightarrow> CompareHand a c \<le> 0"
  by (simp add: CompareHand_list) (rule cmp_list_trans)

lemma CompareHand_refl: "hand_keyed a \<Longrightarrow> CompareHand a a = 0"
  by (simp add: CompareHand_list)

section \<open>Classification\<close>

text \<open>The comparison of candidates orders first by the key and then by the dice from the highest down.\<close>

definition candidate_key :: "Hand \<Rightarrow> i32 list \<times> i32 list" where
  "candidate_key h = (hand_key h, rev (map uint (hn_Normalized h)))"

lemma compare_faces_list:
  "length xs = length ys \<Longrightarrow> compare_faces xs ys = cmp_list (map uint xs) (map uint ys)"
  by (induction xs ys rule: list_induct2) (auto simp: word_less_def)

lemma compareCandidate_list:
  assumes "hand_keyed l" and "hand_keyed r" and "length (hn_Normalized l) = length (hn_Normalized r)"
  shows "compareCandidate l r =
    (if cmp_list (hand_key l) (hand_key r) \<noteq> 0 then cmp_list (hand_key l) (hand_key r)
     else cmp_list (rev (map uint (hn_Normalized l))) (rev (map uint (hn_Normalized r))))"
  using assms compare_faces_list [of "rev (hn_Normalized l)" "rev (hn_Normalized r)"]
  by (simp add: compareCandidate_def Let_def CompareHand_list rev_map)

text \<open>Not stronger, for two candidates of the same size.\<close>

definition not_above :: "Hand \<Rightarrow> Hand \<Rightarrow> bool" where
  "not_above l r \<longleftrightarrow> compareCandidate l r \<le> 0"

definition candidate :: "Hand \<Rightarrow> bool" where
  "candidate h \<longleftrightarrow> hand_keyed h \<and> length (hn_Normalized h) = 3"

lemma not_above_trans:
  assumes "candidate a" "candidate b" "candidate c" "not_above a b" "not_above b c"
  shows "not_above a c"
proof -
  let ?k = "\<lambda>h. hand_key h" and ?d = "\<lambda>h. rev (map uint (hn_Normalized h))"
  have ab: "cmp_list (?k a) (?k b) < 0 \<or> ?k a = ?k b \<and> cmp_list (?d a) (?d b) \<le> 0"
    using assms by (auto simp: not_above_def candidate_def compareCandidate_list cmp_list_eq order_less_le split: if_splits)
  have bc: "cmp_list (?k b) (?k c) < 0 \<or> ?k b = ?k c \<and> cmp_list (?d b) (?d c) \<le> 0"
    using assms by (auto simp: not_above_def candidate_def compareCandidate_list cmp_list_eq order_less_le split: if_splits)
  from ab bc have "cmp_list (?k a) (?k c) < 0 \<or> ?k a = ?k c \<and> cmp_list (?d a) (?d c) \<le> 0"
    using cmp_list_strict [of "?k a" "?k b" "?k c"] cmp_list_trans [of "?d a" "?d b" "?d c"] by force
  with assms show ?thesis by (auto simp: not_above_def candidate_def compareCandidate_list)
qed

lemma not_above_refl: "candidate a \<Longrightarrow> not_above a a"
  by (simp add: not_above_def candidate_def compareCandidate_list)

lemma not_above_total: "candidate a \<Longrightarrow> candidate b \<Longrightarrow> \<not> not_above a b \<Longrightarrow> not_above b a"
  using cmp_list_swap [of "hand_key a" "hand_key b"]
    cmp_list_swap [of "rev (map uint (hn_Normalized a))" "rev (map uint (hn_Normalized b))"]
  by (auto simp: not_above_def candidate_def compareCandidate_list)

lemma not_above_CompareHand: "candidate a \<Longrightarrow> candidate b \<Longrightarrow> not_above a b \<Longrightarrow> CompareHand a b \<le> 0"
  by (auto simp: not_above_def candidate_def compareCandidate_list CompareHand_list cmp_list_eq split: if_splits)

definition faces_ok :: "Face list \<Rightarrow> bool" where
  "faces_ok c \<longleftrightarrow> length c = 3 \<and> list_all Face_Valid c"

lemma Face_Valid_iff: "Face_Valid f \<longleftrightarrow> f \<in> {1, 2, 3, 4, 5, 6}"
proof
  assume "Face_Valid f"
  then have "unat f \<in> {1..6}" by (simp add: Face_Valid_def word_le_nat_alt)
  then have "unat f = 1 \<or> unat f = 2 \<or> unat f = 3 \<or> unat f = 4 \<or> unat f = 5 \<or> unat f = 6" by auto
  then show "f \<in> {1, 2, 3, 4, 5, 6}" by (auto simp: word_unat_eq_iff)
qed (auto simp: Face_Valid_def)

text \<open>The rank of an ordinary hand: the first entry of its key, with the class it stands for.\<close>

definition rank_of :: "HandClass \<Rightarrow> i32" where
  "rank_of c = (case c of HandLeopard \<Rightarrow> 4 | HandStraight \<Rightarrow> 3 | HandPair \<Rightarrow> 2 | HandSingle \<Rightarrow> 1 | _ \<Rightarrow> 0)"

definition ordinary :: "Hand \<Rightarrow> bool" where
  "ordinary h \<longleftrightarrow> hn_Class h \<in> {HandSingle, HandPair, HandStraight, HandLeopard} \<and> candidate h \<and>
     hd (hand_key h) = rank_of (hn_Class h) \<and> \<not> hn_Special235 h \<and> hn_SpecialContext h = Special235None \<and>
     fst (hn_TieKey h) = rank_of (hn_Class h)"

lemma classifyOrdinary_ordinary:
  assumes "length c = 3"
  shows "ordinary (classifyOrdinary c config)" and "hn_Normalized (classifyOrdinary c config) = sort c"
    and "\<not> hn_WildUsed (classifyOrdinary c config)" and "hn_Raw (classifyOrdinary c config) = c"
proof -
  show "ordinary (classifyOrdinary c config)"
    using assms
    by (simp add: ordinary_def classifyOrdinary_def Let_def candidate_def hand_keyed_def hand_key_def key_ok_key rank_of_def
        sortedFaces_def zero_hand_def split: prod.split)
  show "hn_Normalized (classifyOrdinary c config) = sort c" "\<not> hn_WildUsed (classifyOrdinary c config)"
    "hn_Raw (classifyOrdinary c config) = c"
    by (simp_all add: classifyOrdinary_def Let_def zero_hand_def sortedFaces_def split: prod.split)
qed

section \<open>Wild ones\<close>

fun interpretations :: "nat list \<Rightarrow> Face list \<Rightarrow> Face list list" where
  "interpretations [] c = [c]"
| "interpretations (p # ps) c = concat (map (\<lambda>f. interpretations ps (c[p := f])) [1, 2, 3, 4, 5, 6])"

definition interpreted :: "Config \<Rightarrow> Face list \<Rightarrow> Face list \<Rightarrow> Hand" where
  "interpreted config raw c = (classifyOrdinary c config)\<lparr>hn_WildUsed := c \<noteq> raw\<rparr>"

definition improve :: "Config \<Rightarrow> Face list \<Rightarrow> Face list \<Rightarrow> Hand \<Rightarrow> Hand" where
  "improve config raw c best = (if compareCandidate (interpreted config raw c) best > 0 then interpreted config raw c else best)"

lemma enumerate_fold: "enumerate config raw ps c best = fold (improve config raw) (interpretations ps c) best"
proof (induction ps arbitrary: c best)
  case Nil
  show ?case by (simp add: improve_def interpreted_def Let_def)
qed simp

lemma interpretations_set:
  "distinct ps \<Longrightarrow> set ps \<subseteq> {..<length d} \<Longrightarrow>
     c \<in> set (interpretations ps d) \<longleftrightarrow>
       length c = length d \<and> (\<forall>i < length d. if i \<in> set ps then Face_Valid (c ! i) else c ! i = d ! i)"
proof (induction ps arbitrary: d)
  case Nil
  show ?case by (auto intro: nth_equalityI)
next
  case (Cons p ps)
  have "c \<in> set (interpretations (p # ps) d) \<longleftrightarrow> (\<exists>f. Face_Valid f \<and> c \<in> set (interpretations ps (d[p := f])))"
    by (auto simp: Face_Valid_iff)
  also have "\<dots> \<longleftrightarrow> (\<exists>f. Face_Valid f \<and> length c = length d \<and>
      (\<forall>i < length d. if i \<in> set ps then Face_Valid (c ! i) else c ! i = d[p := f] ! i))"
    using Cons.IH [of "d[p := f]" for f] Cons.prems by simp
  also have "\<dots> \<longleftrightarrow> length c = length d \<and> (\<forall>i < length d. if i \<in> set (p # ps) then Face_Valid (c ! i) else c ! i = d ! i)"
    (is "?l \<longleftrightarrow> ?r")
  proof
    assume ?l
    then show ?r using Cons.prems by (auto simp: nth_list_update split: if_splits)
  next
    assume r: ?r
    have "p < length d" "p \<notin> set ps" using Cons.prems by auto
    with r show ?l by (intro exI [of _ "c ! p"]) (auto simp: nth_list_update)
  qed
  finally show ?case .
qed

lemma interpreted_candidate:
  "length c = 3 \<Longrightarrow> candidate (interpreted config raw c)"
  using classifyOrdinary_ordinary(1) [of c config]
  by (simp add: interpreted_def ordinary_def candidate_def hand_keyed_def)

lemma fold_improve:
  assumes "\<forall>c \<in> set cs. length c = 3" and "candidate best"
  shows "candidate (fold (improve config raw) cs best) \<and>
    (fold (improve config raw) cs best = best \<or> (\<exists>c \<in> set cs. fold (improve config raw) cs best = interpreted config raw c)) \<and>
    not_above best (fold (improve config raw) cs best) \<and>
    (\<forall>c \<in> set cs. not_above (interpreted config raw c) (fold (improve config raw) cs best))"
  using assms
proof (induction cs arbitrary: best)
  case Nil
  then show ?case by (simp add: not_above_refl)
next
  case (Cons c cs)
  let ?h = "interpreted config raw c" and ?b = "improve config raw c best"
  let ?r = "fold (improve config raw) cs ?b"
  have h: "candidate ?h" using Cons.prems by (simp add: interpreted_candidate)
  have b: "candidate ?b" and step: "?b = best \<or> ?b = ?h" "not_above best ?b" "not_above ?h ?b"
    using h Cons.prems(2) not_above_refl [OF h] not_above_refl [OF Cons.prems(2)] not_above_total [OF h Cons.prems(2)]
    by (auto simp: improve_def not_above_def)
  from Cons.IH [OF _ b] Cons.prems(1) have ih: "candidate ?r" "?r = ?b \<or> (\<exists>c \<in> set cs. ?r = interpreted config raw c)"
    "not_above ?b ?r" "\<forall>c \<in> set cs. not_above (interpreted config raw c) ?r" by auto
  have "not_above best ?r" by (rule not_above_trans [OF Cons.prems(2) b ih(1) step(2) ih(3)])
  moreover have "not_above ?h ?r" by (rule not_above_trans [OF h b ih(1) step(3) ih(3)])
  ultimately show ?case using ih step(1) by auto
qed

text \<open>The interpretations of a hand: every one may stand for any face.\<close>

definition interprets :: "Face list \<Rightarrow> Face list \<Rightarrow> bool" where
  "interprets raw c \<longleftrightarrow> length c = length raw \<and>
     (\<forall>i < length raw. if raw ! i = 1 then Face_Valid (c ! i) else c ! i = raw ! i)"

lemma one_positions_interpretations:
  "c \<in> set (interpretations (one_positions raw) raw) \<longleftrightarrow> interprets raw c"
proof -
  have "distinct (one_positions raw)" "set (one_positions raw) \<subseteq> {..<length raw}" by (auto simp: one_positions_def)
  from interpretations_set [OF this] show ?thesis by (auto simp: one_positions_def interprets_def)
qed

lemma wild_best:
  assumes "length raw = 3"
  shows "\<exists>c. interprets raw c \<and>
      enumerate config raw (one_positions raw) raw (classifyOrdinary raw config) = interpreted config raw c \<and>
      (\<forall>d. interprets raw d \<longrightarrow> not_above (interpreted config raw d) (interpreted config raw c))"
proof -
  have b: "classifyOrdinary raw config = interpreted config raw raw"
    using classifyOrdinary_ordinary(3) [OF assms, of config] by (simp add: interpreted_def)
  have raw: "interprets raw raw" by (auto simp: interprets_def Face_Valid_iff)
  let ?r = "fold (improve config raw) (interpretations (one_positions raw) raw) (interpreted config raw raw)"
  have "\<forall>c \<in> set (interpretations (one_positions raw) raw). length c = 3"
    using assms by (simp add: one_positions_interpretations interprets_def)
  note len = this
  have cand: "candidate (interpreted config raw raw)" by (rule interpreted_candidate [OF assms])
  from fold_improve [OF len cand, where config = config and raw = raw]
  have "\<exists>c. interprets raw c \<and> ?r = interpreted config raw c"
    and "\<forall>d. interprets raw d \<longrightarrow> not_above (interpreted config raw d) ?r"
    using raw by (auto simp: one_positions_interpretations)
  then show ?thesis unfolding enumerate_fold b by auto
qed

end
