(* ===== verification/Meet.thy ===== *)
theory Meet
  imports MeetHands Players "HOL-Library.Product_Lexorder"
begin

text \<open>
  The rules engine of meet by chance (\<open>types.go\<close>, \<open>match.go\<close>, \<open>state.go\<close> and \<open>actions.go\<close> of
  \<open>games/meet-by-chance/engine\<close>). All players roll openly at once. Equal hands are rerolled in batches, for a
  penalty, until no two meet or the limit of batches is reached; the weakest hand is then the target, who may reroll or
  stand. The roller of the source is a seed with a counter that every roll advances; the functions pass it on. A
  slice that is indexed with the result of \<open>playerIndex\<close> without a check gives \<open>Inl Panic\<close> for a user that is not there.
\<close>

section \<open>Types\<close>

datatype Phase =
    PhaseUnset | PhaseRolling | PhaseRevealing | PhaseResolvingMatch | PhaseTargetDecision | PhaseTargetRolling
  | PhaseRoundSettled | PhaseFinished

abbreviation FinishHostRequested :: string where "FinishHostRequested \<equiv> ''host_requested''"
abbreviation FinishInsufficientParticipants :: string where
  "FinishInsufficientParticipants \<equiv> ''insufficient_participants''"
abbreviation FinishPlatformCancelled :: string where "FinishPlatformCancelled \<equiv> ''platform_cancelled''"

record PlayerState =
  pl_UserID :: string
  pl_SeatIndex :: u32
  pl_Active :: bool
  pl_Included :: bool
  pl_TargetedThisRound :: bool
  pl_PenaltyTicks :: Ticks
  pl_Hand :: Hand

abbreviation MatchExact :: string where "MatchExact \<equiv> ''exact''"
abbreviation MatchHigh :: string where "MatchHigh \<equiv> ''high''"
abbreviation MatchLow :: string where "MatchLow \<equiv> ''low''"
abbreviation MatchCapped :: string where "MatchCapped \<equiv> ''capped''"

record MatchGroup =
  mg_Kind :: string
  mg_UserIDs :: "string list"
  mg_WeakestUserID :: string

record MatchResolution =
  mr_Batch :: u32
  mr_Groups :: "MatchGroup list"
  mr_Capped :: bool

record RoundSettlement =
  rs_Round :: u32
  rs_TargetUserID :: string
  rs_Reason :: string
  rs_TargetRerollCount :: u32
  rs_TargetStreak :: u32
  rs_MatchResolutionCount :: u32
  rs_Players :: "PlayerState list"

record State =
  st_SchemaVersion :: u32
  st_Phase :: Phase
  st_Round :: u32
  st_HostUserID :: string
  st_Config :: Config
  st_Players :: "PlayerState list"
  st_TargetUserID :: string
  st_TargetRerollCount :: u32
  st_TargetStreak :: u32
  st_MatchResolutionCount :: u32
  st_ActionDeadlineUnixMillis :: i64
  st_MatchHistory :: "MatchResolution list"
  st_LastSettlement :: RoundSettlement
  st_RoundHistory :: "RoundSettlement list"
  st_FinishReason :: string

record ActionTimer =
  tm_Round :: u32
  tm_TargetUserID :: string
  tm_TargetRerollCount :: u32
  tm_TargetStreak :: u32
  tm_MatchResolutionCount :: u32
  tm_DeadlineUnixMillis :: i64

abbreviation EventRoundStarted :: string where "EventRoundStarted \<equiv> ''round.started''"
abbreviation EventDiceRevealed :: string where "EventDiceRevealed \<equiv> ''dice.revealed''"
abbreviation EventHandClassified :: string where "EventHandClassified \<equiv> ''hand.classified''"
abbreviation EventMatchResolved :: string where "EventMatchResolved \<equiv> ''match.resolved''"
abbreviation EventTargetSelected :: string where "EventTargetSelected \<equiv> ''target.selected''"
abbreviation EventTargetRerolled :: string where "EventTargetRerolled \<equiv> ''target.rerolled''"
abbreviation EventPenaltyRecorded :: string where "EventPenaltyRecorded \<equiv> ''penalty.recorded''"
abbreviation EventRoundSettled :: string where "EventRoundSettled \<equiv> ''round.settled''"
abbreviation EventParticipantRevoked :: string where "EventParticipantRevoked \<equiv> ''participant.revoked''"
abbreviation EventSessionFinished :: string where "EventSessionFinished \<equiv> ''session.finished''"

record Event =
  ev_Kind :: string
  ev_Round :: u32
  ev_Batch :: u32
  ev_InitialConfig :: "Config option"
  ev_InitialParticipants :: "Participant list"
  ev_UserID :: string
  ev_PreviousUserID :: string
  ev_UserIDs :: "string list"
  ev_WeakestUserID :: string
  ev_MatchGroups :: "MatchGroup list"
  ev_Players :: "PlayerState list"
  ev_Hand :: Hand
  ev_MatchKind :: string
  ev_PenaltyTicks :: Ticks
  ev_PenaltyBeforeTicks :: Ticks
  ev_PenaltyAfterTicks :: Ticks
  ev_TargetRerollCount :: u32
  ev_TargetStreak :: u32
  ev_MatchResolutionCount :: u32
  ev_FirstSelectionThisRound :: bool
  ev_Capped :: bool
  ev_RoundCancelled :: bool
  ev_NextRound :: u32
  ev_ActivePlayerCount :: u32
  ev_Reason :: string
  ev_OperatorUserID :: string
  ev_Settlement :: RoundSettlement

text \<open>The zero values that Go gives to the fields a composite literal leaves out.\<close>

definition empty_settlement :: RoundSettlement where
  "empty_settlement = \<lparr>rs_Round = 0, rs_TargetUserID = [], rs_Reason = [], rs_TargetRerollCount = 0,
     rs_TargetStreak = 0, rs_MatchResolutionCount = 0, rs_Players = []\<rparr>"

definition empty_event :: Event where
  "empty_event = \<lparr>ev_Kind = [], ev_Round = 0, ev_Batch = 0, ev_InitialConfig = None, ev_InitialParticipants = [],
     ev_UserID = [], ev_PreviousUserID = [], ev_UserIDs = [], ev_WeakestUserID = [], ev_MatchGroups = [],
     ev_Players = [], ev_Hand = zero_hand, ev_MatchKind = [], ev_PenaltyTicks = 0, ev_PenaltyBeforeTicks = 0,
     ev_PenaltyAfterTicks = 0, ev_TargetRerollCount = 0, ev_TargetStreak = 0, ev_MatchResolutionCount = 0,
     ev_FirstSelectionThisRound = False, ev_Capped = False, ev_RoundCancelled = False, ev_NextRound = 0,
     ev_ActivePlayerCount = 0, ev_Reason = [], ev_OperatorUserID = [], ev_Settlement = empty_settlement\<rparr>"

section \<open>Matches\<close>

definition activeHandPlayers :: "PlayerState list \<Rightarrow> PlayerState list" where
  "activeHandPlayers players = filter pl_Active players"

definition stableUsers :: "PlayerState list \<Rightarrow> string list" where
  "stableUsers players = map pl_UserID (sort_key pl_SeatIndex players)"

text \<open>
  The loop over the players that are left. The flags of the source mark the members of a group that was found; here they
  are left out of the rest.
\<close>

function exactGroups :: "PlayerState list \<Rightarrow> MatchGroup list" where
  "exactGroups [] = []"
| "exactGroups (left # rest) =
     (let members = left # filter (\<lambda>right. ExactMatch (pl_Hand left) (pl_Hand right)) rest;
          others = filter (\<lambda>right. \<not> ExactMatch (pl_Hand left) (pl_Hand right)) rest in
      if length members > 1
      then \<lparr>mg_Kind = MatchExact, mg_UserIDs = stableUsers members, mg_WeakestUserID = []\<rparr> # exactGroups others
      else exactGroups others)"
  by pat_completeness auto
termination
  by (relation "measure length") (simp_all add: less_Suc_eq_le)

definition tie_group :: "PlayerState list \<Rightarrow> i32 \<times> i32 \<Rightarrow> PlayerState list" where
  "tie_group active tieKey = filter (\<lambda>player. hn_TieKey (pl_Hand player) = tieKey) active"

text \<open>The keys of the map \<open>byTie\<close> that have more than one player, in the order of \<open>sort.Slice\<close>.\<close>

definition tie_keys :: "PlayerState list \<Rightarrow> (i32 \<times> i32) list" where
  "tie_keys active =
     sort (filter (\<lambda>tieKey. length (tie_group active tieKey) > 1)
       (remdups (map (\<lambda>player. hn_TieKey (pl_Hand player)) active)))"

definition FindMatchGroups :: "PlayerState list \<Rightarrow> MatchGroup list" where
  "FindMatchGroups players =
     (let active = activeHandPlayers players; exact = exactGroups active; keys = tie_keys active in
      if length exact > 0 then exact
      else if length keys = 0 then []
      else
        let lowKey = keys ! 0; highKey = keys ! (length keys - 1) in
        if lowKey = highKey then
          let users = stableUsers (tie_group active lowKey) in
          [\<lparr>mg_Kind = MatchLow, mg_UserIDs = users, mg_WeakestUserID = users ! 0\<rparr>]
        else
          let highUsers = stableUsers (tie_group active highKey); lowUsers = stableUsers (tie_group active lowKey) in
          [\<lparr>mg_Kind = MatchHigh, mg_UserIDs = highUsers, mg_WeakestUserID = []\<rparr>,
           \<lparr>mg_Kind = MatchLow, mg_UserIDs = lowUsers, mg_WeakestUserID = lowUsers ! 0\<rparr>])"

section \<open>Players and time\<close>

fun playerIndex :: "PlayerState list \<Rightarrow> string \<Rightarrow> nat option" where
  "playerIndex [] userID = None"
| "playerIndex (player # rest) userID =
     (if pl_UserID player = userID then Some 0 else map_option Suc (playerIndex rest userID))"

fun activeCount :: "PlayerState list \<Rightarrow> nat" where
  "activeCount [] = 0"
| "activeCount (player # rest) = (if pl_Active player then Suc (activeCount rest) else activeCount rest)"

definition activePlayer :: "State \<Rightarrow> string \<Rightarrow> bool" where
  "activePlayer state userID \<longleftrightarrow>
     (case playerIndex (st_Players state) userID of
        None \<Rightarrow> False | Some index \<Rightarrow> pl_Active (st_Players state ! index))"

definition activeUsers :: "PlayerState list \<Rightarrow> string list" where
  "activeUsers players = map pl_UserID (filter pl_Active players)"

definition stableUsersFromSet :: "PlayerState list \<Rightarrow> string set \<Rightarrow> string list" where
  "stableUsersFromSet players selected = map pl_UserID (filter (\<lambda>player. pl_UserID player \<in> selected) players)"

definition validFinishReason :: "string \<Rightarrow> bool" where
  "validFinishReason value \<longleftrightarrow>
     value = FinishHostRequested \<or> value = FinishInsufficientParticipants \<or> value = FinishPlatformCancelled"

definition validUnixMillis :: "i64 \<Rightarrow> bool" where
  "validUnixMillis value \<longleftrightarrow> value > 0"

definition deadlineUnixMillis :: "i64 \<Rightarrow> u32 \<Rightarrow> i64 result" where
  "deadlineUnixMillis now seconds =
     (if \<not> validUnixMillis now then ruleError CodeInvalidState ''deterministic time is required''
      else if seconds = 0 then Inr 0
      else
        let delta = uint seconds * 1000 in
        if now > MaxInt64 - delta then ruleError CodeInvalidState ''deadline overflows unix milliseconds''
        else Inr (now + delta))"

section \<open>Rolling\<close>

record deterministicRoller =
  rl_seed :: "u8 list"
  rl_stream :: u64

definition roller_roll :: "digest \<Rightarrow> deterministicRoller \<Rightarrow> u32 \<Rightarrow> (Face list \<times> deterministicRoller) result" where
  "roller_roll sha256 roller count =
     (let roller = roller\<lparr>rl_stream := rl_stream roller + 1\<rparr> in
      case Roll sha256 (rl_seed roller) (rl_stream roller) count of
        Inl _ \<Rightarrow> ruleError CodeSeedInvalid ''deterministic seed is invalid''
      | Inr faces \<Rightarrow> Inr (faces, roller))"

definition resolvePlayer235 :: "PlayerState list \<Rightarrow> PlayerState list" where
  "resolvePlayer235 players =
     (let indexes = filter (\<lambda>index. pl_Active (players ! index)) [0..<length players];
          resolved = Resolve235Context (map (\<lambda>index. pl_Hand (players ! index)) indexes) in
      fold (\<lambda>(index, hand) players. players[index := (players ! index)\<lparr>pl_Hand := hand\<rparr>]) (zip indexes resolved) players)"

text \<open>The loop of \<open>rollUsers\<close> over the users; each takes three faces.\<close>

fun assign_hands :: "Config \<Rightarrow> PlayerState list \<Rightarrow> string list \<Rightarrow> Face list \<Rightarrow> PlayerState list result" where
  "assign_hands config players [] faces = Inr players"
| "assign_hands config players (userID # users) faces =
     (case playerIndex players userID of
        None \<Rightarrow> ruleError CodeParticipantInactive ''roll set contains an inactive player''
      | Some index \<Rightarrow>
          if \<not> pl_Active (players ! index)
          then ruleError CodeParticipantInactive ''roll set contains an inactive player''
          else
            (case faces of
               a # b # c # rest \<Rightarrow>
                 and_then (Classify [a, b, c] config) (\<lambda>hand.
                   assign_hands config (players[index := (players ! index)\<lparr>pl_Hand := hand\<rparr>]) users rest)
             | _ \<Rightarrow> Inl Panic))"

text \<open>The expressions \<open>players[playerIndex(players, userID)]\<close> of a loop over users.\<close>

fun players_at :: "PlayerState list \<Rightarrow> string list \<Rightarrow> PlayerState list result" where
  "players_at players [] = Inr []"
| "players_at players (userID # users) =
     (case playerIndex players userID of
        None \<Rightarrow> Inl Panic
      | Some index \<Rightarrow> and_then (players_at players users) (\<lambda>rest. Inr (players ! index # rest)))"

definition rollUsers ::
  "digest \<Rightarrow> State \<Rightarrow> deterministicRoller \<Rightarrow> string list \<Rightarrow> u32 \<Rightarrow> string \<Rightarrow>
     (State \<times> Event list \<times> deterministicRoller) result" where
  "rollUsers sha256 state roller users batch reason =
     (if length users = 0 then ruleError CodeInvalidState ''roll set is empty''
      else
        let players = map (\<lambda>player. player\<lparr>pl_Included := pl_Active player\<rparr>) (st_Players state) in
        and_then (roller_roll sha256 roller (of_nat (length users) * DicePerPlayer)) (\<lambda>(faces, roller).
        and_then (assign_hands (st_Config state) players users faces) (\<lambda>players.
          let players = resolvePlayer235 players in
          and_then (players_at players users) (\<lambda>revealed.
            Inr (state\<lparr>st_Players := players\<rparr>,
              empty_event\<lparr>ev_Kind := EventDiceRevealed, ev_Round := st_Round state, ev_Batch := batch,
                ev_Players := revealed, ev_Reason := reason\<rparr> #
              map (\<lambda>player. empty_event\<lparr>ev_Kind := EventHandClassified, ev_Round := st_Round state, ev_Batch := batch,
                ev_UserID := pl_UserID player, ev_Hand := pl_Hand player, ev_Reason := reason\<rparr>)
                (filter pl_Included players),
              roller)))))"

definition addPenalty :: "State \<Rightarrow> string \<Rightarrow> Ticks \<Rightarrow> string \<Rightarrow> u32 \<Rightarrow> (State \<times> Event) result" where
  "addPenalty state userID amount reason batch =
     (case playerIndex (st_Players state) userID of
        None \<Rightarrow> ruleError CodeParticipantInactive ''penalty target is inactive''
      | Some index \<Rightarrow>
          let player = st_Players state ! index in
          if \<not> pl_Active player then ruleError CodeParticipantInactive ''penalty target is inactive''
          else case Ticks_Add (pl_PenaltyTicks player) amount of
            Inl _ \<Rightarrow> ruleError CodePenaltyOverflow ''player penalty exceeds uint32''
          | Inr raised \<Rightarrow>
              Inr (state\<lparr>st_Players := (st_Players state)[index := player\<lparr>pl_PenaltyTicks := raised\<rparr>]\<rparr>,
                empty_event\<lparr>ev_Kind := EventPenaltyRecorded, ev_Round := st_Round state, ev_Batch := batch,
                  ev_UserID := userID, ev_PenaltyTicks := amount, ev_PenaltyBeforeTicks := pl_PenaltyTicks player,
                  ev_PenaltyAfterTicks := raised, ev_Reason := reason\<rparr>))"

section \<open>Resolution of matches\<close>

text \<open>The inner loops of \<open>resolveMatches\<close>: every member of a group is charged, and the weakest of a low group once more.\<close>

fun charge_users :: "State \<Rightarrow> string list \<Rightarrow> string \<Rightarrow> u32 \<Rightarrow> (State \<times> Event list) result" where
  "charge_users state [] kind batch = Inr (state, [])"
| "charge_users state (userID # users) kind batch =
     and_then (addPenalty state userID (cf_MatchPenaltyTicks (st_Config state)) (''match_'' @ kind) batch) (\<lambda>(state, penalty).
     and_then (charge_users state users kind batch) (\<lambda>(state, penalties). Inr (state, penalty # penalties)))"

fun charge_groups :: "State \<Rightarrow> MatchGroup list \<Rightarrow> u32 \<Rightarrow> (State \<times> Event list) result" where
  "charge_groups state [] batch = Inr (state, [])"
| "charge_groups state (matched # groups) batch =
     and_then (charge_users state (mg_UserIDs matched) (mg_Kind matched) batch) (\<lambda>(state, penalties).
     and_then
       (if mg_Kind matched = MatchLow \<and> mg_WeakestUserID matched \<noteq> []
        then and_then (addPenalty state (mg_WeakestUserID matched) (cf_WeakExtraPenaltyTicks (st_Config state))
          ''match_low_extra'' batch) (\<lambda>(state, penalty). Inr (state, [penalty]))
        else Inr (state, [])) (\<lambda>(state, extra).
     and_then (charge_groups state groups batch) (\<lambda>(state, rest). Inr (state, penalties @ extra @ rest))))"

text \<open>One iteration of \<open>resolveMatches\<close> that finds groups below the limit.\<close>

definition resolve_batch ::
  "digest \<Rightarrow> State \<Rightarrow> deterministicRoller \<Rightarrow> MatchGroup list \<Rightarrow> (State \<times> Event list \<times> deterministicRoller) result" where
  "resolve_batch sha256 state roller groups =
     (let batch = st_MatchResolutionCount state + 1;
          next = state\<lparr>st_MatchResolutionCount := batch,
            st_MatchHistory := st_MatchHistory state @ [\<lparr>mr_Batch = batch, mr_Groups = groups, mr_Capped = False\<rparr>]\<rparr>;
          resolved = empty_event\<lparr>ev_Kind := EventMatchResolved, ev_Round := st_Round next, ev_Batch := batch,
            ev_MatchGroups := groups, ev_PenaltyTicks := cf_MatchPenaltyTicks (st_Config next),
            ev_MatchResolutionCount := batch, ev_Reason := ''match_resolved''\<rparr> in
      and_then (charge_groups next groups batch) (\<lambda>(next, penalties).
      and_then (rollUsers sha256 next roller
          (stableUsersFromSet (st_Players next) (set (concat (map mg_UserIDs groups)))) batch ''match_reroll'')
        (\<lambda>(next, revealEvents, roller). Inr (next, resolved # penalties @ revealEvents, roller))))"

text \<open>A batch keeps the configuration and raises the counter, so the loop ends.\<close>

lemma addPenalty_counters:
  "addPenalty s u a r b = Inr (t, e) \<Longrightarrow>
     st_Config t = st_Config s \<and> st_MatchResolutionCount t = st_MatchResolutionCount s"
  by (auto simp: addPenalty_def Let_def split: option.splits if_splits sum.splits)

lemma charge_users_counters:
  "charge_users s us k b = Inr (t, es) \<Longrightarrow>
     st_Config t = st_Config s \<and> st_MatchResolutionCount t = st_MatchResolutionCount s"
  by (induction s us k b arbitrary: t es rule: charge_users.induct) (auto simp: outcome dest!: addPenalty_counters)

lemma charge_groups_counters:
  "charge_groups s gs b = Inr (t, es) \<Longrightarrow>
     st_Config t = st_Config s \<and> st_MatchResolutionCount t = st_MatchResolutionCount s"
  by (induction s gs b arbitrary: t es rule: charge_groups.induct)
    (auto simp: outcome split: if_splits dest!: addPenalty_counters charge_users_counters)

lemma rollUsers_counters:
  "rollUsers sha256 s r us b reason = Inr (t, es, r') \<Longrightarrow>
     st_Config t = st_Config s \<and> st_MatchResolutionCount t = st_MatchResolutionCount s"
  by (auto simp: rollUsers_def outcome Let_def)

lemma resolve_batch_counters:
  "resolve_batch sha256 s r gs = Inr (t, es, r') \<Longrightarrow>
     st_Config t = st_Config s \<and> st_MatchResolutionCount t = st_MatchResolutionCount s + 1"
  by (auto simp: resolve_batch_def outcome Let_def dest!: charge_groups_counters rollUsers_counters)

function resolveMatches ::
  "digest \<Rightarrow> State \<Rightarrow> deterministicRoller \<Rightarrow> (State \<times> Event list \<times> deterministicRoller) result" where
  "resolveMatches sha256 state roller =
     (let groups = FindMatchGroups (st_Players state) in
      if length groups = 0 then Inr (state, [], roller)
      else if st_MatchResolutionCount state \<ge> cf_MatchResolutionLimit (st_Config state) then
        Inr (state\<lparr>st_MatchHistory := st_MatchHistory state @
              [\<lparr>mr_Batch = st_MatchResolutionCount state, mr_Groups = groups, mr_Capped = True\<rparr>]\<rparr>,
          [empty_event\<lparr>ev_Kind := EventMatchResolved, ev_Round := st_Round state,
             ev_Batch := st_MatchResolutionCount state, ev_MatchGroups := groups, ev_Capped := True,
             ev_MatchResolutionCount := st_MatchResolutionCount state, ev_Reason := ''match_resolution_capped''\<rparr>],
          roller)
      else
        (case resolve_batch sha256 state roller groups of
           Inl err \<Rightarrow> Inl err
         | Inr (rolled, events, roller) \<Rightarrow>
             and_then (resolveMatches sha256 rolled roller) (\<lambda>(resolved, rest, roller). Inr (resolved, events @ rest, roller))))"
  by pat_completeness auto
termination
proof (relation "measure (\<lambda>(_, state, _). unat (cf_MatchResolutionLimit (st_Config state)) - unat (st_MatchResolutionCount state))")
  fix sha256 :: digest and state roller groups x rolled events roller' and y :: "Event list \<times> deterministicRoller"
  assume "\<not> cf_MatchResolutionLimit (st_Config state) \<le> st_MatchResolutionCount state"
    and "resolve_batch sha256 state roller groups = Inr x" and "(rolled, y) = x" and "(events, roller') = y"
  then show "((sha256, rolled, roller'), sha256, state, roller)
      \<in> measure (\<lambda>(_, state, _). unat (cf_MatchResolutionLimit (st_Config state)) - unat (st_MatchResolutionCount state))"
    using resolve_batch_counters [of sha256 state roller groups rolled events roller']
      unat_plus_1_u32 [OF less_not_MaxUint32 [of "st_MatchResolutionCount state" "cf_MatchResolutionLimit (st_Config state)"]]
    by (auto simp: not_le word_less_nat_alt)
qed simp

declare resolveMatches.simps [simp del]

section \<open>The target\<close>

text \<open>The loop of \<open>lowestActiveUser\<close>, with the weakest player met so far.\<close>

fun lowest_active :: "PlayerState option \<Rightarrow> PlayerState list \<Rightarrow> PlayerState option" where
  "lowest_active lowest [] = lowest"
| "lowest_active lowest (player # rest) =
     (if \<not> pl_Active player then lowest_active lowest rest
      else case lowest of
        None \<Rightarrow> lowest_active (Some player) rest
      | Some weakest \<Rightarrow>
          lowest_active (if CompareHand (pl_Hand player) (pl_Hand weakest) < 0 then Some player else lowest) rest)"

definition lowestActiveUser :: "State \<Rightarrow> string result" where
  "lowestActiveUser state =
     (case lowest_active None (st_Players state) of
        None \<Rightarrow> ruleError CodeInvalidState ''no active target exists''
      | Some player \<Rightarrow> Inr (pl_UserID player))"

definition targetStrictlyStrongest :: "State \<Rightarrow> string \<Rightarrow> bool" where
  "targetStrictlyStrongest state target =
     (case playerIndex (st_Players state) target of
        None \<Rightarrow> False
      | Some index \<Rightarrow>
          if \<not> pl_Active (st_Players state ! index) then False
          else list_all (\<lambda>other. other = index \<or> \<not> pl_Active (st_Players state ! other) \<or>
              \<not> CompareHand (pl_Hand (st_Players state ! index)) (pl_Hand (st_Players state ! other)) \<le> 0)
            [0..<length (st_Players state)])"

definition selectTarget :: "State \<Rightarrow> string \<Rightarrow> i64 \<Rightarrow> string \<Rightarrow> (State \<times> Event list) result" where
  "selectTarget state previous now reason =
     and_then (lowestActiveUser state) (\<lambda>target.
     case playerIndex (st_Players state) target of
       None \<Rightarrow> Inl Panic
     | Some targetIndex \<Rightarrow>
         let player = st_Players state ! targetIndex;
             firstSelection = (\<not> pl_TargetedThisRound player);
             next = state\<lparr>st_Phase := PhaseTargetDecision, st_TargetUserID := target,
               st_Players := (st_Players state)[targetIndex := player\<lparr>pl_TargetedThisRound := True\<rparr>],
               st_TargetStreak := (if previous \<noteq> target then 0 else st_TargetStreak state)\<rparr> in
         and_then (deadlineUnixMillis now (cf_ActionTimeoutSeconds (st_Config next))) (\<lambda>deadline.
           let next = next\<lparr>st_ActionDeadlineUnixMillis := deadline\<rparr>;
               penaltyTicks = (if firstSelection then cf_TargetPenaltyTicks (st_Config next) else 0);
               selected = empty_event\<lparr>ev_Kind := EventTargetSelected, ev_Round := st_Round next, ev_UserID := target,
                 ev_PreviousUserID := previous, ev_TargetRerollCount := st_TargetRerollCount next,
                 ev_TargetStreak := st_TargetStreak next, ev_MatchResolutionCount := st_MatchResolutionCount next,
                 ev_PenaltyTicks := penaltyTicks, ev_FirstSelectionThisRound := firstSelection, ev_Reason := reason\<rparr> in
           if firstSelection
           then and_then (addPenalty next target (cf_TargetPenaltyTicks (st_Config next)) ''target_selected'' 0)
             (\<lambda>(next, penalty). Inr (next, [selected, penalty]))
           else Inr (next, [selected])))"

definition startRound ::
  "digest \<Rightarrow> State \<Rightarrow> deterministicRoller \<Rightarrow> i64 \<Rightarrow> bool \<Rightarrow> Participant list \<Rightarrow> (State \<times> Event list) result" where
  "startRound sha256 state roller now initial participants =
     (let next = state\<lparr>st_Phase := PhaseRolling, st_TargetUserID := [], st_TargetRerollCount := 0, st_TargetStreak := 0,
            st_MatchResolutionCount := 0, st_ActionDeadlineUnixMillis := 0, st_MatchHistory := [],
            st_Players := map (\<lambda>player. player\<lparr>pl_TargetedThisRound := False, pl_Included := pl_Active player\<rparr>)
              (st_Players state)\<rparr>;
          started = empty_event\<lparr>ev_Kind := EventRoundStarted, ev_Round := st_Round next, ev_Reason := ''round_started''\<rparr>;
          started = (if initial
            then started\<lparr>ev_InitialConfig := Some (st_Config next), ev_InitialParticipants := participants\<rparr>
            else started) in
      and_then (rollUsers sha256 next roller (activeUsers (st_Players next)) 0 ''round_started'') (\<lambda>(rolled, revealEvents, roller).
      and_then (resolveMatches sha256 rolled roller) (\<lambda>(resolved, matchEvents, roller).
      and_then (selectTarget resolved [] now ''initial_target'') (\<lambda>(selected, targetEvents).
        Inr (selected, started # revealEvents @ matchEvents @ targetEvents)))))"

section \<open>Validation of a snapshot\<close>

text \<open>The loop over the normalised faces, with the face before.\<close>

fun normalized_ok :: "Face option \<Rightarrow> Face list \<Rightarrow> bool" where
  "normalized_ok previous [] = True"
| "normalized_ok previous (face # rest) =
     (Face_Valid face \<and> (case previous of None \<Rightarrow> True | Some lower \<Rightarrow> \<not> lower > face) \<and> normalized_ok (Some face) rest)"

definition validateHandBasic :: "Hand \<Rightarrow> unit result" where
  "validateHandBasic hand =
     (if \<not> list_all Face_Valid (hn_Raw hand) then ruleError CodeInvalidState ''player hand has invalid raw dice''
      else if \<not> normalized_ok None (hn_Normalized hand)
      then ruleError CodeInvalidState ''player hand normalization is invalid''
      else if hn_Class hand = HandUnset \<or> rk_Length (hn_FullKey hand) = 0 \<or> rk_Length (hn_FullKey hand) > 5
      then ruleError CodeInvalidState ''player hand rank is invalid''
      else Inr ())"

fun classify_included :: "Config \<Rightarrow> PlayerState list \<Rightarrow> Hand list result" where
  "classify_included config [] = Inr []"
| "classify_included config (player # rest) =
     (if \<not> pl_Included player then classify_included config rest
      else case Classify (hn_Raw (pl_Hand player)) config of
        Inl _ \<Rightarrow> ruleError CodeInvalidState ''active hand cannot be classified''
      | Inr classified \<Rightarrow> and_then (classify_included config rest) (\<lambda>hands. Inr (classified # hands)))"

definition validateCurrentHands :: "Config \<Rightarrow> PlayerState list \<Rightarrow> unit result" where
  "validateCurrentHands config players =
     and_then (classify_included config players) (\<lambda>hands.
       if map pl_Hand (filter pl_Included players) \<noteq> Resolve235Context hands
       then ruleError CodeInvalidState ''active hand classification is stale''
       else Inr ())"

text \<open>The loops over the users of the groups of one batch, with the users met so far.\<close>

fun validate_group_users :: "PlayerState list \<Rightarrow> string set \<Rightarrow> string list \<Rightarrow> string set result" where
  "validate_group_users players seen [] = Inr seen"
| "validate_group_users players seen (userID # users) =
     (if playerIndex players userID = None
      then ruleError CodeInvalidState ''match history references an unknown player''
      else if userID \<in> seen then ruleError CodeInvalidState ''match history groups overlap''
      else validate_group_users players (insert userID seen) users)"

fun validate_groups :: "PlayerState list \<Rightarrow> string set \<Rightarrow> MatchGroup list \<Rightarrow> unit result" where
  "validate_groups players seen [] = Inr ()"
| "validate_groups players seen (matched # groups) =
     (if mg_Kind matched \<noteq> MatchExact \<and> mg_Kind matched \<noteq> MatchHigh \<and> mg_Kind matched \<noteq> MatchLow \<and>
         mg_Kind matched \<noteq> MatchCapped \<or> length (mg_UserIDs matched) < 2
      then ruleError CodeInvalidState ''match history group is invalid''
      else and_then (validate_group_users players seen (mg_UserIDs matched)) (\<lambda>seen. validate_groups players seen groups))"

fun validate_resolutions :: "State \<Rightarrow> u32 \<Rightarrow> MatchResolution list \<Rightarrow> unit result" where
  "validate_resolutions state lastBatch [] = Inr ()"
| "validate_resolutions state lastBatch (resolution # rest) =
     (if mr_Batch resolution < lastBatch \<or> mr_Batch resolution > st_MatchResolutionCount state \<or>
         mr_Capped resolution \<and> length (mr_Groups resolution) = 0
      then ruleError CodeInvalidState ''match history batch is invalid''
      else and_then (validate_groups (st_Players state) {} (mr_Groups resolution)) (\<lambda>_.
        validate_resolutions state (mr_Batch resolution) rest))"

definition validateMatchHistory :: "State \<Rightarrow> unit result" where
  "validateMatchHistory state =
     (if length (st_MatchHistory state) > unat (cf_MatchResolutionLimit (st_Config state)) + 1
      then ruleError CodeInvalidState ''match history exceeds its bounded resolution count''
      else validate_resolutions state 0 (st_MatchHistory state))"

text \<open>The loop over the players of a settlement, next to those of the state, and whether the target was found.\<close>

fun validate_settled_players :: "string \<Rightarrow> PlayerState list \<Rightarrow> PlayerState list \<Rightarrow> bool \<Rightarrow> bool result" where
  "validate_settled_players target (player # players) (current # rest) targetFound =
     (if pl_UserID player \<noteq> pl_UserID current \<or> pl_SeatIndex player \<noteq> pl_SeatIndex current
      then ruleError CodeInvalidState ''round settlement participants changed''
      else and_then (validateHandBasic (pl_Hand player)) (\<lambda>_.
        validate_settled_players target players rest
          (targetFound \<or> pl_UserID player = target \<and> pl_Active player \<and> pl_TargetedThisRound player)))"
| "validate_settled_players target players rest targetFound = Inr targetFound"

definition validateSettlement :: "State \<Rightarrow> RoundSettlement \<Rightarrow> unit result" where
  "validateSettlement state settlement =
     (if rs_Round settlement = 0 then
        if rs_TargetUserID settlement \<noteq> [] \<or> rs_Reason settlement \<noteq> [] \<or> length (rs_Players settlement) \<noteq> 0 \<or>
           rs_TargetRerollCount settlement \<noteq> 0 \<or> rs_TargetStreak settlement \<noteq> 0 \<or> rs_MatchResolutionCount settlement \<noteq> 0
        then ruleError CodeInvalidState ''empty settlement retains data''
        else Inr ()
      else if rs_Round settlement \<ge> st_Round state \<or> rs_TargetUserID settlement = [] \<or> rs_Reason settlement = [] \<or>
        length (rs_Players settlement) \<noteq> length (st_Players state) \<or>
        rs_TargetRerollCount settlement > cf_TargetRerollLimit (st_Config state) \<or>
        rs_TargetStreak settlement > rs_TargetRerollCount settlement \<or>
        rs_MatchResolutionCount settlement > cf_MatchResolutionLimit (st_Config state)
      then ruleError CodeInvalidState ''round settlement is malformed''
      else and_then (validate_settled_players (rs_TargetUserID settlement) (rs_Players settlement) (st_Players state) False)
        (\<lambda>targetFound.
          if \<not> targetFound then ruleError CodeInvalidState ''round settlement target is invalid''
          else case validateCurrentHands (st_Config state) (rs_Players settlement) of
            Inl _ \<Rightarrow> ruleError CodeInvalidState ''round settlement hands are stale''
          | Inr _ \<Rightarrow> Inr ()))"

definition settlementsEqual :: "RoundSettlement \<Rightarrow> RoundSettlement \<Rightarrow> bool" where
  "settlementsEqual left right \<longleftrightarrow>
     \<not> (rs_Round left \<noteq> rs_Round right \<or> rs_TargetUserID left \<noteq> rs_TargetUserID right \<or>
        rs_Reason left \<noteq> rs_Reason right \<or> rs_TargetRerollCount left \<noteq> rs_TargetRerollCount right \<or>
        rs_TargetStreak left \<noteq> rs_TargetStreak right \<or>
        rs_MatchResolutionCount left \<noteq> rs_MatchResolutionCount right \<or>
        length (rs_Players left) \<noteq> length (rs_Players right)) \<and>
     list_all2 (=) (rs_Players left) (rs_Players right)"

fun validate_history :: "State \<Rightarrow> u32 \<Rightarrow> RoundSettlement list \<Rightarrow> unit result" where
  "validate_history state previousRound [] = Inr ()"
| "validate_history state previousRound (settlement # rest) =
     (if rs_Round settlement \<le> previousRound then ruleError CodeInvalidState ''round history is not strictly ordered''
      else and_then (validateSettlement state settlement) (\<lambda>_. validate_history state (rs_Round settlement) rest))"

definition validateRoundHistory :: "State \<Rightarrow> unit result" where
  "validateRoundHistory state =
     (if length (st_RoundHistory state) > RoundHistoryLimit
      then ruleError CodeInvalidState ''round history exceeds its retention limit''
      else and_then (validateSettlement state (st_LastSettlement state)) (\<lambda>_.
        if length (st_RoundHistory state) = 0 then
          if rs_Round (st_LastSettlement state) \<noteq> 0
          then ruleError CodeInvalidState ''last settlement is missing from round history''
          else Inr ()
        else and_then (validate_history state 0 (st_RoundHistory state)) (\<lambda>_.
          if \<not> settlementsEqual (st_LastSettlement state) (last (st_RoundHistory state))
          then ruleError CodeInvalidState ''last settlement differs from round history''
          else Inr ())))"

text \<open>The loop of \<open>Validate\<close> over the players, with the seat before.\<close>

fun validate_players :: "u32 option \<Rightarrow> PlayerState list \<Rightarrow> unit result" where
  "validate_players previous [] = Inr ()"
| "validate_players previous (player # rest) =
     (if (case previous of None \<Rightarrow> False | Some seat \<Rightarrow> seat \<ge> pl_SeatIndex player)
      then ruleError CodeInvalidState ''players are not in canonical seat order''
      else if pl_Active player \<and> \<not> pl_Included player
      then ruleError CodeInvalidState ''active player is missing from the current resolution''
      else and_then (validateHandBasic (pl_Hand player)) (\<lambda>_. validate_players (Some (pl_SeatIndex player)) rest))"

definition player_participant :: "PlayerState \<Rightarrow> Participant" where
  "player_participant player = \<lparr>pt_UserID = pl_UserID player, pt_SeatIndex = pl_SeatIndex player\<rparr>"

definition Validate :: "State \<Rightarrow> unit result" where
  "Validate state =
     (if st_SchemaVersion state \<noteq> CurrentSchemaVersion \<or> st_Round state = 0 \<or>
         length (st_Players state) < MinimumPlayers \<or> length (st_Players state) > MaximumPlayers \<or>
         (st_Phase state \<noteq> PhaseTargetDecision \<and> st_Phase state \<noteq> PhaseFinished) \<or>
         Config_Validate (st_Config state) (length (st_Players state)) \<noteq> Inr ()
      then ruleError CodeInvalidState ''state header is invalid''
      else and_then (validate_players None (st_Players state)) (\<lambda>_.
        if \<not> list_ex (\<lambda>player. pl_UserID player = st_HostUserID state) (st_Players state) \<or>
           ValidateParticipants (map player_participant (st_Players state)) \<noteq> Inr () \<or>
           st_TargetRerollCount state > cf_TargetRerollLimit (st_Config state) \<or>
           st_TargetStreak state > st_TargetRerollCount state \<or>
           st_MatchResolutionCount state > cf_MatchResolutionLimit (st_Config state)
        then ruleError CodeInvalidState ''frozen participants, host, or counters are invalid''
        else and_then (validateCurrentHands (st_Config state) (st_Players state)) (\<lambda>_.
        and_then (validateMatchHistory state) (\<lambda>_.
        and_then (validateRoundHistory state) (\<lambda>_.
        if st_Phase state = PhaseFinished then
          if \<not> validFinishReason (st_FinishReason state) \<or> st_TargetUserID state \<noteq> [] \<or> st_ActionDeadlineUnixMillis state \<noteq> 0
          then ruleError CodeInvalidState ''finished state retains a target decision''
          else Inr ()
        else if st_FinishReason state \<noteq> [] \<or> activeCount (st_Players state) < MinimumPlayers \<or>
          (case playerIndex (st_Players state) (st_TargetUserID state) of
             None \<Rightarrow> True
           | Some targetIndex \<Rightarrow> \<not> pl_Active (st_Players state ! targetIndex) \<or>
               \<not> pl_TargetedThisRound (st_Players state ! targetIndex)) \<or>
          (cf_ActionTimeoutSeconds (st_Config state) = 0 \<and> st_ActionDeadlineUnixMillis state \<noteq> 0) \<or>
          (cf_ActionTimeoutSeconds (st_Config state) \<noteq> 0 \<and> st_ActionDeadlineUnixMillis state \<le> 0)
        then ruleError CodeInvalidState ''target decision is malformed''
        else Inr ())))))"

section \<open>Actions\<close>

definition NewState ::
  "digest \<Rightarrow> Config \<Rightarrow> Participant list \<Rightarrow> string \<Rightarrow> i64 \<Rightarrow> u8 list \<Rightarrow> (State \<times> Event list) result" where
  "NewState sha256 config participants hostUserID nowUnixMillis seed =
     and_then (canonicalParticipants participants) (\<lambda>canonical.
     and_then (Config_Validate config (length canonical)) (\<lambda>_.
       if \<not> validUnixMillis nowUnixMillis then ruleError CodeInvalidState ''deterministic time is required''
       else if \<not> list_ex (\<lambda>participant. pt_UserID participant = hostUserID) canonical
       then ruleError CodeInvalidParticipants ''host must be a frozen participant''
       else startRound sha256
         \<lparr>st_SchemaVersion = CurrentSchemaVersion, st_Phase = PhaseRolling, st_Round = 1, st_HostUserID = hostUserID,
           st_Config = config,
           st_Players = map (\<lambda>participant. \<lparr>pl_UserID = pt_UserID participant, pl_SeatIndex = pt_SeatIndex participant,
             pl_Active = True, pl_Included = False, pl_TargetedThisRound = False, pl_PenaltyTicks = 0,
             pl_Hand = zero_hand\<rparr>) canonical,
           st_TargetUserID = [], st_TargetRerollCount = 0, st_TargetStreak = 0, st_MatchResolutionCount = 0,
           st_ActionDeadlineUnixMillis = 0, st_MatchHistory = [], st_LastSettlement = empty_settlement,
           st_RoundHistory = [], st_FinishReason = []\<rparr>
         \<lparr>rl_seed = seed, rl_stream = 0\<rparr> nowUnixMillis True canonical))"

definition CurrentTimer :: "State \<Rightarrow> ActionTimer option" where
  "CurrentTimer state =
     (if st_Phase state \<noteq> PhaseTargetDecision \<or> st_ActionDeadlineUnixMillis state = 0 then None
      else Some \<lparr>tm_Round = st_Round state, tm_TargetUserID = st_TargetUserID state,
        tm_TargetRerollCount = st_TargetRerollCount state, tm_TargetStreak = st_TargetStreak state,
        tm_MatchResolutionCount = st_MatchResolutionCount state,
        tm_DeadlineUnixMillis = st_ActionDeadlineUnixMillis state\<rparr>)"

definition settleAndStart ::
  "digest \<Rightarrow> State \<Rightarrow> string \<Rightarrow> string \<Rightarrow> i64 \<Rightarrow> deterministicRoller \<Rightarrow> (State \<times> Event list) result" where
  "settleAndStart sha256 state target reason now roller =
     (if st_Round state = MaxUint32 then ruleError CodeRoundOverflow ''round counter cannot advance''
      else
        let settlement = \<lparr>rs_Round = st_Round state, rs_TargetUserID = target, rs_Reason = reason,
              rs_TargetRerollCount = st_TargetRerollCount state, rs_TargetStreak = st_TargetStreak state,
              rs_MatchResolutionCount = st_MatchResolutionCount state, rs_Players = st_Players state\<rparr>;
            history = st_RoundHistory state @ [settlement];
            history = (if length history > RoundHistoryLimit then drop (length history - RoundHistoryLimit) history
              else history);
            settled = empty_event\<lparr>ev_Kind := EventRoundSettled, ev_Round := st_Round state, ev_UserID := target,
              ev_Reason := reason, ev_Settlement := settlement\<rparr> in
        and_then (startRound sha256 (state\<lparr>st_LastSettlement := settlement, st_RoundHistory := history,
            st_Round := st_Round state + 1\<rparr>) roller now False [])
          (\<lambda>(started, startEvents). Inr (started, settled # startEvents)))"

definition validateTargetAction :: "State \<Rightarrow> string \<Rightarrow> i64 \<Rightarrow> bool \<Rightarrow> unit result" where
  "validateTargetAction state actor now timer =
     and_then (Validate state) (\<lambda>_.
       if st_Phase state = PhaseFinished then ruleError CodeSessionFinished ''session is finished''
       else if actor \<noteq> st_TargetUserID state \<or> \<not> activePlayer state actor
       then ruleError CodeNotCurrentTarget ''actor is not the current target''
       else if \<not> validUnixMillis now then ruleError CodeInvalidAction ''deterministic action time is invalid''
       else if \<not> timer \<and> st_ActionDeadlineUnixMillis state \<noteq> 0 \<and> now \<ge> st_ActionDeadlineUnixMillis state
       then ruleError CodeActionExpired ''target action deadline has passed''
       else Inr ())"

definition finishState :: "State \<Rightarrow> string \<Rightarrow> string \<Rightarrow> State \<times> Event" where
  "finishState state reason operator =
     (state\<lparr>st_Phase := PhaseFinished, st_FinishReason := reason, st_TargetUserID := [], st_ActionDeadlineUnixMillis := 0\<rparr>,
      empty_event\<lparr>ev_Kind := EventSessionFinished, ev_Round := st_Round state, ev_Reason := reason,
        ev_OperatorUserID := operator\<rparr>)"

definition Reroll :: "digest \<Rightarrow> State \<Rightarrow> string \<Rightarrow> i64 \<Rightarrow> u8 list \<Rightarrow> (State \<times> Event list) result" where
  "Reroll sha256 state actor nowUnixMillis seed =
     and_then (validateTargetAction state actor nowUnixMillis False) (\<lambda>_.
       if st_TargetRerollCount state \<ge> cf_TargetRerollLimit (st_Config state)
       then ruleError CodeRerollLimitReached ''target reroll limit is exhausted''
       else
         and_then (addPenalty state actor (cf_RerollPenaltyTicks (st_Config state)) ''target_reroll'' 0) (\<lambda>(next, penalty).
         let next = next\<lparr>st_TargetRerollCount := st_TargetRerollCount next + 1, st_TargetStreak := st_TargetStreak next + 1\<rparr>;
             rerolled = empty_event\<lparr>ev_Kind := EventTargetRerolled, ev_Round := st_Round next, ev_UserID := actor,
               ev_TargetRerollCount := st_TargetRerollCount next, ev_TargetStreak := st_TargetStreak next,
               ev_MatchResolutionCount := st_MatchResolutionCount next,
               ev_PenaltyTicks := cf_RerollPenaltyTicks (st_Config next), ev_Reason := ''target_reroll''\<rparr> in
         and_then (rollUsers sha256 next \<lparr>rl_seed = seed, rl_stream = 0\<rparr> [actor] 0 ''target_reroll'')
           (\<lambda>(rolled, revealEvents, roller).
         and_then (resolveMatches sha256 rolled roller) (\<lambda>(resolved, matchEvents, roller).
         let events = [rerolled, penalty] @ revealEvents @ matchEvents in
         if targetStrictlyStrongest resolved actor then
           and_then (settleAndStart sha256 resolved actor ''target_surpassed'' nowUnixMillis roller)
             (\<lambda>(settled, settleEvents). Inr (settled, events @ settleEvents))
         else if st_TargetRerollCount resolved \<ge> cf_TargetRerollLimit (st_Config resolved) then
           and_then (settleAndStart sha256 resolved actor ''reroll_limit'' nowUnixMillis roller)
             (\<lambda>(settled, settleEvents). Inr (settled, events @ settleEvents))
         else
           and_then (selectTarget resolved actor nowUnixMillis ''post_reroll_target'')
             (\<lambda>(selected, targetEvents). Inr (selected, events @ targetEvents))))))"

definition Stand :: "digest \<Rightarrow> State \<Rightarrow> string \<Rightarrow> i64 \<Rightarrow> u8 list \<Rightarrow> (State \<times> Event list) result" where
  "Stand sha256 state actor nowUnixMillis seed =
     and_then (validateTargetAction state actor nowUnixMillis False) (\<lambda>_.
       settleAndStart sha256 state actor ''stand'' nowUnixMillis \<lparr>rl_seed = seed, rl_stream = 0\<rparr>)"

definition HandleTimeout :: "digest \<Rightarrow> State \<Rightarrow> ActionTimer \<Rightarrow> i64 \<Rightarrow> u8 list \<Rightarrow> (State \<times> Event list) result" where
  "HandleTimeout sha256 state timer nowUnixMillis seed =
     and_then (Validate state) (\<lambda>_.
       if st_Phase state = PhaseFinished then ruleError CodeSessionFinished ''session no longer accepts timers''
       else if tm_Round timer \<noteq> st_Round state \<or> tm_TargetUserID timer \<noteq> st_TargetUserID state \<or>
         tm_TargetRerollCount timer \<noteq> st_TargetRerollCount state \<or> tm_TargetStreak timer \<noteq> st_TargetStreak state \<or>
         tm_MatchResolutionCount timer \<noteq> st_MatchResolutionCount state \<or> tm_DeadlineUnixMillis timer = 0 \<or>
         tm_DeadlineUnixMillis timer \<noteq> st_ActionDeadlineUnixMillis state
       then ruleError CodeTimerMismatch ''timer does not match the current target decision''
       else if \<not> validUnixMillis nowUnixMillis \<or> nowUnixMillis < st_ActionDeadlineUnixMillis state
       then ruleError CodeTimerNotDue ''timer fired before its deadline''
       else settleAndStart sha256 state (st_TargetUserID state) ''timeout_stand'' nowUnixMillis
         \<lparr>rl_seed = seed, rl_stream = 0\<rparr>)"

definition RevokeParticipant :: "digest \<Rightarrow> State \<Rightarrow> string \<Rightarrow> i64 \<Rightarrow> u8 list \<Rightarrow> (State \<times> Event list) result" where
  "RevokeParticipant sha256 state userID nowUnixMillis seed =
     and_then (Validate state) (\<lambda>_.
       if st_Phase state = PhaseFinished
       then ruleError CodeSessionFinished ''session no longer accepts participant changes''
       else if \<not> validUnixMillis nowUnixMillis then ruleError CodeInvalidState ''deterministic time is required''
       else case playerIndex (st_Players state) userID of
         None \<Rightarrow> ruleError CodeParticipantInactive ''participant is absent or already inactive''
       | Some index \<Rightarrow>
           if \<not> pl_Active (st_Players state ! index)
           then ruleError CodeParticipantInactive ''participant is absent or already inactive''
           else
             let next = state\<lparr>st_Players := (st_Players state)[index := (st_Players state ! index)\<lparr>pl_Active := False\<rparr>]\<rparr>;
                 wasTarget = (userID = st_TargetUserID state);
                 revoked = empty_event\<lparr>ev_Kind := EventParticipantRevoked, ev_Round := st_Round state, ev_UserID := userID,
                   ev_Reason := ''participant_revoked'', ev_TargetRerollCount := st_TargetRerollCount state,
                   ev_TargetStreak := st_TargetStreak state, ev_MatchResolutionCount := st_MatchResolutionCount state,
                   ev_RoundCancelled := wasTarget, ev_ActivePlayerCount := of_nat (activeCount (st_Players next))\<rparr> in
             if activeCount (st_Players next) < MinimumPlayers then
               let (finished, finishEvent) = finishState next FinishInsufficientParticipants [] in
               Inr (finished, [revoked, finishEvent])
             else if \<not> wasTarget then Inr (next, [revoked])
             else if st_Round state = MaxUint32 then ruleError CodeRoundOverflow ''round counter cannot advance''
             else
               and_then (startRound sha256 (next\<lparr>st_Round := st_Round next + 1\<rparr>)
                   \<lparr>rl_seed = seed, rl_stream = 0\<rparr> nowUnixMillis False [])
                 (\<lambda>(started, startEvents). Inr (started, revoked\<lparr>ev_NextRound := st_Round state + 1\<rparr> # startEvents)))"

definition Finish :: "State \<Rightarrow> string \<Rightarrow> string \<Rightarrow> (State \<times> Event list) result" where
  "Finish state reason0 operatorUserID =
     and_then (Validate state) (\<lambda>_.
       if st_Phase state = PhaseFinished then ruleError CodeSessionFinished ''session is already finished''
       else
         let reason = (if reason0 = [] then FinishHostRequested else reason0) in
         if \<not> validFinishReason reason then ruleError CodeInvalidAction ''finish reason is unsupported''
         else if reason = FinishHostRequested \<and> operatorUserID = [] \<or> reason \<noteq> FinishHostRequested \<and> operatorUserID \<noteq> []
         then ruleError CodeInvalidAction ''finish operator does not match the resolution cause''
         else
           let (finished, event) = finishState state reason operatorUserID in
           Inr (finished, [event]))"

end
