(* ===== verification/MeetProps.thy ===== *)
theory MeetProps
  imports MeetOrder Meet
begin

text \<open>
  What the functions of meet by chance do to the table: which hands they leave, what they keep of the players, and
  which groups of equal hands they find.
\<close>

section \<open>Classified hands\<close>

definition special_raw :: "Config \<Rightarrow> Face list \<Rightarrow> bool" where
  "special_raw config raw \<longleftrightarrow> cf_Special235Enabled config \<and> sort raw = [2, 3, 5]"

definition special_hand :: "Face list \<Rightarrow> Hand" where
  "special_hand raw = \<lparr>hn_Raw = raw, hn_Normalized = [2, 3, 5], hn_Class = HandSpecial235, hn_FullKey = key [0, -1],
     hn_TieKey = (1, -1), hn_WildUsed = False, hn_Special235 = True, hn_SpecialContext = Special235Minimum\<rparr>"

lemma Classify_special:
  "faces_ok raw \<Longrightarrow> special_raw config raw \<Longrightarrow> Classify raw config = Inr (special_hand raw)"
  by (simp add: Classify_def faces_ok_def special_raw_def special_hand_def sortedFaces_def Let_def)

lemma Classify_ordinary:
  assumes "faces_ok raw" and "\<not> special_raw config raw"
  shows "\<exists>c. interprets raw c \<and> (cf_OnesWild config \<or> c = raw) \<and>
    Classify raw config = Inr ((interpreted config raw c)\<lparr>hn_Raw := raw\<rparr>) \<and>
    (cf_OnesWild config \<longrightarrow> (\<forall>d. interprets raw d \<longrightarrow> not_above (interpreted config raw d) (interpreted config raw c)))"
proof -
  have len: "length raw = 3" and valid: "list_all Face_Valid raw" using assms(1) by (simp_all add: faces_ok_def)
  have raw: "interprets raw raw" by (auto simp: interprets_def Face_Valid_iff)
  have s: "\<not> (cf_Special235Enabled config \<and> sortedFaces raw = [2, 3, 5])"
    using assms(2) by (simp add: special_raw_def sortedFaces_def)
  show ?thesis
  proof (cases "cf_OnesWild config")
    case True
    from wild_best [OF len, of config] True show ?thesis using s valid by (auto simp: Classify_def Let_def)
  next
    case False
    have "classifyOrdinary raw config = interpreted config raw raw"
      using classifyOrdinary_ordinary(3) [OF len, of config] by (simp add: interpreted_def)
    with False raw s valid show ?thesis by (intro exI [of _ raw]) (auto simp: Classify_def Let_def)
  qed
qed

text \<open>A hand without what the rest of the table decides.\<close>

definition base :: "Hand \<Rightarrow> Hand" where
  "base h = (if hn_Special235 h
     then h\<lparr>hn_SpecialContext := Special235None, hn_FullKey := zero_key, hn_TieKey := (0, 0)\<rparr> else h)"

lemma base_simps [simp]:
  "hn_Special235 (base h) = hn_Special235 h" "hn_Class (base h) = hn_Class h" "hn_Raw (base h) = hn_Raw h"
  "hn_Normalized (base h) = hn_Normalized h"
  by (simp_all add: base_def)

lemma base_ordinary: "\<not> hn_Special235 h \<Longrightarrow> base h = h"
  by (simp add: base_def)

lemma base_eq_special:
  "base h = base g \<Longrightarrow> hn_Special235 h \<Longrightarrow>
     h\<lparr>hn_SpecialContext := c, hn_FullKey := k, hn_TieKey := t\<rparr> = g\<lparr>hn_SpecialContext := c, hn_FullKey := k, hn_TieKey := t\<rparr>"
  by (cases h; cases g) (auto simp: base_def split: if_splits)

lemma length_Resolve [simp]: "length (Resolve235Context hs) = length hs"
  by (simp add: Resolve235Context_def)

lemma base_Resolve [simp]: "map base (Resolve235Context hs) = map base hs"
  by (rule nth_equalityI) (simp_all add: Resolve235Context_def resolve_235_def base_def Let_def)

lemma Resolve_base:
  assumes "map base hs = map base gs"
  shows "Resolve235Context hs = Resolve235Context gs"
proof (rule nth_equalityI)
  have len: "length hs = length gs" using assms by (metis length_map)
  then show "length (Resolve235Context hs) = length (Resolve235Context gs)" by simp
  have b: "base (hs ! i) = base (gs ! i)" if "i < length hs" for i
    using that len assms by (metis nth_map)
  fix i
  assume "i < length (Resolve235Context hs)"
  then have i: "i < length hs" by simp
  have cls: "hn_Class (hs ! j) = hn_Class (gs ! j)" if "j < length hs" for j using b [OF that] by (metis base_simps(2))
  have special: "hn_Special235 (hs ! i) = hn_Special235 (gs ! i)" using b [OF i] by (metis base_simps(1))
  have all: "list_all (\<lambda>other. other = i \<or> hn_Class (hs ! other) = HandLeopard) [0..<length hs] =
      list_all (\<lambda>other. other = i \<or> hn_Class (gs ! other) = HandLeopard) [0..<length gs]"
    using cls len by (auto simp: list_all_iff)
  have "resolve_235 hs i = resolve_235 gs i"
    using b [OF i] special all base_eq_special [OF b [OF i]] base_ordinary [of "hs ! i"] base_ordinary [of "gs ! i"]
    by (simp add: resolve_235_def Let_def)
  then show "Resolve235Context hs ! i = Resolve235Context gs ! i" using i len by (simp add: Resolve235Context_def)
qed

lemma Resolve_idem [simp]: "Resolve235Context (Resolve235Context hs) = Resolve235Context hs"
  by (rule Resolve_base) simp

text \<open>A hand that was classified from its dice and then perhaps resolved.\<close>

definition hand_good :: "Config \<Rightarrow> Hand \<Rightarrow> bool" where
  "hand_good config h \<longleftrightarrow> faces_ok (hn_Raw h) \<and> hand_keyed h \<and>
     (\<exists>g. Classify (hn_Raw h) config = Inr g \<and> base h = base g)"

lemma Classify_Raw: "Classify raw config = Inr g \<Longrightarrow> hn_Raw g = raw"
  by (auto simp: Classify_def Let_def split: if_splits)

lemma Classify_keyed:
  assumes "faces_ok raw" and "Classify raw config = Inr g"
  shows "hand_keyed g"
proof (cases "special_raw config raw")
  case True
  with Classify_special [OF assms(1)] assms(2) show ?thesis by (auto simp: special_hand_def hand_keyed_def key_ok_key)
next
  case False
  from Classify_ordinary [OF assms(1) False] assms(2) obtain c where
    "interprets raw c" "g = (interpreted config raw c)\<lparr>hn_Raw := raw\<rparr>" by auto
  with assms(1) interpreted_candidate [of c config raw] show ?thesis
    by (simp add: candidate_def hand_keyed_def interprets_def faces_ok_def)
qed

lemma Classify_good: "faces_ok raw \<Longrightarrow> Classify raw config = Inr g \<Longrightarrow> hand_good config g"
  using Classify_Raw [of raw config g] Classify_keyed [of raw config g] by (auto simp: hand_good_def)

lemma Classify_total: "faces_ok raw \<Longrightarrow> \<exists>g. Classify raw config = Inr g"
  by (auto simp: Classify_def faces_ok_def Let_def)

lemma normalized_ok_iff:
  "normalized_ok p xs \<longleftrightarrow> list_all Face_Valid xs \<and> sorted xs \<and> (case p of None \<Rightarrow> True | Some f \<Rightarrow> (case xs of [] \<Rightarrow> True | x # _ \<Rightarrow> f \<le> x))"
  by (induction p xs rule: normalized_ok.induct) (auto simp: not_less split: option.splits list.splits intro: order_trans)

lemma interprets_valid: "interprets raw c \<Longrightarrow> list_all Face_Valid raw \<Longrightarrow> list_all Face_Valid c"
  by (auto simp: interprets_def list_all_length split: if_splits)

lemma Classify_normalized:
  assumes "faces_ok raw" and "Classify raw config = Inr g"
  shows "list_all Face_Valid (hn_Normalized g)" "sorted (hn_Normalized g)" "hn_Class g \<noteq> HandUnset"
    "hn_Special235 g \<longleftrightarrow> hn_Class g = HandSpecial235"
proof -
  have "list_all Face_Valid (hn_Normalized g) \<and> sorted (hn_Normalized g) \<and> hn_Class g \<noteq> HandUnset \<and>
      (hn_Special235 g \<longleftrightarrow> hn_Class g = HandSpecial235)"
  proof (cases "special_raw config raw")
    case True
    with Classify_special [OF assms(1)] assms(2) show ?thesis by (auto simp: special_hand_def Face_Valid_iff)
  next
    case False
    from Classify_ordinary [OF assms(1) False] assms(2) obtain c where c: "interprets raw c"
      and g: "g = (interpreted config raw c)\<lparr>hn_Raw := raw\<rparr>" by auto
    have len: "length c = 3" and valid: "list_all Face_Valid c"
      using c assms(1) interprets_valid [OF c] by (simp_all add: interprets_def faces_ok_def)
    show ?thesis
      using classifyOrdinary_ordinary(1,2) [OF len, of config] valid
      by (auto simp: g interpreted_def ordinary_def list_all_iff)
  qed
  then show "list_all Face_Valid (hn_Normalized g)" "sorted (hn_Normalized g)" "hn_Class g \<noteq> HandUnset"
    "hn_Special235 g \<longleftrightarrow> hn_Class g = HandSpecial235" by simp_all
qed

lemma hand_good_basic:
  assumes "hand_good config h"
  shows "validateHandBasic h = Inr ()"
proof -
  from assms obtain g where f: "faces_ok (hn_Raw h)" and k: "hand_keyed h" and g: "Classify (hn_Raw h) config = Inr g"
    and b: "base h = base g" by (auto simp: hand_good_def)
  have "hn_Normalized h = hn_Normalized g" "hn_Class h = hn_Class g" using b by (metis base_simps(4), metis base_simps(2))
  with Classify_normalized [OF f g] f k show ?thesis
    by (simp add: validateHandBasic_def normalized_ok_iff faces_ok_def hand_keyed_def key_ok_def)
qed

lemma hand_good_Resolve:
  assumes "\<forall>h \<in> set hs. hand_good config h"
  shows "\<forall>h \<in> set (Resolve235Context hs). hand_good config h"
proof
  fix h
  assume "h \<in> set (Resolve235Context hs)"
  then obtain i where i: "i < length hs" and h: "h = resolve_235 hs i" by (auto simp: Resolve235Context_def)
  then have good: "hand_good config (hs ! i)" using assms by simp
  have b: "base h = base (hs ! i)" using i h base_Resolve [of hs] by (metis Resolve235Context_def length_map length_upt diff_zero map_nth nth_map nth_upt add_0)
  have raw: "hn_Raw h = hn_Raw (hs ! i)" using b by (metis base_simps(3))
  have "hand_keyed h" using good by (auto simp: h resolve_235_def Let_def hand_good_def hand_keyed_def key_ok_key)
  with good b raw show "hand_good config h" by (auto simp: hand_good_def)
qed

end
