(* ===== verification/MeetTable.thy ===== *)
theory MeetTable
  imports MeetProps
begin

text \<open>
  The table of meet by chance: what a roll and a penalty keep of the players, the ledger of penalties that the events
  record, and the groups of equal hands.
\<close>

section \<open>The table\<close>

interpretation mb: player_table pl_UserID pl_Active playerIndex activeCount
  by unfold_locales simp_all

text \<open>What no function within a round changes of a player, and that an inactive player keeps the hand.\<close>

definition kept :: "PlayerState \<Rightarrow> PlayerState \<Rightarrow> bool" where
  "kept p q \<longleftrightarrow> pl_UserID q = pl_UserID p \<and> pl_SeatIndex q = pl_SeatIndex p \<and> pl_Active q = pl_Active p \<and>
     (\<not> pl_Active p \<longrightarrow> pl_Hand q = pl_Hand p)"

abbreviation kept_all :: "PlayerState list \<Rightarrow> PlayerState list \<Rightarrow> bool" where
  "kept_all \<equiv> list_all2 kept"

lemma kept_refl [simp]: "kept p p"
  by (simp add: kept_def)

lemma kept_all_refl [simp]: "kept_all ps ps"
  by (simp add: list.rel_refl)

lemma kept_all_trans: "kept_all ps qs \<Longrightarrow> kept_all qs rs \<Longrightarrow> kept_all ps rs"
  by (rule list_all2_trans) (auto simp: kept_def)

lemma kept_all_update: "kept (ps ! i) q \<Longrightarrow> kept_all ps (ps[i := q])"
  by (cases "i < length ps") (auto simp: list_all2_conv_all_nth nth_list_update)

lemma kept_all_maps:
  assumes "kept_all ps qs"
  shows "map pl_UserID qs = map pl_UserID ps" "map pl_SeatIndex qs = map pl_SeatIndex ps" "map pl_Active qs = map pl_Active ps"
    "length qs = length ps"
  using assms by (induction rule: list_all2_induct) (auto simp: kept_def)

lemma kept_all_index: "kept_all ps qs \<Longrightarrow> playerIndex qs u = playerIndex ps u"
  using kept_all_maps(1) [of ps qs] by (intro mb.index_cong) simp

lemma kept_all_active: "kept_all ps qs \<Longrightarrow> mb.active_user qs u = mb.active_user ps u"
  by (auto simp: mb.active_user_def kept_all_index list_all2_conv_all_nth kept_def split: option.splits
      dest: mb.index_SomeD)

lemma kept_all_count: "kept_all ps qs \<Longrightarrow> activeCount qs = activeCount ps"
  by (induction rule: list_all2_induct) (auto simp: kept_def)

section \<open>Rolling\<close>

text \<open>The table after a roll: everybody active is included, has a classified hand, and the hands are resolved together.\<close>

definition good_table :: "Config \<Rightarrow> PlayerState list \<Rightarrow> bool" where
  "good_table config ps \<longleftrightarrow>
     (\<forall>p \<in> set ps. pl_Included p = pl_Active p \<and> (pl_Active p \<longrightarrow> hand_good config (pl_Hand p))) \<and>
     Resolve235Context (map pl_Hand (filter pl_Active ps)) = map pl_Hand (filter pl_Active ps)"

lemma fold_put_hands:
  assumes "distinct is" and "length hs = length is" and "set is \<subseteq> {..<length ps}"
  shows "length (fold (\<lambda>(i, h) ps. ps[i := (ps ! i)\<lparr>pl_Hand := h\<rparr>]) (zip is hs) ps) = length ps"
    and "\<forall>k < length is. fold (\<lambda>(i, h) ps. ps[i := (ps ! i)\<lparr>pl_Hand := h\<rparr>]) (zip is hs) ps ! (is ! k) =
      (ps ! (is ! k))\<lparr>pl_Hand := hs ! k\<rparr>"
    and "\<forall>j. j \<notin> set is \<longrightarrow> fold (\<lambda>(i, h) ps. ps[i := (ps ! i)\<lparr>pl_Hand := h\<rparr>]) (zip is hs) ps ! j = ps ! j"
  using assms
proof (induction "is" arbitrary: hs ps)
  case (Cons i "is")
  {
    case 1
    then show ?case using Cons.IH(1) by (cases hs) auto
  next
    case 2
    then obtain h hs' where hs: "hs = h # hs'" by (cases hs) auto
    show ?case
    proof (intro allI impI)
      fix k
      assume "k < length (i # is)"
      with 2 Cons.IH(2) [of hs' "ps[i := (ps ! i)\<lparr>pl_Hand := h\<rparr>]"] Cons.IH(3) [of hs' "ps[i := (ps ! i)\<lparr>pl_Hand := h\<rparr>]"]
      show "fold (\<lambda>(i, h) ps. ps[i := (ps ! i)\<lparr>pl_Hand := h\<rparr>]) (zip (i # is) hs) ps ! ((i # is) ! k) =
          (ps ! ((i # is) ! k))\<lparr>pl_Hand := hs ! k\<rparr>"
        by (cases k) (auto simp: hs nth_list_update)
    qed
  next
    case 3
    then show ?case using Cons.IH(3) by (cases hs) auto
  }
qed simp_all

lemma filter_nth: "filter P xs = map ((!) xs) (filter (\<lambda>i. P (xs ! i)) [0..<length xs])"
  by (metis (no_types, lifting) filter_map map_nth comp_apply filter_cong)

lemma resolvePlayer235_table:
  assumes "qs = resolvePlayer235 ps"
  shows "length qs = length ps"
    and "\<forall>i < length ps. \<exists>h. qs ! i = (ps ! i)\<lparr>pl_Hand := h\<rparr> \<and> (\<not> pl_Active (ps ! i) \<longrightarrow> h = pl_Hand (ps ! i))"
    and "map pl_Hand (filter pl_Active qs) = Resolve235Context (map pl_Hand (filter pl_Active ps))"
proof -
  let ?is = "filter (\<lambda>i. pl_Active (ps ! i)) [0..<length ps]"
  let ?hs = "Resolve235Context (map (\<lambda>i. pl_Hand (ps ! i)) ?is)"
  have d: "distinct ?is" "length ?hs = length ?is" "set ?is \<subseteq> {..<length ps}" by auto
  have qs: "qs = fold (\<lambda>(i, h) ps. ps[i := (ps ! i)\<lparr>pl_Hand := h\<rparr>]) (zip ?is ?hs) ps"
    using assms by (simp add: resolvePlayer235_def Let_def)
  note f = fold_put_hands [OF d, folded qs]
  from f(1) show len: "length qs = length ps" .
  show each: "\<forall>i < length ps. \<exists>h. qs ! i = (ps ! i)\<lparr>pl_Hand := h\<rparr> \<and> (\<not> pl_Active (ps ! i) \<longrightarrow> h = pl_Hand (ps ! i))"
  proof (intro allI impI)
    fix i
    assume i: "i < length ps"
    show "\<exists>h. qs ! i = (ps ! i)\<lparr>pl_Hand := h\<rparr> \<and> (\<not> pl_Active (ps ! i) \<longrightarrow> h = pl_Hand (ps ! i))"
    proof (cases "pl_Active (ps ! i)")
      case True
      with i have "i \<in> set ?is" by simp
      then obtain k where "k < length ?is" "?is ! k = i" by (metis in_set_conv_nth)
      with f(2) True show ?thesis by blast
    next
      case False
      then have "i \<notin> set ?is" by simp
      with f(3) show ?thesis by (intro exI [of _ "pl_Hand (ps ! i)"]) simp
    qed
  qed
  have act: "pl_Active (qs ! i) = pl_Active (ps ! i)" if "i < length ps" for i using each that by force
  have "filter (\<lambda>i. pl_Active (qs ! i)) [0..<length qs] = ?is" using len act by (auto intro!: filter_cong)
  then have "map pl_Hand (filter pl_Active qs) = map (\<lambda>i. pl_Hand (qs ! i)) ?is" by (simp add: filter_nth [of _ qs])
  also have "\<dots> = ?hs" using f(2) d(2) by (intro nth_equalityI) auto
  also have "map (\<lambda>i. pl_Hand (ps ! i)) ?is = map pl_Hand (filter pl_Active ps)" by (simp add: filter_nth [of _ ps])
  finally show "map pl_Hand (filter pl_Active qs) = Resolve235Context (map pl_Hand (filter pl_Active ps))" .
qed


lemma assign_hands_Inr:
  assumes "assign_hands config ps us fs = Inr qs" and "list_all Face_Valid fs"
  shows "length qs = length ps \<and>
    (\<forall>i < length ps. \<exists>h. qs ! i = (ps ! i)\<lparr>pl_Hand := h\<rparr> \<and>
      (h = pl_Hand (ps ! i) \<or> pl_Active (ps ! i) \<and> hand_good config h)) \<and>
    (\<forall>u \<in> set us. \<exists>i. playerIndex ps u = Some i \<and> pl_Active (ps ! i) \<and> hand_good config (pl_Hand (qs ! i)))"
  using assms
proof (induction config ps us fs rule: assign_hands.induct)
  case (1 config ps fs)
  have "\<exists>h. p = p\<lparr>pl_Hand := h\<rparr> \<and> (h = pl_Hand p \<or> pl_Active p \<and> hand_good config h)" for p :: PlayerState
    by (rule exI [of _ "pl_Hand p"]) simp
  with 1 show ?case by simp
next
  case (2 config ps u us fs)
  from "2.prems" obtain i where i: "playerIndex ps u = Some i" and a: "pl_Active (ps ! i)"
    by (auto split: option.splits if_splits)
  from "2.prems" i a obtain x y z rest where fs: "fs = x # y # z # rest" by (auto split: list.splits)
  from "2.prems" i a fs obtain hand where c: "Classify [x, y, z] config = Inr hand"
    and r: "assign_hands config (ps[i := (ps ! i)\<lparr>pl_Hand := hand\<rparr>]) us rest = Inr qs" by (auto simp: outcome)
  have good: "hand_good config hand" using "2.prems"(2) fs by (intro Classify_good [OF _ c]) (simp add: faces_ok_def)
  have il: "i < length ps" using mb.index_SomeD [OF i] by simp
  let ?ps = "ps[i := (ps ! i)\<lparr>pl_Hand := hand\<rparr>]"
  have idx: "playerIndex ?ps v = playerIndex ps v" for v using il by simp
  have ih: "length qs = length ?ps \<and>
    (\<forall>j < length ?ps. \<exists>h. qs ! j = (?ps ! j)\<lparr>pl_Hand := h\<rparr> \<and> (h = pl_Hand (?ps ! j) \<or> pl_Active (?ps ! j) \<and> hand_good config h)) \<and>
    (\<forall>v \<in> set us. \<exists>j. playerIndex ?ps v = Some j \<and> pl_Active (?ps ! j) \<and> hand_good config (pl_Hand (qs ! j)))"
    using "2.IH" [OF i _ fs refl refl r] a "2.prems"(2) fs by simp
  have each: "\<exists>h. qs ! j = (ps ! j)\<lparr>pl_Hand := h\<rparr> \<and> (h = pl_Hand (ps ! j) \<or> pl_Active (ps ! j) \<and> hand_good config h)"
    if "j < length ps" for j
    using ih that good a il by (auto simp: nth_list_update split: if_splits)
  have "hand_good config (pl_Hand (qs ! i))" using ih il good by force
  moreover have "\<exists>j. playerIndex ps v = Some j \<and> pl_Active (ps ! j) \<and> hand_good config (pl_Hand (qs ! j))" if "v \<in> set us" for v
    using ih that idx il by (metis (no_types, lifting) nth_list_update_eq nth_list_update_neq PlayerState.select_convs(3)
        PlayerState.surjective PlayerState.update_convs(7))
  ultimately show ?case using ih each i a by auto
qed


lemma players_at_ok: "players_at ps us = Inr qs \<Longrightarrow> set us \<subseteq> pl_UserID ` set ps"
  by (induction us arbitrary: qs) (auto simp: outcome split: option.splits dest!: mb.index_SomeD)

text \<open>A roll leaves a good table if everybody who does not roll already has a classified hand.\<close>

lemma rollUsers_Inr:
  assumes roll: "rollUsers sha256 s roller us batch reason = Inr (t, es, roller')"
    and before: "\<forall>p \<in> set (st_Players s). pl_Active p \<longrightarrow> hand_good (st_Config s) (pl_Hand p) \<or> pl_UserID p \<in> set us"
    and users: "distinct (map pl_UserID (st_Players s))"
  shows "t = s\<lparr>st_Players := st_Players t\<rparr>" and "kept_all (st_Players s) (st_Players t)"
    and "good_table (st_Config s) (st_Players t)"
    and "map pl_TargetedThisRound (st_Players t) = map pl_TargetedThisRound (st_Players s)"
    and "map pl_PenaltyTicks (st_Players t) = map pl_PenaltyTicks (st_Players s)"
    and "set us \<subseteq> pl_UserID ` {p \<in> set (st_Players s). pl_Active p}"
proof -
  let ?ps = "map (\<lambda>p. p\<lparr>pl_Included := pl_Active p\<rparr>) (st_Players s)"
  from roll obtain fs qs revealed where r: "roller_roll sha256 roller (of_nat (length us) * DicePerPlayer) = Inr (fs, roller')"
    and a: "assign_hands (st_Config s) ?ps us fs = Inr qs" and t: "t = s\<lparr>st_Players := resolvePlayer235 qs\<rparr>"
    by (auto simp: rollUsers_def outcome Let_def)
  show "t = s\<lparr>st_Players := st_Players t\<rparr>" by (simp add: t)
  have valid: "list_all Face_Valid fs"
    using r by (auto simp: roller_roll_def Let_def dest!: Roll_faces_valid split: sum.splits)
  note assigned = assign_hands_Inr [OF a valid]
  note resolved = resolvePlayer235_table [OF refl, of qs]
  let ?qs = "resolvePlayer235 qs"
  have len: "length ?qs = length (st_Players s)" "length qs = length (st_Players s)" using assigned resolved(1) by simp_all
  have each: "\<exists>h. ?qs ! i = (st_Players s ! i)\<lparr>pl_Included := pl_Active (st_Players s ! i), pl_Hand := h\<rparr> \<and>
      (\<not> pl_Active (st_Players s ! i) \<longrightarrow> h = pl_Hand (st_Players s ! i))" if i: "i < length (st_Players s)" for i
  proof -
    from assigned i obtain h where h: "qs ! i = (?ps ! i)\<lparr>pl_Hand := h\<rparr>" "h = pl_Hand (?ps ! i) \<or> pl_Active (?ps ! i) \<and> hand_good (st_Config s) h"
      by auto
    from resolved(2) i len obtain g where "?qs ! i = (qs ! i)\<lparr>pl_Hand := g\<rparr>" "\<not> pl_Active (qs ! i) \<longrightarrow> g = pl_Hand (qs ! i)" by auto
    with h i show ?thesis by (intro exI [of _ g]) auto
  qed
  show k: "kept_all (st_Players s) (st_Players t)"
    using each len by (auto simp: t list_all2_conv_all_nth kept_def) (metis (no_types, lifting) PlayerState.ext_inject PlayerState.surjective PlayerState.update_convs)+
  show "map pl_TargetedThisRound (st_Players t) = map pl_TargetedThisRound (st_Players s)"
    "map pl_PenaltyTicks (st_Players t) = map pl_PenaltyTicks (st_Players s)"
    using each len by (auto simp: t list_eq_iff_nth_eq) force+
  have idx: "playerIndex ?ps v = playerIndex (st_Players s) v" for v by (rule mb.index_cong) simp
  have rolled: "\<exists>i < length (st_Players s). pl_UserID (st_Players s ! i) = v \<and> pl_Active (st_Players s ! i) \<and>
      hand_good (st_Config s) (pl_Hand (qs ! i))" if v: "v \<in> set us" for v
  proof -
    from assigned v obtain i where i: "playerIndex ?ps v = Some i" "pl_Active (?ps ! i)"
      "hand_good (st_Config s) (pl_Hand (qs ! i))" by auto
    from mb.index_SomeD [OF i(1) [unfolded idx]] i(2,3) show ?thesis by (intro exI [of _ i]) auto
  qed
  then show "set us \<subseteq> pl_UserID ` {p \<in> set (st_Players s). pl_Active p}" by force
  have active: "pl_Active (qs ! i) = pl_Active (st_Players s ! i)" if i: "i < length (st_Players s)" for i
  proof -
    from assigned i obtain h where "qs ! i = (?ps ! i)\<lparr>pl_Hand := h\<rparr>" by auto
    with i show ?thesis by simp
  qed
  have good: "hand_good (st_Config s) (pl_Hand (qs ! i))" if i: "i < length (st_Players s)" "pl_Active (st_Players s ! i)" for i
  proof (cases "pl_UserID (st_Players s ! i) \<in> set us")
    case True
    from rolled [OF True] obtain j where j: "j < length (st_Players s)" "pl_UserID (st_Players s ! j) = pl_UserID (st_Players s ! i)"
      "hand_good (st_Config s) (pl_Hand (qs ! j))" by blast
    then have "j = i" using users i(1) by (auto simp: distinct_conv_nth)
    with j show ?thesis by simp
  next
    case False
    with before i have "hand_good (st_Config s) (pl_Hand (st_Players s ! i))" by (metis nth_mem)
    moreover from assigned i(1) obtain h where "qs ! i = (?ps ! i)\<lparr>pl_Hand := h\<rparr>" "h = pl_Hand (?ps ! i) \<or> hand_good (st_Config s) h"
      by auto
    ultimately show ?thesis using i(1) by auto
  qed
  have "\<forall>h \<in> set (map pl_Hand (filter pl_Active qs)). hand_good (st_Config s) h"
    using good active len by (auto simp: in_set_conv_nth)
  from hand_good_Resolve [OF this] have "\<forall>h \<in> set (map pl_Hand (filter pl_Active ?qs)). hand_good (st_Config s) h"
    unfolding resolved(3) .
  then have "\<forall>p \<in> set ?qs. pl_Active p \<longrightarrow> hand_good (st_Config s) (pl_Hand p)" by auto
  moreover have "\<forall>p \<in> set ?qs. pl_Included p = pl_Active p" using each len by (fastforce simp: in_set_conv_nth)
  ultimately show "good_table (st_Config s) (st_Players t)" by (simp add: good_table_def t resolved(3))
qed

section \<open>Penalties\<close>

text \<open>What a player has been charged, and what the events record as charged.\<close>

definition penalty_of :: "State \<Rightarrow> string \<Rightarrow> nat" where
  "penalty_of s u = (case playerIndex (st_Players s) u of None \<Rightarrow> 0 | Some i \<Rightarrow> unat (pl_PenaltyTicks (st_Players s ! i)))"

definition charge :: "string \<Rightarrow> Event \<Rightarrow> nat" where
  "charge u e = (if ev_Kind e = EventPenaltyRecorded \<and> ev_UserID e = u then unat (ev_PenaltyTicks e) else 0)"

definition ledger :: "State \<Rightarrow> Event list \<Rightarrow> State \<Rightarrow> bool" where
  "ledger s es t \<longleftrightarrow> (\<forall>u. penalty_of t u = penalty_of s u + sum_list (map (charge u) es))"

lemma ledger_Nil [simp]: "ledger s [] s"
  by (simp add: ledger_def)

lemma ledger_append: "ledger s es t \<Longrightarrow> ledger t fs r \<Longrightarrow> ledger s (es @ fs) r"
  by (simp add: ledger_def)

lemma ledger_Cons: "ledger s [e] t \<Longrightarrow> ledger t fs r \<Longrightarrow> ledger s (e # fs) r"
  using ledger_append [of s "[e]" t fs r] by simp

lemma ledger_free: "\<forall>e \<in> set fs. ev_Kind e \<noteq> EventPenaltyRecorded \<Longrightarrow> ledger s es t \<Longrightarrow> ledger s (fs @ es) t"
  by (simp add: ledger_def charge_def)

lemma ledger_same:
  assumes "map pl_UserID (st_Players t) = map pl_UserID (st_Players s)"
    and "map pl_PenaltyTicks (st_Players t) = map pl_PenaltyTicks (st_Players s)"
    and "\<forall>e \<in> set es. ev_Kind e \<noteq> EventPenaltyRecorded"
  shows "ledger s es t"
proof -
  have "penalty_of t u = penalty_of s u" for u
    using mb.index_cong [OF assms(1), of u] assms(2)
    by (auto simp: penalty_of_def split: option.splits dest!: mb.index_SomeD)
      (metis length_map nth_map)
  then show ?thesis using assms(3) by (simp add: ledger_def charge_def)
qed

text \<open>What is part of the table but not of the penalties.\<close>

definition seen_of :: "PlayerState \<Rightarrow> bool \<times> bool \<times> bool \<times> Hand" where
  "seen_of p = (pl_Active p, pl_Included p, pl_TargetedThisRound p, pl_Hand p)"

definition table_of :: "PlayerState \<Rightarrow> bool \<times> bool \<times> Hand" where
  "table_of p = (pl_Active p, pl_Included p, pl_Hand p)"

lemma seen_of_table: "map seen_of qs = map seen_of ps \<Longrightarrow> map table_of qs = map table_of ps"
  by (auto simp: seen_of_def table_of_def list_eq_iff_nth_eq)

lemma good_table_cong:
  assumes "map table_of qs = map table_of ps"
  shows "good_table config qs = good_table config ps"
proof -
  have f: "map pl_Hand (filter pl_Active rs) = map (snd \<circ> snd) (filter fst (map table_of rs))" for rs
    by (induction rs) (auto simp: table_of_def)
  have g: "(\<forall>p \<in> set rs. pl_Included p = pl_Active p \<and> (pl_Active p \<longrightarrow> hand_good config (pl_Hand p))) \<longleftrightarrow>
      (\<forall>(a, i, h) \<in> set (map table_of rs). i = a \<and> (a \<longrightarrow> hand_good config h))" for rs
    by (auto simp: table_of_def)
  show ?thesis unfolding good_table_def f g assms ..
qed

lemma addPenalty_Inr:
  assumes "addPenalty s u amount reason batch = Inr (t, e)"
  shows "t = s\<lparr>st_Players := st_Players t\<rparr>" and "kept_all (st_Players s) (st_Players t)"
    and "map seen_of (st_Players t) = map seen_of (st_Players s)" and "ledger s [e] t"
    and "ev_Kind e = EventPenaltyRecorded"
proof -
  from assms obtain i raised where i: "playerIndex (st_Players s) u = Some i" and
    r: "Ticks_Add (pl_PenaltyTicks (st_Players s ! i)) amount = Inr raised" and
    t: "t = s\<lparr>st_Players := (st_Players s)[i := (st_Players s ! i)\<lparr>pl_PenaltyTicks := raised\<rparr>]\<rparr>" and
    e: "ev_Kind e = EventPenaltyRecorded" "ev_UserID e = u" "ev_PenaltyTicks e = amount"
    by (auto simp: addPenalty_def Let_def split: option.splits if_splits sum.splits)
  from mb.index_SomeD [OF i] have il: "i < length (st_Players s)" "pl_UserID (st_Players s ! i) = u" by auto
  show "t = s\<lparr>st_Players := st_Players t\<rparr>" by (simp add: t)
  show "kept_all (st_Players s) (st_Players t)" by (simp add: t kept_all_update kept_def)
  show "map seen_of (st_Players t) = map seen_of (st_Players s)" by (simp add: t map_update_eq seen_of_def)
  show "ev_Kind e = EventPenaltyRecorded" by (rule e)
  have idx: "playerIndex (st_Players t) v = playerIndex (st_Players s) v" for v using il by (simp add: t)
  have "penalty_of t v = penalty_of s v + charge v e" for v
  proof (cases "v = u")
    case True
    with il r i e idx show ?thesis by (simp add: penalty_of_def charge_def t Ticks_Add_Inr)
  next
    case False
    then have "j \<noteq> i" if "playerIndex (st_Players s) v = Some j" for j using mb.index_SomeD [OF that] il by auto
    with False e idx show ?thesis by (auto simp: penalty_of_def charge_def t split: option.splits)
  qed
  then show "ledger s [e] t" by (simp add: ledger_def)
qed

text \<open>The steps of a resolution keep this of a state and record what they charge.\<close>

definition round_frame :: "State \<Rightarrow> State" where
  "round_frame s = s\<lparr>st_Players := [], st_MatchResolutionCount := 0, st_MatchHistory := []\<rparr>"

definition inner_step :: "State \<Rightarrow> Event list \<Rightarrow> State \<Rightarrow> bool" where
  "inner_step s es t \<longleftrightarrow> round_frame t = round_frame s \<and> kept_all (st_Players s) (st_Players t) \<and>
     map pl_TargetedThisRound (st_Players t) = map pl_TargetedThisRound (st_Players s) \<and> ledger s es t"

lemma round_frame_fields:
  assumes "round_frame t = round_frame s"
  shows "st_Config t = st_Config s" "st_Round t = st_Round s" "st_SchemaVersion t = st_SchemaVersion s" "st_Phase t = st_Phase s"
    "st_HostUserID t = st_HostUserID s" "st_TargetUserID t = st_TargetUserID s" "st_TargetRerollCount t = st_TargetRerollCount s"
    "st_TargetStreak t = st_TargetStreak s" "st_ActionDeadlineUnixMillis t = st_ActionDeadlineUnixMillis s"
    "st_LastSettlement t = st_LastSettlement s" "st_RoundHistory t = st_RoundHistory s" "st_FinishReason t = st_FinishReason s"
  using assms by (cases s; cases t; simp add: round_frame_def)+

lemma round_frame_players [simp]:
  "round_frame (st_Players_update f s) = round_frame s" "round_frame (st_MatchResolutionCount_update g s) = round_frame s"
  "round_frame (st_MatchHistory_update h s) = round_frame s"
  by (simp_all add: round_frame_def)

lemma inner_step_refl [simp]: "inner_step s [] s"
  by (simp add: inner_step_def)

lemma penalty_of_cong: "st_Players t = st_Players s \<Longrightarrow> penalty_of t u = penalty_of s u"
  unfolding penalty_of_def by (simp split: option.split)

lemma inner_step_same: "st_Players t = st_Players s \<Longrightarrow> round_frame t = round_frame s \<Longrightarrow> inner_step s [] t"
  by (simp add: inner_step_def ledger_def penalty_of_cong [of t s])

lemma inner_step_trans: "inner_step s es t \<Longrightarrow> inner_step t fs r \<Longrightarrow> inner_step s (es @ fs) r"
  by (auto simp: inner_step_def intro: kept_all_trans ledger_append)

lemma inner_step_Cons: "inner_step s [e] t \<Longrightarrow> inner_step t fs r \<Longrightarrow> inner_step s (e # fs) r"
  using inner_step_trans [of s "[e]" t fs r] by simp

lemma inner_step_event: "inner_step s es t \<Longrightarrow> ev_Kind e \<noteq> EventPenaltyRecorded \<Longrightarrow> inner_step s (e # es) t"
  using ledger_free [of "[e]" s es t] by (simp add: inner_step_def)

lemma seen_targeted: "map seen_of qs = map seen_of ps \<Longrightarrow> map pl_TargetedThisRound qs = map pl_TargetedThisRound ps"
  by (auto simp: seen_of_def list_eq_iff_nth_eq)

lemma addPenalty_inner:
  assumes "addPenalty s u amount reason batch = Inr (t, e)"
  shows "inner_step s [e] t" and "map seen_of (st_Players t) = map seen_of (st_Players s)"
    and "st_MatchResolutionCount t = st_MatchResolutionCount s" and "st_MatchHistory t = st_MatchHistory s"
proof -
  note a = addPenalty_Inr [OF assms]
  show "map seen_of (st_Players t) = map seen_of (st_Players s)" by (rule a)
  have "round_frame t = round_frame s" by (subst a(1)) simp
  then show "inner_step s [e] t" using a(2,4) seen_targeted [OF a(3)] by (simp add: inner_step_def)
  show "st_MatchResolutionCount t = st_MatchResolutionCount s" "st_MatchHistory t = st_MatchHistory s"
    by (subst a(1), simp)+
qed

lemma charge_users_inner:
  "charge_users s us kind batch = Inr (t, es) \<Longrightarrow>
     inner_step s es t \<and> map seen_of (st_Players t) = map seen_of (st_Players s) \<and>
     st_MatchResolutionCount t = st_MatchResolutionCount s \<and> st_MatchHistory t = st_MatchHistory s"
proof (induction s us kind batch arbitrary: t es rule: charge_users.induct)
  case (2 s u us kind batch)
  from "2.prems" obtain s1 e fs where a: "addPenalty s u (cf_MatchPenaltyTicks (st_Config s)) (''match_'' @ kind) batch = Inr (s1, e)"
    and r: "charge_users s1 us kind batch = Inr (t, fs)" and es: "es = e # fs" by (auto simp: outcome)
  from addPenalty_inner [OF a] "2.IH" [OF r] show ?case by (auto simp: es intro: inner_step_Cons)
qed simp

lemma charge_groups_inner:
  "charge_groups s gs batch = Inr (t, es) \<Longrightarrow>
     inner_step s es t \<and> map seen_of (st_Players t) = map seen_of (st_Players s) \<and>
     st_MatchResolutionCount t = st_MatchResolutionCount s \<and> st_MatchHistory t = st_MatchHistory s"
proof (induction s gs batch arbitrary: t es rule: charge_groups.induct)
  case (2 s g gs batch)
  from "2.prems" obtain s1 ps s2 xs fs where
    a: "charge_users s (mg_UserIDs g) (mg_Kind g) batch = Inr (s1, ps)" and
    b: "(if mg_Kind g = MatchLow \<and> mg_WeakestUserID g \<noteq> []
        then and_then (addPenalty s1 (mg_WeakestUserID g) (cf_WeakExtraPenaltyTicks (st_Config s1))
          ''match_low_extra'' batch) (\<lambda>(state, penalty). Inr (state, [penalty]))
        else Inr (s1, [])) = Inr (s2, xs)" and
    c: "charge_groups s2 gs batch = Inr (t, fs)" and es: "es = ps @ xs @ fs" by (auto simp: outcome)
  have b': "inner_step s1 xs s2 \<and> map seen_of (st_Players s2) = map seen_of (st_Players s1) \<and>
     st_MatchResolutionCount s2 = st_MatchResolutionCount s1 \<and> st_MatchHistory s2 = st_MatchHistory s1"
  proof (cases "mg_Kind g = MatchLow \<and> mg_WeakestUserID g \<noteq> []")
    case True
    with b obtain e where "addPenalty s1 (mg_WeakestUserID g) (cf_WeakExtraPenaltyTicks (st_Config s1)) ''match_low_extra'' batch = Inr (s2, e)"
      and "xs = [e]" by (auto simp: outcome)
    with addPenalty_inner [OF this(1)] show ?thesis by simp
  qed (use b in auto)
  from charge_users_inner [OF a] b' "2.IH" [OF c] show ?case
    by (auto simp: es intro!: inner_step_trans)
qed simp

section \<open>Groups\<close>

text \<open>Groups of a batch: at least two users each, nobody in two of them, and all from the given users.\<close>

definition groups_ok :: "string set \<Rightarrow> MatchGroup list \<Rightarrow> bool" where
  "groups_ok users gs \<longleftrightarrow> distinct (concat (map mg_UserIDs gs)) \<and> set (concat (map mg_UserIDs gs)) \<subseteq> users \<and>
     (\<forall>g \<in> set gs. 2 \<le> length (mg_UserIDs g) \<and> mg_Kind g \<in> {MatchExact, MatchHigh, MatchLow})"

lemma groups_ok_Nil [simp]: "groups_ok users []"
  by (simp add: groups_ok_def)

lemma groups_ok_mono: "groups_ok users gs \<Longrightarrow> users \<subseteq> users' \<Longrightarrow> groups_ok users' gs"
  by (auto simp: groups_ok_def)

lemma groups_ok_Cons:
  assumes "groups_ok users' gs" and "users' \<subseteq> users" and "set (mg_UserIDs g) \<subseteq> users" and "set (mg_UserIDs g) \<inter> users' = {}"
    and "distinct (mg_UserIDs g)" and "2 \<le> length (mg_UserIDs g)" and "mg_Kind g \<in> {MatchExact, MatchHigh, MatchLow}"
  shows "groups_ok users (g # gs)"
  using assms unfolding groups_ok_def by (simp, blast)

lemma set_stableUsers [simp]: "set (stableUsers ps) = pl_UserID ` set ps"
  by (simp add: stableUsers_def)

lemma length_stableUsers [simp]: "length (stableUsers ps) = length ps"
  by (simp add: stableUsers_def)

lemma distinct_stableUsers:
  assumes "distinct (map pl_UserID ps)"
  shows "distinct (stableUsers ps)"
  using assms by (simp add: stableUsers_def distinct_map)

lemma exactGroups_ok: "distinct (map pl_UserID ps) \<Longrightarrow> groups_ok (pl_UserID ` set ps) (exactGroups ps)"
proof (induction ps rule: exactGroups.induct)
  case (2 left rest)
  let ?same = "left # filter (\<lambda>right. ExactMatch (pl_Hand left) (pl_Hand right)) rest"
  let ?others = "filter (\<lambda>right. \<not> ExactMatch (pl_Hand left) (pl_Hand right)) rest"
  have d: "distinct (map pl_UserID ?others)" "distinct (map pl_UserID ?same)" using "2.prems" by (auto simp: distinct_map inj_on_def)
  have others: "groups_ok (pl_UserID ` set ?others) (exactGroups ?others)"
    using "2.IH" d(1) by (cases "length ?same > 1") (simp_all add: Let_def)
  have disjoint: "pl_UserID ` set ?same \<inter> pl_UserID ` set ?others = {}"
    using "2.prems" by (auto simp: distinct_map inj_on_def)
  show ?case
  proof (cases "length ?same > 1")
    case True
    have "groups_ok (pl_UserID ` set (left # rest))
        (\<lparr>mg_Kind = MatchExact, mg_UserIDs = stableUsers ?same, mg_WeakestUserID = []\<rparr> # exactGroups ?others)"
      using True disjoint d(2) by (intro groups_ok_Cons [OF others]) (auto simp: distinct_stableUsers Suc_le_eq)
    with True show ?thesis by (simp add: Let_def)
  next
    case False
    then have "exactGroups (left # rest) = exactGroups ?others" by (simp add: Let_def)
    with others show ?thesis by (auto intro: groups_ok_mono)
  qed
qed simp

lemma tie_keys_members: "t \<in> set (tie_keys ps) \<longleftrightarrow> length (tie_group ps t) > 1"
  by (auto simp: tie_keys_def tie_group_def filter_empty_conv) (metis (mono_tags, lifting) One_nat_def filter_False image_eqI less_zeroE list.size(3))

lemma set_tie_group: "set (tie_group ps t) = {p \<in> set ps. hn_TieKey (pl_Hand p) = t}"
  by (auto simp: tie_group_def)

lemma FindMatchGroups_ok:
  assumes "distinct (map pl_UserID ps)"
  shows "groups_ok (pl_UserID ` {p \<in> set ps. pl_Active p}) (FindMatchGroups ps)"
proof -
  let ?act = "activeHandPlayers ps" and ?keys = "tie_keys (activeHandPlayers ps)"
  have act: "set ?act = {p \<in> set ps. pl_Active p}" by (auto simp: activeHandPlayers_def)
  have d: "distinct (map pl_UserID ?act)" using assms by (auto simp: activeHandPlayers_def distinct_map inj_on_def)
  have tie: "distinct (stableUsers (tie_group ?act t))" for t
    using d by (auto simp: tie_group_def distinct_map inj_on_def intro!: distinct_stableUsers)
  have two: "2 \<le> length (tie_group ?act (?keys ! i))" if "i < length ?keys" for i
    using nth_mem [OF that] by (simp add: tie_keys_members)
  have sub: "pl_UserID ` set (tie_group ?act t) \<subseteq> pl_UserID ` {p \<in> set ps. pl_Active p}" for t
    unfolding set_tie_group act by auto
  have other: "pl_UserID ` set (tie_group ?act t) \<inter> pl_UserID ` set (tie_group ?act t') = {}" if "t \<noteq> t'" for t t'
    using d that by (auto simp: set_tie_group distinct_map inj_on_def)
  consider "exactGroups ?act \<noteq> []" | "exactGroups ?act = []" "?keys = []"
    | "exactGroups ?act = []" "?keys \<noteq> []" "?keys ! 0 = ?keys ! (length ?keys - 1)"
    | "exactGroups ?act = []" "?keys \<noteq> []" "?keys ! 0 \<noteq> ?keys ! (length ?keys - 1)" by blast
  then show ?thesis
  proof cases
    case 1
    with exactGroups_ok [OF d] act show ?thesis by (simp add: FindMatchGroups_def Let_def)
  next
    case 2
    then show ?thesis by (simp add: FindMatchGroups_def Let_def)
  next
    case 3
    with two [of 0] sub tie show ?thesis by (simp add: FindMatchGroups_def Let_def groups_ok_def)
  next
    case 4
    with two [of 0] two [of "length ?keys - 1"] other [OF 4(3)] sub tie show ?thesis
      by (auto simp add: FindMatchGroups_def Let_def groups_ok_def)
  qed
qed

lemma FindMatchGroups_Nil:
  assumes "FindMatchGroups ps = []"
  shows "distinct (map (\<lambda>p. hn_TieKey (pl_Hand p)) (filter pl_Active ps))"
proof -
  let ?act = "filter pl_Active ps"
  have "tie_keys ?act = []" using assms by (auto simp: FindMatchGroups_def Let_def activeHandPlayers_def split: if_splits)
  then have single: "length (tie_group ?act t) \<le> 1" for t using tie_keys_members [of t ?act] by auto
  have gen: "(\<And>t. length (filter (\<lambda>p. f p = t) xs) \<le> 1) \<Longrightarrow> distinct (map f xs)" for f :: "PlayerState \<Rightarrow> i32 \<times> i32" and xs
  proof (induction xs)
    case (Cons x xs)
    have "length (filter (\<lambda>p. f p = t) xs) \<le> 1" for t using Cons.prems [of t] by (auto split: if_splits)
    moreover have "filter (\<lambda>p. f p = f x) xs = []" using Cons.prems [of "f x"] by simp
    ultimately show ?case using Cons.IH by (auto simp: filter_empty_conv)
  qed simp
  show ?thesis using single by (intro gen) (simp add: tie_group_def)
qed

lemma validate_group_users_ok:
  "distinct us \<Longrightarrow> set us \<subseteq> pl_UserID ` set ps \<Longrightarrow> set us \<inter> seen = {} \<Longrightarrow>
     validate_group_users ps seen us = Inr (seen \<union> set us)"
  by (induction us arbitrary: seen) (auto simp: mb.index_None_iff)

lemma validate_groups_ok:
  "groups_ok users gs \<Longrightarrow> users \<subseteq> pl_UserID ` set ps \<Longrightarrow> set (concat (map mg_UserIDs gs)) \<inter> seen = {} \<Longrightarrow>
     validate_groups ps seen gs = Inr ()"
proof (induction gs arbitrary: seen)
  case (Cons g gs)
  then have g: "distinct (mg_UserIDs g)" "set (mg_UserIDs g) \<subseteq> pl_UserID ` set ps" "set (mg_UserIDs g) \<inter> seen = {}"
    by (auto simp: groups_ok_def)
  have "groups_ok users gs" "set (concat (map mg_UserIDs gs)) \<inter> (seen \<union> set (mg_UserIDs g)) = {}"
    using Cons.prems by (auto simp: groups_ok_def)
  with Cons.IH [of "seen \<union> set (mg_UserIDs g)"] Cons.prems(1,2) validate_group_users_ok [OF g] show ?case
    by (auto simp: groups_ok_def)
qed simp

end
