(* ===== verification/MeetRound.thy ===== *)
theory MeetRound
  imports MeetTable
begin

text \<open>
  A round of meet by chance: the batches that resolve equal hands, the choice of the target, and the start of a round.
\<close>

section \<open>Batches\<close>

definition resolution_ok :: "PlayerState list \<Rightarrow> u32 \<Rightarrow> MatchResolution \<Rightarrow> bool" where
  "resolution_ok ps count r \<longleftrightarrow> mr_Batch r \<le> count \<and> (mr_Capped r \<longrightarrow> mr_Groups r \<noteq> []) \<and>
     validate_groups ps {} (mr_Groups r) = Inr ()"

definition resolutions_ok :: "PlayerState list \<Rightarrow> u32 \<Rightarrow> u32 \<Rightarrow> MatchResolution list \<Rightarrow> bool" where
  "resolutions_ok ps lo hi rs \<longleftrightarrow> sorted (lo # map mr_Batch rs) \<and> (\<forall>r \<in> set rs. resolution_ok ps hi r)"

lemma validate_resolutions_iff:
  "validate_resolutions s lo rs = Inr () \<longleftrightarrow> resolutions_ok (st_Players s) lo (st_MatchResolutionCount s) rs"
  by (induction s lo rs rule: validate_resolutions.induct)
    (auto simp: resolutions_ok_def resolution_ok_def outcome not_less intro: order_trans)

lemma validate_group_users_cong:
  "(\<And>u. playerIndex qs u = playerIndex ps u) \<Longrightarrow> validate_group_users qs seen us = validate_group_users ps seen us"
  by (induction ps seen us rule: validate_group_users.induct) auto

lemma validate_groups_cong:
  assumes "\<And>u. playerIndex qs u = playerIndex ps u"
  shows "validate_groups qs seen gs = validate_groups ps seen gs"
proof (induction gs arbitrary: seen)
  case (Cons g gs)
  then show ?case by (simp add: validate_group_users_cong [OF assms])
qed simp

lemma resolutions_ok_cong: "(\<And>u. playerIndex qs u = playerIndex ps u) \<Longrightarrow> resolutions_ok qs lo hi rs = resolutions_ok ps lo hi rs"
  unfolding resolutions_ok_def resolution_ok_def by (simp only: validate_groups_cong [of qs ps])

lemma resolutions_ok_Nil [simp]: "resolutions_ok ps lo hi []"
  by (simp add: resolutions_ok_def)

lemma resolutions_ok_append:
  assumes "resolutions_ok ps lo mid rs" and "resolutions_ok ps mid hi ss" and "lo \<le> mid" and "mid \<le> hi"
  shows "resolutions_ok ps lo hi (rs @ ss)"
  using assms by (auto simp: resolutions_ok_def resolution_ok_def sorted_append intro: order_trans)

lemma resolve_batch_inner:
  assumes step: "resolve_batch sha256 s roller gs = Inr (t, es, roller')"
    and good: "good_table (st_Config s) (st_Players s)" and users: "distinct (map pl_UserID (st_Players s))"
  shows "inner_step s es t" and "good_table (st_Config t) (st_Players t)"
    and "st_MatchHistory t = st_MatchHistory s @ [\<lparr>mr_Batch = st_MatchResolutionCount s + 1, mr_Groups = gs, mr_Capped = False\<rparr>]"
proof -
  define n where "n = s\<lparr>st_MatchResolutionCount := st_MatchResolutionCount s + 1, st_MatchHistory := st_MatchHistory s @
    [\<lparr>mr_Batch = st_MatchResolutionCount s + 1, mr_Groups = gs, mr_Capped = False\<rparr>]\<rparr>"
  from step obtain m ps rs where
    c: "charge_groups n gs (st_MatchResolutionCount s + 1) = Inr (m, ps)" and
    r: "rollUsers sha256 m roller (stableUsersFromSet (st_Players m) (set (concat (map mg_UserIDs gs))))
      (st_MatchResolutionCount s + 1) ''match_reroll'' = Inr (t, rs, roller')" and
    es: "\<exists>e. es = e # ps @ rs \<and> ev_Kind e = EventMatchResolved"
    by (auto simp: resolve_batch_def Let_def outcome n_def empty_event_def)
  from charge_groups_inner [OF c] have cm: "inner_step n ps m" and seen: "map seen_of (st_Players m) = map seen_of (st_Players n)"
    and mh: "st_MatchHistory m = st_MatchHistory n" by auto
  have mc: "st_Config m = st_Config s" using cm by (auto simp: inner_step_def n_def dest!: round_frame_fields(1))
  have gm: "good_table (st_Config m) (st_Players m)" using good good_table_cong [OF seen_of_table [OF seen]] by (simp add: mc n_def)
  have um: "distinct (map pl_UserID (st_Players m))" using cm users by (auto simp: inner_step_def n_def dest!: kept_all_maps(1))
  have "\<forall>p \<in> set (st_Players m). pl_Active p \<longrightarrow> hand_good (st_Config m) (pl_Hand p) \<or>
      pl_UserID p \<in> set (stableUsersFromSet (st_Players m) (set (concat (map mg_UserIDs gs))))"
    using gm by (auto simp: good_table_def)
  note roll = rollUsers_Inr [OF r this um]
  have mt: "round_frame t = round_frame m" "st_MatchHistory t = st_MatchHistory m" "st_Config t = st_Config m" by (subst roll(1), simp)+
  have "\<forall>e \<in> set rs. ev_Kind e \<noteq> EventPenaltyRecorded" using r by (auto simp: rollUsers_def outcome Let_def empty_event_def)
  then have "ledger m rs t" using roll(5) kept_all_maps(1) [OF roll(2)] by (intro ledger_same)
  with mt roll have "inner_step m rs t" by (simp add: inner_step_def)
  with cm have "inner_step n (ps @ rs) t" by (rule inner_step_trans)
  moreover have "st_Players n = st_Players s" "round_frame n = round_frame s" by (simp_all add: n_def)
  ultimately have "inner_step s (ps @ rs) t" using inner_step_trans [of s "[]" n, OF inner_step_same] by simp
  with es show "inner_step s es t" by (auto intro!: inner_step_event)
  show "good_table (st_Config t) (st_Players t)" using roll(3) mt(3) by simp
  show "st_MatchHistory t = st_MatchHistory s @ [\<lparr>mr_Batch = st_MatchResolutionCount s + 1, mr_Groups = gs, mr_Capped = False\<rparr>]"
    by (simp add: mt mh n_def)
qed

text \<open>What the loop over the batches has done when it returns.\<close>

definition resolved :: "State \<Rightarrow> Event list \<Rightarrow> State \<Rightarrow> bool" where
  "resolved s es t \<longleftrightarrow> inner_step s es t \<and> good_table (st_Config t) (st_Players t) \<and>
     st_MatchResolutionCount s \<le> st_MatchResolutionCount t \<and>
     (st_MatchResolutionCount s \<le> cf_MatchResolutionLimit (st_Config s) \<longrightarrow>
        st_MatchResolutionCount t \<le> cf_MatchResolutionLimit (st_Config s)) \<and>
     (\<exists>rs. st_MatchHistory t = st_MatchHistory s @ rs \<and>
        resolutions_ok (st_Players s) (st_MatchResolutionCount s) (st_MatchResolutionCount t) rs \<and>
        length rs + unat (st_MatchResolutionCount s) = unat (st_MatchResolutionCount t) +
          (if FindMatchGroups (st_Players t) = [] then 0 else 1) \<and>
        (FindMatchGroups (st_Players t) \<noteq> [] \<longrightarrow>
           cf_MatchResolutionLimit (st_Config s) \<le> st_MatchResolutionCount t \<and> mr_Capped (last rs)))"

lemma inner_step_config: "inner_step s es t \<Longrightarrow> st_Config t = st_Config s"
  by (auto simp: inner_step_def dest: round_frame_fields(1))

lemma inner_step_users: "inner_step s es t \<Longrightarrow> map pl_UserID (st_Players t) = map pl_UserID (st_Players s)"
  by (auto simp: inner_step_def dest: kept_all_maps(1))

lemma inner_step_index: "inner_step s es t \<Longrightarrow> playerIndex (st_Players t) u = playerIndex (st_Players s) u"
  by (auto simp: inner_step_def dest: kept_all_index)

lemma resolveMatches_capped:
  assumes "FindMatchGroups (st_Players s) \<noteq> []" and "cf_MatchResolutionLimit (st_Config s) \<le> st_MatchResolutionCount s"
  shows "\<exists>e. ev_Kind e = EventMatchResolved \<and> resolveMatches sha256 s roller =
    Inr (s\<lparr>st_MatchHistory := st_MatchHistory s @
      [\<lparr>mr_Batch = st_MatchResolutionCount s, mr_Groups = FindMatchGroups (st_Players s), mr_Capped = True\<rparr>]\<rparr>, [e], roller)"
  using assms by (subst resolveMatches.simps) (simp add: Let_def)

lemma resolveMatches_batch:
  assumes "resolveMatches sha256 s roller = Inr (t, es, roller')"
    and "FindMatchGroups (st_Players s) \<noteq> []" and "st_MatchResolutionCount s < cf_MatchResolutionLimit (st_Config s)"
  shows "\<exists>m ms r1 rest. resolve_batch sha256 s roller (FindMatchGroups (st_Players s)) = Inr (m, ms, r1) \<and>
    resolveMatches sha256 m r1 = Inr (t, rest, roller') \<and> es = ms @ rest"
proof -
  have "\<not> cf_MatchResolutionLimit (st_Config s) \<le> st_MatchResolutionCount s" using assms(3) by (simp add: not_le)
  with assms(1,2) show ?thesis
    by (subst (asm) resolveMatches.simps) (auto simp: outcome Let_def split: sum.splits)
qed

lemma resolveMatches_resolved:
  assumes "resolveMatches sha256 s roller = Inr (t, es, roller')"
    and "good_table (st_Config s) (st_Players s)" and "distinct (map pl_UserID (st_Players s))"
  shows "resolved s es t"
  using assms
proof (induction sha256 s roller arbitrary: es roller' rule: resolveMatches.induct)
  case (1 sha256 s roller)
  let ?gs = "FindMatchGroups (st_Players s)"
  have gs: "validate_groups (st_Players s) {} ?gs = Inr ()"
    using FindMatchGroups_ok [OF "1.prems"(3)] by (rule validate_groups_ok) auto
  consider (none) "?gs = []" | (capped) "?gs \<noteq> []" "cf_MatchResolutionLimit (st_Config s) \<le> st_MatchResolutionCount s"
    | (batch) "?gs \<noteq> []" "st_MatchResolutionCount s < cf_MatchResolutionLimit (st_Config s)" by fastforce
  then show ?case
  proof cases
    case none
    with "1.prems" show ?thesis by (simp add: resolveMatches.simps [of _ s] resolved_def)
  next
    case capped
    let ?r = "\<lparr>mr_Batch = st_MatchResolutionCount s, mr_Groups = ?gs, mr_Capped = True\<rparr>"
    from capped "1.prems"(1) have t: "t = s\<lparr>st_MatchHistory := st_MatchHistory s @ [?r]\<rparr>"
      and "\<exists>e. es = [e] \<and> ev_Kind e = EventMatchResolved"
      using resolveMatches_capped [OF capped, of sha256 roller] by auto
    then have "inner_step s es t" by (auto intro!: inner_step_event inner_step_same)
    moreover have "resolutions_ok (st_Players s) (st_MatchResolutionCount s) (st_MatchResolutionCount t) [?r]"
      using gs capped(1) by (simp add: t resolutions_ok_def resolution_ok_def)
    ultimately show ?thesis using capped "1.prems"(2) by (auto simp: resolved_def t)
  next
    case batch
    from resolveMatches_batch [OF "1.prems"(1) batch] obtain m ms r1 rest where b: "resolve_batch sha256 s roller ?gs = Inr (m, ms, r1)"
      and r: "resolveMatches sha256 m r1 = Inr (t, rest, roller')" and es: "es = ms @ rest"
by blast
    note i = resolve_batch_inner [OF b "1.prems"(2,3)]
    have count: "st_MatchResolutionCount m = st_MatchResolutionCount s + 1" "st_Config m = st_Config s"
      using resolve_batch_counters [OF b] by auto
    have lim: "st_MatchResolutionCount m \<le> cf_MatchResolutionLimit (st_Config m)" "st_MatchResolutionCount s \<le> st_MatchResolutionCount m"
      "unat (st_MatchResolutionCount m) = Suc (unat (st_MatchResolutionCount s))"
      using batch(2) unat_plus_1_u32 [OF less_not_MaxUint32 [OF batch(2)]] by (auto simp: count word_le_nat_alt word_less_nat_alt)
    have ih: "resolved m rest t"
      using batch b "1.IH" [OF refl _ _ b refl refl r] i(2) inner_step_users [OF i(1)] "1.prems"(3) by simp
    then obtain rs where rs: "st_MatchHistory t = st_MatchHistory m @ rs"
      "resolutions_ok (st_Players m) (st_MatchResolutionCount m) (st_MatchResolutionCount t) rs"
      "length rs + unat (st_MatchResolutionCount m) = unat (st_MatchResolutionCount t) +
          (if FindMatchGroups (st_Players t) = [] then 0 else 1)"
      "FindMatchGroups (st_Players t) \<noteq> [] \<longrightarrow>
           cf_MatchResolutionLimit (st_Config m) \<le> st_MatchResolutionCount t \<and> mr_Capped (last rs)"
      and up: "st_MatchResolutionCount m \<le> st_MatchResolutionCount t" "st_MatchResolutionCount t \<le> cf_MatchResolutionLimit (st_Config m)"
      using lim(1) by (auto simp: resolved_def)
    have first: "resolutions_ok (st_Players s) (st_MatchResolutionCount s) (st_MatchResolutionCount m)
        [\<lparr>mr_Batch = st_MatchResolutionCount m, mr_Groups = ?gs, mr_Capped = False\<rparr>]"
      using gs lim(2) by (simp add: resolutions_ok_def resolution_ok_def)
    have "resolutions_ok (st_Players s) (st_MatchResolutionCount s) (st_MatchResolutionCount t)
        (\<lparr>mr_Batch = st_MatchResolutionCount m, mr_Groups = ?gs, mr_Capped = False\<rparr> # rs)"
      using resolutions_ok_append [OF first _ lim(2) up(1)] rs(2) resolutions_ok_cong [OF inner_step_index [OF i(1)]] by simp
    moreover have "rs \<noteq> []" if "FindMatchGroups (st_Players t) \<noteq> []"
      using rs(3) that up(1) by (auto simp: word_le_nat_alt)
    moreover have "inner_step s es t" using ih inner_step_trans [OF i(1)] by (simp add: resolved_def es)
    ultimately show ?thesis
      using rs up lim i(3) ih count order_trans [OF lim(2) up(1)]
      by (auto simp: resolved_def intro!: exI [of _ "\<lparr>mr_Batch = st_MatchResolutionCount m, mr_Groups = ?gs, mr_Capped = False\<rparr> # rs"])
  qed
qed

section \<open>The target\<close>

text \<open>The search keeps the first of the weakest hands: no active hand is weaker, and every one before it is stronger.\<close>

definition weakest_in :: "PlayerState list \<Rightarrow> PlayerState \<Rightarrow> bool" where
  "weakest_in ps p \<longleftrightarrow> (\<exists>xs ys. ps = xs @ p # ys \<and> pl_Active p \<and>
     (\<forall>q \<in> set xs. pl_Active q \<longrightarrow> CompareHand (pl_Hand p) (pl_Hand q) < 0) \<and>
     (\<forall>q \<in> set ys. pl_Active q \<longrightarrow> CompareHand (pl_Hand p) (pl_Hand q) \<le> 0))"

lemma weakest_in_le:
  "weakest_in ps p \<Longrightarrow> hand_keyed (pl_Hand p) \<Longrightarrow> q \<in> set ps \<Longrightarrow> pl_Active q \<Longrightarrow> CompareHand (pl_Hand p) (pl_Hand q) \<le> 0"
  by (auto simp: weakest_in_def CompareHand_refl order_less_imp_le)

lemma weakest_in_mem: "weakest_in ps p \<Longrightarrow> p \<in> set ps \<and> pl_Active p"
  by (auto simp: weakest_in_def)

lemma weakest_last:
  "pl_Active p \<Longrightarrow> \<forall>q \<in> set ps. pl_Active q \<longrightarrow> CompareHand (pl_Hand p) (pl_Hand q) < 0 \<Longrightarrow> weakest_in (ps @ [p]) p"
  unfolding weakest_in_def by (intro exI [of _ ps] exI [of _ "[]"]) simp

lemma weakest_more:
  assumes "weakest_in ps p" and "pl_Active q \<Longrightarrow> CompareHand (pl_Hand p) (pl_Hand q) \<le> 0"
  shows "weakest_in (ps @ [q]) p"
proof -
  from assms(1) obtain xs ys where "ps = xs @ p # ys" and "pl_Active p"
    and "\<forall>r \<in> set xs. pl_Active r \<longrightarrow> CompareHand (pl_Hand p) (pl_Hand r) < 0"
    and "\<forall>r \<in> set ys. pl_Active r \<longrightarrow> CompareHand (pl_Hand p) (pl_Hand r) \<le> 0" by (auto simp: weakest_in_def)
  with assms(2) show ?thesis unfolding weakest_in_def by (intro exI [of _ xs] exI [of _ "ys @ [q]"]) auto
qed

lemma lowest_active_step:
  "\<forall>p \<in> set (ds @ ps). pl_Active p \<longrightarrow> hand_keyed (pl_Hand p) \<Longrightarrow>
   (case w of None \<Rightarrow> \<forall>p \<in> set ds. \<not> pl_Active p | Some p \<Rightarrow> weakest_in ds p) \<Longrightarrow>
   (case lowest_active w ps of None \<Rightarrow> \<forall>p \<in> set (ds @ ps). \<not> pl_Active p | Some p \<Rightarrow> weakest_in (ds @ ps) p)"
proof (induction ps arbitrary: ds w)
  case (Cons q ps)
  let ?w = "if \<not> pl_Active q then w else case w of None \<Rightarrow> Some q
    | Some p \<Rightarrow> if CompareHand (pl_Hand q) (pl_Hand p) < 0 then Some q else Some p"
  have step: "lowest_active w (q # ps) = lowest_active ?w ps" by (auto split: option.split)
  have next_ok: "case ?w of None \<Rightarrow> \<forall>p \<in> set (ds @ [q]). \<not> pl_Active p | Some p \<Rightarrow> weakest_in (ds @ [q]) p"
  proof (cases w)
    case None
    with Cons.prems(2) show ?thesis by (auto intro: weakest_last)
  next
    case (Some p)
    with Cons.prems(2) have w: "weakest_in ds p" by simp
    have kp: "hand_keyed (pl_Hand p)" using Cons.prems(1) weakest_in_mem [OF w] by simp
    consider "\<not> pl_Active q" | "pl_Active q" "CompareHand (pl_Hand q) (pl_Hand p) < 0"
      | "pl_Active q" "\<not> CompareHand (pl_Hand q) (pl_Hand p) < 0" by blast
    then show ?thesis
    proof cases
      case 2
      have kq: "hand_keyed (pl_Hand q)" using Cons.prems(1) 2 by simp
      have "CompareHand (pl_Hand q) (pl_Hand r) < 0" if "r \<in> set ds" "pl_Active r" for r
        using that 2(2) weakest_in_le [OF w kp that] Cons.prems(1) kp kq cmp_list_strict by (auto simp: CompareHand_list)
      with 2 Some show ?thesis by (auto intro: weakest_last)
    next
      case 3
      have kq: "hand_keyed (pl_Hand q)" using Cons.prems(1) 3 by simp
      have "CompareHand (pl_Hand p) (pl_Hand q) \<le> 0" using 3(2) CompareHand_swap [OF kp kq] by simp
      with 3 Some w show ?thesis by (auto intro: weakest_more)
    qed (use Some w in \<open>auto intro: weakest_more\<close>)
  qed
  have "\<forall>p \<in> set ((ds @ [q]) @ ps). pl_Active p \<longrightarrow> hand_keyed (pl_Hand p)" using Cons.prems(1) by simp
  from Cons.IH [OF this next_ok] show ?case unfolding step append_assoc append_Cons append_Nil .
qed (simp split: option.splits)

lemma lowest_active_weakest:
  assumes "\<forall>p \<in> set ps. pl_Active p \<longrightarrow> hand_keyed (pl_Hand p)"
  shows "lowest_active None ps = Some p \<Longrightarrow> weakest_in ps p"
    and "lowest_active None ps = None \<Longrightarrow> activeCount ps = 0"
  using lowest_active_step [of "[]" ps None] assms by (auto simp: mb.count_filter filter_empty_conv)

lemma good_table_keyed: "good_table config ps \<Longrightarrow> \<forall>p \<in> set ps. pl_Active p \<longrightarrow> hand_keyed (pl_Hand p)"
  by (auto simp: good_table_def hand_good_def)

text \<open>What selecting a target keeps of a state.\<close>

definition turn_frame :: "State \<Rightarrow> State" where
  "turn_frame s = s\<lparr>st_Phase := PhaseUnset, st_Players := [], st_TargetUserID := [], st_TargetStreak := 0,
     st_ActionDeadlineUnixMillis := 0\<rparr>"

lemma turn_frame_fields:
  assumes "turn_frame t = turn_frame s"
  shows "st_Config t = st_Config s" "st_Round t = st_Round s" "st_SchemaVersion t = st_SchemaVersion s"
    "st_HostUserID t = st_HostUserID s" "st_TargetRerollCount t = st_TargetRerollCount s"
    "st_MatchResolutionCount t = st_MatchResolutionCount s" "st_MatchHistory t = st_MatchHistory s"
    "st_LastSettlement t = st_LastSettlement s" "st_RoundHistory t = st_RoundHistory s" "st_FinishReason t = st_FinishReason s"
  using assms by (cases s; cases t; simp add: turn_frame_def)+

definition deadline_ok :: "State \<Rightarrow> bool" where
  "deadline_ok s \<longleftrightarrow> (if cf_ActionTimeoutSeconds (st_Config s) = 0 then st_ActionDeadlineUnixMillis s = 0
     else 0 < st_ActionDeadlineUnixMillis s)"

definition targeted :: "State \<Rightarrow> bool" where
  "targeted s \<longleftrightarrow> (\<exists>p \<in> set (st_Players s). pl_UserID p = st_TargetUserID s \<and> pl_Active p \<and> pl_TargetedThisRound p)"

definition selected :: "State \<Rightarrow> Event list \<Rightarrow> State \<Rightarrow> bool" where
  "selected s es t \<longleftrightarrow> turn_frame t = turn_frame s \<and> kept_all (st_Players s) (st_Players t) \<and>
     good_table (st_Config t) (st_Players t) \<and> ledger s es t \<and> st_Phase t = PhaseTargetDecision \<and>
     (st_TargetStreak t = 0 \<or> st_TargetStreak t = st_TargetStreak s) \<and> targeted t \<and> deadline_ok t \<and>
     (\<exists>p. weakest_in (st_Players t) p \<and> pl_UserID p = st_TargetUserID t)"

lemma deadlineUnixMillis_Inr:
  assumes "deadlineUnixMillis now seconds = Inr d"
  shows "if seconds = 0 then d = 0 else d = now + uint seconds * 1000 \<and> 0 < d"
  using assms by (auto simp: deadlineUnixMillis_def validUnixMillis_def outcome Let_def split: if_splits intro: add_pos_nonneg)

lemma weakest_in_cong:
  assumes "map table_of qs = map table_of ps" and "weakest_in ps (ps ! i)" and "i < length ps" and "distinct (map pl_UserID ps)"
  shows "weakest_in qs (qs ! i)"
proof -
  from assms(2) obtain xs ys where ps: "ps = xs @ (ps ! i) # ys" and a: "pl_Active (ps ! i)"
    and l: "\<forall>q \<in> set xs. pl_Active q \<longrightarrow> CompareHand (pl_Hand (ps ! i)) (pl_Hand q) < 0"
    and r: "\<forall>q \<in> set ys. pl_Active q \<longrightarrow> CompareHand (pl_Hand (ps ! i)) (pl_Hand q) \<le> 0" by (auto simp: weakest_in_def)
  have len: "length qs = length ps" using assms(1) by (metis length_map)
  have "ps ! length xs = ps ! i" by (subst ps) simp
  moreover have "length xs < length ps" by (subst ps) simp
  ultimately have i: "length xs = i"
    using assms(3,4) by (metis distinct_map inj_on_def nth_eq_iff_index_eq)
  have tab: "table_of (qs ! k) = table_of (ps ! k)" if "k < length ps" for k using assms(1) that len by (metis nth_map)
  have xs: "ps ! k = xs ! k" if "k < i" for k by (subst ps) (simp add: that i nth_append)
  have ys: "ps ! (Suc i + k) = ys ! k" for k by (subst ps) (simp add: i nth_append)
  have ly: "length ps = Suc (i + length ys)" by (subst ps) (simp add: i)
  have "\<forall>q \<in> set (take i qs). pl_Active q \<longrightarrow> CompareHand (pl_Hand (qs ! i)) (pl_Hand q) < 0"
  proof (intro ballI impI)
    fix q
    assume "q \<in> set (take i qs)" and q: "pl_Active q"
    then obtain k where k: "k < i" "q = qs ! k" using assms(3) len by (auto simp: in_set_conv_nth)
    with tab [of k] tab [of i] q assms(3) l xs [of k] i show "CompareHand (pl_Hand (qs ! i)) (pl_Hand q) < 0"
      by (auto simp: table_of_def)
  qed
  moreover have "\<forall>q \<in> set (drop (Suc i) qs). pl_Active q \<longrightarrow> CompareHand (pl_Hand (qs ! i)) (pl_Hand q) \<le> 0"
  proof (intro ballI impI)
    fix q
    assume "q \<in> set (drop (Suc i) qs)" and q: "pl_Active q"
    then obtain k where k: "k < length ys" "q = qs ! (Suc i + k)" using len ly by (auto simp: in_set_conv_nth)
    with tab [of "Suc i + k"] tab [of i] q assms(3) r ys [of k] ly show "CompareHand (pl_Hand (qs ! i)) (pl_Hand q) \<le> 0"
      by (auto simp: table_of_def)
  qed
  moreover have "qs = take i qs @ qs ! i # drop (Suc i) qs" using assms(3) len by (simp add: id_take_nth_drop)
  moreover have "pl_Active (qs ! i)" using tab [OF assms(3)] a by (simp add: table_of_def)
  ultimately show ?thesis unfolding weakest_in_def by blast
qed

lemma selectTarget_selected:
  assumes sel: "selectTarget s previous now reason = Inr (t, es)"
    and good: "good_table (st_Config s) (st_Players s)" and users: "distinct (map pl_UserID (st_Players s))"
  shows "selected s es t" and "previous \<noteq> st_TargetUserID t \<longrightarrow> st_TargetStreak t = 0"
proof -
  let ?ps = "st_Players s"
  from sel obtain p where p: "lowest_active None ?ps = Some p" by (auto simp: selectTarget_def lowestActiveUser_def outcome split: option.splits)
  from lowest_active_weakest(1) [OF good_table_keyed [OF good] p] have w: "weakest_in ?ps p" .
  from weakest_in_mem [OF w] obtain i where i: "i < length ?ps" "?ps ! i = p" by (auto simp: in_set_conv_nth)
  have idx: "playerIndex ?ps (pl_UserID p) = Some i" using mb.index_nth [OF users i(1)] i(2) by simp
  define qs where "qs = ?ps[i := p\<lparr>pl_TargetedThisRound := True\<rparr>]"
  from sel p idx i(2) obtain d where dl: "deadlineUnixMillis now (cf_ActionTimeoutSeconds (st_Config s)) = Inr d"
    by (auto simp: selectTarget_def lowestActiveUser_def outcome Let_def)
  define n where "n = s\<lparr>st_Phase := PhaseTargetDecision, st_TargetUserID := pl_UserID p, st_Players := qs,
    st_TargetStreak := (if previous \<noteq> pl_UserID p then 0 else st_TargetStreak s), st_ActionDeadlineUnixMillis := d\<rparr>"
  have t: "(\<exists>e. es = [e] \<and> ev_Kind e = EventTargetSelected) \<and> t = n \<or>
      (\<exists>e f. es = [e, f] \<and> ev_Kind e = EventTargetSelected \<and>
        addPenalty n (pl_UserID p) (cf_TargetPenaltyTicks (st_Config s)) ''target_selected'' 0 = Inr (t, f))"
    using sel p idx i(2) dl by (auto simp: selectTarget_def lowestActiveUser_def outcome Let_def n_def qs_def split: if_splits)
  have kq: "kept_all ?ps qs" using i by (auto simp: qs_def kept_def intro!: kept_all_update)
  have tq: "map table_of qs = map table_of ?ps" using i by (simp add: qs_def map_update_eq table_of_def)
  have pen: "map pl_PenaltyTicks qs = map pl_PenaltyTicks ?ps" using i by (simp add: qs_def map_update_eq)
  have ln: "ledger s [] n" using kept_all_maps(1) [OF kq] pen by (intro ledger_same) (simp_all add: n_def)
  have nt: "turn_frame t = turn_frame n \<and> kept_all qs (st_Players t) \<and> map seen_of (st_Players t) = map seen_of qs \<and>
      ledger n es t \<and> st_Phase t = PhaseTargetDecision \<and> st_TargetUserID t = pl_UserID p \<and> st_TargetStreak t = st_TargetStreak n \<and>
      st_ActionDeadlineUnixMillis t = d"
    using t
  proof
    assume a: "(\<exists>e. es = [e] \<and> ev_Kind e = EventTargetSelected) \<and> t = n"
    then have "ledger n es t" by (auto simp: ledger_def charge_def)
    with a show ?thesis by (simp add: n_def)
  next
    assume "\<exists>e f. es = [e, f] \<and> ev_Kind e = EventTargetSelected \<and>
      addPenalty n (pl_UserID p) (cf_TargetPenaltyTicks (st_Config s)) ''target_selected'' 0 = Inr (t, f)"
    then obtain e f where e: "es = [e, f]" "ev_Kind e = EventTargetSelected"
      and a: "addPenalty n (pl_UserID p) (cf_TargetPenaltyTicks (st_Config s)) ''target_selected'' 0 = Inr (t, f)" by blast
    note add = addPenalty_Inr [OF a]
    have "ledger n es t" using ledger_free [of "[e]", OF _ add(4)] e by simp
    moreover have "turn_frame t = turn_frame n" "st_Phase t = st_Phase n" "st_TargetUserID t = st_TargetUserID n"
      "st_TargetStreak t = st_TargetStreak n" "st_ActionDeadlineUnixMillis t = st_ActionDeadlineUnixMillis n"
      by (subst add(1), simp add: turn_frame_def)+
    ultimately show ?thesis using add(2,3) by (simp add: n_def)
  qed
  have len: "length (st_Players t) = length ?ps" "length qs = length ?ps" using nt by (auto simp: qs_def dest!: list_all2_lengthD)
  have tab: "map table_of (st_Players t) = map table_of ?ps" using nt tq seen_of_table by metis
  have uid: "pl_UserID (st_Players t ! i) = pl_UserID p"
    using i len kept_all_maps(1) [OF kept_all_trans [OF kq conjunct1 [OF conjunct2 [OF nt]]]] by (metis nth_map)
  have "seen_of (st_Players t ! i) = seen_of (qs ! i)" using nt len i by (metis nth_map)
  then have ti: "pl_Active (st_Players t ! i)" "pl_TargetedThisRound (st_Players t ! i)"
    using weakest_in_mem [OF w] i by (simp_all add: seen_of_def qs_def)
  have cfg: "st_Config t = st_Config s" using nt turn_frame_fields(1) [of t n] by (simp add: n_def)
  have tar: "targeted t" unfolding targeted_def using ti uid nt len i by (intro bexI [of _ "st_Players t ! i"]) auto
  have weak: "weakest_in (st_Players t) (st_Players t ! i)" using weakest_in_cong [OF tab _ i(1) users] w i by simp
  have gt: "good_table (st_Config t) (st_Players t)" using good_table_cong [OF tab] good cfg by simp
  have dok: "deadline_ok t" using deadlineUnixMillis_Inr [OF dl] nt by (auto simp: deadline_ok_def cfg split: if_splits)
  have frame: "turn_frame t = turn_frame s" using nt by (simp add: turn_frame_def n_def)
  have streak: "st_TargetStreak t = (if previous \<noteq> st_TargetUserID t then 0 else st_TargetStreak s)" using nt by (simp add: n_def)
  have "kept_all ?ps (st_Players t)" using kept_all_trans [OF kq] nt by blast
  moreover have "ledger s es t" using ledger_append [OF ln] nt by fastforce
  ultimately show "selected s es t" unfolding selected_def using frame gt nt streak tar dok weak uid by auto
  show "previous \<noteq> st_TargetUserID t \<longrightarrow> st_TargetStreak t = 0" using streak by simp
qed

section \<open>The start of a round\<close>

definition core_frame :: "State \<Rightarrow> u32 \<times> u32 \<times> string \<times> Config \<times> RoundSettlement \<times> RoundSettlement list \<times> string" where
  "core_frame s = (st_SchemaVersion s, st_Round s, st_HostUserID s, st_Config s, st_LastSettlement s, st_RoundHistory s,
     st_FinishReason s)"

text \<open>A state in which the target decides.\<close>

definition decided :: "State \<Rightarrow> bool" where
  "decided s \<longleftrightarrow> st_Phase s = PhaseTargetDecision \<and> good_table (st_Config s) (st_Players s) \<and> targeted s \<and> deadline_ok s \<and>
     (\<exists>p. weakest_in (st_Players s) p \<and> pl_UserID p = st_TargetUserID s) \<and>
     st_MatchResolutionCount s \<le> cf_MatchResolutionLimit (st_Config s) \<and>
     resolutions_ok (st_Players s) 0 (st_MatchResolutionCount s) (st_MatchHistory s)"

definition started :: "State \<Rightarrow> Event list \<Rightarrow> State \<Rightarrow> bool" where
  "started s es t \<longleftrightarrow> core_frame t = core_frame s \<and> kept_all (st_Players s) (st_Players t) \<and> ledger s es t \<and> decided t \<and>
     st_TargetRerollCount t = 0 \<and> st_TargetStreak t = 0 \<and>
     length (st_MatchHistory t) \<le> unat (cf_MatchResolutionLimit (st_Config t)) + 1"

lemma ledger_trans3: "ledger s es t \<Longrightarrow> ledger t fs r \<Longrightarrow> ledger r gs q \<Longrightarrow> ledger s (es @ fs @ gs) q"
  by (intro ledger_append)

lemma rollUsers_events: "rollUsers sha256 s roller us batch reason = Inr (t, es, roller') \<Longrightarrow>
    \<forall>e \<in> set es. ev_Kind e \<noteq> EventPenaltyRecorded"
  by (auto simp: rollUsers_def outcome Let_def)

text \<open>Resolving the matches of a rolled table and selecting the target.\<close>

lemma resolved_selected:
  assumes "resolved s es t" and "selected t fs r" and "distinct (map pl_UserID (st_Players s))"
    and "resolutions_ok (st_Players s) 0 (st_MatchResolutionCount s) (st_MatchHistory s)"
    and "st_MatchResolutionCount s \<le> cf_MatchResolutionLimit (st_Config s)"
  shows "core_frame r = core_frame s" and "kept_all (st_Players s) (st_Players r)" and "ledger s (es @ fs) r" and "decided r"
    and "st_TargetRerollCount r = st_TargetRerollCount s" and "st_TargetStreak r = 0 \<or> st_TargetStreak r = st_TargetStreak s"
proof -
  have i: "inner_step s es t" using assms(1) by (simp add: resolved_def)
  then have f: "round_frame t = round_frame s" and k: "kept_all (st_Players s) (st_Players t)" and l: "ledger s es t"
    by (simp_all add: inner_step_def)
  note fields = round_frame_fields [OF f]
  from assms(1,5) obtain rs where rs: "st_MatchHistory t = st_MatchHistory s @ rs"
    "resolutions_ok (st_Players s) (st_MatchResolutionCount s) (st_MatchResolutionCount t) rs"
    and c: "st_MatchResolutionCount s \<le> st_MatchResolutionCount t" "st_MatchResolutionCount t \<le> cf_MatchResolutionLimit (st_Config s)"
    by (auto simp: resolved_def)
  from assms(2) have g: "turn_frame r = turn_frame t" and kr: "kept_all (st_Players t) (st_Players r)" by (simp_all add: selected_def)
  note tf = turn_frame_fields [OF g]
  show "core_frame r = core_frame s" by (simp add: core_frame_def fields tf)
  show kk: "kept_all (st_Players s) (st_Players r)" by (rule kept_all_trans [OF k kr])
  show "ledger s (es @ fs) r" using assms(2) by (intro ledger_append [OF l]) (simp add: selected_def)
  have "resolutions_ok (st_Players s) 0 (st_MatchResolutionCount t) (st_MatchHistory t)"
    unfolding rs(1) by (rule resolutions_ok_append [OF assms(4) rs(2) _ c(1)]) simp
  then have "resolutions_ok (st_Players r) 0 (st_MatchResolutionCount t) (st_MatchHistory t)"
    using resolutions_ok_cong [OF kept_all_index [OF kk]] by simp
  then show "decided r" using assms(2) c(2) by (simp add: decided_def selected_def tf fields)
  show "st_TargetRerollCount r = st_TargetRerollCount s" by (simp add: fields tf)
  show "st_TargetStreak r = 0 \<or> st_TargetStreak r = st_TargetStreak s" using assms(2) fields by (auto simp: selected_def)
qed

lemma startRound_started:
  assumes start: "startRound sha256 s roller now initial participants = Inr (t, es)"
    and users: "distinct (map pl_UserID (st_Players s))"
  shows "started s es t"
proof -
  define n where "n = s\<lparr>st_Phase := PhaseRolling, st_TargetUserID := [], st_TargetRerollCount := 0, st_TargetStreak := 0,
            st_MatchResolutionCount := 0, st_ActionDeadlineUnixMillis := 0, st_MatchHistory := [],
            st_Players := map (\<lambda>player. player\<lparr>pl_TargetedThisRound := False, pl_Included := pl_Active player\<rparr>)
              (st_Players s)\<rparr>"
  from start obtain e m ms r1 q qs r2 fs where
    roll: "rollUsers sha256 n roller (activeUsers (st_Players n)) 0 ''round_started'' = Inr (m, ms, r1)" and
    res: "resolveMatches sha256 m r1 = Inr (q, qs, r2)" and sel: "selectTarget q [] now ''initial_target'' = Inr (t, fs)" and
    es: "es = e # ms @ qs @ fs" "ev_Kind e = EventRoundStarted"
    by (auto simp: startRound_def Let_def outcome n_def split: if_splits)
  have kn: "kept_all (st_Players s) (st_Players n)" by (auto simp: n_def list_all2_conv_all_nth kept_def)
  have un: "distinct (map pl_UserID (st_Players n))" using users kept_all_maps(1) [OF kn] by simp
  have "\<forall>p \<in> set (st_Players n). pl_Active p \<longrightarrow> hand_good (st_Config n) (pl_Hand p) \<or> pl_UserID p \<in> set (activeUsers (st_Players n))"
    by (auto simp: activeUsers_def)
  note r = rollUsers_Inr [OF roll this un]
  have um: "distinct (map pl_UserID (st_Players m))" using un kept_all_maps(1) [OF r(2)] by simp
  have m: "core_frame m = core_frame n" "st_Config m = st_Config n" "st_MatchHistory m = []" "st_MatchResolutionCount m = 0"
    "st_TargetRerollCount m = 0" "st_TargetStreak m = 0"
    by (subst r(1), simp add: core_frame_def n_def)+
  have rq: "resolved m qs q" using resolveMatches_resolved [OF res _ um] r(3) m(2) by simp
  have uq: "distinct (map pl_UserID (st_Players q))" using rq um inner_step_users by (metis resolved_def)
  have sq: "selected q fs t" using selectTarget_selected(1) [OF sel _ uq] rq by (simp add: resolved_def)
  note rs = resolved_selected [OF rq sq um]
  have "ledger s [] n" using kept_all_maps(1) [OF kn] by (intro ledger_same) (auto simp: n_def comp_def)
  moreover have "ledger n ms m" using rollUsers_events [OF roll] kept_all_maps(1) [OF r(2)] r(5) by (intro ledger_same)
  moreover have "ledger m (qs @ fs) t" using rs(3) m by simp
  ultimately have "ledger s ([] @ ms @ (qs @ fs)) t" by (rule ledger_trans3)
  then have l: "ledger s es t" using ledger_free [of "[e]" s "ms @ qs @ fs" t] es by simp
  have k: "kept_all (st_Players s) (st_Players t)" using kept_all_trans [OF kept_all_trans [OF kn r(2)]] rs(2) m by simp
  have "core_frame t = core_frame s" using rs(1) m(1) m by (simp add: core_frame_def n_def)
  moreover have "length (st_MatchHistory t) \<le> unat (cf_MatchResolutionLimit (st_Config t)) + 1"
  proof -
    have tq: "st_MatchHistory t = st_MatchHistory q" "st_Config t = st_Config m" "st_Config q = st_Config m"
      using sq rq turn_frame_fields(1,7) [of t q] inner_step_config [of m qs q] by (simp_all add: selected_def resolved_def)
    have "st_MatchResolutionCount q \<le> cf_MatchResolutionLimit (st_Config m)"
      "length (st_MatchHistory q) \<le> unat (st_MatchResolutionCount q) + 1"
      using rq m by (auto simp: resolved_def split: if_splits)
    then show ?thesis using tq by (simp add: word_le_nat_alt)
  qed
  ultimately show ?thesis using l k rs(4,5,6) m by (simp add: started_def)
qed

end
