(* ===== verification/MeetValid.thy ===== *)
theory MeetValid
  imports MeetRound
begin

text \<open>
  The validation of a snapshot of meet by chance, read off as a predicate: the roster, the hands of the table, the history
  of matches and the history of rounds.
\<close>

section \<open>Validation as a predicate\<close>

definition roster_ok :: "Config \<Rightarrow> string \<Rightarrow> PlayerState list \<Rightarrow> bool" where
  "roster_ok config host ps \<longleftrightarrow> Config_Validate config (length ps) = Inr () \<and> sorted_wrt (<) (map pl_SeatIndex ps) \<and>
     (\<exists>p \<in> set ps. pl_UserID p = host) \<and> ValidateParticipants (map player_participant ps) = Inr ()"

definition table_valid :: "Config \<Rightarrow> PlayerState list \<Rightarrow> bool" where
  "table_valid config ps \<longleftrightarrow> (\<forall>p \<in> set ps. (pl_Active p \<longrightarrow> pl_Included p) \<and> validateHandBasic (pl_Hand p) = Inr ()) \<and>
     validateCurrentHands config ps = Inr ()"

definition valid :: "State \<Rightarrow> bool" where
  "valid s \<longleftrightarrow> Validate s = Inr ()"

lemma validate_participants_distinct:
  "validate_participants us ss ps = Inr () \<Longrightarrow> distinct (map pt_UserID ps) \<and> set (map pt_UserID ps) \<inter> us = {}"
  by (induction us ss ps rule: validate_participants.induct) (auto simp: outcome split: sum.splits if_splits)

lemma roster_users: "roster_ok config host ps \<Longrightarrow> distinct (map pl_UserID ps)"
  using validate_participants_distinct [of "{}" "{}" "map player_participant ps"]
  by (auto simp: roster_ok_def ValidateParticipants_def outcome player_participant_def comp_def)

lemma roster_size: "roster_ok config host ps \<Longrightarrow> 3 \<le> length ps \<and> length ps \<le> 12"
  by (auto simp: roster_ok_def ValidateParticipants_def outcome MinimumPlayers_def MaximumPlayers_def)

lemma roster_cong:
  assumes "kept_all ps qs"
  shows "roster_ok config host qs = roster_ok config host ps"
proof -
  note m = kept_all_maps [OF assms]
  have "map player_participant qs = map player_participant ps"
    using m(1,2) by (auto simp: player_participant_def list_eq_iff_nth_eq)
  moreover have "pl_UserID ` set qs = pl_UserID ` set ps" using m(1) by (metis list.set_map)
  then have "(\<exists>p \<in> set qs. pl_UserID p = host) \<longleftrightarrow> (\<exists>p \<in> set ps. pl_UserID p = host)" by (metis (no_types, lifting) image_iff)
  ultimately show ?thesis by (simp add: roster_ok_def m)
qed

lemma validate_players_iff:
  "validate_players prev ps = Inr () \<longleftrightarrow>
     sorted_wrt (<) ((case prev of None \<Rightarrow> [] | Some seat \<Rightarrow> [seat]) @ map pl_SeatIndex ps) \<and>
     (\<forall>p \<in> set ps. (pl_Active p \<longrightarrow> pl_Included p) \<and> validateHandBasic (pl_Hand p) = Inr ())"
  by (induction prev ps rule: validate_players.induct)
    (auto simp: outcome not_le split: option.splits intro: order.strict_trans)

lemma targeted_index:
  assumes "distinct (map pl_UserID (st_Players s))"
  shows "targeted s \<longleftrightarrow> (case playerIndex (st_Players s) (st_TargetUserID s) of None \<Rightarrow> False
    | Some i \<Rightarrow> pl_Active (st_Players s ! i) \<and> pl_TargetedThisRound (st_Players s ! i))"
proof (cases "playerIndex (st_Players s) (st_TargetUserID s)")
  case None
  then have "st_TargetUserID s \<notin> pl_UserID ` set (st_Players s)" by (simp add: mb.index_None_iff)
  with None show ?thesis unfolding targeted_def by (metis imageI option.simps(4))
next
  case (Some i)
  from mb.index_SomeD [OF this] have i: "i < length (st_Players s)" "pl_UserID (st_Players s ! i) = st_TargetUserID s" by auto
  have "p = st_Players s ! i" if "p \<in> set (st_Players s)" "pl_UserID p = st_TargetUserID s" for p
    using that i assms by (metis in_set_conv_nth distinct_map inj_on_def nth_mem)
  with i Some show ?thesis by (auto simp: targeted_def)
qed

definition ending_ok :: "State \<Rightarrow> bool" where
  "ending_ok s \<longleftrightarrow>
     (if st_Phase s = PhaseFinished
      then validFinishReason (st_FinishReason s) \<and> st_TargetUserID s = [] \<and> st_ActionDeadlineUnixMillis s = 0
      else st_Phase s = PhaseTargetDecision \<and> st_FinishReason s = [] \<and> 3 \<le> activeCount (st_Players s) \<and> targeted s \<and> deadline_ok s)"

lemma valid_iff:
  "valid s \<longleftrightarrow> st_SchemaVersion s = CurrentSchemaVersion \<and> st_Round s \<noteq> 0 \<and>
     roster_ok (st_Config s) (st_HostUserID s) (st_Players s) \<and> table_valid (st_Config s) (st_Players s) \<and>
     st_TargetRerollCount s \<le> cf_TargetRerollLimit (st_Config s) \<and> st_TargetStreak s \<le> st_TargetRerollCount s \<and>
     st_MatchResolutionCount s \<le> cf_MatchResolutionLimit (st_Config s) \<and>
     length (st_MatchHistory s) \<le> unat (cf_MatchResolutionLimit (st_Config s)) + 1 \<and>
     resolutions_ok (st_Players s) 0 (st_MatchResolutionCount s) (st_MatchHistory s) \<and>
     validateRoundHistory s = Inr () \<and> ending_ok s"
    (is "_ \<longleftrightarrow> ?r")
proof
  assume v: "valid s"
  from v have r: "roster_ok (st_Config s) (st_HostUserID s) (st_Players s)"
    by (auto simp: valid_def Validate_def outcome roster_ok_def validate_players_iff list_ex_iff)
  from v show ?r using roster_size [OF r]
    unfolding valid_def Validate_def outcome ending_ok_def targeted_index [OF roster_users [OF r]]
    by (auto simp: r outcome table_valid_def validate_players_iff validateMatchHistory_def validate_resolutions_iff
        MinimumPlayers_def deadline_ok_def not_le not_less split: if_splits option.splits)
next
  assume r: ?r
  then have u: "distinct (map pl_UserID (st_Players s))" and size: "3 \<le> length (st_Players s)" "length (st_Players s) \<le> 12"
    using roster_users roster_size by blast+
  have e: "ending_ok s" using r by simp
  show "valid s" using r size e unfolding ending_ok_def targeted_index [OF u]
    by (auto simp: valid_def Validate_def outcome table_valid_def validate_players_iff validateMatchHistory_def validate_resolutions_iff
        MinimumPlayers_def MaximumPlayers_def deadline_ok_def roster_ok_def list_ex_iff not_le not_less split: if_splits option.splits)
qed

lemma valid_users: "valid s \<Longrightarrow> distinct (map pl_UserID (st_Players s))"
  by (auto simp: valid_iff intro: roster_users)

section \<open>Hands\<close>

lemma good_classified:
  assumes "\<forall>p \<in> set ps. pl_Included p = pl_Active p \<and> (pl_Active p \<longrightarrow> hand_good config (pl_Hand p))"
  shows "\<exists>gs. classify_included config ps = Inr gs \<and> map base gs = map base (map pl_Hand (filter pl_Included ps))"
  using assms
proof (induction ps)
  case (Cons p ps)
  then obtain gs where gs: "classify_included config ps = Inr gs" "map base gs = map base (map pl_Hand (filter pl_Included ps))" by auto
  show ?case
  proof (cases "pl_Included p")
    case True
    with Cons.prems obtain g where "Classify (hn_Raw (pl_Hand p)) config = Inr g" "base (pl_Hand p) = base g"
      by (auto simp: hand_good_def)
    with True gs show ?thesis by simp
  qed (use gs in simp)
qed simp

lemma good_table_valid:
  assumes "good_table config ps" and "\<forall>p \<in> set ps. \<not> pl_Active p \<longrightarrow> validateHandBasic (pl_Hand p) = Inr ()"
  shows "table_valid config ps"
proof -
  from assms(1) have each: "\<forall>p \<in> set ps. pl_Included p = pl_Active p \<and> (pl_Active p \<longrightarrow> hand_good config (pl_Hand p))"
    and ctx: "Resolve235Context (map pl_Hand (filter pl_Active ps)) = map pl_Hand (filter pl_Active ps)"
    by (simp_all add: good_table_def)
  from good_classified [OF each] obtain gs where gs: "classify_included config ps = Inr gs"
    "map base gs = map base (map pl_Hand (filter pl_Included ps))" by blast
  have "filter pl_Included ps = filter pl_Active ps" using each by (intro filter_cong) auto
  with Resolve_base [OF gs(2)] ctx gs(1) have "validateCurrentHands config ps = Inr ()"
    by (simp add: validateCurrentHands_def)
  then show ?thesis using each assms(2) hand_good_basic by (auto simp: table_valid_def)
qed

text \<open>A Go array of three dice has three dice.\<close>

definition typed :: "PlayerState list \<Rightarrow> bool" where
  "typed ps \<longleftrightarrow> (\<forall>p \<in> set ps. length (hn_Raw (pl_Hand p)) = 3)"

lemma classify_included_good:
  assumes "classify_included config ps = Inr gs" and "\<forall>p \<in> set ps. faces_ok (hn_Raw (pl_Hand p))"
  shows "\<forall>g \<in> set gs. hand_good config g"
  using assms
  by (induction ps arbitrary: gs) (auto simp: outcome split: if_splits sum.splits intro: Classify_good)

lemma table_valid_hands:
  assumes "table_valid config ps" and "typed ps" and "p \<in> set ps" and "pl_Active p"
  shows "hand_good config (pl_Hand p)"
proof -
  have raw: "\<forall>p \<in> set ps. faces_ok (hn_Raw (pl_Hand p))"
    using assms(1,2) by (auto simp: table_valid_def typed_def faces_ok_def validateHandBasic_def outcome)
  from assms(1) obtain gs where gs: "classify_included config ps = Inr gs"
    and r: "map pl_Hand (filter pl_Included ps) = Resolve235Context gs"
    by (auto simp: table_valid_def validateCurrentHands_def outcome)
  have "pl_Hand p \<in> set (map pl_Hand (filter pl_Included ps))" using assms by (auto simp: table_valid_def)
  with hand_good_Resolve [OF classify_included_good [OF gs raw]] r show ?thesis by simp
qed

lemma kept_table_valid:
  assumes "kept_all ps qs" and "good_table config qs" and "\<forall>p \<in> set ps. \<not> pl_Active p \<longrightarrow> validateHandBasic (pl_Hand p) = Inr ()"
  shows "table_valid config qs"
proof (rule good_table_valid [OF assms(2)], intro ballI impI)
  fix q
  assume "q \<in> set qs" "\<not> pl_Active q"
  with assms(1) obtain p where "p \<in> set ps" "kept p q"
    by (metis in_set_conv_nth list_all2_conv_all_nth)
  with assms(3) \<open>\<not> pl_Active q\<close> show "validateHandBasic (pl_Hand q) = Inr ()" by (auto simp: kept_def)
qed

lemma kept_typed:
  assumes "kept_all ps qs" and "good_table config qs" and "\<forall>p \<in> set ps. \<not> pl_Active p \<longrightarrow> length (hn_Raw (pl_Hand p)) = 3"
  shows "typed qs"
  unfolding typed_def
proof
  fix q
  assume q: "q \<in> set qs"
  with assms(1) obtain p where p: "p \<in> set ps" "kept p q" by (metis in_set_conv_nth list_all2_conv_all_nth)
  show "length (hn_Raw (pl_Hand q)) = 3"
    using q p assms(2,3) by (cases "pl_Active q") (auto simp: good_table_def hand_good_def faces_ok_def kept_def)
qed

section \<open>The history of rounds\<close>

lemma validate_settled_players_iff:
  assumes "length ps = length cs"
  shows "validate_settled_players target ps cs found = Inr b \<longleftrightarrow>
    map pl_UserID ps = map pl_UserID cs \<and> map pl_SeatIndex ps = map pl_SeatIndex cs \<and>
    (\<forall>p \<in> set ps. validateHandBasic (pl_Hand p) = Inr ()) \<and>
    (b \<longleftrightarrow> found \<or> (\<exists>p \<in> set ps. pl_UserID p = target \<and> pl_Active p \<and> pl_TargetedThisRound p))"
  using assms by (induction ps cs arbitrary: found rule: list_induct2) (auto simp: outcome)

definition settlement_ok :: "Config \<Rightarrow> u32 \<Rightarrow> (string \<times> u32) list \<Rightarrow> RoundSettlement \<Rightarrow> bool" where
  "settlement_ok config bound ids st \<longleftrightarrow> rs_Round st \<noteq> 0 \<and> rs_Round st < bound \<and> rs_TargetUserID st \<noteq> [] \<and> rs_Reason st \<noteq> [] \<and>
     map (\<lambda>p. (pl_UserID p, pl_SeatIndex p)) (rs_Players st) = ids \<and>
     rs_TargetRerollCount st \<le> cf_TargetRerollLimit config \<and> rs_TargetStreak st \<le> rs_TargetRerollCount st \<and>
     rs_MatchResolutionCount st \<le> cf_MatchResolutionLimit config \<and>
     (\<forall>p \<in> set (rs_Players st). validateHandBasic (pl_Hand p) = Inr ()) \<and>
     (\<exists>p \<in> set (rs_Players st). pl_UserID p = rs_TargetUserID st \<and> pl_Active p \<and> pl_TargetedThisRound p) \<and>
     validateCurrentHands config (rs_Players st) = Inr ()"

definition ids_of :: "PlayerState list \<Rightarrow> (string \<times> u32) list" where
  "ids_of ps = map (\<lambda>p. (pl_UserID p, pl_SeatIndex p)) ps"

lemma ids_of_eq: "ids_of ps = ids_of qs \<longleftrightarrow> map pl_UserID ps = map pl_UserID qs \<and> map pl_SeatIndex ps = map pl_SeatIndex qs"
  by (auto simp: ids_of_def list_eq_iff_nth_eq)

lemma ids_of_kept: "kept_all ps qs \<Longrightarrow> ids_of qs = ids_of ps"
  by (simp add: ids_of_eq kept_all_maps(1,2))

definition no_settlement :: "RoundSettlement \<Rightarrow> bool" where
  "no_settlement st \<longleftrightarrow> rs_Round st = 0 \<and> rs_TargetUserID st = [] \<and> rs_Reason st = [] \<and> rs_Players st = [] \<and>
     rs_TargetRerollCount st = 0 \<and> rs_TargetStreak st = 0 \<and> rs_MatchResolutionCount st = 0"

lemma settlement_round: "settlement_ok config bound ids st \<Longrightarrow> 0 < rs_Round st"
  by (simp add: settlement_ok_def word_neq_0_conv)

lemma no_settlement_round: "no_settlement st \<Longrightarrow> rs_Round st = 0"
  by (simp add: no_settlement_def)

lemma sum_unit_cases: "(case (r :: 'a + unit) of Inl _ \<Rightarrow> ruleError c d | Inr _ \<Rightarrow> Inr ()) = Inr () \<longleftrightarrow> r = Inr ()"
  by (cases r) auto

lemma mb_validateSettlement_iff:
  "validateSettlement s st = Inr () \<longleftrightarrow> no_settlement st \<or> settlement_ok (st_Config s) (st_Round s) (ids_of (st_Players s)) st"
proof (cases "rs_Round st = 0")
  case True
  then show ?thesis by (auto simp: validateSettlement_def outcome no_settlement_def settlement_ok_def)
next
  case False
  show ?thesis
  proof (cases "length (rs_Players st) = length (st_Players s)")
    case len: True
    have ids: "map (\<lambda>p. (pl_UserID p, pl_SeatIndex p)) (rs_Players st) = ids_of (st_Players s) \<longleftrightarrow>
        map pl_UserID (rs_Players st) = map pl_UserID (st_Players s) \<and> map pl_SeatIndex (rs_Players st) = map pl_SeatIndex (st_Players s)"
      using ids_of_eq [of "rs_Players st" "st_Players s"] by (simp add: ids_of_def)
    from False len show ?thesis
      by (auto simp: validateSettlement_def outcome no_settlement_def settlement_ok_def validate_settled_players_iff ids sum_unit_cases
          not_le not_less)
  next
    case len: False
    then have "map (\<lambda>p. (pl_UserID p, pl_SeatIndex p)) (rs_Players st) \<noteq> ids_of (st_Players s)"
      by (metis ids_of_def length_map)
    with False len show ?thesis by (auto simp: validateSettlement_def outcome no_settlement_def settlement_ok_def)
  qed
qed

lemma validate_history_iff:
  "validate_history s prev hs = Inr () \<longleftrightarrow> sorted_wrt (<) (prev # map rs_Round hs) \<and> (\<forall>h \<in> set hs. validateSettlement s h = Inr ())"
  by (induction s prev hs rule: validate_history.induct) (auto simp: outcome not_le intro: order.strict_trans)

lemma settlementsEqual_iff: "settlementsEqual l r \<longleftrightarrow> l = r"
  by (cases l; cases r) (auto simp: settlementsEqual_def list.rel_eq)

definition rounds_ok :: "Config \<Rightarrow> u32 \<Rightarrow> (string \<times> u32) list \<Rightarrow> RoundSettlement \<Rightarrow> RoundSettlement list \<Rightarrow> bool" where
  "rounds_ok config bound ids latest hs \<longleftrightarrow> length hs \<le> RoundHistoryLimit \<and> sorted_wrt (<) (map rs_Round hs) \<and>
     (\<forall>h \<in> set hs. settlement_ok config bound ids h) \<and> (if hs = [] then no_settlement latest else latest = last hs)"

lemma validateRoundHistory_iff:
  "validateRoundHistory s = Inr () \<longleftrightarrow>
     rounds_ok (st_Config s) (st_Round s) (ids_of (st_Players s)) (st_LastSettlement s) (st_RoundHistory s)"
proof (cases "st_RoundHistory s = []")
  case True
  then show ?thesis
    by (auto simp: validateRoundHistory_def rounds_ok_def outcome mb_validateSettlement_iff no_settlement_def settlement_ok_def)
next
  case False
  then have l: "last (st_RoundHistory s) \<in> set (st_RoundHistory s)" by simp
  have "sorted_wrt (<) (0 # map rs_Round (st_RoundHistory s)) \<and> (\<forall>h \<in> set (st_RoundHistory s). validateSettlement s h = Inr ()) \<longleftrightarrow>
      sorted_wrt (<) (map rs_Round (st_RoundHistory s)) \<and>
      (\<forall>h \<in> set (st_RoundHistory s). settlement_ok (st_Config s) (st_Round s) (ids_of (st_Players s)) h)"
    unfolding mb_validateSettlement_iff using settlement_round no_settlement_round by (fastforce simp: less_le)
  with False l show ?thesis
    by (auto simp: validateRoundHistory_def rounds_ok_def outcome validate_history_iff settlementsEqual_iff not_less
        mb_validateSettlement_iff)
qed

lemma settlement_ok_mono: "settlement_ok config bound ids st \<Longrightarrow> bound \<le> bound' \<Longrightarrow> settlement_ok config bound' ids st"
  by (auto simp: settlement_ok_def)

lemma rounds_ok_mono: "rounds_ok config bound ids latest hs \<Longrightarrow> bound \<le> bound' \<Longrightarrow> rounds_ok config bound' ids latest hs"
  by (auto simp: rounds_ok_def intro: settlement_ok_mono)

lemma rounds_ok_settle:
  assumes "rounds_ok config bound ids latest hs" and "settlement_ok config bound' ids st" and "rs_Round st = bound"
  shows "rounds_ok config bound' ids st
    (if length (hs @ [st]) > RoundHistoryLimit then drop (length (hs @ [st]) - RoundHistoryLimit) (hs @ [st]) else hs @ [st])"
    (is "rounds_ok _ _ _ _ ?hs")
proof -
  have b: "bound < bound'" using assms(2,3) by (simp add: settlement_ok_def)
  have hs: "\<forall>h \<in> set hs. settlement_ok config bound ids h" "sorted_wrt (<) (map rs_Round hs)" using assms(1) by (simp_all add: rounds_ok_def)
  have all: "\<forall>h \<in> set (hs @ [st]). settlement_ok config bound' ids h"
    using hs(1) assms(2) b by (auto intro: settlement_ok_mono [of _ bound])
  have sorted: "sorted_wrt (<) (map rs_Round (hs @ [st]))"
    using hs assms(3) by (auto simp: sorted_wrt_append settlement_ok_def)
  have "\<exists>k. ?hs = drop k (hs @ [st]) \<and> k < length (hs @ [st]) \<and> length ?hs \<le> RoundHistoryLimit"
    by (cases "length (hs @ [st]) > RoundHistoryLimit")
      (auto simp: RoundHistoryLimit_def intro: exI [of _ "length (hs @ [st]) - RoundHistoryLimit"] exI [of _ 0])
  then obtain k where k: "?hs = drop k (hs @ [st])" "k < length (hs @ [st])" "length ?hs \<le> RoundHistoryLimit" by blast
  have "sorted_wrt (<) (map rs_Round (drop k (hs @ [st])))" using sorted_wrt_drop [OF sorted, of k] by (simp only: drop_map)
  moreover have "drop k (hs @ [st]) \<noteq> []" "last (drop k (hs @ [st])) = st" using k(2) by (simp_all only: drop_eq_Nil not_le last_drop last_snoc)
  ultimately show ?thesis unfolding rounds_ok_def k(1) using k(3) all by (auto simp only: k(1) if_False dest: in_set_dropD)
qed

end
