(* ===== verification/MeetSteps.thy ===== *)
theory MeetSteps
  imports MeetValid
begin

text \<open>
  The commands of meet by chance as steps: each keeps the configuration and the roster, records in its events what it
  charges, and leaves a valid state whenever the history of matches still fits.
\<close>

section \<open>The steps keep the state valid\<close>

abbreviation rounds_valid :: "State \<Rightarrow> bool" where
  "rounds_valid s \<equiv> rounds_ok (st_Config s) (st_Round s) (ids_of (st_Players s)) (st_LastSettlement s) (st_RoundHistory s)"

text \<open>What a round needs to start from, and what it needs to be settled.\<close>

definition startable :: "State \<Rightarrow> bool" where
  "startable s \<longleftrightarrow> st_SchemaVersion s = CurrentSchemaVersion \<and> st_Round s \<noteq> 0 \<and>
     roster_ok (st_Config s) (st_HostUserID s) (st_Players s) \<and>
     (\<forall>p \<in> set (st_Players s). \<not> pl_Active p \<longrightarrow> validateHandBasic (pl_Hand p) = Inr () \<and> length (hn_Raw (pl_Hand p)) = 3) \<and>
     rounds_valid s \<and> st_FinishReason s = [] \<and> 3 \<le> activeCount (st_Players s)"

definition settleable :: "State \<Rightarrow> bool" where
  "settleable s \<longleftrightarrow> startable s \<and> table_valid (st_Config s) (st_Players s) \<and> typed (st_Players s) \<and> targeted s \<and>
     st_TargetRerollCount s \<le> cf_TargetRerollLimit (st_Config s) \<and> st_TargetStreak s \<le> st_TargetRerollCount s \<and>
     st_MatchResolutionCount s \<le> cf_MatchResolutionLimit (st_Config s)"

text \<open>What every accepted step keeps.\<close>

definition moved :: "State \<Rightarrow> Event list \<Rightarrow> State \<Rightarrow> bool" where
  "moved s es t \<longleftrightarrow> st_Config t = st_Config s \<and> st_HostUserID t = st_HostUserID s \<and>
     ids_of (st_Players t) = ids_of (st_Players s) \<and> ledger s es t \<and> st_Round s \<le> st_Round t \<and> typed (st_Players t)"

lemma startable_users: "startable s \<Longrightarrow> distinct (map pl_UserID (st_Players s))"
  by (auto simp: startable_def intro: roster_users)

lemma valid_settleable: "valid s \<Longrightarrow> typed (st_Players s) \<Longrightarrow> st_Phase s \<noteq> PhaseFinished \<Longrightarrow> settleable s"
  by (auto simp: valid_iff settleable_def startable_def ending_ok_def validateRoundHistory_iff table_valid_def typed_def)

lemma core_frame_fields:
  assumes "core_frame t = core_frame s"
  shows "st_SchemaVersion t = st_SchemaVersion s" "st_Round t = st_Round s" "st_HostUserID t = st_HostUserID s"
    "st_Config t = st_Config s" "st_LastSettlement t = st_LastSettlement s" "st_RoundHistory t = st_RoundHistory s"
    "st_FinishReason t = st_FinishReason s"
  using assms by (simp_all add: core_frame_def)

text \<open>A state in which the target decides is valid if its history of matches is short enough.\<close>

lemma decided_valid:
  assumes "startable s" and "core_frame t = core_frame s" and "kept_all (st_Players s) (st_Players t)" and "decided t"
    and "st_TargetRerollCount t \<le> cf_TargetRerollLimit (st_Config t)" and "st_TargetStreak t \<le> st_TargetRerollCount t"
  shows "valid t \<longleftrightarrow> length (st_MatchHistory t) \<le> unat (cf_MatchResolutionLimit (st_Config t)) + 1" and "typed (st_Players t)"
proof -
  note f = core_frame_fields [OF assms(2)]
  have g: "good_table (st_Config t) (st_Players t)" using assms(4) by (simp add: decided_def)
  have tv: "table_valid (st_Config t) (st_Players t)"
    using assms(1) by (intro kept_table_valid [OF assms(3) g]) (auto simp: startable_def)
  show "typed (st_Players t)" using assms(1) by (intro kept_typed [OF assms(3) g]) (auto simp: startable_def)
  show "valid t \<longleftrightarrow> length (st_MatchHistory t) \<le> unat (cf_MatchResolutionLimit (st_Config t)) + 1"
    using assms(1,4,5,6) tv
    by (auto simp: valid_iff startable_def decided_def ending_ok_def f roster_cong [OF assms(3)] ids_of_kept [OF assms(3)]
        kept_all_count [OF assms(3)] validateRoundHistory_iff)
qed

lemma started_valid:
  assumes "startable s" and "started s es t"
  shows "valid t" and "moved s es t" and "st_Round t = st_Round s"
proof -
  have st: "core_frame t = core_frame s" "kept_all (st_Players s) (st_Players t)" "decided t" "ledger s es t"
    "st_TargetRerollCount t \<le> cf_TargetRerollLimit (st_Config t)" "st_TargetStreak t \<le> st_TargetRerollCount t"
    "length (st_MatchHistory t) \<le> unat (cf_MatchResolutionLimit (st_Config t)) + 1"
    using assms(2) by (simp_all add: started_def)
  note d = decided_valid [OF assms(1) st(1,2,3,5,6)]
  show "valid t" using d(1) st(7) by simp
  show "moved s es t" using d(2) st(2,4) core_frame_fields [OF st(1)] by (simp add: moved_def ids_of_kept)
  show "st_Round t = st_Round s" using core_frame_fields [OF st(1)] by simp
qed

lemma targeted_not_Nil:
  assumes "roster_ok config host (st_Players s)" and "targeted s"
  shows "st_TargetUserID s \<noteq> []"
proof -
  have ok: "validate_participants us ss ps = Inr () \<Longrightarrow> p \<in> set ps \<Longrightarrow> pt_UserID p \<noteq> []" for us ss ps p
    by (induction us ss ps rule: validate_participants.induct) (auto simp: outcome split: if_splits dest!: identifier_ok_not_Nil)
  from assms(2) obtain p where "p \<in> set (st_Players s)" "pl_UserID p = st_TargetUserID s" by (auto simp: targeted_def)
  moreover from this(1) have "player_participant p \<in> set (map player_participant (st_Players s))" by simp
  moreover have "validate_participants {} {} (map player_participant (st_Players s)) = Inr ()"
    using assms(1) by (simp add: roster_ok_def ValidateParticipants_def outcome)
  ultimately show ?thesis using ok [of "{}" "{}" "map player_participant (st_Players s)" "player_participant p"]
    by (simp add: player_participant_def)
qed

lemma settleAndStart_valid:
  assumes "settleable s" and "settleAndStart sha256 s (st_TargetUserID s) reason now roller = Inr (t, es)" and "reason \<noteq> []"
  shows "valid t" and "moved s es t" and "st_Round t = st_Round s + 1" and "st_Round s \<noteq> MaxUint32"
    and "last (st_RoundHistory t) = st_LastSettlement t" and "rs_Round (st_LastSettlement t) = st_Round s"
    and "rs_TargetUserID (st_LastSettlement t) = st_TargetUserID s" and "rs_Reason (st_LastSettlement t) = reason"
    and "st_RoundHistory t \<noteq> []" and "st_Phase t = PhaseTargetDecision"
proof -
  define st where "st = \<lparr>rs_Round = st_Round s, rs_TargetUserID = st_TargetUserID s, rs_Reason = reason,
              rs_TargetRerollCount = st_TargetRerollCount s, rs_TargetStreak = st_TargetStreak s,
              rs_MatchResolutionCount = st_MatchResolutionCount s, rs_Players = st_Players s\<rparr>"
  define hs where "hs = (if length (st_RoundHistory s @ [st]) > RoundHistoryLimit
    then drop (length (st_RoundHistory s @ [st]) - RoundHistoryLimit) (st_RoundHistory s @ [st]) else st_RoundHistory s @ [st])"
  define n where "n = s\<lparr>st_LastSettlement := st, st_RoundHistory := hs, st_Round := st_Round s + 1\<rparr>"
  obtain e fs where r: "st_Round s \<noteq> MaxUint32" and start: "startRound sha256 n roller now False [] = Inr (t, fs)"
    and es: "es = e # fs" "ev_Kind e = EventRoundSettled"
    using assms(2) unfolding settleAndStart_def Let_def st_def [symmetric] hs_def [symmetric] n_def [symmetric]
    by (auto simp: outcome)
  have ss: "startable s" using assms(1) by (simp add: settleable_def)
  have b: "st_Round s < st_Round s + 1" by (rule plus_1_gr_u32 [OF r])
  have "st_TargetUserID s \<noteq> []" using ss assms(1) targeted_not_Nil [of "st_Config s" "st_HostUserID s" s]
    by (simp add: startable_def settleable_def)
  then have "settlement_ok (st_Config s) (st_Round s + 1) (ids_of (st_Players s)) st"
    using assms(1,3) b by (auto simp: settlement_ok_def st_def settleable_def startable_def ids_of_def table_valid_def targeted_def)
  then have hist: "rounds_ok (st_Config s) (st_Round s + 1) (ids_of (st_Players s)) st hs"
    unfolding hs_def using ss by (intro rounds_ok_settle [where bound = "st_Round s"]) (auto simp: startable_def st_def)
  have hn: "hs \<noteq> []" by (simp add: hs_def RoundHistoryLimit_def)
  have sn: "startable n" using ss hist plus_1_neq_0_u32 [OF r] by (simp add: startable_def n_def)
  have st: "started n fs t" by (rule startRound_started [OF start startable_users [OF sn]])
  note v = started_valid [OF sn st]
  show "valid t" by (rule v)
  show "st_Round t = st_Round s + 1" using v(3) by (simp add: n_def)
  show "st_Round s \<noteq> MaxUint32" by (rule r)
  have "ledger n fs t" using v(2) by (simp add: moved_def)
  then have "ledger s es t" using ledger_free [of "[e]" n fs t] es penalty_of_cong [of n s] by (simp add: ledger_def n_def)
  then show "moved s es t" using v b by (simp add: moved_def n_def)
  have t: "st_RoundHistory t = hs" "st_LastSettlement t = st" using st core_frame_fields [of t n] by (simp_all add: started_def n_def)
  show "last (st_RoundHistory t) = st_LastSettlement t" using hist hn t by (simp add: rounds_ok_def)
  show "rs_Round (st_LastSettlement t) = st_Round s" "rs_TargetUserID (st_LastSettlement t) = st_TargetUserID s"
    "rs_Reason (st_LastSettlement t) = reason" "st_RoundHistory t \<noteq> []" using t hn by (simp_all add: st_def)
  show "st_Phase t = PhaseTargetDecision" using st by (simp add: started_def decided_def)
qed

section \<open>Rerolls\<close>

text \<open>The state after the target has rerolled and the matches are resolved, before the round goes on.\<close>

lemma reroll_resolved:
  assumes v: "valid s" and ty: "typed (st_Players s)" and ph: "st_Phase s \<noteq> PhaseFinished"
    and c: "st_TargetRerollCount s < cf_TargetRerollLimit (st_Config s)"
    and pen: "addPenalty s actor amount reason 0 = Inr (n, e)"
    and roll: "rollUsers sha256 (n\<lparr>st_TargetRerollCount := st_TargetRerollCount n + 1, st_TargetStreak := st_TargetStreak n + 1\<rparr>)
      roller [actor] 0 why = Inr (m, ms, r1)"
    and res: "resolveMatches sha256 m r1 = Inr (q, qs, r2)"
  shows "settleable q" and "resolved m qs q" and "ledger s ([e] @ ms @ qs) q" and "core_frame q = core_frame s"
    and "kept_all (st_Players s) (st_Players q)" and "core_frame m = core_frame s" and "kept_all (st_Players s) (st_Players m)"
    and "st_TargetRerollCount q = st_TargetRerollCount s + 1" and "st_TargetUserID q = st_TargetUserID s"
    and "st_TargetStreak q = st_TargetStreak s + 1" and "st_TargetRerollCount m = st_TargetRerollCount q"
    and "st_TargetStreak m = st_TargetStreak q"
    and "st_MatchHistory m = st_MatchHistory s" and "st_MatchResolutionCount m = st_MatchResolutionCount s"
proof -
  let ?n = "n\<lparr>st_TargetRerollCount := st_TargetRerollCount n + 1, st_TargetStreak := st_TargetStreak n + 1\<rparr>"
  have ss: "settleable s" by (rule valid_settleable [OF v ty ph])
  then have su: "startable s" and tv: "table_valid (st_Config s) (st_Players s)" by (simp_all add: settleable_def)
  note p = addPenalty_Inr [OF pen]
  have nf: "core_frame n = core_frame s" "st_TargetRerollCount n = st_TargetRerollCount s" "st_TargetStreak n = st_TargetStreak s"
    "st_MatchHistory n = st_MatchHistory s" "st_MatchResolutionCount n = st_MatchResolutionCount s" "st_Config n = st_Config s"
    "st_TargetUserID n = st_TargetUserID s"
    by (subst p(1), simp add: core_frame_def)+
  have un: "distinct (map pl_UserID (st_Players n))" using kept_all_maps(1) [OF p(2)] valid_users [OF v] by simp
  have "\<forall>p \<in> set (st_Players ?n). pl_Active p \<longrightarrow> hand_good (st_Config ?n) (pl_Hand p) \<or> pl_UserID p \<in> set [actor]"
  proof (intro ballI impI disjI1)
    fix x
    assume x: "x \<in> set (st_Players ?n)" "pl_Active x"
    then obtain i where "i < length (st_Players n)" "st_Players n ! i = x" by (auto simp: in_set_conv_nth)
    moreover have "length (st_Players n) = length (st_Players s)" using p(3) by (metis length_map)
    ultimately have "st_Players s ! i \<in> set (st_Players s)" "seen_of x = seen_of (st_Players s ! i)" using p(3) by (auto, metis nth_map)
    then show "hand_good (st_Config ?n) (pl_Hand x)"
      using table_valid_hands [OF tv ty, of "st_Players s ! i"] x nf by (simp add: seen_of_def)
  qed
  note r = rollUsers_Inr [OF roll this]
  have un': "distinct (map pl_UserID (st_Players ?n))" using un by simp
  note r = r [OF un']
  have m: "core_frame m = core_frame n" "st_Config m = st_Config n" "st_TargetRerollCount m = st_TargetRerollCount n + 1"
    "st_TargetStreak m = st_TargetStreak n + 1" "st_MatchHistory m = st_MatchHistory n"
    "st_MatchResolutionCount m = st_MatchResolutionCount n" "st_TargetUserID m = st_TargetUserID n"
    by (subst r(1), simp add: core_frame_def)+
  have kn: "kept_all (st_Players n) (st_Players m)" using r(2) by simp
  show km: "kept_all (st_Players s) (st_Players m)" by (rule kept_all_trans [OF p(2) kn])
  have um: "distinct (map pl_UserID (st_Players m))" using kept_all_maps(1) [OF kn] un by simp
  show rq: "resolved m qs q" using resolveMatches_resolved [OF res _ um] r(3) m(2) by simp
  then have i: "inner_step m qs q" by (simp add: resolved_def)
  then have fr: "round_frame q = round_frame m" and kq: "kept_all (st_Players m) (st_Players q)" and lq: "ledger m qs q"
    and tq: "map pl_TargetedThisRound (st_Players q) = map pl_TargetedThisRound (st_Players m)" by (simp_all add: inner_step_def)
  note f = round_frame_fields [OF fr]
  show k: "kept_all (st_Players s) (st_Players q)" by (rule kept_all_trans [OF km kq])
  show mf: "core_frame m = core_frame s" using m nf by simp
  show cf: "core_frame q = core_frame s" using mf by (simp add: core_frame_def f)
  show t1: "st_TargetRerollCount q = st_TargetRerollCount s + 1" "st_TargetUserID q = st_TargetUserID s"
    "st_TargetStreak q = st_TargetStreak s + 1" "st_TargetRerollCount m = st_TargetRerollCount q" "st_TargetStreak m = st_TargetStreak q"
    "st_MatchHistory m = st_MatchHistory s" "st_MatchResolutionCount m = st_MatchResolutionCount s"
    using m nf f by simp_all
  have "ledger n [] ?n" by (rule ledger_same) simp_all
  moreover have "ledger ?n ms m" using rollUsers_events [OF roll] kept_all_maps(1) [OF r(2)] r(5) by (intro ledger_same)
  ultimately have "ledger n ms m" using ledger_append by fastforce
  then show "ledger s ([e] @ ms @ qs) q" by (rule ledger_trans3 [OF p(4) _ lq])
  have gq: "good_table (st_Config q) (st_Players q)" using rq by (simp add: resolved_def)
  have inact: "\<forall>p \<in> set (st_Players s). \<not> pl_Active p \<longrightarrow> validateHandBasic (pl_Hand p) = Inr () \<and> length (hn_Raw (pl_Hand p)) = 3"
    using su by (simp add: startable_def)
  have tvq: "table_valid (st_Config q) (st_Players q)" using kept_table_valid [OF k gq] inact by blast
  have tyq: "typed (st_Players q)" using kept_typed [OF k gq] inact by blast
  have "\<forall>x \<in> set (st_Players q). \<not> pl_Active x \<longrightarrow> validateHandBasic (pl_Hand x) = Inr () \<and> length (hn_Raw (pl_Hand x)) = 3"
    using tvq tyq by (simp add: table_valid_def typed_def)
  then have sq: "startable q"
    using su core_frame_fields [OF cf] by (simp add: startable_def roster_cong [OF k] ids_of_kept [OF k] kept_all_count [OF k])
  have tm: "map pl_TargetedThisRound (st_Players q) = map pl_TargetedThisRound (st_Players s)"
    using tq r(4) seen_targeted [OF p(3)] by simp
  have "targeted q"
  proof -
    from ss obtain i where i: "i < length (st_Players s)" "pl_UserID (st_Players s ! i) = st_TargetUserID s"
      "pl_Active (st_Players s ! i)" "pl_TargetedThisRound (st_Players s ! i)"
      by (auto simp: settleable_def targeted_def in_set_conv_nth)
    have len: "length (st_Players q) = length (st_Players s)" using kept_all_maps(4) [OF k] .
    have "kept (st_Players s ! i) (st_Players q ! i)" using k i(1) by (simp add: list_all2_conv_all_nth)
    moreover have "pl_TargetedThisRound (st_Players q ! i)" using tm i(1,4) len by (metis nth_map)
    ultimately show ?thesis unfolding targeted_def using i len t1 by (intro bexI [of _ "st_Players q ! i"]) (auto simp: kept_def)
  qed
  moreover have "st_TargetRerollCount q \<le> cf_TargetRerollLimit (st_Config q)" "st_TargetStreak q \<le> st_TargetRerollCount q"
    using c ss core_frame_fields(4) [OF cf] t1 unat_plus_1_u32 [OF less_not_MaxUint32 [OF c]]
      unat_plus_1_u32 [of "st_TargetStreak s"] less_not_MaxUint32 [of "st_TargetStreak s" "cf_TargetRerollLimit (st_Config s)"]
    by (auto simp: settleable_def word_le_nat_alt word_less_nat_alt)
  moreover have "st_MatchResolutionCount q \<le> cf_MatchResolutionLimit (st_Config q)"
    using rq ss m nf f by (simp add: resolved_def settleable_def)
  ultimately show "settleable q" using sq tvq tyq by (simp add: settleable_def)
qed

section \<open>Commands\<close>

text \<open>The commands that a running session accepts.\<close>

datatype Command =
    DoReroll string i64 "u8 list"
  | DoStand string i64 "u8 list"
  | DoTimeout ActionTimer i64 "u8 list"
  | DoRevoke string i64 "u8 list"
  | DoFinish string string

fun mb_step :: "digest \<Rightarrow> State \<Rightarrow> Command \<Rightarrow> (State \<times> Event list) result" where
  "mb_step sha256 s (DoReroll actor now seed) = Reroll sha256 s actor now seed"
| "mb_step sha256 s (DoStand actor now seed) = Stand sha256 s actor now seed"
| "mb_step sha256 s (DoTimeout timer now seed) = HandleTimeout sha256 s timer now seed"
| "mb_step sha256 s (DoRevoke userID now seed) = RevokeParticipant sha256 s userID now seed"
| "mb_step sha256 s (DoFinish reason operator) = Finish s reason operator"

definition history_fits :: "State \<Rightarrow> bool" where
  "history_fits s \<longleftrightarrow> length (st_MatchHistory s) \<le> unat (cf_MatchResolutionLimit (st_Config s)) + 1"

lemma valid_fits: "valid s \<Longrightarrow> history_fits s"
  by (simp add: valid_iff history_fits_def)

lemma moved_trans: "moved s es t \<Longrightarrow> moved t fs r \<Longrightarrow> moved s (es @ fs) r"
  by (auto simp: moved_def intro: ledger_append)

lemma moved_event: "moved s es t \<Longrightarrow> ev_Kind e \<noteq> EventPenaltyRecorded \<Longrightarrow> moved s (e # es) t"
  using ledger_free [of "[e]" s es t] by (simp add: moved_def)

lemma validateTargetAction_Inr:
  assumes "validateTargetAction s actor now timer = Inr ()"
  shows "valid s" and "st_Phase s \<noteq> PhaseFinished" and "actor = st_TargetUserID s" and "0 < now"
    and "timer \<or> st_ActionDeadlineUnixMillis s = 0 \<or> now < st_ActionDeadlineUnixMillis s"
  using assms by (auto simp: validateTargetAction_def outcome valid_def validUnixMillis_def)

lemma Reroll_Inr:
  assumes "Reroll sha256 s actor now seed = Inr (t, es)"
  obtains n e m ms r1 q qs r2 fs f where "validateTargetAction s actor now False = Inr ()"
    and "st_TargetRerollCount s < cf_TargetRerollLimit (st_Config s)"
    and "addPenalty s actor (cf_RerollPenaltyTicks (st_Config s)) ''target_reroll'' 0 = Inr (n, e)"
    and "rollUsers sha256 (n\<lparr>st_TargetRerollCount := st_TargetRerollCount n + 1, st_TargetStreak := st_TargetStreak n + 1\<rparr>)
      \<lparr>rl_seed = seed, rl_stream = 0\<rparr> [actor] 0 ''target_reroll'' = Inr (m, ms, r1)"
    and "resolveMatches sha256 m r1 = Inr (q, qs, r2)"
    and "es = f # ([e] @ ms @ qs) @ fs" and "ev_Kind f = EventTargetRerolled"
    and "if targetStrictlyStrongest q actor then settleAndStart sha256 q actor ''target_surpassed'' now r2 = Inr (t, fs)
      else if st_TargetRerollCount q \<ge> cf_TargetRerollLimit (st_Config q)
      then settleAndStart sha256 q actor ''reroll_limit'' now r2 = Inr (t, fs)
      else selectTarget q actor now ''post_reroll_target'' = Inr (t, fs)"
proof -
  from assms obtain n e where v: "validateTargetAction s actor now False = Inr ()"
    and l: "st_TargetRerollCount s < cf_TargetRerollLimit (st_Config s)"
    and a: "addPenalty s actor (cf_RerollPenaltyTicks (st_Config s)) ''target_reroll'' 0 = Inr (n, e)"
    by (auto simp: Reroll_def outcome not_le)
  from assms v l a obtain m ms r1 q qs r2 where
    r: "rollUsers sha256 (n\<lparr>st_TargetRerollCount := st_TargetRerollCount n + 1, st_TargetStreak := st_TargetStreak n + 1\<rparr>)
      \<lparr>rl_seed = seed, rl_stream = 0\<rparr> [actor] 0 ''target_reroll'' = Inr (m, ms, r1)"
    and q: "resolveMatches sha256 m r1 = Inr (q, qs, r2)"
    by (auto simp: Reroll_def outcome Let_def)
  from assms v l a r q obtain f fs where es: "es = f # ([e] @ ms @ qs) @ fs" "ev_Kind f = EventTargetRerolled"
    and step: "if targetStrictlyStrongest q actor then settleAndStart sha256 q actor ''target_surpassed'' now r2 = Inr (t, fs)
      else if st_TargetRerollCount q \<ge> cf_TargetRerollLimit (st_Config q)
      then settleAndStart sha256 q actor ''reroll_limit'' now r2 = Inr (t, fs)
      else selectTarget q actor now ''post_reroll_target'' = Inr (t, fs)"
    by (auto simp: Reroll_def outcome Let_def split: if_splits)
  show thesis by (rule that [OF v l a r q es step])
qed

lemma Reroll_step:
  assumes step: "Reroll sha256 s actor now seed = Inr (t, es)" and ty: "typed (st_Players s)"
  shows "moved s es t \<and> (valid t \<longleftrightarrow> history_fits t) \<and>
    (st_Round t = st_Round s + 1 \<and> valid t \<or>
     st_Round t = st_Round s \<and> st_TargetRerollCount s + 1 < cf_TargetRerollLimit (st_Config s) \<and>
     st_TargetRerollCount t = st_TargetRerollCount s + 1)"
  using step
proof (cases rule: Reroll_Inr)
  case (1 n e m ms r1 q qs r2 fs f)
  note a = validateTargetAction_Inr [OF 1(1)]
  note r = reroll_resolved [OF a(1) ty a(2) 1(2,3,4,5)]
  note cf = core_frame_fields [OF r(4)]
  have sq: "moved s ([e] @ ms @ qs) q"
    using r(1,3,5) cf by (simp add: moved_def ids_of_kept settleable_def)
  have settle: "valid t \<and> moved s es t \<and> st_Round t = st_Round s + 1"
    if "settleAndStart sha256 q actor why now r2 = Inr (t, fs)" "why \<noteq> []" for why
  proof -
    have "settleAndStart sha256 q (st_TargetUserID q) why now r2 = Inr (t, fs)" using that a(3) r(9) by simp
    note v = settleAndStart_valid [OF r(1) this that(2)]
    have "moved s (f # ([e] @ ms @ qs) @ fs) t" using moved_trans [OF sq v(2)] 1(7) by (intro moved_event) auto
    then show ?thesis using v(1,3) cf 1(6) by simp
  qed
  show ?thesis
  proof (cases "targetStrictlyStrongest q actor \<or> st_TargetRerollCount q \<ge> cf_TargetRerollLimit (st_Config q)")
    case True
    then have "valid t \<and> moved s es t \<and> st_Round t = st_Round s + 1"
      using 1(8) settle [of "''target_surpassed''"] settle [of "''reroll_limit''"] by (auto split: if_splits)
    then show ?thesis by (auto dest: valid_fits)
  next
    case False
    then have sel: "selectTarget q actor now ''post_reroll_target'' = Inr (t, fs)" using 1(8) by simp
    have uq: "distinct (map pl_UserID (st_Players q))" using r(1) by (simp add: settleable_def startable_users)
    have um: "distinct (map pl_UserID (st_Players m))" using kept_all_maps(1) [OF r(7)] valid_users [OF a(1)] by simp
    have gq: "good_table (st_Config q) (st_Players q)" using r(2) by (simp add: resolved_def)
    note st = selectTarget_selected(1) [OF sel gq uq]
    have vs: "st_MatchResolutionCount s \<le> cf_MatchResolutionLimit (st_Config s)"
      "resolutions_ok (st_Players s) 0 (st_MatchResolutionCount s) (st_MatchHistory s)" using a(1) by (simp_all add: valid_iff)
    have rm: "resolutions_ok (st_Players m) 0 (st_MatchResolutionCount m) (st_MatchHistory m)"
      using vs(2) resolutions_ok_cong [OF kept_all_index [OF r(7)]] r(13,14) by simp
    have "st_MatchResolutionCount m \<le> cf_MatchResolutionLimit (st_Config m)"
      using vs(1) r(14) core_frame_fields(4) [OF r(6)] by simp
    note d = resolved_selected [OF r(2) st um rm this]
    have cft: "core_frame t = core_frame s" using d(1) r(6) by simp
    have kt: "kept_all (st_Players s) (st_Players t)" using kept_all_trans [OF r(7) d(2)] .
    have ss: "startable s" using valid_settleable [OF a(1) ty a(2)] by (simp add: settleable_def)
    have cnt: "st_TargetRerollCount t = st_TargetRerollCount q" "st_TargetStreak t \<le> st_TargetRerollCount t"
      "st_TargetRerollCount t \<le> cf_TargetRerollLimit (st_Config t)"
      using d(5,6) r(1,11,12) core_frame_fields(4) [OF cft] cf by (auto simp: settleable_def)
    note v = decided_valid [OF ss cft kt d(4) cnt(3,2)]
    have "ledger q fs t" using st by (simp add: selected_def)
    then have "ledger s (([e] @ ms @ qs) @ fs) t" by (rule ledger_append [OF r(3)])
    then have "ledger s es t" using ledger_free [of "[f]" s "([e] @ ms @ qs) @ fs" t] 1(6,7) by simp
    then have "moved s es t" using v(2) core_frame_fields [OF cft] by (simp add: moved_def ids_of_kept [OF kt])
    moreover have "st_TargetRerollCount s + 1 < cf_TargetRerollLimit (st_Config s)" using False r(8) cf by (simp add: not_le)
    ultimately show ?thesis using v(1) cnt(1) r(8) core_frame_fields [OF cft] by (simp add: history_fits_def)
  qed
qed

lemma Stand_step:
  assumes "Stand sha256 s actor now seed = Inr (t, es)" and "typed (st_Players s)"
  shows "moved s es t \<and> valid t \<and> st_Round t = st_Round s + 1"
proof -
  from assms(1) have a: "validateTargetAction s actor now False = Inr ()"
    and b: "settleAndStart sha256 s actor ''stand'' now \<lparr>rl_seed = seed, rl_stream = 0\<rparr> = Inr (t, es)"
    by (auto simp: Stand_def outcome)
  note v = validateTargetAction_Inr [OF a]
  have s: "settleable s" by (rule valid_settleable [OF v(1) assms(2) v(2)])
  show ?thesis using settleAndStart_valid [OF s b [unfolded v(3)]] by simp
qed

lemma HandleTimeout_step:
  assumes "HandleTimeout sha256 s timer now seed = Inr (t, es)" and "typed (st_Players s)"
  shows "moved s es t \<and> valid t \<and> st_Round t = st_Round s + 1"
proof -
  from assms(1) have a: "valid s" "st_Phase s \<noteq> PhaseFinished"
    and b: "settleAndStart sha256 s (st_TargetUserID s) ''timeout_stand'' now \<lparr>rl_seed = seed, rl_stream = 0\<rparr> = Inr (t, es)"
    by (auto simp: HandleTimeout_def outcome valid_def)
  have s: "settleable s" by (rule valid_settleable [OF a(1) assms(2) a(2)])
  show ?thesis using settleAndStart_valid [OF s b] by simp
qed

section \<open>Revocation and the end\<close>

lemma roster_ids:
  assumes "ids_of qs = ids_of ps"
  shows "roster_ok config host qs = roster_ok config host ps"
proof -
  note m = assms [unfolded ids_of_eq]
  then have "length qs = length ps" by (metis length_map)
  moreover have "map player_participant qs = map player_participant ps"
    using m by (auto simp: player_participant_def list_eq_iff_nth_eq)
  moreover have "(\<exists>p \<in> set qs. pl_UserID p = host) \<longleftrightarrow> (\<exists>p \<in> set ps. pl_UserID p = host)"
    using m by (metis (no_types, lifting) image_iff list.set_map)
  ultimately show ?thesis using m by (simp add: roster_ok_def)
qed

definition switched_off :: "PlayerState list \<Rightarrow> nat \<Rightarrow> PlayerState list" where
  "switched_off ps i = ps[i := (ps ! i)\<lparr>pl_Active := False\<rparr>]"

lemma switched_off_maps:
  "ids_of (switched_off ps i) = ids_of ps" "map pl_UserID (switched_off ps i) = map pl_UserID ps"
  "map pl_PenaltyTicks (switched_off ps i) = map pl_PenaltyTicks ps"
  "map (\<lambda>p. (pl_Included p, pl_Hand p)) (switched_off ps i) = map (\<lambda>p. (pl_Included p, pl_Hand p)) ps"
  "playerIndex (switched_off ps i) u = playerIndex ps u"
  by (auto simp: switched_off_def map_update_eq ids_of_def intro!: mb.index_cong)

lemma classify_included_cong:
  "map (\<lambda>p. (pl_Included p, pl_Hand p)) qs = map (\<lambda>p. (pl_Included p, pl_Hand p)) ps \<Longrightarrow>
     classify_included config qs = classify_included config ps \<and> map pl_Hand (filter pl_Included qs) = map pl_Hand (filter pl_Included ps)"
proof (induction ps arbitrary: qs)
  case (Cons p ps)
  then obtain q rs where qs: "qs = q # rs" by (cases qs) auto
  with Cons.prems have "map (\<lambda>p. (pl_Included p, pl_Hand p)) rs = map (\<lambda>p. (pl_Included p, pl_Hand p)) ps" by simp
  from Cons.IH [OF this] Cons.prems qs show ?case by (simp split: sum.split)
qed simp

lemma switched_off_mem:
  assumes "q \<in> set (switched_off ps i)"
  shows "\<exists>p \<in> set ps. (pl_Active q \<longrightarrow> pl_Active p) \<and> pl_Included q = pl_Included p \<and> pl_Hand q = pl_Hand p"
proof (cases "i < length ps")
  case True
  then have "ps ! i \<in> set ps" by simp
  moreover have "q = (ps ! i)\<lparr>pl_Active := False\<rparr> \<or> q \<in> set ps"
    using assms set_update_subset_insert [of ps i "(ps ! i)\<lparr>pl_Active := False\<rparr>"] by (auto simp: switched_off_def)
  ultimately show ?thesis by fastforce
next
  case False
  with assms show ?thesis by (auto simp: switched_off_def list_update_beyond)
qed

lemma switched_off_table:
  assumes "table_valid config ps"
  shows "table_valid config (switched_off ps i)"
proof -
  have "validateCurrentHands config (switched_off ps i) = validateCurrentHands config ps"
    using classify_included_cong [OF switched_off_maps(4), of config ps i] by (simp add: validateCurrentHands_def)
  then show ?thesis using assms switched_off_mem [of _ ps i] unfolding table_valid_def by metis
qed

lemma switched_off_typed: "typed ps \<Longrightarrow> typed (switched_off ps i)"
  using switched_off_mem [of _ ps i] unfolding typed_def by metis

text \<open>Validity without what depends on the phase.\<close>

definition sound :: "State \<Rightarrow> bool" where
  "sound s \<longleftrightarrow> st_SchemaVersion s = CurrentSchemaVersion \<and> st_Round s \<noteq> 0 \<and>
     roster_ok (st_Config s) (st_HostUserID s) (st_Players s) \<and> table_valid (st_Config s) (st_Players s) \<and>
     st_TargetRerollCount s \<le> cf_TargetRerollLimit (st_Config s) \<and> st_TargetStreak s \<le> st_TargetRerollCount s \<and>
     st_MatchResolutionCount s \<le> cf_MatchResolutionLimit (st_Config s) \<and>
     length (st_MatchHistory s) \<le> unat (cf_MatchResolutionLimit (st_Config s)) + 1 \<and>
     resolutions_ok (st_Players s) 0 (st_MatchResolutionCount s) (st_MatchHistory s) \<and> rounds_valid s"

lemma valid_sound: "valid s \<longleftrightarrow> sound s \<and> ending_ok s"
  by (auto simp: valid_iff sound_def validateRoundHistory_iff)

lemma mb_finishState_valid:
  assumes "sound s" and "validFinishReason reason" and "finishState s reason operator = (t, e)"
  shows "valid t" and "typed (st_Players s) \<Longrightarrow> moved s [e] t"
proof -
  have t: "t = s\<lparr>st_Phase := PhaseFinished, st_FinishReason := reason, st_TargetUserID := [], st_ActionDeadlineUnixMillis := 0\<rparr>"
    and e: "ev_Kind e = EventSessionFinished" using assms(3) by (auto simp: finishState_def)
  show "valid t" using assms(1,2) by (simp add: valid_sound sound_def t ending_ok_def)
  have "ledger s [e] t" using e by (intro ledger_same) (simp_all add: t)
  then show "typed (st_Players s) \<Longrightarrow> moved s [e] t" by (simp add: moved_def t)
qed

lemma Finish_step:
  assumes "Finish s reason operator = Inr (t, es)" and "typed (st_Players s)"
  shows "moved s es t \<and> valid t \<and> st_Round t = st_Round s \<and> st_Phase t = PhaseFinished"
proof -
  from assms(1) obtain e where v: "valid s" and r: "validFinishReason (if reason = [] then FinishHostRequested else reason)"
    and f: "finishState s (if reason = [] then FinishHostRequested else reason) operator = (t, e)" "es = [e]"
    by (auto simp: Finish_def outcome Let_def valid_def split: if_splits prod.splits)
  have "st_Round t = st_Round s" "st_Phase t = PhaseFinished" using f(1) by (auto simp: finishState_def)
  with mb_finishState_valid [OF _ r f(1)] v [unfolded valid_sound] assms(2) f(2) show ?thesis by simp
qed

lemma RevokeParticipant_step:
  assumes step: "RevokeParticipant sha256 s u now seed = Inr (t, es)" and ty: "typed (st_Players s)"
  shows "moved s es t \<and> valid t \<and> st_Round t \<in> {st_Round s, st_Round s + 1}"
proof -
  from step obtain i where v: "valid s" and ph: "st_Phase s \<noteq> PhaseFinished" and i: "playerIndex (st_Players s) u = Some i"
    and act: "pl_Active (st_Players s ! i)"
    by (auto simp: RevokeParticipant_def outcome valid_def split: option.splits)
  let ?ps = "switched_off (st_Players s) i"
  define n where "n = s\<lparr>st_Players := ?ps\<rparr>"
  note off = switched_off_maps [of "st_Players s" i]
  have ln: "ledger s [] n" using off by (intro ledger_same) (simp_all add: n_def)
  have il: "i < length (st_Players s)" "pl_UserID (st_Players s ! i) = u" using mb.index_SomeD [OF i] by auto
  have tyn: "typed ?ps" by (rule switched_off_typed [OF ty])
  have ss: "settleable s" by (rule valid_settleable [OF v ty ph])
  have sn: "sound n"
    using v off(1) switched_off_table [of "st_Config s" "st_Players s" i] resolutions_ok_cong [of ?ps "st_Players s", OF off(5)]
    by (simp add: valid_sound sound_def n_def roster_ids [OF off(1)])
  consider (few) "activeCount ?ps < MinimumPlayers" | (other) "\<not> activeCount ?ps < MinimumPlayers" "u \<noteq> st_TargetUserID s"
    | (target) "\<not> activeCount ?ps < MinimumPlayers" "u = st_TargetUserID s" by blast
  then show ?thesis
  proof cases
    case few
    with step v ph i act obtain e f where es: "es = [e, f]" and e: "ev_Kind e = EventParticipantRevoked"
      and f: "finishState n FinishInsufficientParticipants [] = (t, f)"
      by (auto simp: RevokeParticipant_def outcome valid_def Let_def n_def switched_off_def split: if_splits prod.splits)
    note fv = mb_finishState_valid [OF sn _ f]
    have "moved n [f] t" using fv(2) tyn by (simp add: validFinishReason_def n_def)
    then have "moved s [f] t" using ledger_append [OF ln, of "[f]" t] off(1) by (auto simp: moved_def n_def)
    from moved_event [OF this, of e] have "moved s es t" using e es by simp
    moreover have "st_Round t = st_Round s" using f by (auto simp: finishState_def n_def)
    ultimately show ?thesis using fv(1) by (simp add: validFinishReason_def)
  next
    case other
    with step v ph i act obtain e where tn: "t = n" "es = [e]" and e: "ev_Kind e = EventParticipantRevoked"
      by (auto simp: RevokeParticipant_def outcome valid_def Let_def n_def switched_off_def split: if_splits)
    from ss obtain p where p: "p \<in> set (st_Players s)" "pl_UserID p = st_TargetUserID s" "pl_Active p" "pl_TargetedThisRound p"
      by (auto simp: settleable_def targeted_def)
    have "p \<in> set ?ps" unfolding switched_off_def
      using p(1,2) other(2) il by (metis in_set_conv_nth length_list_update nth_list_update_neq)
    then have "targeted n" using p by (auto simp: targeted_def n_def)
    moreover have "deadline_ok n" "st_FinishReason s = []" "st_Phase s = PhaseTargetDecision"
      using v ph by (auto simp: valid_sound ending_ok_def n_def deadline_ok_def)
    ultimately have "valid n" using sn other(1) by (simp add: valid_sound ending_ok_def n_def MinimumPlayers_def)
    moreover have "moved s [] n" using ln off(1) tyn by (simp add: moved_def n_def)
    ultimately show ?thesis using e tn moved_event by (auto simp: n_def)
  next
    case target
    let ?n = "n\<lparr>st_Round := st_Round s + 1\<rparr>"
    from target step v ph i act obtain e fs where r: "st_Round s \<noteq> MaxUint32" and es: "es = e # fs" and e: "ev_Kind e = EventParticipantRevoked"
      and start: "startRound sha256 ?n \<lparr>rl_seed = seed, rl_stream = 0\<rparr> now False [] = Inr (t, fs)"
      by (auto simp: RevokeParticipant_def outcome valid_def Let_def n_def switched_off_def split: if_splits)
    have b: "st_Round s < st_Round s + 1" by (rule plus_1_gr_u32 [OF r])
    have stn: "startable ?n"
      using sn tyn ss target(1) plus_1_neq_0_u32 [OF r] b
      by (auto simp: startable_def sound_def settleable_def n_def table_valid_def typed_def MinimumPlayers_def intro: rounds_ok_mono)
    have st: "started ?n fs t" by (rule startRound_started [OF start startable_users [OF stn]])
    note sv = started_valid [OF stn st]
    have "ledger s [] ?n" using off by (intro ledger_same) (simp_all add: n_def)
    then have "ledger s fs t" using sv(2) ledger_append [of s "[]" ?n fs t] by (simp add: moved_def)
    then have "moved s fs t" using sv(2) off(1) b by (auto simp: moved_def n_def)
    then have "moved s es t" unfolding es using e by (intro moved_event) auto
    then show ?thesis using sv(1,3) by simp
  qed
qed

text \<open>An accepted command leaves a valid state exactly if the history of matches still fits.\<close>

lemma mb_step_moved:
  assumes "mb_step sha256 s c = Inr (t, es)" and "typed (st_Players s)"
  shows "moved s es t" and "valid t \<longleftrightarrow> history_fits t"
  using assms Reroll_step [of sha256 s _ _ _ t es] Stand_step [of sha256 s _ _ _ t es] HandleTimeout_step [of sha256 s _ _ _ t es]
    RevokeParticipant_step [of sha256 s _ _ _ t es] Finish_step [of s _ _ t es] valid_fits [of t]
  by (cases c; fastforce)+

end
