(* ===== verification/MeetLive.thy ===== *)
theory MeetLive
  imports MeetSteps
begin

text \<open>
  Liveness of meet by chance: no command panics, a round always starts when the dice can be rolled and the
  counters have room, and so a due timer is accepted.
\<close>

section \<open>No command panics\<close>

lemma mb_np_guard [simp]: "no_panic (if c then ruleError a b else m) \<longleftrightarrow> c \<or> no_panic m"
  by simp

lemma mb_np_deadline [simp]: "no_panic (deadlineUnixMillis now seconds)"
  by (simp add: deadlineUnixMillis_def Let_def)

lemma mb_np_addPenalty [simp]: "no_panic (addPenalty s u a r b)"
  by (simp add: addPenalty_def Let_def split: option.splits sum.splits)

lemma mb_np_charge_users [simp]: "no_panic (charge_users s us kind batch)"
  by (induction s us kind batch rule: charge_users.induct) (auto intro!: no_panic_and_then split: prod.splits)

lemma mb_np_charge_groups [simp]: "no_panic (charge_groups s gs batch)"
  by (induction s gs batch rule: charge_groups.induct) (auto intro!: no_panic_and_then split: prod.splits)

lemma mb_np_hand [simp]: "no_panic (validateHandBasic h)"
  by (simp add: validateHandBasic_def)

lemma mb_np_Classify [simp]: "no_panic (Classify raw config)"
  by (simp add: Classify_def Let_def)

lemma mb_np_participants [simp]: "no_panic (ValidateParticipants ps)"
proof -
  have "no_panic (validate_participants us ss qs)" for us ss qs
    by (induction qs arbitrary: us ss) auto
  then show ?thesis by (simp add: ValidateParticipants_def)
qed

lemma mb_np_players [simp]: "no_panic (validate_players prev ps)"
  by (induction prev ps rule: validate_players.induct) (auto intro!: no_panic_and_then)

lemma mb_np_hands [simp]: "no_panic (validateCurrentHands config ps)"
proof -
  have "no_panic (classify_included config ps)"
    by (induction config ps rule: classify_included.induct) (auto intro!: no_panic_and_then split: sum.splits)
  then show ?thesis unfolding validateCurrentHands_def by (intro no_panic_and_then) simp_all
qed

lemma mb_np_matches [simp]: "no_panic (validateMatchHistory s)"
proof -
  have u: "no_panic (validate_group_users ps seen us)" for ps seen us
    by (induction us arbitrary: seen) auto
  have g: "no_panic (validate_groups ps seen gs)" for ps seen gs
    by (induction gs arbitrary: seen) (auto intro!: no_panic_and_then simp: u)
  have "no_panic (validate_resolutions s lo rs)" for lo rs
    by (induction rs arbitrary: lo) (auto intro!: no_panic_and_then simp: g)
  then show ?thesis by (simp add: validateMatchHistory_def)
qed

lemma mb_np_rounds [simp]: "no_panic (validateRoundHistory s)"
proof -
  have p: "no_panic (validate_settled_players target ps cs found)" for target ps cs found
    by (induction target ps cs found rule: validate_settled_players.induct) (auto intro!: no_panic_and_then)
  have v: "no_panic (validateSettlement s st)" for st
    unfolding validateSettlement_def by (auto intro!: no_panic_and_then simp: p split: sum.splits)
  have "no_panic (validate_history s prev hs)" for prev hs
    by (induction hs arbitrary: prev) (auto intro!: no_panic_and_then simp: v)
  then show ?thesis unfolding validateRoundHistory_def by (auto intro!: no_panic_and_then simp: v)
qed

lemma mb_np_Validate [simp]: "no_panic (Validate s)"
  unfolding Validate_def by (intro no_panic_intros) simp_all

lemma mb_np_targetAction [simp]: "no_panic (validateTargetAction s actor now timer)"
  unfolding validateTargetAction_def by (intro no_panic_intros) simp_all

lemma assign_hands_np:
  "length fs = 3 * length us \<Longrightarrow> no_panic (assign_hands config ps us fs)"
proof (induction config ps us fs rule: assign_hands.induct)
  case (2 config ps u us fs)
  then obtain a b c rest where "fs = a # b # c # rest" by (cases fs; cases "tl fs"; cases "tl (tl fs)") auto
  with 2 show ?case by (auto intro!: no_panic_and_then split: option.splits)
qed simp

lemma players_at_np: "set us \<subseteq> pl_UserID ` set ps \<Longrightarrow> no_panic (players_at ps us)"
  by (induction us) (auto intro!: no_panic_and_then split: option.splits simp: mb.index_None_iff)

lemma rollUsers_np:
  assumes "length us \<le> 1000"
  shows "no_panic (rollUsers sha256 s roller us batch reason)"
proof (cases "us = []")
  case False
  let ?ps = "map (\<lambda>p. p\<lparr>pl_Included := pl_Active p\<rparr>) (st_Players s)"
  have faces: "length fs = 3 * length us \<and> list_all Face_Valid fs"
    if "roller_roll sha256 roller (of_nat (length us) * DicePerPlayer) = Inr (fs, r)" for fs r
  proof -
    from that obtain stream where r: "Roll sha256 (rl_seed roller) stream (of_nat (length us) * DicePerPlayer) = Inr fs"
      by (auto simp: roller_roll_def Let_def split: sum.splits)
    have "unat (of_nat (length us) * DicePerPlayer :: u32) = length us * 3"
      using assms by (simp add: DicePerPlayer_def unat_word_ariths unat_of_nat)
    with Roll_length [OF r] Roll_faces_valid [OF r] show ?thesis by simp
  qed
  have roll: "no_panic (roller_roll sha256 roller n)" for n by (simp add: roller_roll_def Let_def split: sum.splits)
  have at: "no_panic (players_at (resolvePlayer235 qs) us)"
    if "assign_hands (st_Config s) ?ps us fs = Inr qs" "list_all Face_Valid fs" for qs fs
  proof (rule players_at_np)
    note a = assign_hands_Inr [OF that] and r = resolvePlayer235_table [OF refl, of qs]
    have "pl_UserID (resolvePlayer235 qs ! i) = pl_UserID (st_Players s ! i)" if i: "i < length (st_Players s)" for i
    proof -
      from a i obtain h where "qs ! i = (?ps ! i)\<lparr>pl_Hand := h\<rparr>" by auto
      moreover have "i < length qs" using a i by simp
      with r(2) obtain g where "resolvePlayer235 qs ! i = (qs ! i)\<lparr>pl_Hand := g\<rparr>" by blast
      ultimately show ?thesis using i by simp
    qed
    then have "map pl_UserID (resolvePlayer235 qs) = map pl_UserID (st_Players s)"
      using a r(1) by (auto intro!: nth_equalityI)
    then have "pl_UserID ` set (resolvePlayer235 qs) = pl_UserID ` set (st_Players s)" by (metis list.set_map)
    moreover have "\<forall>u \<in> set us. \<exists>i. playerIndex ?ps u = Some i" using a by blast
    then have "set us \<subseteq> pl_UserID ` set ?ps" using mb.index_Some_iff [of ?ps] by blast
    ultimately show "set us \<subseteq> pl_UserID ` set (resolvePlayer235 qs)" by (auto simp: image_image)
  qed
  show ?thesis unfolding rollUsers_def Let_def
    using faces by (intro no_panic_intros roll) (auto intro!: assign_hands_np at)
qed (simp add: rollUsers_def)


lemma rollUsers_length:
  assumes "rollUsers sha256 s roller us batch reason = Inr (t, es, roller')"
  shows "length (st_Players t) = length (st_Players s)"
proof -
  have a: "assign_hands config ps us fs = Inr qs \<Longrightarrow> length qs = length ps" for config ps us fs qs
    by (induction config ps us fs rule: assign_hands.induct) (auto simp: outcome split: option.splits if_splits list.splits)
  from assms obtain fs qs where "assign_hands (st_Config s) (map (\<lambda>p. p\<lparr>pl_Included := pl_Active p\<rparr>) (st_Players s)) us fs = Inr qs"
    and "t = s\<lparr>st_Players := resolvePlayer235 qs\<rparr>" by (auto simp: rollUsers_def outcome Let_def)
  with a resolvePlayer235_table(1) [OF refl, of qs] show ?thesis by fastforce
qed

lemma resolveMatches_np:
  assumes "length (st_Players s) \<le> 12"
  shows "no_panic (resolveMatches sha256 s roller)"
  using assms
proof (induction sha256 s roller rule: resolveMatches.induct)
  case (1 sha256 s roller)
  let ?gs = "FindMatchGroups (st_Players s)"
  have few: "length (stableUsersFromSet ps us) \<le> length ps" for ps us by (simp add: stableUsersFromSet_def)
  have charged: "length (st_Players n) = length (st_Players m)" if "charge_groups m gs b = Inr (n, es)" for m n gs b es
    using charge_groups_inner [OF that] by (metis length_map)
  have b: "no_panic (resolve_batch sha256 s roller ?gs)"
  proof -
    have "length (st_Players n) \<le> 1000"
      if "charge_groups (s\<lparr>st_MatchResolutionCount := c, st_MatchHistory := h\<rparr>) ?gs b = Inr (n, es)" for n es b c h
      using charged [OF that] "1.prems" by simp
    then show ?thesis unfolding resolve_batch_def Let_def
      by (intro no_panic_intros rollUsers_np order_trans [OF few]) auto
  qed
  have step: "no_panic (resolveMatches sha256 m r1)"
    if "?gs \<noteq> []" "\<not> cf_MatchResolutionLimit (st_Config s) \<le> st_MatchResolutionCount s" "resolve_batch sha256 s roller ?gs = Inr (m, es, r1)" for m es r1
  proof -
    from that(3) have "length (st_Players m) = length (st_Players s)"
      by (auto simp: resolve_batch_def Let_def outcome dest!: charged rollUsers_length)
    then show ?thesis using "1.IH" [OF refl _ _ that(3) refl refl] that "1.prems" by simp
  qed
  show ?case
    using b by (subst resolveMatches.simps) (auto simp: Let_def split: sum.splits dest: step intro!: no_panic_and_then b)
qed


lemma resolveMatches_users_length:
  assumes "resolveMatches sha256 s roller = Inr (t, es, roller')"
  shows "length (st_Players t) = length (st_Players s)"
  using assms
proof (induction sha256 s roller arbitrary: es roller' rule: resolveMatches.induct)
  case (1 sha256 s roller)
  let ?gs = "FindMatchGroups (st_Players s)"
  consider (none) "?gs = []" | (capped) "?gs \<noteq> []" "cf_MatchResolutionLimit (st_Config s) \<le> st_MatchResolutionCount s"
    | (batch) "?gs \<noteq> []" "st_MatchResolutionCount s < cf_MatchResolutionLimit (st_Config s)" by fastforce
  then show ?case
  proof cases
    case none
    with "1.prems" show ?thesis by (simp add: resolveMatches.simps [of _ s])
  next
    case capped
    from resolveMatches_capped [OF capped, of sha256 roller] "1.prems" show ?thesis by auto
  next
    case batch
    from resolveMatches_batch [OF "1.prems" batch] obtain m ms r1 rest where b: "resolve_batch sha256 s roller ?gs = Inr (m, ms, r1)"
      and r: "resolveMatches sha256 m r1 = Inr (t, rest, roller')" by blast
    have "length (st_Players m) = length (st_Players s)"
      using b charge_groups_inner by (auto simp: resolve_batch_def Let_def outcome dest!: rollUsers_length) (metis (no_types, lifting) State.select_convs(6) length_map State.surjective State.update_convs(10,12))
    with "1.IH" [OF refl _ _ b refl refl r] batch show ?thesis by (simp add: not_le)
  qed
qed

lemma lowest_active_mem: "lowest_active w ps = Some p \<Longrightarrow> w = Some p \<or> p \<in> set ps"
  by (induction w ps rule: lowest_active.induct) (auto split: if_splits option.splits)

lemma selectTarget_np: "no_panic (selectTarget s previous now reason)"
proof -
  have i: "playerIndex (st_Players s) u \<noteq> None" if "lowestActiveUser s = Inr u" for u
    using that by (auto simp: lowestActiveUser_def mb.index_None_iff dest: lowest_active_mem split: option.splits)
  have l: "no_panic (lowestActiveUser s)" by (simp add: lowestActiveUser_def split: option.splits)
  have o: "no_panic (case x of None \<Rightarrow> m | Some i \<Rightarrow> f i)" if "x \<noteq> None" "\<And>i. no_panic (f i)"
    for x :: "nat option" and m and f :: "nat \<Rightarrow> (State \<times> Event list) result"
    using that by (cases x) simp_all
  show ?thesis unfolding selectTarget_def Let_def by (intro no_panic_intros o l i) simp_all
qed

lemma startRound_np:
  assumes "length (st_Players s) \<le> 12"
  shows "no_panic (startRound sha256 s roller now initial participants)"
  unfolding startRound_def Let_def
  using assms
  by (intro no_panic_intros rollUsers_np resolveMatches_np selectTarget_np)
    (auto simp: activeUsers_def dest!: rollUsers_length intro: order_trans [OF length_filter_le])

lemma settleAndStart_np: "length (st_Players s) \<le> 12 \<Longrightarrow> no_panic (settleAndStart sha256 s target reason now roller)"
  unfolding settleAndStart_def Let_def by (intro no_panic_intros startRound_np) simp_all

lemma valid_size: "Validate s = Inr u \<Longrightarrow> length (st_Players s) \<le> 12"
  using roster_size [of "st_Config s" "st_HostUserID s" "st_Players s"] valid_iff [of s] by (simp add: valid_def)

lemma target_size: "validateTargetAction s actor now timer = Inr u \<Longrightarrow> length (st_Players s) \<le> 12"
  by (auto simp: validateTargetAction_def outcome valid_size)

lemma mb_np_Stand: "no_panic (Stand sha256 s actor now seed)"
  unfolding Stand_def
  by (intro no_panic_and_then settleAndStart_np) (auto dest: target_size)

lemma mb_np_HandleTimeout: "no_panic (HandleTimeout sha256 s timer now seed)"
  unfolding HandleTimeout_def by (intro no_panic_intros settleAndStart_np) (auto simp: valid_size)

lemma mb_np_Finish: "no_panic (Finish s reason operator)"
  unfolding Finish_def Let_def finishState_def by (intro no_panic_intros) simp_all

lemma mb_np_Revoke: "no_panic (RevokeParticipant sha256 s u now seed)"
proof -
  have o: "no_panic (case x of None \<Rightarrow> ruleError c d | Some i \<Rightarrow> f i)" if "\<And>i. x = Some i \<Longrightarrow> no_panic (f i)"
    for x :: "nat option" and c d and f :: "nat \<Rightarrow> (State \<times> Event list) result"
    using that by (cases x) simp_all
  show ?thesis
    unfolding RevokeParticipant_def Let_def finishState_def
    by (intro no_panic_intros o startRound_np) (auto simp: valid_size)
qed

lemma addPenalty_length: "addPenalty s u a r b = Inr (t, e) \<Longrightarrow> length (st_Players t) = length (st_Players s)"
  using addPenalty_Inr(3) by (metis length_map)

lemma mb_np_Reroll: "no_panic (Reroll sha256 s actor now seed)"
  unfolding Reroll_def Let_def
  by (intro no_panic_intros rollUsers_np resolveMatches_np settleAndStart_np selectTarget_np)
    (auto dest!: target_size addPenalty_length rollUsers_length resolveMatches_users_length)

lemma mb_np_step: "no_panic (mb_step sha256 s c)"
  by (cases c) (simp_all add: mb_np_Stand mb_np_HandleTimeout mb_np_Finish mb_np_Revoke mb_np_Reroll)

section \<open>Rounds start\<close>

text \<open>No penalty is closer than \<open>k\<close> to the largest value of a counter.\<close>

definition headroom :: "nat \<Rightarrow> PlayerState list \<Rightarrow> bool" where
  "headroom k ps \<longleftrightarrow> (\<forall>p \<in> set ps. unat (pl_PenaltyTicks p) + k \<le> 4294967295)"

lemma headroom_mono: "headroom k ps \<Longrightarrow> j \<le> k \<Longrightarrow> headroom j ps"
  by (auto simp: headroom_def)

lemma headroom_cong: "map pl_PenaltyTicks qs = map pl_PenaltyTicks ps \<Longrightarrow> headroom k qs = headroom k ps"
proof -
  assume "map pl_PenaltyTicks qs = map pl_PenaltyTicks ps"
  then have "pl_PenaltyTicks ` set qs = pl_PenaltyTicks ` set ps" by (metis list.set_map)
  moreover have "headroom k rs \<longleftrightarrow> (\<forall>x \<in> pl_PenaltyTicks ` set rs. unat x + k \<le> 4294967295)" for rs by (simp add: headroom_def)
  ultimately show ?thesis by (simp only:)
qed

definition modest :: "Config \<Rightarrow> bool" where
  "modest config \<longleftrightarrow> cf_TargetPenaltyTicks config \<le> 16 \<and> cf_RerollPenaltyTicks config \<le> 16 \<and> cf_MatchPenaltyTicks config \<le> 16 \<and>
     cf_WeakExtraPenaltyTicks config \<le> 16 \<and> cf_MatchResolutionLimit config \<le> 8 \<and> cf_ActionTimeoutSeconds config \<le> 120"

lemma Config_modest: "Config_Validate config n = Inr () \<Longrightarrow> modest config"
  by (auto simp: Config_Validate_def outcome modest_def MaximumPenaltyTicks_def not_less)

lemma addPenalty_ok:
  assumes "mb.active_user (st_Players s) u" and "headroom (k + 16) (st_Players s)" and "amount \<le> 16"
  shows "\<exists>t e. addPenalty s u amount reason batch = Inr (t, e) \<and> headroom k (st_Players t)"
proof -
  from assms(1) obtain i where i: "playerIndex (st_Players s) u = Some i" "pl_Active (st_Players s ! i)"
    by (auto simp: mb.active_user_def split: option.splits)
  have il: "i < length (st_Players s)" using mb.index_SomeD [OF i(1)] by simp
  let ?p = "st_Players s ! i"
  have a: "unat amount \<le> 16" using assms(3) by (simp add: word_le_nat_alt)
  have room: "unat (pl_PenaltyTicks ?p) + (k + 16) \<le> 4294967295" using assms(2) il by (simp add: headroom_def)
  then have "unat (pl_PenaltyTicks ?p) + unat amount \<le> 4294967295" using a by simp
  then obtain raised where r: "Ticks_Add (pl_PenaltyTicks ?p) amount = Inr raised" "unat raised = unat (pl_PenaltyTicks ?p) + unat amount"
    using Ticks_Add_Inr [of "pl_PenaltyTicks ?p" amount "pl_PenaltyTicks ?p + amount"] by (auto simp: unat_word_ariths)
  have "headroom k ((st_Players s)[i := ?p\<lparr>pl_PenaltyTicks := raised\<rparr>])"
    unfolding headroom_def
  proof
    fix q
    assume "q \<in> set ((st_Players s)[i := ?p\<lparr>pl_PenaltyTicks := raised\<rparr>])"
    then have "q = ?p\<lparr>pl_PenaltyTicks := raised\<rparr> \<or> q \<in> set (st_Players s)" by (meson set_update_subset_insert subsetD insertE)
    then show "unat (pl_PenaltyTicks q) + k \<le> 4294967295" using room a r(2) assms(2) by (auto simp: headroom_def)
  qed
  with i r show ?thesis by (simp add: addPenalty_def Let_def)
qed


lemma charge_users_ok:
  assumes "\<forall>u \<in> set us. mb.active_user (st_Players s) u" and "headroom (k + 16 * length us) (st_Players s)" and "modest (st_Config s)"
  shows "\<exists>t es. charge_users s us kind batch = Inr (t, es) \<and> headroom k (st_Players t)"
  using assms
proof (induction us arbitrary: s)
  case (Cons u us)
  have "\<exists>t e. addPenalty s u (cf_MatchPenaltyTicks (st_Config s)) (''match_'' @ kind) batch = Inr (t, e) \<and>
      headroom (k + 16 * length us) (st_Players t)"
    using Cons.prems by (intro addPenalty_ok) (auto simp: modest_def algebra_simps)
  then obtain t e where a: "addPenalty s u (cf_MatchPenaltyTicks (st_Config s)) (''match_'' @ kind) batch = Inr (t, e)"
    and h: "headroom (k + 16 * length us) (st_Players t)" by blast
  note p = addPenalty_Inr [OF a]
  have "st_Config t = st_Config s" by (subst p(1)) simp
  moreover have "\<forall>u \<in> set us. mb.active_user (st_Players t) u" using Cons.prems(1) kept_all_active [OF p(2)] by simp
  ultimately show ?case using Cons.IH [of t] h Cons.prems(3) a by auto
qed simp

lemma FindMatchGroups_weakest:
  assumes "g \<in> set (FindMatchGroups ps)" and "mg_Kind g = MatchLow"
  shows "mg_WeakestUserID g \<in> set (mg_UserIDs g)"
proof -
  have e: "mg_Kind g = MatchExact" if "g \<in> set (exactGroups qs)" for qs
    using that by (induction qs rule: exactGroups.induct) (auto simp: Let_def split: if_splits)
  have t: "0 < length (tie_group qs (tie_keys qs ! 0))" if "tie_keys qs \<noteq> []" for qs
    using iffD1 [OF tie_keys_members nth_mem [of 0 "tie_keys qs"]] that by (metis gr_implies_not0 length_greater_0_conv neq0_conv)
  from assms show ?thesis using e [of "activeHandPlayers ps"] t [of "activeHandPlayers ps"]
    by (auto simp: FindMatchGroups_def Let_def simp del: set_stableUsers split: if_splits intro!: nth_mem)
qed

abbreviation group_cost :: "MatchGroup list \<Rightarrow> nat" where
  "group_cost gs \<equiv> sum_list (map (\<lambda>g. length (mg_UserIDs g) + 1) gs)"

lemma group_cost_le:
  assumes "groups_ok users gs" and "finite users" and "card users \<le> 12"
  shows "group_cost gs \<le> 18"
proof -
  have "card (set (concat (map mg_UserIDs gs))) = length (concat (map mg_UserIDs gs))"
    using assms(1) by (intro distinct_card) (simp add: groups_ok_def)
  moreover have "card (set (concat (map mg_UserIDs gs))) \<le> card users"
    using assms(1,2) by (intro card_mono) (auto simp: groups_ok_def)
  ultimately have len: "sum_list (map (\<lambda>g. length (mg_UserIDs g)) gs) \<le> 12" using assms(3) by (simp add: length_concat comp_def)
  have two: "\<forall>g \<in> set gs. 2 \<le> length (mg_UserIDs g)" using assms(1) by (simp add: groups_ok_def)
  then have "2 * group_cost gs \<le> 3 * sum_list (map (\<lambda>g. length (mg_UserIDs g)) gs)"
    by (induction gs) auto
  with len show ?thesis by linarith
qed

lemma charge_groups_ok:
  assumes "\<forall>g \<in> set gs. \<forall>u \<in> set (mg_UserIDs g). mb.active_user (st_Players s) u"
    and "\<forall>g \<in> set gs. mg_Kind g = MatchLow \<longrightarrow> mg_WeakestUserID g \<in> set (mg_UserIDs g)"
    and "headroom (k + 16 * group_cost gs) (st_Players s)" and "modest (st_Config s)"
  shows "\<exists>t es. charge_groups s gs batch = Inr (t, es) \<and> headroom k (st_Players t)"
  using assms
proof (induction gs arbitrary: s)
  case (Cons g gs)
  have "\<exists>t es. charge_users s (mg_UserIDs g) (mg_Kind g) batch = Inr (t, es) \<and> headroom (k + 16 * group_cost gs + 16) (st_Players t)"
    using Cons.prems by (intro charge_users_ok) (auto simp: algebra_simps)
  then obtain t es where a: "charge_users s (mg_UserIDs g) (mg_Kind g) batch = Inr (t, es)"
    and h: "headroom (k + 16 * group_cost gs + 16) (st_Players t)" by blast
  note c = charge_users_inner [OF a]
  then have ct: "st_Config t = st_Config s" and kt: "kept_all (st_Players s) (st_Players t)"
    using inner_step_config [of s es t] by (auto simp: inner_step_def)
  let ?x = "if mg_Kind g = MatchLow \<and> mg_WeakestUserID g \<noteq> []
        then and_then (addPenalty t (mg_WeakestUserID g) (cf_WeakExtraPenaltyTicks (st_Config t))
          ''match_low_extra'' batch) (\<lambda>(state, penalty). Inr (state, [penalty]))
        else Inr (t, [])"
  have "\<exists>n xs. ?x = Inr (n, xs) \<and> headroom (k + 16 * group_cost gs) (st_Players n) \<and> st_Config n = st_Config t \<and>
      kept_all (st_Players t) (st_Players n)"
  proof (cases "mg_Kind g = MatchLow \<and> mg_WeakestUserID g \<noteq> []")
    case True
    have "mb.active_user (st_Players t) (mg_WeakestUserID g)"
      using True Cons.prems(1,2) kept_all_active [OF kt] by simp
    from addPenalty_ok [OF this h, of "cf_WeakExtraPenaltyTicks (st_Config t)" "''match_low_extra''" batch] Cons.prems(4) ct obtain n e where
      n: "addPenalty t (mg_WeakestUserID g) (cf_WeakExtraPenaltyTicks (st_Config t)) ''match_low_extra'' batch = Inr (n, e)"
      "headroom (k + 16 * group_cost gs) (st_Players n)" by (auto simp: modest_def)
    note p = addPenalty_Inr [OF n(1)]
    have "st_Config n = st_Config t" by (subst p(1)) simp
    with True n p(2) show ?thesis by simp
  next
    case False
    then show ?thesis using headroom_mono [OF h] by auto
  qed
  then obtain n xs where x: "?x = Inr (n, xs)" and n: "headroom (k + 16 * group_cost gs) (st_Players n)"
    "st_Config n = st_Config t" "kept_all (st_Players t) (st_Players n)" by blast
  have "\<forall>g \<in> set gs. \<forall>u \<in> set (mg_UserIDs g). mb.active_user (st_Players n) u"
    using Cons.prems(1) kept_all_active [OF kept_all_trans [OF kt n(3)]] by simp
  with Cons.IH [of n] Cons.prems(2,4) n ct obtain r fs where "charge_groups n gs batch = Inr (r, fs)" "headroom k (st_Players r)" by auto
  then show ?case using a x by simp
qed simp


lemma assign_hands_ok:
  assumes "\<forall>u \<in> set us. mb.active_user ps u" and "length fs = 3 * length us" and "list_all Face_Valid fs"
  shows "\<exists>qs. assign_hands config ps us fs = Inr qs"
  using assms
proof (induction us arbitrary: ps fs)
  case (Cons u us)
  then obtain a b c rest where fs: "fs = a # b # c # rest" by (cases fs; cases "tl fs"; cases "tl (tl fs)") auto
  from Cons.prems(1) obtain i where i: "playerIndex ps u = Some i" "pl_Active (ps ! i)"
    by (auto simp: mb.active_user_def split: option.splits)
  have il: "i < length ps" using mb.index_SomeD [OF i(1)] by simp
  obtain hand where h: "Classify [a, b, c] config = Inr hand" using Classify_total [of "[a, b, c]" config] Cons.prems(3) fs
    by (auto simp: faces_ok_def)
  have "\<forall>v \<in> set us. mb.active_user (ps[i := (ps ! i)\<lparr>pl_Hand := hand\<rparr>]) v"
    using Cons.prems(1) mb.active_user_update [OF il] by simp
  with Cons.IH [of "ps[i := (ps ! i)\<lparr>pl_Hand := hand\<rparr>]" rest] Cons.prems(2,3) fs i h show ?case by simp
qed simp

lemma players_at_total: "set us \<subseteq> pl_UserID ` set ps \<Longrightarrow> \<exists>qs. players_at ps us = Inr qs"
proof (induction us)
  case (Cons u us)
  then obtain i qs where "playerIndex ps u = Some i" "players_at ps us = Inr qs" using mb.index_Some_iff [of ps u] by auto
  then show ?case by simp
qed simp

lemma rollUsers_ok:
  assumes hits: "digest_hits sha256" and seed: "\<not> isZeroSeed (rl_seed roller)"
    and us: "us \<noteq> []" "length us \<le> 12" "\<forall>u \<in> set us. mb.active_user (st_Players s) u"
  shows "\<exists>t es r. rollUsers sha256 s roller us batch reason = Inr (t, es, r) \<and> rl_seed r = rl_seed roller"
proof -
  let ?ps = "map (\<lambda>p. p\<lparr>pl_Included := pl_Active p\<rparr>) (st_Players s)"
  let ?n = "of_nat (length us) * DicePerPlayer :: u32"
  have n: "unat ?n = length us * 3" using us(2) by (simp add: DicePerPlayer_def unat_word_ariths unat_of_nat)
  have "?n \<noteq> 0" "?n \<le> MaxDicePerRoll" using n us(1,2) by (auto simp: word_unat_eq_iff word_le_nat_alt MaxDicePerRoll_def)
  then obtain fs where fs: "Roll sha256 (rl_seed roller) (rl_stream roller + 1) ?n = Inr fs" using Roll_hits [OF hits seed] by blast
  let ?r = "roller\<lparr>rl_stream := rl_stream roller + 1\<rparr>"
  have rr: "roller_roll sha256 roller ?n = Inr (fs, ?r)" using fs by (simp add: roller_roll_def Let_def)
  have idx: "playerIndex ?ps v = playerIndex (st_Players s) v" for v by (rule mb.index_cong) simp
  have "\<forall>u \<in> set us. mb.active_user ?ps u"
    using us(3) mb.index_SomeD [of "st_Players s"] by (fastforce simp: mb.active_user_def idx split: option.splits)
  with assign_hands_ok [of us ?ps fs "st_Config s"] Roll_length [OF fs] Roll_faces_valid [OF fs] n obtain qs
    where a: "assign_hands (st_Config s) ?ps us fs = Inr qs" by auto
  have "no_panic (rollUsers sha256 s roller us batch reason)" using us(2) by (intro rollUsers_np) simp
  then have "no_panic (players_at (resolvePlayer235 qs) us)"
    using us(1) rr a by (simp add: rollUsers_def Let_def and_then_eq_Inl no_panic_def)
  moreover have "players_at ps us = Inl e \<Longrightarrow> e = Panic" for ps e
    by (induction us) (auto simp: and_then_eq_Inl split: option.splits)
  ultimately obtain rs where "players_at (resolvePlayer235 qs) us = Inr rs"
    by (cases "players_at (resolvePlayer235 qs) us") (auto simp: no_panic_def)
  then show ?thesis using us(1) rr a by (simp add: rollUsers_def Let_def)
qed

lemma resolveMatches_ok:
  assumes "digest_hits sha256" and "\<not> isZeroSeed (rl_seed roller)"
    and "good_table (st_Config s) (st_Players s)" and "distinct (map pl_UserID (st_Players s))" and "length (st_Players s) \<le> 12"
    and "modest (st_Config s)"
    and "headroom (k + 288 * (unat (cf_MatchResolutionLimit (st_Config s)) - unat (st_MatchResolutionCount s))) (st_Players s)"
  shows "\<exists>t es r. resolveMatches sha256 s roller = Inr (t, es, r) \<and> headroom k (st_Players t) \<and> rl_seed r = rl_seed roller"
  using assms
proof (induction sha256 s roller rule: resolveMatches.induct)
  case (1 sha256 s roller)
  let ?gs = "FindMatchGroups (st_Players s)"
  let ?left = "unat (cf_MatchResolutionLimit (st_Config s)) - unat (st_MatchResolutionCount s)"
  note users = "1.prems"(4)
  consider (none) "?gs = []" | (capped) "?gs \<noteq> []" "cf_MatchResolutionLimit (st_Config s) \<le> st_MatchResolutionCount s"
    | (batch) "?gs \<noteq> []" "st_MatchResolutionCount s < cf_MatchResolutionLimit (st_Config s)" by fastforce
  then show ?case
  proof cases
    case none
    with headroom_mono [OF "1.prems"(7)] show ?thesis by (simp add: resolveMatches.simps [of _ s])
  next
    case capped
    from resolveMatches_capped [OF capped, of sha256 roller] headroom_mono [OF "1.prems"(7), of k] show ?thesis by auto
  next
    case batch
    let ?act = "pl_UserID ` {p \<in> set (st_Players s). pl_Active p}"
    have ok: "groups_ok ?act ?gs" by (rule FindMatchGroups_ok [OF users])
    have "card ?act \<le> length (st_Players s)"
      by (metis (no_types, lifting) mb.active_users_card [OF users] mb.count_le)
    then have cost: "group_cost ?gs \<le> 18" using "1.prems"(5) by (intro group_cost_le [OF ok]) auto
    define n where "n = s\<lparr>st_MatchResolutionCount := st_MatchResolutionCount s + 1, st_MatchHistory := st_MatchHistory s @
      [\<lparr>mr_Batch = st_MatchResolutionCount s + 1, mr_Groups = ?gs, mr_Capped = False\<rparr>]\<rparr>"
    have act: "mb.active_user (st_Players s) u" if "g \<in> set ?gs" "u \<in> set (mg_UserIDs g)" for g u
      using ok that unfolding mb.active_user_iff [OF users] groups_ok_def by auto
    have left: "1 \<le> ?left" using batch(2) by (simp add: word_less_nat_alt)
    have "\<exists>m ps. charge_groups n ?gs (st_MatchResolutionCount s + 1) = Inr (m, ps) \<and> headroom (k + 288 * (?left - 1)) (st_Players m)"
      using act FindMatchGroups_weakest [of _ "st_Players s"] cost left "1.prems"(6) headroom_mono [OF "1.prems"(7), of "k + 288 * (?left - 1) + 16 * group_cost ?gs"]
      by (intro charge_groups_ok) (auto simp: n_def algebra_simps)
    then obtain m ps where c: "charge_groups n ?gs (st_MatchResolutionCount s + 1) = Inr (m, ps)"
      and hm: "headroom (k + 288 * (?left - 1)) (st_Players m)" by blast
    note ci = charge_groups_inner [OF c]
    have km: "kept_all (st_Players s) (st_Players m)" and cm: "st_Config m = st_Config s"
      using ci inner_step_config [of n ps m] by (auto simp: inner_step_def n_def)
    have um: "distinct (map pl_UserID (st_Players m))" using users kept_all_maps(1) [OF km] by simp
    have lm: "length (st_Players m) = length (st_Players s)" by (rule kept_all_maps(4) [OF km])
    let ?us = "stableUsersFromSet (st_Players m) (set (concat (map mg_UserIDs ?gs)))"
    have sub: "set ?us = set (concat (map mg_UserIDs ?gs))"
    proof -
      have "set (concat (map mg_UserIDs ?gs)) \<subseteq> pl_UserID ` set (st_Players s)" using ok by (auto simp: groups_ok_def)
      also have "\<dots> = pl_UserID ` set (st_Players m)" using kept_all_maps(1) [OF km] by (metis list.set_map)
      finally show ?thesis unfolding stableUsersFromSet_def set_map set_filter by blast
    qed
    obtain g where g: "g \<in> set ?gs" using batch(1) by (cases ?gs) auto
    then have "mg_UserIDs g \<noteq> []" using ok by (auto simp: groups_ok_def)
    then have ne: "?us \<noteq> []" using g sub by (metis (no_types, lifting) concat_eq_Nil_conv image_eqI list.set_map set_empty)
    have lus: "length ?us \<le> 12" using "1.prems"(5) lm by (metis (no_types, lifting) stableUsersFromSet_def length_map length_filter_le order_trans)
    have aus: "\<forall>u \<in> set ?us. mb.active_user (st_Players m) u" unfolding sub kept_all_active [OF km] using act by auto
    from rollUsers_ok [OF "1.prems"(1,2) ne lus aus, of "st_MatchResolutionCount s + 1" "''match_reroll''"] obtain q rs r1 where
      r: "rollUsers sha256 m roller ?us (st_MatchResolutionCount s + 1) ''match_reroll'' = Inr (q, rs, r1)" "rl_seed r1 = rl_seed roller" by blast
    obtain ms where b: "resolve_batch sha256 s roller ?gs = Inr (q, ms, r1)"
      using c r(1) by (auto simp: resolve_batch_def Let_def n_def)
    note i = resolve_batch_inner [OF b "1.prems"(3) users]
    have gm: "good_table (st_Config m) (st_Players m)" using good_table_cong [OF seen_of_table, of "st_Players m" "st_Players n"] ci "1.prems"(3)
      by (simp add: cm n_def)
    have "\<forall>p \<in> set (st_Players m). pl_Active p \<longrightarrow> hand_good (st_Config m) (pl_Hand p) \<or> pl_UserID p \<in> set ?us"
      using gm by (auto simp: good_table_def)
    note rl = rollUsers_Inr [OF r(1) this um]
    have hq: "headroom (k + 288 * (?left - 1)) (st_Players q)" using hm headroom_cong [OF rl(5)] by simp
    have cnt: "st_MatchResolutionCount q = st_MatchResolutionCount s + 1" "st_Config q = st_Config s" using resolve_batch_counters [OF b] by auto
    have "unat (st_MatchResolutionCount q) = Suc (unat (st_MatchResolutionCount s))"
      using cnt unat_plus_1_u32 [OF less_not_MaxUint32 [OF batch(2)]] by simp
    then have hq': "headroom (k + 288 * (unat (cf_MatchResolutionLimit (st_Config q)) - unat (st_MatchResolutionCount q))) (st_Players q)"
      using hq cnt(2) by (simp add: diff_Suc_eq_diff_pred [symmetric] diff_diff_left)
    have "\<exists>t es r. resolveMatches sha256 q r1 = Inr (t, es, r) \<and> headroom k (st_Players t) \<and> rl_seed r = rl_seed r1"
      using "1.IH" [OF refl _ _ b refl refl "1.prems"(1) _ i(2) _ _ _ hq'] "1.prems"(2,4,5,6) batch r(2) cnt(2) inner_step_users [OF i(1)]
        rl(2) km kept_all_maps(4) lm by (simp add: not_le)
    then obtain t es r2 where "resolveMatches sha256 q r1 = Inr (t, es, r2)" "headroom k (st_Players t)" "rl_seed r2 = rl_seed roller"
      using r(2) by auto
    then show ?thesis using batch b by (subst resolveMatches.simps) (auto simp: Let_def not_le)
  qed
qed


lemma selectTarget_ok:
  assumes "distinct (map pl_UserID (st_Players s))" and "good_table (st_Config s) (st_Players s)"
    and "0 < activeCount (st_Players s)" and "modest (st_Config s)" and "headroom 16 (st_Players s)"
    and "0 < now" and "now \<le> MaxInt64 - 120000"
  shows "\<exists>t es. selectTarget s previous now reason = Inr (t, es)"
proof -
  let ?ps = "st_Players s"
  obtain p where p: "lowest_active None ?ps = Some p"
    using lowest_active_weakest(2) [OF good_table_keyed [OF assms(2)]] assms(3) by fastforce
  from lowest_active_weakest(1) [OF good_table_keyed [OF assms(2)] p] have w: "weakest_in ?ps p" .
  from weakest_in_mem [OF w] obtain i where i: "i < length ?ps" "?ps ! i = p" "pl_Active p" by (auto simp: in_set_conv_nth)
  have idx: "playerIndex ?ps (pl_UserID p) = Some i" using mb.index_nth [OF assms(1) i(1)] i(2) by simp
  have "uint (cf_ActionTimeoutSeconds (st_Config s)) \<le> 120" using assms(4) by (simp add: modest_def word_le_def)
  then have "\<not> MaxInt64 - uint (cf_ActionTimeoutSeconds (st_Config s)) * 1000 < now" using assms(7) by simp
  then have "\<exists>d. deadlineUnixMillis now (cf_ActionTimeoutSeconds (st_Config s)) = Inr d"
    using assms(6) by (simp add: deadlineUnixMillis_def validUnixMillis_def Let_def)
  then obtain d where d: "deadlineUnixMillis now (cf_ActionTimeoutSeconds (st_Config s)) = Inr d" ..
  define n where "n = s\<lparr>st_Phase := PhaseTargetDecision, st_TargetUserID := pl_UserID p,
    st_Players := ?ps[i := p\<lparr>pl_TargetedThisRound := True\<rparr>],
    st_TargetStreak := (if previous \<noteq> pl_UserID p then 0 else st_TargetStreak s), st_ActionDeadlineUnixMillis := d\<rparr>"
  have "mb.active_user (st_Players n) (pl_UserID p)"
    using i idx by (simp add: mb.active_user_def n_def mb.index_update)
  moreover have "headroom (0 + 16) (st_Players n)"
    using assms(5) headroom_cong [of "st_Players n" ?ps 16] i by (simp add: n_def map_update_eq)
  ultimately have "\<exists>t e. addPenalty n (pl_UserID p) (cf_TargetPenaltyTicks (st_Config s)) ''target_selected'' 0 = Inr (t, e) \<and>
      headroom 0 (st_Players t)"
    using assms(4) by (intro addPenalty_ok) (auto simp: modest_def)
  then obtain t e where "addPenalty n (pl_UserID p) (cf_TargetPenaltyTicks (st_Config s)) ''target_selected'' 0 = Inr (t, e)" by blast
  then show ?thesis using p idx d i(2) by (auto simp: selectTarget_def lowestActiveUser_def Let_def n_def)
qed

text \<open>Eight batches of at most eighteen charges each, and the charge of the target.\<close>

lemma startRound_ok:
  assumes hits: "digest_hits sha256" and seed: "\<not> isZeroSeed (rl_seed roller)"
    and users: "distinct (map pl_UserID (st_Players s))" and few: "length (st_Players s) \<le> 12" and act: "0 < activeCount (st_Players s)"
    and cfg: "modest (st_Config s)" and room: "headroom 2320 (st_Players s)" and now: "0 < now" "now \<le> MaxInt64 - 120000"
  shows "\<exists>t es. startRound sha256 s roller now initial participants = Inr (t, es)"
proof -
  define n where "n = s\<lparr>st_Phase := PhaseRolling, st_TargetUserID := [], st_TargetRerollCount := 0, st_TargetStreak := 0,
            st_MatchResolutionCount := 0, st_ActionDeadlineUnixMillis := 0, st_MatchHistory := [],
            st_Players := map (\<lambda>player. player\<lparr>pl_TargetedThisRound := False, pl_Included := pl_Active player\<rparr>)
              (st_Players s)\<rparr>"
  have kn: "kept_all (st_Players s) (st_Players n)" by (auto simp: n_def list_all2_conv_all_nth kept_def)
  have un: "distinct (map pl_UserID (st_Players n))" using users kept_all_maps(1) [OF kn] by simp
  let ?us = "activeUsers (st_Players n)"
  have "0 < activeCount (st_Players n)" using act kept_all_count [OF kn] by simp
  then have ne: "?us \<noteq> []" by (simp add: activeUsers_def mb.count_filter)
  have lu: "length ?us \<le> 12" using few length_filter_le [of pl_Active "st_Players n"] kept_all_maps(4) [OF kn] by (simp add: activeUsers_def)
  have au: "\<forall>u \<in> set ?us. mb.active_user (st_Players n) u" unfolding mb.active_user_iff [OF un] by (auto simp: activeUsers_def)
  from rollUsers_ok [OF hits seed ne lu au, of 0 "''round_started''"] obtain m ms r1 where
    roll: "rollUsers sha256 n roller ?us 0 ''round_started'' = Inr (m, ms, r1)" and s1: "rl_seed r1 = rl_seed roller" by blast
  have "\<forall>p \<in> set (st_Players n). pl_Active p \<longrightarrow> hand_good (st_Config n) (pl_Hand p) \<or> pl_UserID p \<in> set ?us"
    by (auto simp: activeUsers_def)
  note r = rollUsers_Inr [OF roll this un]
  have m: "st_Config m = st_Config s" "st_MatchResolutionCount m = 0" by (subst r(1), simp add: n_def)+
  have km: "kept_all (st_Players s) (st_Players m)" by (rule kept_all_trans [OF kn r(2)])
  have um: "distinct (map pl_UserID (st_Players m))" using users kept_all_maps(1) [OF km] by simp
  have gm: "good_table (st_Config m) (st_Players m)" using r(3) m by (simp add: n_def)
  have "map pl_PenaltyTicks (st_Players m) = map pl_PenaltyTicks (st_Players s)" using r(5) by (simp add: n_def comp_def)
  then have hm: "headroom 2320 (st_Players m)" using room headroom_cong by blast
  have "unat (cf_MatchResolutionLimit (st_Config m)) \<le> 8" using cfg m by (simp add: modest_def word_le_nat_alt)
  then have "headroom (16 + 288 * (unat (cf_MatchResolutionLimit (st_Config m)) - unat (st_MatchResolutionCount m))) (st_Players m)"
    by (intro headroom_mono [OF hm]) simp
  with resolveMatches_ok [OF hits _ gm um, of r1 16] few kept_all_maps(4) [OF km] cfg m s1 seed obtain q qs r2 where
    res: "resolveMatches sha256 m r1 = Inr (q, qs, r2)" and hq: "headroom 16 (st_Players q)" by auto
  have rq: "resolved m qs q" by (rule resolveMatches_resolved [OF res gm um])
  then have iq: "inner_step m qs q" and gq: "good_table (st_Config q) (st_Players q)" by (simp_all add: resolved_def)
  have kq: "kept_all (st_Players m) (st_Players q)" using iq by (simp add: inner_step_def)
  have "\<exists>t es. selectTarget q [] now ''initial_target'' = Inr (t, es)"
    using um inner_step_users [OF iq] gq act kept_all_count [OF km] kept_all_count [OF kq] cfg m inner_step_config [OF iq] hq now
    by (intro selectTarget_ok) auto
  then obtain t fs where "selectTarget q [] now ''initial_target'' = Inr (t, fs)" by blast
  then show ?thesis unfolding startRound_def Let_def using roll res by (simp add: n_def)
qed

lemma HandleTimeout_ok:
  assumes hits: "digest_hits sha256" and seed: "\<not> isZeroSeed seed" and v: "valid s" and t: "CurrentTimer s = Some timer"
    and due: "tm_DeadlineUnixMillis timer \<le> now" and now: "now \<le> MaxInt64 - 120000"
    and round: "st_Round s \<noteq> MaxUint32" and room: "headroom 2320 (st_Players s)"
  shows "\<exists>t es. HandleTimeout sha256 s timer now seed = Inr (t, es)"
proof -
  from t have ph: "st_Phase s = PhaseTargetDecision" and dl: "st_ActionDeadlineUnixMillis s \<noteq> 0"
    and tm: "tm_Round timer = st_Round s" "tm_TargetUserID timer = st_TargetUserID s" "tm_TargetRerollCount timer = st_TargetRerollCount s"
      "tm_TargetStreak timer = st_TargetStreak s" "tm_MatchResolutionCount timer = st_MatchResolutionCount s"
      "tm_DeadlineUnixMillis timer = st_ActionDeadlineUnixMillis s"
    by (auto simp: CurrentTimer_def split: if_splits)
  have ros: "roster_ok (st_Config s) (st_HostUserID s) (st_Players s)" "ending_ok s" using v by (simp_all add: valid_iff)
  then have act: "3 \<le> activeCount (st_Players s)" and pos: "0 < st_ActionDeadlineUnixMillis s"
    using ph dl by (auto simp: ending_ok_def deadline_ok_def split: if_splits)
  have cfg: "modest (st_Config s)" using ros(1) Config_modest by (auto simp: roster_ok_def)
  have "\<exists>t es. startRound sha256 (s\<lparr>st_LastSettlement := l, st_RoundHistory := h, st_Round := st_Round s + 1\<rparr>)
      \<lparr>rl_seed = seed, rl_stream = 0\<rparr> now False [] = Inr (t, es)" for l h
    using hits seed roster_users [OF ros(1)] roster_size [OF ros(1)] act cfg room pos due tm(6) now by (intro startRound_ok) auto
  then have "\<exists>t es. settleAndStart sha256 s (st_TargetUserID s) ''timeout_stand'' now \<lparr>rl_seed = seed, rl_stream = 0\<rparr> = Inr (t, es)"
    using round unfolding settleAndStart_def Let_def by (simp only: and_then_eq_Inr split_paired_Ex if_False) fastforce
  then show ?thesis using v ph tm dl pos due by (simp add: HandleTimeout_def valid_def validUnixMillis_def)
qed

end
