(* ===== verification/MeetSession.thy ===== *)
theory MeetSession
  imports MeetLive
begin

text \<open>
  Sessions of meet by chance: the first state, the engine as an instance of the session interface, and the target over a whole
  session.
\<close>

section \<open>The first state\<close>

lemma mb_validate_participants_iff:
  "validate_participants us ss ps = Inr () \<longleftrightarrow>
     (\<forall>p \<in> set ps. identifier_ok (pt_UserID p) \<and> pt_UserID p \<notin> us \<and> pt_SeatIndex p \<notin> ss) \<and>
     distinct (map pt_UserID ps) \<and> distinct (map pt_SeatIndex ps)"
  by (induction ps arbitrary: us ss) (auto split: if_splits, (metis image_eqI)+)

lemma canonical_Inr:
  assumes "canonicalParticipants ps = Inr cs"
  shows "cs = sort_key pt_SeatIndex ps" and "ValidateParticipants cs = Inr ()" and "sorted_wrt (<) (map pt_SeatIndex cs)"
proof -
  show cs: "cs = sort_key pt_SeatIndex ps" using assms by (auto simp: canonicalParticipants_def outcome)
  have v: "validate_participants {} {} ps = Inr ()" "3 \<le> length ps" "length ps \<le> 12"
    using assms by (auto simp: canonicalParticipants_def outcome ValidateParticipants_def MinimumPlayers_def MaximumPlayers_def)
  have d: "distinct (map pt_UserID cs)" "distinct (map pt_SeatIndex cs)"
    using v(1) by (auto simp: mb_validate_participants_iff cs distinct_map)
  then show "ValidateParticipants cs = Inr ()"
    using v by (auto simp: ValidateParticipants_def MinimumPlayers_def MaximumPlayers_def mb_validate_participants_iff cs)
  show "sorted_wrt (<) (map pt_SeatIndex cs)" using d(2) by (auto simp: cs strict_sorted_iff)
qed

lemma NewState_started:
  assumes "NewState sha256 config ps host now seed = Inr (t, es)"
  shows "valid t" and "st_Config t = config" and "typed (st_Players t)"
    and "ids_of (st_Players t) = map (\<lambda>p. (pt_UserID p, pt_SeatIndex p)) (sort_key pt_SeatIndex ps)"
    and "penalty_of t u = sum_list (map (charge u) es)" and "st_Round t = 1" and "decided t"
proof -
  from assms obtain cs where c: "canonicalParticipants ps = Inr cs" and v: "Config_Validate config (length cs) = Inr ()"
    and h: "\<exists>p \<in> set cs. pt_UserID p = host" by (auto simp: NewState_def outcome list_ex_iff)
  define s where "s = \<lparr>st_SchemaVersion = CurrentSchemaVersion, st_Phase = PhaseRolling, st_Round = 1, st_HostUserID = host,
           st_Config = config,
           st_Players = map (\<lambda>participant. \<lparr>pl_UserID = pt_UserID participant, pl_SeatIndex = pt_SeatIndex participant,
             pl_Active = True, pl_Included = False, pl_TargetedThisRound = False, pl_PenaltyTicks = 0,
             pl_Hand = zero_hand\<rparr>) cs,
           st_TargetUserID = [], st_TargetRerollCount = 0, st_TargetStreak = 0, st_MatchResolutionCount = 0,
           st_ActionDeadlineUnixMillis = 0, st_MatchHistory = [], st_LastSettlement = empty_settlement,
           st_RoundHistory = [], st_FinishReason = []\<rparr>"
  note cs = canonical_Inr [OF c]
  have start: "startRound sha256 s \<lparr>rl_seed = seed, rl_stream = 0\<rparr> now True cs = Inr (t, es)"
    using assms c by (simp add: NewState_def outcome s_def)
  have pp: "map player_participant (st_Players s) = cs" by (auto simp: s_def player_participant_def intro!: map_idI)
  have act: "activeCount (st_Players s) = length cs" by (simp add: s_def mb.count_filter comp_def)
  have "3 \<le> length cs" using cs(2) by (auto simp: ValidateParticipants_def outcome MinimumPlayers_def)
  then have ss: "startable s"
    using v h cs pp act
    by (auto simp: startable_def roster_ok_def rounds_ok_def no_settlement_def empty_settlement_def s_def comp_def)
  have st: "started s es t" by (rule startRound_started [OF start startable_users [OF ss]])
  note sv = started_valid [OF ss st]
  show "valid t" "st_Round t = 1" using sv by (simp_all add: s_def)
  show "st_Config t = config" "typed (st_Players t)" using sv(2) by (simp_all add: moved_def s_def)
  show "ids_of (st_Players t) = map (\<lambda>p. (pt_UserID p, pt_SeatIndex p)) (sort_key pt_SeatIndex ps)"
    using sv(2) by (simp add: moved_def s_def ids_of_def comp_def cs(1))
  have zero: "penalty_of s u = 0" by (auto simp: penalty_of_def s_def split: option.splits dest!: mb.index_SomeD)
  then show "penalty_of t u = sum_list (map (charge u) es)" using sv(2) by (simp add: moved_def ledger_def)
  show "decided t" using st by (simp add: started_def)
qed

section \<open>Sessions\<close>

lemma mb_step_valid:
  assumes "mb_step sha256 s c = Inr (t, es)"
  shows "valid s" and "st_Phase s \<noteq> PhaseFinished"
proof -
  have "valid s \<and> st_Phase s \<noteq> PhaseFinished"
  proof (cases c)
    case (DoReroll actor now seed)
    with assms have "Reroll sha256 s actor now seed = Inr (t, es)" by simp
    then show ?thesis by (cases rule: Reroll_Inr) (auto dest: validateTargetAction_Inr(1,2))
  qed (use assms in \<open>auto simp: Stand_def HandleTimeout_def RevokeParticipant_def Finish_def outcome valid_def validateTargetAction_def
      split: option.splits\<close>)
  then show "valid s" and "st_Phase s \<noteq> PhaseFinished" by simp_all
qed

text \<open>A session keeps the configuration, the roster and the ledger; with at most one reroll per round it also stays valid.\<close>

definition recorded :: "Config \<Rightarrow> (string \<times> u32) list \<Rightarrow> State \<Rightarrow> bool" where
  "recorded config seats s \<longleftrightarrow> typed (st_Players s) \<and> st_Config s = config \<and> ids_of (st_Players s) = seats"

interpretation mbr: session_engine "mb_step sha256" "recorded config seats"
  "\<lambda>s. st_Phase s = PhaseFinished" "\<lambda>s. unat (st_Round s)" "\<lambda>_. True" for sha256 config seats
proof unfold_locales
  fix s c t es
  assume "recorded config seats s" "mb_step sha256 s c = Inr (t, es)"
  with mb_step_moved(1) [of sha256 s c t es] show "recorded config seats t" by (simp add: recorded_def moved_def)
next
  fix s :: State and c
  assume "st_Phase s = PhaseFinished"
  with mb_step_valid(2) [of sha256 s c] show "\<exists>e. mb_step sha256 s c = Inl e" by (cases "mb_step sha256 s c") auto
next
  fix s c t es
  assume "recorded config seats s" "mb_step sha256 s c = Inr (t, es)"
  with mb_step_moved(1) [of sha256 s c t es] show "unat (st_Round s) \<le> unat (st_Round t)"
    by (simp add: recorded_def moved_def word_le_nat_alt)
qed

lemma session_ledger:
  assumes "recorded config seats s" and "run_session (mb_step sha256) s cs = (t, es)"
  shows "ledger s es t"
  using assms
proof (induction cs arbitrary: s es)
  case (Cons c cs)
  show ?case
  proof (cases "mb_step sha256 s c")
    case (Inl e)
    with Cons show ?thesis by auto
  next
    case (Inr r)
    obtain m ms where r: "r = (m, ms)" by (cases r)
    obtain u fs where u: "run_session (mb_step sha256) m cs = (u, fs)" by fastforce
    from Cons.prems Inr r u have t: "t = u" "es = ms @ fs" by auto
    have "moved s ms m" using mb_step_moved(1) [of sha256 s c m ms] Cons.prems(1) Inr r by (simp add: recorded_def)
    moreover have "ledger m fs t" using Cons.IH [of m fs] mbr.step_inv [of config seats s, OF Cons.prems(1)] Inr r u t by auto
    ultimately show ?thesis unfolding t(2) by (auto simp: moved_def intro: ledger_append)
  qed
qed simp

lemma single_reroll_valid:
  assumes "mb_step sha256 s c = Inr (t, es)" and "typed (st_Players s)" and "cf_TargetRerollLimit (st_Config s) \<le> 1"
  shows "valid t"
proof (cases c)
  case (DoReroll actor now seed)
  with Reroll_step [of sha256 s actor now seed t es] assms mb_step_valid(1) [OF assms(1)] show ?thesis
    by (auto simp: valid_iff word_le_nat_alt word_less_nat_alt unat_word_ariths)
qed (use assms Stand_step HandleTimeout_step RevokeParticipant_step Finish_step in fastforce)+

interpretation mbs: session_engine "mb_step sha256"
  "\<lambda>s. recorded config seats s \<and> valid s \<and> cf_TargetRerollLimit config \<le> 1"
  "\<lambda>s. st_Phase s = PhaseFinished" "\<lambda>s. unat (st_Round s)" "\<lambda>_. True" for sha256 config seats
proof unfold_locales
  fix s c t es
  assume "recorded config seats s \<and> valid s \<and> cf_TargetRerollLimit config \<le> 1" and st: "mb_step sha256 s c = Inr (t, es)"
  with mbr.step_inv [of config seats s sha256 c t es] single_reroll_valid [OF st]
  show "recorded config seats t \<and> valid t \<and> cf_TargetRerollLimit config \<le> 1" by (simp add: recorded_def)
qed (use mbr.step_finished mbr.step_clock in blast)+

section \<open>The target\<close>

definition weak_target :: "State \<Rightarrow> bool" where
  "weak_target s \<longleftrightarrow> (st_Phase s = PhaseTargetDecision \<longrightarrow>
     (\<exists>p. weakest_in (st_Players s) p \<and> pl_UserID p = st_TargetUserID s))"

lemma decided_weak: "decided s \<Longrightarrow> weak_target s"
  by (simp add: decided_def weak_target_def)

lemma startRound_weak:
  "startRound sha256 s roller now initial participants = Inr (t, es) \<Longrightarrow> distinct (map pl_UserID (st_Players s)) \<Longrightarrow> weak_target t"
  using startRound_started decided_weak by (fastforce simp: started_def)

lemma settleAndStart_weak:
  "settleAndStart sha256 s target reason now roller = Inr (t, es) \<Longrightarrow> distinct (map pl_UserID (st_Players s)) \<Longrightarrow> weak_target t"
  by (auto simp: settleAndStart_def outcome Let_def intro!: startRound_weak)

lemma weakest_switched_off:
  assumes "weakest_in ps p" and "i < length ps" and "pl_UserID (ps ! i) \<noteq> pl_UserID p"
  shows "weakest_in (switched_off ps i) p"
proof -
  from assms(1) obtain xs ys where ps: "ps = xs @ p # ys" and p: "pl_Active p"
    and l: "\<forall>q \<in> set xs. pl_Active q \<longrightarrow> CompareHand (pl_Hand p) (pl_Hand q) < 0"
    and r: "\<forall>q \<in> set ys. pl_Active q \<longrightarrow> CompareHand (pl_Hand p) (pl_Hand q) \<le> 0" by (auto simp: weakest_in_def)
  have off: "\<forall>q \<in> set (switched_off zs k). pl_Active q \<longrightarrow> q \<in> set zs" for zs k
    using set_update_subset_insert [of zs k "(zs ! k)\<lparr>pl_Active := False\<rparr>"] by (auto simp: switched_off_def)
  have "i \<noteq> length xs" using assms(3) by (auto simp: ps)
  then consider "i < length xs" | k where "i = Suc (length xs) + k" by (metis add.commute less_Suc_eq less_iff_Suc_add linorder_neqE_nat add_Suc_right)
  then show ?thesis
  proof cases
    case 1
    then have "switched_off ps i = switched_off xs i @ p # ys" by (simp add: switched_off_def ps nth_append list_update_append1)
    then show ?thesis unfolding weakest_in_def using p l r off by (intro exI [of _ "switched_off xs i"] exI [of _ ys]) auto
  next
    case 2
    then have "switched_off ps i = xs @ p # switched_off ys k" by (simp add: switched_off_def ps nth_append list_update_append)
    then show ?thesis unfolding weakest_in_def using p l r off by (intro exI [of _ xs] exI [of _ "switched_off ys k"]) auto
  qed
qed

lemma mb_step_weak:
  assumes step: "mb_step sha256 s c = Inr (t, es)" and ty: "typed (st_Players s)" and weak: "weak_target s"
  shows "weak_target t"
proof -
  have v: "valid s" and ph: "st_Phase s \<noteq> PhaseFinished" using mb_step_valid [OF step] by auto
  have u: "distinct (map pl_UserID (st_Players s))" by (rule valid_users [OF v])
  show ?thesis
  proof (cases c)
    case (DoReroll actor now seed)
    with step have "Reroll sha256 s actor now seed = Inr (t, es)" by simp
    then show ?thesis
    proof (cases rule: Reroll_Inr)
      case (1 n e m ms r1 q qs r2 fs f)
      note r = reroll_resolved [OF v ty ph 1(2,3,4,5)]
      have uq: "distinct (map pl_UserID (st_Players q))" using r(1) by (simp add: settleable_def startable_users)
      have gq: "good_table (st_Config q) (st_Players q)" using r(2) by (simp add: resolved_def)
      show ?thesis using 1(8) settleAndStart_weak [OF _ uq] selectTarget_selected(1) [OF _ gq uq]
        by (auto simp: weak_target_def selected_def split: if_splits)
    qed
  next
    case (DoRevoke w now seed)
    with step have rv: "RevokeParticipant sha256 s w now seed = Inr (t, es)" by simp
    then obtain i where i: "playerIndex (st_Players s) w = Some i" by (auto simp: RevokeParticipant_def outcome split: option.splits)
    have il: "i < length (st_Players s)" "pl_UserID (st_Players s ! i) = w" using mb.index_SomeD [OF i] by auto
    let ?n = "s\<lparr>st_Players := switched_off (st_Players s) i\<rparr>"
    have un: "distinct (map pl_UserID (switched_off (st_Players s) i))" using u switched_off_maps(2) by simp
    from rv i consider "st_Phase t = PhaseFinished" | "t = ?n" "w \<noteq> st_TargetUserID s"
      | fs where "startRound sha256 (?n\<lparr>st_Round := st_Round s + 1\<rparr>) \<lparr>rl_seed = seed, rl_stream = 0\<rparr> now False [] = Inr (t, fs)"
      by (auto simp: RevokeParticipant_def outcome Let_def switched_off_def finishState_def split: if_splits)
    then show ?thesis
    proof cases
      case 2
      then show ?thesis using weak weakest_switched_off [OF _ il(1)] il(2) by (fastforce simp: weak_target_def)
    next
      case 3
      then show ?thesis using un by (intro startRound_weak) auto
    qed (simp add: weak_target_def)
  next
    case (DoFinish reason operator)
    with step Finish_step [of s reason operator t es] ty show ?thesis by (simp add: weak_target_def)
  qed (use step u settleAndStart_weak in \<open>auto simp: Stand_def HandleTimeout_def outcome\<close>)
qed

lemma session_weak:
  assumes "recorded config seats s" and "weak_target s"
  shows "weak_target (fst (run_session (mb_step sha256) s cs))"
  using assms
proof (induction cs arbitrary: s)
  case (Cons c cs)
  show ?case
  proof (cases "mb_step sha256 s c")
    case (Inr r)
    obtain m ms where r: "r = (m, ms)" by (cases r)
    have "recorded config seats m" "weak_target m"
      using mbr.step_inv [of config seats s sha256 c m ms] mb_step_weak [of sha256 s c m ms] Cons.prems Inr r by (auto simp: recorded_def)
    from Cons.IH [OF this] show ?thesis using Inr r by (simp add: split_beta)
  qed (use Cons in simp)
qed simp

lemma NewState_recorded:
  "NewState sha256 config ps host now seed = Inr (s, es) \<Longrightarrow>
     recorded config (map (\<lambda>p. (pt_UserID p, pt_SeatIndex p)) (sort_key pt_SeatIndex ps)) s"
  using NewState_started [of sha256 config ps host now seed s es] by (simp add: recorded_def)

end
