(* ===== verification/MeetRules.thy ===== *)
theory MeetRules
  imports MeetSession
begin

text \<open>
  The properties of the engine of meet by chance, with sample sessions at which they are applied.
\<close>

section \<open>Sample sessions\<close>

text \<open>A digest that depends on its input, one that makes every die show the same face, and three players.\<close>

definition mb_digest :: digest where "mb_digest bytes = [foldr (+) bytes 0 mod 252]"

definition mb_same :: digest where "mb_same bytes = [3]"

definition mb_three :: "Participant list" where
  "mb_three = [\<lparr>pt_UserID = ''c'', pt_SeatIndex = 2\<rparr>, \<lparr>pt_UserID = ''a'', pt_SeatIndex = 0\<rparr>, \<lparr>pt_UserID = ''b'', pt_SeatIndex = 1\<rparr>]"

definition mb_config :: Config where "mb_config = DefaultConfig\<lparr>cf_TargetRerollLimit := 1\<rparr>"

definition mb_start :: State where
  "mb_start = state_of (NewState mb_digest mb_config mb_three ''a'' 1000 [1])"

definition mb_stood :: "State \<times> Event list" where
  "mb_stood = run_session (mb_step mb_digest) mb_start [DoReroll ''b'' 2000 [2], DoStand ''x'' 3000 [3], DoRevoke ''a'' 4000 [4]]"

definition mb_tied :: State where
  "mb_tied = state_of (NewState mb_same DefaultConfig mb_three ''a'' 1000 [1])"

definition mb_untried :: State where
  "mb_untried = mb_tied\<lparr>st_MatchResolutionCount := 0, st_MatchHistory := []\<rparr>"


lemma mb_start_ok: "NewState mb_digest mb_config mb_three ''a'' 1000 [1] =
    Inr (mb_start, events_of (NewState mb_digest mb_config mb_three ''a'' 1000 [1]))"
  unfolding mb_start_def by (rule ok_result) code_simp

lemma mb_start_values: "st_TargetUserID mb_start = ''b''" "Validate mb_start = Inr ()" "st_Round mb_start = 1"
  "st_Phase mb_start = PhaseTargetDecision" "st_ActionDeadlineUnixMillis mb_start = 31000"
  by code_simp+

lemma mb_start_typed: "typed (st_Players mb_start)"
  by (rule NewState_started(3) [OF mb_start_ok])

lemma mb_step_sample: "mb_step mb_digest mb_start (DoStand ''b'' 2000 [7]) =
    Inr (state_of (mb_step mb_digest mb_start (DoStand ''b'' 2000 [7])), events_of (mb_step mb_digest mb_start (DoStand ''b'' 2000 [7])))"
  by (rule ok_result) code_simp

lemma mb_tied_ok: "NewState mb_same DefaultConfig mb_three ''a'' 1000 [1] =
    Inr (mb_tied, events_of (NewState mb_same DefaultConfig mb_three ''a'' 1000 [1]))"
  unfolding mb_tied_def by (rule ok_result) code_simp

lemma mb_digest_hits: "digest_hits mb_digest"
proof -
  have "(foldr (+) bytes 0 mod 252 :: 8 word) < faceRejectionLimit" for bytes :: "u8 list"
    by (simp add: faceRejectionLimit_def word_less_nat_alt unat_mod)
  then show ?thesis by (simp add: digest_hits_def mb_digest_def)
qed

section \<open>Properties\<close>

text \<open>
  C4: A session of meet by chance in which a target may reroll at most once per round stays valid, whatever commands reach
  it and in whatever order: its snapshot always passes \<open>Validate\<close>.
\<close>

theorem mb_session_valid:
  assumes "NewState sha256 config participants hostUserID now seed = Inr (s, es)" and "cf_TargetRerollLimit config \<le> 1"
  shows "Validate (fst (run_session (mb_step sha256) s cs)) = Inr ()"
  using mbs.session_inv [of config "map (\<lambda>p. (pt_UserID p, pt_SeatIndex p)) (sort_key pt_SeatIndex participants)" s cs sha256]
    NewState_started(1) [OF assms(1)] NewState_recorded [OF assms(1)] assms(2) by (simp add: valid_def list_all_iff)

theorem mb_session_valid_witness:
  "NewState mb_digest mb_config mb_three ''a'' 1000 [1] =
     Inr (mb_start, events_of (NewState mb_digest mb_config mb_three ''a'' 1000 [1])) \<and>
   cf_TargetRerollLimit mb_config \<le> 1 \<and> Validate (fst mb_stood) = Inr () \<and> st_Round (fst mb_stood) = 2"
proof -
  have l: "cf_TargetRerollLimit mb_config \<le> 1" by (simp add: mb_config_def)
  have "st_Round (fst mb_stood) = 2" by code_simp
  with mb_session_valid [OF mb_start_ok l, of "[DoReroll ''b'' 2000 [2], DoStand ''x'' 3000 [3], DoRevoke ''a'' 4000 [4]]"]
    mb_start_ok l show ?thesis by (simp add: mb_stood_def)
qed

text \<open>
  C6: The penalties of the players are exactly what the events record: at any time of a session a player has been charged
  the sum of the amounts of that player's penalty events, and the configuration and the roster are those of the start.
\<close>

theorem mb_penalties_recorded:
  assumes "NewState sha256 config participants hostUserID now seed = Inr (s, es)"
    and "run_session (mb_step sha256) s cs = (t, fs)"
  shows "penalty_of t userID = sum_list (map (charge userID) (es @ fs)) \<and> st_Config t = config \<and>
    map (\<lambda>p. (pl_UserID p, pl_SeatIndex p)) (st_Players t) =
      map (\<lambda>p. (pt_UserID p, pt_SeatIndex p)) (sort_key pt_SeatIndex participants)"
proof -
  note r = NewState_recorded [OF assms(1)]
  have "penalty_of t userID = sum_list (map (charge userID) (es @ fs))"
    using session_ledger [OF r assms(2)] NewState_started(5) [OF assms(1), of userID] by (simp add: ledger_def)
  with mbr.session_inv [OF r, of cs sha256] assms(2) show ?thesis by (simp add: recorded_def ids_of_def list_all_iff)
qed

theorem mb_penalties_recorded_witness:
  "NewState mb_digest mb_config mb_three ''a'' 1000 [1] =
     Inr (mb_start, events_of (NewState mb_digest mb_config mb_three ''a'' 1000 [1])) \<and>
   run_session (mb_step mb_digest) mb_start [DoStand ''b'' 2000 [7]] = (fst (run_session (mb_step mb_digest) mb_start [DoStand ''b'' 2000 [7]]),
     snd (run_session (mb_step mb_digest) mb_start [DoStand ''b'' 2000 [7]])) \<and>
   penalty_of (fst (run_session (mb_step mb_digest) mb_start [DoStand ''b'' 2000 [7]])) ''b'' =
     sum_list (map (charge ''b'') (events_of (NewState mb_digest mb_config mb_three ''a'' 1000 [1]) @
       snd (run_session (mb_step mb_digest) mb_start [DoStand ''b'' 2000 [7]]))) \<and>
   0 < penalty_of mb_start ''b''"
proof -
  have p: "0 < penalty_of mb_start ''b''" by code_simp
  show ?thesis using mb_penalties_recorded [OF mb_start_ok surjective_pairing, of "[DoStand ''b'' 2000 [7]]" "''b''"] mb_start_ok p by simp
qed

text \<open>
  C7: While the target decides, nobody who is active holds a weaker hand than the target, and among equally weak hands the
  target is the one at the lowest seat.
\<close>

theorem mb_target_weakest:
  assumes "NewState sha256 config participants hostUserID now seed = Inr (s, es)"
    and "t = fst (run_session (mb_step sha256) s cs)" and "st_Phase t = PhaseTargetDecision"
  shows "\<exists>before target after. st_Players t = before @ target # after \<and> pl_UserID target = st_TargetUserID t \<and> pl_Active target \<and>
    list_all (\<lambda>p. \<not> pl_Active p \<or> CompareHand (pl_Hand target) (pl_Hand p) < 0) before \<and>
    list_all (\<lambda>p. \<not> pl_Active p \<or> CompareHand (pl_Hand target) (pl_Hand p) \<le> 0) after"
proof -
  have "weak_target t"
    using session_weak [OF NewState_recorded [OF assms(1)] decided_weak [OF NewState_started(7) [OF assms(1)]], of sha256 cs] assms(2)
    by simp
  with assms(3) obtain p where "weakest_in (st_Players t) p" "pl_UserID p = st_TargetUserID t" by (auto simp: weak_target_def)
  then show ?thesis by (auto simp: weakest_in_def list_all_iff)
qed

theorem mb_target_weakest_witness:
  "NewState mb_digest mb_config mb_three ''a'' 1000 [1] =
     Inr (mb_start, events_of (NewState mb_digest mb_config mb_three ''a'' 1000 [1])) \<and>
   st_Phase mb_start = PhaseTargetDecision \<and>
   (\<exists>before target after. st_Players mb_start = before @ target # after \<and> pl_UserID target = ''b'' \<and> pl_Active target \<and>
    list_all (\<lambda>p. \<not> pl_Active p \<or> CompareHand (pl_Hand target) (pl_Hand p) < 0) before \<and>
    list_all (\<lambda>p. \<not> pl_Active p \<or> CompareHand (pl_Hand target) (pl_Hand p) \<le> 0) after)"
  using mb_target_weakest [OF mb_start_ok, of mb_start "[]"] mb_start_ok mb_start_values by simp

text \<open>
  C8: The loop over the batches ends; when it does, the best hands of no two active players tie, or the limit of batches
  is reached and the remaining ties are recorded as capped. Nobody joins or leaves, and the batches are counted.
\<close>

theorem mb_matches_resolved:
  assumes "resolveMatches sha256 s roller = Inr (t, es, roller')" and "good_table (st_Config s) (st_Players s)"
    and "distinct (map pl_UserID (st_Players s))" and "st_MatchResolutionCount s \<le> cf_MatchResolutionLimit (st_Config s)"
  shows "(distinct (map (\<lambda>p. hn_TieKey (pl_Hand p)) (filter pl_Active (st_Players t))) \<or>
     st_MatchResolutionCount t = cf_MatchResolutionLimit (st_Config t) \<and> mr_Capped (last (st_MatchHistory t))) \<and>
    st_MatchResolutionCount s \<le> st_MatchResolutionCount t \<and> st_MatchResolutionCount t \<le> cf_MatchResolutionLimit (st_Config t) \<and>
    map (\<lambda>p. (pl_UserID p, pl_Active p)) (st_Players t) = map (\<lambda>p. (pl_UserID p, pl_Active p)) (st_Players s)"
proof -
  have r: "resolved s es t" by (rule resolveMatches_resolved [OF assms(1-3)])
  then obtain rs where rs: "st_MatchHistory t = st_MatchHistory s @ rs"
    "length rs + unat (st_MatchResolutionCount s) = unat (st_MatchResolutionCount t) + (if FindMatchGroups (st_Players t) = [] then 0 else 1)"
    "FindMatchGroups (st_Players t) \<noteq> [] \<longrightarrow> cf_MatchResolutionLimit (st_Config s) \<le> st_MatchResolutionCount t \<and> mr_Capped (last rs)"
    and c: "st_MatchResolutionCount s \<le> st_MatchResolutionCount t" "st_MatchResolutionCount t \<le> cf_MatchResolutionLimit (st_Config s)"
    using assms(4) by (auto simp: resolved_def)
  have i: "inner_step s es t" using r by (simp add: resolved_def)
  then have k: "kept_all (st_Players s) (st_Players t)" by (simp add: inner_step_def)
  have "map (\<lambda>p. (pl_UserID p, pl_Active p)) (st_Players t) = map (\<lambda>p. (pl_UserID p, pl_Active p)) (st_Players s)"
    using kept_all_maps(1,3) [OF k] by (auto simp: list_eq_iff_nth_eq)
  moreover have "distinct (map (\<lambda>p. hn_TieKey (pl_Hand p)) (filter pl_Active (st_Players t))) \<or>
     st_MatchResolutionCount t = cf_MatchResolutionLimit (st_Config t) \<and> mr_Capped (last (st_MatchHistory t))"
  proof (cases "FindMatchGroups (st_Players t) = []")
    case False
    then have "rs \<noteq> []" using rs(2) c(1) by (auto simp: word_le_nat_alt)
    with False rs c inner_step_config [OF i] show ?thesis by auto
  qed (simp add: FindMatchGroups_Nil)
  ultimately show ?thesis using c inner_step_config [OF i] by simp
qed

theorem mb_matches_resolved_witness:
  "\<exists>t es r. resolveMatches mb_same mb_untried \<lparr>rl_seed = [1], rl_stream = 0\<rparr> = Inr (t, es, r) \<and>
     good_table (st_Config mb_untried) (st_Players mb_untried) \<and>
     (distinct (map (\<lambda>p. hn_TieKey (pl_Hand p)) (filter pl_Active (st_Players t))) \<or>
       st_MatchResolutionCount t = cf_MatchResolutionLimit (st_Config t) \<and> mr_Capped (last (st_MatchHistory t)))"
proof -
  have "\<not> isl (resolveMatches mb_same mb_untried \<lparr>rl_seed = [1], rl_stream = 0\<rparr>)" by code_simp
  then obtain t es r where res: "resolveMatches mb_same mb_untried \<lparr>rl_seed = [1], rl_stream = 0\<rparr> = Inr (t, es, r)"
    by (cases "resolveMatches mb_same mb_untried \<lparr>rl_seed = [1], rl_stream = 0\<rparr>") auto
  have v: "valid mb_tied" "decided mb_tied" using NewState_started(1,7) [OF mb_tied_ok] by auto
  have g: "good_table (st_Config mb_untried) (st_Players mb_untried)" using v(2) by (simp add: decided_def mb_untried_def)
  have u: "distinct (map pl_UserID (st_Players mb_untried))" using valid_users [OF v(1)] by (simp add: mb_untried_def)
  have c: "st_MatchResolutionCount mb_untried \<le> cf_MatchResolutionLimit (st_Config mb_untried)" by (simp add: mb_untried_def)
  from mb_matches_resolved [OF res g u c] res g show ?thesis by blast
qed

text \<open>
  An accepted command leaves a snapshot that \<open>Validate\<close> accepts exactly if the history of matches still has at most one
  entry more than the limit of batches. It always has for every command but a reroll that does not end the round.
\<close>

theorem mb_valid_iff_history_fits:
  assumes "mb_step sha256 s command = Inr (t, es)" and "list_all (\<lambda>p. length (hn_Raw (pl_Hand p)) = 3) (st_Players s)"
  shows "(Validate t = Inr () \<longleftrightarrow> length (st_MatchHistory t) \<le> unat (cf_MatchResolutionLimit (st_Config t)) + 1) \<and>
    (st_Round t = st_Round s + 1 \<or> st_MatchHistory t = st_MatchHistory s \<longrightarrow> Validate t = Inr ())"
proof -
  have ty: "typed (st_Players s)" using assms(2) by (simp add: typed_def list_all_iff)
  have iff: "valid t \<longleftrightarrow> history_fits t" by (rule mb_step_moved(2) [OF assms(1) ty])
  have "valid t" if "st_MatchHistory t = st_MatchHistory s"
    using iff that valid_fits [OF mb_step_valid(1) [OF assms(1)]] mb_step_moved(1) [OF assms(1) ty] by (simp add: history_fits_def moved_def)
  moreover have "valid t" if r: "st_Round t = st_Round s + 1"
  proof (cases command)
    case (DoReroll actor now seed)
    with Reroll_step [of sha256 s actor now seed t es] assms(1) ty r show ?thesis by auto
  qed (use assms(1) ty Stand_step HandleTimeout_step RevokeParticipant_step Finish_step in fastforce)+
  ultimately show ?thesis using iff by (auto simp: valid_def history_fits_def)
qed

theorem mb_valid_iff_history_fits_witness:
  "\<exists>t es. mb_step mb_digest mb_start (DoStand ''b'' 2000 [7]) = Inr (t, es) \<and>
     list_all (\<lambda>p. length (hn_Raw (pl_Hand p)) = 3) (st_Players mb_start) \<and>
     (Validate t = Inr () \<longleftrightarrow> length (st_MatchHistory t) \<le> unat (cf_MatchResolutionLimit (st_Config t)) + 1)"
  using mb_valid_iff_history_fits [OF mb_step_sample] mb_step_sample mb_start_typed by (auto simp: typed_def list_all_iff)


text \<open>
  With wild ones, a hand counts as the strongest of its interpretations: some replacement of the ones gives the class
  and the ranks of the result, and no replacement gives a stronger hand.
\<close>

theorem mb_classify_best:
  assumes "length raw = 3" and "list_all Face_Valid raw" and "cf_OnesWild config"
    and "\<not> (cf_Special235Enabled config \<and> sort raw = [2, 3, 5])"
  shows "\<exists>hand best. Classify raw config = Inr hand \<and> interprets raw best \<and> hn_Raw hand = raw \<and>
    hn_Class hand = hn_Class (classifyOrdinary best config) \<and> hn_FullKey hand = hn_FullKey (classifyOrdinary best config) \<and>
    (\<forall>other. interprets raw other \<longrightarrow> CompareHand (classifyOrdinary other config) hand \<le> 0)"
proof -
  have f: "faces_ok raw" "\<not> special_raw config raw" using assms by (simp_all add: faces_ok_def special_raw_def)
  from Classify_ordinary [OF f] assms(3) obtain c where c: "interprets raw c"
    and cl: "Classify raw config = Inr ((interpreted config raw c)\<lparr>hn_Raw := raw\<rparr>)"
    and best: "\<forall>d. interprets raw d \<longrightarrow> not_above (interpreted config raw d) (interpreted config raw c)" by blast
  have cand: "candidate (interpreted config raw d)" if "interprets raw d" for d
    using that assms(1) by (intro interpreted_candidate) (simp add: interprets_def)
  have "CompareHand (classifyOrdinary d config) ((interpreted config raw c)\<lparr>hn_Raw := raw\<rparr>) \<le> 0" if d: "interprets raw d" for d
    using not_above_CompareHand [OF cand [OF d] cand [OF c]] best d by (simp add: CompareHand_def interpreted_def)
  with c cl show ?thesis by (intro exI [of _ "(interpreted config raw c)\<lparr>hn_Raw := raw\<rparr>"] exI [of _ c]) (simp add: interpreted_def)
qed

theorem mb_classify_best_witness:
  "\<exists>hand best. Classify [1, 4, 5] (DefaultConfig\<lparr>cf_OnesWild := True\<rparr>) = Inr hand \<and> interprets [1, 4, 5] best \<and>
     hn_Class hand = HandStraight \<and> hn_Class (classifyOrdinary best (DefaultConfig\<lparr>cf_OnesWild := True\<rparr>)) = HandStraight"
proof -
  let ?c = "DefaultConfig\<lparr>cf_OnesWild := True\<rparr>"
  have h: "length [1, 4, 5 :: Face] = 3" "list_all Face_Valid [1, 4, 5]" "cf_OnesWild ?c"
    "\<not> (cf_Special235Enabled ?c \<and> sort [1, 4, 5 :: Face] = [2, 3, 5])" by code_simp+
  have s: "(case Classify [1, 4, 5] ?c of Inr hand \<Rightarrow> hn_Class hand = HandStraight | Inl _ \<Rightarrow> False)" by code_simp
  from mb_classify_best [OF h] s show ?thesis by (auto split: sum.splits)
qed

text \<open>
  No command of meet by chance panics, whatever the snapshot and the arguments: every index is looked up, every roll has
  enough dice, and every failure is a rule error.
\<close>

theorem mb_never_panics: "no_panic (mb_step sha256 s command)"
  by (rule mb_np_step)

text \<open>
  The timer of a decision is accepted when it is due, by any clock at or after the deadline, provided the digest yields dice,
  the seed is not zero, and neither the round counter nor a penalty is at the end of its range; the session then goes on
  with the next round.
\<close>

theorem mb_due_timer_accepted:
  assumes "digest_hits sha256" and "\<not> isZeroSeed seed" and "Validate s = Inr ()"
    and "list_all (\<lambda>p. length (hn_Raw (pl_Hand p)) = 3) (st_Players s)" and "CurrentTimer s = Some timer"
    and "tm_DeadlineUnixMillis timer \<le> now" and "now \<le> MaxInt64 - 120000" and "st_Round s \<noteq> MaxUint32"
    and "list_all (\<lambda>p. unat (pl_PenaltyTicks p) + 2320 \<le> 4294967295) (st_Players s)"
  shows "\<exists>t es. HandleTimeout sha256 s timer now seed = Inr (t, es) \<and> Validate t = Inr () \<and> st_Round t = st_Round s + 1"
proof -
  have v: "valid s" using assms(3) by (simp add: valid_def)
  have ty: "typed (st_Players s)" using assms(4) by (simp add: typed_def list_all_iff)
  have h: "headroom 2320 (st_Players s)" using assms(9) by (simp add: headroom_def list_all_iff)
  from HandleTimeout_ok [OF assms(1,2) v assms(5-8) h] obtain t es where t: "HandleTimeout sha256 s timer now seed = Inr (t, es)" by blast
  with HandleTimeout_step [OF t ty] show ?thesis by (auto simp: valid_def)
qed

theorem mb_due_timer_accepted_witness:
  "\<exists>timer t es. digest_hits mb_digest \<and> \<not> isZeroSeed [5] \<and> Validate mb_start = Inr () \<and> CurrentTimer mb_start = Some timer \<and>
     tm_DeadlineUnixMillis timer = 31000 \<and> HandleTimeout mb_digest mb_start timer 31000 [5] = Inr (t, es) \<and> Validate t = Inr () \<and>
     st_Round t = 2"
proof -
  have z: "\<not> isZeroSeed [5]" by code_simp
  have "list_all (\<lambda>p. pl_PenaltyTicks p \<le> 100) (st_Players mb_start)" by code_simp
  then have l: "list_all (\<lambda>p. unat (pl_PenaltyTicks p) + 2320 \<le> 4294967295) (st_Players mb_start)"
    by (auto simp: list_all_iff word_le_nat_alt)
  have ty: "list_all (\<lambda>p. length (hn_Raw (pl_Hand p)) = 3) (st_Players mb_start)" using mb_start_typed by (simp add: typed_def list_all_iff)
  obtain timer where t: "CurrentTimer mb_start = Some timer" "tm_DeadlineUnixMillis timer = 31000"
    using mb_start_values by (auto simp: CurrentTimer_def)
  have "(31000 :: int) \<le> MaxInt64 - 120000" "st_Round mb_start \<noteq> MaxUint32" using mb_start_values by (simp_all add: MaxInt64_def)
  with mb_due_timer_accepted [OF mb_digest_hits z mb_start_values(2) ty t(1), of 31000] t(2) l mb_digest_hits z mb_start_values t(1)
  show ?thesis by auto
qed

text \<open>
  Standing is accepted only from the target and before the deadline. It settles the round: the settlement records the
  round, the target and the table as it stood, becomes the last entry of the history of at most 32 rounds, and the next
  round begins.
\<close>

theorem mb_stand_settles:
  assumes "Stand sha256 s actor now seed = Inr (t, es)" and "list_all (\<lambda>p. length (hn_Raw (pl_Hand p)) = 3) (st_Players s)"
  shows "actor = st_TargetUserID s \<and> (st_ActionDeadlineUnixMillis s = 0 \<or> now < st_ActionDeadlineUnixMillis s) \<and>
    st_LastSettlement t = \<lparr>rs_Round = st_Round s, rs_TargetUserID = actor, rs_Reason = ''stand'',
      rs_TargetRerollCount = st_TargetRerollCount s, rs_TargetStreak = st_TargetStreak s,
      rs_MatchResolutionCount = st_MatchResolutionCount s, rs_Players = st_Players s\<rparr> \<and>
    last (st_RoundHistory t) = st_LastSettlement t \<and> length (st_RoundHistory t) \<le> 32 \<and>
    st_Round t = st_Round s + 1 \<and> st_Phase t = PhaseTargetDecision"
proof -
  have ty: "typed (st_Players s)" using assms(2) by (simp add: typed_def list_all_iff)
  from assms(1) have a: "validateTargetAction s actor now False = Inr ()"
    and b: "settleAndStart sha256 s actor ''stand'' now \<lparr>rl_seed = seed, rl_stream = 0\<rparr> = Inr (t, es)"
    by (auto simp: Stand_def outcome)
  note v = validateTargetAction_Inr [OF a]
  note st = settleAndStart_valid [OF valid_settleable [OF v(1) ty v(2)] b [unfolded v(3)]]
  from b obtain l h fs where start: "startRound sha256 (s\<lparr>st_LastSettlement := l, st_RoundHistory := h, st_Round := st_Round s + 1\<rparr>)
      \<lparr>rl_seed = seed, rl_stream = 0\<rparr> now False [] = Inr (t, fs)"
    and l: "l = \<lparr>rs_Round = st_Round s, rs_TargetUserID = actor, rs_Reason = ''stand'',
      rs_TargetRerollCount = st_TargetRerollCount s, rs_TargetStreak = st_TargetStreak s,
      rs_MatchResolutionCount = st_MatchResolutionCount s, rs_Players = st_Players s\<rparr>"
    by (auto simp: settleAndStart_def outcome Let_def)
  have u: "distinct (map pl_UserID (st_Players (s\<lparr>st_LastSettlement := l, st_RoundHistory := h, st_Round := st_Round s + 1\<rparr>)))"
    using valid_users [OF v(1)] by simp
  have "core_frame t = core_frame (s\<lparr>st_LastSettlement := l, st_RoundHistory := h, st_Round := st_Round s + 1\<rparr>)"
    using startRound_started [OF start u] by (simp add: started_def)
  from core_frame_fields(5) [OF this] have "st_LastSettlement t = l" by simp
  moreover have "length (st_RoundHistory t) \<le> 32" using st(1) by (simp add: valid_iff validateRoundHistory_iff rounds_ok_def RoundHistoryLimit_def)
  ultimately show ?thesis using v st l by auto
qed

theorem mb_stand_settles_witness:
  "\<exists>t es. Stand mb_digest mb_start ''b'' 2000 [7] = Inr (t, es) \<and>
     list_all (\<lambda>p. length (hn_Raw (pl_Hand p)) = 3) (st_Players mb_start) \<and> rs_TargetUserID (st_LastSettlement t) = ''b'' \<and>
     st_Round t = 2"
proof -
  from mb_step_sample obtain t es where s: "Stand mb_digest mb_start ''b'' 2000 [7] = Inr (t, es)" by auto
  have ty: "list_all (\<lambda>p. length (hn_Raw (pl_Hand p)) = 3) (st_Players mb_start)" using mb_start_typed by (simp add: typed_def list_all_iff)
  from mb_stand_settles [OF s ty] s ty mb_start_values show ?thesis by auto
qed

end
