(* ===== verification/Text.thy ===== *)
theory Text
  imports Prelude
begin

text \<open>
  What the components use of Go's text packages. A Go string is a list of bytes, which is what \<open>string\<close> is: a
  \<open>char\<close> has 256 values.
\<close>

section \<open>White space\<close>

text \<open>The byte sequences of the characters that \<open>strings.TrimSpace\<close> removes: Unicode's white space in UTF-8.\<close>

definition space_runes :: "string list" where
  "space_runes =
     [[CHR 0x09], [CHR 0x0A], [CHR 0x0B], [CHR 0x0C], [CHR 0x0D], [CHR 0x20], [CHR 0xC2, CHR 0x85], [CHR 0xC2, CHR 0xA0],
      [CHR 0xE1, CHR 0x9A, CHR 0x80], [CHR 0xE2, CHR 0x80, CHR 0x80], [CHR 0xE2, CHR 0x80, CHR 0x81],
      [CHR 0xE2, CHR 0x80, CHR 0x82], [CHR 0xE2, CHR 0x80, CHR 0x83], [CHR 0xE2, CHR 0x80, CHR 0x84],
      [CHR 0xE2, CHR 0x80, CHR 0x85], [CHR 0xE2, CHR 0x80, CHR 0x86], [CHR 0xE2, CHR 0x80, CHR 0x87],
      [CHR 0xE2, CHR 0x80, CHR 0x88], [CHR 0xE2, CHR 0x80, CHR 0x89], [CHR 0xE2, CHR 0x80, CHR 0x8A],
      [CHR 0xE2, CHR 0x80, CHR 0xA8], [CHR 0xE2, CHR 0x80, CHR 0xA9], [CHR 0xE2, CHR 0x80, CHR 0xAF],
      [CHR 0xE2, CHR 0x81, CHR 0x9F], [CHR 0xE3, CHR 0x80, CHR 0x80]]"

text \<open>Removes the given sequences from the front, as long as there are any.\<close>

function trim_front :: "string list \<Rightarrow> string \<Rightarrow> string" where
  "trim_front runes s =
     (case find (\<lambda>r. r \<noteq> [] \<and> take (length r) s = r) runes of
        None \<Rightarrow> s
      | Some r \<Rightarrow> trim_front runes (drop (length r) s))"
  by pat_completeness auto

termination
proof (relation "measure (length \<circ> snd)")
  fix runes :: "string list" and s r
  assume "find (\<lambda>r. r \<noteq> [] \<and> take (length r) s = r) runes = Some r"
  then have "r \<noteq> []" "take (length r) s = r" by (auto simp: find_Some_iff)
  then have "0 < length r" "length r \<le> length s" by (simp, metis length_take min.cobounded1)
  then have "length s - length r < length s" by linarith
  then show "((runes, drop (length r) s), (runes, s)) \<in> measure (length \<circ> snd)" by simp
qed simp

definition TrimSpace :: "string \<Rightarrow> string" where
  "TrimSpace s = rev (trim_front (map rev space_runes) (rev (trim_front space_runes s)))"

declare trim_front.simps [simp del]

abbreviation rune_at :: "string list \<Rightarrow> string \<Rightarrow> string option" where
  "rune_at runes s \<equiv> find (\<lambda>r. r \<noteq> [] \<and> take (length r) s = r) runes"

lemma trim_front_done: "rune_at runes (trim_front runes s) = None"
proof (induction runes s rule: trim_front.induct)
  case (1 runes s)
  then show ?case by (subst trim_front.simps) (cases "rune_at runes s"; simp)
qed

lemma trim_front_fixed: "rune_at runes s = None \<Longrightarrow> trim_front runes s = s"
  by (subst trim_front.simps) simp

lemma trim_front_suffix: "\<exists>p. s = p @ trim_front runes s"
proof (induction runes s rule: trim_front.induct)
  case (1 runes s)
  show ?case
  proof (cases "rune_at runes s")
    case None
    then show ?thesis by (simp add: trim_front_fixed)
  next
    case (Some r)
    with 1 obtain p where "drop (length r) s = p @ trim_front runes (drop (length r) s)" by blast
    then have "s = (take (length r) s @ p) @ trim_front runes (drop (length r) s)" by (metis append_assoc append_take_drop_id)
    with Some show ?thesis by (subst trim_front.simps) (simp, metis append_assoc)
  qed
qed

lemma rune_at_prefix: "rune_at runes (s @ t) = None \<Longrightarrow> rune_at runes s = None"
  by (auto simp: find_None_iff)

lemma TrimSpace_idem [simp]: "TrimSpace (TrimSpace s) = TrimSpace s"
proof -
  let ?front = "trim_front space_runes s"
  define kept where "kept = trim_front (map rev space_runes) (rev ?front)"
  have t: "TrimSpace s = rev kept" by (simp add: TrimSpace_def kept_def)
  obtain p where "rev ?front = p @ kept" using trim_front_suffix unfolding kept_def by blast
  then have "?front = rev kept @ rev p" by (metis rev_append rev_rev_ident)
  then have "rune_at space_runes (rev kept @ rev p) = None" using trim_front_done [of space_runes s] by simp
  from rune_at_prefix [OF this] have "trim_front space_runes (rev kept) = rev kept" by (rule trim_front_fixed)
  moreover have "trim_front (map rev space_runes) kept = kept"
    unfolding kept_def by (rule trim_front_fixed [OF trim_front_done])
  ultimately show ?thesis unfolding t by (simp add: TrimSpace_def)
qed

section \<open>Base64\<close>

text \<open>
  \<open>base64.RawURLEncoding\<close> of the standard library: the URL alphabet without padding. Three bytes are four sextets; a
  rest of one or two bytes is two or three. The decoder skips line breaks and ignores the unused low bits of the last
  sextet, so several texts decode to the same bytes.
\<close>

definition url_alphabet :: string where
  "url_alphabet = ''ABCDEFGHIJKLMNOPQRSTUVWXYZabcdefghijklmnopqrstuvwxyz0123456789-_''"

fun sextets :: "nat list \<Rightarrow> nat list" where
  "sextets [] = []"
| "sextets [a] = [a div 4, a mod 4 * 16]"
| "sextets [a, b] = [a div 4, a mod 4 * 16 + b div 16, b mod 16 * 4]"
| "sextets (a # b # c # rest) =
     a div 4 # (a mod 4 * 16 + b div 16) # (b mod 16 * 4 + c div 64) # c mod 64 # sextets rest"

fun octets :: "nat list \<Rightarrow> nat list option" where
  "octets [] = Some []"
| "octets [v] = None"
| "octets [v, w] = Some [v * 4 + w div 16]"
| "octets [v, w, x] = Some [v * 4 + w div 16, w mod 16 * 16 + x div 4]"
| "octets (v # w # x # y # rest) =
     map_option (\<lambda>bytes. (v * 4 + w div 16) # (w mod 16 * 16 + x div 4) # (x mod 4 * 64 + y) # bytes) (octets rest)"

definition sextet_of :: "char \<Rightarrow> nat option" where
  "sextet_of c =
     (let n = of_char c :: nat in
      if 65 \<le> n \<and> n \<le> 90 then Some (n - 65)
      else if 97 \<le> n \<and> n \<le> 122 then Some (n - 71)
      else if 48 \<le> n \<and> n \<le> 57 then Some (n + 4)
      else if n = 45 then Some 62
      else if n = 95 then Some 63
      else None)"

fun sextets_of :: "string \<Rightarrow> nat list option" where
  "sextets_of [] = Some []"
| "sextets_of (c # rest) =
     (if c = CHR 0x0A \<or> c = CHR 0x0D then sextets_of rest
      else case sextet_of c of None \<Rightarrow> None | Some v \<Rightarrow> map_option (\<lambda>vs. v # vs) (sextets_of rest))"

definition EncodeToString :: "u8 list \<Rightarrow> string" where
  "EncodeToString bytes = map (\<lambda>v. url_alphabet ! v) (sextets (map unat bytes))"

definition DecodeString :: "string \<Rightarrow> u8 list option" where
  "DecodeString s =
     (case sextets_of s of None \<Rightarrow> None | Some vs \<Rightarrow> map_option (map of_nat) (octets vs))"

lemma octets_sextets: "\<forall>b \<in> set bytes. b < 256 \<Longrightarrow> octets (sextets bytes) = Some bytes"
proof (induction bytes rule: sextets.induct)
  case (4 a b c rest)
  then have "octets (sextets rest) = Some rest" by simp
  moreover have "a div 4 * 4 + (a mod 4 * 16 + b div 16) div 16 = a"
    "(a mod 4 * 16 + b div 16) mod 16 * 16 + (b mod 16 * 4 + c div 64) div 4 = b"
    "(b mod 16 * 4 + c div 64) mod 4 * 64 + c mod 64 = c"
    using "4.prems" by (auto simp: div_add1_eq mod_add_eq) 
  ultimately show ?case by simp
qed auto

lemma sextets_bound: "\<forall>b \<in> set bytes. b < 256 \<Longrightarrow> \<forall>v \<in> set (sextets bytes). v < 64"
proof (induction bytes rule: sextets.induct)
  case (4 a b c rest)
  then have "b div 16 < 16" "c div 64 < 4" "a div 4 < 64" by auto
  with 4 show ?case by auto
qed auto

lemma alphabet_values: "map sextet_of url_alphabet = map Some [0..<64]"
  by (simp add: url_alphabet_def sextet_of_def upt_rec)

lemma alphabet_breaks: "CHR 0x0A \<notin> set url_alphabet" "CHR 0x0D \<notin> set url_alphabet" and length_alphabet: "length url_alphabet = 64"
  by (simp_all add: url_alphabet_def)

lemma sextet_of_alphabet: "v < 64 \<Longrightarrow> sextet_of (url_alphabet ! v) = Some v"
  using alphabet_values length_alphabet by (metis (no_types, lifting) add_0 length_map nth_map nth_upt diff_zero length_upt)

lemma alphabet_no_break: "v < 64 \<Longrightarrow> url_alphabet ! v \<noteq> CHR 0x0A \<and> url_alphabet ! v \<noteq> CHR 0x0D"
  using alphabet_breaks length_alphabet by (metis nth_mem)

lemma sextets_of_alphabet: "\<forall>v \<in> set vs. v < 64 \<Longrightarrow> sextets_of (map (\<lambda>v. url_alphabet ! v) vs) = Some vs"
  by (induction vs) (simp_all add: sextet_of_alphabet alphabet_no_break)

text \<open>Decoding inverts encoding, so two byte strings have different texts.\<close>

lemma Decode_Encode [simp]: "DecodeString (EncodeToString bytes) = Some bytes"
proof -
  have b: "\<forall>b \<in> set (map unat bytes). b < 256" using unsigned_less [where 'b = 8 and 'a = nat] by auto
  from sextets_of_alphabet [OF sextets_bound [OF b]]
  have "sextets_of (EncodeToString bytes) = Some (sextets (map unat bytes))" by (simp only: EncodeToString_def)
  with octets_sextets [OF b]
  show ?thesis by (simp add: DecodeString_def o_def)
qed

lemma EncodeToString_eq_iff [simp]: "EncodeToString a = EncodeToString b \<longleftrightarrow> a = b"
  by (metis Decode_Encode option.inject)

lemma length_sextets: "length (sextets bytes) = (length bytes * 8 + 5) div 6"
  by (induction bytes rule: sextets.induct) auto

lemma length_EncodeToString: "length (EncodeToString bytes) = (length bytes * 8 + 5) div 6"
  by (simp add: EncodeToString_def length_sextets)

end
