(* ===== verification/Room.thy ===== *)
theory Room
  imports Text
begin

text \<open>
  The room aggregate of the platform (\<open>platform/room/model.go\<close> and \<open>admin.go\<close>): membership, admission, the
  life cycle of a room and the governance of pauses, and the checks that the repository makes before it commits
  a command (\<open>platform/persistence/postgres/room_repository.go\<close>).

  \<^item> The string enumerations of the source are strings here too, so that undefined values stay distinct.
  \<^item> \<open>Room\<close> wraps a \<open>RoomSnapshot\<close>; the model identifies the two.
  \<^item> A Go slice shares its array with every copy of the struct that holds it. Three commands write to that array
    after copying the struct. They return, besides their result, the receiver as it is after the call.
\<close>

section \<open>Types\<close>

abbreviation VisibilityPrivate :: string where "VisibilityPrivate \<equiv> ''private''"
abbreviation VisibilityPublic :: string where "VisibilityPublic \<equiv> ''public''"

abbreviation AdmissionOpen :: string where "AdmissionOpen \<equiv> ''open''"
abbreviation AdmissionApproval :: string where "AdmissionApproval \<equiv> ''approval''"
abbreviation AdmissionClosed :: string where "AdmissionClosed \<equiv> ''closed''"

abbreviation RoomStatusLobby :: string where "RoomStatusLobby \<equiv> ''lobby''"
abbreviation RoomStatusPlaying :: string where "RoomStatusPlaying \<equiv> ''playing''"
abbreviation RoomStatusPostGame :: string where "RoomStatusPostGame \<equiv> ''post_game''"
abbreviation RoomStatusClosed :: string where "RoomStatusClosed \<equiv> ''closed''"

abbreviation MemberRoleParticipant :: string where "MemberRoleParticipant \<equiv> ''participant''"
abbreviation MemberRoleSpectator :: string where "MemberRoleSpectator \<equiv> ''spectator''"
abbreviation MemberRoleWaiting :: string where "MemberRoleWaiting \<equiv> ''waiting''"

abbreviation JoinIntentParticipant :: string where "JoinIntentParticipant \<equiv> MemberRoleParticipant"
abbreviation JoinIntentSpectator :: string where "JoinIntentSpectator \<equiv> MemberRoleSpectator"

abbreviation PauseSourceHost :: string where "PauseSourceHost \<equiv> ''host''"
abbreviation PauseSourceApprovedRequest :: string where "PauseSourceApprovedRequest \<equiv> ''approved_request''"

abbreviation DefaultSelectedGameID :: string where "DefaultSelectedGameID \<equiv> ''liars-dice''"

record Version =
  vr_Room :: u64
  vr_Membership :: u64

record MemberSnapshot =
  mb_UserID :: uuid
  mb_Role :: string
  mb_RequestedRole :: string
  mb_SeatIndex :: u32
  mb_JoinedAt :: go_time
  mb_LastSeenAt :: go_time

record FrozenParticipant =
  fp_UserID :: uuid
  fp_SeatIndex :: u32

record PendingPauseRequest =
  pp_ID :: uuid
  pp_SessionID :: uuid
  pp_RequestedByUserID :: uuid
  pp_RequestedAt :: go_time

record ActivePause =
  ap_ID :: uuid
  ap_SessionID :: uuid
  ap_Source :: string
  ap_RequestedByUserID :: uuid
  ap_PausedByUserID :: uuid
  ap_PausedAt :: go_time

record RoomSnapshot =
  rs_ID :: uuid
  rs_RoomCode :: string
  rs_Visibility :: string
  rs_Status :: string
  rs_HostUserID :: uuid
  rs_ParticipantCapacity :: u32
  rs_ParticipantAdmission :: string
  rs_SpectatorAdmission :: string
  rs_Members :: "MemberSnapshot list"
  rs_ActiveSessionID :: uuid
  rs_ActiveGameID :: string
  rs_LastFinishedSessionID :: uuid
  rs_LastFinishedGameID :: string
  rs_PendingPauseRequest :: PendingPauseRequest
  rs_ActivePause :: ActivePause
  rs_SelectedGameID :: string
  rs_RoomVersion :: u64
  rs_MembershipVersion :: u64
  rs_OwnershipEpoch :: u64
  rs_CreatedAt :: go_time
  rs_UpdatedAt :: go_time

type_synonym Room = RoomSnapshot

record JoinResult =
  jr_Member :: MemberSnapshot
  jr_Created :: bool
  jr_Changed :: bool

record ApprovalResult =
  ar_Member :: MemberSnapshot
  ar_Version :: Version

record SessionStart =
  ss_SessionID :: uuid
  ss_GameID :: string
  ss_Participants :: "FrozenParticipant list"
  ss_Version :: Version
  ss_StartedAt :: go_time

record RemovalResult =
  rr_Removed :: MemberSnapshot
  rr_ParticipantRevoked :: bool
  rr_SessionID :: uuid
  rr_SourceEventID :: uuid
  rr_Version :: Version

datatype room_error =
    ErrInvalidRoomInput | ErrRoomVersionConflict | ErrRoomStatus | ErrRoomClosed | ErrAdmissionClosed
  | ErrRoomFull | ErrMemberNotFound | ErrHostRequired | ErrCannotRemoveHost | ErrSessionActive
  | ErrSessionNotFound | ErrInsufficientParticipants | ErrParticipantLimitExceeded | ErrWaitingNotFound
  | ErrRoomVersionOverflow | ErrPauseParticipantRequired | ErrPauseRequestExists | ErrPauseRequestNotFound
  | ErrGameAlreadyPaused | ErrGameNotPaused | ErrHostTransferTargetInvalid | ErrRoomNotFound | ErrRoomCodeUnavailable
  | ErrUsernameConflict | ErrRoomRepositoryUnavailable | ErrRoomIntegrity | ErrGameUnavailable | ErrGameSelectionConflict

type_synonym 'a room_result = "room_error + 'a"

definition no_pending :: PendingPauseRequest where
  "no_pending = \<lparr>pp_ID = uuid_Nil, pp_SessionID = uuid_Nil, pp_RequestedByUserID = uuid_Nil, pp_RequestedAt = 0\<rparr>"

definition no_pause :: ActivePause where
  "no_pause = \<lparr>ap_ID = uuid_Nil, ap_SessionID = uuid_Nil, ap_Source = [], ap_RequestedByUserID = uuid_Nil,
     ap_PausedByUserID = uuid_Nil, ap_PausedAt = 0\<rparr>"

section \<open>Codes and times\<close>

definition canonicalRoomTime :: "go_time \<Rightarrow> go_time" where
  "canonicalRoomTime t = (if t = 0 then 0 else t - t mod 1000)"

text \<open>The loop over the characters; the byte order of \<open>char\<close> is that of the source.\<close>

definition code_char :: "char \<Rightarrow> bool" where
  "code_char c \<longleftrightarrow> (let n = of_char c :: nat in (65 \<le> n \<and> n \<le> 90) \<or> (48 \<le> n \<and> n \<le> 57))"

definition validateRoomCode :: "string \<Rightarrow> unit room_result" where
  "validateRoomCode code =
     (if length code < 4 \<or> length code > 16 \<or> TrimSpace code \<noteq> code then Inl ErrInvalidRoomInput
      else if \<not> list_all code_char code then Inl ErrInvalidRoomInput
      else Inr ())"

section \<open>Validity of the enumerations\<close>

definition Visibility_Valid :: "string \<Rightarrow> bool" where
  "Visibility_Valid v \<longleftrightarrow> v = VisibilityPrivate \<or> v = VisibilityPublic"

definition AdmissionMode_Valid :: "string \<Rightarrow> bool" where
  "AdmissionMode_Valid m \<longleftrightarrow> m = AdmissionOpen \<or> m = AdmissionApproval \<or> m = AdmissionClosed"

definition RoomStatus_Valid :: "string \<Rightarrow> bool" where
  "RoomStatus_Valid s \<longleftrightarrow>
     s = RoomStatusLobby \<or> s = RoomStatusPlaying \<or> s = RoomStatusPostGame \<or> s = RoomStatusClosed"

definition admissionMutable :: "string \<Rightarrow> bool" where
  "admissionMutable s \<longleftrightarrow> s = RoomStatusLobby \<or> s = RoomStatusPostGame"

definition MemberRole_Valid :: "string \<Rightarrow> bool" where
  "MemberRole_Valid r \<longleftrightarrow> r = MemberRoleParticipant \<or> r = MemberRoleSpectator \<or> r = MemberRoleWaiting"

definition JoinIntent_Valid :: "string \<Rightarrow> bool" where
  "JoinIntent_Valid i \<longleftrightarrow> i = JoinIntentParticipant \<or> i = JoinIntentSpectator"

definition PauseSource_Valid :: "string \<Rightarrow> bool" where
  "PauseSource_Valid s \<longleftrightarrow> s = PauseSourceHost \<or> s = PauseSourceApprovedRequest"

section \<open>Restoring a snapshot\<close>

definition memberFromSnapshot :: "MemberSnapshot list \<Rightarrow> uuid \<Rightarrow> MemberSnapshot option" where
  "memberFromSnapshot members userID = find (\<lambda>member. mb_UserID member = userID) members"

definition pendingPauseRequestZero :: "PendingPauseRequest \<Rightarrow> bool" where
  "pendingPauseRequestZero p \<longleftrightarrow>
     pp_ID p = uuid_Nil \<and> pp_SessionID p = uuid_Nil \<and> pp_RequestedByUserID p = uuid_Nil \<and> pp_RequestedAt p = 0"

definition activePauseZero :: "ActivePause \<Rightarrow> bool" where
  "activePauseZero p \<longleftrightarrow>
     ap_ID p = uuid_Nil \<and> ap_SessionID p = uuid_Nil \<and> ap_Source p = [] \<and> ap_RequestedByUserID p = uuid_Nil \<and>
     ap_PausedByUserID p = uuid_Nil \<and> ap_PausedAt p = 0"

definition validatePauseGovernance :: "RoomSnapshot \<Rightarrow> unit room_result" where
  "validatePauseGovernance s =
     (let pendingSet = \<not> pendingPauseRequestZero (rs_PendingPauseRequest s);
          activeSet = \<not> activePauseZero (rs_ActivePause s);
          pending = rs_PendingPauseRequest s; active = rs_ActivePause s in
      if pendingSet \<and> activeSet then Inl ErrInvalidRoomInput
      else if (pendingSet \<or> activeSet) \<and> rs_Status s \<noteq> RoomStatusPlaying then Inl ErrInvalidRoomInput
      else if pendingSet \<and>
        (pp_ID pending = uuid_Nil \<or> pp_SessionID pending \<noteq> rs_ActiveSessionID s \<or>
         pp_RequestedByUserID pending = uuid_Nil \<or> pp_RequestedAt pending = 0 \<or>
         pp_RequestedAt pending < rs_CreatedAt s \<or> pp_RequestedAt pending > rs_UpdatedAt s \<or>
         (case memberFromSnapshot (rs_Members s) (pp_RequestedByUserID pending) of
            None \<Rightarrow> True | Some member \<Rightarrow> mb_Role member \<noteq> MemberRoleParticipant) \<or>
         pp_RequestedByUserID pending = rs_HostUserID s)
      then Inl ErrInvalidRoomInput
      else if activeSet \<and>
        (ap_ID active = uuid_Nil \<or> ap_SessionID active \<noteq> rs_ActiveSessionID s \<or>
         \<not> PauseSource_Valid (ap_Source active) \<or> ap_PausedByUserID active = uuid_Nil \<or> ap_PausedAt active = 0 \<or>
         ap_PausedAt active < rs_CreatedAt s \<or> ap_PausedAt active > rs_UpdatedAt s)
      then Inl ErrInvalidRoomInput
      else if activeSet \<and> ap_Source active = PauseSourceHost \<and> ap_RequestedByUserID active \<noteq> uuid_Nil
      then Inl ErrInvalidRoomInput
      else if activeSet \<and> ap_Source active = PauseSourceApprovedRequest \<and> ap_RequestedByUserID active = uuid_Nil
      then Inl ErrInvalidRoomInput
      else Inr ())"

definition canonical_member :: "MemberSnapshot \<Rightarrow> MemberSnapshot" where
  "canonical_member m = m\<lparr>mb_JoinedAt := canonicalRoomTime (mb_JoinedAt m),
     mb_LastSeenAt := canonicalRoomTime (mb_LastSeenAt m)\<rparr>"

text \<open>
  The loop over the members: the users and the seats met so far, the number of participants and whether the host
  was found. The members already have canonical times.
\<close>

fun restore_members ::
  "RoomSnapshot \<Rightarrow> uuid set \<Rightarrow> u32 set \<Rightarrow> nat \<Rightarrow> bool \<Rightarrow> MemberSnapshot list \<Rightarrow> (nat \<times> bool) room_result" where
  "restore_members s seen seenSeats count hostFound [] = Inr (count, hostFound)"
| "restore_members s seen seenSeats count hostFound (member # rest) =
     (if mb_UserID member = uuid_Nil \<or> \<not> MemberRole_Valid (mb_Role member) \<or> mb_JoinedAt member = 0 \<or>
         mb_LastSeenAt member < mb_JoinedAt member \<or> mb_JoinedAt member < rs_CreatedAt s \<or>
         mb_LastSeenAt member > rs_UpdatedAt s
      then Inl ErrInvalidRoomInput
      else if mb_UserID member \<in> seen then Inl ErrInvalidRoomInput
      else if mb_Role member = MemberRoleParticipant \<and>
        (mb_RequestedRole member \<noteq> [] \<or> mb_SeatIndex member \<in> seenSeats)
      then Inl ErrInvalidRoomInput
      else if mb_Role member = MemberRoleSpectator \<and> (mb_RequestedRole member \<noteq> [] \<or> mb_SeatIndex member \<noteq> 0)
      then Inl ErrInvalidRoomInput
      else if mb_Role member = MemberRoleWaiting \<and>
        (mb_RequestedRole member \<noteq> MemberRoleParticipant \<and> mb_RequestedRole member \<noteq> MemberRoleSpectator \<or>
         mb_SeatIndex member \<noteq> 0)
      then Inl ErrInvalidRoomInput
      else if mb_UserID member = rs_HostUserID s \<and> mb_Role member \<noteq> MemberRoleParticipant
      then Inl ErrInvalidRoomInput
      else restore_members s (insert (mb_UserID member) seen)
        (if mb_Role member = MemberRoleParticipant then insert (mb_SeatIndex member) seenSeats else seenSeats)
        (if mb_Role member = MemberRoleParticipant then Suc count else count)
        (hostFound \<or> mb_UserID member = rs_HostUserID s) rest)"

text \<open>The assignments at the beginning of \<open>Restore\<close>.\<close>

definition normalize_snapshot :: "RoomSnapshot \<Rightarrow> RoomSnapshot" where
  "normalize_snapshot s =
     (let selected = TrimSpace (rs_SelectedGameID s) in
      s\<lparr>rs_RoomCode := TrimSpace (rs_RoomCode s),
        rs_SelectedGameID := (if selected = [] then DefaultSelectedGameID else selected),
        rs_CreatedAt := canonicalRoomTime (rs_CreatedAt s),
        rs_UpdatedAt := canonicalRoomTime (rs_UpdatedAt s),
        rs_PendingPauseRequest := (rs_PendingPauseRequest s)
          \<lparr>pp_RequestedAt := canonicalRoomTime (pp_RequestedAt (rs_PendingPauseRequest s))\<rparr>,
        rs_ActivePause := (rs_ActivePause s)\<lparr>ap_PausedAt := canonicalRoomTime (ap_PausedAt (rs_ActivePause s))\<rparr>,
        rs_OwnershipEpoch := (if rs_OwnershipEpoch s = 0 then 1 else rs_OwnershipEpoch s)\<rparr>)"

definition Restore :: "RoomSnapshot \<Rightarrow> Room room_result" where
  "Restore snapshot =
     (let s = normalize_snapshot snapshot;
          lastFinishedSet = rs_LastFinishedSessionID s \<noteq> uuid_Nil \<or> rs_LastFinishedGameID s \<noteq> [] in
      if rs_ID s = uuid_Nil \<or> rs_HostUserID s = uuid_Nil \<or> rs_SelectedGameID s = [] \<or>
         validateRoomCode (rs_RoomCode s) \<noteq> Inr () \<or>
         \<not> Visibility_Valid (rs_Visibility s) \<or> \<not> RoomStatus_Valid (rs_Status s) \<or> rs_ParticipantCapacity s = 0 \<or>
         \<not> AdmissionMode_Valid (rs_ParticipantAdmission s) \<or> \<not> AdmissionMode_Valid (rs_SpectatorAdmission s) \<or>
         rs_RoomVersion s = 0 \<or> rs_MembershipVersion s = 0 \<or> rs_CreatedAt s = 0 \<or> rs_UpdatedAt s < rs_CreatedAt s
      then Inl ErrInvalidRoomInput
      else if (rs_LastFinishedSessionID s = uuid_Nil) \<noteq> (rs_LastFinishedGameID s = []) then Inl ErrInvalidRoomInput
      else if rs_Status s = RoomStatusPlaying \<and>
        (rs_ActiveSessionID s = uuid_Nil \<or> rs_ActiveGameID s = [] \<or> rs_ParticipantAdmission s \<noteq> AdmissionClosed)
      then Inl ErrInvalidRoomInput
      else if rs_Status s \<noteq> RoomStatusPlaying \<and> (rs_ActiveSessionID s \<noteq> uuid_Nil \<or> rs_ActiveGameID s \<noteq> [])
      then Inl ErrInvalidRoomInput
      else if (rs_Status s = RoomStatusLobby \<or> rs_Status s = RoomStatusPlaying) \<and> lastFinishedSet
      then Inl ErrInvalidRoomInput
      else if rs_Status s = RoomStatusPostGame \<and> \<not> lastFinishedSet then Inl ErrInvalidRoomInput
      else if rs_Status s = RoomStatusClosed \<and>
        (rs_ParticipantAdmission s \<noteq> AdmissionClosed \<or> rs_SpectatorAdmission s \<noteq> AdmissionClosed)
      then Inl ErrInvalidRoomInput
      else if length (rs_Members s) = 0 \<or> length (rs_Members s) > unat (rs_ParticipantCapacity s) + 1000000
      then Inl ErrInvalidRoomInput
      else
        let members = map canonical_member (rs_Members s) in
        and_then (restore_members s {} {} 0 False members) (\<lambda>(participantCount, hostFound).
          if \<not> hostFound \<or> participantCount = 0 \<or> participantCount > unat (rs_ParticipantCapacity s)
          then Inl ErrInvalidRoomInput
          else
            let s' = s\<lparr>rs_Members := members\<rparr> in
            and_then (validatePauseGovernance s') (\<lambda>_. Inr s')))"

definition NewWithAdmission ::
  "uuid \<Rightarrow> uuid \<Rightarrow> string \<Rightarrow> string \<Rightarrow> u32 \<Rightarrow> string \<Rightarrow> string \<Rightarrow> go_time \<Rightarrow> Room room_result" where
  "NewWithAdmission roomID hostUserID roomCode visibility participantCapacity participantAdmission spectatorAdmission createdAt0 =
     (let createdAt = canonicalRoomTime createdAt0 in
      if roomID = uuid_Nil \<or> hostUserID = uuid_Nil \<or> createdAt = 0 then Inl ErrInvalidRoomInput
      else and_then (validateRoomCode roomCode) (\<lambda>_.
        if \<not> Visibility_Valid visibility \<or> participantCapacity = 0 \<or> \<not> AdmissionMode_Valid participantAdmission \<or>
           \<not> AdmissionMode_Valid spectatorAdmission
        then Inl ErrInvalidRoomInput
        else Restore \<lparr>rs_ID = roomID, rs_RoomCode = roomCode, rs_Visibility = visibility, rs_Status = RoomStatusLobby,
          rs_HostUserID = hostUserID, rs_ParticipantCapacity = participantCapacity,
          rs_ParticipantAdmission = participantAdmission, rs_SpectatorAdmission = spectatorAdmission,
          rs_Members = [\<lparr>mb_UserID = hostUserID, mb_Role = MemberRoleParticipant, mb_RequestedRole = [],
            mb_SeatIndex = 0, mb_JoinedAt = createdAt, mb_LastSeenAt = createdAt\<rparr>],
          rs_ActiveSessionID = uuid_Nil, rs_ActiveGameID = [], rs_LastFinishedSessionID = uuid_Nil,
          rs_LastFinishedGameID = [], rs_PendingPauseRequest = no_pending, rs_ActivePause = no_pause,
          rs_SelectedGameID = DefaultSelectedGameID, rs_RoomVersion = 1, rs_MembershipVersion = 1,
          rs_OwnershipEpoch = 0, rs_CreatedAt = createdAt, rs_UpdatedAt = createdAt\<rparr>))"

definition New :: "uuid \<Rightarrow> uuid \<Rightarrow> string \<Rightarrow> string \<Rightarrow> u32 \<Rightarrow> go_time \<Rightarrow> Room room_result" where
  "New roomID hostUserID roomCode visibility participantCapacity createdAt =
     NewWithAdmission roomID hostUserID roomCode visibility participantCapacity AdmissionOpen AdmissionOpen createdAt"

section \<open>Guards shared by the commands\<close>

definition Room_Version :: "Room \<Rightarrow> Version" where
  "Room_Version room = \<lparr>vr_Room = rs_RoomVersion room, vr_Membership = rs_MembershipVersion room\<rparr>"

definition Room_Member :: "Room \<Rightarrow> uuid \<Rightarrow> MemberSnapshot option" where
  "Room_Member room userID = find (\<lambda>member. mb_UserID member = userID) (rs_Members room)"

definition checkHost :: "Room \<Rightarrow> uuid \<Rightarrow> unit room_result" where
  "checkHost room userID = (if userID \<noteq> rs_HostUserID room then Inl ErrHostRequired else Inr ())"

definition checkVersion :: "Room \<Rightarrow> Version \<Rightarrow> unit room_result" where
  "checkVersion room expected = (if expected \<noteq> Room_Version room then Inl ErrRoomVersionConflict else Inr ())"

text \<open>The search loop of \<open>nextSeat\<close> from a seat on.\<close>

function seat_from :: "u32 set \<Rightarrow> u32 \<Rightarrow> u32 \<Rightarrow> u32 option" where
  "seat_from used capacity seat =
     (if seat < capacity then
        (if seat \<notin> used then Some seat else seat_from used capacity (seat + 1))
      else None)"
  by pat_completeness auto

termination
proof (relation "measure (\<lambda>(used, capacity, seat). unat capacity - unat seat)")
  fix used capacity and seat :: u32
  assume "seat < capacity"
  then show "((used, capacity, seat + 1), (used, capacity, seat)) \<in> measure (\<lambda>(used, capacity, seat). unat capacity - unat seat)"
    using unat_plus_1_u32 [OF less_not_MaxUint32 [of seat capacity]] by (simp add: word_less_nat_alt)
qed simp

definition nextSeat :: "Room \<Rightarrow> u32 option" where
  "nextSeat room =
     seat_from (set (map mb_SeatIndex (filter (\<lambda>m. mb_Role m = MemberRoleParticipant) (rs_Members room))))
       (rs_ParticipantCapacity room) 0"

definition bumpVersions :: "RoomSnapshot \<Rightarrow> bool \<Rightarrow> go_time \<Rightarrow> RoomSnapshot room_result" where
  "bumpVersions s membershipChanged at =
     (if rs_RoomVersion s = - 1 \<or> membershipChanged \<and> rs_MembershipVersion s = - 1 then Inl ErrRoomVersionOverflow
      else Inr (s\<lparr>rs_RoomVersion := rs_RoomVersion s + 1,
        rs_MembershipVersion := (if membershipChanged then rs_MembershipVersion s + 1 else rs_MembershipVersion s),
        rs_UpdatedAt := at\<rparr>))"

section \<open>Membership\<close>

text \<open>The first index whose member satisfies the condition, as the loops with \<open>break\<close> find it.\<close>

fun member_index :: "(MemberSnapshot \<Rightarrow> bool) \<Rightarrow> MemberSnapshot list \<Rightarrow> nat option" where
  "member_index P [] = None"
| "member_index P (member # rest) = (if P member then Some 0 else map_option Suc (member_index P rest))"

text \<open>
  A spectator who asks for a seat during a game is turned into a waiting member, in the array that the receiver
  shares; every other outcome leaves the receiver as it is.
\<close>

definition Join :: "Room \<Rightarrow> uuid \<Rightarrow> string \<Rightarrow> Version \<Rightarrow> go_time \<Rightarrow> (Room \<times> JoinResult) room_result \<times> Room" where
  "Join room userID intent expected at0 =
     (let at = canonicalRoomTime at0 in
      if userID = uuid_Nil \<or> \<not> JoinIntent_Valid intent \<or> at = 0 then (Inl ErrInvalidRoomInput, room)
      else case checkVersion room expected of
        Inl err \<Rightarrow> (Inl err, room)
      | Inr _ \<Rightarrow>
      (case Room_Member room userID of
        Some existing \<Rightarrow>
          if rs_Status room = RoomStatusPlaying \<and> intent = JoinIntentParticipant \<and> mb_Role existing = MemberRoleSpectator
          then
            let (queued, shared) =
              (case member_index (\<lambda>m. mb_UserID m = userID) (rs_Members room) of
                 None \<Rightarrow> (existing, room)
               | Some index \<Rightarrow>
                   let queued = (rs_Members room ! index)\<lparr>mb_Role := MemberRoleWaiting,
                         mb_RequestedRole := MemberRoleParticipant, mb_SeatIndex := 0\<rparr> in
                   (queued, room\<lparr>rs_Members := (rs_Members room)[index := queued]\<rparr>)) in
            (and_then (bumpVersions shared True at) (\<lambda>next.
             and_then (Restore next) (\<lambda>updated.
               Inr (updated, \<lparr>jr_Member = queued, jr_Created = False, jr_Changed = True\<rparr>))), shared)
          else (Inr (room, \<lparr>jr_Member = existing, jr_Created = False, jr_Changed = False\<rparr>), room)
      | None \<Rightarrow>
          if rs_Status room = RoomStatusClosed then (Inl ErrRoomClosed, room)
          else
            let mode = (if intent = JoinIntentSpectator then rs_SpectatorAdmission room
                  else rs_ParticipantAdmission room);
                member = \<lparr>mb_UserID = userID, mb_Role = [], mb_RequestedRole = [], mb_SeatIndex = 0,
                  mb_JoinedAt = at, mb_LastSeenAt = at\<rparr>;
                admitted =
                  (if rs_Status room = RoomStatusPlaying \<and> intent = JoinIntentParticipant
                   then Inr (member\<lparr>mb_Role := MemberRoleWaiting, mb_RequestedRole := MemberRoleParticipant\<rparr>)
                   else if mode = AdmissionOpen then
                     (if intent = JoinIntentParticipant then
                        (case nextSeat room of
                           None \<Rightarrow> Inl ErrRoomFull
                         | Some seat \<Rightarrow> Inr (member\<lparr>mb_Role := MemberRoleParticipant, mb_SeatIndex := seat\<rparr>))
                      else Inr (member\<lparr>mb_Role := MemberRoleSpectator\<rparr>))
                   else if mode = AdmissionApproval then
                     Inr (member\<lparr>mb_Role := MemberRoleWaiting, mb_RequestedRole := intent\<rparr>)
                   else if mode = AdmissionClosed then Inl ErrAdmissionClosed
                   else Inl ErrInvalidRoomInput) in
            (and_then admitted (\<lambda>member.
             and_then (bumpVersions (room\<lparr>rs_Members := rs_Members room @ [member]\<rparr>) True at) (\<lambda>next.
             and_then (Restore next) (\<lambda>updated.
               Inr (updated, \<lparr>jr_Member = member, jr_Created = True, jr_Changed = True\<rparr>)))), room)))"

definition SetAdmission :: "Room \<Rightarrow> uuid \<Rightarrow> string \<Rightarrow> string \<Rightarrow> Version \<Rightarrow> go_time \<Rightarrow> Room room_result" where
  "SetAdmission room hostUserID participant spectator expected at0 =
     (let at = canonicalRoomTime at0 in
      if hostUserID = uuid_Nil \<or> \<not> AdmissionMode_Valid participant \<or> \<not> AdmissionMode_Valid spectator \<or> at = 0
      then Inl ErrInvalidRoomInput
      else and_then (checkHost room hostUserID) (\<lambda>_.
        and_then (checkVersion room expected) (\<lambda>_.
        if \<not> admissionMutable (rs_Status room) then Inl ErrRoomStatus
        else and_then (bumpVersions (room\<lparr>rs_ParticipantAdmission := participant,
                rs_SpectatorAdmission := spectator\<rparr>) False at) Restore)))"

definition SelectGame :: "Room \<Rightarrow> uuid \<Rightarrow> string \<Rightarrow> Version \<Rightarrow> go_time \<Rightarrow> Room room_result" where
  "SelectGame room hostUserID gameID0 expected at0 =
     (let gameID = TrimSpace gameID0; at = canonicalRoomTime at0 in
      if hostUserID = uuid_Nil \<or> gameID = [] \<or> at = 0 then Inl ErrInvalidRoomInput
      else and_then (checkHost room hostUserID) (\<lambda>_.
        and_then (checkVersion room expected) (\<lambda>_.
        if \<not> admissionMutable (rs_Status room) then Inl ErrRoomStatus
        else if rs_SelectedGameID room = gameID then Inr room
        else and_then (bumpVersions (room\<lparr>rs_SelectedGameID := gameID\<rparr>) False at) Restore)))"

text \<open>The promoted member is written to the shared array before the versions are checked for overflow.\<close>

definition ApproveWaiting :: "Room \<Rightarrow> uuid \<Rightarrow> uuid \<Rightarrow> Version \<Rightarrow> go_time \<Rightarrow> (Room \<times> ApprovalResult) room_result \<times> Room" where
  "ApproveWaiting room hostUserID userID expected at0 =
     (let at = canonicalRoomTime at0 in
      if hostUserID = uuid_Nil \<or> userID = uuid_Nil \<or> at = 0 then (Inl ErrInvalidRoomInput, room)
      else case and_then (checkHost room hostUserID) (\<lambda>_. checkVersion room expected) of
        Inl err \<Rightarrow> (Inl err, room)
      | Inr _ \<Rightarrow>
      if \<not> admissionMutable (rs_Status room) then (Inl ErrRoomStatus, room)
      else case member_index (\<lambda>m. \<not> (mb_UserID m \<noteq> userID \<or> mb_Role m \<noteq> MemberRoleWaiting)) (rs_Members room) of
        None \<Rightarrow> (Inl ErrWaitingNotFound, room)
      | Some index \<Rightarrow>
          let member = rs_Members room ! index;
              promotion =
                (if mb_RequestedRole member = MemberRoleParticipant then
                   (case nextSeat room of
                      None \<Rightarrow> Inl ErrRoomFull
                    | Some seat \<Rightarrow> Inr (member\<lparr>mb_Role := MemberRoleParticipant, mb_RequestedRole := [], mb_SeatIndex := seat\<rparr>))
                 else Inr (member\<lparr>mb_Role := MemberRoleSpectator, mb_RequestedRole := []\<rparr>)) in
          (case promotion of
             Inl err \<Rightarrow> (Inl err, room)
           | Inr promoted \<Rightarrow>
               let shared = room\<lparr>rs_Members := (rs_Members room)[index := promoted]\<rparr> in
               (and_then (bumpVersions shared True at) (\<lambda>next.
                and_then (Restore next) (\<lambda>updated.
                  Inr (updated, \<lparr>ar_Member = promoted, ar_Version = Room_Version updated\<rparr>))), shared)))"

text \<open>
  \<open>append(members[:i], members[i+1:]...)\<close> shifts the rest of the array to the left. The receiver keeps its length, so
  its last member is there twice.
\<close>

definition shifted_array :: "MemberSnapshot list \<Rightarrow> nat \<Rightarrow> MemberSnapshot list" where
  "shifted_array members index = take index members @ drop (Suc index) members @ [last members]"

text \<open>The part that removal by the host and by an administrator have in common.\<close>

definition remove_member ::
  "Room \<Rightarrow> uuid \<Rightarrow> go_time \<Rightarrow> (Room \<times> RemovalResult) room_result \<times> Room" where
  "remove_member room userID at =
     (if userID = rs_HostUserID room then (Inl ErrCannotRemoveHost, room)
      else case member_index (\<lambda>m. mb_UserID m = userID) (rs_Members room) of
        None \<Rightarrow> (Inl ErrMemberNotFound, room)
      | Some index \<Rightarrow>
          let removed = rs_Members room ! index;
              shared = room\<lparr>rs_Members := shifted_array (rs_Members room) index\<rparr>;
              next = room\<lparr>rs_Members := take index (rs_Members room) @ drop (Suc index) (rs_Members room),
                rs_PendingPauseRequest := (if pp_RequestedByUserID (rs_PendingPauseRequest room) = userID
                  then no_pending else rs_PendingPauseRequest room)\<rparr> in
          (and_then (bumpVersions next True at) (\<lambda>next.
           and_then (Restore next) (\<lambda>updated.
             Inr (updated, \<lparr>rr_Removed = removed,
               rr_ParticipantRevoked = (rs_Status room = RoomStatusPlaying \<and> mb_Role removed = MemberRoleParticipant),
               rr_SessionID = rs_ActiveSessionID room, rr_SourceEventID = uuid_Nil,
               rr_Version = Room_Version updated\<rparr>))), shared))"

definition RemoveMember :: "Room \<Rightarrow> uuid \<Rightarrow> uuid \<Rightarrow> Version \<Rightarrow> go_time \<Rightarrow> (Room \<times> RemovalResult) room_result \<times> Room" where
  "RemoveMember room hostUserID userID expected at0 =
     (let at = canonicalRoomTime at0 in
      if hostUserID = uuid_Nil \<or> userID = uuid_Nil \<or> at = 0 then (Inl ErrInvalidRoomInput, room)
      else case and_then (checkHost room hostUserID) (\<lambda>_. checkVersion room expected) of
        Inl err \<Rightarrow> (Inl err, room)
      | Inr _ \<Rightarrow> remove_member room userID at)"

section \<open>The life cycle of a room\<close>

definition frozen_participants :: "MemberSnapshot list \<Rightarrow> FrozenParticipant list" where
  "frozen_participants members =
     map (\<lambda>m. \<lparr>fp_UserID = mb_UserID m, fp_SeatIndex = mb_SeatIndex m\<rparr>)
       (filter (\<lambda>m. mb_Role m = MemberRoleParticipant) members)"

definition StartSession ::
  "Room \<Rightarrow> uuid \<Rightarrow> uuid \<Rightarrow> string \<Rightarrow> u32 \<Rightarrow> u32 \<Rightarrow> Version \<Rightarrow> go_time \<Rightarrow> (Room \<times> SessionStart) room_result" where
  "StartSession room hostUserID sessionID gameID minimumParticipants maximumParticipants expected at0 =
     (let at = canonicalRoomTime at0 in
      if hostUserID = uuid_Nil \<or> sessionID = uuid_Nil \<or> TrimSpace gameID = [] \<or> minimumParticipants = 0 \<or>
         maximumParticipants < minimumParticipants \<or> at = 0
      then Inl ErrInvalidRoomInput
      else and_then (checkHost room hostUserID) (\<lambda>_.
        and_then (checkVersion room expected) (\<lambda>_.
        if rs_Status room = RoomStatusClosed then Inl ErrRoomClosed
        else if rs_Status room \<noteq> RoomStatusLobby \<and> rs_Status room \<noteq> RoomStatusPostGame then Inl ErrRoomStatus
        else if rs_ActiveSessionID room \<noteq> uuid_Nil then Inl ErrSessionActive
        else
          let participants = frozen_participants (rs_Members room) in
          if length participants < unat minimumParticipants then Inl ErrInsufficientParticipants
          else if length participants > unat maximumParticipants then Inl ErrParticipantLimitExceeded
          else and_then (bumpVersions (room\<lparr>rs_Status := RoomStatusPlaying, rs_ActiveSessionID := sessionID,
                  rs_ActiveGameID := TrimSpace gameID, rs_ParticipantAdmission := AdmissionClosed,
                  rs_LastFinishedSessionID := uuid_Nil, rs_LastFinishedGameID := []\<rparr>) False at) (\<lambda>next.
            and_then (Restore next) (\<lambda>updated.
              Inr (updated, \<lparr>ss_SessionID = sessionID, ss_GameID = rs_ActiveGameID next, ss_Participants = participants,
                ss_Version = Room_Version updated, ss_StartedAt = at\<rparr>))))))"

definition RequestPause :: "Room \<Rightarrow> uuid \<Rightarrow> uuid \<Rightarrow> uuid \<Rightarrow> Version \<Rightarrow> go_time \<Rightarrow> Room room_result" where
  "RequestPause room actorUserID requestID sessionID expected at0 =
     (let at = canonicalRoomTime at0 in
      if actorUserID = uuid_Nil \<or> requestID = uuid_Nil \<or> sessionID = uuid_Nil \<or> at = 0 then Inl ErrInvalidRoomInput
      else and_then (checkVersion room expected) (\<lambda>_.
        if rs_Status room \<noteq> RoomStatusPlaying \<or> rs_ActiveSessionID room \<noteq> sessionID then Inl ErrSessionNotFound
        else if ap_ID (rs_ActivePause room) \<noteq> uuid_Nil then Inl ErrGameAlreadyPaused
        else if pp_ID (rs_PendingPauseRequest room) \<noteq> uuid_Nil then Inl ErrPauseRequestExists
        else if (case Room_Member room actorUserID of None \<Rightarrow> True | Some member \<Rightarrow> mb_Role member \<noteq> MemberRoleParticipant) \<or>
          actorUserID = rs_HostUserID room
        then Inl ErrPauseParticipantRequired
        else and_then (bumpVersions (room\<lparr>rs_PendingPauseRequest := \<lparr>pp_ID = requestID, pp_SessionID = sessionID,
                pp_RequestedByUserID = actorUserID, pp_RequestedAt = at\<rparr>\<rparr>) False at) Restore))"

definition RejectPause :: "Room \<Rightarrow> uuid \<Rightarrow> uuid \<Rightarrow> Version \<Rightarrow> go_time \<Rightarrow> Room room_result" where
  "RejectPause room hostUserID requestID expected at0 =
     (let at = canonicalRoomTime at0 in
      if hostUserID = uuid_Nil \<or> requestID = uuid_Nil \<or> at = 0 then Inl ErrInvalidRoomInput
      else and_then (checkHost room hostUserID) (\<lambda>_.
        and_then (checkVersion room expected) (\<lambda>_.
        if pp_ID (rs_PendingPauseRequest room) \<noteq> requestID then Inl ErrPauseRequestNotFound
        else and_then (bumpVersions (room\<lparr>rs_PendingPauseRequest := no_pending\<rparr>) False at) Restore)))"

definition Pause :: "Room \<Rightarrow> uuid \<Rightarrow> uuid \<Rightarrow> uuid \<Rightarrow> uuid \<Rightarrow> Version \<Rightarrow> go_time \<Rightarrow> Room room_result" where
  "Pause room hostUserID pauseID sessionID requestID expected at0 =
     (let at = canonicalRoomTime at0 in
      if hostUserID = uuid_Nil \<or> pauseID = uuid_Nil \<or> sessionID = uuid_Nil \<or> at = 0 then Inl ErrInvalidRoomInput
      else and_then (checkHost room hostUserID) (\<lambda>_.
        and_then (checkVersion room expected) (\<lambda>_.
        if rs_Status room \<noteq> RoomStatusPlaying \<or> rs_ActiveSessionID room \<noteq> sessionID then Inl ErrSessionNotFound
        else if ap_ID (rs_ActivePause room) \<noteq> uuid_Nil then Inl ErrGameAlreadyPaused
        else if requestID \<noteq> uuid_Nil \<and>
          (pp_ID (rs_PendingPauseRequest room) \<noteq> requestID \<or> pp_SessionID (rs_PendingPauseRequest room) \<noteq> sessionID)
        then Inl ErrPauseRequestNotFound
        else
          let source = (if requestID \<noteq> uuid_Nil then PauseSourceApprovedRequest else PauseSourceHost);
              requestedBy = (if requestID \<noteq> uuid_Nil then pp_RequestedByUserID (rs_PendingPauseRequest room) else uuid_Nil) in
          and_then (bumpVersions (room\<lparr>rs_PendingPauseRequest := no_pending,
                rs_ActivePause := \<lparr>ap_ID = pauseID, ap_SessionID = sessionID, ap_Source = source,
                  ap_RequestedByUserID = requestedBy, ap_PausedByUserID = hostUserID, ap_PausedAt = at\<rparr>\<rparr>) False at) Restore)))"

definition Resume :: "Room \<Rightarrow> uuid \<Rightarrow> uuid \<Rightarrow> Version \<Rightarrow> go_time \<Rightarrow> Room room_result" where
  "Resume room hostUserID sessionID expected at0 =
     (let at = canonicalRoomTime at0 in
      if hostUserID = uuid_Nil \<or> sessionID = uuid_Nil \<or> at = 0 then Inl ErrInvalidRoomInput
      else and_then (checkHost room hostUserID) (\<lambda>_.
        and_then (checkVersion room expected) (\<lambda>_.
        if rs_Status room \<noteq> RoomStatusPlaying \<or> rs_ActiveSessionID room \<noteq> sessionID then Inl ErrSessionNotFound
        else if ap_ID (rs_ActivePause room) = uuid_Nil \<or> ap_SessionID (rs_ActivePause room) \<noteq> sessionID
        then Inl ErrGameNotPaused
        else and_then (bumpVersions (room\<lparr>rs_ActivePause := no_pause\<rparr>) False at) Restore)))"

definition TransferHost :: "Room \<Rightarrow> uuid \<Rightarrow> uuid \<Rightarrow> u64 \<Rightarrow> Version \<Rightarrow> go_time \<Rightarrow> Room room_result" where
  "TransferHost room hostUserID targetUserID expectedOwnershipEpoch expected at0 =
     (let at = canonicalRoomTime at0 in
      if hostUserID = uuid_Nil \<or> targetUserID = uuid_Nil \<or> expectedOwnershipEpoch = 0 \<or> at = 0 then Inl ErrInvalidRoomInput
      else and_then (checkHost room hostUserID) (\<lambda>_.
        and_then (checkVersion room expected) (\<lambda>_.
        if rs_OwnershipEpoch room \<noteq> expectedOwnershipEpoch then Inl ErrRoomVersionConflict
        else if rs_Status room = RoomStatusClosed then Inl ErrRoomClosed
        else if (case Room_Member room targetUserID of None \<Rightarrow> True | Some target \<Rightarrow> mb_Role target \<noteq> MemberRoleParticipant) \<or>
          targetUserID = hostUserID
        then Inl ErrHostTransferTargetInvalid
        else if rs_OwnershipEpoch room = - 1 then Inl ErrRoomVersionOverflow
        else and_then (bumpVersions (room\<lparr>rs_HostUserID := targetUserID,
                rs_OwnershipEpoch := rs_OwnershipEpoch room + 1,
                rs_PendingPauseRequest := (if pp_RequestedByUserID (rs_PendingPauseRequest room) = targetUserID
                  then no_pending else rs_PendingPauseRequest room)\<rparr>) False at) Restore)))"

definition FinishSession :: "Room \<Rightarrow> uuid \<Rightarrow> Version \<Rightarrow> go_time \<Rightarrow> Room room_result" where
  "FinishSession room sessionID expected at0 =
     (let at = canonicalRoomTime at0 in
      if sessionID = uuid_Nil \<or> at = 0 then Inl ErrInvalidRoomInput
      else and_then (checkVersion room expected) (\<lambda>_.
        if rs_Status room \<noteq> RoomStatusPlaying then Inl ErrRoomStatus
        else if rs_ActiveSessionID room \<noteq> sessionID then Inl ErrSessionNotFound
        else and_then (bumpVersions (room\<lparr>rs_Status := RoomStatusPostGame, rs_ActiveSessionID := uuid_Nil,
                rs_ActiveGameID := [], rs_ParticipantAdmission := AdmissionClosed,
                rs_LastFinishedSessionID := sessionID, rs_LastFinishedGameID := rs_ActiveGameID room,
                rs_PendingPauseRequest := no_pending, rs_ActivePause := no_pause\<rparr>) False at) Restore))"

definition CancelSession :: "Room \<Rightarrow> uuid \<Rightarrow> Version \<Rightarrow> go_time \<Rightarrow> Room room_result" where
  "CancelSession room sessionID expected at0 =
     (let at = canonicalRoomTime at0 in
      if sessionID = uuid_Nil \<or> at = 0 then Inl ErrInvalidRoomInput
      else and_then (checkVersion room expected) (\<lambda>_.
        if rs_Status room \<noteq> RoomStatusPlaying then Inl ErrRoomStatus
        else if rs_ActiveSessionID room \<noteq> sessionID then Inl ErrSessionNotFound
        else and_then (bumpVersions (room\<lparr>rs_Status := RoomStatusLobby, rs_ActiveSessionID := uuid_Nil,
                rs_ActiveGameID := [], rs_ParticipantAdmission := AdmissionClosed,
                rs_LastFinishedSessionID := uuid_Nil, rs_LastFinishedGameID := [],
                rs_PendingPauseRequest := no_pending, rs_ActivePause := no_pause\<rparr>) False at) Restore))"

definition CancelSessionAndClose :: "Room \<Rightarrow> uuid \<Rightarrow> uuid \<Rightarrow> Version \<Rightarrow> go_time \<Rightarrow> Room room_result" where
  "CancelSessionAndClose room hostUserID sessionID expected at0 =
     (let at = canonicalRoomTime at0 in
      if hostUserID = uuid_Nil \<or> sessionID = uuid_Nil \<or> at = 0 then Inl ErrInvalidRoomInput
      else and_then (checkHost room hostUserID) (\<lambda>_.
        and_then (checkVersion room expected) (\<lambda>_.
        if rs_Status room \<noteq> RoomStatusPlaying then Inl ErrRoomStatus
        else if rs_ActiveSessionID room \<noteq> sessionID then Inl ErrSessionNotFound
        else and_then (bumpVersions (room\<lparr>rs_Status := RoomStatusClosed, rs_ActiveSessionID := uuid_Nil,
                rs_ActiveGameID := [], rs_ParticipantAdmission := AdmissionClosed,
                rs_SpectatorAdmission := AdmissionClosed,
                rs_LastFinishedSessionID := uuid_Nil, rs_LastFinishedGameID := [],
                rs_PendingPauseRequest := no_pending, rs_ActivePause := no_pause\<rparr>) False at) Restore)))"

text \<open>The part that closing by the host and by an administrator have in common.\<close>

definition close_room :: "Room \<Rightarrow> go_time \<Rightarrow> Room room_result" where
  "close_room room at =
     (if rs_Status room = RoomStatusPlaying then Inl ErrSessionActive
      else if rs_Status room = RoomStatusClosed then Inr room
      else and_then (bumpVersions (room\<lparr>rs_Status := RoomStatusClosed, rs_ParticipantAdmission := AdmissionClosed,
              rs_SpectatorAdmission := AdmissionClosed, rs_PendingPauseRequest := no_pending,
              rs_ActivePause := no_pause\<rparr>) False at) Restore)"

definition Close :: "Room \<Rightarrow> uuid \<Rightarrow> Version \<Rightarrow> go_time \<Rightarrow> Room room_result" where
  "Close room hostUserID expected at0 =
     (let at = canonicalRoomTime at0 in
      if hostUserID = uuid_Nil \<or> at = 0 then Inl ErrInvalidRoomInput
      else and_then (checkHost room hostUserID) (\<lambda>_.
        and_then (checkVersion room expected) (\<lambda>_. close_room room at)))"

section \<open>Commands of administrators\<close>

record AdminActor =
  aa_ID :: uuid

definition SetAdmissionByAdmin :: "Room \<Rightarrow> AdminActor \<Rightarrow> string \<Rightarrow> string \<Rightarrow> Version \<Rightarrow> go_time \<Rightarrow> Room room_result" where
  "SetAdmissionByAdmin room actor participant spectator expected at0 =
     (let at = canonicalRoomTime at0 in
      if aa_ID actor = uuid_Nil \<or> \<not> AdmissionMode_Valid participant \<or> \<not> AdmissionMode_Valid spectator \<or> at = 0
      then Inl ErrInvalidRoomInput
      else and_then (checkVersion room expected) (\<lambda>_.
        if \<not> admissionMutable (rs_Status room) then Inl ErrRoomStatus
        else and_then (bumpVersions (room\<lparr>rs_ParticipantAdmission := participant,
                rs_SpectatorAdmission := spectator\<rparr>) False at) Restore))"

definition RemoveMemberByAdmin ::
  "Room \<Rightarrow> AdminActor \<Rightarrow> uuid \<Rightarrow> Version \<Rightarrow> go_time \<Rightarrow> (Room \<times> RemovalResult) room_result \<times> Room" where
  "RemoveMemberByAdmin room actor userID expected at0 =
     (let at = canonicalRoomTime at0 in
      if aa_ID actor = uuid_Nil \<or> userID = uuid_Nil \<or> at = 0 then (Inl ErrInvalidRoomInput, room)
      else case checkVersion room expected of
        Inl err \<Rightarrow> (Inl err, room)
      | Inr _ \<Rightarrow> remove_member room userID at)"

definition CloseWaitingByAdmin :: "Room \<Rightarrow> AdminActor \<Rightarrow> Version \<Rightarrow> go_time \<Rightarrow> Room room_result" where
  "CloseWaitingByAdmin room actor expected at0 =
     (let at = canonicalRoomTime at0 in
      if aa_ID actor = uuid_Nil \<or> at = 0 then Inl ErrInvalidRoomInput
      else and_then (checkVersion room expected) (\<lambda>_. close_room room at))"

section \<open>The checks of the repository\<close>

definition validateRoomPersistenceWidths :: "RoomSnapshot \<Rightarrow> unit room_result" where
  "validateRoomPersistenceWidths s =
     (if rs_ParticipantCapacity s > 2147483647 \<or> rs_RoomVersion s > 9223372036854775807 \<or>
         rs_MembershipVersion s > 9223372036854775807 \<or> rs_OwnershipEpoch s > 9223372036854775807
      then Inl ErrInvalidRoomInput
      else if list_ex (\<lambda>m. mb_SeatIndex m > 2147483647) (rs_Members s) then Inl ErrInvalidRoomInput
      else Inr ())"

definition validateRoomTransition :: "RoomSnapshot \<Rightarrow> RoomSnapshot \<Rightarrow> unit room_result" where
  "validateRoomTransition before after =
     and_then (validateRoomPersistenceWidths before) (\<lambda>_.
     and_then (validateRoomPersistenceWidths after) (\<lambda>_.
       if rs_ID before \<noteq> rs_ID after \<or> rs_RoomCode before \<noteq> rs_RoomCode after \<or>
          rs_CreatedAt before \<noteq> rs_CreatedAt after \<or>
          (rs_OwnershipEpoch after \<noteq> rs_OwnershipEpoch before \<and> rs_OwnershipEpoch after \<noteq> rs_OwnershipEpoch before + 1) \<or>
          rs_RoomVersion after \<noteq> rs_RoomVersion before + 1 \<or>
          (rs_MembershipVersion after \<noteq> rs_MembershipVersion before \<and>
           rs_MembershipVersion after \<noteq> rs_MembershipVersion before + 1)
       then Inl ErrInvalidRoomInput
       else Inr ()))"

definition removedParticipantTransition :: "RoomSnapshot \<Rightarrow> RoomSnapshot \<Rightarrow> uuid \<Rightarrow> bool" where
  "removedParticipantTransition before after userID =
     (if rs_Status before \<noteq> RoomStatusPlaying \<or> rs_ActiveSessionID before = uuid_Nil \<or>
         rs_RoomVersion after \<noteq> rs_RoomVersion before + 1 \<or>
         rs_MembershipVersion after \<noteq> rs_MembershipVersion before + 1
      then False
      else if \<not> list_ex (\<lambda>m. mb_UserID m = userID \<and> mb_Role m = MemberRoleParticipant) (rs_Members before) then False
      else \<not> list_ex (\<lambda>m. mb_UserID m = userID) (rs_Members after))"

end
