(* ===== verification/RoomProps.thy ===== *)
theory RoomProps
  imports Room
begin

text \<open>
  What a restored room satisfies. \<open>Restore\<close> is read off as a predicate on the normalised snapshot; normalising is
  idempotent, so a restored room is a fixed point of \<open>Restore\<close>. Each command is then shown to be a guarded update
  of such a room.
\<close>

section \<open>Normal forms\<close>

lemma canonicalRoomTime_idem [simp]: "canonicalRoomTime (canonicalRoomTime t) = canonicalRoomTime t"
  by (simp add: canonicalRoomTime_def mod_diff_left_eq [symmetric])

lemma canonical_member_idem [simp]: "canonical_member (canonical_member m) = canonical_member m"
  by (simp add: canonical_member_def)

section \<open>The invariant of a room\<close>

definition seated :: "MemberSnapshot \<Rightarrow> bool" where
  "seated m \<longleftrightarrow> mb_Role m = MemberRoleParticipant"

definition member_ok :: "RoomSnapshot \<Rightarrow> MemberSnapshot \<Rightarrow> bool" where
  "member_ok s m \<longleftrightarrow>
     mb_UserID m \<noteq> uuid_Nil \<and> mb_JoinedAt m \<noteq> 0 \<and> rs_CreatedAt s \<le> mb_JoinedAt m \<and>
     mb_JoinedAt m \<le> mb_LastSeenAt m \<and> mb_LastSeenAt m \<le> rs_UpdatedAt s \<and>
     (mb_Role m = MemberRoleParticipant \<and> mb_RequestedRole m = [] \<or>
      mb_Role m = MemberRoleSpectator \<and> mb_RequestedRole m = [] \<and> mb_SeatIndex m = 0 \<or>
      mb_Role m = MemberRoleWaiting \<and> mb_RequestedRole m \<in> {MemberRoleParticipant, MemberRoleSpectator} \<and>
        mb_SeatIndex m = 0) \<and>
     (mb_UserID m = rs_HostUserID s \<longrightarrow> seated m)"

definition members_ok :: "RoomSnapshot \<Rightarrow> bool" where
  "members_ok s \<longleftrightarrow>
     (\<forall>m \<in> set (rs_Members s). member_ok s m) \<and> distinct (map mb_UserID (rs_Members s)) \<and>
     distinct (map mb_SeatIndex (filter seated (rs_Members s))) \<and>
     rs_HostUserID s \<in> mb_UserID ` set (rs_Members s) \<and>
     length (filter seated (rs_Members s)) \<le> unat (rs_ParticipantCapacity s) \<and>
     length (rs_Members s) \<le> unat (rs_ParticipantCapacity s) + 1000000"

definition header_ok :: "RoomSnapshot \<Rightarrow> bool" where
  "header_ok s \<longleftrightarrow>
     rs_ID s \<noteq> uuid_Nil \<and> rs_HostUserID s \<noteq> uuid_Nil \<and> rs_SelectedGameID s \<noteq> [] \<and>
     validateRoomCode (rs_RoomCode s) = Inr () \<and> Visibility_Valid (rs_Visibility s) \<and>
     RoomStatus_Valid (rs_Status s) \<and> rs_ParticipantCapacity s \<noteq> 0 \<and>
     AdmissionMode_Valid (rs_ParticipantAdmission s) \<and> AdmissionMode_Valid (rs_SpectatorAdmission s) \<and>
     rs_RoomVersion s \<noteq> 0 \<and> rs_MembershipVersion s \<noteq> 0 \<and> rs_CreatedAt s \<noteq> 0 \<and> rs_CreatedAt s \<le> rs_UpdatedAt s"

definition lifecycle_ok :: "RoomSnapshot \<Rightarrow> bool" where
  "lifecycle_ok s \<longleftrightarrow>
     (rs_LastFinishedSessionID s = uuid_Nil \<longleftrightarrow> rs_LastFinishedGameID s = []) \<and>
     (if rs_Status s = RoomStatusPlaying
      then rs_ActiveSessionID s \<noteq> uuid_Nil \<and> rs_ActiveGameID s \<noteq> [] \<and> rs_ParticipantAdmission s = AdmissionClosed
      else rs_ActiveSessionID s = uuid_Nil \<and> rs_ActiveGameID s = []) \<and>
     (rs_Status s \<in> {RoomStatusLobby, RoomStatusPlaying} \<longrightarrow> rs_LastFinishedSessionID s = uuid_Nil) \<and>
     (rs_Status s = RoomStatusPostGame \<longrightarrow> rs_LastFinishedSessionID s \<noteq> uuid_Nil) \<and>
     (rs_Status s = RoomStatusClosed \<longrightarrow>
        rs_ParticipantAdmission s = AdmissionClosed \<and> rs_SpectatorAdmission s = AdmissionClosed)"

definition pending_ok :: "RoomSnapshot \<Rightarrow> bool" where
  "pending_ok s \<longleftrightarrow>
     (let p = rs_PendingPauseRequest s in
      rs_Status s = RoomStatusPlaying \<and> pp_ID p \<noteq> uuid_Nil \<and> pp_SessionID p = rs_ActiveSessionID s \<and>
      pp_RequestedByUserID p \<noteq> uuid_Nil \<and> pp_RequestedAt p \<noteq> 0 \<and> rs_CreatedAt s \<le> pp_RequestedAt p \<and>
      pp_RequestedAt p \<le> rs_UpdatedAt s \<and> pp_RequestedByUserID p \<noteq> rs_HostUserID s \<and>
      (\<exists>m. memberFromSnapshot (rs_Members s) (pp_RequestedByUserID p) = Some m \<and> seated m))"

definition paused_ok :: "RoomSnapshot \<Rightarrow> bool" where
  "paused_ok s \<longleftrightarrow>
     (let p = rs_ActivePause s in
      rs_Status s = RoomStatusPlaying \<and> ap_ID p \<noteq> uuid_Nil \<and> ap_SessionID p = rs_ActiveSessionID s \<and>
      ap_PausedByUserID p \<noteq> uuid_Nil \<and> ap_PausedAt p \<noteq> 0 \<and> rs_CreatedAt s \<le> ap_PausedAt p \<and>
      ap_PausedAt p \<le> rs_UpdatedAt s \<and>
      (ap_Source p = PauseSourceHost \<and> ap_RequestedByUserID p = uuid_Nil \<or>
       ap_Source p = PauseSourceApprovedRequest \<and> ap_RequestedByUserID p \<noteq> uuid_Nil))"

definition pause_ok :: "RoomSnapshot \<Rightarrow> bool" where
  "pause_ok s \<longleftrightarrow>
     (rs_PendingPauseRequest s = no_pending \<or> pending_ok s) \<and> (rs_ActivePause s = no_pause \<or> paused_ok s) \<and>
     (rs_PendingPauseRequest s = no_pending \<or> rs_ActivePause s = no_pause)"

definition room_ok :: "RoomSnapshot \<Rightarrow> bool" where
  "room_ok s \<longleftrightarrow> header_ok s \<and> lifecycle_ok s \<and> members_ok s \<and> pause_ok s"

text \<open>The normal form that \<open>Restore\<close> gives a snapshot.\<close>

definition canon :: "RoomSnapshot \<Rightarrow> RoomSnapshot" where
  "canon s = (normalize_snapshot s)\<lparr>rs_Members := map canonical_member (rs_Members s)\<rparr>"

lemma room_guard [outcome]: "(if c then Inl e else m) = Inr x \<longleftrightarrow> \<not> c \<and> m = Inr x"
  by simp

lemma restore_members_iff:
  "restore_members s seen seats count host ms = Inr r \<longleftrightarrow>
     (\<forall>m \<in> set ms. member_ok s m) \<and> distinct (map mb_UserID ms) \<and> seen \<inter> mb_UserID ` set ms = {} \<and>
     distinct (map mb_SeatIndex (filter seated ms)) \<and> seats \<inter> mb_SeatIndex ` set (filter seated ms) = {} \<and>
     r = (count + length (filter seated ms), host \<or> rs_HostUserID s \<in> mb_UserID ` set ms)"
proof (induction ms arbitrary: seen seats count host)
  case (Cons m ms)
  show ?case
  proof (cases "member_ok s m")
    case True
    then show ?thesis
      by (auto simp: Cons.IH outcome member_ok_def seated_def MemberRole_Valid_def not_less)
  next
    case False
    then show ?thesis by (auto simp: outcome member_ok_def seated_def MemberRole_Valid_def not_less)
  qed
qed auto

lemma pending_zero: "pendingPauseRequestZero p \<longleftrightarrow> p = no_pending"
  by (cases p) (simp add: pendingPauseRequestZero_def no_pending_def)

lemma pause_zero: "activePauseZero p \<longleftrightarrow> p = no_pause"
  by (cases p) (simp add: activePauseZero_def no_pause_def)

lemma validatePauseGovernance_iff: "validatePauseGovernance s = Inr u \<longleftrightarrow> pause_ok s"
  unfolding validatePauseGovernance_def Let_def outcome pending_zero pause_zero pause_ok_def pending_ok_def paused_ok_def
  by (auto simp: seated_def PauseSource_Valid_def not_less split: option.splits)

lemma normalize_Members [simp]: "rs_Members (normalize_snapshot s) = rs_Members s"
  by (simp add: normalize_snapshot_def Let_def)

lemma restore_members_cong:
  "rs_HostUserID s = rs_HostUserID t \<Longrightarrow> rs_CreatedAt s = rs_CreatedAt t \<Longrightarrow> rs_UpdatedAt s = rs_UpdatedAt t \<Longrightarrow>
     member_ok s m = member_ok t m"
  by (simp add: member_ok_def)

text \<open>The guards of \<open>Restore\<close>, in its order.\<close>

lemma header_guard:
  "(\<not> (rs_ID s = uuid_Nil \<or> rs_HostUserID s = uuid_Nil \<or> rs_SelectedGameID s = [] \<or>
         validateRoomCode (rs_RoomCode s) \<noteq> Inr () \<or>
         \<not> Visibility_Valid (rs_Visibility s) \<or> \<not> RoomStatus_Valid (rs_Status s) \<or> rs_ParticipantCapacity s = 0 \<or>
         \<not> AdmissionMode_Valid (rs_ParticipantAdmission s) \<or> \<not> AdmissionMode_Valid (rs_SpectatorAdmission s) \<or>
         rs_RoomVersion s = 0 \<or> rs_MembershipVersion s = 0 \<or> rs_CreatedAt s = 0 \<or> rs_UpdatedAt s < rs_CreatedAt s)) =
     header_ok s"
  unfolding header_ok_def by (auto simp: not_less)

lemma lifecycle_guards:
  "(\<not> ((rs_LastFinishedSessionID s = uuid_Nil) \<noteq> (rs_LastFinishedGameID s = [])) \<and>
    \<not> (rs_Status s = RoomStatusPlaying \<and>
        (rs_ActiveSessionID s = uuid_Nil \<or> rs_ActiveGameID s = [] \<or> rs_ParticipantAdmission s \<noteq> AdmissionClosed)) \<and>
    \<not> (rs_Status s \<noteq> RoomStatusPlaying \<and> (rs_ActiveSessionID s \<noteq> uuid_Nil \<or> rs_ActiveGameID s \<noteq> [])) \<and>
    \<not> ((rs_Status s = RoomStatusLobby \<or> rs_Status s = RoomStatusPlaying) \<and>
        (rs_LastFinishedSessionID s \<noteq> uuid_Nil \<or> rs_LastFinishedGameID s \<noteq> [])) \<and>
    \<not> (rs_Status s = RoomStatusPostGame \<and>
        \<not> (rs_LastFinishedSessionID s \<noteq> uuid_Nil \<or> rs_LastFinishedGameID s \<noteq> [])) \<and>
    \<not> (rs_Status s = RoomStatusClosed \<and>
        (rs_ParticipantAdmission s \<noteq> AdmissionClosed \<or> rs_SpectatorAdmission s \<noteq> AdmissionClosed)) \<and> P) =
   (lifecycle_ok s \<and> P)"
proof -
  have "lifecycle_ok s \<longleftrightarrow>
     (rs_LastFinishedSessionID s = uuid_Nil) = (rs_LastFinishedGameID s = []) \<and>
     (rs_Status s = RoomStatusPlaying \<longrightarrow>
       rs_ActiveSessionID s \<noteq> uuid_Nil \<and> rs_ActiveGameID s \<noteq> [] \<and> rs_ParticipantAdmission s = AdmissionClosed) \<and>
     (rs_Status s \<noteq> RoomStatusPlaying \<longrightarrow> rs_ActiveSessionID s = uuid_Nil \<and> rs_ActiveGameID s = []) \<and>
     (rs_Status s = RoomStatusLobby \<or> rs_Status s = RoomStatusPlaying \<longrightarrow> rs_LastFinishedSessionID s = uuid_Nil) \<and>
     (rs_Status s = RoomStatusPostGame \<longrightarrow> rs_LastFinishedSessionID s \<noteq> uuid_Nil) \<and>
     (rs_Status s = RoomStatusClosed \<longrightarrow>
       rs_ParticipantAdmission s = AdmissionClosed \<and> rs_SpectatorAdmission s = AdmissionClosed)"
    unfolding lifecycle_ok_def if_bool_eq_conj by (simp only: insert_iff empty_iff simp_thms) blast
  then show ?thesis by blast
qed

lemma Restore_iff: "Restore s = Inr r \<longleftrightarrow> r = canon s \<and> room_ok (canon s)"
proof -
  let ?n = "normalize_snapshot s"
  define ms where "ms = map canonical_member (rs_Members s)"
  have c: "?n\<lparr>rs_Members := map canonical_member (rs_Members s)\<rparr> = canon s" by (simp add: canon_def)
  have len: "length ms = length (rs_Members s)" "rs_Members s = [] \<longleftrightarrow> ms = []" by (simp_all add: ms_def)
  have f: "rs_ID (canon s) = rs_ID ?n" "rs_HostUserID (canon s) = rs_HostUserID ?n"
    "rs_SelectedGameID (canon s) = rs_SelectedGameID ?n" "rs_RoomCode (canon s) = rs_RoomCode ?n"
    "rs_Visibility (canon s) = rs_Visibility ?n" "rs_Status (canon s) = rs_Status ?n"
    "rs_ParticipantCapacity (canon s) = rs_ParticipantCapacity ?n"
    "rs_ParticipantAdmission (canon s) = rs_ParticipantAdmission ?n"
    "rs_SpectatorAdmission (canon s) = rs_SpectatorAdmission ?n" "rs_RoomVersion (canon s) = rs_RoomVersion ?n"
    "rs_MembershipVersion (canon s) = rs_MembershipVersion ?n" "rs_CreatedAt (canon s) = rs_CreatedAt ?n"
    "rs_UpdatedAt (canon s) = rs_UpdatedAt ?n" "rs_LastFinishedSessionID (canon s) = rs_LastFinishedSessionID ?n"
    "rs_LastFinishedGameID (canon s) = rs_LastFinishedGameID ?n" "rs_ActiveSessionID (canon s) = rs_ActiveSessionID ?n"
    "rs_ActiveGameID (canon s) = rs_ActiveGameID ?n" "rs_Members (canon s) = ms"
    by (simp_all add: canon_def ms_def)
  have m: "member_ok (canon s) = member_ok ?n" by (rule ext) (rule restore_members_cong; simp add: f)
  have "Restore s = Inr r \<longleftrightarrow> header_ok ?n \<and> lifecycle_ok ?n \<and>
      \<not> (length (rs_Members s) = 0 \<or> length (rs_Members s) > unat (rs_ParticipantCapacity ?n) + 1000000) \<and>
      (\<exists>q. restore_members ?n {} {} 0 False ms = Inr q \<and>
        (case q of (participantCount, hostFound) \<Rightarrow>
          if \<not> hostFound \<or> participantCount = 0 \<or> participantCount > unat (rs_ParticipantCapacity ?n)
          then Inl ErrInvalidRoomInput else and_then (validatePauseGovernance (canon s)) (\<lambda>_. Inr (canon s))) = Inr r)"
    unfolding Restore_def Let_def outcome header_guard lifecycle_guards normalize_Members c ms_def ..
  also have "\<dots> \<longleftrightarrow> header_ok ?n \<and> lifecycle_ok ?n \<and> rs_Members s \<noteq> [] \<and>
      length (rs_Members s) \<le> unat (rs_ParticipantCapacity ?n) + 1000000 \<and>
      (\<forall>m \<in> set ms. member_ok ?n m) \<and> distinct (map mb_UserID ms) \<and> distinct (map mb_SeatIndex (filter seated ms)) \<and>
      rs_HostUserID ?n \<in> mb_UserID ` set ms \<and> filter seated ms \<noteq> [] \<and>
      length (filter seated ms) \<le> unat (rs_ParticipantCapacity ?n) \<and> pause_ok (canon s) \<and> r = canon s"
    unfolding restore_members_iff by (auto simp: validatePauseGovernance_iff outcome not_less)
  finally have "Restore s = Inr r \<longleftrightarrow> header_ok ?n \<and> lifecycle_ok ?n \<and> rs_Members s \<noteq> [] \<and>
      length (rs_Members s) \<le> unat (rs_ParticipantCapacity ?n) + 1000000 \<and>
      (\<forall>m \<in> set ms. member_ok ?n m) \<and> distinct (map mb_UserID ms) \<and> distinct (map mb_SeatIndex (filter seated ms)) \<and>
      rs_HostUserID ?n \<in> mb_UserID ` set ms \<and> filter seated ms \<noteq> [] \<and>
      length (filter seated ms) \<le> unat (rs_ParticipantCapacity ?n) \<and> pause_ok (canon s) \<and> r = canon s" .
  moreover have "filter seated ms \<noteq> []" if "rs_HostUserID ?n \<in> mb_UserID ` set ms" "\<forall>m \<in> set ms. member_ok ?n m"
    using that by (auto simp: member_ok_def filter_empty_conv)
  moreover have "header_ok (canon s) = header_ok ?n" "lifecycle_ok (canon s) = lifecycle_ok ?n"
    by (simp_all add: header_ok_def lifecycle_ok_def f)
  ultimately show ?thesis by (auto simp: room_ok_def members_ok_def f m len)
qed

section \<open>Canonical snapshots\<close>

definition canonical :: "RoomSnapshot \<Rightarrow> bool" where
  "canonical s \<longleftrightarrow>
     TrimSpace (rs_RoomCode s) = rs_RoomCode s \<and> TrimSpace (rs_SelectedGameID s) = rs_SelectedGameID s \<and>
     rs_SelectedGameID s \<noteq> [] \<and> canonicalRoomTime (rs_CreatedAt s) = rs_CreatedAt s \<and>
     canonicalRoomTime (rs_UpdatedAt s) = rs_UpdatedAt s \<and>
     canonicalRoomTime (pp_RequestedAt (rs_PendingPauseRequest s)) = pp_RequestedAt (rs_PendingPauseRequest s) \<and>
     canonicalRoomTime (ap_PausedAt (rs_ActivePause s)) = ap_PausedAt (rs_ActivePause s) \<and>
     rs_OwnershipEpoch s \<noteq> 0 \<and> (\<forall>m \<in> set (rs_Members s). canonical_member m = m)"

lemma canon_canonical: "canonical s \<Longrightarrow> canon s = s"
  by (simp add: canon_def canonical_def normalize_snapshot_def map_idI)

lemma TrimSpace_default: "TrimSpace DefaultSelectedGameID = DefaultSelectedGameID"
  by code_simp

lemma canonical_canon: "canonical (canon s)"
  using TrimSpace_default by (auto simp: canon_def canonical_def normalize_snapshot_def Let_def)

lemma canon_idem [simp]: "canon (canon s) = canon s"
  by (rule canon_canonical [OF canonical_canon])

text \<open>A room as the commands meet it: restored, so both well formed and in normal form.\<close>

definition room_inv :: "Room \<Rightarrow> bool" where
  "room_inv room \<longleftrightarrow> room_ok room \<and> canonical room"

lemma Restore_inv: "Restore s = Inr r \<Longrightarrow> room_inv r"
  using canonical_canon by (auto simp: Restore_iff room_inv_def)

lemma Restore_fixed: "room_inv room \<Longrightarrow> Restore room = Inr room"
  by (simp add: Restore_iff room_inv_def canon_canonical)

text \<open>What every committed command does to the counters and the clock.\<close>

definition stamped :: "bool \<Rightarrow> go_time \<Rightarrow> RoomSnapshot \<Rightarrow> RoomSnapshot" where
  "stamped membershipChanged at s = s\<lparr>rs_RoomVersion := rs_RoomVersion s + 1,
     rs_MembershipVersion := (if membershipChanged then rs_MembershipVersion s + 1 else rs_MembershipVersion s),
     rs_UpdatedAt := at\<rparr>"

lemma bumpVersions_Inr:
  "bumpVersions s changed at = Inr t \<longleftrightarrow>
     rs_RoomVersion s \<noteq> - 1 \<and> (changed \<longrightarrow> rs_MembershipVersion s \<noteq> - 1) \<and> t = stamped changed at s"
  by (auto simp: bumpVersions_def stamped_def)

definition committed :: "bool \<Rightarrow> go_time \<Rightarrow> RoomSnapshot \<Rightarrow> Room \<Rightarrow> bool" where
  "committed changed at s r \<longleftrightarrow>
     rs_RoomVersion s \<noteq> - 1 \<and> (changed \<longrightarrow> rs_MembershipVersion s \<noteq> - 1) \<and> r = stamped changed at s \<and> room_inv r"

lemma commit_Inr:
  assumes "canonical s" and "canonicalRoomTime at = at"
  shows "and_then (bumpVersions s changed at) Restore = Inr r \<longleftrightarrow>
    rs_RoomVersion s \<noteq> - 1 \<and> (changed \<longrightarrow> rs_MembershipVersion s \<noteq> - 1) \<and> r = stamped changed at s \<and> room_ok r"
proof -
  have "canonical (stamped changed at s)" using assms by (simp add: canonical_def stamped_def)
  then show ?thesis by (auto simp: outcome bumpVersions_Inr Restore_iff canon_canonical)
qed

lemma commit_iff:
  assumes "canonical s" and "canonicalRoomTime at = at"
  shows "and_then (bumpVersions s changed at) Restore = Inr r \<longleftrightarrow> committed changed at s r"
proof -
  have "canonical (stamped changed at s)" using assms by (simp add: canonical_def stamped_def)
  then show ?thesis unfolding commit_Inr [OF assms] committed_def room_inv_def by blast
qed

lemma commit_with:
  assumes "canonical s" and "canonicalRoomTime at = at"
  shows "and_then (bumpVersions s changed at) (\<lambda>n. and_then (Restore n) (\<lambda>u. Inr (u, f n u))) = Inr (r, x) \<longleftrightarrow>
    committed changed at s r \<and> x = f r r"
proof -
  have "canonical (stamped changed at s)" using assms by (simp add: canonical_def stamped_def)
  then show ?thesis
    by (auto simp: outcome bumpVersions_Inr Restore_iff canon_canonical committed_def room_inv_def)
qed

lemma checkHost_Inr [simp]: "checkHost room u = Inr v \<longleftrightarrow> u = rs_HostUserID room"
  by (simp add: checkHost_def)

lemma checkVersion_Inr [simp]: "checkVersion room v = Inr u \<longleftrightarrow> v = Room_Version room"
  by (simp add: checkVersion_def)

end
