(* ===== verification/RoomCommands.thy ===== *)
theory RoomCommands
  imports RoomProps
begin

text \<open>
  The commands on a restored room. Each is characterised by when it succeeds and which snapshot it then stamps and
  restores, so that the later proofs never unfold a command again.
\<close>

section \<open>The commands on a restored room\<close>

lemma inv_canonical: "room_inv room \<Longrightarrow> canonical room"
  by (simp add: room_inv_def)

lemmas canonical_update = inv_canonical canonical_def no_pending_def no_pause_def

lemma ct_0 [simp]: "canonicalRoomTime 0 = 0"
  by (simp add: canonicalRoomTime_def)

lemma commit_ex:
  assumes "canonical s" and "canonicalRoomTime at = at"
  shows "(\<exists>x. bumpVersions s changed at = Inr x \<and> Restore x = Inr r) \<longleftrightarrow> committed changed at s r"
  using commit_iff [OF assms] by (simp add: outcome)

lemma commit_with_ex:
  assumes "canonical s" and "canonicalRoomTime at = at"
  shows "(\<exists>n. bumpVersions s changed at = Inr n \<and> (\<exists>u. Restore n = Inr u \<and> Inr (u, f n u) = Inr (r, x))) \<longleftrightarrow>
    committed changed at s r \<and> x = f r r"
  using commit_with [OF assms, of changed f r x] by (simp add: outcome)

lemma SetAdmission_Inr:
  assumes "room_inv room"
  shows "SetAdmission room host participant spectator expected at = Inr r \<longleftrightarrow>
    host \<noteq> uuid_Nil \<and> AdmissionMode_Valid participant \<and> AdmissionMode_Valid spectator \<and> canonicalRoomTime at \<noteq> 0 \<and>
    host = rs_HostUserID room \<and> expected = Room_Version room \<and> admissionMutable (rs_Status room) \<and>
    committed False (canonicalRoomTime at)
      (room\<lparr>rs_ParticipantAdmission := participant, rs_SpectatorAdmission := spectator\<rparr>) r"
proof -
  have c: "canonical (room\<lparr>rs_ParticipantAdmission := participant, rs_SpectatorAdmission := spectator\<rparr>)"
    using inv_canonical [OF assms] by (simp add: canonical_def)
  show ?thesis
    unfolding SetAdmission_def Let_def outcome commit_ex [OF c canonicalRoomTime_idem] checkHost_Inr checkVersion_Inr by blast
qed

lemma SetAdmissionByAdmin_Inr:
  assumes "room_inv room"
  shows "SetAdmissionByAdmin room actor participant spectator expected at = Inr r \<longleftrightarrow>
    aa_ID actor \<noteq> uuid_Nil \<and> AdmissionMode_Valid participant \<and> AdmissionMode_Valid spectator \<and> canonicalRoomTime at \<noteq> 0 \<and>
    expected = Room_Version room \<and> admissionMutable (rs_Status room) \<and>
    committed False (canonicalRoomTime at)
      (room\<lparr>rs_ParticipantAdmission := participant, rs_SpectatorAdmission := spectator\<rparr>) r"
proof -
  have c: "canonical (room\<lparr>rs_ParticipantAdmission := participant, rs_SpectatorAdmission := spectator\<rparr>)"
    using inv_canonical [OF assms] by (simp add: canonical_def)
  show ?thesis
    unfolding SetAdmissionByAdmin_def Let_def outcome commit_ex [OF c canonicalRoomTime_idem] checkVersion_Inr by blast
qed

lemma SelectGame_Inr:
  assumes "room_inv room"
  shows "SelectGame room host game expected at = Inr r \<longleftrightarrow>
    host \<noteq> uuid_Nil \<and> TrimSpace game \<noteq> [] \<and> canonicalRoomTime at \<noteq> 0 \<and> host = rs_HostUserID room \<and>
    expected = Room_Version room \<and> admissionMutable (rs_Status room) \<and>
    (if rs_SelectedGameID room = TrimSpace game then r = room
     else committed False (canonicalRoomTime at) (room\<lparr>rs_SelectedGameID := TrimSpace game\<rparr>) r)"
proof (cases "TrimSpace game = []")
  case False
  then have c: "canonical (room\<lparr>rs_SelectedGameID := TrimSpace game\<rparr>)"
    using inv_canonical [OF assms] by (simp add: canonical_def)
  show ?thesis
    unfolding SelectGame_def Let_def outcome
    by (auto simp: outcome commit_ex [OF c canonicalRoomTime_idem])
qed (simp add: SelectGame_def)

lemma RequestPause_Inr:
  assumes "room_inv room"
  shows "RequestPause room actor request session expected at = Inr r \<longleftrightarrow>
    actor \<noteq> uuid_Nil \<and> request \<noteq> uuid_Nil \<and> session \<noteq> uuid_Nil \<and> canonicalRoomTime at \<noteq> 0 \<and>
    expected = Room_Version room \<and> rs_Status room = RoomStatusPlaying \<and> rs_ActiveSessionID room = session \<and>
    ap_ID (rs_ActivePause room) = uuid_Nil \<and> pp_ID (rs_PendingPauseRequest room) = uuid_Nil \<and>
    (\<exists>m. Room_Member room actor = Some m \<and> seated m) \<and> actor \<noteq> rs_HostUserID room \<and>
    committed False (canonicalRoomTime at) (room\<lparr>rs_PendingPauseRequest := \<lparr>pp_ID = request, pp_SessionID = session,
      pp_RequestedByUserID = actor, pp_RequestedAt = canonicalRoomTime at\<rparr>\<rparr>) r"
proof -
  have c: "canonical (room\<lparr>rs_PendingPauseRequest := \<lparr>pp_ID = request, pp_SessionID = session,
      pp_RequestedByUserID = actor, pp_RequestedAt = canonicalRoomTime at\<rparr>\<rparr>)"
    using inv_canonical [OF assms] by (simp add: canonical_def)
  have m: "(case x of None \<Rightarrow> True | Some member \<Rightarrow> mb_Role member \<noteq> MemberRoleParticipant) \<longleftrightarrow>
      \<not> (\<exists>m. x = Some m \<and> seated m)" for x by (simp add: seated_def split: option.splits)
  show ?thesis
    unfolding RequestPause_def Let_def outcome commit_ex [OF c canonicalRoomTime_idem] checkVersion_Inr m by blast
qed

lemma RejectPause_Inr:
  assumes "room_inv room"
  shows "RejectPause room host request expected at = Inr r \<longleftrightarrow>
    host \<noteq> uuid_Nil \<and> request \<noteq> uuid_Nil \<and> canonicalRoomTime at \<noteq> 0 \<and> host = rs_HostUserID room \<and>
    expected = Room_Version room \<and> pp_ID (rs_PendingPauseRequest room) = request \<and>
    committed False (canonicalRoomTime at) (room\<lparr>rs_PendingPauseRequest := no_pending\<rparr>) r"
proof -
  have c: "canonical (room\<lparr>rs_PendingPauseRequest := no_pending\<rparr>)"
    using inv_canonical [OF assms] by (simp add: canonical_def no_pending_def)
  show ?thesis
    unfolding RejectPause_def Let_def outcome commit_ex [OF c canonicalRoomTime_idem] checkHost_Inr checkVersion_Inr by blast
qed

lemma Pause_Inr:
  assumes "room_inv room"
  shows "Pause room host pause session request expected at = Inr r \<longleftrightarrow>
    host \<noteq> uuid_Nil \<and> pause \<noteq> uuid_Nil \<and> session \<noteq> uuid_Nil \<and> canonicalRoomTime at \<noteq> 0 \<and> host = rs_HostUserID room \<and>
    expected = Room_Version room \<and> rs_Status room = RoomStatusPlaying \<and> rs_ActiveSessionID room = session \<and>
    ap_ID (rs_ActivePause room) = uuid_Nil \<and>
    (request \<noteq> uuid_Nil \<longrightarrow> pp_ID (rs_PendingPauseRequest room) = request \<and> pp_SessionID (rs_PendingPauseRequest room) = session) \<and>
    committed False (canonicalRoomTime at) (room\<lparr>rs_PendingPauseRequest := no_pending,
      rs_ActivePause := \<lparr>ap_ID = pause, ap_SessionID = session,
        ap_Source = (if request \<noteq> uuid_Nil then PauseSourceApprovedRequest else PauseSourceHost),
        ap_RequestedByUserID = (if request \<noteq> uuid_Nil then pp_RequestedByUserID (rs_PendingPauseRequest room) else uuid_Nil),
        ap_PausedByUserID = host, ap_PausedAt = canonicalRoomTime at\<rparr>\<rparr>) r"
proof -
  have c: "canonical (room\<lparr>rs_PendingPauseRequest := no_pending,
      rs_ActivePause := \<lparr>ap_ID = pause, ap_SessionID = session, ap_Source = x, ap_RequestedByUserID = y,
        ap_PausedByUserID = host, ap_PausedAt = canonicalRoomTime at\<rparr>\<rparr>)" for x y
    using inv_canonical [OF assms] by (simp add: canonical_def no_pending_def)
  show ?thesis
    unfolding Pause_def Let_def outcome commit_ex [OF c canonicalRoomTime_idem] checkHost_Inr checkVersion_Inr by blast
qed

lemma Resume_Inr:
  assumes "room_inv room"
  shows "Resume room host session expected at = Inr r \<longleftrightarrow>
    host \<noteq> uuid_Nil \<and> session \<noteq> uuid_Nil \<and> canonicalRoomTime at \<noteq> 0 \<and> host = rs_HostUserID room \<and>
    expected = Room_Version room \<and> rs_Status room = RoomStatusPlaying \<and> rs_ActiveSessionID room = session \<and>
    ap_ID (rs_ActivePause room) \<noteq> uuid_Nil \<and> ap_SessionID (rs_ActivePause room) = session \<and>
    committed False (canonicalRoomTime at) (room\<lparr>rs_ActivePause := no_pause\<rparr>) r"
proof -
  have c: "canonical (room\<lparr>rs_ActivePause := no_pause\<rparr>)"
    using inv_canonical [OF assms] by (simp add: canonical_def no_pause_def)
  show ?thesis
    unfolding Resume_def Let_def outcome commit_ex [OF c canonicalRoomTime_idem] checkHost_Inr checkVersion_Inr by blast
qed

lemma TransferHost_Inr:
  assumes "room_inv room"
  shows "TransferHost room host target epoch expected at = Inr r \<longleftrightarrow>
    host \<noteq> uuid_Nil \<and> target \<noteq> uuid_Nil \<and> epoch \<noteq> 0 \<and> canonicalRoomTime at \<noteq> 0 \<and> host = rs_HostUserID room \<and>
    expected = Room_Version room \<and> rs_OwnershipEpoch room = epoch \<and> rs_Status room \<noteq> RoomStatusClosed \<and>
    (\<exists>m. Room_Member room target = Some m \<and> seated m) \<and> target \<noteq> host \<and> rs_OwnershipEpoch room \<noteq> - 1 \<and>
    committed False (canonicalRoomTime at) (room\<lparr>rs_HostUserID := target, rs_OwnershipEpoch := rs_OwnershipEpoch room + 1,
      rs_PendingPauseRequest := (if pp_RequestedByUserID (rs_PendingPauseRequest room) = target
        then no_pending else rs_PendingPauseRequest room)\<rparr>) r"
proof (cases "rs_OwnershipEpoch room = - 1")
  case False
  then have "rs_OwnershipEpoch room + 1 \<noteq> 0" by (simp add: add_eq_0_iff2)
  then have c: "canonical (room\<lparr>rs_HostUserID := target, rs_OwnershipEpoch := rs_OwnershipEpoch room + 1,
      rs_PendingPauseRequest := (if pp_RequestedByUserID (rs_PendingPauseRequest room) = target
        then no_pending else rs_PendingPauseRequest room)\<rparr>)"
    using inv_canonical [OF assms] by (simp add: canonical_def no_pending_def)
  have m: "(case x of None \<Rightarrow> True | Some member \<Rightarrow> mb_Role member \<noteq> MemberRoleParticipant) \<longleftrightarrow>
      \<not> (\<exists>m. x = Some m \<and> seated m)" for x by (simp add: seated_def split: option.splits)
  show ?thesis
    unfolding TransferHost_def Let_def outcome commit_ex [OF c canonicalRoomTime_idem] checkHost_Inr checkVersion_Inr m by blast
qed (auto simp: TransferHost_def Let_def outcome)

lemma FinishSession_Inr:
  assumes "room_inv room"
  shows "FinishSession room session expected at = Inr r \<longleftrightarrow>
    session \<noteq> uuid_Nil \<and> canonicalRoomTime at \<noteq> 0 \<and> expected = Room_Version room \<and>
    rs_Status room = RoomStatusPlaying \<and> rs_ActiveSessionID room = session \<and>
    committed False (canonicalRoomTime at) (room\<lparr>rs_Status := RoomStatusPostGame, rs_ActiveSessionID := uuid_Nil,
      rs_ActiveGameID := [], rs_ParticipantAdmission := AdmissionClosed, rs_LastFinishedSessionID := session,
      rs_LastFinishedGameID := rs_ActiveGameID room, rs_PendingPauseRequest := no_pending, rs_ActivePause := no_pause\<rparr>) r"
proof -
  have c: "canonical (room\<lparr>rs_Status := RoomStatusPostGame, rs_ActiveSessionID := uuid_Nil,
      rs_ActiveGameID := [], rs_ParticipantAdmission := AdmissionClosed, rs_LastFinishedSessionID := session,
      rs_LastFinishedGameID := rs_ActiveGameID room, rs_PendingPauseRequest := no_pending, rs_ActivePause := no_pause\<rparr>)"
    using inv_canonical [OF assms] by (simp add: canonical_def no_pending_def no_pause_def)
  show ?thesis
    unfolding FinishSession_def Let_def outcome commit_ex [OF c canonicalRoomTime_idem] checkVersion_Inr by blast
qed

lemma CancelSession_Inr:
  assumes "room_inv room"
  shows "CancelSession room session expected at = Inr r \<longleftrightarrow>
    session \<noteq> uuid_Nil \<and> canonicalRoomTime at \<noteq> 0 \<and> expected = Room_Version room \<and>
    rs_Status room = RoomStatusPlaying \<and> rs_ActiveSessionID room = session \<and>
    committed False (canonicalRoomTime at) (room\<lparr>rs_Status := RoomStatusLobby, rs_ActiveSessionID := uuid_Nil,
      rs_ActiveGameID := [], rs_ParticipantAdmission := AdmissionClosed, rs_LastFinishedSessionID := uuid_Nil,
      rs_LastFinishedGameID := [], rs_PendingPauseRequest := no_pending, rs_ActivePause := no_pause\<rparr>) r"
proof -
  have c: "canonical (room\<lparr>rs_Status := RoomStatusLobby, rs_ActiveSessionID := uuid_Nil,
      rs_ActiveGameID := [], rs_ParticipantAdmission := AdmissionClosed, rs_LastFinishedSessionID := uuid_Nil,
      rs_LastFinishedGameID := [], rs_PendingPauseRequest := no_pending, rs_ActivePause := no_pause\<rparr>)"
    using inv_canonical [OF assms] by (simp add: canonical_def no_pending_def no_pause_def)
  show ?thesis
    unfolding CancelSession_def Let_def outcome commit_ex [OF c canonicalRoomTime_idem] checkVersion_Inr by blast
qed

lemma CancelSessionAndClose_Inr:
  assumes "room_inv room"
  shows "CancelSessionAndClose room host session expected at = Inr r \<longleftrightarrow>
    host \<noteq> uuid_Nil \<and> session \<noteq> uuid_Nil \<and> canonicalRoomTime at \<noteq> 0 \<and> host = rs_HostUserID room \<and>
    expected = Room_Version room \<and> rs_Status room = RoomStatusPlaying \<and> rs_ActiveSessionID room = session \<and>
    committed False (canonicalRoomTime at) (room\<lparr>rs_Status := RoomStatusClosed, rs_ActiveSessionID := uuid_Nil,
      rs_ActiveGameID := [], rs_ParticipantAdmission := AdmissionClosed, rs_SpectatorAdmission := AdmissionClosed,
      rs_LastFinishedSessionID := uuid_Nil, rs_LastFinishedGameID := [], rs_PendingPauseRequest := no_pending,
      rs_ActivePause := no_pause\<rparr>) r"
proof -
  have c: "canonical (room\<lparr>rs_Status := RoomStatusClosed, rs_ActiveSessionID := uuid_Nil,
      rs_ActiveGameID := [], rs_ParticipantAdmission := AdmissionClosed, rs_SpectatorAdmission := AdmissionClosed,
      rs_LastFinishedSessionID := uuid_Nil, rs_LastFinishedGameID := [], rs_PendingPauseRequest := no_pending,
      rs_ActivePause := no_pause\<rparr>)"
    using inv_canonical [OF assms] by (simp add: canonical_def no_pending_def no_pause_def)
  show ?thesis
    unfolding CancelSessionAndClose_def Let_def outcome commit_ex [OF c canonicalRoomTime_idem] checkHost_Inr checkVersion_Inr
    by blast
qed

lemma close_room_Inr:
  assumes "room_inv room" and "canonicalRoomTime at = at"
  shows "close_room room at = Inr r \<longleftrightarrow> rs_Status room \<noteq> RoomStatusPlaying \<and>
    (if rs_Status room = RoomStatusClosed then r = room
     else committed False at (room\<lparr>rs_Status := RoomStatusClosed, rs_ParticipantAdmission := AdmissionClosed,
       rs_SpectatorAdmission := AdmissionClosed, rs_PendingPauseRequest := no_pending, rs_ActivePause := no_pause\<rparr>) r)"
proof -
  have c: "canonical (room\<lparr>rs_Status := RoomStatusClosed, rs_ParticipantAdmission := AdmissionClosed,
       rs_SpectatorAdmission := AdmissionClosed, rs_PendingPauseRequest := no_pending, rs_ActivePause := no_pause\<rparr>)"
    using inv_canonical [OF assms(1)] by (simp add: canonical_def no_pending_def no_pause_def)
  show ?thesis
    unfolding close_room_def outcome by (cases "rs_Status room = RoomStatusClosed") (auto simp: commit_iff [OF c assms(2)])
qed

lemma StartSession_Inr:
  assumes "room_inv room"
  shows "StartSession room host session game minimum maximum expected at = Inr (r, start) \<longleftrightarrow>
    host \<noteq> uuid_Nil \<and> session \<noteq> uuid_Nil \<and> TrimSpace game \<noteq> [] \<and> minimum \<noteq> 0 \<and> minimum \<le> maximum \<and>
    canonicalRoomTime at \<noteq> 0 \<and> host = rs_HostUserID room \<and> expected = Room_Version room \<and>
    admissionMutable (rs_Status room) \<and> rs_ActiveSessionID room = uuid_Nil \<and>
    unat minimum \<le> length (frozen_participants (rs_Members room)) \<and>
    length (frozen_participants (rs_Members room)) \<le> unat maximum \<and>
    committed False (canonicalRoomTime at) (room\<lparr>rs_Status := RoomStatusPlaying, rs_ActiveSessionID := session,
      rs_ActiveGameID := TrimSpace game, rs_ParticipantAdmission := AdmissionClosed,
      rs_LastFinishedSessionID := uuid_Nil, rs_LastFinishedGameID := []\<rparr>) r \<and>
    start = \<lparr>ss_SessionID = session, ss_GameID = rs_ActiveGameID r, ss_Participants = frozen_participants (rs_Members room),
      ss_Version = Room_Version r, ss_StartedAt = canonicalRoomTime at\<rparr>"
proof -
  have c: "canonical (room\<lparr>rs_Status := RoomStatusPlaying, rs_ActiveSessionID := session,
      rs_ActiveGameID := TrimSpace game, rs_ParticipantAdmission := AdmissionClosed,
      rs_LastFinishedSessionID := uuid_Nil, rs_LastFinishedGameID := []\<rparr>)"
    using inv_canonical [OF assms] by (simp add: canonical_def)
  have s: "\<not> x = RoomStatusClosed \<and> \<not> (x \<noteq> RoomStatusLobby \<and> x \<noteq> RoomStatusPostGame) \<and> P \<longleftrightarrow> admissionMutable x \<and> P" for x P
    by (auto simp: admissionMutable_def)
  show ?thesis
    unfolding StartSession_def Let_def outcome commit_with_ex [OF c canonicalRoomTime_idem] checkHost_Inr checkVersion_Inr s not_less
    using not_less [of maximum minimum] by blast
qed

lemma member_index_Some:
  "member_index P ms = Some i \<Longrightarrow> i < length ms \<and> P (ms ! i)"
  by (induction ms arbitrary: i) (auto split: if_splits)

lemma member_index_None: "member_index P ms = None \<longleftrightarrow> (\<forall>m \<in> set ms. \<not> P m)"
  by (induction ms) auto

lemma Room_Member_Some: "Room_Member room u = Some m \<Longrightarrow> m \<in> set (rs_Members room) \<and> mb_UserID m = u"
  by (auto simp: Room_Member_def dest: find_SomeD)

lemma Room_Member_None: "Room_Member room u = None \<longleftrightarrow> u \<notin> mb_UserID ` set (rs_Members room)"
  by (auto simp: Room_Member_def find_None_iff)

text \<open>The member that a join adds.\<close>

definition admits :: "Room \<Rightarrow> uuid \<Rightarrow> string \<Rightarrow> go_time \<Rightarrow> MemberSnapshot \<Rightarrow> bool" where
  "admits room userID intent at m \<longleftrightarrow>
     mb_UserID m = userID \<and> mb_JoinedAt m = at \<and> mb_LastSeenAt m = at \<and>
     (mb_Role m = MemberRoleParticipant \<and> mb_RequestedRole m = [] \<and> intent = JoinIntentParticipant \<and>
        rs_Status room \<noteq> RoomStatusPlaying \<and> rs_ParticipantAdmission room = AdmissionOpen \<and>
        nextSeat room = Some (mb_SeatIndex m) \<or>
      mb_Role m = MemberRoleSpectator \<and> mb_RequestedRole m = [] \<and> intent = JoinIntentSpectator \<and>
        mb_SeatIndex m = 0 \<and> rs_SpectatorAdmission room = AdmissionOpen \<or>
      mb_Role m = MemberRoleWaiting \<and> mb_RequestedRole m = intent \<and> mb_SeatIndex m = 0)"

lemma Join_Inr:
  assumes inv: "room_inv room" and join: "fst (Join room userID intent expected at) = Inr (r, res)"
  obtains (same) "expected = Room_Version room" "r = room" "\<not> jr_Created res"
  | (queued) i where "expected = Room_Version room" "rs_Status room = RoomStatusPlaying" "i < length (rs_Members room)"
      "mb_UserID (rs_Members room ! i) = userID" "mb_Role (rs_Members room ! i) = MemberRoleSpectator"
      "committed True (canonicalRoomTime at) (room\<lparr>rs_Members := (rs_Members room)[i := (rs_Members room ! i)
         \<lparr>mb_Role := MemberRoleWaiting, mb_RequestedRole := MemberRoleParticipant, mb_SeatIndex := 0\<rparr>]\<rparr>) r"
      "\<not> jr_Created res"
  | (added) m where "expected = Room_Version room" "rs_Status room \<noteq> RoomStatusClosed"
      "userID \<noteq> uuid_Nil" "JoinIntent_Valid intent" "canonicalRoomTime at \<noteq> 0"
      "userID \<notin> mb_UserID ` set (rs_Members room)" "admits room userID intent (canonicalRoomTime at) m"
      "committed True (canonicalRoomTime at) (room\<lparr>rs_Members := rs_Members room @ [m]\<rparr>) r" "jr_Member res = m"
proof -
  have can: "canonical room" by (rule inv_canonical [OF inv])
  have ok: "room_ok room" using inv by (simp add: room_inv_def)
  have e: "expected = Room_Version room"
    using join by (auto simp: Join_def Let_def checkVersion_def split: if_splits)
  have g: "userID \<noteq> uuid_Nil" "JoinIntent_Valid intent" "canonicalRoomTime at \<noteq> 0"
    using join by (auto simp: Join_def Let_def split: if_splits)
  have cv: "checkVersion room expected = Inr ()" by (simp add: e)
  show thesis
  proof (cases "Room_Member room userID")
    case (Some existing)
    show ?thesis
    proof (cases "rs_Status room = RoomStatusPlaying \<and> intent = JoinIntentParticipant \<and> mb_Role existing = MemberRoleSpectator")
      case False
      with join Some g have "r = room" "\<not> jr_Created res" unfolding Join_def Let_def cv by auto
      with same e show ?thesis by blast
    next
      case True
      from Room_Member_Some [OF Some] have mem: "existing \<in> set (rs_Members room)" "mb_UserID existing = userID" by auto
      then obtain i where i: "member_index (\<lambda>m. mb_UserID m = userID) (rs_Members room) = Some i"
        using member_index_None [of "\<lambda>m. mb_UserID m = userID" "rs_Members room"] by fastforce
      from member_index_Some [OF i] have il: "i < length (rs_Members room)" "mb_UserID (rs_Members room ! i) = userID" by auto
      have "distinct (map mb_UserID (rs_Members room))" using ok by (simp add: room_ok_def members_ok_def)
      then have ex: "rs_Members room ! i = existing"
        using mem il by (metis distinct_map inj_on_eq_iff nth_mem)
      let ?s = "room\<lparr>rs_Members := (rs_Members room)[i := (rs_Members room ! i)
         \<lparr>mb_Role := MemberRoleWaiting, mb_RequestedRole := MemberRoleParticipant, mb_SeatIndex := 0\<rparr>]\<rparr>"
      have "canonical_member (existing\<lparr>mb_Role := a, mb_RequestedRole := b, mb_SeatIndex := c\<rparr>) =
          existing\<lparr>mb_Role := a, mb_RequestedRole := b, mb_SeatIndex := c\<rparr>" for a b c
      proof -
        have "canonical_member existing = existing" using can mem(1) by (simp add: canonical_def)
        then show ?thesis by (cases existing) (simp add: canonical_member_def)
      qed
      then have c: "canonical ?s" using can by (auto simp: canonical_def ex dest!: set_update_subset_insert [THEN subsetD])
      have "committed True (canonicalRoomTime at) ?s r" "\<not> jr_Created res"
        using join Some True g i unfolding Join_def Let_def cv by (simp_all add: commit_with [OF c canonicalRoomTime_idem])
      with queued e True il ex show ?thesis by blast
    qed
  next
    case None
    then have nu: "userID \<notin> mb_UserID ` set (rs_Members room)" by (simp add: Room_Member_None)
    from join None g have open': "rs_Status room \<noteq> RoomStatusClosed" unfolding Join_def Let_def cv by auto
    let ?m = "\<lparr>mb_UserID = userID, mb_Role = [], mb_RequestedRole = [], mb_SeatIndex = 0,
                  mb_JoinedAt = canonicalRoomTime at, mb_LastSeenAt = canonicalRoomTime at\<rparr>"
    let ?mode = "if intent = JoinIntentSpectator then rs_SpectatorAdmission room else rs_ParticipantAdmission room"
    from join None g open' obtain m where
      m: "(if rs_Status room = RoomStatusPlaying \<and> intent = JoinIntentParticipant
                   then Inr (?m\<lparr>mb_Role := MemberRoleWaiting, mb_RequestedRole := MemberRoleParticipant\<rparr>)
                   else if ?mode = AdmissionOpen then
                     (if intent = JoinIntentParticipant then
                        (case nextSeat room of
                           None \<Rightarrow> Inl ErrRoomFull
                         | Some seat \<Rightarrow> Inr (?m\<lparr>mb_Role := MemberRoleParticipant, mb_SeatIndex := seat\<rparr>))
                      else Inr (?m\<lparr>mb_Role := MemberRoleSpectator\<rparr>))
                   else if ?mode = AdmissionApproval then
                     Inr (?m\<lparr>mb_Role := MemberRoleWaiting, mb_RequestedRole := intent\<rparr>)
                   else if ?mode = AdmissionClosed then Inl ErrAdmissionClosed
                   else Inl ErrInvalidRoomInput) = Inr m"
      and rest: "and_then (bumpVersions (room\<lparr>rs_Members := rs_Members room @ [m]\<rparr>) True (canonicalRoomTime at)) (\<lambda>n.
             and_then (Restore n) (\<lambda>u. Inr (u, \<lparr>jr_Member = m, jr_Created = True, jr_Changed = True\<rparr>))) = Inr (r, res)"
      unfolding Join_def Let_def cv
      by (simp only: and_then_eq_Inr if_False option.case sum.case fst_conv simp_thms) blast
    from m g(2) have a: "admits room userID intent (canonicalRoomTime at) m"
      by (auto simp: admits_def JoinIntent_Valid_def split: if_splits option.splits)
    then have "canonical_member m = m" by (cases m) (simp add: admits_def canonical_member_def)
    with can have c: "canonical (room\<lparr>rs_Members := rs_Members room @ [m]\<rparr>)" by (simp add: canonical_def)
    from rest a nu open' e g show ?thesis unfolding commit_with [OF c canonicalRoomTime_idem] by (intro added) auto
  qed
qed

lemma canonical_member_role:
  "canonical_member m = m \<Longrightarrow>
     canonical_member (m\<lparr>mb_Role := a, mb_RequestedRole := b, mb_SeatIndex := c\<rparr>) = m\<lparr>mb_Role := a, mb_RequestedRole := b, mb_SeatIndex := c\<rparr>"
  "canonical_member m = m \<Longrightarrow>
     canonical_member (m\<lparr>mb_Role := a, mb_RequestedRole := b\<rparr>) = m\<lparr>mb_Role := a, mb_RequestedRole := b\<rparr>"
  by (cases m; simp add: canonical_member_def)+

lemma canonical_members:
  "canonical room \<Longrightarrow> (\<And>m. m \<in> set ms \<Longrightarrow> canonical_member m = m) \<Longrightarrow> canonical (room\<lparr>rs_Members := ms\<rparr>)"
  by (simp add: canonical_def)

text \<open>The member that an approval puts in place of a waiting one.\<close>

definition promotes :: "Room \<Rightarrow> MemberSnapshot \<Rightarrow> MemberSnapshot \<Rightarrow> bool" where
  "promotes room m m' \<longleftrightarrow>
     (if mb_RequestedRole m = MemberRoleParticipant
      then \<exists>seat. nextSeat room = Some seat \<and>
        m' = m\<lparr>mb_Role := MemberRoleParticipant, mb_RequestedRole := [], mb_SeatIndex := seat\<rparr>
      else m' = m\<lparr>mb_Role := MemberRoleSpectator, mb_RequestedRole := []\<rparr>)"

lemma ApproveWaiting_Inr:
  assumes inv: "room_inv room" and approve: "fst (ApproveWaiting room host userID expected at) = Inr (r, res)"
  obtains i m where "expected = Room_Version room" "host = rs_HostUserID room" "admissionMutable (rs_Status room)"
    "i < length (rs_Members room)" "mb_UserID (rs_Members room ! i) = userID"
    "mb_Role (rs_Members room ! i) = MemberRoleWaiting" "promotes room (rs_Members room ! i) m"
    "committed True (canonicalRoomTime at) (room\<lparr>rs_Members := (rs_Members room)[i := m]\<rparr>) r" "ar_Member res = m"
proof -
  have can: "canonical room" by (rule inv_canonical [OF inv])
  from approve have g: "\<not> (host = uuid_Nil \<or> userID = uuid_Nil \<or> canonicalRoomTime at = 0)"
    by (auto simp: ApproveWaiting_def Let_def split: if_splits)
  with approve have e: "host = rs_HostUserID room" "expected = Room_Version room" "admissionMutable (rs_Status room)"
    by (auto simp: ApproveWaiting_def Let_def checkHost_def checkVersion_def split: if_splits)
  have cv: "and_then (checkHost room host) (\<lambda>_. checkVersion room expected) = Inr ()" by (simp add: e outcome)
  from approve g e obtain i where idx: "member_index (\<lambda>m. \<not> (mb_UserID m \<noteq> userID \<or> mb_Role m \<noteq> MemberRoleWaiting)) (rs_Members room) = Some i"
    unfolding ApproveWaiting_def Let_def cv
    by (cases "member_index (\<lambda>m. \<not> (mb_UserID m \<noteq> userID \<or> mb_Role m \<noteq> MemberRoleWaiting)) (rs_Members room)") auto
  from member_index_Some [OF idx] have i: "i < length (rs_Members room)" "mb_UserID (rs_Members room ! i) = userID"
    "mb_Role (rs_Members room ! i) = MemberRoleWaiting" by auto
  have cm: "canonical_member (rs_Members room ! i) = rs_Members room ! i" using can i(1) by (simp add: canonical_def)
  from approve g e idx obtain m where p: "promotes room (rs_Members room ! i) m"
    and c: "and_then (bumpVersions (room\<lparr>rs_Members := (rs_Members room)[i := m]\<rparr>) True (canonicalRoomTime at)) (\<lambda>next.
        and_then (Restore next) (\<lambda>updated. Inr (updated, \<lparr>ar_Member = m, ar_Version = Room_Version updated\<rparr>))) = Inr (r, res)"
    unfolding ApproveWaiting_def Let_def cv promotes_def
    by (cases "mb_RequestedRole (rs_Members room ! i) = MemberRoleParticipant"; cases "nextSeat room") auto
  have "canonical_member m = m" using p cm by (auto simp: promotes_def canonical_member_role split: if_splits)
  with can have "canonical (room\<lparr>rs_Members := (rs_Members room)[i := m]\<rparr>)"
    by (intro canonical_members) (auto simp: canonical_def dest!: set_update_subset_insert [THEN subsetD])
  from c [unfolded commit_with [OF this canonicalRoomTime_idem]] that e i p show thesis by auto
qed

lemma remove_member_Inr:
  assumes inv: "room_inv room" and at: "canonicalRoomTime at = at" and remove: "fst (remove_member room userID at) = Inr (r, res)"
  obtains i where "userID \<noteq> rs_HostUserID room" "i < length (rs_Members room)" "mb_UserID (rs_Members room ! i) = userID"
    "committed True at (room\<lparr>rs_Members := take i (rs_Members room) @ drop (Suc i) (rs_Members room),
       rs_PendingPauseRequest := (if pp_RequestedByUserID (rs_PendingPauseRequest room) = userID
         then no_pending else rs_PendingPauseRequest room)\<rparr>) r"
    "snd (remove_member room userID at) = room\<lparr>rs_Members := shifted_array (rs_Members room) i\<rparr>"
    "rr_Removed res = rs_Members room ! i"
    "rr_ParticipantRevoked res \<longleftrightarrow> rs_Status room = RoomStatusPlaying \<and> seated (rs_Members room ! i)"
    "rr_SessionID res = rs_ActiveSessionID room"
proof -
  from remove have h: "userID \<noteq> rs_HostUserID room" by (auto simp: remove_member_def)
  from remove h obtain i where idx: "member_index (\<lambda>m. mb_UserID m = userID) (rs_Members room) = Some i"
    unfolding remove_member_def by (cases "member_index (\<lambda>m. mb_UserID m = userID) (rs_Members room)") auto
  from member_index_Some [OF idx] have i: "i < length (rs_Members room)" "mb_UserID (rs_Members room ! i) = userID" by auto
  let ?s = "room\<lparr>rs_Members := take i (rs_Members room) @ drop (Suc i) (rs_Members room),
       rs_PendingPauseRequest := (if pp_RequestedByUserID (rs_PendingPauseRequest room) = userID
         then no_pending else rs_PendingPauseRequest room)\<rparr>"
  have "canonical ?s"
    using inv_canonical [OF inv] by (auto simp: canonical_def no_pending_def dest: in_set_takeD in_set_dropD)
  note commit = commit_with [OF this at]
  from remove have "and_then (bumpVersions ?s True at) (\<lambda>next. and_then (Restore next) (\<lambda>updated. Inr (updated,
       \<lparr>rr_Removed = rs_Members room ! i,
       rr_ParticipantRevoked = (rs_Status room = RoomStatusPlaying \<and> mb_Role (rs_Members room ! i) = MemberRoleParticipant),
       rr_SessionID = rs_ActiveSessionID room, rr_SourceEventID = uuid_Nil, rr_Version = Room_Version updated\<rparr>))) = Inr (r, res)"
    unfolding remove_member_def Let_def by (simp only: h idx if_False option.case fst_conv)
  then have "committed True at ?s r" and "res = \<lparr>rr_Removed = rs_Members room ! i,
       rr_ParticipantRevoked = (rs_Status room = RoomStatusPlaying \<and> mb_Role (rs_Members room ! i) = MemberRoleParticipant),
       rr_SessionID = rs_ActiveSessionID room, rr_SourceEventID = uuid_Nil, rr_Version = Room_Version r\<rparr>"
    unfolding commit by blast+
  moreover have "snd (remove_member room userID at) = room\<lparr>rs_Members := shifted_array (rs_Members room) i\<rparr>"
    using h idx by (simp add: remove_member_def Let_def)
  ultimately show thesis using h i by (intro that) (simp_all only: seated_def RemovalResult.select_convs simp_thms)
qed

end
