(* ===== verification/Versioned.thy ===== *)
theory Versioned
  imports Prelude
begin

text \<open>
  Optimistic concurrency as an interface. A command names the version of the state that its sender saw; it is
  accepted only on that version, and an effective command moves the version on. What follows for any sequence of
  commands is proved once here.
\<close>

text \<open>The commands in order; a rejected command leaves the state.\<close>

fun run_commands :: "('s \<Rightarrow> 'c \<Rightarrow> 'e + 's) \<Rightarrow> 's \<Rightarrow> 'c list \<Rightarrow> 's" where
  "run_commands step s [] = s"
| "run_commands step s (c # cs) = (case step s c of Inl e \<Rightarrow> run_commands step s cs | Inr t \<Rightarrow> run_commands step t cs)"

text \<open>How many of the commands changed the state.\<close>

fun effective_commands :: "('s \<Rightarrow> 'c \<Rightarrow> 'e + 's) \<Rightarrow> 's \<Rightarrow> 'c list \<Rightarrow> nat" where
  "effective_commands step s [] = 0"
| "effective_commands step s (c # cs) =
     (case step s c of
        Inl e \<Rightarrow> effective_commands step s cs
      | Inr t \<Rightarrow> (if t = s then 0 else 1) + effective_commands step t cs)"

locale versioned_store =
  fixes step :: "'s \<Rightarrow> 'c \<Rightarrow> 'e + 's"
    and inv :: "'s \<Rightarrow> bool"
    and version :: "'s \<Rightarrow> nat"
    and expects :: "'c \<Rightarrow> nat"
  assumes step_inv: "inv s \<Longrightarrow> step s c = Inr t \<Longrightarrow> inv t"
    and step_expects: "inv s \<Longrightarrow> step s c = Inr t \<Longrightarrow> expects c = version s"
    and step_version: "inv s \<Longrightarrow> step s c = Inr t \<Longrightarrow> t = s \<or> version t = Suc (version s)"
begin

lemma run_inv: "inv s \<Longrightarrow> inv (run_commands step s cs)"
  by (induction cs arbitrary: s) (auto split: sum.splits dest: step_inv)

lemma run_version: "inv s \<Longrightarrow> version (run_commands step s cs) = version s + effective_commands step s cs"
proof (induction cs arbitrary: s)
  case (Cons c cs)
  show ?case
  proof (cases "step s c")
    case (Inl e)
    with Cons show ?thesis by simp
  next
    case (Inr t)
    from step_inv [OF Cons.prems Inr] Cons.IH step_version [OF Cons.prems Inr] show ?thesis by (auto simp: Inr)
  qed
qed simp

text \<open>After an effective command, a command that expects the same version is rejected for ever.\<close>

lemma no_lost_update:
  assumes "inv s" and "step s c = Inr t" and "t \<noteq> s" and "expects d = expects c"
  shows "\<exists>e. step (run_commands step t cs) d = Inl e"
proof (cases "step (run_commands step t cs) d")
  case (Inr u)
  have t: "inv t" by (rule step_inv [OF assms(1,2)])
  have "expects d = version s" using step_expects [OF assms(1,2)] assms(4) by simp
  moreover have "version t = Suc (version s)" using step_version [OF assms(1,2)] assms(3) by simp
  moreover have "expects d = version (run_commands step t cs)" by (rule step_expects [OF run_inv [OF t] Inr])
  ultimately show ?thesis using run_version [OF t, of cs] by simp
qed simp

end

text \<open>
  Moves of several parties on a shared store, in any order. Each keeps the invariant and only lets the store grow, so
  every sequence of moves does.
\<close>

fun run_moves :: "('m \<Rightarrow> 's \<Rightarrow> 's) \<Rightarrow> 'm list \<Rightarrow> 's \<Rightarrow> 's" where
  "run_moves move [] s = s"
| "run_moves move (m # ms) s = run_moves move ms (move m s)"

locale growing_store =
  fixes move :: "'m \<Rightarrow> 's \<Rightarrow> 's"
    and allowed :: "'m \<Rightarrow> bool"
    and inv :: "'s \<Rightarrow> bool"
    and grows :: "'s \<Rightarrow> 's \<Rightarrow> bool"
  assumes grows_refl: "grows s s"
    and grows_trans: "grows s t \<Longrightarrow> grows t u \<Longrightarrow> grows s u"
    and move_inv: "allowed m \<Longrightarrow> inv s \<Longrightarrow> inv (move m s)"
    and move_grows: "allowed m \<Longrightarrow> inv s \<Longrightarrow> grows s (move m s)"
begin

lemma moves_inv: "list_all allowed ms \<Longrightarrow> inv s \<Longrightarrow> inv (run_moves move ms s)"
  by (induction ms arbitrary: s) (auto dest: move_inv)

lemma moves_grow: "list_all allowed ms \<Longrightarrow> inv s \<Longrightarrow> grows s (run_moves move ms s)"
proof (induction ms arbitrary: s)
  case (Cons m ms)
  then have "allowed m" by simp
  from Cons move_inv [OF this] have "grows (move m s) (run_moves move ms (move m s))" by simp
  with move_grows [OF \<open>allowed m\<close> Cons.prems(2)] show ?case by (auto intro: grows_trans)
qed (simp add: grows_refl)

end

end
