(* ===== verification/RoomSteps.thy ===== *)
theory RoomSteps
  imports RoomCommands Versioned
begin

text \<open>
  The commands as steps of one machine. A step either leaves the room or commits one of the changes listed by an
  inductive relation; what all commands have in common is proved by cases on that relation.
\<close>

section \<open>Commands as steps\<close>

datatype room_command =
    CmdJoin uuid string Version go_time
  | CmdSetAdmission uuid string string Version go_time
  | CmdSelectGame uuid string Version go_time
  | CmdApprove uuid uuid Version go_time
  | CmdStart uuid uuid string u32 u32 Version go_time
  | CmdRequestPause uuid uuid uuid Version go_time
  | CmdRejectPause uuid uuid Version go_time
  | CmdPause uuid uuid uuid uuid Version go_time
  | CmdResume uuid uuid Version go_time
  | CmdTransferHost uuid uuid u64 Version go_time
  | CmdFinish uuid Version go_time
  | CmdCancel uuid Version go_time
  | CmdCancelAndClose uuid uuid Version go_time
  | CmdRemove uuid uuid Version go_time
  | CmdClose uuid Version go_time
  | CmdAdminSetAdmission AdminActor string string Version go_time
  | CmdAdminRemove AdminActor uuid Version go_time
  | CmdAdminClose AdminActor Version go_time

fun command_expected :: "room_command \<Rightarrow> Version" where
  "command_expected (CmdJoin u i v at) = v"
| "command_expected (CmdSetAdmission h p s v at) = v"
| "command_expected (CmdSelectGame h g v at) = v"
| "command_expected (CmdApprove h u v at) = v"
| "command_expected (CmdStart h s g a b v at) = v"
| "command_expected (CmdRequestPause a q s v at) = v"
| "command_expected (CmdRejectPause h q v at) = v"
| "command_expected (CmdPause h p s q v at) = v"
| "command_expected (CmdResume h s v at) = v"
| "command_expected (CmdTransferHost h t e v at) = v"
| "command_expected (CmdFinish s v at) = v"
| "command_expected (CmdCancel s v at) = v"
| "command_expected (CmdCancelAndClose h s v at) = v"
| "command_expected (CmdRemove h u v at) = v"
| "command_expected (CmdClose h v at) = v"
| "command_expected (CmdAdminSetAdmission a p s v at) = v"
| "command_expected (CmdAdminRemove a u v at) = v"
| "command_expected (CmdAdminClose a v at) = v"

fun room_step :: "Room \<Rightarrow> room_command \<Rightarrow> Room room_result" where
  "room_step room (CmdJoin u i v at) = map_sum id fst (fst (Join room u i v at))"
| "room_step room (CmdSetAdmission h p s v at) = SetAdmission room h p s v at"
| "room_step room (CmdSelectGame h g v at) = SelectGame room h g v at"
| "room_step room (CmdApprove h u v at) = map_sum id fst (fst (ApproveWaiting room h u v at))"
| "room_step room (CmdStart h s g a b v at) = map_sum id fst (StartSession room h s g a b v at)"
| "room_step room (CmdRequestPause a q s v at) = RequestPause room a q s v at"
| "room_step room (CmdRejectPause h q v at) = RejectPause room h q v at"
| "room_step room (CmdPause h p s q v at) = Pause room h p s q v at"
| "room_step room (CmdResume h s v at) = Resume room h s v at"
| "room_step room (CmdTransferHost h t e v at) = TransferHost room h t e v at"
| "room_step room (CmdFinish s v at) = FinishSession room s v at"
| "room_step room (CmdCancel s v at) = CancelSession room s v at"
| "room_step room (CmdCancelAndClose h s v at) = CancelSessionAndClose room h s v at"
| "room_step room (CmdRemove h u v at) = map_sum id fst (fst (RemoveMember room h u v at))"
| "room_step room (CmdClose h v at) = Close room h v at"
| "room_step room (CmdAdminSetAdmission a p s v at) = SetAdmissionByAdmin room a p s v at"
| "room_step room (CmdAdminRemove a u v at) = map_sum id fst (fst (RemoveMemberByAdmin room a u v at))"
| "room_step room (CmdAdminClose a v at) = CloseWaitingByAdmin room a v at"

lemma map_fst_Inr: "map_sum id fst m = Inr r \<longleftrightarrow> (\<exists>x. m = Inr (r, x))"
  by (cases m) auto

lemma RemoveMember_Inr:
  assumes "fst (RemoveMember room host userID expected at) = Inr x"
  shows "host = rs_HostUserID room" "expected = Room_Version room"
    "RemoveMember room host userID expected at = remove_member room userID (canonicalRoomTime at)"
  using assms by (auto simp: RemoveMember_def Let_def checkHost_def checkVersion_def split: if_splits)

lemma RemoveMemberByAdmin_Inr:
  assumes "fst (RemoveMemberByAdmin room actor userID expected at) = Inr x"
  shows "expected = Room_Version room"
    "RemoveMemberByAdmin room actor userID expected at = remove_member room userID (canonicalRoomTime at)"
  using assms by (auto simp: RemoveMemberByAdmin_def Let_def checkVersion_def split: if_splits)

lemma Close_Inr: "Close room host expected at = Inr r \<longleftrightarrow>
    host \<noteq> uuid_Nil \<and> canonicalRoomTime at \<noteq> 0 \<and> host = rs_HostUserID room \<and> expected = Room_Version room \<and>
    close_room room (canonicalRoomTime at) = Inr r"
  unfolding Close_def Let_def outcome checkHost_Inr checkVersion_Inr by blast

lemma CloseWaitingByAdmin_Inr: "CloseWaitingByAdmin room actor expected at = Inr r \<longleftrightarrow>
    aa_ID actor \<noteq> uuid_Nil \<and> canonicalRoomTime at \<noteq> 0 \<and> expected = Room_Version room \<and>
    close_room room (canonicalRoomTime at) = Inr r"
  unfolding CloseWaitingByAdmin_def Let_def outcome checkVersion_Inr by blast

section \<open>What a command may change\<close>

text \<open>
  The changes of a room at a point of time as an abstract relation: the room and the snapshot that is then stamped
  and restored. The flag tells whether the membership changes. Every command is shown to implement one of these
  changes or none.
\<close>

inductive room_change :: "go_time \<Rightarrow> bool \<Rightarrow> Room \<Rightarrow> RoomSnapshot \<Rightarrow> bool" where
  queue: "rs_Status room = RoomStatusPlaying \<Longrightarrow> i < length (rs_Members room) \<Longrightarrow>
    mb_Role (rs_Members room ! i) = MemberRoleSpectator \<Longrightarrow>
    room_change at True room (room\<lparr>rs_Members := (rs_Members room)[i := (rs_Members room ! i)
      \<lparr>mb_Role := MemberRoleWaiting, mb_RequestedRole := MemberRoleParticipant, mb_SeatIndex := 0\<rparr>]\<rparr>)"
| add: "rs_Status room \<noteq> RoomStatusClosed \<Longrightarrow> userID \<notin> mb_UserID ` set (rs_Members room) \<Longrightarrow> userID \<noteq> uuid_Nil \<Longrightarrow>
    JoinIntent_Valid intent \<Longrightarrow> at \<noteq> 0 \<Longrightarrow> admits room userID intent at m \<Longrightarrow>
    room_change at True room (room\<lparr>rs_Members := rs_Members room @ [m]\<rparr>)"
| approve: "admissionMutable (rs_Status room) \<Longrightarrow> i < length (rs_Members room) \<Longrightarrow>
    mb_Role (rs_Members room ! i) = MemberRoleWaiting \<Longrightarrow> promotes room (rs_Members room ! i) m \<Longrightarrow>
    room_change at True room (room\<lparr>rs_Members := (rs_Members room)[i := m]\<rparr>)"
| remove: "i < length (rs_Members room) \<Longrightarrow> mb_UserID (rs_Members room ! i) = userID \<Longrightarrow> userID \<noteq> rs_HostUserID room \<Longrightarrow>
    room_change at True room (room\<lparr>rs_Members := take i (rs_Members room) @ drop (Suc i) (rs_Members room),
      rs_PendingPauseRequest := (if pp_RequestedByUserID (rs_PendingPauseRequest room) = userID
        then no_pending else rs_PendingPauseRequest room)\<rparr>)"
| admission: "admissionMutable (rs_Status room) \<Longrightarrow> AdmissionMode_Valid participant \<Longrightarrow> AdmissionMode_Valid spectator \<Longrightarrow>
    room_change at False room (room\<lparr>rs_ParticipantAdmission := participant, rs_SpectatorAdmission := spectator\<rparr>)"
| select: "admissionMutable (rs_Status room) \<Longrightarrow> game \<noteq> [] \<Longrightarrow> TrimSpace game = game \<Longrightarrow>
    room_change at False room (room\<lparr>rs_SelectedGameID := game\<rparr>)"
| start: "admissionMutable (rs_Status room) \<Longrightarrow> session \<noteq> uuid_Nil \<Longrightarrow> game \<noteq> [] \<Longrightarrow>
    room_change at False room (room\<lparr>rs_Status := RoomStatusPlaying, rs_ActiveSessionID := session,
      rs_ActiveGameID := game, rs_ParticipantAdmission := AdmissionClosed,
      rs_LastFinishedSessionID := uuid_Nil, rs_LastFinishedGameID := []\<rparr>)"
| request: "rs_Status room = RoomStatusPlaying \<Longrightarrow> request \<noteq> uuid_Nil \<Longrightarrow> at \<noteq> 0 \<Longrightarrow> actor \<noteq> rs_HostUserID room \<Longrightarrow>
    actor \<noteq> uuid_Nil \<Longrightarrow> ap_ID (rs_ActivePause room) = uuid_Nil \<Longrightarrow> Room_Member room actor = Some m \<Longrightarrow> seated m \<Longrightarrow>
    room_change at False room (room\<lparr>rs_PendingPauseRequest := \<lparr>pp_ID = request,
      pp_SessionID = rs_ActiveSessionID room, pp_RequestedByUserID = actor, pp_RequestedAt = at\<rparr>\<rparr>)"
| reject: "room_change at False room (room\<lparr>rs_PendingPauseRequest := no_pending\<rparr>)"
| pause: "rs_Status room = RoomStatusPlaying \<Longrightarrow> pause \<noteq> uuid_Nil \<Longrightarrow> at \<noteq> 0 \<Longrightarrow>
    (request \<noteq> uuid_Nil \<longrightarrow> pp_ID (rs_PendingPauseRequest room) = request) \<Longrightarrow>
    room_change at False room (room\<lparr>rs_PendingPauseRequest := no_pending,
      rs_ActivePause := \<lparr>ap_ID = pause, ap_SessionID = rs_ActiveSessionID room,
        ap_Source = (if request \<noteq> uuid_Nil then PauseSourceApprovedRequest else PauseSourceHost),
        ap_RequestedByUserID = (if request \<noteq> uuid_Nil then pp_RequestedByUserID (rs_PendingPauseRequest room) else uuid_Nil),
        ap_PausedByUserID = rs_HostUserID room, ap_PausedAt = at\<rparr>\<rparr>)"
| resume: "rs_Status room = RoomStatusPlaying \<Longrightarrow> room_change at False room (room\<lparr>rs_ActivePause := no_pause\<rparr>)"
| transfer: "rs_Status room \<noteq> RoomStatusClosed \<Longrightarrow> rs_OwnershipEpoch room \<noteq> - 1 \<Longrightarrow>
    Room_Member room target = Some m \<Longrightarrow> seated m \<Longrightarrow> target \<noteq> rs_HostUserID room \<Longrightarrow>
    room_change at False room (room\<lparr>rs_HostUserID := target, rs_OwnershipEpoch := rs_OwnershipEpoch room + 1,
      rs_PendingPauseRequest := (if pp_RequestedByUserID (rs_PendingPauseRequest room) = target
        then no_pending else rs_PendingPauseRequest room)\<rparr>)"
| finish: "rs_Status room = RoomStatusPlaying \<Longrightarrow>
    room_change at False room (room\<lparr>rs_Status := RoomStatusPostGame, rs_ActiveSessionID := uuid_Nil,
      rs_ActiveGameID := [], rs_ParticipantAdmission := AdmissionClosed,
      rs_LastFinishedSessionID := rs_ActiveSessionID room, rs_LastFinishedGameID := rs_ActiveGameID room,
      rs_PendingPauseRequest := no_pending, rs_ActivePause := no_pause\<rparr>)"
| cancel: "rs_Status room = RoomStatusPlaying \<Longrightarrow>
    room_change at False room (room\<lparr>rs_Status := RoomStatusLobby, rs_ActiveSessionID := uuid_Nil,
      rs_ActiveGameID := [], rs_ParticipantAdmission := AdmissionClosed, rs_LastFinishedSessionID := uuid_Nil,
      rs_LastFinishedGameID := [], rs_PendingPauseRequest := no_pending, rs_ActivePause := no_pause\<rparr>)"
| cancel_close: "rs_Status room = RoomStatusPlaying \<Longrightarrow>
    room_change at False room (room\<lparr>rs_Status := RoomStatusClosed, rs_ActiveSessionID := uuid_Nil,
      rs_ActiveGameID := [], rs_ParticipantAdmission := AdmissionClosed, rs_SpectatorAdmission := AdmissionClosed,
      rs_LastFinishedSessionID := uuid_Nil, rs_LastFinishedGameID := [], rs_PendingPauseRequest := no_pending,
      rs_ActivePause := no_pause\<rparr>)"
| close: "rs_Status room \<noteq> RoomStatusPlaying \<Longrightarrow> rs_Status room \<noteq> RoomStatusClosed \<Longrightarrow>
    room_change at False room (room\<lparr>rs_Status := RoomStatusClosed, rs_ParticipantAdmission := AdmissionClosed,
      rs_SpectatorAdmission := AdmissionClosed, rs_PendingPauseRequest := no_pending, rs_ActivePause := no_pause\<rparr>)"

text \<open>A command either leaves the room or commits one change of it, and it names the version it was sent for.\<close>

definition changes :: "Room \<Rightarrow> Version \<Rightarrow> Room \<Rightarrow> bool" where
  "changes room expected r \<longleftrightarrow> expected = Room_Version room \<and>
     (r = room \<or> (\<exists>changed at s. room_change at changed room s \<and> committed changed at s r))"

lemma changes_commit:
  "committed changed at s r \<Longrightarrow> room_change at changed room s \<Longrightarrow> v = Room_Version room \<Longrightarrow> changes room v r"
  by (auto simp: changes_def)

lemma changes_same [simp]: "changes room v room \<longleftrightarrow> v = Room_Version room"
  by (simp add: changes_def)

lemma remove_member_changes:
  assumes "room_inv room" and "fst (remove_member room u (canonicalRoomTime at)) = Inr (r, x)" and "v = Room_Version room"
  shows "changes room v r"
  using assms(1) canonicalRoomTime_idem assms(2)
  by (cases rule: remove_member_Inr) (auto elim!: changes_commit intro: room_change.remove assms(3))

lemma close_room_changes:
  assumes "room_inv room" and "close_room room (canonicalRoomTime at) = Inr r" and "v = Room_Version room"
  shows "changes room v r"
  using assms(2)
  by (cases "rs_Status room = RoomStatusClosed")
    (auto simp: close_room_Inr [OF assms(1)] assms(3) elim!: changes_commit intro: room_change.close)

lemma room_step_changes:
  assumes inv: "room_inv room" and step: "room_step room c = Inr r"
  shows "changes room (command_expected c) r"
proof (cases c)
  case (CmdJoin u i v at)
  with step obtain x where "fst (Join room u i v at) = Inr (r, x)" by (auto simp: map_fst_Inr)
  with inv show ?thesis
    by (cases rule: Join_Inr) (use CmdJoin in \<open>auto elim!: changes_commit intro: room_change.queue room_change.add\<close>)
next
  case (CmdApprove h u v at)
  with step obtain x where "fst (ApproveWaiting room h u v at) = Inr (r, x)" by (auto simp: map_fst_Inr)
  with inv show ?thesis
    by (cases rule: ApproveWaiting_Inr) (use CmdApprove in \<open>auto elim!: changes_commit intro: room_change.approve\<close>)
next
  case (CmdRemove h u v at)
  with step obtain x where x: "fst (RemoveMember room h u v at) = Inr (r, x)" by (auto simp: map_fst_Inr)
  with RemoveMember_Inr(2,3) [OF x] inv show ?thesis by (auto simp: CmdRemove intro: remove_member_changes)
next
  case (CmdAdminRemove a u v at)
  with step obtain x where x: "fst (RemoveMemberByAdmin room a u v at) = Inr (r, x)" by (auto simp: map_fst_Inr)
  with RemoveMemberByAdmin_Inr(1,2) [OF x] inv show ?thesis by (auto simp: CmdAdminRemove intro: remove_member_changes)
next
  case (CmdSelectGame h g v at)
  with step show ?thesis
    by (cases "rs_SelectedGameID room = TrimSpace g")
      (auto simp: SelectGame_Inr [OF inv] elim!: changes_commit intro: room_change.select)
next
  case (CmdStart h s g a b v at)
  with step show ?thesis
    by (auto simp: map_fst_Inr StartSession_Inr [OF inv] elim!: changes_commit intro: room_change.start)
next
  case (CmdTransferHost h t e v at)
  with step show ?thesis by (auto simp: TransferHost_Inr [OF inv] elim!: changes_commit intro: room_change.transfer)
qed (use step inv in \<open>auto simp: SetAdmission_Inr [OF inv] RequestPause_Inr [OF inv] RejectPause_Inr [OF inv] Pause_Inr [OF inv]
    Resume_Inr [OF inv] FinishSession_Inr [OF inv] CancelSession_Inr [OF inv] Close_Inr CloseWaitingByAdmin_Inr
    CancelSessionAndClose_Inr [OF inv] SetAdmissionByAdmin_Inr [OF inv] elim!: changes_commit
    intro: close_room_changes room_change.intros(5,8-11,13-15)\<close>)

lemma room_stepE:
  assumes "room_inv room" and "room_step room c = Inr r"
  obtains (same) "r = room" | (change) changed at s where "room_change at changed room s" "committed changed at s r"
  using room_step_changes [OF assms] by (auto simp: changes_def)

end
