(* ===== verification/RoomLife.thy ===== *)
theory RoomLife
  imports RoomSteps "HOL-Library.Sublist"
begin

text \<open>
  What all commands of a room have in common: the versions move on by one, the status follows the life cycle, the
  host changes only by a transfer, and the participants of a running session only become fewer.
\<close>

section \<open>Versions\<close>

lemma unat_Suc_u64: "(x :: u64) \<noteq> - 1 \<Longrightarrow> unat (x + 1) = Suc (unat x)"
  by (metis Suc_eq_plus1 add.commute add_eq_0_iff2 unatSuc)

text \<open>No change touches what identifies the room; one that does not change the membership leaves the members.\<close>

lemma room_change_kept:
  assumes "room_change at changed room s"
  shows "rs_ID s = rs_ID room" "rs_RoomCode s = rs_RoomCode room" "rs_Visibility s = rs_Visibility room"
    "rs_ParticipantCapacity s = rs_ParticipantCapacity room" "rs_CreatedAt s = rs_CreatedAt room"
    "rs_RoomVersion s = rs_RoomVersion room" "rs_MembershipVersion s = rs_MembershipVersion room"
    "\<not> changed \<Longrightarrow> rs_Members s = rs_Members room"
  using assms by (cases rule: room_change.cases; simp)+

lemma room_step_inv:
  assumes "room_inv room" and "room_step room c = Inr r"
  shows "room_inv r"
  using assms by (rule room_stepE) (auto simp: assms(1) committed_def)

lemma committed_version:
  assumes "committed changed at s r" and "room_change at changed room s"
  shows "unat (rs_RoomVersion r) = Suc (unat (rs_RoomVersion room))"
    and "unat (rs_MembershipVersion r) = unat (rs_MembershipVersion room) + (if changed then 1 else 0)"
    and "\<not> changed \<Longrightarrow> rs_Members r = rs_Members room"
  using assms room_change_kept [OF assms(2)] by (auto simp: committed_def stamped_def unat_Suc_u64)

interpretation rooms: versioned_store room_step room_inv "\<lambda>room. unat (rs_RoomVersion room)"
  "\<lambda>c. unat (vr_Room (command_expected c))"
proof unfold_locales
  fix room c r
  assume inv: "room_inv room" and step: "room_step room c = Inr r"
  show "room_inv r" by (rule room_step_inv [OF inv step])
  show "unat (vr_Room (command_expected c)) = unat (rs_RoomVersion room)"
    using room_step_changes [OF inv step] by (simp add: changes_def Room_Version_def)
  show "r = room \<or> unat (rs_RoomVersion r) = Suc (unat (rs_RoomVersion room))"
    using inv step by (rule room_stepE) (simp, blast dest: committed_version(1))
qed

lemma room_membership_version:
  assumes "room_inv room" and "room_step room c = Inr r" and "rs_Members r \<noteq> rs_Members room"
  shows "unat (rs_MembershipVersion r) = Suc (unat (rs_MembershipVersion room))"
  using assms(1,2)
proof (cases rule: room_stepE)
  case (change changed at s)
  from committed_version(2,3) [OF change(2,1)] assms(3) show ?thesis by (cases changed) auto
qed (use assms(3) in simp)

section \<open>The life cycle\<close>

text \<open>The life cycle that the room promises, with the session that is played or was played last.\<close>

datatype life = Lobby | Playing uuid | PostGame uuid | Closed

inductive life_step :: "life \<Rightarrow> life \<Rightarrow> bool" where
  stay: "life_step l l"
| start_first: "session \<noteq> uuid_Nil \<Longrightarrow> life_step Lobby (Playing session)"
| start_next: "session \<noteq> uuid_Nil \<Longrightarrow> life_step (PostGame previous) (Playing session)"
| finish: "life_step (Playing session) (PostGame session)"
| cancel: "life_step (Playing session) Lobby"
| cancel_close: "life_step (Playing session) Closed"
| close_lobby: "life_step Lobby Closed"
| close_post_game: "life_step (PostGame previous) Closed"

inductive_cases life_step_ClosedE: "life_step Closed l"

definition life_of :: "Room \<Rightarrow> life" where
  "life_of room =
     (if rs_Status room = RoomStatusPlaying then Playing (rs_ActiveSessionID room)
      else if rs_Status room = RoomStatusPostGame then PostGame (rs_LastFinishedSessionID room)
      else if rs_Status room = RoomStatusClosed then Closed
      else Lobby)"

lemma life_status:
  "rs_Status s = RoomStatusPlaying \<Longrightarrow> life_of s = Playing (rs_ActiveSessionID s)"
  "rs_Status s = RoomStatusPostGame \<Longrightarrow> life_of s = PostGame (rs_LastFinishedSessionID s)"
  "rs_Status s = RoomStatusClosed \<Longrightarrow> life_of s = Closed"
  "rs_Status s = RoomStatusLobby \<Longrightarrow> life_of s = Lobby"
  by (simp_all add: life_of_def)

lemma life_update [simp]:
  "life_of (rs_Members_update f s) = life_of s" "life_of (rs_SelectedGameID_update g s) = life_of s"
  "life_of (rs_PendingPauseRequest_update h s) = life_of s" "life_of (rs_ActivePause_update k s) = life_of s"
  "life_of (rs_HostUserID_update l s) = life_of s" "life_of (rs_OwnershipEpoch_update m s) = life_of s"
  "life_of (rs_ParticipantAdmission_update g s) = life_of s" "life_of (rs_SpectatorAdmission_update g s) = life_of s"
  by (simp_all add: life_of_def)

lemma life_stamped [simp]: "life_of (stamped changed at s) = life_of s"
  by (simp add: life_of_def stamped_def)

lemma status_cases: "room_inv room \<Longrightarrow> rs_Status room \<in> {RoomStatusLobby, RoomStatusPlaying, RoomStatusPostGame, RoomStatusClosed}"
  by (auto simp: room_inv_def room_ok_def header_ok_def RoomStatus_Valid_def)

lemma room_change_life:
  "room_change at changed room s \<Longrightarrow> room_inv room \<Longrightarrow> life_step (life_of room) (life_of s)"
  by (drule status_cases, erule room_change.cases)
    (auto simp: life_status admissionMutable_def intro: life_step.intros)

lemma room_step_life:
  assumes "room_inv room" and "room_step room c = Inr r"
  shows "life_step (life_of room) (life_of r)"
  using assms by (rule room_stepE) (auto simp: committed_def dest: room_change_life [OF _ assms(1)] intro: life_step.stay)

lemma run_room_inv: "room_inv room \<Longrightarrow> room_inv (run_commands room_step room cs)"
  by (rule rooms.run_inv)

lemma run_life: "room_inv room \<Longrightarrow> life_step\<^sup>*\<^sup>* (life_of room) (life_of (run_commands room_step room cs))"
proof (induction cs arbitrary: room)
  case (Cons c cs)
  then show ?case
    by (auto split: sum.splits dest: room_step_inv room_step_life intro: converse_rtranclp_into_rtranclp)
qed simp

lemma life_closed: "life_step\<^sup>*\<^sup>* Closed l \<Longrightarrow> l = Closed"
  by (induction rule: rtranclp_induct) (auto elim: life_step_ClosedE)

section \<open>The host\<close>

text \<open>The user as whom a command acts on the host's authority.\<close>

fun acting_host :: "room_command \<Rightarrow> uuid option" where
  "acting_host (CmdSetAdmission h p s v at) = Some h"
| "acting_host (CmdSelectGame h g v at) = Some h"
| "acting_host (CmdApprove h u v at) = Some h"
| "acting_host (CmdStart h s g a b v at) = Some h"
| "acting_host (CmdRejectPause h q v at) = Some h"
| "acting_host (CmdPause h p s q v at) = Some h"
| "acting_host (CmdResume h s v at) = Some h"
| "acting_host (CmdTransferHost h t e v at) = Some h"
| "acting_host (CmdCancelAndClose h s v at) = Some h"
| "acting_host (CmdRemove h u v at) = Some h"
| "acting_host (CmdClose h v at) = Some h"
| "acting_host c = None"

lemma room_step_authority:
  assumes inv: "room_inv room" and step: "room_step room c = Inr r" and host: "acting_host c = Some h"
  shows "h = rs_HostUserID room"
proof (cases c)
  case (CmdApprove h u v at)
  with step obtain x where "fst (ApproveWaiting room h u v at) = Inr (r, x)" by (auto simp: map_fst_Inr)
  with inv show ?thesis by (cases rule: ApproveWaiting_Inr) (use CmdApprove host in simp)
next
  case (CmdRemove h u v at)
  with step host RemoveMember_Inr(1) show ?thesis by (auto simp: map_fst_Inr)
qed (use step host in \<open>auto simp: map_fst_Inr SetAdmission_Inr [OF inv] SelectGame_Inr [OF inv] StartSession_Inr [OF inv]
    RejectPause_Inr [OF inv] Pause_Inr [OF inv] Resume_Inr [OF inv] TransferHost_Inr [OF inv]
    CancelSessionAndClose_Inr [OF inv] Close_Inr\<close>)

lemma room_change_host:
  "room_change at changed room s \<Longrightarrow>
     rs_HostUserID s = rs_HostUserID room \<and> rs_OwnershipEpoch s = rs_OwnershipEpoch room \<or>
     rs_HostUserID s \<noteq> rs_HostUserID room \<and> rs_OwnershipEpoch room \<noteq> - 1 \<and>
       rs_OwnershipEpoch s = rs_OwnershipEpoch room + 1"
  by (erule room_change.cases) simp_all

lemma room_step_epoch:
  assumes "room_inv room" and "room_step room c = Inr r"
  shows "unat (rs_OwnershipEpoch r) =
    unat (rs_OwnershipEpoch room) + (if rs_HostUserID r = rs_HostUserID room then 0 else 1)"
  using assms
  by (rule room_stepE) (auto simp: committed_def stamped_def unat_Suc_u64 dest!: room_change_host)

lemma host_is_seated:
  assumes "room_inv room"
  shows "\<exists>m \<in> set (rs_Members room). mb_UserID m = rs_HostUserID room \<and> seated m"
  using assms by (auto simp: room_inv_def room_ok_def members_ok_def member_ok_def)

section \<open>The frozen roster\<close>

lemma frozen_participants_append:
  "frozen_participants (ms @ ns) = frozen_participants ms @ frozen_participants ns"
  by (simp add: frozen_participants_def)

lemma frozen_participants_update:
  assumes "i < length ms" and "\<not> seated (ms ! i)" and "\<not> seated m"
  shows "frozen_participants (ms[i := m]) = frozen_participants ms"
proof -
  have "frozen_participants (take i ms @ m # drop (Suc i) ms) = frozen_participants (take i ms @ ms ! i # drop (Suc i) ms)"
    using assms(2,3) by (simp add: frozen_participants_def seated_def)
  then show ?thesis using assms(1) by (simp add: upd_conv_take_nth_drop flip: id_take_nth_drop)
qed

lemma frozen_participants_remove:
  "subseq (frozen_participants (take i ms @ drop (Suc i) ms)) (frozen_participants ms)"
proof -
  have "subseq (take i ms @ drop (Suc i) ms) (take i ms @ drop i ms)"
    by (intro list_emb_append_mono) (simp, metis Suc_eq_plus1_left drop_drop suffix_drop suffix_imp_subseq)
  then have "subseq (take i ms @ drop (Suc i) ms) ms" by simp
  then show ?thesis unfolding frozen_participants_def by (intro subseq_map subseq_filter)
qed

lemma room_change_roster:
  assumes "room_change at changed room s" and "rs_Status room = RoomStatusPlaying"
  shows "subseq (frozen_participants (rs_Members s)) (frozen_participants (rs_Members room))"
  using assms
proof (cases rule: room_change.cases)
  case (queue i)
  then show ?thesis by (simp add: frozen_participants_update seated_def)
next
  case (add userID intent m)
  then have "\<not> seated m" using assms(2) by (auto simp: admits_def seated_def)
  with add show ?thesis by (simp add: frozen_participants_append) (simp add: frozen_participants_def seated_def)
next
  case (remove i userID)
  then show ?thesis by (simp add: frozen_participants_remove)
qed (simp_all add: admissionMutable_def)

text \<open>Only the start of a session begins to play.\<close>

fun starts_session :: "room_command \<Rightarrow> bool" where
  "starts_session (CmdStart h s g a b v at) = True"
| "starts_session c = False"

lemma room_change_session:
  "room_change at changed room s \<Longrightarrow> rs_Status room = RoomStatusPlaying \<Longrightarrow> rs_Status s = RoomStatusPlaying \<Longrightarrow>
     rs_ActiveSessionID s = rs_ActiveSessionID room \<and> rs_ActiveGameID s = rs_ActiveGameID room"
  by (erule room_change.cases) (simp_all add: admissionMutable_def)

lemma committed_status: "committed changed at s r \<Longrightarrow> rs_Status r = rs_Status s"
  by (auto simp: committed_def stamped_def)

lemma room_step_starts:
  assumes inv: "room_inv room" and step: "room_step room c = Inr r" and "\<not> starts_session c"
    and playing: "rs_Status r = RoomStatusPlaying"
  shows "rs_Status room = RoomStatusPlaying"
proof (cases c)
  case (CmdJoin u i v at)
  with step obtain x where "fst (Join room u i v at) = Inr (r, x)" by (auto simp: map_fst_Inr)
  with inv show ?thesis by (cases rule: Join_Inr) (use playing in \<open>auto dest: committed_status\<close>)
next
  case (CmdApprove h u v at)
  with step obtain x where "fst (ApproveWaiting room h u v at) = Inr (r, x)" by (auto simp: map_fst_Inr)
  with inv show ?thesis by (cases rule: ApproveWaiting_Inr) (use playing in \<open>auto dest: committed_status\<close>)
next
  case (CmdRemove h u v at)
  with step obtain x where x: "fst (RemoveMember room h u v at) = Inr (r, x)" by (auto simp: map_fst_Inr)
  from inv canonicalRoomTime_idem x [unfolded RemoveMember_Inr(3) [OF x]] show ?thesis
    by (cases rule: remove_member_Inr) (use playing in \<open>auto dest: committed_status\<close>)
next
  case (CmdAdminRemove a u v at)
  with step obtain x where x: "fst (RemoveMemberByAdmin room a u v at) = Inr (r, x)" by (auto simp: map_fst_Inr)
  from inv canonicalRoomTime_idem x [unfolded RemoveMemberByAdmin_Inr(2) [OF x]] show ?thesis
    by (cases rule: remove_member_Inr) (use playing in \<open>auto dest: committed_status\<close>)
qed (use assms in \<open>auto simp: SetAdmission_Inr [OF inv] SelectGame_Inr [OF inv]
    RejectPause_Inr [OF inv] Pause_Inr [OF inv] RequestPause_Inr [OF inv] Resume_Inr [OF inv] TransferHost_Inr [OF inv]
    CancelSessionAndClose_Inr [OF inv] CancelSession_Inr [OF inv] FinishSession_Inr [OF inv] Close_Inr close_room_Inr [OF inv]
    CloseWaitingByAdmin_Inr SetAdmissionByAdmin_Inr [OF inv] dest!: committed_status split: if_splits\<close>)

lemma room_step_roster:
  assumes "room_inv room" and "room_step room c = Inr r" and "\<not> starts_session c" and "rs_Status r = RoomStatusPlaying"
  shows "subseq (frozen_participants (rs_Members r)) (frozen_participants (rs_Members room)) \<and>
    rs_ActiveSessionID r = rs_ActiveSessionID room \<and> rs_ActiveGameID r = rs_ActiveGameID room"
  using assms(1,2)
proof (cases rule: room_stepE)
  case (change changed at s)
  have "rs_Status room = RoomStatusPlaying" by (rule room_step_starts [OF assms])
  with room_change_roster [OF change(1)] room_change_session [OF change(1)] change(2) assms(4)
  show ?thesis by (auto simp: committed_def stamped_def)
qed simp

lemma run_roster:
  assumes "room_inv room" and "list_all (\<lambda>c. \<not> starts_session c) cs"
    and "rs_Status (run_commands room_step room cs) = RoomStatusPlaying"
  shows "rs_Status room = RoomStatusPlaying \<and>
    subseq (frozen_participants (rs_Members (run_commands room_step room cs))) (frozen_participants (rs_Members room)) \<and>
    rs_ActiveSessionID (run_commands room_step room cs) = rs_ActiveSessionID room \<and>
    rs_ActiveGameID (run_commands room_step room cs) = rs_ActiveGameID room"
  using assms
proof (induction cs arbitrary: room)
  case (Cons c cs)
  show ?case
  proof (cases "room_step room c")
    case (Inl e)
    with Cons show ?thesis by simp
  next
    case (Inr r)
    from Cons.prems Inr have n: "\<not> starts_session c" "list_all (\<lambda>c. \<not> starts_session c) cs"
      "rs_Status (run_commands room_step r cs) = RoomStatusPlaying" by simp_all
    note ih = Cons.IH [OF room_step_inv [OF Cons.prems(1) Inr] n(2,3)]
    from room_step_roster [OF Cons.prems(1) Inr n(1)] room_step_starts [OF Cons.prems(1) Inr n(1)] ih show ?thesis
      by (auto simp: Inr intro: subseq_order.trans)
  qed
qed simp

end
