(* ===== verification/RoomErrors.thy ===== *)
theory RoomErrors
  imports RoomLife
begin

text \<open>
  The seats of a room, and that the snapshots the commands build are always accepted by \<open>Restore\<close>: a command
  reports invalid input exactly when its own input is ill formed.
\<close>

section \<open>Seats\<close>

declare seat_from.simps [simp del]

lemma seat_from_Some:
  "seat_from used capacity k = Some seat \<longleftrightarrow>
     k \<le> seat \<and> seat < capacity \<and> seat \<notin> used \<and> (\<forall>t. k \<le> t \<longrightarrow> t < seat \<longrightarrow> t \<in> used)"
proof (induction used capacity k rule: seat_from.induct)
  case (1 used capacity k)
  have next': "k + 1 \<le> t \<longleftrightarrow> k < t" if "k < capacity" for t
    using that unat_plus_1_u32 [OF less_not_MaxUint32 [of k capacity]] by (simp add: word_le_nat_alt word_less_nat_alt Suc_le_eq)
  show ?case
  proof (cases "k < capacity \<and> k \<in> used")
    case True
    with 1 show ?thesis by (subst seat_from.simps) (auto simp: next' order_less_le)
  next
    case False
    then show ?thesis by (subst seat_from.simps) (auto simp: order_less_le)
  qed
qed

lemma seat_from_None:
  "seat_from used capacity k = None \<longleftrightarrow> (\<forall>t. k \<le> t \<longrightarrow> t < capacity \<longrightarrow> t \<in> used)"
proof (induction used capacity k rule: seat_from.induct)
  case (1 used capacity k)
  have next': "k + 1 \<le> t \<longleftrightarrow> k < t" if "k < capacity" for t
    using that unat_plus_1_u32 [OF less_not_MaxUint32 [of k capacity]] by (simp add: word_le_nat_alt word_less_nat_alt Suc_le_eq)
  show ?case
  proof (cases "k < capacity \<and> k \<in> used")
    case True
    with 1 show ?thesis by (subst seat_from.simps) (auto simp: next' order_less_le)
  next
    case False
    then show ?thesis by (subst seat_from.simps) auto
  qed
qed

definition taken_seats :: "Room \<Rightarrow> u32 set" where
  "taken_seats room = mb_SeatIndex ` {m \<in> set (rs_Members room). seated m}"

definition seats_fit :: "Room \<Rightarrow> bool" where
  "seats_fit room \<longleftrightarrow> (\<forall>seat \<in> taken_seats room. seat < rs_ParticipantCapacity room)"

lemma nextSeat_seats: "nextSeat room = seat_from (taken_seats room) (rs_ParticipantCapacity room) 0"
  by (simp add: nextSeat_def taken_seats_def seated_def)

lemma nextSeat_Some:
  "nextSeat room = Some seat \<longleftrightarrow>
     seat < rs_ParticipantCapacity room \<and> seat \<notin> taken_seats room \<and> (\<forall>t < seat. t \<in> taken_seats room)"
  by (auto simp: nextSeat_seats seat_from_Some)

lemma nextSeat_None: "nextSeat room = None \<longleftrightarrow> {..< rs_ParticipantCapacity room} \<subseteq> taken_seats room"
  by (auto simp: nextSeat_seats seat_from_None)

lemma card_below_u32: "card {..< (c :: u32)} = unat c"
proof -
  have "unat ` {..< c} = {..< unat c}"
  proof
    show "{..< unat c} \<subseteq> unat ` {..< c}"
    proof
      fix x
      assume "x \<in> {..< unat c}"
      then have "x < unat c" by simp
      then have "unat (of_nat x :: u32) = x" using unsigned_less [of c, where 'a = nat] by (simp add: unat_of_nat)
      then show "x \<in> unat ` {..< c}" using \<open>x < unat c\<close> by (metis imageI lessThan_iff word_less_nat_alt)
    qed
  qed (auto simp: word_less_nat_alt)
  moreover have "inj_on unat {..< c}" by (simp add: inj_on_def word_unat_eq_iff)
  ultimately show ?thesis by (metis card_image card_lessThan)
qed

lemma card_taken_seats: "members_ok room \<Longrightarrow> card (taken_seats room) = length (filter seated (rs_Members room))"
  using distinct_card [of "map mb_SeatIndex (filter seated (rs_Members room))"] by (simp add: members_ok_def taken_seats_def)

text \<open>With all seats within the capacity, a seat is free exactly as long as there are fewer participants than seats.\<close>

lemma nextSeat_full:
  assumes "members_ok room" and "seats_fit room"
  shows "nextSeat room = None \<longleftrightarrow> length (filter seated (rs_Members room)) = unat (rs_ParticipantCapacity room)"
proof -
  have sub: "taken_seats room \<subseteq> {..< rs_ParticipantCapacity room}" using assms(2) by (auto simp: seats_fit_def)
  have "nextSeat room = None \<longleftrightarrow> taken_seats room = {..< rs_ParticipantCapacity room}" using sub by (auto simp: nextSeat_None)
  also have "\<dots> \<longleftrightarrow> card (taken_seats room) = card {..< rs_ParticipantCapacity room}"
    using sub card_subset_eq [of "{..< rs_ParticipantCapacity room}" "taken_seats room"] by auto
  finally show ?thesis by (simp add: card_taken_seats [OF assms(1)] card_below_u32)
qed

lemma taken_seats_cong: "rs_Members s = rs_Members room \<Longrightarrow> taken_seats s = taken_seats room"
  by (simp add: taken_seats_def)

lemma taken_seats_subset:
  assumes "\<And>m. m \<in> set (rs_Members s) \<Longrightarrow> seated m \<Longrightarrow> m \<in> set (rs_Members room) \<or> mb_SeatIndex m = seat"
  shows "taken_seats s \<subseteq> insert seat (taken_seats room)"
  using assms by (fastforce simp: taken_seats_def)

lemma room_change_seats:
  assumes "room_change at changed room s" and "seats_fit room"
  shows "seats_fit s"
  using assms(1)
proof (cases rule: room_change.cases)
  case (queue i)
  then show ?thesis using assms(2)
    by (auto simp: seats_fit_def taken_seats_def seated_def dest!: set_update_subset_insert [THEN subsetD])
next
  case (add userID intent m)
  then show ?thesis using assms(2)
    by (auto simp: seats_fit_def taken_seats_def seated_def admits_def nextSeat_Some)
next
  case (approve i m)
  then show ?thesis using assms(2)
    by (auto simp: seats_fit_def taken_seats_def seated_def promotes_def nextSeat_Some split: if_splits
        dest!: set_update_subset_insert [THEN subsetD])
next
  case (remove i userID)
  then show ?thesis using assms(2)
    by (auto simp: seats_fit_def taken_seats_def dest: in_set_takeD in_set_dropD)
qed (use assms(2) in \<open>auto simp: seats_fit_def taken_seats_def\<close>)

lemma committed_seats: "committed changed at s r \<Longrightarrow> seats_fit s \<Longrightarrow> seats_fit r"
  by (auto simp: committed_def stamped_def seats_fit_def taken_seats_def)

lemma room_step_seats:
  assumes "room_inv room" and "room_step room c = Inr r" and "seats_fit room"
  shows "seats_fit r"
  using assms(1,2)
  by (rule room_stepE) (use assms(3) in \<open>auto intro: committed_seats room_change_seats\<close>)

lemma run_seats: "room_inv room \<Longrightarrow> seats_fit room \<Longrightarrow> seats_fit (run_commands room_step room cs)"
  by (induction cs arbitrary: room) (auto split: sum.splits dest: room_step_inv room_step_seats)

section \<open>Every change keeps the room well formed\<close>

lemma plus_1_neq_0_u64: "(x :: u64) \<noteq> - 1 \<Longrightarrow> x + 1 \<noteq> 0"
  by (simp add: add_eq_0_iff2)

lemma room_change_header:
  assumes "room_change at changed room s" and "room_ok room" and "rs_UpdatedAt room \<le> at"
    and "rs_RoomVersion room \<noteq> - 1" and "changed \<longrightarrow> rs_MembershipVersion room \<noteq> - 1"
  shows "header_ok (stamped changed at s)"
  using assms
  by (cases rule: room_change.cases)
    (auto simp: room_ok_def header_ok_def stamped_def plus_1_neq_0_u64 RoomStatus_Valid_def AdmissionMode_Valid_def
      members_ok_def member_ok_def dest!: Room_Member_Some)

lemma room_change_lifecycle:
  assumes "room_change at changed room s" and "room_ok room"
  shows "lifecycle_ok (stamped changed at s)"
  using assms by (cases rule: room_change.cases) (auto simp: room_ok_def lifecycle_ok_def stamped_def admissionMutable_def)

lemma seats_distinct:
  assumes "members_ok room" and "distinct (map mb_UserID ms)" and "set ms \<subseteq> insert m (set (rs_Members room))"
    and "seated m \<Longrightarrow> mb_SeatIndex m \<notin> taken_seats room"
  shows "distinct (map mb_SeatIndex (filter seated ms))"
proof -
  have "inj_on mb_SeatIndex {x \<in> set (rs_Members room). seated x}"
    using assms(1) by (simp add: members_ok_def distinct_map)
  moreover have "{x \<in> insert m (set (rs_Members room)). seated x} \<subseteq> insert m {x \<in> set (rs_Members room). seated x}" by blast
  ultimately have "inj_on mb_SeatIndex {x \<in> insert m (set (rs_Members room)). seated x}"
    using assms(4) by (cases "seated m") (auto simp: inj_on_insert taken_seats_def intro: inj_on_subset)
  then have "inj_on mb_SeatIndex (set (filter seated ms))" by (rule inj_on_subset) (use assms(3) in auto)
  then show ?thesis using assms(2) by (simp add: distinct_map)
qed

lemma members_ok_seats:
  assumes "\<forall>m \<in> set (rs_Members s). member_ok s m" and "distinct (map mb_UserID (rs_Members s))"
    and "distinct (map mb_SeatIndex (filter seated (rs_Members s)))" and "rs_HostUserID s \<in> mb_UserID ` set (rs_Members s)"
    and "seats_fit s" and "length (rs_Members s) \<le> unat (rs_ParticipantCapacity s) + 1000000"
  shows "members_ok s"
proof -
  have "length (filter seated (rs_Members s)) = card (taken_seats s)"
    using distinct_card [OF assms(3)] by (simp add: taken_seats_def)
  also have "\<dots> \<le> card {..< rs_ParticipantCapacity s}" by (rule card_mono) (use assms(5) in \<open>auto simp: seats_fit_def\<close>)
  finally show ?thesis using assms by (simp add: members_ok_def card_below_u32)
qed

lemma member_ok_later:
  "member_ok room m \<Longrightarrow> rs_UpdatedAt room \<le> at \<Longrightarrow> rs_HostUserID s = rs_HostUserID room \<Longrightarrow>
     rs_CreatedAt s = rs_CreatedAt room \<Longrightarrow> member_ok (stamped changed at s) m"
  by (auto simp: member_ok_def stamped_def)

lemma members_ok_same:
  "members_ok room \<Longrightarrow> rs_UpdatedAt room \<le> at \<Longrightarrow> rs_HostUserID s = rs_HostUserID room \<Longrightarrow> rs_CreatedAt s = rs_CreatedAt room \<Longrightarrow>
     rs_Members s = rs_Members room \<Longrightarrow> rs_ParticipantCapacity s = rs_ParticipantCapacity room \<Longrightarrow>
     members_ok (stamped changed at s)"
  using member_ok_later [of room _ at s changed] by (simp add: members_ok_def stamped_def)

lemma stamped_simps [simp]:
  "rs_Members (stamped changed at s) = rs_Members s" "rs_HostUserID (stamped changed at s) = rs_HostUserID s"
  "rs_ParticipantCapacity (stamped changed at s) = rs_ParticipantCapacity s" "rs_UpdatedAt (stamped changed at s) = at"
  "rs_CreatedAt (stamped changed at s) = rs_CreatedAt s" "rs_Status (stamped changed at s) = rs_Status s"
  "rs_ActiveSessionID (stamped changed at s) = rs_ActiveSessionID s"
  "rs_PendingPauseRequest (stamped changed at s) = rs_PendingPauseRequest s"
  "rs_ActivePause (stamped changed at s) = rs_ActivePause s"
  by (simp_all add: stamped_def)

lemma seats_fit_stamped [simp]: "seats_fit (stamped changed at s) \<longleftrightarrow> seats_fit s"
  by (simp add: seats_fit_def taken_seats_def)

lemma members_ok_replace:
  assumes m: "members_ok room" and at: "rs_UpdatedAt room \<le> at" and fit: "seats_fit s"
    and kept: "rs_HostUserID s = rs_HostUserID room" "rs_CreatedAt s = rs_CreatedAt room"
    and users: "distinct (map mb_UserID (rs_Members s))" "rs_HostUserID s \<in> mb_UserID ` set (rs_Members s)"
    and sub: "set (rs_Members s) \<subseteq> insert x (set (rs_Members room))"
    and x: "x \<in> set (rs_Members room) \<or> member_ok (stamped changed at s) x \<and> (seated x \<longrightarrow> mb_SeatIndex x \<notin> taken_seats room)"
    and len: "length (rs_Members s) \<le> unat (rs_ParticipantCapacity s) + 1000000"
  shows "members_ok (stamped changed at s)"
proof (rule members_ok_seats)
  have old: "member_ok (stamped changed at s) y" if "y \<in> set (rs_Members room)" for y
    using m that by (intro member_ok_later [OF _ at kept]) (simp add: members_ok_def)
  show "\<forall>y \<in> set (rs_Members (stamped changed at s)). member_ok (stamped changed at s) y"
    using sub x old by auto
  have "distinct (map mb_SeatIndex (filter seated (rs_Members s)))"
  proof (cases "x \<in> set (rs_Members room)")
    case True
    with sub have s: "set (rs_Members s) \<subseteq> set (rs_Members room)" by blast
    have "inj_on mb_SeatIndex (set (filter seated (rs_Members room)))" using m by (simp add: members_ok_def distinct_map)
    then have "inj_on mb_SeatIndex (set (filter seated (rs_Members s)))" by (rule inj_on_subset) (use s in auto)
    then show ?thesis using users(1) by (simp add: distinct_map)
  next
    case False
    with x seats_distinct [OF m users(1) sub] show ?thesis by blast
  qed
  then show "distinct (map mb_SeatIndex (filter seated (rs_Members (stamped changed at s))))" by simp
qed (use assms in simp_all)

lemma users_update:
  "i < length ms \<Longrightarrow> mb_UserID x = mb_UserID (ms ! i) \<Longrightarrow> map mb_UserID (ms[i := x]) = map mb_UserID ms"
  by (metis list_update_id map_update)

lemma users_remove:
  assumes "i < length ms" and "distinct (map f ms)"
  shows "distinct (map f (take i ms @ drop (Suc i) ms))"
    and "f ` set (take i ms @ drop (Suc i) ms) = f ` set ms - {f (ms ! i)}"
proof -
  have parts: "ms = take i ms @ ms ! i # drop (Suc i) ms" using assms(1) by (rule id_take_nth_drop)
  have "distinct (map f (take i ms @ ms ! i # drop (Suc i) ms))" using assms(2) parts by simp
  then show "distinct (map f (take i ms @ drop (Suc i) ms))" by auto
  have "f ` set (take i ms @ ms ! i # drop (Suc i) ms) - {f (ms ! i)} = f ` set (take i ms @ drop (Suc i) ms)"
    using \<open>distinct (map f (take i ms @ ms ! i # drop (Suc i) ms))\<close> by auto (metis imageI)+
  then show "f ` set (take i ms @ drop (Suc i) ms) = f ` set ms - {f (ms ! i)}" using parts by simp
qed

lemma room_change_members:
  assumes change: "room_change at changed room s" and ok: "room_ok room" and fit: "seats_fit room" and at: "rs_UpdatedAt room \<le> at"
    and small: "length (rs_Members room) < unat (rs_ParticipantCapacity room) + 1000000"
  shows "members_ok (stamped changed at s)"
proof -
  have m: "members_ok room" and h: "header_ok room" using ok by (simp_all add: room_ok_def)
  note replace = members_ok_replace [OF m at room_change_seats [OF change fit]]
  have host: "rs_HostUserID room \<in> set (map mb_UserID (rs_Members room))" and users: "distinct (map mb_UserID (rs_Members room))"
    using m by (simp_all add: members_ok_def)
  have put: "members_ok (stamped changed at s)"
    if s: "rs_Members s = (rs_Members room)[i := x]" and i: "i < length (rs_Members room)"
      and u: "mb_UserID x = mb_UserID (rs_Members room ! i)" and x: "member_ok room x"
      and seat: "seated x \<longrightarrow> mb_SeatIndex x \<notin> taken_seats room"
      and kept: "rs_HostUserID s = rs_HostUserID room" "rs_CreatedAt s = rs_CreatedAt room" for i x
  proof (rule replace [OF kept, where x = x])
    have "map mb_UserID (rs_Members s) = map mb_UserID (rs_Members room)" using users_update [OF i u] s by simp
    then show "distinct (map mb_UserID (rs_Members s))" "rs_HostUserID s \<in> mb_UserID ` set (rs_Members s)"
      using users host kept(1) by (metis, metis set_map)
    show "set (rs_Members s) \<subseteq> insert x (set (rs_Members room))" using s set_update_subset_insert by metis
    show "length (rs_Members s) \<le> unat (rs_ParticipantCapacity s) + 1000000"
      using small room_change_kept(4) [OF change] by (simp add: s)
    show "x \<in> set (rs_Members room) \<or> member_ok (stamped changed at s) x \<and> (seated x \<longrightarrow> mb_SeatIndex x \<notin> taken_seats room)"
      using member_ok_later [OF x at kept] seat by blast
  qed
  from change show ?thesis
  proof (cases rule: room_change.cases)
    case (queue i)
    have "member_ok room (rs_Members room ! i)" using m queue by (simp add: members_ok_def)
    with queue show ?thesis
      by (intro put [of i "(rs_Members room ! i)
          \<lparr>mb_Role := MemberRoleWaiting, mb_RequestedRole := MemberRoleParticipant, mb_SeatIndex := 0\<rparr>"])
        (auto simp: member_ok_def seated_def)
  next
    case (approve i x)
    have "member_ok room (rs_Members room ! i)" using m approve by (simp add: members_ok_def)
    with approve show ?thesis
      by (intro put [of i x]) (auto simp: member_ok_def seated_def promotes_def nextSeat_Some split: if_splits)
  next
    case (add userID intent x)
    have "member_ok (stamped changed at s) x"
      using add at h host by (auto simp: member_ok_def admits_def header_ok_def JoinIntent_Valid_def seated_def)
    with add show ?thesis
      using small users host by (intro replace [where x = x]) (auto simp: admits_def seated_def nextSeat_Some)
  next
    case (remove i userID)
    have "distinct (map mb_UserID (rs_Members s))" using users_remove(1) [OF remove(3) users] remove(2) by simp
    moreover have "rs_HostUserID room \<in> mb_UserID ` set (rs_Members s)"
      using host users_remove(2) [OF remove(3) users] remove(2,4,5) by auto
    ultimately show ?thesis
      using remove small by (intro replace [where x = "rs_Members room ! i"]) (auto dest: in_set_takeD in_set_dropD)
  next
    case (transfer target x)
    have "\<forall>y \<in> set (rs_Members room). mb_UserID y = target \<longrightarrow> y = x"
      using Room_Member_Some [OF transfer(5)] users by (auto simp: distinct_map inj_on_def)
    with transfer m Room_Member_Some [OF transfer(5)] at show ?thesis by (auto simp: members_ok_def member_ok_def)
  qed (use m at in \<open>auto intro!: members_ok_same\<close>)
qed


lemma in_set_update_other: "m \<in> set ms \<Longrightarrow> m \<noteq> ms ! i \<Longrightarrow> m \<in> set (ms[i := x])"
  by (metis in_set_conv_nth length_list_update nth_list_update_neq)

lemma in_set_remove_other:
  assumes "m \<in> set ms" and "i < length ms" and "m \<noteq> ms ! i"
  shows "m \<in> set (take i ms @ drop (Suc i) ms)"
proof -
  have "m \<in> set (take i ms @ ms ! i # drop (Suc i) ms)" using assms(1,2) by (simp flip: id_take_nth_drop)
  with assms(3) show ?thesis by auto
qed

lemma memberFromSnapshot_Some:
  "distinct (map mb_UserID ms) \<Longrightarrow> memberFromSnapshot ms u = Some m \<longleftrightarrow> m \<in> set ms \<and> mb_UserID m = u"
  unfolding memberFromSnapshot_def
  by (induction ms) (auto simp: image_iff)

lemma pause_ok_plain: "rs_PendingPauseRequest s = no_pending \<Longrightarrow> rs_ActivePause s = no_pause \<Longrightarrow> pause_ok s"
  by (simp add: pause_ok_def)

lemma pending_ok_later:
  assumes "pending_ok room" and "rs_UpdatedAt room \<le> at" and "rs_PendingPauseRequest s = rs_PendingPauseRequest room"
    and "rs_Status s = rs_Status room" and "rs_ActiveSessionID s = rs_ActiveSessionID room" and "rs_CreatedAt s = rs_CreatedAt room"
    and "pp_RequestedByUserID (rs_PendingPauseRequest room) \<noteq> rs_HostUserID s"
    and "distinct (map mb_UserID (rs_Members room))" and "distinct (map mb_UserID (rs_Members s))"
    and "\<And>m. m \<in> set (rs_Members room) \<Longrightarrow> seated m \<Longrightarrow>
      mb_UserID m = pp_RequestedByUserID (rs_PendingPauseRequest room) \<Longrightarrow> m \<in> set (rs_Members s)"
  shows "pending_ok (stamped changed at s)"
proof -
  from assms(1) obtain m where "m \<in> set (rs_Members room)" "seated m"
      "mb_UserID m = pp_RequestedByUserID (rs_PendingPauseRequest room)"
    by (auto simp: pending_ok_def Let_def memberFromSnapshot_Some [OF assms(8)])
  with assms(10) have "\<exists>m. m \<in> set (rs_Members s) \<and> mb_UserID m = pp_RequestedByUserID (rs_PendingPauseRequest s) \<and> seated m"
    using assms(3) by auto
  then show ?thesis
    using assms by (simp add: pending_ok_def Let_def memberFromSnapshot_Some)
qed

lemma paused_ok_later:
  "paused_ok room \<Longrightarrow> rs_UpdatedAt room \<le> at \<Longrightarrow> rs_ActivePause s = rs_ActivePause room \<Longrightarrow> rs_Status s = rs_Status room \<Longrightarrow>
     rs_ActiveSessionID s = rs_ActiveSessionID room \<Longrightarrow> rs_CreatedAt s = rs_CreatedAt room \<Longrightarrow> paused_ok (stamped changed at s)"
  by (auto simp: paused_ok_def Let_def)

lemma not_playing_plain: "pause_ok room \<Longrightarrow> rs_Status room \<noteq> RoomStatusPlaying \<Longrightarrow>
    rs_PendingPauseRequest room = no_pending \<and> rs_ActivePause room = no_pause"
  by (auto simp: pause_ok_def pending_ok_def paused_ok_def Let_def)

lemma room_change_pause:
  assumes change: "room_change at changed room s" and ok: "room_ok room" and at: "rs_UpdatedAt room \<le> at"
    and users: "distinct (map mb_UserID (rs_Members s))"
  shows "pause_ok (stamped changed at s)"
proof (cases "rs_Status room = RoomStatusPlaying")
  case False
  have plain: "rs_PendingPauseRequest room = no_pending" "rs_ActivePause room = no_pause"
    using not_playing_plain [OF _ False] ok by (simp_all add: room_ok_def)
  from change show ?thesis by (cases rule: room_change.cases) (use False plain in \<open>auto intro: pause_ok_plain\<close>)
next
  case True
  have m: "members_ok room" and p: "pause_ok room" and h: "header_ok room" using ok by (simp_all add: room_ok_def)
  have u: "distinct (map mb_UserID (rs_Members room))" using m by (simp add: members_ok_def)
  have keep: "pause_ok (stamped changed at s)"
    if "rs_PendingPauseRequest s = no_pending \<or>
        rs_PendingPauseRequest s = rs_PendingPauseRequest room \<and>
        (pending_ok room \<longrightarrow> pp_RequestedByUserID (rs_PendingPauseRequest room) \<noteq> rs_HostUserID s) \<and>
        (\<forall>m \<in> set (rs_Members room). seated m \<longrightarrow>
          mb_UserID m = pp_RequestedByUserID (rs_PendingPauseRequest room) \<longrightarrow> m \<in> set (rs_Members s))"
      and "rs_ActivePause s = no_pause \<or> rs_ActivePause s = rs_ActivePause room"
      and "rs_Status s = rs_Status room" "rs_ActiveSessionID s = rs_ActiveSessionID room" "rs_CreatedAt s = rs_CreatedAt room"
    using that p pending_ok_later [OF _ at _ that(3-5) _ u users, of changed] paused_ok_later [OF _ at _ that(3-5), of changed]
    unfolding pause_ok_def by auto
  from change show ?thesis
  proof (cases rule: room_change.cases)
    case (queue i)
    show ?thesis by (rule keep) (use queue in \<open>auto simp: pending_ok_def Let_def seated_def intro!: in_set_update_other\<close>)
  next
    case (add userID intent x)
    show ?thesis by (rule keep) (use add in \<open>auto simp: pending_ok_def Let_def\<close>)
  next
    case (remove i userID)
    have "m \<in> set (rs_Members s)" if "m \<in> set (rs_Members room)" "mb_UserID m \<noteq> userID" for m
      using in_set_remove_other [OF that(1) remove(3)] that remove(2,4) by auto
    moreover have "rs_PendingPauseRequest s = no_pending \<or>
        rs_PendingPauseRequest s = rs_PendingPauseRequest room \<and> pp_RequestedByUserID (rs_PendingPauseRequest room) \<noteq> userID"
      using remove(2) by simp
    ultimately show ?thesis by (intro keep) (use remove in \<open>auto simp: pending_ok_def Let_def\<close>)
  next
    case (request r actor x)
    have "rs_ActivePause room = no_pause" using p request by (auto simp: pause_ok_def paused_ok_def Let_def)
    moreover have "\<exists>y. memberFromSnapshot (rs_Members room) actor = Some y \<and> seated y"
      using Room_Member_Some [OF request(9)] request(10) by (auto simp: memberFromSnapshot_Some [OF u])
    ultimately show ?thesis
      using request at h True by (simp add: pause_ok_def pending_ok_def header_ok_def)
  next
    case (transfer target x)
    show ?thesis by (rule keep) (use transfer in \<open>auto simp: pending_ok_def Let_def\<close>)
  next
    case (pause ident r)
    have "pp_RequestedByUserID (rs_PendingPauseRequest room) \<noteq> uuid_Nil" if "r \<noteq> uuid_Nil"
      using p that pause by (auto simp: pause_ok_def pending_ok_def Let_def no_pending_def)
    then show ?thesis
      using pause at h by (simp add: pause_ok_def paused_ok_def header_ok_def)
  next
    case reject
    show ?thesis by (rule keep) (use reject in simp_all)
  next
    case resume
    show ?thesis by (rule keep) (use resume in \<open>auto simp: pending_ok_def Let_def\<close>)
  qed (use True in \<open>auto simp: admissionMutable_def intro!: pause_ok_plain\<close>)
qed

text \<open>
  A change made no earlier than the last one, in a room whose seats fit and that is not filled to the last member,
  leads to a snapshot that \<open>Restore\<close> accepts.
\<close>

definition roomy :: "Room \<Rightarrow> go_time \<Rightarrow> bool" where
  "roomy room at \<longleftrightarrow> room_inv room \<and> seats_fit room \<and> rs_UpdatedAt room \<le> at \<and>
     length (rs_Members room) < unat (rs_ParticipantCapacity room) + 1000000"

lemma room_change_ok:
  assumes "room_change at changed room s" and "roomy room at"
    and "rs_RoomVersion room \<noteq> - 1" and "changed \<longrightarrow> rs_MembershipVersion room \<noteq> - 1"
  shows "room_ok (stamped changed at s)"
proof -
  have ok: "room_ok room" using assms(2) by (simp add: roomy_def room_inv_def)
  have m: "members_ok (stamped changed at s)" using assms(2) by (intro room_change_members [OF assms(1) ok]) (simp_all add: roomy_def)
  then have u: "distinct (map mb_UserID (rs_Members s))" by (simp add: members_ok_def)
  have t: "rs_UpdatedAt room \<le> at" using assms(2) by (simp add: roomy_def)
  show ?thesis
    using m room_change_header [OF assms(1) ok t assms(3,4)] room_change_lifecycle [OF assms(1) ok]
      room_change_pause [OF assms(1) ok t u] by (simp add: room_ok_def)
qed

section \<open>Which error a command returns\<close>

lemma room_change_canonical:
  assumes "room_change at changed room s" and "canonical room" and "canonicalRoomTime at = at"
  shows "canonical s"
  using assms(1)
proof (cases rule: room_change.cases)
  case (queue i)
  then show ?thesis using assms(2)
    by (auto simp: canonical_def canonical_member_role dest!: set_update_subset_insert [THEN subsetD])
next
  case (add userID intent x)
  then have "canonical_member x = x" using assms(3) by (cases x) (simp add: admits_def canonical_member_def)
  with add assms(2) show ?thesis by (auto simp: canonical_def)
next
  case (approve i x)
  then have "canonical_member (rs_Members room ! i) = rs_Members room ! i" using assms(2) by (simp add: canonical_def)
  then have "canonical_member x = x" using approve by (auto simp: promotes_def canonical_member_role split: if_splits)
  with approve assms(2) show ?thesis by (auto simp: canonical_def dest!: set_update_subset_insert [THEN subsetD])
qed (use assms(2,3) in \<open>auto simp: canonical_def no_pending_def no_pause_def add_eq_0_iff2 dest: in_set_takeD in_set_dropD\<close>)

lemma commit_exact:
  assumes "room_change at changed room s" and "roomy room at" and "canonicalRoomTime at = at"
  shows "and_then (bumpVersions s changed at) (\<lambda>n. and_then (Restore n) f) =
    (if rs_RoomVersion room = - 1 \<or> changed \<and> rs_MembershipVersion room = - 1 then Inl ErrRoomVersionOverflow
     else f (stamped changed at s))"
proof (cases "rs_RoomVersion room = - 1 \<or> changed \<and> rs_MembershipVersion room = - 1")
  case True
  then show ?thesis using room_change_kept(6,7) [OF assms(1)] by (auto simp: bumpVersions_def)
next
  case False
  have "canonical s" using assms by (intro room_change_canonical [OF assms(1)]) (auto simp: roomy_def room_inv_def)
  then have "canonical (stamped changed at s)" using assms(3) by (simp add: canonical_def stamped_def)
  with room_change_ok [OF assms(1,2)] False have "Restore (stamped changed at s) = Inr (stamped changed at s)"
    by (intro Restore_fixed) (auto simp: room_inv_def)
  moreover have "bumpVersions s changed at = Inr (stamped changed at s)"
    using False room_change_kept(6,7) [OF assms(1)] by (auto simp: bumpVersions_Inr)
  ultimately show ?thesis using False by auto
qed

lemma and_then_Inr_id: "and_then m Inr = m"
  by (cases m) simp_all

lemma commit_invalid:
  assumes "and_then (bumpVersions s changed at) Restore = Inl ErrInvalidRoomInput"
    and "roomy room at" and "canonicalRoomTime at = at" and "room_change at changed room s"
  shows P
  using commit_exact [OF assms(4,2,3), of Inr] assms(1) by (simp add: and_then_Inr_id split: if_splits)

lemma commit_invalid_with:
  assumes "and_then (bumpVersions s changed at) (\<lambda>n. and_then (Restore n) (\<lambda>u. Inr (u, f n u))) = Inl ErrInvalidRoomInput"
    and "roomy room at" and "canonicalRoomTime at = at" and "room_change at changed room s"
  shows P
  using commit_exact [OF assms(4,2,3), of Inr] assms(1)
  by (auto simp: and_then_Inr_id and_then_eq_Inl split: if_splits)

lemma guard_eq_Inl: "(if c then Inl e else m) = Inl e' \<longleftrightarrow> c \<and> e = e' \<or> \<not> c \<and> m = Inl e'"
  by auto

lemma map_fst_Inl: "map_sum id fst m = Inl e \<longleftrightarrow> m = Inl e"
  by (cases m) auto

text \<open>The inputs that a command requires whatever the room is.\<close>

fun well_formed :: "room_command \<Rightarrow> bool" where
  "well_formed (CmdJoin u i v at) \<longleftrightarrow> u \<noteq> uuid_Nil \<and> JoinIntent_Valid i \<and> canonicalRoomTime at \<noteq> 0"
| "well_formed (CmdSetAdmission h p s v at) \<longleftrightarrow>
     h \<noteq> uuid_Nil \<and> AdmissionMode_Valid p \<and> AdmissionMode_Valid s \<and> canonicalRoomTime at \<noteq> 0"
| "well_formed (CmdSelectGame h g v at) \<longleftrightarrow> h \<noteq> uuid_Nil \<and> TrimSpace g \<noteq> [] \<and> canonicalRoomTime at \<noteq> 0"
| "well_formed (CmdApprove h u v at) \<longleftrightarrow> h \<noteq> uuid_Nil \<and> u \<noteq> uuid_Nil \<and> canonicalRoomTime at \<noteq> 0"
| "well_formed (CmdStart h s g a b v at) \<longleftrightarrow>
     h \<noteq> uuid_Nil \<and> s \<noteq> uuid_Nil \<and> TrimSpace g \<noteq> [] \<and> a \<noteq> 0 \<and> a \<le> b \<and> canonicalRoomTime at \<noteq> 0"
| "well_formed (CmdRequestPause a q s v at) \<longleftrightarrow>
     a \<noteq> uuid_Nil \<and> q \<noteq> uuid_Nil \<and> s \<noteq> uuid_Nil \<and> canonicalRoomTime at \<noteq> 0"
| "well_formed (CmdRejectPause h q v at) \<longleftrightarrow> h \<noteq> uuid_Nil \<and> q \<noteq> uuid_Nil \<and> canonicalRoomTime at \<noteq> 0"
| "well_formed (CmdPause h p s q v at) \<longleftrightarrow> h \<noteq> uuid_Nil \<and> p \<noteq> uuid_Nil \<and> s \<noteq> uuid_Nil \<and> canonicalRoomTime at \<noteq> 0"
| "well_formed (CmdResume h s v at) \<longleftrightarrow> h \<noteq> uuid_Nil \<and> s \<noteq> uuid_Nil \<and> canonicalRoomTime at \<noteq> 0"
| "well_formed (CmdTransferHost h t e v at) \<longleftrightarrow> h \<noteq> uuid_Nil \<and> t \<noteq> uuid_Nil \<and> e \<noteq> 0 \<and> canonicalRoomTime at \<noteq> 0"
| "well_formed (CmdFinish s v at) \<longleftrightarrow> s \<noteq> uuid_Nil \<and> canonicalRoomTime at \<noteq> 0"
| "well_formed (CmdCancel s v at) \<longleftrightarrow> s \<noteq> uuid_Nil \<and> canonicalRoomTime at \<noteq> 0"
| "well_formed (CmdCancelAndClose h s v at) \<longleftrightarrow> h \<noteq> uuid_Nil \<and> s \<noteq> uuid_Nil \<and> canonicalRoomTime at \<noteq> 0"
| "well_formed (CmdRemove h u v at) \<longleftrightarrow> h \<noteq> uuid_Nil \<and> u \<noteq> uuid_Nil \<and> canonicalRoomTime at \<noteq> 0"
| "well_formed (CmdClose h v at) \<longleftrightarrow> h \<noteq> uuid_Nil \<and> canonicalRoomTime at \<noteq> 0"
| "well_formed (CmdAdminSetAdmission a p s v at) \<longleftrightarrow>
     aa_ID a \<noteq> uuid_Nil \<and> AdmissionMode_Valid p \<and> AdmissionMode_Valid s \<and> canonicalRoomTime at \<noteq> 0"
| "well_formed (CmdAdminRemove a u v at) \<longleftrightarrow> aa_ID a \<noteq> uuid_Nil \<and> u \<noteq> uuid_Nil \<and> canonicalRoomTime at \<noteq> 0"
| "well_formed (CmdAdminClose a v at) \<longleftrightarrow> aa_ID a \<noteq> uuid_Nil \<and> canonicalRoomTime at \<noteq> 0"

fun command_time :: "room_command \<Rightarrow> go_time" where
  "command_time (CmdJoin u i v at) = canonicalRoomTime at"
| "command_time (CmdSetAdmission h p s v at) = canonicalRoomTime at"
| "command_time (CmdSelectGame h g v at) = canonicalRoomTime at"
| "command_time (CmdApprove h u v at) = canonicalRoomTime at"
| "command_time (CmdStart h s g a b v at) = canonicalRoomTime at"
| "command_time (CmdRequestPause a q s v at) = canonicalRoomTime at"
| "command_time (CmdRejectPause h q v at) = canonicalRoomTime at"
| "command_time (CmdPause h p s q v at) = canonicalRoomTime at"
| "command_time (CmdResume h s v at) = canonicalRoomTime at"
| "command_time (CmdTransferHost h t e v at) = canonicalRoomTime at"
| "command_time (CmdFinish s v at) = canonicalRoomTime at"
| "command_time (CmdCancel s v at) = canonicalRoomTime at"
| "command_time (CmdCancelAndClose h s v at) = canonicalRoomTime at"
| "command_time (CmdRemove h u v at) = canonicalRoomTime at"
| "command_time (CmdClose h v at) = canonicalRoomTime at"
| "command_time (CmdAdminSetAdmission a p s v at) = canonicalRoomTime at"
| "command_time (CmdAdminRemove a u v at) = canonicalRoomTime at"
| "command_time (CmdAdminClose a v at) = canonicalRoomTime at"

lemma member_index_member:
  assumes "room_inv room" and "Room_Member room u = Some existing"
    and "member_index (\<lambda>m. mb_UserID m = u) (rs_Members room) = Some k"
  shows "rs_Members room ! k = existing"
proof -
  have "distinct (map mb_UserID (rs_Members room))" using assms(1) by (simp add: room_inv_def room_ok_def members_ok_def)
  then show ?thesis
    using Room_Member_Some [OF assms(2)] member_index_Some [OF assms(3)] by (metis distinct_map inj_on_eq_iff nth_mem)
qed

lemma remove_member_invalid:
  assumes "roomy room at" and "canonicalRoomTime at = at"
  shows "fst (remove_member room u at) \<noteq> Inl ErrInvalidRoomInput"
proof
  assume e: "fst (remove_member room u at) = Inl ErrInvalidRoomInput"
  then have h: "u \<noteq> rs_HostUserID room" by (auto simp: remove_member_def)
  from e h obtain i where idx: "member_index (\<lambda>m. mb_UserID m = u) (rs_Members room) = Some i"
    unfolding remove_member_def by (cases "member_index (\<lambda>m. mb_UserID m = u) (rs_Members room)") auto
  from e [unfolded remove_member_def Let_def] h idx member_index_Some [OF idx] show False
    by (simp only: if_False option.case fst_conv)
      (erule commit_invalid_with [OF _ assms], blast intro: room_change.remove)
qed

lemma close_room_invalid:
  assumes "roomy room at" and "canonicalRoomTime at = at"
  shows "close_room room at \<noteq> Inl ErrInvalidRoomInput"
  using assms by (auto simp: close_room_def guard_eq_Inl elim!: commit_invalid intro: room_change.close)

lemma Join_invalid:
  assumes r: "roomy room (canonicalRoomTime at)" and e: "fst (Join room u i v at) = Inl ErrInvalidRoomInput"
    and wf: "u \<noteq> uuid_Nil" "JoinIntent_Valid i" "canonicalRoomTime at \<noteq> 0"
  shows False
proof -
  have inv: "room_inv room" using r by (simp add: roomy_def)
  have cv: "v = Room_Version room" using e wf by (auto simp: Join_def Let_def checkVersion_def split: if_splits)
  have cv': "checkVersion room v = Inr ()" by (simp add: cv)
  show False
  proof (cases "Room_Member room u")
    case (Some existing)
    then obtain k where k: "member_index (\<lambda>m. mb_UserID m = u) (rs_Members room) = Some k"
      using Room_Member_Some [OF Some] member_index_None [of "\<lambda>m. mb_UserID m = u" "rs_Members room"] by fastforce
    have "rs_Members room ! k = existing" by (rule member_index_member [OF inv Some k])
    with e Some wf k member_index_Some [OF k] show False
      unfolding Join_def Let_def cv'
      by (auto elim!: commit_invalid_with [OF _ r canonicalRoomTime_idem] intro: room_change.queue split: if_splits)
  next
    case None
    then have nu: "u \<notin> mb_UserID ` set (rs_Members room)" by (simp add: Room_Member_None)
    have mode: "AdmissionMode_Valid (rs_ParticipantAdmission room)" "AdmissionMode_Valid (rs_SpectatorAdmission room)"
      using inv by (simp_all add: room_inv_def room_ok_def header_ok_def)
    have add: "and_then (bumpVersions (room\<lparr>rs_Members := rs_Members room @ [m]\<rparr>) True (canonicalRoomTime at)) (\<lambda>n.
        and_then (Restore n) (\<lambda>x. Inr (x, f n x))) \<noteq> Inl ErrInvalidRoomInput"
      if "rs_Status room \<noteq> RoomStatusClosed" "admits room u i (canonicalRoomTime at) m" for m f
      using that nu wf by (auto elim!: commit_invalid_with [OF _ r canonicalRoomTime_idem] intro: room_change.add)
    show False
      using e None wf mode unfolding Join_def Let_def cv'
      by (auto simp: admits_def JoinIntent_Valid_def AdmissionMode_Valid_def dest!: add [THEN notE, rotated 2] split: if_splits option.splits)
  qed
qed

lemma ApproveWaiting_invalid:
  assumes r: "roomy room (canonicalRoomTime at)" and e: "fst (ApproveWaiting room h u v at) = Inl ErrInvalidRoomInput"
    and wf: "h \<noteq> uuid_Nil" "u \<noteq> uuid_Nil" "canonicalRoomTime at \<noteq> 0"
  shows False
proof -
  have c: "and_then (checkHost room h) (\<lambda>_. checkVersion room v) = Inr ()" and m: "admissionMutable (rs_Status room)"
    using e wf by (auto simp: ApproveWaiting_def Let_def checkHost_def checkVersion_def split: if_splits)
  let ?P = "\<lambda>m. \<not> (mb_UserID m \<noteq> u \<or> mb_Role m \<noteq> MemberRoleWaiting)"
  from e wf m obtain k where k: "member_index ?P (rs_Members room) = Some k"
    unfolding ApproveWaiting_def Let_def c by (cases "member_index ?P (rs_Members room)") auto
  from e wf m k member_index_Some [OF k] show False
    unfolding ApproveWaiting_def Let_def c
    by (auto simp: promotes_def elim!: commit_invalid_with [OF _ r canonicalRoomTime_idem] intro!: room_change.approve
        split: if_splits option.splits)
qed

lemma step_invalid:
  assumes r: "roomy room (command_time c)" and step: "room_step room c = Inl ErrInvalidRoomInput"
  shows "\<not> well_formed c"
proof (cases c)
  case (CmdJoin u i v at)
  then show ?thesis using Join_invalid [of room at u i v] r step by (auto simp: map_fst_Inl)
next
  case (CmdApprove h u v at)
  then show ?thesis using ApproveWaiting_invalid [of room at h u v] r step by (auto simp: map_fst_Inl)
next
  case (CmdRemove h u v at)
  then show ?thesis using r step remove_member_invalid [of room "canonicalRoomTime at" u]
    by (auto simp: map_fst_Inl RemoveMember_def Let_def checkHost_def checkVersion_def split: if_splits)
next
  case (CmdAdminRemove a u v at)
  then show ?thesis using r step remove_member_invalid [of room "canonicalRoomTime at" u]
    by (auto simp: map_fst_Inl RemoveMemberByAdmin_def Let_def checkVersion_def split: if_splits)
next
  case (CmdStart h s g a b v at)
  then show ?thesis using r step
    by (auto simp: map_fst_Inl StartSession_def Let_def checkHost_def checkVersion_def guard_eq_Inl admissionMutable_def not_less
        elim!: commit_invalid_with intro: room_change.start)
next
  case (CmdTransferHost h t e v at)
  then show ?thesis using r step
    by (auto simp: TransferHost_def Let_def checkHost_def checkVersion_def guard_eq_Inl seated_def elim!: commit_invalid
        intro: room_change.transfer split: option.splits)
next
  case (CmdRequestPause a q s v at)
  then show ?thesis using r step
    by (auto simp: RequestPause_def Let_def checkVersion_def guard_eq_Inl seated_def elim!: commit_invalid
        intro: room_change.request split: option.splits)
next
  case (CmdSelectGame h g v at)
  then show ?thesis using r step
    by (cases "rs_SelectedGameID room = TrimSpace g")
      (auto simp: SelectGame_def Let_def checkHost_def checkVersion_def guard_eq_Inl elim!: commit_invalid intro: room_change.select)
qed (use r step close_room_invalid in \<open>auto simp: SetAdmission_def SetAdmissionByAdmin_def RejectPause_def
    Resume_def Pause_def FinishSession_def CancelSession_def CancelSessionAndClose_def Close_def CloseWaitingByAdmin_def
    Let_def checkHost_def checkVersion_def guard_eq_Inl elim!: commit_invalid intro: room_change.intros(5,9-11,13-15)\<close>)


lemma ill_formed_invalid: "\<not> well_formed c \<Longrightarrow> room_step room c = Inl ErrInvalidRoomInput"
  by (cases c) (auto simp: Join_def SetAdmission_def SelectGame_def ApproveWaiting_def StartSession_def RequestPause_def
      RejectPause_def Pause_def Resume_def TransferHost_def FinishSession_def CancelSession_def CancelSessionAndClose_def
      RemoveMember_def Close_def SetAdmissionByAdmin_def RemoveMemberByAdmin_def CloseWaitingByAdmin_def Let_def)

end
