(* ===== verification/RoomRules.thy ===== *)
theory RoomRules
  imports RoomErrors
begin

text \<open>
  The properties of the room aggregate, stated over the commands of the source, and of the checks that its repository
  makes; a sample room gives the inputs at which they are applied.
\<close>

section \<open>Starting a room\<close>

lemma NewWithAdmission_room:
  assumes "NewWithAdmission room host code visibility capacity participant spectator at = Inr r"
  shows "room_inv r" and "seats_fit r" and "life_of r = Lobby" and "rs_RoomVersion r = 1" and "rs_HostUserID r = host"
proof -
  from assms obtain s where s: "Restore s = Inr r" "rs_Status s = RoomStatusLobby" "rs_ParticipantCapacity s \<noteq> 0"
      "rs_Members s = [\<lparr>mb_UserID = host, mb_Role = MemberRoleParticipant, mb_RequestedRole = [],
        mb_SeatIndex = 0, mb_JoinedAt = canonicalRoomTime at, mb_LastSeenAt = canonicalRoomTime at\<rparr>]"
      "rs_RoomVersion s = 1" "rs_HostUserID s = host"
    unfolding NewWithAdmission_def Let_def outcome by force
  show "room_inv r" by (rule Restore_inv [OF s(1)])
  from s(1) have r: "r = canon s" by (simp add: Restore_iff)
  show "seats_fit r"
    using s(3,4) by (auto simp: r canon_def seats_fit_def taken_seats_def canonical_member_def normalize_snapshot_def Let_def word_gt_0)
  show "life_of r = Lobby" using s(2) by (simp add: r canon_def life_of_def normalize_snapshot_def Let_def)
  show "rs_RoomVersion r = 1" "rs_HostUserID r = host" using s(5,6) by (simp_all add: r canon_def normalize_snapshot_def Let_def)
qed

lemma Join_created:
  assumes inv: "room_inv room" and join: "fst (Join room u intent expected at) = Inr (r, res) \<and> jr_Created res \<and> seated (jr_Member res)"
  shows "nextSeat room = Some (mb_SeatIndex (jr_Member res)) \<and> rs_Members r = rs_Members room @ [jr_Member res]"
proof -
  from join have j: "fst (Join room u intent expected at) = Inr (r, res)" ..
  from inv j show ?thesis
    by (cases rule: Join_Inr) (use join in \<open>auto simp: admits_def seated_def committed_def\<close>)
qed

section \<open>The repository\<close>

lemma room_step_transition:
  assumes inv: "room_inv room" and step: "room_step room c = Inr r" and "r \<noteq> room"
    and "validateRoomPersistenceWidths room = Inr ()" and "validateRoomPersistenceWidths r = Inr ()"
  shows "validateRoomTransition room r = Inr ()"
  using inv step
proof (cases rule: room_stepE)
  case (change changed at s)
  from room_change_kept [OF change(1)] room_change_host [OF change(1)] change(2)
  have "rs_ID r = rs_ID room" "rs_RoomCode r = rs_RoomCode room" "rs_CreatedAt r = rs_CreatedAt room"
    "rs_RoomVersion r = rs_RoomVersion room + 1"
    "rs_MembershipVersion r \<in> {rs_MembershipVersion room, rs_MembershipVersion room + 1}"
    "rs_OwnershipEpoch r \<in> {rs_OwnershipEpoch room, rs_OwnershipEpoch room + 1}"
    by (auto simp: committed_def stamped_def)
  with assms(4,5) show ?thesis by (auto simp: validateRoomTransition_def)
qed (use assms(3) in simp)

text \<open>What the shared array of the members holds after a removal.\<close>

lemma shifted_array_users:
  assumes "i < length ms"
  shows "set (shifted_array ms i) = set (take i ms @ drop (Suc i) ms) \<union> {last ms}"
  by (auto simp: shifted_array_def)

lemma removal_transition:
  assumes inv: "room_inv room" and remove: "fst (remove_member room u at) = Inr (r, res)" and at: "canonicalRoomTime at = at"
    and revoked: "rr_ParticipantRevoked res"
  shows "removedParticipantTransition room r u"
    and "removedParticipantTransition (snd (remove_member room u at)) r u \<longleftrightarrow> mb_UserID (last (rs_Members room)) = u"
proof -
  from inv at remove obtain i where i: "i < length (rs_Members room)" "mb_UserID (rs_Members room ! i) = u"
    and r: "committed True at (room\<lparr>rs_Members := take i (rs_Members room) @ drop (Suc i) (rs_Members room),
       rs_PendingPauseRequest := (if pp_RequestedByUserID (rs_PendingPauseRequest room) = u
         then no_pending else rs_PendingPauseRequest room)\<rparr>) r"
    and shared: "snd (remove_member room u at) = room\<lparr>rs_Members := shifted_array (rs_Members room) i\<rparr>"
    and playing: "rs_Status room = RoomStatusPlaying" "seated (rs_Members room ! i)"
    using revoked by (cases rule: remove_member_Inr) auto
  have users: "distinct (map mb_UserID (rs_Members room))" and session: "rs_ActiveSessionID room \<noteq> uuid_Nil"
    using inv playing(1) by (simp_all add: room_inv_def room_ok_def members_ok_def lifecycle_ok_def)
  note rest = users_remove(2) [OF i(1) users]
  have v: "rs_RoomVersion r = rs_RoomVersion room + 1" "rs_MembershipVersion r = rs_MembershipVersion room + 1"
    "rs_Members r = take i (rs_Members room) @ drop (Suc i) (rs_Members room)"
    using r by (auto simp: committed_def stamped_def)
  have gone: "u \<notin> mb_UserID ` set (rs_Members r)" using rest i(2) v(3) by simp
  then have g: "\<not> list_ex (\<lambda>m. mb_UserID m = u) (rs_Members r)" by (auto simp: list_ex_iff)
  have "list_ex (\<lambda>m. mb_UserID m = u \<and> mb_Role m = MemberRoleParticipant) (rs_Members room)"
    using i playing(2) nth_mem [OF i(1)] by (auto simp: list_ex_iff seated_def)
  with v(1,2) g playing session show "removedParticipantTransition room r u" by (simp add: removedParticipantTransition_def)
  have "list_ex (\<lambda>m. mb_UserID m = u \<and> mb_Role m = MemberRoleParticipant) (shifted_array (rs_Members room) i) \<longleftrightarrow>
      mb_UserID (last (rs_Members room)) = u"
  proof
    assume "list_ex (\<lambda>m. mb_UserID m = u \<and> mb_Role m = MemberRoleParticipant) (shifted_array (rs_Members room) i)"
    then show "mb_UserID (last (rs_Members room)) = u"
      using gone v(3) shifted_array_users [OF i(1)] by (auto simp: list_ex_iff)
  next
    assume l: "mb_UserID (last (rs_Members room)) = u"
    have "last (rs_Members room) \<in> set (rs_Members room)" using i(1) by (cases "rs_Members room = []") auto
    then have "last (rs_Members room) = rs_Members room ! i"
      using l i users by (metis distinct_map inj_on_eq_iff nth_mem)
    then show "list_ex (\<lambda>m. mb_UserID m = u \<and> mb_Role m = MemberRoleParticipant) (shifted_array (rs_Members room) i)"
      using l playing(2) shifted_array_users [OF i(1)] by (auto simp: list_ex_iff seated_def)
  qed
  with v(1,2) g playing session show "removedParticipantTransition (snd (remove_member room u at)) r u \<longleftrightarrow>
      mb_UserID (last (rs_Members room)) = u"
    by (simp add: removedParticipantTransition_def shared)
qed

section \<open>A sample room\<close>

abbreviation demo_ann :: uuid where "demo_ann \<equiv> 1"
abbreviation demo_ben :: uuid where "demo_ben \<equiv> 2"
abbreviation demo_cy :: uuid where "demo_cy \<equiv> 3"

definition version_of :: "u64 \<Rightarrow> u64 \<Rightarrow> Version" where "version_of r m = \<lparr>vr_Room = r, vr_Membership = m\<rparr>"

definition demo_member :: "uuid \<Rightarrow> u32 \<Rightarrow> go_time \<Rightarrow> MemberSnapshot" where
  "demo_member user seat at = \<lparr>mb_UserID = user, mb_Role = MemberRoleParticipant, mb_RequestedRole = [],
     mb_SeatIndex = seat, mb_JoinedAt = at, mb_LastSeenAt = at\<rparr>"

definition demo_lobby :: "MemberSnapshot list \<Rightarrow> u64 \<Rightarrow> go_time \<Rightarrow> Room" where
  "demo_lobby members version at =
     \<lparr>rs_ID = 100, rs_RoomCode = ''ABCD'', rs_Visibility = VisibilityPrivate, rs_Status = RoomStatusLobby,
       rs_HostUserID = demo_ann, rs_ParticipantCapacity = 3, rs_ParticipantAdmission = AdmissionOpen,
       rs_SpectatorAdmission = AdmissionOpen, rs_Members = members, rs_ActiveSessionID = uuid_Nil, rs_ActiveGameID = [],
       rs_LastFinishedSessionID = uuid_Nil, rs_LastFinishedGameID = [], rs_PendingPauseRequest = no_pending,
       rs_ActivePause = no_pause, rs_SelectedGameID = DefaultSelectedGameID, rs_RoomVersion = version,
       rs_MembershipVersion = version, rs_OwnershipEpoch = 1, rs_CreatedAt = 1000, rs_UpdatedAt = at\<rparr>"

definition demo_one :: Room where "demo_one = demo_lobby [demo_member demo_ann 0 1000] 1 1000"
definition demo_two :: Room where
  "demo_two = demo_lobby [demo_member demo_ann 0 1000, demo_member demo_ben 1 2000] 2 2000"
definition demo_three :: Room where
  "demo_three = demo_lobby [demo_member demo_ann 0 1000, demo_member demo_ben 1 2000, demo_member demo_cy 2 3000] 3 3000"

definition demo_playing :: Room where
  "demo_playing = demo_three\<lparr>rs_Status := RoomStatusPlaying, rs_ActiveSessionID := 200, rs_ActiveGameID := ''liars-dice'',
     rs_ParticipantAdmission := AdmissionClosed, rs_RoomVersion := 4, rs_UpdatedAt := 4000\<rparr>"

definition demo_removed :: Room where
  "demo_removed = demo_playing\<lparr>rs_Members := [demo_member demo_ann 0 1000, demo_member demo_cy 2 3000],
     rs_RoomVersion := 5, rs_MembershipVersion := 4, rs_UpdatedAt := 5000\<rparr>"

lemma demo_code: "validateRoomCode ''ABCD'' = Inr () \<and> TrimSpace ''ABCD'' = ''ABCD''"
  by code_simp

lemmas demo_defs = demo_one_def demo_two_def demo_three_def demo_playing_def demo_removed_def demo_lobby_def demo_member_def

lemmas room_inv_defs = room_inv_def room_ok_def header_ok_def lifecycle_ok_def members_ok_def pause_ok_def member_ok_def
  canonical_def canonical_member_def canonicalRoomTime_def Visibility_Valid_def RoomStatus_Valid_def AdmissionMode_Valid_def
  seated_def no_pending_def no_pause_def

lemma demo_inv [simp]: "room_inv demo_one" "room_inv demo_two" "room_inv demo_three" "room_inv demo_playing" "room_inv demo_removed"
  using demo_code TrimSpace_default by (simp_all add: demo_defs room_inv_defs)

lemma demo_seats [simp]: "seats_fit demo_one" "seats_fit demo_three" "seats_fit demo_playing"
  by (auto simp: demo_defs seats_fit_def taken_seats_def)

lemma demo_new: "New 100 demo_ann ''ABCD'' VisibilityPrivate 3 1000 = Inr demo_one"
proof -
  have "canon (demo_one\<lparr>rs_OwnershipEpoch := 0\<rparr>) = demo_one"
    using demo_code TrimSpace_default
    by (simp add: canon_def normalize_snapshot_def demo_defs canonical_member_def canonicalRoomTime_def no_pending_def no_pause_def)
  then have "Restore (demo_one\<lparr>rs_OwnershipEpoch := 0\<rparr>) = Inr demo_one"
    using demo_inv(1) by (simp add: Restore_iff room_inv_def)
  then show ?thesis
    using demo_code by (simp add: New_def NewWithAdmission_def demo_defs canonicalRoomTime_def Visibility_Valid_def AdmissionMode_Valid_def)
qed

lemma demo_join:
  "room_step demo_one (CmdJoin demo_ben JoinIntentParticipant (version_of 1 1) 2000) = Inr demo_two"
proof -
  have "Restore demo_two = Inr demo_two" by (rule Restore_fixed) simp
  moreover have "nextSeat demo_one = Some 1"
    by (simp add: nextSeat_def demo_defs seat_from.simps)
  ultimately show ?thesis
    by (simp add: Join_def JoinIntent_Valid_def canonicalRoomTime_def checkVersion_def Room_Version_def version_of_def
        Room_Member_def bumpVersions_def demo_defs Let_def)
qed

lemma demo_remove:
  "RemoveMember demo_playing demo_ann demo_ben (version_of 4 3) 5000 =
     (Inr (demo_removed, \<lparr>rr_Removed = demo_member demo_ben 1 2000, rr_ParticipantRevoked = True, rr_SessionID = 200,
        rr_SourceEventID = uuid_Nil, rr_Version = version_of 5 4\<rparr>),
      demo_playing\<lparr>rs_Members := [demo_member demo_ann 0 1000, demo_member demo_cy 2 3000, demo_member demo_cy 2 3000]\<rparr>)"
proof -
  have "Restore demo_removed = Inr demo_removed" by (rule Restore_fixed) simp
  then show ?thesis
    by (simp add: RemoveMember_def remove_member_def canonicalRoomTime_def checkHost_def checkVersion_def Room_Version_def
        version_of_def bumpVersions_def shifted_array_def demo_defs no_pending_def)
qed


lemma demo_started:
  "StartSession demo_three demo_ann 200 ''liars-dice'' 2 6 (version_of 3 3) 4000 =
     Inr (demo_playing, \<lparr>ss_SessionID = 200, ss_GameID = ''liars-dice'',
       ss_Participants = frozen_participants (rs_Members demo_three), ss_Version = version_of 4 3, ss_StartedAt = 4000\<rparr>)"
proof -
  have "Restore demo_playing = Inr demo_playing" by (rule Restore_fixed) simp
  then show ?thesis
    using TrimSpace_default
    by (simp add: StartSession_def canonicalRoomTime_def checkHost_def checkVersion_def Room_Version_def version_of_def
        bumpVersions_def frozen_participants_def demo_defs Let_def)
qed

section \<open>Properties\<close>

text \<open>
  C2: Whatever commands reach a room after its creation, in whatever order, the room stays well formed: no user is a
  member twice, no seat is taken twice, every seat is below the capacity, the host is a seated member, and the status
  agrees with the session, the game and the pause that the room names.
\<close>

theorem room_stays_valid:
  assumes "NewWithAdmission roomID host code visibility capacity participant spectator at = Inr room"
    and "r = run_commands room_step room cs"
  shows "room_ok r \<and> seats_fit r \<and> distinct (map mb_UserID (rs_Members r)) \<and>
    distinct (map mb_SeatIndex (filter seated (rs_Members r))) \<and>
    (\<exists>m. m \<in> set (rs_Members r) \<and> mb_UserID m = rs_HostUserID r \<and> seated m)"
proof -
  note new = NewWithAdmission_room [OF assms(1)]
  have inv: "room_inv r" unfolding assms(2) by (rule run_room_inv [OF new(1)])
  have "seats_fit r" unfolding assms(2) by (rule run_seats [OF new(1,2)])
  with inv host_is_seated [OF inv] show ?thesis by (auto simp: room_inv_def room_ok_def members_ok_def)
qed

theorem room_stays_valid_witness:
  "room_ok (run_commands room_step demo_one [CmdJoin demo_ben JoinIntentParticipant (version_of 1 1) 2000])"
  using room_stays_valid [OF demo_new [unfolded New_def] refl] by blast

text \<open>
  C32: Storing and restoring lose nothing. A room that was restored from a snapshot, and every room that commands make
  of it, is restored from its own snapshot unchanged: the normalisation of codes, games, times and the ownership epoch is
  done once.
\<close>

theorem room_restore_roundtrip:
  assumes "Restore s = Inr room"
  shows "Restore (run_commands room_step room cs) = Inr (run_commands room_step room cs)"
  using run_room_inv [OF Restore_inv [OF assms]] by (rule Restore_fixed)

theorem room_restore_roundtrip_witness: "Restore demo_two = Inr demo_two"
proof -
  have "Restore demo_one = Inr demo_one" by (rule Restore_fixed) simp
  from room_restore_roundtrip [OF this, of "[CmdJoin demo_ben JoinIntentParticipant (version_of 1 1) 2000]"] show ?thesis
    by (simp add: demo_join del: room_step.simps)
qed

text \<open>
  C20: No update is lost. Every accepted command names the version of the room it acts on. An accepted command that changes
  the room raises the room version by one, and the membership version too if it changes a member; from then on every
  command that was sent for the old version is rejected, whatever happens in between.
\<close>

theorem room_no_lost_update:
  assumes inv: "room_inv room" and step: "room_step room c = Inr r" and new: "r \<noteq> room"
    and stale: "vr_Room (command_expected d) = vr_Room (command_expected c)"
  shows "command_expected c = Room_Version room \<and>
    unat (rs_RoomVersion r) = Suc (unat (rs_RoomVersion room)) \<and>
    (rs_Members r \<noteq> rs_Members room \<longrightarrow> unat (rs_MembershipVersion r) = Suc (unat (rs_MembershipVersion room))) \<and>
    (\<exists>e. room_step (run_commands room_step r cs) d = Inl e)"
proof (intro conjI)
  show "command_expected c = Room_Version room" using room_step_changes [OF inv step] by (simp add: changes_def)
  show "unat (rs_RoomVersion r) = Suc (unat (rs_RoomVersion room))" using rooms.step_version [OF inv step] new by simp
  show "rs_Members r \<noteq> rs_Members room \<longrightarrow> unat (rs_MembershipVersion r) = Suc (unat (rs_MembershipVersion room))"
    using room_membership_version [OF inv step] by blast
  show "\<exists>e. room_step (run_commands room_step r cs) d = Inl e"
    by (rule rooms.no_lost_update [OF inv step new]) (simp add: stale)
qed

theorem room_no_lost_update_witness:
  "\<exists>e. room_step (run_commands room_step demo_two []) (CmdClose demo_ann (version_of 1 1) 3000) = Inl e"
proof -
  have "demo_two \<noteq> demo_one" by (simp add: demo_defs)
  from room_no_lost_update [OF demo_inv(1) demo_join this, of "CmdClose demo_ann (version_of 1 1) 3000" "[]"] show ?thesis
    unfolding command_expected.simps by blast
qed

text \<open>
  C21: The room implements its life cycle. Seen through its status and session, every sequence of commands is a path of the
  life cycle: a session is started only from the lobby or after a game, is finished or cancelled only while it is played
  and is remembered under the same identifier when it is finished, and a closed room stays closed for ever.
\<close>

theorem room_lifecycle_refines:
  assumes "room_inv room"
  shows "life_step\<^sup>*\<^sup>* (life_of room) (life_of (run_commands room_step room cs)) \<and>
    (\<forall>c r. room_step room c = Inr r \<longrightarrow> life_step (life_of room) (life_of r)) \<and>
    (rs_Status room = RoomStatusClosed \<longrightarrow> rs_Status (run_commands room_step room cs) = RoomStatusClosed)"
proof (intro conjI)
  show path: "life_step\<^sup>*\<^sup>* (life_of room) (life_of (run_commands room_step room cs))" by (rule run_life [OF assms])
  show "\<forall>c r. room_step room c = Inr r \<longrightarrow> life_step (life_of room) (life_of r)" using room_step_life [OF assms] by blast
  show "rs_Status room = RoomStatusClosed \<longrightarrow> rs_Status (run_commands room_step room cs) = RoomStatusClosed"
  proof
    assume "rs_Status room = RoomStatusClosed"
    with path have "life_of (run_commands room_step room cs) = Closed" by (intro life_closed) (simp add: life_status)
    then show "rs_Status (run_commands room_step room cs) = RoomStatusClosed" by (simp add: life_of_def split: if_splits)
  qed
qed

theorem room_lifecycle_refines_witness:
  "life_step\<^sup>*\<^sup>* (life_of demo_one) (life_of (run_commands room_step demo_one [CmdClose demo_ann (version_of 1 1) 3000]))"
  using room_lifecycle_refines [OF demo_inv(1)] by blast

text \<open>
  C28: The host's commands are the host's alone. A command that acts on the host's authority is accepted only from the
  current host. The host changes only together with the ownership epoch, by one, so an authority granted under an old
  epoch is never valid again.
\<close>

theorem room_host_authority:
  assumes inv: "room_inv room" and step: "room_step room c = Inr r"
  shows "(acting_host c = Some h \<longrightarrow> h = rs_HostUserID room) \<and>
    unat (rs_OwnershipEpoch r) = unat (rs_OwnershipEpoch room) + (if rs_HostUserID r = rs_HostUserID room then 0 else 1)"
  using room_step_authority [OF assms] room_step_epoch [OF assms] by blast

theorem room_host_authority_witness:
  "acting_host (CmdRemove demo_ann demo_ben (version_of 4 3) 5000) = Some demo_ann \<and> demo_ann = rs_HostUserID demo_playing \<and>
   unat (rs_OwnershipEpoch demo_removed) = unat (rs_OwnershipEpoch demo_playing)"
  using room_host_authority [of demo_playing "CmdRemove demo_ann demo_ben (version_of 4 3) 5000" demo_removed demo_ann]
  by (simp add: demo_remove) (simp add: demo_defs)

text \<open>
  C27: A session plays with the roster it was started with. The start hands over exactly the seated members of the room,
  as many as the game asks for. As long as that session is played, no command seats anyone: the seated members are
  the handed over ones with the removed ones left out, in the same order and on the same seats.
\<close>

theorem room_frozen_roster:
  assumes inv: "room_inv room"
    and start: "StartSession room host session game minimum maximum expected at = Inr (r, started)"
    and others: "list_all (\<lambda>c. \<not> starts_session c) cs"
    and later: "later = run_commands room_step r cs" "rs_Status later = RoomStatusPlaying"
  shows "ss_Participants started = frozen_participants (rs_Members room) \<and>
    length (ss_Participants started) \<in> {unat minimum .. unat maximum} \<and>
    subseq (frozen_participants (rs_Members later)) (ss_Participants started) \<and>
    rs_ActiveSessionID later = ss_SessionID started \<and> rs_ActiveGameID later = ss_GameID started"
proof -
  note s = start [unfolded StartSession_Inr [OF inv]]
  from s have r: "room_inv r" "rs_Members r = rs_Members room" "rs_ActiveSessionID r = session"
    by (auto simp: committed_def stamped_def)
  from run_roster [OF r(1) others] later s r(2,3) show ?thesis by simp
qed

theorem room_frozen_roster_witness:
  "subseq (frozen_participants (rs_Members demo_removed)) (frozen_participants (rs_Members demo_three))"
proof -
  have "\<exists>started. StartSession demo_three demo_ann 200 ''liars-dice'' 2 6 (version_of 3 3) 4000 = Inr (demo_playing, started)"
    using demo_started by blast
  then obtain started where s: "StartSession demo_three demo_ann 200 ''liars-dice'' 2 6 (version_of 3 3) 4000 = Inr (demo_playing, started)" ..
  have r: "run_commands room_step demo_playing [CmdRemove demo_ann demo_ben (version_of 4 3) 5000] = demo_removed"
    by (simp add: demo_remove)
  have p: "rs_Status demo_removed = RoomStatusPlaying" by (simp add: demo_defs)
  have c: "list_all (\<lambda>c. \<not> starts_session c) [CmdRemove demo_ann demo_ben (version_of 4 3) 5000]" by simp
  from room_frozen_roster [OF demo_inv(3) s c r [symmetric] p] show ?thesis by metis
qed

text \<open>
  Seats are given out from the front. In a room whose seats fit, the next seat is the lowest one that no participant
  has, and there is none exactly when there are as many participants as the room has capacity for. The user who takes a
  seat by joining gets that seat and nobody else's seat changes.
\<close>

theorem room_seating:
  assumes inv: "room_inv room" and fit: "seats_fit room"
  shows "(nextSeat room = Some seat \<longleftrightarrow>
      seat < rs_ParticipantCapacity room \<and> seat \<notin> taken_seats room \<and> (\<forall>t < seat. t \<in> taken_seats room)) \<and>
    (nextSeat room = None \<longleftrightarrow> length (filter seated (rs_Members room)) = unat (rs_ParticipantCapacity room)) \<and>
    (fst (Join room u JoinIntentParticipant expected at) = Inr (r, res) \<and> jr_Created res \<and> seated (jr_Member res) \<longrightarrow>
      nextSeat room = Some (mb_SeatIndex (jr_Member res)) \<and> rs_Members r = rs_Members room @ [jr_Member res])"
proof (intro conjI)
  show "nextSeat room = Some seat \<longleftrightarrow>
      seat < rs_ParticipantCapacity room \<and> seat \<notin> taken_seats room \<and> (\<forall>t < seat. t \<in> taken_seats room)"
    by (rule nextSeat_Some)
  show "nextSeat room = None \<longleftrightarrow> length (filter seated (rs_Members room)) = unat (rs_ParticipantCapacity room)"
    using inv fit by (intro nextSeat_full) (simp_all add: room_inv_def room_ok_def)
  show "fst (Join room u JoinIntentParticipant expected at) = Inr (r, res) \<and> jr_Created res \<and> seated (jr_Member res) \<longrightarrow>
      nextSeat room = Some (mb_SeatIndex (jr_Member res)) \<and> rs_Members r = rs_Members room @ [jr_Member res]"
    using Join_created [OF inv] by blast
qed

theorem room_seating_witness: "nextSeat demo_three = None \<and> length (filter seated (rs_Members demo_three)) = unat (3 :: u32)"
proof -
  have "length (filter seated (rs_Members demo_three)) = unat (rs_ParticipantCapacity demo_three)"
    by (simp add: demo_defs seated_def)
  with room_seating [OF demo_inv(3) demo_seats(2)] show ?thesis by (simp add: demo_defs)
qed

text \<open>
  C31: The error of invalid input is precise. On a room whose seats fit and that has space for another member, a command
  that is not older than the room's last change reports invalid input exactly when its own arguments are ill formed; the
  snapshot it builds is never rejected.
\<close>

theorem room_precise_errors:
  assumes "roomy room (command_time c)"
  shows "room_step room c = Inl ErrInvalidRoomInput \<longleftrightarrow> \<not> well_formed c"
  using step_invalid [OF assms] ill_formed_invalid by blast

theorem room_precise_errors_witness:
  "room_step demo_one (CmdTransferHost demo_ann demo_ben 1 (version_of 7 7) 2000) \<noteq> Inl ErrInvalidRoomInput"
proof -
  have "roomy demo_one (command_time (CmdTransferHost demo_ann demo_ben 1 (version_of 7 7) 2000))"
    by (simp add: roomy_def canonicalRoomTime_def) (simp add: demo_defs)
  from room_precise_errors [OF this] show ?thesis by (simp add: canonicalRoomTime_def del: room_step.simps)
qed

text \<open>
  The repository accepts what the room produces. The transition check before the compare-and-swap passes for every
  accepted command that changes the room, as long as the numbers fit the columns of the database.
\<close>

theorem room_transition_accepted:
  assumes "room_inv room" and "room_step room c = Inr r" and "r \<noteq> room"
    and "validateRoomPersistenceWidths room = Inr ()" and "validateRoomPersistenceWidths r = Inr ()"
  shows "validateRoomTransition room r = Inr ()"
  by (rule room_step_transition [OF assms])

theorem room_transition_accepted_witness: "validateRoomTransition demo_one demo_two = Inr ()"
  by (rule room_transition_accepted [OF demo_inv(1) demo_join]) (simp_all add: demo_defs validateRoomPersistenceWidths_def)

text \<open>
  C33: A participant of a running game can be removed only when that participant is the last member. The removal shifts the
  array of members that the room shares, so the room that the service hands to the repository as the state before the
  removal no longer has the removed participant, and the repository's check fails. On the room as it was before the call
  the check passes.
\<close>

theorem room_removal_rejected:
  assumes inv: "room_inv room" and remove: "fst (RemoveMember room host u expected at) = Inr (r, res)"
    and revoked: "rr_ParticipantRevoked res"
  shows "removedParticipantTransition room r u \<and>
    (removedParticipantTransition (snd (RemoveMember room host u expected at)) r u \<longleftrightarrow> mb_UserID (last (rs_Members room)) = u)"
  using removal_transition [OF inv remove [unfolded RemoveMember_Inr(3) [OF remove]] canonicalRoomTime_idem revoked]
  unfolding RemoveMember_Inr(3) [OF remove] by blast

theorem room_removal_rejected_witness:
  "\<not> removedParticipantTransition (snd (RemoveMember demo_playing demo_ann demo_ben (version_of 4 3) 5000)) demo_removed demo_ben"
proof -
  have "fst (RemoveMember demo_playing demo_ann demo_ben (version_of 4 3) 5000) =
      Inr (demo_removed, \<lparr>rr_Removed = demo_member demo_ben 1 2000, rr_ParticipantRevoked = True, rr_SessionID = 200,
        rr_SourceEventID = uuid_Nil, rr_Version = version_of 5 4\<rparr>)"
    by (simp add: demo_remove)
  from room_removal_rejected [OF demo_inv(4) this] show ?thesis by (simp add: demo_defs)
qed

end
