(* ===== verification/Outbox.thy ===== *)
theory Outbox
  imports Prelude "HOL-Library.Char_ord" "HOL-Library.List_Lexorder"
begin

text \<open>
  The durable outbox (\<open>platform/outbox\<close>): protocol names and sequences (\<open>value.go\<close>), immutable events
  (\<open>event.go\<close>), the bounded read of a dispatcher (\<open>repository.go\<close>) and the consumer aggregate with its offset,
  lease and retry state (\<open>consumer.go\<close>).

  \<^item> \<open>EventType\<close>, \<open>AggregateType\<close>, \<open>ConsumerID\<close>, \<open>LeaseOwner\<close> and \<open>ErrorCode\<close> are Go strings, that is, byte
    strings. The byte order of Go's \<open><\<close> on strings is the lexicographic order on \<open>string\<close>.
  \<^item> The two regular expressions are matchers on the bytes; the zero time is \<open>0\<close>.
  \<^item> \<open>Consumer\<close> and \<open>Event\<close> each wrap one snapshot; the model identifies the two. The deep copies that the accessors
    make have no counterpart: values do not alias here.
\<close>

section \<open>Values\<close>

definition MaximumNameLength :: nat where "MaximumNameLength = 128"
definition MaximumSubscriptions :: nat where "MaximumSubscriptions = 64"
definition MaximumPayloadBytes :: nat where "MaximumPayloadBytes = 1048576"
definition MaximumBatchSize :: u32 where "MaximumBatchSize = 1000"

abbreviation Second :: int where "Second \<equiv> 1000000000"

definition MaximumLeaseDuration :: int where "MaximumLeaseDuration = 300 * Second"
definition InitialRetryBackoff :: int where "InitialRetryBackoff = Second"
definition MaximumRetryBackoff :: int where "MaximumRetryBackoff = 300 * Second"
definition MaximumRetryCount :: u32 where "MaximumRetryCount = 16"

datatype outbox_error =
    ErrInvalidInput | ErrNotFound | ErrAlreadyExists | ErrLeaseUnavailable | ErrLeaseNotOwned | ErrLeaseExpired
  | ErrBackoffActive | ErrInvalidAcknowledgement | ErrRetryExhausted | ErrConcurrentTransition
  | ErrRepositoryUnavailable | ErrIntegrity

type_synonym 'a outbox_result = "outbox_error + 'a"

text \<open>\<open>[a-z]\<close>, \<open>[a-z0-9_]\<close> and the class of the second pattern.\<close>

definition lower_char :: "char \<Rightarrow> bool" where
  "lower_char c \<longleftrightarrow> (let n = of_char c :: nat in 97 \<le> n \<and> n \<le> 122)"

definition digit_char :: "char \<Rightarrow> bool" where
  "digit_char c \<longleftrightarrow> (let n = of_char c :: nat in 48 \<le> n \<and> n \<le> 57)"

definition upper_char :: "char \<Rightarrow> bool" where
  "upper_char c \<longleftrightarrow> (let n = of_char c :: nat in 65 \<le> n \<and> n \<le> 90)"

definition name_char :: "char \<Rightarrow> bool" where
  "name_char c \<longleftrightarrow> lower_char c \<or> digit_char c \<or> c = CHR ''_''"

definition owner_char :: "char \<Rightarrow> bool" where
  "owner_char c \<longleftrightarrow> lower_char c \<or> upper_char c \<or> digit_char c \<or> c \<in> set ''._:@/-''"

text \<open>
  \<open>^[a-z][a-z0-9_]*(?:\.[a-z][a-z0-9_]*)+$\<close>: the rest of a segment, with the flag that a dot was met, and the
  start of a segment after a dot.
\<close>

fun name_rest :: "bool \<Rightarrow> string \<Rightarrow> bool" where
  "name_rest dotted [] = dotted"
| "name_rest dotted [c] = (dotted \<and> name_char c)"
| "name_rest dotted (c # d # s) =
     (if name_char c then name_rest dotted (d # s)
      else c = CHR ''.'' \<and> lower_char d \<and> name_rest True s)"

definition protocolNamePattern :: "string \<Rightarrow> bool" where
  "protocolNamePattern s = (case s of [] \<Rightarrow> False | c # r \<Rightarrow> lower_char c \<and> name_rest False r)"

text \<open>\<open>^[A-Za-z0-9][A-Za-z0-9._:@/-]*$\<close>\<close>

definition leaseOwnerPattern :: "string \<Rightarrow> bool" where
  "leaseOwnerPattern s =
     (case s of [] \<Rightarrow> False
      | c # r \<Rightarrow> (lower_char c \<or> upper_char c \<or> digit_char c) \<and> list_all owner_char r)"

definition validProtocolName :: "string \<Rightarrow> bool" where
  "validProtocolName value \<longleftrightarrow> length value > 0 \<and> length value \<le> MaximumNameLength \<and> protocolNamePattern value"

abbreviation EventType_Valid :: "string \<Rightarrow> bool" where "EventType_Valid \<equiv> validProtocolName"
abbreviation AggregateType_Valid :: "string \<Rightarrow> bool" where "AggregateType_Valid \<equiv> validProtocolName"
abbreviation ConsumerID_Valid :: "string \<Rightarrow> bool" where "ConsumerID_Valid \<equiv> validProtocolName"
abbreviation ErrorCode_Valid :: "string \<Rightarrow> bool" where "ErrorCode_Valid \<equiv> validProtocolName"

definition LeaseOwner_Valid :: "string \<Rightarrow> bool" where
  "LeaseOwner_Valid owner \<longleftrightarrow> length owner > 0 \<and> length owner \<le> MaximumNameLength \<and> leaseOwnerPattern owner"

text \<open>\<open>ParseEventType\<close>, \<open>ParseAggregateType\<close>, \<open>ParseConsumerID\<close> and \<open>ParseErrorCode\<close> have this one body.\<close>

definition parseProtocolName :: "string \<Rightarrow> string outbox_result" where
  "parseProtocolName value = (if \<not> validProtocolName value then Inl ErrInvalidInput else Inr value)"

definition ParseLeaseOwner :: "string \<Rightarrow> string outbox_result" where
  "ParseLeaseOwner value = (if \<not> LeaseOwner_Valid value then Inl ErrInvalidInput else Inr value)"

type_synonym Sequence = u64

definition NewSequence :: "i64 \<Rightarrow> Sequence outbox_result" where
  "NewSequence value = (if value < 0 then Inl ErrInvalidInput else Inr (word_of_int value))"

definition Sequence_Valid :: "Sequence \<Rightarrow> bool" where
  "Sequence_Valid sequence \<longleftrightarrow> sequence \<le> 9223372036854775807"

definition Sequence_Int64 :: "Sequence \<Rightarrow> i64 outbox_result" where
  "Sequence_Int64 sequence = (if \<not> Sequence_Valid sequence then Inl ErrInvalidInput else Inr (sint sequence))"

text \<open>
  A \<open>Subscription\<close> is its canonical list of event types. The loop stops at the first invalid or repeated type;
  \<open>sort.Slice\<close> then sorts distinct strings, which leaves no choice of order.
\<close>

fun subscription_loop :: "string set \<Rightarrow> string list \<Rightarrow> bool" where
  "subscription_loop seen [] = True"
| "subscription_loop seen (eventType # rest) =
     (EventType_Valid eventType \<and> eventType \<notin> seen \<and> subscription_loop (insert eventType seen) rest)"

definition NewSubscription :: "string list \<Rightarrow> string list outbox_result" where
  "NewSubscription eventTypes =
     (if length eventTypes = 0 \<or> length eventTypes > MaximumSubscriptions then Inl ErrInvalidInput
      else if \<not> subscription_loop {} eventTypes then Inl ErrInvalidInput
      else Inr (sort eventTypes))"

fun Subscription_Contains :: "string list \<Rightarrow> string \<Rightarrow> bool" where
  "Subscription_Contains [] eventType = False"
| "Subscription_Contains (subscribed # rest) eventType =
     (subscribed = eventType \<or> Subscription_Contains rest eventType)"

definition Subscription_Valid :: "string list \<Rightarrow> bool" where
  "Subscription_Valid eventTypes \<longleftrightarrow> (case NewSubscription eventTypes of Inl _ \<Rightarrow> False | Inr _ \<Rightarrow> True)"

definition canonicalTime :: "go_time \<Rightarrow> go_time" where
  "canonicalTime value = (if value = 0 then 0 else value - value mod 1000)"

abbreviation canonicalOptionalTime :: "go_time \<Rightarrow> go_time" where "canonicalOptionalTime \<equiv> canonicalTime"

section \<open>Events\<close>

record EventSnapshot =
  es_Sequence :: Sequence
  es_ID :: uuid
  es_Type :: string
  es_AggregateType :: string
  es_AggregateID :: uuid
  es_Payload :: "u8 list"
  es_CreatedAt :: go_time
  es_AvailableAt :: go_time

definition restoreEvent :: "EventSnapshot \<Rightarrow> bool \<Rightarrow> EventSnapshot outbox_result" where
  "restoreEvent snapshot0 persisted =
     (let snapshot = snapshot0\<lparr>es_CreatedAt := canonicalTime (es_CreatedAt snapshot0),
                               es_AvailableAt := canonicalTime (es_AvailableAt snapshot0)\<rparr> in
      if \<not> Sequence_Valid (es_Sequence snapshot) \<or> (persisted \<and> es_Sequence snapshot = 0) \<or>
         (\<not> persisted \<and> es_Sequence snapshot \<noteq> 0) \<or> es_ID snapshot = uuid_Nil \<or> \<not> EventType_Valid (es_Type snapshot) \<or>
         \<not> AggregateType_Valid (es_AggregateType snapshot) \<or> es_AggregateID snapshot = uuid_Nil \<or>
         length (es_Payload snapshot) = 0 \<or> length (es_Payload snapshot) > MaximumPayloadBytes \<or>
         es_CreatedAt snapshot = 0 \<or> es_AvailableAt snapshot < es_CreatedAt snapshot
      then Inl ErrInvalidInput
      else Inr snapshot)"

definition NewEvent ::
  "uuid \<Rightarrow> string \<Rightarrow> string \<Rightarrow> uuid \<Rightarrow> u8 list \<Rightarrow> go_time \<Rightarrow> go_time \<Rightarrow> EventSnapshot outbox_result" where
  "NewEvent eventID eventType aggregateType aggregateID payload createdAt availableAt =
     restoreEvent \<lparr>es_Sequence = 0, es_ID = eventID, es_Type = eventType, es_AggregateType = aggregateType,
       es_AggregateID = aggregateID, es_Payload = payload, es_CreatedAt = createdAt, es_AvailableAt = availableAt\<rparr> False"

definition RestoreEvent :: "EventSnapshot \<Rightarrow> EventSnapshot outbox_result" where
  "RestoreEvent snapshot = restoreEvent snapshot True"

section \<open>The bounded read\<close>

record EventBatch =
  eb_ConsumerID :: string
  eb_LeaseOwner :: string
  eb_ReadAt :: go_time
  eb_BatchSize :: u32

definition NewEventBatch :: "string \<Rightarrow> string \<Rightarrow> go_time \<Rightarrow> u32 \<Rightarrow> EventBatch outbox_result" where
  "NewEventBatch consumerID owner readAt0 batchSize =
     (let readAt = canonicalTime readAt0 in
      if \<not> ConsumerID_Valid consumerID \<or> \<not> LeaseOwner_Valid owner \<or> readAt = 0 \<or> batchSize = 0 \<or>
         batchSize > MaximumBatchSize
      then Inl ErrInvalidInput
      else Inr \<lparr>eb_ConsumerID = consumerID, eb_LeaseOwner = owner, eb_ReadAt = readAt, eb_BatchSize = batchSize\<rparr>)"

section \<open>The consumer aggregate\<close>

record ConsumerSnapshot =
  cs_ID :: string
  cs_Subscriptions :: "string list"
  cs_LastAckedSequence :: Sequence
  cs_LeaseOwner :: string
  cs_LeaseUntil :: go_time
  cs_RetryCount :: u32
  cs_NextAttemptAt :: go_time
  cs_LastErrorCode :: string
  cs_CreatedAt :: go_time
  cs_UpdatedAt :: go_time

type_synonym Consumer = ConsumerSnapshot

datatype ConsumerTransitionKind =
    TransitionAcquireLease | TransitionRenewLease | TransitionReleaseLease | TransitionAcknowledge
  | TransitionRecordRetry

record ConsumerCAS =
  cas_kind :: ConsumerTransitionKind
  cas_expected :: ConsumerSnapshot
  cas_next :: ConsumerSnapshot

definition canonical_consumer :: "ConsumerSnapshot \<Rightarrow> ConsumerSnapshot" where
  "canonical_consumer s =
     s\<lparr>cs_LeaseUntil := canonicalOptionalTime (cs_LeaseUntil s),
       cs_NextAttemptAt := canonicalOptionalTime (cs_NextAttemptAt s),
       cs_CreatedAt := canonicalTime (cs_CreatedAt s),
       cs_UpdatedAt := canonicalTime (cs_UpdatedAt s)\<rparr>"

definition RestoreConsumer :: "ConsumerSnapshot \<Rightarrow> Consumer outbox_result" where
  "RestoreConsumer snapshot0 =
     (let snapshot = canonical_consumer snapshot0 in
      case NewSubscription (cs_Subscriptions snapshot) of
        Inl _ \<Rightarrow> Inl ErrInvalidInput
      | Inr subscription \<Rightarrow>
          if \<not> ConsumerID_Valid (cs_ID snapshot) \<or> \<not> Sequence_Valid (cs_LastAckedSequence snapshot) \<or>
             cs_CreatedAt snapshot = 0 \<or> cs_UpdatedAt snapshot < cs_CreatedAt snapshot \<or>
             cs_RetryCount snapshot > MaximumRetryCount
          then Inl ErrInvalidInput
          else
            let leaseOwnerSet = cs_LeaseOwner snapshot \<noteq> []; leaseUntilSet = cs_LeaseUntil snapshot \<noteq> 0 in
            if leaseOwnerSet \<noteq> leaseUntilSet \<or> (leaseOwnerSet \<and> \<not> LeaseOwner_Valid (cs_LeaseOwner snapshot))
            then Inl ErrInvalidInput
            else if cs_RetryCount snapshot = 0 then
              (if cs_NextAttemptAt snapshot \<noteq> 0 \<or> cs_LastErrorCode snapshot \<noteq> [] then Inl ErrInvalidInput
               else Inr (snapshot\<lparr>cs_Subscriptions := subscription\<rparr>))
            else if cs_NextAttemptAt snapshot = 0 \<or> \<not> ErrorCode_Valid (cs_LastErrorCode snapshot)
            then Inl ErrInvalidInput
            else Inr (snapshot\<lparr>cs_Subscriptions := subscription\<rparr>))"

definition NewConsumer :: "string \<Rightarrow> string list \<Rightarrow> go_time \<Rightarrow> Consumer outbox_result" where
  "NewConsumer consumerID subscription createdAt =
     RestoreConsumer \<lparr>cs_ID = consumerID, cs_Subscriptions = subscription, cs_LastAckedSequence = 0, cs_LeaseOwner = [],
       cs_LeaseUntil = 0, cs_RetryCount = 0, cs_NextAttemptAt = 0, cs_LastErrorCode = [], cs_CreatedAt = createdAt,
       cs_UpdatedAt = createdAt\<rparr>"

text \<open>\<open>equalEventTypes\<close>: the same length and the same entry at every index.\<close>

definition equalEventTypes :: "string list \<Rightarrow> string list \<Rightarrow> bool" where
  "equalEventTypes left right \<longleftrightarrow>
     length left = length right \<and> list_all (\<lambda>index. left ! index = right ! index) [0..<length left]"

definition ResolveRegistration :: "Consumer \<Rightarrow> Consumer \<Rightarrow> Consumer outbox_result" where
  "ResolveRegistration existing requested =
     (if cs_ID existing \<noteq> cs_ID requested \<or> \<not> equalEventTypes (cs_Subscriptions existing) (cs_Subscriptions requested)
      then Inl ErrAlreadyExists
      else if cs_LastAckedSequence requested \<noteq> 0 \<or> cs_LeaseOwner requested \<noteq> [] \<or> cs_RetryCount requested \<noteq> 0
      then Inl ErrInvalidInput
      else Inr existing)"

definition transition :: "Consumer \<Rightarrow> ConsumerTransitionKind \<Rightarrow> ConsumerSnapshot \<Rightarrow> (Consumer \<times> ConsumerCAS) outbox_result" where
  "transition consumer kind nextSnapshot =
     and_then (RestoreConsumer nextSnapshot) (\<lambda>nextConsumer.
       Inr (nextConsumer, \<lparr>cas_kind = kind, cas_expected = consumer, cas_next = nextConsumer\<rparr>))"

definition requireActiveLease :: "Consumer \<Rightarrow> string \<Rightarrow> go_time \<Rightarrow> unit outbox_result" where
  "requireActiveLease consumer owner at =
     (if cs_LeaseOwner consumer = [] \<or> cs_LeaseOwner consumer \<noteq> owner then Inl ErrLeaseNotOwned
      else if \<not> cs_LeaseUntil consumer > at then Inl ErrLeaseExpired
      else Inr ())"

definition validTransitionTime :: "Consumer \<Rightarrow> go_time \<Rightarrow> bool" where
  "validTransitionTime consumer at \<longleftrightarrow> at \<noteq> 0 \<and> \<not> at < cs_UpdatedAt consumer"

definition validLeaseWindow :: "go_time \<Rightarrow> go_time \<Rightarrow> bool" where
  "validLeaseWindow start end' \<longleftrightarrow> start \<noteq> 0 \<and> end' > start \<and> end' - start \<le> MaximumLeaseDuration"

text \<open>The loop of \<open>retryBackoff\<close>, with its counter and the delay reached so far.\<close>

function retry_loop :: "u32 \<Rightarrow> u32 \<Rightarrow> int \<Rightarrow> int" where
  "retry_loop attempt retryCount delay =
     (if attempt < retryCount \<and> delay < MaximumRetryBackoff
      then (if delay > MaximumRetryBackoff div 2 then MaximumRetryBackoff
            else retry_loop (attempt + 1) retryCount (delay * 2))
      else if delay > MaximumRetryBackoff then MaximumRetryBackoff
      else delay)"
  by pat_completeness auto

termination retry_loop
  by (relation "measure (\<lambda>(attempt, retryCount, _). unat retryCount - unat attempt)")
    (auto simp: word_less_nat_alt unat_plus_1_u32 less_not_MaxUint32)

declare retry_loop.simps [simp del]

definition retryBackoff :: "u32 \<Rightarrow> int" where
  "retryBackoff retryCount = retry_loop 1 retryCount InitialRetryBackoff"

definition AcquireLease :: "Consumer \<Rightarrow> string \<Rightarrow> go_time \<Rightarrow> go_time \<Rightarrow> (Consumer \<times> ConsumerCAS) outbox_result" where
  "AcquireLease consumer owner acquiredAt0 leaseUntil0 =
     (let acquiredAt = canonicalTime acquiredAt0; leaseUntil = canonicalTime leaseUntil0 in
      if \<not> LeaseOwner_Valid owner \<or> \<not> validTransitionTime consumer acquiredAt \<or> \<not> validLeaseWindow acquiredAt leaseUntil
      then Inl ErrInvalidInput
      else if cs_RetryCount consumer > 0 \<and> acquiredAt < cs_NextAttemptAt consumer then Inl ErrBackoffActive
      else if cs_LeaseOwner consumer \<noteq> [] \<and> cs_LeaseUntil consumer > acquiredAt then Inl ErrLeaseUnavailable
      else transition consumer TransitionAcquireLease
        (consumer\<lparr>cs_LeaseOwner := owner, cs_LeaseUntil := leaseUntil, cs_UpdatedAt := acquiredAt\<rparr>))"

definition RenewLease :: "Consumer \<Rightarrow> string \<Rightarrow> go_time \<Rightarrow> go_time \<Rightarrow> (Consumer \<times> ConsumerCAS) outbox_result" where
  "RenewLease consumer owner renewedAt0 leaseUntil0 =
     (let renewedAt = canonicalTime renewedAt0; leaseUntil = canonicalTime leaseUntil0 in
      if \<not> LeaseOwner_Valid owner \<or> \<not> validTransitionTime consumer renewedAt \<or> \<not> validLeaseWindow renewedAt leaseUntil
      then Inl ErrInvalidInput
      else and_then (requireActiveLease consumer owner renewedAt) (\<lambda>_.
        if \<not> leaseUntil > cs_LeaseUntil consumer then Inl ErrInvalidInput
        else transition consumer TransitionRenewLease
          (consumer\<lparr>cs_LeaseUntil := leaseUntil, cs_UpdatedAt := renewedAt\<rparr>)))"

definition ReleaseLease :: "Consumer \<Rightarrow> string \<Rightarrow> go_time \<Rightarrow> (Consumer \<times> ConsumerCAS) outbox_result" where
  "ReleaseLease consumer owner releasedAt0 =
     (let releasedAt = canonicalTime releasedAt0 in
      if \<not> LeaseOwner_Valid owner \<or> \<not> validTransitionTime consumer releasedAt then Inl ErrInvalidInput
      else and_then (requireActiveLease consumer owner releasedAt) (\<lambda>_.
        transition consumer TransitionReleaseLease
          (consumer\<lparr>cs_LeaseOwner := [], cs_LeaseUntil := 0, cs_UpdatedAt := releasedAt\<rparr>)))"

definition Acknowledge ::
  "Consumer \<Rightarrow> string \<Rightarrow> Sequence \<Rightarrow> Sequence \<Rightarrow> go_time \<Rightarrow> (Consumer \<times> ConsumerCAS) outbox_result" where
  "Acknowledge consumer owner expectedSequence ackedSequence ackedAt0 =
     (let ackedAt = canonicalTime ackedAt0 in
      if \<not> LeaseOwner_Valid owner \<or> \<not> Sequence_Valid expectedSequence \<or> \<not> Sequence_Valid ackedSequence \<or>
         \<not> validTransitionTime consumer ackedAt
      then Inl ErrInvalidInput
      else and_then (requireActiveLease consumer owner ackedAt) (\<lambda>_.
        if expectedSequence \<noteq> cs_LastAckedSequence consumer then Inl ErrConcurrentTransition
        else if ackedSequence \<le> expectedSequence then Inl ErrInvalidAcknowledgement
        else transition consumer TransitionAcknowledge
          (consumer\<lparr>cs_LastAckedSequence := ackedSequence, cs_RetryCount := 0, cs_NextAttemptAt := 0,
             cs_LastErrorCode := [], cs_UpdatedAt := ackedAt\<rparr>)))"

definition RecordRetry :: "Consumer \<Rightarrow> string \<Rightarrow> string \<Rightarrow> go_time \<Rightarrow> (Consumer \<times> ConsumerCAS) outbox_result" where
  "RecordRetry consumer owner code failedAt0 =
     (let failedAt = canonicalTime failedAt0 in
      if \<not> LeaseOwner_Valid owner \<or> \<not> ErrorCode_Valid code \<or> \<not> validTransitionTime consumer failedAt
      then Inl ErrInvalidInput
      else and_then (requireActiveLease consumer owner failedAt) (\<lambda>_.
        if cs_RetryCount consumer > 0 \<and> failedAt < cs_NextAttemptAt consumer then Inl ErrBackoffActive
        else if cs_RetryCount consumer \<ge> MaximumRetryCount then Inl ErrRetryExhausted
        else transition consumer TransitionRecordRetry
          (consumer\<lparr>cs_RetryCount := cs_RetryCount consumer + 1,
             cs_NextAttemptAt := canonicalTime (failedAt + retryBackoff (cs_RetryCount consumer + 1)),
             cs_LastErrorCode := code, cs_UpdatedAt := failedAt\<rparr>)))"

end
