(* ===== verification/OutboxProps.thy ===== *)
theory OutboxProps
  imports Outbox Versioned
begin

text \<open>
  The consumer aggregate: what each transition accepts and what it leaves, the closed form of the retry delay, the
  invariant \<open>consumer_ok\<close> of a restored consumer, and the language of the name pattern.
\<close>

section \<open>Values\<close>

lemma retry_loop_min:
  assumes "0 < delay" and "delay \<le> MaximumRetryBackoff"
  shows "retry_loop attempt retryCount delay = min (delay * 2 ^ (unat retryCount - unat attempt)) MaximumRetryBackoff"
  using assms
proof (induction attempt retryCount delay rule: retry_loop.induct)
  case (1 attempt retryCount delay)
  define k where "k = unat retryCount - unat attempt"
  consider (stop) "\<not> attempt < retryCount" | (full) "\<not> delay < MaximumRetryBackoff"
    | (big) "attempt < retryCount" "delay < MaximumRetryBackoff" "delay > MaximumRetryBackoff div 2"
    | (small) "attempt < retryCount" "delay < MaximumRetryBackoff" "\<not> delay > MaximumRetryBackoff div 2"
    by blast
  then show ?case
  proof cases
    case stop
    then have "k = 0" by (simp add: k_def word_less_nat_alt)
    with stop "1.prems" show ?thesis by (simp add: retry_loop.simps k_def)
  next
    case full
    with "1.prems" have "delay = MaximumRetryBackoff" by simp
    moreover have "MaximumRetryBackoff * 1 \<le> MaximumRetryBackoff * 2 ^ k"
      by (rule mult_left_mono) (simp_all add: MaximumRetryBackoff_def)
    ultimately show ?thesis by (simp add: retry_loop.simps k_def)
  next
    case big
    then obtain j where k: "k = Suc j" by (metis k_def not0_implies_Suc word_less_nat_alt zero_less_diff less_numeral_extra(3))
    have "MaximumRetryBackoff \<le> delay * 2" using big(3) by (simp add: MaximumRetryBackoff_def)
    also have "\<dots> * 1 \<le> delay * 2 * 2 ^ j" using "1.prems"(1) by (intro mult_left_mono) simp_all
    finally show ?thesis using big k by (simp add: retry_loop.simps k_def [symmetric] ac_simps)
  next
    case small
    then have un: "unat (attempt + 1) = Suc (unat attempt)" by (simp add: less_not_MaxUint32 unat_plus_1_u32)
    have k: "k = Suc (unat retryCount - unat (attempt + 1))"
      using small(1) un by (simp add: k_def word_less_nat_alt)
    have "delay * 2 \<le> MaximumRetryBackoff" using small(3) by (simp add: MaximumRetryBackoff_def)
    then have "retry_loop (attempt + 1) retryCount (delay * 2) =
      min (delay * 2 * 2 ^ (unat retryCount - unat (attempt + 1))) MaximumRetryBackoff"
      using "1.IH" small "1.prems"(1) by simp
    with small show ?thesis by (simp add: retry_loop.simps [of attempt] k_def [symmetric] k ac_simps)
  qed
qed

lemma retryBackoff_min: "retryBackoff n = min (2 ^ (unat n - 1) * Second) (300 * Second)"
  using retry_loop_min [of InitialRetryBackoff 1 n]
  by (simp add: retryBackoff_def InitialRetryBackoff_def MaximumRetryBackoff_def mult.commute)

lemma retryBackoff_bounds: "Second \<le> retryBackoff n" "retryBackoff n \<le> 300 * Second"
  by (simp_all add: retryBackoff_min)

lemma retryBackoff_mod: "retryBackoff n mod 1000 = 0"
proof (cases "2 ^ (unat n - 1) * Second \<le> (300 * Second :: int)")
  case True
  have "(2 ^ (unat n - 1) * Second) mod (1000 :: int) = (1000 * (2 ^ (unat n - 1) * 1000000)) mod 1000"
    by simp
  also have "\<dots> = 0" by (rule mod_mult_self1_is_0)
  finally show ?thesis using True by (simp add: retryBackoff_min min_def)
qed (simp add: retryBackoff_min min_def)

lemma canonicalTime_mod [simp]: "canonicalTime t mod 1000 = 0"
  by (simp add: canonicalTime_def)

lemma canonicalTime_id: "t mod 1000 = 0 \<Longrightarrow> canonicalTime t = t"
  by (simp add: canonicalTime_def)

lemma canonicalTime_idem [simp]: "canonicalTime (canonicalTime t) = canonicalTime t"
  by (rule canonicalTime_id) simp

lemma canonicalTime_0 [simp]: "canonicalTime 0 = 0"
  by (simp add: canonicalTime_def)

lemma canonicalTime_le: "canonicalTime t \<le> t"
  by (simp add: canonicalTime_def)

lemma canonicalTime_alt: "canonicalTime t = 1000 * (t div 1000)"
  by (simp add: canonicalTime_def minus_mod_eq_mult_div)

lemma canonicalTime_mono: "s \<le> t \<Longrightarrow> canonicalTime s \<le> canonicalTime t"
  by (simp add: canonicalTime_alt zdiv_mono1)

section \<open>Subscriptions\<close>

lemma subscription_loop_iff:
  "subscription_loop seen ts \<longleftrightarrow> list_all EventType_Valid ts \<and> distinct ts \<and> set ts \<inter> seen = {}"
  by (induction ts arbitrary: seen) auto

text \<open>The list that \<open>NewSubscription\<close> stores.\<close>

definition subscription_ok :: "string list \<Rightarrow> bool" where
  "subscription_ok ts \<longleftrightarrow> ts \<noteq> [] \<and> length ts \<le> MaximumSubscriptions \<and> list_all EventType_Valid ts \<and> distinct ts \<and> sorted ts"

lemma sort_eq_Nil [simp]: "sort ts = [] \<longleftrightarrow> ts = []"
  by (metis length_0_conv length_sort)

lemma NewSubscription_iff: "NewSubscription ts = Inr us \<longleftrightarrow> us = sort ts \<and> subscription_ok us"
  by (auto simp: NewSubscription_def subscription_loop_iff subscription_ok_def list_all_iff)

lemma sort_subscription_ok [simp]: "subscription_ok ts \<Longrightarrow> sort ts = ts"
  by (simp add: subscription_ok_def sorted_sort_id)

lemma Subscription_Contains_iff [simp]: "Subscription_Contains ts t \<longleftrightarrow> t \<in> set ts"
  by (induction ts) auto

lemma equalEventTypes_iff [simp]: "equalEventTypes ts us \<longleftrightarrow> ts = us"
  by (auto simp: equalEventTypes_def list_all_iff intro: nth_equalityI)

section \<open>The state of a consumer\<close>

definition lease_ok :: "ConsumerSnapshot \<Rightarrow> bool" where
  "lease_ok c \<longleftrightarrow> (cs_LeaseOwner c = [] \<and> cs_LeaseUntil c = 0) \<or>
     (LeaseOwner_Valid (cs_LeaseOwner c) \<and> cs_LeaseUntil c \<noteq> 0)"

definition retry_ok :: "ConsumerSnapshot \<Rightarrow> bool" where
  "retry_ok c \<longleftrightarrow> (if cs_RetryCount c = 0 then cs_NextAttemptAt c = 0 \<and> cs_LastErrorCode c = []
     else cs_RetryCount c \<le> MaximumRetryCount \<and> cs_NextAttemptAt c \<noteq> 0 \<and> ErrorCode_Valid (cs_LastErrorCode c))"

definition times_ok :: "ConsumerSnapshot \<Rightarrow> bool" where
  "times_ok c \<longleftrightarrow> cs_LeaseUntil c mod 1000 = 0 \<and> cs_NextAttemptAt c mod 1000 = 0 \<and> cs_CreatedAt c mod 1000 = 0 \<and>
     cs_UpdatedAt c mod 1000 = 0 \<and> cs_CreatedAt c \<noteq> 0 \<and> cs_CreatedAt c \<le> cs_UpdatedAt c"

definition consumer_ok :: "ConsumerSnapshot \<Rightarrow> bool" where
  "consumer_ok c \<longleftrightarrow> ConsumerID_Valid (cs_ID c) \<and> subscription_ok (cs_Subscriptions c) \<and>
     Sequence_Valid (cs_LastAckedSequence c) \<and> times_ok c \<and> lease_ok c \<and> retry_ok c"

lemma LeaseOwner_Valid_nonempty: "LeaseOwner_Valid owner \<Longrightarrow> owner \<noteq> []"
  by (auto simp: LeaseOwner_Valid_def)

lemma owner_Nil [simp]: "\<not> LeaseOwner_Valid []"
  by (simp add: LeaseOwner_Valid_def)

lemma RestoreConsumer_iff:
  "RestoreConsumer s = Inr c \<longleftrightarrow>
     c = (canonical_consumer s)\<lparr>cs_Subscriptions := sort (cs_Subscriptions s)\<rparr> \<and> consumer_ok c"
proof (cases "NewSubscription (cs_Subscriptions s)")
  case (Inl e)
  then have "\<not> subscription_ok (sort (cs_Subscriptions s))"
    using NewSubscription_iff [of "cs_Subscriptions s" "sort (cs_Subscriptions s)"] by auto
  with Inl show ?thesis by (auto simp: RestoreConsumer_def canonical_consumer_def consumer_ok_def)
next
  case (Inr us)
  then have us: "us = sort (cs_Subscriptions s)" "subscription_ok (sort (cs_Subscriptions s))"
    by (auto simp: NewSubscription_iff)
  show ?thesis
  proof (cases "cs_RetryCount s = 0"; cases "cs_LeaseOwner s = []")
  qed (use us Inr in \<open>auto simp: RestoreConsumer_def canonical_consumer_def consumer_ok_def times_ok_def lease_ok_def
        retry_ok_def Let_def not_less MaximumRetryCount_def\<close>)
qed

lemma RestoreConsumer_Inl: "RestoreConsumer s = Inl e \<Longrightarrow> e = ErrInvalidInput"
  by (auto simp: RestoreConsumer_def Let_def split: sum.splits if_splits)

lemma canonical_consumer_id: "times_ok c \<Longrightarrow> canonical_consumer c = c"
  by (simp add: canonical_consumer_def times_ok_def canonicalTime_id)

lemma RestoreConsumer_ok: "consumer_ok c \<Longrightarrow> RestoreConsumer c = Inr c"
  by (simp add: RestoreConsumer_iff canonical_consumer_id consumer_ok_def)

section \<open>What an accepted transition does\<close>

lemma transition_iff [outcome]:
  "transition c kind n = Inr (d, cas) \<longleftrightarrow>
     RestoreConsumer n = Inr d \<and> cas = \<lparr>cas_kind = kind, cas_expected = c, cas_next = d\<rparr>"
  by (auto simp: transition_def outcome)

lemma requireActiveLease_iff [outcome]:
  "requireActiveLease c owner at = Inr u \<longleftrightarrow> cs_LeaseOwner c = owner \<and> owner \<noteq> [] \<and> at < cs_LeaseUntil c"
  by (auto simp: requireActiveLease_def)

text \<open>A snapshot that has the form of a consumer is stored as it is.\<close>

lemma RestoreConsumer_id: "times_ok n \<Longrightarrow> subscription_ok (cs_Subscriptions n) \<Longrightarrow> RestoreConsumer n = Inr d \<longleftrightarrow> d = n \<and> consumer_ok n"
  by (auto simp: RestoreConsumer_iff canonical_consumer_id)

lemmas consumer_defs = consumer_ok_def times_ok_def lease_ok_def retry_ok_def

lemma AcquireLease_iff:
  assumes "consumer_ok c"
  shows "AcquireLease c owner at0 until0 = Inr (d, cas) \<longleftrightarrow>
    (let at = canonicalTime at0; until = canonicalTime until0 in
     LeaseOwner_Valid owner \<and> validTransitionTime c at \<and> validLeaseWindow at until \<and> until \<noteq> 0 \<and>
     (cs_RetryCount c \<noteq> 0 \<longrightarrow> cs_NextAttemptAt c \<le> at) \<and> (cs_LeaseOwner c \<noteq> [] \<longrightarrow> cs_LeaseUntil c \<le> at) \<and>
     d = c\<lparr>cs_LeaseOwner := owner, cs_LeaseUntil := until, cs_UpdatedAt := at\<rparr> \<and>
     cas = \<lparr>cas_kind = TransitionAcquireLease, cas_expected = c, cas_next = d\<rparr>)"
proof -
  define n where "n = c\<lparr>cs_LeaseOwner := owner, cs_LeaseUntil := canonicalTime until0, cs_UpdatedAt := canonicalTime at0\<rparr>"
  have n: "RestoreConsumer n = Inr e \<longleftrightarrow> e = n \<and> canonicalTime until0 \<noteq> 0"
    if "LeaseOwner_Valid owner" "validTransitionTime c (canonicalTime at0)" for e
    using assms that LeaseOwner_Valid_nonempty [OF that(1)]
    by (subst RestoreConsumer_id) (auto simp: n_def consumer_defs validTransitionTime_def)
  show ?thesis
    by (auto simp: AcquireLease_def Let_def outcome n n_def [symmetric] word_gt_0 not_less)
qed

lemma RenewLease_iff:
  assumes "consumer_ok c"
  shows "RenewLease c owner at0 until0 = Inr (d, cas) \<longleftrightarrow>
    (let at = canonicalTime at0; until = canonicalTime until0 in
     LeaseOwner_Valid owner \<and> validTransitionTime c at \<and> validLeaseWindow at until \<and> until \<noteq> 0 \<and>
     cs_LeaseOwner c = owner \<and> at < cs_LeaseUntil c \<and> cs_LeaseUntil c < until \<and>
     d = c\<lparr>cs_LeaseUntil := until, cs_UpdatedAt := at\<rparr> \<and>
     cas = \<lparr>cas_kind = TransitionRenewLease, cas_expected = c, cas_next = d\<rparr>)"
proof -
  define n where "n = c\<lparr>cs_LeaseUntil := canonicalTime until0, cs_UpdatedAt := canonicalTime at0\<rparr>"
  have n: "RestoreConsumer n = Inr e \<longleftrightarrow> e = n \<and> canonicalTime until0 \<noteq> 0"
    if "LeaseOwner_Valid owner" "validTransitionTime c (canonicalTime at0)" "cs_LeaseOwner c = owner" for e
    using assms that LeaseOwner_Valid_nonempty [OF that(1)]
    by (subst RestoreConsumer_id) (auto simp: n_def consumer_defs validTransitionTime_def)
  show ?thesis
    using LeaseOwner_Valid_nonempty [of owner] n
    unfolding RenewLease_def Let_def n_def [symmetric] by (auto simp: outcome not_less)
qed

lemma ReleaseLease_iff:
  assumes "consumer_ok c"
  shows "ReleaseLease c owner at0 = Inr (d, cas) \<longleftrightarrow>
    (let at = canonicalTime at0 in
     LeaseOwner_Valid owner \<and> validTransitionTime c at \<and> cs_LeaseOwner c = owner \<and> at < cs_LeaseUntil c \<and>
     d = c\<lparr>cs_LeaseOwner := [], cs_LeaseUntil := 0, cs_UpdatedAt := at\<rparr> \<and>
     cas = \<lparr>cas_kind = TransitionReleaseLease, cas_expected = c, cas_next = d\<rparr>)"
proof -
  define n where "n = c\<lparr>cs_LeaseOwner := [], cs_LeaseUntil := 0, cs_UpdatedAt := canonicalTime at0\<rparr>"
  have n: "RestoreConsumer n = Inr e \<longleftrightarrow> e = n" if "validTransitionTime c (canonicalTime at0)" for e
    using assms that
    by (subst RestoreConsumer_id) (auto simp: n_def consumer_defs validTransitionTime_def)
  show ?thesis
    using LeaseOwner_Valid_nonempty [of owner]
    by (auto simp: ReleaseLease_def Let_def outcome n n_def [symmetric])
qed

lemma Acknowledge_iff:
  assumes "consumer_ok c"
  shows "Acknowledge c owner expected acked at0 = Inr (d, cas) \<longleftrightarrow>
    (let at = canonicalTime at0 in
     LeaseOwner_Valid owner \<and> Sequence_Valid acked \<and> validTransitionTime c at \<and>
     cs_LeaseOwner c = owner \<and> at < cs_LeaseUntil c \<and> expected = cs_LastAckedSequence c \<and> expected < acked \<and>
     d = c\<lparr>cs_LastAckedSequence := acked, cs_RetryCount := 0, cs_NextAttemptAt := 0, cs_LastErrorCode := [],
         cs_UpdatedAt := at\<rparr> \<and>
     cas = \<lparr>cas_kind = TransitionAcknowledge, cas_expected = c, cas_next = d\<rparr>)"
proof -
  define n where "n = c\<lparr>cs_LastAckedSequence := acked, cs_RetryCount := 0, cs_NextAttemptAt := 0, cs_LastErrorCode := [],
         cs_UpdatedAt := canonicalTime at0\<rparr>"
  have n: "RestoreConsumer n = Inr e \<longleftrightarrow> e = n" if "validTransitionTime c (canonicalTime at0)" "Sequence_Valid acked" for e
    using assms that
    by (subst RestoreConsumer_id) (auto simp: n_def consumer_defs validTransitionTime_def)
  have "Sequence_Valid (cs_LastAckedSequence c)" using assms by (simp add: consumer_ok_def)
  then show ?thesis
    using LeaseOwner_Valid_nonempty [of owner]
    by (auto simp: Acknowledge_def Let_def outcome n n_def [symmetric] not_le)
qed

lemma RecordRetry_iff:
  assumes "consumer_ok c"
  shows "RecordRetry c owner code at0 = Inr (d, cas) \<longleftrightarrow>
    (let at = canonicalTime at0; again = at + retryBackoff (cs_RetryCount c + 1) in
     LeaseOwner_Valid owner \<and> ErrorCode_Valid code \<and> validTransitionTime c at \<and>
     cs_LeaseOwner c = owner \<and> at < cs_LeaseUntil c \<and> (cs_RetryCount c \<noteq> 0 \<longrightarrow> cs_NextAttemptAt c \<le> at) \<and>
     cs_RetryCount c < MaximumRetryCount \<and> again \<noteq> 0 \<and>
     d = c\<lparr>cs_RetryCount := cs_RetryCount c + 1, cs_NextAttemptAt := again, cs_LastErrorCode := code, cs_UpdatedAt := at\<rparr> \<and>
     cas = \<lparr>cas_kind = TransitionRecordRetry, cas_expected = c, cas_next = d\<rparr>)"
proof -
  define at where "at = canonicalTime at0"
  define again where "again = at + retryBackoff (cs_RetryCount c + 1)"
  define n where "n = c\<lparr>cs_RetryCount := cs_RetryCount c + 1, cs_NextAttemptAt := again, cs_LastErrorCode := code,
    cs_UpdatedAt := at\<rparr>"
  have mod: "again mod 1000 = 0"
    unfolding again_def at_def by (rule mod_0_imp_dvd [THEN dvd_imp_mod_0]) (simp add: mod_add_eq [symmetric] retryBackoff_mod)
  then have can: "canonicalTime again = again" by (rule canonicalTime_id)
  have inc: "cs_RetryCount c + 1 \<noteq> 0 \<and> cs_RetryCount c + 1 \<le> MaximumRetryCount" if "cs_RetryCount c < MaximumRetryCount"
  proof -
    have "unat (cs_RetryCount c + 1) = Suc (unat (cs_RetryCount c))"
      using that by (intro unat_plus_1_u32) (rule less_not_MaxUint32)
    moreover have "unat (cs_RetryCount c) < 16" using that by (simp add: MaximumRetryCount_def word_less_nat_alt)
    ultimately show ?thesis by (auto simp: MaximumRetryCount_def word_le_nat_alt dest: arg_cong [where f = unat])
  qed
  have n: "RestoreConsumer n = Inr e \<longleftrightarrow> e = n \<and> again \<noteq> 0"
    if "validTransitionTime c at" "ErrorCode_Valid code" "cs_RetryCount c < MaximumRetryCount" for e
    using assms that inc mod
    by (subst RestoreConsumer_id) (auto simp: n_def consumer_defs validTransitionTime_def at_def)
  show ?thesis
    using LeaseOwner_Valid_nonempty [of owner] n
    unfolding RecordRetry_def Let_def at_def [symmetric] again_def [symmetric] can n_def [symmetric]
    by (auto simp: outcome word_gt_0 not_less not_le)
qed

section \<open>The language of the name pattern\<close>

definition name_segment :: "string \<Rightarrow> bool" where
  "name_segment s = (case s of [] \<Rightarrow> False | c # r \<Rightarrow> lower_char c \<and> list_all name_char r)"

lemma name_segment_Cons [simp]: "name_segment (c # r) \<longleftrightarrow> lower_char c \<and> list_all name_char r"
  by (simp add: name_segment_def)

lemma name_segmentE: "name_segment seg \<Longrightarrow> \<exists>c r. seg = c # r \<and> lower_char c \<and> list_all name_char r"
  by (cases seg) (simp_all add: name_segment_def)

abbreviation dotted_segments :: "string list \<Rightarrow> string" where
  "dotted_segments segs \<equiv> concat (map (\<lambda>seg. CHR ''.'' # seg) segs)"

lemma dot_not_name_char [simp]: "\<not> name_char CHR ''.''"
  by (simp add: name_char_def lower_char_def digit_char_def)

lemma name_rest_append: "list_all name_char w \<Longrightarrow> s = [] \<or> hd s = CHR ''.'' \<Longrightarrow> name_rest d (w @ s) = name_rest d s"
proof (induction w)
  case (Cons c w)
  then show ?case by (cases "w @ s") (auto simp: Cons.IH [symmetric])
qed simp

lemma name_rest_segments:
  assumes "list_all name_segment segs"
  shows "name_rest d (dotted_segments segs) \<longleftrightarrow> d \<or> segs \<noteq> []"
  using assms
proof (induction segs arbitrary: d)
  case (Cons seg segs)
  then obtain c r where seg: "seg = c # r" "lower_char c" "list_all name_char r"
    using name_segmentE [of seg] by auto
  have "dotted_segments segs = [] \<or> hd (dotted_segments segs) = CHR ''.''"
    by (cases segs) auto
  then show ?case using Cons seg name_rest_append [of r "dotted_segments segs" True] by simp
qed simp

lemma name_rest_split:
  "name_rest d s \<Longrightarrow> \<exists>w segs. list_all name_char w \<and> list_all name_segment segs \<and> s = w @ dotted_segments segs \<and> (d \<or> segs \<noteq> [])"
proof (induction d s rule: name_rest.induct)
  case (1 dotted)
  then show ?case by (intro exI [of _ "[]"]) simp
next
  case (2 dotted c)
  then show ?case by (intro exI [of _ "[c]"] exI [of _ "[]"]) simp
next
  case (3 dotted c e s)
  show ?case
  proof (cases "name_char c")
    case True
    with 3 obtain w segs where "list_all name_char w" "list_all name_segment segs" "e # s = w @ dotted_segments segs"
      "dotted \<or> segs \<noteq> []" by auto
    with True show ?thesis by (intro exI [of _ "c # w"] exI [of _ segs]) simp
  next
    case False
    with 3 obtain w segs where "c = CHR ''.''" "lower_char e" "list_all name_char w" "list_all name_segment segs"
      "s = w @ dotted_segments segs" by auto
    then show ?thesis by (intro exI [of _ "[] :: string"] exI [of _ "(e # w) # segs"]) simp
  qed
qed

lemma protocolNamePattern_segments:
  "protocolNamePattern s \<longleftrightarrow>
     (\<exists>seg segs. name_segment seg \<and> segs \<noteq> [] \<and> list_all name_segment segs \<and> s = seg @ dotted_segments segs)"
proof
  assume "protocolNamePattern s"
  then obtain c r where s: "s = c # r" "lower_char c" "name_rest False r"
    by (auto simp: protocolNamePattern_def split: list.splits)
  then obtain w segs where "list_all name_char w" "list_all name_segment segs" "r = w @ dotted_segments segs" "segs \<noteq> []"
    using name_rest_split [OF s(3)] by auto
  with s show "\<exists>seg segs. name_segment seg \<and> segs \<noteq> [] \<and> list_all name_segment segs \<and> s = seg @ dotted_segments segs"
    by (intro exI [of _ "c # w"] exI [of _ segs]) simp
next
  assume "\<exists>seg segs. name_segment seg \<and> segs \<noteq> [] \<and> list_all name_segment segs \<and> s = seg @ dotted_segments segs"
  then obtain seg segs where segs: "name_segment seg" "segs \<noteq> []" "list_all name_segment segs" "s = seg @ dotted_segments segs"
    by auto
  then obtain c r where s: "s = c # r @ dotted_segments segs" "lower_char c" "list_all name_char r"
    using name_segmentE [OF segs(1)] by auto
  have "dotted_segments segs = [] \<or> hd (dotted_segments segs) = CHR ''.''"
    by (cases segs) auto
  then show "protocolNamePattern s"
    using s segs name_rest_append [of r "dotted_segments segs" False] name_rest_segments [of segs False]
    by (simp add: protocolNamePattern_def)
qed

section \<open>Sequences of commands\<close>

text \<open>A command on a consumer; the reply of \<open>consumer_step\<close> is the consumer that the command returns.\<close>

datatype consumer_command =
    Acquire string go_time go_time
  | Renew string go_time go_time
  | Release string go_time
  | Ack string Sequence Sequence go_time
  | Retry string string go_time

fun command_owner :: "consumer_command \<Rightarrow> string" where
  "command_owner (Acquire owner at until) = owner"
| "command_owner (Renew owner at until) = owner"
| "command_owner (Release owner at) = owner"
| "command_owner (Ack owner expected acked at) = owner"
| "command_owner (Retry owner code at) = owner"

fun command_time :: "consumer_command \<Rightarrow> go_time" where
  "command_time (Acquire owner at until) = at"
| "command_time (Renew owner at until) = at"
| "command_time (Release owner at) = at"
| "command_time (Ack owner expected acked at) = at"
| "command_time (Retry owner code at) = at"

fun consumer_step :: "Consumer \<Rightarrow> consumer_command \<Rightarrow> outbox_error + Consumer" where
  "consumer_step c (Acquire owner at until) = map_sum id fst (AcquireLease c owner at until)"
| "consumer_step c (Renew owner at until) = map_sum id fst (RenewLease c owner at until)"
| "consumer_step c (Release owner at) = map_sum id fst (ReleaseLease c owner at)"
| "consumer_step c (Ack owner expected acked at) = map_sum id fst (Acknowledge c owner expected acked at)"
| "consumer_step c (Retry owner code at) = map_sum id fst (RecordRetry c owner code at)"

lemma map_sum_eq_Inr: "map_sum id fst m = Inr d \<longleftrightarrow> (\<exists>cas. m = Inr (d, cas))"
  by (cases m) auto

lemmas command_iffs = AcquireLease_iff RenewLease_iff ReleaseLease_iff Acknowledge_iff RecordRetry_iff

text \<open>The part of a consumer that no command changes, and the order in which the rest moves.\<close>

definition moves_on :: "Consumer \<Rightarrow> Consumer \<Rightarrow> bool" where
  "moves_on c d \<longleftrightarrow> cs_ID d = cs_ID c \<and> cs_Subscriptions d = cs_Subscriptions c \<and> cs_CreatedAt d = cs_CreatedAt c \<and>
     cs_LastAckedSequence c \<le> cs_LastAckedSequence d \<and> cs_UpdatedAt c \<le> cs_UpdatedAt d"

lemma moves_on_refl [simp]: "moves_on c c"
  by (simp add: moves_on_def)

lemma moves_on_trans: "moves_on c d \<Longrightarrow> moves_on d e \<Longrightarrow> moves_on c e"
  by (auto simp: moves_on_def intro: order_trans)

lemma RestoreConsumer_Inr: "RestoreConsumer n = Inr d \<Longrightarrow> consumer_ok d"
  by (auto simp: RestoreConsumer_iff)

lemma consumer_step_ok:
  assumes "consumer_ok c" and "consumer_step c cmd = Inr d"
  shows "consumer_ok d" and "moves_on c d"
proof -
  show "consumer_ok d"
    using assms(2) by (cases cmd) (auto simp: map_sum_eq_Inr AcquireLease_def RenewLease_def ReleaseLease_def Acknowledge_def
        RecordRetry_def Let_def outcome dest: RestoreConsumer_Inr split: if_splits)
  show "moves_on c d"
    using assms by (cases cmd) (auto simp: map_sum_eq_Inr command_iffs moves_on_def Let_def validTransitionTime_def)
qed

lemma foreign_command_rejected:
  assumes "consumer_ok c" and "cs_LeaseOwner c \<noteq> []" and "command_owner cmd \<noteq> cs_LeaseOwner c"
    and "canonicalTime (command_time cmd) < cs_LeaseUntil c"
  shows "\<exists>e. consumer_step c cmd = Inl e"
proof (cases "consumer_step c cmd")
  case (Inr d)
  with assms show ?thesis by (cases cmd) (auto simp: map_sum_eq_Inr command_iffs Let_def)
qed simp


lemma run_consumer_ok:
  assumes "consumer_ok c"
  shows "consumer_ok (run_commands consumer_step c cmds) \<and> moves_on c (run_commands consumer_step c cmds)"
  using assms
proof (induction cmds arbitrary: c)
  case (Cons cmd cmds)
  show ?case
  proof (cases "consumer_step c cmd")
    case (Inr d)
    with Cons consumer_step_ok [OF Cons.prems Inr] show ?thesis by (auto intro: moves_on_trans)
  qed (use Cons in simp)
qed simp

lemma run_foreign_commands:
  assumes "consumer_ok c" and "cs_LeaseOwner c \<noteq> []"
    and "\<forall>cmd \<in> set cmds. command_owner cmd \<noteq> cs_LeaseOwner c \<and> canonicalTime (command_time cmd) < cs_LeaseUntil c"
  shows "run_commands consumer_step c cmds = c"
  using assms(3)
proof (induction cmds)
  case (Cons cmd cmds)
  with foreign_command_rejected [OF assms(1,2), of cmd] show ?case by (auto)
qed simp

end
