(* ===== verification/OutboxStore.thy ===== *)
theory OutboxStore
  imports OutboxProps
begin

text \<open>
  The outbox tables and the repository over them (\<open>platform/persistence/postgres/outbox_repository.go\<close>, the
  statements of \<open>sqlcgen/outbox.sql.go\<close> and the unit of work of \<open>audit_outbox_unit_of_work.go\<close>).

  \<^item> A nullable column, and a \<open>pgtype\<close> value with its \<open>Valid\<close> flag, is an \<open>option\<close>. \<open>bigint\<close> and \<open>integer\<close> columns
    are \<open>int\<close>.
  \<^item> A statement is a function of the database clock (\<open>clock_timestamp()\<close>) and the tables. A statement that returns one
    row returns \<open>None\<close> for \<open>pgx.ErrNoRows\<close>, with the tables unchanged.
  \<^item> The identity value of a new event is an argument: PostgreSQL hands it out. The advisory lock in the statement
    makes identity values grow in commit order.
  \<^item> A transaction is one atomic step. That a query, the commit or the connection fails is decided by the
    environment (\<open>tx_fault\<close>), also that a commit happens although its reply is lost.
\<close>

section \<open>Tables\<close>

record OutboxConsumerRow =
  oc_ConsumerID :: string
  oc_Subscriptions :: "string list"
  oc_LastAckedSequence :: i64
  oc_LeaseOwner :: "string option"
  oc_LeaseUntil :: "go_time option"
  oc_RetryCount :: int
  oc_NextAttemptAt :: "go_time option"
  oc_LastErrorCode :: "string option"
  oc_CreatedAt :: "go_time option"
  oc_UpdatedAt :: "go_time option"

record OutboxEventRow =
  oe_EventSequence :: i64
  oe_EventID :: "uuid option"
  oe_EventType :: string
  oe_AggregateType :: string
  oe_AggregateID :: "uuid option"
  oe_Payload :: "u8 list"
  oe_CreatedAt :: "go_time option"
  oe_AvailableAt :: "go_time option"

record outbox_db =
  db_events :: "OutboxEventRow list"
  db_consumers :: "string \<Rightarrow> OutboxConsumerRow option"

definition timeToPG :: "go_time \<Rightarrow> go_time option" where
  "timeToPG value = (if value = 0 then None else Some (value - value mod 1000))"

definition textToPG :: "string \<Rightarrow> string option" where
  "textToPG value = (if value = [] then None else Some value)"

text \<open>SQL's \<open>=\<close> and \<open>>\<close> are not true on \<open>NULL\<close>; \<open>IS NOT DISTINCT FROM\<close> is equality of options.\<close>

definition sql_eq :: "'a option \<Rightarrow> 'a option \<Rightarrow> bool" where
  "sql_eq a b = (case (a, b) of (Some x, Some y) \<Rightarrow> x = y | _ \<Rightarrow> False)"

definition sql_gt :: "int option \<Rightarrow> int \<Rightarrow> bool" where
  "sql_gt a b = (case a of Some x \<Rightarrow> x > b | None \<Rightarrow> False)"

definition sql_le :: "int option \<Rightarrow> int \<Rightarrow> bool" where
  "sql_le a b = (case a of Some x \<Rightarrow> x \<le> b | None \<Rightarrow> False)"

section \<open>Rows and domain values\<close>

definition integrity :: "'a outbox_result \<Rightarrow> 'a outbox_result" where
  "integrity m = (case m of Inl _ \<Rightarrow> Inl ErrIntegrity | Inr x \<Rightarrow> Inr x)"

definition optionalLeaseOwner :: "string option \<Rightarrow> string outbox_result" where
  "optionalLeaseOwner value = (case value of None \<Rightarrow> Inr [] | Some s \<Rightarrow> ParseLeaseOwner s)"

definition optionalErrorCode :: "string option \<Rightarrow> string outbox_result" where
  "optionalErrorCode value = (case value of None \<Rightarrow> Inr [] | Some s \<Rightarrow> parseProtocolName s)"

definition optionalTime :: "go_time option \<Rightarrow> go_time" where
  "optionalTime value = (case value of None \<Rightarrow> 0 | Some t \<Rightarrow> t)"

fun parse_subscriptions :: "string list \<Rightarrow> string list outbox_result" where
  "parse_subscriptions [] = Inr []"
| "parse_subscriptions (value # rest) =
     and_then (parseProtocolName value) (\<lambda>eventType.
       and_then (parse_subscriptions rest) (\<lambda>types. Inr (eventType # types)))"

definition outboxConsumerFromRow :: "OutboxConsumerRow \<Rightarrow> Consumer outbox_result" where
  "outboxConsumerFromRow row =
     (case (oc_CreatedAt row, oc_UpdatedAt row) of
        (Some createdAt, Some updatedAt) \<Rightarrow>
          if oc_LastAckedSequence row < 0 \<or> oc_RetryCount row < 0 then Inl ErrIntegrity
          else integrity (
            and_then (parseProtocolName (oc_ConsumerID row)) (\<lambda>consumerID.
            and_then (parse_subscriptions (oc_Subscriptions row)) (\<lambda>subscriptions.
            and_then (NewSequence (oc_LastAckedSequence row)) (\<lambda>sequence.
            and_then (optionalLeaseOwner (oc_LeaseOwner row)) (\<lambda>leaseOwner.
            and_then (optionalErrorCode (oc_LastErrorCode row)) (\<lambda>errorCode.
              RestoreConsumer \<lparr>cs_ID = consumerID, cs_Subscriptions = subscriptions, cs_LastAckedSequence = sequence,
                cs_LeaseOwner = leaseOwner, cs_LeaseUntil = optionalTime (oc_LeaseUntil row),
                cs_RetryCount = word_of_int (oc_RetryCount row), cs_NextAttemptAt = optionalTime (oc_NextAttemptAt row),
                cs_LastErrorCode = errorCode, cs_CreatedAt = createdAt, cs_UpdatedAt = updatedAt\<rparr>))))))
      | _ \<Rightarrow> Inl ErrIntegrity)"

definition outboxEventFromRow :: "OutboxEventRow \<Rightarrow> EventSnapshot outbox_result" where
  "outboxEventFromRow row =
     (case (oe_EventID row, oe_AggregateID row, oe_CreatedAt row, oe_AvailableAt row) of
        (Some eventID, Some aggregateID, Some createdAt, Some availableAt) \<Rightarrow>
          if oe_EventSequence row \<le> 0 then Inl ErrIntegrity
          else integrity (
            and_then (NewSequence (oe_EventSequence row)) (\<lambda>sequence.
            and_then (parseProtocolName (oe_EventType row)) (\<lambda>eventType.
            and_then (parseProtocolName (oe_AggregateType row)) (\<lambda>aggregateType.
              RestoreEvent \<lparr>es_Sequence = sequence, es_ID = eventID, es_Type = eventType,
                es_AggregateType = aggregateType, es_AggregateID = aggregateID, es_Payload = oe_Payload row,
                es_CreatedAt = createdAt, es_AvailableAt = availableAt\<rparr>))))
      | _ \<Rightarrow> Inl ErrIntegrity)"

definition sameUnsequencedEvent :: "EventSnapshot \<Rightarrow> EventSnapshot \<Rightarrow> bool" where
  "sameUnsequencedEvent existing requested \<longleftrightarrow>
     es_ID existing = es_ID requested \<and> es_Type existing = es_Type requested \<and>
     es_AggregateType existing = es_AggregateType requested \<and> es_AggregateID existing = es_AggregateID requested \<and>
     es_Payload existing = es_Payload requested \<and> es_CreatedAt existing = es_CreatedAt requested \<and>
     es_AvailableAt existing = es_AvailableAt requested"

definition sameConsumerSnapshot :: "ConsumerSnapshot \<Rightarrow> ConsumerSnapshot \<Rightarrow> bool" where
  "sameConsumerSnapshot left right \<longleftrightarrow>
     cs_ID left = cs_ID right \<and> equalEventTypes (cs_Subscriptions left) (cs_Subscriptions right) \<and>
     cs_LastAckedSequence left = cs_LastAckedSequence right \<and> cs_LeaseOwner left = cs_LeaseOwner right \<and>
     cs_LeaseUntil left = cs_LeaseUntil right \<and> cs_RetryCount left = cs_RetryCount right \<and>
     cs_NextAttemptAt left = cs_NextAttemptAt right \<and> cs_LastErrorCode left = cs_LastErrorCode right \<and>
     cs_CreatedAt left = cs_CreatedAt right \<and> cs_UpdatedAt left = cs_UpdatedAt right"

section \<open>Statements\<close>

definition CreateOutboxConsumer ::
  "outbox_db \<Rightarrow> string \<Rightarrow> string list \<Rightarrow> i64 \<Rightarrow> go_time option \<Rightarrow> OutboxConsumerRow option \<times> outbox_db" where
  "CreateOutboxConsumer db consumerID subscriptions lastAcked createdAt =
     (case db_consumers db consumerID of
        Some _ \<Rightarrow> (None, db)
      | None \<Rightarrow>
          let row = \<lparr>oc_ConsumerID = consumerID, oc_Subscriptions = subscriptions, oc_LastAckedSequence = lastAcked,
            oc_LeaseOwner = None, oc_LeaseUntil = None, oc_RetryCount = 0, oc_NextAttemptAt = None,
            oc_LastErrorCode = None, oc_CreatedAt = createdAt, oc_UpdatedAt = createdAt\<rparr> in
          (Some row, db\<lparr>db_consumers := (db_consumers db)(consumerID := Some row)\<rparr>))"

definition GetOutboxConsumer :: "outbox_db \<Rightarrow> string \<Rightarrow> OutboxConsumerRow option" where
  "GetOutboxConsumer db consumerID = db_consumers db consumerID"

text \<open>The parameters that the five compare-and-swap statements share: the expected columns.\<close>

record cas_params =
  cp_ConsumerID :: string
  cp_ExpectedLeaseOwner :: "string option"
  cp_ExpectedLeaseUntil :: "go_time option"
  cp_ExpectedSequence :: i64
  cp_ExpectedRetryCount :: int
  cp_ExpectedNextAttemptAt :: "go_time option"
  cp_ExpectedErrorCode :: "string option"
  cp_ExpectedUpdatedAt :: "go_time option"

definition cas_common :: "cas_params \<Rightarrow> OutboxConsumerRow \<Rightarrow> bool" where
  "cas_common p row \<longleftrightarrow>
     oc_LastAckedSequence row = cp_ExpectedSequence p \<and> oc_RetryCount row = cp_ExpectedRetryCount p \<and>
     oc_NextAttemptAt row = cp_ExpectedNextAttemptAt p \<and> oc_LastErrorCode row = cp_ExpectedErrorCode p \<and>
     sql_eq (oc_UpdatedAt row) (cp_ExpectedUpdatedAt p)"

definition cas_leased :: "go_time \<Rightarrow> cas_params \<Rightarrow> OutboxConsumerRow \<Rightarrow> bool" where
  "cas_leased now p row \<longleftrightarrow>
     sql_eq (oc_LeaseOwner row) (cp_ExpectedLeaseOwner p) \<and> sql_eq (oc_LeaseUntil row) (cp_ExpectedLeaseUntil p) \<and>
     cas_common p row \<and> sql_gt (oc_LeaseUntil row) now"

text \<open>An \<open>UPDATE\<close> of the row with this key, if it has the property; \<open>RETURNING\<close> gives the new row.\<close>

definition update_consumer ::
  "outbox_db \<Rightarrow> string \<Rightarrow> (OutboxConsumerRow \<Rightarrow> bool) \<Rightarrow> (OutboxConsumerRow \<Rightarrow> OutboxConsumerRow) \<Rightarrow>
   OutboxConsumerRow option \<times> outbox_db" where
  "update_consumer db consumerID holds change =
     (case db_consumers db consumerID of
        None \<Rightarrow> (None, db)
      | Some row \<Rightarrow>
          if holds row then (Some (change row), db\<lparr>db_consumers := (db_consumers db)(consumerID := Some (change row))\<rparr>)
          else (None, db))"

definition AcquireOutboxConsumerLeaseCAS ::
  "go_time \<Rightarrow> outbox_db \<Rightarrow> cas_params \<Rightarrow> string option \<Rightarrow> go_time option \<Rightarrow> go_time option \<Rightarrow>
   OutboxConsumerRow option \<times> outbox_db" where
  "AcquireOutboxConsumerLeaseCAS now db p nextLeaseOwner nextLeaseUntil nextUpdatedAt =
     update_consumer db (cp_ConsumerID p)
       (\<lambda>row. oc_LeaseOwner row = cp_ExpectedLeaseOwner p \<and> oc_LeaseUntil row = cp_ExpectedLeaseUntil p \<and>
          cas_common p row \<and> (oc_LeaseUntil row = None \<or> sql_le (oc_LeaseUntil row) now) \<and>
          (oc_NextAttemptAt row = None \<or> sql_le (oc_NextAttemptAt row) now) \<and> sql_gt nextLeaseUntil now)
       (\<lambda>row. row\<lparr>oc_LeaseOwner := nextLeaseOwner, oc_LeaseUntil := nextLeaseUntil, oc_UpdatedAt := nextUpdatedAt\<rparr>)"

definition RenewOutboxConsumerLeaseCAS ::
  "go_time \<Rightarrow> outbox_db \<Rightarrow> cas_params \<Rightarrow> go_time option \<Rightarrow> go_time option \<Rightarrow> OutboxConsumerRow option \<times> outbox_db" where
  "RenewOutboxConsumerLeaseCAS now db p nextLeaseUntil nextUpdatedAt =
     update_consumer db (cp_ConsumerID p) (\<lambda>row. cas_leased now p row \<and> sql_gt nextLeaseUntil now)
       (\<lambda>row. row\<lparr>oc_LeaseUntil := nextLeaseUntil, oc_UpdatedAt := nextUpdatedAt\<rparr>)"

definition ReleaseOutboxConsumerLeaseCAS ::
  "go_time \<Rightarrow> outbox_db \<Rightarrow> cas_params \<Rightarrow> go_time option \<Rightarrow> OutboxConsumerRow option \<times> outbox_db" where
  "ReleaseOutboxConsumerLeaseCAS now db p releasedAt =
     update_consumer db (cp_ConsumerID p) (cas_leased now p)
       (\<lambda>row. row\<lparr>oc_LeaseOwner := None, oc_LeaseUntil := None, oc_UpdatedAt := releasedAt\<rparr>)"

definition AckOutboxConsumerOffsetCAS ::
  "go_time \<Rightarrow> outbox_db \<Rightarrow> cas_params \<Rightarrow> i64 \<Rightarrow> go_time option \<Rightarrow> OutboxConsumerRow option \<times> outbox_db" where
  "AckOutboxConsumerOffsetCAS now db p ackedSequence ackedAt =
     update_consumer db (cp_ConsumerID p)
       (\<lambda>row. cas_leased now p row \<and> ackedSequence > cp_ExpectedSequence p \<and>
          list_ex (\<lambda>event. oe_EventSequence event = ackedSequence \<and> oe_EventType event \<in> set (oc_Subscriptions row) \<and>
            sql_le (oe_AvailableAt event) now) (db_events db) \<and>
          \<not> list_ex (\<lambda>skipped. oe_EventSequence skipped > cp_ExpectedSequence p \<and>
            oe_EventSequence skipped < ackedSequence \<and> oe_EventType skipped \<in> set (oc_Subscriptions row)) (db_events db))
       (\<lambda>row. row\<lparr>oc_LastAckedSequence := ackedSequence, oc_RetryCount := 0, oc_NextAttemptAt := None,
          oc_LastErrorCode := None, oc_UpdatedAt := ackedAt\<rparr>)"

definition RecordOutboxConsumerRetryCAS ::
  "go_time \<Rightarrow> outbox_db \<Rightarrow> cas_params \<Rightarrow> int \<Rightarrow> go_time option \<Rightarrow> string option \<Rightarrow> go_time option \<Rightarrow>
   OutboxConsumerRow option \<times> outbox_db" where
  "RecordOutboxConsumerRetryCAS now db p nextRetryCount nextAttemptAt errorCode failedAt =
     update_consumer db (cp_ConsumerID p) (cas_leased now p)
       (\<lambda>row. row\<lparr>oc_RetryCount := nextRetryCount, oc_NextAttemptAt := nextAttemptAt, oc_LastErrorCode := errorCode,
          oc_UpdatedAt := failedAt\<rparr>)"

definition ListOutboxEventsForConsumer ::
  "go_time \<Rightarrow> outbox_db \<Rightarrow> string \<Rightarrow> string option \<Rightarrow> go_time option \<Rightarrow> int \<Rightarrow> OutboxEventRow list" where
  "ListOutboxEventsForConsumer now db consumerID leaseOwner readAt batchSize =
     (case db_consumers db consumerID of
        None \<Rightarrow> []
      | Some row \<Rightarrow>
          if sql_eq (oc_LeaseOwner row) leaseOwner \<and> sql_gt (oc_LeaseUntil row) now \<and>
             (oc_NextAttemptAt row = None \<or> sql_le (oc_NextAttemptAt row) now) \<and>
             (case readAt of None \<Rightarrow> False | Some t \<Rightarrow> sql_gt (oc_LeaseUntil row) t)
          then
            let candidates = take (nat batchSize) (sort_key oe_EventSequence
                  (filter (\<lambda>event. oe_EventSequence event > oc_LastAckedSequence row \<and>
                     oe_EventType event \<in> set (oc_Subscriptions row)) (db_events db))) in
            filter (\<lambda>event. sql_le (oe_AvailableAt event) now \<and>
              \<not> list_ex (\<lambda>earlier. oe_EventSequence earlier < oe_EventSequence event \<and>
                   sql_gt (oe_AvailableAt earlier) now) candidates) candidates
          else [])"

definition uuidToPG :: "uuid \<Rightarrow> uuid option" where
  "uuidToPG value = Some value"

definition CreateOutboxEvent ::
  "i64 \<Rightarrow> outbox_db \<Rightarrow> uuid option \<Rightarrow> string \<Rightarrow> string \<Rightarrow> uuid option \<Rightarrow> u8 list \<Rightarrow> go_time option \<Rightarrow> go_time option \<Rightarrow>
   OutboxEventRow option \<times> outbox_db" where
  "CreateOutboxEvent identity db eventID eventType aggregateType aggregateID payload createdAt availableAt =
     (if list_ex (\<lambda>event. oe_EventID event = eventID) (db_events db) then (None, db)
      else
        let row = \<lparr>oe_EventSequence = identity, oe_EventID = eventID, oe_EventType = eventType,
          oe_AggregateType = aggregateType, oe_AggregateID = aggregateID, oe_Payload = payload, oe_CreatedAt = createdAt,
          oe_AvailableAt = availableAt\<rparr> in
        (Some row, db\<lparr>db_events := db_events db @ [row]\<rparr>))"

definition GetOutboxEventByID :: "outbox_db \<Rightarrow> uuid option \<Rightarrow> OutboxEventRow option" where
  "GetOutboxEventByID db eventID = List.find (\<lambda>event. oe_EventID event = eventID) (db_events db)"

section \<open>The repository\<close>

definition mapOutboxQueryError :: "'a option \<Rightarrow> outbox_error \<Rightarrow> 'a outbox_result" where
  "mapOutboxQueryError row noRowsError = (case row of None \<Rightarrow> Inl noRowsError | Some r \<Rightarrow> Inr r)"

definition Events_Insert :: "i64 \<Rightarrow> outbox_db \<Rightarrow> EventSnapshot \<Rightarrow> EventSnapshot outbox_result \<times> outbox_db" where
  "Events_Insert identity db event =
     (if es_Sequence event \<noteq> 0 then (Inl ErrInvalidInput, db)
      else
        let (row, db') = CreateOutboxEvent identity db (uuidToPG (es_ID event)) (es_Type event) (es_AggregateType event)
              (uuidToPG (es_AggregateID event)) (es_Payload event) (timeToPG (es_CreatedAt event))
              (timeToPG (es_AvailableAt event)) in
        case row of
          Some r \<Rightarrow> (outboxEventFromRow r, db')
        | None \<Rightarrow>
            (and_then (mapOutboxQueryError (GetOutboxEventByID db (uuidToPG (es_ID event))) ErrNotFound) (\<lambda>existingRow.
               and_then (outboxEventFromRow existingRow) (\<lambda>existing.
                 if \<not> sameUnsequencedEvent existing event then Inl ErrAlreadyExists else Inr existing)), db'))"

definition Consumers_Get :: "outbox_db \<Rightarrow> string \<Rightarrow> Consumer outbox_result" where
  "Consumers_Get db consumerID =
     (if \<not> ConsumerID_Valid consumerID then Inl ErrInvalidInput
      else and_then (mapOutboxQueryError (GetOutboxConsumer db consumerID) ErrNotFound) outboxConsumerFromRow)"

definition Consumers_Insert :: "outbox_db \<Rightarrow> Consumer \<Rightarrow> Consumer outbox_result \<times> outbox_db" where
  "Consumers_Insert db consumer =
     (case Sequence_Int64 (cs_LastAckedSequence consumer) of
        Inl _ \<Rightarrow> (Inl ErrInvalidInput, db)
      | Inr lastAcked \<Rightarrow>
          if lastAcked \<noteq> 0 \<or> cs_LeaseOwner consumer \<noteq> [] \<or> cs_RetryCount consumer \<noteq> 0 \<or>
             cs_CreatedAt consumer \<noteq> cs_UpdatedAt consumer
          then (Inl ErrInvalidInput, db)
          else
            let (row, db') = CreateOutboxConsumer db (cs_ID consumer) (cs_Subscriptions consumer) lastAcked
                  (timeToPG (cs_CreatedAt consumer)) in
            case row of
              Some r \<Rightarrow> (outboxConsumerFromRow r, db')
            | None \<Rightarrow> (and_then (Consumers_Get db' (cs_ID consumer)) (\<lambda>existing. ResolveRegistration existing consumer), db'))"

text \<open>\<open>validateConsumerCAS\<close> returns the two snapshots and the expected offset as a \<open>bigint\<close>.\<close>

definition validateConsumerCAS ::
  "ConsumerCAS \<Rightarrow> ConsumerTransitionKind \<Rightarrow> (ConsumerSnapshot \<times> ConsumerSnapshot \<times> i64) outbox_result" where
  "validateConsumerCAS cas kind =
     (if cas_kind cas \<noteq> kind then Inl ErrInvalidInput
      else
        let expected = cas_expected cas; nextSnapshot = cas_next cas in
        case Sequence_Int64 (cs_LastAckedSequence expected) of
          Inl _ \<Rightarrow> Inl ErrInvalidInput
        | Inr expectedSequence \<Rightarrow>
            if cs_RetryCount expected > 2147483647 \<or> cs_RetryCount nextSnapshot > 2147483647 \<or>
               cs_ID expected \<noteq> cs_ID nextSnapshot \<or>
               \<not> equalEventTypes (cs_Subscriptions expected) (cs_Subscriptions nextSnapshot) \<or>
               cs_CreatedAt expected \<noteq> cs_CreatedAt nextSnapshot
            then Inl ErrInvalidInput
            else Inr (expected, nextSnapshot, expectedSequence))"

definition expected_params :: "ConsumerSnapshot \<Rightarrow> i64 \<Rightarrow> cas_params" where
  "expected_params expected expectedSequence =
     \<lparr>cp_ConsumerID = cs_ID expected, cp_ExpectedLeaseOwner = textToPG (cs_LeaseOwner expected),
       cp_ExpectedLeaseUntil = timeToPG (cs_LeaseUntil expected), cp_ExpectedSequence = expectedSequence,
       cp_ExpectedRetryCount = uint (cs_RetryCount expected),
       cp_ExpectedNextAttemptAt = timeToPG (cs_NextAttemptAt expected),
       cp_ExpectedErrorCode = textToPG (cs_LastErrorCode expected),
       cp_ExpectedUpdatedAt = timeToPG (cs_UpdatedAt expected)\<rparr>"

definition finishCAS :: "OutboxConsumerRow option \<Rightarrow> ConsumerSnapshot \<Rightarrow> Consumer outbox_result" where
  "finishCAS row expectedNext =
     and_then (mapOutboxQueryError row ErrConcurrentTransition) (\<lambda>r.
       and_then (outboxConsumerFromRow r) (\<lambda>consumer.
         if \<not> sameConsumerSnapshot consumer expectedNext then Inl ErrIntegrity else Inr consumer))"

definition AcquireLeaseCAS :: "go_time \<Rightarrow> outbox_db \<Rightarrow> ConsumerCAS \<Rightarrow> Consumer outbox_result \<times> outbox_db" where
  "AcquireLeaseCAS now db cas =
     (case validateConsumerCAS cas TransitionAcquireLease of
        Inl e \<Rightarrow> (Inl e, db)
      | Inr (expected, nextSnapshot, expectedSequence) \<Rightarrow>
          let (row, db') = AcquireOutboxConsumerLeaseCAS now db (expected_params expected expectedSequence)
                (textToPG (cs_LeaseOwner nextSnapshot)) (timeToPG (cs_LeaseUntil nextSnapshot))
                (timeToPG (cs_UpdatedAt nextSnapshot)) in
          (finishCAS row nextSnapshot, db'))"

definition RenewLeaseCAS :: "go_time \<Rightarrow> outbox_db \<Rightarrow> ConsumerCAS \<Rightarrow> Consumer outbox_result \<times> outbox_db" where
  "RenewLeaseCAS now db cas =
     (case validateConsumerCAS cas TransitionRenewLease of
        Inl e \<Rightarrow> (Inl e, db)
      | Inr (expected, nextSnapshot, expectedSequence) \<Rightarrow>
          let (row, db') = RenewOutboxConsumerLeaseCAS now db (expected_params expected expectedSequence)
                (timeToPG (cs_LeaseUntil nextSnapshot)) (timeToPG (cs_UpdatedAt nextSnapshot)) in
          (finishCAS row nextSnapshot, db'))"

definition ReleaseLeaseCAS :: "go_time \<Rightarrow> outbox_db \<Rightarrow> ConsumerCAS \<Rightarrow> Consumer outbox_result \<times> outbox_db" where
  "ReleaseLeaseCAS now db cas =
     (case validateConsumerCAS cas TransitionReleaseLease of
        Inl e \<Rightarrow> (Inl e, db)
      | Inr (expected, nextSnapshot, expectedSequence) \<Rightarrow>
          let (row, db') = ReleaseOutboxConsumerLeaseCAS now db (expected_params expected expectedSequence)
                (timeToPG (cs_UpdatedAt nextSnapshot)) in
          (finishCAS row nextSnapshot, db'))"

definition AcknowledgeCAS :: "go_time \<Rightarrow> outbox_db \<Rightarrow> ConsumerCAS \<Rightarrow> Consumer outbox_result \<times> outbox_db" where
  "AcknowledgeCAS now db cas =
     (case validateConsumerCAS cas TransitionAcknowledge of
        Inl e \<Rightarrow> (Inl e, db)
      | Inr (expected, nextSnapshot, expectedSequence) \<Rightarrow>
          (case Sequence_Int64 (cs_LastAckedSequence nextSnapshot) of
             Inl _ \<Rightarrow> (Inl ErrInvalidInput, db)
           | Inr ackedSequence \<Rightarrow>
               let (row, db') = AckOutboxConsumerOffsetCAS now db (expected_params expected expectedSequence) ackedSequence
                     (timeToPG (cs_UpdatedAt nextSnapshot)) in
               (finishCAS row nextSnapshot, db')))"

definition RecordRetryCAS :: "go_time \<Rightarrow> outbox_db \<Rightarrow> ConsumerCAS \<Rightarrow> Consumer outbox_result \<times> outbox_db" where
  "RecordRetryCAS now db cas =
     (case validateConsumerCAS cas TransitionRecordRetry of
        Inl e \<Rightarrow> (Inl e, db)
      | Inr (expected, nextSnapshot, expectedSequence) \<Rightarrow>
          let (row, db') = RecordOutboxConsumerRetryCAS now db (expected_params expected expectedSequence)
                (uint (cs_RetryCount nextSnapshot)) (timeToPG (cs_NextAttemptAt nextSnapshot))
                (textToPG (cs_LastErrorCode nextSnapshot)) (timeToPG (cs_UpdatedAt nextSnapshot)) in
          (finishCAS row nextSnapshot, db'))"

fun events_from_rows :: "OutboxEventRow list \<Rightarrow> EventSnapshot list outbox_result" where
  "events_from_rows [] = Inr []"
| "events_from_rows (row # rest) =
     and_then (outboxEventFromRow row) (\<lambda>event.
       and_then (events_from_rows rest) (\<lambda>events. Inr (event # events)))"

definition ListAvailable :: "go_time \<Rightarrow> outbox_db \<Rightarrow> EventBatch \<Rightarrow> EventSnapshot list outbox_result" where
  "ListAvailable now db batch =
     (case NewEventBatch (eb_ConsumerID batch) (eb_LeaseOwner batch) (eb_ReadAt batch) (eb_BatchSize batch) of
        Inl _ \<Rightarrow> Inl ErrInvalidInput
      | Inr validated \<Rightarrow>
          if eb_BatchSize validated > 2147483647 then Inl ErrInvalidInput
          else events_from_rows (ListOutboxEventsForConsumer now db (eb_ConsumerID validated)
                 (textToPG (eb_LeaseOwner validated)) (timeToPG (eb_ReadAt validated)) (uint (eb_BatchSize validated))))"

section \<open>The unit of work\<close>

text \<open>
  What the database does with one transaction: it commits; begin or a query fails; the commit fails; the commit
  happens but its reply is lost. A failure shows up as \<open>ErrRepositoryUnavailable\<close> (or the error of the context, which
  the callers treat alike). An error of the work rolls the transaction back.
\<close>

datatype tx_fault = TxOk | TxQueryFailed | TxCommitFailed | TxReplyLost

definition uow_Run :: "tx_fault \<Rightarrow> (outbox_db \<Rightarrow> 'a outbox_result \<times> outbox_db) \<Rightarrow> outbox_db \<Rightarrow> 'a outbox_result \<times> outbox_db" where
  "uow_Run fault work db =
     (if fault = TxQueryFailed then (Inl ErrRepositoryUnavailable, db)
      else case work db of
        (Inl e, _) \<Rightarrow> (Inl e, db)
      | (Inr x, db') \<Rightarrow>
          if fault = TxCommitFailed then (Inl ErrRepositoryUnavailable, db)
          else if fault = TxReplyLost then (Inl ErrRepositoryUnavailable, db')
          else (Inr x, db'))"

end
