(* ===== verification/Dispatcher.thy ===== *)
theory Dispatcher
  imports OutboxStore
begin

text \<open>
  The dispatchers that drain an outbox consumer: the fan-out of committed game cursors
  (\<open>apps/realtime/internal/fanout/dispatcher.go\<close>) and the delivery of membership revocations
  (\<open>apps/realtime/internal/revocation/dispatcher.go\<close>). The two files have the same pass \<open>RunOnce\<close>; they differ in
  the consumer they own and in \<open>deliver\<close>.

  \<^item> A \<open>world\<close> is what the processes share, the outbox tables and the log of deliveries that succeeded, and a counter
    of the interactions of this pass with its environment.
  \<^item> The environment is arbitrary: the process clock and the database clock at each interaction, what becomes of each
    transaction, whether the context is cancelled, and what other processes did to the tables and to the log just
    before the interaction (\<open>en_other\<close>).
  \<^item> The JSON payload of a session event is read by the parameter \<open>parse\<close> (\<open>ParseSessionNotification\<close>); whether Redis
    or the inbox of the game runtime accepts a delivery is a parameter too.
\<close>

section \<open>Configuration\<close>

record Config =
  cf_Owner :: string
  cf_LeaseDuration :: int
  cf_PollInterval :: int
  cf_BatchSize :: u32

abbreviation Millisecond :: int where "Millisecond \<equiv> 1000000"

datatype dispatch_error = ErrInvalidConfig | ErrDeliveryFailed | ErrDispatchUnavailable

text \<open>The flag stands for the four dependencies, none of which may be \<open>nil\<close>.\<close>

definition NewDispatcher :: "Config \<Rightarrow> bool \<Rightarrow> dispatch_error + Config" where
  "NewDispatcher config dependencies =
     (if \<not> LeaseOwner_Valid (cf_Owner config) \<or> cf_LeaseDuration config \<le> 0 \<or> cf_LeaseDuration config > MaximumLeaseDuration \<or>
         cf_PollInterval config < 10 * Millisecond \<or> cf_PollInterval config > 60 * Second \<or>
         cf_BatchSize config = 0 \<or> cf_BatchSize config > MaximumBatchSize \<or> \<not> dependencies
      then Inl ErrInvalidConfig
      else Inr config)"

record Result =
  re_Delivered :: u32
  re_Idle :: bool

section \<open>The environment of a pass\<close>

record world =
  w_db :: outbox_db
  w_log :: "EventSnapshot list"
  w_tick :: nat

record env =
  en_now :: "nat \<Rightarrow> go_time"
  en_dbnow :: "nat \<Rightarrow> go_time"
  en_fault :: "nat \<Rightarrow> tx_fault"
  en_cancelled :: "nat \<Rightarrow> bool"
  en_other :: "nat \<Rightarrow> outbox_db \<times> EventSnapshot list \<Rightarrow> outbox_db \<times> EventSnapshot list"

definition others :: "env \<Rightarrow> world \<Rightarrow> world" where
  "others env w = (let (db, log) = en_other env (w_tick w) (w_db w, w_log w) in w\<lparr>w_db := db, w_log := log\<rparr>)"

text \<open>\<open>unitOfWork.Run\<close> on the tables as the other processes left them.\<close>

definition transact ::
  "env \<Rightarrow> (go_time \<Rightarrow> outbox_db \<Rightarrow> 'a outbox_result \<times> outbox_db) \<Rightarrow> world \<Rightarrow> 'a outbox_result \<times> world" where
  "transact env work w =
     (let v = others env w; n = w_tick w;
          (r, db) = uow_Run (en_fault env n) (work (en_dbnow env n)) (w_db v) in
      (r, v\<lparr>w_db := db, w_tick := Suc n\<rparr>))"

section \<open>The pass\<close>

text \<open>What one dispatcher owns: its consumer, its event types and its way to deliver an event.\<close>

record dispatcher =
  di_config :: Config
  di_consumer :: string
  di_types :: "string list"
  di_deliver :: "nat \<Rightarrow> EventSnapshot \<Rightarrow> string"

definition acquire_work :: "dispatcher \<Rightarrow> go_time \<Rightarrow> Consumer \<Rightarrow> go_time \<Rightarrow> outbox_db \<Rightarrow> Consumer outbox_result \<times> outbox_db" where
  "acquire_work d now requested dbnow db =
     (case Consumers_Insert db requested of
        (Inl insertErr, db1) \<Rightarrow> (Inl insertErr, db1)
      | (Inr current, db1) \<Rightarrow>
          (case AcquireLease current (cf_Owner (di_config d)) now (now + cf_LeaseDuration (di_config d)) of
             Inl transitionErr \<Rightarrow> (Inl transitionErr, db1)
           | Inr (nextConsumer, cas) \<Rightarrow>
               (case AcquireLeaseCAS dbnow db1 cas of
                  (Inl persistErr, db2) \<Rightarrow> (Inl persistErr, db2)
                | (Inr persisted, db2) \<Rightarrow>
                    if cs_LeaseOwner persisted \<noteq> cs_LeaseOwner nextConsumer then (Inl ErrIntegrity, db2)
                    else (Inr persisted, db2))))"

definition acquire :: "dispatcher \<Rightarrow> env \<Rightarrow> world \<Rightarrow> Consumer outbox_result \<times> world" where
  "acquire d env w =
     (let now = en_now env (w_tick w) in
      case and_then (NewSubscription (di_types d)) (\<lambda>subscription. NewConsumer (di_consumer d) subscription now) of
        Inl e \<Rightarrow> (Inl e, w)
      | Inr requested \<Rightarrow> transact env (acquire_work d now requested) w)"

definition list_batch :: "dispatcher \<Rightarrow> env \<Rightarrow> world \<Rightarrow> EventSnapshot list outbox_result \<times> world" where
  "list_batch d env w =
     (case NewEventBatch (di_consumer d) (cf_Owner (di_config d)) (en_now env (w_tick w)) (cf_BatchSize (di_config d)) of
        Inl e \<Rightarrow> (Inl e, w)
      | Inr batch \<Rightarrow> transact env (\<lambda>dbnow db. (ListAvailable dbnow db batch, db)) w)"

definition acknowledge_work :: "Consumer \<Rightarrow> ConsumerCAS \<Rightarrow> go_time \<Rightarrow> outbox_db \<Rightarrow> Consumer outbox_result \<times> outbox_db" where
  "acknowledge_work nextConsumer cas dbnow db =
     (case AcknowledgeCAS dbnow db cas of
        (Inl e, db1) \<Rightarrow> (Inl e, db1)
      | (Inr persisted, db1) \<Rightarrow>
          if cs_LastAckedSequence persisted \<noteq> cs_LastAckedSequence nextConsumer then (Inl ErrIntegrity, db1)
          else (Inr persisted, db1))"

definition acknowledge :: "dispatcher \<Rightarrow> env \<Rightarrow> Consumer \<Rightarrow> EventSnapshot \<Rightarrow> world \<Rightarrow> Consumer outbox_result \<times> world" where
  "acknowledge d env consumer event w =
     (case Acknowledge consumer (cf_Owner (di_config d)) (cs_LastAckedSequence consumer) (es_Sequence event)
             (en_now env (w_tick w)) of
        Inl e \<Rightarrow> (Inl e, w)
      | Inr (nextConsumer, cas) \<Rightarrow> transact env (acknowledge_work nextConsumer cas) w)"

definition release :: "dispatcher \<Rightarrow> env \<Rightarrow> Consumer \<Rightarrow> world \<Rightarrow> unit outbox_result \<times> world" where
  "release d env consumer w =
     (case ReleaseLease consumer (cf_Owner (di_config d)) (en_now env (w_tick w)) of
        Inl e \<Rightarrow> (Inl e, w)
      | Inr (_, cas) \<Rightarrow>
          transact env (\<lambda>dbnow db. let (r, db1) = ReleaseLeaseCAS dbnow db cas in (map_sum id (\<lambda>_. ()) r, db1)) w)"

definition releaseAfterFailure :: "dispatcher \<Rightarrow> env \<Rightarrow> Consumer \<Rightarrow> world \<Rightarrow> world" where
  "releaseAfterFailure d env consumer w = snd (release d env consumer w)"

definition recordRetryAndRelease :: "dispatcher \<Rightarrow> env \<Rightarrow> Consumer \<Rightarrow> string \<Rightarrow> world \<Rightarrow> unit outbox_result \<times> world" where
  "recordRetryAndRelease d env consumer code w =
     (case RecordRetry consumer (cf_Owner (di_config d)) code (en_now env (w_tick w)) of
        Inl e \<Rightarrow> (Inl e, releaseAfterFailure d env consumer w)
      | Inr (_, cas) \<Rightarrow>
          (case transact env (\<lambda>dbnow db. RecordRetryCAS dbnow db cas) w of
             (Inl e, w1) \<Rightarrow> (Inl e, w1)
           | (Inr retried, w1) \<Rightarrow> release d env retried w1))"

text \<open>The call of \<open>deliver\<close>: a delivery that succeeds is logged.\<close>

definition deliver_event :: "dispatcher \<Rightarrow> env \<Rightarrow> EventSnapshot \<Rightarrow> world \<Rightarrow> string \<times> world" where
  "deliver_event d env event w =
     (let v = others env w; code = di_deliver d (w_tick w) event in
      (code, v\<lparr>w_log := (if code = [] then w_log v @ [event] else w_log v), w_tick := Suc (w_tick w)\<rparr>))"

type_synonym pass_outcome = "Result \<times> dispatch_error option"

fun deliver_loop :: "dispatcher \<Rightarrow> env \<Rightarrow> EventSnapshot list \<Rightarrow> Consumer \<Rightarrow> Result \<Rightarrow> world \<Rightarrow> pass_outcome \<times> world" where
  "deliver_loop d env [] consumer result w =
     (case release d env consumer w of
        (Inl _, w1) \<Rightarrow> ((result, Some ErrDispatchUnavailable), w1)
      | (Inr _, w1) \<Rightarrow> ((result, None), w1))"
| "deliver_loop d env (event # rest) consumer result w =
     (case deliver_event d env event w of
        (failureCode, w1) \<Rightarrow>
          if failureCode \<noteq> [] then
            (if en_cancelled env (w_tick w1) then
               ((result, Some ErrDispatchUnavailable), releaseAfterFailure d env consumer w1)
             else case recordRetryAndRelease d env consumer failureCode w1 of
               (Inl _, w2) \<Rightarrow> ((result, Some ErrDispatchUnavailable), w2)
             | (Inr _, w2) \<Rightarrow> ((result, Some ErrDeliveryFailed), w2))
          else (case acknowledge d env consumer event w1 of
             (Inl _, w2) \<Rightarrow> ((result, Some ErrDispatchUnavailable), releaseAfterFailure d env consumer w2)
           | (Inr acknowledged, w2) \<Rightarrow>
               deliver_loop d env rest acknowledged (result\<lparr>re_Delivered := re_Delivered result + 1\<rparr>) w2))"

abbreviation no_result :: Result where "no_result \<equiv> \<lparr>re_Delivered = 0, re_Idle = False\<rparr>"

definition RunOnce :: "dispatcher \<Rightarrow> env \<Rightarrow> world \<Rightarrow> pass_outcome \<times> world" where
  "RunOnce d env w =
     (case acquire d env w of
        (Inl e, w1) \<Rightarrow>
          (if e \<in> {ErrLeaseUnavailable, ErrBackoffActive, ErrConcurrentTransition}
           then ((no_result\<lparr>re_Idle := True\<rparr>, None), w1)
           else ((no_result, Some ErrDispatchUnavailable), w1))
      | (Inr consumer, w1) \<Rightarrow>
          (case list_batch d env w1 of
             (Inl _, w2) \<Rightarrow> ((no_result, Some ErrDispatchUnavailable), releaseAfterFailure d env consumer w2)
           | (Inr events, w2) \<Rightarrow>
               if events = [] then
                 (case release d env consumer w2 of
                    (Inl _, w3) \<Rightarrow> ((no_result, Some ErrDispatchUnavailable), w3)
                  | (Inr _, w3) \<Rightarrow> ((no_result\<lparr>re_Idle := True\<rparr>, None), w3))
               else deliver_loop d env events consumer no_result w2))"

section \<open>The two dispatchers\<close>

definition ConsumerIDGameSessionFanout :: string where "ConsumerIDGameSessionFanout = ''realtime.game_fanout''"
definition ConsumerIDRoomParticipantRevocation :: string where
  "ConsumerIDRoomParticipantRevocation = ''realtime.room_participant_revocation''"

definition GameSessionAggregateType :: string where "GameSessionAggregateType = ''game.session''"
definition RoomSessionAggregateType :: string where "RoomSessionAggregateType = ''room.session''"
definition ParticipantRevokedEventType :: string where "ParticipantRevokedEventType = ''room.participant.revoked.v1''"

definition sessionSubscription :: "string list" where
  "sessionSubscription =
     [''game.session.created.v1'', ''game.session.transitioned.v1'', ''game.session.suspended.v1'',
      ''game.session.resumed.v1'', ''game.session.cancelled.v1'']"

definition ErrorFanoutIntegrity :: string where "ErrorFanoutIntegrity = ''realtime.fanout_integrity''"
definition ErrorRedisUnavailable :: string where "ErrorRedisUnavailable = ''realtime.fanout_redis_unavailable''"
definition ErrorRevocationIntegrity :: string where "ErrorRevocationIntegrity = ''realtime.revocation_integrity''"
definition ErrorUnavailable :: string where "ErrorUnavailable = ''realtime.revocation_unavailable''"

record SessionNotification =
  sn_SessionID :: uuid
  sn_StateVersion :: u64

definition fanout_deliver ::
  "(u8 list \<Rightarrow> SessionNotification option) \<Rightarrow> (nat \<Rightarrow> SessionNotification \<Rightarrow> bool) \<Rightarrow> nat \<Rightarrow> EventSnapshot \<Rightarrow> string" where
  "fanout_deliver parse publish n snapshot =
     (case NewSubscription sessionSubscription of
        Inl _ \<Rightarrow> ErrorFanoutIntegrity
      | Inr subscription \<Rightarrow>
          if \<not> Subscription_Contains subscription (es_Type snapshot) \<or> es_AggregateType snapshot \<noteq> GameSessionAggregateType
          then ErrorFanoutIntegrity
          else case parse (es_Payload snapshot) of
            None \<Rightarrow> ErrorFanoutIntegrity
          | Some notification \<Rightarrow>
              if sn_SessionID notification \<noteq> es_AggregateID snapshot then ErrorFanoutIntegrity
              else if \<not> publish n notification then ErrorRedisUnavailable
              else [])"

text \<open>\<open>inbox.Consume\<close>: done, refused for one of the four integrity errors, or failed otherwise.\<close>

datatype consume_answer = Consumed | ConsumeIntegrity | ConsumeFailed

definition revocation_deliver :: "(nat \<Rightarrow> EventSnapshot \<Rightarrow> consume_answer) \<Rightarrow> nat \<Rightarrow> EventSnapshot \<Rightarrow> string" where
  "revocation_deliver consume n snapshot =
     (if es_Type snapshot \<noteq> ParticipantRevokedEventType \<or> es_AggregateType snapshot \<noteq> RoomSessionAggregateType
      then ErrorRevocationIntegrity
      else case consume n snapshot of
        Consumed \<Rightarrow> []
      | ConsumeIntegrity \<Rightarrow> ErrorRevocationIntegrity
      | ConsumeFailed \<Rightarrow> ErrorUnavailable)"

definition fanout :: "Config \<Rightarrow> (u8 list \<Rightarrow> SessionNotification option) \<Rightarrow> (nat \<Rightarrow> SessionNotification \<Rightarrow> bool) \<Rightarrow> dispatcher" where
  "fanout config parse publish =
     \<lparr>di_config = config, di_consumer = ConsumerIDGameSessionFanout, di_types = sessionSubscription,
       di_deliver = fanout_deliver parse publish\<rparr>"

definition revocation :: "Config \<Rightarrow> (nat \<Rightarrow> EventSnapshot \<Rightarrow> consume_answer) \<Rightarrow> dispatcher" where
  "revocation config consume =
     \<lparr>di_config = config, di_consumer = ConsumerIDRoomParticipantRevocation, di_types = [ParticipantRevokedEventType],
       di_deliver = revocation_deliver consume\<rparr>"

end
