(* ===== verification/DispatcherProps.thy ===== *)
theory DispatcherProps
  imports Dispatcher
begin

text \<open>
  Safety of a pass under interference, in the style of rely and guarantee: \<open>outbox_inv\<close> relates the offset of a
  consumer to the log of deliveries, \<open>others_ok\<close> is what a pass relies on, \<open>safe_move\<close> what it guarantees.
\<close>

section \<open>What a statement leaves alone\<close>

lemma update_consumer_cases:
  assumes "update_consumer db key holds change = (r, db')"
  obtains "r = None" "db' = db"
  | row where "db_consumers db key = Some row" "holds row" "r = Some (change row)"
      "db' = db\<lparr>db_consumers := (db_consumers db)(key := Some (change row))\<rparr>"
  using assms by (auto simp: update_consumer_def split: option.splits if_splits)

text \<open>The same events, the same consumers with the same subscriptions and offsets.\<close>

definition same_progress :: "outbox_db \<Rightarrow> outbox_db \<Rightarrow> bool" where
  "same_progress db db' \<longleftrightarrow> db_events db' = db_events db \<and>
     (\<forall>key. rel_option (\<lambda>r s. oc_Subscriptions s = oc_Subscriptions r \<and> oc_LastAckedSequence s = oc_LastAckedSequence r)
        (db_consumers db key) (db_consumers db' key))"

lemma same_progress_refl [simp]: "same_progress db db"
  by (auto simp: same_progress_def intro: option.rel_refl)

lemma update_consumer_same_progress:
  assumes "update_consumer db key holds change = (r, db')"
    and "\<And>row. oc_Subscriptions (change row) = oc_Subscriptions row"
    and "\<And>row. oc_LastAckedSequence (change row) = oc_LastAckedSequence row"
  shows "same_progress db db'"
  using assms(1)
proof (rule update_consumer_cases)
qed (auto simp: same_progress_def assms(2,3) intro: option.rel_refl)

lemma lease_CAS_same_progress:
  "AcquireLeaseCAS now db cas = (r, db') \<Longrightarrow> same_progress db db'"
  "ReleaseLeaseCAS now db cas = (r, db') \<Longrightarrow> same_progress db db'"
  "RenewLeaseCAS now db cas = (r, db') \<Longrightarrow> same_progress db db'"
  "RecordRetryCAS now db cas = (r, db') \<Longrightarrow> same_progress db db'"
  by (auto simp: AcquireLeaseCAS_def ReleaseLeaseCAS_def RenewLeaseCAS_def RecordRetryCAS_def AcquireOutboxConsumerLeaseCAS_def
      ReleaseOutboxConsumerLeaseCAS_def RenewOutboxConsumerLeaseCAS_def RecordOutboxConsumerRetryCAS_def
      split: sum.splits prod.splits elim!: update_consumer_same_progress)

section \<open>The invariant\<close>

definition event_table_ok :: "outbox_db \<Rightarrow> bool" where
  "event_table_ok db \<longleftrightarrow> sorted_wrt (<) (map oe_EventSequence (db_events db)) \<and>
     (\<forall>ev \<in> set (db_events db). 0 < oe_EventSequence ev \<and> oe_EventSequence ev \<le> MaxInt64 \<and> oe_AvailableAt ev \<noteq> None)"

definition delivered :: "EventSnapshot list \<Rightarrow> OutboxEventRow \<Rightarrow> bool" where
  "delivered log ev \<longleftrightarrow> (\<exists>e \<in> set log. outboxEventFromRow ev = Inr e)"

definition subscribed :: "dispatcher \<Rightarrow> OutboxEventRow \<Rightarrow> bool" where
  "subscribed d ev \<longleftrightarrow> oe_EventType ev \<in> set (di_types d)"

definition offset_ok :: "dispatcher \<Rightarrow> outbox_db \<Rightarrow> EventSnapshot list \<Rightarrow> bool" where
  "offset_ok d db log \<longleftrightarrow>
     (\<forall>row. db_consumers db (di_consumer d) = Some row \<longrightarrow>
        set (oc_Subscriptions row) = set (di_types d) \<and> 0 \<le> oc_LastAckedSequence row \<and>
        (oc_LastAckedSequence row = 0 \<or> (\<exists>ev \<in> set (db_events db). oe_EventSequence ev = oc_LastAckedSequence row)) \<and>
        (\<forall>ev \<in> set (db_events db). subscribed d ev \<longrightarrow> oe_EventSequence ev \<le> oc_LastAckedSequence row \<longrightarrow> delivered log ev))"

definition log_ok :: "dispatcher \<Rightarrow> outbox_db \<Rightarrow> EventSnapshot list \<Rightarrow> bool" where
  "log_ok d db log \<longleftrightarrow>
     (\<forall>before e after. log = before @ e # after \<longrightarrow>
        (\<exists>ev \<in> set (db_events db). subscribed d ev \<and> outboxEventFromRow ev = Inr e) \<and>
        (\<forall>ev \<in> set (db_events db). subscribed d ev \<longrightarrow> oe_EventSequence ev < sint (es_Sequence e) \<longrightarrow> delivered before ev))"

definition outbox_inv :: "dispatcher \<Rightarrow> outbox_db \<Rightarrow> EventSnapshot list \<Rightarrow> bool" where
  "outbox_inv d db log \<longleftrightarrow> event_table_ok db \<and> offset_ok d db log \<and> log_ok d db log"

text \<open>Events and deliveries are only appended.\<close>

definition advances :: "outbox_db \<times> EventSnapshot list \<Rightarrow> outbox_db \<times> EventSnapshot list \<Rightarrow> bool" where
  "advances s t \<longleftrightarrow> (\<exists>evs. db_events (fst t) = db_events (fst s) @ evs) \<and> (\<exists>es. snd t = snd s @ es)"

lemma advances_refl [simp]: "advances s s"
  by (simp add: advances_def)

lemma advances_trans: "advances s t \<Longrightarrow> advances t u \<Longrightarrow> advances s u"
  by (auto simp: advances_def)

lemma delivered_mono: "delivered log ev \<Longrightarrow> set log \<subseteq> set log' \<Longrightarrow> delivered log' ev"
  by (auto simp: delivered_def)

lemma delivered_append [simp]: "delivered (xs @ ys) ev \<longleftrightarrow> delivered xs ev \<or> delivered ys ev"
  by (auto simp: delivered_def)

lemma delivered_Cons [simp]: "delivered (e # ys) ev \<longleftrightarrow> outboxEventFromRow ev = Inr e \<or> delivered ys ev"
  by (auto simp: delivered_def)

lemma delivered_Nil [simp]: "\<not> delivered [] ev"
  by (simp add: delivered_def)

lemma event_seq_unique:
  assumes "event_table_ok db" and "ev \<in> set (db_events db)" and "ev' \<in> set (db_events db)"
    and "oe_EventSequence ev = oe_EventSequence ev'"
  shows "ev = ev'"
proof -
  have "distinct (map oe_EventSequence (db_events db))"
    using assms(1) strict_sorted_iff by (auto simp: event_table_ok_def)
  then show ?thesis using assms(2-4) by (auto simp: distinct_map dest: inj_onD)
qed

lemma sint_word_of_int_u64: "0 \<le> x \<Longrightarrow> x \<le> MaxInt64 \<Longrightarrow> sint (word_of_int x :: u64) = x"
  by (simp add: MaxInt64_def sint_sbintrunc' signed_take_bit_int_eq_self)

lemma event_from_row_seq:
  assumes "outboxEventFromRow ev = Inr e" and "oe_EventSequence ev \<le> MaxInt64"
  shows "sint (es_Sequence e) = oe_EventSequence ev" and "es_Type e = oe_EventType ev" and "Sequence_Valid (es_Sequence e)"
proof -
  obtain "oe_EventSequence ev > 0" "es_Sequence e = word_of_int (oe_EventSequence ev)" "es_Type e = oe_EventType ev"
    "Sequence_Valid (es_Sequence e)"
    using assms(1)
    by (auto simp: outboxEventFromRow_def integrity_def and_then_def NewSequence_def parseProtocolName_def RestoreEvent_def
        restoreEvent_def Let_def split: option.splits if_splits sum.splits)
  then show "sint (es_Sequence e) = oe_EventSequence ev" "es_Type e = oe_EventType ev" "Sequence_Valid (es_Sequence e)"
    using assms(2) by (simp_all add: sint_word_of_int_u64)
qed

lemma event_table_ok_events: "db_events db' = db_events db \<Longrightarrow> event_table_ok db' = event_table_ok db"
  by (simp add: event_table_ok_def)

lemma log_ok_events: "db_events db' = db_events db \<Longrightarrow> log_ok d db' log = log_ok d db log"
  by (simp only: log_ok_def)

lemma outbox_inv_events:
  "db_events db' = db_events db \<Longrightarrow> outbox_inv d db log \<Longrightarrow> offset_ok d db' log \<Longrightarrow> outbox_inv d db' log"
  unfolding outbox_inv_def using event_table_ok_events [of db' db] log_ok_events [of db' db] by blast

lemma same_progressD:
  assumes "same_progress db db'" and "db_consumers db' key = Some row"
  obtains r where "db_consumers db key = Some r" "oc_Subscriptions row = oc_Subscriptions r"
    "oc_LastAckedSequence row = oc_LastAckedSequence r"
proof -
  have "rel_option (\<lambda>r s. oc_Subscriptions s = oc_Subscriptions r \<and> oc_LastAckedSequence s = oc_LastAckedSequence r)
    (db_consumers db key) (Some row)"
    using assms(1) unfolding same_progress_def assms(2) [symmetric] by blast
  then show ?thesis using that by (cases "db_consumers db key") auto
qed

lemma same_progress_offset_ok:
  assumes "same_progress db db'" and "offset_ok d db log"
  shows "offset_ok d db' log"
proof -
  have ev: "db_events db' = db_events db" using assms(1) by (simp add: same_progress_def)
  show ?thesis
    unfolding offset_ok_def ev
  proof (intro allI impI)
    fix row assume "db_consumers db' (di_consumer d) = Some row"
    then obtain r where "db_consumers db (di_consumer d) = Some r" "oc_Subscriptions row = oc_Subscriptions r"
      "oc_LastAckedSequence row = oc_LastAckedSequence r"
      using same_progressD [OF assms(1)] by blast
    then show "set (oc_Subscriptions row) = set (di_types d) \<and> 0 \<le> oc_LastAckedSequence row \<and>
        (oc_LastAckedSequence row = 0 \<or> (\<exists>ev \<in> set (db_events db). oe_EventSequence ev = oc_LastAckedSequence row)) \<and>
        (\<forall>ev \<in> set (db_events db). subscribed d ev \<longrightarrow> oe_EventSequence ev \<le> oc_LastAckedSequence row \<longrightarrow> delivered log ev)"
      using assms(2) by (simp add: offset_ok_def)
  qed
qed

lemma same_progress_inv:
  assumes "same_progress db db'" and "outbox_inv d db log"
  shows "outbox_inv d db' log" and "advances (db, log) (db', log)"
proof -
  have ev: "db_events db' = db_events db" using assms(1) by (simp add: same_progress_def)
  from assms(2) have "offset_ok d db log" by (simp add: outbox_inv_def)
  with same_progress_offset_ok [OF assms(1)] show "outbox_inv d db' log" by (intro outbox_inv_events [OF ev assms(2)])
  show "advances (db, log) (db', log)" by (simp add: advances_def ev)
qed


section \<open>The transactions of a pass\<close>

text \<open>Registering the consumer: the row of a new consumer starts at offset zero.\<close>

lemma Consumers_Insert_inv:
  assumes "Consumers_Insert db requested = (r, db')" and "outbox_inv d db log"
    and "cs_ID requested = di_consumer d" and "set (cs_Subscriptions requested) = set (di_types d)"
  shows "outbox_inv d db' log" and "db_events db' = db_events db"
proof -
  have new: "db' = db \<or> (\<exists>row. db' = db\<lparr>db_consumers := (db_consumers db)(di_consumer d := Some row)\<rparr> \<and>
    oc_LastAckedSequence row = 0 \<and> oc_Subscriptions row = cs_Subscriptions requested)"
    using assms(1,3) by (auto simp: Consumers_Insert_def CreateOutboxConsumer_def Let_def split: sum.splits if_splits option.splits)
  then show ev: "db_events db' = db_events db" by auto
  have pos: "\<not> oe_EventSequence ev \<le> 0" if "ev \<in> set (db_events db)" for ev
    using assms(2) that by (auto simp: outbox_inv_def event_table_ok_def)
  have "offset_ok d db log" using assms(2) by (simp add: outbox_inv_def)
  then have "offset_ok d db' log"
    using new assms(4) pos by (auto simp: offset_ok_def)
  then show "outbox_inv d db' log" by (rule outbox_inv_events [OF ev assms(2)])
qed

lemma acquire_work_inv:
  assumes "acquire_work d now requested dbnow db = (r, db')" and "outbox_inv d db log"
    and "cs_ID requested = di_consumer d" and "set (cs_Subscriptions requested) = set (di_types d)"
  shows "outbox_inv d db' log" and "db_events db' = db_events db"
proof -
  obtain r1 db1 where ins: "Consumers_Insert db requested = (r1, db1)" by force
  note ok = Consumers_Insert_inv [OF ins assms(2-4)]
  have same: "same_progress db1 db'"
    using assms(1) ins by (auto simp: acquire_work_def split: sum.splits prod.splits if_splits dest: lease_CAS_same_progress(1))
  show "outbox_inv d db' log" by (rule same_progress_inv(1) [OF same ok(1)])
  show "db_events db' = db_events db" using same ok(2) by (simp add: same_progress_def)
qed

lemma Sequence_Int64_iff [outcome]: "Sequence_Int64 s = Inr x \<longleftrightarrow> Sequence_Valid s \<and> x = sint s"
  by (auto simp: Sequence_Int64_def)

text \<open>Acknowledging an event that is in the log.\<close>

lemma log_row:
  assumes "outbox_inv d db log" and "e \<in> set log" and "ev \<in> set (db_events db)" and "oe_EventSequence ev = sint (es_Sequence e)"
  shows "delivered log ev"
proof -
  obtain before after where "log = before @ e # after" using assms(2) by (auto simp: in_set_conv_decomp)
  then obtain ev' where ev': "ev' \<in> set (db_events db)" "outboxEventFromRow ev' = Inr e"
    using assms(1) unfolding outbox_inv_def log_ok_def by blast
  have "oe_EventSequence ev' = sint (es_Sequence e)"
    using assms(1) ev' event_from_row_seq(1) [OF ev'(2)] by (auto simp: outbox_inv_def event_table_ok_def)
  then have "ev' = ev" using assms(1,4) by (intro event_seq_unique [OF _ ev'(1) assms(3)]) (simp_all add: outbox_inv_def)
  with ev'(2) assms(2) show ?thesis by (auto simp: delivered_def)
qed

lemma AckOutboxConsumerOffsetCAS_inv:
  assumes "AckOutboxConsumerOffsetCAS dbnow db p s at = (r, db')" and "outbox_inv d db log"
    and "e \<in> set log" and s: "s = sint (es_Sequence e)"
  shows "outbox_inv d db' log" and "db_events db' = db_events db"
proof -
  have off: "offset_ok d db log" using assms(2) by (simp add: outbox_inv_def)
  have "offset_ok d db' log \<and> db_events db' = db_events db"
    using assms(1) unfolding AckOutboxConsumerOffsetCAS_def
  proof (rule update_consumer_cases)
    fix row :: OutboxConsumerRow
    assume row: "db_consumers db (cp_ConsumerID p) = Some row"
      and db': "db' = db\<lparr>db_consumers := (db_consumers db)(cp_ConsumerID p \<mapsto> row\<lparr>oc_LastAckedSequence := s,
        oc_RetryCount := 0, oc_NextAttemptAt := None, oc_LastErrorCode := None, oc_UpdatedAt := at\<rparr>)\<rparr>"
      and holds: "cas_leased dbnow p row \<and> cp_ExpectedSequence p < s \<and>
        list_ex (\<lambda>event. oe_EventSequence event = s \<and> oe_EventType event \<in> set (oc_Subscriptions row) \<and>
          sql_le (oe_AvailableAt event) dbnow) (db_events db) \<and>
        \<not> list_ex (\<lambda>skipped. cp_ExpectedSequence p < oe_EventSequence skipped \<and> oe_EventSequence skipped < s \<and>
          oe_EventType skipped \<in> set (oc_Subscriptions row)) (db_events db)"
    have seq: "oc_LastAckedSequence row = cp_ExpectedSequence p" using holds by (simp add: cas_leased_def cas_common_def)
    have "\<exists>ev \<in> set (db_events db). oe_EventSequence ev = s" using holds by (auto simp: list_ex_iff)
    moreover have "delivered log ev"
      if "cp_ConsumerID p = di_consumer d" "ev \<in> set (db_events db)" "subscribed d ev" "oe_EventSequence ev \<le> s" for ev
    proof -
      have subs: "oe_EventType ev \<in> set (oc_Subscriptions row)"
        using off row that by (simp add: offset_ok_def subscribed_def)
      have "oe_EventSequence ev \<le> oc_LastAckedSequence row \<or> oe_EventSequence ev = s"
        using holds subs that(2,4) seq by (fastforce simp: list_ex_iff)
      then show ?thesis
        using off row that log_row [OF assms(2,3) that(2)] by (auto simp: offset_ok_def s)
    qed
    ultimately show ?thesis using off row holds seq unfolding db' by (auto simp: offset_ok_def)
  qed (use off in simp)
  then show "outbox_inv d db' log" "db_events db' = db_events db"
    using outbox_inv_events [OF _ assms(2)] by blast+
qed

lemma AcknowledgeCAS_inv:
  assumes "AcknowledgeCAS dbnow db cas = (r, db')" and "outbox_inv d db log"
    and "cs_LastAckedSequence (cas_next cas) = es_Sequence e" and "e \<in> set log"
  shows "outbox_inv d db' log" and "db_events db' = db_events db"
proof -
  have "db' = db \<or> (\<exists>p at row. AckOutboxConsumerOffsetCAS dbnow db p (sint (es_Sequence e)) at = (row, db'))"
    using assms(1,3) by (auto simp: AcknowledgeCAS_def validateConsumerCAS_def outcome Let_def
        split: sum.splits prod.splits if_splits)
  then have "outbox_inv d db' log \<and> db_events db' = db_events db"
    using AckOutboxConsumerOffsetCAS_inv [OF _ assms(2,4) refl] assms(2) by blast
  then show "outbox_inv d db' log" "db_events db' = db_events db" by simp_all
qed


section \<open>The batch\<close>

text \<open>A batch that may be delivered in this order: whatever an event must wait for is in the log or before it.\<close>

definition batch_ready :: "dispatcher \<Rightarrow> outbox_db \<Rightarrow> EventSnapshot list \<Rightarrow> EventSnapshot list \<Rightarrow> bool" where
  "batch_ready d db log es \<longleftrightarrow>
     (\<forall>before e after. es = before @ e # after \<longrightarrow>
        (\<exists>ev \<in> set (db_events db). subscribed d ev \<and> outboxEventFromRow ev = Inr e) \<and>
        (\<forall>ev \<in> set (db_events db). subscribed d ev \<longrightarrow> oe_EventSequence ev < sint (es_Sequence e) \<longrightarrow>
           delivered log ev \<or> delivered before ev))"

lemma batch_ready_Nil [simp]: "batch_ready d db log []"
  by (simp add: batch_ready_def)

lemma batch_readyD:
  assumes "batch_ready d db log (before @ e # after)"
  shows "\<exists>ev \<in> set (db_events db). subscribed d ev \<and> outboxEventFromRow ev = Inr e"
    and "ev \<in> set (db_events db) \<Longrightarrow> subscribed d ev \<Longrightarrow> oe_EventSequence ev < sint (es_Sequence e) \<Longrightarrow>
      delivered log ev \<or> delivered before ev"
  using assms unfolding batch_ready_def by blast+

lemma batch_ready_tail:
  assumes "batch_ready d db log (e # es)"
  shows "batch_ready d db (log @ [e]) es"
  unfolding batch_ready_def
proof (intro allI impI)
  fix before x after assume es: "es = before @ x # after"
  have ready: "batch_ready d db log ((e # before) @ x # after)" using assms es by simp
  show "(\<exists>ev \<in> set (db_events db). subscribed d ev \<and> outboxEventFromRow ev = Inr x) \<and>
    (\<forall>ev \<in> set (db_events db). subscribed d ev \<longrightarrow> oe_EventSequence ev < sint (es_Sequence x) \<longrightarrow>
       delivered (log @ [e]) ev \<or> delivered before ev)"
    using batch_readyD [OF ready] by auto
qed

lemma log_ok_snoc:
  assumes "log_ok d db log" and "batch_ready d db log (e # es)"
  shows "log_ok d db (log @ [e])"
  unfolding log_ok_def
proof (intro allI impI)
  fix before x after assume split: "log @ [e] = before @ x # after"
  have ready: "batch_ready d db log ([] @ e # es)" using assms(2) by simp
  show "(\<exists>ev \<in> set (db_events db). subscribed d ev \<and> outboxEventFromRow ev = Inr x) \<and>
    (\<forall>ev \<in> set (db_events db). subscribed d ev \<longrightarrow> oe_EventSequence ev < sint (es_Sequence x) \<longrightarrow> delivered before ev)"
  proof (cases after rule: rev_cases)
    case Nil
    with split batch_readyD [OF ready] show ?thesis by auto
  next
    case (snoc front last)
    with split have "log = before @ x # front" by simp
    with assms(1) show ?thesis unfolding log_ok_def by blast
  qed
qed

text \<open>Events that arrive later have higher numbers, so a batch stays ready.\<close>

lemma appended_event_later:
  assumes "event_table_ok db'" and "db_events db' = evs @ new" and "ev \<in> set evs" and "ev' \<in> set new"
  shows "oe_EventSequence ev < oe_EventSequence ev'"
  using assms by (auto simp: event_table_ok_def sorted_wrt_append)

lemma batch_ready_advances:
  assumes "event_table_ok db'" and "advances (db, log) (db', log')" and "batch_ready d db log es"
  shows "batch_ready d db' log' es"
  unfolding batch_ready_def
proof (intro allI impI)
  fix before e after assume "es = before @ e # after"
  then have ready: "batch_ready d db log (before @ e # after)" using assms(3) by simp
  obtain new added where new: "db_events db' = db_events db @ new" "log' = log @ added"
    using assms(2) by (auto simp: advances_def)
  obtain row where row: "row \<in> set (db_events db)" "subscribed d row" "outboxEventFromRow row = Inr e"
    using batch_readyD(1) [OF ready] by blast
  have "row \<in> set (db_events db')" using row(1) new(1) by simp
  then have seq: "sint (es_Sequence e) = oe_EventSequence row"
    using event_from_row_seq(1) [OF row(3)] assms(1) by (simp add: event_table_ok_def)
  have "delivered log' ev \<or> delivered before ev"
    if ev: "ev \<in> set (db_events db')" "subscribed d ev" "oe_EventSequence ev < sint (es_Sequence e)" for ev
  proof -
    have "ev \<notin> set new" using appended_event_later [OF assms(1) new(1) row(1)] ev(3) seq by fastforce
    then have "ev \<in> set (db_events db)" using ev(1) new(1) by simp
    then show ?thesis using batch_readyD(2) [OF ready _ ev(2,3)] new(2) by auto
  qed
  moreover have "\<exists>ev \<in> set (db_events db'). subscribed d ev \<and> outboxEventFromRow ev = Inr e"
    using row new(1) by auto
  ultimately show "(\<exists>ev \<in> set (db_events db'). subscribed d ev \<and> outboxEventFromRow ev = Inr e) \<and>
    (\<forall>ev \<in> set (db_events db'). subscribed d ev \<longrightarrow> oe_EventSequence ev < sint (es_Sequence e) \<longrightarrow>
       delivered log' ev \<or> delivered before ev)" by blast
qed

lemma events_from_rows_iff:
  "events_from_rows rows = Inr es \<longleftrightarrow> list_all2 (\<lambda>row e. outboxEventFromRow row = Inr e) rows es"
  by (induction rows arbitrary: es) (auto simp: outcome list_all2_Cons1)

lemma rows_batch_ready:
  assumes "event_table_ok db" and "sorted_wrt (<) (map oe_EventSequence rows)"
    and "\<forall>row \<in> set rows. row \<in> set (db_events db) \<and> subscribed d row"
    and closed: "\<And>row ev. row \<in> set rows \<Longrightarrow> ev \<in> set (db_events db) \<Longrightarrow> subscribed d ev \<Longrightarrow>
      oe_EventSequence ev < oe_EventSequence row \<Longrightarrow> delivered log ev \<or> ev \<in> set rows"
    and "events_from_rows rows = Inr es"
  shows "batch_ready d db log es"
  unfolding batch_ready_def
proof (intro allI impI)
  fix before e after assume "es = before @ e # after"
  then obtain rb row ra where rows: "rows = rb @ row # ra"
    and rb: "list_all2 (\<lambda>row e. outboxEventFromRow row = Inr e) rb before" and e: "outboxEventFromRow row = Inr e"
    using assms(5) by (auto simp: events_from_rows_iff list_all2_append2 list_all2_Cons2)
  have row: "row \<in> set (db_events db)" "subscribed d row" using assms(3) rows by auto
  have seq: "sint (es_Sequence e) = oe_EventSequence row"
    using event_from_row_seq(1) [OF e] assms(1) row(1) by (simp add: event_table_ok_def)
  have "delivered log ev \<or> delivered before ev"
    if ev: "ev \<in> set (db_events db)" "subscribed d ev" "oe_EventSequence ev < sint (es_Sequence e)" for ev
  proof (cases "delivered log ev")
    case False
    then have "ev \<in> set rows" using closed [of row ev] ev seq rows by auto
    moreover have "ev \<notin> set (row # ra)" using assms(2) rows ev(3) seq by (auto simp: sorted_wrt_append)
    ultimately have "ev \<in> set rb" using rows by auto
    then show ?thesis using rb by (auto simp: delivered_def list_all2_conv_all_nth in_set_conv_nth)
  qed simp
  with row e show "(\<exists>ev \<in> set (db_events db). subscribed d ev \<and> outboxEventFromRow ev = Inr e) \<and>
    (\<forall>ev \<in> set (db_events db). subscribed d ev \<longrightarrow> oe_EventSequence ev < sint (es_Sequence e) \<longrightarrow>
       delivered log ev \<or> delivered before ev)" by blast
qed


lemma take_filter_closed:
  assumes "sorted_wrt (<) (map f xs)" and "x \<in> set (take n xs)" and "y \<in> set xs" and "f y < (f x :: int)"
  shows "y \<in> set (take n xs)"
proof (rule ccontr)
  assume "y \<notin> set (take n xs)"
  moreover have "set xs = set (take n xs) \<union> set (drop n xs)" by (metis append_take_drop_id set_append)
  ultimately have "y \<in> set (drop n xs)" using assms(3) by auto
  moreover have "sorted_wrt (<) (map f (take n xs @ drop n xs))" using assms(1) by simp
  ultimately have "f x < f y" using assms(2) by (auto simp: sorted_wrt_append simp del: append_take_drop_id)
  with assms(4) show False by simp
qed

lemma sorted_wrt_map_filter: "sorted_wrt (<) (map f xs) \<Longrightarrow> sorted_wrt (<) (map f (filter P xs))"
  by (induction xs) auto

lemma ListOutboxEventsForConsumer_ready:
  assumes "outbox_inv d db log"
    and "events_from_rows (ListOutboxEventsForConsumer now db (di_consumer d) owner readAt limit) = Inr es"
  shows "batch_ready d db log es"
proof (cases "ListOutboxEventsForConsumer now db (di_consumer d) owner readAt limit = []")
  case True
  with assms(2) show ?thesis by simp
next
  case False
  let ?rows = "ListOutboxEventsForConsumer now db (di_consumer d) owner readAt limit"
  have table: "event_table_ok db" and off: "offset_ok d db log" using assms(1) by (simp_all add: outbox_inv_def)
  obtain row where row: "db_consumers db (di_consumer d) = Some row"
    using False by (auto simp: ListOutboxEventsForConsumer_def split: option.splits)
  define xs where "xs = filter (\<lambda>ev. oe_EventSequence ev > oc_LastAckedSequence row \<and>
    oe_EventType ev \<in> set (oc_Subscriptions row)) (db_events db)"
  define cs where "cs = take (nat limit) xs"
  have subs: "set (oc_Subscriptions row) = set (di_types d)" using off row by (simp add: offset_ok_def)
  have xs: "sorted_wrt (<) (map oe_EventSequence xs)"
    using table unfolding xs_def event_table_ok_def by (intro sorted_wrt_map_filter) simp
  then have "sort_key oe_EventSequence xs = xs"
    by (intro sort_key_id_if_sorted) (simp add: strict_sorted_imp_sorted)
  then have rows: "?rows = filter (\<lambda>ev. sql_le (oe_AvailableAt ev) now \<and>
      \<not> list_ex (\<lambda>earlier. oe_EventSequence earlier < oe_EventSequence ev \<and> sql_gt (oe_AvailableAt earlier) now) cs) cs"
    using False row unfolding ListOutboxEventsForConsumer_def by (simp add: xs_def cs_def Let_def split: if_splits)
  have cs: "sorted_wrt (<) (map oe_EventSequence cs)"
    using xs unfolding cs_def take_map [symmetric] by (rule sorted_wrt_take)
  show ?thesis
  proof (rule rows_batch_ready [OF table _ _ _ assms(2)])
    show "sorted_wrt (<) (map oe_EventSequence ?rows)" unfolding rows by (rule sorted_wrt_map_filter [OF cs])
    show "\<forall>r \<in> set ?rows. r \<in> set (db_events db) \<and> subscribed d r"
    proof
      fix r assume "r \<in> set ?rows"
      then have "r \<in> set xs" unfolding rows using in_set_takeD by (fastforce simp: cs_def)
      then show "r \<in> set (db_events db) \<and> subscribed d r" by (simp add: xs_def subscribed_def subs)
    qed
    fix r ev assume r: "r \<in> set ?rows" and ev: "ev \<in> set (db_events db)" "subscribed d ev" "oe_EventSequence ev < oe_EventSequence r"
    show "delivered log ev \<or> ev \<in> set ?rows"
    proof (cases "oe_EventSequence ev \<le> oc_LastAckedSequence row")
      case True
      then show ?thesis using off row ev by (simp add: offset_ok_def)
    next
      case False
      then have "ev \<in> set xs" using ev subs by (simp add: xs_def subscribed_def)
      moreover have "r \<in> set cs" using r unfolding rows by simp
      ultimately have "ev \<in> set cs" using take_filter_closed [OF xs _ _ ev(3)] by (simp add: cs_def)
      moreover obtain t where t: "oe_AvailableAt ev = Some t" using table ev(1) by (auto simp: event_table_ok_def)
      moreover have "t \<le> now"
      proof (rule ccontr)
        assume "\<not> t \<le> now"
        then have "list_ex (\<lambda>earlier. oe_EventSequence earlier < oe_EventSequence r \<and> sql_gt (oe_AvailableAt earlier) now) cs"
          using t ev(3) \<open>ev \<in> set cs\<close> by (auto simp: list_ex_iff sql_gt_def)
        then show False using r unfolding rows by simp
      qed
      moreover have "\<not> list_ex (\<lambda>earlier. oe_EventSequence earlier < oe_EventSequence ev \<and> sql_gt (oe_AvailableAt earlier) now) cs"
        using r ev(3) unfolding rows by (auto simp: list_ex_iff dest: less_trans)
      ultimately show ?thesis unfolding rows by (simp add: sql_le_def)
    qed
  qed
qed

lemma ListAvailable_ready:
  assumes "outbox_inv d db log" and "ListAvailable now db batch = Inr es" and "eb_ConsumerID batch = di_consumer d"
  shows "batch_ready d db log es"
  using assms by (auto simp: ListAvailable_def NewEventBatch_def Let_def split: sum.splits if_splits
      intro: ListOutboxEventsForConsumer_ready)

section \<open>A pass under interference\<close>

text \<open>What the other processes do between two interactions keeps the invariant and only appends.\<close>

definition others_ok :: "dispatcher \<Rightarrow> env \<Rightarrow> bool" where
  "others_ok d env \<longleftrightarrow> (\<forall>n db log. outbox_inv d db log \<longrightarrow>
     outbox_inv d (fst (en_other env n (db, log))) (snd (en_other env n (db, log))) \<and>
     advances (db, log) (en_other env n (db, log)))"

abbreviation world_inv :: "dispatcher \<Rightarrow> world \<Rightarrow> bool" where
  "world_inv d w \<equiv> outbox_inv d (w_db w) (w_log w)"

abbreviation world_advances :: "world \<Rightarrow> world \<Rightarrow> bool" where
  "world_advances w w' \<equiv> advances (w_db w, w_log w) (w_db w', w_log w')"

lemma others_simps [simp]:
  "w_db (others env w) = fst (en_other env (w_tick w) (w_db w, w_log w))"
  "w_log (others env w) = snd (en_other env (w_tick w) (w_db w, w_log w))"
  "w_tick (others env w) = w_tick w"
  by (simp_all add: others_def split: prod.split)

lemma others_inv:
  assumes "others_ok d env" and "world_inv d w"
  shows "world_inv d (others env w)" and "world_advances w (others env w)"
  using assms by (simp_all add: others_ok_def)


text \<open>\<open>safe_move d w w'\<close>: the invariant holds at the end, and the tables and the log only grew.\<close>

definition safe_move :: "dispatcher \<Rightarrow> world \<Rightarrow> world \<Rightarrow> bool" where
  "safe_move d w w' \<longleftrightarrow> world_inv d w' \<and> world_advances w w'"

lemma safe_move_refl: "world_inv d w \<Longrightarrow> safe_move d w w"
  by (simp add: safe_move_def)

lemma safe_move_trans: "safe_move d w v \<Longrightarrow> safe_move d v u \<Longrightarrow> safe_move d w u"
  by (auto simp: safe_move_def intro: advances_trans)

lemma safe_move_inv: "safe_move d w v \<Longrightarrow> world_inv d v"
  by (simp add: safe_move_def)

lemma transact_safe:
  assumes "others_ok d env" and "world_inv d w" and "transact env work w = (r, w')"
    and work: "\<And>dbnow db log r db'. outbox_inv d db log \<Longrightarrow> set (w_log w) \<subseteq> set log \<Longrightarrow> work dbnow db = (r, db') \<Longrightarrow>
      outbox_inv d db' log \<and> db_events db' = db_events db"
  shows "safe_move d w w'"
proof -
  define v where "v = others env w"
  have v: "world_inv d v" "world_advances w v" using others_inv [OF assms(1,2)] by (simp_all add: v_def)
  then have grown: "set (w_log w) \<subseteq> set (w_log v)" by (auto simp: advances_def)
  obtain r1 db1 where work1: "work (en_dbnow env (w_tick w)) (w_db v) = (r1, db1)" by force
  note ok = work [OF v(1) grown work1]
  have "w_log w' = w_log v \<and> (w_db w' = w_db v \<or> w_db w' = db1)"
    using assms(3) work1 by (auto simp: transact_def uow_Run_def v_def Let_def split: prod.splits sum.splits if_splits)
  then have "world_inv d w' \<and> world_advances v w'" using ok v(1) by (auto simp: advances_def)
  with v(2) show ?thesis unfolding safe_move_def by (auto intro: advances_trans)
qed

lemma acquire_safe:
  assumes "others_ok d env" and "world_inv d w" and "acquire d env w = (r, w')"
  shows "safe_move d w w'"
proof (cases "and_then (NewSubscription (di_types d)) (\<lambda>subscription. NewConsumer (di_consumer d) subscription (en_now env (w_tick w)))")
  case (Inl e)
  with assms show ?thesis by (auto simp: acquire_def safe_move_refl)
next
  case (Inr requested)
  then have req: "cs_ID requested = di_consumer d" "set (cs_Subscriptions requested) = set (di_types d)"
    by (auto simp: outcome NewSubscription_iff NewConsumer_def RestoreConsumer_iff canonical_consumer_def)
  show ?thesis
  proof (rule transact_safe [OF assms(1,2)])
    show "transact env (acquire_work d (en_now env (w_tick w)) requested) w = (r, w')"
      using assms(3) Inr by (simp add: acquire_def)
  qed (use acquire_work_inv [OF _ _ req] in blast)
qed

lemma same_progress_work:
  assumes "same_progress db db'" and "outbox_inv d db log"
  shows "outbox_inv d db' log \<and> db_events db' = db_events db"
  using same_progress_inv(1) [OF assms] assms(1) by (simp add: same_progress_def)

lemma release_safe:
  assumes "others_ok d env" and "world_inv d w" and "release d env consumer w = (r, w')"
  shows "safe_move d w w'"
proof (cases "ReleaseLease consumer (cf_Owner (di_config d)) (en_now env (w_tick w))")
  case (Inl e)
  with assms show ?thesis by (auto simp: release_def safe_move_refl)
next
  case (Inr x)
  obtain n cas where x: "x = (n, cas)" by force
  show ?thesis
  proof (rule transact_safe [OF assms(1,2)])
    show "transact env (\<lambda>dbnow db. let (r, db1) = ReleaseLeaseCAS dbnow db cas in (map_sum id (\<lambda>_. ()) r, db1)) w = (r, w')"
      using assms(3) Inr x by (simp add: release_def)
  qed (auto split: prod.splits dest: lease_CAS_same_progress(2) same_progress_work)
qed

lemma releaseAfterFailure_safe:
  assumes "others_ok d env" and "world_inv d w"
  shows "safe_move d w (releaseAfterFailure d env consumer w)"
  unfolding releaseAfterFailure_def by (rule release_safe [OF assms prod.collapse [symmetric]])

lemma recordRetryAndRelease_safe:
  assumes "others_ok d env" and "world_inv d w" and "recordRetryAndRelease d env consumer code w = (r, w')"
  shows "safe_move d w w'"
proof (cases "RecordRetry consumer (cf_Owner (di_config d)) code (en_now env (w_tick w))")
  case (Inl e)
  with assms show ?thesis using releaseAfterFailure_safe by (auto simp: recordRetryAndRelease_def)
next
  case (Inr x)
  obtain n cas where x: "x = (n, cas)" by force
  obtain r1 w1 where w1: "transact env (\<lambda>dbnow db. RecordRetryCAS dbnow db cas) w = (r1, w1)" by force
  have safe: "safe_move d w w1"
    by (rule transact_safe [OF assms(1,2) w1]) (auto dest: lease_CAS_same_progress(4) same_progress_work)
  show ?thesis
  proof (cases r1)
    case (Inl e)
    with assms(3) Inr x w1 safe show ?thesis by (simp add: recordRetryAndRelease_def)
  next
    case (Inr c)
    then have "release d env c w1 = (r, w')" using assms(3) \<open>RecordRetry _ _ _ _ = Inr x\<close> x w1
      by (simp add: recordRetryAndRelease_def)
    with release_safe [OF assms(1) safe_move_inv [OF safe]] safe show ?thesis by (blast intro: safe_move_trans)
  qed
qed

lemma deliver_event_safe:
  assumes "others_ok d env" and "world_inv d w" and "batch_ready d (w_db w) (w_log w) (e # es)"
    and "deliver_event d env e w = (code, w')"
  shows "safe_move d w w'" and "code = [] \<Longrightarrow> e \<in> set (w_log w') \<and> batch_ready d (w_db w') (w_log w') es"
proof -
  define v where "v = others env w"
  have v: "world_inv d v" "world_advances w v" using others_inv [OF assms(1,2)] by (simp_all add: v_def)
  have table: "event_table_ok (w_db v)" using v(1) by (simp add: outbox_inv_def)
  have ready: "batch_ready d (w_db v) (w_log v) (e # es)" by (rule batch_ready_advances [OF table v(2) assms(3)])
  have w': "w_db w' = w_db v" "w_log w' = (if code = [] then w_log v @ [e] else w_log v)"
    using assms(4) by (auto simp: deliver_event_def v_def Let_def)
  have "log_ok d (w_db v) (w_log v @ [e])" using v(1) by (intro log_ok_snoc [OF _ ready]) (simp add: outbox_inv_def)
  moreover have "offset_ok d (w_db v) (w_log v @ [e])" using v(1) by (auto simp: outbox_inv_def offset_ok_def)
  ultimately have "outbox_inv d (w_db v) (w_log v @ [e])" using table by (simp add: outbox_inv_def)
  then have "world_inv d w' \<and> world_advances v w'" using v(1) w' by (auto simp: advances_def)
  with v(2) show "safe_move d w w'" unfolding safe_move_def by (auto intro: advances_trans)
  show "e \<in> set (w_log w') \<and> batch_ready d (w_db w') (w_log w') es" if "code = []"
    using that w' batch_ready_tail [OF ready] by simp
qed

lemma acknowledge_safe:
  assumes "others_ok d env" and "world_inv d w" and "e \<in> set (w_log w)" and "acknowledge d env consumer e w = (r, w')"
  shows "safe_move d w w'"
proof (cases "Acknowledge consumer (cf_Owner (di_config d)) (cs_LastAckedSequence consumer) (es_Sequence e) (en_now env (w_tick w))")
  case (Inl err)
  with assms show ?thesis by (auto simp: acknowledge_def safe_move_refl)
next
  case (Inr x)
  obtain n cas where x: "x = (n, cas)" by force
  have acked: "cs_LastAckedSequence (cas_next cas) = es_Sequence e"
    using Inr x by (auto simp: Acknowledge_def Let_def outcome RestoreConsumer_iff canonical_consumer_def split: if_splits)
  show ?thesis
  proof (rule transact_safe [OF assms(1,2)])
    show "transact env (acknowledge_work n cas) w = (r, w')" using assms(4) Inr x by (simp add: acknowledge_def)
    fix dbnow db log r db'
    assume inv: "outbox_inv d db log" and log: "set (w_log w) \<subseteq> set log" and work: "acknowledge_work n cas dbnow db = (r, db')"
    obtain r1 where "AcknowledgeCAS dbnow db cas = (r1, db')"
      using work by (auto simp: acknowledge_work_def split: prod.splits sum.splits if_splits)
    then show "outbox_inv d db' log \<and> db_events db' = db_events db"
      using AcknowledgeCAS_inv [OF _ inv acked] assms(3) log by blast
  qed
qed

lemma deliver_loop_safe:
  assumes "others_ok d env" and "world_inv d w" and "batch_ready d (w_db w) (w_log w) es"
    and "deliver_loop d env es consumer result w = (res, w')"
  shows "safe_move d w w'"
  using assms(2-4)
proof (induction es arbitrary: consumer result w)
  case Nil
  then show ?case using release_safe [OF assms(1)] by (auto split: prod.splits sum.splits)
next
  case (Cons e es)
  obtain code w1 where w1: "deliver_event d env e w = (code, w1)" by force
  note del = deliver_event_safe [OF assms(1) Cons.prems(1,2) w1]
  note inv1 = safe_move_inv [OF del(1)]
  show ?case
  proof (cases "code = []")
    case False
    then have "safe_move d w1 w'"
      using Cons.prems(3) w1 releaseAfterFailure_safe [OF assms(1) inv1] recordRetryAndRelease_safe [OF assms(1) inv1]
      by (auto split: prod.splits sum.splits if_splits)
    with del(1) show ?thesis by (rule safe_move_trans)
  next
    case True
    obtain r2 w2 where w2: "acknowledge d env consumer e w1 = (r2, w2)" by force
    have ack: "safe_move d w1 w2" by (rule acknowledge_safe [OF assms(1) inv1 _ w2]) (use del(2) True in simp)
    note inv2 = safe_move_inv [OF ack]
    have "batch_ready d (w_db w2) (w_log w2) es"
      using ack inv2 del(2) [OF True] by (auto simp: safe_move_def outbox_inv_def intro: batch_ready_advances)
    then have "safe_move d w2 w'"
      using Cons.prems(3) w1 w2 True releaseAfterFailure_safe [OF assms(1) inv2] Cons.IH [OF inv2]
      by (auto split: sum.splits)
    with del(1) ack show ?thesis by (blast intro: safe_move_trans)
  qed
qed

lemma list_batch_safe:
  assumes "others_ok d env" and "world_inv d w" and "list_batch d env w = (r, w')"
  shows "safe_move d w w'" and "r = Inr es \<Longrightarrow> batch_ready d (w_db w') (w_log w') es"
proof -
  have "safe_move d w w' \<and> (r = Inr es \<longrightarrow> batch_ready d (w_db w') (w_log w') es)"
  proof (cases "NewEventBatch (di_consumer d) (cf_Owner (di_config d)) (en_now env (w_tick w)) (cf_BatchSize (di_config d))")
    case (Inl e)
    with assms show ?thesis by (auto simp: list_batch_def safe_move_refl)
  next
    case (Inr batch)
    have batch: "eb_ConsumerID batch = di_consumer d" using Inr by (auto simp: NewEventBatch_def Let_def split: if_splits)
    have tr: "transact env (\<lambda>dbnow db. (ListAvailable dbnow db batch, db)) w = (r, w')"
      using assms(3) Inr by (simp add: list_batch_def)
    have "safe_move d w w'" by (rule transact_safe [OF assms(1,2) tr]) auto
    moreover have "batch_ready d (w_db w') (w_log w') es" if "r = Inr es"
    proof -
      have "ListAvailable (en_dbnow env (w_tick w)) (w_db (others env w)) batch = Inr es" "w_db w' = w_db (others env w)"
        "w_log w' = w_log (others env w)"
        using tr that by (auto simp: transact_def uow_Run_def Let_def split: sum.splits if_splits prod.splits)
      then show ?thesis using ListAvailable_ready [OF others_inv(1) [OF assms(1,2)] _ batch] by simp
    qed
    ultimately show ?thesis by blast
  qed
  then show "safe_move d w w'" "r = Inr es \<Longrightarrow> batch_ready d (w_db w') (w_log w') es" by blast+
qed

lemma RunOnce_safe:
  assumes "others_ok d env" and "world_inv d w" and "RunOnce d env w = (res, w')"
  shows "safe_move d w w'"
proof -
  obtain r1 w1 where w1: "acquire d env w = (r1, w1)" by force
  note acq = acquire_safe [OF assms(1,2) w1]
  note inv1 = safe_move_inv [OF acq]
  show ?thesis
  proof (cases r1)
    case (Inl e)
    with assms(3) w1 acq show ?thesis by (auto simp: RunOnce_def split: if_splits)
  next
    case (Inr consumer)
    obtain r2 w2 where w2: "list_batch d env w1 = (r2, w2)" by force
    note lst = list_batch_safe(1) [OF assms(1) inv1 w2]
    note inv2 = safe_move_inv [OF lst]
    have "safe_move d w2 w'"
    proof (cases r2)
      case (Inl e)
      with assms(3) w1 w2 Inr releaseAfterFailure_safe [OF assms(1) inv2] show ?thesis by (auto simp: RunOnce_def)
    next
      case (Inr es)
      show ?thesis
      proof (cases "es = []")
        case True
        with assms(3) w1 w2 \<open>r1 = Inr consumer\<close> Inr release_safe [OF assms(1) inv2] show ?thesis
          by (auto simp: RunOnce_def split: prod.splits sum.splits)
      next
        case False
        have "batch_ready d (w_db w2) (w_log w2) es" by (rule list_batch_safe(2) [OF assms(1) inv1 w2 Inr])
        moreover have "deliver_loop d env es consumer no_result w2 = (res, w')"
          using assms(3) w1 w2 \<open>r1 = Inr consumer\<close> Inr False by (simp add: RunOnce_def)
        ultimately show ?thesis by (rule deliver_loop_safe [OF assms(1) inv2])
      qed
    qed
    with acq lst show ?thesis by (blast intro: safe_move_trans)
  qed
qed

end
