(* ===== verification/DispatcherLive.thy ===== *)
theory DispatcherLive
  imports DispatcherProps
begin

text \<open>
  Progress of a pass that nothing disturbs: the row of a well-formed consumer reads back as that consumer, each
  compare-and-swap on the stored row succeeds, and the pass delivers its whole batch.
\<close>

section \<open>Rows of well-formed consumers\<close>

definition consumer_row :: "Consumer \<Rightarrow> OutboxConsumerRow" where
  "consumer_row c =
     \<lparr>oc_ConsumerID = cs_ID c, oc_Subscriptions = cs_Subscriptions c, oc_LastAckedSequence = sint (cs_LastAckedSequence c),
       oc_LeaseOwner = textToPG (cs_LeaseOwner c), oc_LeaseUntil = timeToPG (cs_LeaseUntil c),
       oc_RetryCount = uint (cs_RetryCount c), oc_NextAttemptAt = timeToPG (cs_NextAttemptAt c),
       oc_LastErrorCode = textToPG (cs_LastErrorCode c), oc_CreatedAt = timeToPG (cs_CreatedAt c),
       oc_UpdatedAt = timeToPG (cs_UpdatedAt c)\<rparr>"

lemma timeToPG_canonical: "t mod 1000 = 0 \<Longrightarrow> timeToPG t = (if t = 0 then None else Some t)"
  by (simp add: timeToPG_def)

lemma sql_le_mono: "sql_le a s \<Longrightarrow> s \<le> t \<Longrightarrow> sql_le a t"
  by (auto simp: sql_le_def split: option.splits)

lemma parse_subscriptions_valid: "list_all EventType_Valid ts \<Longrightarrow> parse_subscriptions ts = Inr ts"
  by (induction ts) (auto simp: parseProtocolName_def)

lemma Sequence_Valid_sint: "Sequence_Valid s \<Longrightarrow> sint s = uint s"
  using uint_ge_0 [of s] unfolding sint_uint
  by (intro signed_take_bit_int_eq_self) (auto simp: Sequence_Valid_def word_le_def simp del: uint_ge_0 intro: order_trans [of _ 0])

lemma sint_less_Sequence: "Sequence_Valid s \<Longrightarrow> Sequence_Valid t \<Longrightarrow> sint s < sint t \<longleftrightarrow> s < t"
  by (simp add: Sequence_Valid_sint word_less_def)

lemma outboxConsumerFromRow_row:
  assumes "consumer_ok c" and "0 < cs_CreatedAt c"
  shows "outboxConsumerFromRow (consumer_row c) = Inr c"
proof -
  have times: "cs_LeaseUntil c mod 1000 = 0" "cs_NextAttemptAt c mod 1000 = 0" "cs_CreatedAt c mod 1000 = 0"
    "cs_UpdatedAt c mod 1000 = 0" "0 < cs_UpdatedAt c"
    using assms by (auto simp: consumer_ok_def times_ok_def)
  have seq: "0 \<le> sint (cs_LastAckedSequence c)"
    using assms(1) by (simp add: consumer_ok_def Sequence_Valid_sint)
  have owner: "optionalLeaseOwner (textToPG (cs_LeaseOwner c)) = Inr (cs_LeaseOwner c)"
    using assms(1) by (auto simp: consumer_ok_def lease_ok_def textToPG_def optionalLeaseOwner_def ParseLeaseOwner_def)
  have code: "optionalErrorCode (textToPG (cs_LastErrorCode c)) = Inr (cs_LastErrorCode c)"
    using assms(1) by (auto simp: consumer_ok_def retry_ok_def textToPG_def optionalErrorCode_def parseProtocolName_def split: if_splits)
  have subs: "parse_subscriptions (cs_Subscriptions c) = Inr (cs_Subscriptions c)"
    using assms(1) by (intro parse_subscriptions_valid) (simp add: consumer_ok_def subscription_ok_def)
  have id: "parseProtocolName (cs_ID c) = Inr (cs_ID c)" using assms(1) by (simp add: consumer_ok_def parseProtocolName_def)
  have opt: "optionalTime (timeToPG t) = t" if "t mod 1000 = 0" for t
    using that by (simp add: optionalTime_def timeToPG_canonical)
  have eta: "\<lparr>cs_ID = cs_ID c, cs_Subscriptions = cs_Subscriptions c, cs_LastAckedSequence = cs_LastAckedSequence c,
    cs_LeaseOwner = cs_LeaseOwner c, cs_LeaseUntil = cs_LeaseUntil c, cs_RetryCount = cs_RetryCount c,
    cs_NextAttemptAt = cs_NextAttemptAt c, cs_LastErrorCode = cs_LastErrorCode c, cs_CreatedAt = cs_CreatedAt c,
    cs_UpdatedAt = cs_UpdatedAt c\<rparr> = c"
    by (cases c) simp
  have "RestoreConsumer c = Inr c" by (rule RestoreConsumer_ok [OF assms(1)])
  with times seq owner code subs id opt assms(2) show ?thesis
    by (simp add: outboxConsumerFromRow_def consumer_row_def timeToPG_canonical NewSequence_def integrity_def
        not_less eta)
qed


text \<open>A transition whose expected row is still stored and whose guard holds replaces the row.\<close>

definition stores :: "outbox_db \<Rightarrow> Consumer \<Rightarrow> bool" where
  "stores db c \<longleftrightarrow> consumer_ok c \<and> 0 < cs_CreatedAt c \<and> db_consumers db (cs_ID c) = Some (consumer_row c)"

definition put_consumer :: "outbox_db \<Rightarrow> Consumer \<Rightarrow> outbox_db" where
  "put_consumer db c = db\<lparr>db_consumers := (db_consumers db)(cs_ID c := Some (consumer_row c))\<rparr>"

lemma put_consumer_simps [simp]:
  "db_events (put_consumer db c) = db_events db"
  "db_consumers (put_consumer db c) (cs_ID c) = Some (consumer_row c)"
  by (simp_all add: put_consumer_def)

lemma put_consumer_twice [simp]: "cs_ID d = cs_ID c \<Longrightarrow> put_consumer (put_consumer db c) d = put_consumer db d"
  by (simp add: put_consumer_def)

lemma stores_put: "consumer_ok c \<Longrightarrow> 0 < cs_CreatedAt c \<Longrightarrow> stores (put_consumer db c) c"
  by (simp add: stores_def)

lemma sameConsumerSnapshot_refl [simp]: "sameConsumerSnapshot c c"
  by (simp add: sameConsumerSnapshot_def)

lemma finishCAS_row: "consumer_ok d \<Longrightarrow> 0 < cs_CreatedAt d \<Longrightarrow> finishCAS (Some (consumer_row d)) d = Inr d"
  by (simp add: finishCAS_def mapOutboxQueryError_def outboxConsumerFromRow_row)

lemma cas_common_row:
  assumes "stores db c"
  shows "cas_common (expected_params c (sint (cs_LastAckedSequence c))) (consumer_row c)"
proof -
  have "0 < cs_UpdatedAt c" using assms by (auto simp: stores_def consumer_ok_def times_ok_def)
  then show ?thesis
    by (simp add: cas_common_def expected_params_def consumer_row_def sql_eq_def timeToPG_def)
qed

lemma cas_leased_row:
  assumes "stores db c" and "cs_LeaseOwner c \<noteq> []" and "now < cs_LeaseUntil c"
  shows "cas_leased now (expected_params c (sint (cs_LastAckedSequence c))) (consumer_row c)"
proof -
  have "cs_LeaseUntil c mod 1000 = 0" "cs_LeaseUntil c \<noteq> 0"
    using assms(1,2) by (auto simp: stores_def consumer_ok_def times_ok_def lease_ok_def)
  then show ?thesis using cas_common_row [OF assms(1)] assms(2,3)
    by (simp add: cas_leased_def sql_eq_def sql_gt_def expected_params_def consumer_row_def textToPG_def timeToPG_def)
qed

lemma validateConsumerCAS_row:
  assumes "consumer_ok c" and "consumer_ok d" and "moves_on c d"
  shows "validateConsumerCAS \<lparr>cas_kind = kind, cas_expected = c, cas_next = d\<rparr> kind =
    Inr (c, d, sint (cs_LastAckedSequence c))"
proof -
  have "\<not> cs_RetryCount c > 2147483647" "\<not> cs_RetryCount d > 2147483647"
    using assms(1,2) by (auto simp: consumer_ok_def retry_ok_def MaximumRetryCount_def not_less split: if_splits
        intro: order_trans [of _ 16])
  with assms show ?thesis
    by (simp add: validateConsumerCAS_def Sequence_Int64_def consumer_ok_def moves_on_def)
qed

lemma update_consumer_row:
  assumes "stores db c" and "cs_ID d = cs_ID c" and "holds (consumer_row c)" and "change (consumer_row c) = consumer_row d"
  shows "update_consumer db (cs_ID c) holds change = (Some (consumer_row d), put_consumer db d)"
  using assms by (simp add: update_consumer_def stores_def put_consumer_def)

lemma expected_params_ID [simp]: "cp_ConsumerID (expected_params c s) = cs_ID c"
  by (simp add: expected_params_def)

lemma AcquireLeaseCAS_row:
  assumes "stores db c" and "AcquireLease c owner at until = Inr (d, cas)"
    and "cs_LeaseOwner c \<noteq> [] \<longrightarrow> cs_LeaseUntil c \<le> dbnow" and "cs_RetryCount c \<noteq> 0 \<longrightarrow> cs_NextAttemptAt c \<le> dbnow"
    and "dbnow < cs_LeaseUntil d"
  shows "AcquireLeaseCAS dbnow db cas = (Inr d, put_consumer db d)"
proof -
  have c: "consumer_ok c" using assms(1) by (simp add: stores_def)
  have step: "consumer_step c (Acquire owner at until) = Inr d" using assms(2) by simp
  note d = consumer_step_ok [OF c step]
  have upd: "d = c\<lparr>cs_LeaseOwner := cs_LeaseOwner d, cs_LeaseUntil := cs_LeaseUntil d, cs_UpdatedAt := cs_UpdatedAt d\<rparr>"
    and cas: "cas = \<lparr>cas_kind = TransitionAcquireLease, cas_expected = c, cas_next = d\<rparr>"
    using assms(2) by (auto simp: AcquireLease_iff [OF c] Let_def)
  have row: "consumer_row d = (consumer_row c)\<lparr>oc_LeaseOwner := textToPG (cs_LeaseOwner d),
    oc_LeaseUntil := timeToPG (cs_LeaseUntil d), oc_UpdatedAt := timeToPG (cs_UpdatedAt d)\<rparr>"
    by (subst upd, subst (2) upd) (simp add: consumer_row_def)
  have times: "cs_LeaseUntil c mod 1000 = 0" "cs_NextAttemptAt c mod 1000 = 0" "cs_LeaseUntil d mod 1000 = 0"
    using c d(1) by (simp_all add: consumer_ok_def times_ok_def)
  have free: "cs_LeaseUntil c = 0 \<or> cs_LeaseUntil c \<le> dbnow" "cs_NextAttemptAt c = 0 \<or> cs_NextAttemptAt c \<le> dbnow"
    "cs_LeaseUntil d \<noteq> 0"
    using c d(1) assms(2-5) LeaseOwner_Valid_nonempty
    by (auto simp: consumer_ok_def lease_ok_def retry_ok_def AcquireLease_iff [OF c] Let_def split: if_splits)
  have keep: "cs_CreatedAt d = cs_CreatedAt c" "cs_ID d = cs_ID c" using d(2) by (simp_all add: moves_on_def)
  have "AcquireOutboxConsumerLeaseCAS dbnow db (expected_params c (sint (cs_LastAckedSequence c))) (textToPG (cs_LeaseOwner d))
    (timeToPG (cs_LeaseUntil d)) (timeToPG (cs_UpdatedAt d)) = (Some (consumer_row d), put_consumer db d)"
    unfolding AcquireOutboxConsumerLeaseCAS_def expected_params_ID
  proof (rule update_consumer_row [OF assms(1) keep(2)])
    show "oc_LeaseOwner (consumer_row c) = cp_ExpectedLeaseOwner (expected_params c (sint (cs_LastAckedSequence c))) \<and>
      oc_LeaseUntil (consumer_row c) = cp_ExpectedLeaseUntil (expected_params c (sint (cs_LastAckedSequence c))) \<and>
      cas_common (expected_params c (sint (cs_LastAckedSequence c))) (consumer_row c) \<and>
      (oc_LeaseUntil (consumer_row c) = None \<or> sql_le (oc_LeaseUntil (consumer_row c)) dbnow) \<and>
      (oc_NextAttemptAt (consumer_row c) = None \<or> sql_le (oc_NextAttemptAt (consumer_row c)) dbnow) \<and>
      sql_gt (timeToPG (cs_LeaseUntil d)) dbnow"
      using cas_common_row [OF assms(1)] times free assms(5)
      by (auto simp: expected_params_def consumer_row_def sql_le_def sql_gt_def timeToPG_canonical)
  qed (rule row [symmetric])
  with assms(1) keep(1) show ?thesis
    by (simp add: cas AcquireLeaseCAS_def validateConsumerCAS_row [OF c d] finishCAS_row [OF d(1)] stores_def)
qed

lemma ReleaseLeaseCAS_row:
  assumes "stores db c" and "ReleaseLease c owner at = Inr (d, cas)" and "dbnow < cs_LeaseUntil c"
  shows "ReleaseLeaseCAS dbnow db cas = (Inr d, put_consumer db d)"
proof -
  have c: "consumer_ok c" using assms(1) by (simp add: stores_def)
  have step: "consumer_step c (Release owner at) = Inr d" using assms(2) by simp
  note d = consumer_step_ok [OF c step]
  have keep: "cs_CreatedAt d = cs_CreatedAt c" "cs_ID d = cs_ID c" using d(2) by (simp_all add: moves_on_def)
  have upd: "d = c\<lparr>cs_LeaseOwner := [], cs_LeaseUntil := 0, cs_UpdatedAt := cs_UpdatedAt d\<rparr>"
    and cas: "cas = \<lparr>cas_kind = TransitionReleaseLease, cas_expected = c, cas_next = d\<rparr>" and owned: "cs_LeaseOwner c \<noteq> []"
    using assms(2) by (auto simp: ReleaseLease_iff [OF c] Let_def)
  have row: "consumer_row d = (consumer_row c)\<lparr>oc_LeaseOwner := None, oc_LeaseUntil := None, oc_UpdatedAt := timeToPG (cs_UpdatedAt d)\<rparr>"
    by (subst upd, subst (2) upd) (simp add: consumer_row_def textToPG_def timeToPG_def)
  have "ReleaseOutboxConsumerLeaseCAS dbnow db (expected_params c (sint (cs_LastAckedSequence c))) (timeToPG (cs_UpdatedAt d)) =
    (Some (consumer_row d), put_consumer db d)"
    unfolding ReleaseOutboxConsumerLeaseCAS_def expected_params_ID
    by (rule update_consumer_row [OF assms(1) keep(2)]) (rule cas_leased_row [OF assms(1) owned assms(3)], rule row [symmetric])
  with assms(1) keep(1) show ?thesis
    by (simp add: cas ReleaseLeaseCAS_def validateConsumerCAS_row [OF c d] finishCAS_row [OF d(1)] stores_def)
qed

lemma AcknowledgeCAS_row:
  assumes "stores db c" and "Acknowledge c owner expected acked at = Inr (d, cas)" and "dbnow < cs_LeaseUntil c"
    and "\<exists>ev \<in> set (db_events db). oe_EventSequence ev = sint acked \<and> oe_EventType ev \<in> set (cs_Subscriptions c) \<and>
      sql_le (oe_AvailableAt ev) dbnow"
    and "\<forall>ev \<in> set (db_events db). oe_EventType ev \<in> set (cs_Subscriptions c) \<longrightarrow>
      \<not> (sint (cs_LastAckedSequence c) < oe_EventSequence ev \<and> oe_EventSequence ev < sint acked)"
  shows "AcknowledgeCAS dbnow db cas = (Inr d, put_consumer db d)"
proof -
  have c: "consumer_ok c" using assms(1) by (simp add: stores_def)
  have step: "consumer_step c (Ack owner expected acked at) = Inr d" using assms(2) by simp
  note d = consumer_step_ok [OF c step]
  have keep: "cs_CreatedAt d = cs_CreatedAt c" "cs_ID d = cs_ID c" using d(2) by (simp_all add: moves_on_def)
  have upd: "d = c\<lparr>cs_LastAckedSequence := acked, cs_RetryCount := 0, cs_NextAttemptAt := 0, cs_LastErrorCode := [],
      cs_UpdatedAt := cs_UpdatedAt d\<rparr>"
    and cas: "cas = \<lparr>cas_kind = TransitionAcknowledge, cas_expected = c, cas_next = d\<rparr>" and owned: "cs_LeaseOwner c \<noteq> []"
    and less: "cs_LastAckedSequence c < acked" and valid: "Sequence_Valid acked"
    using assms(2) by (auto simp: Acknowledge_iff [OF c] Let_def)
  have acked: "cs_LastAckedSequence d = acked" by (subst upd) simp
  have row: "consumer_row d = (consumer_row c)\<lparr>oc_LastAckedSequence := sint acked, oc_RetryCount := 0, oc_NextAttemptAt := None,
      oc_LastErrorCode := None, oc_UpdatedAt := timeToPG (cs_UpdatedAt d)\<rparr>"
    by (subst upd, subst (2) upd) (simp add: consumer_row_def textToPG_def timeToPG_def)
  have "sint (cs_LastAckedSequence c) < sint acked"
    using less c valid by (simp add: sint_less_Sequence consumer_ok_def)
  then have "AckOutboxConsumerOffsetCAS dbnow db (expected_params c (sint (cs_LastAckedSequence c))) (sint acked)
      (timeToPG (cs_UpdatedAt d)) = (Some (consumer_row d), put_consumer db d)"
    unfolding AckOutboxConsumerOffsetCAS_def expected_params_ID
    using assms(4,5) cas_leased_row [OF assms(1) owned assms(3)]
    by (intro update_consumer_row [OF assms(1) keep(2)])
      (auto simp: list_ex_iff row, auto simp: consumer_row_def expected_params_def)
  with assms(1) keep(1) valid show ?thesis
    by (simp add: cas AcknowledgeCAS_def validateConsumerCAS_row [OF c d] finishCAS_row [OF d(1)] stores_def Sequence_Int64_def acked)
qed

lemma RecordRetryCAS_row:
  assumes "stores db c" and "RecordRetry c owner code at = Inr (d, cas)" and "dbnow < cs_LeaseUntil c"
  shows "RecordRetryCAS dbnow db cas = (Inr d, put_consumer db d)"
proof -
  have c: "consumer_ok c" using assms(1) by (simp add: stores_def)
  have step: "consumer_step c (Retry owner code at) = Inr d" using assms(2) by simp
  note d = consumer_step_ok [OF c step]
  have keep: "cs_CreatedAt d = cs_CreatedAt c" "cs_ID d = cs_ID c" using d(2) by (simp_all add: moves_on_def)
  have upd: "d = c\<lparr>cs_RetryCount := cs_RetryCount d, cs_NextAttemptAt := cs_NextAttemptAt d, cs_LastErrorCode := cs_LastErrorCode d,
      cs_UpdatedAt := cs_UpdatedAt d\<rparr>"
    and cas: "cas = \<lparr>cas_kind = TransitionRecordRetry, cas_expected = c, cas_next = d\<rparr>" and owned: "cs_LeaseOwner c \<noteq> []"
    using assms(2) by (auto simp: RecordRetry_iff [OF c] Let_def)
  have row: "consumer_row d = (consumer_row c)\<lparr>oc_RetryCount := uint (cs_RetryCount d),
      oc_NextAttemptAt := timeToPG (cs_NextAttemptAt d), oc_LastErrorCode := textToPG (cs_LastErrorCode d),
      oc_UpdatedAt := timeToPG (cs_UpdatedAt d)\<rparr>"
    by (subst upd, subst (2) upd) (simp add: consumer_row_def)
  have "RecordOutboxConsumerRetryCAS dbnow db (expected_params c (sint (cs_LastAckedSequence c))) (uint (cs_RetryCount d))
      (timeToPG (cs_NextAttemptAt d)) (textToPG (cs_LastErrorCode d)) (timeToPG (cs_UpdatedAt d)) =
    (Some (consumer_row d), put_consumer db d)"
    unfolding RecordOutboxConsumerRetryCAS_def expected_params_ID
    by (rule update_consumer_row [OF assms(1) keep(2)]) (rule cas_leased_row [OF assms(1) owned assms(3)], rule row [symmetric])
  with assms(1) keep(1) show ?thesis
    by (simp add: cas RecordRetryCAS_def validateConsumerCAS_row [OF c d] finishCAS_row [OF d(1)] stores_def)
qed


section \<open>A pass that nothing disturbs\<close>

definition calm :: "env \<Rightarrow> go_time \<Rightarrow> nat \<Rightarrow> bool" where
  "calm env until k \<longleftrightarrow>
     (\<forall>n < k. en_fault env n = TxOk \<and> en_other env n = (\<lambda>s. s) \<and> canonicalTime (en_now env n) < until \<and> en_dbnow env n < until) \<and>
     (\<forall>m n. m \<le> n \<longrightarrow> n < k \<longrightarrow> en_now env m \<le> en_now env n \<and> en_dbnow env m \<le> en_dbnow env n)"

lemma calmD:
  assumes "calm env until k" and "n < k"
  shows "en_fault env n = TxOk" and "en_other env n = (\<lambda>s. s)" and "canonicalTime (en_now env n) < until" and "en_dbnow env n < until"
  using assms by (simp_all add: calm_def)

lemma calm_later:
  assumes "calm env until k" and "m \<le> n" and "n < k"
  shows "canonicalTime (en_now env m) \<le> canonicalTime (en_now env n)" and "en_dbnow env m \<le> en_dbnow env n"
  using assms by (auto simp: calm_def intro: canonicalTime_mono)

lemma transact_calm:
  assumes "calm env until k" and "w_tick w < k" and "work (en_dbnow env (w_tick w)) (w_db w) = (Inr x, db)"
  shows "transact env work w = (Inr x, w\<lparr>w_db := db, w_tick := Suc (w_tick w)\<rparr>)"
  using calmD [OF assms(1,2)] assms(3) by (simp add: transact_def others_def uow_Run_def)

text \<open>The worker holds the lease, and its clock has not fallen behind the row.\<close>

definition holding :: "dispatcher \<Rightarrow> env \<Rightarrow> go_time \<Rightarrow> Consumer \<Rightarrow> world \<Rightarrow> bool" where
  "holding d env until c w \<longleftrightarrow> stores (w_db w) c \<and> cs_ID c = di_consumer d \<and> cs_LeaseOwner c = cf_Owner (di_config d) \<and>
     cs_LeaseOwner c \<noteq> [] \<and> cs_LeaseUntil c = until \<and> cs_UpdatedAt c \<le> canonicalTime (en_now env (w_tick w))"

lemma holding_facts:
  assumes "holding d env until c w"
  shows "consumer_ok c" and "LeaseOwner_Valid (cf_Owner (di_config d))" and "validTransitionTime c (canonicalTime (en_now env (w_tick w)))"
    and "0 < cs_UpdatedAt c"
proof -
  show "consumer_ok c" using assms by (simp add: holding_def stores_def)
  then show "LeaseOwner_Valid (cf_Owner (di_config d))" using assms by (auto simp: holding_def consumer_ok_def lease_ok_def)
  show pos: "0 < cs_UpdatedAt c" using assms by (auto simp: holding_def stores_def consumer_ok_def times_ok_def)
  then show "validTransitionTime c (canonicalTime (en_now env (w_tick w)))"
    using assms by (auto simp: holding_def validTransitionTime_def)
qed

lemma release_calm:
  assumes "calm env until k" and "w_tick w < k" and "holding d env until c w"
  defines "c' \<equiv> c\<lparr>cs_LeaseOwner := [], cs_LeaseUntil := 0, cs_UpdatedAt := canonicalTime (en_now env (w_tick w))\<rparr>"
  shows "release d env c w = (Inr (), w\<lparr>w_db := put_consumer (w_db w) c', w_tick := Suc (w_tick w)\<rparr>)"
    and "stores (put_consumer (w_db w) c') c'"
proof -
  note ok = holding_facts [OF assms(3)]
  have rel: "ReleaseLease c (cf_Owner (di_config d)) (en_now env (w_tick w)) =
    Inr (c', \<lparr>cas_kind = TransitionReleaseLease, cas_expected = c, cas_next = c'\<rparr>)"
    using ok calmD(3) [OF assms(1,2)] assms(3) by (simp add: ReleaseLease_iff holding_def Let_def c'_def)
  have "ReleaseLeaseCAS (en_dbnow env (w_tick w)) (w_db w) \<lparr>cas_kind = TransitionReleaseLease, cas_expected = c, cas_next = c'\<rparr> =
    (Inr c', put_consumer (w_db w) c')"
    using assms(3) calmD(4) [OF assms(1,2)] by (intro ReleaseLeaseCAS_row [OF _ rel]) (simp_all add: holding_def)
  then show "release d env c w = (Inr (), w\<lparr>w_db := put_consumer (w_db w) c', w_tick := Suc (w_tick w)\<rparr>)"
    using rel by (simp add: release_def transact_calm [OF assms(1,2)])
  have "consumer_ok c'"
    using rel by (intro consumer_step_ok(1) [OF ok(1), of "Release (cf_Owner (di_config d)) (en_now env (w_tick w))"]) simp
  then show "stores (put_consumer (w_db w) c') c'"
    using assms(3) by (intro stores_put) (simp_all add: holding_def stores_def c'_def)
qed

lemma acknowledge_calm:
  assumes "calm env until k" and "w_tick w < k" and "holding d env until c w"
    and "ev \<in> set (db_events (w_db w))" and "outboxEventFromRow ev = Inr e" and "oe_EventSequence ev \<le> MaxInt64"
    and "oe_EventType ev \<in> set (cs_Subscriptions c)" and "sql_le (oe_AvailableAt ev) (en_dbnow env (w_tick w))"
    and "sint (cs_LastAckedSequence c) < oe_EventSequence ev"
    and "\<forall>x \<in> set (db_events (w_db w)). oe_EventType x \<in> set (cs_Subscriptions c) \<longrightarrow>
      \<not> (sint (cs_LastAckedSequence c) < oe_EventSequence x \<and> oe_EventSequence x < oe_EventSequence ev)"
  defines "c' \<equiv> c\<lparr>cs_LastAckedSequence := es_Sequence e, cs_RetryCount := 0, cs_NextAttemptAt := 0, cs_LastErrorCode := [],
    cs_UpdatedAt := canonicalTime (en_now env (w_tick w))\<rparr>"
  shows "acknowledge d env c e w = (Inr c', w\<lparr>w_db := put_consumer (w_db w) c', w_tick := Suc (w_tick w)\<rparr>)"
    and "stores (put_consumer (w_db w) c') c'"
proof -
  note ok = holding_facts [OF assms(3)]
  note seq = event_from_row_seq [OF assms(5,6)]
  have less: "cs_LastAckedSequence c < es_Sequence e"
    using assms(9) seq ok(1) by (simp add: sint_less_Sequence [symmetric] consumer_ok_def)
  have ack: "Acknowledge c (cf_Owner (di_config d)) (cs_LastAckedSequence c) (es_Sequence e) (en_now env (w_tick w)) =
    Inr (c', \<lparr>cas_kind = TransitionAcknowledge, cas_expected = c, cas_next = c'\<rparr>)"
    using ok calmD(3) [OF assms(1,2)] assms(3) less seq(3) by (simp add: Acknowledge_iff holding_def c'_def Let_def)
  have "AcknowledgeCAS (en_dbnow env (w_tick w)) (w_db w) \<lparr>cas_kind = TransitionAcknowledge, cas_expected = c, cas_next = c'\<rparr> =
    (Inr c', put_consumer (w_db w) c')"
    using assms(3,4,7,8,10) calmD(4) [OF assms(1,2)] seq(1)
    by (intro AcknowledgeCAS_row [OF _ ack]) (auto simp: holding_def)
  then show "acknowledge d env c e w = (Inr c', w\<lparr>w_db := put_consumer (w_db w) c', w_tick := Suc (w_tick w)\<rparr>)"
    using ack by (simp add: acknowledge_def acknowledge_work_def transact_calm [OF assms(1,2)])
  have "consumer_ok c'"
    using ack by (intro consumer_step_ok(1) [OF ok(1),
      of "Ack (cf_Owner (di_config d)) (cs_LastAckedSequence c) (es_Sequence e) (en_now env (w_tick w))"]) simp
  then show "stores (put_consumer (w_db w) c') c'"
    using assms(3) by (intro stores_put) (simp_all add: holding_def stores_def c'_def)
qed

lemma deliver_event_calm:
  assumes "calm env until k" and "w_tick w < k" and "di_deliver d (w_tick w) e = []"
  shows "deliver_event d env e w = ([], w\<lparr>w_log := w_log w @ [e], w_tick := Suc (w_tick w)\<rparr>)"
  using calmD(2) [OF assms(1,2)] assms(3) by (simp add: deliver_event_def others_def)

text \<open>The rows that the consumer still has to handle.\<close>

definition pending :: "outbox_db \<Rightarrow> Consumer \<Rightarrow> OutboxEventRow list" where
  "pending db c = filter (\<lambda>ev. sint (cs_LastAckedSequence c) < oe_EventSequence ev \<and> oe_EventType ev \<in> set (cs_Subscriptions c))
     (db_events db)"

lemma pending_sorted: "event_table_ok db \<Longrightarrow> sorted_wrt (<) (map oe_EventSequence (pending db c))"
  unfolding pending_def event_table_ok_def by (intro sorted_wrt_map_filter) simp

lemma filter_eq_Cons_tail:
  fixes f :: "'a \<Rightarrow> int"
  assumes "sorted_wrt (<) (map f xs)" and "filter P xs = x # ys" and "\<And>y. y \<in> set xs \<Longrightarrow> Q y \<longleftrightarrow> P y \<and> f x < f y"
  shows "filter Q xs = ys"
proof -
  have "sorted_wrt (<) (map f (x # ys))" using sorted_wrt_map_filter [OF assms(1), of P] assms(2) by simp
  moreover have "filter Q xs = filter (\<lambda>y. f x < f y) (filter P xs)" using assms(3) by (auto intro: filter_cong)
  ultimately show ?thesis using assms(2) by (simp add: filter_id_conv)
qed

lemma pending_after:
  assumes "event_table_ok db" and "pending db c = ev # evs" and "sint (es_Sequence e) = oe_EventSequence ev"
    and "cs_LastAckedSequence c' = es_Sequence e" and "cs_Subscriptions c' = cs_Subscriptions c" and "db_events db' = db_events db"
  shows "pending db' c' = evs"
proof -
  have "ev \<in> set (pending db c)" using assms(2) by simp
  then have less: "sint (cs_LastAckedSequence c) < oe_EventSequence ev" by (simp add: pending_def)
  have "pending db' c' = filter (\<lambda>y. oe_EventSequence ev < oe_EventSequence y \<and> oe_EventType y \<in> set (cs_Subscriptions c)) (db_events db)"
    by (simp add: pending_def assms(3-6))
  also have "\<dots> = evs"
  proof (rule filter_eq_Cons_tail)
    show "sorted_wrt (<) (map oe_EventSequence (db_events db))" using assms(1) by (simp add: event_table_ok_def)
    show "filter (\<lambda>ev. sint (cs_LastAckedSequence c) < oe_EventSequence ev \<and> oe_EventType ev \<in> set (cs_Subscriptions c))
      (db_events db) = ev # evs" using assms(2) by (simp add: pending_def)
  qed (use less in auto)
  finally show ?thesis .
qed

lemma pending_head:
  assumes "event_table_ok db" and "pending db c = ev # evs"
  shows "ev \<in> set (db_events db)" and "oe_EventType ev \<in> set (cs_Subscriptions c)"
    and "sint (cs_LastAckedSequence c) < oe_EventSequence ev"
    and "\<forall>x \<in> set (db_events db). oe_EventType x \<in> set (cs_Subscriptions c) \<longrightarrow>
      \<not> (sint (cs_LastAckedSequence c) < oe_EventSequence x \<and> oe_EventSequence x < oe_EventSequence ev)"
proof -
  have ev: "ev \<in> set (pending db c)" using assms(2) by simp
  then show "ev \<in> set (db_events db)" "oe_EventType ev \<in> set (cs_Subscriptions c)"
    "sint (cs_LastAckedSequence c) < oe_EventSequence ev" by (simp_all add: pending_def)
  have "oe_EventSequence ev \<le> oe_EventSequence x" if "x \<in> set (pending db c)" for x
    using pending_sorted [OF assms(1), of c] that by (auto simp: assms(2))
  then show "\<forall>x \<in> set (db_events db). oe_EventType x \<in> set (cs_Subscriptions c) \<longrightarrow>
      \<not> (sint (cs_LastAckedSequence c) < oe_EventSequence x \<and> oe_EventSequence x < oe_EventSequence ev)"
    by (fastforce simp: pending_def)
qed

text \<open>What a pass leaves of the consumer: the lease is free, the offset is that of the last event.\<close>

definition drained :: "Consumer \<Rightarrow> EventSnapshot list \<Rightarrow> Consumer \<Rightarrow> bool" where
  "drained c es c' \<longleftrightarrow> cs_ID c' = cs_ID c \<and> cs_Subscriptions c' = cs_Subscriptions c \<and> cs_LeaseOwner c' = [] \<and>
     cs_LastAckedSequence c' = (if es = [] then cs_LastAckedSequence c else es_Sequence (last es)) \<and>
     cs_RetryCount c' = (if es = [] then cs_RetryCount c else 0)"

lemma deliver_loop_calm:
  assumes "calm env until k" and "\<forall>n. \<forall>e \<in> set es. di_deliver d n e = []" and "event_table_ok (w_db w)"
    and "w_tick w + 2 * length es < k" and "holding d env until c w"
    and "pending (w_db w) c = rows @ rest" and "list_all2 (\<lambda>row e. outboxEventFromRow row = Inr e) rows es"
    and "\<forall>row \<in> set rows. sql_le (oe_AvailableAt row) (en_dbnow env (w_tick w))"
  shows "\<exists>c'. deliver_loop d env es c result w =
      ((result\<lparr>re_Delivered := re_Delivered result + of_nat (length es)\<rparr>, None),
       w\<lparr>w_db := put_consumer (w_db w) c', w_log := w_log w @ es, w_tick := w_tick w + 2 * length es + 1\<rparr>) \<and>
    stores (put_consumer (w_db w) c') c' \<and> drained c es c'"
  using assms(2-8)
proof (induction es arbitrary: c result w rows)
  case Nil
  have k: "w_tick w < k" using Nil.prems(3) by simp
  show ?case
    using release_calm [OF assms(1) k Nil.prems(4)]
    by (intro exI [of _ "c\<lparr>cs_LeaseOwner := [], cs_LeaseUntil := 0, cs_UpdatedAt := canonicalTime (en_now env (w_tick w))\<rparr>"])
      (simp add: drained_def)
next
  case (Cons e es)
  obtain ev rows' where rows: "rows = ev # rows'" and ev: "outboxEventFromRow ev = Inr e"
    and rows': "list_all2 (\<lambda>row e. outboxEventFromRow row = Inr e) rows' es"
    using Cons.prems(6) by (auto simp: list_all2_Cons2)
  define w1 where "w1 = w\<lparr>w_log := w_log w @ [e], w_tick := Suc (w_tick w)\<rparr>"
  define c1 where "c1 = c\<lparr>cs_LastAckedSequence := es_Sequence e, cs_RetryCount := 0, cs_NextAttemptAt := 0, cs_LastErrorCode := [],
    cs_UpdatedAt := canonicalTime (en_now env (w_tick w1))\<rparr>"
  define w2 where "w2 = w1\<lparr>w_db := put_consumer (w_db w1) c1, w_tick := Suc (w_tick w1)\<rparr>"
  have k: "w_tick w < k" "w_tick w1 < k" "w_tick w2 < k" using Cons.prems(3) by (simp_all add: w1_def w2_def)
  have del: "deliver_event d env e w = ([], w1)"
    using deliver_event_calm [OF assms(1) k(1)] Cons.prems(1) by (simp add: w1_def)
  have hold1: "holding d env until c w1"
    using Cons.prems(4) calm_later(1) [OF assms(1) _ k(2), of "w_tick w"] by (auto simp: holding_def w1_def)
  have pend: "pending (w_db w1) c = ev # rows' @ rest" using Cons.prems(5) rows by (simp add: w1_def)
  have table: "event_table_ok (w_db w1)" using Cons.prems(2) by (simp add: w1_def)
  note head = pending_head [OF table pend]
  have max: "oe_EventSequence ev \<le> MaxInt64" using table head(1) by (simp add: event_table_ok_def)
  have "sql_le (oe_AvailableAt ev) (en_dbnow env (w_tick w))" using Cons.prems(7) rows by simp
  then have avail: "sql_le (oe_AvailableAt ev) (en_dbnow env (w_tick w1))"
    using calm_later(2) [OF assms(1) _ k(2), of "w_tick w"] by (auto simp: sql_le_def w1_def split: option.splits)
  note calm_ack = acknowledge_calm [OF assms(1) k(2) hold1 head(1) ev max head(2) avail head(3,4), folded c1_def]
  have ack: "acknowledge d env c e w1 = (Inr c1, w2)" using calm_ack(1) by (simp add: w2_def)
  have hold2: "holding d env until c1 w2"
    using calm_ack(2) hold1 calm_later(1) [OF assms(1) _ k(3), of "w_tick w1"] by (auto simp: holding_def w2_def c1_def)
  have id: "cs_ID c1 = cs_ID c" by (simp add: c1_def)
  have "\<exists>c'. deliver_loop d env es c1 (result\<lparr>re_Delivered := re_Delivered result + 1\<rparr>) w2 =
      ((result\<lparr>re_Delivered := re_Delivered result + 1, re_Delivered := re_Delivered (result\<lparr>re_Delivered := re_Delivered result + 1\<rparr>) + of_nat (length es)\<rparr>, None),
       w2\<lparr>w_db := put_consumer (w_db w2) c', w_log := w_log w2 @ es, w_tick := w_tick w2 + 2 * length es + 1\<rparr>) \<and>
    stores (put_consumer (w_db w2) c') c' \<and> drained c1 es c'"
  proof (rule Cons.IH [OF _ _ _ hold2 _ rows'])
    show "\<forall>n. \<forall>e \<in> set es. di_deliver d n e = []" using Cons.prems(1) by simp
    show "event_table_ok (w_db w2)" using table by (simp add: w2_def event_table_ok_def)
    show "w_tick w2 + 2 * length es < k" using Cons.prems(3) by (simp add: w2_def w1_def)
    show "pending (w_db w2) c1 = rows' @ rest"
      by (rule pending_after [OF table pend event_from_row_seq(1) [OF ev max]]) (simp_all add: c1_def w2_def)
    show "\<forall>row \<in> set rows'. sql_le (oe_AvailableAt row) (en_dbnow env (w_tick w2))"
      using Cons.prems(7) rows calm_later(2) [OF assms(1) _ k(3), of "w_tick w"]
      by (fastforce simp: sql_le_def w2_def w1_def split: option.splits)
  qed
  then obtain c' where loop: "deliver_loop d env es c1 (result\<lparr>re_Delivered := re_Delivered result + 1\<rparr>) w2 =
      ((result\<lparr>re_Delivered := re_Delivered result + 1 + of_nat (length es)\<rparr>, None),
       w2\<lparr>w_db := put_consumer (w_db w2) c', w_log := w_log w2 @ es, w_tick := w_tick w2 + 2 * length es + 1\<rparr>)"
    and c': "stores (put_consumer (w_db w2) c') c'" "drained c1 es c'" by auto
  have put: "put_consumer (w_db w2) c' = put_consumer (w_db w) c'"
    using c'(2) by (simp add: w2_def w1_def drained_def)
  have "drained c (e # es) c'" using c'(2) by (auto simp: drained_def c1_def)
  moreover have "deliver_loop d env (e # es) c result w = deliver_loop d env es c1 (result\<lparr>re_Delivered := re_Delivered result + 1\<rparr>) w2"
    by (simp add: del ack)
  moreover have "w2\<lparr>w_db := put_consumer (w_db w2) c', w_log := w_log w2 @ es, w_tick := w_tick w2 + 2 * length es + 1\<rparr> =
    w\<lparr>w_db := put_consumer (w_db w) c', w_log := w_log w @ e # es, w_tick := w_tick w + 2 * length (e # es) + 1\<rparr>"
    unfolding put by (simp add: w2_def w1_def)
  ultimately show ?case using loop c'(1) put by (intro exI [of _ c']) (simp add: add.assoc)
qed


lemma list_rows_calm:
  assumes "stores db c" and "event_table_ok db" and "cs_LeaseOwner c = owner" and "owner \<noteq> []" and "now < cs_LeaseUntil c"
    and "canonicalTime readAt < cs_LeaseUntil c" and "canonicalTime readAt \<noteq> 0" and "cs_RetryCount c \<noteq> 0 \<longrightarrow> cs_NextAttemptAt c \<le> now"
    and "\<forall>ev \<in> set (pending db c). sql_le (oe_AvailableAt ev) now"
  shows "ListOutboxEventsForConsumer now db (cs_ID c) (textToPG owner) (timeToPG (canonicalTime readAt)) (int n) = take n (pending db c)"
proof -
  have until: "cs_LeaseUntil c mod 1000 = 0" "cs_LeaseUntil c \<noteq> 0" "cs_NextAttemptAt c mod 1000 = 0"
    and again: "cs_NextAttemptAt c = 0 \<or> cs_NextAttemptAt c \<le> now"
    using assms(1,3,4,8) by (auto simp: stores_def consumer_ok_def lease_ok_def times_ok_def retry_ok_def split: if_splits)
  have lease: "sql_eq (oc_LeaseOwner (consumer_row c)) (textToPG owner)" "sql_gt (oc_LeaseUntil (consumer_row c)) now"
    "oc_NextAttemptAt (consumer_row c) = None \<or> sql_le (oc_NextAttemptAt (consumer_row c)) now"
    "sql_gt (oc_LeaseUntil (consumer_row c)) (canonicalTime readAt)"
    using assms(3-6) until again
    by (auto simp: consumer_row_def sql_eq_def sql_gt_def sql_le_def textToPG_def timeToPG_canonical)
  define cs where "cs = take n (pending db c)"
  have sorted: "sort_key oe_EventSequence (pending db c) = pending db c"
    using pending_sorted [OF assms(2)] by (intro sort_key_id_if_sorted) (simp add: strict_sorted_imp_sorted)
  have none: "\<not> sql_gt (oe_AvailableAt ev) now" if "ev \<in> set cs" for ev
    using assms(9) in_set_takeD [of ev n] that by (fastforce simp: cs_def sql_gt_def sql_le_def split: option.splits)
  have avail: "sql_le (oe_AvailableAt ev) now" if "ev \<in> set cs" for ev
    using assms(9) in_set_takeD [of ev n] that by (fastforce simp: cs_def)
  have filter: "filter (\<lambda>ev. sql_le (oe_AvailableAt ev) now \<and>
      \<not> list_ex (\<lambda>earlier. oe_EventSequence earlier < oe_EventSequence ev \<and> sql_gt (oe_AvailableAt earlier) now) cs) cs = cs"
    using none avail by (auto simp: filter_id_conv list_ex_iff)
  have row: "db_consumers db (cs_ID c) = Some (consumer_row c)" using assms(1) by (simp add: stores_def)
  have pend: "filter (\<lambda>event. oe_EventSequence event > oc_LastAckedSequence (consumer_row c) \<and>
    oe_EventType event \<in> set (oc_Subscriptions (consumer_row c))) (db_events db) = pending db c"
    by (simp add: pending_def consumer_row_def)
  show ?thesis
    using lease assms(7) filter row
    by (simp add: ListOutboxEventsForConsumer_def pend sorted cs_def [symmetric] timeToPG_canonical)
qed

lemma list_batch_calm:
  assumes "calm env until k" and "w_tick w < k" and "holding d env until c w" and "event_table_ok (w_db w)"
    and "ConsumerID_Valid (di_consumer d)" and "cf_BatchSize (di_config d) \<noteq> 0" and "cf_BatchSize (di_config d) \<le> MaximumBatchSize"
    and "cs_RetryCount c \<noteq> 0 \<longrightarrow> cs_NextAttemptAt c \<le> en_dbnow env (w_tick w)"
    and "\<forall>ev \<in> set (pending (w_db w) c). sql_le (oe_AvailableAt ev) (en_dbnow env (w_tick w))"
    and "events_from_rows (take (unat (cf_BatchSize (di_config d))) (pending (w_db w) c)) = Inr es"
  shows "list_batch d env w = (Inr es, w\<lparr>w_tick := Suc (w_tick w)\<rparr>)"
proof -
  note ok = holding_facts [OF assms(3)]
  let ?now = "en_now env (w_tick w)" and ?size = "cf_BatchSize (di_config d)" and ?owner = "cf_Owner (di_config d)"
  have now: "canonicalTime ?now \<noteq> 0" using ok(3) by (simp add: validTransitionTime_def)
  have hold: "stores (w_db w) c" "cs_ID c = di_consumer d" "cs_LeaseOwner c = ?owner" "?owner \<noteq> []" "cs_LeaseUntil c = until"
    using assms(3) by (auto simp: holding_def)
  define batch where "batch = \<lparr>eb_ConsumerID = di_consumer d, eb_LeaseOwner = ?owner, eb_ReadAt = canonicalTime ?now, eb_BatchSize = ?size\<rparr>"
  have batch: "NewEventBatch (di_consumer d) ?owner ?now ?size = Inr batch" "NewEventBatch (di_consumer d) ?owner (canonicalTime ?now) ?size = Inr batch"
    using ok(2) now assms(5-7) by (simp_all add: NewEventBatch_def batch_def not_less)
  have "\<not> ?size > 2147483647"
    using assms(7) by (auto simp: MaximumBatchSize_def not_less intro: order_trans [of _ 1000])
  moreover have "ListOutboxEventsForConsumer (en_dbnow env (w_tick w)) (w_db w) (di_consumer d) (textToPG ?owner)
      (timeToPG (canonicalTime ?now)) (uint ?size) = take (unat ?size) (pending (w_db w) c)"
    using list_rows_calm [OF hold(1) assms(4) hold(3,4) _ _ now assms(8,9), of "unat ?size"] calmD(3,4) [OF assms(1,2)] hold(2,5)
    by simp
  ultimately have "ListAvailable (en_dbnow env (w_tick w)) (w_db w) batch = Inr es"
    using batch(2) assms(10) by (simp add: ListAvailable_def batch_def)
  then have "transact env (\<lambda>dbnow db. (ListAvailable dbnow db batch, db)) w = (Inr es, w\<lparr>w_db := w_db w, w_tick := Suc (w_tick w)\<rparr>)"
    by (intro transact_calm [OF assms(1,2)]) simp
  then show ?thesis using batch(1) by (simp add: list_batch_def)
qed


text \<open>
  The consumer that a pass finds: the stored one, or the one it registers. Nobody else holds the lease, and a retry
  delay is over.
\<close>

definition fresh_consumer :: "dispatcher \<Rightarrow> go_time \<Rightarrow> Consumer" where
  "fresh_consumer d now =
     \<lparr>cs_ID = di_consumer d, cs_Subscriptions = sort (di_types d), cs_LastAckedSequence = 0, cs_LeaseOwner = [], cs_LeaseUntil = 0,
       cs_RetryCount = 0, cs_NextAttemptAt = 0, cs_LastErrorCode = [], cs_CreatedAt = canonicalTime now,
       cs_UpdatedAt = canonicalTime now\<rparr>"

definition claimable :: "dispatcher \<Rightarrow> env \<Rightarrow> Consumer \<Rightarrow> world \<Rightarrow> bool" where
  "claimable d env c w \<longleftrightarrow>
     (if db_consumers (w_db w) (di_consumer d) = None then c = fresh_consumer d (en_now env (w_tick w))
      else stores (w_db w) c \<and> cs_ID c = di_consumer d \<and> cs_Subscriptions c = sort (di_types d)) \<and>
     cs_UpdatedAt c \<le> canonicalTime (en_now env (w_tick w)) \<and>
     (cs_LeaseOwner c \<noteq> [] \<longrightarrow> cs_LeaseUntil c \<le> canonicalTime (en_now env (w_tick w)) \<and> cs_LeaseUntil c \<le> en_dbnow env (w_tick w)) \<and>
     (cs_RetryCount c \<noteq> 0 \<longrightarrow> cs_NextAttemptAt c \<le> canonicalTime (en_now env (w_tick w)) \<and> cs_NextAttemptAt c \<le> en_dbnow env (w_tick w))"

definition dispatcher_ok :: "dispatcher \<Rightarrow> bool" where
  "dispatcher_ok d \<longleftrightarrow> NewDispatcher (di_config d) True = Inr (di_config d) \<and> ConsumerID_Valid (di_consumer d) \<and>
     subscription_ok (sort (di_types d))"

lemma fresh_consumer_ok:
  assumes "dispatcher_ok d" and "0 < canonicalTime now"
  shows "consumer_ok (fresh_consumer d now)"
  using assms by (simp add: fresh_consumer_def consumer_ok_def dispatcher_ok_def times_ok_def lease_ok_def retry_ok_def Sequence_Valid_def)

lemma requested_consumer:
  assumes "dispatcher_ok d" and "0 < canonicalTime now"
  shows "and_then (NewSubscription (di_types d)) (\<lambda>subscription. NewConsumer (di_consumer d) subscription now) = Inr (fresh_consumer d now)"
proof -
  have "NewSubscription (di_types d) = Inr (sort (di_types d))" using assms(1) by (simp add: NewSubscription_iff dispatcher_ok_def)
  then show ?thesis
    using fresh_consumer_ok [OF assms] by (simp add: NewConsumer_def RestoreConsumer_iff canonical_consumer_def fresh_consumer_def
        sorted_sort_id)
qed

lemma Consumers_Insert_calm:
  assumes "dispatcher_ok d" and "0 < canonicalTime now" and "now = en_now env (w_tick w)" and "claimable d env c w"
  shows "\<exists>db. Consumers_Insert (w_db w) (fresh_consumer d now) = (Inr c, db) \<and> stores db c \<and> put_consumer db c = put_consumer (w_db w) c"
proof -
  have fields: "cs_LastAckedSequence (fresh_consumer d now) = 0" "cs_LeaseOwner (fresh_consumer d now) = []"
    "cs_RetryCount (fresh_consumer d now) = 0" "cs_CreatedAt (fresh_consumer d now) = cs_UpdatedAt (fresh_consumer d now)"
    "cs_ID (fresh_consumer d now) = di_consumer d" "cs_Subscriptions (fresh_consumer d now) = sort (di_types d)"
    by (simp_all add: fresh_consumer_def)
  have zero: "Sequence_Int64 0 = Inr 0" by (simp add: Sequence_Int64_def Sequence_Valid_def)
  show ?thesis
  proof (cases "db_consumers (w_db w) (di_consumer d)")
    case None
    then have c: "c = fresh_consumer d now" using assms(3,4) by (simp add: claimable_def)
    have ok: "consumer_ok c" "0 < cs_CreatedAt c" using fresh_consumer_ok [OF assms(1,2)] assms(2) c by (simp_all add: fresh_consumer_def)
    have row: "\<lparr>oc_ConsumerID = di_consumer d, oc_Subscriptions = sort (di_types d), oc_LastAckedSequence = 0, oc_LeaseOwner = None,
      oc_LeaseUntil = None, oc_RetryCount = 0, oc_NextAttemptAt = None, oc_LastErrorCode = None,
      oc_CreatedAt = timeToPG (cs_UpdatedAt c), oc_UpdatedAt = timeToPG (cs_UpdatedAt c)\<rparr> = consumer_row c"
      by (simp add: c consumer_row_def fresh_consumer_def textToPG_def timeToPG_def)
    have "Consumers_Insert (w_db w) c = (Inr c, put_consumer (w_db w) c)"
      using None fields zero outboxConsumerFromRow_row [OF ok]
      by (simp add: Consumers_Insert_def CreateOutboxConsumer_def Let_def c [symmetric] row put_consumer_def)
    then show ?thesis using stores_put [OF ok] c by (intro exI [of _ "put_consumer (w_db w) c"]) simp
  next
    case (Some row)
    then have st: "stores (w_db w) c" "cs_ID c = di_consumer d" "cs_Subscriptions c = sort (di_types d)"
      using assms(4) by (simp_all add: claimable_def)
    have "Consumers_Get (w_db w) (di_consumer d) = Inr c"
      using st assms(1) outboxConsumerFromRow_row [of c]
      by (simp add: Consumers_Get_def GetOutboxConsumer_def mapOutboxQueryError_def stores_def dispatcher_ok_def)
    then have "Consumers_Insert (w_db w) (fresh_consumer d now) = (Inr c, w_db w)"
      using Some fields zero st by (simp add: Consumers_Insert_def CreateOutboxConsumer_def ResolveRegistration_def)
    then show ?thesis using st(1) by blast
  qed
qed

lemma acquire_calm:
  assumes "dispatcher_ok d" and "calm env (canonicalTime (en_now env (w_tick w) + cf_LeaseDuration (di_config d))) k" and "w_tick w < k"
    and "0 < canonicalTime (en_now env (w_tick w))" and "claimable d env c w"
  defines "until \<equiv> canonicalTime (en_now env (w_tick w) + cf_LeaseDuration (di_config d))"
  defines "c' \<equiv> c\<lparr>cs_LeaseOwner := cf_Owner (di_config d), cs_LeaseUntil := until, cs_UpdatedAt := canonicalTime (en_now env (w_tick w))\<rparr>"
  shows "acquire d env w = (Inr c', w\<lparr>w_db := put_consumer (w_db w) c', w_tick := Suc (w_tick w)\<rparr>)"
    and "stores (put_consumer (w_db w) c') c'"
proof -
  let ?now = "en_now env (w_tick w)" and ?owner = "cf_Owner (di_config d)"
  obtain db where db: "Consumers_Insert (w_db w) (fresh_consumer d ?now) = (Inr c, db)" "stores db c" "put_consumer db c = put_consumer (w_db w) c"
    using Consumers_Insert_calm [OF assms(1,4) refl assms(5)] by blast
  have c: "consumer_ok c" "0 < cs_CreatedAt c" using db(2) by (simp_all add: stores_def)
  have owner: "LeaseOwner_Valid ?owner" "0 < cf_LeaseDuration (di_config d)" "cf_LeaseDuration (di_config d) \<le> MaximumLeaseDuration"
    using assms(1) by (auto simp: dispatcher_ok_def NewDispatcher_def split: if_splits)
  have after: "canonicalTime ?now < until" using calmD(3) [OF assms(2,3)] by (simp add: until_def)
  have "(?now + cf_LeaseDuration (di_config d)) div 1000 \<le> (?now + 300000000 * 1000) div 1000"
    using owner(3) by (intro zdiv_mono1) (simp_all add: MaximumLeaseDuration_def)
  also have "\<dots> = 300000000 + ?now div 1000" by (rule div_mult_self1) simp
  finally have "until - canonicalTime ?now \<le> MaximumLeaseDuration"
    by (simp add: until_def canonicalTime_alt MaximumLeaseDuration_def)
  with after assms(4) have window: "validLeaseWindow (canonicalTime ?now) until" "until \<noteq> 0"
    by (simp_all add: validLeaseWindow_def)
  have acq: "AcquireLease c ?owner ?now (?now + cf_LeaseDuration (di_config d)) =
    Inr (c', \<lparr>cas_kind = TransitionAcquireLease, cas_expected = c, cas_next = c'\<rparr>)"
    using owner(1) window assms(4,5)
    by (auto simp: AcquireLease_iff [OF c(1)] until_def [symmetric] c'_def claimable_def validTransitionTime_def)
  have cas: "AcquireLeaseCAS (en_dbnow env (w_tick w)) db \<lparr>cas_kind = TransitionAcquireLease, cas_expected = c, cas_next = c'\<rparr> =
    (Inr c', put_consumer db c')"
    using assms(5) calmD(4) [OF assms(2,3)]
    by (intro AcquireLeaseCAS_row [OF db(2) acq]) (auto simp: claimable_def c'_def until_def)
  have put: "put_consumer db c' = put_consumer (w_db w) c'"
    using arg_cong [OF db(3), of "\<lambda>x. put_consumer x c'"] by (simp add: c'_def)
  have "transact env (acquire_work d ?now (fresh_consumer d ?now)) w = (Inr c', w\<lparr>w_db := put_consumer (w_db w) c', w_tick := Suc (w_tick w)\<rparr>)"
    using db(1) acq cas put by (intro transact_calm [OF assms(2,3)]) (simp add: acquire_work_def)
  then show "acquire d env w = (Inr c', w\<lparr>w_db := put_consumer (w_db w) c', w_tick := Suc (w_tick w)\<rparr>)"
    using requested_consumer [OF assms(1,4)] by (simp add: acquire_def Let_def)
  have "consumer_ok c'"
    using acq by (intro consumer_step_ok(1) [OF c(1), of "Acquire ?owner ?now (?now + cf_LeaseDuration (di_config d))"]) simp
  then show "stores (put_consumer (w_db w) c') c'" using c(2) by (intro stores_put) (simp_all add: c'_def)
qed


text \<open>The start of a pass: the lease is taken and the batch is read. The clocks of the pass run from \<open>w_tick w\<close> to \<open>k\<close>.\<close>

definition claimed :: "dispatcher \<Rightarrow> env \<Rightarrow> Consumer \<Rightarrow> world \<Rightarrow> Consumer" where
  "claimed d env c w = c\<lparr>cs_LeaseOwner := cf_Owner (di_config d),
     cs_LeaseUntil := canonicalTime (en_now env (w_tick w) + cf_LeaseDuration (di_config d)),
     cs_UpdatedAt := canonicalTime (en_now env (w_tick w))\<rparr>"

lemma pass_start:
  assumes "dispatcher_ok d" and "event_table_ok (w_db w)" and "claimable d env c w"
    and "0 < canonicalTime (en_now env (w_tick w))"
    and "calm env (canonicalTime (en_now env (w_tick w) + cf_LeaseDuration (di_config d))) k" and "Suc (w_tick w) < k"
    and "\<forall>ev \<in> set (pending (w_db w) c). sql_le (oe_AvailableAt ev) (en_dbnow env (w_tick w))"
    and "events_from_rows (take (unat (cf_BatchSize (di_config d))) (pending (w_db w) c)) = Inr es"
  defines "c1 \<equiv> claimed d env c w"
  defines "v \<equiv> \<lambda>n. w\<lparr>w_db := put_consumer (w_db w) c1, w_tick := n\<rparr>"
  shows "acquire d env w = (Inr c1, v (Suc (w_tick w)))"
    and "list_batch d env (v (Suc (w_tick w))) = (Inr es, v (Suc (Suc (w_tick w))))"
    and "w_tick w < n \<Longrightarrow> n < k \<Longrightarrow> holding d env (canonicalTime (en_now env (w_tick w) + cf_LeaseDuration (di_config d))) c1 (v n)"
proof -
  let ?t = "w_tick w"
  have "?t < k" using assms(6) by simp
  note acq = acquire_calm [OF assms(1,5) this assms(4,3), folded claimed_def, folded c1_def]
  show "acquire d env w = (Inr c1, v (Suc ?t))" using acq(1) by (simp add: v_def)
  have owner: "cf_Owner (di_config d) \<noteq> []" and size: "cf_BatchSize (di_config d) \<noteq> 0" "cf_BatchSize (di_config d) \<le> MaximumBatchSize"
    using assms(1) by (auto simp: dispatcher_ok_def NewDispatcher_def split: if_splits)
  have id: "cs_ID c = di_consumer d" using assms(3) by (auto simp: claimable_def fresh_consumer_def split: if_splits)
  show hold: "holding d env (canonicalTime (en_now env (w_tick w) + cf_LeaseDuration (di_config d))) c1 (v n)" if "?t < n" "n < k" for n
    using acq(2) id owner calm_later(1) [OF assms(5), of ?t n] that by (simp add: holding_def v_def c1_def claimed_def)
  have later: "en_dbnow env ?t \<le> en_dbnow env (Suc ?t)" using calm_later(2) [OF assms(5), of ?t "Suc ?t"] assms(6) by simp
  have pend: "pending (w_db (v n)) c1 = pending (w_db w) c" for n by (simp add: pending_def v_def c1_def claimed_def)
  have "list_batch d env (v (Suc ?t)) = (Inr es, (v (Suc ?t))\<lparr>w_tick := Suc (w_tick (v (Suc ?t)))\<rparr>)"
  proof (rule list_batch_calm [OF assms(5) _ _ _ _ size])
    show "holding d env (canonicalTime (en_now env (w_tick w) + cf_LeaseDuration (di_config d))) c1 (v (Suc ?t))"
      using hold assms(6) by simp
    show "cs_RetryCount c1 \<noteq> 0 \<longrightarrow> cs_NextAttemptAt c1 \<le> en_dbnow env (w_tick (v (Suc ?t)))"
      using assms(3) later by (auto simp: claimable_def c1_def claimed_def v_def)
    show "\<forall>ev \<in> set (pending (w_db (v (Suc ?t))) c1). sql_le (oe_AvailableAt ev) (en_dbnow env (w_tick (v (Suc ?t))))"
      unfolding pend using assms(7) later by (fastforce simp: v_def sql_le_def split: option.splits)
  qed (use assms(1,2,6,8) pend in \<open>simp_all add: v_def dispatcher_ok_def event_table_ok_def\<close>)
  then show "list_batch d env (v (Suc ?t)) = (Inr es, v (Suc (Suc ?t)))" by (simp add: v_def)
qed

lemma RunOnce_calm:
  assumes "dispatcher_ok d" and "\<forall>n. \<forall>e \<in> set es. di_deliver d n e = []" and "event_table_ok (w_db w)" and "claimable d env c w"
    and "0 < canonicalTime (en_now env (w_tick w))"
    and "calm env (canonicalTime (en_now env (w_tick w) + cf_LeaseDuration (di_config d)))
      (w_tick w + 3 + 2 * unat (cf_BatchSize (di_config d)))"
    and "\<forall>ev \<in> set (pending (w_db w) c). sql_le (oe_AvailableAt ev) (en_dbnow env (w_tick w))"
    and "events_from_rows (take (unat (cf_BatchSize (di_config d))) (pending (w_db w) c)) = Inr es"
  shows "\<exists>c'. RunOnce d env w =
      ((\<lparr>re_Delivered = of_nat (length es), re_Idle = (es = [])\<rparr>, None),
       w\<lparr>w_db := put_consumer (w_db w) c', w_log := w_log w @ es, w_tick := w_tick w + 3 + 2 * length es\<rparr>) \<and>
    stores (put_consumer (w_db w) c') c' \<and> drained c es c'"
proof -
  let ?size = "unat (cf_BatchSize (di_config d))" and ?t = "w_tick w"
  define c1 where "c1 = claimed d env c w"
  define w2 where "w2 = w\<lparr>w_db := put_consumer (w_db w) c1, w_tick := Suc (Suc ?t)\<rparr>"
  note calm = assms(6)
  have len: "length es \<le> ?size" using assms(8) by (auto simp: events_from_rows_iff dest!: list_all2_lengthD)
  note start = pass_start [OF assms(1,3,4,5) calm _ assms(7,8), folded c1_def]
  have hold2: "holding d env (canonicalTime (en_now env ?t + cf_LeaseDuration (di_config d))) c1 w2"
    using start(3) [of "Suc (Suc ?t)"] by (simp add: w2_def)
  have fields: "cs_ID c1 = cs_ID c" "cs_Subscriptions c1 = cs_Subscriptions c" "cs_LastAckedSequence c1 = cs_LastAckedSequence c"
    "cs_RetryCount c1 = cs_RetryCount c" by (simp_all add: c1_def claimed_def)
  show ?thesis
  proof (cases "es = []")
    case True
    have "w_tick w2 < ?t + 3 + 2 * ?size" by (simp add: w2_def)
    note rel = release_calm [OF calm this hold2]
    show ?thesis using start(1,2) rel True fields
      by (intro exI [of _ "c1\<lparr>cs_LeaseOwner := [], cs_LeaseUntil := 0, cs_UpdatedAt := canonicalTime (en_now env (w_tick w2))\<rparr>"])
        (simp add: RunOnce_def w2_def drained_def)
  next
    case False
    have rows: "list_all2 (\<lambda>row e. outboxEventFromRow row = Inr e) (take ?size (pending (w_db w) c)) es"
      using assms(8) by (simp add: events_from_rows_iff)
    have "en_dbnow env ?t \<le> en_dbnow env (w_tick w2)" using calm_later(2) [OF calm, of ?t "Suc (Suc ?t)"] by (simp add: w2_def)
    then have "\<forall>row \<in> set (take ?size (pending (w_db w) c)). sql_le (oe_AvailableAt row) (en_dbnow env (w_tick w2))"
      using assms(7) by (auto intro: sql_le_mono dest: in_set_takeD)
    moreover have "event_table_ok (w_db w2)" "w_tick w2 + 2 * length es < ?t + 3 + 2 * ?size"
      "pending (w_db w2) c1 = take ?size (pending (w_db w) c) @ drop ?size (pending (w_db w) c)"
      using assms(3) len fields by (simp_all add: w2_def event_table_ok_def pending_def)
    ultimately obtain c' where c': "deliver_loop d env es c1 no_result w2 =
        ((no_result\<lparr>re_Delivered := re_Delivered no_result + of_nat (length es)\<rparr>, None),
         w2\<lparr>w_db := put_consumer (w_db w2) c', w_log := w_log w2 @ es, w_tick := w_tick w2 + 2 * length es + 1\<rparr>)"
      "stores (put_consumer (w_db w2) c') c'" "drained c1 es c'"
      using deliver_loop_calm [OF calm assms(2) _ _ hold2 _ rows] by blast
    have put: "put_consumer (w_db w2) c' = put_consumer (w_db w) c'" using c'(3) by (simp add: w2_def drained_def)
    have "drained c es c'" using c'(3) False fields by (simp add: drained_def)
    then show ?thesis using start(1,2) c'(1,2) False unfolding put
      by (intro exI [of _ c']) (simp add: RunOnce_def w2_def)
  qed
qed

end
