(* ===== verification/OutboxRules.thy ===== *)
theory OutboxRules
  imports DispatcherLive
begin

text \<open>
  The properties of the outbox and of its dispatchers, over runs in which producers store events and any number of
  workers of one consumer make passes.
\<close>

section \<open>Everything that touches the tables\<close>

text \<open>
  The identity that PostgreSQL gives a new event: above every number of the table, with an arbitrary gap (numbers of
  transactions that rolled back are lost). No event is stored once the numbers are used up.
\<close>

definition next_identity :: "outbox_db \<Rightarrow> nat \<Rightarrow> i64" where
  "next_identity db gap = (if db_events db = [] then 1 else oe_EventSequence (last (db_events db)) + 1) + int gap"

definition produce :: "nat \<Rightarrow> EventSnapshot \<Rightarrow> outbox_db \<Rightarrow> outbox_db" where
  "produce gap event db =
     (if next_identity db gap > MaxInt64 then db
      else snd (uow_Run TxOk (\<lambda>db. Events_Insert (next_identity db gap) db event) db))"

text \<open>A producer stores an event; a worker makes a pass, in an environment of its own.\<close>

datatype move = Produce nat EventSnapshot | Pass dispatcher env

fun play_move :: "move \<Rightarrow> outbox_db \<times> EventSnapshot list \<Rightarrow> outbox_db \<times> EventSnapshot list" where
  "play_move (Produce gap event) (db, log) = (produce gap event db, log)"
| "play_move (Pass d env) (db, log) =
     (let w = snd (RunOnce d env \<lparr>w_db = db, w_log = log, w_tick = 0\<rparr>) in (w_db w, w_log w))"

abbreviation play :: "move list \<Rightarrow> outbox_db \<times> EventSnapshot list \<Rightarrow> outbox_db \<times> EventSnapshot list" where
  "play \<equiv> run_moves play_move"


text \<open>A move of a worker of this consumer, among others that only make such moves.\<close>

fun move_ok :: "dispatcher \<Rightarrow> move \<Rightarrow> bool" where
  "move_ok d (Produce gap event) = True"
| "move_ok d (Pass d' env) = (di_consumer d' = di_consumer d \<and> di_types d' = di_types d \<and> others_ok d' env)"

lemma Events_Insert_row:
  assumes "Events_Insert identity db event = (Inr e, db')"
  shows "db' = db \<or> (\<exists>row. db_events db' = db_events db @ [row] \<and> db_consumers db' = db_consumers db \<and>
    oe_EventSequence row = identity \<and> oe_AvailableAt row \<noteq> None)"
  using assms
  by (auto simp: Events_Insert_def CreateOutboxEvent_def outboxEventFromRow_def Let_def split: if_splits option.splits prod.splits)

lemma produce_row:
  assumes "event_table_ok db"
  shows "produce gap event db = db \<or> (\<exists>row. db_events (produce gap event db) = db_events db @ [row] \<and>
    db_consumers (produce gap event db) = db_consumers db \<and> 0 < oe_EventSequence row \<and> oe_EventSequence row \<le> MaxInt64 \<and>
    (\<forall>ev \<in> set (db_events db). oe_EventSequence ev < oe_EventSequence row) \<and> oe_AvailableAt row \<noteq> None)"
proof (cases "next_identity db gap > MaxInt64")
  case False
  have "oe_EventSequence ev \<le> oe_EventSequence (last (db_events db))" if "ev \<in> set (db_events db)" for ev
  proof -
    have "db_events db = butlast (db_events db) @ [last (db_events db)]" using that by (cases "db_events db") auto
    then have "sorted_wrt (<) (map oe_EventSequence (butlast (db_events db) @ [last (db_events db)]))" "ev \<in> set (butlast (db_events db) @ [last (db_events db)])"
      using assms that by (simp_all add: event_table_ok_def)
    then show ?thesis by (auto simp: sorted_wrt_append)
  qed
  then have above: "oe_EventSequence ev < next_identity db gap" if "ev \<in> set (db_events db)" for ev
    using that by (fastforce simp: next_identity_def)
  have pos: "0 < next_identity db gap"
  proof (cases "db_events db = []")
    case False
    then have "0 < oe_EventSequence (last (db_events db))" using assms by (simp add: event_table_ok_def)
    then show ?thesis by (simp add: next_identity_def)
  qed (simp add: next_identity_def)
  obtain r db' where ins: "Events_Insert (next_identity db gap) db event = (r, db')" by force
  show ?thesis
  proof (cases r)
    case (Inl e)
    with ins show ?thesis by (simp add: produce_def uow_Run_def)
  next
    case (Inr e)
    with ins have "produce gap event db = db'" using False by (simp add: produce_def uow_Run_def)
    with Events_Insert_row [OF ins [unfolded Inr]] above pos False show ?thesis by auto
  qed
qed (simp add: produce_def)

lemma produce_inv:
  assumes "outbox_inv d db log"
  shows "outbox_inv d (produce gap event db) log" and "advances (db, log) (produce gap event db, log)"
proof -
  have table0: "event_table_ok db" using assms by (simp add: outbox_inv_def)
  have "outbox_inv d (produce gap event db) log \<and> advances (db, log) (produce gap event db, log)"
    using produce_row [OF table0, of gap event]
  proof (elim disjE)
    assume "produce gap event db = db"
    with assms show ?thesis by simp
  next
    let ?db = "produce gap event db"
    assume "\<exists>row. db_events ?db = db_events db @ [row] \<and> db_consumers ?db = db_consumers db \<and> 0 < oe_EventSequence row \<and>
      oe_EventSequence row \<le> MaxInt64 \<and> (\<forall>ev \<in> set (db_events db). oe_EventSequence ev < oe_EventSequence row) \<and> oe_AvailableAt row \<noteq> None"
    then obtain row where row: "db_events ?db = db_events db @ [row]" "db_consumers ?db = db_consumers db" "0 < oe_EventSequence row"
      "oe_EventSequence row \<le> MaxInt64" "\<forall>ev \<in> set (db_events db). oe_EventSequence ev < oe_EventSequence row" "oe_AvailableAt row \<noteq> None"
      by blast
    have table: "event_table_ok ?db" using assms row by (auto simp: outbox_inv_def event_table_ok_def sorted_wrt_append)
    have adv: "advances (db, log) (?db, log)" using row(1) by (simp add: advances_def)
    have off: "offset_ok d db log" using assms by (simp add: outbox_inv_def)
    have "offset_ok d ?db log"
      unfolding offset_ok_def row(1,2)
    proof (intro allI impI)
      fix r assume r: "db_consumers db (di_consumer d) = Some r"
      have "\<not> oe_EventSequence row \<le> oc_LastAckedSequence r"
        using off r row(3,5) by (fastforce simp: offset_ok_def)
      then show "set (oc_Subscriptions r) = set (di_types d) \<and> 0 \<le> oc_LastAckedSequence r \<and>
        (oc_LastAckedSequence r = 0 \<or> (\<exists>ev \<in> set (db_events db @ [row]). oe_EventSequence ev = oc_LastAckedSequence r)) \<and>
        (\<forall>ev \<in> set (db_events db @ [row]). subscribed d ev \<longrightarrow> oe_EventSequence ev \<le> oc_LastAckedSequence r \<longrightarrow> delivered log ev)"
        using off r by (auto simp: offset_ok_def)
    qed
    moreover have "log_ok d ?db log"
    proof -
      have "batch_ready d db [] log" using assms by (simp add: outbox_inv_def log_ok_def batch_ready_def)
      then have "batch_ready d ?db [] log" by (rule batch_ready_advances [OF table, rotated]) (simp add: advances_def row(1))
      then show ?thesis by (simp add: log_ok_def batch_ready_def)
    qed
    ultimately show ?thesis using table adv by (simp add: outbox_inv_def)
  qed
  then show "outbox_inv d (produce gap event db) log" "advances (db, log) (produce gap event db, log)" by simp_all
qed

lemma outbox_inv_same_consumer:
  "di_consumer d' = di_consumer d \<Longrightarrow> di_types d' = di_types d \<Longrightarrow> outbox_inv d' db log = outbox_inv d db log"
  by (simp only: outbox_inv_def offset_ok_def log_ok_def subscribed_def)

lemma play_move_inv:
  assumes "move_ok d m" and "outbox_inv d db log"
  shows "outbox_inv d (fst (play_move m (db, log))) (snd (play_move m (db, log)))" and "advances (db, log) (play_move m (db, log))"
proof -
  have "outbox_inv d (fst (play_move m (db, log))) (snd (play_move m (db, log))) \<and> advances (db, log) (play_move m (db, log))"
  proof (cases m)
    case (Produce gap event)
    with produce_inv [OF assms(2)] show ?thesis by simp
  next
    case (Pass d' env)
    then have d': "di_consumer d' = di_consumer d" "di_types d' = di_types d" "others_ok d' env" using assms(1) by simp_all
    obtain res w' where run: "RunOnce d' env \<lparr>w_db = db, w_log = log, w_tick = 0\<rparr> = (res, w')"
      by (rule prod.exhaust)
    have "safe_move d' \<lparr>w_db = db, w_log = log, w_tick = 0\<rparr> w'"
      using assms(2) by (intro RunOnce_safe [OF d'(3) _ run]) (simp add: outbox_inv_same_consumer [OF d'(1,2)])
    with Pass run show ?thesis by (simp add: safe_move_def outbox_inv_same_consumer [OF d'(1,2)])
  qed
  then show "outbox_inv d (fst (play_move m (db, log))) (snd (play_move m (db, log)))" "advances (db, log) (play_move m (db, log))"
    by simp_all
qed

interpretation obx: growing_store play_move "move_ok d" "\<lambda>s. outbox_inv d (fst s) (snd s)" advances for d
proof unfold_locales
  fix m s
  assume m: "move_ok d m" and s: "outbox_inv d (fst s) (snd s)"
  show "outbox_inv d (fst (play_move m s)) (snd (play_move m s))" "advances s (play_move m s)"
    using play_move_inv [OF m s] by simp_all
qed (auto intro: advances_trans)


lemma play_others_ok:
  assumes "\<forall>n. en_other env n = play (ms n) \<and> list_all (move_ok d) (ms n)"
  shows "others_ok d env"
  unfolding others_ok_def using assms obx.moves_inv [of d] obx.moves_grow [of d] by (metis fst_conv snd_conv)


section \<open>After the last retry\<close>

lemma RecordRetry_exhausted:
  assumes "consumer_ok c" and "cs_RetryCount c = MaximumRetryCount"
  shows "\<exists>e. RecordRetry c owner code at = Inl e"
proof (cases "RecordRetry c owner code at")
  case (Inr x)
  with assms show ?thesis by (cases x) (simp add: RecordRetry_iff Let_def)
qed simp

lemma RunOnce_exhausted:
  assumes "dispatcher_ok d" and "event_table_ok (w_db w)" and "claimable d env c w" and "cs_RetryCount c = MaximumRetryCount"
    and "0 < canonicalTime (en_now env (w_tick w))"
    and "calm env (canonicalTime (en_now env (w_tick w) + cf_LeaseDuration (di_config d))) (w_tick w + 5)"
    and "\<forall>ev \<in> set (pending (w_db w) c). sql_le (oe_AvailableAt ev) (en_dbnow env (w_tick w))"
    and "events_from_rows (take (unat (cf_BatchSize (di_config d))) (pending (w_db w) c)) = Inr (e # es)"
    and "di_deliver d (w_tick w + 2) e \<noteq> []" and "\<not> en_cancelled env (w_tick w + 3)"
  shows "\<exists>w' c'. RunOnce d env w = ((no_result, Some ErrDispatchUnavailable), w') \<and> w_tick w' = w_tick w + 4 \<and>
    claimable d env c' w' \<and> cs_RetryCount c' = MaximumRetryCount \<and> cs_NextAttemptAt c' = cs_NextAttemptAt c"
proof -
  let ?t = "w_tick w"
  define c1 where "c1 = claimed d env c w"
  define v where "v = (\<lambda>n. w\<lparr>w_db := put_consumer (w_db w) c1, w_tick := n\<rparr>)"
  note calm = assms(6)
  note start = pass_start [OF assms(1,2,3,5) calm _ assms(7,8), folded c1_def]
  have acq: "acquire d env w = (Inr c1, v (Suc ?t))" and lst: "list_batch d env (v (Suc ?t)) = (Inr (e # es), v (?t + 2))"
    using start(1,2) by (simp_all add: v_def)
  have id: "cs_ID c = di_consumer d" "cs_Subscriptions c = sort (di_types d)"
    using assms(3) by (auto simp: claimable_def fresh_consumer_def split: if_splits)
  have del: "deliver_event d env e (v (?t + 2)) = (di_deliver d (?t + 2) e, v (?t + 3))"
    using calmD(2) [OF calm, of "?t + 2"] assms(9) by (simp add: deliver_event_def others_def v_def)
  have hold: "holding d env (canonicalTime (en_now env ?t + cf_LeaseDuration (di_config d))) c1 (v (?t + 3))"
    using start(3) [of "?t + 3"] by (simp add: v_def)
  have exhausted: "\<exists>err. RecordRetry c1 (cf_Owner (di_config d)) code at = Inl err" for code at
    using holding_facts(1) [OF hold] assms(4) by (intro RecordRetry_exhausted) (simp_all add: c1_def claimed_def)
  define c2 where "c2 = c1\<lparr>cs_LeaseOwner := [], cs_LeaseUntil := 0, cs_UpdatedAt := canonicalTime (en_now env (?t + 3))\<rparr>"
  define w4 where "w4 = w\<lparr>w_db := put_consumer (w_db w) c2, w_tick := ?t + 4\<rparr>"
  have rel: "release d env c1 (v (?t + 3)) = (Inr (), w4)" "stores (w_db w4) c2"
    using release_calm [OF calm _ hold] by (simp_all add: v_def c2_def w4_def)
  have "\<exists>err. recordRetryAndRelease d env c1 code (v (?t + 3)) = (Inl err, w4)" for code
    using exhausted [of code "en_now env (?t + 3)"] rel(1) by (auto simp: recordRetryAndRelease_def releaseAfterFailure_def v_def)
  then obtain err where retry: "recordRetryAndRelease d env c1 (di_deliver d (?t + 2) e) (v (?t + 3)) = (Inl err, w4)" by blast
  have "w_tick (v (?t + 3)) = ?t + 3" by (simp add: v_def)
  then have "RunOnce d env w = ((no_result, Some ErrDispatchUnavailable), w4)"
    using acq lst del assms(9,10) retry by (simp add: RunOnce_def)
  moreover have c2: "cs_ID c2 = di_consumer d" "cs_Subscriptions c2 = sort (di_types d)" "cs_LeaseOwner c2 = []"
    "cs_UpdatedAt c2 = canonicalTime (en_now env (?t + 3))" "cs_NextAttemptAt c2 = cs_NextAttemptAt c" "cs_RetryCount c2 = cs_RetryCount c"
    using id by (simp_all add: c2_def c1_def claimed_def)
  moreover have "claimable d env c2 w4"
  proof -
    have "db_consumers (w_db w4) (di_consumer d) \<noteq> None" using rel(2) c2(1) by (simp add: stores_def)
    moreover have "cs_NextAttemptAt c \<le> canonicalTime (en_now env (?t + 4))" "cs_NextAttemptAt c \<le> en_dbnow env (?t + 4)"
      using assms(3,4) calm_later [OF calm, of ?t "?t + 4"] by (auto simp: claimable_def MaximumRetryCount_def)
    ultimately show ?thesis
      using rel(2) c2 calm_later(1) [OF calm, of "?t + 3" "?t + 4"] by (auto simp: claimable_def w4_def)
  qed
  ultimately show ?thesis using assms(4) by (intro exI [of _ w4] exI [of _ c2]) (simp add: w4_def)
qed


section \<open>A small instance\<close>

text \<open>Two session events with a gap between their numbers, a worker of the fan-out and clocks that stand still.\<close>

definition demo_payload :: "u8 list" where "demo_payload = [1]"

definition demo_event :: "uuid \<Rightarrow> EventSnapshot" where
  "demo_event n = \<lparr>es_Sequence = 0, es_ID = n, es_Type = ''game.session.created.v1'', es_AggregateType = ''game.session'',
     es_AggregateID = 9, es_Payload = demo_payload, es_CreatedAt = 5000000, es_AvailableAt = 5000000\<rparr>"

definition demo_config :: Config where
  "demo_config = \<lparr>cf_Owner = ''w1'', cf_LeaseDuration = 30 * Second, cf_PollInterval = Second, cf_BatchSize = 10\<rparr>"

definition demo_parse :: "u8 list \<Rightarrow> SessionNotification option" where
  "demo_parse payload = (if payload = demo_payload then Some \<lparr>sn_SessionID = 9, sn_StateVersion = 1\<rparr> else None)"

definition demo_env :: env where
  "demo_env = \<lparr>en_now = (\<lambda>_. 6000000), en_dbnow = (\<lambda>_. 6000000), en_fault = (\<lambda>_. TxOk), en_cancelled = (\<lambda>_. False),
     en_other = (\<lambda>_ s. s)\<rparr>"

definition demo_fanout :: "bool \<Rightarrow> dispatcher" where
  "demo_fanout redis = fanout demo_config demo_parse (\<lambda>_ _. redis)"


definition demo_row :: "uuid \<Rightarrow> i64 \<Rightarrow> OutboxEventRow" where
  "demo_row n s = \<lparr>oe_EventSequence = s, oe_EventID = Some n, oe_EventType = ''game.session.created.v1'',
     oe_AggregateType = ''game.session'', oe_AggregateID = Some 9, oe_Payload = demo_payload, oe_CreatedAt = Some 5000000,
     oe_AvailableAt = Some 5000000\<rparr>"

definition demo_stored :: "uuid \<Rightarrow> Sequence \<Rightarrow> EventSnapshot" where
  "demo_stored n s = (demo_event n)\<lparr>es_Sequence := s\<rparr>"

definition demo_db :: outbox_db where
  "demo_db = \<lparr>db_events = [demo_row 7 1, demo_row 8 6], db_consumers = (\<lambda>_. None)\<rparr>"

abbreviation demo_start :: world where
  "demo_start \<equiv> \<lparr>w_db = demo_db, w_log = [], w_tick = 0\<rparr>"

lemma demo_names:
  "validProtocolName ''game.session.created.v1''" "validProtocolName ''game.session''" "validProtocolName ''realtime.game_fanout''"
  by code_simp+

lemma demo_row_stored: "outboxEventFromRow (demo_row 7 1) = Inr (demo_stored 7 1)" "outboxEventFromRow (demo_row 8 6) = Inr (demo_stored 8 6)"
  by (simp_all add: outboxEventFromRow_def demo_row_def demo_stored_def demo_event_def integrity_def NewSequence_def parseProtocolName_def
      demo_names RestoreEvent_def restoreEvent_def canonicalTime_def Sequence_Valid_def demo_payload_def MaximumPayloadBytes_def)


lemma demo_dispatcher_ok: "dispatcher_ok (demo_fanout redis)"
proof -
  have "NewDispatcher demo_config True = Inr demo_config" by code_simp
  moreover have "subscription_ok (sort sessionSubscription)" by code_simp
  ultimately show ?thesis
    by (simp add: dispatcher_ok_def demo_fanout_def fanout_def ConsumerIDGameSessionFanout_def demo_names)
qed

lemma demo_claimable: "claimable (demo_fanout redis) demo_env (fresh_consumer (demo_fanout redis) 6000000) demo_start"
  by (simp add: claimable_def demo_env_def demo_db_def) (simp add: fresh_consumer_def canonicalTime_def)

lemma demo_pending: "pending demo_db (fresh_consumer (demo_fanout redis) 6000000) = [demo_row 7 1, demo_row 8 6]"
  by (simp add: pending_def demo_db_def fresh_consumer_def demo_fanout_def fanout_def sessionSubscription_def)
    (simp add: demo_row_def)

lemma demo_calm: "calm demo_env (canonicalTime (en_now demo_env 0 + cf_LeaseDuration (di_config (demo_fanout redis)))) k"
  by (simp add: calm_def demo_env_def demo_fanout_def fanout_def demo_config_def canonicalTime_def)

lemma demo_delivers: "di_deliver (demo_fanout redis) n (demo_stored m s) = (if redis then [] else ErrorRedisUnavailable)"
proof -
  have "subscription_ok (sort sessionSubscription)" by code_simp
  then have "NewSubscription sessionSubscription = Inr (sort sessionSubscription)" by (simp add: NewSubscription_iff)
  then show ?thesis
    by (simp add: demo_fanout_def fanout_def fanout_deliver_def demo_stored_def demo_event_def demo_parse_def demo_payload_def
        GameSessionAggregateType_def) (simp add: sessionSubscription_def)
qed

lemma demo_table: "event_table_ok demo_db"
  by (simp add: event_table_ok_def demo_db_def) (simp add: demo_row_def MaxInt64_def)

lemma demo_available: "\<forall>ev \<in> set (pending demo_db (fresh_consumer (demo_fanout redis) 6000000)). sql_le (oe_AvailableAt ev) (en_dbnow demo_env 0)"
  by (simp add: demo_pending) (simp add: demo_row_def demo_env_def sql_le_def)

lemma demo_batch: "events_from_rows (take (unat (cf_BatchSize (di_config (demo_fanout redis))))
    (pending demo_db (fresh_consumer (demo_fanout redis) 6000000))) = Inr [demo_stored 7 1, demo_stored 8 6]"
  by (simp add: demo_pending) (simp add: demo_fanout_def fanout_def demo_config_def demo_row_stored)

lemma demo_positive: "0 < canonicalTime (en_now demo_env 0)"
  by (simp add: demo_env_def canonicalTime_def)

lemma demo_now: "en_now demo_env n = 6000000"
  by (simp add: demo_env_def)




definition demo_exhausted :: Consumer where
  "demo_exhausted = \<lparr>cs_ID = ConsumerIDGameSessionFanout, cs_Subscriptions = sort sessionSubscription, cs_LastAckedSequence = 0,
     cs_LeaseOwner = [], cs_LeaseUntil = 0, cs_RetryCount = 16, cs_NextAttemptAt = 5500000,
     cs_LastErrorCode = ''realtime.fanout_redis_unavailable'', cs_CreatedAt = 5000000, cs_UpdatedAt = 5200000\<rparr>"

abbreviation demo_worn :: world where
  "demo_worn \<equiv> \<lparr>w_db = put_consumer demo_db demo_exhausted, w_log = [], w_tick = 0\<rparr>"

lemma demo_exhausted_ok: "consumer_ok demo_exhausted"
proof -
  have "subscription_ok (sort sessionSubscription)" "validProtocolName ''realtime.fanout_redis_unavailable''" by code_simp+
  then show ?thesis
    by (simp add: consumer_ok_def demo_exhausted_def times_ok_def lease_ok_def retry_ok_def Sequence_Valid_def MaximumRetryCount_def
        demo_names ConsumerIDGameSessionFanout_def)
qed

lemma demo_worn_claimable: "claimable (demo_fanout redis) demo_env demo_exhausted demo_worn"
proof -
  have "stores (put_consumer demo_db demo_exhausted) demo_exhausted"
    using demo_exhausted_ok by (intro stores_put) (simp_all add: demo_exhausted_def)
  moreover have "db_consumers (put_consumer demo_db demo_exhausted) ConsumerIDGameSessionFanout \<noteq> None"
    by (simp add: put_consumer_def demo_exhausted_def)
  ultimately show ?thesis
    by (simp add: claimable_def stores_def demo_env_def canonicalTime_def demo_fanout_def fanout_def)
      (auto simp: demo_exhausted_def)
qed

lemma demo_worn_pending: "pending (put_consumer demo_db demo_exhausted) demo_exhausted = [demo_row 7 1, demo_row 8 6]"
  by (simp add: pending_def demo_db_def demo_exhausted_def sessionSubscription_def) (simp add: demo_row_def)

section \<open>Properties\<close>





text \<open>
  C18: Progress. A pass whose transactions commit, whose clocks stay inside the lease and whose deliveries succeed takes
  the free lease, delivers the next batch of pending events in order, moves the offset to the last of them, forgets
  earlier failures and gives the lease back, and reports the number of deliveries.
\<close>

theorem outbox_pass_drains:
  assumes "dispatcher_ok d" and "\<forall>n. \<forall>e \<in> set es. di_deliver d n e = []" and "event_table_ok (w_db w)" and "claimable d env c w"
    and "0 < canonicalTime (en_now env (w_tick w))"
    and "calm env (canonicalTime (en_now env (w_tick w) + cf_LeaseDuration (di_config d)))
      (w_tick w + 3 + 2 * unat (cf_BatchSize (di_config d)))"
    and "\<forall>ev \<in> set (pending (w_db w) c). sql_le (oe_AvailableAt ev) (en_dbnow env (w_tick w))"
    and "events_from_rows (take (unat (cf_BatchSize (di_config d))) (pending (w_db w) c)) = Inr es"
  shows "\<exists>c'. RunOnce d env w =
      ((\<lparr>re_Delivered = of_nat (length es), re_Idle = (es = [])\<rparr>, None),
       w\<lparr>w_db := put_consumer (w_db w) c', w_log := w_log w @ es, w_tick := w_tick w + 3 + 2 * length es\<rparr>) \<and>
    cs_LeaseOwner c' = [] \<and> cs_LastAckedSequence c' = (if es = [] then cs_LastAckedSequence c else es_Sequence (last es)) \<and>
    cs_RetryCount c' = (if es = [] then cs_RetryCount c else 0)"
  using RunOnce_calm [OF assms] by (auto simp: drained_def)

theorem outbox_pass_drains_witness:
  "\<exists>c'. RunOnce (demo_fanout True) demo_env demo_start =
      ((\<lparr>re_Delivered = 2, re_Idle = False\<rparr>, None),
       \<lparr>w_db = put_consumer demo_db c', w_log = [demo_stored 7 1, demo_stored 8 6], w_tick = 7\<rparr>) \<and>
    cs_LeaseOwner c' = [] \<and> cs_LastAckedSequence c' = 6 \<and> cs_RetryCount c' = 0"
proof -
  let ?es = "[demo_stored 7 1, demo_stored 8 6]"
  have "calm demo_env (canonicalTime (en_now demo_env (w_tick demo_start) + cf_LeaseDuration (di_config (demo_fanout True))))
    (w_tick demo_start + 3 + 2 * unat (cf_BatchSize (di_config (demo_fanout True))))"
    using demo_calm by simp
  then show ?thesis
    using outbox_pass_drains [where es = ?es, OF demo_dispatcher_ok _ _ demo_claimable, of True]
      demo_table demo_positive demo_available [of True] demo_batch [of True]
    by (simp add: demo_delivers) (simp add: demo_stored_def)
qed

text \<open>
  After the last retry nothing delays the next attempt. Once sixteen failures are recorded, a pass whose delivery
  fails again leaves the row as it was, with a retry time in the past and the lease free, so that the next pass may
  start at once: the durable backoff, which is to prevent a hot loop during an outage, is over.
\<close>

theorem outbox_exhausted_retry_hot:
  assumes "dispatcher_ok d" and "event_table_ok (w_db w)" and "claimable d env c w" and "cs_RetryCount c = MaximumRetryCount"
    and "0 < canonicalTime (en_now env (w_tick w))"
    and "calm env (canonicalTime (en_now env (w_tick w) + cf_LeaseDuration (di_config d))) (w_tick w + 5)"
    and "\<forall>ev \<in> set (pending (w_db w) c). sql_le (oe_AvailableAt ev) (en_dbnow env (w_tick w))"
    and "events_from_rows (take (unat (cf_BatchSize (di_config d))) (pending (w_db w) c)) = Inr (e # es)"
    and "di_deliver d (w_tick w + 2) e \<noteq> []" and "\<not> en_cancelled env (w_tick w + 3)"
  shows "\<exists>w' c'. RunOnce d env w = ((no_result, Some ErrDispatchUnavailable), w') \<and> w_tick w' = w_tick w + 4 \<and>
    claimable d env c' w' \<and> cs_RetryCount c' = MaximumRetryCount \<and> cs_NextAttemptAt c' = cs_NextAttemptAt c"
  by (rule RunOnce_exhausted [OF assms])

theorem outbox_exhausted_retry_hot_witness:
  "\<exists>w' c'. RunOnce (demo_fanout False) demo_env demo_worn = ((no_result, Some ErrDispatchUnavailable), w') \<and>
     claimable (demo_fanout False) demo_env c' w' \<and> cs_RetryCount c' = MaximumRetryCount \<and> cs_NextAttemptAt c' = 5500000"
proof -
  have "\<exists>w' c'. RunOnce (demo_fanout False) demo_env demo_worn = ((no_result, Some ErrDispatchUnavailable), w') \<and>
    w_tick w' = w_tick demo_worn + 4 \<and> claimable (demo_fanout False) demo_env c' w' \<and> cs_RetryCount c' = MaximumRetryCount \<and>
    cs_NextAttemptAt c' = cs_NextAttemptAt demo_exhausted"
  proof (rule outbox_exhausted_retry_hot [OF demo_dispatcher_ok _ demo_worn_claimable, where e = "demo_stored 7 1" and es = "[demo_stored 8 6]"])
    show "event_table_ok (w_db demo_worn)" using demo_table by (simp add: event_table_ok_def)
    show "cs_RetryCount demo_exhausted = MaximumRetryCount" by (simp add: demo_exhausted_def MaximumRetryCount_def)
    show "\<forall>ev \<in> set (pending (w_db demo_worn) demo_exhausted). sql_le (oe_AvailableAt ev) (en_dbnow demo_env (w_tick demo_worn))"
      by (simp add: demo_worn_pending) (simp add: demo_row_def demo_env_def sql_le_def)
    show "events_from_rows (take (unat (cf_BatchSize (di_config (demo_fanout False)))) (pending (w_db demo_worn) demo_exhausted)) =
      Inr (demo_stored 7 1 # [demo_stored 8 6])"
      by (simp add: demo_worn_pending) (simp add: demo_fanout_def fanout_def demo_config_def demo_row_stored)
    show "di_deliver (demo_fanout False) (w_tick demo_worn + 2) (demo_stored 7 1) \<noteq> []"
      by (simp add: demo_delivers ErrorRedisUnavailable_def)
  qed (use demo_positive demo_calm in \<open>simp_all add: demo_env_def\<close>)
  then show ?thesis by (auto simp: demo_exhausted_def)
qed

text \<open>
  C17: Leases exclude. While a worker's lease runs, whatever commands other workers send at times inside it, in any
  order, none is accepted and the consumer stays as it is.
\<close>

theorem outbox_lease_exclusive:
  assumes "RestoreConsumer s = Inr c" and "cs_LeaseOwner c \<noteq> []"
    and "\<forall>cmd \<in> set cmds. command_owner cmd \<noteq> cs_LeaseOwner c \<and> canonicalTime (command_time cmd) < cs_LeaseUntil c"
  shows "run_commands consumer_step c cmds = c \<and> (\<forall>cmd \<in> set cmds. \<exists>e. consumer_step c cmd = Inl e)"
  using run_foreign_commands [OF RestoreConsumer_Inr [OF assms(1)] assms(2,3)]
    foreign_command_rejected [OF RestoreConsumer_Inr [OF assms(1)] assms(2)] assms(3) by blast

theorem outbox_lease_exclusive_witness:
  "\<exists>c. RestoreConsumer (demo_exhausted\<lparr>cs_LeaseOwner := ''w1'', cs_LeaseUntil := 9000000\<rparr>) = Inr c \<and>
     run_commands consumer_step c [Acquire ''w2'' 6000000 8000000, Ack ''w2'' 0 1 7000000] = c"
proof -
  let ?c = "demo_exhausted\<lparr>cs_LeaseOwner := ''w1'', cs_LeaseUntil := 9000000\<rparr>"
  have "LeaseOwner_Valid ''w1''" by code_simp
  then have "consumer_ok ?c" using demo_exhausted_ok by (simp add: consumer_ok_def demo_exhausted_def times_ok_def lease_ok_def retry_ok_def)
  then have restored: "RestoreConsumer ?c = Inr ?c" by (rule RestoreConsumer_ok)
  have "run_commands consumer_step ?c [Acquire ''w2'' 6000000 8000000, Ack ''w2'' 0 1 7000000] = ?c \<and>
    (\<forall>cmd \<in> set [Acquire ''w2'' 6000000 8000000, Ack ''w2'' 0 1 7000000]. \<exists>e. consumer_step ?c cmd = Inl e)"
    by (rule outbox_lease_exclusive [OF restored]) (simp_all add: canonicalTime_def)
  with restored show ?thesis by blast
qed

text \<open>
  A consumer only moves forward. Whatever commands are sent to a restored consumer, it stays one that restores to
  itself, its offset and its time never decrease, and its identity, subscription and creation time stay.
\<close>

theorem outbox_consumer_monotone:
  assumes "RestoreConsumer s = Inr c"
  shows "RestoreConsumer (run_commands consumer_step c cmds) = Inr (run_commands consumer_step c cmds) \<and>
    cs_LastAckedSequence c \<le> cs_LastAckedSequence (run_commands consumer_step c cmds) \<and>
    cs_UpdatedAt c \<le> cs_UpdatedAt (run_commands consumer_step c cmds) \<and>
    cs_ID (run_commands consumer_step c cmds) = cs_ID c \<and>
    cs_Subscriptions (run_commands consumer_step c cmds) = cs_Subscriptions c \<and>
    cs_CreatedAt (run_commands consumer_step c cmds) = cs_CreatedAt c"
  using run_consumer_ok [OF RestoreConsumer_Inr [OF assms], of cmds] RestoreConsumer_ok by (simp add: moves_on_def)

theorem outbox_consumer_monotone_witness:
  "cs_LastAckedSequence demo_exhausted \<le>
     cs_LastAckedSequence (run_commands consumer_step demo_exhausted [Acquire ''w1'' 6000000 8000000, Ack ''w1'' 0 1 7000000])"
  using outbox_consumer_monotone [OF RestoreConsumer_ok [OF demo_exhausted_ok]] by blast

text \<open>
  The retry delay. The loop that doubles the delay computes \<open>min (2 ^ (n - 1)) 300\<close> seconds for every count of
  failures, also far beyond the sixteen that are recorded.
\<close>

theorem retryBackoff_exponential:
  "retryBackoff n = min (2 ^ (unat n - 1)) 300 * Second"
  using retryBackoff_min [of n] by (simp add: min_mult_distrib_right)



text \<open>
  The name pattern. The matcher accepts exactly a first segment followed by one or more dots with segments, each
  segment a lower-case letter and then lower-case letters, digits and underscores.
\<close>

theorem outbox_name_pattern:
  "protocolNamePattern s \<longleftrightarrow>
     (\<exists>seg segs. name_segment seg \<and> segs \<noteq> [] \<and> list_all name_segment segs \<and> s = seg @ dotted_segments segs)"
  by (rule protocolNamePattern_segments)

end
