(* ===== verification/RateLimit.thy ===== *)
theory RateLimit
  imports Text
begin

text \<open>
  The rate limiting port of the platform (\<open>platform/ratelimit\<close>: \<open>bucket.go\<close>, \<open>policy.go\<close>, \<open>limiter.go\<close>). A protected
  operation has a fixed policy, the order of the buckets it spends; \<open>Consume\<close> spends one token of each in that order and
  stops at the first that is not granted.

  \<^item> The string types of the source are strings here too, so that undefined labels stay distinct.
  \<^item> An error that the package creates is a constructor of \<open>rl_error\<close> with the arguments of its format; an error that
    comes from outside (the limiter, the context) is \<open>External\<close> of an unknown type.
  \<^item> The limiter and the context are arguments of the functions that use them: \<open>None\<close> is Go's nil. They act on a world
    of an unknown type (stores, clocks) that the functions pass on. A function that calls the limiter returns
    the requests it has passed to it, in order.
\<close>

section \<open>Buckets\<close>

type_synonym Dimension = string

abbreviation DimensionIP :: Dimension where "DimensionIP \<equiv> ''ip''"
abbreviation DimensionDevice :: Dimension where "DimensionDevice \<equiv> ''device''"
abbreviation DimensionUsername :: Dimension where "DimensionUsername \<equiv> ''username''"
abbreviation DimensionRecoverySelector :: Dimension where "DimensionRecoverySelector \<equiv> ''recovery_selector''"
abbreviation DimensionUser :: Dimension where "DimensionUser \<equiv> ''user''"
abbreviation DimensionAdminAccount :: Dimension where "DimensionAdminAccount \<equiv> ''admin_account''"
abbreviation DimensionFlowPurpose :: Dimension where "DimensionFlowPurpose \<equiv> ''flow_purpose''"
abbreviation DimensionAdminSession :: Dimension where "DimensionAdminSession \<equiv> ''admin_session''"
abbreviation DimensionTargetUser :: Dimension where "DimensionTargetUser \<equiv> ''target_user''"

definition Dimension_Valid :: "Dimension \<Rightarrow> bool" where
  "Dimension_Valid dimension \<longleftrightarrow>
     dimension \<in> {DimensionIP, DimensionDevice, DimensionUsername, DimensionRecoverySelector, DimensionUser,
       DimensionAdminAccount, DimensionFlowPurpose, DimensionAdminSession, DimensionTargetUser}"

type_synonym Operation = string

datatype 'x rl_error =
    ErrValueRequired | ErrDimensionInvalid | ErrValueInvalid
  | ErrOperationInvalid Operation
  | ErrBucketCount Operation u8 nat
  | ErrBucketAt Operation nat "'x rl_error"
  | ErrBucketDimension Operation nat Dimension Dimension
  | ErrDimensionNotConsumed Operation Dimension
  | ErrRequestsRequired | ErrOperationsMixed
  | ErrBucketOrder Operation nat Dimension
  | ErrContextRequired | ErrLimiterRequired
  | ErrDelayNegative | ErrAllowedDelay
  | External 'x

record BucketValue =
  bv_raw :: string

definition NewBucketValue :: "string \<Rightarrow> 'x rl_error + BucketValue" where
  "NewBucketValue raw = (if TrimSpace raw = [] then Inl ErrValueRequired else Inr \<lparr>bv_raw = raw\<rparr>)"

definition Reveal :: "BucketValue \<Rightarrow> string" where "Reveal value = bv_raw value"

definition BucketValue_String :: "BucketValue \<Rightarrow> string" where "BucketValue_String value = ''[REDACTED]''"

definition BucketValue_valid :: "BucketValue \<Rightarrow> bool" where
  "BucketValue_valid value \<longleftrightarrow> TrimSpace (bv_raw value) \<noteq> []"

record BucketKey =
  bk_dimension :: Dimension
  bk_value :: BucketValue

definition NewBucketKey :: "Dimension \<Rightarrow> BucketValue \<Rightarrow> 'x rl_error + BucketKey" where
  "NewBucketKey dimension value =
     (if \<not> Dimension_Valid dimension then Inl ErrDimensionInvalid
      else if \<not> BucketValue_valid value then Inl ErrValueInvalid
      else Inr \<lparr>bk_dimension = dimension, bk_value = value\<rparr>)"

definition BucketKey_String :: "BucketKey \<Rightarrow> string" where
  "BucketKey_String key = bk_dimension key @ '':[REDACTED]''"

definition BucketKey_validate :: "BucketKey \<Rightarrow> 'x rl_error + unit" where
  "BucketKey_validate key =
     (if \<not> Dimension_Valid (bk_dimension key) then Inl ErrDimensionInvalid
      else if \<not> BucketValue_valid (bk_value key) then Inl ErrValueInvalid
      else Inr ())"

section \<open>Policies\<close>

abbreviation OperationIdentityBootstrap :: Operation where "OperationIdentityBootstrap \<equiv> ''identity.bootstrap''"
abbreviation OperationUsernameCheck :: Operation where "OperationUsernameCheck \<equiv> ''identity.username_check''"
abbreviation OperationUsernameClaim :: Operation where "OperationUsernameClaim \<equiv> ''identity.username_claim''"
abbreviation OperationIdentityRecoveryLookup :: Operation where
  "OperationIdentityRecoveryLookup \<equiv> ''identity.recovery_lookup''"
abbreviation OperationIdentityRecoveryResolved :: Operation where
  "OperationIdentityRecoveryResolved \<equiv> ''identity.recovery_resolved''"
abbreviation OperationAdminPasswordLogin :: Operation where "OperationAdminPasswordLogin \<equiv> ''admin.password_login''"
abbreviation OperationAdminSecondFactor :: Operation where "OperationAdminSecondFactor \<equiv> ''admin.second_factor''"
abbreviation OperationRealNameRead :: Operation where "OperationRealNameRead \<equiv> ''admin.real_name_read''"
abbreviation OperationRealNameUpdate :: Operation where "OperationRealNameUpdate \<equiv> ''admin.real_name_update''"

text \<open>\<open>dimensions\<close> is an array of three, of which the first \<open>count\<close> are used.\<close>

record Policy =
  po_operation :: Operation
  po_dimensions :: "Dimension list"
  po_count :: u8

text \<open>\<open>None\<close> is the panic of the source, which happens when the program starts or never.\<close>

definition newPolicy :: "Operation \<Rightarrow> Dimension list \<Rightarrow> Policy option" where
  "newPolicy operation dimensions =
     (if dimensions = [] \<or> length dimensions > 3 then None
      else Some \<lparr>po_operation = operation, po_dimensions = dimensions @ replicate (3 - length dimensions) [],
                 po_count = of_nat (length dimensions)\<rparr>)"

definition policies_init :: "Policy list option" where
  "policies_init = those
     [newPolicy OperationIdentityBootstrap [DimensionIP],
      newPolicy OperationUsernameCheck [DimensionIP, DimensionDevice, DimensionUsername],
      newPolicy OperationUsernameClaim [DimensionIP, DimensionDevice, DimensionUsername],
      newPolicy OperationIdentityRecoveryLookup [DimensionIP, DimensionRecoverySelector],
      newPolicy OperationIdentityRecoveryResolved [DimensionUser],
      newPolicy OperationAdminPasswordLogin [DimensionIP, DimensionAdminAccount],
      newPolicy OperationAdminSecondFactor [DimensionIP, DimensionAdminAccount, DimensionFlowPurpose],
      newPolicy OperationRealNameRead [DimensionAdminSession, DimensionTargetUser],
      newPolicy OperationRealNameUpdate [DimensionAdminSession, DimensionTargetUser]]"

definition policies :: "Operation \<rightharpoonup> Policy" where
  "policies = map_of (map (\<lambda>p. (po_operation p, p)) (case policies_init of None \<Rightarrow> [] | Some ps \<Rightarrow> ps))"

definition Operation_Valid :: "Operation \<Rightarrow> bool" where
  "Operation_Valid operation \<longleftrightarrow> policies operation \<noteq> None"

definition PolicyFor :: "Operation \<Rightarrow> 'x rl_error + Policy" where
  "PolicyFor operation =
     (case policies operation of None \<Rightarrow> Inl (ErrOperationInvalid operation) | Some policy \<Rightarrow> Inr policy)"

definition Policy_Dimensions :: "Policy \<Rightarrow> Dimension list" where
  "Policy_Dimensions policy = take (unat (po_count policy)) (po_dimensions policy)"

definition contains :: "Policy \<Rightarrow> Dimension \<Rightarrow> bool" where
  "contains policy dimension \<longleftrightarrow>
     list_ex (\<lambda>index. po_dimensions policy ! index = dimension) [0..<unat (po_count policy)]"

section \<open>Requests and decisions\<close>

record ConsumptionRequest =
  cr_operation :: Operation
  cr_bucket :: BucketKey

definition request_check :: "Operation \<Rightarrow> BucketKey \<Rightarrow> 'x rl_error + unit" where
  "request_check operation bucket =
     and_then (PolicyFor operation) (\<lambda>policy.
     and_then (BucketKey_validate bucket) (\<lambda>_.
       if \<not> contains policy (bk_dimension bucket) then Inl (ErrDimensionNotConsumed operation (bk_dimension bucket))
       else Inr ()))"

definition NewConsumptionRequest :: "Operation \<Rightarrow> BucketKey \<Rightarrow> 'x rl_error + ConsumptionRequest" where
  "NewConsumptionRequest operation bucket =
     and_then (request_check operation bucket) (\<lambda>_. Inr \<lparr>cr_operation = operation, cr_bucket = bucket\<rparr>)"

definition Request_Validate :: "ConsumptionRequest \<Rightarrow> 'x rl_error + unit" where
  "Request_Validate request = request_check (cr_operation request) (cr_bucket request)"

definition Request_String :: "ConsumptionRequest \<Rightarrow> string" where
  "Request_String request = cr_operation request @ ''/'' @ BucketKey_String (cr_bucket request)"

record Decision =
  de_Allowed :: bool
  de_RetryAfter :: int

definition Allow :: Decision where "Allow = \<lparr>de_Allowed = True, de_RetryAfter = 0\<rparr>"

definition Reject :: "int \<Rightarrow> Decision" where "Reject retryAfter = \<lparr>de_Allowed = False, de_RetryAfter = retryAfter\<rparr>"

definition Decision_validate :: "Decision \<Rightarrow> 'x rl_error + unit" where
  "Decision_validate decision =
     (if de_RetryAfter decision < 0 then Inl ErrDelayNegative
      else if de_Allowed decision \<and> de_RetryAfter decision \<noteq> 0 then Inl ErrAllowedDelay
      else Inr ())"

section \<open>Failures\<close>

abbreviation FailureRejected :: string where "FailureRejected \<equiv> ''rejected''"
abbreviation FailureUnavailable :: string where "FailureUnavailable \<equiv> ''unavailable''"

record 'x Failure =
  fl_kind :: string
  fl_operation :: Operation
  fl_dimension :: Dimension
  fl_retryAfter :: int
  fl_cause :: "'x rl_error option"

definition rejectedFailure :: "Operation \<Rightarrow> Dimension \<Rightarrow> int \<Rightarrow> 'x Failure" where
  "rejectedFailure operation dimension retryAfter =
     \<lparr>fl_kind = FailureRejected, fl_operation = operation, fl_dimension = dimension, fl_retryAfter = retryAfter,
      fl_cause = None\<rparr>"

definition unavailableFailure :: "Operation \<Rightarrow> Dimension \<Rightarrow> 'x rl_error \<Rightarrow> 'x Failure" where
  "unavailableFailure operation dimension cause =
     \<lparr>fl_kind = FailureUnavailable, fl_operation = operation, fl_dimension = dimension, fl_retryAfter = 0,
      fl_cause = Some cause\<rparr>"

text \<open>The two sentinel errors that \<open>errors.Is\<close> may be asked for, and any other target.\<close>

datatype sentinel = ErrRejected | ErrUnavailable | ErrOther

fun Failure_Is :: "'x Failure \<Rightarrow> sentinel \<Rightarrow> bool" where
  "Failure_Is failure ErrRejected \<longleftrightarrow> fl_kind failure = FailureRejected"
| "Failure_Is failure ErrUnavailable \<longleftrightarrow> fl_kind failure = FailureUnavailable"
| "Failure_Is failure ErrOther \<longleftrightarrow> False"

section \<open>Consumption\<close>

type_synonym ('w, 'x) rate_limiter = "'w \<Rightarrow> ConsumptionRequest \<Rightarrow> 'w \<times> ('x + Decision)"
type_synonym ('w, 'x) context_err = "'w \<Rightarrow> 'x option"

definition fail_at :: "ConsumptionRequest \<Rightarrow> 'x rl_error \<Rightarrow> 'x Failure" where
  "fail_at request cause = unavailableFailure (cr_operation request) (bk_dimension (cr_bucket request)) cause"

text \<open>The loop of \<open>ConsumeInOrder\<close> that checks the list, from a given index on.\<close>

fun check_requests :: "Policy \<Rightarrow> nat \<Rightarrow> ConsumptionRequest list \<Rightarrow> 'x Failure option" where
  "check_requests policy index [] = None"
| "check_requests policy index (request # rest) =
     (case Request_Validate request of
        Inl e \<Rightarrow> Some (fail_at request e)
      | Inr _ \<Rightarrow>
          if cr_operation request \<noteq> po_operation policy then Some (fail_at request ErrOperationsMixed)
          else if bk_dimension (cr_bucket request) \<noteq> po_dimensions policy ! index then
            Some (fail_at request (ErrBucketOrder (po_operation policy) index (po_dimensions policy ! index)))
          else check_requests policy (index + 1) rest)"

text \<open>The loop that spends the tokens.\<close>

fun consume_requests ::
  "('w, 'x) context_err \<Rightarrow> ('w, 'x) rate_limiter \<Rightarrow> 'w \<Rightarrow> ConsumptionRequest list \<Rightarrow>
     'w \<times> ConsumptionRequest list \<times> 'x Failure option" where
  "consume_requests ctx limiter w [] = (w, [], None)"
| "consume_requests ctx limiter w (request # rest) =
     (case ctx w of
        Some e \<Rightarrow> (w, [], Some (fail_at request (External e)))
      | None \<Rightarrow>
          (case limiter w request of
             (w', Inl e) \<Rightarrow> (w', [request], Some (fail_at request (External e)))
           | (w', Inr decision) \<Rightarrow>
               (case Decision_validate decision of
                  Inl e \<Rightarrow> (w', [request], Some (fail_at request e))
                | Inr _ \<Rightarrow>
                    if \<not> de_Allowed decision then
                      (w', [request], Some (rejectedFailure (cr_operation request) (bk_dimension (cr_bucket request))
                                             (de_RetryAfter decision)))
                    else (case consume_requests ctx limiter w' rest of
                            (w'', log, result) \<Rightarrow> (w'', request # log, result)))))"

declare consume_requests.simps(2) [simp del]

definition ConsumeInOrder ::
  "('w, 'x) context_err option \<Rightarrow> ('w, 'x) rate_limiter option \<Rightarrow> 'w \<Rightarrow> ConsumptionRequest list \<Rightarrow>
     'w \<times> ConsumptionRequest list \<times> 'x Failure option" where
  "ConsumeInOrder ctx limiter w requests =
     (case requests of
        [] \<Rightarrow> (w, [], Some (unavailableFailure [] [] ErrRequestsRequired))
      | first # _ \<Rightarrow>
          (case PolicyFor (cr_operation first) of
             Inl e \<Rightarrow> (w, [], Some (fail_at first e))
           | Inr policy \<Rightarrow>
               if length requests \<noteq> unat (po_count policy) then
                 (w, [], Some (fail_at first (ErrBucketCount (po_operation policy) (po_count policy) (length requests))))
               else
                 (case check_requests policy 0 requests of
                    Some failure \<Rightarrow> (w, [], Some failure)
                  | None \<Rightarrow>
                      (case ctx of
                         None \<Rightarrow> (w, [], Some (fail_at first ErrContextRequired))
                       | Some err \<Rightarrow>
                           (case limiter of
                              None \<Rightarrow> (w, [], Some (fail_at first ErrLimiterRequired))
                            | Some consume \<Rightarrow> consume_requests err consume w requests)))))"

text \<open>The loop of \<open>Requests\<close>, from a given index on.\<close>

fun bind_keys :: "Policy \<Rightarrow> nat \<Rightarrow> BucketKey list \<Rightarrow> 'x rl_error + ConsumptionRequest list" where
  "bind_keys policy index [] = Inr []"
| "bind_keys policy index (key # rest) =
     (case BucketKey_validate key of
        Inl e \<Rightarrow> Inl (ErrBucketAt (po_operation policy) index e)
      | Inr _ \<Rightarrow>
          if bk_dimension key \<noteq> po_dimensions policy ! index then
            Inl (ErrBucketDimension (po_operation policy) index (po_dimensions policy ! index) (bk_dimension key))
          else and_then (bind_keys policy (index + 1) rest) (\<lambda>requests.
            Inr (\<lparr>cr_operation = po_operation policy, cr_bucket = key\<rparr> # requests)))"

definition Requests :: "Policy \<Rightarrow> BucketKey list \<Rightarrow> 'x rl_error + ConsumptionRequest list" where
  "Requests policy keys =
     and_then (PolicyFor (po_operation policy)) (\<lambda>_.
       if length keys \<noteq> unat (po_count policy) then
         Inl (ErrBucketCount (po_operation policy) (po_count policy) (length keys))
       else bind_keys policy 0 keys)"

definition Policy_Consume ::
  "Policy \<Rightarrow> ('w, 'x) context_err option \<Rightarrow> ('w, 'x) rate_limiter option \<Rightarrow> 'w \<Rightarrow> BucketKey list \<Rightarrow>
     'w \<times> ConsumptionRequest list \<times> 'x Failure option" where
  "Policy_Consume policy ctx limiter w keys =
     (case Requests policy keys of
        Inl e \<Rightarrow> (w, [], Some (unavailableFailure (po_operation policy) [] e))
      | Inr requests \<Rightarrow> ConsumeInOrder ctx limiter w requests)"

section \<open>Observed consumption\<close>

text \<open>
  The decorator of the API server (\<open>apps/api/internal/transport/ratelimit/limiter.go\<close>) around a limiter. The observer,
  when there is one, receives the labels and one of three words; its effect is a function on the world.
\<close>

definition observed_Consume ::
  "('w, 'x) rate_limiter option \<Rightarrow> (Operation \<Rightarrow> Dimension \<Rightarrow> string \<Rightarrow> 'w \<Rightarrow> 'w) option \<Rightarrow> 'x \<Rightarrow> ('w, 'x) rate_limiter" where
  "observed_Consume delegate observer unavailable w request =
     (case delegate of
        None \<Rightarrow> (w, Inl unavailable)
      | Some consume \<Rightarrow>
          (case consume w request of
             (w', answer) \<Rightarrow>
               (let result = (case answer of
                                Inl e \<Rightarrow> ''unavailable''
                              | Inr decision \<Rightarrow> if \<not> de_Allowed decision then ''rejected'' else ''allowed'') in
                ((case observer of
                    None \<Rightarrow> w'
                  | Some observe \<Rightarrow> observe (cr_operation request) (bk_dimension (cr_bucket request)) result w'),
                 answer))))"

end
