(* ===== verification/Selector.thy ===== *)
theory Selector
  imports Text
begin

text \<open>
  Public lookup keys (\<open>platform/identifier/selector.go\<close>) and the operation identifiers and request digests that are
  built on them (\<open>platform/idempotency/idempotency.go\<close>). A selector is random bytes in base64; it is a key of tables and
  caches, so two texts must never name the same bytes.
\<close>

section \<open>Selectors\<close>

definition MinimumSelectorBytes :: nat where "MinimumSelectorBytes = 16"
definition MaximumSelectorBytes :: nat where "MaximumSelectorBytes = 64"
definition maximumSelectorEncodedBytes :: nat where
  "maximumSelectorEncodedBytes = (MaximumSelectorBytes * 8 + 5) div 6"

datatype selector_error = ErrInvalidSelector

record Selector =
  sel_value :: string
  sel_byteLength :: u8

definition NewSelector :: "u8 list \<Rightarrow> selector_error + Selector" where
  "NewSelector entropy =
     (if length entropy < MinimumSelectorBytes \<or> length entropy > MaximumSelectorBytes then Inl ErrInvalidSelector
      else Inr \<lparr>sel_value = EncodeToString entropy, sel_byteLength = of_nat (length entropy)\<rparr>)"

definition ParseSelector :: "string \<Rightarrow> selector_error + Selector" where
  "ParseSelector input =
     (if length input > maximumSelectorEncodedBytes then Inl ErrInvalidSelector
      else case DecodeString input of
        None \<Rightarrow> Inl ErrInvalidSelector
      | Some decoded \<Rightarrow>
          if length decoded < MinimumSelectorBytes \<or> length decoded > MaximumSelectorBytes then Inl ErrInvalidSelector
          else if EncodeToString decoded \<noteq> input then Inl ErrInvalidSelector
          else Inr \<lparr>sel_value = input, sel_byteLength = of_nat (length decoded)\<rparr>)"

definition ByteLength :: "Selector \<Rightarrow> nat" where "ByteLength selector = unat (sel_byteLength selector)"

section \<open>Operation identifiers and digests\<close>

definition DigestSize :: nat where "DigestSize = 32"

datatype idempotency_error = ErrInvalidInput | ErrConflict

type_synonym Digest = "u8 list"

definition NewDigest :: "u8 list \<Rightarrow> idempotency_error + Digest" where
  "NewDigest value = (if length value \<noteq> DigestSize then Inl ErrInvalidInput else Inr value)"

definition Digest_Bytes :: "Digest \<Rightarrow> u8 list" where "Digest_Bytes digest = digest"

record OperationID =
  oi_selector :: Selector

definition NewOperationID :: "u8 list \<Rightarrow> idempotency_error + OperationID" where
  "NewOperationID entropy =
     (case NewSelector entropy of
        Inl e \<Rightarrow> Inl ErrInvalidInput
      | Inr selector \<Rightarrow> Inr \<lparr>oi_selector = selector\<rparr>)"

definition ParseOperationID :: "string \<Rightarrow> idempotency_error + OperationID" where
  "ParseOperationID value =
     (case ParseSelector value of
        Inl e \<Rightarrow> Inl ErrInvalidInput
      | Inr selector \<Rightarrow> Inr \<lparr>oi_selector = selector\<rparr>)"

definition OperationID_Value :: "OperationID \<Rightarrow> string" where
  "OperationID_Value operationID = sel_value (oi_selector operationID)"

definition OperationID_Valid :: "OperationID \<Rightarrow> bool" where
  "OperationID_Valid operationID \<longleftrightarrow> ByteLength (oi_selector operationID) \<ge> MinimumSelectorBytes"

section \<open>Canonical texts\<close>

lemmas selector_bounds = MinimumSelectorBytes_def MaximumSelectorBytes_def maximumSelectorEncodedBytes_def

lemma NewSelector_Inr:
  "NewSelector entropy = Inr s \<longleftrightarrow>
     16 \<le> length entropy \<and> length entropy \<le> 64 \<and>
     s = \<lparr>sel_value = EncodeToString entropy, sel_byteLength = of_nat (length entropy)\<rparr>"
  by (auto simp: NewSelector_def selector_bounds)

text \<open>Parsing accepts exactly the texts that encoding produces, and gives the selector back.\<close>

lemma ParseSelector_iff: "ParseSelector input = Inr s \<longleftrightarrow> (\<exists>entropy. NewSelector entropy = Inr s) \<and> sel_value s = input"
proof
  assume "ParseSelector input = Inr s"
  then obtain decoded where "16 \<le> length decoded" "length decoded \<le> 64" "EncodeToString decoded = input"
    "s = \<lparr>sel_value = input, sel_byteLength = of_nat (length decoded)\<rparr>"
    by (auto simp: ParseSelector_def selector_bounds split: if_splits option.splits)
  then have "NewSelector decoded = Inr s" by (simp add: NewSelector_Inr)
  with \<open>s = _\<close> show "(\<exists>entropy. NewSelector entropy = Inr s) \<and> sel_value s = input" by auto
next
  assume "(\<exists>entropy. NewSelector entropy = Inr s) \<and> sel_value s = input"
  then obtain entropy where "16 \<le> length entropy" "length entropy \<le> 64" "input = EncodeToString entropy"
    "s = \<lparr>sel_value = EncodeToString entropy, sel_byteLength = of_nat (length entropy)\<rparr>"
    by (auto simp: NewSelector_Inr)
  then show "ParseSelector input = Inr s"
    by (simp add: ParseSelector_def selector_bounds length_EncodeToString)
qed

lemma ByteLength_NewSelector:
  assumes "NewSelector entropy = Inr s"
  shows "ByteLength s = length entropy"
proof -
  from assms have "length entropy < 256" "sel_byteLength s = of_nat (length entropy)" by (auto simp: NewSelector_Inr)
  then show ?thesis by (simp add: ByteLength_def unat_of_nat)
qed

lemma NewOperationID_Inr:
  "NewOperationID entropy = Inr oid \<longleftrightarrow> (\<exists>s. NewSelector entropy = Inr s \<and> oid = \<lparr>oi_selector = s\<rparr>)"
  by (auto simp: NewOperationID_def split: sum.splits)

lemma ParseOperationID_Inr:
  "ParseOperationID value = Inr oid \<longleftrightarrow> (\<exists>s. ParseSelector value = Inr s \<and> oid = \<lparr>oi_selector = s\<rparr>)"
  by (auto simp: ParseOperationID_def split: sum.splits)

section \<open>Properties\<close>

text \<open>
  C40: Operation identifiers are canonical. The accepted texts are exactly those that encoding produces from 16 to 64
  bytes; a text is read back as the identifier it was printed from, that identifier is valid and reports the length of its
  bytes, and it determines those bytes: no two texts name the same ones, and no two byte strings share a text.
\<close>

theorem operation_id_canonical:
  "ParseOperationID text = Inr oid \<longleftrightarrow>
     (\<exists>!entropy. NewOperationID entropy = Inr oid \<and> OperationID_Value oid = text \<and> OperationID_Valid oid \<and>
        ByteLength (oi_selector oid) = length entropy)"
proof
  assume "ParseOperationID text = Inr oid"
  then obtain s entropy where s: "NewSelector entropy = Inr s" "sel_value s = text" "oid = \<lparr>oi_selector = s\<rparr>"
    by (auto simp: ParseOperationID_Inr ParseSelector_iff)
  have "ByteLength s = length entropy" by (rule ByteLength_NewSelector [OF s(1)])
  moreover from s(1) have "16 \<le> length entropy" by (simp add: NewSelector_Inr)
  ultimately show "\<exists>!entropy. NewOperationID entropy = Inr oid \<and> OperationID_Value oid = text \<and>
      OperationID_Valid oid \<and> ByteLength (oi_selector oid) = length entropy"
    using s by (intro ex1I [of _ entropy])
      (auto simp: NewOperationID_Inr OperationID_Value_def OperationID_Valid_def selector_bounds NewSelector_Inr)
next
  assume "\<exists>!entropy. NewOperationID entropy = Inr oid \<and> OperationID_Value oid = text \<and> OperationID_Valid oid \<and>
        ByteLength (oi_selector oid) = length entropy"
  then show "ParseOperationID text = Inr oid"
    by (auto simp: NewOperationID_Inr ParseOperationID_Inr ParseSelector_iff OperationID_Value_def)
qed

end
