(* ===== verification/RateBucket.thy ===== *)
theory RateBucket
  imports Complex_Main RateLimit Selector
begin

text \<open>
  The limiter over Redis (\<open>platform/persistence/redis\<close>: \<open>rules.go\<close>, \<open>script.go\<close>, \<open>limiter.go\<close>) and the keyring
  that names its buckets (\<open>platform/security/hmac.go\<close> and the lookups of \<open>keyring.go\<close>).

  \<^item> \<open>token_bucket\<close> is the Lua script as a function of the time of the server and the two fields it reads. Lua numbers
    are doubles: \<open>fl\<close> is the rounding of each operation whose exact result need not be an integer.
  \<^item> Redis itself is not modelled. The script runs one after the other; between two runs on a key the fields stay
    or the key has expired. \<open>honoured\<close> says that the clock does not go back and that a key lives as long as \<open>PEXPIRE\<close> said.
  \<^item> The HMAC of the standard library is an argument of the functions that use it.
\<close>

section \<open>The token bucket\<close>

record bucket =
  bu_tokens :: rat
  bu_updated :: int

definition token_bucket ::
  "(rat \<Rightarrow> rat) \<Rightarrow> int \<Rightarrow> int \<Rightarrow> int \<Rightarrow> rat option \<times> int option \<Rightarrow> bucket \<times> int \<times> int" where
  "token_bucket fl capacity refill_every_us now_us stored =
     (let (tokens, updated_us) =
            (case stored of
               (Some tokens, Some updated_us) \<Rightarrow> (tokens, if now_us < updated_us then now_us else updated_us)
             | _ \<Rightarrow> (of_int capacity, now_us));
          tokens = min (of_int capacity) (fl (tokens + fl (of_int (now_us - updated_us) / of_int refill_every_us))) in
      if tokens \<ge> 1 then (\<lparr>bu_tokens = fl (tokens - 1), bu_updated = now_us\<rparr>, 1, 0)
      else (\<lparr>bu_tokens = tokens, bu_updated = now_us\<rparr>, 0,
            max 1 \<lceil>fl (fl (fl (1 - tokens) * of_int refill_every_us) / 1000)\<rceil>))"

section \<open>Rules\<close>

abbreviation Millisecond :: int where "Millisecond \<equiv> 1000000"
abbreviation Second :: int where "Second \<equiv> 1000 * Millisecond"
abbreviation Minute :: int where "Minute \<equiv> 60 * Second"

definition Microseconds :: "int \<Rightarrow> int" where "Microseconds d = d div 1000"
definition Milliseconds :: "int \<Rightarrow> int" where "Milliseconds d = d div Millisecond"

record Rule =
  ru_Capacity :: u32
  ru_RefillEvery :: int
  ru_TTL :: int

text \<open>A Go map is a list of its entries.\<close>

type_synonym Rules = "(Operation \<times> (Dimension \<times> Rule) list) list"

definition standardRule :: "u32 \<Rightarrow> int \<Rightarrow> Rule" where
  "standardRule capacity refillEvery =
     \<lparr>ru_Capacity = capacity, ru_RefillEvery = refillEvery, ru_TTL = 2 * uint capacity * refillEvery\<rparr>"

definition StandardRules :: Rules where
  "StandardRules =
     [(OperationIdentityBootstrap, [(DimensionIP, standardRule 12 (10 * Second))]),
      (OperationUsernameCheck,
        [(DimensionIP, standardRule 60 Second), (DimensionDevice, standardRule 30 (2 * Second)),
         (DimensionUsername, standardRule 10 (6 * Second))]),
      (OperationUsernameClaim,
        [(DimensionIP, standardRule 20 (3 * Second)), (DimensionDevice, standardRule 10 (6 * Second)),
         (DimensionUsername, standardRule 5 (12 * Second))]),
      (OperationIdentityRecoveryLookup,
        [(DimensionIP, standardRule 12 (30 * Second)), (DimensionRecoverySelector, standardRule 5 Minute)]),
      (OperationIdentityRecoveryResolved, [(DimensionUser, standardRule 5 (5 * Minute))]),
      (OperationAdminPasswordLogin,
        [(DimensionIP, standardRule 10 Minute), (DimensionAdminAccount, standardRule 5 (3 * Minute))]),
      (OperationAdminSecondFactor,
        [(DimensionIP, standardRule 20 (30 * Second)), (DimensionAdminAccount, standardRule 10 Minute),
         (DimensionFlowPurpose, standardRule 5 Minute)]),
      (OperationRealNameRead,
        [(DimensionAdminSession, standardRule 60 Second), (DimensionTargetUser, standardRule 30 (2 * Second))]),
      (OperationRealNameUpdate,
        [(DimensionAdminSession, standardRule 20 (3 * Second)), (DimensionTargetUser, standardRule 10 (6 * Second))])]"

definition supportedOperations :: "Operation list" where
  "supportedOperations =
     [OperationIdentityBootstrap, OperationUsernameCheck, OperationUsernameClaim, OperationIdentityRecoveryLookup,
      OperationIdentityRecoveryResolved, OperationAdminPasswordLogin, OperationAdminSecondFactor, OperationRealNameRead,
      OperationRealNameUpdate]"

definition containsOperation :: "Operation \<Rightarrow> bool" where
  "containsOperation candidate \<longleftrightarrow> list_ex (\<lambda>operation. candidate = operation) supportedOperations"

text \<open>Go's division of \<open>MaxInt64\<close> by zero does not happen: the capacity is checked first.\<close>

definition validRule :: "Rule \<Rightarrow> bool" where
  "validRule rule \<longleftrightarrow>
     (if ru_Capacity rule = 0 \<or> ru_RefillEvery rule < Millisecond \<or> ru_TTL rule < Millisecond \<or>
         ru_RefillEvery rule > MaxInt64 div uint (ru_Capacity rule) then False
      else ru_TTL rule \<ge> uint (ru_Capacity rule) * ru_RefillEvery rule)"

datatype rules_error = ErrInvalidRules

text \<open>The two nested loops over the operations and the dimensions of their policies.\<close>

fun clone_dimensions :: "(Dimension \<times> Rule) list \<Rightarrow> Dimension list \<Rightarrow> rules_error + (Dimension \<times> Rule) list" where
  "clone_dimensions rules [] = Inr []"
| "clone_dimensions rules (dimension # rest) =
     (case map_of rules dimension of
        None \<Rightarrow> Inl ErrInvalidRules
      | Some rule \<Rightarrow>
          if \<not> validRule rule then Inl ErrInvalidRules
          else and_then (clone_dimensions rules rest) (\<lambda>clones. Inr ((dimension, rule) # clones)))"

fun clone_operations :: "Rules \<Rightarrow> Operation list \<Rightarrow> rules_error + Rules" where
  "clone_operations rules [] = Inr []"
| "clone_operations rules (operation # rest) =
     (case policies operation of
        None \<Rightarrow> Inl ErrInvalidRules
      | Some policy \<Rightarrow>
          (case map_of rules operation of
             None \<Rightarrow> Inl ErrInvalidRules
           | Some dimensions \<Rightarrow>
               if length dimensions \<noteq> length (Policy_Dimensions policy) then Inl ErrInvalidRules
               else and_then (clone_dimensions dimensions (Policy_Dimensions policy)) (\<lambda>cloned.
                 and_then (clone_operations rules rest) (\<lambda>clones. Inr ((operation, cloned) # clones)))))"

definition validateAndCloneRules :: "Rules \<Rightarrow> rules_error + Rules" where
  "validateAndCloneRules rules =
     (if length rules \<noteq> length supportedOperations then Inl ErrInvalidRules
      else and_then (clone_operations rules supportedOperations) (\<lambda>result.
        if list_ex (\<lambda>(operation, _). \<not> containsOperation operation) rules then Inl ErrInvalidRules
        else Inr result))"

section \<open>The keyring\<close>

text \<open>A Go string as its bytes.\<close>

definition bytes_of :: "string \<Rightarrow> u8 list" where "bytes_of s = map (\<lambda>c. of_nat (of_char c)) s"

record symmetricKeys =
  sk_activeVersion :: u32
  sk_keys :: "u32 \<Rightarrow> u8 list"

datatype security_error = ErrAuthenticationInput | ErrUnknownKeyVersion

record MAC =
  mac_KeyVersion :: u32
  mac_Value :: "u8 list"

type_synonym hmac = "u8 list \<Rightarrow> u8 list \<Rightarrow> u8 list"

definition active :: "symmetricKeys \<Rightarrow> u32 \<times> u8 list" where
  "active keys = (sk_activeVersion keys, sk_keys keys (sk_activeVersion keys))"

definition Sum :: "hmac \<Rightarrow> symmetricKeys \<Rightarrow> u8 list \<Rightarrow> security_error + MAC" where
  "Sum hmac keys value =
     (if value = [] then Inl ErrAuthenticationInput
      else let (version, key) = active keys in Inr \<lparr>mac_KeyVersion = version, mac_Value = hmac key value\<rparr>)"

section \<open>The limiter\<close>

datatype 'c redis_error = RedisUnavailable | ContextErr 'c

text \<open>\<open>strconv.Itoa\<close> of a natural number.\<close>

fun decimal :: "nat \<Rightarrow> string" where
  "decimal n = (if n < 10 then [char_of (48 + n)] else decimal (n div 10) @ [char_of (48 + n mod 10)])"

declare decimal.simps [simp del]

text \<open>The pattern \<^verbatim>\<open>^[A-Za-z0-9][A-Za-z0-9:_-]{0,62}:$\<close> of a key prefix.\<close>

definition prefix_alnum :: "char \<Rightarrow> bool" where
  "prefix_alnum c \<longleftrightarrow>
     (let n = of_char c :: nat in (65 \<le> n \<and> n \<le> 90) \<or> (97 \<le> n \<and> n \<le> 122) \<or> (48 \<le> n \<and> n \<le> 57))"

definition redisKeyPrefixPattern :: "string \<Rightarrow> bool" where
  "redisKeyPrefixPattern s \<longleftrightarrow>
     2 \<le> length s \<and> length s \<le> 64 \<and> prefix_alnum (hd s) \<and>
     list_all (\<lambda>c. prefix_alnum c \<or> c = CHR '':'' \<or> c = CHR ''_'' \<or> c = CHR ''-'') (butlast (tl s)) \<and> last s = CHR '':''"

definition maximumOperationTimeout :: int where "maximumOperationTimeout = 30 * Second"

datatype limiter_error = ErrInvalidConfig

record Limiter =
  li_keyring :: symmetricKeys
  li_keyPrefix :: string
  li_timeout :: int
  li_rules :: Rules

text \<open>\<open>client\<close> says whether there is a client; the keyring is \<open>None\<close> for nil.\<close>

definition NewLimiter :: "bool \<Rightarrow> symmetricKeys option \<Rightarrow> string \<Rightarrow> int \<Rightarrow> Rules \<Rightarrow> limiter_error + Limiter" where
  "NewLimiter client keyring keyPrefix timeout rules =
     (case keyring of
        None \<Rightarrow> Inl ErrInvalidConfig
      | Some keys \<Rightarrow>
          if \<not> client \<or> \<not> redisKeyPrefixPattern keyPrefix \<or> timeout < Millisecond \<or> timeout > maximumOperationTimeout then
            Inl ErrInvalidConfig
          else
            (case validateAndCloneRules rules of
               Inl _ \<Rightarrow> Inl ErrInvalidConfig
             | Inr cloned \<Rightarrow>
                 Inr \<lparr>li_keyring = keys, li_keyPrefix = keyPrefix, li_timeout = timeout, li_rules = cloned\<rparr>))"

definition storageKey :: "hmac \<Rightarrow> Limiter \<Rightarrow> ConsumptionRequest \<Rightarrow> 'c redis_error + string" where
  "storageKey hmac limiter request =
     (let operation = cr_operation request; dimension = bk_dimension (cr_bucket request) in
      case Sum hmac (li_keyring limiter)
             (bytes_of (operation @ [CHR 0x00] @ dimension @ [CHR 0x00] @ Reveal (bk_value (cr_bucket request)))) of
        Inl e \<Rightarrow> Inl RedisUnavailable
      | Inr mac \<Rightarrow>
          if mac_KeyVersion mac = 0 \<or> mac_Value mac = [] then Inl RedisUnavailable
          else Inr (li_keyPrefix limiter @ ''ratelimit:v'' @ decimal (unat (mac_KeyVersion mac)) @ '':'' @ operation @ '':'' @
                    dimension @ '':'' @ EncodeToString (mac_Value mac)))"

text \<open>A value of the reply of the script: an integer, or anything else.\<close>

datatype script_value = ScriptInt int | ScriptOther

fun parseScriptDecision :: "script_value list \<Rightarrow> (bool \<times> int) option" where
  "parseScriptDecision [ScriptInt allowed, ScriptInt retryMilliseconds] =
     (if (allowed \<noteq> 0 \<and> allowed \<noteq> 1) \<or> retryMilliseconds < 0 \<or> (allowed = 1 \<and> retryMilliseconds \<noteq> 0) \<or>
         (allowed = 0 \<and> retryMilliseconds = 0) then None
      else Some (allowed = 1, retryMilliseconds))"
| "parseScriptDecision _ = None"

text \<open>Multiplication of 64-bit durations wraps around.\<close>

definition wrap64 :: "int \<Rightarrow> int" where "wrap64 x = (x + 2 ^ 63) mod 2 ^ 64 - 2 ^ 63"

text \<open>
  \<open>run\<close> runs the script on a key with the three arguments, within the timeout of the limiter; it may fail. The receiver and
  the context may be nil.
\<close>

type_synonym ('w, 'c) script_runner = "'w \<Rightarrow> string \<Rightarrow> int \<Rightarrow> int \<Rightarrow> int \<Rightarrow> 'w \<times> ('c + script_value list)"

definition Limiter_Consume ::
  "hmac \<Rightarrow> ('w, 'c) script_runner \<Rightarrow> ('w, 'c) context_err option \<Rightarrow> Limiter option \<Rightarrow> ('w, 'c redis_error) rate_limiter" where
  "Limiter_Consume hmac run ctx receiver w request =
     (case (receiver, ctx) of
        (Some limiter, Some err) \<Rightarrow>
          (case Request_Validate request :: unit rl_error + unit of
             Inl _ \<Rightarrow> (w, Inl RedisUnavailable)
           | Inr _ \<Rightarrow>
               (case map_of (case map_of (li_rules limiter) (cr_operation request) of None \<Rightarrow> [] | Some ds \<Rightarrow> ds)
                       (bk_dimension (cr_bucket request)) of
                  None \<Rightarrow> (w, Inl RedisUnavailable)
                | Some rule \<Rightarrow>
                    (case storageKey hmac limiter request :: 'c redis_error + string of
                       Inl e \<Rightarrow> (w, Inl RedisUnavailable)
                     | Inr key \<Rightarrow>
                         (case run w key (uint (ru_Capacity rule)) (Microseconds (ru_RefillEvery rule)) (Milliseconds (ru_TTL rule)) of
                            (w', Inl _) \<Rightarrow>
                              (w', Inl (case err w' of Some e \<Rightarrow> ContextErr e | None \<Rightarrow> RedisUnavailable))
                          | (w', Inr values) \<Rightarrow>
                              (w', case parseScriptDecision values of
                                     None \<Rightarrow> Inl RedisUnavailable
                                   | Some (allowed, retryMilliseconds) \<Rightarrow>
                                       if allowed then Inr Allow
                                       else Inr (Reject (wrap64 (retryMilliseconds * Millisecond))))))))
      | _ \<Rightarrow> (w, Inl RedisUnavailable))"

section \<open>Runs of the script on one key\<close>

text \<open>A run at a time of the server; \<open>kept\<close> is false when the key has expired before it.\<close>

record call =
  ca_now :: int
  ca_kept :: bool

fun bucket_calls :: "(rat \<Rightarrow> rat) \<Rightarrow> int \<Rightarrow> int \<Rightarrow> rat option \<times> int option \<Rightarrow> call list \<Rightarrow> (int \<times> int) list" where
  "bucket_calls fl capacity refill stored [] = []"
| "bucket_calls fl capacity refill stored (c # cs) =
     (let (b, allowed, retry) =
            token_bucket fl capacity refill (ca_now c) (if ca_kept c then stored else (None, None)) in
      (allowed, retry) # bucket_calls fl capacity refill (Some (bu_tokens b), Some (bu_updated b)) cs)"

fun honoured :: "int \<Rightarrow> int \<Rightarrow> call list \<Rightarrow> bool" where
  "honoured ttl_ms since [] \<longleftrightarrow> True"
| "honoured ttl_ms since (c # cs) \<longleftrightarrow>
     since \<le> ca_now c \<and> (ca_kept c \<or> since + ttl_ms * 1000 \<le> ca_now c) \<and> honoured ttl_ms (ca_now c) cs"

end
