(* ===== verification/RateProps.thy ===== *)
theory RateProps
  imports RateLimit
begin

text \<open>
  What the rate limiting port guarantees: which keys a policy accepts, and what the loop over the requests has asked of
  the limiter when it returns.
\<close>

section \<open>The table of policies\<close>

lemma policies_init_known: "policies_init = Some
   [\<lparr>po_operation = OperationIdentityBootstrap, po_dimensions = [DimensionIP, [], []], po_count = 1\<rparr>,
    \<lparr>po_operation = OperationUsernameCheck, po_dimensions = [DimensionIP, DimensionDevice, DimensionUsername], po_count = 3\<rparr>,
    \<lparr>po_operation = OperationUsernameClaim, po_dimensions = [DimensionIP, DimensionDevice, DimensionUsername], po_count = 3\<rparr>,
    \<lparr>po_operation = OperationIdentityRecoveryLookup, po_dimensions = [DimensionIP, DimensionRecoverySelector, []], po_count = 2\<rparr>,
    \<lparr>po_operation = OperationIdentityRecoveryResolved, po_dimensions = [DimensionUser, [], []], po_count = 1\<rparr>,
    \<lparr>po_operation = OperationAdminPasswordLogin, po_dimensions = [DimensionIP, DimensionAdminAccount, []], po_count = 2\<rparr>,
    \<lparr>po_operation = OperationAdminSecondFactor, po_dimensions = [DimensionIP, DimensionAdminAccount, DimensionFlowPurpose], po_count = 3\<rparr>,
    \<lparr>po_operation = OperationRealNameRead, po_dimensions = [DimensionAdminSession, DimensionTargetUser, []], po_count = 2\<rparr>,
    \<lparr>po_operation = OperationRealNameUpdate, po_dimensions = [DimensionAdminSession, DimensionTargetUser, []], po_count = 2\<rparr>]"
  by (simp add: policies_init_def newPolicy_def numeral_3_eq_3 numeral_2_eq_2)

lemma policies_SomeD:
  assumes "policies op = Some p"
  shows "po_operation p = op" and "length (po_dimensions p) = 3" and "1 \<le> unat (po_count p)" and "unat (po_count p) \<le> 3"
    and "list_all Dimension_Valid (Policy_Dimensions p)" and "distinct (Policy_Dimensions p)"
proof -
  let ?ok = "\<lambda>p. length (po_dimensions p) = 3 \<and> 1 \<le> unat (po_count p) \<and> unat (po_count p) \<le> 3 \<and>
    list_all Dimension_Valid (Policy_Dimensions p) \<and> distinct (Policy_Dimensions p)"
  have "list_all ?ok (the policies_init)"
    unfolding policies_init_known by (simp add: Policy_Dimensions_def Dimension_Valid_def)
  moreover from assms have "(op, p) \<in> set (map (\<lambda>p. (po_operation p, p)) (the policies_init))"
    unfolding policies_def policies_init_known option.case option.sel by (rule map_of_SomeD)
  then have "po_operation p = op \<and> p \<in> set (the policies_init)" by fastforce
  ultimately show "po_operation p = op" "length (po_dimensions p) = 3" "1 \<le> unat (po_count p)" "unat (po_count p) \<le> 3"
    "list_all Dimension_Valid (Policy_Dimensions p)" "distinct (Policy_Dimensions p)"
    unfolding list_all_iff by blast+
qed


section \<open>What a policy accepts\<close>

text \<open>The keys fit the policy: one valid key for each of its dimensions, in its order.\<close>

definition bound_to :: "Policy \<Rightarrow> BucketKey list \<Rightarrow> bool" where
  "bound_to policy keys \<longleftrightarrow>
     map bk_dimension keys = Policy_Dimensions policy \<and> list_all (\<lambda>k. BucketValue_valid (bk_value k)) keys"

definition requests_of :: "Policy \<Rightarrow> BucketKey list \<Rightarrow> ConsumptionRequest list" where
  "requests_of policy keys = map (\<lambda>k. \<lparr>cr_operation = po_operation policy, cr_bucket = k\<rparr>) keys"

lemma PolicyFor_Inr [simp]: "PolicyFor op = Inr p \<longleftrightarrow> policies op = Some p"
  by (simp add: PolicyFor_def split: option.split)

lemma BucketKey_validate_Inr: "BucketKey_validate k = Inr u \<longleftrightarrow> Dimension_Valid (bk_dimension k) \<and> BucketValue_valid (bk_value k)"
  by (simp add: BucketKey_validate_def)

lemma bound_to_length: "policies op = Some p \<Longrightarrow> bound_to p keys \<Longrightarrow> length keys = unat (po_count p)"
  using policies_SomeD(2,4) [of op p] by (metis bound_to_def Policy_Dimensions_def length_map length_take min.absorb2)

lemma bind_keys_Inr:
  assumes p: "policies op = Some p" and "i + length keys = unat (po_count p)"
  shows "bind_keys p i keys = Inr rs \<longleftrightarrow>
     map bk_dimension keys = drop i (Policy_Dimensions p) \<and> list_all (\<lambda>k. BucketValue_valid (bk_value k)) keys \<and>
     rs = requests_of p keys"
  using assms(2)
proof (induction keys arbitrary: i rs)
  case Nil
  then show ?case by (auto simp: requests_of_def Policy_Dimensions_def)
next
  case (Cons k keys)
  from Cons.prems policies_SomeD(2,4) [OF p] have i: "i < length (Policy_Dimensions p)"
    by (simp add: Policy_Dimensions_def)
  then have d: "drop i (Policy_Dimensions p) = po_dimensions p ! i # drop (i + 1) (Policy_Dimensions p)"
    by (metis Cons_nth_drop_Suc Policy_Dimensions_def Suc_eq_plus1 length_take min_less_iff_conj nth_take)
  have v: "Dimension_Valid (po_dimensions p ! i)"
    using policies_SomeD(5) [OF p] d by (metis in_set_dropD list.set_intros(1) list_all_iff)
  from Cons.prems have "Suc i + length keys = unat (po_count p)" by simp
  note IH = Cons.IH [OF this]
  show ?case
    using v by (cases "BucketKey_validate k")
      (auto simp: d BucketKey_validate_Inr and_then_eq_Inr IH requests_of_def BucketKey_validate_def split: if_splits)
qed

lemma Requests_Inr:
  assumes "policies op = Some p"
  shows "Requests p keys = Inr rs \<longleftrightarrow> bound_to p keys \<and> rs = requests_of p keys"
proof (cases "length keys = unat (po_count p)")
  case True
  with bind_keys_Inr [OF assms, of 0 keys rs] policies_SomeD(1) [OF assms] assms show ?thesis
    by (simp add: Requests_def and_then_eq_Inr bound_to_def)
next
  case False
  with bound_to_length [OF assms] show ?thesis by (auto simp: Requests_def and_then_eq_Inr)
qed

lemma contains_iff:
  assumes "policies op = Some p"
  shows "contains p d \<longleftrightarrow> d \<in> set (Policy_Dimensions p)"
  using policies_SomeD(2,4) [OF assms]
  by (auto simp: contains_def list_ex_iff Policy_Dimensions_def in_set_conv_nth)

lemma Request_Validate_Inr:
  assumes "policies op = Some p" and "cr_operation r = op"
  shows "Request_Validate r = Inr u \<longleftrightarrow> BucketValue_valid (bk_value (cr_bucket r)) \<and> bk_dimension (cr_bucket r) \<in> set (Policy_Dimensions p)"
  using assms policies_SomeD(5) [OF assms(1)]
  by (auto simp: Request_Validate_def request_check_def and_then_eq_Inr BucketKey_validate_Inr contains_iff list_all_iff)

lemma Request_Validate_ok:
  assumes "policies op = Some p" and "BucketValue_valid (bk_value k)" and "bk_dimension k \<in> set (Policy_Dimensions p)"
  shows "Request_Validate \<lparr>cr_operation = po_operation p, cr_bucket = k\<rparr> = Inr ()"
  using assms policies_SomeD(1) [OF assms(1)] by (simp add: Request_Validate_Inr [OF assms(1)])

lemma check_requests_bound:
  assumes p: "policies op = Some p" and "i + length keys = unat (po_count p)"
    and "map bk_dimension keys = drop i (Policy_Dimensions p)" and "list_all (\<lambda>k. BucketValue_valid (bk_value k)) keys"
  shows "check_requests p i (requests_of p keys) = None"
  using assms(2-)
proof (induction keys arbitrary: i)
  case (Cons k keys)
  from Cons.prems policies_SomeD(2,4) [OF p] have i: "i < length (Policy_Dimensions p)"
    by (simp add: Policy_Dimensions_def)
  then have d: "drop i (Policy_Dimensions p) = po_dimensions p ! i # drop (i + 1) (Policy_Dimensions p)"
    by (metis Cons_nth_drop_Suc Policy_Dimensions_def Suc_eq_plus1 length_take min_less_iff_conj nth_take)
  then have m: "po_dimensions p ! i \<in> set (Policy_Dimensions p)" by (metis in_set_dropD list.set_intros(1))
  from Cons.prems d have k: "bk_dimension k = po_dimensions p ! i"
    and rest: "map bk_dimension keys = drop (i + 1) (Policy_Dimensions p)" by auto
  from Cons.prems k m have "BucketValue_valid (bk_value k)" "bk_dimension k \<in> set (Policy_Dimensions p)" by auto
  note ok = Request_Validate_ok [OF p this]
  from Cons.IH [OF _ rest] Cons.prems k show ?case by (simp add: requests_of_def ok)
qed (simp add: requests_of_def)

text \<open>On the requests of a policy, only the context, the limiter and the answers are left to fail.\<close>

lemma ConsumeInOrder_requests:
  assumes "policies op = Some p" and "bound_to p keys"
  shows "ConsumeInOrder ctx limiter w (requests_of p keys) =
    (case ctx of
       None \<Rightarrow> (w, [], Some (fail_at (hd (requests_of p keys)) ErrContextRequired))
     | Some err \<Rightarrow>
         (case limiter of
            None \<Rightarrow> (w, [], Some (fail_at (hd (requests_of p keys)) ErrLimiterRequired))
          | Some consume \<Rightarrow> consume_requests err consume w (requests_of p keys)))"
proof -
  from bound_to_length [OF assms] policies_SomeD(3) [OF assms(1)] obtain k ks where keys: "keys = k # ks"
    by (cases keys) auto
  have "0 + length keys = unat (po_count p)" "map bk_dimension keys = drop 0 (Policy_Dimensions p)"
    "list_all (\<lambda>k. BucketValue_valid (bk_value k)) keys"
    using assms bound_to_length [OF assms] by (auto simp: bound_to_def)
  note c = check_requests_bound [OF assms(1) this, unfolded keys requests_of_def list.map policies_SomeD(1) [OF assms(1)]]
  have "unat (po_count p) = Suc (length ks)" using bound_to_length [OF assms] keys by simp
  with assms(1) show ?thesis
    unfolding ConsumeInOrder_def keys requests_of_def list.map list.sel list.case policies_SomeD(1) [OF assms(1)]
    by (simp add: PolicyFor_def c del: check_requests.simps)
qed

lemma Policy_Consume_eq:
  fixes ctx :: "('w, 'x) context_err option"
  assumes "policies op = Some p"
  shows "Policy_Consume p ctx limiter w keys =
    (if bound_to p keys then ConsumeInOrder ctx limiter w (requests_of p keys)
     else (w, [], Some (unavailableFailure op [] (projl (Requests p keys)))))"
proof (cases "Requests p keys :: 'x rl_error + ConsumptionRequest list")
  case (Inl e)
  moreover from Inl have "\<not> bound_to p keys"
    using Requests_Inr [OF assms, of keys "requests_of p keys", where 'a = 'x] by simp
  ultimately show ?thesis using policies_SomeD(1) [OF assms] by (simp add: Policy_Consume_def)
next
  case (Inr rs)
  moreover from Inr have "bound_to p keys" "rs = requests_of p keys" using Requests_Inr [OF assms, of keys rs, where 'a = 'x] by simp_all
  ultimately show ?thesis by (simp add: Policy_Consume_def)
qed

section \<open>What the loop grants\<close>

text \<open>The context was alive before each request, and the limiter answered each with an allowance without delay.\<close>

inductive granted ::
  "('w, 'x) context_err \<Rightarrow> ('w, 'x) rate_limiter \<Rightarrow> 'w \<Rightarrow> ConsumptionRequest list \<Rightarrow> 'w \<Rightarrow> bool"
  for ctx limiter where
  granted_Nil: "granted ctx limiter w [] w"
| granted_Cons: "ctx w = None \<Longrightarrow> limiter w request = (w', Inr Allow) \<Longrightarrow> granted ctx limiter w' rest w'' \<Longrightarrow>
    granted ctx limiter w (request # rest) w''"

inductive_simps granted_Nil_iff [simp]: "granted ctx limiter w [] w'"
inductive_simps granted_Cons_iff [simp]: "granted ctx limiter w (request # rest) w'"

text \<open>The failure that an answer other than an allowance becomes.\<close>

definition refusal :: "ConsumptionRequest \<Rightarrow> 'x + Decision \<Rightarrow> 'x Failure" where
  "refusal request answer =
     (case answer of
        Inl e \<Rightarrow> fail_at request (External e)
      | Inr decision \<Rightarrow>
          (case Decision_validate decision of
             Inl e \<Rightarrow> fail_at request e
           | Inr _ \<Rightarrow> rejectedFailure (cr_operation request) (bk_dimension (cr_bucket request)) (de_RetryAfter decision)))"

lemma Decision_validate_eq:
  "Decision_validate d =
     (if d = Allow \<or> \<not> de_Allowed d \<and> 0 \<le> de_RetryAfter d then Inr ()
      else Inl (if de_RetryAfter d < 0 then ErrDelayNegative else ErrAllowedDelay))"
  by (cases d) (simp add: Decision_validate_def Allow_def)

lemma consume_requests_Cons:
  "consume_requests ctx limiter w (request # rest) =
     (case ctx w of
        Some e \<Rightarrow> (w, [], Some (fail_at request (External e)))
      | None \<Rightarrow>
          (let (w', answer) = limiter w request in
           if answer = Inr Allow then
             (case consume_requests ctx limiter w' rest of (w'', log, result) \<Rightarrow> (w'', request # log, result))
           else (w', [request], Some (refusal request answer))))"
  by (auto simp: consume_requests.simps(2) refusal_def Decision_validate_eq Allow_def split: option.split prod.split sum.split)

lemma refusal_rejected:
  "Failure_Is (refusal request answer) ErrRejected \<longleftrightarrow> (\<exists>delay \<ge> 0. answer = Inr (Reject delay) \<and> fl_retryAfter (refusal request answer) = delay)"
  if "answer \<noteq> Inr Allow"
proof (cases answer)
  case (Inr d)
  with that show ?thesis
    by (cases d) (auto simp: refusal_def Decision_validate_eq Allow_def Reject_def fail_at_def unavailableFailure_def rejectedFailure_def)
qed (simp add: refusal_def fail_at_def unavailableFailure_def)

lemma consume_None_iff:
  "consume_requests ctx limiter w rs = (w', log, None) \<longleftrightarrow> log = rs \<and> granted ctx limiter w rs w'"
proof (induction rs arbitrary: w log)
  case (Cons r rs)
  obtain w1 answer where l: "limiter w r = (w1, answer)" by fastforce
  obtain w2 rest result where c: "consume_requests ctx limiter w1 rs = (w2, rest, result)" by (metis prod_cases3)
  show ?case
    using Cons.IH [of w1 rest] Cons.IH [of w1 rs] by (cases "ctx w") (auto simp: consume_requests_Cons l c)
qed auto

lemma consume_Some_iff:
  "consume_requests ctx limiter w rs = (w', log, Some f) \<longleftrightarrow>
     (\<exists>pre r post w1. rs = pre @ r # post \<and> granted ctx limiter w pre w1 \<and>
        ((\<exists>e. ctx w1 = Some e \<and> w' = w1 \<and> log = pre \<and> f = fail_at r (External e)) \<or>
         (\<exists>answer. ctx w1 = None \<and> limiter w1 r = (w', answer) \<and> answer \<noteq> Inr Allow \<and> log = pre @ [r] \<and> f = refusal r answer)))"
  (is "_ \<longleftrightarrow> ?stopped w rs log")
proof (induction rs arbitrary: w log)
  case (Cons r rs)
  show ?case (is "?run \<longleftrightarrow> _")
  proof
    assume ?run
    show "?stopped w (r # rs) log"
    proof (cases "ctx w")
      case (Some e)
      with \<open>?run\<close> have "w' = w \<and> log = [] \<and> f = fail_at r (External e)" by (simp add: consume_requests_Cons)
      with Some show ?thesis
        by (intro exI [of _ "[]"] exI [of _ r] exI [of _ rs] exI [of _ w]) simp
    next
      case None
      obtain w1 answer where l: "limiter w r = (w1, answer)" by fastforce
      show ?thesis
      proof (cases "answer = Inr Allow")
        case True
        with \<open>?run\<close> None l obtain log' where "log = r # log'" and "consume_requests ctx limiter w1 rs = (w', log', Some f)"
          by (auto simp: consume_requests_Cons split: prod.splits)
        with Cons.IH [of w1 log'] obtain pre r' post w2 where
          "rs = pre @ r' # post" "granted ctx limiter w1 pre w2" and
          stop: "(\<exists>e. ctx w2 = Some e \<and> w' = w2 \<and> log' = pre \<and> f = fail_at r' (External e)) \<or>
            (\<exists>answer. ctx w2 = None \<and> limiter w2 r' = (w', answer) \<and> answer \<noteq> Inr Allow \<and> log' = pre @ [r'] \<and> f = refusal r' answer)"
          by blast
        with True None l \<open>log = _\<close> show ?thesis
          by (intro exI [of _ "r # pre"] exI [of _ r'] exI [of _ post] exI [of _ w2]) auto
      next
        case False
        with \<open>?run\<close> None l have "w' = w1 \<and> log = [r] \<and> f = refusal r answer" by (simp add: consume_requests_Cons)
        with False None l show ?thesis
          by (intro exI [of _ "[]"] exI [of _ r] exI [of _ rs] exI [of _ w]) simp
      qed
    qed
  next
    assume "?stopped w (r # rs) log"
    then obtain pre r' post w2 where rs: "r # rs = pre @ r' # post" and g: "granted ctx limiter w pre w2" and
      stop: "(\<exists>e. ctx w2 = Some e \<and> w' = w2 \<and> log = pre \<and> f = fail_at r' (External e)) \<or>
        (\<exists>answer. ctx w2 = None \<and> limiter w2 r' = (w', answer) \<and> answer \<noteq> Inr Allow \<and> log = pre @ [r'] \<and> f = refusal r' answer)"
      by blast
    show ?run
    proof (cases pre)
      case Nil
      with rs g stop show ?thesis by (auto simp: consume_requests_Cons)
    next
      case (Cons a pre')
      with rs g obtain w1 where a: "a = r" "rs = pre' @ r' # post" "ctx w = None" "limiter w r = (w1, Inr Allow)"
        "granted ctx limiter w1 pre' w2" by auto
      from stop Cons have "?stopped w1 rs (tl log)"
        using a by (intro exI [of _ pre'] exI [of _ r'] exI [of _ post] exI [of _ w2]) auto
      then have "consume_requests ctx limiter w1 rs = (w', tl log, Some f)" using Cons.IH by blast
      moreover from stop Cons a have "log = r # tl log" by auto
      ultimately show ?thesis using a by (simp add: consume_requests_Cons)
    qed
  qed
qed simp

lemma failure_fields [simp]:
  "fl_operation (fail_at r e) = cr_operation r" "fl_dimension (fail_at r e) = bk_dimension (cr_bucket r)"
  "fl_kind (fail_at r e) = FailureUnavailable" "fl_operation (unavailableFailure op d e) = op"
  "fl_kind (unavailableFailure op d e) = FailureUnavailable"
  by (simp_all add: fail_at_def unavailableFailure_def)

lemma refusal_fields [simp]:
  "fl_operation (refusal r answer) = cr_operation r" "fl_dimension (refusal r answer) = bk_dimension (cr_bucket r)"
  "fl_kind (refusal r answer) = FailureUnavailable \<longleftrightarrow> fl_kind (refusal r answer) \<noteq> FailureRejected"
  by (simp_all add: refusal_def fail_at_def unavailableFailure_def rejectedFailure_def split: sum.split)

lemma requests_of_operation: "r \<in> set (requests_of p keys) \<Longrightarrow> cr_operation r = po_operation p"
  by (auto simp: requests_of_def)

lemma requests_hd:
  assumes "policies op = Some p" and "bound_to p keys"
  shows "cr_operation (hd (requests_of p keys)) = op"
proof -
  have "keys \<noteq> []" using bound_to_length [OF assms] policies_SomeD(3) [OF assms(1)] by auto
  then show ?thesis using policies_SomeD(1) [OF assms(1)] by (cases keys) (simp_all add: requests_of_def)
qed

lemma Policy_Consume_granted:
  assumes "policies op = Some policy"
  shows "Policy_Consume policy ctx limiter w keys = (w', log, None) \<longleftrightarrow>
    bound_to policy keys \<and> log = requests_of policy keys \<and>
    (\<exists>err consume. ctx = Some err \<and> limiter = Some consume \<and> granted err consume w log w')"
  using Policy_Consume_eq [OF assms, of ctx limiter w keys] ConsumeInOrder_requests [OF assms, of keys ctx limiter w]
  by (cases ctx; cases limiter; cases "bound_to policy keys") (auto simp: consume_None_iff)

text \<open>The worlds between the answers of a granted run.\<close>

lemma granted_worlds:
  "granted ctx limiter w rs w' \<Longrightarrow>
     \<exists>worlds. length worlds = length rs + 1 \<and> hd worlds = w \<and> last worlds = w' \<and>
       (\<forall>i < length rs. limiter (worlds ! i) (rs ! i) = (worlds ! (i + 1), Inr Allow))"
proof (induction rule: granted.induct)
  case (granted_Nil w)
  show ?case by (rule exI [of _ "[w]"]) simp
next
  case (granted_Cons w request w1 rest w2)
  then obtain worlds where ws: "length worlds = length rest + 1" "hd worlds = w1" "last worlds = w2"
    "\<forall>i < length rest. limiter (worlds ! i) (rest ! i) = (worlds ! (i + 1), Inr Allow)" by blast
  have "worlds ! 0 = w1" using ws(1,2) by (cases worlds) auto
  moreover from granted_Cons ws calculation have
    "limiter ((w # worlds) ! i) ((request # rest) ! i) = ((w # worlds) ! (i + 1), Inr Allow)" if "i < length (request # rest)" for i
    using that by (cases i) auto
  moreover have "worlds \<noteq> []" using ws(1) by auto
  ultimately show ?case using ws by (intro exI [of _ "w # worlds"]) auto
qed

end
