(* ===== verification/BucketProps.thy ===== *)
theory BucketProps
  imports RateBucket RateProps
begin

text \<open>
  What the token bucket guarantees: how many runs of the script on a key are allowed in a stretch of time, when a
  refused caller is served, what the rules must satisfy, and which buckets share a key.
\<close>

section \<open>The refill\<close>

text \<open>
  Rounding as a double does it: monotone, exact on integers up to the capacity, and off by at most \<open>eps\<close> between zero and the
  capacity.
\<close>

definition rounding :: "(rat \<Rightarrow> rat) \<Rightarrow> int \<Rightarrow> rat \<Rightarrow> bool" where
  "rounding fl capacity eps \<longleftrightarrow>
     mono fl \<and> (\<forall>n. 0 \<le> n \<longrightarrow> n \<le> capacity \<longrightarrow> fl (of_int n) = of_int n) \<and>
     (\<forall>x. 0 \<le> x \<longrightarrow> x \<le> of_int capacity \<longrightarrow> \<bar>fl x - x\<bar> \<le> eps)"

lemma roundingD:
  assumes "rounding fl capacity eps" and "0 < capacity"
  shows "x \<le> y \<Longrightarrow> fl x \<le> fl y" and "fl 0 = 0" and "fl (of_int capacity) = of_int capacity"
    and "0 \<le> x \<Longrightarrow> x \<le> of_int capacity \<Longrightarrow> fl x \<le> x + eps" and "0 \<le> eps"
proof -
  show "x \<le> y \<Longrightarrow> fl x \<le> fl y" for x y using assms by (auto simp: rounding_def mono_def)
  show "fl 0 = 0" using assms unfolding rounding_def by (metis less_imp_le of_int_0 order_refl)
  show "fl (of_int capacity) = of_int capacity" using assms by (auto simp: rounding_def)
  show "0 \<le> x \<Longrightarrow> x \<le> of_int capacity \<Longrightarrow> fl x \<le> x + eps" for x using assms unfolding rounding_def by fastforce
  have "\<bar>fl 0 - 0\<bar> \<le> eps" using assms unfolding rounding_def by fastforce
  then show "0 \<le> eps" by linarith
qed

text \<open>The tokens after the refill.\<close>

definition refilled :: "(rat \<Rightarrow> rat) \<Rightarrow> int \<Rightarrow> int \<Rightarrow> int \<Rightarrow> rat option \<times> int option \<Rightarrow> rat" where
  "refilled fl capacity refill now stored =
     (let (tokens, updated) =
        (case stored of (Some tokens, Some updated) \<Rightarrow> (tokens, if now < updated then now else updated)
         | _ \<Rightarrow> (of_int capacity, now)) in
      min (of_int capacity) (fl (tokens + fl (of_int (now - updated) / of_int refill))))"

lemma token_bucket_eq:
  "token_bucket fl capacity refill now stored =
     (let tokens = refilled fl capacity refill now stored in
      if tokens \<ge> 1 then (\<lparr>bu_tokens = fl (tokens - 1), bu_updated = now\<rparr>, 1, 0)
      else (\<lparr>bu_tokens = tokens, bu_updated = now\<rparr>, 0, max 1 \<lceil>fl (fl (fl (1 - tokens) * of_int refill) / 1000)\<rceil>))"
  by (simp add: token_bucket_def refilled_def Let_def split: prod.split)

lemma refilled_le: "refilled fl capacity refill now stored \<le> of_int capacity"
  by (simp add: refilled_def split: prod.split)

lemma refilled_fresh:
  assumes "rounding fl capacity eps" and "0 < capacity"
  shows "refilled fl capacity refill now (None, None) = of_int capacity"
  using roundingD [OF assms] by (simp add: refilled_def)

lemma refilled_growth:
  assumes r: "rounding fl capacity eps" and cap: "0 < capacity" and ref: "0 < refill" and "0 \<le> tokens" and "updated \<le> now"
  shows "0 \<le> refilled fl capacity refill now (Some tokens, Some updated)"
    and "refilled fl capacity refill now (Some tokens, Some updated) \<le> tokens + of_int (now - updated) / of_int refill + 2 * eps"
proof -
  note f = roundingD [OF r cap]
  define q where "q = (of_int (now - updated) / of_int refill :: rat)"
  have q: "0 \<le> q" using assms ref by (simp add: q_def)
  have R: "refilled fl capacity refill now (Some tokens, Some updated) = min (of_int capacity) (fl (tokens + fl q))"
    using assms by (simp add: refilled_def q_def)
  have fq: "0 \<le> fl q" using f(1) [OF q] f(2) by simp
  have "0 \<le> fl (tokens + fl q)" using f(1) [of 0 "tokens + fl q"] f(2) fq assms by simp
  with R cap show "0 \<le> refilled fl capacity refill now (Some tokens, Some updated)" by simp
  have "min (of_int capacity) (fl (tokens + fl q)) \<le> tokens + q + 2 * eps"
  proof (cases "q \<le> of_int capacity")
    case False
    then show ?thesis using assms f(5) by (intro min.coboundedI1) linarith
  next
    case True
    then have *: "fl q \<le> q + eps" by (rule f(4) [OF q])
    show ?thesis
    proof (cases "tokens + fl q \<le> of_int capacity")
      case True
      with f(4) [of "tokens + fl q"] * fq assms show ?thesis by (intro min.coboundedI2) simp
    next
      case False
      with * f(5) show ?thesis by (intro min.coboundedI1) linarith
    qed
  qed
  with R show "refilled fl capacity refill now (Some tokens, Some updated) \<le> tokens + of_int (now - updated) / of_int refill + 2 * eps"
    by (simp add: q_def)
qed

definition allowed_count :: "(int \<times> int) list \<Rightarrow> nat" where
  "allowed_count answers = length (filter (\<lambda>(allowed, _). allowed = 1) answers)"

lemma allowed_count_simps [simp]:
  "allowed_count [] = 0"
  "allowed_count ((allowed, retry) # rest) = (if allowed = 1 then 1 else 0) + allowed_count rest"
  by (simp_all add: allowed_count_def)

lemma token_bucket_step:
  assumes "rounding fl capacity eps" and "0 < capacity"
    and "token_bucket fl capacity refill now stored = (b, allowed, retry)" and "0 \<le> refilled fl capacity refill now stored"
  shows "0 \<le> bu_tokens b" and "bu_updated b = now"
    and "(if allowed = 1 then 1 else 0) + bu_tokens b \<le> refilled fl capacity refill now stored + eps"
proof -
  note f = roundingD [OF assms(1,2)]
  let ?t = "refilled fl capacity refill now stored"
  have "0 \<le> bu_tokens b \<and> bu_updated b = now \<and> (if allowed = 1 then 1 else 0) + bu_tokens b \<le> ?t + eps"
  proof (cases "1 \<le> ?t")
    case True
    with assms(3) have b: "b = \<lparr>bu_tokens = fl (?t - 1), bu_updated = now\<rparr>" "allowed = 1"
      by (simp_all add: token_bucket_eq Let_def)
    have "0 \<le> fl (?t - 1)" using f(1) [of 0 "?t - 1"] f(2) True by simp
    moreover have "fl (?t - 1) \<le> ?t - 1 + eps" using True refilled_le [of fl capacity refill now stored] by (intro f(4)) linarith+
    ultimately show ?thesis by (simp add: b)
  next
    case False
    with assms(3) have b: "b = \<lparr>bu_tokens = ?t, bu_updated = now\<rparr>" "allowed = 0"
      by (simp_all add: token_bucket_eq Let_def)
    with assms(4) f(5) show ?thesis by simp
  qed
  then show "0 \<le> bu_tokens b" "bu_updated b = now" "(if allowed = 1 then 1 else 0) + bu_tokens b \<le> ?t + eps" by blast+
qed

text \<open>From a stored bucket on, the allowed runs are paid for by its tokens and the time that passes.\<close>

lemma bucket_calls_paid:
  assumes r: "rounding fl capacity eps" and cap: "0 < capacity" and ref: "0 < refill"
    and ttl: "capacity * refill \<le> ttl_ms * 1000"
  shows "0 \<le> tokens \<Longrightarrow> honoured ttl_ms since cs \<Longrightarrow>
    of_nat (allowed_count (bucket_calls fl capacity refill (Some tokens, Some since) cs)) \<le>
      tokens + of_int (last (since # map ca_now cs) - since) / of_int refill + 3 * eps * of_nat (length cs)"
proof (induction cs arbitrary: tokens since)
  case (Cons c cs)
  let ?stored = "if ca_kept c then (Some tokens, Some since) else (None, None)"
  let ?t = "refilled fl capacity refill (ca_now c) ?stored"
  obtain b allowed retry where s: "token_bucket fl capacity refill (ca_now c) ?stored = (b, allowed, retry)"
    by (metis prod_cases3)
  from Cons.prems have le: "since \<le> ca_now c" and h: "honoured ttl_ms (ca_now c) cs" by auto
  define el where "el = (of_int (ca_now c - since) / of_int refill :: rat)"
  have t: "0 \<le> ?t \<and> ?t \<le> tokens + el + 2 * eps"
  proof (cases "ca_kept c")
    case True
    with refilled_growth [OF r cap ref Cons.prems(1) le] show ?thesis by (simp add: el_def)
  next
    case False
    with Cons.prems have "capacity * refill \<le> ca_now c - since" using ttl by simp
    then have "(of_int (capacity * refill) :: rat) \<le> of_int (ca_now c - since)" by (simp only: of_int_le_iff)
    then have "of_int capacity \<le> el" using ref by (simp add: el_def pos_le_divide_eq)
    moreover have "?t = of_int capacity" using refilled_fresh [OF r cap] False by simp
    ultimately show ?thesis using Cons.prems(1) cap roundingD(5) [OF r cap] by simp
  qed
  note st = token_bucket_step [OF r cap s conjunct1 [OF t]]
  define rest where "rest = (of_int (last (ca_now c # map ca_now cs) - ca_now c) / of_int refill :: rat)"
  from Cons.IH [OF st(1) h] have
    "of_nat (allowed_count (bucket_calls fl capacity refill (Some (bu_tokens b), Some (ca_now c)) cs)) \<le> bu_tokens b + rest + 3 * eps * of_nat (length cs)"
    by (simp add: rest_def)
  moreover have "of_int (last (since # map ca_now (c # cs)) - since) / of_int refill = el + rest"
    by (simp add: el_def rest_def add_divide_distrib [symmetric])
  moreover have "3 * eps * of_nat (length (c # cs)) = 3 * eps + 3 * eps * of_nat (length cs)" by (simp add: algebra_simps)
  moreover have "of_nat (allowed_count (bucket_calls fl capacity refill (Some tokens, Some since) (c # cs))) =
    (if allowed = 1 then 1 else 0) +
      (of_nat (allowed_count (bucket_calls fl capacity refill (Some (bu_tokens b), Some (ca_now c)) cs)) :: rat)"
    by (simp add: s st(2))
  ultimately show ?case using st(3) conjunct2 [OF t] by linarith
qed simp


text \<open>What the key holds between two runs.\<close>

definition held :: "int \<Rightarrow> rat option \<times> int option \<Rightarrow> bool" where
  "held since stored \<longleftrightarrow> stored = (None, None) \<or> (\<exists>tokens \<ge> 0. stored = (Some tokens, Some since))"

lemma held_refilled:
  assumes "rounding fl capacity eps" and "0 < capacity" and "0 < refill" and "held since stored" and "since \<le> now"
  shows "0 \<le> refilled fl capacity refill now stored"
proof (cases "stored = (None, None)")
  case True
  with refilled_fresh [OF assms(1,2), of refill now] assms(2) show ?thesis by simp
next
  case False
  with assms(4) obtain tokens where "0 \<le> tokens" "stored = (Some tokens, Some since)" by (auto simp: held_def)
  with refilled_growth(1) [OF assms(1-3) _ assms(5)] show ?thesis by simp
qed

lemma held_step:
  assumes "rounding fl capacity eps" and "0 < capacity" and "0 < refill" and "held since stored" and "since \<le> ca_now c"
    and "token_bucket fl capacity refill (ca_now c) (if ca_kept c then stored else (None, None)) = (b, allowed, retry)"
  shows "held (ca_now c) (Some (bu_tokens b), Some (bu_updated b))"
    and "(if allowed = 1 then 1 else 0) + bu_tokens b \<le> of_int capacity + eps" and "0 \<le> bu_tokens b" and "bu_updated b = ca_now c"
proof -
  let ?stored = "if ca_kept c then stored else (None, None)"
  have "held since ?stored" using assms(4) by (simp add: held_def)
  from held_refilled [OF assms(1-3) this assms(5)] have "0 \<le> refilled fl capacity refill (ca_now c) ?stored" .
  note st = token_bucket_step [OF assms(1,2,6) this]
  then show "held (ca_now c) (Some (bu_tokens b), Some (bu_updated b))" "0 \<le> bu_tokens b" "bu_updated b = ca_now c"
    by (auto simp: held_def)
  from st(3) refilled_le [of fl capacity refill "ca_now c" ?stored]
  show "(if allowed = 1 then 1 else 0) + bu_tokens b \<le> of_int capacity + eps" by linarith
qed

lemma bucket_calls_split:
  assumes "rounding fl capacity eps" and "0 < capacity" and "0 < refill"
  shows "held since stored \<Longrightarrow> honoured ttl_ms since (pre @ cs) \<Longrightarrow>
    \<exists>since' stored'. held since' stored' \<and> honoured ttl_ms since' cs \<and>
      bucket_calls fl capacity refill stored (pre @ cs) =
        bucket_calls fl capacity refill stored pre @ bucket_calls fl capacity refill stored' cs"
proof (induction pre arbitrary: since stored)
  case (Cons c pre)
  obtain b allowed retry where s:
    "token_bucket fl capacity refill (ca_now c) (if ca_kept c then stored else (None, None)) = (b, allowed, retry)"
    by (metis prod_cases3)
  from Cons.prems have "since \<le> ca_now c" and h: "honoured ttl_ms (ca_now c) (pre @ cs)" by auto
  from Cons.IH [OF held_step(1) [OF assms Cons.prems(1) this(1) s] h] show ?case by (simp add: s)
qed auto

lemma bucket_calls_window:
  assumes r: "rounding fl capacity eps" "0 < capacity" "0 < refill" and ttl: "capacity * refill \<le> ttl_ms * 1000"
    and held: "held since stored" and h: "honoured ttl_ms since (c # cs)"
  shows "of_nat (allowed_count (bucket_calls fl capacity refill stored (c # cs))) \<le>
    of_int capacity + of_int (last (ca_now c # map ca_now cs) - ca_now c) / of_int refill + 3 * eps * of_nat (length (c # cs))"
proof -
  obtain b allowed retry where s:
    "token_bucket fl capacity refill (ca_now c) (if ca_kept c then stored else (None, None)) = (b, allowed, retry)"
    by (metis prod_cases3)
  from h have "since \<le> ca_now c" and h': "honoured ttl_ms (ca_now c) cs" by auto
  note st = held_step [OF r held this(1) s]
  have "3 * eps * of_nat (length (c # cs)) = 3 * eps + 3 * eps * of_nat (length cs)" by (simp add: algebra_simps)
  moreover have "of_nat (allowed_count (bucket_calls fl capacity refill stored (c # cs))) =
    (if allowed = 1 then 1 else 0) +
      (of_nat (allowed_count (bucket_calls fl capacity refill (Some (bu_tokens b), Some (ca_now c)) cs)) :: rat)"
    by (simp add: s st(4))
  ultimately show ?thesis using bucket_calls_paid [OF r ttl st(3) h'] st(2) roundingD(5) [OF r(1,2)] by linarith
qed

lemma length_bucket_calls [simp]: "length (bucket_calls fl capacity refill stored cs) = length cs"
  by (induction cs arbitrary: stored) (auto simp: Let_def split: prod.split)

lemma take_drop_middle: "length a = m \<Longrightarrow> length b = n \<Longrightarrow> take n (drop m (a @ b @ c)) = b"
  by simp

lemma window_answers:
  assumes r: "rounding fl capacity eps" "0 < capacity" "0 < refill" and ttl: "capacity * refill \<le> ttl_ms * 1000"
    and h: "honoured ttl_ms since (pre @ (c # cs) @ post)"
  shows "of_nat (allowed_count (take (length (c # cs)) (drop (length pre) (bucket_calls fl capacity refill (None, None) (pre @ (c # cs) @ post))))) \<le>
    of_int capacity + of_int (last (ca_now c # map ca_now cs) - ca_now c) / of_int refill + 3 * eps * of_nat (length (c # cs))"
proof -
  have "held since (None, None)" by (simp add: held_def)
  from bucket_calls_split [OF r this h] obtain since' stored' where s': "held since' stored'" "honoured ttl_ms since' ((c # cs) @ post)"
    and 1: "bucket_calls fl capacity refill (None, None) (pre @ (c # cs) @ post) =
      bucket_calls fl capacity refill (None, None) pre @ bucket_calls fl capacity refill stored' ((c # cs) @ post)" by blast
  from bucket_calls_split [OF r s'] obtain stored'' where
    2: "bucket_calls fl capacity refill stored' ((c # cs) @ post) = bucket_calls fl capacity refill stored' (c # cs) @ bucket_calls fl capacity refill stored'' post"
    by blast
  have "honoured ttl_ms t (xs @ ys) \<Longrightarrow> honoured ttl_ms t xs" for t xs ys by (induction xs arbitrary: t) auto
  from bucket_calls_window [OF r ttl s'(1) this [OF s'(2)]] show ?thesis
    unfolding 1 2 take_drop_middle [OF length_bucket_calls length_bucket_calls] .
qed

text \<open>With exact arithmetic.\<close>

lemma refilled_exact:
  "refilled (\<lambda>x. x) capacity refill now (Some tokens, Some updated) =
     min (of_int capacity) (tokens + of_int (now - (if now < updated then now else updated)) / of_int refill)"
  by (simp add: refilled_def)

section \<open>Retries\<close>

lemma retry_allows:
  assumes "token_bucket (\<lambda>x. x) capacity refill now stored = (b, 0, retry)" and "0 < capacity" and "0 < refill"
  shows "now + retry * 1000 \<le> later \<Longrightarrow>
      fst (snd (token_bucket (\<lambda>x. x) capacity refill later (Some (bu_tokens b), Some (bu_updated b)))) = 1"
    and "now \<le> later \<Longrightarrow> later \<le> now + (retry - 1) * 1000 \<Longrightarrow>
      fst (snd (token_bucket (\<lambda>x. x) capacity refill later (Some (bu_tokens b), Some (bu_updated b)))) = 0"
proof -
  define t where "t = refilled (\<lambda>x. x) capacity refill now stored"
  define y where "y = (1 - t) * of_int refill / 1000"
  from assms(1) have t: "t < 1" and b: "b = \<lparr>bu_tokens = t, bu_updated = now\<rparr>" and retry: "retry = max 1 \<lceil>y\<rceil>"
    by (auto simp: token_bucket_eq Let_def t_def y_def not_le split: if_splits)
  have r: "refilled (\<lambda>x. x) capacity refill later (Some t, Some now) = min (of_int capacity) (t + of_int (later - now) / of_int refill)"
    if "now \<le> later" using that by (simp add: refilled_exact)
  have tb: "fst (snd (token_bucket (\<lambda>x. x) capacity refill later (Some (bu_tokens b), Some (bu_updated b)))) =
      (if 1 \<le> min (of_int capacity) (t + of_int (later - now) / of_int refill) then 1 else 0)" if "now \<le> later"
    using r [OF that] by (simp add: b token_bucket_eq Let_def)
  have pos: "0 < (of_int refill :: rat)" using assms(3) by simp
  show "fst (snd (token_bucket (\<lambda>x. x) capacity refill later (Some (bu_tokens b), Some (bu_updated b)))) = 1"
    if "now + retry * 1000 \<le> later"
  proof -
    have le: "now \<le> later" using that retry by linarith
    have "y \<le> of_int \<lceil>y\<rceil>" by simp
    also have "\<dots> \<le> of_int retry" using retry by simp
    finally have "(1 - t) * of_int refill \<le> of_int retry * 1000" unfolding y_def by simp
    also have "\<dots> = of_int (retry * 1000)" by simp
    also have "\<dots> \<le> of_int (later - now)" using that by (simp only: of_int_le_iff)
    finally have "1 - t \<le> of_int (later - now) / of_int refill" using pos by (simp add: pos_le_divide_eq)
    moreover have "(1 :: rat) \<le> of_int capacity" using assms(2) by simp
    ultimately show ?thesis using tb [OF le] by (simp add: algebra_simps)
  qed
  show "fst (snd (token_bucket (\<lambda>x. x) capacity refill later (Some (bu_tokens b), Some (bu_updated b)))) = 0"
    if "now \<le> later" "later \<le> now + (retry - 1) * 1000"
  proof -
    have "t + of_int (later - now) / of_int refill < 1"
    proof (cases "1 < \<lceil>y\<rceil>")
      case True
      then have "retry = \<lceil>y\<rceil>" using retry by simp
      then have "of_int (retry - 1) < y" by linarith
      then have "of_int ((retry - 1) * 1000) < (1 - t) * of_int refill" unfolding y_def by simp
      moreover have "(of_int (later - now) :: rat) \<le> of_int ((retry - 1) * 1000)" using that by (simp only: of_int_le_iff)
      ultimately have "of_int (later - now) / of_int refill < 1 - t" using pos by (simp add: pos_divide_less_eq)
      then show ?thesis by simp
    next
      case False
      then have "retry = 1" using retry by simp
      with that have "later = now" by simp
      with t show ?thesis by simp
    qed
    then show ?thesis using tb [OF that(1)] by auto
  qed
qed

section \<open>Rules\<close>

lemma rule_positive:
  assumes "validRule rule"
  shows "0 < uint (ru_Capacity rule)" and "0 < Microseconds (ru_RefillEvery rule)"
proof -
  from assms have "ru_Capacity rule \<noteq> 0" and "Millisecond \<le> ru_RefillEvery rule" by (auto simp: validRule_def split: if_splits)
  then show "0 < uint (ru_Capacity rule)" "0 < Microseconds (ru_RefillEvery rule)"
    by (metis unsigned_0 word_less_def word_gt_0, simp add: Microseconds_def)
qed

lemma retry_positive: "token_bucket fl capacity refill now stored = (b, 0, retry) \<Longrightarrow> 0 < retry"
  by (auto simp: token_bucket_eq Let_def split: if_splits)

lemma rule_covered:
  assumes "validRule rule" and "Millisecond dvd ru_TTL rule"
  shows "0 < uint (ru_Capacity rule)" and "0 < Microseconds (ru_RefillEvery rule)"
    and "uint (ru_Capacity rule) * Microseconds (ru_RefillEvery rule) \<le> Milliseconds (ru_TTL rule) * 1000"
proof -
  from assms(1) have c: "ru_Capacity rule \<noteq> 0" and r: "Millisecond \<le> ru_RefillEvery rule"
    and t: "uint (ru_Capacity rule) * ru_RefillEvery rule \<le> ru_TTL rule"
    by (auto simp: validRule_def split: if_splits)
  show cap: "0 < uint (ru_Capacity rule)" using c by (metis unsigned_0 word_less_def word_gt_0)
  from r show "0 < Microseconds (ru_RefillEvery rule)" by (simp add: Microseconds_def)
  from assms(2) obtain k where k: "ru_TTL rule = Millisecond * k" ..
  have "ru_RefillEvery rule div 1000 * 1000 \<le> ru_RefillEvery rule" by simp
  then have "uint (ru_Capacity rule) * (ru_RefillEvery rule div 1000 * 1000) \<le> uint (ru_Capacity rule) * ru_RefillEvery rule"
    using cap by (intro mult_left_mono) auto
  also note t
  finally show "uint (ru_Capacity rule) * Microseconds (ru_RefillEvery rule) \<le> Milliseconds (ru_TTL rule) * 1000"
    by (simp add: Microseconds_def Milliseconds_def k)
qed

lemma standard_rules_valid:
  "list_all (\<lambda>(operation, dimensions). list_all (\<lambda>(dimension, rule). validRule rule \<and> Millisecond dvd ru_TTL rule) dimensions) StandardRules"
  by (simp add: StandardRules_def standardRule_def validRule_def MaxInt64_def)

lemma standard_rule:
  assumes "(operation, dimensions) \<in> set StandardRules" and "(dimension, rule) \<in> set dimensions"
  shows "validRule rule" and "Millisecond dvd ru_TTL rule"
  using standard_rules_valid assms unfolding list_all_iff by fastforce+

lemma standard_rules_accepted: "validateAndCloneRules StandardRules = Inr StandardRules"
  by (simp add: validateAndCloneRules_def StandardRules_def supportedOperations_def containsOperation_def policies_def
      policies_init_known Policy_Dimensions_def validRule_def standardRule_def MaxInt64_def)

section \<open>Keys\<close>

lemma bytes_of_eq_iff [simp]: "bytes_of a = bytes_of b \<longleftrightarrow> a = b"
proof -
  have "inj (\<lambda>c. of_nat (of_char c) :: u8)"
  proof (rule injI)
    fix c d :: char
    assume "(of_nat (of_char c) :: u8) = of_nat (of_char d)"
    then have "unat (of_nat (of_char c) :: u8) = unat (of_nat (of_char d) :: u8)" by simp
    then have "(of_char c :: nat) = of_char d" by (simp add: unat_of_nat)
    then show "c = d" by simp
  qed
  then show ?thesis by (simp add: bytes_of_def inj_map_eq_map)
qed

lemma separated:
  assumes "c \<notin> set a" and "c \<notin> set b" and "a @ c # x = b @ c # y"
  shows "a = b \<and> x = y"
  using assms by (induction a arbitrary: b) (case_tac b; auto)+

lemma policy_labels:
  assumes "policies op = Some p"
  shows "c \<in> {CHR '':'', CHR 0x00} \<Longrightarrow> c \<notin> set op" and "d \<in> set (Policy_Dimensions p) \<Longrightarrow> c \<in> {CHR '':'', CHR 0x00} \<Longrightarrow> c \<notin> set d"
proof -
  let ?ok = "\<lambda>p. \<forall>l \<in> set (po_operation p # Policy_Dimensions p). CHR '':'' \<notin> set l \<and> CHR 0x00 \<notin> set l"
  have "list_all ?ok (the policies_init)"
    unfolding policies_init_known by (simp add: Policy_Dimensions_def)
  moreover from assms have "(op, p) \<in> set (map (\<lambda>p. (po_operation p, p)) (the policies_init))"
    unfolding policies_def policies_init_known option.case option.sel by (rule map_of_SomeD)
  then have "po_operation p = op \<and> p \<in> set (the policies_init)" by fastforce
  ultimately have "?ok p" "po_operation p = op" unfolding list_all_iff by blast+
  then show "c \<in> {CHR '':'', CHR 0x00} \<Longrightarrow> c \<notin> set op"
    and "d \<in> set (Policy_Dimensions p) \<Longrightarrow> c \<in> {CHR '':'', CHR 0x00} \<Longrightarrow> c \<notin> set d" by auto
qed

text \<open>The bytes that the HMAC of a request is computed from.\<close>

definition mac_input :: "ConsumptionRequest \<Rightarrow> u8 list" where
  "mac_input request =
     bytes_of (cr_operation request @ [CHR 0x00] @ bk_dimension (cr_bucket request) @ [CHR 0x00] @ bv_raw (bk_value (cr_bucket request)))"

lemma storageKey_Inr:
  "storageKey hmac limiter request = Inr key \<longleftrightarrow>
     (let (version, secret) = active (li_keyring limiter) in
      version \<noteq> 0 \<and> hmac secret (mac_input request) \<noteq> [] \<and>
      key = li_keyPrefix limiter @ ''ratelimit:v'' @ decimal (unat version) @ '':'' @ cr_operation request @ '':'' @
        bk_dimension (cr_bucket request) @ '':'' @ EncodeToString (hmac secret (mac_input request)))"
  by (auto simp: storageKey_def Sum_def Let_def mac_input_def Reveal_def bytes_of_def split: prod.split if_splits)

text \<open>The requests that a policy contains.\<close>

definition request_ok :: "ConsumptionRequest \<Rightarrow> bool" where
  "request_ok r \<longleftrightarrow> BucketValue_valid (bk_value (cr_bucket r)) \<and>
     (\<exists>p. policies (cr_operation r) = Some p \<and> bk_dimension (cr_bucket r) \<in> set (Policy_Dimensions p))"

lemma Request_Validate_iff: "Request_Validate r = Inr u \<longleftrightarrow> request_ok r"
proof (cases "policies (cr_operation r)")
  case None
  then show ?thesis by (simp add: request_ok_def Request_Validate_def request_check_def PolicyFor_def)
next
  case (Some p)
  then show ?thesis by (simp add: request_ok_def Request_Validate_Inr [OF Some])
qed

lemma mac_input_inject:
  assumes "request_ok r" and "request_ok s" and "mac_input r = mac_input s"
  shows "r = s"
proof -
  from assms(1) obtain p where p: "policies (cr_operation r) = Some p" "bk_dimension (cr_bucket r) \<in> set (Policy_Dimensions p)"
    by (auto simp: request_ok_def)
  from assms(2) obtain q where q: "policies (cr_operation s) = Some q" "bk_dimension (cr_bucket s) \<in> set (Policy_Dimensions q)"
    by (auto simp: request_ok_def)
  from assms(3) have "cr_operation r @ CHR 0x00 # bk_dimension (cr_bucket r) @ CHR 0x00 # bv_raw (bk_value (cr_bucket r)) =
    cr_operation s @ CHR 0x00 # bk_dimension (cr_bucket s) @ CHR 0x00 # bv_raw (bk_value (cr_bucket s))"
    by (simp add: mac_input_def)
  from separated [OF _ _ this] policy_labels(1) [OF p(1)] policy_labels(1) [OF q(1)]
  have 1: "cr_operation r = cr_operation s" and
    2: "bk_dimension (cr_bucket r) @ CHR 0x00 # bv_raw (bk_value (cr_bucket r)) = bk_dimension (cr_bucket s) @ CHR 0x00 # bv_raw (bk_value (cr_bucket s))"
    by auto
  from separated [OF _ _ 2] policy_labels(2) [OF p] policy_labels(2) [OF q]
  have "bk_dimension (cr_bucket r) = bk_dimension (cr_bucket s)" "bv_raw (bk_value (cr_bucket r)) = bv_raw (bk_value (cr_bucket s))"
    by auto
  with 1 show ?thesis by simp
qed

lemma storageKey_inject:
  assumes "request_ok r" and "request_ok s" and "storageKey hmac limiter r = Inr key" and "storageKey hmac limiter s = Inr key"
    and "inj (hmac (snd (active (li_keyring limiter))))"
  shows "r = s"
proof -
  let ?mac = "hmac (snd (active (li_keyring limiter)))"
  from assms(1) obtain p where p: "policies (cr_operation r) = Some p" "bk_dimension (cr_bucket r) \<in> set (Policy_Dimensions p)"
    by (auto simp: request_ok_def)
  from assms(2) obtain q where q: "policies (cr_operation s) = Some q" "bk_dimension (cr_bucket s) \<in> set (Policy_Dimensions q)"
    by (auto simp: request_ok_def)
  from assms(3,4) have "cr_operation r @ CHR '':'' # bk_dimension (cr_bucket r) @ CHR '':'' # EncodeToString (?mac (mac_input r)) =
    cr_operation s @ CHR '':'' # bk_dimension (cr_bucket s) @ CHR '':'' # EncodeToString (?mac (mac_input s))"
    by (auto simp: storageKey_Inr split: prod.splits)
  from separated [OF _ _ this] policy_labels(1) [OF p(1)] policy_labels(1) [OF q(1)]
  have "bk_dimension (cr_bucket r) @ CHR '':'' # EncodeToString (?mac (mac_input r)) =
    bk_dimension (cr_bucket s) @ CHR '':'' # EncodeToString (?mac (mac_input s))" by auto
  from separated [OF _ _ this] policy_labels(2) [OF p] policy_labels(2) [OF q]
  have "?mac (mac_input r) = ?mac (mac_input s)" by auto
  then have "mac_input r = mac_input s" by (rule injD [OF assms(5)])
  then show ?thesis by (rule mac_input_inject [OF assms(1,2)])
qed

section \<open>The limiter\<close>

text \<open>The rule and the key that the limiter uses for a request.\<close>

definition rule_of :: "Limiter \<Rightarrow> ConsumptionRequest \<Rightarrow> Rule option" where
  "rule_of limiter request =
     map_of (case map_of (li_rules limiter) (cr_operation request) of None \<Rightarrow> [] | Some ds \<Rightarrow> ds)
       (bk_dimension (cr_bucket request))"

definition script_call ::
  "hmac \<Rightarrow> ('w, 'c) script_runner \<Rightarrow> Limiter \<Rightarrow> 'w \<Rightarrow> ConsumptionRequest \<Rightarrow> 'w \<Rightarrow> 'c + script_value list \<Rightarrow> bool" where
  "script_call hmac run limiter w request w' reply \<longleftrightarrow> request_ok request \<and>
     (\<exists>rule key. rule_of limiter request = Some rule \<and> storageKey hmac limiter request = (Inr key :: 'c redis_error + string) \<and>
        run w key (uint (ru_Capacity rule)) (Microseconds (ru_RefillEvery rule)) (Milliseconds (ru_TTL rule)) = (w', reply))"

lemma parseScriptDecision_Some:
  "parseScriptDecision vs = Some (allowed, ms) \<longleftrightarrow>
     (if allowed then vs = [ScriptInt 1, ScriptInt 0] \<and> ms = 0 else vs = [ScriptInt 0, ScriptInt ms] \<and> 0 < ms)"
  by (induction vs rule: parseScriptDecision.induct) auto

lemma Limiter_Consume_Inr:
  "Limiter_Consume hmac run (Some err) (Some limiter) w request = (w', Inr d) \<longleftrightarrow>
     (script_call hmac run limiter w request w' (Inr [ScriptInt 1, ScriptInt 0]) \<and> d = Allow) \<or>
     (\<exists>ms > 0. script_call hmac run limiter w request w' (Inr [ScriptInt 0, ScriptInt ms]) \<and> d = Reject (wrap64 (ms * Millisecond)))"
proof (cases "request_ok request")
  case False
  then have "(Request_Validate request :: unit rl_error + unit) \<noteq> Inr u" for u by (simp add: Request_Validate_iff)
  then have "Limiter_Consume hmac run (Some err) (Some limiter) w request = (w, Inl RedisUnavailable)"
    by (simp add: Limiter_Consume_def split: sum.split)
  with False show ?thesis by (simp add: script_call_def)
next
  case True
  then have "(Request_Validate request :: unit rl_error + unit) = Inr ()" by (simp add: Request_Validate_iff)
  with True show ?thesis
    by (auto simp: Limiter_Consume_def script_call_def rule_of_def [symmetric] parseScriptDecision_Some
        split: option.splits prod.splits sum.splits if_splits)
qed

lemma Limiter_Consume_Allow:
  "Limiter_Consume hmac run (Some err) (Some limiter) w request = (w', Inr Allow) \<longleftrightarrow>
     script_call hmac run limiter w request w' (Inr [ScriptInt 1, ScriptInt 0])"
  by (auto simp: Limiter_Consume_Inr Allow_def Reject_def)

section \<open>Coverage\<close>

lemma supported_iff: "operation \<in> set supportedOperations \<longleftrightarrow> policies operation \<noteq> None"
proof -
  have "dom policies = set (map po_operation (the policies_init))"
    unfolding policies_def by (simp add: policies_init_known dom_map_of_conv_image_fst)
  also have "\<dots> = set supportedOperations" by (simp add: policies_init_known supportedOperations_def)
  finally show ?thesis by blast
qed

lemma clone_dimensions_covers:
  "clone_dimensions rules ds = Inr cloned \<Longrightarrow> d \<in> set ds \<Longrightarrow> \<exists>rule. map_of cloned d = Some rule \<and> validRule rule"
proof (induction rules ds arbitrary: cloned rule: clone_dimensions.induct)
  case (2 rules dimension rest)
  from "2.prems"(1) obtain rule clones where r: "map_of rules dimension = Some rule" "validRule rule"
    "clone_dimensions rules rest = Inr clones" "cloned = (dimension, rule) # clones"
    by (auto simp: and_then_eq_Inr split: option.splits if_splits)
  with "2.IH" [OF r(1) _ r(3)] "2.prems"(2) show ?case by (cases "d = dimension") auto
qed simp

lemma clone_operations_covers:
  "clone_operations rules os = Inr cloned \<Longrightarrow> operation \<in> set os \<Longrightarrow> policies operation = Some p \<Longrightarrow> d \<in> set (Policy_Dimensions p) \<Longrightarrow>
    \<exists>ds rule. map_of cloned operation = Some ds \<and> map_of ds d = Some rule \<and> validRule rule"
proof (induction rules os arbitrary: cloned rule: clone_operations.induct)
  case (2 rules first rest)
  from "2.prems"(1) obtain q dims ds clones where q: "policies first = Some q" "map_of rules first = Some dims"
    "length dims = length (Policy_Dimensions q)" and
    c: "clone_dimensions dims (Policy_Dimensions q) = Inr ds" "clone_operations rules rest = Inr clones" "cloned = (first, ds) # clones"
    by (auto simp: and_then_eq_Inr split: option.splits if_splits)
  show ?case
  proof (cases "operation = first")
    case True
    with q "2.prems"(3) have "p = q" by simp
    with clone_dimensions_covers [OF c(1)] "2.prems"(4) c(3) True show ?thesis by auto
  next
    case False
    with "2.IH" [OF q(1,2) _ c(2)] q(3) "2.prems" c(3) show ?thesis by auto
  qed
qed simp

text \<open>A limiter that was accepted has a valid rule for every request that a policy contains.\<close>

lemma NewLimiter_covers:
  assumes "NewLimiter client keyring prefix timeout rules = Inr limiter" and "request_ok r"
  shows "\<exists>rule. rule_of limiter r = Some rule \<and> validRule rule"
proof -
  from assms(1) have "validateAndCloneRules rules = Inr (li_rules limiter)"
    by (auto simp: NewLimiter_def split: option.splits if_splits sum.splits)
  then have "clone_operations rules supportedOperations = Inr (li_rules limiter)"
    by (auto simp: validateAndCloneRules_def and_then_eq_Inr split: if_splits)
  moreover from assms(2) obtain p where p: "policies (cr_operation r) = Some p" "bk_dimension (cr_bucket r) \<in> set (Policy_Dimensions p)"
    by (auto simp: request_ok_def)
  ultimately show ?thesis
    using clone_operations_covers [of rules supportedOperations "li_rules limiter" "cr_operation r" p] supported_iff
    by (fastforce simp: rule_of_def)
qed

end
