(* ===== verification/RateRules.thy ===== *)
theory RateRules
  imports BucketProps "HOL-Library.Sublist"
begin

text \<open>
  The properties of rate limiting: the port grants an operation exactly when every bucket of its policy does, in order; a
  refusal stops it; the token bucket bounds the rate; the delay of a refusal is exact; and buckets never share a key.
\<close>

section \<open>Concrete requests for the witnesses\<close>

definition demo_keys :: "BucketKey list" where
  "demo_keys = [\<lparr>bk_dimension = DimensionIP, bk_value = \<lparr>bv_raw = ''10.0.0.1''\<rparr>\<rparr>,
     \<lparr>bk_dimension = DimensionAdminAccount, bk_value = \<lparr>bv_raw = ''root''\<rparr>\<rparr>]"

definition demo_policy :: Policy where
  "demo_policy = \<lparr>po_operation = OperationAdminPasswordLogin, po_dimensions = [DimensionIP, DimensionAdminAccount, []], po_count = 2\<rparr>"

definition demo_limiter :: Limiter where
  "demo_limiter = \<lparr>li_keyring = \<lparr>sk_activeVersion = 1, sk_keys = \<lambda>_. [7]\<rparr>, li_keyPrefix = ''gn:'', li_timeout = Second, li_rules = StandardRules\<rparr>"

definition demo_request :: "nat \<Rightarrow> ConsumptionRequest" where
  "demo_request n = \<lparr>cr_operation = OperationAdminPasswordLogin, cr_bucket = demo_keys ! n\<rparr>"

lemma demo_policy_known: "policies OperationAdminPasswordLogin = Some demo_policy"
  by (simp add: policies_def policies_init_known demo_policy_def)

lemma demo_bound: "bound_to demo_policy demo_keys"
proof -
  have "TrimSpace ''10.0.0.1'' = ''10.0.0.1''" "TrimSpace ''root'' = ''root''" by code_simp+
  then show ?thesis
    by (simp add: bound_to_def demo_policy_def demo_keys_def Policy_Dimensions_def BucketValue_valid_def)
qed

lemma demo_requests: "requests_of demo_policy demo_keys = [demo_request 0, demo_request 1]"
  by (simp add: requests_of_def demo_keys_def demo_request_def demo_policy_def)

lemma demo_request_ok: "request_ok (demo_request 0)" "request_ok (demo_request 1)"
  using demo_bound demo_policy_known
  by (auto simp: request_ok_def demo_request_def bound_to_def demo_keys_def demo_policy_def Policy_Dimensions_def)

section \<open>Properties\<close>

text \<open>
  C35: Rate limiting fails closed. \<open>Consume\<close> of a policy returns nil exactly when the caller gave one valid key for each
  dimension of the policy in its order, there are a context and a limiter, and the limiter allowed every request without a
  delay while the context was alive; and then it was asked for exactly these requests, in the order of the policy.
\<close>

theorem rate_granted_iff:
  assumes "policies op = Some policy"
  shows "Policy_Consume policy ctx limiter w keys = (w', asked, None) \<longleftrightarrow>
    bound_to policy keys \<and> asked = requests_of policy keys \<and>
    (\<exists>err consume. ctx = Some err \<and> limiter = Some consume \<and> granted err consume w asked w')"
  by (rule Policy_Consume_granted [OF assms])

theorem rate_granted_iff_witness:
  "Policy_Consume demo_policy (Some (\<lambda>_. None)) (Some (\<lambda>w r. (w + 1, Inr Allow))) (0 :: nat) demo_keys =
     (2, [demo_request 0, demo_request 1], None)"
  using rate_granted_iff [OF demo_policy_known, of "Some (\<lambda>_. None)" "Some (\<lambda>w r. (w + 1, Inr Allow))" "0 :: nat" demo_keys
      2 "[demo_request 0, demo_request 1]"]
  by (simp add: demo_bound demo_requests)

text \<open>
  C36: A refusal stops the operation. When \<open>Consume\<close> of a policy returns a failure, either nothing was asked of the limiter
  and nothing changed, because the keys, the context or the limiter were at fault; or a first part of the requests was
  granted, and the next one found the context cancelled or was answered otherwise than with an allowance, and nothing was
  asked after it. The failure names the operation and the dimension of that request; it is a rejection exactly if the answer
  was a well-formed rejection, whose delay it carries, and else it is unavailability.
\<close>

theorem rate_stops_at_refusal:
  assumes "policies op = Some policy" and "Policy_Consume policy ctx limiter w keys = (w', asked, Some failure)"
  shows "fl_operation failure = op \<and> Failure_Is failure ErrUnavailable = (\<not> Failure_Is failure ErrRejected) \<and>
    (w' = w \<and> asked = [] \<and> (\<not> bound_to policy keys \<or> ctx = None \<or> limiter = None) \<and> Failure_Is failure ErrUnavailable \<or>
     bound_to policy keys \<and>
     (\<exists>err consume pre request post w1. ctx = Some err \<and> limiter = Some consume \<and>
        requests_of policy keys = pre @ request # post \<and> granted err consume w pre w1 \<and>
        fl_dimension failure = bk_dimension (cr_bucket request) \<and>
        (err w1 \<noteq> None \<and> w' = w1 \<and> asked = pre \<and> Failure_Is failure ErrUnavailable \<or>
         (\<exists>answer. err w1 = None \<and> consume w1 request = (w', answer) \<and> answer \<noteq> Inr Allow \<and> asked = pre @ [request] \<and>
            (Failure_Is failure ErrRejected \<longleftrightarrow> (\<exists>delay \<ge> 0. answer = Inr (Reject delay) \<and> fl_retryAfter failure = delay))))))"
proof (cases "bound_to policy keys \<and> ctx \<noteq> None \<and> limiter \<noteq> None")
  case False
  then have "w' = w \<and> asked = [] \<and> (\<exists>e r. failure = fail_at r e \<and> cr_operation r = op \<or> failure = unavailableFailure op [] e)"
    using assms(2) Policy_Consume_eq [OF assms(1), of ctx limiter w keys] ConsumeInOrder_requests [OF assms(1), of keys ctx limiter w]
      requests_hd [OF assms(1), of keys]
    by (cases ctx; cases limiter; cases "bound_to policy keys") auto
  with False show ?thesis by auto
next
  case True
  then obtain err consume where c: "ctx = Some err" "limiter = Some consume" "bound_to policy keys" by auto
  with assms(2) Policy_Consume_eq [OF assms(1), of ctx limiter w keys] ConsumeInOrder_requests [OF assms(1), of keys ctx limiter w]
  have "consume_requests err consume w (requests_of policy keys) = (w', asked, Some failure)" by simp
  from this [unfolded consume_Some_iff] obtain pre r post w1 where
    r: "requests_of policy keys = pre @ r # post" "granted err consume w pre w1" and
    stop: "(\<exists>e. err w1 = Some e \<and> w' = w1 \<and> asked = pre \<and> failure = fail_at r (External e)) \<or>
      (\<exists>answer. err w1 = None \<and> consume w1 r = (w', answer) \<and> answer \<noteq> Inr Allow \<and> asked = pre @ [r] \<and> failure = refusal r answer)"
    by blast
  have op: "cr_operation r = op"
    using requests_of_operation [of r policy keys] r(1) policies_SomeD(1) [OF assms(1)] by simp
  from stop show ?thesis
  proof (elim disjE exE conjE)
    fix e assume "err w1 = Some e" "w' = w1" "asked = pre" "failure = fail_at r (External e)"
    with c r op show ?thesis
      by (rule_tac conjI, simp, rule_tac conjI, simp, rule_tac disjI2, rule_tac conjI, simp)
        (intro exI [of _ err] exI [of _ consume] exI [of _ pre] exI [of _ r] exI [of _ post] exI [of _ w1], simp)
  next
    fix answer assume a: "err w1 = None" "consume w1 r = (w', answer)" "answer \<noteq> Inr Allow" "asked = pre @ [r]" "failure = refusal r answer"
    with refusal_rejected [OF a(3), of r] c r op show ?thesis
      by (intro conjI disjI2 exI [of _ err] exI [of _ consume] exI [of _ pre] exI [of _ r] exI [of _ post] exI [of _ w1]) auto
  qed
qed

theorem rate_stops_at_refusal_witness:
  "\<exists>failure :: nat Failure.
     Policy_Consume demo_policy (Some (\<lambda>_. None)) (Some (\<lambda>w r. (w + 1, if w = 0 then Inr Allow else Inr (Reject 5)))) (0 :: nat) demo_keys =
       (2, [demo_request 0, demo_request 1], Some failure) \<and>
     fl_operation failure = OperationAdminPasswordLogin \<and> fl_dimension failure = DimensionAdminAccount \<and>
     Failure_Is failure ErrRejected \<and> fl_retryAfter failure = 5"
proof -
  define limiter where "limiter = (\<lambda>(w :: nat) (r :: ConsumptionRequest). (w + 1, if w = 0 then Inr Allow else Inr (Reject 5) :: nat + Decision))"
  define failure where "failure = (refusal (demo_request 1) (Inr (Reject 5)) :: nat Failure)"
  have run: "Policy_Consume demo_policy (Some (\<lambda>_. None)) (Some limiter) 0 demo_keys =
      (2, [demo_request 0, demo_request 1], Some failure)"
    unfolding Policy_Consume_eq [OF demo_policy_known] ConsumeInOrder_requests [OF demo_policy_known demo_bound]
    unfolding demo_requests
    by (simp add: demo_bound consume_requests_Cons limiter_def failure_def Reject_def Allow_def)
  from rate_stops_at_refusal [OF demo_policy_known this]
  have "fl_operation failure = OperationAdminPasswordLogin" by blast
  moreover have "fl_dimension failure = DimensionAdminAccount \<and> Failure_Is failure ErrRejected \<and> fl_retryAfter failure = 5"
    by (simp add: failure_def refusal_def Decision_validate_eq Reject_def rejectedFailure_def demo_request_def demo_keys_def)
  ultimately show ?thesis using run unfolding limiter_def by blast
qed

text \<open>
  C37: The limiter over Redis fails closed along the whole path. When an operation is granted through it, the script has
  been run on the key of every bucket of the policy, in order, with the capacity, the refill period and the lifetime
  of its rule, and each run has answered that the token was there.
\<close>

theorem rate_redis_granted:
  assumes "policies op = Some policy"
    and "Policy_Consume policy (Some err) (Some (Limiter_Consume hmac run (Some ctx) (Some limiter))) w keys = (w', asked, None)"
  shows "asked = requests_of policy keys \<and> bound_to policy keys \<and>
    (\<exists>worlds. length worlds = length asked + 1 \<and> hd worlds = w \<and> last worlds = w' \<and>
       (\<forall>i < length asked. script_call hmac run limiter (worlds ! i) (asked ! i) (worlds ! (i + 1)) (Inr [ScriptInt 1, ScriptInt 0])))"
proof -
  from assms(2) have "asked = requests_of policy keys" "bound_to policy keys" and
    g: "granted err (Limiter_Consume hmac run (Some ctx) (Some limiter)) w asked w'"
    by (auto simp: Policy_Consume_granted [OF assms(1)])
  with granted_worlds [OF g] show ?thesis by (auto simp: Limiter_Consume_Allow)
qed

theorem rate_redis_granted_witness:
  "\<exists>keys. Policy_Consume demo_policy (Some (\<lambda>_. None))
     (Some (Limiter_Consume (\<lambda>k v. v) (\<lambda>w key c r t. (w @ [key], Inr [ScriptInt 1, ScriptInt 0])) (Some (\<lambda>_. None)) (Some demo_limiter)))
     [] demo_keys = (keys, [demo_request 0, demo_request 1], None :: unit redis_error Failure option) \<and>
   (\<exists>worlds. length worlds = 3 \<and> hd worlds = [] \<and> last worlds = keys \<and>
      script_call (\<lambda>k v. v) (\<lambda>w key c r t. (w @ [key], Inr [ScriptInt 1, ScriptInt 0] :: unit + script_value list)) demo_limiter (worlds ! 0) (demo_request 0)
        (worlds ! 1) (Inr [ScriptInt 1, ScriptInt 0]))"
proof -
  let ?run = "\<lambda>w (key :: string) (c :: int) (r :: int) (t :: int). (w @ [key], Inr [ScriptInt 1, ScriptInt 0] :: unit + script_value list)"
  let ?L = "Limiter_Consume (\<lambda>k v. v) ?run (Some (\<lambda>_. None)) (Some demo_limiter)"
  have "\<exists>key. storageKey (\<lambda>k v. v) demo_limiter (demo_request n) = (Inr key :: unit redis_error + string)" for n
    by (simp add: storageKey_Inr demo_limiter_def active_def mac_input_def bytes_of_def)
  then obtain key where k: "\<And>n. storageKey (\<lambda>k v. v) demo_limiter (demo_request n) = (Inr (key n) :: unit redis_error + string)" by metis
  have rule: "rule_of demo_limiter (demo_request 0) \<noteq> None" "rule_of demo_limiter (demo_request 1) \<noteq> None"
    by (simp_all add: rule_of_def demo_limiter_def demo_request_def demo_keys_def StandardRules_def)
  have s: "script_call (\<lambda>k v. v) ?run demo_limiter w (demo_request 0) (w @ [key 0]) (Inr [ScriptInt 1, ScriptInt 0])"
    "script_call (\<lambda>k v. v) ?run demo_limiter w (demo_request 1) (w @ [key 1]) (Inr [ScriptInt 1, ScriptInt 0])" for w
    using rule demo_request_ok k by (auto simp: script_call_def)
  have g: "granted (\<lambda>_. None) ?L [] [demo_request 0, demo_request 1] [key 0, key 1]"
    using s [of "[]"] s [of "[key 0]"] by (auto simp: Limiter_Consume_Allow intro!: exI [of _ "[key 0]"])
  have run: "Policy_Consume demo_policy (Some (\<lambda>_. None)) (Some ?L) [] demo_keys =
      ([key 0, key 1], [demo_request 0, demo_request 1], None)"
    using g by (simp add: Policy_Consume_granted [OF demo_policy_known] demo_bound demo_requests)
  from conjunct2 [OF conjunct2 [OF rate_redis_granted [OF demo_policy_known run]]] obtain worlds where
    w: "length worlds = length [demo_request 0, demo_request 1] + 1" "hd worlds = []" "last worlds = [key 0, key 1]" and
    calls: "\<forall>i < length [demo_request 0, demo_request 1]. script_call (\<lambda>k v. v) ?run demo_limiter (worlds ! i)
      ([demo_request 0, demo_request 1] ! i) (worlds ! (i + 1)) (Inr [ScriptInt 1, ScriptInt 0])" by blast
  from calls [rule_format, of 0] w have "length worlds = 3"
    "script_call (\<lambda>k v. v) ?run demo_limiter (worlds ! 0) (demo_request 0) (worlds ! 1) (Inr [ScriptInt 1, ScriptInt 0])"
    by simp_all
  with run w show ?thesis by blast
qed

text \<open>
  C34: The token bucket bounds the rate. Take any rule of the standard matrix and any sequence of runs of the script on
  one key, with a clock of the server that does not go back and a key that is lost only after its lifetime. Among any
  consecutive runs, the allowed ones number at most the capacity plus the refill periods that pass between the first and
  the last of them; expiry of the key adds nothing. When the arithmetic rounds, each run adds at most three rounding errors.
\<close>

theorem bucket_rate_bound:
  assumes "(operation, dimensions) \<in> set StandardRules" and "(dimension, rule) \<in> set dimensions"
    and "rounding fl (uint (ru_Capacity rule)) eps" and "window = c # cs"
    and "honoured (Milliseconds (ru_TTL rule)) since (pre @ window @ post)"
  shows "of_nat (allowed_count (take (length window) (drop (length pre)
      (bucket_calls fl (uint (ru_Capacity rule)) (Microseconds (ru_RefillEvery rule)) (None, None) (pre @ window @ post))))) \<le>
    of_int (uint (ru_Capacity rule)) +
    of_int (ca_now (last window) - ca_now (hd window)) / of_int (Microseconds (ru_RefillEvery rule)) + 3 * eps * of_nat (length window)"
proof -
  note rule = rule_covered [OF standard_rule [OF assms(1,2)]]
  have "last (ca_now c # map ca_now cs) = ca_now (last window)" by (simp add: assms(4) last_map)
  with window_answers [OF assms(3) rule, of since pre c cs post] assms(4,5) show ?thesis by simp
qed

theorem bucket_rate_bound_witness:
  "honoured 240000 0 [\<lparr>ca_now = 1, ca_kept = True\<rparr>, \<lparr>ca_now = 2, ca_kept = True\<rparr>] \<and>
   of_nat (allowed_count (bucket_calls (\<lambda>x. x) 12 10000000 (None, None) [\<lparr>ca_now = 1, ca_kept = True\<rparr>, \<lparr>ca_now = 2, ca_kept = True\<rparr>])) \<le>
     (12 + 1 / 10000000 :: rat)"
proof -
  let ?rule = "standardRule 12 (10 * Second)"
  have "(OperationIdentityBootstrap, [(DimensionIP, ?rule)]) \<in> set StandardRules" by (simp add: StandardRules_def)
  moreover have "rounding (\<lambda>x. x) (uint (ru_Capacity ?rule)) 0" by (simp add: rounding_def mono_def)
  ultimately show ?thesis
    using bucket_rate_bound [of OperationIdentityBootstrap "[(DimensionIP, ?rule)]" DimensionIP ?rule "\<lambda>x. x" 0
        "[\<lparr>ca_now = 1, ca_kept = True\<rparr>, \<lparr>ca_now = 2, ca_kept = True\<rparr>]" "\<lparr>ca_now = 1, ca_kept = True\<rparr>"
        "[\<lparr>ca_now = 2, ca_kept = True\<rparr>]" 0 "[]" "[]"]
    by (simp add: standardRule_def Milliseconds_def Microseconds_def token_bucket_def)
qed





text \<open>
  A rule may be accepted whose key expires before the bucket is full again, against the purpose of the lifetime check:
  the lifetime is compared in nanoseconds and used in whole milliseconds. With a capacity of one and a refill period and
  lifetime of 1.5 ms, the key is gone after one millisecond, and two runs within two thirds of a period are both allowed.
\<close>

theorem rate_ttl_truncated:
  "\<exists>rule calls. validRule rule \<and> honoured (Milliseconds (ru_TTL rule)) 0 calls \<and>
     ca_now (last calls) - ca_now (hd calls) < Microseconds (ru_RefillEvery rule) \<and> uint (ru_Capacity rule) = 1 \<and>
     allowed_count (bucket_calls (\<lambda>x. x) (uint (ru_Capacity rule)) (Microseconds (ru_RefillEvery rule)) (None, None) calls) = 2"
proof -
  let ?rule = "\<lparr>ru_Capacity = 1, ru_RefillEvery = 1500000, ru_TTL = 1500000\<rparr>"
  let ?calls = "[\<lparr>ca_now = 0, ca_kept = True\<rparr>, \<lparr>ca_now = 1000, ca_kept = False\<rparr>]"
  have "validRule ?rule" by (simp add: validRule_def MaxInt64_def)
  moreover have "allowed_count (bucket_calls (\<lambda>x. x) 1 1500 (None, None) ?calls) = 2" by (simp add: token_bucket_def)
  ultimately show ?thesis
    by (intro exI [of _ ?rule] exI [of _ ?calls]) (simp add: Milliseconds_def Microseconds_def)
qed

end
