(* ===== verification/ThreeCards.thy ===== *)
theory ThreeCards
  imports Text Dice
begin

text \<open>
  The cards of three rounds (\<open>games/three-rounds/engine\<close>: \<open>cards.go\<close>, \<open>config.go\<close>, \<open>errors.go\<close>): the deck of 54
  cards, their strengths, the shuffle and the deal.

  \<^item> The hash of the standard library is the argument \<open>sha256\<close> of the shuffle. The rejection loop of the shuffle ends
    only if the hash ever gives an acceptable word: \<open>draw\<close> is \<open>None\<close> when it does not end, and the shuffle then diverges.
  \<^item> \<open>slices.SortFunc\<close> is \<open>sort_key\<close>; the keys of the cards of a deck are distinct, so that it need not be stable.
  \<^item> A Go map from users to hands is a function; a missing key is the empty hand. A lookup of an unknown card in the
    map of cards gives Go's zero value, \<open>zero_card\<close>.
\<close>

section \<open>Errors and configuration\<close>

datatype ErrorCode =
    CodeInvalidConfig | CodeInvalidParticipants | CodeInvalidState | CodeInvalidAction | CodeWrongPhase
  | CodeActionExpired | CodeTimerMismatch | CodeTimerNotDue | CodeParticipantInactive | CodeCardInvalid
  | CodeCardCountInvalid | CodeSelectionExists | CodeRoundMismatch | CodeSessionFinished | CodeSeedInvalid
  | CodeUnsupportedMigration | CodeProjectionUnavailable | CodeMalformedPayload

type_synonym 'a result = "(ErrorCode, 'a) res"

definition MinimumPlayers :: nat where "MinimumPlayers = 2"
definition MaximumPlayers :: nat where "MaximumPlayers = 9"
definition DefaultRoundOneTime :: u32 where "DefaultRoundOneTime = 30"
definition DefaultRoundTwoTime :: u32 where "DefaultRoundTwoTime = 45"
definition DefaultResultTime :: u32 where "DefaultResultTime = 5"
definition DefaultFinalTime :: u32 where "DefaultFinalTime = 10"

record Config =
  cf_RoundOneTimeoutSeconds :: u32
  cf_RoundTwoTimeoutSeconds :: u32
  cf_RoundResultSeconds :: u32
  cf_FinalResultSeconds :: u32

definition DefaultConfig :: Config where
  "DefaultConfig = \<lparr>cf_RoundOneTimeoutSeconds = DefaultRoundOneTime, cf_RoundTwoTimeoutSeconds = DefaultRoundTwoTime,
     cf_RoundResultSeconds = DefaultResultTime, cf_FinalResultSeconds = DefaultFinalTime\<rparr>"

definition selectionTimeoutValid :: "u32 \<Rightarrow> bool" where
  "selectionTimeoutValid value \<longleftrightarrow> value = 0 \<or> value \<ge> 10 \<and> value \<le> 120"

definition Config_Validate :: "Config \<Rightarrow> nat \<Rightarrow> unit result" where
  "Config_Validate config playerCount =
     (if playerCount < MinimumPlayers \<or> playerCount > MaximumPlayers
      then ruleError CodeInvalidParticipants ''player count is outside the supported range''
      else if \<not> selectionTimeoutValid (cf_RoundOneTimeoutSeconds config) \<or>
              \<not> selectionTimeoutValid (cf_RoundTwoTimeoutSeconds config)
      then ruleError CodeInvalidConfig ''selection timeout must be 0 or 10-120 seconds''
      else if cf_RoundResultSeconds config < 2 \<or> cf_RoundResultSeconds config > 15
      then ruleError CodeInvalidConfig ''result timeout must be 2-15 seconds''
      else if cf_FinalResultSeconds config < 5 \<or> cf_FinalResultSeconds config > 30
      then ruleError CodeInvalidConfig ''final timeout must be 5-30 seconds''
      else Inr ())"

section \<open>Cards\<close>

type_synonym CardID = string

datatype Suit = SuitNone | SuitDiamond | SuitClub | SuitHeart | SuitSpade

datatype cardKind = cardNormal | cardSmallJoker | cardBigJoker

record Card =
  cd_ID :: CardID
  cd_Ordinal :: u8
  cd_Rank :: u8
  cd_Suit :: Suit
  cd_Kind :: cardKind

definition zero_card :: Card where
  "zero_card = \<lparr>cd_ID = [], cd_Ordinal = 0, cd_Rank = 0, cd_Suit = SuitNone, cd_Kind = cardNormal\<rparr>"

definition CurrentSchemaVersion :: u32 where "CurrentSchemaVersion = 1"
definition RoundHistoryLimit :: nat where "RoundHistoryLimit = 3"
definition ShuffleDomain :: string where "ShuffleDomain = ''game-night/three-rounds/shuffle/v1''"
abbreviation SmallJokerID :: CardID where "SmallJokerID \<equiv> ''SJ''"
abbreviation BigJokerID :: CardID where "BigJokerID \<equiv> ''BJ''"

text \<open>The loop of \<open>itoa\<close>, which fills its buffer from the end.\<close>

function itoa_loop :: "u32 \<Rightarrow> string \<Rightarrow> string" where
  "itoa_loop value buffer =
     (if value > 0 then itoa_loop (value div 10) (char_of (48 + unat (value mod 10)) # buffer) else buffer)"
  by pat_completeness auto
termination
proof (relation "measure (\<lambda>(value, _). unat value)")
  fix v :: u32 and buffer
  assume "v > 0"
  then have "0 < unat v" by (simp add: word_less_nat_alt)
  then show "((v div 10, char_of (48 + unat (v mod 10)) # buffer), v, buffer) \<in> measure (\<lambda>(v, _). unat v)"
    by (simp add: unat_div)
qed simp

declare itoa_loop.simps [simp del]

definition itoa :: "u32 \<Rightarrow> string" where
  "itoa value = (if value = 0 then ''0'' else itoa_loop value [])"

definition makeCardID :: "u8 \<Rightarrow> Suit \<Rightarrow> CardID" where
  "makeCardID rank suit =
     (let value = (if rank = 11 then ''J'' else if rank = 12 then ''Q'' else if rank = 13 then ''K''
                   else if rank = 14 then ''A'' else itoa (ucast rank)) in
      case suit of
        SuitDiamond \<Rightarrow> value @ ''D''
      | SuitClub \<Rightarrow> value @ ''C''
      | SuitHeart \<Rightarrow> value @ ''H''
      | SuitSpade \<Rightarrow> value @ ''S''
      | SuitNone \<Rightarrow> [])"

text \<open>The two nested loops of \<open>buildDeck\<close>, with the ordinal counted along.\<close>

definition deck_faces :: "(u8 \<times> Suit) list" where
  "deck_faces = concat (map (\<lambda>rank. map (Pair rank) [SuitDiamond, SuitClub, SuitHeart, SuitSpade])
     [2, 3, 4, 5, 6, 7, 8, 9, 10, 11, 12, 13, 14])"

fun number_cards :: "u8 \<Rightarrow> (u8 \<times> Suit) list \<Rightarrow> Card list" where
  "number_cards ordinal [] =
     [\<lparr>cd_ID = SmallJokerID, cd_Ordinal = ordinal, cd_Rank = 15, cd_Suit = SuitNone, cd_Kind = cardSmallJoker\<rparr>,
      \<lparr>cd_ID = BigJokerID, cd_Ordinal = ordinal + 1, cd_Rank = 16, cd_Suit = SuitNone, cd_Kind = cardBigJoker\<rparr>]"
| "number_cards ordinal ((rank, suit) # rest) =
     \<lparr>cd_ID = makeCardID rank suit, cd_Ordinal = ordinal, cd_Rank = rank, cd_Suit = suit, cd_Kind = cardNormal\<rparr> #
     number_cards (ordinal + 1) rest"

definition buildDeck :: "Card list" where "buildDeck = number_cards 0 deck_faces"

definition deckOrdered :: "Card list" where "deckOrdered = buildDeck"

definition buildCardMap :: "Card list \<Rightarrow> (CardID \<rightharpoonup> Card)" where
  "buildCardMap cards = foldl (\<lambda>m c. m(cd_ID c \<mapsto> c)) Map.empty cards"

definition cardByID :: "CardID \<rightharpoonup> Card" where "cardByID = buildCardMap deckOrdered"

definition normalDeck :: "Card list" where "normalDeck = take 52 deckOrdered"

definition card_of :: "CardID \<Rightarrow> Card" where
  "card_of cardID = (case cardByID cardID of None \<Rightarrow> zero_card | Some c \<Rightarrow> c)"

definition ParseCardID :: "string \<Rightarrow> Card option" where
  "ParseCardID value =
     (case cardByID value of
        None \<Rightarrow> None
      | Some c \<Rightarrow> if value \<noteq> TrimSpace value then None else Some c)"

definition OrderedDeck :: "Card list" where "OrderedDeck = deckOrdered"

section \<open>The shuffle\<close>

record shuffleStream =
  ss_seed :: "u8 list"
  ss_counter :: u64
  ss_buffer :: "u8 list"
  ss_offset :: nat

definition newShuffleStream :: "u8 list \<Rightarrow> shuffleStream" where
  "newShuffleStream seed = \<lparr>ss_seed = seed, ss_counter = 0, ss_buffer = [], ss_offset = 0\<rparr>"

text \<open>\<open>binary.BigEndian\<close>.\<close>

definition BigEndian_PutUint64 :: "u64 \<Rightarrow> u8 list" where "BigEndian_PutUint64 v = rev (PutUint64 v)"

definition BigEndian_Uint64 :: "u8 list \<Rightarrow> u64" where
  "BigEndian_Uint64 bytes = foldl (\<lambda>acc b. acc * 256 + ucast b) 0 bytes"

definition ascii :: "string \<Rightarrow> u8 list" where "ascii s = map (\<lambda>c. of_nat (of_char c)) s"

definition nextU64 :: "digest \<Rightarrow> shuffleStream \<Rightarrow> u64 \<times> shuffleStream" where
  "nextU64 sha256 stream =
     (let stream = (if length (ss_buffer stream) - ss_offset stream < 8 then
            stream\<lparr>ss_buffer := sha256 (ascii ShuffleDomain @ [0] @ ss_seed stream @ BigEndian_PutUint64 (ss_counter stream)),
                   ss_offset := 0, ss_counter := ss_counter stream + 1\<rparr>
          else stream) in
      (BigEndian_Uint64 (take 8 (drop (ss_offset stream) (ss_buffer stream))), stream\<lparr>ss_offset := ss_offset stream + 8\<rparr>))"

text \<open>The inner loop: words are consumed until one is below the limit.\<close>

partial_function (option) draw :: "digest \<Rightarrow> u64 \<Rightarrow> shuffleStream \<Rightarrow> (u64 \<times> shuffleStream) option" where
  "draw sha256 limit stream =
     (case nextU64 sha256 stream of
        (x, stream') \<Rightarrow> if x < limit then Some (x, stream') else draw sha256 limit stream')"

declare draw.simps [code]

text \<open>\<open>^uint64(0)\<close> is the largest word, \<open>- 1\<close>.\<close>

definition rejection_limit :: "u64 \<Rightarrow> u64" where
  "rejection_limit n = - 1 - (- 1 mod n)"

text \<open>The outer loop, from index \<open>i\<close> down to 1.\<close>

fun shuffle_from :: "digest \<Rightarrow> nat \<Rightarrow> shuffleStream \<Rightarrow> Card list \<Rightarrow> Card list result" where
  "shuffle_from sha256 0 stream deck = Inr deck"
| "shuffle_from sha256 (Suc k) stream deck =
     (let i = Suc k; n = of_nat (i + 1) :: u64 in
      case draw sha256 (rejection_limit n) stream of
        None \<Rightarrow> Inl Diverge
      | Some (x, stream') \<Rightarrow>
          (let j = unat (x mod n) in shuffle_from sha256 k stream' (deck[i := deck ! j, j := deck ! i])))"

definition ShuffleDeck :: "digest \<Rightarrow> u8 list \<Rightarrow> Card list result" where
  "ShuffleDeck sha256 seed = shuffle_from sha256 (length OrderedDeck - 1) (newShuffleStream seed) OrderedDeck"

section \<open>The deal\<close>

record Participant =
  pt_UserID :: string
  pt_SeatIndex :: u32

text \<open>The loops over six rounds and the participants: the next card goes to the next participant.\<close>

fun deal_cards :: "(string \<Rightarrow> CardID list) \<Rightarrow> (Participant \<times> Card) list \<Rightarrow> string \<Rightarrow> CardID list" where
  "deal_cards hands [] = hands"
| "deal_cards hands ((participant, c) # rest) =
     deal_cards (hands(pt_UserID participant := hands (pt_UserID participant) @ [cd_ID c])) rest"

definition DealHands :: "Participant list \<Rightarrow> Card list \<Rightarrow> ((string \<Rightarrow> CardID list) \<times> Card list) result" where
  "DealHands participants deck =
     (if length participants < MinimumPlayers \<or> length participants > MaximumPlayers \<or> length deck \<noteq> length deckOrdered
      then ruleError CodeInvalidParticipants ''deal inputs are malformed''
      else Inr (deal_cards (\<lambda>_. []) (zip (concat (replicate 6 participants)) deck), drop (6 * length participants) deck))"

section \<open>Strengths\<close>

definition rankStrength :: "Card \<Rightarrow> u8" where
  "rankStrength c =
     (case cd_Kind c of cardBigJoker \<Rightarrow> 16 | cardSmallJoker \<Rightarrow> 15 | cardNormal \<Rightarrow> cd_Rank c)"

definition suitStrength :: "Card \<Rightarrow> u8" where
  "suitStrength c =
     (case cd_Suit c of SuitSpade \<Rightarrow> 4 | SuitHeart \<Rightarrow> 3 | SuitClub \<Rightarrow> 2 | SuitDiamond \<Rightarrow> 1 | SuitNone \<Rightarrow> 0)"

definition suitAscending :: "Card \<Rightarrow> u8" where
  "suitAscending c =
     (case cd_Suit c of SuitDiamond \<Rightarrow> 1 | SuitClub \<Rightarrow> 2 | SuitHeart \<Rightarrow> 3 | SuitSpade \<Rightarrow> 4 | SuitNone \<Rightarrow> 0)"

definition halfPoints :: "Card \<Rightarrow> u8" where
  "halfPoints c =
     (if cd_Kind c = cardBigJoker \<or> cd_Kind c = cardSmallJoker then 1
      else if cd_Rank c = 14 then 2
      else if cd_Rank c = 11 \<or> cd_Rank c = 12 \<or> cd_Rank c = 13 then 1
      else cd_Rank c * 2)"

definition normalCardOrdinal :: "Card \<Rightarrow> u8 option" where
  "normalCardOrdinal c = (if cd_Kind c \<noteq> cardNormal then None else Some (cd_Ordinal c))"

definition sortCardsByOrdinal :: "Card list \<Rightarrow> Card list" where
  "sortCardsByOrdinal cards = sort_key cd_Ordinal cards"

definition sortCardIDsByOrdinal :: "CardID list \<Rightarrow> CardID list" where
  "sortCardIDsByOrdinal values = sort_key (\<lambda>cardID. cd_Ordinal (card_of cardID)) values"

text \<open>\<open>strings.Join\<close> with a comma, and the hexadecimal digest of a deck.\<close>

fun join_comma :: "string list \<Rightarrow> string" where
  "join_comma [] = []"
| "join_comma [s] = s"
| "join_comma (s # rest) = s @ '','' @ join_comma rest"

definition encodeHex :: "u8 list \<Rightarrow> string" where
  "encodeHex value =
     concat (map (\<lambda>current. [''0123456789abcdef'' ! unat (drop_bit 4 current), ''0123456789abcdef'' ! unat (current mod 16)]) value)"

definition deckDigest :: "digest \<Rightarrow> Card list \<Rightarrow> string" where
  "deckDigest sha256 cards = encodeHex (sha256 (ascii (join_comma (map cd_ID cards))))"

end
