(* ===== verification/ThreeRounds.thy ===== *)
theory ThreeRounds
  imports ThreeCards Players "HOL-Library.Product_Lexorder" "HOL-Library.List_Lexorder" "HOL-Library.Char_ord"
begin

text \<open>
  The rules engine of three rounds (\<open>types.go\<close> and \<open>logic.go\<close> of \<open>games/three-rounds/engine\<close>). Every player is dealt six
  cards and spends them over three rounds: one card, two cards, and the three that are left. All choose at the same time;
  a timer chooses for those who did not.

  \<^item> Phases are the constructors of \<open>Phase\<close>; \<open>PhaseUnset\<close> stands for Go's zero value and for every undefined value.
    Hand classes are the bytes of the source, which are compared.
  \<^item> A slice that is indexed beyond its length gives \<open>Inl Panic\<close>.
  \<^item> Where the source returns a state together with \<open>state.Validate()\<close> as the error, the model returns the state if
    there is no error: the callers drop the state otherwise.
\<close>

section \<open>Types\<close>

datatype Phase =
    PhaseUnset | PhaseDealing | PhaseRoundOneSelecting | PhaseRoundOneResult | PhaseRoundTwoSelecting | PhaseRoundTwoResult
  | PhaseRoundThreeResult | PhaseFinalResult | PhaseFinished

abbreviation FinishNormalCompleted :: string where "FinishNormalCompleted \<equiv> ''normal_completed''"
abbreviation FinishHostRequested :: string where "FinishHostRequested \<equiv> ''host_requested''"
abbreviation FinishInsufficientParticipants :: string where
  "FinishInsufficientParticipants \<equiv> ''insufficient_participants''"

type_synonym HandClass = u8

abbreviation HandSingle :: HandClass where "HandSingle \<equiv> 1"
abbreviation HandPair :: HandClass where "HandPair \<equiv> 2"
abbreviation HandStraight :: HandClass where "HandStraight \<equiv> 3"
abbreviation HandFlush :: HandClass where "HandFlush \<equiv> 4"
abbreviation HandStraightFlush :: HandClass where "HandStraightFlush \<equiv> 5"
abbreviation HandTrips :: HandClass where "HandTrips \<equiv> 6"

record PendingSelection =
  ps_Round :: u32
  ps_CardIDs :: "CardID list"
  ps_AutoSubmitted :: bool

definition no_selection :: PendingSelection where
  "no_selection = \<lparr>ps_Round = 0, ps_CardIDs = [], ps_AutoSubmitted = False\<rparr>"

record WildcardSubstitution =
  ws_WildcardCardID :: CardID
  ws_SubstitutedCardID :: CardID
  ws_CardOrdinal :: u8

record WildcardResolution =
  wr_Substitutions :: "WildcardSubstitution list"
  wr_ResolvedCards :: "CardID list"

definition no_wildcards :: WildcardResolution where
  "no_wildcards = \<lparr>wr_Substitutions = [], wr_ResolvedCards = []\<rparr>"

record RoundOneEvaluation =
  e1_CardID :: CardID
  e1_RankStrength :: u8
  e1_SuitStrength :: u8

text \<open>A Go array \<^verbatim>\<open>[2]uint8\<close> is a pair.\<close>

record RoundTwoEvaluation =
  e2_TotalHalfPoints :: u8
  e2_Busted :: bool
  e2_RankStrengthsDesc :: "u8 \<times> u8"

record RoundThreeEvaluation =
  e3_HandClass :: HandClass
  e3_CompareValues :: "u8 list"
  e3_ResolvedCards :: "CardID list"

record PlayerReveal =
  rv_UserID :: string
  rv_SeatIndex :: u32
  rv_Active :: bool
  rv_CardIDs :: "CardID list"
  rv_AutoSubmitted :: bool
  rv_AwardedPoints :: u8
  rv_RoundOneEvaluation :: RoundOneEvaluation
  rv_RoundTwoEvaluation :: RoundTwoEvaluation
  rv_RoundThreeEvaluation :: RoundThreeEvaluation
  rv_WildcardResolution :: WildcardResolution

record RoundSummary =
  rs_Round :: u32
  rs_WinnerUserIDs :: "string list"
  rs_Reveals :: "PlayerReveal list"
  rs_AllBusted :: bool

record FinalStanding =
  fs_UserID :: string
  fs_SeatIndex :: u32
  fs_Active :: bool
  fs_TotalPoints :: u8
  fs_WonRoundOne :: bool
  fs_WonRoundTwo :: bool
  fs_WonRoundThree :: bool
  fs_Winner :: bool
  fs_Rank :: u32

record FinalSummary =
  fm_Standings :: "FinalStanding list"
  fm_WinnerUserIDs :: "string list"

record PlayerState =
  pl_UserID :: string
  pl_SeatIndex :: u32
  pl_Active :: bool
  pl_InitialHand :: "CardID list"
  pl_RemainingHand :: "CardID list"
  pl_PendingSelection :: PendingSelection
  pl_RoundOneCards :: "CardID list"
  pl_RoundTwoCards :: "CardID list"
  pl_RoundThreeCards :: "CardID list"
  pl_RoundThreeWildcardResolution :: WildcardResolution
  pl_RoundOnePoints :: u8
  pl_RoundTwoPoints :: u8
  pl_RoundThreePoints :: u8
  pl_TotalPoints :: u8
  pl_WonRoundOne :: bool
  pl_WonRoundTwo :: bool
  pl_WonRoundThree :: bool
  pl_FinalWinner :: bool
  pl_FinalRank :: u32

record State =
  st_SchemaVersion :: u32
  st_Phase :: Phase
  st_CurrentRound :: u32
  st_PhaseDeadlineUnixMillis :: i64
  st_PhaseGeneration :: u32
  st_Config :: Config
  st_HostUserID :: string
  st_Players :: "PlayerState list"
  st_RoundHistory :: "RoundSummary list"
  st_FinalSummary :: FinalSummary
  st_FinishReason :: string

record Timer =
  tm_Phase :: Phase
  tm_Round :: u32
  tm_DeadlineUnixMillis :: i64
  tm_PhaseGeneration :: u32

abbreviation EventSessionStarted :: string where "EventSessionStarted \<equiv> ''session.started''"
abbreviation EventCardsDealt :: string where "EventCardsDealt \<equiv> ''cards.dealt''"
abbreviation EventPhaseStarted :: string where "EventPhaseStarted \<equiv> ''phase.started''"
abbreviation EventSelectionSubmitted :: string where "EventSelectionSubmitted \<equiv> ''selection.submitted''"
abbreviation EventSelectionAutoSubmitted :: string where "EventSelectionAutoSubmitted \<equiv> ''selection.auto_submitted''"
abbreviation EventRoundRevealed :: string where "EventRoundRevealed \<equiv> ''round.revealed''"
abbreviation EventRoundSettled :: string where "EventRoundSettled \<equiv> ''round.settled''"
abbreviation EventWildcardResolved :: string where "EventWildcardResolved \<equiv> ''wildcard.resolved''"
abbreviation EventParticipantRevoked :: string where "EventParticipantRevoked \<equiv> ''participant.revoked''"
abbreviation EventSessionFinished :: string where "EventSessionFinished \<equiv> ''session.finished''"

record PlayerDeal =
  dl_UserID :: string
  dl_InitialHand :: "CardID list"

record Event =
  ev_Kind :: string
  ev_Config :: "Config option"
  ev_Participants :: "Participant list"
  ev_HostUserID :: string
  ev_Deals :: "PlayerDeal list"
  ev_Phase :: Phase
  ev_Round :: u32
  ev_DeadlineUnixMillis :: i64
  ev_PhaseGeneration :: u32
  ev_UserID :: string
  ev_AutoSubmitted :: bool
  ev_Summary :: RoundSummary
  ev_WildcardResolution :: WildcardResolution
  ev_OperatorUserID :: string
  ev_FinishReason :: string
  ev_RemovedPendingSelection :: bool
  ev_ActivePlayerCount :: u32

text \<open>The zero values that Go gives to the fields a composite literal leaves out.\<close>

definition zero_summary :: RoundSummary where
  "zero_summary = \<lparr>rs_Round = 0, rs_WinnerUserIDs = [], rs_Reveals = [], rs_AllBusted = False\<rparr>"

definition no_final :: FinalSummary where
  "no_final = \<lparr>fm_Standings = [], fm_WinnerUserIDs = []\<rparr>"

definition zero_event :: Event where
  "zero_event = \<lparr>ev_Kind = [], ev_Config = None, ev_Participants = [], ev_HostUserID = [], ev_Deals = [],
     ev_Phase = PhaseUnset, ev_Round = 0, ev_DeadlineUnixMillis = 0, ev_PhaseGeneration = 0, ev_UserID = [],
     ev_AutoSubmitted = False, ev_Summary = zero_summary, ev_WildcardResolution = no_wildcards, ev_OperatorUserID = [],
     ev_FinishReason = [], ev_RemovedPendingSelection = False, ev_ActivePlayerCount = 0\<rparr>"

definition zero_reveal :: PlayerReveal where
  "zero_reveal = \<lparr>rv_UserID = [], rv_SeatIndex = 0, rv_Active = False, rv_CardIDs = [], rv_AutoSubmitted = False,
     rv_AwardedPoints = 0, rv_RoundOneEvaluation = \<lparr>e1_CardID = [], e1_RankStrength = 0, e1_SuitStrength = 0\<rparr>,
     rv_RoundTwoEvaluation = \<lparr>e2_TotalHalfPoints = 0, e2_Busted = False, e2_RankStrengthsDesc = (0, 0)\<rparr>,
     rv_RoundThreeEvaluation = \<lparr>e3_HandClass = 0, e3_CompareValues = [], e3_ResolvedCards = []\<rparr>,
     rv_WildcardResolution = no_wildcards\<rparr>"

section \<open>Comparisons\<close>

text \<open>\<open>cmp.Compare\<close>, and the shape \<open>if diff != 0 { return diff }\<close>.\<close>

definition cmp :: "'a::linorder \<Rightarrow> 'a \<Rightarrow> int" where
  "cmp l r = (if l < r then -1 else if r < l then 1 else 0)"

definition or_else :: "int \<Rightarrow> int \<Rightarrow> int" where
  "or_else diff rest = (if diff \<noteq> 0 then diff else rest)"

record roundOneComparison =
  c1_RankStrength :: u8
  c1_SuitStrength :: u8

definition compareRoundOne :: "roundOneComparison \<Rightarrow> roundOneComparison \<Rightarrow> int" where
  "compareRoundOne left right =
     or_else (cmp (c1_RankStrength left) (c1_RankStrength right)) (cmp (c1_SuitStrength left) (c1_SuitStrength right))"

definition compareAutoRoundOne :: "roundOneComparison \<Rightarrow> roundOneComparison \<Rightarrow> int" where
  "compareAutoRoundOne left right =
     or_else (cmp (c1_RankStrength left) (c1_RankStrength right)) (cmp (c1_SuitStrength left) (c1_SuitStrength right))"

record roundTwoComparison =
  c2_Busted :: bool
  c2_TotalHalfPoints :: u8
  c2_RankStrengthsDesc :: "u8 \<times> u8"

definition evaluateRoundTwo :: "Card list \<Rightarrow> roundTwoComparison result" where
  "evaluateRoundTwo cards =
     (case cards of
        c0 # c1 # _ \<Rightarrow>
          (let r0 = rankStrength c0; r1 = rankStrength c1; total = halfPoints c0 + halfPoints c1 in
           Inr \<lparr>c2_Busted = total > 21, c2_TotalHalfPoints = total,
                c2_RankStrengthsDesc = (if r0 < r1 then (r1, r0) else (r0, r1))\<rparr>)
      | _ \<Rightarrow> Inl Panic)"

definition compareRoundTwo :: "roundTwoComparison \<Rightarrow> roundTwoComparison \<Rightarrow> int" where
  "compareRoundTwo left right =
     (if c2_Busted left \<noteq> c2_Busted right then (if c2_Busted left then -1 else 1)
      else or_else (cmp (c2_TotalHalfPoints left) (c2_TotalHalfPoints right))
        (or_else (cmp (fst (c2_RankStrengthsDesc left)) (fst (c2_RankStrengthsDesc right)))
          (cmp (snd (c2_RankStrengthsDesc left)) (snd (c2_RankStrengthsDesc right)))))"

record roundTwoAutoKey =
  ak_Busted :: bool
  ak_TotalHalfPoints :: u8
  ak_RankAsc :: "u8 \<times> u8"
  ak_Ordinals :: "u8 \<times> u8"

definition buildRoundTwoAutoKey :: "Card list \<Rightarrow> roundTwoAutoKey result" where
  "buildRoundTwoAutoKey cards =
     and_then (evaluateRoundTwo cards) (\<lambda>evaluation.
       let r0 = rankStrength (cards ! 0); r1 = rankStrength (cards ! 1); o0 = cd_Ordinal (cards ! 0); o1 = cd_Ordinal (cards ! 1) in
       Inr \<lparr>ak_Busted = c2_Busted evaluation, ak_TotalHalfPoints = c2_TotalHalfPoints evaluation,
            ak_RankAsc = (if r0 > r1 then (r1, r0) else (r0, r1)), ak_Ordinals = (if o0 > o1 then (o1, o0) else (o0, o1))\<rparr>)"

definition compareRoundTwoAuto :: "roundTwoAutoKey \<Rightarrow> roundTwoAutoKey \<Rightarrow> int" where
  "compareRoundTwoAuto left right =
     (if ak_Busted left \<noteq> ak_Busted right then (if ak_Busted left then 1 else -1)
      else or_else (cmp (ak_TotalHalfPoints left) (ak_TotalHalfPoints right))
        (or_else (cmp (fst (ak_RankAsc left)) (fst (ak_RankAsc right)))
          (or_else (cmp (snd (ak_RankAsc left)) (snd (ak_RankAsc right)))
            (or_else (cmp (fst (ak_Ordinals left)) (fst (ak_Ordinals right)))
              (cmp (snd (ak_Ordinals left)) (snd (ak_Ordinals right)))))))"

text \<open>The loop over the common positions of two lists, and then their lengths.\<close>

fun compare_lists :: "u8 list \<Rightarrow> u8 list \<Rightarrow> int" where
  "compare_lists (l # ls) (r # rs) = or_else (cmp l r) (compare_lists ls rs)"
| "compare_lists ls rs = cmp (length ls) (length rs)"

definition compareOrdinalKey :: "u8 list \<Rightarrow> u8 list \<Rightarrow> int" where
  "compareOrdinalKey left right = compare_lists left right"

record thirdComparison =
  c3_HandClass :: HandClass
  c3_CompareValues :: "u8 list"

definition compareThirdResult :: "thirdComparison \<Rightarrow> thirdComparison \<Rightarrow> int" where
  "compareThirdResult left right =
     or_else (cmp (c3_HandClass left) (c3_HandClass right)) (compare_lists (c3_CompareValues left) (c3_CompareValues right))"

section \<open>The third hand\<close>

definition straightHigh :: "u8 list \<Rightarrow> u8 option" where
  "straightHigh ranks =
     (let sorted = sort ranks in
      if sorted ! 0 = 2 \<and> sorted ! 1 = 3 \<and> sorted ! 2 = 14 then Some 3
      else if sorted ! 0 + 1 = sorted ! 1 \<and> sorted ! 1 + 1 = sorted ! 2 then Some (sorted ! 2)
      else None)"

definition classifyThird :: "Card list \<Rightarrow> thirdComparison result" where
  "classifyThird cards =
     (case sortCardsByOrdinal cards of
        c0 # c1 # c2 # _ \<Rightarrow>
          (let ranks = [cd_Rank c0, cd_Rank c1, cd_Rank c2]; sortedDesc = rev (sort ranks);
               flush = (cd_Suit c0 \<noteq> SuitNone \<and> cd_Suit c0 = cd_Suit c1 \<and> cd_Suit c1 = cd_Suit c2) in
           Inr (if cd_Rank c0 = cd_Rank c1 \<and> cd_Rank c1 = cd_Rank c2 then
                  \<lparr>c3_HandClass = HandTrips, c3_CompareValues = [cd_Rank c0]\<rparr>
                else case straightHigh ranks of
                  Some high \<Rightarrow>
                    if flush then \<lparr>c3_HandClass = HandStraightFlush, c3_CompareValues = [high]\<rparr>
                    else \<lparr>c3_HandClass = HandStraight, c3_CompareValues = [high]\<rparr>
                | None \<Rightarrow>
                    if flush then \<lparr>c3_HandClass = HandFlush, c3_CompareValues = sortedDesc\<rparr>
                    else if cd_Rank c0 = cd_Rank c1 \<or> cd_Rank c0 = cd_Rank c2 \<or> cd_Rank c1 = cd_Rank c2 then
                      (let (pairRank, kicker) =
                             (if cd_Rank c0 = cd_Rank c1 then (cd_Rank c0, cd_Rank c2)
                              else if cd_Rank c0 = cd_Rank c2 then (cd_Rank c0, cd_Rank c1)
                              else (cd_Rank c1, cd_Rank c0)) in
                       \<lparr>c3_HandClass = HandPair, c3_CompareValues = [pairRank, kicker]\<rparr>)
                    else \<lparr>c3_HandClass = HandSingle, c3_CompareValues = sortedDesc\<rparr>))
      | _ \<Rightarrow> Inl Panic)"

definition toResolvedCardIDs :: "Card list \<Rightarrow> CardID list" where
  "toResolvedCardIDs cards = map cd_ID (sortCardsByOrdinal cards)"

record thirdResolution =
  tr_Comparison :: thirdComparison
  tr_ResolvedCards :: "CardID list"
  tr_WildcardResolution :: WildcardResolution

definition substitutionOrdinals :: "WildcardResolution \<Rightarrow> u8 list" where
  "substitutionOrdinals value = map ws_CardOrdinal (wr_Substitutions value)"

text \<open>The resolution that an assignment of normal cards to the jokers gives.\<close>

definition assigned_resolution :: "Card list \<Rightarrow> Card list \<Rightarrow> Card list \<Rightarrow> thirdResolution result" where
  "assigned_resolution jokerOrder candidate assignments =
     and_then (classifyThird candidate) (\<lambda>classified.
       if length jokerOrder < length assignments then Inl Panic
       else Inr \<lparr>tr_Comparison = classified, tr_ResolvedCards = toResolvedCardIDs candidate,
         tr_WildcardResolution =
           \<lparr>wr_Substitutions = map (\<lambda>(joker, assigned). \<lparr>ws_WildcardCardID = cd_ID joker,
                ws_SubstitutedCardID = cd_ID assigned, ws_CardOrdinal = cd_Ordinal assigned\<rparr>) (zip jokerOrder assignments),
            wr_ResolvedCards = toResolvedCardIDs candidate\<rparr>\<rparr>)"

definition maybeBestThird ::
  "thirdResolution option \<Rightarrow> Card list \<Rightarrow> Card list \<Rightarrow> Card list \<Rightarrow> (bool \<times> thirdResolution) result" where
  "maybeBestThird current jokerOrder candidate assignments =
     and_then (assigned_resolution jokerOrder candidate assignments) (\<lambda>resolution.
       case current of
         None \<Rightarrow> Inr (True, resolution)
       | Some best \<Rightarrow>
           (let diff = compareThirdResult (tr_Comparison resolution) (tr_Comparison best) in
            if diff \<noteq> 0 then Inr (diff > 0, resolution)
            else Inr (compareOrdinalKey (map cd_Ordinal assignments) (substitutionOrdinals (tr_WildcardResolution best)) < 0,
                      resolution)))"

text \<open>The loops over the normal deck as the list of the assignments they try, in their order.\<close>

definition third_assignments :: "nat \<Rightarrow> u8 list \<Rightarrow> Card list list" where
  "third_assignments jokers used =
     concat (map (\<lambda>first.
       if cd_Ordinal (normalDeck ! first) \<in> set used then []
       else if jokers = 1 then [[normalDeck ! first]]
       else concat (map (\<lambda>second.
              if second = first \<or> cd_Ordinal (normalDeck ! second) \<in> set used then []
              else [[normalDeck ! first, normalDeck ! second]]) [0..<length normalDeck])) [0..<length normalDeck])"

fun search_third :: "Card list \<Rightarrow> Card list \<Rightarrow> Card list list \<Rightarrow> thirdResolution option \<Rightarrow> thirdResolution option result" where
  "search_third jokerOrder real [] best = Inr best"
| "search_third jokerOrder real (assignments # rest) best =
     and_then (maybeBestThird best jokerOrder (real @ assignments) assignments) (\<lambda>(improved, resolved).
       search_third jokerOrder real rest (if improved then Some resolved else best))"

definition resolveThirdHand :: "Card list \<Rightarrow> thirdResolution result" where
  "resolveThirdHand cards =
     (let jokers = filter (\<lambda>c. cd_Kind c \<noteq> cardNormal) cards; real = filter (\<lambda>c. cd_Kind c = cardNormal) cards;
          used = map cd_Ordinal real in
      if jokers = [] then
        and_then (classifyThird real) (\<lambda>classified.
          Inr \<lparr>tr_Comparison = classified, tr_ResolvedCards = toResolvedCardIDs real, tr_WildcardResolution = no_wildcards\<rparr>)
      else if length jokers > 2 then
        ruleError CodeInvalidState ''third round cannot contain more than two jokers''
      else
        (let jokerOrder = concat (map (\<lambda>wanted. filter (\<lambda>joker. cd_ID joker = wanted) jokers) [BigJokerID, SmallJokerID]) in
         and_then (search_third jokerOrder real (third_assignments (length jokerOrder) used) None) (\<lambda>best.
           case best of
             None \<Rightarrow> ruleError CodeInvalidState ''third round wildcard resolution found no candidate''
           | Some resolution \<Rightarrow> Inr resolution)))"

section \<open>Players and deadlines\<close>

fun playerIndex :: "PlayerState list \<Rightarrow> string \<Rightarrow> nat option" where
  "playerIndex [] userID = None"
| "playerIndex (player # rest) userID =
     (if pl_UserID player = userID then Some 0 else map_option Suc (playerIndex rest userID))"

fun activeCount :: "PlayerState list \<Rightarrow> nat" where
  "activeCount [] = 0"
| "activeCount (player # rest) = (if pl_Active player then Suc (activeCount rest) else activeCount rest)"

definition validUnixMillis :: "i64 \<Rightarrow> bool" where "validUnixMillis value \<longleftrightarrow> value > 0"

definition addDeadline :: "i64 \<Rightarrow> u32 \<Rightarrow> i64 result" where
  "addDeadline nowUnixMillis seconds =
     (if \<not> validUnixMillis nowUnixMillis then ruleError CodeInvalidState ''deterministic time is required''
      else if seconds = 0 then Inr 0
      else (let delta = uint seconds * 1000 in
        if nowUnixMillis > MaxInt64 - delta then ruleError CodeInvalidState ''deadline overflows unix milliseconds''
        else Inr (nowUnixMillis + delta)))"

definition deadlineForPhase :: "i64 \<Rightarrow> Phase \<Rightarrow> Config \<Rightarrow> i64 result" where
  "deadlineForPhase nowUnixMillis phase config =
     (case phase of
        PhaseRoundOneSelecting \<Rightarrow> addDeadline nowUnixMillis (cf_RoundOneTimeoutSeconds config)
      | PhaseRoundTwoSelecting \<Rightarrow> addDeadline nowUnixMillis (cf_RoundTwoTimeoutSeconds config)
      | PhaseRoundOneResult \<Rightarrow> addDeadline nowUnixMillis (cf_RoundResultSeconds config)
      | PhaseRoundTwoResult \<Rightarrow> addDeadline nowUnixMillis (cf_RoundResultSeconds config)
      | PhaseRoundThreeResult \<Rightarrow> addDeadline nowUnixMillis (cf_RoundResultSeconds config)
      | PhaseFinalResult \<Rightarrow> addDeadline nowUnixMillis (cf_FinalResultSeconds config)
      | _ \<Rightarrow> Inr 0)"

definition phaseRequiresDeadline :: "Phase \<Rightarrow> bool" where
  "phaseRequiresDeadline phase \<longleftrightarrow>
     phase = PhaseRoundOneSelecting \<or> phase = PhaseRoundTwoSelecting \<or> phase = PhaseRoundOneResult \<or>
     phase = PhaseRoundTwoResult \<or> phase = PhaseRoundThreeResult \<or> phase = PhaseFinalResult"

definition selectionDeadlineEnabled :: "Phase \<Rightarrow> Config \<Rightarrow> bool" where
  "selectionDeadlineEnabled phase config =
     (if phase = PhaseRoundOneSelecting then cf_RoundOneTimeoutSeconds config \<noteq> 0
      else if phase = PhaseRoundTwoSelecting then cf_RoundTwoTimeoutSeconds config \<noteq> 0
      else True)"

definition validFinishReason :: "string \<Rightarrow> bool" where
  "validFinishReason value \<longleftrightarrow>
     value = FinishNormalCompleted \<or> value = FinishHostRequested \<or> value = FinishInsufficientParticipants"

definition boolToUint8 :: "bool \<Rightarrow> u8" where "boolToUint8 value = (if value then 1 else 0)"

section \<open>Validation\<close>

text \<open>The loop over the initial hand, with the cards that all players have shown so far.\<close>

fun validate_initial :: "CardID set \<Rightarrow> CardID list \<Rightarrow> CardID set result" where
  "validate_initial seen [] = Inr seen"
| "validate_initial seen (cardID # rest) =
     (if cardID \<in> seen then ruleError CodeInvalidState ''initial hands contain duplicate cards''
      else if ParseCardID cardID = None then ruleError CodeInvalidState ''state contains an unknown initial card id''
      else validate_initial (insert cardID seen) rest)"

text \<open>The loops over the four piles that the cards of a player are in now.\<close>

fun validate_current :: "CardID set \<Rightarrow> CardID list \<Rightarrow> unit result" where
  "validate_current seen [] = Inr ()"
| "validate_current seen (cardID # rest) =
     (if ParseCardID cardID = None then ruleError CodeInvalidState ''state contains an unknown card id''
      else if cardID \<in> seen then ruleError CodeInvalidState ''current card allocation contains duplicates''
      else validate_current (insert cardID seen) rest)"

fun validate_pending :: "CardID list \<Rightarrow> CardID list \<Rightarrow> unit result" where
  "validate_pending remaining [] = Inr ()"
| "validate_pending remaining (cardID # rest) =
     (if ParseCardID cardID = None then ruleError CodeInvalidState ''pending selection contains an unknown card id''
      else if cardID \<notin> set remaining then ruleError CodeInvalidState ''pending selection must remain inside the current hand''
      else validate_pending remaining rest)"

definition current_cards :: "PlayerState \<Rightarrow> CardID list" where
  "current_cards player =
     pl_RemainingHand player @ pl_RoundOneCards player @ pl_RoundTwoCards player @ pl_RoundThreeCards player"

definition validatePlayerCards :: "PlayerState \<Rightarrow> CardID set \<Rightarrow> CardID set result" where
  "validatePlayerCards player seen =
     (if length (pl_InitialHand player) \<noteq> 6 then ruleError CodeInvalidState ''initial hand must contain exactly six cards''
      else and_then (validate_initial seen (pl_InitialHand player)) (\<lambda>seen'.
        and_then (validate_current {} (current_cards player)) (\<lambda>_.
        and_then (if ps_Round (pl_PendingSelection player) \<noteq> 0
                  then validate_pending (pl_RemainingHand player) (ps_CardIDs (pl_PendingSelection player)) else Inr ()) (\<lambda>_.
          if length (current_cards player) \<noteq> 6 then ruleError CodeInvalidState ''player current card allocation is broken''
          else Inr seen'))))"

text \<open>The loop of \<open>Validate\<close> over the players, with the seat before, the users, seats and cards met, and whether the host was.\<close>

fun validate_players ::
  "State \<Rightarrow> u32 option \<Rightarrow> string set \<Rightarrow> u32 set \<Rightarrow> CardID set \<Rightarrow> bool \<Rightarrow> PlayerState list \<Rightarrow> bool result" where
  "validate_players state previous users seats cardSeen hostFound [] = Inr hostFound"
| "validate_players state previous users seats cardSeen hostFound (player # rest) =
     (if pl_UserID player = [] then ruleError CodeInvalidState ''player identity is empty''
      else if (case previous of None \<Rightarrow> False | Some seat \<Rightarrow> seat \<ge> pl_SeatIndex player)
      then ruleError CodeInvalidState ''players are not in stable seat order''
      else if pl_UserID player \<in> users then ruleError CodeInvalidState ''player identity repeats''
      else if pl_SeatIndex player \<in> seats then ruleError CodeInvalidState ''seat index repeats''
      else and_then (validatePlayerCards player cardSeen) (\<lambda>cardSeen'.
        if pl_TotalPoints player \<noteq> pl_RoundOnePoints player + pl_RoundTwoPoints player + pl_RoundThreePoints player
        then ruleError CodeInvalidState ''player total points are stale''
        else if ps_Round (pl_PendingSelection player) \<noteq> 0 \<and>
                st_Phase state \<noteq> PhaseRoundOneSelecting \<and> st_Phase state \<noteq> PhaseRoundTwoSelecting
        then ruleError CodeInvalidState ''pending selection exists outside a selecting phase''
        else if ps_Round (pl_PendingSelection player) \<noteq> 0 \<and> ps_Round (pl_PendingSelection player) \<noteq> st_CurrentRound state
        then ruleError CodeInvalidState ''pending selection targets another round''
        else validate_players state (Some (pl_SeatIndex player)) (insert (pl_UserID player) users)
               (insert (pl_SeatIndex player) seats) cardSeen' (hostFound \<or> pl_UserID player = st_HostUserID state) rest))"

fun validate_rounds :: "u32 \<Rightarrow> RoundSummary list \<Rightarrow> unit result" where
  "validate_rounds previousRound [] = Inr ()"
| "validate_rounds previousRound (round # rest) =
     (if rs_Round round \<le> previousRound \<or> rs_Round round > 3 then ruleError CodeInvalidState ''round history ordering is invalid''
      else validate_rounds (rs_Round round) rest)"

definition Validate :: "State \<Rightarrow> unit result" where
  "Validate state =
     (if st_SchemaVersion state \<noteq> CurrentSchemaVersion \<or> st_CurrentRound state = 0 \<or>
         length (st_Players state) < MinimumPlayers \<or> length (st_Players state) > MaximumPlayers
      then ruleError CodeInvalidState ''state header is invalid''
      else and_then (Config_Validate (st_Config state) (length (st_Players state))) (\<lambda>_.
        if st_Phase state = PhaseUnset then ruleError CodeInvalidState ''state phase is unknown''
        else and_then (validate_players state None {} {} {} False (st_Players state)) (\<lambda>hostFound.
          if \<not> hostFound then ruleError CodeInvalidState ''host identity is absent''
          else if \<not> validFinishReason (st_FinishReason state) \<and> st_FinishReason state \<noteq> []
          then ruleError CodeInvalidState ''finish reason is unknown''
          else and_then
            (if st_Phase state = PhaseFinished then
               (if st_PhaseDeadlineUnixMillis state \<noteq> 0
                then ruleError CodeInvalidState ''finished state still owns a deadline'' else Inr ())
             else if st_PhaseGeneration state = 0
             then ruleError CodeInvalidState ''live state phase generation is missing''
             else if st_Phase state \<noteq> PhaseDealing \<and> phaseRequiresDeadline (st_Phase state) \<and>
                     st_PhaseDeadlineUnixMillis state \<le> 0 \<and> selectionDeadlineEnabled (st_Phase state) (st_Config state)
             then ruleError CodeInvalidState ''phase deadline is missing''
             else Inr ()) (\<lambda>_.
              if length (st_RoundHistory state) > RoundHistoryLimit
              then ruleError CodeInvalidState ''round history exceeds retention''
              else validate_rounds 0 (st_RoundHistory state)))))"

text \<open>The shape \<open>return next, events, next.Validate()\<close>.\<close>

definition validated :: "State \<Rightarrow> Event list \<Rightarrow> (State \<times> Event list) result" where
  "validated state events = and_then (Validate state) (\<lambda>_. Inr (state, events))"

section \<open>The first state\<close>

fun canonical_scan :: "string set \<Rightarrow> u32 set \<Rightarrow> Participant list \<Rightarrow> unit result" where
  "canonical_scan users seats [] = Inr ()"
| "canonical_scan users seats (participant # rest) =
     (if pt_UserID participant = [] then ruleError CodeInvalidParticipants ''participant user id is empty''
      else if pt_UserID participant \<in> users then ruleError CodeInvalidParticipants ''participant user id repeats''
      else if pt_SeatIndex participant \<in> seats then ruleError CodeInvalidParticipants ''participant seat repeats''
      else canonical_scan (insert (pt_UserID participant) users) (insert (pt_SeatIndex participant) seats) rest)"

definition sortParticipants :: "Participant list \<Rightarrow> Participant list" where
  "sortParticipants participants = sort_key (\<lambda>p. (pt_SeatIndex p, pt_UserID p)) participants"

definition canonicalParticipants :: "Participant list \<Rightarrow> Participant list result" where
  "canonicalParticipants participants =
     (if length participants < MinimumPlayers \<or> length participants > MaximumPlayers
      then ruleError CodeInvalidParticipants ''participant count is outside the supported range''
      else let canonical = sortParticipants participants in
        and_then (canonical_scan {} {} canonical) (\<lambda>_. Inr canonical))"

definition new_player :: "(string \<Rightarrow> CardID list) \<Rightarrow> Participant \<Rightarrow> PlayerState" where
  "new_player hands participant =
     \<lparr>pl_UserID = pt_UserID participant, pl_SeatIndex = pt_SeatIndex participant, pl_Active = True,
      pl_InitialHand = hands (pt_UserID participant), pl_RemainingHand = hands (pt_UserID participant),
      pl_PendingSelection = no_selection, pl_RoundOneCards = [], pl_RoundTwoCards = [], pl_RoundThreeCards = [],
      pl_RoundThreeWildcardResolution = no_wildcards, pl_RoundOnePoints = 0, pl_RoundTwoPoints = 0, pl_RoundThreePoints = 0,
      pl_TotalPoints = 0, pl_WonRoundOne = False, pl_WonRoundTwo = False, pl_WonRoundThree = False, pl_FinalWinner = False,
      pl_FinalRank = 0\<rparr>"

definition NewState ::
  "digest \<Rightarrow> Config \<Rightarrow> Participant list \<Rightarrow> string \<Rightarrow> i64 \<Rightarrow> u8 list \<Rightarrow> (State \<times> Event list) result" where
  "NewState sha256 config participants hostUserID nowUnixMillis seed =
     and_then (canonicalParticipants participants) (\<lambda>canonical.
     and_then (Config_Validate config (length canonical)) (\<lambda>_.
       if \<not> validUnixMillis nowUnixMillis then ruleError CodeInvalidState ''deterministic time is required''
       else if \<not> list_ex (\<lambda>participant. pt_UserID participant = hostUserID) canonical
       then ruleError CodeInvalidParticipants ''host must exist in the frozen participant set''
       else
         and_then (ShuffleDeck sha256 seed) (\<lambda>deck.
         and_then (DealHands canonical deck) (\<lambda>(hands, _).
         and_then (deadlineForPhase nowUnixMillis PhaseRoundOneSelecting config) (\<lambda>deadline.
           validated
             \<lparr>st_SchemaVersion = CurrentSchemaVersion, st_Phase = PhaseRoundOneSelecting, st_CurrentRound = 1,
              st_PhaseDeadlineUnixMillis = deadline, st_PhaseGeneration = 1, st_Config = config, st_HostUserID = hostUserID,
              st_Players = map (new_player hands) canonical, st_RoundHistory = [], st_FinalSummary = no_final,
              st_FinishReason = []\<rparr>
             [zero_event\<lparr>ev_Kind := EventSessionStarted, ev_Config := Some config, ev_Participants := canonical,
                ev_HostUserID := hostUserID\<rparr>,
              zero_event\<lparr>ev_Kind := EventCardsDealt,
                ev_Deals := map (\<lambda>participant. \<lparr>dl_UserID = pt_UserID participant,
                  dl_InitialHand = hands (pt_UserID participant)\<rparr>) canonical\<rparr>,
              zero_event\<lparr>ev_Kind := EventPhaseStarted, ev_Phase := PhaseDealing, ev_Round := 0\<rparr>,
              zero_event\<lparr>ev_Kind := EventPhaseStarted, ev_Phase := PhaseRoundOneSelecting, ev_Round := 1,
                ev_DeadlineUnixMillis := deadline, ev_PhaseGeneration := 1\<rparr>])))))"

definition CurrentTimer :: "State \<Rightarrow> Timer option" where
  "CurrentTimer state =
     (if st_Phase state = PhaseFinished \<or> st_Phase state = PhaseDealing then None
      else if st_PhaseDeadlineUnixMillis state = 0 then None
      else Some \<lparr>tm_Phase = st_Phase state, tm_Round = st_CurrentRound state,
                 tm_DeadlineUnixMillis = st_PhaseDeadlineUnixMillis state, tm_PhaseGeneration = st_PhaseGeneration state\<rparr>)"

section \<open>Final standing\<close>

definition compareStandingKey :: "FinalStanding \<Rightarrow> FinalStanding \<Rightarrow> int" where
  "compareStandingKey left right =
     or_else (cmp (fs_TotalPoints left) (fs_TotalPoints right))
       (or_else (cmp (boolToUint8 (fs_WonRoundThree left)) (boolToUint8 (fs_WonRoundThree right)))
         (or_else (cmp (boolToUint8 (fs_WonRoundTwo left)) (boolToUint8 (fs_WonRoundTwo right)))
           (cmp (boolToUint8 (fs_WonRoundOne left)) (boolToUint8 (fs_WonRoundOne right)))))"

text \<open>The order that the comparison of \<open>computeFinalSummary\<close> sorts by: points and wins descending, then the seat.\<close>

definition standing_key :: "FinalStanding \<Rightarrow> int \<times> int \<times> int \<times> int \<times> u32" where
  "standing_key s = (- uint (fs_TotalPoints s), - uint (boolToUint8 (fs_WonRoundThree s)), - uint (boolToUint8 (fs_WonRoundTwo s)),
     - uint (boolToUint8 (fs_WonRoundOne s)), fs_SeatIndex s)"

definition standing_of :: "PlayerState \<Rightarrow> FinalStanding" where
  "standing_of player =
     \<lparr>fs_UserID = pl_UserID player, fs_SeatIndex = pl_SeatIndex player, fs_Active = pl_Active player,
      fs_TotalPoints = pl_TotalPoints player, fs_WonRoundOne = pl_WonRoundOne player, fs_WonRoundTwo = pl_WonRoundTwo player,
      fs_WonRoundThree = pl_WonRoundThree player, fs_Winner = False, fs_Rank = 0\<rparr>"

text \<open>The loop that ranks the standings after the first, with the standing before, the position and the last rank.\<close>

fun rank_standings :: "FinalStanding \<Rightarrow> u32 \<Rightarrow> u32 \<Rightarrow> FinalStanding list \<Rightarrow> FinalStanding list" where
  "rank_standings previous position lastDistinct [] = []"
| "rank_standings previous position lastDistinct (standing # rest) =
     (let position = position + 1;
          lastDistinct = (if compareStandingKey standing previous \<noteq> 0 then position else lastDistinct) in
      standing\<lparr>fs_Rank := lastDistinct\<rparr> # rank_standings standing position lastDistinct rest)"

definition computeFinalSummary :: "PlayerState list \<Rightarrow> FinalSummary" where
  "computeFinalSummary players =
     (case sort_key standing_key (map standing_of (filter pl_Active players)) of
        [] \<Rightarrow> no_final
      | first # rest \<Rightarrow>
          (let ranked = first\<lparr>fs_Rank := 1\<rparr> # rank_standings first 1 1 rest;
               wins = (\<lambda>standing. compareStandingKey standing first = 0) in
           \<lparr>fm_Standings = map (\<lambda>standing. if wins standing then standing\<lparr>fs_Winner := True\<rparr> else standing) ranked,
            fm_WinnerUserIDs = sort (map fs_UserID (filter wins ranked))\<rparr>))"

definition reapplyFinalTotals :: "PlayerState list \<Rightarrow> PlayerState list" where
  "reapplyFinalTotals players =
     map (\<lambda>p. p\<lparr>pl_TotalPoints := pl_RoundOnePoints p + pl_RoundTwoPoints p + pl_RoundThreePoints p\<rparr>) players"

definition clearFinalDecorations :: "PlayerState list \<Rightarrow> PlayerState list" where
  "clearFinalDecorations players = map (\<lambda>p. p\<lparr>pl_FinalWinner := False, pl_FinalRank := 0\<rparr>) players"

fun decorate :: "PlayerState list \<Rightarrow> FinalStanding list \<Rightarrow> PlayerState list" where
  "decorate players [] = players"
| "decorate players (standing # rest) =
     (case playerIndex players (fs_UserID standing) of
        None \<Rightarrow> decorate players rest
      | Some index \<Rightarrow>
          decorate (players[index := (players ! index)\<lparr>pl_FinalWinner := fs_Winner standing, pl_FinalRank := fs_Rank standing\<rparr>]) rest)"

definition recomputeFinalDecorations :: "State \<Rightarrow> State" where
  "recomputeFinalDecorations state =
     state\<lparr>st_Players := decorate (clearFinalDecorations (st_Players state)) (fm_Standings (st_FinalSummary state))\<rparr>"

section \<open>Settling a round\<close>

definition canonicalRoundSummary :: "RoundSummary \<Rightarrow> RoundSummary" where
  "canonicalRoundSummary summary =
     summary\<lparr>rs_WinnerUserIDs := sort (rs_WinnerUserIDs summary), rs_Reveals := sort_key rv_SeatIndex (rs_Reveals summary)\<rparr>"

definition cardsFromIDs :: "CardID list \<Rightarrow> Card list" where
  "cardsFromIDs cardIDs = map card_of cardIDs"

fun removeCards :: "CardID list \<Rightarrow> CardID list \<Rightarrow> CardID list" where
  "removeCards remaining [] = remaining"
| "removeCards remaining (target # rest) = removeCards (remove1 target remaining) rest"

text \<open>The bookkeeping of the winners and the best comparison, which the three rounds share.\<close>

definition note_best ::
  "('c \<Rightarrow> 'c \<Rightarrow> int) \<Rightarrow> string \<Rightarrow> 'c \<Rightarrow> string list \<times> 'c option \<Rightarrow> string list \<times> 'c option" where
  "note_best compare userID comparison found =
     (case found of
        (winners, None) \<Rightarrow> ([userID], Some comparison)
      | (winners, Some best) \<Rightarrow>
          if compare comparison best > 0 then ([userID], Some comparison)
          else if compare comparison best = 0 then (winners @ [userID], Some best)
          else (winners, Some best))"

text \<open>The award of a point to every winner, with what a win changes in a player.\<close>

fun award ::
  "(PlayerState \<Rightarrow> PlayerState) \<Rightarrow> string list \<Rightarrow> PlayerReveal list \<Rightarrow> PlayerState list \<Rightarrow>
     (PlayerReveal list \<times> PlayerState list) result" where
  "award win winners [] players = Inr ([], players)"
| "award win winners (reveal # rest) players =
     (if rv_UserID reveal \<in> set winners then
        (case playerIndex players (rv_UserID reveal) of
           None \<Rightarrow> Inl Panic
         | Some index \<Rightarrow>
             and_then (award win winners rest (players[index := win (players ! index)])) (\<lambda>(reveals, players').
               Inr (reveal\<lparr>rv_AwardedPoints := 1\<rparr> # reveals, players')))
      else and_then (award win winners rest players) (\<lambda>(reveals, players'). Inr (reveal # reveals, players')))"

definition win_one :: "PlayerState \<Rightarrow> PlayerState" where
  "win_one p = p\<lparr>pl_RoundOnePoints := pl_RoundOnePoints p + 1, pl_TotalPoints := pl_TotalPoints p + 1, pl_WonRoundOne := True\<rparr>"

definition win_two :: "PlayerState \<Rightarrow> PlayerState" where
  "win_two p = p\<lparr>pl_RoundTwoPoints := pl_RoundTwoPoints p + 1, pl_TotalPoints := pl_TotalPoints p + 1, pl_WonRoundTwo := True\<rparr>"

definition win_three :: "PlayerState \<Rightarrow> PlayerState" where
  "win_three p = p\<lparr>pl_RoundThreePoints := pl_RoundThreePoints p + 1, pl_TotalPoints := pl_TotalPoints p + 1, pl_WonRoundThree := True\<rparr>"

definition phase_started :: "State \<Rightarrow> Event" where
  "phase_started state =
     zero_event\<lparr>ev_Kind := EventPhaseStarted, ev_Phase := st_Phase state, ev_Round := st_CurrentRound state,
       ev_DeadlineUnixMillis := st_PhaseDeadlineUnixMillis state, ev_PhaseGeneration := st_PhaseGeneration state\<rparr>"

definition settled_events :: "u32 \<Rightarrow> RoundSummary \<Rightarrow> State \<Rightarrow> Event list" where
  "settled_events round summary state =
     [zero_event\<lparr>ev_Kind := EventRoundRevealed, ev_Summary := summary, ev_Round := round\<rparr>,
      zero_event\<lparr>ev_Kind := EventRoundSettled, ev_Summary := summary, ev_Round := round\<rparr>,
      phase_started state]"

text \<open>The loop of \<open>settleRoundOne\<close>: the players after it, the reveals, and the winners with the best comparison.\<close>

fun play_one ::
  "PlayerState list \<Rightarrow> string list \<times> roundOneComparison option \<Rightarrow>
     (PlayerState list \<times> PlayerReveal list \<times> string list \<times> roundOneComparison option) result" where
  "play_one [] found = Inr ([], [], found)"
| "play_one (player # rest) found =
     (if \<not> pl_Active player \<or> ps_Round (pl_PendingSelection player) \<noteq> 1 then
        and_then (play_one rest found) (\<lambda>(players, reveals, found').
          Inr (player\<lparr>pl_PendingSelection := no_selection\<rparr> # players, reveals, found'))
      else
        (let selected = ps_CardIDs (pl_PendingSelection player) in
         if selected = [] then Inl Panic
         else
           (let c = card_of (hd selected);
                comparison = \<lparr>c1_RankStrength = rankStrength c, c1_SuitStrength = suitStrength c\<rparr>;
                reveal = zero_reveal\<lparr>rv_UserID := pl_UserID player, rv_SeatIndex := pl_SeatIndex player, rv_Active := True,
                  rv_CardIDs := selected, rv_AutoSubmitted := ps_AutoSubmitted (pl_PendingSelection player),
                  rv_RoundOneEvaluation := \<lparr>e1_CardID = hd selected, e1_RankStrength = rankStrength c,
                    e1_SuitStrength = suitStrength c\<rparr>\<rparr> in
            and_then (play_one rest (note_best compareRoundOne (pl_UserID player) comparison found)) (\<lambda>(players, reveals, found').
              Inr (player\<lparr>pl_RoundOneCards := selected, pl_RemainingHand := removeCards (pl_RemainingHand player) selected,
                     pl_PendingSelection := no_selection\<rparr> # players,
                   reveal # reveals, found')))))"

definition settleRoundOne :: "State \<Rightarrow> i64 \<Rightarrow> (State \<times> Event list) result" where
  "settleRoundOne state nowUnixMillis =
     and_then (play_one (st_Players state) ([], None)) (\<lambda>(played, reveals, winners, _).
     and_then (award win_one winners reveals played) (\<lambda>(awarded, players).
       let summary = canonicalRoundSummary \<lparr>rs_Round = 1, rs_WinnerUserIDs = winners, rs_Reveals = awarded, rs_AllBusted = False\<rparr> in
       and_then (deadlineForPhase nowUnixMillis PhaseRoundOneResult (st_Config state)) (\<lambda>deadline.
         let next = state\<lparr>st_Players := reapplyFinalTotals players, st_RoundHistory := st_RoundHistory state @ [summary],
               st_Phase := PhaseRoundOneResult, st_PhaseGeneration := st_PhaseGeneration state + 1,
               st_PhaseDeadlineUnixMillis := deadline\<rparr> in
         validated next (settled_events 1 summary next))))"

text \<open>The loop of \<open>settleRoundTwo\<close>; a busted hand is revealed and does not compete.\<close>

fun play_two ::
  "PlayerState list \<Rightarrow> bool \<Rightarrow> string list \<times> roundTwoComparison option \<Rightarrow>
     (PlayerState list \<times> PlayerReveal list \<times> bool \<times> string list \<times> roundTwoComparison option) result" where
  "play_two [] allBusted found = Inr ([], [], allBusted, found)"
| "play_two (player # rest) allBusted found =
     (if \<not> pl_Active player \<or> ps_Round (pl_PendingSelection player) \<noteq> 2 then
        and_then (play_two rest allBusted found) (\<lambda>(players, reveals, result).
          Inr (player\<lparr>pl_PendingSelection := no_selection\<rparr> # players, reveals, result))
      else
        (let selected = ps_CardIDs (pl_PendingSelection player) in
         and_then (evaluateRoundTwo (cardsFromIDs selected)) (\<lambda>evaluation.
           let reveal = zero_reveal\<lparr>rv_UserID := pl_UserID player, rv_SeatIndex := pl_SeatIndex player, rv_Active := True,
                  rv_CardIDs := selected, rv_AutoSubmitted := ps_AutoSubmitted (pl_PendingSelection player),
                  rv_RoundTwoEvaluation := \<lparr>e2_TotalHalfPoints = c2_TotalHalfPoints evaluation,
                    e2_Busted = c2_Busted evaluation, e2_RankStrengthsDesc = c2_RankStrengthsDesc evaluation\<rparr>\<rparr> in
           and_then
             (if c2_Busted evaluation then play_two rest allBusted found
              else play_two rest False (note_best compareRoundTwo (pl_UserID player) evaluation found)) (\<lambda>(players, reveals, result).
             Inr (player\<lparr>pl_RoundTwoCards := selected, pl_RemainingHand := removeCards (pl_RemainingHand player) selected,
                    pl_PendingSelection := no_selection\<rparr> # players,
                  reveal # reveals, result)))))"

definition settleRoundTwo :: "State \<Rightarrow> i64 \<Rightarrow> (State \<times> Event list) result" where
  "settleRoundTwo state nowUnixMillis =
     and_then (play_two (st_Players state) True ([], None)) (\<lambda>(played, reveals, allBusted, winners, _).
     and_then (award win_two winners reveals played) (\<lambda>(awarded, players).
       let summary = canonicalRoundSummary
             \<lparr>rs_Round = 2, rs_WinnerUserIDs = winners, rs_Reveals = awarded, rs_AllBusted = allBusted\<rparr> in
       and_then (deadlineForPhase nowUnixMillis PhaseRoundTwoResult (st_Config state)) (\<lambda>deadline.
         let next = state\<lparr>st_Players := reapplyFinalTotals players, st_RoundHistory := st_RoundHistory state @ [summary],
               st_Phase := PhaseRoundTwoResult, st_PhaseGeneration := st_PhaseGeneration state + 1,
               st_PhaseDeadlineUnixMillis := deadline\<rparr> in
         validated next (settled_events 2 summary next))))"

definition settleCurrentSelection :: "State \<Rightarrow> i64 \<Rightarrow> (State \<times> Event list) result" where
  "settleCurrentSelection state nowUnixMillis =
     (case st_Phase state of
        PhaseRoundOneSelecting \<Rightarrow> settleRoundOne state nowUnixMillis
      | PhaseRoundTwoSelecting \<Rightarrow> settleRoundTwo state nowUnixMillis
      | _ \<Rightarrow> ruleError CodeWrongPhase ''phase is not waiting for selections'')"

text \<open>The loop of \<open>resolveRoundThree\<close>, which also records an event for every resolved joker hand.\<close>

fun play_three ::
  "PlayerState list \<Rightarrow> string list \<times> thirdComparison option \<Rightarrow>
     (PlayerState list \<times> PlayerReveal list \<times> Event list \<times> string list \<times> thirdComparison option) result" where
  "play_three [] found = Inr ([], [], [], found)"
| "play_three (player # rest) found =
     (if \<not> pl_Active player then
        and_then (play_three rest found) (\<lambda>(players, reveals, events, found'). Inr (player # players, reveals, events, found'))
      else
        and_then (resolveThirdHand (cardsFromIDs (pl_RemainingHand player))) (\<lambda>resolved.
          let reveal = zero_reveal\<lparr>rv_UserID := pl_UserID player, rv_SeatIndex := pl_SeatIndex player, rv_Active := True,
                 rv_CardIDs := pl_RemainingHand player,
                 rv_RoundThreeEvaluation := \<lparr>e3_HandClass = c3_HandClass (tr_Comparison resolved),
                   e3_CompareValues = c3_CompareValues (tr_Comparison resolved), e3_ResolvedCards = tr_ResolvedCards resolved\<rparr>,
                 rv_WildcardResolution := tr_WildcardResolution resolved\<rparr> in
          and_then (play_three rest (note_best compareThirdResult (pl_UserID player) (tr_Comparison resolved) found))
            (\<lambda>(players, reveals, events, found').
              Inr (player\<lparr>pl_RoundThreeCards := pl_RemainingHand player, pl_RemainingHand := [],
                     pl_RoundThreeWildcardResolution := tr_WildcardResolution resolved\<rparr> # players,
                   reveal # reveals,
                   (if wr_Substitutions (tr_WildcardResolution resolved) \<noteq> [] then
                      [zero_event\<lparr>ev_Kind := EventWildcardResolved, ev_UserID := pl_UserID player, ev_Round := 3,
                         ev_WildcardResolution := tr_WildcardResolution resolved\<rparr>]
                    else []) @ events,
                   found'))))"

definition resolveRoundThree :: "State \<Rightarrow> i64 \<Rightarrow> (State \<times> Event list) result" where
  "resolveRoundThree state nowUnixMillis =
     (if st_Phase state \<noteq> PhaseRoundTwoResult
      then ruleError CodeWrongPhase ''round three can only start after round two result''
      else
        and_then (play_three (st_Players state) ([], None)) (\<lambda>(played, reveals, events, winners, _).
        and_then (award win_three winners reveals played) (\<lambda>(awarded, players).
          let summary = canonicalRoundSummary
                \<lparr>rs_Round = 3, rs_WinnerUserIDs = winners, rs_Reveals = awarded, rs_AllBusted = False\<rparr> in
          and_then (deadlineForPhase nowUnixMillis PhaseRoundThreeResult (st_Config state)) (\<lambda>deadline.
            let next = state\<lparr>st_Players := clearFinalDecorations (reapplyFinalTotals players),
                  st_RoundHistory := st_RoundHistory state @ [summary], st_FinalSummary := no_final,
                  st_Phase := PhaseRoundThreeResult, st_CurrentRound := 3, st_PhaseGeneration := st_PhaseGeneration state + 1,
                  st_PhaseDeadlineUnixMillis := deadline\<rparr> in
            validated next (events @ settled_events 3 summary next)))))"

section \<open>Phases\<close>

definition finishWithReason :: "State \<Rightarrow> string \<Rightarrow> string \<Rightarrow> State \<times> Event list" where
  "finishWithReason state reason operatorUserID =
     (let finalSummaryWasPublic = (st_Phase state = PhaseFinalResult \<or> st_Phase state = PhaseFinished);
          state = state\<lparr>st_Phase := PhaseFinished, st_PhaseDeadlineUnixMillis := 0,
            st_PhaseGeneration := st_PhaseGeneration state + 1, st_FinishReason := reason\<rparr>;
          state =
            (if reason \<noteq> FinishNormalCompleted then
               (if finalSummaryWasPublic \<and> fm_Standings (st_FinalSummary state) \<noteq> [] then
                  state\<lparr>st_FinalSummary := \<lparr>fm_Standings = map (\<lambda>s. s\<lparr>fs_Winner := False\<rparr>) (fm_Standings (st_FinalSummary state)),
                          fm_WinnerUserIDs = []\<rparr>,
                        st_Players := map (\<lambda>p. p\<lparr>pl_FinalWinner := False\<rparr>) (st_Players state)\<rparr>
                else state\<lparr>st_FinalSummary := no_final, st_Players := clearFinalDecorations (st_Players state)\<rparr>)
             else state) in
      (state, [zero_event\<lparr>ev_Kind := EventSessionFinished, ev_FinishReason := reason, ev_OperatorUserID := operatorUserID,
                 ev_Round := st_CurrentRound state\<rparr>]))"

definition finishNormally :: "State \<Rightarrow> (State \<times> Event list) result" where
  "finishNormally state = Inr (finishWithReason state FinishNormalCompleted [])"

definition advancePhaseAfterRoundOneResult :: "State \<Rightarrow> i64 \<Rightarrow> (State \<times> Event list) result" where
  "advancePhaseAfterRoundOneResult state nowUnixMillis =
     and_then (deadlineForPhase nowUnixMillis PhaseRoundTwoSelecting (st_Config state)) (\<lambda>deadline.
       let next = state\<lparr>st_Phase := PhaseRoundTwoSelecting, st_CurrentRound := 2,
             st_PhaseGeneration := st_PhaseGeneration state + 1, st_PhaseDeadlineUnixMillis := deadline\<rparr> in
       validated next [phase_started next])"

definition enterFinalResult :: "State \<Rightarrow> i64 \<Rightarrow> (State \<times> Event list) result" where
  "enterFinalResult state nowUnixMillis =
     (if st_Phase state \<noteq> PhaseRoundThreeResult
      then ruleError CodeWrongPhase ''final result can only start after round three result''
      else
        and_then (deadlineForPhase nowUnixMillis PhaseFinalResult (st_Config state)) (\<lambda>deadline.
          let next = recomputeFinalDecorations (state\<lparr>st_Phase := PhaseFinalResult,
                st_PhaseGeneration := st_PhaseGeneration state + 1, st_FinalSummary := computeFinalSummary (st_Players state),
                st_PhaseDeadlineUnixMillis := deadline\<rparr>) in
          validated next [phase_started next]))"

section \<open>Selections\<close>

definition allActivePlayersSubmitted :: "State \<Rightarrow> bool" where
  "allActivePlayersSubmitted state \<longleftrightarrow>
     list_all (\<lambda>player. \<not> (pl_Active player \<and> ps_Round (pl_PendingSelection player) \<noteq> st_CurrentRound state)) (st_Players state)"

definition canonicalSelection :: "CardID list \<Rightarrow> CardID list" where
  "canonicalSelection cardIDs = sortCardIDsByOrdinal cardIDs"

fun selection_scan :: "CardID list \<Rightarrow> CardID set \<Rightarrow> CardID list \<Rightarrow> unit result" where
  "selection_scan remaining seen [] = Inr ()"
| "selection_scan remaining seen (cardID # rest) =
     (if ParseCardID cardID = None then ruleError CodeCardInvalid ''selection contains an unknown card id''
      else if cardID \<in> seen then ruleError CodeCardInvalid ''selection contains duplicate card ids''
      else if cardID \<notin> set remaining then ruleError CodeCardInvalid ''selection contains a card outside the actor hand''
      else selection_scan remaining (insert cardID seen) rest)"

definition validateSelectableAction :: "State \<Rightarrow> string \<Rightarrow> u32 \<Rightarrow> CardID list \<Rightarrow> i64 \<Rightarrow> unit result" where
  "validateSelectableAction state actor round cardIDs nowUnixMillis =
     and_then (Validate state) (\<lambda>_.
       if st_Phase state = PhaseFinished then ruleError CodeSessionFinished ''session is already finished''
       else if st_Phase state \<noteq> PhaseRoundOneSelecting \<and> st_Phase state \<noteq> PhaseRoundTwoSelecting
       then ruleError CodeWrongPhase ''phase does not accept round.submit_selection''
       else if \<not> validUnixMillis nowUnixMillis then ruleError CodeInvalidAction ''deterministic action time is invalid''
       else if st_PhaseDeadlineUnixMillis state \<noteq> 0 \<and> nowUnixMillis \<ge> st_PhaseDeadlineUnixMillis state
       then ruleError CodeActionExpired ''selection deadline has passed''
       else if round \<noteq> st_CurrentRound state then ruleError CodeRoundMismatch ''selection targets another round''
       else (case playerIndex (st_Players state) actor of
               None \<Rightarrow> ruleError CodeParticipantInactive ''actor is not an active participant''
             | Some index \<Rightarrow>
                 (let player = st_Players state ! index in
                  if \<not> pl_Active player then ruleError CodeParticipantInactive ''actor is not an active participant''
                  else if ps_Round (pl_PendingSelection player) = round
                  then ruleError CodeSelectionExists ''selection is already recorded''
                  else if length cardIDs \<noteq> (if round = 2 then 2 else 1)
                  then ruleError CodeCardCountInvalid ''selection card count does not match the current round''
                  else selection_scan (pl_RemainingHand player) {} cardIDs)))"

definition SubmitSelection ::
  "State \<Rightarrow> string \<Rightarrow> u32 \<Rightarrow> CardID list \<Rightarrow> bool \<Rightarrow> i64 \<Rightarrow> (State \<times> Event list) result" where
  "SubmitSelection state actor round cardIDs auto nowUnixMillis =
     and_then (validateSelectableAction state actor round cardIDs nowUnixMillis) (\<lambda>_.
       case playerIndex (st_Players state) actor of
         None \<Rightarrow> Inl Panic
       | Some index \<Rightarrow>
           (let next = state\<lparr>st_Players := (st_Players state)[index := (st_Players state ! index)\<lparr>pl_PendingSelection :=
                  \<lparr>ps_Round = round, ps_CardIDs = canonicalSelection cardIDs, ps_AutoSubmitted = auto\<rparr>\<rparr>]\<rparr>;
                events = [zero_event\<lparr>ev_Kind := (if auto then EventSelectionAutoSubmitted else EventSelectionSubmitted),
                  ev_UserID := actor, ev_Round := round, ev_AutoSubmitted := auto\<rparr>] in
            if allActivePlayersSubmitted next then
              and_then (settleCurrentSelection next nowUnixMillis) (\<lambda>(settled, settleEvents).
                Inr (settled, events @ settleEvents))
            else validated next events))"

text \<open>The loop of the first round keeps the first of the weakest cards.\<close>

fun weakest_card :: "Card \<Rightarrow> Card list \<Rightarrow> Card" where
  "weakest_card best [] = best"
| "weakest_card best (c # rest) =
     (if compareAutoRoundOne \<lparr>c1_RankStrength = rankStrength c, c1_SuitStrength = suitAscending c\<rparr>
           \<lparr>c1_RankStrength = rankStrength best, c1_SuitStrength = suitAscending best\<rparr> < 0
      then weakest_card c rest else weakest_card best rest)"

definition card_pairs :: "Card list \<Rightarrow> (Card \<times> Card) list" where
  "card_pairs cards =
     concat (map (\<lambda>left. map (\<lambda>right. (cards ! left, cards ! right)) [left + 1..<length cards]) [0..<length cards])"

fun weakest_pair ::
  "(CardID list \<times> roundTwoAutoKey) option \<Rightarrow> (Card \<times> Card) list \<Rightarrow> (CardID list \<times> roundTwoAutoKey) option result" where
  "weakest_pair best [] = Inr best"
| "weakest_pair best ((left, right) # rest) =
     and_then (buildRoundTwoAutoKey [left, right]) (\<lambda>key.
       let current = (canonicalSelection [cd_ID left, cd_ID right], key) in
       weakest_pair
         (case best of
            None \<Rightarrow> Some current
          | Some found \<Rightarrow> if compareRoundTwoAuto key (snd found) < 0 then Some current else best) rest)"

definition autoSelect :: "PlayerState \<Rightarrow> u32 \<Rightarrow> CardID list result" where
  "autoSelect player round =
     (let cards = cardsFromIDs (pl_RemainingHand player) in
      if round = 1 then
        (case cards of
           [] \<Rightarrow> Inl Panic
         | first # rest \<Rightarrow> Inr [cd_ID (weakest_card first rest)])
      else
        and_then (weakest_pair None (card_pairs cards)) (\<lambda>best.
          case best of
            None \<Rightarrow> ruleError CodeCardInvalid ''round two auto-selection could not find a legal combination''
          | Some (cardIDs, _) \<Rightarrow> Inr cardIDs))"

section \<open>Timers, revocation, finish\<close>

text \<open>The loop of \<open>HandleTimeout\<close> that selects for the players who did not.\<close>

fun auto_submit :: "u32 \<Rightarrow> PlayerState list \<Rightarrow> (PlayerState list \<times> Event list) result" where
  "auto_submit round [] = Inr ([], [])"
| "auto_submit round (player # rest) =
     (if \<not> pl_Active player \<or> ps_Round (pl_PendingSelection player) = round then
        and_then (auto_submit round rest) (\<lambda>(players, events). Inr (player # players, events))
      else
        and_then (autoSelect player round) (\<lambda>cardIDs.
        and_then (auto_submit round rest) (\<lambda>(players, events).
          Inr (player\<lparr>pl_PendingSelection := \<lparr>ps_Round = round, ps_CardIDs = cardIDs, ps_AutoSubmitted = True\<rparr>\<rparr> # players,
               zero_event\<lparr>ev_Kind := EventSelectionAutoSubmitted, ev_UserID := pl_UserID player, ev_Round := round,
                 ev_AutoSubmitted := True\<rparr> # events))))"

definition HandleTimeout :: "State \<Rightarrow> Timer \<Rightarrow> i64 \<Rightarrow> (State \<times> Event list) result" where
  "HandleTimeout state timer nowUnixMillis =
     and_then (Validate state) (\<lambda>_.
       if st_Phase state = PhaseFinished then ruleError CodeSessionFinished ''session no longer accepts timers''
       else if tm_Phase timer \<noteq> st_Phase state \<or> tm_Round timer \<noteq> st_CurrentRound state \<or>
               tm_PhaseGeneration timer \<noteq> st_PhaseGeneration state \<or>
               tm_DeadlineUnixMillis timer \<noteq> st_PhaseDeadlineUnixMillis state
       then ruleError CodeTimerMismatch ''timer does not match the current phase generation''
       else if \<not> validUnixMillis nowUnixMillis \<or> tm_DeadlineUnixMillis timer = 0 \<or> nowUnixMillis < tm_DeadlineUnixMillis timer
       then ruleError CodeTimerNotDue ''timer fired before its deadline''
       else
         (if st_Phase state = PhaseRoundOneSelecting \<or> st_Phase state = PhaseRoundTwoSelecting then
            and_then (auto_submit (st_CurrentRound state) (st_Players state)) (\<lambda>(players, events).
            and_then (settleCurrentSelection (state\<lparr>st_Players := players\<rparr>) nowUnixMillis) (\<lambda>(settled, settleEvents).
              Inr (settled, events @ settleEvents)))
          else if st_Phase state = PhaseRoundOneResult then advancePhaseAfterRoundOneResult state nowUnixMillis
          else if st_Phase state = PhaseRoundTwoResult then resolveRoundThree state nowUnixMillis
          else if st_Phase state = PhaseRoundThreeResult then enterFinalResult state nowUnixMillis
          else if st_Phase state = PhaseFinalResult then finishNormally state
          else ruleError CodeWrongPhase ''phase does not own a runtime timer''))"

definition RevokeParticipant :: "State \<Rightarrow> string \<Rightarrow> i64 \<Rightarrow> (State \<times> Event list) result" where
  "RevokeParticipant state userID nowUnixMillis =
     and_then (Validate state) (\<lambda>_.
       if st_Phase state = PhaseFinished then ruleError CodeSessionFinished ''session is already finished''
       else (case playerIndex (st_Players state) userID of
         None \<Rightarrow> ruleError CodeParticipantInactive ''participant is absent or already inactive''
       | Some index \<Rightarrow>
           (let player = st_Players state ! index in
            if \<not> pl_Active player then ruleError CodeParticipantInactive ''participant is absent or already inactive''
            else
              (let removedPending = (ps_Round (pl_PendingSelection player) = st_CurrentRound state);
                   next = recomputeFinalDecorations (state\<lparr>st_Players := (st_Players state)[index :=
                     player\<lparr>pl_Active := False, pl_PendingSelection := no_selection\<rparr>]\<rparr>);
                   activePlayers = activeCount (st_Players next);
                   events = [zero_event\<lparr>ev_Kind := EventParticipantRevoked, ev_UserID := userID,
                     ev_Round := st_CurrentRound next, ev_Phase := st_Phase next,
                     ev_RemovedPendingSelection := removedPending, ev_ActivePlayerCount := of_nat activePlayers\<rparr>] in
               if activePlayers < MinimumPlayers then
                 (case finishWithReason next FinishInsufficientParticipants [] of
                    (finished, finishEvents) \<Rightarrow> Inr (finished, events @ finishEvents))
               else if (st_Phase next = PhaseRoundOneSelecting \<or> st_Phase next = PhaseRoundTwoSelecting) \<and>
                       allActivePlayersSubmitted next then
                 and_then (settleCurrentSelection next nowUnixMillis) (\<lambda>(settled, settleEvents).
                   Inr (settled, events @ settleEvents))
               else
                 (let next = (if st_Phase next = PhaseFinalResult \<or> st_Phase next = PhaseRoundThreeResult
                              then recomputeFinalDecorations next else next) in
                  validated next events)))))"

definition Finish :: "State \<Rightarrow> string \<Rightarrow> string \<Rightarrow> (State \<times> Event list) result" where
  "Finish state reason operatorUserID =
     and_then (Validate state) (\<lambda>_.
       if st_Phase state = PhaseFinished then ruleError CodeSessionFinished ''session is already finished''
       else if st_Phase state = PhaseFinalResult then ruleError CodeWrongPhase ''host finish is closed during final result''
       else
         (let reason = (if reason = [] then FinishHostRequested else reason) in
          if reason \<noteq> FinishHostRequested \<or> operatorUserID = []
          then ruleError CodeInvalidAction ''session.finish must carry the verified host operator''
          else Inr (finishWithReason state reason operatorUserID)))"

end
