(* ===== verification/ThreeDeck.thy ===== *)
theory ThreeDeck
  imports ThreeCards "HOL-Library.Multiset" "HOL-Library.FuncSet"
begin

text \<open>
  The deck of three rounds: which identifiers are cards, what the shuffle does to a deck, why no swap is more likely than another,
  and who is dealt which card.
\<close>

section \<open>The 54 cards\<close>

lemma deck_length [simp]: "length deckOrdered = 54"
  by code_simp

lemma deck_ids_distinct: "distinct (map cd_ID deckOrdered)"
  by code_simp

lemma deck_ordinals: "map cd_Ordinal deckOrdered = map of_nat [0..<54]"
  by code_simp

lemma deck_ids_trimmed: "list_all (\<lambda>c. TrimSpace (cd_ID c) = cd_ID c) deckOrdered"
  by code_simp

lemma deck_keys_distinct: "distinct (map (\<lambda>c. (rankStrength c, suitStrength c)) deckOrdered)"
  by code_simp

lemma deck_ordinals_distinct: "distinct (map cd_Ordinal deckOrdered)"
  by code_simp

lemma deck_normal: "list_all (\<lambda>c. cd_Kind c = cardNormal) normalDeck"
  by code_simp

lemma deck_jokers: "filter (\<lambda>c. cd_Kind c \<noteq> cardNormal) deckOrdered = drop 52 deckOrdered"
  by code_simp

lemma deck_joker_ids: "map cd_ID (drop 52 deckOrdered) = [SmallJokerID, BigJokerID]"
  by code_simp

lemma buildCardMap_eq: "distinct (map cd_ID cs) \<Longrightarrow> buildCardMap cs = map_of (map (\<lambda>c. (cd_ID c, c)) cs)"
proof (induction cs rule: rev_induct)
  case (snoc c cs)
  then have "buildCardMap (cs @ [c]) = (map_of (map (\<lambda>c. (cd_ID c, c)) cs))(cd_ID c \<mapsto> c)"
    by (simp add: buildCardMap_def)
  moreover have "cd_ID c \<notin> dom (map_of (map (\<lambda>c. (cd_ID c, c)) cs))" using snoc.prems by (auto simp: dom_map_of_conv_image_fst)
  ultimately show ?case by (auto simp: map_add_def fun_eq_iff domIff split: option.splits)
qed (simp add: buildCardMap_def)

lemma cardByID_Some: "cardByID i = Some c \<longleftrightarrow> c \<in> set deckOrdered \<and> cd_ID c = i"
proof -
  have "map_of (map (\<lambda>c. (cd_ID c, c)) deckOrdered) i = Some c \<longleftrightarrow> (i, c) \<in> set (map (\<lambda>c. (cd_ID c, c)) deckOrdered)"
    using deck_ids_distinct by (intro map_of_eq_Some_iff) (simp add: comp_def)
  then show ?thesis unfolding cardByID_def buildCardMap_eq [OF deck_ids_distinct] by auto
qed

text \<open>The identifier is that of a card.\<close>

definition known :: "CardID \<Rightarrow> bool" where "known i \<longleftrightarrow> i \<in> cd_ID ` set deckOrdered"

lemma ParseCardID_eq: "ParseCardID i = cardByID i"
proof (cases "cardByID i")
  case (Some c)
  then have "TrimSpace i = i" using deck_ids_trimmed by (auto simp: cardByID_Some list_all_iff)
  with Some show ?thesis by (simp add: ParseCardID_def)
qed (simp add: ParseCardID_def)

lemma ParseCardID_None: "ParseCardID i = None \<longleftrightarrow> \<not> known i"
  by (auto simp: ParseCardID_eq known_def) (metis cardByID_Some not_None_eq imageI)+

lemma card_of_deck: "c \<in> set deckOrdered \<Longrightarrow> card_of (cd_ID c) = c"
  using cardByID_Some [of "cd_ID c" c] by (simp add: card_of_def)

lemma known_card: "known i \<Longrightarrow> card_of i \<in> set deckOrdered \<and> cd_ID (card_of i) = i"
  by (auto simp: known_def card_of_deck)

lemma card_of_inj: "inj_on card_of (Collect known)"
  by (rule inj_onI) (metis known_card mem_Collect_eq)

lemma ordinal_inj: "inj_on cd_Ordinal (set deckOrdered)"
  using deck_ordinals_distinct by (simp add: distinct_map)

lemma strength_inj: "inj_on (\<lambda>c. (rankStrength c, suitStrength c)) (set deckOrdered)"
  using deck_keys_distinct by (simp add: distinct_map)

section \<open>The swaps of the shuffle\<close>

text \<open>The swaps with the positions that \<open>j\<close> chooses, from position \<open>k\<close> down to 1.\<close>

fun swap_all :: "(nat \<Rightarrow> nat) \<Rightarrow> nat \<Rightarrow> 'a list \<Rightarrow> 'a list" where
  "swap_all j 0 deck = deck"
| "swap_all j (Suc k) deck = swap_all j k (deck[Suc k := deck ! j (Suc k), j (Suc k) := deck ! Suc k])"

lemma swap_all_length [simp]: "length (swap_all j k deck) = length deck"
  by (induction k arbitrary: deck) simp_all

lemma swap_all_mset:
  "k < length deck \<Longrightarrow> (\<And>i. 1 \<le> i \<Longrightarrow> i \<le> k \<Longrightarrow> j i \<le> i) \<Longrightarrow> mset (swap_all j k deck) = mset deck"
proof (induction k arbitrary: deck)
  case (Suc k)
  have "j (Suc k) < length deck" using Suc.prems(1) Suc.prems(2) [of "Suc k"] by simp
  then have "mset (deck[Suc k := deck ! j (Suc k), j (Suc k) := deck ! Suc k]) = mset deck"
    using Suc.prems(1) by (intro mset_swap)
  moreover have "mset (swap_all j k (deck[Suc k := deck ! j (Suc k), j (Suc k) := deck ! Suc k]))
      = mset (deck[Suc k := deck ! j (Suc k), j (Suc k) := deck ! Suc k])"
    using Suc.prems by (intro Suc.IH) auto
  ultimately show ?case by simp
qed simp

lemma swap_all_above: "(\<And>i. 1 \<le> i \<Longrightarrow> i \<le> k \<Longrightarrow> j i \<le> i) \<Longrightarrow> k < m \<Longrightarrow> swap_all j k deck ! m = deck ! m"
proof (induction k arbitrary: deck)
  case (Suc k)
  have "j (Suc k) \<le> Suc k" using Suc.prems(1) by simp
  then have "m \<noteq> j (Suc k)" "m \<noteq> Suc k" using Suc.prems(2) by auto
  then show ?case using Suc by simp
qed simp

lemma swap_all_cong: "(\<And>i. 1 \<le> i \<Longrightarrow> i \<le> k \<Longrightarrow> j i = j' i) \<Longrightarrow> swap_all j k deck = swap_all j' k deck"
proof (induction k arbitrary: deck)
  case (Suc k)
  have "j (Suc k) = j' (Suc k)" using Suc.prems by simp
  then show ?case using Suc by simp
qed simp

lemma swap_all_top:
  assumes "\<And>i. 1 \<le> i \<Longrightarrow> i \<le> Suc k \<Longrightarrow> j i \<le> i" and "Suc k < length deck"
  shows "swap_all j (Suc k) deck ! Suc k = deck ! j (Suc k)"
proof -
  have "swap_all j (Suc k) deck ! Suc k = deck[Suc k := deck ! j (Suc k), j (Suc k) := deck ! Suc k] ! Suc k"
    using assms(1) by (simp add: swap_all_above)
  moreover have "j (Suc k) < length deck" using assms(1) [of "Suc k"] assms(2) by simp
  ultimately show ?thesis using assms(2) by (simp add: nth_list_update)
qed

lemma swap_all_unique:
  assumes "distinct deck" and "k < length deck"
    and "\<And>i. 1 \<le> i \<Longrightarrow> i \<le> k \<Longrightarrow> j i \<le> i" and "\<And>i. 1 \<le> i \<Longrightarrow> i \<le> k \<Longrightarrow> j' i \<le> i"
    and "swap_all j k deck = swap_all j' k deck" and "1 \<le> i" and "i \<le> k"
  shows "j i = j' i"
  using assms
proof (induction k arbitrary: deck)
  case (Suc k)
  let ?swap = "\<lambda>m. deck[Suc k := deck ! m, m := deck ! Suc k]"
  have "j (Suc k) \<le> Suc k" "j' (Suc k) \<le> Suc k" using Suc.prems(3,4) by auto
  moreover have "deck ! j (Suc k) = deck ! j' (Suc k)"
    using swap_all_top [of k j deck] swap_all_top [of k j' deck] Suc.prems by metis
  ultimately have top: "j (Suc k) = j' (Suc k)" using Suc.prems(1,2) by (simp add: nth_eq_iff_index_eq)
  show ?case
  proof (cases "i = Suc k")
    case False
    have "mset (?swap (j (Suc k))) = mset deck"
      using Suc.prems(2,3) by (intro mset_swap) (auto intro: le_less_trans)
    then have "distinct (?swap (j (Suc k)))" using Suc.prems(1) using mset_eq_imp_distinct_iff by blast
    with False show ?thesis using Suc.prems top by (intro Suc.IH [of "?swap (j (Suc k))"]) auto
  qed (use top in simp)
qed simp

lemma swap_all_exists:
  assumes "distinct deck" and "k < length deck" and "mset d = mset deck" and "\<And>m. k < m \<Longrightarrow> m < length deck \<Longrightarrow> d ! m = deck ! m"
  shows "\<exists>j. (\<forall>i. 1 \<le> i \<and> i \<le> k \<longrightarrow> j i \<le> i) \<and> swap_all j k deck = d"
  using assms
proof (induction k arbitrary: deck)
  case 0
  have l: "length d = length deck" using 0 by (metis mset_eq_length)
  have ne: "deck \<noteq> []" "d \<noteq> []" using 0(2) l by auto
  have "tl d = tl deck" using 0(4) l by (intro nth_equalityI) (auto simp: nth_tl)
  with 0(3) ne have "d = deck" by (cases d; cases deck) auto
  then show ?case by auto
next
  case (Suc k)
  have l: "length d = length deck" using Suc.prems(3) by (metis mset_eq_length)
  have dd: "distinct d" using Suc.prems(1,3) using mset_eq_imp_distinct_iff by blast
  have "d ! Suc k \<in> set deck" using l Suc.prems(2,3) by (metis mset_eq_setD nth_mem)
  then obtain m where m: "m < length deck" "deck ! m = d ! Suc k" by (auto simp: in_set_conv_nth)
  have mk: "m \<le> Suc k"
  proof (rule ccontr)
    assume "\<not> m \<le> Suc k"
    then have "d ! m = d ! Suc k" using Suc.prems(4) m by simp
    then show False using dd l m Suc.prems(2) \<open>\<not> m \<le> Suc k\<close> by (simp add: nth_eq_iff_index_eq)
  qed
  let ?deck = "deck[Suc k := deck ! m, m := deck ! Suc k]"
  have ms: "mset ?deck = mset deck" using Suc.prems(2) m by (intro mset_swap)
  have "\<exists>j. (\<forall>i. 1 \<le> i \<and> i \<le> k \<longrightarrow> j i \<le> i) \<and> swap_all j k ?deck = d"
  proof (rule Suc.IH)
    show "distinct ?deck" using ms Suc.prems(1) using mset_eq_imp_distinct_iff by blast
    show "d ! n = ?deck ! n" if "k < n" "n < length ?deck" for n
      using that m mk Suc.prems(4) by (cases "n = Suc k") (auto simp: nth_list_update)
  qed (use Suc.prems ms in auto)
  then obtain j where j: "\<forall>i. 1 \<le> i \<and> i \<le> k \<longrightarrow> j i \<le> i" "swap_all j k ?deck = d" by blast
  define j' where "j' = j(Suc k := m)"
  have j': "j' (Suc k) = m" "\<And>i. i \<noteq> Suc k \<Longrightarrow> j' i = j i" by (simp_all add: j'_def)
  have "swap_all j' k ?deck = d" using j(2) j'(2) swap_all_cong [of k j' j ?deck] by simp
  then show ?case using j(1) mk j' by (intro exI [of _ j']) (auto simp: le_Suc_eq)
qed

section \<open>Drawing the positions\<close>

lemma draw_below:
  assumes "draw sha256 limit s = Some r"
  shows "fst r < limit"
  using assms by (rule draw.raw_induct [rotated]) (auto split: prod.splits if_splits)

lemma unat_max_u64: "unat (- 1 :: u64) = 2 ^ 64 - 1"
  by (simp add: unsigned_minus_1_eq_mask mask_eq_exp_minus_1)

text \<open>The stream after \<open>k\<close> words.\<close>

definition stream_at :: "digest \<Rightarrow> shuffleStream \<Rightarrow> nat \<Rightarrow> shuffleStream" where
  "stream_at sha256 s k = ((\<lambda>s. snd (nextU64 sha256 s)) ^^ k) s"

lemma draw_terminates:
  "(\<exists>k. fst (nextU64 sha256 (stream_at sha256 s k)) < limit) \<Longrightarrow> \<exists>r. draw sha256 limit s = Some r"
proof (elim exE)
  fix k
  assume "fst (nextU64 sha256 (stream_at sha256 s k)) < limit"
  then show ?thesis
  proof (induction k arbitrary: s)
    case 0
    then show ?case by (subst draw.simps) (auto simp: stream_at_def split: prod.splits)
  next
    case (Suc k)
    have "stream_at sha256 s (Suc k) = stream_at sha256 (snd (nextU64 sha256 s)) k" by (simp add: stream_at_def funpow_Suc_right del: funpow.simps)
    with Suc show ?case by (subst draw.simps) (auto split: prod.splits)
  qed
qed

lemma unat_rejection:
  assumes "0 < n" and "n < 2 ^ 64"
  shows "unat (rejection_limit (of_nat n)) = 2 ^ 64 - 1 - (2 ^ 64 - 1) mod n"
proof -
  have n: "unat (of_nat n :: u64) = n" using assms by (simp add: unat_of_nat)
  have m: "unat (- 1 mod (of_nat n :: u64)) = (2 ^ 64 - 1) mod n" by (simp add: unat_mod n unat_max_u64)
  have "(2 ^ 64 - 1) mod n \<le> 2 ^ 64 - (1 :: nat)" by (rule mod_less_eq_dividend)
  then have "- 1 mod (of_nat n :: u64) \<le> - 1" by simp
  then show ?thesis unfolding rejection_limit_def by (subst unat_sub) (simp_all add: m unat_max_u64)
qed

lemma card_residues:
  fixes n q j :: nat
  assumes "j < n"
  shows "card {x. x < q * n \<and> x mod n = j} = q"
proof -
  have "{x. x < q * n \<and> x mod n = j} = (\<lambda>i. i * n + j) ` {..<q}"
  proof (intro set_eqI iffI)
    fix x assume x: "x \<in> {x. x < q * n \<and> x mod n = j}"
    then have "x = (x div n) * n + j" by (metis (mono_tags, lifting) div_mult_mod_eq mem_Collect_eq)
    moreover have "x div n < q" using x by (simp add: less_mult_imp_div_less)
    ultimately show "x \<in> (\<lambda>i. i * n + j) ` {..<q}" by blast
  next
    fix x assume "x \<in> (\<lambda>i. i * n + j) ` {..<q}"
    then obtain i where i: "i < q" "x = i * n + j" by auto
    have "i * n + j < Suc i * n" using assms by simp
    also have "\<dots> \<le> q * n" using i(1) by (intro mult_le_mono1) simp
    finally show "x \<in> {x. x < q * n \<and> x mod n = j}" using i assms by simp
  qed
  moreover have "inj_on (\<lambda>i. i * n + j) {..<q}" using assms by (auto simp: inj_on_def)
  ultimately show ?thesis by (simp add: card_image)
qed

lemma card_words_residue:
  fixes limit :: u64
  assumes "unat limit = q * n" and "j < n" and "n < 2 ^ 64"
  shows "card {x :: u64. x < limit \<and> unat (x mod of_nat n) = j} = q"
proof -
  have n: "unat (of_nat n :: u64) = n" using assms(3) by (simp add: unat_of_nat)
  have "unat ` {x :: u64. x < limit \<and> unat (x mod of_nat n) = j} = {x. x < q * n \<and> x mod n = j}" (is "unat ` ?A = ?B")
  proof (intro set_eqI iffI)
    fix m assume m: "m \<in> ?B"
    then have "m < 2 ^ LENGTH(64)" using assms(1) unsigned_less [of limit, where 'a = nat] by simp
    then have w: "unat (of_nat m :: u64) = m" by (simp add: unat_of_nat)
    have "of_nat m \<in> ?A" using m by (simp only: mem_Collect_eq word_less_nat_alt unat_mod n w assms(1) simp_thms)
    then show "m \<in> unat ` ?A" using w by (rule image_eqI [rotated, OF _ sym])
  qed (auto simp: word_less_nat_alt unat_mod n assms(1))
  moreover have "card (unat ` ?A) = card ?A" by (rule card_image) (simp add: inj_on_def word_unat_eq_iff)
  ultimately show ?thesis using card_residues [OF assms(2), of q] by simp
qed

lemma rejection_unbiased:
  assumes "j < n" and "n < 2 ^ 64"
  shows "card {x :: u64. x < rejection_limit (of_nat n) \<and> unat (x mod of_nat n) = j} = (2 ^ 64 - 1) div n"
  using assms by (intro card_words_residue) (simp_all only: unat_rejection minus_mod_eq_div_mult gr_implies_not0 neq0_conv)

lemma shuffle_from_swaps:
  assumes "shuffle_from sha256 k s deck = Inr d" and "k < 2 ^ 64 - 1"
  shows "\<exists>x. (\<forall>i. 1 \<le> i \<and> i \<le> k \<longrightarrow> x i < rejection_limit (of_nat (i + 1))) \<and>
    d = swap_all (\<lambda>i. unat (x i mod of_nat (i + 1))) k deck"
  using assms
proof (induction sha256 k s deck rule: shuffle_from.induct)
  case (2 sha256 k s deck)
  let ?n = "of_nat (Suc k + 1) :: u64"
  from 2(2) obtain y s' where dr: "draw sha256 (rejection_limit ?n) s = Some (y, s')"
    and r: "shuffle_from sha256 k s' (deck[Suc k := deck ! unat (y mod ?n), unat (y mod ?n) := deck ! Suc k]) = Inr d"
    by (auto simp: Let_def split: option.splits)
  from 2(1) [OF refl refl dr refl refl r] 2(3) obtain x
    where x: "\<forall>i. 1 \<le> i \<and> i \<le> k \<longrightarrow> x i < rejection_limit (of_nat (i + 1))"
      "d = swap_all (\<lambda>i. unat (x i mod of_nat (i + 1))) k (deck[Suc k := deck ! unat (y mod ?n), unat (y mod ?n) := deck ! Suc k])"
    by auto
  define x' where "x' = x(Suc k := y)"
  have x': "x' (Suc k) = y" "\<And>i. i \<noteq> Suc k \<Longrightarrow> x' i = x i" by (simp_all add: x'_def)
  have "d = swap_all (\<lambda>i. unat (x' i mod of_nat (i + 1))) k (deck[Suc k := deck ! unat (y mod ?n), unat (y mod ?n) := deck ! Suc k])"
    unfolding x(2) using x'(2) by (intro swap_all_cong) simp
  then show ?case using x(1) x' draw_below [OF dr, simplified] by (intro exI [of _ x']) (auto simp: le_Suc_eq)
qed auto

lemma swap_index: "i < 2 ^ 64 - 1 \<Longrightarrow> unat (x mod of_nat (i + 1) :: u64) \<le> i"
proof -
  assume "i < 2 ^ 64 - 1"
  then have n: "unat (of_nat (i + 1) :: u64) = i + 1" by (simp only: unat_of_nat) simp
  show ?thesis unfolding unat_mod n by (metis Suc_eq_plus1 less_Suc_eq_le mod_less_divisor zero_less_Suc)
qed

section \<open>The deal\<close>

lemma deal_cards_at: "deal_cards hands pairs u = hands u @ map (cd_ID \<circ> snd) (filter (\<lambda>(p, c). pt_UserID p = u) pairs)"
proof (induction pairs arbitrary: hands)
  case (Cons pair rest)
  obtain p c where "pair = (p, c)" by (cases pair)
  then show ?case by (simp add: Cons.IH)
qed simp

lemma filter_zip_distinct:
  assumes "distinct (map f ps)" and "i < length ps" and "length cs = length ps"
  shows "filter (\<lambda>(p, c). f p = f (ps ! i)) (zip ps cs) = [(ps ! i, cs ! i)]"
  using assms
proof (induction ps arbitrary: i cs)
  case (Cons p ps)
  then obtain c cs' where cs: "cs = c # cs'" "length cs' = length ps" by (cases cs) auto
  show ?case
  proof (cases i)
    case 0
    have "filter (\<lambda>(q, d). f q = f p) (zip ps cs') = []"
      using Cons.prems(1) by (auto simp: filter_empty_conv image_iff dest!: set_zip_leftD)
    with 0 cs show ?thesis by simp
  next
    case (Suc k)
    then have "f p \<noteq> f (ps ! k)" using Cons.prems(1,2) by (auto simp: image_iff)
    with Suc cs Cons show ?thesis by simp
  qed
qed simp

lemma deal_round_robin:
  assumes "distinct (map f ps)" and "i < length ps" and "k * length ps \<le> length cs"
  shows "map snd (filter (\<lambda>(p, c). f p = f (ps ! i)) (zip (concat (replicate k ps)) cs)) =
    map (\<lambda>r. cs ! (r * length ps + i)) [0..<k]"
  using assms(3)
proof (induction k arbitrary: cs)
  case (Suc k)
  let ?n = "length ps"
  have split: "zip (concat (replicate (Suc k) ps)) cs = zip ps (take ?n cs) @ zip (concat (replicate k ps)) (drop ?n cs)"
    using Suc.prems by (simp add: zip_append1)
  have h: "filter (\<lambda>(p, c). f p = f (ps ! i)) (zip ps (take ?n cs)) = [(ps ! i, cs ! i)]"
    using filter_zip_distinct [OF assms(1,2), of "take ?n cs"] Suc.prems assms(2) by simp
  have t: "map snd (filter (\<lambda>(p, c). f p = f (ps ! i)) (zip (concat (replicate k ps)) (drop ?n cs))) =
      map (\<lambda>r. drop ?n cs ! (r * ?n + i)) [0..<k]"
    using Suc.prems by (intro Suc.IH) simp
  also have "\<dots> = map (\<lambda>r. cs ! (Suc r * ?n + i)) [0..<k]"
    using Suc.prems by (intro map_cong) (simp_all add: ac_simps)
  finally show ?case unfolding split filter_append map_append h by (simp add: map_upt_Suc del: upt_Suc)
qed simp

lemma mset_concat_update:
  "distinct us \<Longrightarrow> u \<in> set us \<Longrightarrow>
     mset (concat (map (h(u := h u @ [x])) us)) = mset (concat (map h us)) + {#x#}"
proof (induction us)
  case (Cons v us)
  show ?case
  proof (cases "v = u")
    case True
    with Cons.prems have m: "map (h(u := h u @ [x])) us = map h us" by (intro map_cong) auto
    show ?thesis unfolding list.map concat.simps mset_append True m by simp
  qed (use Cons in auto)
qed simp

lemma deal_cards_mset:
  "distinct us \<Longrightarrow> \<forall>(p, c) \<in> set pairs. pt_UserID p \<in> set us \<Longrightarrow>
     mset (concat (map (deal_cards hands pairs) us)) = mset (concat (map hands us)) + mset (map (cd_ID \<circ> snd) pairs)"
proof (induction hands pairs rule: deal_cards.induct)
  case (2 hands p c rest)
  define hands' where "hands' = hands(pt_UserID p := hands (pt_UserID p) @ [cd_ID c])"
  have "mset (concat (map hands' us)) = mset (concat (map hands us)) + {#cd_ID c#}"
    unfolding hands'_def using 2(2,3) by (intro mset_concat_update) auto
  moreover have "\<forall>(p, c) \<in> set rest. pt_UserID p \<in> set us" using 2(3) by simp
  from 2(1) [OF 2(2) this] have "mset (concat (map (deal_cards hands' rest) us)) = mset (concat (map hands' us)) + mset (map (cd_ID \<circ> snd) rest)"
    unfolding hands'_def .
  ultimately show ?case unfolding deal_cards.simps hands'_def [symmetric] by (simp add: comp_def)
qed simp

lemma snd_zip_take: "length xs \<le> length ys \<Longrightarrow> map snd (zip xs ys) = take (length xs) ys"
  by (induction xs ys rule: list_induct2') simp_all

lemma DealHands_dealt:
  assumes "DealHands ps deck = Inr (hands, rest)" and "distinct (map pt_UserID ps)"
  shows "i < length ps \<Longrightarrow> hands (pt_UserID (ps ! i)) = map (\<lambda>r. cd_ID (deck ! (r * length ps + i))) [0..<6]"
    and "mset (concat (map (\<lambda>p. hands (pt_UserID p)) ps)) + mset (map cd_ID rest) = mset (map cd_ID deck)"
proof -
  let ?pairs = "zip (concat (replicate 6 ps)) deck"
  have h: "hands = deal_cards (\<lambda>_. []) ?pairs" "rest = drop (6 * length ps) deck" "length ps \<le> 9" "length deck = 54"
    using assms(1) by (auto simp: DealHands_def outcome MaximumPlayers_def)
  have le: "6 * length ps \<le> length deck" using h(3,4) by simp
  show "hands (pt_UserID (ps ! i)) = map (\<lambda>r. cd_ID (deck ! (r * length ps + i))) [0..<6]" if "i < length ps"
    using deal_round_robin [OF assms(2) that le] h(1) by (simp add: deal_cards_at map_map [symmetric] del: map_map upt_Suc) (simp add: comp_def)
  have len: "length (concat (replicate 6 ps)) = 6 * length ps" by (simp add: length_concat sum_list_replicate)
  have "set (concat (replicate 6 ps)) \<subseteq> set ps" by auto
  then have "\<forall>(p, c) \<in> set ?pairs. pt_UserID p \<in> set (map pt_UserID ps)" by (auto dest!: set_zip_leftD)
  from deal_cards_mset [OF assms(2) this, of "\<lambda>_. []"]
  have "mset (concat (map (\<lambda>p. hands (pt_UserID p)) ps)) = mset (map cd_ID (map snd ?pairs))" by (simp add: h(1) comp_def)
  also have "map snd ?pairs = take (6 * length ps) deck" using le len by (simp add: snd_zip_take)
  finally show "mset (concat (map (\<lambda>p. hands (pt_UserID p)) ps)) + mset (map cd_ID rest) = mset (map cd_ID deck)"
    unfolding h(2) by (metis append_take_drop_id map_append mset_append)
qed

end
