(* ===== verification/ThreeHands.thy ===== *)
theory ThreeHands
  imports ThreeRounds ThreeDeck
begin

text \<open>
  The hands of three rounds. Every comparison of the engine orders by a key, so that the loops which collect the winners of a round
  are treated once, in the locale \<open>ranked\<close>. The loops of the three rounds are given in closed form, the search for
  the cards that jokers stand for is shown to find the best hand, and the timer to choose the weakest cards.
\<close>

section \<open>Comparisons by key\<close>

lemma cmp_simps [simp]: "cmp x x = 0" "cmp l r = 0 \<longleftrightarrow> l = r" "cmp l r < 0 \<longleftrightarrow> l < r" "0 < cmp l r \<longleftrightarrow> r < l"
  "cmp l r \<le> 0 \<longleftrightarrow> l \<le> r" "0 \<le> cmp l r \<longleftrightarrow> r \<le> l"
  by (auto simp: cmp_def)

lemma cmp_pair: "cmp (a, b) (c, d) = or_else (cmp a c) (cmp b d)"
  by (auto simp: cmp_def or_else_def less_prod_def)

lemma cmp_bool: "cmp a b = (if a \<noteq> b then (if a then 1 else -1) else 0)"
  by (cases a; cases b) (simp_all add: cmp_def)

lemma cmp_list: "compare_lists ls rs = cmp ls rs"
proof (induction ls arbitrary: rs)
  case Nil
  then show ?case by (cases rs) (auto simp: cmp_def)
next
  case (Cons l ls)
  then show ?case by (cases rs) (auto simp: cmp_def or_else_def)
qed

text \<open>A comparison that orders by a key: the loop that collects the winners keeps exactly those of the greatest key.\<close>

definition tally :: "('c \<Rightarrow> 'c \<Rightarrow> int) \<Rightarrow> (string \<times> 'c) list \<Rightarrow> string list \<times> 'c option \<Rightarrow> string list \<times> 'c option" where
  "tally compare entries found = foldl (\<lambda>found (userID, c). note_best compare userID c found) found entries"

lemma tally_simps [simp]:
  "tally compare [] found = found"
  "tally compare ((userID, c) # entries) found = tally compare entries (note_best compare userID c found)"
  by (simp_all add: tally_def)

lemma tally_append: "tally compare (xs @ ys) found = tally compare ys (tally compare xs found)"
  by (simp add: tally_def)

locale ranked =
  fixes compare :: "'c \<Rightarrow> 'c \<Rightarrow> int"
    and key :: "'c \<Rightarrow> 'k::linorder"
  assumes compare_key: "compare l r = cmp (key l) (key r)"
begin

definition bests :: "(string \<times> 'c) list \<Rightarrow> (string \<times> 'c) list" where
  "bests entries = filter (\<lambda>(_, c). \<forall>(_, c') \<in> set entries. key c' \<le> key c) entries"

lemma tally_bests:
  "entries \<noteq> [] \<Longrightarrow> \<exists>best. tally compare entries ([], None) = (map fst (bests entries), Some best) \<and>
     best \<in> snd ` set entries \<and> (\<forall>(_, c) \<in> set entries. key c \<le> key best)"
proof (induction entries rule: rev_induct)
  case (snoc e es)
  obtain u c where e: "e = (u, c)" by (cases e)
  show ?case
  proof (cases "es = []")
    case False
    with snoc.IH obtain best where t: "tally compare es ([], None) = (map fst (bests es), Some best)"
      and b: "best \<in> snd ` set es" "\<forall>(_, c) \<in> set es. key c \<le> key best" by blast
    have bs: "bests es = filter (\<lambda>(_, c). key c = key best) es"
      unfolding bests_def using b by (intro filter_cong) (force intro: order.antisym)+
    consider "key best < key c" | "key c = key best" | "key c < key best" by fastforce
    then show ?thesis
    proof cases
      case 1
      then have "bests (es @ [e]) = [(u, c)]"
        unfolding bests_def e using b by (auto simp: filter_empty_conv dest: leD)
      then show ?thesis using 1 t b unfolding e by (force simp: tally_append note_best_def compare_key)
    next
      case 2
      then have "bests (es @ [e]) = bests es @ [(u, c)]"
        unfolding bests_def e using b by (auto intro!: filter_cong)
      then show ?thesis using 2 t b unfolding e by (force simp: tally_append note_best_def compare_key)
    next
      case 3
      then have "bests (es @ [e]) = bests es"
        unfolding bs unfolding bests_def e using b by (force intro!: filter_cong intro: order.antisym)
      then show ?thesis using 3 t b unfolding e by (force simp: tally_append note_best_def compare_key)
    qed
  qed (auto simp: e note_best_def bests_def)
qed simp

end

text \<open>The keys of the comparisons.\<close>

definition key_one :: "roundOneComparison \<Rightarrow> u8 \<times> u8" where "key_one c = (c1_RankStrength c, c1_SuitStrength c)"

definition key_two :: "roundTwoComparison \<Rightarrow> bool \<times> u8 \<times> u8 \<times> u8" where
  "key_two c = (\<not> c2_Busted c, c2_TotalHalfPoints c, c2_RankStrengthsDesc c)"

definition key_auto :: "roundTwoAutoKey \<Rightarrow> bool \<times> u8 \<times> (u8 \<times> u8) \<times> u8 \<times> u8" where
  "key_auto k = (ak_Busted k, ak_TotalHalfPoints k, ak_RankAsc k, ak_Ordinals k)"

definition key_three :: "thirdComparison \<Rightarrow> u8 \<times> u8 list" where "key_three c = (c3_HandClass c, c3_CompareValues c)"

definition key_final :: "FinalStanding \<Rightarrow> u8 \<times> bool \<times> bool \<times> bool" where
  "key_final s = (fs_TotalPoints s, fs_WonRoundThree s, fs_WonRoundTwo s, fs_WonRoundOne s)"

interpretation one: ranked compareRoundOne key_one
  by unfold_locales (simp add: compareRoundOne_def key_one_def cmp_pair)

interpretation auto_one: ranked compareAutoRoundOne key_one
  by unfold_locales (simp add: compareAutoRoundOne_def key_one_def cmp_pair)

interpretation two: ranked compareRoundTwo key_two
proof unfold_locales
  fix l r
  show "compareRoundTwo l r = cmp (key_two l) (key_two r)"
    by (cases "c2_RankStrengthsDesc l"; cases "c2_RankStrengthsDesc r")
      (simp add: compareRoundTwo_def key_two_def cmp_pair cmp_bool or_else_def)
qed

interpretation auto_two: ranked compareRoundTwoAuto key_auto
proof unfold_locales
  fix l r
  show "compareRoundTwoAuto l r = cmp (key_auto l) (key_auto r)"
    by (cases "ak_RankAsc l"; cases "ak_RankAsc r"; cases "ak_Ordinals l"; cases "ak_Ordinals r")
      (simp add: compareRoundTwoAuto_def key_auto_def cmp_pair cmp_bool or_else_def)
qed

interpretation three: ranked compareThirdResult key_three
  by unfold_locales (simp add: compareThirdResult_def key_three_def cmp_pair cmp_list)

lemma cmp_boolToUint8: "cmp (boolToUint8 a) (boolToUint8 b) = cmp a b"
  by (cases a; cases b) (simp_all add: boolToUint8_def cmp_def)

interpretation final: ranked compareStandingKey key_final
  by unfold_locales (simp add: compareStandingKey_def key_final_def cmp_pair cmp_boolToUint8)

interpretation tr: player_table pl_UserID pl_Active playerIndex activeCount
  by unfold_locales simp_all

section \<open>What the loops of the rounds compute\<close>

definition plays :: "u32 \<Rightarrow> PlayerState \<Rightarrow> bool" where
  "plays round p \<longleftrightarrow> pl_Active p \<and> ps_Round (pl_PendingSelection p) = round"

abbreviation chosen :: "PlayerState \<Rightarrow> CardID list" where "chosen p \<equiv> ps_CardIDs (pl_PendingSelection p)"

definition comparison_one :: "PlayerState \<Rightarrow> roundOneComparison" where
  "comparison_one p = \<lparr>c1_RankStrength = rankStrength (card_of (hd (chosen p))), c1_SuitStrength = suitStrength (card_of (hd (chosen p)))\<rparr>"

definition reveal_one :: "PlayerState \<Rightarrow> PlayerReveal" where
  "reveal_one p = zero_reveal\<lparr>rv_UserID := pl_UserID p, rv_SeatIndex := pl_SeatIndex p, rv_Active := True,
     rv_CardIDs := chosen p, rv_AutoSubmitted := ps_AutoSubmitted (pl_PendingSelection p),
     rv_RoundOneEvaluation := \<lparr>e1_CardID = hd (chosen p), e1_RankStrength = rankStrength (card_of (hd (chosen p))),
       e1_SuitStrength = suitStrength (card_of (hd (chosen p)))\<rparr>\<rparr>"

definition after_one :: "PlayerState \<Rightarrow> PlayerState" where
  "after_one p = (if plays 1 p
     then p\<lparr>pl_RoundOneCards := chosen p, pl_RemainingHand := removeCards (pl_RemainingHand p) (chosen p), pl_PendingSelection := no_selection\<rparr>
     else p\<lparr>pl_PendingSelection := no_selection\<rparr>)"

lemma play_one_eq:
  "\<forall>p \<in> set ps. plays 1 p \<longrightarrow> chosen p \<noteq> [] \<Longrightarrow>
     play_one ps found = Inr (map after_one ps, map reveal_one (filter (plays 1) ps),
       tally compareRoundOne (map (\<lambda>p. (pl_UserID p, comparison_one p)) (filter (plays 1) ps)) found)"
proof (induction ps arbitrary: found)
  case (Cons p ps)
  then show ?case
    by (cases "plays 1 p") (auto simp: plays_def after_one_def reveal_one_def comparison_one_def Let_def)
qed simp

definition evaluation_two :: "PlayerState \<Rightarrow> roundTwoComparison" where
  "evaluation_two p = projr (evaluateRoundTwo (cardsFromIDs (chosen p)))"

definition reveal_two :: "PlayerState \<Rightarrow> PlayerReveal" where
  "reveal_two p = zero_reveal\<lparr>rv_UserID := pl_UserID p, rv_SeatIndex := pl_SeatIndex p, rv_Active := True,
     rv_CardIDs := chosen p, rv_AutoSubmitted := ps_AutoSubmitted (pl_PendingSelection p),
     rv_RoundTwoEvaluation := \<lparr>e2_TotalHalfPoints = c2_TotalHalfPoints (evaluation_two p),
       e2_Busted = c2_Busted (evaluation_two p), e2_RankStrengthsDesc = c2_RankStrengthsDesc (evaluation_two p)\<rparr>\<rparr>"

definition after_two :: "PlayerState \<Rightarrow> PlayerState" where
  "after_two p = (if plays 2 p
     then p\<lparr>pl_RoundTwoCards := chosen p, pl_RemainingHand := removeCards (pl_RemainingHand p) (chosen p), pl_PendingSelection := no_selection\<rparr>
     else p\<lparr>pl_PendingSelection := no_selection\<rparr>)"

definition in_play :: "PlayerState \<Rightarrow> bool" where "in_play p \<longleftrightarrow> plays 2 p \<and> \<not> c2_Busted (evaluation_two p)"

lemma evaluateRoundTwo_eq: "2 \<le> length (chosen p) \<Longrightarrow> evaluateRoundTwo (cardsFromIDs (chosen p)) = Inr (evaluation_two p)"
  by (cases "chosen p" rule: remdups_adj.cases) (auto simp: evaluation_two_def evaluateRoundTwo_def cardsFromIDs_def Let_def)

lemma play_two_eq:
  "\<forall>p \<in> set ps. plays 2 p \<longrightarrow> 2 \<le> length (chosen p) \<Longrightarrow>
     play_two ps allBusted found = Inr (map after_two ps, map reveal_two (filter (plays 2) ps),
       allBusted \<and> (\<forall>p \<in> set ps. \<not> in_play p),
       tally compareRoundTwo (map (\<lambda>p. (pl_UserID p, evaluation_two p)) (filter in_play ps)) found)"
proof (induction ps arbitrary: allBusted found)
  case (Cons p ps)
  then show ?case
    by (cases "plays 2 p"; cases "c2_Busted (evaluation_two p)")
      (auto simp: plays_def in_play_def after_two_def reveal_two_def evaluateRoundTwo_eq Let_def)
qed simp

definition resolution :: "PlayerState \<Rightarrow> thirdResolution" where
  "resolution p = projr (resolveThirdHand (cardsFromIDs (pl_RemainingHand p)))"

definition reveal_three :: "PlayerState \<Rightarrow> PlayerReveal" where
  "reveal_three p = zero_reveal\<lparr>rv_UserID := pl_UserID p, rv_SeatIndex := pl_SeatIndex p, rv_Active := True,
     rv_CardIDs := pl_RemainingHand p,
     rv_RoundThreeEvaluation := \<lparr>e3_HandClass = c3_HandClass (tr_Comparison (resolution p)),
       e3_CompareValues = c3_CompareValues (tr_Comparison (resolution p)), e3_ResolvedCards = tr_ResolvedCards (resolution p)\<rparr>,
     rv_WildcardResolution := tr_WildcardResolution (resolution p)\<rparr>"

definition after_three :: "PlayerState \<Rightarrow> PlayerState" where
  "after_three p = (if pl_Active p
     then p\<lparr>pl_RoundThreeCards := pl_RemainingHand p, pl_RemainingHand := [],
            pl_RoundThreeWildcardResolution := tr_WildcardResolution (resolution p)\<rparr>
     else p)"

lemma play_three_eq:
  "\<forall>p \<in> set ps. pl_Active p \<longrightarrow> succeeds (resolveThirdHand (cardsFromIDs (pl_RemainingHand p))) \<Longrightarrow>
     \<exists>events. play_three ps found = Inr (map after_three ps, map reveal_three (filter pl_Active ps), events,
       tally compareThirdResult (map (\<lambda>p. (pl_UserID p, tr_Comparison (resolution p))) (filter pl_Active ps)) found)"
proof (induction ps arbitrary: found)
  case (Cons p ps)
  show ?case
  proof (cases "pl_Active p")
    case True
    with Cons.prems have "resolveThirdHand (cardsFromIDs (pl_RemainingHand p)) = Inr (resolution p)"
      by (auto simp: succeeds_def resolution_def)
    moreover obtain events where "play_three ps (note_best compareThirdResult (pl_UserID p) (tr_Comparison (resolution p)) found) =
        Inr (map after_three ps, map reveal_three (filter pl_Active ps), events,
          tally compareThirdResult (map (\<lambda>p. (pl_UserID p, tr_Comparison (resolution p))) (filter pl_Active ps))
            (note_best compareThirdResult (pl_UserID p) (tr_Comparison (resolution p)) found))"
      using Cons by fastforce
    ultimately show ?thesis using True by (simp add: after_three_def reveal_three_def Let_def)
  next
    case False
    from Cons obtain events where "play_three ps found = Inr (map after_three ps, map reveal_three (filter pl_Active ps), events,
       tally compareThirdResult (map (\<lambda>p. (pl_UserID p, tr_Comparison (resolution p))) (filter pl_Active ps)) found)" by fastforce
    with False show ?thesis by (simp add: after_three_def)
  qed
qed simp

lemma award_eq:
  assumes "\<And>p. pl_UserID (win p) = pl_UserID p"
  shows "distinct (map pl_UserID ps) \<Longrightarrow> distinct (map rv_UserID rs) \<Longrightarrow> rv_UserID ` set rs \<subseteq> pl_UserID ` set ps \<Longrightarrow>
    award win winners rs ps = Inr
      (map (\<lambda>r. if rv_UserID r \<in> set winners then r\<lparr>rv_AwardedPoints := 1\<rparr> else r) rs,
       map (\<lambda>p. if pl_UserID p \<in> set winners \<inter> rv_UserID ` set rs then win p else p) ps)"
proof (induction rs arbitrary: ps)
  case (Cons r rs)
  show ?case
  proof (cases "rv_UserID r \<in> set winners")
    case True
    from Cons.prems(3) obtain i where i: "playerIndex ps (rv_UserID r) = Some i"
      using tr.index_Some_iff [of ps "rv_UserID r"] by auto
    note ii = tr.index_SomeD [OF i]
    have up: "ps[i := win (ps ! i)] = map (\<lambda>p. if pl_UserID p = rv_UserID r then win p else p) ps" (is "_ = ?qs")
      using update_as_map [OF Cons.prems(1), of i win] ii by simp
    have m: "map pl_UserID ?qs = map pl_UserID ps" using assms by simp
    have im: "pl_UserID ` set ?qs = pl_UserID ` set ps" using arg_cong [OF m, of set] by (simp only: set_map)
    have "award win winners rs ?qs = Inr
      (map (\<lambda>r. if rv_UserID r \<in> set winners then r\<lparr>rv_AwardedPoints := 1\<rparr> else r) rs,
       map (\<lambda>p. if pl_UserID p \<in> set winners \<inter> rv_UserID ` set rs then win p else p) ?qs)"
    proof (rule Cons.IH)
      show "distinct (map pl_UserID ?qs)" unfolding m by (rule Cons.prems(1))
      show "rv_UserID ` set rs \<subseteq> pl_UserID ` set ?qs" unfolding im using Cons.prems(3) by simp
    qed (use Cons.prems(2) in simp)
    moreover have "map (\<lambda>p. if pl_UserID p \<in> set winners \<inter> rv_UserID ` set rs then win p else p) ?qs =
        map (\<lambda>p. if pl_UserID p \<in> set winners \<inter> rv_UserID ` set (r # rs) then win p else p) ps"
      using Cons.prems(2) True assms by auto
    ultimately show ?thesis using True i up by simp
  next
    case False
    then have "set winners \<inter> rv_UserID ` set (r # rs) = set winners \<inter> rv_UserID ` set rs" by auto
    with False Cons show ?thesis by simp
  qed
qed simp

section \<open>The third hand\<close>

lemma classifyThird_succeeds: "3 \<le> length cs \<Longrightarrow> succeeds (classifyThird cs)"
proof -
  assume "3 \<le> length cs"
  then have "3 \<le> length (sortCardsByOrdinal cs)" by (simp add: sortCardsByOrdinal_def)
  then obtain a b c ds where "sortCardsByOrdinal cs = a # b # c # ds"
    by (cases "sortCardsByOrdinal cs" rule: remdups_adj.cases) (auto simp: neq_Nil_conv Suc_le_eq eval_nat_numeral)
  then show ?thesis by (simp add: classifyThird_def Let_def)
qed

definition third_class :: "Card list \<Rightarrow> thirdComparison" where
  "third_class cs = projr (classifyThird cs)"

lemma classifyThird_eq: "3 \<le> length cs \<Longrightarrow> classifyThird cs = Inr (third_class cs)"
  using classifyThird_succeeds [of cs] by (auto simp: succeeds_def third_class_def)

text \<open>What an assignment of cards to the jokers makes of a hand.\<close>

definition substituted :: "Card list \<Rightarrow> Card list \<Rightarrow> Card list \<Rightarrow> thirdResolution" where
  "substituted jokerOrder real a = \<lparr>tr_Comparison = third_class (real @ a), tr_ResolvedCards = toResolvedCardIDs (real @ a),
     tr_WildcardResolution =
       \<lparr>wr_Substitutions = map (\<lambda>(joker, assigned). \<lparr>ws_WildcardCardID = cd_ID joker,
            ws_SubstitutedCardID = cd_ID assigned, ws_CardOrdinal = cd_Ordinal assigned\<rparr>) (zip jokerOrder a),
        wr_ResolvedCards = toResolvedCardIDs (real @ a)\<rparr>\<rparr>"

lemma assigned_eq: "3 \<le> length (real @ a) \<Longrightarrow> length a \<le> length jokerOrder \<Longrightarrow>
    assigned_resolution jokerOrder (real @ a) a = Inr (substituted jokerOrder real a)"
  by (simp add: assigned_resolution_def classifyThird_eq substituted_def)

lemma substituted_ordinals:
  "length a \<le> length jokerOrder \<Longrightarrow> substitutionOrdinals (tr_WildcardResolution (substituted jokerOrder real a)) = map cd_Ordinal a"
proof -
  assume "length a \<le> length jokerOrder"
  then have "map (cd_Ordinal \<circ> snd) (zip jokerOrder a) = map cd_Ordinal a"
    by (induction jokerOrder a rule: list_induct2') auto
  then show ?thesis by (simp add: substitutionOrdinals_def substituted_def comp_def split_beta)
qed

text \<open>The first assignment is at least as good as the second: a better hand, or the same with smaller ordinals.\<close>

definition preferred :: "Card list \<Rightarrow> Card list \<Rightarrow> Card list \<Rightarrow> bool" where
  "preferred real a b \<longleftrightarrow> key_three (third_class (real @ b)) < key_three (third_class (real @ a)) \<or>
     key_three (third_class (real @ b)) = key_three (third_class (real @ a)) \<and> map cd_Ordinal a \<le> map cd_Ordinal b"

lemma preferred_refl: "preferred real a a"
  by (simp add: preferred_def)

lemma preferred_trans: "preferred real a b \<Longrightarrow> preferred real b c \<Longrightarrow> preferred real a c"
  by (auto simp: preferred_def)

lemma preferred_linear: "\<not> preferred real a b \<Longrightarrow> preferred real b a"
  by (auto simp: preferred_def)

lemma maybeBestThird_eq:
  assumes "3 \<le> length (real @ a)" and "length a \<le> length jokerOrder" and "length b \<le> length jokerOrder"
  shows "maybeBestThird (Some (substituted jokerOrder real b)) jokerOrder (real @ a) a =
    Inr (\<not> preferred real b a, substituted jokerOrder real a)"
proof -
  have "compareThirdResult (third_class (real @ a)) (third_class (real @ b)) =
      cmp (key_three (third_class (real @ a))) (key_three (third_class (real @ b)))" by (rule three.compare_key)
  moreover have "compareOrdinalKey (map cd_Ordinal a) (map cd_Ordinal b) = cmp (map cd_Ordinal a) (map cd_Ordinal b)"
    by (simp add: compareOrdinalKey_def cmp_list)
  moreover have "tr_Comparison (substituted jokerOrder real c) = third_class (real @ c)" for c by (simp add: substituted_def)
  ultimately show ?thesis
    using assms by (auto simp: maybeBestThird_def assigned_eq substituted_ordinals preferred_def Let_def not_le)
qed

lemma search_third_best:
  assumes "\<forall>a \<in> set as. 3 \<le> length (real @ a) \<and> length a \<le> length jokerOrder" and "length b \<le> length jokerOrder"
  shows "\<exists>c \<in> insert b (set as). search_third jokerOrder real as (Some (substituted jokerOrder real b)) =
      Inr (Some (substituted jokerOrder real c)) \<and> (\<forall>a \<in> insert b (set as). preferred real c a)"
  using assms
proof (induction as arbitrary: b)
  case Nil
  then show ?case by (simp add: preferred_refl)
next
  case (Cons a as)
  define d where "d = (if preferred real b a then b else a)"
  have d: "d \<in> {a, b}" "preferred real d a" "preferred real d b" "length d \<le> length jokerOrder"
    using Cons.prems preferred_linear [of real b a] preferred_refl by (auto simp: d_def)
  have "search_third jokerOrder real (a # as) (Some (substituted jokerOrder real b)) =
      search_third jokerOrder real as (Some (substituted jokerOrder real d))"
    using Cons.prems maybeBestThird_eq [of real a jokerOrder b] by (simp add: d_def)
  moreover obtain c where "c \<in> insert d (set as)" "search_third jokerOrder real as (Some (substituted jokerOrder real d)) =
      Inr (Some (substituted jokerOrder real c))" "\<forall>x \<in> insert d (set as). preferred real c x"
    using Cons.IH [of d] Cons.prems d(4) by auto
  ultimately show ?case using d by (intro bexI [of _ c]) (auto intro: preferred_trans)
qed

lemma search_third_optimal:
  assumes "as \<noteq> []" and "\<forall>a \<in> set as. 3 \<le> length (real @ a) \<and> length a \<le> length jokerOrder"
  shows "\<exists>c \<in> set as. search_third jokerOrder real as None = Inr (Some (substituted jokerOrder real c)) \<and>
    (\<forall>a \<in> set as. preferred real c a)"
proof -
  from assms(1) obtain a rest where as: "as = a # rest" by (cases as) auto
  then have "maybeBestThird None jokerOrder (real @ a) a = Inr (True, substituted jokerOrder real a)"
    using assms(2) by (simp add: maybeBestThird_def assigned_eq)
  with as assms(2) search_third_best [of rest real jokerOrder a] show ?thesis by auto
qed

lemma normalDeck_distinct: "distinct normalDeck"
  using deck_ids_distinct by (simp add: normalDeck_def distinct_map)

text \<open>The cards that jokers can stand for.\<close>

definition substitutes :: "nat \<Rightarrow> Card list \<Rightarrow> Card list set" where
  "substitutes jokers real = {a. length a = jokers \<and> distinct a \<and> set a \<subseteq> set normalDeck - set real}"

lemma nested_loop_mem:
  "a \<in> set (concat (map (\<lambda>i. if U i then [] else if one then [[f i]]
       else concat (map (\<lambda>k. if k = i \<or> U k then [] else [[f i, f k]]) [0..<n])) [0..<n])) \<longleftrightarrow>
     (\<exists>i < n. \<not> U i \<and> (if one then a = [f i] else \<exists>k < n. k \<noteq> i \<and> \<not> U k \<and> a = [f i, f k]))"
  by (cases one) (auto split: if_split_asm, fastforce+)

lemma third_assignments_set:
  assumes "jokers = 1 \<or> jokers = 2" and "set real \<subseteq> set deckOrdered"
  shows "set (third_assignments jokers (map cd_Ordinal real)) = substitutes jokers real"
proof -
  have sub: "set normalDeck \<subseteq> set deckOrdered" by (auto simp: normalDeck_def dest: in_set_takeD)
  let ?n = "length normalDeck" and ?at = "\<lambda>i. normalDeck ! i"
  have used: "cd_Ordinal (?at i) \<in> set (map cd_Ordinal real) \<longleftrightarrow> ?at i \<in> set real" if "i < ?n" for i
    unfolding set_map using sub nth_mem [OF that] by (intro inj_on_image_mem_iff [OF ordinal_inj _ assms(2)]) blast
  have mem: "a \<in> set (third_assignments jokers (map cd_Ordinal real)) \<longleftrightarrow>
      (\<exists>i < ?n. ?at i \<notin> set real \<and> (if jokers = 1 then a = [?at i] else \<exists>k < ?n. k \<noteq> i \<and> ?at k \<notin> set real \<and> a = [?at i, ?at k]))" for a
  proof -
    have "a \<in> set (third_assignments jokers (map cd_Ordinal real)) \<longleftrightarrow>
      (\<exists>i < ?n. cd_Ordinal (?at i) \<notin> set (map cd_Ordinal real) \<and> (if jokers = 1 then a = [?at i]
         else \<exists>k < ?n. k \<noteq> i \<and> cd_Ordinal (?at k) \<notin> set (map cd_Ordinal real) \<and> a = [?at i, ?at k]))"
      unfolding third_assignments_def by (rule nested_loop_mem)
    also have "\<dots> \<longleftrightarrow> (\<exists>i < ?n. ?at i \<notin> set real \<and> (if jokers = 1 then a = [?at i] else \<exists>k < ?n. k \<noteq> i \<and> ?at k \<notin> set real \<and> a = [?at i, ?at k]))"
      by (simp only: used cong: conj_cong if_cong)
    finally show ?thesis .
  qed
  show ?thesis
  proof (cases "jokers = 1")
    case True
    then have "a \<in> set (third_assignments jokers (map cd_Ordinal real)) \<longleftrightarrow> (\<exists>c. c \<in> set normalDeck \<and> c \<notin> set real \<and> a = [c])" for a
      unfolding mem by (auto simp: in_set_conv_nth)
    then show ?thesis using True by (auto simp: substitutes_def length_Suc_conv)
  next
    case False
    have "a \<in> set (third_assignments jokers (map cd_Ordinal real)) \<longleftrightarrow>
        (\<exists>c \<in> set normalDeck. \<exists>d \<in> set normalDeck. d \<noteq> c \<and> c \<notin> set real \<and> d \<notin> set real \<and> a = [c, d])" (is "_ = ?R") for a
    proof
      assume "a \<in> set (third_assignments jokers (map cd_Ordinal real))"
      then obtain i k where "i < ?n" "k < ?n" "k \<noteq> i" "?at i \<notin> set real" "?at k \<notin> set real" "a = [?at i, ?at k]"
        using False unfolding mem by auto
      then show ?R using normalDeck_distinct
        by (intro bexI [of _ "?at i"] bexI [of _ "?at k"]) (simp_all add: nth_eq_iff_index_eq)
    next
      assume ?R
      then obtain i k where "i < ?n" "k < ?n" "?at k \<noteq> ?at i" "?at i \<notin> set real" "?at k \<notin> set real" "a = [?at i, ?at k]"
        by (metis in_set_conv_nth)
      then show "a \<in> set (third_assignments jokers (map cd_Ordinal real))" using False unfolding mem by auto
    qed
    then show ?thesis using False assms(1) by (auto simp: substitutes_def length_Suc_conv eval_nat_numeral)
  qed
qed

lemma joker_ids: "c \<in> set deckOrdered \<Longrightarrow> cd_Kind c \<noteq> cardNormal \<Longrightarrow> cd_ID c = BigJokerID \<or> cd_ID c = SmallJokerID"
proof -
  have "list_all (\<lambda>c. cd_Kind c \<noteq> cardNormal \<longrightarrow> cd_ID c = BigJokerID \<or> cd_ID c = SmallJokerID) deckOrdered" by code_simp
  then show "c \<in> set deckOrdered \<Longrightarrow> cd_Kind c \<noteq> cardNormal \<Longrightarrow> cd_ID c = BigJokerID \<or> cd_ID c = SmallJokerID"
    by (auto simp: list_all_iff)
qed

lemma deck_id_inj: "inj_on cd_ID (set deckOrdered)"
  using deck_ids_distinct by (simp add: distinct_map)

lemma jokers_le_2:
  assumes "distinct cs" and "set cs \<subseteq> set deckOrdered"
  shows "length (filter (\<lambda>c. cd_Kind c \<noteq> cardNormal) cs) \<le> 2"
proof -
  let ?js = "filter (\<lambda>c. cd_Kind c \<noteq> cardNormal) cs"
  have "distinct (map cd_ID ?js)"
    using assms inj_on_subset [OF deck_id_inj, of "{c \<in> set cs. cd_Kind c \<noteq> cardNormal}"] by (auto simp: distinct_map)
  then have "length ?js = card (set (map cd_ID ?js))" by (metis distinct_card length_map)
  also have "\<dots> \<le> card {BigJokerID, SmallJokerID}" using joker_ids assms(2) by (intro card_mono) auto
  finally show ?thesis by simp
qed

lemma joker_order_length:
  assumes "\<forall>c \<in> set js. cd_ID c = BigJokerID \<or> cd_ID c = SmallJokerID"
  shows "length (concat (map (\<lambda>wanted. filter (\<lambda>joker. cd_ID joker = wanted) js) [BigJokerID, SmallJokerID])) = length js"
  using assms by (induction js) auto

lemma substitutes_nonempty:
  assumes "jokers \<le> 2" and "length real \<le> 3"
  shows "substitutes jokers real \<noteq> {}"
proof -
  let ?free = "filter (\<lambda>c. c \<notin> set real) normalDeck"
  have "length ?free = card (set normalDeck - set real)"
    using normalDeck_distinct by (metis distinct_card distinct_filter set_filter set_diff_eq)
  moreover have "card (set normalDeck) = 52" using distinct_card [OF normalDeck_distinct] by (simp add: normalDeck_def)
  moreover have "card (set real) \<le> 3" using card_length [of real] assms(2) by simp
  ultimately have "2 \<le> length ?free" using diff_card_le_card_Diff [of "set real" "set normalDeck"] by simp
  then have "take jokers ?free \<in> substitutes jokers real"
    using assms(1) normalDeck_distinct by (auto simp: substitutes_def dest!: in_set_takeD)
  then show ?thesis by blast
qed

definition normals :: "Card list \<Rightarrow> Card list" where "normals cs = filter (\<lambda>c. cd_Kind c = cardNormal) cs"

lemma resolveThirdHand_optimal:
  assumes "distinct cs" and "set cs \<subseteq> set deckOrdered" and "length cs = 3"
  shows "\<exists>r. resolveThirdHand cs = Inr r \<and>
    (\<exists>a \<in> substitutes (3 - length (normals cs)) (normals cs). tr_Comparison r = third_class (normals cs @ a) \<and>
       tr_ResolvedCards r = toResolvedCardIDs (normals cs @ a) \<and>
       substitutionOrdinals (tr_WildcardResolution r) = map cd_Ordinal a \<and>
       (\<forall>b \<in> substitutes (3 - length (normals cs)) (normals cs). preferred (normals cs) a b))"
proof -
  let ?js = "filter (\<lambda>c. cd_Kind c \<noteq> cardNormal) cs" and ?real = "normals cs"
  have sum: "length ?js = 3 - length ?real"
    using sum_length_filter_compl [of "\<lambda>c. cd_Kind c = cardNormal" cs] assms(3) by (simp add: normals_def)
  have rl: "length ?real \<le> 3" using assms(3) by (metis length_filter_le normals_def)
  have sub: "set ?real \<subseteq> set deckOrdered" using assms(2) by (auto simp: normals_def)
  note j2 = jokers_le_2 [OF assms(1,2)]
  show ?thesis
  proof (cases "?js = []")
    case True
    then have r3: "length ?real = 3" using sum rl by simp
    have "substitutes 0 ?real = {[]}" by (auto simp: substitutes_def)
    moreover have "resolveThirdHand cs = Inr \<lparr>tr_Comparison = third_class ?real, tr_ResolvedCards = toResolvedCardIDs ?real,
        tr_WildcardResolution = no_wildcards\<rparr>"
      using True r3 by (simp add: resolveThirdHand_def normals_def [symmetric] classifyThird_eq Let_def)
    ultimately show ?thesis using r3 by (simp add: preferred_refl substitutionOrdinals_def no_wildcards_def)
  next
    case False
    define ord where "ord = concat (map (\<lambda>wanted. filter (\<lambda>joker. cd_ID joker = wanted) ?js) [BigJokerID, SmallJokerID])"
    have ol: "length ord = length ?js"
      unfolding ord_def using joker_ids assms(2) by (intro joker_order_length) auto
    let ?as = "third_assignments (length ord) (map cd_Ordinal ?real)"
    have "length ord = 1 \<or> length ord = 2" using ol j2 False by (cases "length ?js") auto
    then have as: "set ?as = substitutes (length ?js) ?real" using third_assignments_set [OF _ sub] ol by simp
    have "?as \<noteq> []" using as substitutes_nonempty [OF j2 rl] by auto
    moreover have "\<forall>a \<in> set ?as. 3 \<le> length (?real @ a) \<and> length a \<le> length ord"
      unfolding as using sum rl ol by (auto simp: substitutes_def)
    ultimately obtain a where a: "a \<in> set ?as" "search_third ord ?real ?as None = Inr (Some (substituted ord ?real a))"
      "\<forall>b \<in> set ?as. preferred ?real a b" using search_third_optimal by blast
    have "resolveThirdHand cs = Inr (substituted ord ?real a)"
      unfolding resolveThirdHand_def Let_def normals_def [symmetric] using False j2 a(2) by (simp add: ord_def)
    moreover have "length a \<le> length ord" using a(1) as ol by (simp add: substitutes_def)
    moreover have "tr_Comparison (substituted ord ?real a) = third_class (?real @ a)"
      "tr_ResolvedCards (substituted ord ?real a) = toResolvedCardIDs (?real @ a)" by (simp_all add: substituted_def)
    ultimately show ?thesis using a(1,3) substituted_ordinals [of a ord ?real] unfolding as sum by blast
  qed
qed

section \<open>Selections by the timer\<close>

text \<open>The weakest card: nothing else in the hand has a smaller key.\<close>

definition auto_key :: "Card \<Rightarrow> u8 \<times> u8" where "auto_key c = (rankStrength c, suitAscending c)"

lemma weakest_card_min:
  "weakest_card best cs \<in> insert best (set cs) \<and> (\<forall>c \<in> insert best (set cs). auto_key (weakest_card best cs) \<le> auto_key c)"
proof (induction cs arbitrary: best)
  case (Cons c cs)
  let ?k = "\<lambda>c. \<lparr>c1_RankStrength = rankStrength c, c1_SuitStrength = suitAscending c\<rparr>"
  have k: "key_one (?k x) = auto_key x" for x by (simp add: key_one_def auto_key_def)
  have "compareAutoRoundOne (?k c) (?k best) < 0 \<longleftrightarrow> auto_key c < auto_key best"
    unfolding auto_one.compare_key k by simp
  then show ?case using Cons.IH [of c] Cons.IH [of best] by (auto intro: order.trans less_imp_le)
qed simp

lemma autoSelect_one:
  assumes "pl_RemainingHand p \<noteq> []" and "\<forall>i \<in> set (pl_RemainingHand p). known i"
  shows "\<exists>i \<in> set (pl_RemainingHand p). autoSelect p 1 = Inr [i] \<and>
    (\<forall>k \<in> set (pl_RemainingHand p). auto_key (card_of i) \<le> auto_key (card_of k))"
proof -
  obtain c cs where cs: "cardsFromIDs (pl_RemainingHand p) = c # cs" using assms(1) by (cases "pl_RemainingHand p") (auto simp: cardsFromIDs_def)
  let ?w = "weakest_card c cs"
  have s: "insert c (set cs) = card_of ` set (pl_RemainingHand p)" using arg_cong [OF cs, of set] by (simp add: cardsFromIDs_def)
  note w = weakest_card_min [of c cs, unfolded s]
  from w obtain i where i: "i \<in> set (pl_RemainingHand p)" "?w = card_of i" by auto
  then have "cd_ID ?w = i" using known_card assms(2) by auto
  then show ?thesis using cs i w by (intro bexI [of _ i]) (auto simp: autoSelect_def)
qed


text \<open>The weakest pair.\<close>

definition pair_key :: "Card \<Rightarrow> Card \<Rightarrow> bool \<times> u8 \<times> (u8 \<times> u8) \<times> u8 \<times> u8" where
  "pair_key c d = (21 < halfPoints c + halfPoints d, halfPoints c + halfPoints d,
     (min (rankStrength c) (rankStrength d), max (rankStrength c) (rankStrength d)),
     (min (cd_Ordinal c) (cd_Ordinal d), max (cd_Ordinal c) (cd_Ordinal d)))"

lemma pair_key_sym: "pair_key c d = pair_key d c"
  by (simp add: pair_key_def ac_simps)

lemma buildRoundTwoAutoKey_eq:
  "\<exists>k. buildRoundTwoAutoKey [c, d] = Inr k \<and> key_auto k = pair_key c d"
  by (auto simp: buildRoundTwoAutoKey_def evaluateRoundTwo_def Let_def key_auto_def pair_key_def min_def max_def)

lemma weakest_pair_min:
  assumes "best = Some (canonicalSelection [cd_ID c, cd_ID d], k)" and "key_auto k = pair_key c d"
  shows "\<exists>(x, y) \<in> insert (c, d) (set ps). \<exists>m. weakest_pair best ps = Inr (Some (canonicalSelection [cd_ID x, cd_ID y], m)) \<and>
    key_auto m = pair_key x y \<and> (\<forall>(u, v) \<in> insert (c, d) (set ps). pair_key x y \<le> pair_key u v)"
  using assms
proof (induction ps arbitrary: best c d k)
  case (Cons p ps)
  obtain a b where p: "p = (a, b)" by (cases p)
  obtain l where l: "buildRoundTwoAutoKey [a, b] = Inr l" "key_auto l = pair_key a b" using buildRoundTwoAutoKey_eq by blast
  have lt: "compareRoundTwoAuto l k < 0 \<longleftrightarrow> pair_key a b < pair_key c d" unfolding auto_two.compare_key l(2) Cons.prems(2) by simp
  show ?case
  proof (cases "pair_key a b < pair_key c d")
    case True
    then have "weakest_pair best (p # ps) = weakest_pair (Some (canonicalSelection [cd_ID a, cd_ID b], l)) ps"
      using Cons.prems(1) l(1) lt by (simp add: p Let_def)
    moreover obtain x y m where "(x, y) \<in> insert (a, b) (set ps)"
      "weakest_pair (Some (canonicalSelection [cd_ID a, cd_ID b], l)) ps = Inr (Some (canonicalSelection [cd_ID x, cd_ID y], m))"
      "key_auto m = pair_key x y" "\<forall>(u, v) \<in> insert (a, b) (set ps). pair_key x y \<le> pair_key u v"
      using Cons.IH [OF refl l(2)] by blast
    ultimately show ?thesis using True unfolding p by (intro bexI [of _ "(x, y)"]) auto
  next
    case False
    then have "weakest_pair best (p # ps) = weakest_pair best ps"
      using Cons.prems(1) l(1) lt by (simp add: p Let_def)
    moreover obtain x y m where "(x, y) \<in> insert (c, d) (set ps)"
      "weakest_pair best ps = Inr (Some (canonicalSelection [cd_ID x, cd_ID y], m))"
      "key_auto m = pair_key x y" "\<forall>(u, v) \<in> insert (c, d) (set ps). pair_key x y \<le> pair_key u v"
      using Cons.IH [OF Cons.prems] by blast
    ultimately show ?thesis using False unfolding p by (intro bexI [of _ "(x, y)"]) (auto simp: not_less)
  qed
qed auto

lemma card_pairs_set: "set (card_pairs cs) = {(cs ! i, cs ! k) | i k. i < k \<and> k < length cs}"
  by (fastforce simp: card_pairs_def)

lemma autoSelect_two:
  assumes "distinct (pl_RemainingHand p)" and "\<forall>i \<in> set (pl_RemainingHand p). known i" and "2 \<le> length (pl_RemainingHand p)"
  shows "\<exists>i \<in> set (pl_RemainingHand p). \<exists>k \<in> set (pl_RemainingHand p). i \<noteq> k \<and> autoSelect p 2 = Inr (canonicalSelection [i, k]) \<and>
    (\<forall>u \<in> set (pl_RemainingHand p). \<forall>v \<in> set (pl_RemainingHand p). u \<noteq> v \<longrightarrow>
       pair_key (card_of i) (card_of k) \<le> pair_key (card_of u) (card_of v))"
proof -
  let ?h = "pl_RemainingHand p" and ?cs = "cardsFromIDs (pl_RemainingHand p)"
  have at: "n < length ?h \<Longrightarrow> ?cs ! n = card_of (?h ! n)" for n by (simp add: cardsFromIDs_def)
  have "(?cs ! 0, ?cs ! 1) \<in> set (card_pairs ?cs)" unfolding card_pairs_set using assms(3) by (force simp: cardsFromIDs_def)
  then obtain c d ps where ps: "card_pairs ?cs = (c, d) # ps" by (cases "card_pairs ?cs") auto
  obtain l where l: "buildRoundTwoAutoKey [c, d] = Inr l" "key_auto l = pair_key c d" using buildRoundTwoAutoKey_eq by blast
  from weakest_pair_min [OF refl l(2), of ps] obtain x y m where xy: "(x, y) \<in> set (card_pairs ?cs)"
    "weakest_pair None (card_pairs ?cs) = Inr (Some (canonicalSelection [cd_ID x, cd_ID y], m))"
    "\<forall>(u, v) \<in> set (card_pairs ?cs). pair_key x y \<le> pair_key u v"
    using l(1) by (auto simp: ps Let_def)
  from xy(1) obtain i k where ik: "i < k" "k < length ?h" "x = card_of (?h ! i)" "y = card_of (?h ! k)"
    unfolding card_pairs_set using at by (auto simp: cardsFromIDs_def)
  then have ids: "cd_ID x = ?h ! i" "cd_ID y = ?h ! k" using known_card assms(2) by auto
  have "pair_key x y \<le> pair_key (card_of u) (card_of v)" if uv: "u \<in> set ?h" "v \<in> set ?h" "u \<noteq> v" for u v
  proof -
    from uv obtain a b where ab: "a < length ?h" "b < length ?h" "u = ?h ! a" "v = ?h ! b" by (metis in_set_conv_nth)
    with uv(3) consider "a < b" | "b < a" by fastforce
    then have "(card_of u, card_of v) \<in> set (card_pairs ?cs) \<or> (card_of v, card_of u) \<in> set (card_pairs ?cs)"
    proof cases
      case 1
      then show ?thesis unfolding card_pairs_set using ab at
        by (intro disjI1 CollectI exI [of _ a] exI [of _ b]) (simp add: cardsFromIDs_def)
    next
      case 2
      then show ?thesis unfolding card_pairs_set using ab at
        by (intro disjI2 CollectI exI [of _ b] exI [of _ a]) (simp add: cardsFromIDs_def)
    qed
    then show ?thesis using xy(3) by (elim disjE) (auto simp: pair_key_sym [of "card_of u"])
  qed
  moreover have "autoSelect p 2 = Inr (canonicalSelection [?h ! i, ?h ! k])" using xy(2) ids by (simp add: autoSelect_def)
  moreover have "?h ! i \<noteq> ?h ! k" using ik assms(1) by (simp add: nth_eq_iff_index_eq)
  ultimately show ?thesis using ik by (intro bexI [of _ "?h ! i"] bexI [of _ "?h ! k"]) auto
qed

end
