(* ===== verification/ThreeValid.thy ===== *)
theory ThreeValid
  imports ThreeHands
begin

text \<open>
  The validation of a snapshot of three rounds, read off as a predicate.
\<close>

section \<open>Validation as a predicate\<close>

definition cards_ok :: "PlayerState \<Rightarrow> bool" where
  "cards_ok p \<longleftrightarrow> length (pl_InitialHand p) = 6 \<and> distinct (pl_InitialHand p) \<and> (\<forall>i \<in> set (pl_InitialHand p). known i) \<and>
     length (current_cards p) = 6 \<and> distinct (current_cards p) \<and> (\<forall>i \<in> set (current_cards p). known i) \<and>
     (ps_Round (pl_PendingSelection p) \<noteq> 0 \<longrightarrow> set (chosen p) \<subseteq> set (pl_RemainingHand p))"

abbreviation selecting :: "Phase \<Rightarrow> bool" where
  "selecting phase \<equiv> phase = PhaseRoundOneSelecting \<or> phase = PhaseRoundTwoSelecting"

definition player_ok :: "Phase \<Rightarrow> u32 \<Rightarrow> PlayerState \<Rightarrow> bool" where
  "player_ok phase round p \<longleftrightarrow> pl_UserID p \<noteq> [] \<and> cards_ok p \<and>
     pl_TotalPoints p = pl_RoundOnePoints p + pl_RoundTwoPoints p + pl_RoundThreePoints p \<and>
     (ps_Round (pl_PendingSelection p) \<noteq> 0 \<longrightarrow> selecting phase \<and> ps_Round (pl_PendingSelection p) = round)"

lemma validate_initial_iff:
  "validate_initial seen cs = Inr seen' \<longleftrightarrow>
     distinct cs \<and> set cs \<inter> seen = {} \<and> (\<forall>i \<in> set cs. known i) \<and> seen' = seen \<union> set cs"
  by (induction seen cs rule: validate_initial.induct) (auto simp: outcome ParseCardID_None)

lemma validate_current_iff:
  "validate_current seen cs = Inr () \<longleftrightarrow> distinct cs \<and> set cs \<inter> seen = {} \<and> (\<forall>i \<in> set cs. known i)"
  by (induction seen cs rule: validate_current.induct) (auto simp: outcome ParseCardID_None)

lemma validate_pending_iff:
  "validate_pending remaining cs = Inr () \<longleftrightarrow> (\<forall>i \<in> set cs. known i) \<and> set cs \<subseteq> set remaining"
  by (induction remaining cs rule: validate_pending.induct) (auto simp: outcome ParseCardID_None)

lemma validatePlayerCards_iff:
  "validatePlayerCards p seen = Inr seen' \<longleftrightarrow>
     cards_ok p \<and> set (pl_InitialHand p) \<inter> seen = {} \<and> seen' = seen \<union> set (pl_InitialHand p)"
proof -
  have "set (pl_RemainingHand p) \<subseteq> set (current_cards p)" by (auto simp: current_cards_def)
  then have "(if ps_Round (pl_PendingSelection p) \<noteq> 0 then validate_pending (pl_RemainingHand p) (chosen p) else Inr ()) = Inr () \<longleftrightarrow>
      (ps_Round (pl_PendingSelection p) \<noteq> 0 \<longrightarrow> set (chosen p) \<subseteq> set (pl_RemainingHand p))"
    if "\<forall>i \<in> set (current_cards p). known i" using that by (auto simp: validate_pending_iff)
  then show ?thesis
    unfolding validatePlayerCards_def cards_ok_def
    by (auto simp: outcome validate_initial_iff validate_current_iff)
qed

lemma validate_players_inv:
  "validate_players s previous users seats cardSeen host ps = Inr h \<longleftrightarrow>
     (\<forall>p \<in> set ps. player_ok (st_Phase s) (st_CurrentRound s) p \<and> pl_UserID p \<notin> users \<and> pl_SeatIndex p \<notin> seats \<and>
        set (pl_InitialHand p) \<inter> cardSeen = {}) \<and>
     distinct (map pl_UserID ps) \<and> sorted_wrt (<) ((case previous of None \<Rightarrow> [] | Some seat \<Rightarrow> [seat]) @ map pl_SeatIndex ps) \<and>
     distinct (concat (map pl_InitialHand ps)) \<and> h = (host \<or> (\<exists>p \<in> set ps. pl_UserID p = st_HostUserID s))"
proof (induction ps arbitrary: previous users seats cardSeen host)
  case (Cons p ps)
  have step: "validate_players s previous users seats cardSeen host (p # ps) = Inr h \<longleftrightarrow>
      player_ok (st_Phase s) (st_CurrentRound s) p \<and> (\<forall>seat. previous = Some seat \<longrightarrow> seat < pl_SeatIndex p) \<and>
      pl_UserID p \<notin> users \<and> pl_SeatIndex p \<notin> seats \<and> set (pl_InitialHand p) \<inter> cardSeen = {} \<and>
      validate_players s (Some (pl_SeatIndex p)) (insert (pl_UserID p) users) (insert (pl_SeatIndex p) seats)
        (cardSeen \<union> set (pl_InitialHand p)) (host \<or> pl_UserID p = st_HostUserID s) ps = Inr h"
    by (cases previous) (auto simp: outcome validatePlayerCards_iff player_ok_def not_le)
  have d: "player_ok (st_Phase s) (st_CurrentRound s) p \<Longrightarrow> distinct (pl_InitialHand p)" by (simp add: player_ok_def cards_ok_def)
  let ?pre = "case previous of None \<Rightarrow> [] | Some seat \<Rightarrow> [seat]"
  have e1: "distinct (map pl_UserID (p # ps)) \<longleftrightarrow> (\<forall>q \<in> set ps. pl_UserID q \<noteq> pl_UserID p) \<and> distinct (map pl_UserID ps)" by (auto simp: image_iff)
  have e2: "sorted_wrt (<) (?pre @ map pl_SeatIndex (p # ps)) \<longleftrightarrow>
      (\<forall>seat. previous = Some seat \<longrightarrow> seat < pl_SeatIndex p) \<and> sorted_wrt (<) (pl_SeatIndex p # map pl_SeatIndex ps)"
    by (cases previous) (auto intro: less_trans)
  have e3: "sorted_wrt (<) (pl_SeatIndex p # map pl_SeatIndex ps) \<Longrightarrow> \<forall>q \<in> set ps. pl_SeatIndex q \<noteq> pl_SeatIndex p" by auto
  have e4: "distinct (concat (map pl_InitialHand (p # ps))) \<longleftrightarrow> distinct (pl_InitialHand p) \<and> distinct (concat (map pl_InitialHand ps)) \<and>
      (\<forall>q \<in> set ps. set (pl_InitialHand q) \<inter> set (pl_InitialHand p) = {})" by auto
  show ?case unfolding step Cons.IH e1 e2 e4 using d e3 by (simp add: ball_conj_distrib Int_Un_distrib) blast
qed (auto split: option.splits)

definition roster :: "string \<Rightarrow> PlayerState list \<Rightarrow> bool" where
  "roster host ps \<longleftrightarrow> distinct (map pl_UserID ps) \<and> sorted_wrt (<) (map pl_SeatIndex ps) \<and>
     distinct (concat (map pl_InitialHand ps)) \<and> (\<exists>p \<in> set ps. pl_UserID p = host)"

definition timing_ok :: "State \<Rightarrow> bool" where
  "timing_ok s \<longleftrightarrow> (if st_Phase s = PhaseFinished then st_PhaseDeadlineUnixMillis s = 0
     else st_PhaseGeneration s \<noteq> 0 \<and> (phaseRequiresDeadline (st_Phase s) \<and> selectionDeadlineEnabled (st_Phase s) (st_Config s) \<longrightarrow>
       0 < st_PhaseDeadlineUnixMillis s))"

definition history_ok :: "RoundSummary list \<Rightarrow> bool" where
  "history_ok rounds \<longleftrightarrow> length rounds \<le> 3 \<and> sorted_wrt (<) (0 # map rs_Round rounds) \<and> (\<forall>r \<in> set rounds. rs_Round r \<le> 3)"

lemma validate_rounds_iff:
  "validate_rounds prev rounds = Inr () \<longleftrightarrow> sorted_wrt (<) (prev # map rs_Round rounds) \<and> (\<forall>r \<in> set rounds. rs_Round r \<le> 3)"
  by (induction prev rounds rule: validate_rounds.induct) (auto simp: outcome not_le not_less intro: less_trans)

definition tr_valid :: "State \<Rightarrow> bool" where
  "tr_valid s \<longleftrightarrow> Validate s = Inr ()"

lemma ex_unit: "(\<exists>x :: unit. P x) \<longleftrightarrow> P ()"
  by (metis old.unit.exhaust)

lemma tr_valid_iff:
  "tr_valid s \<longleftrightarrow> st_SchemaVersion s = CurrentSchemaVersion \<and> st_CurrentRound s \<noteq> 0 \<and>
     Config_Validate (st_Config s) (length (st_Players s)) = Inr () \<and> st_Phase s \<noteq> PhaseUnset \<and>
     roster (st_HostUserID s) (st_Players s) \<and> (\<forall>p \<in> set (st_Players s). player_ok (st_Phase s) (st_CurrentRound s) p) \<and>
     (validFinishReason (st_FinishReason s) \<or> st_FinishReason s = []) \<and> timing_ok s \<and> history_ok (st_RoundHistory s)"
proof -
  have cfg: "Config_Validate (st_Config s) n = Inr () \<Longrightarrow> \<not> n < MinimumPlayers \<and> \<not> n > MaximumPlayers" for n
    by (auto simp: Config_Validate_def outcome)
  have r: "validate_players s None {} {} {} False (st_Players s) = Inr h \<longleftrightarrow>
      (\<forall>p \<in> set (st_Players s). player_ok (st_Phase s) (st_CurrentRound s) p) \<and> distinct (map pl_UserID (st_Players s)) \<and>
      sorted_wrt (<) (map pl_SeatIndex (st_Players s)) \<and> distinct (concat (map pl_InitialHand (st_Players s))) \<and>
      h = (\<exists>p \<in> set (st_Players s). pl_UserID p = st_HostUserID s)" for h
    by (simp add: validate_players_inv)
  have t: "(if st_Phase s = PhaseFinished then
              (if st_PhaseDeadlineUnixMillis s \<noteq> 0 then ruleError CodeInvalidState a else Inr ())
            else if st_PhaseGeneration s = 0 then ruleError CodeInvalidState b
            else if st_Phase s \<noteq> PhaseDealing \<and> phaseRequiresDeadline (st_Phase s) \<and> st_PhaseDeadlineUnixMillis s \<le> 0 \<and>
                    selectionDeadlineEnabled (st_Phase s) (st_Config s)
            then ruleError CodeInvalidState c else Inr ()) = Inr () \<longleftrightarrow> timing_ok s" for a b c
    by (auto simp: timing_ok_def phaseRequiresDeadline_def)
  have h: "\<not> RoundHistoryLimit < length (st_RoundHistory s) \<and> validate_rounds 0 (st_RoundHistory s) = Inr () \<longleftrightarrow> history_ok (st_RoundHistory s)"
    by (auto simp: history_ok_def RoundHistoryLimit_def validate_rounds_iff)
  show ?thesis
    unfolding tr_valid_def Validate_def
    by (simp only: and_then_eq_Inr guard_eq_Inr r t h roster_def ex_unit ex_simps simp_thms not_not de_Morgan_disj de_Morgan_conj cong: conj_cong) (use cfg in blast)
qed

end
