(* ===== verification/ThreeInv.thy ===== *)
theory ThreeInv
  imports ThreeValid
begin

text \<open>
  The invariant of sessions of three rounds, beyond what validation checks: each phase has its round, its generation, its history and
  its piles; the cards of a player stay those that were dealt; a selection is complete; a round won is a point.
\<close>

section \<open>The invariant\<close>

fun phase_no :: "Phase \<Rightarrow> nat" where
  "phase_no PhaseRoundOneSelecting = 1"
| "phase_no PhaseRoundOneResult = 2"
| "phase_no PhaseRoundTwoSelecting = 3"
| "phase_no PhaseRoundTwoResult = 4"
| "phase_no PhaseRoundThreeResult = 5"
| "phase_no PhaseFinalResult = 6"
| "phase_no PhaseFinished = 7"
| "phase_no _ = 0"

definition round_of :: "Phase \<Rightarrow> u32" where
  "round_of phase = (if phase_no phase \<le> 2 then 1 else if phase_no phase \<le> 4 then 2 else 3)"

definition rounds_of :: "Phase \<Rightarrow> u32 list" where
  "rounds_of phase = (if phase_no phase \<le> 1 then [] else if phase_no phase \<le> 3 then [1] else if phase_no phase = 4 then [1, 2] else [1, 2, 3])"

text \<open>The cards that an active player has played by the given phase.\<close>

definition played :: "Phase \<Rightarrow> nat \<times> nat \<times> nat" where
  "played phase = (if phase_no phase \<le> 1 then (0, 0, 0) else if phase_no phase \<le> 3 then (1, 0, 0)
     else if phase_no phase = 4 then (1, 2, 0) else (1, 2, 3))"

definition piles :: "PlayerState \<Rightarrow> nat \<times> nat \<times> nat" where
  "piles p = (length (pl_RoundOneCards p), length (pl_RoundTwoCards p), length (pl_RoundThreeCards p))"

text \<open>What the players keep beyond validation: the cards that were dealt, the piles, a complete selection, and a point per round won.\<close>

definition sound :: "Phase \<Rightarrow> PlayerState \<Rightarrow> bool" where
  "sound phase p \<longleftrightarrow> mset (current_cards p) = mset (pl_InitialHand p) \<and>
     (pl_Active p \<and> phase \<noteq> PhaseFinished \<longrightarrow> piles p = played phase) \<and>
     (if ps_Round (pl_PendingSelection p) = 0 then pl_PendingSelection p = no_selection
      else pl_Active p \<and> distinct (chosen p) \<and> length (chosen p) = (if ps_Round (pl_PendingSelection p) = 2 then 2 else 1)) \<and>
     pl_RoundOnePoints p = of_bool (pl_WonRoundOne p) \<and> pl_RoundTwoPoints p = of_bool (pl_WonRoundTwo p) \<and>
     pl_RoundThreePoints p = of_bool (pl_WonRoundThree p) \<and>
     (pl_WonRoundOne p \<longrightarrow> 2 \<le> phase_no phase) \<and> (pl_WonRoundTwo p \<longrightarrow> 4 \<le> phase_no phase) \<and>
     (pl_WonRoundThree p \<longrightarrow> 5 \<le> phase_no phase)"

definition running :: "State \<Rightarrow> bool" where
  "running s \<longleftrightarrow> 0 < phase_no (st_Phase s) \<and> (st_Phase s \<noteq> PhaseFinished \<longrightarrow>
     st_PhaseGeneration s = of_nat (phase_no (st_Phase s)) \<and> st_CurrentRound s = round_of (st_Phase s) \<and>
     map rs_Round (st_RoundHistory s) = rounds_of (st_Phase s) \<and> st_FinishReason s = [] \<and> 2 \<le> activeCount (st_Players s))"

definition tr_inv :: "State \<Rightarrow> bool" where
  "tr_inv s \<longleftrightarrow> tr_valid s \<and> running s \<and> (\<forall>p \<in> set (st_Players s). sound (st_Phase s) p)"

text \<open>Who plays, in which seat, and the hands that were dealt.\<close>

definition dealt :: "State \<Rightarrow> (string \<times> u32 \<times> CardID list) list" where
  "dealt s = zip (map pl_UserID (st_Players s)) (zip (map pl_SeatIndex (st_Players s)) (map pl_InitialHand (st_Players s)))"

section \<open>The decorations of the final result\<close>

definition core :: "PlayerState \<Rightarrow> PlayerState" where
  "core p = p\<lparr>pl_FinalWinner := False, pl_FinalRank := 0\<rparr>"

lemma core_simps [simp]: "core (core p) = core p" "pl_UserID (core p) = pl_UserID p" "pl_SeatIndex (core p) = pl_SeatIndex p"
  "pl_InitialHand (core p) = pl_InitialHand p" "pl_Active (core p) = pl_Active p"
  "core (p\<lparr>pl_FinalWinner := w, pl_FinalRank := r\<rparr>) = core p"
  "sound phase (core p) = sound phase p" "player_ok phase round (core p) = player_ok phase round p"
  by (simp_all add: core_def sound_def player_ok_def cards_ok_def current_cards_def piles_def)

lemma clearFinalDecorations_core: "clearFinalDecorations ps = map core ps"
  by (simp add: clearFinalDecorations_def core_def)

lemma decorate_core: "map core (decorate ps standings) = map core ps"
proof (induction ps standings rule: decorate.induct)
  case (2 ps standing rest)
  show ?case
  proof (cases "playerIndex ps (fs_UserID standing)")
    case (Some i)
    then have "map core (ps[i := (ps ! i)\<lparr>pl_FinalWinner := fs_Winner standing, pl_FinalRank := fs_Rank standing\<rparr>]) = map core ps"
      by (intro map_update_eq) simp
    with Some 2 show ?thesis by simp
  qed (use 2 in simp)
qed simp

lemma recomputeFinalDecorations_core: "map core (st_Players (recomputeFinalDecorations s)) = map core (st_Players s)"
  by (simp add: recomputeFinalDecorations_def decorate_core clearFinalDecorations_core comp_def)

text \<open>Everything the invariant says of the players, it says of their cores.\<close>

lemma core_maps:
  assumes "map core ps = map core qs"
  shows "map pl_UserID ps = map pl_UserID qs" and "map pl_SeatIndex ps = map pl_SeatIndex qs"
    and "map pl_InitialHand ps = map pl_InitialHand qs" and "map pl_Active ps = map pl_Active qs"
    and "(\<forall>p \<in> set ps. sound ph p) = (\<forall>p \<in> set qs. sound ph p)"
    and "(\<forall>p \<in> set ps. player_ok ph r p) = (\<forall>p \<in> set qs. player_ok ph r p)" and "length ps = length qs"
proof -
  have f: "map f ps = map f qs" if "\<And>p. f (core p) = f p" for f :: "PlayerState \<Rightarrow> 'b"
    using arg_cong [OF assms, of "map f"] that by (simp add: comp_def)
  show "map pl_UserID ps = map pl_UserID qs" "map pl_SeatIndex ps = map pl_SeatIndex qs"
    "map pl_InitialHand ps = map pl_InitialHand qs" "map pl_Active ps = map pl_Active qs" by (rule f; simp)+
  have "map (sound ph) ps = map (sound ph) qs" by (rule f) simp
  then show "(\<forall>p \<in> set ps. sound ph p) = (\<forall>p \<in> set qs. sound ph p)" by (metis (no_types) image_iff list.set_map)
  have "map (player_ok ph r) ps = map (player_ok ph r) qs" by (rule f) simp
  then show "(\<forall>p \<in> set ps. player_ok ph r p) = (\<forall>p \<in> set qs. player_ok ph r p)" by (metis (no_types) image_iff list.set_map)
  show "length ps = length qs" using assms by (metis length_map)
qed

lemma roster_maps:
  assumes "map pl_UserID ps = map pl_UserID qs" and "map pl_SeatIndex ps = map pl_SeatIndex qs" and "map pl_InitialHand ps = map pl_InitialHand qs"
  shows "roster host ps = roster host qs"
proof -
  have "pl_UserID ` set ps = pl_UserID ` set qs" using assms(1) by (metis list.set_map)
  then have "(\<exists>p \<in> set ps. pl_UserID p = host) = (\<exists>p \<in> set qs. pl_UserID p = host)" by (metis (no_types) image_iff)
  with assms show ?thesis by (simp add: roster_def)
qed

lemma activeCount_maps: "map pl_Active ps = map pl_Active qs \<Longrightarrow> activeCount ps = activeCount qs"
proof -
  assume "map pl_Active ps = map pl_Active qs"
  then have "length (filter id (map pl_Active ps)) = length (filter id (map pl_Active qs))" by simp
  then show ?thesis by (simp add: tr.count_filter filter_map comp_def)
qed

text \<open>A state that differs from a valid one in what the phase changes is valid, if the players are.\<close>

lemma tr_valid_next:
  assumes "tr_valid s" and "roster (st_HostUserID s) ps" and "length ps = length (st_Players s)"
    and "\<forall>p \<in> set ps. player_ok ph r p" and "ph \<noteq> PhaseUnset" and "r \<noteq> 0"
    and "st_Phase t = ph" and "st_CurrentRound t = r" and "st_Players t = ps"
    and "st_SchemaVersion t = st_SchemaVersion s" and "st_Config t = st_Config s" and "st_HostUserID t = st_HostUserID s"
    and "validFinishReason (st_FinishReason t) \<or> st_FinishReason t = []" and "timing_ok t" and "history_ok (st_RoundHistory t)"
  shows "tr_valid t"
  using assms by (simp add: tr_valid_iff)

lemma player_ok_moved:
  assumes "player_ok ph r p" and "pl_UserID q = pl_UserID p" and "pl_InitialHand q = pl_InitialHand p"
    and "mset (current_cards q) = mset (current_cards p)" and "pl_PendingSelection q = no_selection"
    and "pl_TotalPoints q = pl_RoundOnePoints q + pl_RoundTwoPoints q + pl_RoundThreePoints q"
  shows "player_ok ph' r' q"
proof -
  have "length (current_cards q) = length (current_cards p)" "distinct (current_cards q) = distinct (current_cards p)"
    "set (current_cards q) = set (current_cards p)"
    using assms(4) by (auto dest: mset_eq_length mset_eq_imp_distinct_iff mset_eq_setD)
  with assms show ?thesis by (simp add: player_ok_def cards_ok_def no_selection_def)
qed

lemma removeCards_mset: "mset (removeCards remaining sel) = mset remaining - mset sel"
  by (induction remaining sel rule: removeCards.induct) simp_all

lemma removeCards_partition:
  assumes "distinct sel" and "set sel \<subseteq> set remaining"
  shows "mset (removeCards remaining sel) + mset sel = mset remaining"
proof -
  have "mset sel \<subseteq># mset remaining" using assms
    by (metis distinct_remdups mset_set_set subset_imp_msubset_mset_set mset_set_set List.finite_set
       mset_remdups_subset_eq set_remdups subset_mset.order_trans remdups_id_iff_distinct)
  then show ?thesis by (simp add: removeCards_mset)
qed

section \<open>Closing a round\<close>

definition closed :: "(PlayerState \<Rightarrow> PlayerState) \<Rightarrow> string list \<Rightarrow> (PlayerState \<Rightarrow> PlayerState) \<Rightarrow> PlayerState \<Rightarrow> PlayerState" where
  "closed win winners after p = (let q = (if pl_UserID p \<in> set winners then win (after p) else after p) in
     q\<lparr>pl_TotalPoints := pl_RoundOnePoints q + pl_RoundTwoPoints q + pl_RoundThreePoints q\<rparr>)"

lemmas closing = closed_def Let_def win_one_def win_two_def win_three_def after_one_def after_two_def after_three_def

lemma closed_kept:
  "win = win_one \<and> after = after_one \<or> win = win_two \<and> after = after_two \<or> win = win_three \<and> after = after_three \<Longrightarrow>
     pl_UserID (closed win W after p) = pl_UserID p \<and> pl_SeatIndex (closed win W after p) = pl_SeatIndex p \<and>
     pl_InitialHand (closed win W after p) = pl_InitialHand p \<and> pl_Active (closed win W after p) = pl_Active p"
  by (auto simp: closing split: if_splits)

lemma current_mset: "mset (current_cards p) = mset (pl_RemainingHand p) + mset (pl_RoundOneCards p) + mset (pl_RoundTwoCards p) + mset (pl_RoundThreeCards p)"
  by (simp add: current_cards_def)

lemma sound_pending:
  assumes "sound ph p" and "ps_Round (pl_PendingSelection p) \<noteq> 0"
  shows "pl_Active p \<and> distinct (chosen p) \<and> length (chosen p) = (if ps_Round (pl_PendingSelection p) = 2 then 2 else 1)"
  using assms(1) unfolding sound_def if_not_P [OF assms(2)] by blast

lemma player_ok_pending:
  "player_ok ph r p \<Longrightarrow> ps_Round (pl_PendingSelection p) \<noteq> 0 \<Longrightarrow> set (chosen p) \<subseteq> set (pl_RemainingHand p)"
  unfolding player_ok_def cards_ok_def by blast

lemma submitted_cards:
  assumes "sound ph p" and "player_ok ph r p" and "plays r p" and "r \<noteq> 0"
  shows "distinct (chosen p)" and "set (chosen p) \<subseteq> set (pl_RemainingHand p)" and "length (chosen p) = (if r = 2 then 2 else 1)"
    and "mset (removeCards (pl_RemainingHand p) (chosen p)) + mset (chosen p) = mset (pl_RemainingHand p)"
proof -
  have r: "ps_Round (pl_PendingSelection p) = r" using assms(3) by (simp add: plays_def)
  then show d: "distinct (chosen p)" "set (chosen p) \<subseteq> set (pl_RemainingHand p)" "length (chosen p) = (if r = 2 then 2 else 1)"
    using sound_pending [OF assms(1)] player_ok_pending [OF assms(2)] assms(4) by metis+
  show "mset (removeCards (pl_RemainingHand p) (chosen p)) + mset (chosen p) = mset (pl_RemainingHand p)"
    using removeCards_partition [OF d(1,2)] .
qed

lemma idle_no_selection:
  assumes "sound ph p" and "\<not> pl_Active p"
  shows "pl_PendingSelection p = no_selection"
  using assms by (auto simp: sound_def split: if_splits)

lemma closed_one:
  assumes s: "sound PhaseRoundOneSelecting p" and ok: "player_ok PhaseRoundOneSelecting 1 p"
    and a: "pl_Active p \<longrightarrow> plays 1 p" and w: "pl_UserID p \<in> set W \<longrightarrow> plays 1 p"
  shows "sound PhaseRoundOneResult (closed win_one W after_one p)" and "player_ok ph r (closed win_one W after_one p)"
proof -
  have m: "mset (current_cards (closed win_one W after_one p)) = mset (current_cards p)"
  proof (cases "plays 1 p")
    case True
    then have "pl_RoundOneCards p = []" using s by (auto simp: sound_def plays_def piles_def played_def)
    with True submitted_cards(4) [OF s ok True] show ?thesis by (simp add: current_mset closing)
  qed (simp add: current_mset closing)
  have "pl_PendingSelection (closed win_one W after_one p) = no_selection" by (simp add: closing)
  with m show "player_ok ph r (closed win_one W after_one p)"
    by (intro player_ok_moved [OF ok]) (auto simp: closing)
  show "sound PhaseRoundOneResult (closed win_one W after_one p)"
  proof (cases "plays 1 p")
    case True
    then show ?thesis using s m submitted_cards(3) [OF s ok True]
      by (auto simp: sound_def closing piles_def played_def no_selection_def plays_def split: if_splits)
  next
    case False
    then show ?thesis using s m a w by (auto simp: sound_def closing piles_def played_def no_selection_def plays_def split: if_splits)
  qed
qed

lemma closed_two:
  assumes s: "sound PhaseRoundTwoSelecting p" and ok: "player_ok PhaseRoundTwoSelecting 2 p"
    and a: "pl_Active p \<longrightarrow> plays 2 p" and w: "pl_UserID p \<in> set W \<longrightarrow> plays 2 p"
  shows "sound PhaseRoundTwoResult (closed win_two W after_two p)" and "player_ok ph r (closed win_two W after_two p)"
proof -
  have m: "mset (current_cards (closed win_two W after_two p)) = mset (current_cards p)"
  proof (cases "plays 2 p")
    case True
    then have "pl_RoundTwoCards p = []" using s by (auto simp: sound_def plays_def piles_def played_def)
    with True submitted_cards(4) [OF s ok True] show ?thesis by (simp add: current_mset closing)
  qed (simp add: current_mset closing)
  have "pl_PendingSelection (closed win_two W after_two p) = no_selection" by (simp add: closing)
  with m show "player_ok ph r (closed win_two W after_two p)"
    by (intro player_ok_moved [OF ok]) (auto simp: closing)
  show "sound PhaseRoundTwoResult (closed win_two W after_two p)"
  proof (cases "plays 2 p")
    case True
    then show ?thesis using s m submitted_cards(3) [OF s ok True]
      by (auto simp: sound_def closing piles_def played_def no_selection_def plays_def split: if_splits)
  next
    case False
    then show ?thesis using s m a w by (auto simp: sound_def closing piles_def played_def no_selection_def plays_def split: if_splits)
  qed
qed

lemma closed_three:
  assumes s: "sound PhaseRoundTwoResult p" and ok: "player_ok PhaseRoundTwoResult 2 p" and w: "pl_UserID p \<in> set W \<longrightarrow> pl_Active p"
  shows "sound PhaseRoundThreeResult (closed win_three W after_three p)" and "player_ok ph r (closed win_three W after_three p)"
proof -
  have m: "mset (current_cards (closed win_three W after_three p)) = mset (current_cards p)"
  proof (cases "pl_Active p")
    case True
    then have "pl_RoundThreeCards p = []" using s by (auto simp: sound_def piles_def played_def)
    with True show ?thesis by (simp add: current_mset closing)
  qed (simp add: current_mset closing)
  have pend: "pl_PendingSelection p = no_selection" using s ok by (auto simp: sound_def player_ok_def split: if_splits)
  with m show "player_ok ph r (closed win_three W after_three p)"
    by (intro player_ok_moved [OF ok]) (auto simp: closing)
  have "length (pl_RemainingHand p) = 3" if "pl_Active p"
    using s ok that by (auto simp: sound_def player_ok_def cards_ok_def piles_def played_def current_cards_def)
  then show "sound PhaseRoundThreeResult (closed win_three W after_three p)"
    using s m w pend by (auto simp: sound_def closing piles_def played_def no_selection_def)
qed

context ranked begin

lemma tally_winners:
  "set (fst (tally compare (map (\<lambda>p. (u p, c p)) xs) ([], None))) =
     u ` {p \<in> set xs. \<forall>q \<in> set xs. key (c q) \<le> key (c p)}"
proof (cases "xs = []")
  case False
  then obtain best where "tally compare (map (\<lambda>p. (u p, c p)) xs) ([], None) = (map fst (bests (map (\<lambda>p. (u p, c p)) xs)), Some best)"
    using tally_bests [of "map (\<lambda>p. (u p, c p)) xs"] by auto
  then show ?thesis by (force simp: bests_def)
qed simp

lemma tally_distinct: "distinct (map u xs) \<Longrightarrow> distinct (fst (tally compare (map (\<lambda>p. (u p, c p)) xs) ([], None)))"
proof (cases "xs = []")
  case False
  assume d: "distinct (map u xs)"
  from False obtain best where t: "tally compare (map (\<lambda>p. (u p, c p)) xs) ([], None) = (map fst (bests (map (\<lambda>p. (u p, c p)) xs)), Some best)"
    using tally_bests [of "map (\<lambda>p. (u p, c p)) xs"] by auto
  have "distinct (map fst (map (\<lambda>p. (u p, c p)) xs))" using d by (simp add: comp_def)
  then show ?thesis unfolding t by (simp add: bests_def distinct_map_filter)
qed simp

lemma tally_some_winner: "xs \<noteq> [] \<Longrightarrow> fst (tally compare (map (\<lambda>p. (u p, c p)) xs) ([], None)) \<noteq> []"
proof -
  assume "xs \<noteq> []"
  then have "finite ((\<lambda>p. key (c p)) ` set xs)" "(\<lambda>p. key (c p)) ` set xs \<noteq> {}" by auto
  then obtain p where "p \<in> set xs" "\<forall>q \<in> set xs. key (c q) \<le> key (c p)"
    using Max_in [of "(\<lambda>p. key (c p)) ` set xs"] Max_ge [of "(\<lambda>p. key (c p)) ` set xs"] by fastforce
  then have "u p \<in> set (fst (tally compare (map (\<lambda>p. (u p, c p)) xs) ([], None)))" unfolding tally_winners by blast
  then show ?thesis by auto
qed

end

lemma deadline_pos:
  assumes "deadlineForPhase now ph cfg = Inr d" and "Config_Validate cfg n = Inr ()"
    and "phaseRequiresDeadline ph" and "selectionDeadlineEnabled ph cfg"
  shows "0 < d"
proof -
  have "addDeadline now secs = Inr d \<Longrightarrow> secs \<noteq> 0 \<Longrightarrow> 0 < d" for secs
    using uint_ge_0 [of secs] by (auto simp: addDeadline_def outcome Let_def validUnixMillis_def add_pos_nonneg split: if_splits)
  moreover have "cf_RoundResultSeconds cfg \<noteq> 0" "cf_FinalResultSeconds cfg \<noteq> 0"
    using assms(2) by (auto simp: Config_Validate_def outcome)
  ultimately show ?thesis using assms(1,3,4)
    by (auto simp: deadlineForPhase_def phaseRequiresDeadline_def selectionDeadlineEnabled_def split: Phase.splits)
qed

lemma timing_next:
  assumes "deadlineForPhase now (st_Phase t) (st_Config t) = Inr (st_PhaseDeadlineUnixMillis t)"
    and "Config_Validate (st_Config t) n = Inr ()" and "st_Phase t \<noteq> PhaseFinished" and "st_PhaseGeneration t \<noteq> 0"
  shows "timing_ok t"
  using deadline_pos [OF assms(1,2)] assms(3,4) by (simp add: timing_ok_def)

lemma history_of_rounds: "map rs_Round h = rounds_of ph \<Longrightarrow> history_ok h"
proof -
  assume h: "map rs_Round h = rounds_of ph"
  then have "length h \<le> 3" by (metis length_map rounds_of_def le_refl list.size(3) zero_le One_nat_def length_Cons numeral_3_eq_3 Suc_le_mono)
  moreover have "\<forall>x \<in> set (rounds_of ph). x \<le> 3" by (simp add: rounds_of_def)
  then have "\<forall>r \<in> set h. rs_Round r \<le> 3" unfolding h [symmetric] by simp
  ultimately show ?thesis using h by (auto simp: history_ok_def rounds_of_def split: if_splits)
qed

lemma inv_next:
  assumes "tr_inv s" and "map pl_UserID (st_Players t) = map pl_UserID (st_Players s)"
    and "map pl_SeatIndex (st_Players t) = map pl_SeatIndex (st_Players s)"
    and "map pl_InitialHand (st_Players t) = map pl_InitialHand (st_Players s)"
    and "map pl_Active (st_Players t) = map pl_Active (st_Players s)"
    and "\<forall>p \<in> set (st_Players t). player_ok (st_Phase t) (st_CurrentRound t) p \<and> sound (st_Phase t) p"
    and "st_Phase s \<noteq> PhaseFinished" and "0 < phase_no (st_Phase t)" and "st_Phase t \<noteq> PhaseFinished"
    and "st_SchemaVersion t = st_SchemaVersion s" and "st_Config t = st_Config s" and "st_HostUserID t = st_HostUserID s"
    and "st_FinishReason t = st_FinishReason s" and "st_PhaseGeneration t = of_nat (phase_no (st_Phase t))"
    and "st_CurrentRound t = round_of (st_Phase t)" and "map rs_Round (st_RoundHistory t) = rounds_of (st_Phase t)"
    and "deadlineForPhase now (st_Phase t) (st_Config t) = Inr (st_PhaseDeadlineUnixMillis t)"
  shows "tr_inv t"
proof -
  have v: "tr_valid s" and r: "running s" using assms(1) by (simp_all add: tr_inv_def)
  have l: "length (st_Players t) = length (st_Players s)" using assms(2) by (metis length_map)
  have g: "st_PhaseGeneration t \<noteq> 0" using assms(8,9,14) by (cases "st_Phase t") auto
  have cfg: "Config_Validate (st_Config t) (length (st_Players s)) = Inr ()" using v assms(11) by (simp add: tr_valid_iff)
  have un: "st_Phase t \<noteq> PhaseUnset" using assms(8) by auto
  have r0: "st_CurrentRound t \<noteq> 0" using assms(15) by (simp add: round_of_def)
  have fin: "st_FinishReason t = []" "2 \<le> activeCount (st_Players t)"
    using r assms(7,13) activeCount_maps [OF assms(5)] by (simp_all add: running_def)
  have ro: "roster (st_HostUserID s) (st_Players t)" using v roster_maps [OF assms(2,3,4)] by (simp add: tr_valid_iff)
  have "tr_valid t"
    using tr_valid_next [OF v ro l _ un r0 refl refl refl assms(10,11,12)] assms(6) fin(1)
      timing_next [OF assms(17) cfg assms(9) g] history_of_rounds [OF assms(16)] by blast
  then show ?thesis using assms fin by (simp add: tr_inv_def running_def)
qed

end
