(* ===== verification/ThreeSettle.thy ===== *)
theory ThreeSettle
  imports ThreeInv
begin

text \<open>
  The settlement of the three rounds in closed form: it fails only with its deadline, the winners are the players of the greatest
  strength, and the state after it satisfies the invariant.
\<close>

section \<open>Settling the rounds\<close>

abbreviation collect :: "('c \<Rightarrow> 'c \<Rightarrow> int) \<Rightarrow> (PlayerState \<Rightarrow> 'c) \<Rightarrow> PlayerState list \<Rightarrow> string list" where
  "collect compare comparison ps \<equiv> fst (tally compare (map (\<lambda>p. (pl_UserID p, comparison p)) ps) ([], None))"

definition winners_one :: "PlayerState list \<Rightarrow> string list" where
  "winners_one ps = collect compareRoundOne comparison_one (filter (plays 1) ps)"

definition winners_two :: "PlayerState list \<Rightarrow> string list" where
  "winners_two ps = collect compareRoundTwo evaluation_two (filter in_play ps)"

definition winners_three :: "PlayerState list \<Rightarrow> string list" where
  "winners_three ps = collect compareThirdResult (\<lambda>p. tr_Comparison (resolution p)) (filter pl_Active ps)"

text \<open>The summary of a round: who won, and what everybody who played has shown, with the points.\<close>

definition summary_of :: "u32 \<Rightarrow> bool \<Rightarrow> string list \<Rightarrow> PlayerReveal list \<Rightarrow> RoundSummary" where
  "summary_of round busted winners reveals = canonicalRoundSummary \<lparr>rs_Round = round, rs_WinnerUserIDs = winners,
     rs_Reveals = map (\<lambda>r. if rv_UserID r \<in> set winners then r\<lparr>rv_AwardedPoints := 1\<rparr> else r) reveals, rs_AllBusted = busted\<rparr>"

definition settled_one :: "State \<Rightarrow> i64 \<Rightarrow> State" where
  "settled_one s deadline = s\<lparr>st_Players := map (closed win_one (winners_one (st_Players s)) after_one) (st_Players s),
     st_RoundHistory := st_RoundHistory s @ [summary_of 1 False (winners_one (st_Players s)) (map reveal_one (filter (plays 1) (st_Players s)))],
     st_Phase := PhaseRoundOneResult, st_PhaseGeneration := st_PhaseGeneration s + 1, st_PhaseDeadlineUnixMillis := deadline\<rparr>"

definition settled_two :: "State \<Rightarrow> i64 \<Rightarrow> State" where
  "settled_two s deadline = s\<lparr>st_Players := map (closed win_two (winners_two (st_Players s)) after_two) (st_Players s),
     st_RoundHistory := st_RoundHistory s @ [summary_of 2 (\<forall>p \<in> set (st_Players s). \<not> in_play p) (winners_two (st_Players s))
       (map reveal_two (filter (plays 2) (st_Players s)))],
     st_Phase := PhaseRoundTwoResult, st_PhaseGeneration := st_PhaseGeneration s + 1, st_PhaseDeadlineUnixMillis := deadline\<rparr>"

definition settled_three :: "State \<Rightarrow> i64 \<Rightarrow> State" where
  "settled_three s deadline = s\<lparr>st_Players := map (core \<circ> closed win_three (winners_three (st_Players s)) after_three) (st_Players s),
     st_RoundHistory := st_RoundHistory s @ [summary_of 3 False (winners_three (st_Players s))
       (map reveal_three (filter pl_Active (st_Players s)))], st_FinalSummary := no_final,
     st_Phase := PhaseRoundThreeResult, st_CurrentRound := 3, st_PhaseGeneration := st_PhaseGeneration s + 1,
     st_PhaseDeadlineUnixMillis := deadline\<rparr>"

lemma round_summary_of [simp]: "rs_Round (summary_of r b w rs) = r"
  by (simp add: summary_of_def canonicalRoundSummary_def)

text \<open>The awards of a round, for the reveals of the players that take part.\<close>

lemma award_closed:
  assumes d: "distinct (map pl_UserID ps)" and u: "\<And>p. pl_UserID (win p) = pl_UserID p" "\<And>p. pl_UserID (after p) = pl_UserID p"
    and rv: "\<And>p. rv_UserID (reveal p) = pl_UserID p" and W: "set W \<subseteq> pl_UserID ` {p \<in> set ps. P p}"
  shows "\<exists>qs. award win W (map reveal (filter P ps)) (map after ps) = Inr
      (map (\<lambda>r. if rv_UserID r \<in> set W then r\<lparr>rv_AwardedPoints := 1\<rparr> else r) (map reveal (filter P ps)), qs) \<and>
      reapplyFinalTotals qs = map (closed win W after) ps"
proof -
  have m: "map pl_UserID (map after ps) = map pl_UserID ps" using u by simp
  have rm: "map rv_UserID (map reveal (filter P ps)) = map pl_UserID (filter P ps)" using rv by simp
  have rs: "rv_UserID ` set (map reveal (filter P ps)) = pl_UserID ` {p \<in> set ps. P p}"
    using arg_cong [OF rm, of set] by (simp only: set_map set_filter)
  have aw: "award win W (map reveal (filter P ps)) (map after ps) = Inr
      (map (\<lambda>r. if rv_UserID r \<in> set W then r\<lparr>rv_AwardedPoints := 1\<rparr> else r) (map reveal (filter P ps)),
       map (\<lambda>p. if pl_UserID p \<in> set W \<inter> rv_UserID ` set (map reveal (filter P ps)) then win p else p) (map after ps))"
  proof (rule award_eq)
    show "distinct (map rv_UserID (map reveal (filter P ps)))" unfolding rm using d by (simp add: distinct_map inj_on_def)
    show "distinct (map pl_UserID (map after ps))" unfolding m by (rule d)
    show "rv_UserID ` set (map reveal (filter P ps)) \<subseteq> pl_UserID ` set (map after ps)"
      unfolding rs using arg_cong [OF m, of set] by (auto simp only: set_map)
  qed (rule u)
  have "set W \<inter> rv_UserID ` set (map reveal (filter P ps)) = set W" unfolding rs using W by blast
  note aw = aw [unfolded this]
  have "reapplyFinalTotals (map (\<lambda>p. if pl_UserID p \<in> set W then win p else p) (map after ps)) = map (closed win W after) ps"
    by (simp add: reapplyFinalTotals_def closed_def u comp_def Let_def)
  with aw show ?thesis by blast
qed

lemma submitted_plays:
  assumes "tr_inv s" and "allActivePlayersSubmitted s" and "p \<in> set (st_Players s)" and "st_Phase s \<noteq> PhaseFinished"
  shows "pl_Active p \<longrightarrow> plays (round_of (st_Phase s)) p"
  using assms by (auto simp: allActivePlayersSubmitted_def list_all_iff plays_def tr_inv_def running_def)

lemma inv_players:
  assumes "tr_inv s" and "p \<in> set (st_Players s)"
  shows "sound (st_Phase s) p" and "player_ok (st_Phase s) (st_CurrentRound s) p"
  using assms by (simp_all add: tr_inv_def tr_valid_iff)

lemma inv_running:
  assumes "tr_inv s" and "st_Phase s \<noteq> PhaseFinished"
  shows "st_PhaseGeneration s = of_nat (phase_no (st_Phase s))" and "st_CurrentRound s = round_of (st_Phase s)"
    and "map rs_Round (st_RoundHistory s) = rounds_of (st_Phase s)" and "st_FinishReason s = []" and "2 \<le> activeCount (st_Players s)"
  using assms by (simp_all add: tr_inv_def running_def)

lemma inv_users: "tr_inv s \<Longrightarrow> distinct (map pl_UserID (st_Players s))"
  by (simp add: tr_inv_def tr_valid_iff roster_def)

lemma winner_user:
  assumes "distinct (map pl_UserID ps)" and "p \<in> set ps" and "set W \<subseteq> pl_UserID ` {p \<in> set ps. P p}"
  shows "pl_UserID p \<in> set W \<longrightarrow> P p"
proof
  assume "pl_UserID p \<in> set W"
  with assms(3) obtain q where "q \<in> set ps" "P q" "pl_UserID q = pl_UserID p" by auto
  with assms(1,2) show "P p" by (metis distinct_map inj_on_def)
qed

lemma validated_inv: "tr_inv s \<Longrightarrow> validated s es = Inr (s, es)"
  by (simp add: validated_def tr_inv_def tr_valid_def)

lemma settleRoundOne_eq:
  assumes inv: "tr_inv s" and ph: "st_Phase s = PhaseRoundOneSelecting" and all: "allActivePlayersSubmitted s"
  shows "deadlineForPhase now PhaseRoundOneResult (st_Config s) = Inr d \<Longrightarrow> tr_inv (settled_one s d)"
    and "settleRoundOne s now = and_then (deadlineForPhase now PhaseRoundOneResult (st_Config s)) (\<lambda>d.
      Inr (settled_one s d, settled_events 1 (summary_of 1 False (winners_one (st_Players s)) (map reveal_one (filter (plays 1) (st_Players s)))) (settled_one s d)))"
proof -
  let ?ps = "st_Players s" and ?W = "winners_one (st_Players s)"
  have W: "set ?W \<subseteq> pl_UserID ` {p \<in> set ?ps. plays 1 p}" unfolding winners_one_def one.tally_winners by auto
  note w = winner_user [OF inv_users [OF inv] _ W]
  note run = inv_running [OF inv]
  have r1: "st_CurrentRound s = 1" using run(2) ph by (simp add: round_of_def)
  have pl: "pl_Active p \<longrightarrow> plays 1 p" if "p \<in> set ?ps" for p
    using submitted_plays [OF inv all that] ph by (simp add: round_of_def)
  have closed: "sound PhaseRoundOneResult (closed win_one ?W after_one p) \<and> player_ok ph' r' (closed win_one ?W after_one p)"
    if "p \<in> set ?ps" for p ph' r'
    using closed_one [OF _ _ pl [OF that] w [OF that]] inv_players [OF inv that] ph r1 by simp
  show inv': "tr_inv (settled_one s d)" if "deadlineForPhase now PhaseRoundOneResult (st_Config s) = Inr d" for d
  proof (rule inv_next [OF inv])
    show "deadlineForPhase now (st_Phase (settled_one s d)) (st_Config (settled_one s d)) = Inr (st_PhaseDeadlineUnixMillis (settled_one s d))"
      using that by (simp add: settled_one_def)
    show "\<forall>p \<in> set (st_Players (settled_one s d)). player_ok (st_Phase (settled_one s d)) (st_CurrentRound (settled_one s d)) p \<and> sound (st_Phase (settled_one s d)) p"
      using closed by (auto simp: settled_one_def)
    show "st_PhaseGeneration (settled_one s d) = of_nat (phase_no (st_Phase (settled_one s d)))"
      "map rs_Round (st_RoundHistory (settled_one s d)) = rounds_of (st_Phase (settled_one s d))"
      "st_CurrentRound (settled_one s d) = round_of (st_Phase (settled_one s d))"
      using run ph by (simp_all add: settled_one_def rounds_of_def round_of_def)
  qed (use ph closed_kept [of win_one after_one ?W] in \<open>simp_all add: settled_one_def\<close>)
  have "plays 1 p \<longrightarrow> chosen p \<noteq> []" if "p \<in> set ?ps" for p
    using submitted_cards(3) [of "st_Phase s" p 1] inv_players [OF inv that] r1 by auto
  then have play: "play_one ?ps ([], None) = Inr (map after_one ?ps, map reveal_one (filter (plays 1) ?ps),
      tally compareRoundOne (map (\<lambda>p. (pl_UserID p, comparison_one p)) (filter (plays 1) ?ps)) ([], None))" by (intro play_one_eq) blast
  have "\<exists>qs. award win_one ?W (map reveal_one (filter (plays 1) ?ps)) (map after_one ?ps) = Inr
      (map (\<lambda>r. if rv_UserID r \<in> set ?W then r\<lparr>rv_AwardedPoints := 1\<rparr> else r) (map reveal_one (filter (plays 1) ?ps)), qs) \<and>
      reapplyFinalTotals qs = map (closed win_one ?W after_one) ?ps"
    by (rule award_closed [OF inv_users [OF inv] _ _ _ W]) (simp_all add: win_one_def after_one_def reveal_one_def)
  then obtain qs where qs: "award win_one ?W (map reveal_one (filter (plays 1) ?ps)) (map after_one ?ps) = Inr
      (map (\<lambda>r. if rv_UserID r \<in> set ?W then r\<lparr>rv_AwardedPoints := 1\<rparr> else r) (map reveal_one (filter (plays 1) ?ps)), qs)"
    "reapplyFinalTotals qs = map (closed win_one ?W after_one) ?ps"
    by blast
  have "tally compareRoundOne (map (\<lambda>p. (pl_UserID p, comparison_one p)) (filter (plays 1) ?ps)) ([], None) =
      (?W, snd (tally compareRoundOne (map (\<lambda>p. (pl_UserID p, comparison_one p)) (filter (plays 1) ?ps)) ([], None)))"
    by (simp add: winners_one_def)
  then obtain b where b: "tally compareRoundOne (map (\<lambda>p. (pl_UserID p, comparison_one p)) (filter (plays 1) ?ps)) ([], None) = (?W, b)" by blast
  show "settleRoundOne s now = and_then (deadlineForPhase now PhaseRoundOneResult (st_Config s)) (\<lambda>d.
      Inr (settled_one s d, settled_events 1 (summary_of 1 False ?W (map reveal_one (filter (plays 1) ?ps))) (settled_one s d)))"
    unfolding settleRoundOne_def play b
    by (cases "deadlineForPhase now PhaseRoundOneResult (st_Config s)")
      (simp_all add: qs Let_def summary_of_def [symmetric] settled_one_def [symmetric] validated_inv [OF inv'] del: map_map)
qed

lemma settleRoundTwo_eq:
  assumes inv: "tr_inv s" and ph: "st_Phase s = PhaseRoundTwoSelecting" and all: "allActivePlayersSubmitted s"
  shows "deadlineForPhase now PhaseRoundTwoResult (st_Config s) = Inr d \<Longrightarrow> tr_inv (settled_two s d)"
    and "settleRoundTwo s now = and_then (deadlineForPhase now PhaseRoundTwoResult (st_Config s)) (\<lambda>d.
      Inr (settled_two s d, settled_events 2 (summary_of 2 (\<forall>p \<in> set (st_Players s). \<not> in_play p) (winners_two (st_Players s))
        (map reveal_two (filter (plays 2) (st_Players s)))) (settled_two s d)))"
proof -
  let ?ps = "st_Players s" and ?W = "winners_two (st_Players s)"
  have W: "set ?W \<subseteq> pl_UserID ` {p \<in> set ?ps. plays 2 p}" unfolding winners_two_def two.tally_winners by (auto simp: in_play_def)
  note w = winner_user [OF inv_users [OF inv] _ W]
  note run = inv_running [OF inv]
  have r2: "st_CurrentRound s = 2" using run(2) ph by (simp add: round_of_def)
  have pl: "pl_Active p \<longrightarrow> plays 2 p" if "p \<in> set ?ps" for p
    using submitted_plays [OF inv all that] ph by (simp add: round_of_def)
  have closed: "sound PhaseRoundTwoResult (closed win_two ?W after_two p) \<and> player_ok ph' r' (closed win_two ?W after_two p)"
    if "p \<in> set ?ps" for p ph' r'
    using closed_two [OF _ _ pl [OF that] w [OF that]] inv_players [OF inv that] ph r2 by simp
  show inv': "tr_inv (settled_two s d)" if "deadlineForPhase now PhaseRoundTwoResult (st_Config s) = Inr d" for d
  proof (rule inv_next [OF inv])
    show "deadlineForPhase now (st_Phase (settled_two s d)) (st_Config (settled_two s d)) = Inr (st_PhaseDeadlineUnixMillis (settled_two s d))"
      using that by (simp add: settled_two_def)
    show "\<forall>p \<in> set (st_Players (settled_two s d)). player_ok (st_Phase (settled_two s d)) (st_CurrentRound (settled_two s d)) p \<and> sound (st_Phase (settled_two s d)) p"
      using closed by (auto simp: settled_two_def)
    show "st_PhaseGeneration (settled_two s d) = of_nat (phase_no (st_Phase (settled_two s d)))"
      "map rs_Round (st_RoundHistory (settled_two s d)) = rounds_of (st_Phase (settled_two s d))"
      "st_CurrentRound (settled_two s d) = round_of (st_Phase (settled_two s d))"
      using run ph by (simp_all add: settled_two_def rounds_of_def round_of_def)
  qed (use ph closed_kept [of win_two after_two ?W] in \<open>simp_all add: settled_two_def\<close>)
  have "plays 2 p \<longrightarrow> 2 \<le> length (chosen p)" if "p \<in> set ?ps" for p
    using submitted_cards(3) [of "st_Phase s" p 2] inv_players [OF inv that] r2 by auto
  then have play: "play_two ?ps True ([], None) = Inr (map after_two ?ps, map reveal_two (filter (plays 2) ?ps),
      True \<and> (\<forall>p \<in> set ?ps. \<not> in_play p),
      tally compareRoundTwo (map (\<lambda>p. (pl_UserID p, evaluation_two p)) (filter in_play ?ps)) ([], None))" by (intro play_two_eq) blast
  have "\<exists>qs. award win_two ?W (map reveal_two (filter (plays 2) ?ps)) (map after_two ?ps) = Inr
      (map (\<lambda>r. if rv_UserID r \<in> set ?W then r\<lparr>rv_AwardedPoints := 1\<rparr> else r) (map reveal_two (filter (plays 2) ?ps)), qs) \<and>
      reapplyFinalTotals qs = map (closed win_two ?W after_two) ?ps"
    by (rule award_closed [OF inv_users [OF inv] _ _ _ W]) (simp_all add: win_two_def after_two_def reveal_two_def)
  then obtain qs where qs: "award win_two ?W (map reveal_two (filter (plays 2) ?ps)) (map after_two ?ps) = Inr
      (map (\<lambda>r. if rv_UserID r \<in> set ?W then r\<lparr>rv_AwardedPoints := 1\<rparr> else r) (map reveal_two (filter (plays 2) ?ps)), qs)"
    "reapplyFinalTotals qs = map (closed win_two ?W after_two) ?ps" by blast
  have "tally compareRoundTwo (map (\<lambda>p. (pl_UserID p, evaluation_two p)) (filter in_play ?ps)) ([], None) = (?W, snd (tally compareRoundTwo (map (\<lambda>p. (pl_UserID p, evaluation_two p)) (filter in_play ?ps)) ([], None)))"
    by (simp add: winners_two_def)
  then obtain b where b: "tally compareRoundTwo (map (\<lambda>p. (pl_UserID p, evaluation_two p)) (filter in_play ?ps)) ([], None) = (?W, b)" by blast
  show "settleRoundTwo s now = and_then (deadlineForPhase now PhaseRoundTwoResult (st_Config s)) (\<lambda>d.
      Inr (settled_two s d, settled_events 2 (summary_of 2 (\<forall>p \<in> set ?ps. \<not> in_play p) ?W (map reveal_two (filter (plays 2) ?ps))) (settled_two s d)))"
    unfolding settleRoundTwo_def play b
    by (cases "deadlineForPhase now PhaseRoundTwoResult (st_Config s)")
      (simp_all add: qs Let_def summary_of_def [symmetric] settled_two_def [symmetric] validated_inv [OF inv'] del: map_map)
qed

lemma third_hand:
  assumes inv: "tr_inv s" and ph: "st_Phase s = PhaseRoundTwoResult" and p: "p \<in> set (st_Players s)" "pl_Active p"
  shows "length (cardsFromIDs (pl_RemainingHand p)) = 3" and "distinct (cardsFromIDs (pl_RemainingHand p))"
    and "set (cardsFromIDs (pl_RemainingHand p)) \<subseteq> set deckOrdered"
proof -
  have ok: "cards_ok p" and "piles p = (1, 2, 0)"
    using inv_players [OF inv p(1)] p(2) ph by (simp_all add: sound_def player_ok_def played_def)
  then show "length (cardsFromIDs (pl_RemainingHand p)) = 3" by (auto simp: cards_ok_def piles_def cardsFromIDs_def current_cards_def)
  have "distinct (pl_RemainingHand p)" "\<forall>i \<in> set (pl_RemainingHand p). known i" using ok by (auto simp: cards_ok_def current_cards_def)
  then show "distinct (cardsFromIDs (pl_RemainingHand p))" "set (cardsFromIDs (pl_RemainingHand p)) \<subseteq> set deckOrdered"
    using known_card inj_on_subset [OF card_of_inj, of "set (pl_RemainingHand p)"] by (auto simp: cardsFromIDs_def distinct_map)
qed

lemma resolveRoundThree_eq:
  assumes inv: "tr_inv s" and ph: "st_Phase s = PhaseRoundTwoResult"
  shows "deadlineForPhase now PhaseRoundThreeResult (st_Config s) = Inr d \<Longrightarrow> tr_inv (settled_three s d)"
    and "\<exists>events. resolveRoundThree s now = and_then (deadlineForPhase now PhaseRoundThreeResult (st_Config s)) (\<lambda>d.
      Inr (settled_three s d, events @ settled_events 3 (summary_of 3 False (winners_three (st_Players s))
        (map reveal_three (filter pl_Active (st_Players s)))) (settled_three s d)))"
proof -
  let ?ps = "st_Players s" and ?W = "winners_three (st_Players s)"
  have W: "set ?W \<subseteq> pl_UserID ` {p \<in> set ?ps. pl_Active p}" unfolding winners_three_def three.tally_winners by auto
  note w = winner_user [OF inv_users [OF inv] _ W]
  note run = inv_running [OF inv]
  have r2: "st_CurrentRound s = 2" using run(2) ph by (simp add: round_of_def)
  have closed: "sound PhaseRoundThreeResult (closed win_three ?W after_three p) \<and> player_ok ph' r' (closed win_three ?W after_three p)"
    if "p \<in> set ?ps" for p ph' r'
    using closed_three [OF _ _ w [OF that]] inv_players [OF inv that] ph r2 by simp
  show inv': "tr_inv (settled_three s d)" if "deadlineForPhase now PhaseRoundThreeResult (st_Config s) = Inr d" for d
  proof (rule inv_next [OF inv])
    show "deadlineForPhase now (st_Phase (settled_three s d)) (st_Config (settled_three s d)) = Inr (st_PhaseDeadlineUnixMillis (settled_three s d))"
      using that by (simp add: settled_three_def)
    show "\<forall>p \<in> set (st_Players (settled_three s d)). player_ok (st_Phase (settled_three s d)) (st_CurrentRound (settled_three s d)) p \<and> sound (st_Phase (settled_three s d)) p"
      using closed by (auto simp: settled_three_def)
    show "st_PhaseGeneration (settled_three s d) = of_nat (phase_no (st_Phase (settled_three s d)))"
      "map rs_Round (st_RoundHistory (settled_three s d)) = rounds_of (st_Phase (settled_three s d))"
      "st_CurrentRound (settled_three s d) = round_of (st_Phase (settled_three s d))"
      using run ph by (simp_all add: settled_three_def rounds_of_def round_of_def)
  qed (use ph closed_kept [of win_three after_three ?W] in \<open>simp_all add: settled_three_def\<close>)
  have "succeeds (resolveThirdHand (cardsFromIDs (pl_RemainingHand p)))" if "p \<in> set ?ps" "pl_Active p" for p
    using resolveThirdHand_optimal [OF third_hand(2,3,1) [OF inv ph that]] by (auto simp: succeeds_def)
  then obtain events where play: "play_three ?ps ([], None) = Inr (map after_three ?ps, map reveal_three (filter pl_Active ?ps), events,
      tally compareThirdResult (map (\<lambda>p. (pl_UserID p, tr_Comparison (resolution p))) (filter pl_Active ?ps)) ([], None))"
    using play_three_eq [of ?ps "([], None)"] by blast
  have "\<exists>qs. award win_three ?W (map reveal_three (filter pl_Active ?ps)) (map after_three ?ps) = Inr
      (map (\<lambda>r. if rv_UserID r \<in> set ?W then r\<lparr>rv_AwardedPoints := 1\<rparr> else r) (map reveal_three (filter pl_Active ?ps)), qs) \<and>
      reapplyFinalTotals qs = map (closed win_three ?W after_three) ?ps"
    by (rule award_closed [OF inv_users [OF inv] _ _ _ W]) (simp_all add: win_three_def after_three_def reveal_three_def)
  then obtain qs where qs: "award win_three ?W (map reveal_three (filter pl_Active ?ps)) (map after_three ?ps) = Inr
      (map (\<lambda>r. if rv_UserID r \<in> set ?W then r\<lparr>rv_AwardedPoints := 1\<rparr> else r) (map reveal_three (filter pl_Active ?ps)), qs)"
    "reapplyFinalTotals qs = map (closed win_three ?W after_three) ?ps" by blast
  have clear: "clearFinalDecorations (map f ps) = map (core \<circ> f) ps" for f and ps :: "PlayerState list"
    by (simp add: clearFinalDecorations_core)
  have "tally compareThirdResult (map (\<lambda>p. (pl_UserID p, tr_Comparison (resolution p))) (filter pl_Active ?ps)) ([], None) = (?W, snd (tally compareThirdResult (map (\<lambda>p. (pl_UserID p, tr_Comparison (resolution p))) (filter pl_Active ?ps)) ([], None)))"
    by (simp add: winners_three_def)
  then obtain b where b: "tally compareThirdResult (map (\<lambda>p. (pl_UserID p, tr_Comparison (resolution p))) (filter pl_Active ?ps)) ([], None) = (?W, b)" by blast
  have "resolveRoundThree s now = and_then (deadlineForPhase now PhaseRoundThreeResult (st_Config s)) (\<lambda>d.
      Inr (settled_three s d, events @ settled_events 3 (summary_of 3 False ?W (map reveal_three (filter pl_Active ?ps))) (settled_three s d)))"
    unfolding resolveRoundThree_def play b
    by (cases "deadlineForPhase now PhaseRoundThreeResult (st_Config s)")
      (simp_all add: ph qs clear Let_def summary_of_def [symmetric] settled_three_def [symmetric] validated_inv [OF inv'] del: map_map)
  then show "\<exists>events. resolveRoundThree s now = and_then (deadlineForPhase now PhaseRoundThreeResult (st_Config s)) (\<lambda>d.
      Inr (settled_three s d, events @ settled_events 3 (summary_of 3 False ?W (map reveal_three (filter pl_Active ?ps))) (settled_three s d)))"
    by blast
qed

end
