(* ===== verification/ThreeSteps.thy ===== *)
theory ThreeSteps
  imports ThreeSettle
begin

text \<open>
  What every operation of three rounds makes of a state that satisfies the invariant: the changes of phase, selections by players and
  by the timer, revocations and the ends of a session.
\<close>

section \<open>Other phases\<close>

lemma player_ok_idle: "player_ok ph r p \<Longrightarrow> \<not> selecting ph \<Longrightarrow> player_ok ph' r' p"
  by (auto simp: player_ok_def)

lemma sound_next:
  "sound PhaseRoundOneResult p \<Longrightarrow> sound PhaseRoundTwoSelecting p"
  "sound PhaseRoundThreeResult p \<Longrightarrow> sound PhaseFinalResult p"
  unfolding sound_def by (simp_all add: played_def)

lemma sound_finished: "sound ph p \<Longrightarrow> sound PhaseFinished p"
  unfolding sound_def by simp

lemma advancePhase_eq:
  assumes inv: "tr_inv s" and ph: "st_Phase s = PhaseRoundOneResult" and d: "deadlineForPhase now PhaseRoundTwoSelecting (st_Config s) = Inr d"
  shows "\<exists>t es. advancePhaseAfterRoundOneResult s now = Inr (t, es) \<and> tr_inv t \<and> st_Phase t = PhaseRoundTwoSelecting \<and> dealt t = dealt s"
proof -
  let ?t = "s\<lparr>st_Phase := PhaseRoundTwoSelecting, st_CurrentRound := 2, st_PhaseGeneration := st_PhaseGeneration s + 1,
    st_PhaseDeadlineUnixMillis := d\<rparr>"
  note run = inv_running [OF inv]
  have "tr_inv ?t"
  proof (rule inv_next [OF inv])
    show "\<forall>p \<in> set (st_Players ?t). player_ok (st_Phase ?t) (st_CurrentRound ?t) p \<and> sound (st_Phase ?t) p"
      using inv_players(1) [OF inv] player_ok_idle [OF inv_players(2) [OF inv]] ph sound_next(1) by simp
    show "st_PhaseGeneration ?t = of_nat (phase_no (st_Phase ?t))" "st_CurrentRound ?t = round_of (st_Phase ?t)"
      "map rs_Round (st_RoundHistory ?t) = rounds_of (st_Phase ?t)"
      using run ph by (simp_all add: round_of_def rounds_of_def)
    show "deadlineForPhase now (st_Phase ?t) (st_Config ?t) = Inr (st_PhaseDeadlineUnixMillis ?t)" using d by simp
  qed (use ph in simp_all)
  then show ?thesis using d by (simp add: advancePhaseAfterRoundOneResult_def validated_inv Let_def dealt_def)
qed

lemma enterFinalResult_eq:
  assumes inv: "tr_inv s" and ph: "st_Phase s = PhaseRoundThreeResult" and d: "deadlineForPhase now PhaseFinalResult (st_Config s) = Inr d"
  shows "\<exists>t es. enterFinalResult s now = Inr (t, es) \<and> tr_inv t \<and> st_Phase t = PhaseFinalResult \<and> dealt t = dealt s"
proof -
  let ?u = "s\<lparr>st_Phase := PhaseFinalResult, st_PhaseGeneration := st_PhaseGeneration s + 1,
    st_FinalSummary := computeFinalSummary (st_Players s), st_PhaseDeadlineUnixMillis := d\<rparr>"
  let ?t = "recomputeFinalDecorations ?u"
  have c: "map core (st_Players ?t) = map core (st_Players s)" using recomputeFinalDecorations_core [of ?u] by simp
  have f: "st_Phase ?t = PhaseFinalResult" "st_CurrentRound ?t = st_CurrentRound s" "st_PhaseGeneration ?t = st_PhaseGeneration s + 1"
    "st_PhaseDeadlineUnixMillis ?t = d" "st_RoundHistory ?t = st_RoundHistory s" "st_SchemaVersion ?t = st_SchemaVersion s"
    "st_Config ?t = st_Config s" "st_HostUserID ?t = st_HostUserID s" "st_FinishReason ?t = st_FinishReason s"
    by (simp_all add: recomputeFinalDecorations_def)
  note run = inv_running [OF inv] and m = core_maps [OF c]
  have "\<forall>p \<in> set (st_Players s). player_ok PhaseFinalResult (st_CurrentRound s) p \<and> sound PhaseFinalResult p"
    using inv_players(1) [OF inv] player_ok_idle [OF inv_players(2) [OF inv]] ph sound_next(2) by simp
  then have p: "\<forall>p \<in> set (st_Players ?t). player_ok (st_Phase ?t) (st_CurrentRound ?t) p \<and> sound (st_Phase ?t) p"
    unfolding f ball_conj_distrib m(5,6) .
  have "tr_inv ?t"
  proof (rule inv_next [OF inv m(1-4) p])
    show "st_PhaseGeneration ?t = of_nat (phase_no (st_Phase ?t))" "st_CurrentRound ?t = round_of (st_Phase ?t)"
      "map rs_Round (st_RoundHistory ?t) = rounds_of (st_Phase ?t)"
      using run ph f by (simp_all add: round_of_def rounds_of_def)
    show "deadlineForPhase now (st_Phase ?t) (st_Config ?t) = Inr (st_PhaseDeadlineUnixMillis ?t)" using d f by simp
  qed (use ph f in simp_all)
  moreover have "dealt ?t = dealt s" unfolding dealt_def m(1-3) ..
  ultimately show ?thesis using d f(1) ph by (simp add: enterFinalResult_def validated_inv Let_def)
qed

lemma inv_update:
  assumes inv: "tr_inv s" and "map pl_UserID qs = map pl_UserID (st_Players s)"
    and "map pl_SeatIndex qs = map pl_SeatIndex (st_Players s)" and "map pl_InitialHand qs = map pl_InitialHand (st_Players s)"
    and "\<forall>p \<in> set qs. player_ok (st_Phase s) (st_CurrentRound s) p \<and> sound (st_Phase s) p"
    and "st_Phase s \<noteq> PhaseFinished \<longrightarrow> 2 \<le> activeCount qs"
  shows "tr_inv (s\<lparr>st_Players := qs\<rparr>)"
proof -
  have v: "tr_valid s" using inv by (simp add: tr_inv_def)
  have l: "length qs = length (st_Players s)" using assms(2) by (metis length_map)
  have ro: "roster (st_HostUserID s) qs" using v roster_maps [OF assms(2-4)] by (simp add: tr_valid_iff)
  have "tr_valid (s\<lparr>st_Players := qs\<rparr>)" using v l ro assms(5) by (simp add: tr_valid_iff timing_ok_def)
  then show ?thesis using inv assms(5,6) by (simp add: tr_inv_def running_def)
qed

section \<open>Selections\<close>

lemma selection_scan_iff:
  "selection_scan remaining seen cs = Inr () \<longleftrightarrow> distinct cs \<and> set cs \<inter> seen = {} \<and> set cs \<subseteq> set remaining \<and> (\<forall>i \<in> set cs. known i)"
  by (induction remaining seen cs rule: selection_scan.induct) (auto simp: outcome ParseCardID_None)

lemma canonicalSelection_mset: "mset (canonicalSelection cs) = mset cs"
  by (simp add: canonicalSelection_def sortCardIDsByOrdinal_def)

lemma canonicalSelection_simps [simp]: "set (canonicalSelection cs) = set cs" "length (canonicalSelection cs) = length cs"
  "distinct (canonicalSelection cs) = distinct cs"
  by (simp_all add: canonicalSelection_def sortCardIDsByOrdinal_def)

definition submits :: "u32 \<Rightarrow> CardID list \<Rightarrow> bool \<Rightarrow> PlayerState \<Rightarrow> PlayerState" where
  "submits round cs auto p = p\<lparr>pl_PendingSelection := \<lparr>ps_Round = round, ps_CardIDs = cs, ps_AutoSubmitted = auto\<rparr>\<rparr>"

lemma submits_kept [simp]: "pl_UserID (submits r cs a p) = pl_UserID p" "pl_SeatIndex (submits r cs a p) = pl_SeatIndex p"
  "pl_InitialHand (submits r cs a p) = pl_InitialHand p" "pl_Active (submits r cs a p) = pl_Active p"
  "plays r' (submits r cs a p) \<longleftrightarrow> pl_Active p \<and> r = r'"
  by (auto simp: submits_def plays_def)

lemma submits_ok:
  assumes "sound ph p" and "player_ok ph r p" and "selecting ph" and "pl_Active p" and "r \<noteq> 0"
    and "distinct cs" and "set cs \<subseteq> set (pl_RemainingHand p)" and "length cs = (if r = 2 then 2 else 1)"
  shows "sound ph (submits r cs a p)" and "player_ok ph r (submits r cs a p)"
proof -
  show "sound ph (submits r cs a p)" using assms(1,4-8) unfolding sound_def by (simp add: submits_def current_cards_def piles_def)
  show "player_ok ph r (submits r cs a p)"
    using assms(2,3,5,7) unfolding player_ok_def cards_ok_def by (simp add: submits_def current_cards_def)
qed

lemma hand_sizes:
  assumes inv: "tr_inv s" and p: "p \<in> set (st_Players s)" "pl_Active p" and ph: "selecting (st_Phase s)"
  shows "distinct (pl_RemainingHand p)" and "\<forall>i \<in> set (pl_RemainingHand p). known i" and "5 \<le> length (pl_RemainingHand p)"
proof -
  have ok: "cards_ok p" and pl: "piles p = played (st_Phase s)"
    using inv_players [OF inv p(1)] p(2) ph by (auto simp: sound_def player_ok_def)
  show "distinct (pl_RemainingHand p)" "\<forall>i \<in> set (pl_RemainingHand p). known i" using ok by (auto simp: cards_ok_def current_cards_def)
  show "5 \<le> length (pl_RemainingHand p)" using ok pl ph by (auto simp: cards_ok_def piles_def played_def current_cards_def)
qed

lemma autoSelect_ok:
  assumes inv: "tr_inv s" and p: "p \<in> set (st_Players s)" "pl_Active p" and ph: "selecting (st_Phase s)"
  shows "\<exists>cs. autoSelect p (st_CurrentRound s) = Inr cs \<and> distinct cs \<and> set cs \<subseteq> set (pl_RemainingHand p) \<and>
    length cs = (if st_CurrentRound s = 2 then 2 else 1)"
proof -
  note h = hand_sizes [OF inv p ph]
  have r: "st_CurrentRound s = round_of (st_Phase s)" using inv_running(2) [OF inv] ph by auto
  from ph show ?thesis
  proof
    assume "st_Phase s = PhaseRoundOneSelecting"
    then have "st_CurrentRound s = 1" using r by (simp add: round_of_def)
    moreover have "pl_RemainingHand p \<noteq> []" using h(3) by auto
    ultimately show ?thesis using autoSelect_one [OF _ h(2)] by fastforce
  next
    assume "st_Phase s = PhaseRoundTwoSelecting"
    then have "st_CurrentRound s = 2" using r by (simp add: round_of_def)
    moreover have "2 \<le> length (pl_RemainingHand p)" using h(3) by simp
    ultimately show ?thesis using autoSelect_two [OF h(1,2)] by fastforce
  qed
qed

definition automatic :: "u32 \<Rightarrow> PlayerState \<Rightarrow> PlayerState" where
  "automatic r p = (if pl_Active p \<and> ps_Round (pl_PendingSelection p) \<noteq> r then submits r (projr (autoSelect p r)) True p else p)"

lemma auto_submit_eq:
  "\<forall>p \<in> set ps. pl_Active p \<longrightarrow> succeeds (autoSelect p r) \<Longrightarrow> \<exists>es. auto_submit r ps = Inr (map (automatic r) ps, es)"
proof (induction ps)
  case (Cons p ps)
  then obtain es where es: "auto_submit r ps = Inr (map (automatic r) ps, es)" by auto
  show ?case
  proof (cases "pl_Active p \<and> ps_Round (pl_PendingSelection p) \<noteq> r")
    case True
    then obtain cs where "autoSelect p r = Inr cs" using Cons.prems by (auto simp: succeeds_def)
    with True es show ?thesis by (simp add: automatic_def submits_def)
  qed (use es in \<open>auto simp: automatic_def\<close>)
qed simp

lemma automatic_dealt: "dealt (s\<lparr>st_Players := map (automatic r) (st_Players s)\<rparr>) = dealt s"
  by (simp add: dealt_def comp_def automatic_def if_distrib cong: if_cong)

lemma automatic_inv:
  assumes inv: "tr_inv s" and ph: "selecting (st_Phase s)"
  shows "tr_inv (s\<lparr>st_Players := map (automatic (st_CurrentRound s)) (st_Players s)\<rparr>)"
    and "allActivePlayersSubmitted (s\<lparr>st_Players := map (automatic (st_CurrentRound s)) (st_Players s)\<rparr>)"
proof -
  let ?r = "st_CurrentRound s"
  have r0: "?r \<noteq> 0" using inv by (simp add: tr_inv_def tr_valid_iff)
  have k: "pl_UserID (automatic ?r p) = pl_UserID p" "pl_SeatIndex (automatic ?r p) = pl_SeatIndex p"
    "pl_InitialHand (automatic ?r p) = pl_InitialHand p" "pl_Active (automatic ?r p) = pl_Active p" for p by (simp_all add: automatic_def)
  have ok: "player_ok (st_Phase s) ?r (automatic ?r p) \<and> sound (st_Phase s) (automatic ?r p)" if "p \<in> set (st_Players s)" for p
  proof (cases "pl_Active p \<and> ps_Round (pl_PendingSelection p) \<noteq> ?r")
    case True
    with autoSelect_ok [OF inv that _ ph] submits_ok [OF inv_players [OF inv that] ph _ r0] show ?thesis
      by (auto simp: automatic_def)
  next
    case False
    with inv_players [OF inv that] show ?thesis unfolding automatic_def by auto
  qed
  show "tr_inv (s\<lparr>st_Players := map (automatic ?r) (st_Players s)\<rparr>)"
    using ok inv_running(5) [OF inv] ph activeCount_maps [of "map (automatic ?r) (st_Players s)" "st_Players s"]
    by (intro inv_update [OF inv]) (auto simp: k comp_def)
  show "allActivePlayersSubmitted (s\<lparr>st_Players := map (automatic ?r) (st_Players s)\<rparr>)"
    by (auto simp: allActivePlayersSubmitted_def list_all_iff automatic_def submits_def)
qed

section \<open>The operations keep the invariant\<close>

lemma settleCurrentSelection_inv:
  assumes inv: "tr_inv s" and ph: "selecting (st_Phase s)" and all: "allActivePlayersSubmitted s"
    and t: "settleCurrentSelection s now = Inr (t, es)"
  shows "tr_inv t \<and> phase_no (st_Phase t) = Suc (phase_no (st_Phase s)) \<and> dealt t = dealt s"
  using ph
proof
  assume ph: "st_Phase s = PhaseRoundOneSelecting"
  with t obtain d where "deadlineForPhase now PhaseRoundOneResult (st_Config s) = Inr d" "t = settled_one s d"
    by (auto simp: settleCurrentSelection_def settleRoundOne_eq(2) [OF inv ph all] outcome)
  with settleRoundOne_eq(1) [OF inv ph all] ph closed_kept [of win_one after_one] show ?thesis
    by (simp add: settled_one_def dealt_def comp_def)
next
  assume ph: "st_Phase s = PhaseRoundTwoSelecting"
  with t obtain d where "deadlineForPhase now PhaseRoundTwoResult (st_Config s) = Inr d" "t = settled_two s d"
    by (auto simp: settleCurrentSelection_def settleRoundTwo_eq(2) [OF inv ph all] outcome)
  with settleRoundTwo_eq(1) [OF inv ph all] ph closed_kept [of win_two after_two] show ?thesis
    by (simp add: settled_two_def dealt_def comp_def)
qed

lemma settleCurrentSelection_succeeds:
  assumes inv: "tr_inv s" and ph: "selecting (st_Phase s)" and all: "allActivePlayersSubmitted s"
    and d: "\<And>ph. succeeds (deadlineForPhase now ph (st_Config s))"
  shows "succeeds (settleCurrentSelection s now)"
  using ph
proof
  assume ph: "st_Phase s = PhaseRoundOneSelecting"
  with d [of PhaseRoundOneResult] show ?thesis
    by (auto simp: settleCurrentSelection_def settleRoundOne_eq(2) [OF inv ph all] succeeds_def)
next
  assume ph: "st_Phase s = PhaseRoundTwoSelecting"
  with d [of PhaseRoundTwoResult] show ?thesis
    by (auto simp: settleCurrentSelection_def settleRoundTwo_eq(2) [OF inv ph all] succeeds_def)
qed

lemma deadline_succeeds:
  assumes "0 < now" and "now \<le> MaxInt64 - 120000" and "Config_Validate cfg n = Inr ()"
  shows "succeeds (deadlineForPhase now ph cfg)"
proof -
  have "succeeds (addDeadline now secs)" if "secs \<le> 120" for secs
  proof -
    have "uint secs \<le> 120" using that by (simp add: word_le_def)
    then show ?thesis using assms(1,2) by (auto simp: addDeadline_def validUnixMillis_def Let_def succeeds_def)
  qed
  moreover have "cf_RoundOneTimeoutSeconds cfg \<le> 120" "cf_RoundTwoTimeoutSeconds cfg \<le> 120"
    "cf_RoundResultSeconds cfg \<le> 15" "cf_FinalResultSeconds cfg \<le> 30"
    using assms(3) by (auto simp: Config_Validate_def outcome selectionTimeoutValid_def not_less)
  then have "cf_RoundOneTimeoutSeconds cfg \<le> 120" "cf_RoundTwoTimeoutSeconds cfg \<le> 120"
    "cf_RoundResultSeconds cfg \<le> 120" "cf_FinalResultSeconds cfg \<le> 120" by (auto intro: order.trans)
  ultimately show ?thesis by (cases ph) (simp_all add: deadlineForPhase_def)
qed

lemma finished_inv:
  assumes inv: "tr_inv s" and c: "map core (st_Players t) = map core qs" and q: "\<forall>q \<in> set qs. \<exists>p \<in> set (st_Players s). sound (st_Phase s) p \<longrightarrow> sound PhaseFinished q"
    and "st_Phase t = PhaseFinished" and "tr_valid t"
  shows "tr_inv t"
proof -
  have "\<forall>q \<in> set qs. sound PhaseFinished q" using q inv_players(1) [OF inv] by blast
  then have "\<forall>p \<in> set (st_Players t). sound PhaseFinished p" using core_maps(5) [OF c] by simp
  with assms(4,5) show ?thesis by (simp add: tr_inv_def running_def)
qed

lemma finishWithReason_state:
  assumes "finishWithReason s reason operator = (t, es)"
  shows "st_Phase t = PhaseFinished" and "st_PhaseDeadlineUnixMillis t = 0" and "st_FinishReason t = reason"
    and "map core (st_Players t) = map core (st_Players s)" and "st_SchemaVersion t = st_SchemaVersion s"
    and "st_CurrentRound t = st_CurrentRound s" and "st_Config t = st_Config s" and "st_HostUserID t = st_HostUserID s"
    and "st_RoundHistory t = st_RoundHistory s"
proof -
  have c: "core (p\<lparr>pl_FinalWinner := False\<rparr>) = core p" for p by (simp add: core_def)
  show "st_Phase t = PhaseFinished" "st_PhaseDeadlineUnixMillis t = 0" "st_FinishReason t = reason"
    "st_SchemaVersion t = st_SchemaVersion s" "st_CurrentRound t = st_CurrentRound s" "st_Config t = st_Config s"
    "st_HostUserID t = st_HostUserID s" "st_RoundHistory t = st_RoundHistory s"
    using assms by (auto simp: finishWithReason_def Let_def)
  show "map core (st_Players t) = map core (st_Players s)"
    using assms by (auto simp: finishWithReason_def Let_def clearFinalDecorations_core comp_def c split: if_splits)
qed

text \<open>A finished state is valid exactly if nobody has a selection left.\<close>

lemma finish_valid_iff:
  assumes inv: "tr_inv s" and f: "finishWithReason s reason operator = (t, es)" and r: "validFinishReason reason"
  shows "tr_valid t \<longleftrightarrow> (\<forall>p \<in> set (st_Players s). pl_PendingSelection p = no_selection)"
proof -
  note t = finishWithReason_state [OF f] and v = inv [unfolded tr_inv_def, THEN conjunct1, unfolded tr_valid_iff]
  note m = core_maps [OF t(4)]
  have "roster (st_HostUserID t) (st_Players t)" using v roster_maps [OF m(1-3)] t(8) by simp
  then have "tr_valid t \<longleftrightarrow> (\<forall>p \<in> set (st_Players s). player_ok PhaseFinished (st_CurrentRound s) p)"
    unfolding tr_valid_iff using v t m(6,7) r by (simp add: timing_ok_def)
  also have "\<dots> \<longleftrightarrow> (\<forall>p \<in> set (st_Players s). ps_Round (pl_PendingSelection p) = 0)"
    using v by (auto simp: player_ok_def)
  also have "\<dots> \<longleftrightarrow> (\<forall>p \<in> set (st_Players s). pl_PendingSelection p = no_selection)"
    using inv_players(1) [OF inv] by (fastforce simp: sound_def no_selection_def)
  finally show ?thesis .
qed

lemma HandleTimeout_inv:
  assumes inv: "tr_inv s" and t: "HandleTimeout s timer now = Inr (t, es)"
  shows "tr_inv t \<and> phase_no (st_Phase t) = Suc (phase_no (st_Phase s)) \<and> dealt t = dealt s"
proof -
  let ?auto = "s\<lparr>st_Players := map (automatic (st_CurrentRound s)) (st_Players s)\<rparr>"
  have nf: "st_Phase s \<noteq> PhaseFinished" using t by (auto simp: HandleTimeout_def outcome)
  have "0 < phase_no (st_Phase s)" using inv by (simp add: tr_inv_def running_def)
  with nf consider "selecting (st_Phase s)" | "st_Phase s = PhaseRoundOneResult" | "st_Phase s = PhaseRoundTwoResult"
    | "st_Phase s = PhaseRoundThreeResult" | "st_Phase s = PhaseFinalResult" by (cases "st_Phase s") auto
  then show ?thesis
  proof cases
    case 1
    then obtain e where a: "auto_submit (st_CurrentRound s) (st_Players s) = Inr (map (automatic (st_CurrentRound s)) (st_Players s), e)"
      using auto_submit_eq [of "st_Players s" "st_CurrentRound s"] autoSelect_ok [OF inv _ _ 1] by (fastforce simp: succeeds_def)
    then obtain es' where "settleCurrentSelection ?auto now = Inr (t, es')"
      using t 1 by (auto simp: HandleTimeout_def outcome)
    then show ?thesis using settleCurrentSelection_inv [OF automatic_inv(1) [OF inv 1] _ automatic_inv(2) [OF inv 1]] 1 automatic_dealt by auto
  next
    case 2
    then obtain d where "deadlineForPhase now PhaseRoundTwoSelecting (st_Config s) = Inr d" "advancePhaseAfterRoundOneResult s now = Inr (t, es)"
      using t by (auto simp: HandleTimeout_def outcome advancePhaseAfterRoundOneResult_def)
    with advancePhase_eq [OF inv 2] 2 show ?thesis by fastforce
  next
    case 3
    then have r: "resolveRoundThree s now = Inr (t, es)" using t by (auto simp: HandleTimeout_def outcome)
    from resolveRoundThree_eq(2) [OF inv 3, of now, unfolded r] obtain d
      where "deadlineForPhase now PhaseRoundThreeResult (st_Config s) = Inr d" "t = settled_three s d"
      by (cases "deadlineForPhase now PhaseRoundThreeResult (st_Config s)") auto
    with resolveRoundThree_eq(1) [OF inv 3] 3 closed_kept [of win_three after_three] show ?thesis
      by (simp add: settled_three_def dealt_def comp_def)
  next
    case 4
    then obtain d where "deadlineForPhase now PhaseFinalResult (st_Config s) = Inr d" "enterFinalResult s now = Inr (t, es)"
      using t by (auto simp: HandleTimeout_def outcome enterFinalResult_def)
    with enterFinalResult_eq [OF inv 4] 4 show ?thesis by fastforce
  next
    case 5
    then have f: "finishWithReason s FinishNormalCompleted [] = (t, es)" using t by (auto simp: HandleTimeout_def outcome finishNormally_def)
    note fs = finishWithReason_state [OF f]
    have "\<forall>p \<in> set (st_Players s). pl_PendingSelection p = no_selection"
      using inv_players [OF inv] 5 by (fastforce simp: sound_def player_ok_def no_selection_def)
    then have "tr_valid t" using finish_valid_iff [OF inv f] by (simp add: validFinishReason_def)
    moreover have "dealt t = dealt s" unfolding dealt_def core_maps(1-3) [OF fs(4)] ..
    ultimately show ?thesis using finished_inv [OF inv fs(4) _ fs(1)] sound_finished fs(1) 5 by auto
  qed
qed

lemma SubmitSelection_inv:
  assumes inv: "tr_inv s" and t: "SubmitSelection s actor round cs a now = Inr (t, es)"
  shows "tr_inv t \<and> phase_no (st_Phase s) \<le> phase_no (st_Phase t) \<and> dealt t = dealt s"
proof -
  from t have v: "validateSelectableAction s actor round cs now = Inr ()" by (auto simp: SubmitSelection_def outcome)
  then obtain i where i: "playerIndex (st_Players s) actor = Some i" and ph: "selecting (st_Phase s)" and r: "round = st_CurrentRound s"
    and act: "pl_Active (st_Players s ! i)" and len: "length cs = (if round = 2 then 2 else 1)"
    and scan: "selection_scan (pl_RemainingHand (st_Players s ! i)) {} cs = Inr ()"
    by (auto simp: validateSelectableAction_def outcome Let_def split: option.splits if_splits)
  let ?p = "submits round (canonicalSelection cs) a (st_Players s ! i)"
  let ?n = "s\<lparr>st_Players := (st_Players s)[i := ?p]\<rparr>"
  note il = tr.index_SomeD [OF i]
  have mem: "st_Players s ! i \<in> set (st_Players s)" using il by simp
  have r0: "round \<noteq> 0" using inv r by (simp add: tr_inv_def tr_valid_iff)
  have ok: "sound (st_Phase s) ?p" "player_ok (st_Phase s) round ?p"
    using submits_ok [OF inv_players(1) [OF inv mem] inv_players(2) [OF inv mem, folded r] ph act r0] scan len
    by (simp_all add: selection_scan_iff)
  have all: "player_ok (st_Phase s) (st_CurrentRound s) p \<and> sound (st_Phase s) p" if "p \<in> set ((st_Players s)[i := ?p])" for p
    using that ok r inv_players [OF inv] by (auto dest!: subsetD [OF set_update_subset_insert])
  have n: "tr_inv ?n"
  proof (rule inv_update [OF inv])
    show "st_Phase s \<noteq> PhaseFinished \<longrightarrow> 2 \<le> activeCount ((st_Players s)[i := ?p])"
      using inv_running(5) [OF inv] il act by (simp add: tr.count_update_same)
  qed (use all in \<open>auto intro!: map_update_eq\<close>)
  have "t = ?n \<or> (\<exists>es'. allActivePlayersSubmitted ?n \<and> settleCurrentSelection ?n now = Inr (t, es'))"
    using t i by (auto simp: SubmitSelection_def outcome Let_def submits_def validated_def split: if_splits)
  moreover have "dealt ?n = dealt s" by (simp add: dealt_def map_update_eq)
  ultimately show ?thesis using n settleCurrentSelection_inv [OF n] ph by auto
qed

definition withdrawn :: "PlayerState \<Rightarrow> PlayerState" where
  "withdrawn p = p\<lparr>pl_Active := False, pl_PendingSelection := no_selection\<rparr>"

lemma withdrawn_kept [simp]: "pl_UserID (withdrawn p) = pl_UserID p" "pl_SeatIndex (withdrawn p) = pl_SeatIndex p"
  "pl_InitialHand (withdrawn p) = pl_InitialHand p" "\<not> pl_Active (withdrawn p)"
  by (simp_all add: withdrawn_def)

lemma withdrawn_ok: "sound ph p \<Longrightarrow> sound ph (withdrawn p)" "player_ok ph r p \<Longrightarrow> player_ok ph r (withdrawn p)"
proof -
  show "sound ph p \<Longrightarrow> sound ph (withdrawn p)" unfolding sound_def by (simp add: withdrawn_def no_selection_def current_cards_def)
  show "player_ok ph r p \<Longrightarrow> player_ok ph r (withdrawn p)"
    unfolding player_ok_def cards_ok_def by (simp add: withdrawn_def no_selection_def current_cards_def)
qed

lemma inv_core:
  assumes "tr_inv (s\<lparr>st_Players := ps\<rparr>)" and "map core qs = map core ps"
  shows "tr_inv (s\<lparr>st_Players := qs\<rparr>)"
proof -
  note m = core_maps [OF assms(2)]
  have a: "activeCount qs = activeCount ps" by (rule activeCount_maps [OF m(4)])
  have "\<forall>p \<in> set ps. player_ok (st_Phase s) (st_CurrentRound s) p \<and> sound (st_Phase s) p"
    using inv_players [OF assms(1)] by simp
  then have "\<forall>p \<in> set qs. player_ok (st_Phase s) (st_CurrentRound s) p \<and> sound (st_Phase s) p"
    unfolding ball_conj_distrib m(5,6) .
  then show ?thesis
    using inv_update [OF assms(1), of qs] m(1-3) inv_running(5) [OF assms(1)] a by simp
qed

lemma inv_recompute:
  assumes "tr_inv s"
  shows "tr_inv (recomputeFinalDecorations s)"
proof -
  have "tr_inv (s\<lparr>st_Players := st_Players s\<rparr>)" using assms by simp
  from inv_core [OF this recomputeFinalDecorations_core [of s]] show ?thesis by (simp add: recomputeFinalDecorations_def)
qed

lemma RevokeParticipant_inv:
  assumes inv: "tr_inv s" and t: "RevokeParticipant s u now = Inr (t, es)" and vt: "tr_valid t"
  shows "tr_inv t \<and> phase_no (st_Phase s) \<le> phase_no (st_Phase t) \<and> dealt t = dealt s"
proof -
  from t obtain i where i: "playerIndex (st_Players s) u = Some i" and act: "pl_Active (st_Players s ! i)" and nf: "st_Phase s \<noteq> PhaseFinished"
    by (auto simp: RevokeParticipant_def outcome Let_def split: option.splits if_splits)
  let ?ps = "(st_Players s)[i := withdrawn (st_Players s ! i)]"
  let ?n = "recomputeFinalDecorations (s\<lparr>st_Players := ?ps\<rparr>)"
  note il = tr.index_SomeD [OF i]
  have mem: "st_Players s ! i \<in> set (st_Players s)" using il by simp
  have all: "player_ok (st_Phase s) (st_CurrentRound s) p \<and> sound (st_Phase s) p" if "p \<in> set ?ps" for p
    using that withdrawn_ok inv_players [OF inv] mem by (auto dest!: subsetD [OF set_update_subset_insert])
  have c: "map core (st_Players ?n) = map core ?ps" using recomputeFinalDecorations_core [of "s\<lparr>st_Players := ?ps\<rparr>"] by simp
  have same: "st_Phase ?n = st_Phase s" "st_CurrentRound ?n = st_CurrentRound s" "st_Config ?n = st_Config s"
    by (simp_all add: recomputeFinalDecorations_def)
  have dn: "dealt ?n = dealt s" unfolding dealt_def core_maps(1-3) [OF c] by (simp add: map_update_eq)
  have ac: "activeCount (st_Players ?n) = activeCount ?ps" by (rule activeCount_maps [OF core_maps(4) [OF c]])
  have n: "tr_inv ?n" if "\<not> activeCount (st_Players ?n) < MinimumPlayers"
  proof -
    have "tr_inv (s\<lparr>st_Players := ?ps\<rparr>)"
    proof (rule inv_update [OF inv])
      show "st_Phase s \<noteq> PhaseFinished \<longrightarrow> 2 \<le> activeCount ?ps" using that unfolding ac by (simp add: MinimumPlayers_def)
    qed (use all in \<open>auto intro!: map_update_eq\<close>)
    from inv_recompute [OF this] show ?thesis .
  qed
  from t i act nf consider fe where "finishWithReason ?n FinishInsufficientParticipants [] = (t, fe)"
    | es' where "\<not> activeCount (st_Players ?n) < MinimumPlayers" "selecting (st_Phase ?n)" "allActivePlayersSubmitted ?n" "settleCurrentSelection ?n now = Inr (t, es')"
    | "\<not> activeCount (st_Players ?n) < MinimumPlayers" "t = ?n \<or> t = recomputeFinalDecorations ?n"
    by (auto simp: RevokeParticipant_def outcome Let_def withdrawn_def validated_def split: if_splits prod.splits)
  then show ?thesis
  proof cases
    case 1
    note fs = finishWithReason_state [OF this]
    have "tr_inv t" using fs(4) c
      by (intro finished_inv [OF inv _ _ fs(1) vt, of ?ps]) (use all sound_finished mem in auto)
    moreover have "phase_no (st_Phase s) \<le> 7" by (cases "st_Phase s") auto
    moreover have "dealt t = dealt s" unfolding dn [symmetric] unfolding dealt_def core_maps(1-3) [OF fs(4)] ..
    ultimately show ?thesis using fs(1) by simp
  next
    case 2
    then show ?thesis using settleCurrentSelection_inv [OF n [OF 2(1)] 2(2,3,4)] same dn by simp
  next
    case 3
    have "st_Phase (recomputeFinalDecorations ?n) = st_Phase s" by (simp add: recomputeFinalDecorations_def)
    moreover have "dealt (recomputeFinalDecorations ?n) = dealt s"
      unfolding dn [symmetric] unfolding dealt_def core_maps(1-3) [OF recomputeFinalDecorations_core] ..
    ultimately show ?thesis using 3 n inv_recompute [of ?n] same dn by auto
  qed
qed

lemma Finish_inv:
  assumes inv: "tr_inv s" and t: "Finish s reason operator = Inr (t, es)" and vt: "tr_valid t"
  shows "tr_inv t \<and> phase_no (st_Phase s) \<le> phase_no (st_Phase t) \<and> dealt t = dealt s"
proof -
  from t have f: "finishWithReason s FinishHostRequested operator = (t, es)" by (auto simp: Finish_def outcome Let_def split: if_splits)
  note fs = finishWithReason_state [OF f]
  have "tr_inv t" using sound_finished by (intro finished_inv [OF inv fs(4) _ fs(1) vt]) auto
  moreover have "phase_no (st_Phase s) \<le> 7" by (cases "st_Phase s") auto
  moreover have "dealt t = dealt s" unfolding dealt_def core_maps(1-3) [OF fs(4)] ..
  ultimately show ?thesis using fs(1) by simp
qed

end
