(* ===== verification/ThreeSession.thy ===== *)
theory ThreeSession
  imports ThreeSteps
begin

text \<open>
  Sessions of three rounds: the first state with its deal, the engine as an instance of the session interface, timers, selections and the
  end by the host, and the final ranking.
\<close>

section \<open>The first state\<close>

definition shuffle_word :: "digest \<Rightarrow> u8 list \<Rightarrow> nat \<Rightarrow> u64" where
  "shuffle_word sha256 seed m = fst (nextU64 sha256 (stream_at sha256 (newShuffleStream seed) m))"

lemma stream_at_Suc: "snd (nextU64 sha256 (stream_at sha256 s m)) = stream_at sha256 s (Suc m)"
  by (simp add: stream_at_def)

lemma draw_found:
  assumes "\<exists>k. shuffle_word sha256 seed (m + k) < limit"
  shows "\<exists>k x. draw sha256 limit (stream_at sha256 (newShuffleStream seed) m) = Some (x, stream_at sha256 (newShuffleStream seed) k)"
proof -
  from assms obtain k where "shuffle_word sha256 seed (m + k) < limit" by blast
  then show ?thesis
  proof (induction k arbitrary: m)
    case 0
    then have "fst (nextU64 sha256 (stream_at sha256 (newShuffleStream seed) m)) < limit" by (simp add: shuffle_word_def)
    then have "draw sha256 limit (stream_at sha256 (newShuffleStream seed) m) =
        Some (fst (nextU64 sha256 (stream_at sha256 (newShuffleStream seed) m)), stream_at sha256 (newShuffleStream seed) (Suc m))"
      by (subst draw.simps) (simp add: split_beta stream_at_Suc)
    then show ?case by blast
  next
    case (Suc k)
    then have ih: "\<exists>k x. draw sha256 limit (stream_at sha256 (newShuffleStream seed) (Suc m)) = Some (x, stream_at sha256 (newShuffleStream seed) k)"
      by simp
    show ?case
    proof (cases "fst (nextU64 sha256 (stream_at sha256 (newShuffleStream seed) m)) < limit")
      case True
      then show ?thesis by (subst draw.simps) (auto simp: split_beta stream_at_Suc)
    next
      case False
      with ih show ?thesis by (subst draw.simps) (simp add: split_beta stream_at_Suc)
    qed
  qed
qed

text \<open>The hash yields an acceptable word from every position on, for every number of cards left.\<close>

definition fair_stream :: "digest \<Rightarrow> u8 list \<Rightarrow> bool" where
  "fair_stream sha256 seed \<longleftrightarrow> (\<forall>m n. 2 \<le> n \<and> n \<le> 54 \<longrightarrow> (\<exists>k. shuffle_word sha256 seed (m + k) < rejection_limit (of_nat n)))"

lemma shuffle_from_succeeds:
  assumes "fair_stream sha256 seed"
  shows "k \<le> 53 \<Longrightarrow> succeeds (shuffle_from sha256 k (stream_at sha256 (newShuffleStream seed) m) deck)"
proof (induction k arbitrary: m deck)
  case (Suc k)
  have "\<exists>i. shuffle_word sha256 seed (m + i) < rejection_limit (of_nat (Suc k + 1))"
    using assms [unfolded fair_stream_def, rule_format, of "Suc k + 1" m] Suc.prems by simp
  from draw_found [OF this] obtain x i where
    "draw sha256 (rejection_limit (of_nat (Suc k + 1))) (stream_at sha256 (newShuffleStream seed) m) = Some (x, stream_at sha256 (newShuffleStream seed) i)" by blast
  with Suc show ?case by (simp add: Let_def)
qed simp

lemma ShuffleDeck_swaps:
  assumes "ShuffleDeck sha256 seed = Inr deck"
  shows "\<exists>x. (\<forall>i. 1 \<le> i \<and> i \<le> 53 \<longrightarrow> x i < rejection_limit (of_nat (i + 1))) \<and>
    deck = swap_all (\<lambda>i. unat (x i mod of_nat (i + 1))) 53 deckOrdered"
proof (rule shuffle_from_swaps)
  show "shuffle_from sha256 53 (newShuffleStream seed) deckOrdered = Inr deck" using assms by (simp add: ShuffleDeck_def OrderedDeck_def)
qed simp

lemma ShuffleDeck_perm:
  assumes "ShuffleDeck sha256 seed = Inr deck"
  shows "mset deck = mset deckOrdered"
proof -
  from ShuffleDeck_swaps [OF assms] obtain x :: "nat \<Rightarrow> u64" where x: "deck = swap_all (\<lambda>i. unat (x i mod of_nat (i + 1))) 53 deckOrdered"
    by blast
  show ?thesis unfolding x
  proof (rule swap_all_mset)
    show "unat (x i mod of_nat (i + 1)) \<le> i" if "i \<le> 53" for i using that by (intro swap_index) simp
  qed simp
qed

lemma canonical_scan_iff:
  "canonical_scan us ss ps = Inr () \<longleftrightarrow>
     (\<forall>p \<in> set ps. pt_UserID p \<noteq> [] \<and> pt_UserID p \<notin> us \<and> pt_SeatIndex p \<notin> ss) \<and> distinct (map pt_UserID ps) \<and> distinct (map pt_SeatIndex ps)"
  by (induction us ss ps rule: canonical_scan.induct) (auto simp: outcome image_iff, metis+)

lemma canonicalParticipants_iff:
  "canonicalParticipants ps = Inr cs \<longleftrightarrow> 2 \<le> length ps \<and> length ps \<le> 9 \<and> cs = sortParticipants ps \<and>
     (\<forall>p \<in> set ps. pt_UserID p \<noteq> []) \<and> distinct (map pt_UserID ps) \<and> distinct (map pt_SeatIndex ps)"
  by (auto simp: canonicalParticipants_def outcome Let_def canonical_scan_iff sortParticipants_def MinimumPlayers_def MaximumPlayers_def
    distinct_map)

lemma sortParticipants_seats:
  assumes "distinct (map pt_SeatIndex ps)"
  shows "sorted_wrt (<) (map pt_SeatIndex (sortParticipants ps))"
proof -
  let ?key = "\<lambda>p. (pt_SeatIndex p, pt_UserID p)"
  have "sorted (map ?key (sort_key ?key ps))" by (rule sorted_sort_key)
  then have "sorted (map pt_SeatIndex (sort_key ?key ps))"
    unfolding sorted_map by (rule sorted_wrt_mono_rel [rotated]) (auto simp: less_eq_prod_def)
  moreover have "distinct (map pt_SeatIndex (sort_key ?key ps))" using assms by (simp add: distinct_map)
  ultimately show ?thesis by (simp add: sortParticipants_def strict_sorted_iff)
qed

lemma new_player_sound: "sound PhaseRoundOneSelecting (new_player hands p)"
  unfolding sound_def by (simp add: new_player_def no_selection_def current_cards_def piles_def played_def)

lemma NewState_inv:
  assumes "NewState sha256 cfg ps host now seed = Inr (s, es)"
  shows "tr_inv s" and "st_Phase s = PhaseRoundOneSelecting"
proof -
  from assms obtain cs deck hands rest dl events where c: "canonicalParticipants ps = Inr cs"
    and v: "validated \<lparr>st_SchemaVersion = CurrentSchemaVersion, st_Phase = PhaseRoundOneSelecting, st_CurrentRound = 1,
              st_PhaseDeadlineUnixMillis = dl, st_PhaseGeneration = 1, st_Config = cfg, st_HostUserID = host,
              st_Players = map (new_player hands) cs, st_RoundHistory = [], st_FinalSummary = no_final,
              st_FinishReason = []\<rparr> events = Inr (s, es)" (is "validated ?s _ = _")
    by (auto simp: NewState_def outcome)
  then have v: "tr_valid s" and "s = ?s" by (auto simp: validated_def tr_valid_def outcome)
  then have s: "st_Players s = map (new_player hands) cs" "st_Phase s = PhaseRoundOneSelecting" "st_PhaseGeneration s = 1"
      "st_CurrentRound s = 1" "st_RoundHistory s = []" "st_FinishReason s = []" by simp_all
  have "activeCount (st_Players s) = length cs" by (simp add: s tr.count_filter new_player_def comp_def)
  moreover have "2 \<le> length cs" using c by (auto simp: canonicalParticipants_iff sortParticipants_def)
  ultimately show "tr_inv s" using v s new_player_sound by (simp add: tr_inv_def running_def round_of_def rounds_of_def)
  show "st_Phase s = PhaseRoundOneSelecting" by (rule s)
qed

lemma NewState_succeeds:
  assumes "canonicalParticipants ps = Inr cs" and "Config_Validate cfg (length ps) = Inr ()" and "0 < now" and "now \<le> MaxInt64 - 120000"
    and "host \<in> pt_UserID ` set ps" and "fair_stream sha256 seed"
  shows "succeeds (NewState sha256 cfg ps host now seed)"
proof -
  have cs: "cs = sortParticipants ps" "\<forall>p \<in> set ps. pt_UserID p \<noteq> []" "distinct (map pt_UserID ps)" "distinct (map pt_SeatIndex ps)"
    and len: "2 \<le> length ps" "length ps \<le> 9" using assms(1) by (auto simp: canonicalParticipants_iff)
  have l: "length cs = length ps" and st: "set cs = set ps" by (simp_all add: cs(1) sortParticipants_def)
  have d: "distinct (map pt_UserID cs)" using cs by (simp add: sortParticipants_def distinct_map)
  have "succeeds (ShuffleDeck sha256 seed)" using shuffle_from_succeeds [OF assms(6), of 53 0 deckOrdered]
    by (simp add: ShuffleDeck_def OrderedDeck_def stream_at_def)
  then obtain deck where deck: "ShuffleDeck sha256 seed = Inr deck" by (auto simp: succeeds_def)
  have md: "mset deck = mset deckOrdered" by (rule ShuffleDeck_perm [OF deck])
  then have "length deck = 54" using mset_eq_length [OF md] by simp
  then obtain hands rest where dh: "DealHands cs deck = Inr (hands, rest)"
    using len l by (auto simp: DealHands_def MinimumPlayers_def MaximumPlayers_def)
  note dealt = DealHands_dealt [OF dh d]
  have mi: "mset (map cd_ID deck) = mset (map cd_ID deckOrdered)" using md by simp
  have di: "distinct (concat (map (\<lambda>p. hands (pt_UserID p)) cs) @ map cd_ID rest)"
    using deck_ids_distinct mset_eq_imp_distinct_iff [of "concat (map (\<lambda>p. hands (pt_UserID p)) cs) @ map cd_ID rest" "map cd_ID deckOrdered"]
      dealt(2) mi by simp
  have si: "set (concat (map (\<lambda>p. hands (pt_UserID p)) cs)) \<subseteq> cd_ID ` set deckOrdered"
    using mset_eq_setD [of "concat (map (\<lambda>p. hands (pt_UserID p)) cs) @ map cd_ID rest" "map cd_ID deckOrdered"] dealt(2) mi by auto
  have hand: "length (hands (pt_UserID p)) = 6 \<and> distinct (hands (pt_UserID p)) \<and> (\<forall>i \<in> set (hands (pt_UserID p)). known i)" if p: "p \<in> set cs" for p
  proof -
    from p obtain i where "i < length cs" "p = cs ! i" by (metis in_set_conv_nth)
    then have "length (hands (pt_UserID p)) = 6" using dealt(1) [of i] by simp
    moreover have "distinct (hands (pt_UserID p))" using di p by (auto simp: distinct_concat_iff)
    moreover have "\<forall>i \<in> set (hands (pt_UserID p)). known i" using si p by (auto simp: known_def)
    ultimately show ?thesis by blast
  qed
  from deadline_succeeds [OF assms(3,4,2), of PhaseRoundOneSelecting] obtain dl where dl: "deadlineForPhase now PhaseRoundOneSelecting cfg = Inr dl"
    by (auto simp: succeeds_def)
  define t where "t = \<lparr>st_SchemaVersion = CurrentSchemaVersion, st_Phase = PhaseRoundOneSelecting, st_CurrentRound = 1,
              st_PhaseDeadlineUnixMillis = dl, st_PhaseGeneration = 1, st_Config = cfg, st_HostUserID = host,
              st_Players = map (new_player hands) cs, st_RoundHistory = [], st_FinalSummary = no_final,
              st_FinishReason = []\<rparr>"
  have "roster host (st_Players t)"
    using d di sortParticipants_seats [OF cs(4)] assms(5) st by (auto simp: roster_def t_def new_player_def comp_def cs(1))
  moreover have "player_ok PhaseRoundOneSelecting 1 (new_player hands p)" if "p \<in> set cs" for p
    using hand [OF that] cs(2) st that by (simp add: player_ok_def cards_ok_def new_player_def no_selection_def current_cards_def)
  moreover have "timing_ok t" using timing_next [of now t "length ps"] assms(2) dl by (simp add: t_def)
  ultimately have "tr_valid t" using assms(2) l by (simp add: tr_valid_iff t_def history_ok_def)
  then have val: "validated t events = Inr (t, events)" for events by (simp add: validated_def tr_valid_def)
  show ?thesis unfolding NewState_def
    using assms(1,2,3,5) deck dh dl l st val by (auto simp: validUnixMillis_def list_ex_iff t_def [symmetric])
qed

section \<open>Sessions\<close>

text \<open>
  The commands that reach the engine. As \<open>Module.transition\<close> of \<open>module/module.go\<close> does, a step passes the state that the engine returns
  through \<open>Validate\<close> again before it is stored.
\<close>

datatype tr_command =
    DoSubmit string u32 "CardID list" i64
  | DoTimeout Timer i64
  | DoRevoke string i64
  | DoFinish string string

fun tr_engine :: "State \<Rightarrow> tr_command \<Rightarrow> (State \<times> Event list) result" where
  "tr_engine s (DoSubmit actor round cardIDs now) = SubmitSelection s actor round cardIDs False now"
| "tr_engine s (DoTimeout timer now) = HandleTimeout s timer now"
| "tr_engine s (DoRevoke userID now) = RevokeParticipant s userID now"
| "tr_engine s (DoFinish reason operator) = Finish s reason operator"

definition tr_step :: "State \<Rightarrow> tr_command \<Rightarrow> (State \<times> Event list) result" where
  "tr_step s c = and_then (tr_engine s c) (\<lambda>(t, events). validated t events)"

lemma tr_step_Inr: "tr_step s c = Inr (t, es) \<longleftrightarrow> tr_engine s c = Inr (t, es) \<and> tr_valid t"
  by (auto simp: tr_step_def outcome validated_def tr_valid_def)

lemma tr_step_inv:
  assumes "tr_inv s" and "tr_step s c = Inr (t, es)"
  shows "tr_inv t \<and> phase_no (st_Phase s) \<le> phase_no (st_Phase t) \<and> dealt t = dealt s"
proof (cases c)
  case (DoSubmit actor round cs now)
  with assms SubmitSelection_inv show ?thesis by (auto simp: tr_step_Inr)
next
  case (DoTimeout timer now)
  with assms HandleTimeout_inv [OF assms(1)] show ?thesis by (auto simp: tr_step_Inr)
next
  case (DoRevoke u now)
  with assms RevokeParticipant_inv show ?thesis by (auto simp: tr_step_Inr)
next
  case (DoFinish reason operator)
  with assms Finish_inv show ?thesis by (auto simp: tr_step_Inr)
qed

lemma tr_step_finished:
  assumes f: "st_Phase s = PhaseFinished"
  shows "\<exists>e. tr_step s c = Inl e"
proof -
  have "tr_engine s c \<noteq> Inr r" for r
    using f by (cases c) (auto simp: SubmitSelection_def validateSelectableAction_def HandleTimeout_def RevokeParticipant_def Finish_def outcome)
  then show ?thesis by (cases "tr_engine s c") (auto simp: tr_step_def)
qed

interpretation trs: session_engine tr_step "\<lambda>s. tr_inv s \<and> dealt s = hands" "\<lambda>s. st_Phase s = PhaseFinished" "\<lambda>s. phase_no (st_Phase s)" "\<lambda>_. True" for hands
proof unfold_locales
  fix s c t es
  assume "tr_inv s \<and> dealt s = hands" "tr_step s c = Inr (t, es)"
  then show "tr_inv t \<and> dealt t = hands" "phase_no (st_Phase s) \<le> phase_no (st_Phase t)" using tr_step_inv by auto
next
  fix s :: State and c
  assume "st_Phase s = PhaseFinished"
  then show "\<exists>e. tr_step s c = Inl e" using tr_step_finished by blast
qed

lemma timeout_succeeds:
  assumes inv: "tr_inv s" and nf: "st_Phase s \<noteq> PhaseFinished" and tm: "CurrentTimer s = Some timer"
    and now: "tm_DeadlineUnixMillis timer \<le> now" "0 < now" "now \<le> MaxInt64 - 120000"
  shows "\<exists>t es. tr_step s (DoTimeout timer now) = Inr (t, es) \<and> tr_inv t \<and> phase_no (st_Phase t) = Suc (phase_no (st_Phase s))"
proof -
  let ?auto = "s\<lparr>st_Players := map (automatic (st_CurrentRound s)) (st_Players s)\<rparr>"
  have tv: "tm_Phase timer = st_Phase s" "tm_Round timer = st_CurrentRound s" "tm_DeadlineUnixMillis timer = st_PhaseDeadlineUnixMillis s"
    "tm_PhaseGeneration timer = st_PhaseGeneration s" "st_PhaseDeadlineUnixMillis s \<noteq> 0"
    using tm by (auto simp: CurrentTimer_def split: if_splits)
  have v: "Validate s = Inr ()" and cfg: "Config_Validate (st_Config s) (length (st_Players s)) = Inr ()"
    using inv by (simp_all add: tr_inv_def tr_valid_def) (simp add: tr_valid_def [symmetric] tr_valid_iff)
  have d: "succeeds (deadlineForPhase now ph (st_Config s))" for ph using deadline_succeeds [OF now(2,3) cfg] .
  have "0 < phase_no (st_Phase s)" using inv by (simp add: tr_inv_def running_def)
  with nf consider "selecting (st_Phase s)" | "st_Phase s = PhaseRoundOneResult" | "st_Phase s = PhaseRoundTwoResult"
    | "st_Phase s = PhaseRoundThreeResult" | "st_Phase s = PhaseFinalResult" by (cases "st_Phase s") auto
  then have "succeeds (HandleTimeout s timer now)"
  proof cases
    case 1
    then obtain e where a: "auto_submit (st_CurrentRound s) (st_Players s) = Inr (map (automatic (st_CurrentRound s)) (st_Players s), e)"
      using auto_submit_eq [of "st_Players s" "st_CurrentRound s"] autoSelect_ok [OF inv _ _ 1] by (fastforce simp: succeeds_def)
    have "succeeds (settleCurrentSelection ?auto now)"
      using settleCurrentSelection_succeeds [OF automatic_inv(1) [OF inv 1] _ automatic_inv(2) [OF inv 1]] 1 d by simp
    then obtain r where "settleCurrentSelection ?auto now = Inr r" by (auto simp: succeeds_def)
    with a 1 v tv now show ?thesis by (auto simp: HandleTimeout_def validUnixMillis_def succeeds_def split_beta)
  next
    case 2
    obtain dl where "deadlineForPhase now PhaseRoundTwoSelecting (st_Config s) = Inr dl" using d by (auto simp: succeeds_def)
    from advancePhase_eq [OF inv 2 this] 2 v tv now show ?thesis by (auto simp: HandleTimeout_def validUnixMillis_def succeeds_def)
  next
    case 3
    from resolveRoundThree_eq(2) [OF inv 3, of now] d [of PhaseRoundThreeResult] 3 v tv now show ?thesis
      by (auto simp: HandleTimeout_def validUnixMillis_def succeeds_def)
  next
    case 4
    obtain dl where "deadlineForPhase now PhaseFinalResult (st_Config s) = Inr dl" using d by (auto simp: succeeds_def)
    from enterFinalResult_eq [OF inv 4 this] 4 v tv now show ?thesis by (auto simp: HandleTimeout_def validUnixMillis_def succeeds_def)
  next
    case 5
    with v tv now show ?thesis by (auto simp: HandleTimeout_def validUnixMillis_def succeeds_def finishNormally_def)
  qed
  then obtain t es where "HandleTimeout s timer now = Inr (t, es)" by (auto simp: succeeds_def)
  with HandleTimeout_inv [OF inv this] show ?thesis by (auto simp: tr_step_Inr tr_inv_def)
qed

lemma foldl_zero: "\<forall>b \<in> set bs. b = 0 \<Longrightarrow> foldl (\<lambda>acc b. acc * 256 + ucast (b :: u8)) (0 :: u64) bs = 0"
  by (induction bs) simp_all

lemma fair_zero: "fair_stream (\<lambda>_. replicate 32 0) seed"
proof -
  let ?sha = "\<lambda>_. replicate 32 (0 :: u8)"
  have "\<forall>b \<in> set (ss_buffer (stream_at ?sha (newShuffleStream seed) m)). b = 0" for m
  proof (induction m)
    case 0
    then show ?case by (simp add: stream_at_def newShuffleStream_def)
  next
    case (Suc m)
    then show ?case unfolding stream_at_Suc [symmetric] by (simp add: nextU64_def Let_def)
  qed
  then have "shuffle_word ?sha seed m = 0" for m
    unfolding shuffle_word_def nextU64_def Let_def BigEndian_Uint64_def
    by (auto intro!: foldl_zero dest!: in_set_takeD in_set_dropD)
  moreover have "0 < rejection_limit (of_nat n)" if "2 \<le> n" "n \<le> 54" for n
  proof -
    have "(2 ^ 64 - 1) mod n < 2 ^ 64 - (1 :: nat)" using that by (intro less_le_trans [OF mod_less_divisor]) auto
    moreover have "0 < n" "n < 2 ^ 64" using that by simp_all
    ultimately have "0 < unat (rejection_limit (of_nat n))" by (simp only: unat_rejection zero_less_diff)
    then show ?thesis by (simp add: word_less_nat_alt)
  qed
  ultimately show ?thesis by (simp add: fair_stream_def)
qed

lemma NewState_fields:
  assumes "NewState sha256 cfg ps host now seed = Inr (s, es)"
  shows "\<exists>cs hands. canonicalParticipants ps = Inr cs \<and> st_Players s = map (new_player hands) cs" and "st_Config s = cfg"
    and "deadlineForPhase now PhaseRoundOneSelecting cfg = Inr (st_PhaseDeadlineUnixMillis s)"
  using assms by (auto simp: NewState_def outcome validated_def)

section \<open>A legal selection is accepted\<close>

lemma SubmitSelection_accepted:
  assumes inv: "tr_inv s" and ph: "selecting (st_Phase s)" and now: "0 < now" "now \<le> MaxInt64 - 120000"
    and dl: "st_PhaseDeadlineUnixMillis s = 0 \<or> now < st_PhaseDeadlineUnixMillis s"
    and p: "p \<in> set (st_Players s)" "pl_Active p" "pl_PendingSelection p = no_selection"
    and cs: "distinct cs" "set cs \<subseteq> set (pl_RemainingHand p)" "length cs = (if st_CurrentRound s = 2 then 2 else 1)"
  shows "\<exists>t es. tr_step s (DoSubmit (pl_UserID p) (st_CurrentRound s) cs now) = Inr (t, es)"
proof -
  obtain i where il: "i < length (st_Players s)" "st_Players s ! i = p" using p(1) by (metis in_set_conv_nth)
  have i: "playerIndex (st_Players s) (pl_UserID p) = Some i" using tr.index_nth [OF inv_users [OF inv] il(1)] il(2) by simp
  have v: "Validate s = Inr ()" and r0: "st_CurrentRound s \<noteq> 0"
    and cfg: "Config_Validate (st_Config s) (length (st_Players s)) = Inr ()"
    using inv tr_valid_iff [of s] by (simp_all add: tr_inv_def tr_valid_def)
  have k: "\<forall>i \<in> set cs. known i" using hand_sizes(2) [OF inv p(1,2) ph] cs(2) by blast
  have val: "validateSelectableAction s (pl_UserID p) (st_CurrentRound s) cs now = Inr ()"
    using v ph now(1) dl i il(2) p(2,3) cs r0 k
    by (auto simp: validateSelectableAction_def validUnixMillis_def selection_scan_iff no_selection_def Let_def)
  let ?q = "submits (st_CurrentRound s) (canonicalSelection cs) False p"
  let ?n = "s\<lparr>st_Players := (st_Players s)[i := ?q]\<rparr>"
  have ok: "sound (st_Phase s) ?q" "player_ok (st_Phase s) (st_CurrentRound s) ?q"
    using submits_ok [OF inv_players [OF inv p(1)] ph p(2) r0] cs by simp_all
  have all: "player_ok (st_Phase s) (st_CurrentRound s) q \<and> sound (st_Phase s) q" if "q \<in> set ((st_Players s)[i := ?q])" for q
    using that ok inv_players [OF inv] by (auto dest!: subsetD [OF set_update_subset_insert])
  have n: "tr_inv ?n"
  proof (rule inv_update [OF inv])
    show "st_Phase s \<noteq> PhaseFinished \<longrightarrow> 2 \<le> activeCount ((st_Players s)[i := ?q])"
      using inv_running(5) [OF inv] il p(2) by (simp add: tr.count_update_same)
  qed (use all il(2) in \<open>auto intro!: map_update_eq\<close>)
  have "\<exists>t es. SubmitSelection s (pl_UserID p) (st_CurrentRound s) cs False now = Inr (t, es)"
  proof (cases "allActivePlayersSubmitted ?n")
    case True
    obtain t es where "settleCurrentSelection ?n now = Inr (t, es)"
      using settleCurrentSelection_succeeds [OF n _ True] ph deadline_succeeds [OF now cfg] by (fastforce simp: succeeds_def)
    with True val i il(2) show ?thesis by (auto simp: SubmitSelection_def submits_def Let_def)
  next
    case False
    with val i il(2) validated_inv [OF n] show ?thesis by (auto simp: SubmitSelection_def submits_def Let_def)
  qed
  then show ?thesis using SubmitSelection_inv [OF inv] by (auto simp: tr_step_Inr tr_inv_def)
qed

section \<open>The end by the host\<close>

lemma Finish_iff:
  assumes inv: "tr_inv s" and ph: "st_Phase s \<noteq> PhaseFinished" "st_Phase s \<noteq> PhaseFinalResult" and op: "operator \<noteq> []"
  shows "(\<exists>t es. tr_step s (DoFinish FinishHostRequested operator) = Inr (t, es)) \<longleftrightarrow>
    (\<forall>p \<in> set (st_Players s). pl_PendingSelection p = no_selection)"
proof -
  obtain t es where f: "finishWithReason s FinishHostRequested operator = (t, es)" by fastforce
  have "Finish s FinishHostRequested operator = Inr (t, es)"
    using inv ph op f by (simp add: Finish_def tr_inv_def tr_valid_def)
  then have "(\<exists>t es. tr_step s (DoFinish FinishHostRequested operator) = Inr (t, es)) \<longleftrightarrow> tr_valid t" by (auto simp: tr_step_Inr)
  then show ?thesis using finish_valid_iff [OF inv f] by (simp add: validFinishReason_def)
qed

section \<open>The final ranking\<close>

definition stronger :: "FinalStanding list \<Rightarrow> FinalStanding \<Rightarrow> nat" where
  "stronger standings x = length (filter (\<lambda>y. key_final x < key_final y) standings)"

lemma standing_key_antitone: "standing_key x \<le> standing_key y \<Longrightarrow> key_final y \<le> key_final x"
  by (cases "fs_WonRoundThree x"; cases "fs_WonRoundThree y"; cases "fs_WonRoundTwo x"; cases "fs_WonRoundTwo y";
      cases "fs_WonRoundOne x"; cases "fs_WonRoundOne y")
    (auto simp: standing_key_def key_final_def less_eq_prod_def less_prod_def boolToUint8_def word_less_def word_le_def word_uint_eq_iff)

lemma key_final_rank [simp]: "key_final (x\<lparr>fs_Rank := r\<rparr>) = key_final x" "key_final (x\<lparr>fs_Winner := w\<rparr>) = key_final x"
  by (simp_all add: key_final_def)

lemma stronger_append: "stronger (xs @ ys) x = stronger xs x + stronger ys x"
  by (simp add: stronger_def)

lemma stronger_none: "\<forall>y \<in> set ys. key_final y \<le> key_final x \<Longrightarrow> stronger ys x = 0"
  by (auto simp: stronger_def filter_empty_conv not_less)

lemma rank_standings_eq:
  "sorted_wrt (\<lambda>x y. key_final y \<le> key_final x) (pre @ previous # rest) \<Longrightarrow>
     position = of_nat (length pre + 1) \<Longrightarrow> rank = of_nat (1 + stronger pre previous) \<Longrightarrow>
     rank_standings previous position rank rest =
       map (\<lambda>x. x\<lparr>fs_Rank := of_nat (1 + stronger (pre @ previous # rest) x)\<rparr>) rest"
proof (induction rest arbitrary: pre previous position rank)
  case (Cons x rest)
  let ?rank = "if compareStandingKey x previous \<noteq> 0 then position + 1 else rank"
  have s: "sorted_wrt (\<lambda>x y. key_final y \<le> key_final x) ((pre @ [previous]) @ x # rest)" using Cons.prems(1) by simp
  have ord: "\<forall>y \<in> set pre. key_final previous \<le> key_final y" "key_final x \<le> key_final previous" "\<forall>y \<in> set rest. key_final y \<le> key_final x"
    using Cons.prems(1) by (auto simp: sorted_wrt_append)
  have l: "?rank = of_nat (1 + stronger (pre @ [previous]) x)"
  proof (cases "key_final x = key_final previous")
    case True
    then have "compareStandingKey x previous = 0" by (simp add: final.compare_key)
    moreover have "stronger (pre @ [previous]) x = stronger pre previous" using True by (simp add: stronger_def)
    ultimately show ?thesis using Cons.prems(3) by simp
  next
    case False
    then have "compareStandingKey x previous \<noteq> 0" by (simp add: final.compare_key)
    moreover have "\<forall>y \<in> set (pre @ [previous]). key_final x < key_final y" using False ord by (auto intro: order.strict_trans2)
    then have "stronger (pre @ [previous]) x = length pre + 1" by (simp add: stronger_def)
    ultimately show ?thesis using Cons.prems(2) by simp
  qed
  have p: "position + 1 = of_nat (length (pre @ [previous]) + 1)" using Cons.prems(2) by simp
  have "stronger (x # rest) x = 0" using ord(3) by (intro stronger_none) auto
  then have x: "stronger (pre @ previous # x # rest) x = stronger (pre @ [previous]) x"
    using stronger_append [of "pre @ [previous]" "x # rest" x] by simp
  have "rank_standings previous position rank (x # rest) = x\<lparr>fs_Rank := ?rank\<rparr> # rank_standings x (position + 1) ?rank rest" by (simp add: Let_def)
  also have "rank_standings x (position + 1) ?rank rest = map (\<lambda>y. y\<lparr>fs_Rank := of_nat (1 + stronger ((pre @ [previous]) @ x # rest) y)\<rparr>) rest"
    by (rule Cons.IH [OF s p l])
  finally show ?case unfolding l using x by simp
qed simp

lemma computeFinalSummary_ranked:
  fixes players :: "PlayerState list"
  defines "standings \<equiv> sort_key standing_key (map standing_of (filter pl_Active players))"
  shows "fm_Standings (computeFinalSummary players) =
      map (\<lambda>x. x\<lparr>fs_Rank := of_nat (1 + stronger standings x), fs_Winner := (stronger standings x = 0)\<rparr>) standings"
    and "fm_WinnerUserIDs (computeFinalSummary players) = sort (map fs_UserID (filter (\<lambda>x. stronger standings x = 0) standings))"
proof -
  have "sorted (map standing_key standings)" unfolding standings_def by (rule sorted_sort_key)
  then have sd: "sorted_wrt (\<lambda>x y. key_final y \<le> key_final x) standings"
    unfolding sorted_map by (rule sorted_wrt_mono_rel [rotated]) (rule standing_key_antitone)
  have unranked: "\<forall>x \<in> set standings. \<not> fs_Winner x" by (auto simp: standings_def standing_of_def)
  have "fm_Standings (computeFinalSummary players) =
      map (\<lambda>x. x\<lparr>fs_Rank := of_nat (1 + stronger standings x), fs_Winner := (stronger standings x = 0)\<rparr>) standings \<and>
    fm_WinnerUserIDs (computeFinalSummary players) = sort (map fs_UserID (filter (\<lambda>x. stronger standings x = 0) standings))"
  proof (cases standings)
    case Nil
    then show ?thesis by (simp add: computeFinalSummary_def standings_def no_final_def)
  next
    case (Cons first rest)
    then have fm: "\<forall>y \<in> set standings. key_final y \<le> key_final first" using sd by auto
    then have f0: "stronger standings first = 0" by (rule stronger_none)
    have st: "stronger standings x = 0 \<longleftrightarrow> key_final x = key_final first" if "x \<in> set standings" for x
    proof
      assume "stronger standings x = 0"
      then have "\<not> key_final x < key_final first" using Cons by (auto simp: stronger_def filter_empty_conv)
      then show "key_final x = key_final first" using fm that by fastforce
    next
      assume "key_final x = key_final first"
      then show "stronger standings x = 0" using fm by (intro stronger_none) simp
    qed
    have "rank_standings first 1 1 rest = map (\<lambda>x. x\<lparr>fs_Rank := of_nat (1 + stronger ([] @ first # rest) x)\<rparr>) rest"
      using sd by (intro rank_standings_eq) (auto simp: Cons stronger_def)
    then have ranked: "first\<lparr>fs_Rank := 1\<rparr> # rank_standings first 1 1 rest = map (\<lambda>x. x\<lparr>fs_Rank := of_nat (1 + stronger standings x)\<rparr>) standings"
      using f0 by (simp add: Cons)
    have c: "computeFinalSummary players =
        \<lparr>fm_Standings = map (\<lambda>x. if compareStandingKey x first = 0 then x\<lparr>fs_Winner := True\<rparr> else x)
           (map (\<lambda>x. x\<lparr>fs_Rank := of_nat (1 + stronger standings x)\<rparr>) standings),
         fm_WinnerUserIDs = sort (map fs_UserID (filter (\<lambda>x. compareStandingKey x first = 0)
           (map (\<lambda>x. x\<lparr>fs_Rank := of_nat (1 + stronger standings x)\<rparr>) standings)))\<rparr>"
      using Cons unfolding computeFinalSummary_def standings_def [symmetric] ranked [symmetric] by (simp add: Let_def)
    have "filter (\<lambda>x. key_final x = key_final first) standings = filter (\<lambda>x. stronger standings x = 0) standings"
      using st by (intro filter_cong) auto
    moreover have "fs_UserID (x\<lparr>fs_Rank := r\<rparr>) = fs_UserID x" for x r by simp
    moreover have "x\<lparr>fs_Rank := r, fs_Winner := False\<rparr> = x\<lparr>fs_Rank := r\<rparr>" if "x \<in> set standings" for x r
    proof -
      have "\<not> fs_Winner x" using unranked that by blast
      then show ?thesis by (cases x) simp
    qed
    ultimately show ?thesis unfolding c using st by (auto simp: final.compare_key filter_map comp_def)
  qed
  then show "fm_Standings (computeFinalSummary players) =
      map (\<lambda>x. x\<lparr>fs_Rank := of_nat (1 + stronger standings x), fs_Winner := (stronger standings x = 0)\<rparr>) standings"
    and "fm_WinnerUserIDs (computeFinalSummary players) = sort (map fs_UserID (filter (\<lambda>x. stronger standings x = 0) standings))"
    by blast+
qed

end
