(* ===== verification/ThreeRules.thy ===== *)
theory ThreeRules
  imports ThreeSession
begin

text \<open>
  The properties of three rounds: sessions stay sound and move on with every due timer, a start deals a uniformly shuffled deck, the rounds and
  the session are won by the strongest, jokers and the timer choose as the rules say, and a chosen card blocks the end of a session.
\<close>

section \<open>A session to apply the properties to\<close>

text \<open>Two players, the default configuration, and a hash that yields zeros only.\<close>

definition zero_hash :: digest where "zero_hash = (\<lambda>_. replicate 32 0)"

definition three_demo :: "(State \<times> Event list) result" where
  "three_demo = NewState zero_hash DefaultConfig
     [\<lparr>pt_UserID = ''u1'', pt_SeatIndex = 0\<rparr>, \<lparr>pt_UserID = ''u2'', pt_SeatIndex = 1\<rparr>] ''u1'' 1000 []"

lemma three_demo_participants:
  "canonicalParticipants [\<lparr>pt_UserID = ''u1'', pt_SeatIndex = 0\<rparr>, \<lparr>pt_UserID = ''u2'', pt_SeatIndex = 1\<rparr>] =
     Inr [\<lparr>pt_UserID = ''u1'', pt_SeatIndex = 0\<rparr>, \<lparr>pt_UserID = ''u2'', pt_SeatIndex = 1\<rparr>]"
  by (simp add: canonicalParticipants_iff sortParticipants_def)

lemma three_demo_config: "Config_Validate DefaultConfig 2 = Inr ()"
  by code_simp

lemma three_demo_ok: "three_demo = Inr (state_of three_demo, events_of three_demo)"
proof (rule ok_result)
  have "succeeds three_demo" unfolding three_demo_def
    by (rule NewState_succeeds [OF three_demo_participants])
      (simp_all add: three_demo_config numeral_2_eq_2 [symmetric] MaxInt64_def zero_hash_def fair_zero)
  then show "\<not> isl three_demo" by (metis sum.disc(2) succeeds_def)
qed

lemma three_demo_new:
  "NewState zero_hash DefaultConfig [\<lparr>pt_UserID = ''u1'', pt_SeatIndex = 0\<rparr>, \<lparr>pt_UserID = ''u2'', pt_SeatIndex = 1\<rparr>] ''u1'' 1000 [] =
     Inr (state_of three_demo, events_of three_demo)"
  unfolding three_demo_def [symmetric] by (rule three_demo_ok)

lemmas three_demo_inv = NewState_inv [OF three_demo_new]

lemma three_demo_deadline: "st_PhaseDeadlineUnixMillis (state_of three_demo) = 31000"
  using NewState_fields(3) [OF three_demo_new]
  by (simp add: deadlineForPhase_def addDeadline_def validUnixMillis_def DefaultConfig_def DefaultRoundOneTime_def MaxInt64_def Let_def)

lemma three_demo_fields: "st_CurrentRound (state_of three_demo) = 1" "st_PhaseGeneration (state_of three_demo) = 1"
  using inv_running(1,2) [OF three_demo_inv(1)] three_demo_inv(2) by (simp_all add: round_of_def)

definition three_demo_timer :: Timer where
  "three_demo_timer = \<lparr>tm_Phase = PhaseRoundOneSelecting, tm_Round = 1, tm_DeadlineUnixMillis = 31000, tm_PhaseGeneration = 1\<rparr>"

lemma three_demo_current: "CurrentTimer (state_of three_demo) = Some three_demo_timer"
  by (simp add: CurrentTimer_def three_demo_inv three_demo_deadline three_demo_fields three_demo_timer_def)


section \<open>Properties\<close>

text \<open>
  C5: Sessions are sound. Whatever commands follow a start, in whatever order, the stored state passes validation, the seats and the hands that
  were dealt never change, every player has exactly the cards of the hand that was dealt, an active player has played
  the cards of the rounds so far and no others, every point is a round won, and the round history and the generation are those of the phase.
\<close>

theorem tr_session_sound:
  assumes "NewState sha256 config participants host now seed = Inr (s0, es0)" and "run_session tr_step s0 cs = (s, es)"
  shows "Validate s = Inr () \<and> dealt s = dealt s0 \<and>
    (\<forall>p \<in> set (st_Players s). mset (current_cards p) = mset (pl_InitialHand p) \<and>
       (pl_Active p \<and> st_Phase s \<noteq> PhaseFinished \<longrightarrow> piles p = played (st_Phase s)) \<and>
       pl_TotalPoints p = of_bool (pl_WonRoundOne p) + of_bool (pl_WonRoundTwo p) + of_bool (pl_WonRoundThree p)) \<and>
    (st_Phase s \<noteq> PhaseFinished \<longrightarrow> st_PhaseGeneration s = of_nat (phase_no (st_Phase s)) \<and>
       map rs_Round (st_RoundHistory s) = rounds_of (st_Phase s) \<and> 2 \<le> activeCount (st_Players s))"
proof -
  have inv: "tr_inv s \<and> dealt s = dealt s0"
    using trs.session_inv [of s0 "dealt s0" cs] NewState_inv(1) [OF assms(1)] assms(2) by (simp add: list_all_iff)
  have "pl_TotalPoints p = of_bool (pl_WonRoundOne p) + of_bool (pl_WonRoundTwo p) + of_bool (pl_WonRoundThree p)" if "p \<in> set (st_Players s)" for p
    using inv_players [OF conjunct1 [OF inv] that] by (simp add: sound_def player_ok_def)
  moreover have "mset (current_cards p) = mset (pl_InitialHand p) \<and> (pl_Active p \<and> st_Phase s \<noteq> PhaseFinished \<longrightarrow> piles p = played (st_Phase s))"
    if "p \<in> set (st_Players s)" for p using inv_players(1) [OF conjunct1 [OF inv] that] unfolding sound_def by blast
  moreover have "Validate s = Inr ()" using inv by (simp add: tr_inv_def tr_valid_def)
  ultimately show ?thesis using inv inv_running(1,3,5) [OF conjunct1 [OF inv]] by blast
qed

theorem tr_session_sound_witness:
  "Validate (fst (run_session tr_step (state_of three_demo) [DoTimeout three_demo_timer 31000, DoFinish FinishHostRequested ''u1''])) = Inr ()"
proof -
  obtain s es where "run_session tr_step (state_of three_demo) [DoTimeout three_demo_timer 31000, DoFinish FinishHostRequested ''u1''] = (s, es)" by fastforce
  with tr_session_sound [OF three_demo_new this] show ?thesis by simp
qed

text \<open>
  C9: A due timer always moves a session on. In every state that a session reaches before it is finished, the timer is accepted once it
  is due and leads to the next of the seven phases, so that at most six timers finish the session; and there is a timer unless the
  configuration switches it off for the current choice.
\<close>

theorem tr_due_timer_advances:
  assumes "NewState sha256 config participants host start seed = Inr (s0, es0)" and "run_session tr_step s0 cs = (s, es)"
    and "st_Phase s \<noteq> PhaseFinished"
  shows "(selectionDeadlineEnabled (st_Phase s) (st_Config s) \<longrightarrow> CurrentTimer s \<noteq> None) \<and>
    (\<forall>timer now. CurrentTimer s = Some timer \<and> tm_DeadlineUnixMillis timer \<le> now \<and> 0 < now \<and> now \<le> MaxInt64 - 120000 \<longrightarrow>
       (\<exists>t ts. tr_step s (DoTimeout timer now) = Inr (t, ts) \<and> phase_no (st_Phase t) = Suc (phase_no (st_Phase s)))) \<and>
    phase_no (st_Phase s) < phase_no PhaseFinished"
proof -
  have inv: "tr_inv s"
    using trs.session_inv [of s0 "dealt s0" cs] NewState_inv(1) [OF assms(1)] assms(2) by (simp add: list_all_iff)
  then have "0 < phase_no (st_Phase s)" "timing_ok s" by (simp_all add: tr_inv_def running_def tr_valid_iff)
  then have "selectionDeadlineEnabled (st_Phase s) (st_Config s) \<longrightarrow> CurrentTimer s \<noteq> None"
    using assms(3) by (cases "st_Phase s") (auto simp: timing_ok_def CurrentTimer_def phaseRequiresDeadline_def)
  moreover have "phase_no (st_Phase s) < phase_no PhaseFinished" using assms(3) by (cases "st_Phase s") auto
  ultimately show ?thesis using timeout_succeeds [OF inv assms(3)] by blast
qed

theorem tr_due_timer_advances_witness:
  "\<exists>t ts. tr_step (state_of three_demo) (DoTimeout three_demo_timer 31000) = Inr (t, ts) \<and> phase_no (st_Phase t) = 2"
proof -
  have "st_Phase (state_of three_demo) \<noteq> PhaseFinished" by (simp add: three_demo_inv)
  from tr_due_timer_advances [OF three_demo_new, of "[]", OF _ this]
  show ?thesis using three_demo_current by (simp add: three_demo_timer_def three_demo_inv MaxInt64_def numeral_2_eq_2)
qed


section \<open>Who wins a round\<close>

lemma summary_winners [simp]: "rs_WinnerUserIDs (summary_of r b w rs) = sort w"
  by (simp add: summary_of_def canonicalRoundSummary_def)

lemma hands_disjoint:
  assumes "distinct (concat (map f xs))" and "x \<in> set xs" and "y \<in> set xs" and "i \<in> set (f x)" and "i \<in> set (f y)"
  shows "x = y"
  using assms by (induction xs) auto

lemma first_round_single:
  assumes inv: "tr_inv s" and ph: "st_Phase s = PhaseRoundOneSelecting" and p: "p \<in> set (st_Players s)" "plays 1 p"
    and q: "q \<in> set (st_Players s)" "plays 1 q" and eq: "key_one (comparison_one p) = key_one (comparison_one q)"
  shows "p = q"
proof -
  have r1: "st_CurrentRound s = 1" using inv_running(2) [OF inv] ph by (simp add: round_of_def)
  have c: "hd (chosen x) \<in> set (pl_InitialHand x) \<and> known (hd (chosen x))" if "x \<in> set (st_Players s)" "plays 1 x" for x
  proof -
    note sp = inv_players [OF inv that(1)]
    note sc = submitted_cards [OF sp(1) sp(2) [unfolded r1] that(2)]
    have "hd (chosen x) \<in> set (pl_RemainingHand x)" using sc(2,3) by (cases "chosen x") auto
    then have "hd (chosen x) \<in> set (current_cards x)" by (simp add: current_cards_def)
    moreover have "set (current_cards x) = set (pl_InitialHand x)" using sp(1) unfolding sound_def by (metis mset_eq_setD)
    moreover have "\<forall>i \<in> set (current_cards x). known i" using sp(2) by (simp add: player_ok_def cards_ok_def)
    ultimately show ?thesis by blast
  qed
  have "card_of (hd (chosen p)) = card_of (hd (chosen q))"
    using eq known_card c [OF p] c [OF q] inj_onD [OF strength_inj] by (simp add: key_one_def comparison_one_def)
  then have "hd (chosen p) = hd (chosen q)" using c [OF p] c [OF q] inj_onD [OF card_of_inj] by simp
  moreover have "distinct (concat (map pl_InitialHand (st_Players s)))" using inv by (simp add: tr_inv_def tr_valid_iff roster_def)
  ultimately show ?thesis using hands_disjoint [OF _ p(1) q(1)] c [OF p] c [OF q] by metis
qed

lemma winners_one_single:
  assumes inv: "tr_inv s" and ph: "st_Phase s = PhaseRoundOneSelecting" and all: "allActivePlayersSubmitted s"
  shows "\<exists>u. winners_one (st_Players s) = [u]"
proof -
  let ?xs = "filter (plays 1) (st_Players s)" and ?W = "winners_one (st_Players s)"
  have set: "set ?W = pl_UserID ` {p \<in> set ?xs. \<forall>q \<in> set ?xs. key_one (comparison_one q) \<le> key_one (comparison_one p)}"
    unfolding winners_one_def by (rule one.tally_winners)
  have d: "distinct ?W" unfolding winners_one_def using inv_users [OF inv] by (intro one.tally_distinct) (simp add: distinct_map_filter)
  have "0 < activeCount (st_Players s)" using inv_running(5) [OF inv] ph by simp
  then obtain p where p: "p \<in> set (st_Players s)" "pl_Active p" using nth_mem by (auto simp: tr.count_pos_iff)
  then have "plays 1 p" using submitted_plays [OF inv all p(1)] ph by (simp add: round_of_def)
  then have "?xs \<noteq> []" using p(1) by (auto simp: filter_empty_conv)
  then have ne: "?W \<noteq> []" unfolding winners_one_def by (rule one.tally_some_winner)
  have same: "u = v" if uv: "u \<in> set ?W" "v \<in> set ?W" for u v
  proof -
    from uv obtain p q where pq: "u = pl_UserID p" "v = pl_UserID q" "p \<in> set ?xs" "q \<in> set ?xs"
      "\<forall>r \<in> set ?xs. key_one (comparison_one r) \<le> key_one (comparison_one p)" "\<forall>r \<in> set ?xs. key_one (comparison_one r) \<le> key_one (comparison_one q)"
      unfolding set by blast
    then have "key_one (comparison_one p) = key_one (comparison_one q)" by (meson order.antisym)
    with pq first_round_single [OF inv ph, of p q] show ?thesis by simp
  qed
  obtain u us where W: "?W = u # us" using ne by (cases ?W) auto
  have "us = []"
  proof (rule ccontr)
    assume "us \<noteq> []"
    then obtain v where "v \<in> set us" by (cases us) auto
    then show False using same [of u v] d W by auto
  qed
  with W show ?thesis by blast
qed

text \<open>
  C12: The winners of the first two rounds are the strongest players. When a round of selections is settled, the first is won by exactly one
  player, the one whose card is the greatest by rank and then by suit; the second by those with the most points and then the highest cards
  among the hands that are not above ten and a half points, and by nobody if all are.
\<close>

theorem tr_round_winners:
  assumes "tr_inv s" and "allActivePlayersSubmitted s" and "settleCurrentSelection s now = Inr (t, es)"
  shows "set (rs_WinnerUserIDs (last (st_RoundHistory t))) =
      (if st_Phase s = PhaseRoundOneSelecting
       then pl_UserID ` {p \<in> set (st_Players s). pl_Active p \<and>
         (\<forall>q \<in> set (st_Players s). pl_Active q \<longrightarrow> key_one (comparison_one q) \<le> key_one (comparison_one p))}
       else pl_UserID ` {p \<in> set (st_Players s). pl_Active p \<and> \<not> c2_Busted (evaluation_two p) \<and>
         (\<forall>q \<in> set (st_Players s). pl_Active q \<and> \<not> c2_Busted (evaluation_two q) \<longrightarrow> key_two (evaluation_two q) \<le> key_two (evaluation_two p))}) \<and>
    (st_Phase s = PhaseRoundOneSelecting \<longrightarrow> length (rs_WinnerUserIDs (last (st_RoundHistory t))) = 1)"
proof -
  have "selecting (st_Phase s)" using assms(3) by (auto simp: settleCurrentSelection_def split: Phase.splits)
  then show ?thesis
  proof
    assume ph: "st_Phase s = PhaseRoundOneSelecting"
    have pl: "plays 1 p \<longleftrightarrow> pl_Active p" if "p \<in> set (st_Players s)" for p
      using submitted_plays [OF assms(1,2) that] ph by (auto simp: round_of_def plays_def)
    obtain d where "t = settled_one s d"
      using assms(3) ph by (auto simp: settleCurrentSelection_def settleRoundOne_eq(2) [OF assms(1) ph assms(2)] outcome)
    then have w: "rs_WinnerUserIDs (last (st_RoundHistory t)) = sort (winners_one (st_Players s))" by (simp add: settled_one_def)
    obtain u where "winners_one (st_Players s) = [u]" using winners_one_single [OF assms(1) ph assms(2)] by blast
    moreover have "set (winners_one (st_Players s)) = pl_UserID ` {p \<in> set (st_Players s). pl_Active p \<and>
        (\<forall>q \<in> set (st_Players s). pl_Active q \<longrightarrow> key_one (comparison_one q) \<le> key_one (comparison_one p))}"
      unfolding winners_one_def one.tally_winners using pl by (intro image_cong) auto
    ultimately show ?thesis unfolding w using ph by simp
  next
    assume ph: "st_Phase s = PhaseRoundTwoSelecting"
    have pl: "in_play p \<longleftrightarrow> pl_Active p \<and> \<not> c2_Busted (evaluation_two p)" if "p \<in> set (st_Players s)" for p
      using submitted_plays [OF assms(1,2) that] ph by (auto simp: round_of_def plays_def in_play_def)
    obtain d where "t = settled_two s d"
      using assms(3) ph by (auto simp: settleCurrentSelection_def settleRoundTwo_eq(2) [OF assms(1) ph assms(2)] outcome)
    then have w: "rs_WinnerUserIDs (last (st_RoundHistory t)) = sort (winners_two (st_Players s))" by (simp add: settled_two_def)
    have "set (winners_two (st_Players s)) = pl_UserID ` {p \<in> set (st_Players s). pl_Active p \<and> \<not> c2_Busted (evaluation_two p) \<and>
        (\<forall>q \<in> set (st_Players s). pl_Active q \<and> \<not> c2_Busted (evaluation_two q) \<longrightarrow> key_two (evaluation_two q) \<le> key_two (evaluation_two p))}"
      unfolding winners_two_def two.tally_winners using pl by (intro image_cong) auto
    then show ?thesis unfolding w using ph by simp
  qed
qed

definition three_demo_chosen :: State where
  "three_demo_chosen = (state_of three_demo)\<lparr>st_Players := map (automatic 1) (st_Players (state_of three_demo))\<rparr>"

lemmas three_demo_chosen_inv = automatic_inv [OF three_demo_inv(1), unfolded three_demo_inv(2) three_demo_fields, folded three_demo_chosen_def]

theorem tr_round_winners_witness:
  "\<exists>t es. settleCurrentSelection three_demo_chosen 31000 = Inr (t, es) \<and> length (rs_WinnerUserIDs (last (st_RoundHistory t))) = 1"
proof -
  have ph: "st_Phase three_demo_chosen = PhaseRoundOneSelecting" by (simp add: three_demo_chosen_def three_demo_inv)
  have cfg: "Config_Validate (st_Config three_demo_chosen) (length (st_Players three_demo_chosen)) = Inr ()"
    using three_demo_chosen_inv(1) by (simp add: tr_inv_def tr_valid_iff)
  have "succeeds (settleCurrentSelection three_demo_chosen 31000)"
    using settleCurrentSelection_succeeds [OF three_demo_chosen_inv(1) _ three_demo_chosen_inv(2)] deadline_succeeds [OF _ _ cfg] ph
    by (simp add: MaxInt64_def)
  then obtain t es where t: "settleCurrentSelection three_demo_chosen 31000 = Inr (t, es)" by (auto simp: succeeds_def)
  from tr_round_winners [OF _ _ t] three_demo_chosen_inv ph t show ?thesis by auto
qed


text \<open>
  C25: The timer chooses the weakest cards. In a selecting phase, the automatic selection of an active player in a state of a session succeeds;
  in the first round it is a card of the hand than which no other is smaller by rank and suit, in the second a pair of cards of the hand
  than which no other pair is smaller: not above ten and a half first, then by points, ranks and position in the deck.
\<close>

theorem tr_auto_weakest:
  assumes "tr_inv s" and "st_Phase s = PhaseRoundOneSelecting \<or> st_Phase s = PhaseRoundTwoSelecting"
    and "p \<in> set (st_Players s)" and "pl_Active p"
  shows "if st_Phase s = PhaseRoundOneSelecting
    then \<exists>i \<in> set (pl_RemainingHand p). autoSelect p (st_CurrentRound s) = Inr [i] \<and>
      (\<forall>k \<in> set (pl_RemainingHand p). auto_key (card_of i) \<le> auto_key (card_of k))
    else \<exists>i \<in> set (pl_RemainingHand p). \<exists>k \<in> set (pl_RemainingHand p). i \<noteq> k \<and>
      autoSelect p (st_CurrentRound s) = Inr (canonicalSelection [i, k]) \<and>
      (\<forall>u \<in> set (pl_RemainingHand p). \<forall>v \<in> set (pl_RemainingHand p). u \<noteq> v \<longrightarrow>
         pair_key (card_of i) (card_of k) \<le> pair_key (card_of u) (card_of v))"
proof -
  note h = hand_sizes [OF assms(1,3,4,2)]
  have r: "st_CurrentRound s = round_of (st_Phase s)" using inv_running(2) [OF assms(1)] assms(2) by auto
  have "pl_RemainingHand p \<noteq> []" "2 \<le> length (pl_RemainingHand p)" using h(3) by auto
  with r assms(2) autoSelect_one [OF _ h(2)] autoSelect_two [OF h(1,2)] show ?thesis by (auto simp: round_of_def)
qed

theorem tr_auto_weakest_witness:
  "\<exists>i \<in> set (pl_RemainingHand (hd (st_Players (state_of three_demo)))). autoSelect (hd (st_Players (state_of three_demo))) 1 = Inr [i]"
proof -
  obtain cs hands where "canonicalParticipants [\<lparr>pt_UserID = ''u1'', pt_SeatIndex = 0\<rparr>, \<lparr>pt_UserID = ''u2'', pt_SeatIndex = 1\<rparr>] = Inr cs"
    "st_Players (state_of three_demo) = map (new_player hands) cs" using NewState_fields(1) [OF three_demo_new] by blast
  then have "hd (st_Players (state_of three_demo)) \<in> set (st_Players (state_of three_demo))" "pl_Active (hd (st_Players (state_of three_demo)))"
    by (auto simp: three_demo_participants new_player_def)
  from tr_auto_weakest [OF three_demo_inv(1) _ this] show ?thesis by (auto simp: three_demo_inv three_demo_fields)
qed

text \<open>
  C13: The final ranking is a ranking. The standings are those of the active players, the rank of each is one more than the number of
  standings that are strictly stronger (by points, then by the third, second and first round won), the winners are exactly the
  standings with nobody above them, and their identifiers are listed in order.
\<close>

theorem tr_final_ranking:
  "mset (map fs_UserID (fm_Standings (computeFinalSummary players))) = mset (map pl_UserID (filter pl_Active players)) \<and>
   (\<forall>x \<in> set (fm_Standings (computeFinalSummary players)).
      fs_Rank x = of_nat (1 + length (filter (\<lambda>y. key_final x < key_final y) (fm_Standings (computeFinalSummary players)))) \<and>
      fs_Winner x = (\<forall>y \<in> set (fm_Standings (computeFinalSummary players)). key_final y \<le> key_final x)) \<and>
   fm_WinnerUserIDs (computeFinalSummary players) = sort (map fs_UserID (filter fs_Winner (fm_Standings (computeFinalSummary players))))"
proof -
  let ?st = "sort_key standing_key (map standing_of (filter pl_Active players))"
  let ?f = "\<lambda>x. x\<lparr>fs_Rank := of_nat (1 + stronger ?st x), fs_Winner := (stronger ?st x = 0)\<rparr>"
  note c = computeFinalSummary_ranked [of players]
  have k: "key_final (?f x) = key_final x" for x by (simp add: key_final_def)
  have s: "length (filter (\<lambda>y. key_final (?f x) < key_final y) (map ?f ?st)) = stronger ?st x" for x
    by (simp only: filter_map length_map comp_def k) (simp only: stronger_def)
  have w: "stronger ?st x = 0 \<longleftrightarrow> (\<forall>y \<in> set ?st. key_final y \<le> key_final x)" for x
    by (auto simp: stronger_def filter_empty_conv not_less)
  have "mset (map fs_UserID (map ?f ?st)) = mset (map fs_UserID ?st)" by (simp add: comp_def)
  also have "\<dots> = mset (map pl_UserID (filter pl_Active players))"
    by (simp only: mset_map mset_sort) (simp add: multiset.map_comp comp_def standing_of_def)
  finally have m: "mset (map fs_UserID (map ?f ?st)) = mset (map pl_UserID (filter pl_Active players))" .
  have r: "\<forall>x \<in> set (map ?f ?st). fs_Rank x = of_nat (1 + length (filter (\<lambda>y. key_final x < key_final y) (map ?f ?st))) \<and>
      fs_Winner x = (\<forall>y \<in> set (map ?f ?st). key_final y \<le> key_final x)"
  proof
    fix x assume "x \<in> set (map ?f ?st)"
    then obtain y where y: "x = ?f y" "y \<in> set ?st" by auto
    have "(\<forall>z \<in> set (map ?f ?st). key_final z \<le> key_final x) \<longleftrightarrow> (\<forall>z \<in> set ?st. key_final z \<le> key_final y)"
      unfolding y(1) k by (simp only: set_map ball_simps k)
    then show "fs_Rank x = of_nat (1 + length (filter (\<lambda>y. key_final x < key_final y) (map ?f ?st))) \<and>
        fs_Winner x = (\<forall>y \<in> set (map ?f ?st). key_final y \<le> key_final x)"
      unfolding y(1) s w [symmetric] by simp
  qed
  have "map fs_UserID (filter fs_Winner (map ?f ?st)) = map fs_UserID (filter (\<lambda>x. stronger ?st x = 0) ?st)"
    by (simp add: filter_map comp_def)
  with m r show ?thesis unfolding c by presburger
qed

theorem tr_final_ranking_witness:
  "mset (map fs_UserID (fm_Standings (computeFinalSummary (st_Players (state_of three_demo))))) = mset (map pl_UserID (filter pl_Active (st_Players (state_of three_demo))))"
  using tr_final_ranking [of "st_Players (state_of three_demo)"] by blast




text \<open>
  C24: A start deals the shuffled deck. A session with an acceptable configuration and a stream that does not run dry starts; the players
  are seated in the order of their seats, and the cards of the shuffled deck, which are those of the ordered one, are dealt one
  by one, six rounds around the table.
\<close>

theorem tr_start_deals:
  assumes "canonicalParticipants ps = Inr cs" and "Config_Validate cfg (length ps) = Inr ()" and "0 < now" and "now \<le> MaxInt64 - 120000"
    and "host \<in> pt_UserID ` set ps" and "fair_stream sha256 seed"
  shows "\<exists>s es deck. NewState sha256 cfg ps host now seed = Inr (s, es) \<and> ShuffleDeck sha256 seed = Inr deck \<and>
    mset deck = mset OrderedDeck \<and> sorted_wrt (<) (map pl_SeatIndex (st_Players s)) \<and>
    mset (map (\<lambda>p. (pl_UserID p, pl_SeatIndex p)) (st_Players s)) = mset (map (\<lambda>p. (pt_UserID p, pt_SeatIndex p)) ps) \<and>
    (\<forall>i < length ps. pl_InitialHand (st_Players s ! i) = map (\<lambda>r. cd_ID (deck ! (r * length ps + i))) [0..<6])"
proof -
  obtain s es where s: "NewState sha256 cfg ps host now seed = Inr (s, es)" using NewState_succeeds [OF assms] by (auto simp: succeeds_def)
  then obtain deck hands rest where d: "ShuffleDeck sha256 seed = Inr deck" "DealHands cs deck = Inr (hands, rest)"
    and ps: "st_Players s = map (new_player hands) cs"
    using assms(1) by (auto simp: NewState_def outcome validated_def)
  have cs: "cs = sortParticipants ps" "distinct (map pt_UserID ps)" "distinct (map pt_SeatIndex ps)"
    using assms(1) by (auto simp: canonicalParticipants_iff)
  then have "distinct (map pt_UserID cs)" "length cs = length ps" by (simp_all add: sortParticipants_def distinct_map)
  then have "\<forall>i < length ps. pl_InitialHand (st_Players s ! i) = map (\<lambda>r. cd_ID (deck ! (r * length ps + i))) [0..<6]"
    using DealHands_dealt(1) [OF d(2)] by (simp add: ps new_player_def del: upt_Suc)
  moreover have "sorted_wrt (<) (map pl_SeatIndex (st_Players s))"
    using sortParticipants_seats [OF cs(3)] by (simp add: ps cs(1) new_player_def comp_def)
  moreover have "mset (map (\<lambda>p. (pl_UserID p, pl_SeatIndex p)) (st_Players s)) = mset (map (\<lambda>p. (pt_UserID p, pt_SeatIndex p)) ps)"
    by (simp add: ps cs(1) new_player_def comp_def sortParticipants_def)
  ultimately show ?thesis using s d(1) ShuffleDeck_perm [OF d(1)] by (auto simp: OrderedDeck_def)
qed

theorem tr_start_deals_witness:
  "\<exists>s es. NewState zero_hash DefaultConfig [\<lparr>pt_UserID = ''u1'', pt_SeatIndex = 0\<rparr>, \<lparr>pt_UserID = ''u2'', pt_SeatIndex = 1\<rparr>] ''u1'' 1000 [] = Inr (s, es) \<and>
     (\<forall>i < 2. length (pl_InitialHand (st_Players s ! i)) = 6)"
  using tr_start_deals [OF three_demo_participants, of DefaultConfig 1000 "''u1''" zero_hash "[]"]
  by (auto simp: three_demo_config numeral_2_eq_2 [symmetric] MaxInt64_def zero_hash_def fair_zero simp del: upt_Suc)

text \<open>
  C11: Jokers stand for the best cards. A third hand of three cards of the deck is always resolved: its jokers stand for distinct ordinary
  cards that are not in the hand, no other choice gives a hand of a better class or better values, and of equally good ones the choice with
  the smallest positions in the deck is taken.
\<close>

theorem tr_jokers_best:
  assumes "distinct cs" and "set cs \<subseteq> set OrderedDeck" and "length cs = 3"
  shows "\<exists>r a. resolveThirdHand cs = Inr r \<and> a \<in> substitutes (3 - length (normals cs)) (normals cs) \<and>
    classifyThird (normals cs @ a) = Inr (tr_Comparison r) \<and> tr_ResolvedCards r = toResolvedCardIDs (normals cs @ a) \<and>
    substitutionOrdinals (tr_WildcardResolution r) = map cd_Ordinal a \<and>
    (\<forall>b \<in> substitutes (3 - length (normals cs)) (normals cs). preferred (normals cs) a b)"
proof -
  obtain r a where a: "resolveThirdHand cs = Inr r" "a \<in> substitutes (3 - length (normals cs)) (normals cs)"
      "tr_Comparison r = third_class (normals cs @ a)" "tr_ResolvedCards r = toResolvedCardIDs (normals cs @ a)"
      "substitutionOrdinals (tr_WildcardResolution r) = map cd_Ordinal a"
      "\<forall>b \<in> substitutes (3 - length (normals cs)) (normals cs). preferred (normals cs) a b"
    using resolveThirdHand_optimal [OF assms(1) _ assms(3)] assms(2) unfolding OrderedDeck_def by blast
  then have "3 \<le> length (normals cs @ a)" by (simp add: substitutes_def)
  from classifyThird_eq [OF this] a show ?thesis by auto
qed

theorem tr_jokers_best_witness:
  "\<exists>r a. resolveThirdHand (drop 51 OrderedDeck) = Inr r \<and> length a = 2 \<and> classifyThird (normals (drop 51 OrderedDeck) @ a) = Inr (tr_Comparison r)"
proof -
  have "distinct (drop 51 OrderedDeck)" "length (drop 51 OrderedDeck) = 3" using deck_ids_distinct
    by (auto simp: OrderedDeck_def distinct_map)
  moreover have "length (normals (drop 51 OrderedDeck)) = 1" by code_simp
  ultimately show ?thesis using tr_jokers_best [of "drop 51 OrderedDeck"] by (auto simp: substitutes_def set_drop_subset)
qed

text \<open>
  C26: A choice blocks the end of a session. The host can finish a session before its last phase exactly when no player has a card chosen
  for the round in progress: the finished state keeps the choices, and validation rejects it.
\<close>

theorem tr_finish_blocked:
  assumes "tr_inv s" and "st_Phase s \<noteq> PhaseFinished" and "st_Phase s \<noteq> PhaseFinalResult" and "operator \<noteq> []"
  shows "(\<exists>t es. tr_step s (DoFinish FinishHostRequested operator) = Inr (t, es)) \<longleftrightarrow>
    (\<forall>p \<in> set (st_Players s). pl_PendingSelection p = no_selection)"
  by (rule Finish_iff [OF assms])

theorem tr_finish_blocked_witness:
  "\<not> (\<exists>t es. tr_step three_demo_chosen (DoFinish FinishHostRequested ''u1'') = Inr (t, es))"
proof -
  have ph: "st_Phase three_demo_chosen = PhaseRoundOneSelecting" by (simp add: three_demo_chosen_def three_demo_inv)
  obtain cs hands where "canonicalParticipants [\<lparr>pt_UserID = ''u1'', pt_SeatIndex = 0\<rparr>, \<lparr>pt_UserID = ''u2'', pt_SeatIndex = 1\<rparr>] = Inr cs"
    "st_Players (state_of three_demo) = map (new_player hands) cs" using NewState_fields(1) [OF three_demo_new] by blast
  then have "\<exists>p \<in> set (st_Players three_demo_chosen). pl_PendingSelection p \<noteq> no_selection"
    by (auto simp: three_demo_participants three_demo_chosen_def new_player_def automatic_def submits_def no_selection_def)
  with tr_finish_blocked [OF three_demo_chosen_inv(1), of "''u1''"] ph show ?thesis by auto
qed

end
