(* ===== verification/Spec2Isabelle.thy ===== *)
theory Spec2Isabelle
  imports LiarsDiceRules Dice789Rules MeetRules RoomRules OutboxRules RateRules ThreeRules
begin

text \<open>
  A verification library for the party game platform of this repository. The program is a set of Go packages: game
  engines that know only the rules (\<open>games/*/engine\<close>), an SDK with the primitives the engines share
  (\<open>sdk/go/game\<close>), and a platform around them (\<open>platform/*\<close>) whose centre is the room: who is in it, who plays,
  which session runs. An engine is a set of pure functions from a state and an action to a new state with events; the
  runtime stores the state and delivers timers. The room is an aggregate whose commands return a new room, which
  the repository commits by compare-and-swap on the versions of the old one.

  \<^bold>\<open>Foundations.\<close>
  \<^item> \<open>Prelude\<close>: machine integers, the error type of the engines (\<open>RuleError\<close>, and \<open>Panic\<close> and \<open>Diverge\<close> for what Go would
    do instead of returning), the sequencing operator \<open>and_then\<close> for \<open>if err != nil { return err }\<close>, and the collections
    \<open>outcome\<close> and \<open>no_panic_intros\<close> that the component proofs use.
  \<^item> \<open>Contract\<close>: \<open>ParseIdentifier\<close> of \<open>sdk/go/game/manifest.go\<close>.
  \<^item> \<open>Dice\<close>: \<open>sdk/go/game/dice\<close>. A roll samples faces from SHA-256 with rejection; the hash is a parameter, and the
    256 attempts of the source are a recursion over the attempts that are left. \<open>Ticks\<close> are 32-bit words with checked
    addition; seats are traversed in both directions.
  \<^item> \<open>Players\<close>: the interfaces \<open>player_table\<close>, \<open>turn_order\<close> and \<open>session_engine\<close> as locales, interpreted for the engines.
  \<^item> \<open>Versioned\<close>: optimistic concurrency as a locale \<open>versioned_store\<close>, interpreted for rooms, and moves of several parties
    on a growing store as a locale \<open>growing_store\<close>, interpreted for the outbox.

  \<^bold>\<open>Liar's dice\<close> (\<open>games/liars-dice/engine\<close>). \<open>LiarsDice\<close> has the types, the configuration, the order of bids, and every
  function on a state, with the names of the source; \<open>LiarsDiceProps\<close> shows what validation means and what each
  function keeps; \<open>LiarsDiceRules\<close> holds the properties: sessions stay valid, opening charges the right player once, a due
  timer is handled and fires once, chains of bids are bounded, dice stay secret until they are opened, and a finished session
  is final.

  \<^bold>\<open>Dice 789\<close> (\<open>games/dice-789/engine\<close>). \<open>Dice789\<close> is the engine; \<open>Dice789Props\<close> and \<open>Dice789Inv\<close> read off validation as a
  predicate and show that every action keeps it; \<open>Dice789Session\<close> and \<open>Dice789Live\<close> treat whole sessions, the absence of
  panics, progress and timers; \<open>Dice789Rules\<close> holds the properties. Two of them show defects: a deadline error that
  is discarded, and a check that validation of a snapshot lacks.

  \<^bold>\<open>Meet by chance\<close> (\<open>games/meet-by-chance/engine\<close>). \<open>MeetHands\<close> has the configuration and the hands, \<open>MeetOrder\<close> shows
  that hands are compared by a total preorder and that classification finds the strongest interpretation, \<open>Meet\<close> is the
  engine; the loop over the batches of equal hands has a measure. \<open>MeetProps\<close>, \<open>MeetTable\<close> and \<open>MeetRound\<close> follow
  hands, table, penalties and target through a round, \<open>MeetValid\<close> reads off validation, \<open>MeetSteps\<close> treats the commands,
  \<open>MeetLive\<close> the absence of panics and the start of rounds, \<open>MeetSession\<close> whole sessions, and \<open>MeetRules\<close> holds the
  properties. One shows a defect: a second capped resolution in one round leaves a state that validation rejects.

  \<^bold>\<open>Three rounds\<close> (\<open>games/three-rounds/engine\<close>). \<open>ThreeCards\<close> has the deck and the shuffle, \<open>ThreeRounds\<close> the configuration,
  the hands, validation and every function on a state. \<open>ThreeDeck\<close> shows that the shuffle reaches every order of the deck in exactly
  one way and how the deal goes round; \<open>ThreeHands\<close> orders hands by keys, in a locale \<open>ranked\<close> that is interpreted for each of the
  engine's comparisons, and shows that the search over the cards a joker stands for finds the best hand. \<open>ThreeValid\<close> and
  \<open>ThreeInv\<close> read off validation and state the invariant of a session, \<open>ThreeSettle\<close> puts the settlement of a round in closed form,
  \<open>ThreeSteps\<close> and \<open>ThreeSession\<close> treat the commands and whole sessions, and \<open>ThreeRules\<close> holds the properties: sessions
  stay sound, a due timer moves them on, a start deals a uniformly shuffled deck, rounds and session are won by the strongest,
  jokers stand for the best and the timer chooses the weakest cards. One shows a defect: a chosen card makes it impossible to finish.

  \<^bold>\<open>Rooms\<close> (\<open>platform/room/model.go\<close>, \<open>admin.go\<close>, and the checks of \<open>platform/persistence/postgres/room_repository.go\<close>).
  \<open>Room\<close> has the snapshot, \<open>Restore\<close> and all commands. A Go slice shares its array with the copies of the struct that holds
  it, so the three commands that write to the array also return the receiver as it is afterwards. \<open>RoomProps\<close> reads
  \<open>Restore\<close> off as an invariant on a normal form, \<open>RoomCommands\<close> characterises each command, \<open>RoomSteps\<close> makes them
  steps of one machine and shows that each implements one of sixteen abstract changes, \<open>RoomLife\<close> and \<open>RoomErrors\<close> prove what
  all changes have in common, and \<open>RoomRules\<close> holds the properties: rooms stay well formed, are restored unchanged, lose no
  update, implement their life cycle, obey only the host, freeze the roster of a session, and report invalid input
  precisely. One property shows a defect: the removal of a playing participant is rejected unless that participant is
  the last member.

  \<^bold>\<open>Outbox\<close> (\<open>platform/outbox\<close>, \<open>platform/persistence/postgres/outbox_repository.go\<close> with the statements of
  \<open>sqlcgen/outbox.sql.go\<close>, \<open>apps/realtime/internal/fanout\<close> and \<open>revocation\<close>). \<open>Outbox\<close> has names, events and the consumer
  aggregate with its lease, offset and retry state; \<open>OutboxProps\<close> characterises its transitions. \<open>OutboxStore\<close> has the tables,
  the SQL statements as functions on them, the repository and the unit of work. \<open>Dispatcher\<close> has the pass of a worker
  over these. Its environment is arbitrary: clocks, the fate of each transaction (also a commit whose reply is lost), the
  answers of the receiver, and what other processes do between two interactions. \<open>DispatcherProps\<close> proves what a pass keeps,
  relying on others that keep it too, \<open>DispatcherLive\<close> what an undisturbed pass achieves, and \<open>OutboxRules\<close> holds the
  properties: deliveries are in order and at least once, leases exclude, an undisturbed pass drains its batch, rows
  read back, the retry delay is exponential with a cap. One shows that after the last recorded retry the delay is gone.
  A transaction is one atomic step, and the payload of an event is opaque.

  \<^bold>\<open>Rate limits\<close> (\<open>platform/ratelimit\<close>, \<open>platform/persistence/redis\<close>: \<open>script.go\<close>, \<open>rules.go\<close>, \<open>limiter.go\<close>).
  \<open>RateLimit\<close> is the port: buckets, the table of policies, requests, decisions and the ordered consumption, with the limiter
  and the context as arguments on an unknown world; \<open>RateProps\<close> characterises it. \<open>RateBucket\<close> is the limiter over
  Redis with the token bucket script as a function, its rules and its storage keys; \<open>BucketProps\<close> treats sequences of runs
  of the script on a key. \<open>RateRules\<close> holds the properties: an operation is granted exactly when every bucket grants it, a
  refusal stops it, the bucket bounds the rate, the delay of a refusal is exact, buckets share no key. One shows a
  defect: a lifetime check in nanoseconds for a lifetime in milliseconds. \<open>Text\<close> has white space and base64 of the
  standard library, \<open>Selector\<close> the public keys and operation identifiers (\<open>platform/identifier/selector.go\<close>,
  \<open>platform/idempotency\<close>), which are shown to be canonical.

  \<^bold>\<open>Bounds.\<close> No fuel is used: loops are structural or have a measure, except the rejection loop of the three-rounds
  shuffle, which may run forever and is a \<open>partial_function (option)\<close>; that it ends is proved for streams that yield an acceptable word
  from every position on. Integers keep their width (\<open>u32\<close>, \<open>u64\<close>) except Unix
  milliseconds and times, which are integers with the range checks of the source written out. The limit of
  \<open>capacity + 1000000\<close> members of a room and the overflow of version counters appear as branches of the model and as
  hypotheses where a property needs them.

  \<^bold>\<open>Not modelled.\<close> Generated code (protobuf, SQL queries), persistence beyond the tables above and transports, which are input and
  output; the web clients; the adapters of the engines to protobuf messages; the services that orchestrate rooms, the game
  runtime, identity, administration, audit and key management.
\<close>

end
